(* ===== verification/Neo_Prelude.thy ===== *)
theory Neo_Prelude
  imports Main "HOL-Library.Word" "HOL-Library.Multiset" "HOL-Library.List_Lexorder" "HOL-Library.Char_ord"
begin

text \<open>
  The prelude of the development: the machine types of the Go code, decimal printing as
  \<^verbatim>\<open>fmt.Sprintf\<close> does it, the string helpers of the \<^verbatim>\<open>strings\<close> package the components
  use, and the lemmas on lists, association lists and stable sorting that several
  components share.

  Conventions of every theory: a Go \<^verbatim>\<open>int\<close>, \<^verbatim>\<open>int64\<close> or duration is an \<^typ>\<open>int\<close> where no
  arithmetic of the code can come near its bounds, an unsigned counter or hash is a word of
  its width, a byte string is a \<^typ>\<open>string\<close>, and the clock is an argument of each
  operation that reads it.
\<close>

section \<open>Types and collections\<close>

type_synonym u64 = "64 word"
type_synonym u32 = "32 word"
type_synonym time = int  \<comment> \<open>nanoseconds or seconds since the epoch, as the caller says\<close>

named_theorems neo_defs "definitions of operations, to unfold"
named_theorems neo_inv "introduction rules of invariants"

section \<open>Decimal printing\<close>

definition digit_char :: "nat \<Rightarrow> char" where
  "digit_char d = char_of (48 + d)"

fun dec :: "nat \<Rightarrow> string" where
  "dec n = (if n < 10 then [digit_char n] else dec (n div 10) @ [digit_char (n mod 10)])"

declare dec.simps [simp del]

definition dec_int :: "int \<Rightarrow> string" where
  "dec_int z = (if z < 0 then ''-'' @ dec (nat (- z)) else dec (nat z))"

text \<open>\<^verbatim>\<open>%0wd\<close> of a non-negative number.\<close>

definition pad_dec :: "nat \<Rightarrow> nat \<Rightarrow> string" where
  "pad_dec w n = (let s = dec n in replicate (w - length s) CHR ''0'' @ s)"

lemma digit_char_less:
  "a < b \<Longrightarrow> b < 10 \<Longrightarrow> digit_char a < digit_char b"
  by (simp add: digit_char_def less_char_def)

lemma digit_char_inj:
  "a < 10 \<Longrightarrow> b < 10 \<Longrightarrow> digit_char a = digit_char b \<longleftrightarrow> a = b"
  using digit_char_less [of a b] digit_char_less [of b a] by (cases a b rule: linorder_cases) auto

lemma digit_zero: "digit_char 0 = CHR ''0''"
  unfolding digit_char_def by code_simp

lemma dec_ne [simp]: "dec n \<noteq> []"
  by (subst dec.simps) simp

text \<open>Reading a decimal back.\<close>

definition is_digit :: "char \<Rightarrow> bool" where
  "is_digit c \<longleftrightarrow> (let n = of_char c :: nat in 48 \<le> n \<and> n < 58)"

definition digits_val :: "string \<Rightarrow> nat" where
  "digits_val s = fold (\<lambda>c v. 10 * v + (of_char c - 48)) s 0"

lemma digit_char_val: "d < 10 \<Longrightarrow> of_char (digit_char d) = (48 + d :: nat)"
  by (simp add: digit_char_def)

lemma digits_val_dec [simp]: "digits_val (dec n) = n"
proof (induction n rule: dec.induct)
  case (1 n)
  show ?case
  proof (cases "n < 10")
    case True
    then show ?thesis by (simp add: dec.simps [of n] digits_val_def digit_char_val)
  next
    case False
    have "digits_val (dec (n div 10) @ [digit_char (n mod 10)]) = 10 * digits_val (dec (n div 10)) + n mod 10"
      by (simp add: digits_val_def digit_char_val)
    then show ?thesis using 1 [OF False] False by (simp add: dec.simps [of n])
  qed
qed

lemma dec_digits: "list_all is_digit (dec n)"
proof (induction n rule: dec.induct)
  case (1 n)
  moreover have "is_digit (digit_char d)" if "d < 10" for d using that by (simp add: is_digit_def digit_char_val)
  ultimately show ?case by (subst dec.simps) simp
qed

lemma dec_no_char: "\<not> is_digit c \<Longrightarrow> c \<notin> set (dec n)"
  using dec_digits [of n] by (auto simp: list_all_iff)

lemma is_digit_sign [simp]: "\<not> is_digit CHR ''-''" "\<not> is_digit CHR ''+''" "\<not> is_digit CHR ''.''"
  unfolding is_digit_def by code_simp+

lemma dec_int_inj: "dec_int a = dec_int b \<Longrightarrow> a = b"
proof -
  assume e: "dec_int a = dec_int b"
  have neg: "dec n \<noteq> CHR ''-'' # s" for n s using dec_no_char [of "CHR ''-''" n] by force
  have inj: "dec m = dec n \<Longrightarrow> m = n" for m n by (metis digits_val_dec)
  show ?thesis
    using e neg neg [symmetric] inj [of "nat a" "nat b"] inj [of "nat (- a)" "nat (- b)"]
    by (auto simp: dec_int_def split: if_splits)
qed

lemma dec_int_no_dot: "CHR ''.'' \<notin> set (dec_int a)"
  by (simp add: dec_int_def dec_no_char)

lemma pad_dec_3:
  assumes "n < 1000"
  shows "pad_dec 3 n = [digit_char (n div 100), digit_char (n div 10 mod 10), digit_char (n mod 10)]"
proof -
  consider "n < 10" | "10 \<le> n" "n < 100" | "100 \<le> n" by linarith
  then show ?thesis
  proof cases
    case 1
    then have "n div 100 = 0" "n div 10 = 0" "n mod 10 = n" by simp_all
    with 1 show ?thesis
      by (simp add: pad_dec_def dec.simps [of n] digit_zero numeral_2_eq_2)
  next
    case 2
    then have "n div 100 = 0" "n div 10 < 10" by simp_all
    with 2 show ?thesis
      by (simp add: pad_dec_def dec.simps [of n] dec.simps [of "n div 10"] digit_zero)
  next
    case 3
    with assms have a: "n div 10 < 100" "n div 10 div 10 < 10" "10 \<le> n div 10" by simp_all
    have "n div 10 div 10 = n div 100" by (simp add: div_mult2_eq [symmetric])
    with 3 a show ?thesis
      by (simp add: pad_dec_def dec.simps [of n] dec.simps [of "n div 10"]
          dec.simps [of "n div 100"])
  qed
qed

lemma pad_dec_3_less:
  assumes "a < b" "b < 1000"
  shows "pad_dec 3 a < pad_dec 3 b"
proof -
  have eq: "pad_dec 3 a = [digit_char (a div 100), digit_char (a div 10 mod 10), digit_char (a mod 10)]"
    "pad_dec 3 b = [digit_char (b div 100), digit_char (b div 10 mod 10), digit_char (b mod 10)]"
    using assms by (simp_all add: pad_dec_3)
  have bounds: "b div 100 < 10" using assms by simp
  consider "a div 100 < b div 100"
    | "a div 100 = b div 100" "a div 10 mod 10 < b div 10 mod 10"
    | "a div 100 = b div 100" "a div 10 mod 10 = b div 10 mod 10" "a mod 10 < b mod 10"
  proof -
    have split: "n = 100 * (n div 100) + 10 * (n div 10 mod 10) + n mod 10" for n :: nat
    proof -
      have "n div 10 div 10 = n div 100" by (simp add: div_mult2_eq [symmetric])
      moreover have "n = 10 * (n div 10) + n mod 10" by simp
      moreover have "n div 10 = 10 * (n div 10 div 10) + n div 10 mod 10" by simp
      ultimately show ?thesis by linarith
    qed
    have "a div 100 \<le> b div 100" "a div 10 mod 10 < 10" "b div 10 mod 10 < 10" "a mod 10 < 10" "b mod 10 < 10"
      using assms(1) by (simp_all add: div_le_mono)
    then have "a div 100 < b div 100 \<or> a div 100 = b div 100 \<and> (a div 10 mod 10 < b div 10 mod 10 \<or>
        a div 10 mod 10 = b div 10 mod 10 \<and> a mod 10 < b mod 10)"
      using assms(1) split [of a] split [of b] by linarith
    then show ?thesis using that by blast
  qed
  then show ?thesis
    using bounds by cases (simp_all add: eq digit_char_less)
qed

section \<open>Strings\<close>

text \<open>Hexadecimal with a fixed width, as \<^verbatim>\<open>%04x\<close> prints numbers that fit.\<close>

fun hex_digit :: "nat \<Rightarrow> char" where
  "hex_digit d = (if d < 10 then char_of (48 + d) else char_of (87 + d))"

fun hex_pad :: "nat \<Rightarrow> nat \<Rightarrow> string" where
  "hex_pad 0 n = ''''"
| "hex_pad (Suc w) n = hex_pad w (n div 16) @ [hex_digit (n mod 16)]"

text \<open>\<^verbatim>\<open>strings.Contains\<close>, \<^verbatim>\<open>strings.HasPrefix\<close>, \<^verbatim>\<open>strings.Join\<close>, \<^verbatim>\<open>strings.Split\<close>.\<close>

fun has_prefix :: "string \<Rightarrow> string \<Rightarrow> bool" where
  "has_prefix s [] = True"
| "has_prefix [] (p # ps) = False"
| "has_prefix (c # cs) (p # ps) = (c = p \<and> has_prefix cs ps)"

fun str_contains :: "string \<Rightarrow> string \<Rightarrow> bool" where
  "str_contains [] p = has_prefix [] p"
| "str_contains (c # cs) p = (has_prefix (c # cs) p \<or> str_contains cs p)"

fun str_join :: "string \<Rightarrow> string list \<Rightarrow> string" where
  "str_join sep [] = ''''"
| "str_join sep [x] = x"
| "str_join sep (x # y # xs) = x @ sep @ str_join sep (y # xs)"

fun split_char :: "char \<Rightarrow> string \<Rightarrow> string list" where
  "split_char c [] = [[]]"
| "split_char c (x # xs) =
     (if x = c then [] # split_char c xs
      else case split_char c xs of [] \<Rightarrow> [[x]] | w # ws \<Rightarrow> (x # w) # ws)"

definition to_lower_char :: "char \<Rightarrow> char" where
  "to_lower_char c = (let n = of_char c :: nat in if 65 \<le> n \<and> n \<le> 90 then char_of (n + 32) else c)"

text \<open>\<^verbatim>\<open>strings.ToLower\<close> on ASCII text.\<close>

definition to_lower :: "string \<Rightarrow> string" where
  "to_lower s = List.map to_lower_char s"

lemma has_prefix_iff: "has_prefix s p \<longleftrightarrow> (\<exists>r. s = p @ r)"
  by (induction s p rule: has_prefix.induct) auto

lemma str_contains_iff: "str_contains s p \<longleftrightarrow> (\<exists>u v. s = u @ p @ v)"
proof (induction s)
  case Nil
  show ?case by (simp add: has_prefix_iff)
next
  case (Cons c cs)
  show ?case
  proof
    assume "str_contains (c # cs) p"
    then consider "has_prefix (c # cs) p" | "str_contains cs p" by auto
    then show "\<exists>u v. c # cs = u @ p @ v"
    proof cases
      case 1
      then show ?thesis by (metis has_prefix_iff append_Nil)
    next
      case 2
      then obtain u v where "cs = u @ p @ v" using Cons.IH by blast
      then have "c # cs = (c # u) @ p @ v" by simp
      then show ?thesis by blast
    qed
  next
    assume "\<exists>u v. c # cs = u @ p @ v"
    then obtain u v where uv: "c # cs = u @ p @ v" by blast
    show "str_contains (c # cs) p"
    proof (cases u)
      case Nil
      with uv have "has_prefix (c # cs) p" by (auto simp: has_prefix_iff)
      then show ?thesis by simp
    next
      case (Cons d u')
      with uv have "str_contains cs p" using Cons.IH by auto
      then show ?thesis by simp
    qed
  qed
qed

lemma split_char_ne [simp]: "split_char c s \<noteq> []"
  by (cases s) (auto split: list.splits)

lemma join_split: "str_join [c] (split_char c s) = s"
proof (induction s)
  case Nil
  show ?case by simp
next
  case (Cons x xs)
  then show ?case
    by (cases "split_char c xs"; cases "tl (split_char c xs)") auto
qed

lemma split_char_no_sep: "w \<in> set (split_char c s) \<Longrightarrow> c \<notin> set w"
  by (induction s arbitrary: w) (auto split: if_splits list.splits)

section \<open>Association lists\<close>

lemma split_char_plain: "c \<notin> set w \<Longrightarrow> split_char c w = [w]"
  by (induction w) auto

lemma split_char_append: "c \<notin> set w \<Longrightarrow> split_char c (w @ c # s) = w # split_char c s"
  by (induction w) auto

lemma split_join: "ws \<noteq> [] \<Longrightarrow> (\<And>w. w \<in> set ws \<Longrightarrow> c \<notin> set w) \<Longrightarrow> split_char c (str_join [c] ws) = ws"
  by (induction "[c]" ws rule: str_join.induct) (auto simp: split_char_plain split_char_append)

lemma map_of_filter_ne: "map_of (filter (\<lambda>p. fst p \<noteq> k) xs) = (map_of xs)(k := None)"
  by (induction xs) auto

lemma map_of_rev_distinct: "distinct (List.map fst xs) \<Longrightarrow> map_of (rev xs) = map_of xs"
  by (metis distinct_rev map_of_inject_set rev_map set_rev)

lemma map_of_distinct_mem:
  "distinct (List.map fst xs) \<Longrightarrow> (k, v) \<in> set xs \<longleftrightarrow> map_of xs k = Some v"
  by (auto dest: map_of_SomeD)

section \<open>Stable sorting by a descending count\<close>

text \<open>
  The specification of \<^verbatim>\<open>sort.SliceStable\<close> with a greater-than comparison on a counter:
  descending, ties in their old order.
\<close>

definition sort_desc :: "('a \<Rightarrow> u64) \<Rightarrow> 'a list \<Rightarrow> 'a list" where
  "sort_desc f xs = sort_key (\<lambda>x. - uint (f x)) xs"

text \<open>
  The hand-written insertion sort of the caches: for each \<^verbatim>\<open>i\<close> the element at \<^verbatim>\<open>i\<close> is
  swapped down while its left neighbour counts less. \<^verbatim>\<open>sift_down j\<close> is the inner loop
  entered with the loop variable at \<open>j\<close>.
\<close>

definition swap_at :: "nat \<Rightarrow> nat \<Rightarrow> 'a list \<Rightarrow> 'a list" where
  "swap_at i j xs = xs[i := xs ! j, j := xs ! i]"

fun sift_down :: "('a \<Rightarrow> u64) \<Rightarrow> nat \<Rightarrow> 'a list \<Rightarrow> 'a list" where
  "sift_down f 0 xs = xs"
| "sift_down f (Suc j) xs =
     (if f (xs ! j) < f (xs ! Suc j) then sift_down f j (swap_at (Suc j) j xs) else xs)"

definition insertion_desc :: "('a \<Rightarrow> u64) \<Rightarrow> 'a list \<Rightarrow> 'a list" where
  "insertion_desc f xs = fold (sift_down f) [1..<length xs] xs"

lemma length_sift_down [simp]: "length (sift_down f j xs) = length xs"
  by (induction f j xs rule: sift_down.induct) (auto simp: swap_at_def)

text \<open>One pass of the inner loop is an insertion from the right.\<close>

fun insert_desc_r :: "('a \<Rightarrow> u64) \<Rightarrow> 'a \<Rightarrow> 'a list \<Rightarrow> 'a list" where
  "insert_desc_r f x rs =
     (case rs of [] \<Rightarrow> [x] | r # rs' \<Rightarrow> if f r < f x then r # insert_desc_r f x rs' else x # r # rs')"

declare insert_desc_r.simps [simp del]

lemma sift_down_insert:
  "sift_down f (length xs) (xs @ x # ys) = rev (insert_desc_r f x (rev xs)) @ ys"
proof (induction xs arbitrary: ys rule: rev_induct)
  case Nil
  show ?case by (simp add: insert_desc_r.simps)
next
  case (snoc z zs)
  have sw: "swap_at (Suc (length zs)) (length zs) (zs @ z # x # ys) = zs @ x # z # ys"
    by (simp add: swap_at_def list_update_append nth_append)
  show ?case
    using snoc.IH [of "z # ys"] sw
    by (simp add: nth_append insert_desc_r.simps [of f x "z # rev zs"])
qed

lemma insert_desc_r_sorted:
  assumes "sorted (List.map (\<lambda>x. - uint (f x)) xs)"
  shows "sort_key (\<lambda>x. - uint (f x)) (xs @ [x]) = rev (insert_desc_r f x (rev xs))"
proof -
  let ?k = "\<lambda>x. - uint (f x)"
  have ins: "sorted (List.map ?k (rev (insert_desc_r f x (rev ys)))) \<and>
      mset (insert_desc_r f x (rev ys)) = add_mset x (mset ys) \<and>
      (\<forall>c. filter (\<lambda>y. c = ?k y) (rev (insert_desc_r f x (rev ys))) =
        filter (\<lambda>y. c = ?k y) (ys @ [x]))"
    if "sorted (List.map ?k ys)" for ys
    using that
  proof (induction ys rule: rev_induct)
    case Nil
    show ?case by (simp add: insert_desc_r.simps)
  next
    case (snoc z zs)
    then have "sorted (List.map ?k zs)" by (simp add: sorted_append)
    note IH = snoc.IH [OF this]
    show ?case
    proof (cases "f z < f x")
      case True
      then have lt: "?k x < ?k z" by (simp add: word_less_alt)
      have "set (insert_desc_r f x (rev zs)) = insert x (set zs)"
        using IH by (metis set_mset_add_mset_insert set_mset_mset)
      with snoc.prems lt IH True show ?thesis
        by (auto simp: insert_desc_r.simps [of f x "z # rev zs"] sorted_append)
    next
      case False
      then have "?k z \<le> ?k x" by (simp add: word_less_alt)
      with snoc.prems False show ?thesis
        by (auto simp: insert_desc_r.simps [of f x "z # rev zs"] sorted_append)
    qed
  qed
  note i = ins [OF assms]
  show ?thesis
  proof (rule properties_for_sort_key)
    show "mset (rev (insert_desc_r f x (rev xs))) = mset (xs @ [x])"
      using i by simp
    show "filter (\<lambda>y. ?k c = ?k y) (rev (insert_desc_r f x (rev xs))) =
        filter (\<lambda>y. ?k c = ?k y) (xs @ [x])" for c
      by (rule i [THEN conjunct2, THEN conjunct2, THEN spec])
  qed (use i in blast)
qed

lemma sort_key_snoc: "sort_key k (sort_key k ys @ [x]) = sort_key k (ys @ [x])"
proof -
  have st: "filter (\<lambda>z. c = k z) (sort_key k zs) = filter (\<lambda>z. c = k z) zs" for c zs
    using sort_key_stable [of k c zs] by (simp add: eq_commute)
  show ?thesis
    by (rule properties_for_sort_key) (simp_all add: st eq_commute [of "k _" "k _"])
qed

theorem insertion_desc_is_sort_desc: "insertion_desc f xs = sort_desc f xs"
proof -
  have "fold (sift_down f) [1..<n] xs = sort_desc f (take n xs) @ drop n xs"
    if "0 < n" "n \<le> length xs" for n
    using that
  proof (induction n)
    case 0
    then show ?case by simp
  next
    case (Suc n)
    show ?case
    proof (cases "n = 0")
      case True
      with Suc.prems show ?thesis by (cases xs) (simp_all add: sort_desc_def)
    next
      case False
      let ?s = "sort_desc f (take n xs)"
      from Suc.prems have d: "drop n xs = xs ! n # drop (Suc n) xs" "length ?s = n"
        by (simp_all add: Cons_nth_drop_Suc sort_desc_def)
      have "fold (sift_down f) [1..<Suc n] xs = sift_down f n (?s @ xs ! n # drop (Suc n) xs)"
        using Suc False d by simp
      also have "\<dots> = rev (insert_desc_r f (xs ! n) (rev ?s)) @ drop (Suc n) xs"
        using sift_down_insert [of f ?s "xs ! n" "drop (Suc n) xs"] d(2) by simp
      also have "rev (insert_desc_r f (xs ! n) (rev ?s)) =
          sort_key (\<lambda>x. - uint (f x)) (?s @ [xs ! n])"
        by (rule insert_desc_r_sorted [symmetric]) (simp add: sort_desc_def)
      also have "\<dots> = sort_desc f (take (Suc n) xs)"
        using Suc.prems
        by (simp add: take_Suc_conv_app_nth sort_desc_def sort_key_snoc)
      finally show ?thesis .
    qed
  qed
  from this [of "length xs"] show ?thesis
    by (cases xs) (simp_all add: insertion_desc_def sort_desc_def)
qed

lemma sort_desc_set [simp]: "set (sort_desc f xs) = set xs"
  by (simp add: sort_desc_def)

lemma sort_desc_length [simp]: "length (sort_desc f xs) = length xs"
  by (simp add: sort_desc_def)

lemma sort_desc_sorted: "sorted (List.map (\<lambda>x. - uint (f x)) (sort_desc f xs))"
  by (simp add: sort_desc_def)

end
