(* ===== verification/Rag_Ring.thy ===== *)
theory Rag_Ring
  imports Neo_Prelude
begin

text \<open>
  The two circular buffers of \<^verbatim>\<open>pkg/rag/cache_window.go\<close> that every cache of the package
  embeds: \<^verbatim>\<open>missRing\<close> (the last 64 miss targets) and \<^verbatim>\<open>cacheWindow\<close> (the last 4096 hit or
  miss events, with their times).  Both write at \<^verbatim>\<open>pos\<close>, advance it modulo the length and
  let \<^verbatim>\<open>size\<close> grow up to the length; both are read from the newest slot backwards.  The
  locale \<open>ring_log\<close> states what the two promise: a bounded log, newest event first.
\<close>

section \<open>The buffers\<close>

record 'a ring_buf =
  ring :: "'a list"
  pos :: nat
  filled :: nat

type_synonym missRing = "string ring_buf"

record windowEvent =
  ev_t :: time
  ev_hit :: bool

type_synonym cacheWindow = "windowEvent ring_buf"

definition windowCap :: nat where
  "windowCap = 4096"

definition missRingCap :: nat where
  "missRingCap = 64"

definition newMissRing :: missRing where
  "newMissRing = \<lparr>ring = replicate missRingCap '''', pos = 0, filled = 0\<rparr>"

definition newCacheWindow :: cacheWindow where
  "newCacheWindow =
     \<lparr>ring = replicate windowCap \<lparr>ev_t = 0, ev_hit = False\<rparr>, pos = 0, filled = 0\<rparr>"

text \<open>\<^verbatim>\<open>missRing.record\<close>: an empty target is ignored.\<close>

definition missRing_record :: "string \<Rightarrow> missRing \<Rightarrow> missRing" where
  "missRing_record target r =
     (if target = '''' then r
      else r\<lparr>ring := (ring r)[pos r := target],
             pos := (pos r + 1) mod length (ring r),
             filled := (if filled r < length (ring r) then filled r + 1 else filled r)\<rparr>)"

text \<open>\<^verbatim>\<open>cacheWindow.record\<close> at the time \<open>now\<close>.\<close>

definition cacheWindow_record :: "time \<Rightarrow> bool \<Rightarrow> cacheWindow \<Rightarrow> cacheWindow" where
  "cacheWindow_record now hit w =
     w\<lparr>ring := (ring w)[pos w := \<lparr>ev_t = now, ev_hit = hit\<rparr>],
       pos := (pos w + 1) mod length (ring w),
       filled := (if filled w < length (ring w) then filled w + 1 else filled w)\<rparr>"

text \<open>The slot of the \<open>i\<close>-th newest event: \<^verbatim>\<open>(pos - 1 - i + len) % len\<close>.\<close>

definition ring_idx :: "'a ring_buf \<Rightarrow> nat \<Rightarrow> nat" where
  "ring_idx r i = nat ((int (pos r) - 1 - int i + int (length (ring r))) mod int (length (ring r)))"

text \<open>\<^verbatim>\<open>missRing.recent\<close>: the loop with its counter \<open>i\<close>, its \<open>seen\<close> set and its output.\<close>

function recent_loop :: "missRing \<Rightarrow> nat \<Rightarrow> nat \<Rightarrow> string list \<Rightarrow> string list" where
  "recent_loop r n i out =
     (if i < filled r \<and> length out < n then
        (let t = ring r ! ring_idx r i
         in if t = '''' then recent_loop r n (i + 1) out
            else if t \<in> set out then recent_loop r n (i + 1) out
            else recent_loop r n (i + 1) (out @ [t]))
      else out)"
  by pat_completeness auto
termination
  by (relation "measure (\<lambda>(r, n, i, out). filled r - i)") auto

declare recent_loop.simps [simp del]

definition missRing_recent :: "int \<Rightarrow> missRing \<Rightarrow> string list" where
  "missRing_recent n r = (if n \<le> 0 \<or> filled r = 0 then [] else recent_loop r (nat n) 0 [])"

text \<open>\<^verbatim>\<open>cacheWindow.windowed\<close>: the scan stops at the first event older than the cutoff.\<close>

function windowed_loop :: "cacheWindow \<Rightarrow> time \<Rightarrow> nat \<Rightarrow> u64 \<Rightarrow> u64 \<Rightarrow> u64 \<times> u64" where
  "windowed_loop w cutoff i hits misses =
     (if i < filled w then
        (let ev = ring w ! ring_idx w i
         in if ev_t ev < cutoff then (hits, misses)
            else if ev_hit ev then windowed_loop w cutoff (i + 1) (hits + 1) misses
            else windowed_loop w cutoff (i + 1) hits (misses + 1))
      else (hits, misses))"
  by pat_completeness auto
termination
  by (relation "measure (\<lambda>(w, c, i, h, m). filled w - i)") auto

declare windowed_loop.simps [simp del]

definition cacheWindow_windowed :: "time \<Rightarrow> int \<Rightarrow> cacheWindow \<Rightarrow> u64 \<times> u64" where
  "cacheWindow_windowed now d w =
     (if d \<le> 0 then (0, 0) else windowed_loop w (now - d) 0 0 0)"

section \<open>The abstract log\<close>

definition ring_ok :: "nat \<Rightarrow> 'a ring_buf \<Rightarrow> bool" where
  "ring_ok n r \<longleftrightarrow> length (ring r) = n \<and> 0 < n \<and> pos r < n \<and> filled r \<le> n"

text \<open>The events of the buffer, newest first.\<close>

definition ring_view :: "'a ring_buf \<Rightarrow> 'a list" where
  "ring_view r = List.map (\<lambda>i. ring r ! ring_idx r i) [0..<filled r]"

definition ring_push :: "'a \<Rightarrow> 'a ring_buf \<Rightarrow> 'a ring_buf" where
  "ring_push x r =
     r\<lparr>ring := (ring r)[pos r := x], pos := (pos r + 1) mod length (ring r),
       filled := (if filled r < length (ring r) then filled r + 1 else filled r)\<rparr>"

lemma missRing_record_push:
  "missRing_record t r = (if t = '''' then r else ring_push t r)"
  by (simp add: missRing_record_def ring_push_def)

lemma cacheWindow_record_push:
  "cacheWindow_record now h w = ring_push \<lparr>ev_t = now, ev_hit = h\<rparr> w"
  by (simp add: cacheWindow_record_def ring_push_def)

lemma ring_ok_push: "ring_ok n r \<Longrightarrow> ring_ok n (ring_push x r)"
  by (auto simp: ring_ok_def ring_push_def)

lemma ring_idx_bound: "ring_ok n r \<Longrightarrow> ring_idx r i < n"
  by (simp add: ring_ok_def ring_idx_def nat_less_iff)

lemma ring_idx_eq:
  assumes "ring_ok n r" "i < n"
  shows "ring_idx r i = (if i < pos r then pos r - 1 - i else pos r + n - 1 - i)"
proof (cases "i < pos r")
  case True
  have "(int (pos r) - 1 - int i + int n) mod int n = (int (pos r) - 1 - int i) mod int n" by simp
  also have "\<dots> = int (pos r) - 1 - int i"
    using True assms by (intro mod_pos_pos_trivial) (auto simp: ring_ok_def)
  finally show ?thesis using True assms by (simp add: ring_idx_def ring_ok_def)
next
  case False
  have "(int (pos r) - 1 - int i + int n) mod int n = int (pos r) - 1 - int i + int n"
    using False assms by (intro mod_pos_pos_trivial) (auto simp: ring_ok_def)
  then show ?thesis using False assms by (simp add: ring_idx_def ring_ok_def)
qed

lemma ring_view_length [simp]: "length (ring_view r) = filled r"
  by (simp add: ring_view_def)

lemma ring_view_push:
  assumes ok: "ring_ok n r"
  shows "ring_view (ring_push x r) = take n (x # ring_view r)"
proof (rule nth_equalityI)
  let ?r = "ring_push x r"
  from ok have n: "length (ring r) = n" "0 < n" "pos r < n" "filled r \<le> n" by (auto simp: ring_ok_def)
  show len: "length (ring_view ?r) = length (take n (x # ring_view r))"
    using n by (simp add: ring_push_def)
  fix i assume "i < length (ring_view ?r)"
  then have i: "i < filled ?r" "i < n" using n by (auto simp: ring_push_def split: if_splits)
  have ok': "ring_ok n ?r" using ok by (rule ring_ok_push)
  have p: "pos ?r = (if pos r + 1 = n then 0 else pos r + 1)"
    using n by (auto simp: ring_push_def)
  have lhs: "ring_view ?r ! i = ((ring r)[pos r := x]) ! ring_idx ?r i"
    using i by (simp add: ring_view_def) (simp add: ring_push_def)
  show "ring_view ?r ! i = take n (x # ring_view r) ! i"
  proof (cases i)
    case 0
    then have "ring_idx ?r i = pos r"
      using n p ring_idx_eq [OF ok' i(2)] by (simp split: if_splits)
    with lhs 0 n show ?thesis by simp
  next
    case (Suc j)
    with i n have j: "j < filled r" "j < n" by (auto simp: ring_push_def split: if_splits)
    have "ring_idx r j \<noteq> pos r"
      using n j i(2) Suc by (auto simp: ring_idx_eq [OF ok j(2)])
    moreover have "ring_idx ?r i = ring_idx r j"
      using n p Suc i j ring_idx_eq [OF ok' i(2)] ring_idx_eq [OF ok j(2)]
      by (auto split: if_splits)
    ultimately have "ring_idx ?r i = ring_idx r j" "ring_idx r j \<noteq> pos r" by simp_all
    with lhs j Suc i(2) show ?thesis by (simp add: ring_view_def)
  qed
qed

section \<open>The contract\<close>

locale ring_log =
  fixes push :: "'e \<Rightarrow> 's \<Rightarrow> 's"
    and accept :: "'e \<Rightarrow> bool"
    and view :: "'s \<Rightarrow> 'e list"
    and bound :: nat
    and invar :: "'s \<Rightarrow> bool"
    and init :: 's
  assumes invar_init: "invar init"
    and view_init: "view init = []"
    and invar_push: "invar s \<Longrightarrow> invar (push e s)"
    and view_push: "invar s \<Longrightarrow> view (push e s) = (if accept e then take bound (e # view s) else view s)"
begin

lemma invar_fold: "invar s \<Longrightarrow> invar (fold push es s)"
  by (induction es arbitrary: s) (auto intro: invar_push)

lemma view_fold: "invar s \<Longrightarrow> length (view s) \<le> bound \<Longrightarrow>
    view (fold push es s) = take bound (rev (filter accept es) @ view s)"
proof (induction es arbitrary: s)
  case Nil
  then show ?case by simp
next
  case (Cons e es)
  have tt: "take bound (ys @ take bound zs) = take bound (ys @ zs)" for ys zs :: "'e list"
    by (simp add: min_def)
  have "length (view (push e s)) \<le> bound" using Cons.prems by (simp add: view_push)
  then have "view (fold push (e # es) s) = take bound (rev (filter accept es) @ view (push e s))"
    using Cons.IH [of "push e s"] Cons.prems by (simp add: invar_push)
  also have "\<dots> = take bound (rev (filter accept (e # es)) @ view s)"
    using Cons.prems tt [of "rev (filter accept es)" "e # view s"]
    by (simp add: view_push del: take_append)
  finally show ?case .
qed

text \<open>Whatever was recorded, the log holds exactly the newest \<open>bound\<close> accepted events.\<close>

lemma invar_history: "invar (fold push es init)"
  by (rule invar_fold [OF invar_init])

lemma view_history: "view (fold push es init) = take bound (rev (filter accept es))"
  using view_fold [OF invar_init, of es] by (simp add: view_init)

end

lemma ring_ok_new: "ring_ok missRingCap newMissRing" "ring_ok windowCap newCacheWindow"
  by (simp_all add: ring_ok_def newMissRing_def newCacheWindow_def missRingCap_def windowCap_def)

lemma ring_view_new: "ring_view newMissRing = []" "ring_view newCacheWindow = []"
  by (simp_all add: ring_view_def newMissRing_def newCacheWindow_def)

interpretation mring: ring_log missRing_record "\<lambda>t. t \<noteq> ''''" ring_view missRingCap
    "ring_ok missRingCap" newMissRing
  by unfold_locales
    (simp_all add: missRing_record_push ring_ok_push ring_view_push ring_ok_new ring_view_new)

interpretation wring: ring_log "\<lambda>e. cacheWindow_record (ev_t e) (ev_hit e)" "\<lambda>_. True" ring_view windowCap
    "ring_ok windowCap" newCacheWindow
proof unfold_locales
  have eta: "\<lparr>ev_t = ev_t e, ev_hit = ev_hit e\<rparr> = e" for e by (cases e) simp
  show "ring_view (cacheWindow_record (ev_t e) (ev_hit e) s) =
      (if True then take windowCap (e # ring_view s) else ring_view s)"
    if "ring_ok windowCap s" for s e
    using that by (simp add: cacheWindow_record_push ring_view_push eta)
qed (simp_all add: cacheWindow_record_push ring_ok_push ring_ok_new ring_view_new)

section \<open>Reading the buffers\<close>

text \<open>The specification of \<^verbatim>\<open>recent\<close>: the first \<open>n\<close> distinct non-empty targets, newest first.\<close>

fun distinct_first :: "'a list \<Rightarrow> 'a list \<Rightarrow> 'a list" where
  "distinct_first acc [] = acc"
| "distinct_first acc (x # xs) = distinct_first (if x \<in> set acc then acc else acc @ [x]) xs"

lemma distinct_first_prefix: "\<exists>ys. distinct_first acc xs = acc @ ys"
proof (induction xs arbitrary: acc)
  case (Cons x xs)
  from Cons [of "acc @ [x]"] Cons [of acc] show ?case by auto
qed simp

lemma distinct_first_distinct: "distinct acc \<Longrightarrow> distinct (distinct_first acc xs)"
  by (induction xs arbitrary: acc) auto

lemma distinct_first_set: "set (distinct_first acc xs) = set acc \<union> set xs"
  by (induction xs arbitrary: acc) auto

lemma distinct_first_take:
  "n \<le> length acc \<Longrightarrow> take n (distinct_first acc xs) = take n acc"
  using distinct_first_prefix [of acc xs] by auto

lemma recent_loop_spec:
  "length out \<le> n \<Longrightarrow> recent_loop r n i out =
     take n (distinct_first out (filter (\<lambda>t. t \<noteq> '''') (drop i (ring_view r))))"
proof (induction r n i out rule: recent_loop.induct)
  case (1 r n i out)
  note IH = "1.IH" and out = "1.prems"
  show ?case
  proof (cases "i < filled r \<and> length out < n")
    case False
    then consider "filled r \<le> i" | "n = length out" using out by linarith
    then show ?thesis
    proof cases
      case 1
      with out show ?thesis by (simp add: recent_loop.simps [of r n i out])
    next
      case 2
      then have "recent_loop r n i out = out" by (subst recent_loop.simps) simp
      with 2 show ?thesis by (simp add: distinct_first_take)
    qed
  next
    case True
    let ?t = "ring r ! ring_idx r i"
    have d: "drop i (ring_view r) = ?t # drop (Suc i) (ring_view r)"
      using True by (simp add: Cons_nth_drop_Suc [symmetric]) (simp add: ring_view_def)
    show ?thesis
      using True IH d by (simp add: recent_loop.simps [of r n i out])
  qed
qed

text \<open>The specification of \<^verbatim>\<open>windowed\<close>: hits and misses among the newest events up to the cutoff.\<close>

definition count_u64 :: "('a \<Rightarrow> bool) \<Rightarrow> 'a list \<Rightarrow> u64" where
  "count_u64 P xs = of_nat (length (filter P xs))"

lemma windowed_loop_spec:
  "windowed_loop w c i h m =
     (let evs = takeWhile (\<lambda>e. c \<le> ev_t e) (drop i (ring_view w))
      in (h + count_u64 ev_hit evs, m + count_u64 (\<lambda>e. \<not> ev_hit e) evs))"
proof (induction w c i h m rule: windowed_loop.induct)
  case (1 w c i h m)
  show ?case
  proof (cases "i < filled w")
    case False
    then show ?thesis by (simp add: windowed_loop.simps [of w c i] count_u64_def)
  next
    case True
    let ?e = "ring w ! ring_idx w i"
    have "drop i (ring_view w) = ?e # drop (Suc i) (ring_view w)"
      using True by (simp add: Cons_nth_drop_Suc [symmetric]) (simp add: ring_view_def)
    then show ?thesis
      using True "1.IH" by (simp add: windowed_loop.simps [of w c i] Let_def count_u64_def add.assoc)
  qed
qed

lemma takeWhile_sorted_filter:
  "sorted_wrt (\<lambda>a b. ev_t b \<le> ev_t a) es \<Longrightarrow>
     takeWhile (\<lambda>e. c \<le> ev_t e) es = filter (\<lambda>e. c \<le> ev_t e) es"
  by (induction es) (fastforce intro!: filter_False [symmetric])+

end
