(* ===== verification/Lru_Iface.thy ===== *)
theory Lru_Iface
  imports Neo_Prelude
begin

text \<open>
  The contract the three caches of \<^verbatim>\<open>pkg/rag\<close> (\<^verbatim>\<open>Cache\<close>, \<^verbatim>\<open>QueryCache\<close>, \<^verbatim>\<open>TextCache\<close>) share, as a
  locale over their \<^verbatim>\<open>Get\<close>, \<^verbatim>\<open>PutAnnotated\<close> and \<^verbatim>\<open>Resize\<close>: a bounded list of
  (key, value, generation) triples, most recently used first.  What a client relies on is
  proved once here: a stored value is served until its generation is bumped, another value
  is stored under its key, or as many other keys as the capacity are touched since its last use.
\<close>

datatype ('a, 'k, 'v) cache_op =
    OpGet 'k u64 time
  | OpPut 'a 'k 'v u64

fun op_key :: "('a, 'k, 'v) cache_op \<Rightarrow> 'k" where
  "op_key (OpGet k g t) = k"
| "op_key (OpPut a k v g) = k"

text \<open>The last value and generation a history stores under a key.\<close>

definition last_put :: "'k \<Rightarrow> ('a, 'k, 'v) cache_op list \<Rightarrow> ('v \<times> u64) option" where
  "last_put k ops = fold (\<lambda>op r. case op of OpPut a j v g \<Rightarrow> if j = k then Some (v, g) else r | OpGet _ _ _ \<Rightarrow> r) ops None"

lemma last_put_snoc [simp]:
  "last_put k (ops @ [OpGet j g t]) = last_put k ops"
  "last_put k (ops @ [OpPut a j v g]) = (if j = k then Some (v, g) else last_put k ops)"
  by (simp_all add: last_put_def)

lemma last_put_Nil [simp]: "last_put k [] = None"
  by (simp add: last_put_def)

text \<open>
  Key \<open>k\<close> stays among the \<open>n\<close> keys used last: its only operations are lookups at generation \<open>g\<close>, and
  between any of these, and since the last, fewer than \<open>n\<close> other keys are touched. \<open>T\<close> holds the
  keys touched since \<open>k\<close> was.
\<close>

fun stays_recent :: "'k \<Rightarrow> u64 \<Rightarrow> int \<Rightarrow> 'k set \<Rightarrow> ('a, 'k, 'v) cache_op list \<Rightarrow> bool" where
  "stays_recent k g n T [] \<longleftrightarrow> True"
| "stays_recent k g n T (op # ops) \<longleftrightarrow>
     (if op_key op = k then (case op of OpGet _ h _ \<Rightarrow> h = g | OpPut _ _ _ _ \<Rightarrow> False) \<and> stays_recent k g n {} ops
      else int (card (insert (op_key op) T)) < n \<and> stays_recent k g n (insert (op_key op) T) ops)"

abbreviation key_of :: "'k \<times> 'v \<times> u64 \<Rightarrow> 'k" where
  "key_of \<equiv> fst"

definition drop_key :: "'k \<Rightarrow> ('k \<times> 'x) list \<Rightarrow> ('k \<times> 'x) list" where
  "drop_key k xs = filter (\<lambda>p. fst p \<noteq> k) xs"

lemma drop_key_notin [simp]: "k \<notin> fst ` set xs \<Longrightarrow> drop_key k xs = xs"
  by (induction xs) (auto simp: drop_key_def)

lemma drop_key_append [simp]: "drop_key k (xs @ ys) = drop_key k xs @ drop_key k ys"
  by (simp add: drop_key_def)

lemma drop_key_Cons [simp]:
  "drop_key k (x # xs) = (if fst x = k then drop_key k xs else x # drop_key k xs)"
  by (simp add: drop_key_def)

lemma set_drop_key: "fst ` set (drop_key k xs) = fst ` set xs - {k}"
  by (auto simp: drop_key_def)

lemma map_of_drop_key: "map_of (drop_key k xs) = (map_of xs)(k := None)"
  unfolding drop_key_def by (rule map_of_filter_ne)

locale lru_cache =
  fixes get :: "'k \<Rightarrow> u64 \<Rightarrow> time \<Rightarrow> 's \<Rightarrow> 'v option \<times> 's"
    and put :: "'a \<Rightarrow> 'k \<Rightarrow> 'v \<Rightarrow> u64 \<Rightarrow> 's \<Rightarrow> 's"
    and view :: "'s \<Rightarrow> ('k \<times> 'v \<times> u64) list"
    and cap :: "'s \<Rightarrow> int"
    and invar :: "'s \<Rightarrow> bool"
  assumes view_distinct: "invar s \<Longrightarrow> distinct (List.map fst (view s))"
    and view_bound: "invar s \<Longrightarrow> 0 < cap s \<Longrightarrow> int (length (view s)) \<le> cap s"
    and get_result: "invar s \<Longrightarrow> 0 < cap s \<Longrightarrow> fst (get k g t s) =
          (case map_of (view s) k of Some (v, h) \<Rightarrow> if h = g then Some v else None | None \<Rightarrow> None)"
    and get_view: "invar s \<Longrightarrow> 0 < cap s \<Longrightarrow> view (snd (get k g t s)) =
          (case map_of (view s) k of
             Some (v, h) \<Rightarrow> if h = g then (k, v, h) # drop_key k (view s) else drop_key k (view s)
           | None \<Rightarrow> view s)"
    and put_view: "invar s \<Longrightarrow> 0 < cap s \<Longrightarrow>
          view (put a k v g s) = take (nat (cap s)) ((k, v, g) # drop_key k (view s))"
    and invar_get: "invar s \<Longrightarrow> invar (snd (get k g t s))"
    and invar_put: "invar s \<Longrightarrow> invar (put a k v g s)"
    and cap_get: "cap (snd (get k g t s)) = cap s"
    and cap_put: "cap (put a k v g s) = cap s"
begin

fun exec :: "('a, 'k, 'v) cache_op \<Rightarrow> 's \<Rightarrow> 's" where
  "exec (OpGet k g t) s = snd (get k g t s)"
| "exec (OpPut a k v g) s = put a k v g s"

lemma exec_invar: "invar s \<Longrightarrow> invar (exec op s)"
  by (cases op) (auto intro: invar_get invar_put)

lemma exec_cap: "cap (exec op s) = cap s"
  by (cases op) (auto simp: cap_get cap_put)

lemma run_invar: "invar s \<Longrightarrow> invar (fold exec ops s) \<and> cap (fold exec ops s) = cap s"
  by (induction ops arbitrary: s) (auto simp: exec_invar exec_cap)

lemma get_after_put:
  assumes "invar s" "0 < cap s"
  shows "fst (get k g t (put a k v g s)) = Some v"
proof -
  have "nat (cap s) \<noteq> 0" using assms by simp
  then obtain n where n: "nat (cap s) = Suc n" by (cases "nat (cap s)") auto
  have "0 < cap (put a k v g s)" using assms by (simp add: cap_put)
  from get_result [OF invar_put [OF assms(1)] this] show ?thesis
    by (simp add: put_view [OF assms] n)
qed

lemma stale_after_bump:
  assumes "invar s" "0 < cap s" "g \<noteq> h"
  shows "fst (get k h t (put a k v g s)) = None"
proof -
  have "nat (cap s) \<noteq> 0" using assms by simp
  then obtain n where n: "nat (cap s) = Suc n" by (cases "nat (cap s)") auto
  have "0 < cap (put a k v g s)" using assms by (simp add: cap_put)
  from get_result [OF invar_put [OF assms(1)] this] show ?thesis
    using assms(3) by (simp add: put_view [OF assms(1,2)] n)
qed

text \<open>
  One operation on another key: the entry of \<open>k\<close> stays, and what stands before it is
  drawn from the keys touched so far.
\<close>

lemma exec_keeps:
  assumes inv: "invar s" and cap: "0 < cap s"
    and v: "view s = pre @ (k, x) # post" and T: "fst ` set pre \<subseteq> T" "k \<notin> T" "finite T"
    and op: "op_key op \<noteq> k" and card: "int (card (insert (op_key op) T)) < cap s"
  shows "\<exists>pre' post'. view (exec op s) = pre' @ (k, x) # post' \<and>
           fst ` set pre' \<subseteq> insert (op_key op) T"
proof -
  let ?j = "op_key op"
  have touch: "\<exists>pre' post'. (?j, y) # drop_key ?j (view s) = pre' @ (k, x) # post' \<and>
      fst ` set pre' \<subseteq> insert ?j T" for y
    using op T v by (intro exI [of _ "(?j, y) # drop_key ?j pre"] exI [of _ "drop_key ?j post"])
      (auto simp: drop_key_def)
  show ?thesis
  proof (cases op)
    case (OpGet k' g t)
    show ?thesis
    proof (cases "map_of (view s) k'")
      case None
      then have "view (exec op s) = view s"
        by (simp only: OpGet exec.simps get_view [OF inv cap] option.case)
      with v T show ?thesis by auto
    next
      case (Some p)
      obtain w h where p: "p = (w, h)" by fastforce
      show ?thesis
      proof (cases "h = g")
        case True
        with touch [of "(w, h)"] OpGet Some p show ?thesis
          by (auto simp: get_view [OF inv cap])
      next
        case False
        have "drop_key k' (view s) = drop_key k' pre @ (k, x) # drop_key k' post"
          using v op OpGet by simp
        moreover have "view (exec op s) = drop_key k' (view s)"
          using False OpGet Some p by (simp add: get_view [OF inv cap])
        moreover have "fst ` set (drop_key k' pre) \<subseteq> insert ?j T"
          using T(1) by (auto simp: set_drop_key)
        ultimately show ?thesis by auto
      qed
    qed
  next
    case (OpPut a k' w g)
    have dist: "distinct (List.map fst ((k', w, g) # drop_key k' (view s)))"
      using view_distinct [OF inv] by (auto simp: drop_key_def distinct_map_filter)
    from touch [of "(w, g)"] OpPut obtain pre' post' where
      pp: "(k', w, g) # drop_key k' (view s) = pre' @ (k, x) # post'"
        "fst ` set pre' \<subseteq> insert ?j T" by auto
    have "distinct (List.map fst pre')" using dist pp(1) by simp
    then have "length pre' = card (fst ` set pre')" using distinct_card by fastforce
    also have "\<dots> \<le> card (insert ?j T)" using pp(2) T(3) by (intro card_mono) auto
    finally have len: "length pre' < nat (cap s)" using card by linarith
    have "view (exec op s) = take (nat (cap s)) (pre' @ (k, x) # post')"
      using OpPut pp(1) by (simp add: put_view [OF inv cap])
    also have "\<dots> = pre' @ (k, x) # take (nat (cap s) - length pre' - 1) post'"
      using len by (simp add: take_Cons')
    finally show ?thesis using pp(2) by blast
  qed
qed

text \<open>
  What is in the cache under a key is what the last store of that key put there, whatever
  lookups, stores and evictions happened since.
\<close>

lemma view_last_put:
  assumes "invar s" "0 < cap s" "view s = []" "map_of (view (fold exec ops s)) k = Some (v, g)"
  shows "last_put k ops = Some (v, g)"
  using assms(4)
proof (induction ops rule: rev_induct)
  case Nil
  then show ?case using assms(3) by simp
next
  case (snoc op ops)
  let ?s = "fold exec ops s"
  have s: "invar ?s" "0 < cap ?s" using run_invar [OF assms(1), of ops] assms(2) by auto
  have sub: "map_of (view (exec op ?s)) k = Some (v, g)" using snoc.prems by simp
  show ?case
  proof (cases op)
    case (OpGet j h t)
    then have "map_of (view ?s) k = Some (v, g)"
      using sub get_view [OF s, of j h t]
      by (auto simp: map_of_drop_key split: option.splits if_splits)
    then show ?thesis using snoc.IH OpGet by simp
  next
    case (OpPut a j w h)
    let ?xs = "(j, w, h) # drop_key j (view ?s)"
    have "distinct (List.map fst ?xs)"
      using view_distinct [OF s(1)] by (auto simp: drop_key_def distinct_map_filter)
    then have "map_of ?xs k = Some (v, g)"
      using sub put_view [OF s, of a j w h] OpPut
      by (metis exec.simps(2) in_set_takeD map_of_SomeD map_of_is_SomeI)
    then show ?thesis using snoc.IH OpPut by (auto simp: map_of_drop_key split: if_splits)
  qed
qed

lemma hit_is_last_put:
  assumes "invar s" "0 < cap s" "view s = []" "fst (get k g t (fold exec ops s)) = Some v"
  shows "last_put k ops = Some (v, g)"
proof (rule view_last_put [OF assms(1-3)])
  show "map_of (view (fold exec ops s)) k = Some (v, g)"
    using assms(4) get_result [of "fold exec ops s" k g t] run_invar [OF assms(1), of ops] assms(2)
    by (auto split: option.splits if_splits)
qed

text \<open>The retention guarantee of the cache: a lookup that hits keeps the entry and puts it first.\<close>

lemma run_recent:
  assumes "invar s" "0 < cap s" "view s = pre @ (k, v, g) # post" "fst ` set pre \<subseteq> T" "k \<notin> T" "finite T"
    "stays_recent k g (cap s) T ops"
  shows "map_of (view (fold exec ops s)) k = Some (v, g)"
  using assms
proof (induction ops arbitrary: s pre post T)
  case Nil
  have "distinct (List.map fst (view s))" using Nil.prems(1) by (rule view_distinct)
  moreover have "(k, v, g) \<in> set (view s)" using Nil.prems(3) by simp
  ultimately show ?case by (simp add: map_of_is_SomeI)
next
  case (Cons op ops)
  have s: "invar (exec op s)" "cap (exec op s) = cap s" using Cons.prems(1) by (simp_all add: exec_invar exec_cap)
  show ?case
  proof (cases "op_key op = k")
    case True
    then obtain t where op: "op = OpGet k g t" using Cons.prems(7) by (cases op) auto
    have "map_of (view s) k = Some (v, g)"
      using view_distinct [OF Cons.prems(1)] by (rule map_of_is_SomeI) (simp add: Cons.prems(3))
    then have "view (exec op s) = [] @ (k, v, g) # drop_key k (view s)"
      by (simp add: op get_view [OF Cons.prems(1,2)])
    from Cons.IH [OF s(1) _ this, of "{}"] show ?thesis using Cons.prems(2,7) s(2) op by simp
  next
    case False
    then have rec: "int (card (insert (op_key op) T)) < cap s" "stays_recent k g (cap s) (insert (op_key op) T) ops"
      using Cons.prems(7) by simp_all
    obtain pre' post' where v: "view (exec op s) = pre' @ (k, v, g) # post'" "fst ` set pre' \<subseteq> insert (op_key op) T"
      using exec_keeps [OF Cons.prems(1-6) False rec(1)] by blast
    from Cons.IH [OF s(1) _ v] show ?thesis using Cons.prems(2,5,6) False rec(2) s(2) by simp
  qed
qed

lemma stays_cached:
  assumes "invar s" "0 < cap s" "stays_recent k g (cap s) {} ops"
  shows "fst (get k g t (fold exec ops (put a k v g s))) = Some v"
proof -
  let ?s = "put a k v g s"
  have "nat (cap s) \<noteq> 0" using assms by simp
  then obtain n where n: "nat (cap s) = Suc n" by (cases "nat (cap s)") auto
  then have "view ?s = [] @ (k, v, g) # take n (drop_key k (view s))"
    by (simp add: put_view [OF assms(1,2)])
  then have m: "map_of (view (fold exec ops ?s)) k = Some (v, g)"
    using assms by (intro run_recent [where T = "{}"]) (auto simp: invar_put cap_put)
  have r: "invar (fold exec ops ?s)" "0 < cap (fold exec ops ?s)"
    using run_invar [OF invar_put [OF assms(1)]] assms(2) by (auto simp: cap_put)
  show ?thesis using get_result [OF r] m by simp
qed

end

text \<open>The caches that can be resized at run time.\<close>

locale lru_resizable = lru_cache get put view cap invar
  for get :: "'k \<Rightarrow> u64 \<Rightarrow> time \<Rightarrow> 's \<Rightarrow> 'v option \<times> 's"
    and put :: "'a \<Rightarrow> 'k \<Rightarrow> 'v \<Rightarrow> u64 \<Rightarrow> 's \<Rightarrow> 's"
    and view cap invar +
  fixes resize :: "int \<Rightarrow> 's \<Rightarrow> 's"
  assumes resize_view: "invar s \<Longrightarrow> view (resize n s) = (if n \<le> 0 then view s else take (nat n) (view s))"
    and resize_cap: "cap (resize n s) = n"
    and resize_invar: "invar s \<Longrightarrow> invar (resize n s)"
begin

lemma resize_keeps_recent:
  assumes "invar s" "0 < n" "i < length (view s)" "int i < n"
  shows "view (resize n s) ! i = view s ! i"
  using assms by (simp add: resize_view)

lemma resize_bound: "invar s \<Longrightarrow> 0 < n \<Longrightarrow> int (length (view (resize n s))) \<le> n"
  using view_bound [OF resize_invar, of s n] by (simp add: resize_cap)

lemma get_after_resize:
  assumes "invar s" "0 < cap s" "0 < n"
  shows "fst (get k g t (resize n (put a k v g s))) = Some v"
proof -
  obtain m c where "nat (cap s) = Suc c" "nat n = Suc m"
    using assms by (metis Suc_pred' zero_less_nat_eq)
  then have "map_of (view (resize n (put a k v g s))) k = Some (v, g)"
    using assms by (simp add: resize_view invar_put put_view)
  then show ?thesis
    using get_result [OF resize_invar [OF invar_put [OF assms(1)]]] assms by (simp add: resize_cap)
qed

end

end
