(* ===== verification/Rag_Lru.thy ===== *)
theory Rag_Lru
  imports Rag_Ring Lru_Iface
begin

text \<open>
  What the three caches of \<^verbatim>\<open>pkg/rag\<close> are made of: a \<^verbatim>\<open>container/list\<close> of elements, front
  most recently used, and a Go map from keys to elements.  Elements are shared between the
  two by pointer, so the model keeps a store: an element is a handle, \<open>c_cell\<close> maps it to
  the entry it holds, \<open>c_ll\<close> is the list of handles and \<open>c_items\<close> the map.  The invariant
  \<open>lru_inv\<close> says that map, list and store agree, and \<open>entries\<close> reads the state as the list
  of entries, most recent first.  The three step shapes (lookup, store, shrink) that the
  caches spell out are characterised here once, on \<open>entries\<close>.
\<close>

record ('k, 'e) lru =
  c_capacity :: int
  c_items :: "'k \<Rightarrow> nat option"
  c_ll :: "nat list"
  c_cell :: "nat \<Rightarrow> 'e option"
  c_next :: nat
  c_hits :: u64
  c_misses :: u64
  c_evicts :: u64
  c_window :: cacheWindow
  c_missRing :: missRing

definition lru_new :: "int \<Rightarrow> ('k, 'e) lru" where
  "lru_new capacity =
     \<lparr>c_capacity = capacity, c_items = Map.empty, c_ll = [], c_cell = Map.empty, c_next = 0,
      c_hits = 0, c_misses = 0, c_evicts = 0,
      c_window = newCacheWindow, c_missRing = newMissRing\<rparr>"

section \<open>container/list\<close>

definition list_Remove :: "nat \<Rightarrow> ('k, 'e) lru \<Rightarrow> ('k, 'e) lru" where
  "list_Remove el c = c\<lparr>c_ll := remove1 el (c_ll c)\<rparr>"

definition list_MoveToFront :: "nat \<Rightarrow> ('k, 'e) lru \<Rightarrow> ('k, 'e) lru" where
  "list_MoveToFront el c =
     (if el \<in> set (c_ll c) then c\<lparr>c_ll := el # remove1 el (c_ll c)\<rparr> else c)"

definition list_PushFront :: "'e \<Rightarrow> ('k, 'e) lru \<Rightarrow> nat \<times> ('k, 'e) lru" where
  "list_PushFront e c =
     (c_next c, c\<lparr>c_ll := c_next c # c_ll c, c_cell := (c_cell c)(c_next c \<mapsto> e), c_next := c_next c + 1\<rparr>)"

definition list_Back :: "('k, 'e) lru \<Rightarrow> nat option" where
  "list_Back c = (if c_ll c = [] then None else Some (last (c_ll c)))"

definition list_Len :: "('k, 'e) lru \<Rightarrow> int" where
  "list_Len c = int (length (c_ll c))"

text \<open>A write through an element pointer.\<close>

definition set_cell :: "nat \<Rightarrow> 'e \<Rightarrow> ('k, 'e) lru \<Rightarrow> ('k, 'e) lru" where
  "set_cell el e c = c\<lparr>c_cell := (c_cell c)(el \<mapsto> e)\<rparr>"

definition map_delete :: "'k \<Rightarrow> ('k, 'e) lru \<Rightarrow> ('k, 'e) lru" where
  "map_delete k c = c\<lparr>c_items := (c_items c)(k := None)\<rparr>"

definition note_miss :: "time \<Rightarrow> ('k, 'e) lru \<Rightarrow> ('k, 'e) lru" where
  "note_miss now c =
     c\<lparr>c_misses := c_misses c + 1, c_window := cacheWindow_record now False (c_window c)\<rparr>"

definition note_hit :: "time \<Rightarrow> ('k, 'e) lru \<Rightarrow> ('k, 'e) lru" where
  "note_hit now c =
     c\<lparr>c_hits := c_hits c + 1, c_window := cacheWindow_record now True (c_window c)\<rparr>"

text \<open>Dropping the least recently used element, as \<^verbatim>\<open>PutAnnotated\<close> and \<^verbatim>\<open>Resize\<close> do.\<close>

definition evict_oldest :: "('e \<Rightarrow> 'k) \<Rightarrow> ('k, 'e) lru \<Rightarrow> ('k, 'e) lru" where
  "evict_oldest key c =
     (case list_Back c of
        None \<Rightarrow> c
      | Some oldest \<Rightarrow>
          (case c_cell c oldest of
             None \<Rightarrow> c
           | Some e \<Rightarrow>
               (let c' = map_delete (key e) (list_Remove oldest c)
                in c'\<lparr>c_evicts := c_evicts c' + 1\<rparr>)))"

text \<open>
  The loop of \<^verbatim>\<open>Resize\<close>: while the list is longer than the new capacity, evict.  Each
  round shortens the list, so the initial length bounds the rounds.
\<close>

primrec shrink_loop :: "('e \<Rightarrow> 'k) \<Rightarrow> int \<Rightarrow> nat \<Rightarrow> ('k, 'e) lru \<Rightarrow> ('k, 'e) lru" where
  "shrink_loop key newCap 0 c = c"
| "shrink_loop key newCap (Suc n) c =
     (if list_Len c > newCap
      then (case list_Back c of None \<Rightarrow> c | Some _ \<Rightarrow> shrink_loop key newCap n (evict_oldest key c))
      else c)"

definition shrink_to :: "('e \<Rightarrow> 'k) \<Rightarrow> int \<Rightarrow> ('k, 'e) lru \<Rightarrow> ('k, 'e) lru" where
  "shrink_to key newCap c = shrink_loop key newCap (length (c_ll c)) c"

lemmas list_defs = list_Remove_def list_MoveToFront_def list_PushFront_def list_Back_def list_Len_def
  set_cell_def map_delete_def note_miss_def note_hit_def

section \<open>Invariant and reading\<close>

definition entries :: "('k, 'e) lru \<Rightarrow> 'e list" where
  "entries c = List.map (\<lambda>h. the (c_cell c h)) (c_ll c)"

definition lru_wf :: "('e \<Rightarrow> 'k) \<Rightarrow> ('k, 'e) lru \<Rightarrow> bool" where
  "lru_wf key c \<longleftrightarrow>
     distinct (c_ll c) \<and>
     (\<forall>h \<in> set (c_ll c). h < c_next c \<and> (\<exists>e. c_cell c h = Some e \<and> c_items c (key e) = Some h)) \<and>
     (\<forall>k h. c_items c k = Some h \<longrightarrow> h \<in> set (c_ll c) \<and> (\<exists>e. c_cell c h = Some e \<and> key e = k))"

definition lru_inv :: "('e \<Rightarrow> 'k) \<Rightarrow> ('k, 'e) lru \<Rightarrow> bool" where
  "lru_inv key c \<longleftrightarrow> lru_wf key c \<and> (0 < c_capacity c \<longrightarrow> list_Len c \<le> c_capacity c) \<and>
     ring_ok windowCap (c_window c) \<and> ring_ok missRingCap (c_missRing c)"

lemma lru_wf_distinct: "lru_wf key c \<Longrightarrow> distinct (c_ll c)"
  by (simp add: lru_wf_def)

lemma lru_wf_fresh: "lru_wf key c \<Longrightarrow> h \<in> set (c_ll c) \<Longrightarrow> h < c_next c"
  by (simp add: lru_wf_def)

lemma lru_wf_cell:
  assumes "lru_wf key c" "h \<in> set (c_ll c)"
  obtains e where "c_cell c h = Some e" "c_items c (key e) = Some h"
  using assms unfolding lru_wf_def by blast

lemma lru_wf_items:
  assumes "lru_wf key c" "c_items c k = Some h"
  obtains e where "h \<in> set (c_ll c)" "c_cell c h = Some e" "key e = k"
  using assms unfolding lru_wf_def by blast

lemma lru_wfI:
  assumes "distinct (c_ll c)"
    and "\<And>h. h \<in> set (c_ll c) \<Longrightarrow> h < c_next c"
    and "\<And>h. h \<in> set (c_ll c) \<Longrightarrow> \<exists>e. c_cell c h = Some e \<and> c_items c (key e) = Some h"
    and "\<And>k h. c_items c k = Some h \<Longrightarrow> h \<in> set (c_ll c) \<and> (\<exists>e. c_cell c h = Some e \<and> key e = k)"
  shows "lru_wf key c"
  using assms unfolding lru_wf_def by blast

lemma lru_inv_new [neo_inv]: "lru_inv key (lru_new n)"
  by (auto simp: lru_inv_def lru_wf_def lru_new_def list_Len_def ring_ok_new)

lemma entries_new [simp]: "entries (lru_new n) = []"
  by (simp add: entries_def lru_new_def)

lemma entries_length: "int (length (entries c)) = list_Len c"
  by (simp add: entries_def list_Len_def)

lemma entries_keys:
  assumes "lru_wf key c"
  shows "distinct (List.map key (entries c))"
proof -
  have "inj_on (\<lambda>h. key (the (c_cell c h))) (set (c_ll c))"
  proof (rule inj_onI)
    fix a b assume ab: "a \<in> set (c_ll c)" "b \<in> set (c_ll c)"
      and eq: "key (the (c_cell c a)) = key (the (c_cell c b))"
    from lru_wf_cell [OF assms ab(1)] obtain d where d: "c_cell c a = Some d" "c_items c (key d) = Some a" .
    from lru_wf_cell [OF assms ab(2)] obtain e where e: "c_cell c b = Some e" "c_items c (key e) = Some b" .
    from d e eq show "a = b" by simp
  qed
  then show ?thesis
    using lru_wf_distinct [OF assms] by (simp add: entries_def distinct_map comp_def)
qed

lemma items_None:
  assumes "lru_wf key c" "c_items c k = None"
  shows "k \<notin> key ` set (entries c)"
proof
  assume "k \<in> key ` set (entries c)"
  then obtain h where h: "h \<in> set (c_ll c)" "k = key (the (c_cell c h))" by (auto simp: entries_def)
  from lru_wf_cell [OF assms(1) h(1)] h(2) assms(2) show False by (metis option.sel option.distinct(1))
qed

lemma items_Some:
  assumes "lru_wf key c" "c_items c k = Some h"
  obtains xs ys e where "c_ll c = xs @ h # ys" "h \<notin> set xs" "h \<notin> set ys" "c_cell c h = Some e" "key e = k"
    "entries c = List.map (\<lambda>h. the (c_cell c h)) xs @ e # List.map (\<lambda>h. the (c_cell c h)) ys"
proof -
  from assms obtain e where e: "h \<in> set (c_ll c)" "c_cell c h = Some e" "key e = k"
    unfolding lru_wf_def by blast
  then obtain xs ys where "c_ll c = xs @ h # ys" by (meson split_list)
  moreover have "distinct (c_ll c)" using assms unfolding lru_wf_def by simp
  ultimately show thesis using e by (intro that) (auto simp: entries_def)
qed

definition find_key :: "('e \<Rightarrow> 'k) \<Rightarrow> 'k \<Rightarrow> 'e list \<Rightarrow> 'e option" where
  "find_key key k es = find (\<lambda>e. key e = k) es"

definition rm_key :: "('e \<Rightarrow> 'k) \<Rightarrow> 'k \<Rightarrow> 'e list \<Rightarrow> 'e list" where
  "rm_key key k es = filter (\<lambda>e. key e \<noteq> k) es"

lemma find_key_append:
  "find_key key k (xs @ ys) = (case find_key key k xs of None \<Rightarrow> find_key key k ys | Some e \<Rightarrow> Some e)"
  by (induction xs) (auto simp: find_key_def)

lemma find_key_None: "k \<notin> key ` set es \<Longrightarrow> find_key key k es = None"
  by (auto simp: find_key_def find_None_iff)

lemma rm_key_notin: "k \<notin> key ` set es \<Longrightarrow> rm_key key k es = es"
  by (auto simp: rm_key_def intro!: filter_True)

lemma split_lookup:
  assumes "distinct (List.map key (xs @ e # ys))"
  shows "find_key key (key e) (xs @ e # ys) = Some e" "rm_key key (key e) (xs @ e # ys) = xs @ ys"
proof -
  from assms have n: "key e \<notin> key ` set xs" "key e \<notin> key ` set ys" by auto
  then show "find_key key (key e) (xs @ e # ys) = Some e"
    by (simp add: find_key_append find_key_None) (simp add: find_key_def)
  have "filter (\<lambda>d. key d \<noteq> key e) xs = xs" "filter (\<lambda>d. key d \<noteq> key e) ys = ys"
    using n by (metis (mono_tags, lifting) filter_True image_eqI)+
  then show "rm_key key (key e) (xs @ e # ys) = xs @ ys" by (simp add: rm_key_def)
qed

lemma items_find:
  assumes "lru_wf key c"
  shows "(case c_items c k of None \<Rightarrow> None | Some h \<Rightarrow> c_cell c h) = find_key key k (entries c)"
proof (cases "c_items c k")
  case None
  then show ?thesis using items_None [OF assms] by (simp add: find_key_None)
next
  case (Some h)
  from items_Some [OF assms Some] obtain xs ys e where *: "c_cell c h = Some e" "key e = k"
    "entries c = List.map (\<lambda>h. the (c_cell c h)) xs @ e # List.map (\<lambda>h. the (c_cell c h)) ys" by metis
  with entries_keys [OF assms] Some show ?thesis by (auto simp: split_lookup)
qed

section \<open>The effect of the steps\<close>

lemma hit_step:
  assumes wf: "lru_wf key c" and it: "c_items c k = Some h" and e': "key e' = k"
  defines "c' \<equiv> set_cell h e' (list_MoveToFront h c)"
  shows "lru_wf key c'" "entries c' = e' # rm_key key k (entries c)" "length (c_ll c') = length (c_ll c)"
proof -
  obtain xs ys e where s: "c_ll c = xs @ h # ys" "h \<notin> set xs" "h \<notin> set ys" "c_cell c h = Some e" "key e = k"
    and en: "entries c = List.map (\<lambda>h. the (c_cell c h)) xs @ e # List.map (\<lambda>h. the (c_cell c h)) ys"
    using items_Some [OF wf it] by metis
  have ll: "c_ll c' = h # xs @ ys"
    using s by (simp add: c'_def set_cell_def list_MoveToFront_def remove1_append)
  have cell: "c_cell c' = (c_cell c)(h \<mapsto> e')" "c_items c' = c_items c" "c_next c' = c_next c"
    by (simp_all add: c'_def set_cell_def list_MoveToFront_def)
  have set: "set (c_ll c') = set (c_ll c)" using s(1) ll by auto
  show "lru_wf key c'"
  proof (rule lru_wfI)
    show "distinct (c_ll c')" using lru_wf_distinct [OF wf] s ll by simp
    fix j :: nat
    show "j \<in> set (c_ll c') \<Longrightarrow> j < c_next c'" using lru_wf_fresh [OF wf] set cell by simp
    show "\<exists>e. c_cell c' j = Some e \<and> c_items c' (key e) = Some j" if "j \<in> set (c_ll c')"
    proof (cases "j = h")
      case True
      with it e' cell show ?thesis by simp
    next
      case False
      from that set have "j \<in> set (c_ll c)" by simp
      from lru_wf_cell [OF wf this] obtain d where "c_cell c j = Some d" "c_items c (key d) = Some j" .
      with False show ?thesis by (simp add: cell)
    qed
    show "j \<in> set (c_ll c') \<and> (\<exists>e. c_cell c' j = Some e \<and> key e = i)" if "c_items c' i = Some j" for i
    proof -
      from that have "c_items c i = Some j" by (simp add: cell)
      from lru_wf_items [OF wf this] obtain d where "j \<in> set (c_ll c)" "c_cell c j = Some d" "key d = i" .
      then show ?thesis using e' s(4,5) set by (auto simp: cell)
    qed
  qed
  have "entries c' = e' # List.map (\<lambda>h. the (c_cell c h)) xs @ List.map (\<lambda>h. the (c_cell c h)) ys"
    using s by (auto simp: entries_def ll cell)
  then show "entries c' = e' # rm_key key k (entries c)"
    using split_lookup(2) [OF entries_keys [OF wf, unfolded en]] s(5) by (simp add: en)
  show "length (c_ll c') = length (c_ll c)" using s ll by simp
qed

lemma remove_step:
  assumes wf: "lru_wf key c" and it: "c_items c k = Some h"
  defines "c' \<equiv> map_delete k (list_Remove h c)"
  shows "lru_wf key c'" "entries c' = rm_key key k (entries c)" "length (c_ll c') \<le> length (c_ll c)"
proof -
  obtain xs ys e where s: "c_ll c = xs @ h # ys" "h \<notin> set xs" "h \<notin> set ys" "c_cell c h = Some e" "key e = k"
    and en: "entries c = List.map (\<lambda>h. the (c_cell c h)) xs @ e # List.map (\<lambda>h. the (c_cell c h)) ys"
    using items_Some [OF wf it] by metis
  have ll: "c_ll c' = xs @ ys"
    using s by (simp add: c'_def map_delete_def list_Remove_def remove1_append)
  have cell: "c_cell c' = c_cell c" "c_items c' = (c_items c)(k := None)" "c_next c' = c_next c"
    by (simp_all add: c'_def map_delete_def list_Remove_def)
  have other: "key d \<noteq> k" if "j \<in> set (xs @ ys)" "c_cell c j = Some d" for j d
  proof
    assume "key d = k"
    have "j \<in> set (c_ll c)" using that(1) s(1) by auto
    then have "c_items c (key d) = Some j" using lru_wf_cell [OF wf] that(2) by (metis option.inject)
    with \<open>key d = k\<close> it have "j = h" by simp
    with that(1) s show False by auto
  qed
  have sub: "j \<in> set (c_ll c') \<longleftrightarrow> j \<in> set (c_ll c) \<and> j \<noteq> h" for j using s ll by auto
  show "lru_wf key c'"
  proof (rule lru_wfI)
    show "distinct (c_ll c')" using lru_wf_distinct [OF wf] s ll by simp
    fix j :: nat
    show "j \<in> set (c_ll c') \<Longrightarrow> j < c_next c'" using lru_wf_fresh [OF wf] sub cell by simp
    show "\<exists>e. c_cell c' j = Some e \<and> c_items c' (key e) = Some j" if j: "j \<in> set (c_ll c')"
    proof -
      obtain d where d: "c_cell c j = Some d" "c_items c (key d) = Some j"
        using lru_wf_cell [OF wf] j sub by blast
      with other [of j d] j ll show ?thesis by (auto simp: cell)
    qed
    show "j \<in> set (c_ll c') \<and> (\<exists>e. c_cell c' j = Some e \<and> key e = i)" if "c_items c' i = Some j" for i
    proof -
      from that have i: "c_items c i = Some j" "i \<noteq> k" by (auto simp: cell split: if_splits)
      from lru_wf_items [OF wf i(1)] obtain d where "j \<in> set (c_ll c)" "c_cell c j = Some d" "key d = i" .
      moreover from this i(2) s(4,5) have "j \<noteq> h" by auto
      ultimately show ?thesis using sub cell(1) by simp
    qed
  qed
  show "entries c' = rm_key key k (entries c)"
    using split_lookup(2) [OF entries_keys [OF wf, unfolded en]] s(5)
    by (simp add: en) (simp add: entries_def ll cell)
  show "length (c_ll c') \<le> length (c_ll c)" using s ll by simp
qed

lemma push_step:
  assumes wf: "lru_wf key c" and it: "c_items c (key e) = None"
  defines "c' \<equiv> (snd (list_PushFront e c))\<lparr>c_items := (c_items c)(key e \<mapsto> fst (list_PushFront e c))\<rparr>"
  shows "lru_wf key c'" "entries c' = e # entries c" "c_ll c' = c_next c # c_ll c"
proof -
  have f: "c_ll c' = c_next c # c_ll c" "c_cell c' = (c_cell c)(c_next c \<mapsto> e)"
    "c_items c' = (c_items c)(key e \<mapsto> c_next c)" "c_next c' = Suc (c_next c)"
    by (simp_all add: c'_def list_PushFront_def)
  have fresh: "c_next c \<notin> set (c_ll c)" using wf unfolding lru_wf_def by auto
  have other: "key d \<noteq> key e" if "j \<in> set (c_ll c)" "c_cell c j = Some d" for j d
    using lru_wf_cell [OF wf that(1)] that(2) it by (metis option.inject option.distinct(1))
  show "c_ll c' = c_next c # c_ll c" by (rule f(1))
  show "lru_wf key c'"
  proof (rule lru_wfI)
    show "distinct (c_ll c')" using lru_wf_distinct [OF wf] fresh f by simp
    fix j :: nat
    show "j \<in> set (c_ll c') \<Longrightarrow> j < c_next c'" using lru_wf_fresh [OF wf, of j] f by auto
    show "\<exists>e. c_cell c' j = Some e \<and> c_items c' (key e) = Some j" if j: "j \<in> set (c_ll c')"
    proof (cases "j = c_next c")
      case True
      then show ?thesis by (simp add: f)
    next
      case False
      with j f have j': "j \<in> set (c_ll c)" by simp
      from lru_wf_cell [OF wf j'] obtain d where "c_cell c j = Some d" "c_items c (key d) = Some j" .
      with other [OF j'] False show ?thesis by (auto simp: f)
    qed
    show "j \<in> set (c_ll c') \<and> (\<exists>e. c_cell c' j = Some e \<and> key e = i)" if "c_items c' i = Some j" for i
    proof (cases "i = key e")
      case True
      with that show ?thesis by (simp add: f)
    next
      case False
      with that have i: "c_items c i = Some j" by (simp add: f)
      from lru_wf_items [OF wf i] obtain d where "j \<in> set (c_ll c)" "c_cell c j = Some d" "key d = i" .
      with fresh show ?thesis by (auto simp: f)
    qed
  qed
  show "entries c' = e # entries c"
    using fresh by (auto simp: entries_def f)
qed

lemma evict_step:
  assumes wf: "lru_wf key c" and ne: "c_ll c \<noteq> []"
  shows "lru_wf key (evict_oldest key c)" "entries (evict_oldest key c) = butlast (entries c)"
    "length (c_ll (evict_oldest key c)) = length (c_ll c) - 1"
    "c_evicts (evict_oldest key c) = c_evicts c + 1"
proof -
  let ?h = "last (c_ll c)"
  from lru_wf_cell [OF wf last_in_set [OF ne]]
  obtain e where e: "c_cell c ?h = Some e" "c_items c (key e) = Some ?h" .
  have ev: "evict_oldest key c = (map_delete (key e) (list_Remove ?h c))\<lparr>c_evicts := c_evicts c + 1\<rparr>"
    using ne e by (simp add: evict_oldest_def list_Back_def Let_def map_delete_def list_Remove_def)
  have ll: "c_ll c = butlast (c_ll c) @ [?h]" using ne by simp
  have "distinct (butlast (c_ll c) @ [?h])" using lru_wf_distinct [OF wf] ll by simp
  then have nb: "?h \<notin> set (butlast (c_ll c))" by simp
  have "remove1 ?h (butlast (c_ll c) @ [?h]) = butlast (c_ll c)"
    using nb by (simp add: remove1_append del: append_butlast_last_id)
  then have rm: "remove1 ?h (c_ll c) = butlast (c_ll c)" using ll by simp
  note r = remove_step [OF wf e(2)]
  show "lru_wf key (evict_oldest key c)" using r(1) by (simp add: ev lru_wf_def)
  show "entries (evict_oldest key c) = butlast (entries c)"
    by (simp add: ev entries_def map_delete_def list_Remove_def rm map_butlast)
  show "length (c_ll (evict_oldest key c)) = length (c_ll c) - 1"
    by (simp add: ev map_delete_def list_Remove_def rm)
  show "c_evicts (evict_oldest key c) = c_evicts c + 1" by (simp add: ev)
qed

lemma evict_frame [simp]:
  "c_capacity (evict_oldest key c) = c_capacity c" "c_hits (evict_oldest key c) = c_hits c"
  "c_misses (evict_oldest key c) = c_misses c" "c_window (evict_oldest key c) = c_window c"
  "c_missRing (evict_oldest key c) = c_missRing c"
  by (simp_all add: evict_oldest_def list_Back_def Let_def map_delete_def list_Remove_def split: option.splits)

lemma shrink_loop_spec:
  assumes "lru_wf key c" "0 \<le> n" "length (c_ll c) \<le> fuel"
  shows "lru_wf key (shrink_loop key n fuel c) \<and>
    entries (shrink_loop key n fuel c) = take (nat n) (entries c) \<and>
    c_evicts (shrink_loop key n fuel c) = c_evicts c + of_nat (length (c_ll c) - nat n)"
  using assms
proof (induction fuel arbitrary: c)
  case 0
  then show ?case by (simp add: entries_def)
next
  case (Suc fuel)
  show ?case
  proof (cases "list_Len c > n")
    case False
    then show ?thesis using Suc.prems by (simp add: list_Len_def entries_def)
  next
    case True
    then have ne: "c_ll c \<noteq> []" using Suc.prems by (auto simp: list_Len_def)
    note e = evict_step [OF Suc.prems(1) ne]
    have len: "length (c_ll c) = Suc (length (c_ll c) - 1)" "nat n < length (c_ll c)"
      using ne True Suc.prems(2) by (auto simp: list_Len_def)
    have "take (nat n) (butlast (entries c)) = take (nat n) (entries c)"
      using len by (simp add: take_butlast entries_def)
    moreover have "of_nat (length (c_ll c) - nat n) = (1::u64) + of_nat (length (c_ll c) - 1 - nat n)"
    proof -
      have "length (c_ll c) - nat n = Suc (length (c_ll c) - 1 - nat n)" using len by linarith
      then show ?thesis by (metis of_nat_Suc)
    qed
    ultimately show ?thesis
      using True ne Suc.IH [OF e(1) Suc.prems(2)] e Suc.prems(3)
      by (simp add: list_Back_def add.assoc)
  qed
qed

lemma shrink_loop_frame [simp]:
  "c_capacity (shrink_loop key n fuel c) = c_capacity c" "c_hits (shrink_loop key n fuel c) = c_hits c"
  "c_misses (shrink_loop key n fuel c) = c_misses c" "c_window (shrink_loop key n fuel c) = c_window c"
  "c_missRing (shrink_loop key n fuel c) = c_missRing c"
  by (induction fuel arbitrary: c) (auto split: option.splits)

lemmas shrink_to_spec = shrink_loop_spec [OF _ _ order_refl, folded shrink_to_def]

section \<open>The shapes of the cache operations\<close>

definition get_shape :: "('e \<Rightarrow> u64) \<Rightarrow> ('e \<Rightarrow> 'v) \<Rightarrow> ('e \<Rightarrow> 'e) \<Rightarrow>
    'k \<Rightarrow> u64 \<Rightarrow> time \<Rightarrow> ('k, 'e) lru \<Rightarrow> 'v option \<times> ('k, 'e) lru" where
  "get_shape gen val bump k g now c =
     (if c_capacity c \<le> 0 then (None, c)
      else case c_items c k of
        None \<Rightarrow> (None, note_miss now c)
      | Some el \<Rightarrow>
          (case c_cell c el of
             None \<Rightarrow> (None, c)
           | Some e \<Rightarrow>
               if gen e \<noteq> g then (None, note_miss now (map_delete k (list_Remove el c)))
               else (Some (val e), note_hit now (set_cell el (bump e) (list_MoveToFront el c)))))"

definition peek_shape :: "('e \<Rightarrow> u64) \<Rightarrow> ('e \<Rightarrow> 'v) \<Rightarrow> 'k \<Rightarrow> u64 \<Rightarrow> ('k, 'e) lru \<Rightarrow> 'v option" where
  "peek_shape gen val k g c =
     (if c_capacity c \<le> 0 then None
      else case c_items c k of
        None \<Rightarrow> None
      | Some el \<Rightarrow> (case c_cell c el of None \<Rightarrow> None | Some e \<Rightarrow> if gen e \<noteq> g then None else Some (val e)))"

definition put_shape :: "('e \<Rightarrow> 'k) \<Rightarrow> ('e \<Rightarrow> 'e) \<Rightarrow> 'e \<Rightarrow> 'k \<Rightarrow> ('k, 'e) lru \<Rightarrow> ('k, 'e) lru" where
  "put_shape key upd new k c =
     (if c_capacity c \<le> 0 then c
      else case c_items c k of
        Some el \<Rightarrow>
          (case c_cell c el of
             None \<Rightarrow> c
           | Some e \<Rightarrow> list_MoveToFront el (set_cell el (upd e) c))
      | None \<Rightarrow>
          (let (el, c1) = list_PushFront new c;
               c2 = c1\<lparr>c_items := (c_items c1)(k \<mapsto> el)\<rparr>
           in if list_Len c2 > c_capacity c2 then evict_oldest key c2 else c2))"

definition resize_shape :: "('e \<Rightarrow> 'k) \<Rightarrow> int \<Rightarrow> ('k, 'e) lru \<Rightarrow> ('k, 'e) lru" where
  "resize_shape key newCap c =
     (let c1 = c\<lparr>c_capacity := newCap\<rparr>
      in if newCap \<le> 0 then c1 else shrink_to key newCap c1)"

lemma note_frame [simp]:
  "c_capacity (note_miss now c) = c_capacity c" "c_capacity (note_hit now c) = c_capacity c"
  "entries (note_miss now c) = entries c" "entries (note_hit now c) = entries c"
  "lru_wf key (note_miss now c) = lru_wf key c" "lru_wf key (note_hit now c) = lru_wf key c"
  "list_Len (note_miss now c) = list_Len c" "list_Len (note_hit now c) = list_Len c"
  by (simp_all add: note_miss_def note_hit_def entries_def lru_wf_def list_Len_def)

lemma lru_inv_note [simp]:
  "lru_inv key c \<Longrightarrow> lru_inv key (note_miss now c)" "lru_inv key c \<Longrightarrow> lru_inv key (note_hit now c)"
  by (auto simp: lru_inv_def) (simp_all add: note_miss_def note_hit_def cacheWindow_record_push ring_ok_push)

lemma step_frame [simp]:
  "c_capacity (list_Remove el c) = c_capacity c" "c_capacity (list_MoveToFront el c) = c_capacity c"
  "c_capacity (set_cell el e c) = c_capacity c" "c_capacity (map_delete k c) = c_capacity c"
  "c_window (list_Remove el c) = c_window c" "c_window (list_MoveToFront el c) = c_window c"
  "c_window (set_cell el e c) = c_window c" "c_window (map_delete k c) = c_window c"
  "c_missRing (list_Remove el c) = c_missRing c" "c_missRing (list_MoveToFront el c) = c_missRing c"
  "c_missRing (set_cell el e c) = c_missRing c" "c_missRing (map_delete k c) = c_missRing c"
  by (simp_all add: list_defs)

lemma move_set_commute: "list_MoveToFront el (set_cell el e c) = set_cell el e (list_MoveToFront el c)"
  by (simp add: list_MoveToFront_def set_cell_def)

lemma map_of_view:
  "map_of (List.map (\<lambda>e. (key e, f e)) es) k = map_option f (find_key key k es)"
  by (induction es) (auto simp: find_key_def)

lemma drop_key_view:
  "drop_key k (List.map (\<lambda>e. (key e, f e)) es) = List.map (\<lambda>e. (key e, f e)) (rm_key key k es)"
  by (induction es) (auto simp: drop_key_def rm_key_def)

lemma rm_key_length: "length (rm_key key k es) \<le> length es"
  by (simp add: rm_key_def)

text \<open>
  An entry type with its key, value and generation, how a hit counts on it, how a repeated
  store updates it and how a first store builds it.  Such entries make an LRU cache.
\<close>

locale lru_entry =
  fixes key :: "'e \<Rightarrow> 'k" and gen :: "'e \<Rightarrow> u64" and val :: "'e \<Rightarrow> 'v" and bump :: "'e \<Rightarrow> 'e"
    and upd :: "'a \<Rightarrow> 'v \<Rightarrow> u64 \<Rightarrow> 'e \<Rightarrow> 'e" and new :: "'a \<Rightarrow> 'k \<Rightarrow> 'v \<Rightarrow> u64 \<Rightarrow> 'e"
  assumes bump: "key (bump e) = key e" "gen (bump e) = gen e" "val (bump e) = val e"
    and upd: "key (upd a v g e) = key e" "gen (upd a v g e) = g" "val (upd a v g e) = v"
    and new: "key (new a k v g) = k" "gen (new a k v g) = g" "val (new a k v g) = v"
begin

definition view :: "('k, 'e) lru \<Rightarrow> ('k \<times> 'v \<times> u64) list" where
  "view c = List.map (\<lambda>e. (key e, val e, gen e)) (entries c)"

lemma get_cases:
  assumes inv: "lru_inv key c" and cap: "0 < c_capacity c"
  shows "find_key key k (entries c) = None \<and> get_shape gen val bump k g t c = (None, note_miss t c) \<or>
    (\<exists>e. find_key key k (entries c) = Some e \<and> key e = k \<and>
      fst (get_shape gen val bump k g t c) = (if gen e = g then Some (val e) else None) \<and>
      entries (snd (get_shape gen val bump k g t c)) =
        (if gen e = g then bump e # rm_key key k (entries c) else rm_key key k (entries c)) \<and>
      lru_inv key (snd (get_shape gen val bump k g t c)))"
proof (cases "c_items c k")
  case None
  then show ?thesis
    using cap items_None [of key c k] inv by (auto simp: get_shape_def find_key_None lru_inv_def)
next
  case (Some h)
  have wf: "lru_wf key c" using inv by (simp add: lru_inv_def)
  from lru_wf_items [OF wf Some] obtain e where e: "c_cell c h = Some e" "key e = k" .
  have f: "find_key key k (entries c) = Some e" using items_find [OF wf, of k] Some e by simp
  have b: "key (bump e) = k" using e bump by simp
  note h = hit_step [OF wf Some b] and r = remove_step [OF wf Some]
  have "list_Len (set_cell h (bump e) (list_MoveToFront h c)) \<le> list_Len c"
    "list_Len (map_delete k (list_Remove h c)) \<le> list_Len c"
    using h(3) r(3) by (simp_all add: list_Len_def)
  then have "lru_inv key (set_cell h (bump e) (list_MoveToFront h c))"
    "lru_inv key (map_delete k (list_Remove h c))"
    using inv h(1) r(1) by (auto simp: lru_inv_def)
  then show ?thesis using Some e f cap h(2) r(2) by (simp add: get_shape_def)
qed

lemma put_cases:
  fixes a v g k
  assumes inv: "lru_inv key c" and cap: "0 < c_capacity c"
  defines "c' \<equiv> put_shape key (upd a v g) (new a k v g) k c"
  shows "lru_inv key c' \<and> c_capacity c' = c_capacity c \<and>
    entries c' = (case find_key key k (entries c) of
       Some e \<Rightarrow> upd a v g e # rm_key key k (entries c)
     | None \<Rightarrow> take (nat (c_capacity c)) (new a k v g # entries c))"
proof (cases "c_items c k")
  case (Some h)
  have wf: "lru_wf key c" using inv by (simp add: lru_inv_def)
  from lru_wf_items [OF wf Some] obtain e where e: "c_cell c h = Some e" "key e = k" .
  have f: "find_key key k (entries c) = Some e" using items_find [OF wf, of k] Some e by simp
  have b: "key (upd a v g e) = k" using e upd by simp
  note h = hit_step [OF wf Some b]
  have c': "c' = set_cell h (upd a v g e) (list_MoveToFront h c)"
    using cap Some e by (simp add: c'_def put_shape_def move_set_commute)
  show ?thesis using inv h f unfolding c' by (simp add: lru_inv_def list_Len_def)
next
  case None
  have wf: "lru_wf key c" using inv by (simp add: lru_inv_def)
  let ?n = "new a k v g"
  have kn: "key ?n = k" by (rule new)
  have f: "find_key key k (entries c) = None"
    using items_None [OF wf None] by (simp add: find_key_None)
  define c2 where "c2 = (snd (list_PushFront ?n c))\<lparr>c_items := (c_items c)(k \<mapsto> fst (list_PushFront ?n c))\<rparr>"
  note p = push_step [OF wf, of ?n, unfolded kn, OF None, folded c2_def]
  have fr: "c_capacity c2 = c_capacity c" "c_window c2 = c_window c" "c_missRing c2 = c_missRing c"
    by (simp_all add: c2_def list_PushFront_def)
  have c': "c' = (if list_Len c2 > c_capacity c2 then evict_oldest key c2 else c2)"
    using cap None by (simp add: c'_def put_shape_def c2_def list_PushFront_def Let_def)
  have bound: "list_Len c \<le> c_capacity c" using inv cap by (simp add: lru_inv_def)
  show ?thesis
  proof (cases "list_Len c2 > c_capacity c2")
    case False
    then have "take (nat (c_capacity c)) (?n # entries c) = ?n # entries c"
      using p(3) fr by (simp add: list_Len_def entries_def)
    with False f p inv fr show ?thesis by (simp add: c' lru_inv_def)
  next
    case True
    have ne: "c_ll c2 \<noteq> []" using p(3) by simp
    note e = evict_step [OF p(1) ne]
    have eq: "nat (c_capacity c) = length (entries c)"
      using True p(3) bound fr cap by (simp add: list_Len_def entries_def)
    have "butlast (?n # entries c) = take (nat (c_capacity c)) (?n # entries c)"
      by (simp add: butlast_conv_take eq)
    moreover have "list_Len (evict_oldest key c2) \<le> c_capacity c"
      using e(3) p(3) bound by (simp add: list_Len_def)
    ultimately show ?thesis using True e f p(2) inv fr by (simp add: c' lru_inv_def)
  qed
qed

lemma resize_cases:
  assumes inv: "lru_inv key c"
  shows "lru_inv key (resize_shape key n c) \<and> c_capacity (resize_shape key n c) = n \<and>
    entries (resize_shape key n c) = (if n \<le> 0 then entries c else take (nat n) (entries c))"
proof (cases "n \<le> 0")
  case True
  with inv show ?thesis
    by (auto simp: resize_shape_def lru_inv_def lru_wf_def entries_def list_Len_def)
next
  case False
  let ?c = "c\<lparr>c_capacity := n\<rparr>"
  have "lru_wf key ?c" using inv by (simp add: lru_inv_def lru_wf_def)
  from shrink_to_spec [OF this, of n] False
  have s: "lru_wf key (shrink_to key n ?c)" "entries (shrink_to key n ?c) = take (nat n) (entries c)"
    by (simp_all add: entries_def)
  have "list_Len (shrink_to key n ?c) \<le> n"
    using s(2) False by (simp add: entries_length [symmetric])
  with s inv False show ?thesis
    by (simp add: resize_shape_def lru_inv_def) (simp add: shrink_to_def)
qed

lemma disabled:
  assumes "c_capacity c \<le> 0"
  shows "get_shape gen val bump k g t c = (None, c)" "put_shape key (upd a v g) (new a k v g) k c = c"
  using assms by (simp_all add: get_shape_def put_shape_def)

lemma get_cap: "c_capacity (snd (get_shape gen val bump k g t c)) = c_capacity c"
  by (simp add: get_shape_def split: option.splits)

lemma put_cap: "c_capacity (put_shape key (upd a v g) (new a k v g) k c) = c_capacity c"
  by (simp add: put_shape_def list_PushFront_def Let_def split: option.splits)

text \<open>Every lookup of an enabled cache is counted once, as a hit or as a miss.\<close>

lemma get_counts:
  fixes k g t
  assumes "lru_inv key c" "0 < c_capacity c"
  defines "r \<equiv> get_shape gen val bump k g t c"
  shows "c_hits (snd r) = c_hits c + (if fst r = None then 0 else 1)"
    "c_misses (snd r) = c_misses c + (if fst r = None then 1 else 0)"
    "c_evicts (snd r) = c_evicts c"
    "c_window (snd r) = cacheWindow_record t (fst r \<noteq> None) (c_window c)"
proof -
  have wf: "lru_wf key c" using assms by (simp add: lru_inv_def)
  have "c_hits (snd r) = c_hits c + (if fst r = None then 0 else 1) \<and>
    c_misses (snd r) = c_misses c + (if fst r = None then 1 else 0) \<and>
    c_evicts (snd r) = c_evicts c \<and> c_window (snd r) = cacheWindow_record t (fst r \<noteq> None) (c_window c)"
  proof (cases "c_items c k")
    case None
    then show ?thesis using assms by (simp add: get_shape_def note_miss_def)
  next
    case (Some h)
    from lru_wf_items [OF wf Some] obtain e where "c_cell c h = Some e" .
    with Some assms(2) show ?thesis by (simp add: r_def get_shape_def list_defs)
  qed
  then show "c_hits (snd r) = c_hits c + (if fst r = None then 0 else 1)"
    "c_misses (snd r) = c_misses c + (if fst r = None then 1 else 0)"
    "c_evicts (snd r) = c_evicts c"
    "c_window (snd r) = cacheWindow_record t (fst r \<noteq> None) (c_window c)" by blast+
qed

lemma put_counts:
  "c_hits (put_shape key (upd a v g) (new a k v g) k c) = c_hits c"
  "c_misses (put_shape key (upd a v g) (new a k v g) k c) = c_misses c"
  "c_window (put_shape key (upd a v g) (new a k v g) k c) = c_window c"
  by (simp_all add: put_shape_def list_defs Let_def split: option.splits)

lemma peek_is_get: "peek_shape gen val k g c = fst (get_shape gen val bump k g t c)"
  by (simp add: peek_shape_def get_shape_def split: option.splits)

end

sublocale lru_entry \<subseteq> lru_resizable
  "get_shape gen val bump" "\<lambda>a k v g. put_shape key (upd a v g) (new a k v g) k"
  view c_capacity "lru_inv key" "resize_shape key"
proof unfold_locales
  fix s :: "('k, 'e) lru" and k :: 'k and g :: u64 and t :: time and a :: 'a and v :: 'v and n :: int
  show "distinct (List.map fst (view s))" if "lru_inv key s"
    using that entries_keys [of key s] by (simp add: view_def lru_inv_def comp_def)
  show "int (length (view s)) \<le> c_capacity s" if "lru_inv key s" "0 < c_capacity s"
    using that by (simp add: view_def lru_inv_def entries_length)
  show "fst (get_shape gen val bump k g t s) =
      (case map_of (view s) k of Some (v, h) \<Rightarrow> if h = g then Some v else None | None \<Rightarrow> None)"
    if "lru_inv key s" "0 < c_capacity s"
    using get_cases [OF that, of k g t] by (auto simp: view_def map_of_view)
  show "view (snd (get_shape gen val bump k g t s)) =
      (case map_of (view s) k of
         Some (v, h) \<Rightarrow> if h = g then (k, v, h) # drop_key k (view s) else drop_key k (view s)
       | None \<Rightarrow> view s)" if "lru_inv key s" "0 < c_capacity s"
    using get_cases [OF that, of k g t] by (auto simp: view_def map_of_view drop_key_view bump)
  show "view (put_shape key (upd a v g) (new a k v g) k s) =
      take (nat (c_capacity s)) ((k, v, g) # drop_key k (view s))" if "lru_inv key s" "0 < c_capacity s"
  proof (cases "find_key key k (entries s)")
    case None
    then have "k \<notin> key ` set (entries s)" by (auto simp: find_key_def find_None_iff)
    with None put_cases [OF that, of a v g k] show ?thesis
      by (simp add: view_def drop_key_view rm_key_notin new take_map [symmetric])
  next
    case (Some e)
    then have e: "e \<in> set (entries s)" "key e = k" by (auto simp: find_key_def find_Some_iff)
    then have "length (rm_key key k (entries s)) < length (entries s)"
      unfolding rm_key_def by (auto intro: length_filter_less)
    then have "length (rm_key key k (entries s)) < nat (c_capacity s)"
    proof -
      have "int (length (entries s)) \<le> c_capacity s"
        using that by (simp add: lru_inv_def entries_length)
      with \<open>length (rm_key key k (entries s)) < length (entries s)\<close> show ?thesis by linarith
    qed
    with Some e put_cases [OF that, of a v g k] show ?thesis
      by (simp add: view_def drop_key_view upd take_map)
  qed
  show "lru_inv key (snd (get_shape gen val bump k g t s))" if "lru_inv key s"
    using that get_cases [OF that, of k g t] disabled(1) [of s k g t]
    by (cases "0 < c_capacity s") auto
  show "lru_inv key (put_shape key (upd a v g) (new a k v g) k s)" if "lru_inv key s"
    using that put_cases [OF that, of a v g k] disabled(2) [of s a v g k]
    by (cases "0 < c_capacity s") auto
  show "view (resize_shape key n s) = (if n \<le> 0 then view s else take (nat n) (view s))" if "lru_inv key s"
    using resize_cases [OF that, of n] by (simp add: view_def take_map)
  show "c_capacity (resize_shape key n s) = n"
    by (simp add: resize_shape_def shrink_to_def Let_def)
  show "lru_inv key (resize_shape key n s)" if "lru_inv key s"
    using resize_cases [OF that, of n] by simp
qed (simp_all add: get_cap put_cap)

end
