(* ===== verification/Rag_QueryCache.thy ===== *)
theory Rag_QueryCache
  imports Complex_Main Rag_Lru
begin

unbundle bit_operations_syntax

text \<open>
  \<^verbatim>\<open>pkg/rag/query_cache.go\<close>: the LRU cache of semantic search results, keyed by an FNV-1a
  hash of the query and the requested top-K, whose entries are valid for one generation of
  the graph.  Results are slices that \<^verbatim>\<open>Get\<close>, \<^verbatim>\<open>Peek\<close> and \<^verbatim>\<open>PutAnnotated\<close> copy, so they
  are values here.  The nil-receiver guards are not modelled: a cache is a record.
\<close>

section \<open>Keys\<close>

record QueryCacheKey =
  qk_hash :: u64
  qk_topK :: int

text \<open>\<^verbatim>\<open>hash/fnv\<close>'s \<^verbatim>\<open>New64a\<close>: 64-bit FNV-1a over the bytes of the string.\<close>

definition fnv64a :: "string \<Rightarrow> u64" where
  "fnv64a s = fold (\<lambda>c h. (h XOR of_nat (of_char c)) * 1099511628211) s 14695981039346656037"

definition NewQueryCacheKey :: "string \<Rightarrow> int \<Rightarrow> QueryCacheKey" where
  "NewQueryCacheKey target topK = \<lparr>qk_hash = fnv64a target, qk_topK = topK\<rparr>"

section \<open>State\<close>

record cacheEntry =
  ce_key :: QueryCacheKey
  ce_result :: "u32 list"
  ce_gen :: u64
  ce_target :: string
  ce_hitCount :: u64

type_synonym QueryCache = "(QueryCacheKey, cacheEntry) lru"

definition NewQueryCache :: "int \<Rightarrow> QueryCache" where
  "NewQueryCache capacity = lru_new capacity"

section \<open>Operations\<close>

definition QueryCache_RecordMiss :: "string \<Rightarrow> QueryCache \<Rightarrow> QueryCache" where
  "QueryCache_RecordMiss target c = c\<lparr>c_missRing := missRing_record target (c_missRing c)\<rparr>"

definition QueryCache_RecentMissTargets :: "int \<Rightarrow> QueryCache \<Rightarrow> string list" where
  "QueryCache_RecentMissTargets n c = missRing_recent n (c_missRing c)"

definition QueryCache_Get ::
    "QueryCacheKey \<Rightarrow> u64 \<Rightarrow> time \<Rightarrow> QueryCache \<Rightarrow> u32 list option \<times> QueryCache" where
  "QueryCache_Get key currentGen now c =
     (if c_capacity c \<le> 0 then (None, c)
      else case c_items c key of
        None \<Rightarrow>
          (None, c\<lparr>c_misses := c_misses c + 1,
                   c_window := cacheWindow_record now False (c_window c)\<rparr>)
      | Some el \<Rightarrow>
          (case c_cell c el of
             None \<Rightarrow> (None, c)
           | Some entry \<Rightarrow>
               if ce_gen entry \<noteq> currentGen then
                 (let c1 = map_delete key (list_Remove el c)
                  in (None, c1\<lparr>c_misses := c_misses c1 + 1,
                               c_window := cacheWindow_record now False (c_window c1)\<rparr>))
               else
                 (let c1 = list_MoveToFront el c;
                      c2 = set_cell el (entry\<lparr>ce_hitCount := ce_hitCount entry + 1\<rparr>) c1
                  in (Some (ce_result entry),
                      c2\<lparr>c_hits := c_hits c2 + 1,
                         c_window := cacheWindow_record now True (c_window c2)\<rparr>))))"

definition QueryCache_PutAnnotated ::
    "QueryCacheKey \<Rightarrow> u32 list \<Rightarrow> u64 \<Rightarrow> string \<Rightarrow> QueryCache \<Rightarrow> QueryCache" where
  "QueryCache_PutAnnotated key result currentGen target c =
     (if c_capacity c \<le> 0 then c
      else case c_items c key of
        Some el \<Rightarrow>
          (case c_cell c el of
             None \<Rightarrow> c
           | Some entry \<Rightarrow>
               (let entry1 = entry\<lparr>ce_result := result, ce_gen := currentGen\<rparr>;
                    entry2 = (if target \<noteq> '''' then entry1\<lparr>ce_target := target\<rparr> else entry1)
                in list_MoveToFront el (set_cell el entry2 c)))
      | None \<Rightarrow>
          (let entry = \<lparr>ce_key = key, ce_result = result, ce_gen = currentGen,
                         ce_target = target, ce_hitCount = 0\<rparr>;
               (el, c1) = list_PushFront entry c;
               c2 = c1\<lparr>c_items := (c_items c1)(key \<mapsto> el)\<rparr>
           in if list_Len c2 > c_capacity c2 then evict_oldest ce_key c2 else c2))"

definition QueryCache_Put :: "QueryCacheKey \<Rightarrow> u32 list \<Rightarrow> u64 \<Rightarrow> QueryCache \<Rightarrow> QueryCache" where
  "QueryCache_Put key result currentGen c = QueryCache_PutAnnotated key result currentGen '''' c"

record QueryTopEntry =
  qt_target :: string
  qt_topK :: int
  qt_resultSize :: int
  qt_hitCount :: u64

definition query_top_entry :: "cacheEntry \<Rightarrow> QueryTopEntry" where
  "query_top_entry e =
     \<lparr>qt_target = (if ce_target e = '''' then ''(opaque)'' else ce_target e),
      qt_topK = qk_topK (ce_key e), qt_resultSize = int (length (ce_result e)),
      qt_hitCount = ce_hitCount e\<rparr>"

definition QueryCache_Top :: "int \<Rightarrow> QueryCache \<Rightarrow> QueryTopEntry list" where
  "QueryCache_Top n c =
     (if n \<le> 0 then []
      else (let out = insertion_desc qt_hitCount (List.map query_top_entry (entries c))
            in if int (length out) > n then take (nat n) out else out))"

definition QueryCache_Stats :: "QueryCache \<Rightarrow> u64 \<times> u64 \<times> u64 \<times> int" where
  "QueryCache_Stats c = (c_hits c, c_misses c, c_evicts c, list_Len c)"

text \<open>The ratio of two counters, with \<^verbatim>\<open>float64\<close> division read as exact division.\<close>

definition hit_ratio :: "u64 \<Rightarrow> u64 \<Rightarrow> rat" where
  "hit_ratio h m = (if h + m = 0 then 0 else of_nat (unat h) / of_nat (unat (h + m)))"

definition QueryCache_HitRatio :: "QueryCache \<Rightarrow> rat" where
  "QueryCache_HitRatio c = (let (h, m, _, _) = QueryCache_Stats c in hit_ratio h m)"

definition QueryCache_Resize :: "int \<Rightarrow> QueryCache \<Rightarrow> QueryCache" where
  "QueryCache_Resize newCap c =
     (let c1 = c\<lparr>c_capacity := newCap\<rparr>
      in if newCap \<le> 0 then c1 else shrink_to ce_key newCap c1)"

definition QueryCache_Peek :: "QueryCacheKey \<Rightarrow> u64 \<Rightarrow> QueryCache \<Rightarrow> u32 list option" where
  "QueryCache_Peek key currentGen c =
     (if c_capacity c \<le> 0 then None
      else case c_items c key of
        None \<Rightarrow> None
      | Some el \<Rightarrow>
          (case c_cell c el of
             None \<Rightarrow> None
           | Some entry \<Rightarrow> if ce_gen entry \<noteq> currentGen then None else Some (ce_result entry)))"

definition QueryCache_WindowedHitRatio :: "time \<Rightarrow> int \<Rightarrow> QueryCache \<Rightarrow> u64 \<times> u64 \<times> rat" where
  "QueryCache_WindowedHitRatio now d c =
     (let (h, m) = cacheWindow_windowed now d (c_window c) in (h, m, hit_ratio h m))"

definition QueryCache_Capacity :: "QueryCache \<Rightarrow> int" where
  "QueryCache_Capacity c = c_capacity c"

section \<open>The contract\<close>

definition query_upd :: "string \<Rightarrow> u32 list \<Rightarrow> u64 \<Rightarrow> cacheEntry \<Rightarrow> cacheEntry" where
  "query_upd target result g e =
     (let e1 = e\<lparr>ce_result := result, ce_gen := g\<rparr>
      in if target \<noteq> '''' then e1\<lparr>ce_target := target\<rparr> else e1)"

definition query_new :: "string \<Rightarrow> QueryCacheKey \<Rightarrow> u32 list \<Rightarrow> u64 \<Rightarrow> cacheEntry" where
  "query_new target key result g =
     \<lparr>ce_key = key, ce_result = result, ce_gen = g, ce_target = target, ce_hitCount = 0\<rparr>"

lemma query_shapes:
  "get_shape ce_gen ce_result (\<lambda>e. e\<lparr>ce_hitCount := ce_hitCount e + 1\<rparr>) = QueryCache_Get"
  "put_shape ce_key (query_upd target result g) (query_new target key result g) key =
     QueryCache_PutAnnotated key result g target"
  "resize_shape ce_key = QueryCache_Resize"
  "peek_shape ce_gen ce_result = QueryCache_Peek"
  by (auto simp: fun_eq_iff get_shape_def put_shape_def resize_shape_def peek_shape_def
      QueryCache_Get_def QueryCache_PutAnnotated_def QueryCache_Resize_def QueryCache_Peek_def
      note_miss_def note_hit_def query_upd_def query_new_def Let_def split: option.splits)

definition query_view :: "QueryCache \<Rightarrow> (QueryCacheKey \<times> u32 list \<times> u64) list" where
  "query_view c = List.map (\<lambda>e. (ce_key e, ce_result e, ce_gen e)) (entries c)"

definition query_inv :: "QueryCache \<Rightarrow> bool" where
  "query_inv c = lru_inv ce_key c"

interpretation query: lru_entry ce_key ce_gen ce_result "\<lambda>e. e\<lparr>ce_hitCount := ce_hitCount e + 1\<rparr>"
    query_upd query_new
  rewrites "get_shape ce_gen ce_result (\<lambda>e. e\<lparr>ce_hitCount := ce_hitCount e + 1\<rparr>) = QueryCache_Get"
    and "(\<lambda>a k v g. put_shape ce_key (query_upd a v g) (query_new a k v g) k) =
      (\<lambda>a k v g. QueryCache_PutAnnotated k v g a)"
    and "resize_shape ce_key = QueryCache_Resize"
    and "lru_entry.view ce_key ce_gen ce_result = query_view"
    and "lru_inv ce_key = query_inv"
proof -
  show "lru_entry ce_key ce_gen ce_result (\<lambda>e. e\<lparr>ce_hitCount := ce_hitCount e + 1\<rparr>) query_upd query_new"
    by unfold_locales (simp_all add: query_upd_def query_new_def Let_def)
  then show "lru_entry.view ce_key ce_gen ce_result = query_view"
    by (simp add: fun_eq_iff lru_entry.view_def query_view_def)
qed (simp_all add: query_shapes query_inv_def fun_eq_iff)

lemma query_inv_new [neo_inv]: "query_inv (NewQueryCache n)"
  by (simp add: query_inv_def NewQueryCache_def lru_inv_new)

lemma query_view_new [simp]: "query_view (NewQueryCache n) = []"
  by (simp add: query_view_def NewQueryCache_def)

section \<open>Counters\<close>

lemma query_peek_is_get: "QueryCache_Peek k g c = fst (QueryCache_Get k g t c)"
  using query.peek_is_get [of k g c t] by (simp add: query_shapes)

lemma hit_ratio_bounds:
  assumes "unat h + unat m < 2 ^ 64"
  shows "0 \<le> hit_ratio h m" "hit_ratio h m \<le> 1"
proof -
  have "unat (h + m) = unat h + unat m"
    using assms by (simp add: unat_word_ariths)
  then have "hit_ratio h m = (if h + m = 0 then 0 else of_nat (unat h) / (of_nat (unat h) + of_nat (unat m)))"
    by (simp add: hit_ratio_def del: of_nat_unat)
  moreover have "0 \<le> (of_nat (unat h) :: rat)" "0 \<le> (of_nat (unat m) :: rat)" by (simp_all del: of_nat_unat)
  ultimately show "0 \<le> hit_ratio h m" "hit_ratio h m \<le> 1"
    by (auto simp: divide_le_eq_1 simp del: of_nat_unat)
qed

lemma query_top_spec:
  "QueryCache_Top n c = (if n \<le> 0 then [] else take (nat n) (sort_desc qt_hitCount (List.map query_top_entry (entries c))))"
  by (auto simp: QueryCache_Top_def insertion_desc_is_sort_desc Let_def)

end
