(* ===== verification/Rag_TextCache.thy ===== *)
theory Rag_TextCache
  imports Rag_QueryCache
begin

text \<open>
  \<^verbatim>\<open>pkg/rag/text_cache.go\<close>: the LRU cache of full markdown responses.  An entry also
  records the handler, target and variant it was stored for, which a later store overwrites
  only where it supplies them.
\<close>

section \<open>Keys and state\<close>

record TextCacheKey =
  tk_hash :: u64
  tk_variant :: int

definition NewTextCacheKey :: "string \<Rightarrow> string \<Rightarrow> int \<Rightarrow> TextCacheKey" where
  "NewTextCacheKey handler target variant =
     (let qk = NewQueryCacheKey (handler @ ''|'' @ target) variant
      in \<lparr>tk_hash = qk_hash qk, tk_variant = qk_topK qk\<rparr>)"

record textEntry =
  te_key :: TextCacheKey
  te_text :: string
  te_gen :: u64
  te_target :: string
  te_handler :: string
  te_variant :: int
  te_hitCount :: u64

type_synonym TextCache = "(TextCacheKey, textEntry) lru"

definition NewTextCache :: "int \<Rightarrow> TextCache" where
  "NewTextCache capacity = lru_new capacity"

section \<open>Operations\<close>

definition TextCache_RecordMiss :: "string \<Rightarrow> TextCache \<Rightarrow> TextCache" where
  "TextCache_RecordMiss target c = c\<lparr>c_missRing := missRing_record target (c_missRing c)\<rparr>"

definition TextCache_RecentMissTargets :: "int \<Rightarrow> TextCache \<Rightarrow> string list" where
  "TextCache_RecentMissTargets n c = missRing_recent n (c_missRing c)"

definition TextCache_Get :: "TextCacheKey \<Rightarrow> u64 \<Rightarrow> time \<Rightarrow> TextCache \<Rightarrow> string option \<times> TextCache" where
  "TextCache_Get key currentGen now c =
     (if c_capacity c \<le> 0 then (None, c)
      else case c_items c key of
        None \<Rightarrow>
          (None, c\<lparr>c_misses := c_misses c + 1,
                   c_window := cacheWindow_record now False (c_window c)\<rparr>)
      | Some el \<Rightarrow>
          (case c_cell c el of
             None \<Rightarrow> (None, c)
           | Some entry \<Rightarrow>
               if te_gen entry \<noteq> currentGen then
                 (let c1 = map_delete key (list_Remove el c)
                  in (None, c1\<lparr>c_misses := c_misses c1 + 1,
                               c_window := cacheWindow_record now False (c_window c1)\<rparr>))
               else
                 (let c1 = list_MoveToFront el c;
                      c2 = set_cell el (entry\<lparr>te_hitCount := te_hitCount entry + 1\<rparr>) c1
                  in (Some (te_text entry),
                      c2\<lparr>c_hits := c_hits c2 + 1,
                         c_window := cacheWindow_record now True (c_window c2)\<rparr>))))"

definition TextCache_PutAnnotated ::
    "TextCacheKey \<Rightarrow> string \<Rightarrow> u64 \<Rightarrow> string \<Rightarrow> string \<Rightarrow> int \<Rightarrow> TextCache \<Rightarrow> TextCache" where
  "TextCache_PutAnnotated key text currentGen handler target variant c =
     (if c_capacity c \<le> 0 then c
      else case c_items c key of
        Some el \<Rightarrow>
          (case c_cell c el of
             None \<Rightarrow> c
           | Some entry \<Rightarrow>
               (let entry1 = entry\<lparr>te_text := text, te_gen := currentGen\<rparr>;
                    entry2 = (if handler \<noteq> '''' then entry1\<lparr>te_handler := handler\<rparr> else entry1);
                    entry3 = (if target \<noteq> '''' then entry2\<lparr>te_target := target\<rparr> else entry2);
                    entry4 = (if variant \<noteq> 0 then entry3\<lparr>te_variant := variant\<rparr> else entry3)
                in list_MoveToFront el (set_cell el entry4 c)))
      | None \<Rightarrow>
          (let entry = \<lparr>te_key = key, te_text = text, te_gen = currentGen, te_target = target,
                         te_handler = handler, te_variant = variant, te_hitCount = 0\<rparr>;
               (el, c1) = list_PushFront entry c;
               c2 = c1\<lparr>c_items := (c_items c1)(key \<mapsto> el)\<rparr>
           in if list_Len c2 > c_capacity c2 then evict_oldest te_key c2 else c2))"

definition TextCache_Put :: "TextCacheKey \<Rightarrow> string \<Rightarrow> u64 \<Rightarrow> TextCache \<Rightarrow> TextCache" where
  "TextCache_Put key text currentGen c = TextCache_PutAnnotated key text currentGen '''' '''' 0 c"

record TopEntry =
  tt_handler :: string
  tt_target :: string
  tt_variant :: int
  tt_hitCount :: u64

record HandlerAggregate =
  ha_size :: int
  ha_totalHits :: u64

definition handler_label :: "textEntry \<Rightarrow> string" where
  "handler_label e = (if te_handler e = '''' then ''(legacy)'' else te_handler e)"

text \<open>One round of the loop of \<^verbatim>\<open>HandlerBreakdown\<close>; an absent key reads as the zero aggregate.\<close>

definition breakdown_step ::
    "textEntry \<Rightarrow> (string \<Rightarrow> HandlerAggregate option) \<Rightarrow> (string \<Rightarrow> HandlerAggregate option)" where
  "breakdown_step e out =
     (let handler = handler_label e;
          agg = (case out handler of None \<Rightarrow> \<lparr>ha_size = 0, ha_totalHits = 0\<rparr> | Some a \<Rightarrow> a)
      in out(handler \<mapsto> \<lparr>ha_size = ha_size agg + 1, ha_totalHits = ha_totalHits agg + te_hitCount e\<rparr>))"

definition TextCache_HandlerBreakdown :: "TextCache \<Rightarrow> string \<Rightarrow> HandlerAggregate option" where
  "TextCache_HandlerBreakdown c = fold breakdown_step (entries c) Map.empty"

definition text_top_entry :: "textEntry \<Rightarrow> TopEntry" where
  "text_top_entry e =
     \<lparr>tt_handler = handler_label e,
      tt_target = (if te_target e = '''' then ''(opaque)'' else te_target e),
      tt_variant = te_variant e, tt_hitCount = te_hitCount e\<rparr>"

definition TextCache_Top :: "int \<Rightarrow> TextCache \<Rightarrow> TopEntry list" where
  "TextCache_Top n c =
     (if n \<le> 0 then []
      else (let out = insertion_desc tt_hitCount (List.map text_top_entry (entries c))
            in if int (length out) > n then take (nat n) out else out))"

definition TextCache_Stats :: "TextCache \<Rightarrow> u64 \<times> u64 \<times> u64 \<times> int" where
  "TextCache_Stats c = (c_hits c, c_misses c, c_evicts c, list_Len c)"

definition TextCache_HitRatio :: "TextCache \<Rightarrow> rat" where
  "TextCache_HitRatio c = (let (h, m, _, _) = TextCache_Stats c in hit_ratio h m)"

definition TextCache_Peek :: "TextCacheKey \<Rightarrow> u64 \<Rightarrow> TextCache \<Rightarrow> string option" where
  "TextCache_Peek key currentGen c =
     (if c_capacity c \<le> 0 then None
      else case c_items c key of
        None \<Rightarrow> None
      | Some el \<Rightarrow>
          (case c_cell c el of
             None \<Rightarrow> None
           | Some entry \<Rightarrow> if te_gen entry \<noteq> currentGen then None else Some (te_text entry)))"

definition TextCache_WindowedHitRatio :: "time \<Rightarrow> int \<Rightarrow> TextCache \<Rightarrow> u64 \<times> u64 \<times> rat" where
  "TextCache_WindowedHitRatio now d c =
     (let (h, m) = cacheWindow_windowed now d (c_window c) in (h, m, hit_ratio h m))"

definition TextCache_Resize :: "int \<Rightarrow> TextCache \<Rightarrow> TextCache" where
  "TextCache_Resize newCap c =
     (let c1 = c\<lparr>c_capacity := newCap\<rparr>
      in if newCap \<le> 0 then c1 else shrink_to te_key newCap c1)"

definition TextCache_Capacity :: "TextCache \<Rightarrow> int" where
  "TextCache_Capacity c = c_capacity c"

section \<open>The contract\<close>

definition text_upd :: "string \<times> string \<times> int \<Rightarrow> string \<Rightarrow> u64 \<Rightarrow> textEntry \<Rightarrow> textEntry" where
  "text_upd a text g e =
     (let (handler, target, variant) = a;
          e1 = e\<lparr>te_text := text, te_gen := g\<rparr>;
          e2 = (if handler \<noteq> '''' then e1\<lparr>te_handler := handler\<rparr> else e1);
          e3 = (if target \<noteq> '''' then e2\<lparr>te_target := target\<rparr> else e2)
      in if variant \<noteq> 0 then e3\<lparr>te_variant := variant\<rparr> else e3)"

definition text_new :: "string \<times> string \<times> int \<Rightarrow> TextCacheKey \<Rightarrow> string \<Rightarrow> u64 \<Rightarrow> textEntry" where
  "text_new a key text g =
     (let (handler, target, variant) = a
      in \<lparr>te_key = key, te_text = text, te_gen = g, te_target = target,
          te_handler = handler, te_variant = variant, te_hitCount = 0\<rparr>)"

lemma text_shapes:
  "get_shape te_gen te_text (\<lambda>e. e\<lparr>te_hitCount := te_hitCount e + 1\<rparr>) = TextCache_Get"
  "put_shape te_key (text_upd a text g) (text_new a key text g) key =
     (case a of (handler, target, variant) \<Rightarrow> TextCache_PutAnnotated key text g handler target variant)"
  "resize_shape te_key = TextCache_Resize"
  "peek_shape te_gen te_text = TextCache_Peek"
  by (auto simp: fun_eq_iff get_shape_def put_shape_def resize_shape_def peek_shape_def
      TextCache_Get_def TextCache_PutAnnotated_def TextCache_Resize_def TextCache_Peek_def
      note_miss_def note_hit_def text_upd_def text_new_def Let_def split: option.splits prod.splits)

definition text_view :: "TextCache \<Rightarrow> (TextCacheKey \<times> string \<times> u64) list" where
  "text_view c = List.map (\<lambda>e. (te_key e, te_text e, te_gen e)) (entries c)"

definition text_inv :: "TextCache \<Rightarrow> bool" where
  "text_inv c = lru_inv te_key c"

interpretation tcache: lru_entry te_key te_gen te_text "\<lambda>e. e\<lparr>te_hitCount := te_hitCount e + 1\<rparr>"
    text_upd text_new
  rewrites "get_shape te_gen te_text (\<lambda>e. e\<lparr>te_hitCount := te_hitCount e + 1\<rparr>) = TextCache_Get"
    and "(\<lambda>a k v g. put_shape te_key (text_upd a v g) (text_new a k v g) k) =
      (\<lambda>a k v g. case a of (handler, target, variant) \<Rightarrow> TextCache_PutAnnotated k v g handler target variant)"
    and "resize_shape te_key = TextCache_Resize"
    and "lru_entry.view te_key te_gen te_text = text_view"
    and "lru_inv te_key = text_inv"
proof -
  show "lru_entry te_key te_gen te_text (\<lambda>e. e\<lparr>te_hitCount := te_hitCount e + 1\<rparr>) text_upd text_new"
    by unfold_locales (simp_all add: text_upd_def text_new_def Let_def split: prod.splits)
  then show "lru_entry.view te_key te_gen te_text = text_view"
    by (simp add: fun_eq_iff lru_entry.view_def text_view_def)
qed (simp_all add: text_shapes text_inv_def fun_eq_iff)

lemma text_inv_new [neo_inv]: "text_inv (NewTextCache n)"
  by (simp add: text_inv_def NewTextCache_def lru_inv_new)

lemma text_peek_is_get: "TextCache_Peek k g c = fst (TextCache_Get k g t c)"
  using tcache.peek_is_get [of k g c t] by (simp add: text_shapes)

section \<open>Breakdown by handler\<close>

text \<open>The aggregate of each handler counts its entries and sums their hits.\<close>

lemma breakdown_step_apply:
  "breakdown_step e out h =
     (if handler_label e = h
      then (let a = (case out h of None \<Rightarrow> \<lparr>ha_size = 0, ha_totalHits = 0\<rparr> | Some a \<Rightarrow> a)
            in Some \<lparr>ha_size = ha_size a + 1, ha_totalHits = ha_totalHits a + te_hitCount e\<rparr>)
      else out h)"
  by (simp add: breakdown_step_def Let_def)

lemma breakdown_fold:
  "fold breakdown_step es out h =
     (let mine = filter (\<lambda>e. handler_label e = h) es
      in if mine = [] then out h
         else (let a = (case out h of None \<Rightarrow> \<lparr>ha_size = 0, ha_totalHits = 0\<rparr> | Some a \<Rightarrow> a)
               in Some \<lparr>ha_size = ha_size a + int (length mine),
                        ha_totalHits = ha_totalHits a + sum_list (List.map te_hitCount mine)\<rparr>))"
proof (induction es arbitrary: out)
  case Nil
  show ?case by simp
next
  case (Cons e es)
  show ?case
    using Cons.IH [of "breakdown_step e out"] breakdown_step_apply [of e out h]
    by (auto simp: Let_def add.assoc split: option.splits)
qed

lemma breakdown_sizes:
  "(\<Sum>h \<in> handler_label ` set es. int (length (filter (\<lambda>e. handler_label e = h) es))) = int (length es)"
proof -
  have "length es = (\<Sum>h \<in> handler_label ` set es. length (filter (\<lambda>e. handler_label e = h) es))"
  proof (induction es)
    case Nil
    show ?case by simp
  next
    case (Cons e es)
    let ?n = "\<lambda>h. length (filter (\<lambda>e. handler_label e = h) es)"
    have fin: "finite (handler_label ` set es)" by simp
    show ?case
    proof (cases "handler_label e \<in> handler_label ` set es")
      case True
      then have "(\<Sum>h \<in> handler_label ` set es. ?n h + (if h = handler_label e then 1 else 0)) = length es + 1"
        using Cons.IH fin by (simp add: sum.distrib)
      moreover have "(\<Sum>h \<in> handler_label ` set es. length (filter (\<lambda>e. handler_label e = h) (e # es))) =
          (\<Sum>h \<in> handler_label ` set es. ?n h + (if h = handler_label e then 1 else 0))"
        by (intro sum.cong) auto
      ultimately show ?thesis using True by (simp add: insert_absorb del: filter.simps)
    next
      case False
      have "handler_label x \<noteq> handler_label e" if "x \<in> set es" for x
        using False that by (metis image_eqI)
      then have z: "?n (handler_label e) = 0" by (simp add: filter_empty_conv)
      have "(\<Sum>h \<in> handler_label ` set es. length (filter (\<lambda>e. handler_label e = h) (e # es))) =
          (\<Sum>h \<in> handler_label ` set es. ?n h)"
        using False by (intro sum.cong) auto
      with False z Cons.IH fin show ?thesis by simp
    qed
  qed
  then show ?thesis by (metis of_nat_sum)
qed

lemma text_top_spec:
  "TextCache_Top n c = (if n \<le> 0 then [] else take (nat n) (sort_desc tt_hitCount (List.map text_top_entry (entries c))))"
  by (auto simp: TextCache_Top_def insertion_desc_is_sort_desc Let_def)

end
