(* ===== verification/Rag_Cache.thy ===== *)
theory Rag_Cache
  imports Rag_TextCache
begin

text \<open>
  \<^verbatim>\<open>pkg/rag/cache.go\<close>: the generic \<^verbatim>\<open>Cache[T]\<close>, whose value type is a type variable here, and
  its listings \<^verbatim>\<open>Top\<close> and \<^verbatim>\<open>TopValues\<close> (\<^verbatim>\<open>sort.SliceStable\<close> by hit count).
\<close>

section \<open>Keys and state\<close>

record CacheKey =
  ck_hash :: u64
  ck_variant :: int

definition NewCacheKey :: "string \<Rightarrow> int \<Rightarrow> CacheKey" where
  "NewCacheKey target variant =
     (let q = NewQueryCacheKey target variant in \<lparr>ck_hash = qk_hash q, ck_variant = qk_topK q\<rparr>)"

record 'v cacheItem =
  ci_key :: CacheKey
  ci_value :: 'v
  ci_gen :: u64
  ci_target :: string
  ci_hitCount :: u64

type_synonym 'v Cache = "(CacheKey, 'v cacheItem) lru"

definition NewCache :: "int \<Rightarrow> 'v Cache" where
  "NewCache capacity = lru_new capacity"

section \<open>Operations\<close>

definition Cache_Get :: "CacheKey \<Rightarrow> u64 \<Rightarrow> time \<Rightarrow> 'v Cache \<Rightarrow> 'v option \<times> 'v Cache" where
  "Cache_Get key currentGen now c =
     (if c_capacity c \<le> 0 then (None, c)
      else case c_items c key of
        None \<Rightarrow>
          (None, c\<lparr>c_misses := c_misses c + 1,
                   c_window := cacheWindow_record now False (c_window c)\<rparr>)
      | Some el \<Rightarrow>
          (case c_cell c el of
             None \<Rightarrow> (None, c)
           | Some item \<Rightarrow>
               if ci_gen item \<noteq> currentGen then
                 (let c1 = map_delete key (list_Remove el c)
                  in (None, c1\<lparr>c_misses := c_misses c1 + 1,
                               c_window := cacheWindow_record now False (c_window c1)\<rparr>))
               else
                 (let c1 = list_MoveToFront el c;
                      c2 = set_cell el (item\<lparr>ci_hitCount := ci_hitCount item + 1\<rparr>) c1
                  in (Some (ci_value item),
                      c2\<lparr>c_hits := c_hits c2 + 1,
                         c_window := cacheWindow_record now True (c_window c2)\<rparr>))))"

definition Cache_Peek :: "CacheKey \<Rightarrow> u64 \<Rightarrow> 'v Cache \<Rightarrow> 'v option" where
  "Cache_Peek key currentGen c =
     (if c_capacity c \<le> 0 then None
      else case c_items c key of
        None \<Rightarrow> None
      | Some el \<Rightarrow>
          (case c_cell c el of
             None \<Rightarrow> None
           | Some item \<Rightarrow> if ci_gen item \<noteq> currentGen then None else Some (ci_value item)))"

definition Cache_PutAnnotated :: "CacheKey \<Rightarrow> 'v \<Rightarrow> u64 \<Rightarrow> string \<Rightarrow> 'v Cache \<Rightarrow> 'v Cache" where
  "Cache_PutAnnotated key value currentGen target c =
     (if c_capacity c \<le> 0 then c
      else case c_items c key of
        Some el \<Rightarrow>
          (case c_cell c el of
             None \<Rightarrow> c
           | Some item \<Rightarrow>
               (let item1 = item\<lparr>ci_value := value, ci_gen := currentGen\<rparr>;
                    item2 = (if target \<noteq> '''' then item1\<lparr>ci_target := target\<rparr> else item1)
                in list_MoveToFront el (set_cell el item2 c)))
      | None \<Rightarrow>
          (let item = \<lparr>ci_key = key, ci_value = value, ci_gen = currentGen,
                        ci_target = target, ci_hitCount = 0\<rparr>;
               (el, c1) = list_PushFront item c;
               c2 = c1\<lparr>c_items := (c_items c1)(key \<mapsto> el)\<rparr>
           in if list_Len c2 > c_capacity c2 then evict_oldest ci_key c2 else c2))"

definition Cache_Put :: "CacheKey \<Rightarrow> 'v \<Rightarrow> u64 \<Rightarrow> 'v Cache \<Rightarrow> 'v Cache" where
  "Cache_Put key value currentGen c = Cache_PutAnnotated key value currentGen '''' c"

definition Cache_RecordMiss :: "string \<Rightarrow> 'v Cache \<Rightarrow> 'v Cache" where
  "Cache_RecordMiss target c = c\<lparr>c_missRing := missRing_record target (c_missRing c)\<rparr>"

definition Cache_RecentMissTargets :: "int \<Rightarrow> 'v Cache \<Rightarrow> string list" where
  "Cache_RecentMissTargets n c = missRing_recent n (c_missRing c)"

definition Cache_Stats :: "'v Cache \<Rightarrow> u64 \<times> u64 \<times> u64 \<times> int" where
  "Cache_Stats c = (c_hits c, c_misses c, c_evicts c, list_Len c)"

definition Cache_HitRatio :: "'v Cache \<Rightarrow> rat" where
  "Cache_HitRatio c = (let (h, m, _, _) = Cache_Stats c in hit_ratio h m)"

definition Cache_WindowedHitRatio :: "time \<Rightarrow> int \<Rightarrow> 'v Cache \<Rightarrow> u64 \<times> u64 \<times> rat" where
  "Cache_WindowedHitRatio now d c =
     (let (h, m) = cacheWindow_windowed now d (c_window c) in (h, m, hit_ratio h m))"

definition Cache_Resize :: "int \<Rightarrow> 'v Cache \<Rightarrow> 'v Cache" where
  "Cache_Resize newCap c =
     (let c1 = c\<lparr>c_capacity := newCap\<rparr>
      in if newCap \<le> 0 then c1 else shrink_to ci_key newCap c1)"

definition Cache_Capacity :: "'v Cache \<Rightarrow> int" where
  "Cache_Capacity c = c_capacity c"

record CacheTopEntry =
  ct_target :: string
  ct_variant :: int
  ct_hitCount :: u64

record 'v TopWithValue = CacheTopEntry +
  ct_value :: 'v

definition item_target :: "'v cacheItem \<Rightarrow> string" where
  "item_target item = (if ci_target item = '''' then ''(opaque)'' else ci_target item)"

definition Cache_TopValues :: "int \<Rightarrow> 'v Cache \<Rightarrow> 'v TopWithValue list" where
  "Cache_TopValues n c =
     (if n \<le> 0 then []
      else (let out = sort_desc ct_hitCount
                  (List.map (\<lambda>item. \<lparr>ct_target = item_target item, ct_variant = ck_variant (ci_key item),
                        ct_hitCount = ci_hitCount item, ct_value = ci_value item\<rparr>) (entries c))
            in if int (length out) > n then take (nat n) out else out))"

definition Cache_Top :: "int \<Rightarrow> 'v Cache \<Rightarrow> CacheTopEntry list" where
  "Cache_Top n c =
     (if n \<le> 0 then []
      else (let out = sort_desc ct_hitCount
                  (List.map (\<lambda>item. \<lparr>ct_target = item_target item, ct_variant = ck_variant (ci_key item),
                        ct_hitCount = ci_hitCount item\<rparr>) (entries c))
            in if int (length out) > n then take (nat n) out else out))"

section \<open>The contract\<close>

definition item_upd :: "string \<Rightarrow> 'v \<Rightarrow> u64 \<Rightarrow> 'v cacheItem \<Rightarrow> 'v cacheItem" where
  "item_upd target value g e =
     (let e1 = e\<lparr>ci_value := value, ci_gen := g\<rparr>
      in if target \<noteq> '''' then e1\<lparr>ci_target := target\<rparr> else e1)"

definition item_new :: "string \<Rightarrow> CacheKey \<Rightarrow> 'v \<Rightarrow> u64 \<Rightarrow> 'v cacheItem" where
  "item_new target key value g =
     \<lparr>ci_key = key, ci_value = value, ci_gen = g, ci_target = target, ci_hitCount = 0\<rparr>"

lemma cache_shapes:
  "get_shape ci_gen ci_value (\<lambda>e. e\<lparr>ci_hitCount := ci_hitCount e + 1\<rparr>) = Cache_Get"
  "put_shape ci_key (item_upd target value g) (item_new target key value g) key =
     Cache_PutAnnotated key value g target"
  "resize_shape ci_key = Cache_Resize"
  "peek_shape ci_gen ci_value = Cache_Peek"
  by (auto simp: fun_eq_iff get_shape_def put_shape_def resize_shape_def peek_shape_def
      Cache_Get_def Cache_PutAnnotated_def Cache_Resize_def Cache_Peek_def
      note_miss_def note_hit_def item_upd_def item_new_def Let_def split: option.splits)

definition cache_view :: "'v Cache \<Rightarrow> (CacheKey \<times> 'v \<times> u64) list" where
  "cache_view c = List.map (\<lambda>e. (ci_key e, ci_value e, ci_gen e)) (entries c)"

definition cache_inv :: "'v Cache \<Rightarrow> bool" where
  "cache_inv c = lru_inv ci_key c"

interpretation gcache: lru_entry "ci_key :: 'v cacheItem \<Rightarrow> CacheKey" ci_gen ci_value "\<lambda>e. e\<lparr>ci_hitCount := ci_hitCount e + 1\<rparr>"
    item_upd item_new
  rewrites "get_shape ci_gen ci_value (\<lambda>e. e\<lparr>ci_hitCount := ci_hitCount e + 1\<rparr>) = Cache_Get"
    and "(\<lambda>a k v g. put_shape ci_key (item_upd a v g) (item_new a k v g) k) =
      (\<lambda>a k v g. Cache_PutAnnotated k v g a)"
    and "resize_shape ci_key = Cache_Resize"
    and "lru_entry.view (ci_key :: 'v cacheItem \<Rightarrow> CacheKey) ci_gen ci_value = cache_view"
    and "lru_inv ci_key = cache_inv"
proof -
  show "lru_entry (ci_key :: 'v cacheItem \<Rightarrow> CacheKey) ci_gen ci_value (\<lambda>e. e\<lparr>ci_hitCount := ci_hitCount e + 1\<rparr>) item_upd item_new"
    by unfold_locales (simp_all add: item_upd_def item_new_def Let_def)
  then show "lru_entry.view (ci_key :: 'v cacheItem \<Rightarrow> CacheKey) ci_gen ci_value = cache_view"
    by (simp add: fun_eq_iff lru_entry.view_def cache_view_def)
qed (simp_all add: cache_shapes cache_inv_def fun_eq_iff)

lemma cache_inv_new [neo_inv]: "cache_inv (NewCache n)"
  by (simp add: cache_inv_def NewCache_def lru_inv_new)

lemma cache_view_new [simp]: "cache_view (NewCache n) = []"
  by (simp add: cache_view_def NewCache_def)

lemma cache_peek_is_get: "Cache_Peek k g c = fst (Cache_Get k g t c)"
  using gcache.peek_is_get [of k g c t] by (simp add: cache_shapes)

text \<open>\<^verbatim>\<open>TopValues\<close> is \<^verbatim>\<open>Top\<close> with the values attached.\<close>

lemma sort_desc_map: "List.map f (sort_desc (g \<circ> f) xs) = sort_desc g (List.map f xs)"
proof -
  have "List.map f (insort_key (\<lambda>x. - uint (g (f x))) x xs) =
      insort_key (\<lambda>x. - uint (g x)) (f x) (List.map f xs)" for x xs
    by (induction xs) auto
  then show ?thesis by (induction xs) (simp_all add: sort_desc_def)
qed

lemma top_values_top:
  fixes c :: "'v Cache"
  shows "List.map CacheTopEntry.truncate (Cache_TopValues n c) = Cache_Top n c"
proof -
  have tr: "List.map CacheTopEntry.truncate (sort_desc ct_hitCount xs) =
      sort_desc ct_hitCount (List.map CacheTopEntry.truncate xs)" for xs :: "'v TopWithValue list"
    using sort_desc_map [of CacheTopEntry.truncate ct_hitCount xs]
    by (simp add: CacheTopEntry.truncate_def comp_def)
  show ?thesis
    by (auto simp: Cache_TopValues_def Cache_Top_def Let_def take_map [symmetric] tr comp_def)
      (simp_all add: CacheTopEntry.truncate_def)
qed

end
