(* ===== verification/Rag_Props.thy ===== *)
theory Rag_Props
  imports Rag_Cache
begin

text \<open>
  What the caches of \<^verbatim>\<open>pkg/rag\<close> guarantee over whole histories of calls, obtained from the
  interpretations of \<open>lru_resizable\<close> and \<open>ring_log\<close>.  A history of the query cache is a list
  of lookups and annotated stores; \<open>query_run\<close>, \<open>text_run\<close> and \<open>cache_run\<close> execute one.
\<close>

section \<open>Histories\<close>

fun query_step :: "(string, QueryCacheKey, u32 list) cache_op \<Rightarrow> QueryCache \<Rightarrow> QueryCache" where
  "query_step (OpGet k g t) c = snd (QueryCache_Get k g t c)"
| "query_step (OpPut target k v g) c = QueryCache_PutAnnotated k v g target c"

fun text_step :: "(string \<times> string \<times> int, TextCacheKey, string) cache_op \<Rightarrow> TextCache \<Rightarrow> TextCache" where
  "text_step (OpGet k g t) c = snd (TextCache_Get k g t c)"
| "text_step (OpPut (handler, target, variant) k v g) c = TextCache_PutAnnotated k v g handler target variant c"

fun cache_step :: "(string, CacheKey, 'v) cache_op \<Rightarrow> 'v Cache \<Rightarrow> 'v Cache" where
  "cache_step (OpGet k g t) c = snd (Cache_Get k g t c)"
| "cache_step (OpPut target k v g) c = Cache_PutAnnotated k v g target c"

definition query_run :: "(string, QueryCacheKey, u32 list) cache_op list \<Rightarrow> QueryCache \<Rightarrow> QueryCache" where
  "query_run ops c = fold query_step ops c"

definition text_run ::
    "(string \<times> string \<times> int, TextCacheKey, string) cache_op list \<Rightarrow> TextCache \<Rightarrow> TextCache" where
  "text_run ops c = fold text_step ops c"

definition cache_run :: "(string, CacheKey, 'v) cache_op list \<Rightarrow> 'v Cache \<Rightarrow> 'v Cache" where
  "cache_run ops c = fold cache_step ops c"

lemma query_exec: "query.exec = query_step"
proof (intro ext)
  fix op c
  show "query.exec op c = query_step op c" by (cases op) (simp_all add: query_shapes cache_shapes)
qed

lemma text_exec: "tcache.exec = text_step"
proof (intro ext)
  fix op c
  show "tcache.exec op c = text_step op c" by (cases op) (auto simp: text_shapes)
qed

lemma cache_exec: "gcache.exec = cache_step"
proof (intro ext)
  fix op c
  show "gcache.exec op c = cache_step op c" by (cases op) (simp_all add: query_shapes cache_shapes)
qed

lemma query_cap_new [simp]: "c_capacity (NewQueryCache n) = n"
  by (simp add: NewQueryCache_def lru_new_def)

lemma text_cap_new [simp]: "c_capacity (NewTextCache n) = n"
  by (simp add: NewTextCache_def lru_new_def)

lemma cache_cap_new [simp]: "c_capacity (NewCache n) = n"
  by (simp add: NewCache_def lru_new_def)

lemma text_view_new [simp]: "text_view (NewTextCache n) = []"
  by (simp add: text_view_def NewTextCache_def)

lemma query_run_inv: "query_inv c \<Longrightarrow> query_inv (query_run ops c) \<and> c_capacity (query_run ops c) = c_capacity c"
  using query.run_invar [of c ops] by (simp add: query_run_def query_exec)

lemma text_run_inv: "text_inv c \<Longrightarrow> text_inv (text_run ops c) \<and> c_capacity (text_run ops c) = c_capacity c"
  using tcache.run_invar [of c ops] by (simp add: text_run_def text_exec)

lemma cache_run_inv: "cache_inv c \<Longrightarrow> cache_inv (cache_run ops c) \<and> c_capacity (cache_run ops c) = c_capacity c"
  using gcache.run_invar [of c ops] by (simp add: cache_run_def cache_exec)

text \<open>The lookups of a history.\<close>

fun is_get :: "('a, 'k, 'v) cache_op \<Rightarrow> bool" where
  "is_get (OpGet k g t) = True"
| "is_get (OpPut a k v g) = False"

lemma text_run_counts:
  assumes "text_inv c" "0 < c_capacity c"
  shows "c_hits (text_run ops c) + c_misses (text_run ops c) =
    c_hits c + c_misses c + of_nat (length (filter is_get ops))"
  using assms
proof (induction ops arbitrary: c)
  case Nil
  then show ?case by (simp add: text_run_def)
next
  case (Cons op ops)
  have inv: "text_inv (text_step op c)" "c_capacity (text_step op c) = c_capacity c"
    using text_run_inv [OF Cons.prems(1), of "[op]"] by (simp_all add: text_run_def)
  have step: "c_hits (text_step op c) + c_misses (text_step op c) =
      c_hits c + c_misses c + (if is_get op then 1 else 0)"
  proof (cases op)
    case (OpGet k g t)
    then show ?thesis using tcache.get_counts [OF Cons.prems(1,2), of k g t]
      by (simp add: text_shapes)
  next
    case (OpPut a k v g)
    then show ?thesis using tcache.put_counts [of a v g k c] by (cases a) (simp add: text_shapes)
  qed
  have "text_run (op # ops) c = text_run ops (text_step op c)" by (simp add: text_run_def)
  then show ?case using Cons.IH [OF inv(1)] Cons.prems(2) inv(2) step by simp
qed

lemma text_view_length: "int (length (text_view c)) = list_Len c"
  by (simp add: text_view_def entries_length)

section \<open>Properties\<close>

text \<open>
  C6: a stored query result is retained: from a fresh cache of capacity n, after any lookups and
  stores, a result stored under a key is returned by every lookup of the same generation, as long as it
  is not stored again or looked up at another generation, and fewer than n distinct other keys
  are touched between two uses of it (the store, each lookup, the final one).
\<close>

theorem query_cache_retains:
  assumes "0 < n" "stays_recent k g n {} ops"
  shows "fst (QueryCache_Get k g t
           (query_run ops (QueryCache_PutAnnotated k v g target (query_run before (NewQueryCache n))))) = Some v"
  using query.stays_cached [of "query_run before (NewQueryCache n)" k g ops t target v] assms
    query_run_inv [OF query_inv_new, of before n]
  by (simp add: query_run_def query_exec query_shapes)

text \<open>Two places; a lookup between two other stores keeps the entry.\<close>

theorem query_cache_retains_witness:
  "fst (QueryCache_Get (NewQueryCacheKey ''auth'' 5) 7 3
      (query_run [OpPut '''' (NewQueryCacheKey ''db'' 5) [9] 7, OpGet (NewQueryCacheKey ''auth'' 5) 7 2,
          OpPut '''' (NewQueryCacheKey ''web'' 5) [8] 7]
        (QueryCache_PutAnnotated (NewQueryCacheKey ''auth'' 5) [1, 2] 7 ''auth'' (query_run [] (NewQueryCache 2))))) = Some [1, 2]"
proof (rule query_cache_retains)
  have ne: "NewQueryCacheKey ''auth'' 5 \<noteq> NewQueryCacheKey ''db'' 5" "NewQueryCacheKey ''auth'' 5 \<noteq> NewQueryCacheKey ''web'' 5"
    by (simp_all add: NewQueryCacheKey_def fnv64a_def)
  show "stays_recent (NewQueryCacheKey ''auth'' 5) 7 2 {} [OpPut '''' (NewQueryCacheKey ''db'' 5) [9] 7,
      OpGet (NewQueryCacheKey ''auth'' 5) 7 2, OpPut '''' (NewQueryCacheKey ''web'' 5) [8] 7]"
    using ne ne [symmetric] by simp
qed simp

text \<open>
  The response cache is never stale: in any history on a fresh cache, a lookup that hits
  returns exactly what the last store under that key stored, and that store was made at the
  generation asked for.
\<close>

theorem text_cache_hit_is_last_store:
  assumes "0 < n" "fst (TextCache_Get k g t (text_run ops (NewTextCache n))) = Some v"
  shows "last_put k ops = Some (v, g)"
  using tcache.hit_is_last_put [of "NewTextCache n" k g t ops v] assms text_inv_new [of n]
  by (simp add: text_run_def text_exec text_shapes)

theorem text_cache_hit_is_last_store_witness:
  "last_put (NewTextCacheKey ''BLAST'' ''a.go'' 3)
     [OpPut (''BLAST'', ''a.go'', 3 :: int) (NewTextCacheKey ''BLAST'' ''a.go'' 3) ''old'' 1,
      OpPut (''BLAST'', ''a.go'', 3) (NewTextCacheKey ''BLAST'' ''a.go'' 3) ''new'' 2] = Some (''new'', 2)"
proof (rule text_cache_hit_is_last_store [of 4 _ 2 9])
  show "fst (TextCache_Get (NewTextCacheKey ''BLAST'' ''a.go'' 3) 2 9 (text_run
     [OpPut (''BLAST'', ''a.go'', 3) (NewTextCacheKey ''BLAST'' ''a.go'' 3) ''old'' 1,
      OpPut (''BLAST'', ''a.go'', 3) (NewTextCacheKey ''BLAST'' ''a.go'' 3) ''new'' 2] (NewTextCache 4))) = Some ''new''"
    by (simp add: text_run_def TextCache_PutAnnotated_def NewTextCache_def lru_new_def
        list_defs Let_def TextCache_Get_def)
qed simp

text \<open>
  The counters of \<^verbatim>\<open>Stats\<close> are exact: after any history on a fresh response cache of
  capacity n, hits plus misses is the number of lookups (as 64-bit counters), and the number
  of entries never exceeds n.
\<close>

theorem text_cache_stats:
  assumes "0 < n"
  shows "case TextCache_Stats (text_run ops (NewTextCache n)) of (h, m, e, sz) \<Rightarrow>
    h + m = of_nat (length (filter is_get ops)) \<and> 0 \<le> sz \<and> sz \<le> n"
proof -
  have inv: "text_inv (text_run ops (NewTextCache n))" "c_capacity (text_run ops (NewTextCache n)) = n"
    using text_run_inv [OF text_inv_new, of ops n] by simp_all
  have "c_hits (NewTextCache n) + c_misses (NewTextCache n) = 0"
    by (simp add: NewTextCache_def lru_new_def)
  then show ?thesis
    using text_run_counts [OF text_inv_new, of n ops] tcache.view_bound [OF inv(1)] inv(2) assms
    by (simp add: TextCache_Stats_def text_view_length) (simp add: list_Len_def)
qed

theorem text_cache_stats_witness:
  "case TextCache_Stats (text_run [OpGet (NewTextCacheKey ''H'' ''x'' 0) 1 5] (NewTextCache 3)) of (h, m, e, sz) \<Rightarrow>
    h + m = of_nat (length (filter is_get [OpGet (NewTextCacheKey ''H'' ''x'' 0) 1 5 :: (string \<times> string \<times> int, TextCacheKey, string) cache_op])) \<and>
    0 \<le> sz \<and> sz \<le> 3"
  by (rule text_cache_stats) simp

text \<open>
  Shrinking or growing the generic cache at run time keeps exactly the most recently used
  entries that fit, in order, and never loses the entry stored last.
\<close>

theorem cache_resize_keeps_recent:
  assumes "0 < m" "0 < n"
  shows "cache_view (Cache_Resize m (cache_run ops (NewCache n))) = take (nat m) (cache_view (cache_run ops (NewCache n))) \<and>
    fst (Cache_Get k g t (Cache_Resize m (Cache_PutAnnotated k v g target (cache_run ops (NewCache n))))) = Some v"
proof
  have inv: "cache_inv (cache_run ops (NewCache n))" "c_capacity (cache_run ops (NewCache n)) = n"
    using cache_run_inv [OF cache_inv_new, of ops n] by simp_all
  show "cache_view (Cache_Resize m (cache_run ops (NewCache n))) = take (nat m) (cache_view (cache_run ops (NewCache n)))"
    using gcache.resize_view [OF inv(1), of m] assms by (simp add: cache_shapes)
  show "fst (Cache_Get k g t (Cache_Resize m (Cache_PutAnnotated k v g target (cache_run ops (NewCache n))))) = Some v"
    using gcache.get_after_resize [OF inv(1), of m k g t target v] inv(2) assms by (simp add: cache_shapes)
qed

theorem cache_resize_keeps_recent_witness:
  "fst (Cache_Get (NewCacheKey ''k'' 1) 4 0 (Cache_Resize 1 (Cache_PutAnnotated (NewCacheKey ''k'' 1) (42 :: int) 4 ''''
      (cache_run [OpPut '''' (NewCacheKey ''j'' 1) 41 4] (NewCache 8))))) = Some 42"
  by (rule conjunct2, rule cache_resize_keeps_recent) simp_all

text \<open>
  \<^verbatim>\<open>RecentMissTargets\<close> of a query cache on which any targets were recorded as misses
  returns the first n distinct targets among the last 64 non-empty ones, newest first.
\<close>

theorem recent_miss_targets:
  assumes "0 < n"
  shows "QueryCache_RecentMissTargets n (fold QueryCache_RecordMiss targets (NewQueryCache cap)) =
    take (nat n) (distinct_first [] (take missRingCap (rev (filter (\<lambda>t. t \<noteq> '''') targets))))"
proof -
  have r: "c_missRing (fold QueryCache_RecordMiss ts c) = fold missRing_record ts (c_missRing c)" for ts c
    by (induction ts arbitrary: c) (simp_all add: QueryCache_RecordMiss_def)
  let ?r = "fold missRing_record targets newMissRing"
  have v: "ring_view ?r = take missRingCap (rev (filter (\<lambda>t. t \<noteq> '''') targets))"
    by (rule mring.view_history)
  have ne: "filter (\<lambda>t. t \<noteq> '''') (ring_view ?r) = ring_view ?r"
    using v by (auto simp: filter_id_conv dest: in_set_takeD)
  have z: "filled ?r = 0 \<Longrightarrow> ring_view ?r = []" by (simp add: ring_view_def)
  have "missRing_recent n ?r = take (nat n) (distinct_first [] (ring_view ?r))"
    using recent_loop_spec [of "[]" "nat n" ?r 0] assms ne z by (auto simp: missRing_recent_def)
  then show ?thesis
    by (simp add: QueryCache_RecentMissTargets_def r NewQueryCache_def lru_new_def v)
qed

theorem recent_miss_targets_witness:
  "QueryCache_RecentMissTargets 2 (fold QueryCache_RecordMiss [''a'', ''b'', '''', ''b''] (NewQueryCache 8)) =
    take (nat 2) (distinct_first [] (take missRingCap (rev (filter (\<lambda>t. t \<noteq> '''') [''a'', ''b'', '''', ''b'']))))"
  by (rule recent_miss_targets) simp

text \<open>
  The windowed statistics: if events are recorded at nondecreasing times, the window of
  length d ending at \<open>now\<close> counts exactly the hits and the misses at or after \<open>now - d\<close> among
  the last 4096 events.
\<close>

theorem windowed_counts:
  fixes evs :: "windowEvent list"
  assumes "sorted_wrt (\<lambda>a b. ev_t a \<le> ev_t b) evs" "0 < d"
  shows "cacheWindow_windowed now d (fold (\<lambda>e. cacheWindow_record (ev_t e) (ev_hit e)) evs newCacheWindow) =
    (let recent = filter (\<lambda>e. now - d \<le> ev_t e) (take windowCap (rev evs))
     in (of_nat (length (filter ev_hit recent)), of_nat (length (filter (\<lambda>e. \<not> ev_hit e) recent))))"
proof -
  let ?w = "fold (\<lambda>e. cacheWindow_record (ev_t e) (ev_hit e)) evs newCacheWindow"
  have v: "ring_view ?w = take windowCap (rev evs)"
    using wring.view_history [of evs] by simp
  have "sorted_wrt (\<lambda>a b. ev_t b \<le> ev_t a) (rev evs)"
    using assms(1) by (simp add: sorted_wrt_rev)
  then have "sorted_wrt (\<lambda>a b. ev_t b \<le> ev_t a) (take windowCap (rev evs))"
    by (rule sorted_wrt_take)
  from takeWhile_sorted_filter [OF this, of "now - d"] show ?thesis
    using assms(2) by (simp add: cacheWindow_windowed_def windowed_loop_spec v count_u64_def)
qed

theorem windowed_counts_witness:
  "cacheWindow_windowed 10 5 (fold (\<lambda>e. cacheWindow_record (ev_t e) (ev_hit e))
      [\<lparr>ev_t = 1, ev_hit = True\<rparr>, \<lparr>ev_t = 6, ev_hit = True\<rparr>, \<lparr>ev_t = 8, ev_hit = False\<rparr>] newCacheWindow) =
    (let recent = filter (\<lambda>e. 10 - 5 \<le> ev_t e) (take windowCap (rev
        [\<lparr>ev_t = 1, ev_hit = True\<rparr>, \<lparr>ev_t = 6, ev_hit = True\<rparr>, \<lparr>ev_t = 8, ev_hit = False\<rparr>]))
     in (of_nat (length (filter ev_hit recent)), of_nat (length (filter (\<lambda>e. \<not> ev_hit e) recent))))"
  by (rule windowed_counts) simp_all

text \<open>
  \<^verbatim>\<open>TextCache.Top\<close>, an in-place insertion sort, returns the n entries with the most hits,
  in nonincreasing order of hits, as the stable sort does: entries with equal hits stay in
  recency order.
\<close>

theorem text_top_sorted:
  "TextCache_Top n c = take (nat n) (sort_desc tt_hitCount (List.map text_top_entry (entries c))) \<and>
   sorted_wrt (\<lambda>a b. tt_hitCount b \<le> tt_hitCount a) (TextCache_Top n c)"
proof
  show e: "TextCache_Top n c = take (nat n) (sort_desc tt_hitCount (List.map text_top_entry (entries c)))"
    by (simp add: text_top_spec)
  have "sorted_wrt (\<lambda>a b. tt_hitCount b \<le> tt_hitCount a) (sort_desc tt_hitCount xs)" for xs
    using sort_desc_sorted [of tt_hitCount xs] by (simp add: sorted_map word_le_def)
  then show "sorted_wrt (\<lambda>a b. tt_hitCount b \<le> tt_hitCount a) (TextCache_Top n c)"
    unfolding e by (rule sorted_wrt_take)
qed

text \<open>
  \<^verbatim>\<open>HandlerBreakdown\<close> loses no entry: an aggregate exists exactly for the handlers with an
  entry, counts their entries and sums their hits, and the sizes add up to the cache's size.
\<close>

theorem handler_breakdown_exact:
  "(\<forall>h. TextCache_HandlerBreakdown c h =
     (let mine = filter (\<lambda>e. handler_label e = h) (entries c)
      in if mine = [] then None
         else Some \<lparr>ha_size = int (length mine), ha_totalHits = sum_list (List.map te_hitCount mine)\<rparr>)) \<and>
   (\<Sum>h \<in> dom (TextCache_HandlerBreakdown c). ha_size (the (TextCache_HandlerBreakdown c h))) = list_Len c"
proof (intro conjI allI)
  show e: "TextCache_HandlerBreakdown c h =
     (let mine = filter (\<lambda>e. handler_label e = h) (entries c)
      in if mine = [] then None
         else Some \<lparr>ha_size = int (length mine), ha_totalHits = sum_list (List.map te_hitCount mine)\<rparr>)" for h
    by (simp add: TextCache_HandlerBreakdown_def breakdown_fold Let_def)
  have d: "dom (TextCache_HandlerBreakdown c) = handler_label ` set (entries c)"
    by (auto simp: e Let_def filter_empty_conv split: if_splits)
  have "(\<Sum>h \<in> dom (TextCache_HandlerBreakdown c). ha_size (the (TextCache_HandlerBreakdown c h))) =
      (\<Sum>h \<in> handler_label ` set (entries c). int (length (filter (\<lambda>e. handler_label e = h) (entries c))))"
    unfolding d by (intro sum.cong) (auto simp: e Let_def filter_empty_conv)
  also have "\<dots> = list_Len c" by (simp add: breakdown_sizes entries_length)
  finally show "(\<Sum>h \<in> dom (TextCache_HandlerBreakdown c). ha_size (the (TextCache_HandlerBreakdown c h))) = list_Len c" .
qed

end
