(* ===== verification/Bolt_Iface.thy ===== *)
theory Bolt_Iface
  imports Neo_Prelude
begin

text \<open>
  The key/value store under \<^verbatim>\<open>pkg/state\<close> is \<^verbatim>\<open>go.etcd.io/bbolt\<close>, whose code is not in the
  repository.  It is a parameter of every definition that uses it: a record \<open>bolt\<close> of the
  operations the code calls on a bucket, and of the outcome of a commit.  The locale
  \<open>bolt_bucket\<close> states the documented behaviour the code relies on (byte-ordered iteration,
  read-your-writes); theorems that need it carry \<open>bolt_bucket B\<close> as a hypothesis.  The
  ordered association list at the end satisfies it and is the instance the witnesses use.

  A stored value is represented by what the bytes decode to, so \<^verbatim>\<open>json.Marshal\<close> is the
  constructor of the value's kind and \<^verbatim>\<open>json.Unmarshal\<close> a partial inverse of it.
\<close>

section \<open>Errors and outcomes\<close>

datatype error = Err string | Wrap string error | JsonError

text \<open>A Go call that may dereference nil.\<close>

datatype 'a outcome = Ret 'a | Panic

section \<open>The interface\<close>

record ('b, 'v) bolt =
  bk_empty :: 'b
  bk_items :: "'b \<Rightarrow> (string \<times> 'v) list"
  bk_get :: "'b \<Rightarrow> string \<Rightarrow> 'v option"
  bk_put :: "'b \<Rightarrow> string \<Rightarrow> 'v \<Rightarrow> error + 'b"
  bk_delete :: "'b \<Rightarrow> string \<Rightarrow> error + 'b"
  bk_purge :: "'b \<Rightarrow> 'b \<times> error option"       \<comment> \<open>a cursor loop deleting each key it visits: the bucket after it, its first error\<close>
  bk_commit :: "(string \<Rightarrow> 'b option) \<Rightarrow> error option"

type_synonym 'b buckets = "string \<Rightarrow> 'b option"

text \<open>
  \<^verbatim>\<open>db.Update\<close>: the closure works on the buckets of the transaction and may set variables of
  its caller (the first component).  An error of the closure or of the commit rolls back.
\<close>

definition db_update ::
    "('b, 'v) bolt \<Rightarrow> ('b buckets \<Rightarrow> 'r \<times> (error + 'b buckets)) \<Rightarrow> 'b buckets \<Rightarrow> 'r \<times> error option \<times> 'b buckets" where
  "db_update B f bs =
     (case f bs of
        (r, Inl e) \<Rightarrow> (r, Some e, bs)
      | (r, Inr bs') \<Rightarrow> (case bk_commit B bs' of Some e \<Rightarrow> (r, Some e, bs) | None \<Rightarrow> (r, None, bs')))"

definition create_if_missing :: "('b, 'v) bolt \<Rightarrow> string \<Rightarrow> 'b buckets \<Rightarrow> 'b buckets" where
  "create_if_missing B name bs = (case bs name of None \<Rightarrow> bs(name \<mapsto> bk_empty B) | Some _ \<Rightarrow> bs)"

lemma db_update_error:
  "db_update B f bs = (r, Some e, bs') \<Longrightarrow> bs' = bs"
  by (auto simp: db_update_def split: prod.splits sum.splits option.splits)

lemma db_update_ok:
  "db_update B f bs = (r, None, bs') \<longleftrightarrow> f bs = (r, Inr bs') \<and> bk_commit B bs' = None"
  by (auto simp: db_update_def split: prod.splits sum.splits option.splits)

section \<open>Byte-ordered association lists\<close>

fun alist_put :: "string \<Rightarrow> 'v \<Rightarrow> (string \<times> 'v) list \<Rightarrow> (string \<times> 'v) list" where
  "alist_put k v [] = [(k, v)]"
| "alist_put k v ((j, w) # xs) =
     (if k < j then (k, v) # (j, w) # xs
      else if k = j then (k, v) # xs
      else (j, w) # alist_put k v xs)"

abbreviation keys_sorted :: "(string \<times> 'v) list \<Rightarrow> bool" where
  "keys_sorted xs \<equiv> sorted_wrt (<) (List.map fst xs)"

lemma alist_put_map: "keys_sorted xs \<Longrightarrow> map_of (alist_put k v xs) = (map_of xs)(k \<mapsto> v)"
  by (induction xs rule: alist_put.induct) (auto simp: fun_eq_iff)

lemma alist_put_set: "fst ` set (alist_put k v xs) = insert k (fst ` set xs)"
  by (induction k v xs rule: alist_put.induct) auto

lemma alist_put_sorted: "keys_sorted xs \<Longrightarrow> keys_sorted (alist_put k v xs)"
proof (induction k v xs rule: alist_put.induct)
  case (2 k v j w xs)
  have s: "keys_sorted xs" "\<forall>y \<in> fst ` set xs. j < y" using "2.prems" by auto
  consider "k < j" | "k = j" | "j < k" by (metis linorder_less_linear)
  then show ?case
  proof cases
    case 1
    with s show ?thesis by auto
  next
    case 2
    with s show ?thesis by auto
  next
    case 3
    then have "keys_sorted (alist_put k v xs)" using "2.IH" s by auto
    moreover have "\<forall>y \<in> fst ` set (alist_put k v xs). j < y" using s 3 by (simp add: alist_put_set)
    ultimately show ?thesis using 3 by auto
  qed
qed simp

lemma keys_sorted_unique:
  assumes "keys_sorted xs" "keys_sorted ys" "map_of xs = map_of ys"
  shows "xs = ys"
  using assms
proof (induction xs arbitrary: ys)
  case Nil
  then show ?case by (metis map_of_eq_empty_iff map_of.simps(1))
next
  case (Cons x xs)
  obtain k v where x: "x = (k, v)" by fastforce
  have "ys \<noteq> []" using Cons.prems(3) x by (metis fun_upd_same map_of.simps fst_conv option.distinct(1) snd_conv)
  then obtain j w zs where ys: "ys = (j, w) # zs" by (metis list.exhaust prod.exhaust)
  have lk: "i \<in> fst ` set xs \<Longrightarrow> k < i" for i using Cons.prems(1) x by auto
  have lj: "i \<in> fst ` set zs \<Longrightarrow> j < i" for i using Cons.prems(2) ys by auto
  have dom: "insert k (fst ` set xs) = insert j (fst ` set zs)"
    using arg_cong [OF Cons.prems(3), of dom] unfolding x ys dom_map_of_conv_image_fst by simp
  have kj: "k = j" using dom lk lj by (metis insert_iff less_asym)
  have vw: "v = w" using fun_cong [OF Cons.prems(3), of k] x ys kj by simp
  have "map_of xs = map_of zs"
  proof
    fix i
    have "map_of xs k = None" "map_of zs k = None" using lk lj kj by (force simp: map_of_eq_None_iff)+
    then show "map_of xs i = map_of zs i"
      using fun_cong [OF Cons.prems(3), of i] x ys kj by (cases "i = k") auto
  qed
  then have "xs = zs" using Cons x ys by simp
  then show ?case using x ys kj vw by simp
qed

lemma keys_sorted_distinct: "keys_sorted xs \<Longrightarrow> distinct (List.map fst xs)"
  by (simp add: strict_sorted_iff)

lemma keys_sorted_filter: "keys_sorted xs \<Longrightarrow> keys_sorted (filter P xs)"
  by (simp add: sorted_wrt_map sorted_wrt_filter)

section \<open>The contract\<close>

locale bolt_bucket =
  fixes B :: "('b, 'v) bolt"
  assumes items_sorted: "keys_sorted (bk_items B b)"
    and get_items: "bk_get B b k = map_of (bk_items B b) k"
    and items_empty: "bk_items B (bk_empty B) = []"
    and put_map: "bk_put B b k v = Inr b' \<Longrightarrow> map_of (bk_items B b') = (map_of (bk_items B b))(k \<mapsto> v)"
    and delete_map: "bk_delete B b k = Inr b' \<Longrightarrow> map_of (bk_items B b') = (map_of (bk_items B b))(k := None)"
    and purge_shrinks: "map_of (bk_items B (fst (bk_purge B b))) k = Some v \<Longrightarrow> map_of (bk_items B b) k = Some v"
begin

lemma put_items: "bk_put B b k v = Inr b' \<Longrightarrow> bk_items B b' = alist_put k v (bk_items B b)"
  using put_map [of b k v b'] items_sorted alist_put_map [OF items_sorted, of k v]
  by (intro keys_sorted_unique) (auto intro: alist_put_sorted)

lemma delete_items:
  assumes "bk_delete B b k = Inr b'"
  shows "bk_items B b' = filter (\<lambda>p. fst p \<noteq> k) (bk_items B b)"
proof (rule keys_sorted_unique)
  show "keys_sorted (filter (\<lambda>p. fst p \<noteq> k) (bk_items B b))"
    by (rule keys_sorted_filter [OF items_sorted])
  show "map_of (bk_items B b') = map_of (filter (\<lambda>p. fst p \<noteq> k) (bk_items B b))"
    using delete_map [OF assms] by (simp add: map_of_filter_ne)
qed (rule items_sorted)

lemma get_after_put: "bk_put B b k v = Inr b' \<Longrightarrow> bk_get B b' j = (if j = k then Some v else bk_get B b j)"
  by (simp add: get_items put_map)

lemma items_distinct: "distinct (List.map fst (bk_items B b))"
  by (rule keys_sorted_distinct [OF items_sorted])

end

text \<open>
  A store in which a write of an admissible key succeeds: bbolt refuses the empty key, a key
  over 32768 bytes and a value over 2 GB (\<open>fits\<close> says the value is within that), and the
  commit succeeds.
\<close>

locale bolt_writable = bolt_bucket B for B :: "('b, 'v) bolt" +
  fixes fits :: "'v \<Rightarrow> bool"
  assumes put_ok: "k \<noteq> '''' \<Longrightarrow> length k \<le> 32768 \<Longrightarrow> fits v \<Longrightarrow> \<exists>b'. bk_put B b k v = Inr b'"
    and commit_ok: "bk_commit B bs = None"
    and items_keys: "(k, v) \<in> set (bk_items B b) \<Longrightarrow> k \<noteq> '''' \<and> length k \<le> 32768"

text \<open>A store whose cursor loop \<^verbatim>\<open>for k, _ := c.First(); k != nil; k, _ = c.Next() { c.Delete() }\<close> empties the bucket.\<close>

locale bolt_purging = bolt_writable B fits for B :: "('b, 'v) bolt" and fits +
  assumes purge_items: "bk_items B (fst (bk_purge B b)) = []"
    and purge_ok: "snd (bk_purge B b) = None"

text \<open>A store that also deletes any key, present or not.\<close>

locale bolt_total = bolt_writable B fits for B :: "('b, 'v) bolt" and fits +
  assumes delete_ok: "\<exists>b'. bk_delete B b k = Inr b'"

section \<open>The loops over a bucket that the code repeats\<close>

text \<open>
  A loop of \<^verbatim>\<open>Put\<close>s that stops at the first error, wrapped by \<open>w\<close>; the second form also
  collects what was written before the error.
\<close>

fun put_each :: "('b, 'v) bolt \<Rightarrow> (string \<Rightarrow> error \<Rightarrow> error) \<Rightarrow> (string \<times> 'v) list \<Rightarrow> 'b \<Rightarrow> error + 'b" where
  "put_each B w [] b = Inr b"
| "put_each B w ((k, v) # kvs) b =
     (case bk_put B b k v of Inl e \<Rightarrow> Inl (w k e) | Inr b' \<Rightarrow> put_each B w kvs b')"

fun put_collect ::
    "('b, 'v) bolt \<Rightarrow> ('a \<Rightarrow> 'v) \<Rightarrow> (string \<times> 'a) list \<Rightarrow> 'b \<Rightarrow> 'a list \<Rightarrow> 'a list \<times> (error + 'b)" where
  "put_collect B mk [] b acc = (acc, Inr b)"
| "put_collect B mk ((k, a) # kvs) b acc =
     (case bk_put B b k (mk a) of Inl e \<Rightarrow> (acc, Inl e) | Inr b' \<Rightarrow> put_collect B mk kvs b' (acc @ [a]))"

lemma put_collect_put_each:
  "put_collect B mk kvs b acc = (done, Inr b') \<longleftrightarrow>
     done = acc @ List.map snd kvs \<and> put_each B (\<lambda>k e. e) (List.map (\<lambda>(k, a). (k, mk a)) kvs) b = Inr b'"
  by (induction B mk kvs b acc rule: put_collect.induct) (auto split: sum.splits)

context bolt_bucket
begin

lemma put_each_map:
  "put_each B w kvs b = Inr b' \<Longrightarrow> map_of (bk_items B b') = map_of (bk_items B b) ++ map_of (rev kvs)"
proof (induction kvs arbitrary: b)
  case Nil
  then show ?case by simp
next
  case (Cons p kvs)
  obtain k v where p: "p = (k, v)" by fastforce
  from Cons.prems obtain b1 where "bk_put B b k v = Inr b1" "put_each B w kvs b1 = Inr b'"
    by (auto simp: p split: sum.splits)
  then show ?case using Cons.IH [of b1] put_map [of b k v b1]
    by (auto simp: p map_add_def fun_eq_iff split: option.splits)
qed

text \<open>Writing new keys in ascending order to an empty bucket stores exactly the list.\<close>

lemma put_each_sorted:
  assumes "put_each B w kvs b = Inr b'" "bk_items B b = []" "keys_sorted kvs"
  shows "bk_items B b' = kvs"
proof (rule keys_sorted_unique [OF items_sorted assms(3)])
  have "distinct (List.map fst kvs)" using assms(3) by (rule keys_sorted_distinct)
  then have "map_of (rev kvs) = map_of kvs"
    by (rule map_of_rev_distinct)
  then show "map_of (bk_items B b') = map_of kvs"
    using put_each_map [OF assms(1)] assms(2) by simp
qed

end

context bolt_writable
begin

lemma put_each_ok:
  assumes "\<forall>(k, v) \<in> set kvs. k \<noteq> '''' \<and> length k \<le> 32768 \<and> fits v"
  shows "\<exists>b'. put_each B w kvs b = Inr b'"
  using assms
proof (induction kvs arbitrary: b)
  case (Cons p kvs)
  obtain k v where p: "p = (k, v)" by fastforce
  from Cons.prems p put_ok [of k v b] obtain b1 where "bk_put B b k v = Inr b1" by auto
  then show ?case using Cons p by auto
qed simp

end

section \<open>The ordered list as an instance\<close>

definition list_ok :: "(string \<times> 'v) list \<Rightarrow> bool" where
  "list_ok b \<longleftrightarrow> keys_sorted b \<and> (\<forall>p \<in> set b. fst p \<noteq> '''' \<and> length (fst p) \<le> 32768)"

definition list_bolt :: "((string \<times> 'v) list, 'v) bolt" where
  "list_bolt =
     \<lparr>bk_empty = [], bk_items = (\<lambda>b. if list_ok b then b else []),
      bk_get = (\<lambda>b k. map_of (if list_ok b then b else []) k),
      bk_put = (\<lambda>b k v. if k = '''' then Inl (Err ''key required'')
                 else if length k > 32768 then Inl (Err ''key too large'')
                 else Inr (alist_put k v (if list_ok b then b else []))),
      bk_delete = (\<lambda>b k. Inr (filter (\<lambda>p. fst p \<noteq> k) (if list_ok b then b else []))),
      bk_purge = (\<lambda>b. ([], None)),
      bk_commit = (\<lambda>bs. None)\<rparr>"

lemma list_ok_put:
  assumes "list_ok b" "k \<noteq> ''''" "length k \<le> 32768"
  shows "list_ok (alist_put k v b)"
proof -
  have "fst p \<noteq> '''' \<and> length (fst p) \<le> 32768" if "p \<in> set (alist_put k v b)" for p
  proof -
    have "fst p \<in> insert k (fst ` set b)" using that by (metis alist_put_set imageI)
    then show ?thesis using assms by (auto simp: list_ok_def)
  qed
  then show ?thesis using assms(1) by (auto simp: list_ok_def alist_put_sorted)
qed

lemma list_ok_single: "k \<noteq> '''' \<Longrightarrow> length k \<le> 32768 \<Longrightarrow> list_ok [(k, v)]"
  by (simp add: list_ok_def)

lemma list_ok_filter: "list_ok b \<Longrightarrow> list_ok (filter P b)"
  by (simp add: list_ok_def keys_sorted_filter)

lemma list_ok_sorted: "list_ok b \<Longrightarrow> keys_sorted b"
  by (simp add: list_ok_def)

lemma list_ok_Nil [simp]: "list_ok []"
  by (simp add: list_ok_def)

interpretation lbolt: bolt_purging list_bolt "\<lambda>_. True"
proof unfold_locales
  fix b b' :: "(string \<times> 'v) list" and k :: string and v :: 'v
  show "map_of (bk_items list_bolt b') = (map_of (bk_items list_bolt b))(k \<mapsto> v)"
    if "bk_put list_bolt b k v = Inr b'"
    using that by (auto simp: list_bolt_def list_ok_put list_ok_single alist_put_map list_ok_sorted split: if_splits)
  show "map_of (bk_items list_bolt b') = (map_of (bk_items list_bolt b))(k := None)"
    if "bk_delete list_bolt b k = Inr b'"
    using that by (auto simp: list_bolt_def map_of_filter_ne list_ok_filter split: if_splits)
  show "k \<noteq> '''' \<and> length k \<le> 32768" if "(k, v) \<in> set (bk_items list_bolt b)"
    using that by (auto simp: list_bolt_def list_ok_def split: if_splits)
qed (simp_all add: list_bolt_def list_ok_sorted)

interpretation ltotal: bolt_total list_bolt "\<lambda>_. True"
  by unfold_locales (simp add: list_bolt_def)

end
