(* ===== verification/State_Types.thy ===== *)
theory State_Types
  imports Complex_Main Bolt_Iface
begin

text \<open>
  The records \<^verbatim>\<open>pkg/state\<close> stores in the planner database and the document type of its
  values: a stored value is the record it decodes to, or \<open>JunkDoc\<close> for bytes no record
  decodes from.  \<^verbatim>\<open>float64\<close> fields are real numbers; rounding is not modelled.
\<close>

section \<open>Tasks\<close>

record SRETask =
  t_ID :: string
  t_Description :: string
  t_TargetFile :: string
  t_Status :: string
  t_Role :: string
  t_LifecycleState :: string
  t_CreatedAt :: int
  t_UpdatedAt :: int
  t_StartedAt :: int
  t_Retries :: int
  t_LastError :: string
  t_CheckpointData :: string
  t_Backend :: string
  t_MigratedAt :: int

definition TaskLifecyclePending :: string where "TaskLifecyclePending = ''pending''"
definition TaskLifecycleInProgress :: string where "TaskLifecycleInProgress = ''in_progress''"
definition TaskLifecycleCompleted :: string where "TaskLifecycleCompleted = ''completed''"
definition TaskLifecycleOrphaned :: string where "TaskLifecycleOrphaned = ''orphaned''"
definition TaskLifecycleRolledBack :: string where "TaskLifecycleRolledBack = ''rolled_back''"
definition TaskLifecycleFailedPermanent :: string where
  "TaskLifecycleFailedPermanent = ''failed_permanent''"

lemmas lifecycle_defs = TaskLifecyclePending_def TaskLifecycleInProgress_def TaskLifecycleCompleted_def
  TaskLifecycleOrphaned_def TaskLifecycleRolledBack_def TaskLifecycleFailedPermanent_def

lemma lifecycle_distinct:
  "distinct [TaskLifecyclePending, TaskLifecycleInProgress, TaskLifecycleCompleted, TaskLifecycleOrphaned,
     TaskLifecycleRolledBack, TaskLifecycleFailedPermanent]"
  "distinct (rev [TaskLifecyclePending, TaskLifecycleInProgress, TaskLifecycleCompleted, TaskLifecycleOrphaned,
     TaskLifecycleRolledBack, TaskLifecycleFailedPermanent])"
  by (simp_all add: lifecycle_defs)

lemmas lifecycle_ne [simp] = lifecycle_distinct [simplified]

definition taskBucket :: string where "taskBucket = ''SRE_TASKS''"
definition memexBucket :: string where "memexBucket = ''memex_buffer''"
definition batchCertifyBucket :: string where "batchCertifyBucket = ''batch_certify_log''"
definition contractAlertBucket :: string where "contractAlertBucket = ''contract_alerts''"
definition daemonBudgetBucket :: string where "daemonBudgetBucket = ''daemon_budget''"
definition daemonResultsBucket :: string where "daemonResultsBucket = ''daemon_results''"
definition daemonTrustBucket :: string where "daemonTrustBucket = ''daemon_trust''"

definition pairAuditEventsBucket :: string where "pairAuditEventsBucket = ''pair_audit_events''"

lemmas bucket_defs = taskBucket_def memexBucket_def batchCertifyBucket_def contractAlertBucket_def
  daemonBudgetBucket_def daemonResultsBucket_def daemonTrustBucket_def pairAuditEventsBucket_def

section \<open>Episodic memory, certification log, contract alerts\<close>

record CausalContext =
  cc_HeapMB :: real
  cc_GCRuns :: u32
  cc_CPULoad :: real
  cc_RAPLWatts :: real
  cc_ServerMode :: string
  cc_PriorErrors :: "string list"
  cc_TriggerEvent :: string
  cc_ParentID :: string

record MemexEntry =
  m_ID :: string
  m_Topic :: string
  m_Scope :: string
  m_Content :: string
  m_Timestamp :: int
  m_Causal :: "CausalContext option"

record BatchCertifyTx =
  x_TxID :: string
  x_Files :: "string list"
  x_State :: string
  x_StartedAt :: int

record ContractBreakingChange =
  bc_Type :: string
  bc_Endpoint :: string
  bc_Old :: string
  bc_New :: string

section \<open>Daemon records\<close>

record DaemonBudget =
  db_SessionID :: string
  db_TokensUsed :: int
  db_TasksCompleted :: int
  db_BudgetExceededCount :: int

record DaemonResult =
  dr_SchemaVersion :: int
  dr_TaskID :: string
  dr_TaskDescription :: string
  dr_TargetFile :: string
  dr_Backend :: string
  dr_DeepSeekTool :: string
  dr_Pattern :: string
  dr_Scope :: string
  dr_TrustAlphaBefore :: real
  dr_TrustBetaBefore :: real
  dr_TrustTierBefore :: string
  dr_AuditSeverity :: string
  dr_AuditPassed :: bool
  dr_TokensUsed :: int
  dr_OutputSummary :: string
  dr_SuggestedAction :: string
  dr_Status :: string
  dr_OperatorNote :: string
  dr_CreatedAt :: time
  dr_CompletedAt :: "time option"
  dr_TrustApplied :: bool

text \<open>The string types of the trust system; the last constructor is any other string.\<close>

datatype Tier = TierL0 | TierL1 | TierL2 | TierL3 | TierOther string

datatype FailureCategory =
    OutcomeSuccess | OutcomeInfra | OutcomeSubOptimal | OutcomeQuality | OutcomeOperatorOverride | OutcomeOther string

record PairAuditEvent =
  pe_EventID :: string
  pe_Scope :: string
  pe_FindingID :: string
  pe_ClaimText :: string
  pe_Severity :: int
  pe_Files :: "string list"
  pe_EmittedAt :: time
  pe_Resolved :: bool
  pe_Outcome :: "FailureCategory option"
  pe_ResolvedAt :: "time option"

record TrustScore =
  ts_Pattern :: string
  ts_Scope :: string
  ts_Alpha :: real
  ts_Beta :: real
  ts_LastUpdate :: time
  ts_TotalExecutions :: int
  ts_CurrentTier :: Tier
  ts_ConsecutiveFailures :: int
  ts_ManualWarmup :: bool

section \<open>Documents\<close>

datatype doc =
    TaskDoc SRETask
  | MemexDoc MemexEntry
  | CertifyDoc BatchCertifyTx
  | AlertDoc "ContractBreakingChange list"
  | BudgetDoc DaemonBudget
  | ResultDoc DaemonResult
  | TrustDoc TrustScore
  | EventDoc PairAuditEvent
  | MarkDoc string
  | JunkDoc string

fun un_task :: "doc \<Rightarrow> SRETask option" where
  "un_task (TaskDoc t) = Some t"
| "un_task _ = None"

fun un_memex :: "doc \<Rightarrow> MemexEntry option" where
  "un_memex (MemexDoc e) = Some e"
| "un_memex _ = None"

fun un_certify :: "doc \<Rightarrow> BatchCertifyTx option" where
  "un_certify (CertifyDoc x) = Some x"
| "un_certify _ = None"

fun un_alert :: "doc \<Rightarrow> ContractBreakingChange list option" where
  "un_alert (AlertDoc cs) = Some cs"
| "un_alert _ = None"

fun un_budget :: "doc \<Rightarrow> DaemonBudget option" where
  "un_budget (BudgetDoc b) = Some b"
| "un_budget _ = None"

fun un_result :: "doc \<Rightarrow> DaemonResult option" where
  "un_result (ResultDoc r) = Some r"
| "un_result _ = None"

fun un_trust :: "doc \<Rightarrow> TrustScore option" where
  "un_trust (TrustDoc s) = Some s"
| "un_trust _ = None"

fun un_event :: "doc \<Rightarrow> PairAuditEvent option" where
  "un_event (EventDoc e) = Some e"
| "un_event _ = None"

text \<open>The records of one kind in a bucket, in key order, skipping what does not decode.\<close>

definition decode :: "('v \<Rightarrow> 'a option) \<Rightarrow> (string \<times> 'v) list \<Rightarrow> 'a list" where
  "decode un xs = List.map_filter (\<lambda>(k, v). un v) xs"

lemma decode_simps [simp]:
  "decode un [] = []"
  "decode un ((k, v) # xs) = (case un v of None \<Rightarrow> decode un xs | Some a \<Rightarrow> a # decode un xs)"
  by (simp_all add: decode_def map_filter_simps split: option.splits)

lemma un_task_Some: "un_task v = Some t \<longleftrightarrow> v = TaskDoc t" by (cases v) auto
lemma un_memex_Some: "un_memex v = Some t \<longleftrightarrow> v = MemexDoc t" by (cases v) auto
lemma un_certify_Some: "un_certify v = Some t \<longleftrightarrow> v = CertifyDoc t" by (cases v) auto
lemma un_alert_Some: "un_alert v = Some t \<longleftrightarrow> v = AlertDoc t" by (cases v) auto
lemma un_budget_Some: "un_budget v = Some t \<longleftrightarrow> v = BudgetDoc t" by (cases v) auto
lemma un_result_Some: "un_result v = Some t \<longleftrightarrow> v = ResultDoc t" by (cases v) auto
lemma un_event_Some: "un_event v = Some t \<longleftrightarrow> v = EventDoc t" by (cases v) auto
lemma un_trust_Some: "un_trust v = Some t \<longleftrightarrow> v = TrustDoc t" by (cases v) auto

lemmas un_Some = un_task_Some un_memex_Some un_certify_Some un_alert_Some un_budget_Some un_result_Some
  un_trust_Some un_event_Some

text \<open>The contract of the store, for documents.\<close>

locale doc_bucket = bolt_bucket B for B :: "('b, doc) bolt"

locale doc_store = bolt_purging B fits for B :: "('b, doc) bolt" and fits

sublocale doc_store \<subseteq> doc_bucket B
  by unfold_locales

interpretation ldoc: doc_store list_bolt "\<lambda>_. True"
  by unfold_locales

section \<open>The planner state\<close>

text \<open>
  The package variables of \<^verbatim>\<open>planner.go\<close>: the open database (\<^verbatim>\<open>plannerDB\<close> is nil until
  \<^verbatim>\<open>InitPlanner\<close>), the workspace, the tenant, the \<^verbatim>\<open>OnEpicClose\<close> hook and how often it
  fired, and the text of \<^verbatim>\<open>.neo/master_plan.md\<close> (None when it cannot be read).
\<close>

record 'b planner =
  p_online :: bool
  p_buckets :: "'b buckets"
  p_workspace :: string
  p_tenant :: string
  p_hook :: bool
  p_closed :: nat
  p_plan :: "string option"

definition planner_update ::
    "('b, doc) bolt \<Rightarrow> ('b buckets \<Rightarrow> 'r \<times> (error + 'b buckets)) \<Rightarrow> 'b planner \<Rightarrow> 'r \<times> error option \<times> 'b planner" where
  "planner_update B f s =
     (case db_update B f (p_buckets s) of (r, e, bs) \<Rightarrow> (r, e, s\<lparr>p_buckets := bs\<rparr>))"

lemma planner_update_error:
  "planner_update B f s = (r, Some e, s') \<Longrightarrow> s' = s"
  by (auto simp: planner_update_def dest!: db_update_error split: prod.splits)

lemma planner_update_ok:
  "planner_update B f s = (r, None, s') \<longleftrightarrow>
     (\<exists>bs. f (p_buckets s) = (r, Inr bs) \<and> bk_commit B bs = None \<and> s' = s\<lparr>p_buckets := bs\<rparr>)"
proof (cases "db_update B f (p_buckets s)")
  case (fields r' e bs)
  then show ?thesis
    using db_update_ok [of B f "p_buckets s" r bs]
    by (auto simp: planner_update_def db_update_def split: prod.splits sum.splits option.splits)
qed

lemma update_error_snd: "snd (planner_update B f s) = (Some e, s') \<Longrightarrow> s' = s"
  using planner_update_error [of B f s _ e s'] by (cases "planner_update B f s") auto

end
