(* ===== verification/State_Planner.thy ===== *)
theory State_Planner
  imports State_Types
begin

text \<open>
  \<^verbatim>\<open>pkg/state/planner.go\<close>: the task queue.  Every operation takes the store \<open>B\<close>, the clock
  readings it makes (Unix seconds) and the planner state, and returns its results with the
  new state.  \<^verbatim>\<open>json.Marshal\<close> of these records cannot fail, so its error branches are not
  modelled; \<^verbatim>\<open>DeleteBucket\<close> and \<^verbatim>\<open>CreateBucket\<close> of the constant bucket names fail only for a
  missing bucket, which the code treats as success.
\<close>

section \<open>Queue operations\<close>

definition offline :: error where
  "offline = Err ''plannerDB offline''"

text \<open>\<^verbatim>\<open>InitPlanner\<close>: the outcomes of \<^verbatim>\<open>MkdirAll\<close> and \<^verbatim>\<open>bbolt.Open\<close> are arguments.\<close>

definition InitPlanner ::
    "('b, doc) bolt \<Rightarrow> error option \<Rightarrow> error + 'b buckets \<Rightarrow> string \<Rightarrow> 'b planner \<Rightarrow> error option \<times> 'b planner" where
  "InitPlanner B mkdir opened workspace s =
     (case mkdir of
        Some e \<Rightarrow> (Some (Wrap ''[SRE-FATAL] Directorio persistente bbolt inalcanzable'' e), s)
      | None \<Rightarrow>
          (case opened of
             Inl e \<Rightarrow> (Some e, s)
           | Inr file \<Rightarrow>
               (case db_update B (\<lambda>bs. ((), Inr (create_if_missing B daemonBudgetBucket
                       (create_if_missing B batchCertifyBucket
                         (create_if_missing B memexBucket (create_if_missing B taskBucket bs)))))) file of
                  (_, Some e, _) \<Rightarrow> (Some (Wrap ''[SRE-FATAL] Fallo al forjar bucket inicial SRE_TASKS'' e), s)
                | (_, None, bs) \<Rightarrow> (None, s\<lparr>p_online := True, p_buckets := bs, p_workspace := workspace\<rparr>))))"

definition enqueue_task :: "int \<Rightarrow> nat \<Rightarrow> SRETask \<Rightarrow> SRETask" where
  "enqueue_task now i t =
     t\<lparr>t_ID := ''TASK-'' @ pad_dec 3 (i + 1), t_Status := ''TODO'',
       t_LifecycleState := TaskLifecyclePending, t_CreatedAt := now, t_UpdatedAt := now\<rparr>"

fun enqueue_loop :: "('b, doc) bolt \<Rightarrow> int \<Rightarrow> nat \<Rightarrow> SRETask list \<Rightarrow> 'b \<Rightarrow> error + 'b" where
  "enqueue_loop B now i [] b = Inr b"
| "enqueue_loop B now i (t # ts) b =
     (let t' = enqueue_task now i t
      in case bk_put B b (t_ID t') (TaskDoc t') of
           Inl e \<Rightarrow> Inl (Wrap (''fallo insertando tarea SRE '' @ t_ID t') e)
         | Inr b' \<Rightarrow> enqueue_loop B now (i + 1) ts b')"

definition EnqueueTasks ::
    "('b, doc) bolt \<Rightarrow> int \<Rightarrow> SRETask list \<Rightarrow> 'b planner \<Rightarrow> error option \<times> 'b planner" where
  "EnqueueTasks B now tasks s =
     (if \<not> p_online s then (Some offline, s)
      else snd (planner_update B
        (\<lambda>bs. let bs1 = bs(taskBucket := None);
                  bs2 = bs1(taskBucket \<mapsto> bk_empty B)
              in ((), map_sum id (\<lambda>b. bs2(taskBucket \<mapsto> b)) (enqueue_loop B now 0 tasks (bk_empty B)))) s))"

text \<open>\<^verbatim>\<open>GetNextTask\<close> dereferences the database and the bucket without a nil check.\<close>

fun next_scan :: "(SRETask \<Rightarrow> bool) \<Rightarrow> (string \<times> doc) list \<Rightarrow> SRETask option" where
  "next_scan ok [] = None"
| "next_scan ok ((k, v) # xs) =
     (case un_task v of
        None \<Rightarrow> next_scan ok xs
      | Some t \<Rightarrow> if ok t then Some t else next_scan ok xs)"

definition GetNextTask :: "('b, doc) bolt \<Rightarrow> 'b planner \<Rightarrow> SRETask option outcome" where
  "GetNextTask B s =
     (if \<not> p_online s then Panic
      else case p_buckets s taskBucket of
        None \<Rightarrow> Panic
      | Some b \<Rightarrow>
          Ret (next_scan (\<lambda>t. t_Status t = ''TODO'' \<and> t_LifecycleState t \<noteq> TaskLifecycleFailedPermanent)
                 (bk_items B b)))"

definition GetNextTaskByRole :: "('b, doc) bolt \<Rightarrow> string \<Rightarrow> 'b planner \<Rightarrow> SRETask option outcome" where
  "GetNextTaskByRole B agentRole s =
     (if \<not> p_online s then Panic
      else case p_buckets s taskBucket of
        None \<Rightarrow> Panic
      | Some b \<Rightarrow>
          Ret (next_scan (\<lambda>t. \<not> (t_Status t \<noteq> ''TODO'') \<and> \<not> (t_LifecycleState t = TaskLifecycleFailedPermanent) \<and>
                        (agentRole = '''' \<or> t_Role t = agentRole \<or> t_Role t = ''''))
                 (bk_items B b)))"

text \<open>The read-only pass of \<^verbatim>\<open>markTaskDoneInDB\<close>: the first \<^verbatim>\<open>TODO\<close> entry and the number of further ones.\<close>

fun mark_scan ::
    "(string \<times> doc) list \<Rightarrow> (string \<times> SRETask) option \<Rightarrow> int \<Rightarrow> (string \<times> SRETask) option \<times> int" where
  "mark_scan [] mark remaining = (mark, remaining)"
| "mark_scan ((k, v) # xs) mark remaining =
     (case un_task v of
        None \<Rightarrow> mark_scan xs mark remaining
      | Some t \<Rightarrow>
          if t_Status t \<noteq> ''TODO'' then mark_scan xs mark remaining
          else if mark = None then mark_scan xs (Some (k, t)) remaining
          else mark_scan xs mark (remaining + 1))"

definition mark_done :: "int \<Rightarrow> SRETask \<Rightarrow> SRETask" where
  "mark_done now t = t\<lparr>t_Status := ''DONE'', t_LifecycleState := TaskLifecycleCompleted, t_UpdatedAt := now\<rparr>"

definition markTaskDoneInDB ::
    "('b, doc) bolt \<Rightarrow> int \<Rightarrow> 'b planner \<Rightarrow> ((int \<times> string \<times> error option) \<times> 'b planner) outcome" where
  "markTaskDoneInDB B now s =
     (if \<not> p_online s then Panic
      else case planner_update B
        (\<lambda>bs. case bs taskBucket of
           None \<Rightarrow> ((0, ''''), Inr bs)
         | Some b \<Rightarrow>
             (case mark_scan (bk_items B b) None 0 of
                (None, remaining) \<Rightarrow> ((remaining, ''''), Inr bs)
              | (Some (markKey, markedTask), remaining) \<Rightarrow>
                  (case bk_put B b markKey (TaskDoc (mark_done now markedTask)) of
                     Inl e \<Rightarrow> ((remaining, ''''),
                       Inl (Wrap (''imposible marcar '' @ markKey @ '' como DONE'') e))
                   | Inr b' \<Rightarrow> ((remaining, t_Description markedTask), Inr (bs(taskBucket \<mapsto> b')))))) s of
        ((remaining, desc), err, s') \<Rightarrow> Ret ((remaining, desc, err), s'))"

text \<open>\<^verbatim>\<open>strings.Replace(line, old, new, 1)\<close> for a non-empty \<open>old\<close>.\<close>

fun replace_first :: "string \<Rightarrow> string \<Rightarrow> string \<Rightarrow> string" where
  "replace_first old new [] = (if has_prefix [] old then new else [])"
| "replace_first old new (c # cs) =
     (if has_prefix (c # cs) old then new @ drop (length old) (c # cs) else c # replace_first old new cs)"

fun tick_first :: "string \<Rightarrow> string list \<Rightarrow> string list" where
  "tick_first desc [] = []"
| "tick_first desc (line # lines) =
     (if str_contains line ''- [ ]'' \<and> str_contains line desc
      then replace_first ''- [ ]'' ''- [x]'' line # lines
      else line # tick_first desc lines)"

text \<open>
  \<^verbatim>\<open>syncMasterPlanFile\<close>.  The path check always passes: the plan's path is joined to the
  workspace.  The write's error is ignored by the code; the model has it succeed.
\<close>

definition syncMasterPlanFile :: "string \<Rightarrow> 'b planner \<Rightarrow> 'b planner" where
  "syncMasterPlanFile desc s =
     (if p_workspace s = '''' then s
      else case p_plan s of
        None \<Rightarrow> s
      | Some data \<Rightarrow>
          s\<lparr>p_plan := Some (str_join [CHR 0x0A] (tick_first desc (split_char (CHR 0x0A) data)))\<rparr>)"

definition MarkTaskDone ::
    "('b, doc) bolt \<Rightarrow> int \<Rightarrow> 'b planner \<Rightarrow> ((int \<times> error option) \<times> 'b planner) outcome" where
  "MarkTaskDone B now s =
     (case markTaskDoneInDB B now s of
        Panic \<Rightarrow> Panic
      | Ret ((remaining, desc, err), s1) \<Rightarrow>
          (let s2 = (if err = None \<and> desc \<noteq> '''' then syncMasterPlanFile desc s1 else s1);
               s3 = (if err = None \<and> remaining = 0 \<and> p_hook s2 then s2\<lparr>p_closed := p_closed s2 + 1\<rparr> else s2)
           in Ret ((remaining, err), s3)))"

fun state_scan :: "(string \<times> doc) list \<Rightarrow> int \<Rightarrow> int \<Rightarrow> int \<times> int" where
  "state_scan [] pending completed = (pending, completed)"
| "state_scan ((k, v) # xs) pending completed =
     (case un_task v of
        None \<Rightarrow> state_scan xs pending completed
      | Some t \<Rightarrow>
          if t_Status t = ''TODO'' then state_scan xs (pending + 1) completed
          else if t_Status t = ''DONE'' then state_scan xs pending (completed + 1)
          else state_scan xs pending completed)"

definition GetPlannerState :: "('b, doc) bolt \<Rightarrow> 'b planner \<Rightarrow> int \<times> int" where
  "GetPlannerState B s =
     (if \<not> p_online s then (0, 0)
      else case p_buckets s taskBucket of None \<Rightarrow> (0, 0) | Some b \<Rightarrow> state_scan (bk_items B b) 0 0)"

definition IsEpicComplete :: "('b, doc) bolt \<Rightarrow> 'b planner \<Rightarrow> bool" where
  "IsEpicComplete B s = (let (pending, completed) = GetPlannerState B s in pending = 0 \<and> completed > 0)"

definition GetAllTasks :: "('b, doc) bolt \<Rightarrow> 'b planner \<Rightarrow> SRETask list" where
  "GetAllTasks B s =
     (if \<not> p_online s then []
      else case p_buckets s taskBucket of None \<Rightarrow> [] | Some b \<Rightarrow> decode un_task (bk_items B b))"

definition RestoreTasks ::
    "('b, doc) bolt \<Rightarrow> SRETask list \<Rightarrow> 'b planner \<Rightarrow> error option \<times> 'b planner" where
  "RestoreTasks B tasks s =
     (if \<not> p_online s then (Some (Err ''planner offline''), s)
      else snd (planner_update B
        (\<lambda>bs. case bs taskBucket of
           None \<Rightarrow> ((), Inr bs)
         | Some b \<Rightarrow>
             (case bk_purge B b of
                (_, Some e) \<Rightarrow> ((), Inl (Wrap ''fallo purgando tabla de tareas para Snapshot'' e))
              | (b', None) \<Rightarrow>
                  ((), map_sum id (\<lambda>b''. bs(taskBucket \<mapsto> b''))
                    (put_each B (\<lambda>k e. Wrap (''fallo escribiendo tarea restaurada '' @ k) e)
                      (List.map (\<lambda>t. (t_ID t, TaskDoc t)) tasks) b')))) s))"

section \<open>Lifecycle of a task\<close>

text \<open>
  The transaction the operations on one task share: read the task, change it, write it back.
  A missing bucket or task is not an error.  \<open>step\<close> also sets the caller's variable.
\<close>

definition task_tx ::
    "('b, doc) bolt \<Rightarrow> string \<Rightarrow> 'r \<Rightarrow> (SRETask \<Rightarrow> 'r \<times> SRETask) \<Rightarrow> 'b buckets \<Rightarrow> 'r \<times> (error + 'b buckets)" where
  "task_tx B taskID r0 step bs =
     (case bs taskBucket of
        None \<Rightarrow> (r0, Inr bs)
      | Some b \<Rightarrow>
          (case bk_get B b taskID of
             None \<Rightarrow> (r0, Inr bs)
           | Some v \<Rightarrow>
               (case un_task v of
                  None \<Rightarrow> (r0, Inl JsonError)
                | Some t \<Rightarrow>
                    (case step t of
                       (r, t') \<Rightarrow> (r, map_sum id (\<lambda>b'. bs(taskBucket \<mapsto> b')) (bk_put B b taskID (TaskDoc t')))))))"

definition start_task :: "int \<Rightarrow> SRETask \<Rightarrow> SRETask" where
  "start_task now t =
     (let t1 = t\<lparr>t_LifecycleState := TaskLifecycleInProgress, t_UpdatedAt := now\<rparr>
      in if t_StartedAt t1 = 0 then t1\<lparr>t_StartedAt := now\<rparr> else t1)"

definition MarkTaskInProgress ::
    "('b, doc) bolt \<Rightarrow> int \<Rightarrow> string \<Rightarrow> 'b planner \<Rightarrow> error option \<times> 'b planner" where
  "MarkTaskInProgress B now taskID s =
     (if \<not> p_online s then (Some offline, s)
      else snd (planner_update B (task_tx B taskID () (\<lambda>t. ((), start_task now t))) s))"

definition MarkTaskCompleted ::
    "('b, doc) bolt \<Rightarrow> int \<Rightarrow> string \<Rightarrow> 'b planner \<Rightarrow> error option \<times> 'b planner" where
  "MarkTaskCompleted B now taskID s =
     (if \<not> p_online s then (Some offline, s)
      else snd (planner_update B (task_tx B taskID () (\<lambda>t. ((), mark_done now t))) s))"

text \<open>The message of a task out of retries; the dash is U+2014 in UTF-8.\<close>

definition max_retries_msg :: "int \<Rightarrow> string \<Rightarrow> string" where
  "max_retries_msg maxRetries why =
     ''max retries '' @ dec_int maxRetries @ '' exceeded '' @ [CHR 0xE2, CHR 0x80, CHR 0x94] @ '' '' @ why"

definition requeue_step ::
    "int \<Rightarrow> string \<Rightarrow> int \<Rightarrow> bool \<Rightarrow> SRETask \<Rightarrow> bool \<times> SRETask" where
  "requeue_step now lastError maxRetries skipRetryIncrement t =
     (if skipRetryIncrement then
        (True, t\<lparr>t_LastError := lastError, t_LifecycleState := TaskLifecyclePending,
                 t_Status := ''TODO'', t_UpdatedAt := now\<rparr>)
      else if t_Retries t < maxRetries then
        (True, t\<lparr>t_Retries := t_Retries t + 1, t_LastError := lastError,
                 t_LifecycleState := TaskLifecyclePending, t_Status := ''TODO'', t_UpdatedAt := now\<rparr>)
      else
        (False, t\<lparr>t_LastError := max_retries_msg maxRetries lastError,
                  t_LifecycleState := TaskLifecycleFailedPermanent, t_UpdatedAt := now\<rparr>))"

definition RequeueTaskOrFail ::
    "('b, doc) bolt \<Rightarrow> int \<Rightarrow> string \<Rightarrow> string \<Rightarrow> int \<Rightarrow> bool \<Rightarrow> 'b planner \<Rightarrow> bool \<times> error option \<times> 'b planner" where
  "RequeueTaskOrFail B now taskID lastError maxRetries skipRetryIncrement s =
     (if \<not> p_online s then (False, Some offline, s)
      else planner_update B
        (task_tx B taskID False (requeue_step now lastError maxRetries skipRetryIncrement)) s)"

definition fail_task :: "int \<Rightarrow> string \<Rightarrow> SRETask \<Rightarrow> SRETask" where
  "fail_task now lastError t =
     t\<lparr>t_LifecycleState := TaskLifecycleFailedPermanent, t_LastError := lastError, t_UpdatedAt := now\<rparr>"

definition MarkTaskFailedPermanent ::
    "('b, doc) bolt \<Rightarrow> int \<Rightarrow> string \<Rightarrow> string \<Rightarrow> 'b planner \<Rightarrow> error option \<times> 'b planner" where
  "MarkTaskFailedPermanent B now taskID lastError s =
     (if \<not> p_online s then (Some offline, s)
      else snd (planner_update B (task_tx B taskID () (\<lambda>t. ((), fail_task now lastError t))) s))"

fun orphan_count :: "(string \<times> doc) list \<Rightarrow> int \<Rightarrow> int" where
  "orphan_count [] n = n"
| "orphan_count ((k, v) # xs) n =
     (case un_task v of
        None \<Rightarrow> orphan_count xs n
      | Some t \<Rightarrow> orphan_count xs (if t_LifecycleState t = TaskLifecycleOrphaned then n + 1 else n))"

definition CountOrphanedTasks :: "('b, doc) bolt \<Rightarrow> 'b planner \<Rightarrow> int" where
  "CountOrphanedTasks B s =
     (if \<not> p_online s then 0
      else case p_buckets s taskBucket of None \<Rightarrow> 0 | Some b \<Rightarrow> orphan_count (bk_items B b) 0)"

text \<open>
  The collect pass of the two orphan scanners: \<open>act\<close> gives the new record of the tasks to
  change.  The puts follow in one loop, in the same transaction.
\<close>

fun collect_pending :: "(SRETask \<Rightarrow> SRETask option) \<Rightarrow> (string \<times> doc) list \<Rightarrow> (string \<times> SRETask) list" where
  "collect_pending act [] = []"
| "collect_pending act ((k, v) # xs) =
     (case un_task v of
        None \<Rightarrow> collect_pending act xs
      | Some t \<Rightarrow> (case act t of None \<Rightarrow> collect_pending act xs | Some t' \<Rightarrow> (k, t') # collect_pending act xs))"

definition scan_tx ::
    "('b, doc) bolt \<Rightarrow> (SRETask \<Rightarrow> SRETask option) \<Rightarrow> 'b buckets \<Rightarrow> SRETask list \<times> (error + 'b buckets)" where
  "scan_tx B act bs =
     (case bs taskBucket of
        None \<Rightarrow> ([], Inr bs)
      | Some b \<Rightarrow>
          (case put_collect B TaskDoc (collect_pending act (bk_items B b)) b [] of
             (acted, r) \<Rightarrow> (acted, map_sum id (\<lambda>b'. bs(taskBucket \<mapsto> b')) r)))"

definition orphan_step :: "int \<Rightarrow> int \<Rightarrow> SRETask \<Rightarrow> SRETask option" where
  "orphan_step cutoff now t =
     (if t_LifecycleState t \<noteq> TaskLifecycleInProgress \<or> t_UpdatedAt t \<le> 0 \<or> t_UpdatedAt t \<ge> cutoff then None
      else Some (t\<lparr>t_LifecycleState := TaskLifecycleOrphaned, t_UpdatedAt := now\<rparr>))"

text \<open>\<open>now0\<close> is the clock before the transaction, \<open>now\<close> the one inside it, in seconds.\<close>

definition MarkTasksOrphaned ::
    "('b, doc) bolt \<Rightarrow> int \<Rightarrow> int \<Rightarrow> int \<Rightarrow> 'b planner \<Rightarrow> SRETask list \<times> error option \<times> 'b planner" where
  "MarkTasksOrphaned B now0 now timeoutMin s =
     (if \<not> p_online s then ([], None, s)
      else planner_update B (scan_tx B (orphan_step (now0 - timeoutMin * 60) now)) s)"

definition recover_step :: "int \<Rightarrow> int \<Rightarrow> int \<Rightarrow> int \<Rightarrow> SRETask \<Rightarrow> SRETask option" where
  "recover_step maxRetries orphanTimeoutMin cutoff now t =
     (let staleInProgress = (t_LifecycleState t = TaskLifecycleInProgress \<and> t_UpdatedAt t > 0 \<and> t_UpdatedAt t < cutoff);
          alreadyOrphaned = (t_LifecycleState t = TaskLifecycleOrphaned)
      in if \<not> staleInProgress \<and> \<not> alreadyOrphaned then None
         else if t_Retries t < maxRetries then
           (let t1 = t\<lparr>t_Retries := t_Retries t + 1\<rparr>
            in Some (t1\<lparr>t_LastError := ''orphaned after '' @ dec_int orphanTimeoutMin @ '' min timeout (attempt '' @
                        dec_int (t_Retries t1) @ ''/'' @ dec_int maxRetries @ '')'',
                      t_LifecycleState := TaskLifecyclePending, t_Status := ''TODO'', t_UpdatedAt := now\<rparr>))
         else
           Some (t\<lparr>t_LastError := max_retries_msg maxRetries ''task permanently failed'',
                   t_LifecycleState := TaskLifecycleFailedPermanent, t_UpdatedAt := now\<rparr>))"

definition RecoverOrphanedTasks ::
    "('b, doc) bolt \<Rightarrow> int \<Rightarrow> int \<Rightarrow> int \<Rightarrow> int \<Rightarrow> 'b planner \<Rightarrow> SRETask list \<times> error option \<times> 'b planner" where
  "RecoverOrphanedTasks B now0 now maxRetries orphanTimeoutMin s =
     (if \<not> p_online s then ([], None, s)
      else planner_update B
        (scan_tx B (recover_step maxRetries orphanTimeoutMin (now0 - orphanTimeoutMin * 60) now)) s)"

end
