(* ===== verification/State_Queue.thy ===== *)
theory State_Queue
  imports State_Planner
begin

text \<open>
  What the task queue of \<^verbatim>\<open>planner.go\<close> guarantees: rollback on errors, the order of the queue,
  the counts of sealing, the lifecycle invariant over every sequence of operations, and the
  bounded retries of orphan recovery.
\<close>

section \<open>Transactions on the task bucket\<close>

definition task_items :: "('b, doc) bolt \<Rightarrow> 'b planner \<Rightarrow> (string \<times> doc) list" where
  "task_items B s = (case p_buckets s taskBucket of None \<Rightarrow> [] | Some b \<Rightarrow> bk_items B b)"

lemma all_tasks_items: "p_online s \<Longrightarrow> GetAllTasks B s = decode un_task (task_items B s)"
  by (simp add: GetAllTasks_def task_items_def split: option.splits)

lemma decode_append [simp]: "decode un (xs @ ys) = decode un xs @ decode un ys"
  by (induction xs) (auto split: option.splits)

lemma decode_set: "set (decode un xs) = {a. \<exists>k v. (k, v) \<in> set xs \<and> un v = Some a}"
  by (force simp: decode_def List.map_filter_def image_iff)

lemma next_scan_find: "next_scan ok xs = List.find ok (decode un_task xs)"
  by (induction ok xs rule: next_scan.induct) (auto split: option.splits)

lemma state_scan_count:
  "state_scan xs p c =
     (p + int (length (filter (\<lambda>t. t_Status t = ''TODO'') (decode un_task xs))),
      c + int (length (filter (\<lambda>t. t_Status t = ''DONE'') (decode un_task xs))))"
  by (induction xs p c rule: state_scan.induct) (auto split: option.splits)

lemma orphan_count_count:
  "orphan_count xs n = n + int (length (filter (\<lambda>t. t_LifecycleState t = TaskLifecycleOrphaned) (decode un_task xs)))"
  by (induction xs n rule: orphan_count.induct) (auto split: option.splits)

lemma planner_state_counts:
  assumes "p_online s"
  shows "GetPlannerState B s =
    (int (length (filter (\<lambda>t. t_Status t = ''TODO'') (GetAllTasks B s))),
     int (length (filter (\<lambda>t. t_Status t = ''DONE'') (GetAllTasks B s))))"
  using assms by (auto simp: GetPlannerState_def GetAllTasks_def state_scan_count split: option.splits)

lemma mark_scan_some:
  "mark_scan xs (Some m) n =
     (Some m, n + int (length (filter (\<lambda>t. t_Status t = ''TODO'') (decode un_task xs))))"
proof (induction xs arbitrary: n)
  case (Cons p xs)
  then show ?case by (cases p) (auto split: option.splits)
qed simp

text \<open>What the scan of \<^verbatim>\<open>markTaskDoneInDB\<close> finds.\<close>

lemma mark_scan_cases:
  assumes "mark_scan xs None 0 = (mark, n)"
  obtains (none) "mark = None" "n = 0" "filter (\<lambda>t. t_Status t = ''TODO'') (decode un_task xs) = []"
  | (some) pre k t post where "mark = Some (k, t)" "xs = pre @ (k, TaskDoc t) # post"
      "filter (\<lambda>t. t_Status t = ''TODO'') (decode un_task pre) = []" "t_Status t = ''TODO''"
      "n = int (length (filter (\<lambda>t. t_Status t = ''TODO'') (decode un_task post)))"
  using assms
proof (induction xs arbitrary: thesis)
  case Nil
  then show ?case by simp
next
  case (Cons p xs)
  obtain k v where p: "p = (k, v)" by fastforce
  show ?case
  proof (cases "\<exists>t. un_task v = Some t \<and> t_Status t = ''TODO''")
    case True
    then obtain t where t: "v = TaskDoc t" "t_Status t = ''TODO''" by (auto simp: un_task_Some)
    then show ?thesis using Cons.prems(3) p Cons.prems(2) [of k t "[]" xs] by (simp add: mark_scan_some)
  next
    case False
    then have m: "mark_scan xs None 0 = (mark, n)" using Cons.prems(3) p by (auto split: option.splits)
    have d: "filter (\<lambda>t. t_Status t = ''TODO'') (decode un_task (p # ys)) =
        filter (\<lambda>t. t_Status t = ''TODO'') (decode un_task ys)" for ys
      using False p by (auto split: option.splits)
    show ?thesis
    proof (rule Cons.IH [OF _ _ m])
      fix pre k' t post
      assume "mark = Some (k', t)" "xs = pre @ (k', TaskDoc t) # post"
        "filter (\<lambda>t. t_Status t = ''TODO'') (decode un_task pre) = []" "t_Status t = ''TODO''"
        "n = int (length (filter (\<lambda>t. t_Status t = ''TODO'') (decode un_task post)))"
      then show ?thesis using Cons.prems(2) [of k' t "p # pre" post] d [of pre] by simp
    qed (use Cons.prems(1) d [of xs] in simp)
  qed
qed

lemma alist_put_split:
  assumes "keys_sorted (pre @ (k, w) # post)"
  shows "alist_put k v (pre @ (k, w) # post) = pre @ (k, v) # post"
  using assms
proof (induction pre)
  case (Cons p pre)
  obtain j u where p: "p = (j, u)" by fastforce
  with Cons.prems have "j < k" by auto
  then show ?case using Cons p by auto
qed simp

section \<open>Properties of all tasks\<close>

definition queue_all :: "('b, doc) bolt \<Rightarrow> (string \<Rightarrow> SRETask \<Rightarrow> bool) \<Rightarrow> 'b planner \<Rightarrow> bool" where
  "queue_all B P s \<longleftrightarrow> (\<forall>k t. map_of (task_items B s) k = Some (TaskDoc t) \<longrightarrow> P k t)"

lemma planner_update_cases:
  assumes "planner_update B f s = (r, e, s')"
  obtains (err) "s' = s" "e \<noteq> None"
  | (ok) bs where "f (p_buckets s) = (r, Inr bs)" "e = None" "s' = s\<lparr>p_buckets := bs\<rparr>"
  using assms planner_update_error [of B f s r _ s'] planner_update_ok [of B f s r s'] by (cases e) auto

context doc_bucket
begin

lemma task_tx_ok:
  assumes "task_tx B tid r0 step bs = (r, Inr bs')"
  shows "bs' = bs \<or> (\<exists>b b' t. bs taskBucket = Some b \<and> bs' = bs(taskBucket \<mapsto> b') \<and>
    map_of (bk_items B b) tid = Some (TaskDoc t) \<and> r = fst (step t) \<and>
    map_of (bk_items B b') = (map_of (bk_items B b))(tid \<mapsto> TaskDoc (snd (step t))))"
  using assms unfolding task_tx_def
  by (auto simp: get_items un_task_Some put_map map_sum_def
      split: option.splits prod.splits sum.splits)

lemma collect_pending_in:
  "(k, t') \<in> set (collect_pending act xs) \<longleftrightarrow> (\<exists>t. (k, TaskDoc t) \<in> set xs \<and> act t = Some t')"
proof (induction act xs rule: collect_pending.induct)
  case (2 act k v xs)
  then show ?case by (auto simp: un_task_Some split: option.splits)
qed simp

lemma collect_pending_keys: "distinct (List.map fst xs) \<Longrightarrow> distinct (List.map fst (collect_pending act xs))"
proof (induction act xs rule: collect_pending.induct)
  case (2 act k v xs)
  have "k \<notin> fst ` set (collect_pending act xs)"
  proof
    assume "k \<in> fst ` set (collect_pending act xs)"
    then obtain t where "(k, TaskDoc t) \<in> set xs" by (auto simp: collect_pending_in)
    then have "k \<in> fst ` set xs" by force
    then show False using "2.prems" by simp
  qed
  then show ?case using 2 by (auto split: option.splits)
qed simp

text \<open>An orphan scan that succeeds rewrites exactly the tasks its step acts on.\<close>

lemma scan_tx_ok:
  assumes "scan_tx B act bs = (acted, Inr bs')" "bs taskBucket = Some b"
  obtains b' where "bs' = bs(taskBucket \<mapsto> b')"
    "acted = List.map snd (collect_pending act (bk_items B b))"
    "\<And>k. map_of (bk_items B b') k = (case map_of (bk_items B b) k of
        Some (TaskDoc t) \<Rightarrow> Some (TaskDoc (case act t of None \<Rightarrow> t | Some t' \<Rightarrow> t'))
      | v \<Rightarrow> v)"
proof -
  let ?P = "collect_pending act (bk_items B b)"
  from assms obtain b' where b': "bs' = bs(taskBucket \<mapsto> b')"
      "put_collect B TaskDoc ?P b [] = (acted, Inr b')"
    by (auto simp: scan_tx_def map_sum_def split: prod.splits sum.splits)
  let ?kvs = "List.map (\<lambda>(k, a). (k, TaskDoc a)) ?P"
  have pe: "acted = List.map snd ?P" "put_each B (\<lambda>k e. e) ?kvs b = Inr b'"
    using b'(2) by (simp_all add: put_collect_put_each)
  have fst_kvs: "List.map fst ?kvs = List.map fst ?P" by (induction ?P) auto
  have dist: "distinct (List.map fst ?P)" by (rule collect_pending_keys [OF items_distinct])
  have m: "map_of (bk_items B b') k = (case map_of (bk_items B b) k of
        Some (TaskDoc t) \<Rightarrow> Some (TaskDoc (case act t of None \<Rightarrow> t | Some t' \<Rightarrow> t'))
      | v \<Rightarrow> v)" for k
  proof -
    have dk: "distinct (List.map fst ?kvs)" using dist by (simp only: fst_kvs)
    have mk: "map_of (rev ?kvs) k = map_of ?kvs k" using map_of_rev_distinct [OF dk] by simp
    have in_items: "(k, v) \<in> set (bk_items B b) \<longleftrightarrow> map_of (bk_items B b) k = Some v" for v
      using items_distinct by (simp add: map_of_eq_Some_iff)
    have "map_of ?kvs k = Some (TaskDoc t') \<longleftrightarrow> (k, TaskDoc t') \<in> set ?kvs" for t'
      by (rule map_of_eq_Some_iff [OF dk])
    moreover have "(k, TaskDoc t') \<in> set ?kvs \<longleftrightarrow> (k, t') \<in> set ?P" for t' by auto
    ultimately have "map_of ?kvs k = Some (TaskDoc t') \<longleftrightarrow> (k, t') \<in> set ?P" for t' by simp
    then have hit: "map_of ?kvs k = Some (TaskDoc t') \<longleftrightarrow>
        (\<exists>t. map_of (bk_items B b) k = Some (TaskDoc t) \<and> act t = Some t')" for t'
      by (simp add: collect_pending_in in_items)
    have td: "\<exists>t'. v = TaskDoc t'" if "map_of ?kvs k = Some v" for v
      using map_of_SomeD [OF that] by auto
    show ?thesis
    proof (cases "map_of ?kvs k")
      case None
      then have "map_of (bk_items B b') k = map_of (bk_items B b) k"
        using put_each_map [OF pe(2)] mk by (simp add: map_add_def)
      moreover have "act t = None" if "map_of (bk_items B b) k = Some (TaskDoc t)" for t
        using hit that None by (cases "act t") auto
      ultimately show ?thesis by (auto split: option.splits doc.splits)
    next
      case (Some v)
      with td obtain t' where v: "v = TaskDoc t'" by blast
      with hit Some obtain t where "map_of (bk_items B b) k = Some (TaskDoc t)" "act t = Some t'" by auto
      moreover have "map_of (bk_items B b') k = Some v"
        using put_each_map [OF pe(2)] mk Some by (simp add: map_add_def)
      ultimately show ?thesis using v by simp
    qed
  qed
  show ?thesis by (rule that [OF b'(1) pe(1) m])
qed

end

section \<open>Enqueueing\<close>

fun enqueued :: "int \<Rightarrow> nat \<Rightarrow> SRETask list \<Rightarrow> SRETask list" where
  "enqueued now i [] = []"
| "enqueued now i (t # ts) = enqueue_task now i t # enqueued now (i + 1) ts"

abbreviation task_kvs :: "SRETask list \<Rightarrow> (string \<times> doc) list" where
  "task_kvs ts \<equiv> List.map (\<lambda>t. (t_ID t, TaskDoc t)) ts"

lemma enqueue_loop_put_each:
  "enqueue_loop B now i ts b =
     put_each B (\<lambda>k e. Wrap (''fallo insertando tarea SRE '' @ k) e) (task_kvs (enqueued now i ts)) b"
  by (induction ts arbitrary: i b) (auto simp: Let_def split: sum.splits)

lemma enqueued_ids: "t \<in> set (enqueued now i ts) \<Longrightarrow>
    \<exists>j. i \<le> j \<and> j < i + length ts \<and> t_ID t = ''TASK-'' @ pad_dec 3 (j + 1)"
proof (induction now i ts rule: enqueued.induct)
  case (2 now i u ts)
  then consider "t = enqueue_task now i u" | "t \<in> set (enqueued now (i + 1) ts)" by auto
  then show ?case
  proof cases
    case 1
    then show ?thesis by (intro exI [of _ i]) (simp add: enqueue_task_def)
  next
    case 2
    with "2.IH" obtain j where "i + 1 \<le> j" "j < i + 1 + length ts" "t_ID t = ''TASK-'' @ pad_dec 3 (j + 1)"
      by auto
    then show ?thesis by (intro exI [of _ j]) simp
  qed
qed simp

lemma enqueued_mem: "t \<in> set (enqueued now i ts) \<Longrightarrow> \<exists>j u. t = enqueue_task now j u \<and> u \<in> set ts"
  by (induction now i ts rule: enqueued.induct) auto

lemma enqueued_sorted:
  "i + length ts < 1000 \<Longrightarrow> keys_sorted (task_kvs (enqueued now i ts))"
proof (induction now i ts rule: enqueued.induct)
  case (2 now i u ts)
  have "t_ID (enqueue_task now i u) < t_ID t" if t: "t \<in> set (enqueued now (i + 1) ts)" for t
  proof -
    obtain j where j: "i + 1 \<le> j" "j < i + 1 + length ts" "t_ID t = ''TASK-'' @ pad_dec 3 (j + 1)"
      using enqueued_ids [OF t] by blast
    have "pad_dec 3 (i + 1) < pad_dec 3 (j + 1)"
      using j "2.prems" by (intro pad_dec_3_less) auto
    then show ?thesis using j(3) by (simp add: enqueue_task_def)
  qed
  then show ?case using 2 by (auto simp: comp_def)
qed simp

lemma decode_task_kvs [simp]: "decode un_task (task_kvs ts) = ts"
  by (induction ts) auto

lemma length_enqueued [simp]: "length (enqueued now i ts) = length ts"
  by (induction ts arbitrary: i) auto

lemma enqueued_fresh: "t \<in> set (enqueued now i ts) \<Longrightarrow>
    t_Status t = ''TODO'' \<and> t_LifecycleState t = TaskLifecyclePending"
  by (induction ts arbitrary: i) (auto simp: enqueue_task_def)

context doc_bucket
begin

lemma enqueue_ok:
  assumes "EnqueueTasks B now ts s = (None, s')" "length ts < 1000"
  shows "p_online s' \<and> task_items B s' = task_kvs (enqueued now 0 ts) \<and> (\<exists>bs. s' = s\<lparr>p_buckets := bs\<rparr>)"
proof -
  from assms(1) have on: "p_online s" by (auto simp: EnqueueTasks_def split: if_splits)
  let ?f = "\<lambda>bs. let bs1 = bs(taskBucket := None); bs2 = bs1(taskBucket \<mapsto> bk_empty B)
              in ((), map_sum id (\<lambda>b. bs2(taskBucket \<mapsto> b)) (enqueue_loop B now 0 ts (bk_empty B)))"
  from assms(1) on have "planner_update B ?f s = ((), None, s')"
    by (cases "planner_update B ?f s") (simp add: EnqueueTasks_def)
  then obtain bs where bs: "?f (p_buckets s) = ((), Inr bs)" "s' = s\<lparr>p_buckets := bs\<rparr>"
    by (auto simp: planner_update_ok)
  then obtain b where b: "enqueue_loop B now 0 ts (bk_empty B) = Inr b" "bs taskBucket = Some b"
    by (auto simp: Let_def map_sum_def split: sum.splits)
  have "bk_items B b = task_kvs (enqueued now 0 ts)"
    using b(1) put_each_sorted [OF _ items_empty enqueued_sorted] assms(2)
    by (simp add: enqueue_loop_put_each)
  then show ?thesis using on bs(2) b(2) by (auto simp: task_items_def)
qed

end

section \<open>Sealing\<close>

lemma sync_frame [simp]:
  "p_online (syncMasterPlanFile d s) = p_online s"
  "p_buckets (syncMasterPlanFile d s) = p_buckets s"
  "p_closed (syncMasterPlanFile d s) = p_closed s"
  "p_hook (syncMasterPlanFile d s) = p_hook s"
  "task_items B (syncMasterPlanFile d s) = task_items B s"
  by (simp_all add: syncMasterPlanFile_def task_items_def split: option.splits)

abbreviation todo :: "SRETask list \<Rightarrow> SRETask list" where
  "todo \<equiv> filter (\<lambda>t. t_Status t = ''TODO'')"

text \<open>
  A successful \<^verbatim>\<open>MarkTaskDone\<close> seals the first \<^verbatim>\<open>TODO\<close> task of the queue and returns how many
  are left; with none it changes no task.
\<close>

context doc_bucket
begin

lemma mark_task_done_cases:
  assumes "MarkTaskDone B now s = Ret ((remaining, None), s')"
  shows "p_online s \<and> p_online s' \<and> p_hook s' = p_hook s \<and>
    p_closed s' = p_closed s + (if remaining = 0 \<and> p_hook s then 1 else 0) \<and>
    (remaining = 0 \<and> todo (GetAllTasks B s) = [] \<and> task_items B s' = task_items B s \<or>
     (\<exists>pre k t post. task_items B s = pre @ (k, TaskDoc t) # post \<and>
       todo (decode un_task pre) = [] \<and> t_Status t = ''TODO'' \<and>
       remaining = int (length (todo (decode un_task post))) \<and>
       task_items B s' = pre @ (k, TaskDoc (mark_done now t)) # post))"
proof -
  from assms obtain desc s1 where m: "markTaskDoneInDB B now s = Ret ((remaining, desc, None), s1)"
    by (auto simp: MarkTaskDone_def Let_def split: outcome.splits prod.splits)
  let ?s2 = "if desc \<noteq> '''' then syncMasterPlanFile desc s1 else s1"
  have s': "s' = (if remaining = 0 \<and> p_hook s1 then ?s2\<lparr>p_closed := p_closed ?s2 + 1\<rparr> else ?s2)"
    using assms m by (auto simp: MarkTaskDone_def Let_def split: if_splits)
  have it: "task_items B s' = task_items B s1" "p_online s' = p_online s1" "p_hook s' = p_hook s1"
    "p_closed s' = p_closed s1 + (if remaining = 0 \<and> p_hook s1 then 1 else 0)"
    using s' sync_frame(1-4) [of desc s1] by (auto simp: task_items_def)
  have on: "p_online s" using m by (auto simp: markTaskDoneInDB_def split: if_splits)
  from m on obtain bs where u: "s1 = s\<lparr>p_buckets := bs\<rparr>"
    "(case p_buckets s taskBucket of
           None \<Rightarrow> ((0, ''''), Inr (p_buckets s))
         | Some b \<Rightarrow>
             (case mark_scan (bk_items B b) None 0 of
                (None, remaining) \<Rightarrow> ((remaining, ''''), Inr (p_buckets s))
              | (Some (markKey, markedTask), remaining) \<Rightarrow>
                  (case bk_put B b markKey (TaskDoc (mark_done now markedTask)) of
                     Inl e \<Rightarrow> ((remaining, ''''),
                       Inl (Wrap (''imposible marcar '' @ markKey @ '' como DONE'') e))
                   | Inr b' \<Rightarrow> ((remaining, t_Description markedTask), Inr ((p_buckets s)(taskBucket \<mapsto> b')))))) =
     ((remaining, desc), Inr bs)"
    unfolding markTaskDoneInDB_def
    by (auto simp: planner_update_ok split: prod.splits)
  have "remaining = 0 \<and> todo (GetAllTasks B s) = [] \<and> task_items B s1 = task_items B s \<or>
     (\<exists>pre k t post. task_items B s = pre @ (k, TaskDoc t) # post \<and>
       todo (decode un_task pre) = [] \<and> t_Status t = ''TODO'' \<and>
       remaining = int (length (todo (decode un_task post))) \<and>
       task_items B s1 = pre @ (k, TaskDoc (mark_done now t)) # post)"
  proof (cases "p_buckets s taskBucket")
    case None
    then show ?thesis using u on by (auto simp: GetAllTasks_def task_items_def)
  next
    case (Some b)
    obtain mark n where mn: "mark_scan (bk_items B b) None 0 = (mark, n)" by fastforce
    show ?thesis
    proof (rule mark_scan_cases [OF mn])
      assume "mark = None" "n = 0" "todo (decode un_task (bk_items B b)) = []"
      then show ?thesis using u on Some mn by (auto simp: GetAllTasks_def task_items_def)
    next
      fix pre k t post
      assume a: "mark = Some (k, t)" "bk_items B b = pre @ (k, TaskDoc t) # post"
        "todo (decode un_task pre) = []" "t_Status t = ''TODO''"
        "n = int (length (todo (decode un_task post)))"
      then obtain b' where b': "bk_put B b k (TaskDoc (mark_done now t)) = Inr b'"
          "bs = (p_buckets s)(taskBucket \<mapsto> b')" "remaining = n"
        using u(2) Some mn by (auto split: sum.splits)
      have "bk_items B b' = pre @ (k, TaskDoc (mark_done now t)) # post"
        using put_items [OF b'(1)] a(2) alist_put_split items_sorted [of b] by metis
      then show ?thesis using a b' u(1) Some by (auto simp: task_items_def)
    qed
  qed
  then show ?thesis using it on u(1) by auto
qed

end

text \<open>Sealing over and over, one clock reading per call; the results in order.\<close>

fun seal_all :: "('b, doc) bolt \<Rightarrow> int list \<Rightarrow> 'b planner \<Rightarrow> ((int \<times> error option) list \<times> 'b planner) outcome" where
  "seal_all B [] s = Ret ([], s)"
| "seal_all B (now # nows) s =
     (case MarkTaskDone B now s of
        Panic \<Rightarrow> Panic
      | Ret (r, s1) \<Rightarrow> (case seal_all B nows s1 of Panic \<Rightarrow> Panic | Ret (rs, s2) \<Rightarrow> Ret (r # rs, s2)))"

context doc_store
begin

lemma mark_task_done_succeeds:
  assumes "p_online s" "\<And>t. t \<in> set (GetAllTasks B s) \<Longrightarrow> fits (TaskDoc (mark_done now t))"
  obtains r s' where "MarkTaskDone B now s = Ret ((r, None), s')"
proof -
  have "\<exists>r d s1. markTaskDoneInDB B now s = Ret ((r, d, None), s1)"
  proof (cases "p_buckets s taskBucket")
    case None
    then show ?thesis
      using assms(1) commit_ok by (simp add: markTaskDoneInDB_def planner_update_def db_update_def)
  next
    case (Some b)
    obtain mark n where mn: "mark_scan (bk_items B b) None 0 = (mark, n)" by fastforce
    show ?thesis
    proof (rule mark_scan_cases [OF mn])
      assume "mark = None"
      then show ?thesis
        using assms(1) Some mn commit_ok by (simp add: markTaskDoneInDB_def planner_update_def db_update_def)
    next
      fix pre k t post
      assume a: "mark = Some (k, t)" "bk_items B b = pre @ (k, TaskDoc t) # post"
      then have "fits (TaskDoc (mark_done now t))"
        using assms Some by (simp add: GetAllTasks_def)
      then obtain b' where "bk_put B b k (TaskDoc (mark_done now t)) = Inr b'"
        using put_ok items_keys [of k "TaskDoc t" b] a(2) by fastforce
      then show ?thesis
        using assms(1) Some mn a commit_ok by (simp add: markTaskDoneInDB_def planner_update_def db_update_def)
    qed
  qed
  then obtain r d s1 where "markTaskDoneInDB B now s = Ret ((r, d, None), s1)" by blast
  then show ?thesis by (intro that) (simp add: MarkTaskDone_def Let_def)
qed

end

lemma first_unique:
  assumes "xs @ x # ys = us @ u # vs" "filter P xs = []" "filter P us = []" "P x" "P u"
  shows "xs = us \<and> x = u \<and> ys = vs"
proof -
  have tw: "takeWhile (\<lambda>a. \<not> P a) (as @ a # bs) = as" if "filter P as = []" "P a" for as a bs
    using that by (induction as) (auto split: if_splits)
  have "xs = us" using tw [OF assms(2,4), of ys] tw [OF assms(3,5), of vs] assms(1) by simp
  then show ?thesis using assms(1) by simp
qed

context doc_store
begin

lemma seal_step:
  assumes "p_online s" "GetAllTasks B s = ds @ t # rest" "todo ds = []" "t_Status t = ''TODO''"
    "\<And>u. u \<in> set (GetAllTasks B s) \<Longrightarrow> fits (TaskDoc (mark_done now u))"
  obtains s' where "MarkTaskDone B now s = Ret ((int (length (todo rest)), None), s')" "p_online s'"
    "p_hook s' = p_hook s" "GetAllTasks B s' = (ds @ [mark_done now t]) @ rest"
    "p_closed s' = p_closed s + (if todo rest = [] \<and> p_hook s then 1 else 0)"
proof -
  obtain r s' where m: "MarkTaskDone B now s = Ret ((r, None), s')"
    using mark_task_done_succeeds [OF assms(1,5)] by blast
  note c = mark_task_done_cases [OF m]
  have "todo (GetAllTasks B s) \<noteq> []" using assms(2,4) by simp
  with c obtain pre k t' post where sp: "task_items B s = pre @ (k, TaskDoc t') # post"
      "todo (decode un_task pre) = []" "t_Status t' = ''TODO''" "r = int (length (todo (decode un_task post)))"
      "task_items B s' = pre @ (k, TaskDoc (mark_done now t')) # post" by blast
  have "decode un_task pre @ t' # decode un_task post = ds @ t # rest"
    using sp(1) assms(1,2) all_tasks_items [of s B] by simp
  from first_unique [OF this, of "\<lambda>t. t_Status t = ''TODO''"] sp(2,3) assms(3,4)
  have e: "decode un_task pre = ds" "t' = t" "decode un_task post = rest" by simp_all
  have on: "p_online s'" using c by blast
  have "GetAllTasks B s' = (ds @ [mark_done now t]) @ rest"
    using all_tasks_items [OF on, of B] sp(5) e by simp
  then show ?thesis using that [of s'] m c sp(4) e by simp
qed

lemma seal_all_drains:
  assumes "p_online s" "GetAllTasks B s = ds @ ts" "todo ds = []" "todo ts = ts" "length nows = length ts"
    "\<And>now t now'. now \<in> set nows \<Longrightarrow> t \<in> set (ds @ ts) \<Longrightarrow> fits (TaskDoc (mark_done now t))"
  shows "\<exists>s'. seal_all B nows s = Ret (List.map (\<lambda>i. (int i, None)) (rev [0..<length ts]), s') \<and> p_online s' \<and>
    GetAllTasks B s' = ds @ List.map2 mark_done nows ts \<and>
    p_closed s' = p_closed s + (if ts \<noteq> [] \<and> p_hook s then 1 else 0)"
  using assms
proof (induction nows arbitrary: s ds ts)
  case Nil
  then show ?case by simp
next
  case (Cons now nows)
  then obtain t rest where ts: "ts = t # rest" by (cases ts) auto
  have "\<forall>u \<in> set ts. t_Status u = ''TODO''" using Cons.prems(4) by (simp add: filter_id_conv)
  then have st: "t_Status t = ''TODO''" "todo rest = rest" using ts by (simp_all add: filter_id_conv)
  have f0: "fits (TaskDoc (mark_done now u))" if "u \<in> set (GetAllTasks B s)" for u
    using Cons.prems(2,6) that by auto
  obtain s1 where s1: "MarkTaskDone B now s = Ret ((int (length rest), None), s1)" "p_online s1"
      "p_hook s1 = p_hook s" "GetAllTasks B s1 = (ds @ [mark_done now t]) @ rest"
      "p_closed s1 = p_closed s + (if rest = [] \<and> p_hook s then 1 else 0)"
    using seal_step [OF Cons.prems(1) Cons.prems(2) [unfolded ts] Cons.prems(3) st(1) f0] st(2) by metis
  have md: "mark_done n (mark_done now u) = mark_done n u" for n u by (simp add: mark_done_def)
  have f1: "fits (TaskDoc (mark_done n u))" if "n \<in> set nows" "u \<in> set ((ds @ [mark_done now t]) @ rest)" for n u
    using Cons.prems(6) [of n u] Cons.prems(6) [of n t] that ts md by auto
  have "todo (ds @ [mark_done now t]) = []" using Cons.prems(3) by (simp add: mark_done_def)
  moreover have "length nows = length rest" using Cons.prems(5) ts by simp
  ultimately obtain s' where s': "seal_all B nows s1 = Ret (List.map (\<lambda>i. (int i, None)) (rev [0..<length rest]), s')"
    "p_online s'" "GetAllTasks B s' = (ds @ [mark_done now t]) @ List.map2 mark_done nows rest"
    "p_closed s' = p_closed s1 + (if rest \<noteq> [] \<and> p_hook s1 then 1 else 0)"
    using Cons.IH [OF s1(2,4) _ st(2) _ f1] by blast
  then show ?case using s1 ts by auto
qed

end

section \<open>Recovery\<close>

definition in_flight :: "int \<Rightarrow> SRETask \<Rightarrow> bool" where
  "in_flight cutoff t \<longleftrightarrow> t_LifecycleState t = TaskLifecycleOrphaned \<or>
     t_LifecycleState t = TaskLifecycleInProgress \<and> 0 < t_UpdatedAt t \<and> t_UpdatedAt t < cutoff"

lemma recover_step_iff: "recover_step m w cutoff now t = None \<longleftrightarrow> \<not> in_flight cutoff t"
  by (auto simp: recover_step_def in_flight_def Let_def)

lemma recover_step_settles:
  "recover_step m w cutoff now t = Some t' \<Longrightarrow> \<not> in_flight cutoff' t' \<and>
     t_UpdatedAt t' = now \<and> t_ID t' = t_ID t \<and>
     (t_Retries t < m \<and> t_Retries t' = t_Retries t + 1 \<and> t_Status t' = ''TODO'' \<and> t_LifecycleState t' = TaskLifecyclePending \<or>
      m \<le> t_Retries t \<and> t_Retries t' = t_Retries t \<and> t_Status t' = t_Status t \<and> t_LifecycleState t' = TaskLifecycleFailedPermanent)"
  by (auto simp: recover_step_def in_flight_def Let_def lifecycle_defs split: if_splits)

lemma collect_pending_none: "(\<And>t. TaskDoc t \<in> snd ` set xs \<Longrightarrow> act t = None) \<Longrightarrow> collect_pending act xs = []"
  by (induction act xs rule: collect_pending.induct) (auto simp: un_task_Some split: option.splits)

context doc_bucket
begin

lemma recover_ok:
  assumes "RecoverOrphanedTasks B now0 now m w s = (acted, None, s')" "p_online s"
  shows "p_online s' \<and> p_closed s' = p_closed s \<and>
    (\<forall>k. map_of (task_items B s') k = (case map_of (task_items B s) k of
        Some (TaskDoc t) \<Rightarrow> Some (TaskDoc (case recover_step m w (now0 - w * 60) now t of None \<Rightarrow> t | Some t' \<Rightarrow> t'))
      | v \<Rightarrow> v)) \<and>
    acted = List.map snd (collect_pending (recover_step m w (now0 - w * 60) now) (task_items B s))"
proof -
  let ?act = "recover_step m w (now0 - w * 60) now"
  from assms obtain bs where bs: "scan_tx B ?act (p_buckets s) = (acted, Inr bs)" "s' = s\<lparr>p_buckets := bs\<rparr>"
    by (auto simp: RecoverOrphanedTasks_def planner_update_ok)
  show ?thesis
  proof (cases "p_buckets s taskBucket")
    case None
    then show ?thesis using bs assms(2) by (auto simp: scan_tx_def task_items_def)
  next
    case (Some b)
    obtain b' where "bs = (p_buckets s)(taskBucket \<mapsto> b')"
        "acted = List.map snd (collect_pending ?act (bk_items B b))"
        "\<And>k. map_of (bk_items B b') k = (case map_of (bk_items B b) k of
            Some (TaskDoc t) \<Rightarrow> Some (TaskDoc (case ?act t of None \<Rightarrow> t | Some t' \<Rightarrow> t'))
          | v \<Rightarrow> v)"
      using scan_tx_ok [OF bs(1) Some] by blast
    then show ?thesis using bs(2) Some assms(2) by (simp add: task_items_def)
  qed
qed

lemma task_items_distinct: "distinct (List.map fst (task_items B s))"
  by (simp add: task_items_def items_distinct split: option.splits)

lemma task_items_mem: "(k, v) \<in> set (task_items B s) \<longleftrightarrow> map_of (task_items B s) k = Some v"
  using task_items_distinct by (simp add: map_of_eq_Some_iff)

lemma all_tasks_mem:
  "p_online s \<Longrightarrow> t \<in> set (GetAllTasks B s) \<longleftrightarrow> (\<exists>k. map_of (task_items B s) k = Some (TaskDoc t))"
  by (auto simp: all_tasks_items decode_set un_task_Some task_items_mem)

end

section \<open>The operations on the queue as a step relation\<close>

text \<open>One successful or failing call of a queue operation; \<open>M\<close> bounds the retries callers allow.\<close>

inductive queue_step :: "('b, doc) bolt \<Rightarrow> int \<Rightarrow> 'b planner \<Rightarrow> 'b planner \<Rightarrow> bool" for B M where
  enqueue: "EnqueueTasks B now ts s = (e, s') \<Longrightarrow> \<forall>t \<in> set ts. 0 \<le> t_Retries t \<and> t_Retries t \<le> M \<Longrightarrow>
    queue_step B M s s'"
| claim: "MarkTaskInProgress B now tid s = (e, s') \<Longrightarrow> queue_step B M s s'"
| seal: "MarkTaskDone B now s = Ret (r, s') \<Longrightarrow> queue_step B M s s'"
| complete: "MarkTaskCompleted B now tid s = (e, s') \<Longrightarrow> queue_step B M s s'"
| requeue: "RequeueTaskOrFail B now tid why m skip s = (r, e, s') \<Longrightarrow> m \<le> M \<Longrightarrow> queue_step B M s s'"
| fail: "MarkTaskFailedPermanent B now tid why s = (e, s') \<Longrightarrow> queue_step B M s s'"
| orphan: "MarkTasksOrphaned B now0 now w s = (r, e, s') \<Longrightarrow> queue_step B M s s'"
| recover: "RecoverOrphanedTasks B now0 now m w s = (r, e, s') \<Longrightarrow> m \<le> M \<Longrightarrow> queue_step B M s s'"

inductive_cases queue_stepE: "queue_step B M s s'"

text \<open>
  The lifecycle invariant of a task stored under a key: it carries its own id, its status is
  one of the two the code writes, a completed task is \<^verbatim>\<open>DONE\<close>, a pending one \<^verbatim>\<open>TODO\<close>, and its
  retries stay within the bound.
\<close>

definition task_wf :: "int \<Rightarrow> string \<Rightarrow> SRETask \<Rightarrow> bool" where
  "task_wf M k t \<longleftrightarrow>
     t_ID t = k \<and> t_Status t \<in> {''TODO'', ''DONE''} \<and>
     t_LifecycleState t \<in> {TaskLifecyclePending, TaskLifecycleInProgress, TaskLifecycleCompleted,
       TaskLifecycleOrphaned, TaskLifecycleFailedPermanent} \<and>
     (t_LifecycleState t = TaskLifecycleCompleted \<longrightarrow> t_Status t = ''DONE'') \<and>
     (t_LifecycleState t = TaskLifecyclePending \<longrightarrow> t_Status t = ''TODO'') \<and>
     0 \<le> t_Retries t \<and> t_Retries t \<le> M"

lemma task_wf_start: "task_wf M k t \<Longrightarrow> task_wf M k (start_task now t)"
  by (simp add: task_wf_def start_task_def Let_def)

lemma task_wf_done: "task_wf M k t \<Longrightarrow> task_wf M k (mark_done now t)"
  by (simp add: task_wf_def mark_done_def)

lemma task_wf_fail: "task_wf M k t \<Longrightarrow> task_wf M k (fail_task now why t)"
  by (simp add: task_wf_def fail_task_def)

lemma task_wf_requeue: "task_wf M k t \<Longrightarrow> m \<le> M \<Longrightarrow> task_wf M k (snd (requeue_step now why m skip t))"
  by (simp add: task_wf_def requeue_step_def)

lemma task_wf_orphan: "task_wf M k t \<Longrightarrow> orphan_step cutoff now t = Some t' \<Longrightarrow> task_wf M k t'"
  by (auto simp: task_wf_def orphan_step_def split: if_splits)

lemma task_wf_recover:
  assumes "task_wf M k t" "m \<le> M" "recover_step m w cutoff now t = Some t'"
  shows "task_wf M k t'"
  using recover_step_settles [OF assms(3), of cutoff] assms(1,2) by (auto simp: task_wf_def)

lemmas task_wf_steps = task_wf_start task_wf_done task_wf_fail task_wf_requeue task_wf_orphan task_wf_recover

context doc_bucket
begin

lemma queue_all_items:
  "queue_all B P s \<Longrightarrow> task_items B s' = task_items B s \<Longrightarrow> queue_all B P s'"
  by (simp add: queue_all_def)

lemma queue_all_task_tx:
  assumes "planner_update B (task_tx B tid r0 step) s = (r, e, s')" "queue_all B P s"
    "\<And>t. P tid t \<Longrightarrow> P tid (snd (step t))"
  shows "queue_all B P s'"
  using assms(1)
proof (cases rule: planner_update_cases)
  case err
  then show ?thesis using assms(2) by simp
next
  case (ok bs)
  from task_tx_ok [OF ok(1)] show ?thesis
  proof (elim disjE exE conjE)
    assume "bs = p_buckets s"
    then show ?thesis using ok assms(2) by (simp add: queue_all_def task_items_def)
  next
    fix b b' t
    assume "p_buckets s taskBucket = Some b" "bs = (p_buckets s)(taskBucket \<mapsto> b')"
      "map_of (bk_items B b) tid = Some (TaskDoc t)"
      "map_of (bk_items B b') = (map_of (bk_items B b))(tid \<mapsto> TaskDoc (snd (step t)))"
    then show ?thesis using ok assms(2,3) by (auto simp: queue_all_def task_items_def split: if_splits)
  qed
qed

lemma queue_all_scan_tx:
  assumes "planner_update B (scan_tx B act) s = (r, e, s')" "queue_all B P s"
    "\<And>k t t'. P k t \<Longrightarrow> act t = Some t' \<Longrightarrow> P k t'"
  shows "queue_all B P s'"
  using assms(1)
proof (cases rule: planner_update_cases)
  case err
  then show ?thesis using assms(2) by simp
next
  case (ok bs)
  show ?thesis
  proof (cases "p_buckets s taskBucket")
    case None
    then show ?thesis using ok assms(2) by (auto simp: scan_tx_def queue_all_def task_items_def)
  next
    case (Some b)
    obtain b' where b': "bs = (p_buckets s)(taskBucket \<mapsto> b')"
        "\<And>k. map_of (bk_items B b') k = (case map_of (bk_items B b) k of
            Some (TaskDoc t) \<Rightarrow> Some (TaskDoc (case act t of None \<Rightarrow> t | Some t' \<Rightarrow> t'))
          | v \<Rightarrow> v)"
      using scan_tx_ok [OF ok(1) Some] by blast
    show ?thesis
      unfolding queue_all_def
    proof (intro allI impI)
      fix k t'
      assume "map_of (task_items B s') k = Some (TaskDoc t')"
      then obtain t where "map_of (bk_items B b) k = Some (TaskDoc t)"
          "t' = (case act t of None \<Rightarrow> t | Some u \<Rightarrow> u)"
        using ok b' by (auto simp: task_items_def split: option.splits doc.splits)
      moreover from this have "P k t" using assms(2) Some by (simp add: queue_all_def task_items_def)
      ultimately show "P k t'" using assms(3) [of k t] by (cases "act t") auto
    qed
  qed
qed

lemma queue_all_seal:
  assumes "MarkTaskDone B now s = Ret ((n, e), s')" "queue_all B P s" "\<And>k t. P k t \<Longrightarrow> P k (mark_done now t)"
  shows "queue_all B P s'"
proof (cases e)
  case None
  from mark_task_done_cases [OF assms(1) [unfolded None]] show ?thesis
  proof (elim conjE disjE exE)
    fix pre k t post
    assume i: "task_items B s = pre @ (k, TaskDoc t) # post"
      "task_items B s' = pre @ (k, TaskDoc (mark_done now t)) # post"
    have k: "k \<notin> fst ` set pre" using task_items_distinct [of s] i(1) by auto
    show ?thesis
      using assms(2,3) i k by (auto simp: queue_all_def map_add_def map_of_eq_None_iff split: option.splits)
  qed (use assms(2) in \<open>simp add: queue_all_def\<close>)
next
  case (Some x)
  from assms(1) obtain d s1 where m: "markTaskDoneInDB B now s = Ret ((n, d, e), s1)"
    by (auto simp: MarkTaskDone_def Let_def split: outcome.splits prod.splits)
  then have "s1 = s"
    using Some by (auto simp: markTaskDoneInDB_def dest!: planner_update_error split: if_splits prod.splits)
  then have "s' = s" using assms(1) m Some by (simp add: MarkTaskDone_def)
  then show ?thesis using assms(2) by simp
qed

lemma queue_all_enqueue:
  assumes "EnqueueTasks B now ts s = (e, s')" "queue_all B P s"
    "\<And>i t. t \<in> set (enqueued now 0 ts) \<Longrightarrow> P (t_ID t) t"
  shows "queue_all B P s'"
proof (cases "p_online s")
  case False
  then show ?thesis using assms by (simp add: EnqueueTasks_def)
next
  case True
  let ?f = "\<lambda>bs. let bs1 = bs(taskBucket := None); bs2 = bs1(taskBucket \<mapsto> bk_empty B)
              in ((), map_sum id (\<lambda>b. bs2(taskBucket \<mapsto> b)) (enqueue_loop B now 0 ts (bk_empty B)))"
  from assms(1) True have "planner_update B ?f s = ((), e, s')"
    by (cases "planner_update B ?f s") (simp add: EnqueueTasks_def)
  then show ?thesis
  proof (cases rule: planner_update_cases)
    case err
    then show ?thesis using assms(2) by simp
  next
    case (ok bs)
    then obtain b where b: "enqueue_loop B now 0 ts (bk_empty B) = Inr b" "bs taskBucket = Some b"
      by (auto simp: Let_def map_sum_def split: sum.splits)
    have "map_of (bk_items B b) = map_of (rev (task_kvs (enqueued now 0 ts)))"
      using put_each_map [OF b(1) [unfolded enqueue_loop_put_each]] by (simp add: items_empty)
    then have "P k t" if "map_of (bk_items B b) k = Some (TaskDoc t)" for k t
      using that assms(3) by (auto dest!: map_of_SomeD)
    then show ?thesis using ok b by (simp add: queue_all_def task_items_def)
  qed
qed

lemma queue_all_task_op:
  assumes "snd (planner_update B (task_tx B tid r0 step) s) = (e, s')" "queue_all B P s"
    "\<And>t. P tid t \<Longrightarrow> P tid (snd (step t))"
  shows "queue_all B P s'"
proof (cases "planner_update B (task_tx B tid r0 step) s")
  case (fields r e' s'')
  with assms(1) have "planner_update B (task_tx B tid r0 step) s = (r, e, s')" by simp
  then show ?thesis by (rule queue_all_task_tx [OF _ assms(2,3)])
qed

lemma queue_step_wf:
  assumes "queue_step B M s s'" and wf: "queue_all B (task_wf M) s"
  shows "queue_all B (task_wf M) s'"
  using assms(1)
proof (cases rule: queue_step.cases)
  case (enqueue now ts e)
  have "task_wf M (t_ID t) t" if t: "t \<in> set (enqueued now 0 ts)" for t
  proof -
    obtain j u where "t = enqueue_task now j u" "u \<in> set ts" using enqueued_mem [OF t] by blast
    then show ?thesis using enqueue(2) by (simp add: enqueue_task_def task_wf_def)
  qed
  then show ?thesis by (intro queue_all_enqueue [OF enqueue(1) wf])
next
  case (claim now tid e)
  then consider "s' = s" | "snd (planner_update B (task_tx B tid () (\<lambda>t. ((), start_task now t))) s) = (e, s')"
    by (auto simp: MarkTaskInProgress_def split: if_splits)
  then show ?thesis
    by cases (use wf in simp, erule queue_all_task_op, rule wf, simp add: task_wf_start)
next
  case (seal now r)
  then show ?thesis using queue_all_seal [of now s _ _ s' "task_wf M"] wf by (cases r) (simp add: task_wf_done)
next
  case (complete now tid e)
  then consider "s' = s" | "snd (planner_update B (task_tx B tid () (\<lambda>t. ((), mark_done now t))) s) = (e, s')"
    by (auto simp: MarkTaskCompleted_def split: if_splits)
  then show ?thesis
    by cases (use wf in simp, erule queue_all_task_op, rule wf, simp add: task_wf_done)
next
  case (requeue now tid why m skip r e)
  then consider "s' = s" | "snd (planner_update B (task_tx B tid False (requeue_step now why m skip)) s) = (e, s')"
    by (auto simp: RequeueTaskOrFail_def split: if_splits)
  then show ?thesis
    by cases (use wf in simp, erule queue_all_task_op, rule wf, simp add: task_wf_requeue requeue(2))
next
  case (fail now tid why e)
  then consider "s' = s" | "snd (planner_update B (task_tx B tid () (\<lambda>t. ((), fail_task now why t))) s) = (e, s')"
    by (auto simp: MarkTaskFailedPermanent_def split: if_splits)
  then show ?thesis
    by cases (use wf in simp, erule queue_all_task_op, rule wf, simp add: task_wf_fail)
next
  case (orphan now0 now w r e)
  then consider "s' = s" | "planner_update B (scan_tx B (orphan_step (now0 - w * 60) now)) s = (r, e, s')"
    by (auto simp: MarkTasksOrphaned_def split: if_splits)
  then show ?thesis
    by cases (use wf in simp, erule queue_all_scan_tx, rule wf, erule (1) task_wf_orphan)
next
  case (recover now0 now m w r e)
  then consider "s' = s" | "planner_update B (scan_tx B (recover_step m w (now0 - w * 60) now)) s = (r, e, s')"
    by (auto simp: RecoverOrphanedTasks_def split: if_splits)
  then show ?thesis
    by cases (use wf in simp, erule queue_all_scan_tx, rule wf, erule task_wf_recover, rule recover(2))
qed

end

end
