(* ===== verification/State_Trust.thy ===== *)
theory State_Trust
  imports State_Types
begin

text \<open>
  \<^verbatim>\<open>pkg/state/daemon_trust.go\<close>: Beta-distributed trust scores with lazy decay, their tiers, and
  the suggested action.  \<^verbatim>\<open>float64\<close> is read as real arithmetic, so rounding, NaN and
  overflow are not modelled.  Times are nanoseconds.
\<close>

section \<open>Scores\<close>

definition decayPerHour :: real where "decayPerHour = 99 / 100"
definition confidence95Z :: real where "confidence95Z = 196 / 100"
definition tierL1Threshold :: real where "tierL1Threshold = 65 / 100"
definition tierL2Threshold :: real where "tierL2Threshold = 85 / 100"
definition tierL3Threshold :: real where "tierL3Threshold = 95 / 100"
definition minExecsForPromote :: int where "minExecsForPromote = 50"
definition consecutiveFailureLimit :: int where "consecutiveFailureLimit = 3"

lemmas trust_consts = decayPerHour_def confidence95Z_def tierL1Threshold_def tierL2Threshold_def
  tierL3Threshold_def minExecsForPromote_def consecutiveFailureLimit_def

definition NewTrustScore :: "time \<Rightarrow> string \<Rightarrow> string \<Rightarrow> TrustScore" where
  "NewTrustScore now pattern scope =
     \<lparr>ts_Pattern = pattern, ts_Scope = scope, ts_Alpha = 1, ts_Beta = 1, ts_LastUpdate = now,
      ts_TotalExecutions = 0, ts_CurrentTier = TierL0, ts_ConsecutiveFailures = 0, ts_ManualWarmup = False\<rparr>"

definition TrustScore_Key :: "TrustScore \<Rightarrow> string" where
  "TrustScore_Key s = ts_Pattern s @ '':'' @ ts_Scope s"

definition hours_between :: "time \<Rightarrow> time \<Rightarrow> real" where
  "hours_between a b = real_of_int (b - a) / 3600000000000"

definition EffectiveAlphaBeta :: "TrustScore \<Rightarrow> time \<Rightarrow> real \<times> real" where
  "EffectiveAlphaBeta s now =
     (let hours = hours_between (ts_LastUpdate s) now
      in if hours \<le> 0 then (ts_Alpha s, ts_Beta s)
         else (let factor = decayPerHour powr hours
               in (1 + (ts_Alpha s - 1) * factor, 1 + (ts_Beta s - 1) * factor)))"

definition PointEstimate :: "TrustScore \<Rightarrow> time \<Rightarrow> real" where
  "PointEstimate s now =
     (let (a, b) = EffectiveAlphaBeta s now; n = a + b in if n = 0 then 0 else a / n)"

definition LowerBound :: "TrustScore \<Rightarrow> time \<Rightarrow> real" where
  "LowerBound s now =
     (let (a, b) = EffectiveAlphaBeta s now; n = a + b
      in if n = 0 then 0
         else (let mean = a / n;
                   variance = (a * b) / (n * n * (n + 1));
                   lb = mean - confidence95Z * sqrt variance
               in if lb < 0 then 0 else if lb > 1 then 1 else lb))"

definition TierFor :: "TrustScore \<Rightarrow> time \<Rightarrow> Tier" where
  "TierFor s now =
     (if ts_TotalExecutions s < minExecsForPromote then TierL0
      else (let lb = LowerBound s now
            in if lb \<ge> tierL3Threshold then TierL3
               else if lb \<ge> tierL2Threshold then TierL2
               else if lb \<ge> tierL1Threshold then TierL1
               else TierL0))"

definition RecordOutcome :: "FailureCategory \<Rightarrow> time \<Rightarrow> TrustScore \<Rightarrow> TrustScore" where
  "RecordOutcome category now s =
     (let s1 = s\<lparr>ts_TotalExecutions := ts_TotalExecutions s + 1, ts_LastUpdate := now\<rparr>;
          s2 = (case category of
                  OutcomeSuccess \<Rightarrow> s1\<lparr>ts_Alpha := ts_Alpha s1 + 1, ts_ConsecutiveFailures := 0\<rparr>
                | OutcomeInfra \<Rightarrow> s1
                | OutcomeSubOptimal \<Rightarrow>
                    s1\<lparr>ts_Beta := ts_Beta s1 + 1 / 2, ts_ConsecutiveFailures := ts_ConsecutiveFailures s1 + 1\<rparr>
                | OutcomeQuality \<Rightarrow>
                    s1\<lparr>ts_Beta := ts_Beta s1 + 1, ts_ConsecutiveFailures := ts_ConsecutiveFailures s1 + 1\<rparr>
                | OutcomeOperatorOverride \<Rightarrow>
                    s1\<lparr>ts_Beta := ts_Beta s1 + 5, ts_ConsecutiveFailures := ts_ConsecutiveFailures s1 + 1\<rparr>
                | OutcomeOther _ \<Rightarrow> s1)
      in if ts_ConsecutiveFailures s2 \<ge> consecutiveFailureLimit then s2\<lparr>ts_CurrentTier := TierL0\<rparr>
         else s2\<lparr>ts_CurrentTier := TierFor s2 now\<rparr>)"

definition BayesianUpdate :: "bool \<Rightarrow> time \<Rightarrow> TrustScore \<Rightarrow> TrustScore" where
  "BayesianUpdate success now s =
     (let s1 = (if success then s\<lparr>ts_Alpha := ts_Alpha s + 1\<rparr> else s\<lparr>ts_Beta := ts_Beta s + 1\<rparr>)
      in s1\<lparr>ts_TotalExecutions := ts_TotalExecutions s1 + 1, ts_LastUpdate := now\<rparr>)"

section \<open>Suggested actions\<close>

datatype AuditSeverity =
    SeverityEmpty | SeverityPass | SeverityPassWithWarnings | SeverityFailRecoverable | SeverityFailFatal

datatype SuggestedAction = ActionAutoApprove | ActionPromptOperator | ActionReject

definition l1SpotCheckRate :: real where "l1SpotCheckRate = 20 / 100"

text \<open>\<open>r\<close> is what the random source returns.\<close>

definition suggestActionWithRand :: "Tier \<Rightarrow> AuditSeverity \<Rightarrow> real \<Rightarrow> SuggestedAction" where
  "suggestActionWithRand tier severity r =
     (if severity = SeverityEmpty then ActionPromptOperator
      else case tier of
        TierL3 \<Rightarrow> (case severity of
            SeverityFailFatal \<Rightarrow> ActionReject
          | SeverityFailRecoverable \<Rightarrow> ActionPromptOperator
          | _ \<Rightarrow> ActionAutoApprove)
      | TierL2 \<Rightarrow> (if severity \<noteq> SeverityPass then ActionPromptOperator else ActionAutoApprove)
      | TierL1 \<Rightarrow> (if r < l1SpotCheckRate then ActionPromptOperator else ActionAutoApprove)
      | _ \<Rightarrow> ActionPromptOperator)"

section \<open>Pattern and scope of a task\<close>

record backendPattern =
  bp_keyword :: string
  bp_backend :: string
  bp_tool :: string

definition eligibilityPatterns :: "backendPattern list" where
  "eligibilityPatterns =
     [\<lparr>bp_keyword = ''certify'', bp_backend = ''claude'', bp_tool = ''''\<rparr>,
      \<lparr>bp_keyword = ''audit'', bp_backend = ''claude'', bp_tool = ''''\<rparr>,
      \<lparr>bp_keyword = ''architecture'', bp_backend = ''claude'', bp_tool = ''''\<rparr>,
      \<lparr>bp_keyword = ''design'', bp_backend = ''claude'', bp_tool = ''''\<rparr>,
      \<lparr>bp_keyword = ''blast_radius'', bp_backend = ''claude'', bp_tool = ''''\<rparr>,
      \<lparr>bp_keyword = ''review'', bp_backend = ''claude'', bp_tool = ''''\<rparr>,
      \<lparr>bp_keyword = ''boilerplate'', bp_backend = ''deepseek'', bp_tool = ''generate_boilerplate''\<rparr>,
      \<lparr>bp_keyword = ''distill'', bp_backend = ''deepseek'', bp_tool = ''distill_payload''\<rparr>,
      \<lparr>bp_keyword = ''summarize'', bp_backend = ''deepseek'', bp_tool = ''distill_payload''\<rparr>,
      \<lparr>bp_keyword = ''document'', bp_backend = ''deepseek'', bp_tool = ''distill_payload''\<rparr>,
      \<lparr>bp_keyword = ''refactor'', bp_backend = ''deepseek'', bp_tool = ''map_reduce_refactor''\<rparr>,
      \<lparr>bp_keyword = ''rename'', bp_backend = ''deepseek'', bp_tool = ''map_reduce_refactor''\<rparr>,
      \<lparr>bp_keyword = ''migrate'', bp_backend = ''deepseek'', bp_tool = ''map_reduce_refactor''\<rparr>]"

definition unknownToken :: string where "unknownToken = ''unknown''"

text \<open>\<open>to_lower\<close> is \<^verbatim>\<open>strings.ToLower\<close> on ASCII text.\<close>

definition extractTrustPattern :: "string \<Rightarrow> string" where
  "extractTrustPattern description =
     (if description = '''' then unknownToken
      else case List.find (\<lambda>p. str_contains (to_lower description) (bp_keyword p)) eligibilityPatterns of
        Some p \<Rightarrow> bp_keyword p
      | None \<Rightarrow> unknownToken)"

text \<open>\<^verbatim>\<open>filepath.Ext\<close>: the suffix from the last dot of the last path element.\<close>

definition path_base :: "string \<Rightarrow> string" where
  "path_base path = last (split_char (CHR ''/'') path)"

definition path_ext :: "string \<Rightarrow> string" where
  "path_ext path =
     (let b = path_base path
      in if CHR ''.'' \<notin> set b then '''' else CHR ''.'' # last (split_char (CHR ''.'') b))"

text \<open>\<^verbatim>\<open>filepath.Clean\<close>: the elements of a path resolved on a stack (newest first).\<close>

fun clean_step :: "bool \<Rightarrow> string \<Rightarrow> string list \<Rightarrow> string list" where
  "clean_step rooted el stack =
     (if el = '''' \<or> el = ''.'' then stack
      else if el = ''..'' then
        (case stack of
           [] \<Rightarrow> (if rooted then [] else [''..''])
         | el' # rest \<Rightarrow> if el' = ''..'' then ''..'' # stack else rest)
      else el # stack)"

definition path_clean :: "string \<Rightarrow> string" where
  "path_clean path =
     (if path = '''' then ''.''
      else (let rooted = (hd path = CHR ''/'');
                els = rev (fold (clean_step rooted) (split_char (CHR ''/'') path) []);
                body = str_join ''/'' els
            in if rooted then CHR ''/'' # body else if body = '''' then ''.'' else body))"

text \<open>\<^verbatim>\<open>filepath.Dir\<close>: everything up to the last slash, cleaned.\<close>

definition path_dir :: "string \<Rightarrow> string" where
  "path_dir path =
     path_clean (concat (List.map (\<lambda>el. el @ ''/'') (butlast (split_char (CHR ''/'') path))))"

definition trimDirToLast2 :: "string \<Rightarrow> string" where
  "trimDirToLast2 dir =
     (let parts = split_char (CHR ''/'') dir;
          parts' = (if length parts > 2 then drop (length parts - 2) parts else parts)
      in str_join ''/'' parts')"

text \<open>\<^verbatim>\<open>strings.FieldsSeq\<close> and \<^verbatim>\<open>strings.Trim\<close> on ASCII text.\<close>

definition ascii_space :: "char \<Rightarrow> bool" where
  "ascii_space c \<longleftrightarrow> c \<in> {CHR '' '', CHR 0x09, CHR 0x0A, CHR 0x0B, CHR 0x0C, CHR 0x0D}"

fun fields_go :: "string \<Rightarrow> string \<Rightarrow> string list" where
  "fields_go [] w = (if w = [] then [] else [w])"
| "fields_go (c # cs) w =
     (if ascii_space c then (if w = [] then fields_go cs [] else w # fields_go cs [])
      else fields_go cs (w @ [c]))"

definition str_fields :: "string \<Rightarrow> string list" where
  "str_fields s = fields_go s []"

definition str_trim :: "string \<Rightarrow> string \<Rightarrow> string" where
  "str_trim s cutset = rev (dropWhile (\<lambda>c. c \<in> set cutset) (rev (dropWhile (\<lambda>c. c \<in> set cutset) s)))"

definition path_punct :: string where
  "path_punct = ''.,;:!?'' @ [CHR 0x22, CHR 0x27] @ ''()[]{}''"

definition extractPathFromText :: "string \<Rightarrow> string" where
  "extractPathFromText text =
     (case List.find (\<lambda>w. CHR ''/'' \<in> set w \<and> path_ext w \<noteq> '''')
             (List.map (\<lambda>f. str_trim f path_punct) (str_fields text)) of
        Some w \<Rightarrow> w
      | None \<Rightarrow> '''')"

definition extractTrustScope :: "string \<Rightarrow> string \<Rightarrow> string" where
  "extractTrustScope targetFile description =
     (let path = (if targetFile = '''' then extractPathFromText description else targetFile)
      in if path = '''' then unknownToken @ '':'' @ unknownToken
         else (let ext = (if path_ext path = '''' then ''noext'' else path_ext path);
                   dir = path_dir path;
                   dir' = (if dir = ''.'' \<or> dir = ''/'' \<or> dir = '''' then ''root'' else trimDirToLast2 dir)
               in ext @ '':'' @ dir'))"

definition ResolvePatternScope :: "SRETask \<Rightarrow> string \<times> string" where
  "ResolvePatternScope task =
     (extractTrustPattern (t_Description task), extractTrustScope (t_TargetFile task) (t_Description task))"

section \<open>The store\<close>

definition errTrustOffline :: error where
  "errTrustOffline = Err ''trust store offline (plannerDB nil)''"

definition zero_score :: TrustScore where
  "zero_score = \<lparr>ts_Pattern = '''', ts_Scope = '''', ts_Alpha = 0, ts_Beta = 0, ts_LastUpdate = 0,
     ts_TotalExecutions = 0, ts_CurrentTier = TierOther '''', ts_ConsecutiveFailures = 0, ts_ManualWarmup = False\<rparr>"

definition TrustGet ::
    "('b, doc) bolt \<Rightarrow> time \<Rightarrow> string \<Rightarrow> string \<Rightarrow> 'b planner \<Rightarrow> TrustScore \<times> error option" where
  "TrustGet B now pattern scope s =
     (if \<not> p_online s then (NewTrustScore now pattern scope, Some errTrustOffline)
      else case p_buckets s daemonTrustBucket of
        None \<Rightarrow> (NewTrustScore now pattern scope, None)
      | Some b \<Rightarrow>
          (case bk_get B b (pattern @ '':'' @ scope) of
             None \<Rightarrow> (NewTrustScore now pattern scope, None)
           | Some v \<Rightarrow>
               (case un_trust v of None \<Rightarrow> (zero_score, Some JsonError) | Some t \<Rightarrow> (t, None))))"

definition TrustUpdate ::
    "('b, doc) bolt \<Rightarrow> time \<Rightarrow> string \<Rightarrow> string \<Rightarrow> (TrustScore \<Rightarrow> TrustScore) \<Rightarrow> 'b planner \<Rightarrow> error option \<times> 'b planner" where
  "TrustUpdate B now pattern scope fn s =
     (if \<not> p_online s then (Some errTrustOffline, s)
      else snd (planner_update B
        (\<lambda>bs. let bs1 = create_if_missing B daemonTrustBucket bs;
                  b = the (bs1 daemonTrustBucket);
                  key = pattern @ '':'' @ scope
              in ((), case (case bk_get B b key of
                              Some v \<Rightarrow> (case un_trust v of None \<Rightarrow> Inl JsonError | Some t \<Rightarrow> Inr t)
                            | None \<Rightarrow> Inr (NewTrustScore now pattern scope)) of
                        Inl e \<Rightarrow> Inl e
                      | Inr t \<Rightarrow> map_sum id (\<lambda>b'. bs1(daemonTrustBucket \<mapsto> b')) (bk_put B b key (TrustDoc (fn t))))) s))"

text \<open>\<open>now0\<close> is the clock of a fresh prior, \<open>now\<close> the clock of the outcome.\<close>

definition TrustRecord ::
    "('b, doc) bolt \<Rightarrow> time \<Rightarrow> time \<Rightarrow> string \<Rightarrow> string \<Rightarrow> FailureCategory \<Rightarrow> 'b planner \<Rightarrow> error option \<times> 'b planner" where
  "TrustRecord B now0 now pattern scope category s = TrustUpdate B now0 pattern scope (RecordOutcome category now) s"

definition warm_score :: "real \<Rightarrow> real \<Rightarrow> time \<Rightarrow> TrustScore \<Rightarrow> TrustScore" where
  "warm_score alpha beta now s =
     (let s1 = s\<lparr>ts_Alpha := alpha, ts_Beta := beta, ts_LastUpdate := now, ts_ManualWarmup := True,
               ts_TotalExecutions := max (\<lfloor>alpha + beta\<rfloor> - 2) 0, ts_ConsecutiveFailures := 0\<rparr>
      in s1\<lparr>ts_CurrentTier := TierFor s1 now\<rparr>)"

definition warmup_msg :: string where
  "warmup_msg = ''trust warmup: '' @ [CHR 0xCE, CHR 0xB1] @ '' and '' @ [CHR 0xCE, CHR 0xB2] @ '' must be '' @
     [CHR 0xE2, CHR 0x89, CHR 0xA5] @ '' 1 (uniform prior floor)''"

definition TrustWarmup ::
    "('b, doc) bolt \<Rightarrow> time \<Rightarrow> time \<Rightarrow> string \<Rightarrow> string \<Rightarrow> real \<Rightarrow> real \<Rightarrow> 'b planner \<Rightarrow> error option \<times> 'b planner" where
  "TrustWarmup B now0 now pattern scope alpha beta s =
     (if alpha < 1 \<or> beta < 1
      then (Some (Err warmup_msg), s)
      else TrustUpdate B now0 pattern scope (warm_score alpha beta now) s)"

fun list_scores :: "(string \<times> doc) list \<Rightarrow> TrustScore list \<Rightarrow> int \<Rightarrow> TrustScore list \<times> int" where
  "list_scores [] scores skipped = (scores, skipped)"
| "list_scores ((k, v) # xs) scores skipped =
     (case un_trust v of
        None \<Rightarrow> list_scores xs scores (skipped + 1)
      | Some t \<Rightarrow> list_scores xs (scores @ [t]) skipped)"

definition ListTrustScores :: "('b, doc) bolt \<Rightarrow> 'b planner \<Rightarrow> TrustScore list \<times> int \<times> error option" where
  "ListTrustScores B s =
     (if \<not> p_online s then ([], 0, None)
      else case p_buckets s daemonTrustBucket of
        None \<Rightarrow> ([], 0, None)
      | Some b \<Rightarrow> (case list_scores (bk_items B b) [] 0 of (scores, skipped) \<Rightarrow> (scores, skipped, None)))"

end
