(* ===== verification/State_Lifecycle.thy ===== *)
theory State_Lifecycle
  imports State_Queue State_Trust
begin

text \<open>
  Everything that writes to the bucket of tasks: the queue operations of \<^verbatim>\<open>pkg/state/planner.go\<close>,
  the migration at start-up of \<^verbatim>\<open>pkg/state/daemon_migration.go\<close>, and snapshots of the queue, taken and
  restored by \<^verbatim>\<open>pkg/sre/snapshot.go\<close>. The lifecycle is a step relation over the planner and the
  snapshots taken so far.
\<close>

section \<open>Migration of old tasks\<close>

definition legacyMigrationPattern :: string where "legacyMigrationPattern = ''unknown''"
definition legacyMigrationScope :: string where "legacyMigrationScope = ''unknown:unknown''"

definition migrate_step :: "int \<Rightarrow> SRETask \<Rightarrow> SRETask option" where
  "migrate_step now t =
     (if t_MigratedAt t > 0 then None
      else if t_LifecycleState t = TaskLifecycleCompleted \<or> t_LifecycleState t = TaskLifecycleFailedPermanent then None
      else Some (t\<lparr>t_MigratedAt := now\<rparr>))"

text \<open>
  The sweep puts into the bucket it iterates over; each key is put once with a change of the value
  read. The result is the number of tasks stamped, and the error of the sweep; that of the trust
  entry is only logged.
\<close>

definition MigrateLegacyTasks :: "('b, doc) bolt \<Rightarrow> int \<Rightarrow> time \<Rightarrow> 'b planner \<Rightarrow> nat \<times> error option \<times> 'b planner" where
  "MigrateLegacyTasks B now now1 s =
     (if \<not> p_online s then (0, Some (Err ''plannerDB offline''), s)
      else case planner_update B (scan_tx B (migrate_step now)) s of
        (done, Some e, s1) \<Rightarrow> (length done, Some e, s1)
      | (done, None, s1) \<Rightarrow>
          (length done, None, snd (TrustUpdate B now1 legacyMigrationPattern legacyMigrationScope (\<lambda>t. t) s1)))"

section \<open>The lifecycle\<close>

inductive queue_reach :: "('b, doc) bolt \<Rightarrow> int \<Rightarrow> 'b planner \<Rightarrow> 'b planner \<Rightarrow> SRETask list list \<Rightarrow> bool" for B M s where
  refl: "queue_reach B M s s []"
| op: "queue_reach B M s s' snaps \<Longrightarrow> queue_step B M s' s'' \<Longrightarrow> queue_reach B M s s'' snaps"
| migrate: "queue_reach B M s s' snaps \<Longrightarrow> MigrateLegacyTasks B now now1 s' = (n, e, s'') \<Longrightarrow> queue_reach B M s s'' snaps"
| snapshot: "queue_reach B M s s' snaps \<Longrightarrow> queue_reach B M s s' (GetAllTasks B s' # snaps)"
| restore: "queue_reach B M s s' snaps \<Longrightarrow> ts \<in> set snaps \<Longrightarrow> RestoreTasks B ts s' = (e, s'') \<Longrightarrow> queue_reach B M s s'' snaps"

lemma task_wf_migrate: "task_wf M k t \<Longrightarrow> migrate_step now t = Some t' \<Longrightarrow> task_wf M k t'"
  by (auto simp: task_wf_def migrate_step_def split: if_splits)

definition snaps_wf :: "int \<Rightarrow> SRETask list list \<Rightarrow> bool" where
  "snaps_wf M snaps \<longleftrightarrow> (\<forall>ts\<in>set snaps. \<forall>t\<in>set ts. task_wf M (t_ID t) t)"

context doc_bucket
begin

lemma trust_keeps_tasks:
  assumes "TrustUpdate B now pat scope f s = (e, s')"
  shows "task_items B s' = task_items B s"
proof -
  have ne: "daemonTrustBucket \<noteq> taskBucket" by (simp add: daemonTrustBucket_def taskBucket_def)
  show ?thesis
  proof (cases e)
    case (Some x)
    then have "s' = s" using assms by (auto simp: TrustUpdate_def dest!: update_error_snd split: if_splits)
    then show ?thesis by simp
  next
    case None
    then show ?thesis
      using assms ne
      by (auto simp: TrustUpdate_def planner_update_def db_update_def Let_def task_items_def create_if_missing_def map_sum_def
          split: if_splits sum.splits option.splits prod.splits)
  qed
qed

lemma migrate_wf:
  assumes "MigrateLegacyTasks B now now1 s = (n, e, s')" "queue_all B (task_wf M) s"
  shows "queue_all B (task_wf M) s'"
proof (cases "p_online s")
  case False
  then show ?thesis using assms by (simp add: MigrateLegacyTasks_def)
next
  case True
  obtain acted er s1 where u: "planner_update B (scan_tx B (migrate_step now)) s = (acted, er, s1)"
    by (metis prod_cases3)
  have wf: "queue_all B (task_wf M) s1"
    by (rule queue_all_scan_tx [OF u assms(2)]) (rule task_wf_migrate)
  show ?thesis
  proof (cases er)
    case (Some x)
    then show ?thesis using assms(1) u wf True by (simp add: MigrateLegacyTasks_def)
  next
    case None
    then obtain e' where "TrustUpdate B now1 legacyMigrationPattern legacyMigrationScope (\<lambda>t. t) s1 = (e', s')"
      using assms(1) u True by (cases "TrustUpdate B now1 legacyMigrationPattern legacyMigrationScope (\<lambda>t. t) s1")
        (simp add: MigrateLegacyTasks_def)
    from trust_keeps_tasks [OF this] show ?thesis using wf by (simp add: queue_all_def)
  qed
qed

lemma restore_wf:
  assumes "RestoreTasks B ts s = (e, s')" "queue_all B (task_wf M) s" "\<forall>t\<in>set ts. task_wf M (t_ID t) t"
  shows "queue_all B (task_wf M) s'"
proof (cases "p_online s")
  case False
  then show ?thesis using assms by (simp add: RestoreTasks_def)
next
  case True
  let ?put = "put_each B (\<lambda>k e. Wrap (''fallo escribiendo tarea restaurada '' @ k) e) (List.map (\<lambda>t. (t_ID t, TaskDoc t)) ts)"
  let ?f = "\<lambda>bs. case bs taskBucket of
           None \<Rightarrow> ((), Inr bs)
         | Some b \<Rightarrow>
             (case bk_purge B b of
                (_, Some e) \<Rightarrow> ((), Inl (Wrap ''fallo purgando tabla de tareas para Snapshot'' e))
              | (b', None) \<Rightarrow> ((), map_sum id (\<lambda>b''. bs(taskBucket \<mapsto> b'')) (?put b')))"
  have "planner_update B ?f s = ((), e, s')"
    using assms(1) True by (cases "planner_update B ?f s") (simp add: RestoreTasks_def)
  then show ?thesis
  proof (cases rule: planner_update_cases)
    case err
    then show ?thesis using assms(2) by simp
  next
    case (ok bs)
    show ?thesis
    proof (cases "p_buckets s taskBucket")
      case None
      then show ?thesis using ok assms(2) by (simp add: queue_all_def task_items_def)
    next
      case (Some b)
      then obtain b1 b2 where b: "bk_purge B b = (b1, None)" "?put b1 = Inr b2" "bs = (p_buckets s)(taskBucket \<mapsto> b2)"
        using ok(1) by (auto simp: map_sum_def split: prod.splits option.splits sum.splits)
      have m: "map_of (bk_items B b2) = map_of (bk_items B b1) ++ map_of (rev (List.map (\<lambda>t. (t_ID t, TaskDoc t)) ts))"
        by (rule put_each_map [OF b(2)])
      have "task_wf M k t" if "map_of (bk_items B b2) k = Some (TaskDoc t)" for k t
      proof -
        from that m consider "map_of (rev (List.map (\<lambda>t. (t_ID t, TaskDoc t)) ts)) k = Some (TaskDoc t)"
          | "map_of (bk_items B b1) k = Some (TaskDoc t)"
          by (auto simp: map_add_def split: option.splits)
        then show ?thesis
        proof cases
          case 1
          then have "t \<in> set ts" "k = t_ID t" by (auto dest!: map_of_SomeD)
          then show ?thesis using assms(3) by simp
        next
          case 2
          then have "map_of (bk_items B b) k = Some (TaskDoc t)" using purge_shrinks [of b k "TaskDoc t"] b(1) by simp
          then show ?thesis using assms(2) Some by (simp add: queue_all_def task_items_def)
        qed
      qed
      then show ?thesis using ok b(3) by (simp add: queue_all_def task_items_def)
    qed
  qed
qed

lemma all_tasks_wf:
  assumes "queue_all B (task_wf M) s" "t \<in> set (GetAllTasks B s)"
  shows "task_wf M (t_ID t) t"
proof (cases "p_online s")
  case True
  then obtain k where "map_of (task_items B s) k = Some (TaskDoc t)" using assms(2) all_tasks_mem by blast
  then have "task_wf M k t" using assms(1) by (simp add: queue_all_def)
  moreover from this have "t_ID t = k" by (simp add: task_wf_def)
  ultimately show ?thesis by simp
qed (use assms(2) in \<open>simp add: GetAllTasks_def\<close>)

lemma queue_reach_wf:
  "queue_reach B M s s' snaps \<Longrightarrow> queue_all B (task_wf M) s \<Longrightarrow> queue_all B (task_wf M) s' \<and> snaps_wf M snaps"
proof (induction rule: queue_reach.induct)
  case (restore s' snaps ts e s'')
  then show ?case using restore_wf [OF restore.hyps(3), of M] by (auto simp: snaps_wf_def)
qed (auto simp: snaps_wf_def intro: queue_step_wf migrate_wf all_tasks_wf)

end

end
