(* ===== verification/State_QueueProps.thy ===== *)
theory State_QueueProps
  imports State_Lifecycle
begin

text \<open>The properties of the task queue of \<^verbatim>\<open>planner.go\<close>, each with a run on the ordered-list store.\<close>

section \<open>A concrete planner\<close>

definition blank_planner :: "'b planner" where
  "blank_planner = \<lparr>p_online = False, p_buckets = Map.empty, p_workspace = '''', p_tenant = '''',
     p_hook = True, p_closed = 0, p_plan = None\<rparr>"

definition list_planner :: "(string \<times> doc) list planner" where
  "list_planner = snd (InitPlanner list_bolt None (Inr Map.empty) ''/w'' blank_planner)"

definition demo_task :: "string \<Rightarrow> SRETask" where
  "demo_task desc = \<lparr>t_ID = '''', t_Description = desc, t_TargetFile = '''', t_Status = '''', t_Role = '''',
     t_LifecycleState = '''', t_CreatedAt = 0, t_UpdatedAt = 0, t_StartedAt = 0, t_Retries = 0, t_LastError = '''',
     t_CheckpointData = '''', t_Backend = '''', t_MigratedAt = 0\<rparr>"

lemma list_planner_simps [simp]:
  "p_online list_planner" "p_hook list_planner" "p_buckets list_planner taskBucket = Some []"
  "p_closed list_planner = 0"
  by (simp_all add: list_planner_def InitPlanner_def db_update_def list_bolt_def blank_planner_def
      create_if_missing_def bucket_defs)

lemma list_planner_empty: "task_items list_bolt list_planner = []"
  by (simp add: task_items_def) (simp add: list_bolt_def)

lemma list_planner_plan: "p_plan list_planner = None"
  by (simp add: list_planner_def InitPlanner_def db_update_def list_bolt_def blank_planner_def)

lemma sync_no_plan: "p_plan s = None \<Longrightarrow> syncMasterPlanFile d s = s"
  by (simp add: syncMasterPlanFile_def)

text \<open>A queue of one task.\<close>

definition queue_of :: "SRETask \<Rightarrow> (string \<times> doc) list planner" where
  "queue_of t = list_planner\<lparr>p_buckets := [taskBucket \<mapsto> [(''TASK-001'', TaskDoc t)]]\<rparr>"

definition open_task :: SRETask where
  "open_task = (demo_task ''write parser'')\<lparr>t_ID := ''TASK-001'', t_Status := ''TODO'',
     t_LifecycleState := TaskLifecyclePending\<rparr>"

definition stale_task :: SRETask where
  "stale_task = (demo_task ''write parser'')\<lparr>t_ID := ''TASK-001'', t_Status := ''TODO'',
     t_LifecycleState := TaskLifecycleInProgress, t_UpdatedAt := 100\<rparr>"

definition recovered_task :: SRETask where
  "recovered_task = the (recover_step 3 10 8400 9001 stale_task)"

section \<open>Operations as data\<close>

datatype queue_op =
    QEnqueue int "SRETask list"
  | QRestore "SRETask list"
  | QClaim int string
  | QSeal int
  | QComplete int string
  | QRequeue int string string int bool
  | QFail int string string
  | QOrphan int int int
  | QRecover int int int int

fun run_op :: "('b, doc) bolt \<Rightarrow> queue_op \<Rightarrow> 'b planner \<Rightarrow> (error option \<times> 'b planner) outcome" where
  "run_op B (QEnqueue now ts) s = Ret (EnqueueTasks B now ts s)"
| "run_op B (QRestore ts) s = Ret (RestoreTasks B ts s)"
| "run_op B (QClaim now tid) s = Ret (MarkTaskInProgress B now tid s)"
| "run_op B (QSeal now) s =
     (case MarkTaskDone B now s of Panic \<Rightarrow> Panic | Ret ((n, e), s') \<Rightarrow> Ret (e, s'))"
| "run_op B (QComplete now tid) s = Ret (MarkTaskCompleted B now tid s)"
| "run_op B (QRequeue now tid why m skip) s = Ret (snd (RequeueTaskOrFail B now tid why m skip s))"
| "run_op B (QFail now tid why) s = Ret (MarkTaskFailedPermanent B now tid why s)"
| "run_op B (QOrphan now0 now w) s = Ret (snd (MarkTasksOrphaned B now0 now w s))"
| "run_op B (QRecover now0 now m w) s = Ret (snd (RecoverOrphanedTasks B now0 now m w s))"

lemma mark_done_error:
  assumes "MarkTaskDone B now s = Ret ((n, Some e), s')"
  shows "s' = s"
proof -
  from assms obtain d s1 where m: "markTaskDoneInDB B now s = Ret ((n, d, Some e), s1)" "s' = s1"
    by (auto simp: MarkTaskDone_def Let_def split: outcome.splits prod.splits)
  then show ?thesis
    by (auto simp: markTaskDoneInDB_def dest!: planner_update_error split: if_splits prod.splits)
qed

lemma enqueue_succeeds:
  assumes "doc_store B fits" "p_online s" "length ts < 1000"
    "\<forall>t \<in> set (enqueued now 0 ts). fits (TaskDoc t)"
  shows "\<exists>s'. EnqueueTasks B now ts s = (None, s') \<and> GetAllTasks B s' = enqueued now 0 ts \<and>
    GetNextTask B s' = Ret (case ts of [] \<Rightarrow> None | t # _ \<Rightarrow> Some (enqueue_task now 0 t)) \<and>
    GetPlannerState B s' = (int (length ts), 0)"
proof -
  note st = doc_store.axioms(1) [OF assms(1)]
  note wr = bolt_purging.axioms(1) [OF st]
  have bucket: "doc_bucket B" using wr by (simp add: doc_bucket_def bolt_writable.axioms(1))
  let ?ts = "enqueued now 0 ts"
  have "\<forall>(k, v) \<in> set (task_kvs ?ts). k \<noteq> '''' \<and> length k \<le> 32768 \<and> fits v"
  proof (clarsimp, intro conjI)
    fix t assume t: "t \<in> set ?ts"
    obtain j where j: "j < length ts" "t_ID t = ''TASK-'' @ pad_dec 3 (j + 1)"
      using enqueued_ids [OF t] by auto
    then show "t_ID t \<noteq> ''''" "length (t_ID t) \<le> 32768" "fits (TaskDoc t)"
      using assms(3,4) t by (simp_all add: pad_dec_3)
  qed
  from bolt_writable.put_each_ok [OF wr this] obtain b
    where b: "enqueue_loop B now 0 ts (bk_empty B) = Inr b"
    by (auto simp: enqueue_loop_put_each)
  obtain s' where s': "EnqueueTasks B now ts s = (None, s')"
    using assms(2) b bolt_writable.commit_ok [OF wr]
    by (simp add: EnqueueTasks_def planner_update_def db_update_def Let_def)
  have it: "p_online s'" "task_items B s' = task_kvs ?ts"
    using doc_bucket.enqueue_ok [OF bucket s' assms(3)] by blast+
  have all: "GetAllTasks B s' = ?ts" using all_tasks_items [OF it(1), of B] it(2) by simp
  have "\<exists>b. p_buckets s' taskBucket = Some b"
    using s' assms(2) by (auto simp: EnqueueTasks_def planner_update_def db_update_def Let_def map_sum_def
        split: sum.splits option.splits)
  then have next_: "GetNextTask B s' = Ret (List.find (\<lambda>t. t_Status t = ''TODO'' \<and>
      t_LifecycleState t \<noteq> TaskLifecycleFailedPermanent) ?ts)"
    using it(1) all by (auto simp: GetNextTask_def next_scan_find GetAllTasks_def)
  have "todo ?ts = ?ts" "filter (\<lambda>t. t_Status t = ''DONE'') ?ts = []"
    using enqueued_fresh by (force simp: filter_id_conv filter_empty_conv)+
  then have "GetPlannerState B s' = (int (length ts), 0)"
    using planner_state_counts [OF it(1), of B] all by simp
  moreover have "GetNextTask B s' = Ret (case ts of [] \<Rightarrow> None | t # _ \<Rightarrow> Some (enqueue_task now 0 t))"
    using next_ by (cases ts) (auto simp: enqueue_task_def)
  ultimately show ?thesis using s' all by blast
qed

section \<open>Properties\<close>

text \<open>
  C7: every queue operation is atomic: if it returns an error, whatever the store did (a
  refused write in the middle of a batch, a failed commit, an undecodable record), the
  database, the master plan and the epic counter are as before the call.
\<close>

theorem queue_errors_roll_back:
  assumes "run_op B op s = Ret (Some e, s')"
  shows "s' = s"
  using assms
  by (cases op)
    (auto simp: EnqueueTasks_def RestoreTasks_def MarkTaskInProgress_def MarkTaskCompleted_def
      RequeueTaskOrFail_def MarkTaskFailedPermanent_def MarkTasksOrphaned_def RecoverOrphanedTasks_def
      dest: update_error_snd mark_done_error split: if_splits outcome.splits prod.splits)

theorem queue_errors_roll_back_witness:
  "list_planner\<lparr>p_buckets := [taskBucket \<mapsto> [(''TASK-001'', JunkDoc ''?'')]]\<rparr> =
   list_planner\<lparr>p_buckets := [taskBucket \<mapsto> [(''TASK-001'', JunkDoc ''?'')]]\<rparr>"
  by (rule queue_errors_roll_back [of list_bolt "QClaim 5 ''TASK-001''" _ JsonError])
    (simp add: MarkTaskInProgress_def planner_update_def db_update_def task_tx_def list_bolt_def list_ok_def)

text \<open>
  Enqueueing up to 999 tasks succeeds on a store that takes them, replaces the queue by
  exactly these tasks in the given order, all pending, with ids TASK-001, TASK-002, ...; the
  next task is the first one.
\<close>

theorem enqueue_order:
  assumes "doc_store B fits" "p_online s" "length ts < 1000"
    "\<forall>t \<in> set (enqueued now 0 ts). fits (TaskDoc t)"
  shows "\<exists>s'. EnqueueTasks B now ts s = (None, s') \<and> GetAllTasks B s' = enqueued now 0 ts \<and>
    GetNextTask B s' = Ret (case ts of [] \<Rightarrow> None | t # _ \<Rightarrow> Some (enqueue_task now 0 t)) \<and>
    GetPlannerState B s' = (int (length ts), 0)"
  by (rule enqueue_succeeds [OF assms])

theorem enqueue_order_witness:
  "\<exists>s'. EnqueueTasks list_bolt 7 [demo_task ''a'', demo_task ''b''] list_planner = (None, s') \<and>
    GetAllTasks list_bolt s' = enqueued 7 0 [demo_task ''a'', demo_task ''b''] \<and>
    GetNextTask list_bolt s' = Ret (case [demo_task ''a'', demo_task ''b''] of [] \<Rightarrow> None
      | t # _ \<Rightarrow> Some (enqueue_task 7 0 t)) \<and>
    GetPlannerState list_bolt s' = (int (length [demo_task ''a'', demo_task ''b'']), 0)"
  by (rule enqueue_order [OF ldoc.doc_store_axioms]) simp_all

text \<open>
  \<^verbatim>\<open>GetNextTask\<close> is \<^verbatim>\<open>GetNextTaskByRole\<close> for the empty role, and the latter returns the first
  task in key order that is \<^verbatim>\<open>TODO\<close>, not permanently failed, and of that role or unassigned.
\<close>

theorem next_task_by_role:
  "GetNextTask B s = GetNextTaskByRole B '''' s \<and>
   (case GetNextTaskByRole B role s of
      Panic \<Rightarrow> p_online s = False \<or> p_buckets s taskBucket = None
    | Ret r \<Rightarrow> r = List.find (\<lambda>t. t_Status t = ''TODO'' \<and> t_LifecycleState t \<noteq> TaskLifecycleFailedPermanent \<and>
        (role = '''' \<or> t_Role t = role \<or> t_Role t = '''')) (GetAllTasks B s))"
  by (auto simp: GetNextTask_def GetNextTaskByRole_def GetAllTasks_def next_scan_find split: option.splits)

text \<open>
  A successful \<^verbatim>\<open>MarkTaskDone\<close> seals exactly the first open task and its result is exact:
  the pending count drops by one, the completed count rises by one, the result is the number
  still pending; with nothing pending it returns 0 and counts stay.  The epic hook fires
  exactly when the result is 0.
\<close>

theorem mark_task_done_counts:
  assumes "doc_bucket B" "MarkTaskDone B now s = Ret ((remaining, None), s')"
    "GetPlannerState B s = (pending, completed)"
  shows "GetPlannerState B s' = (if pending = 0 then (0, completed) else (pending - 1, completed + 1)) \<and>
    remaining = fst (GetPlannerState B s') \<and>
    p_closed s' = p_closed s + (if remaining = 0 \<and> p_hook s then 1 else 0)"
proof -
  note c = doc_bucket.mark_task_done_cases [OF assms(1,2)]
  then have on: "p_online s" "p_online s'" by blast+
  have s: "pending = int (length (todo (decode un_task (task_items B s))))"
    "completed = int (length (filter (\<lambda>t. t_Status t = ''DONE'') (decode un_task (task_items B s))))"
    using assms(3) planner_state_counts [OF on(1), of B] all_tasks_items [OF on(1), of B] by simp_all
  have s': "GetPlannerState B s' = (int (length (todo (decode un_task (task_items B s')))),
      int (length (filter (\<lambda>t. t_Status t = ''DONE'') (decode un_task (task_items B s')))))"
    using planner_state_counts [OF on(2), of B] all_tasks_items [OF on(2), of B] by simp
  from c consider (idle) "remaining = 0" "todo (GetAllTasks B s) = []" "task_items B s' = task_items B s"
    | (one) pre k t post where "task_items B s = pre @ (k, TaskDoc t) # post"
        "todo (decode un_task pre) = []" "t_Status t = ''TODO''"
        "remaining = int (length (todo (decode un_task post)))"
        "task_items B s' = pre @ (k, TaskDoc (mark_done now t)) # post" by blast
  then show ?thesis
  proof cases
    case idle
    then show ?thesis using c s s' all_tasks_items [OF on(1), of B] by simp
  next
    case one
    then show ?thesis using c s s' by (simp add: mark_done_def)
  qed
qed

theorem mark_task_done_counts_witness:
  "GetPlannerState list_bolt (queue_of (mark_done 9 open_task)\<lparr>p_closed := 1\<rparr>) =
      (if (1::int) = 0 then (0, 0) else (1 - 1, 0 + 1)) \<and>
    0 = fst (GetPlannerState list_bolt (queue_of (mark_done 9 open_task)\<lparr>p_closed := 1\<rparr>)) \<and>
    p_closed (queue_of (mark_done 9 open_task)\<lparr>p_closed := 1\<rparr>) =
      p_closed (queue_of open_task) + (if (0::int) = 0 \<and> p_hook (queue_of open_task) then 1 else 0)"
proof (rule mark_task_done_counts [OF ldoc.doc_bucket_axioms])
  show "MarkTaskDone list_bolt 9 (queue_of open_task) = Ret ((0, None), queue_of (mark_done 9 open_task)\<lparr>p_closed := 1\<rparr>)"
    by (simp add: MarkTaskDone_def markTaskDoneInDB_def planner_update_def db_update_def Let_def
        queue_of_def open_task_def demo_task_def sync_no_plan list_planner_plan)
      (simp add: list_bolt_def list_ok_def sync_no_plan list_planner_plan)
  show "GetPlannerState list_bolt (queue_of open_task) = (1, 0)"
    by (simp add: GetPlannerState_def queue_of_def open_task_def) (simp add: list_bolt_def list_ok_def)
qed

text \<open>
  C8: an epic closes exactly once: after enqueueing n > 0 tasks (n < 1000), n calls of
  \<^verbatim>\<open>MarkTaskDone\<close> all succeed and report n-1, ..., 1, 0 tasks left; then every task is done,
  \<^verbatim>\<open>IsEpicComplete\<close> holds and the epic hook has fired exactly once.
\<close>

theorem epic_drains:
  assumes "doc_store B fits" "p_online s" "p_hook s" "ts \<noteq> []" "length ts < 1000" "length nows = length ts"
    "\<forall>t \<in> set (enqueued now 0 ts). fits (TaskDoc t) \<and> (\<forall>n \<in> set nows. fits (TaskDoc (mark_done n t)))"
  shows "\<exists>s1 s2. EnqueueTasks B now ts s = (None, s1) \<and>
    seal_all B nows s1 = Ret (List.map (\<lambda>i. (int i, None)) (rev [0..<length ts]), s2) \<and>
    GetAllTasks B s2 = List.map2 mark_done nows (enqueued now 0 ts) \<and>
    IsEpicComplete B s2 \<and> p_closed s2 = p_closed s + 1"
proof -
  let ?ts = "enqueued now 0 ts"
  have bucket: "doc_bucket B"
    using assms(1) by (simp add: doc_bucket_def doc_store_def bolt_purging_def bolt_writable_def)
  obtain s1 where s1: "EnqueueTasks B now ts s = (None, s1)" "GetAllTasks B s1 = ?ts"
    using enqueue_succeeds [OF assms(1,2,5)] assms(7) by blast
  obtain bs where bs: "p_online s1" "s1 = s\<lparr>p_buckets := bs\<rparr>"
    using doc_bucket.enqueue_ok [OF bucket s1(1) assms(5)] by blast
  have td: "todo ?ts = ?ts" using enqueued_fresh by (force simp: filter_id_conv)
  obtain s2 where s2: "seal_all B nows s1 = Ret (List.map (\<lambda>i. (int i, None)) (rev [0..<length ?ts]), s2)"
      "p_online s2" "GetAllTasks B s2 = List.map2 mark_done nows ?ts"
      "p_closed s2 = p_closed s1 + (if ?ts \<noteq> [] \<and> p_hook s1 then 1 else 0)"
    using doc_store.seal_all_drains [OF assms(1) bs(1), of "[]" ?ts nows] s1(2) td assms(6,7) by auto
  have done_: "t_Status t = ''DONE''" if "t \<in> set (List.map2 mark_done nows us)" for t us
    using that by (auto simp: mark_done_def)
  have "todo (GetAllTasks B s2) = []" "filter (\<lambda>t. t_Status t = ''DONE'') (GetAllTasks B s2) = GetAllTasks B s2"
    unfolding s2(3) using done_ by (force simp: filter_empty_conv filter_id_conv)+
  moreover have "GetAllTasks B s2 \<noteq> []" using s2(3) assms(4,6) by (cases ts; cases nows) auto
  ultimately have "IsEpicComplete B s2"
    by (simp add: IsEpicComplete_def planner_state_counts [OF s2(2)])
  moreover have "?ts \<noteq> []" using assms(4) by (cases ts) auto
  ultimately show ?thesis using s1 s2 bs assms(3) by auto
qed

theorem epic_drains_witness:
  "\<exists>s1 s2. EnqueueTasks list_bolt 1 [demo_task ''a'', demo_task ''b''] list_planner = (None, s1) \<and>
    seal_all list_bolt [2, 3] s1 = Ret (List.map (\<lambda>i. (int i, None)) (rev [0..<length [demo_task ''a'', demo_task ''b'']]), s2) \<and>
    GetAllTasks list_bolt s2 = List.map2 mark_done [2, 3] (enqueued 1 0 [demo_task ''a'', demo_task ''b'']) \<and>
    IsEpicComplete list_bolt s2 \<and> p_closed s2 = p_closed list_planner + 1"
  by (rule epic_drains [OF ldoc.doc_store_axioms]) simp_all

text \<open>
  Orphan recovery settles everything: after a successful \<^verbatim>\<open>RecoverOrphanedTasks\<close> no task
  is orphaned or stale, the tasks that were not are untouched, the list returned is exactly
  the recovered tasks in key order, and running it again finds nothing to do.
\<close>

theorem recovery_settles:
  assumes "doc_bucket B" "p_online s" "RecoverOrphanedTasks B now0 now m w s = (acted, None, s')"
  shows "(\<forall>t \<in> set (GetAllTasks B s'). \<not> in_flight (now0 - w * 60) t) \<and> CountOrphanedTasks B s' = 0 \<and>
    (\<forall>t \<in> set (GetAllTasks B s). in_flight (now0 - w * 60) t \<or> t \<in> set (GetAllTasks B s')) \<and>
    acted = List.map_filter (recover_step m w (now0 - w * 60) now) (GetAllTasks B s) \<and>
    fst (RecoverOrphanedTasks B now0 later m w s') = []"
proof -
  let ?step = "recover_step m w (now0 - w * 60) now"
  note r = doc_bucket.recover_ok [OF assms(1,3,2)]
  then have on: "p_online s'" by blast
  note mem = doc_bucket.all_tasks_mem [OF assms(1)]
  have m: "map_of (task_items B s') k = (case map_of (task_items B s) k of
        Some (TaskDoc t) \<Rightarrow> Some (TaskDoc (case ?step t of None \<Rightarrow> t | Some t' \<Rightarrow> t'))
      | v \<Rightarrow> v)" for k using r by blast
  have settled: "\<not> in_flight (now0 - w * 60) t'" if t': "t' \<in> set (GetAllTasks B s')" for t'
  proof -
    obtain k where k: "map_of (task_items B s') k = Some (TaskDoc t')" using mem [OF on] t' by blast
    then obtain t where "map_of (task_items B s) k = Some (TaskDoc t)"
      using m [of k] by (cases "map_of (task_items B s) k") (auto split: doc.splits)
    then have t: "t' = (case ?step t of None \<Rightarrow> t | Some u \<Rightarrow> u)" using m [of k] k by simp
    show ?thesis
      using t recover_step_iff [of m w "now0 - w * 60" now t] recover_step_settles [of m w "now0 - w * 60" now t t' "now0 - w * 60"]
      by (cases "?step t") auto
  qed
  have kept: "in_flight (now0 - w * 60) t \<or> t \<in> set (GetAllTasks B s')" if t: "t \<in> set (GetAllTasks B s)" for t
  proof -
    obtain k where "map_of (task_items B s) k = Some (TaskDoc t)" using mem [OF assms(2)] t by blast
    then show ?thesis
      using m [of k] mem [OF on] recover_step_iff [of m w "now0 - w * 60" now t] by (cases "?step t") auto
  qed
  have cp: "List.map snd (collect_pending act xs) = List.map_filter act (decode un_task xs)" for act xs
    by (induction act xs rule: collect_pending.induct) (auto simp: map_filter_simps split: option.splits)
  have "acted = List.map_filter ?step (GetAllTasks B s)"
    using r cp all_tasks_items [OF assms(2), of B] by simp
  moreover have "CountOrphanedTasks B s' = 0"
    using on settled
    by (auto simp: CountOrphanedTasks_def orphan_count_count GetAllTasks_def filter_empty_conv in_flight_def
        split: option.splits)
  moreover have "fst (RecoverOrphanedTasks B now0 later m w s') = []"
  proof -
    have none: "recover_step m w (now0 - w * 60) later t = None" if "t \<in> set (GetAllTasks B s')" for t
      using settled [OF that] by (simp add: recover_step_iff)
    then have "collect_pending (recover_step m w (now0 - w * 60) later) (task_items B s') = []"
      using on by (intro collect_pending_none) (force simp: all_tasks_items decode_set un_task_Some)
    then have "fst (scan_tx B (recover_step m w (now0 - w * 60) later) (p_buckets s')) = []"
      by (simp add: scan_tx_def task_items_def split: option.splits)
    then show ?thesis using on
      by (cases "scan_tx B (recover_step m w (now0 - w * 60) later) (p_buckets s')")
        (auto simp: RecoverOrphanedTasks_def planner_update_def db_update_def split: sum.splits option.splits)
  qed
  ultimately show ?thesis using settled kept by blast
qed

theorem recovery_settles_witness:
  "CountOrphanedTasks list_bolt (queue_of recovered_task) = 0 \<and>
    [recovered_task] = List.map_filter (recover_step 3 10 (9000 - 10 * 60) 9001) (GetAllTasks list_bolt (queue_of stale_task)) \<and>
    fst (RecoverOrphanedTasks list_bolt 9000 9500 3 10 (queue_of recovered_task)) = []"
proof -
  have on: "p_online (queue_of stale_task)" by (simp add: queue_of_def)
  have st: "recover_step 3 10 8400 9001 stale_task = Some recovered_task"
    by (simp add: recovered_task_def recover_step_def stale_task_def demo_task_def Let_def)
  have "RecoverOrphanedTasks list_bolt 9000 9001 3 10 (queue_of stale_task) =
      ([recovered_task], None, queue_of recovered_task)"
    by (simp add: RecoverOrphanedTasks_def planner_update_def db_update_def scan_tx_def queue_of_def)
      (simp add: list_bolt_def list_ok_def st)
  from recovery_settles [OF ldoc.doc_bucket_axioms on this, of 9500] show ?thesis by blast
qed

text \<open>
  C9: the lifecycle invariant: whatever sequence of queue operations, migrations at start-up,
  snapshots and restores of a snapshot taken before runs from a well-formed queue, with callers
  enqueueing tasks of at most M retries and allowing at most M, every stored task keeps its own
  id, has status TODO or DONE and one of the five lifecycle states, is DONE when completed and
  TODO when pending, and never exceeds M retries; and so do the tasks of every snapshot.
\<close>

theorem lifecycle_invariant:
  assumes "doc_bucket B" "queue_reach B M s s' snaps" "queue_all B (task_wf M) s"
  shows "queue_all B (task_wf M) s' \<and> snaps_wf M snaps"
  by (rule doc_bucket.queue_reach_wf [OF assms])

text \<open>A snapshot is taken, the task recovered, and the snapshot restored.\<close>

theorem lifecycle_invariant_witness:
  "queue_all list_bolt (task_wf 3) (queue_of stale_task) \<and> snaps_wf 3 [[stale_task]] \<and>
   queue_reach list_bolt 3 (queue_of stale_task) (queue_of stale_task) [[stale_task]]"
proof -
  have st: "recover_step 3 10 8400 9001 stale_task = Some recovered_task"
    by (simp add: recovered_task_def recover_step_def stale_task_def demo_task_def Let_def)
  have rec: "RecoverOrphanedTasks list_bolt 9000 9001 3 10 (queue_of stale_task) =
      ([recovered_task], None, queue_of recovered_task)"
    by (simp add: RecoverOrphanedTasks_def planner_update_def db_update_def scan_tx_def queue_of_def)
      (simp add: list_bolt_def list_ok_def st)
  have all: "GetAllTasks list_bolt (queue_of stale_task) = [stale_task]"
    by (simp add: GetAllTasks_def queue_of_def) (simp add: list_bolt_def list_ok_def)
  have restored: "RestoreTasks list_bolt [stale_task] (queue_of recovered_task) = (None, queue_of stale_task)"
    by (simp add: RestoreTasks_def planner_update_def db_update_def queue_of_def)
      (simp add: list_bolt_def list_ok_def stale_task_def demo_task_def)
  have "queue_reach list_bolt 3 (queue_of stale_task) (queue_of stale_task) [GetAllTasks list_bolt (queue_of stale_task)]"
    by (rule queue_reach.snapshot [OF queue_reach.refl])
  from queue_reach.op [OF this queue_step.recover [OF rec]]
  have "queue_reach list_bolt 3 (queue_of stale_task) (queue_of recovered_task) [[stale_task]]" by (simp add: all)
  from queue_reach.restore [OF this _ restored]
  have reach: "queue_reach list_bolt 3 (queue_of stale_task) (queue_of stale_task) [[stale_task]]" by simp
  have "queue_all list_bolt (task_wf 3) (queue_of stale_task)"
    by (simp add: queue_all_def queue_of_def task_items_def)
      (simp add: list_bolt_def list_ok_def task_wf_def stale_task_def demo_task_def)
  from lifecycle_invariant [OF ldoc.doc_bucket_axioms reach this] reach show ?thesis by blast
qed

end
