(* ===== verification/State_Plan.thy ===== *)
theory State_Plan
  imports Neo_Prelude
begin

text \<open>
  The readers of \<^verbatim>\<open>.neo/master_plan.md\<close> in \<^verbatim>\<open>pkg/state/planner.go\<close>.  The file's text is an
  argument (None when it cannot be read).  \<open>classify\<close> says what a line is given the code
  fence it stands in; the specifications are phrased over classified lines.
\<close>

section \<open>The code\<close>

definition trim_left :: "string \<Rightarrow> string" where
  "trim_left line = dropWhile (\<lambda>c. c = CHR '' '' \<or> c = CHR 0x09) line"

text \<open>The messages, in UTF-8: a party popper, an accented e, a dash.\<close>

definition popper :: string where
  "popper = [CHR 0xF0, CHR 0x9F, CHR 0x8E, CHR 0x89]"

definition no_phase_msg :: string where
  "no_phase_msg = popper @ '' NO HAY FASES PENDIENTES. Todas las tareas de master_plan.md est'' @ [CHR 0xC3, CHR 0xA1] @
     ''n marcadas con [x]. '' @ [CHR 0xC3, CHR 0x89] @ ''pica completada.''"

definition no_open_msg :: string where
  "no_open_msg = popper @ '' Open: 0 '' @ [CHR 0xE2, CHR 0x80, CHR 0x94] @ '' todas las tareas est'' @ [CHR 0xC3, CHR 0xA1] @
     ''n marcadas [x].''"

fun active_loop :: "string list \<Rightarrow> string list \<Rightarrow> bool \<Rightarrow> bool \<Rightarrow> bool \<Rightarrow> string list \<times> bool" where
  "active_loop [] activePhase inActivePhase hasPendingTasks inFence = (activePhase, hasPendingTasks)"
| "active_loop (line # lines) activePhase inActivePhase hasPendingTasks inFence =
     (if has_prefix (trim_left line) ''```'' then
        active_loop lines (if inActivePhase then activePhase @ [line] else activePhase)
          inActivePhase hasPendingTasks (\<not> inFence)
      else if \<not> inFence \<and> has_prefix line ''## '' then
        (if inActivePhase \<and> hasPendingTasks then (activePhase, hasPendingTasks)
         else active_loop lines [line] True hasPendingTasks inFence)
      else if inActivePhase then
        active_loop lines (activePhase @ [line]) inActivePhase
          (hasPendingTasks \<or> (\<not> inFence \<and> has_prefix (trim_left line) ''- [ ]'')) inFence
      else active_loop lines activePhase inActivePhase hasPendingTasks inFence)"

definition ReadActivePhase :: "string option \<Rightarrow> string + string" where
  "ReadActivePhase file =
     (case file of
        None \<Rightarrow> Inl (''no se encontr'' @ [CHR 0xC3, CHR 0xB3] @
          '' .neo/master_plan.md. Crea el archivo con el plan estrat'' @ [CHR 0xC3, CHR 0xA9] @ ''gico primero'')
      | Some data \<Rightarrow>
          (let (activePhase, hasPendingTasks) = active_loop (split_char (CHR 0x0A) data) [] False False False
           in Inr (if \<not> hasPendingTasks then no_phase_msg else str_join [CHR 0x0A] activePhase)))"

record open_state =
  o_out :: "string list"
  o_h2 :: string
  o_h3 :: string
  o_h2Printed :: bool
  o_h3Printed :: bool
  o_inFence :: bool

definition open_line :: "string \<Rightarrow> open_state \<Rightarrow> open_state" where
  "open_line line s =
     (if has_prefix (trim_left line) ''```'' then s\<lparr>o_inFence := \<not> o_inFence s\<rparr>
      else if o_inFence s then s
      else if has_prefix line ''## '' then
        s\<lparr>o_h2 := line, o_h3 := '''', o_h2Printed := False, o_h3Printed := False\<rparr>
      else if has_prefix line ''### '' then s\<lparr>o_h3 := line, o_h3Printed := False\<rparr>
      else if has_prefix (trim_left line) ''- [ ]'' then
        (let s1 = (if \<not> o_h2Printed s then s\<lparr>o_out := o_out s @ [o_h2 s], o_h2Printed := True\<rparr> else s);
             s2 = (if o_h3 s1 \<noteq> '''' \<and> \<not> o_h3Printed s1
                   then s1\<lparr>o_out := o_out s1 @ [o_h3 s1], o_h3Printed := True\<rparr> else s1)
         in s2\<lparr>o_out := o_out s2 @ [line]\<rparr>)
      else s)"

definition open_start :: open_state where
  "open_start = \<lparr>o_out = [], o_h2 = '''', o_h3 = '''', o_h2Printed = False, o_h3Printed = False, o_inFence = False\<rparr>"

definition ReadOpenTasks :: "string option \<Rightarrow> string + string" where
  "ReadOpenTasks file =
     (case file of
        None \<Rightarrow> Inl (''no se encontr'' @ [CHR 0xC3, CHR 0xB3] @ '' .neo/master_plan.md'')
      | Some data \<Rightarrow>
          (let out = o_out (fold open_line (split_char (CHR 0x0A) data) open_start)
           in Inr (if length out = 0 then no_open_msg else str_join [CHR 0x0A] out)))"

section \<open>Classified lines\<close>

datatype line_kind = Fence | Inside | Phase | Task | Other

fun classify :: "bool \<Rightarrow> string list \<Rightarrow> (line_kind \<times> string) list" where
  "classify inFence [] = []"
| "classify inFence (line # lines) =
     (if has_prefix (trim_left line) ''```'' then (Fence, line) # classify (\<not> inFence) lines
      else ((if inFence then Inside
             else if has_prefix line ''## '' then Phase
             else if has_prefix (trim_left line) ''- [ ]'' then Task
             else Other), line) # classify inFence lines)"

text \<open>The phases of a plan: a heading with the lines up to the next one.\<close>

fun phases :: "(line_kind \<times> string) list \<Rightarrow> (line_kind \<times> string) list list" where
  "phases [] = []"
| "phases ((kd, line) # ls) =
     (if kd = Phase then ((kd, line) # takeWhile (\<lambda>p. fst p \<noteq> Phase) ls) # phases ls else phases ls)"

definition has_task :: "(line_kind \<times> string) list \<Rightarrow> bool" where
  "has_task p \<longleftrightarrow> Task \<in> fst ` set p"

text \<open>The answer of the loop: the collected lines, if a task was seen among them.\<close>

definition picked :: "string list \<times> bool \<Rightarrow> string list option" where
  "picked r = (if snd r then Some (fst r) else None)"

definition phase_pick :: "string list \<Rightarrow> bool \<Rightarrow> (line_kind \<times> string) list \<Rightarrow> string list option" where
  "phase_pick acc pend cl =
     (let body = takeWhile (\<lambda>p. fst p \<noteq> Phase) cl
      in if pend \<or> has_task body then Some (acc @ List.map snd body)
         else map_option (List.map snd) (List.find has_task (phases cl)))"

lemma phase_pick_simps:
  "phase_pick acc pend [] = (if pend then Some acc else None)"
  "kd \<noteq> Phase \<Longrightarrow> phase_pick acc pend ((kd, l) # cl) = phase_pick (acc @ [l]) (pend \<or> kd = Task) cl"
  "phase_pick acc pend ((Phase, l) # cl) = (if pend then Some acc else phase_pick [l] False cl)"
  by (auto simp: phase_pick_def has_task_def Let_def)

lemma picked_pair: "picked (a, h) = (if h then Some a else None)"
  by (simp add: picked_def)

lemma active_loop_in_phase:
  "picked (active_loop lines acc True pend fence) = phase_pick acc pend (classify fence lines)"
proof (induction lines arbitrary: acc pend fence)
  case Nil
  then show ?case by (simp add: phase_pick_simps picked_def)
next
  case (Cons line lines)
  then show ?case by (simp add: phase_pick_simps picked_pair)
qed

lemma active_loop_start:
  "picked (active_loop lines [] False False fence) =
     map_option (List.map snd) (List.find has_task (phases (classify fence lines)))"
proof (induction lines arbitrary: fence)
  case Nil
  then show ?case by (simp add: picked_def)
next
  case (Cons line lines)
  have "phase_pick [line] False cl = map_option (List.map snd) (List.find has_task (phases ((Phase, line) # cl)))" for cl
    by (simp add: phase_pick_def has_task_def Let_def)
  then show ?case using Cons by (simp add: active_loop_in_phase)
qed

section \<open>The open tasks\<close>

definition open_lines :: "bool \<Rightarrow> string list \<Rightarrow> string list" where
  "open_lines fence lines = List.map snd (filter (\<lambda>p. fst p = Task) (classify fence lines))"

abbreviation looks_open :: "string \<Rightarrow> bool" where
  "looks_open line \<equiv> has_prefix (trim_left line) ''- [ ]''"

lemma heading_not_open:
  "has_prefix line ''## '' \<Longrightarrow> \<not> looks_open line"
  "has_prefix line ''### '' \<Longrightarrow> \<not> looks_open line"
  "\<not> looks_open ''''"
  by (auto simp: has_prefix_iff trim_left_def)

definition heads_ok :: "open_state \<Rightarrow> bool" where
  "heads_ok s \<longleftrightarrow> \<not> looks_open (o_h2 s) \<and> \<not> looks_open (o_h3 s)"

text \<open>Task lines are indented \<^verbatim>\<open>###\<close>-free lines: the scan classifies a line as the specification does.\<close>

lemma open_fold:
  "heads_ok s \<Longrightarrow>
     filter looks_open (o_out (fold open_line lines s)) = filter looks_open (o_out s) @ open_lines (o_inFence s) lines"
proof (induction lines arbitrary: s)
  case Nil
  then show ?case by (simp add: open_lines_def)
next
  case (Cons line lines)
  have hk: "heads_ok (open_line line s)"
    using Cons.prems by (auto simp: heads_ok_def open_line_def Let_def heading_not_open)
  have fn: "o_inFence (open_line line s) = (if has_prefix (trim_left line) ''```'' then \<not> o_inFence s else o_inFence s)"
    by (simp add: open_line_def Let_def)
  have ft: "looks_open line \<Longrightarrow> \<not> has_prefix (trim_left line) ''```''"
    by (cases "trim_left line") auto
  have st: "filter looks_open (o_out (open_line line s)) = filter looks_open (o_out s) @
      (if \<not> has_prefix (trim_left line) ''```'' \<and> \<not> o_inFence s \<and> \<not> has_prefix line ''## '' \<and> looks_open line then [line] else [])"
    using Cons.prems heading_not_open(2) [of line] by (auto simp: open_line_def Let_def heads_ok_def)
  show ?case
    using Cons.IH [OF hk] fn st heading_not_open(1) [of line] ft by (auto simp: open_lines_def)
qed

lemma open_out_nonempty:
  "o_out (fold open_line lines s) = [] \<Longrightarrow> heads_ok s \<Longrightarrow> open_lines (o_inFence s) lines = []"
  using open_fold [of s lines] by simp

lemma open_out_empty:
  assumes "open_lines (o_inFence s) lines = []" "o_out s = []"
  shows "o_out (fold open_line lines s) = []"
  using assms
proof (induction lines arbitrary: s)
  case (Cons line lines)
  then have "o_out (open_line line s) = []" "open_lines (o_inFence (open_line line s)) lines = []"
    by (auto simp: open_lines_def open_line_def Let_def split: if_splits)
  then show ?case using Cons.IH by simp
qed simp

lemma open_out_lines:
  "set (o_out (fold open_line lines s)) \<subseteq> set (o_out s) \<union> {o_h2 s, o_h3 s, ''''} \<union> set lines"
proof (induction lines arbitrary: s)
  case (Cons line lines)
  have "set (o_out (open_line line s)) \<subseteq> set (o_out s) \<union> {o_h2 s, o_h3 s, line}"
    "o_h2 (open_line line s) \<in> {o_h2 s, line}" "o_h3 (open_line line s) \<in> {o_h3 s, line, ''''}"
    by (auto simp: open_line_def Let_def)
  then show ?case using Cons.IH [of "open_line line s"] by (simp add: subset_iff) metis
qed auto

section \<open>Properties\<close>

text \<open>
  \<^verbatim>\<open>ReadActivePhase\<close> returns exactly the first phase of the plan with an open task: its
  heading and all lines up to the next heading, where headings and tasks inside code fences
  do not count; with no such phase it returns the closing message.
\<close>

theorem active_phase_is_first_open:
  "ReadActivePhase (Some data) =
     Inr (case List.find has_task (phases (classify False (split_char (CHR 0x0A) data))) of
            None \<Rightarrow> no_phase_msg
          | Some p \<Rightarrow> str_join [CHR 0x0A] (List.map snd p))"
  using active_loop_start [of "split_char (CHR 0x0A) data" False]
  by (auto simp: ReadActivePhase_def picked_def split: prod.splits if_splits option.splits)

text \<open>
  \<^verbatim>\<open>ReadOpenTasks\<close> loses and invents no task: the task lines of its answer are exactly the
  open task lines of the plan outside code fences, in order; with none it says so.
\<close>

theorem open_tasks_exact:
  "case ReadOpenTasks (Some data) of
     Inl e \<Rightarrow> False
   | Inr text \<Rightarrow>
       (let todo = open_lines False (split_char (CHR 0x0A) data)
        in if todo = [] then text = no_open_msg
           else filter looks_open (split_char (CHR 0x0A) text) = todo)"
proof -
  let ?lines = "split_char (CHR 0x0A) data"
  let ?out = "o_out (fold open_line ?lines open_start)"
  have ok: "heads_ok open_start" "o_out open_start = []" "o_inFence open_start = False"
    "o_h2 open_start = ''''" "o_h3 open_start = ''''"
    by (simp_all add: heads_ok_def open_start_def trim_left_def)
  have tasks: "filter looks_open ?out = open_lines False ?lines"
    using open_fold [OF ok(1), of ?lines] ok by simp
  have "CHR 0x0A \<notin> set w" if "w \<in> set ?out" for w
    using that open_out_lines [of ?lines open_start] split_char_no_sep [of w "CHR 0x0A" data] ok by fastforce
  then have split: "?out \<noteq> [] \<Longrightarrow> split_char (CHR 0x0A) (str_join [CHR 0x0A] ?out) = ?out"
    by (intro split_join) auto
  have "open_lines False ?lines = [] \<Longrightarrow> ?out = []"
    using open_out_empty [of open_start ?lines] ok by simp
  then show ?thesis using tasks split by (auto simp: ReadOpenTasks_def Let_def)
qed

end
