(* ===== verification/State_Memory.thy ===== *)
theory State_Memory
  imports State_Types
begin

text \<open>
  The other stores of \<^verbatim>\<open>pkg/state/planner.go\<close>: episodic memory (the memex buffer, one bucket
  per tenant), contract alerts, and the log of batch certifications.  Clock readings and the
  random suffix of an identifier are arguments.
\<close>

section \<open>Identifiers\<close>

text \<open>\<^verbatim>\<open>memexIDSuffix\<close>: \<open>rnd\<close> is what \<^verbatim>\<open>rand.Read\<close> delivers, None when it fails.\<close>

definition memexIDSuffix :: "8 word list option \<Rightarrow> u64 \<Rightarrow> string" where
  "memexIDSuffix rnd unixNano =
     (case rnd of
        None \<Rightarrow> ''xx'' @ hex_pad 8 (unat (and unixNano 0xffffffff))
      | Some buf \<Rightarrow> concat (List.map (\<lambda>b. hex_pad 2 (unat b)) buf))"

definition SetActiveTenant :: "string \<Rightarrow> 'b planner \<Rightarrow> 'b planner" where
  "SetActiveTenant t s = s\<lparr>p_tenant := t\<rparr>"

definition memexBucketName :: "'b planner \<Rightarrow> string" where
  "memexBucketName s = (if p_tenant s \<noteq> '''' then memexBucket @ '':'' @ p_tenant s else memexBucket)"

definition memexImportKeysBucket :: "'b planner \<Rightarrow> string" where
  "memexImportKeysBucket s =
     (if p_tenant s \<noteq> '''' then ''memex_import_keys:'' @ p_tenant s else ''memex_import_keys'')"

definition db_offline :: error where
  "db_offline = Err ''plannerDB offline''"

section \<open>Transactions\<close>

text \<open>
  \<^verbatim>\<open>CreateBucketIfNotExists\<close> of a bucket followed by one \<^verbatim>\<open>Put\<close> into it.  A tenant name too
  long for a bucket name is not modelled.
\<close>

definition put_in :: "('b, doc) bolt \<Rightarrow> string \<Rightarrow> string \<Rightarrow> doc \<Rightarrow> 'b buckets \<Rightarrow> error + 'b buckets" where
  "put_in B name k v bs =
     (let bs1 = create_if_missing B name bs
      in map_sum id (\<lambda>b. bs1(name \<mapsto> b)) (bk_put B (the (bs1 name)) k v))"

section \<open>Memex\<close>

definition MemexCommit ::
    "('b, doc) bolt \<Rightarrow> int \<Rightarrow> string \<Rightarrow> int \<Rightarrow> MemexEntry \<Rightarrow> 'b planner \<Rightarrow> error option \<times> 'b planner" where
  "MemexCommit B nowNano suffix now e s =
     (if \<not> p_online s then (Some db_offline, s)
      else (let e' = e\<lparr>m_ID := ''MEMEX-'' @ dec_int nowNano @ ''-'' @ suffix, m_Timestamp := now\<rparr>
            in snd (planner_update B (\<lambda>bs. ((), put_in B (memexBucketName s) (m_ID e') (MemexDoc e') bs)) s)))"

definition MemexDrain :: "('b, doc) bolt \<Rightarrow> 'b planner \<Rightarrow> MemexEntry list \<times> error option \<times> 'b planner" where
  "MemexDrain B s =
     (if \<not> p_online s then ([], None, s)
      else planner_update B
        (\<lambda>bs. case bs (memexBucketName s) of
           None \<Rightarrow> ([], Inr bs)
         | Some b \<Rightarrow> (decode un_memex (bk_items B b), Inr (bs(memexBucketName s \<mapsto> fst (bk_purge B b))))) s)"

definition MemexRead :: "('b, doc) bolt \<Rightarrow> int \<Rightarrow> 'b planner \<Rightarrow> MemexEntry list \<times> error option" where
  "MemexRead B since s =
     (if \<not> p_online s then ([], None)
      else case p_buckets s (memexBucketName s) of
        None \<Rightarrow> ([], None)
      | Some b \<Rightarrow> (filter (\<lambda>e. m_Timestamp e \<ge> since) (decode un_memex (bk_items B b)), None))"

definition MemexHasKey :: "('b, doc) bolt \<Rightarrow> string \<Rightarrow> 'b planner \<Rightarrow> bool" where
  "MemexHasKey B key s =
     (if \<not> p_online s then False
      else case p_buckets s (memexImportKeysBucket s) of None \<Rightarrow> False | Some b \<Rightarrow> bk_get B b key \<noteq> None)"

definition MemexImport ::
    "('b, doc) bolt \<Rightarrow> int \<Rightarrow> string \<Rightarrow> MemexEntry \<Rightarrow> string \<Rightarrow> 'b planner \<Rightarrow> error option \<times> 'b planner" where
  "MemexImport B nowNano suffix e key s =
     (if \<not> p_online s then (Some db_offline, s)
      else snd (planner_update B
        (\<lambda>bs. (let e' = (if m_ID e = '''' then e\<lparr>m_ID := ''MEMEX-IMPORT-'' @ dec_int nowNano @ ''-'' @ suffix\<rparr> else e)
               in case put_in B (memexBucketName s) (m_ID e') (MemexDoc e') bs of
                    Inl x \<Rightarrow> ((), Inl x)
                  | Inr bs1 \<Rightarrow> ((), put_in B (memexImportKeysBucket s) key (MarkDoc ''1'') bs1))) s))"

section \<open>Contract alerts\<close>

text \<open>\<open>val\<close> is what \<^verbatim>\<open>json.Marshal\<close> makes of the caller's value.\<close>

definition ContractAlertWrite ::
    "('b, doc) bolt \<Rightarrow> string \<Rightarrow> error + doc \<Rightarrow> 'b planner \<Rightarrow> error option \<times> 'b planner" where
  "ContractAlertWrite B key val s =
     (if \<not> p_online s then (Some db_offline, s)
      else case val of
        Inl e \<Rightarrow> (Some e, s)
      | Inr v \<Rightarrow> snd (planner_update B (\<lambda>bs. ((), put_in B contractAlertBucket key v bs)) s))"

fun alert_scan :: "(string \<times> doc) list \<Rightarrow> (string \<times> ContractBreakingChange list) list" where
  "alert_scan [] = []"
| "alert_scan ((k, v) # xs) =
     (case un_alert v of
        None \<Rightarrow> alert_scan xs
      | Some changes \<Rightarrow> (takeWhile (\<lambda>c. c \<noteq> CHR '':'') k, changes) # alert_scan xs)"

definition ContractAlertReadAndFlush ::
    "('b, doc) bolt \<Rightarrow> 'b planner \<Rightarrow> (string \<times> ContractBreakingChange list) list \<times> error option \<times> 'b planner" where
  "ContractAlertReadAndFlush B s =
     (if \<not> p_online s then ([], None, s)
      else planner_update B
        (\<lambda>bs. case bs contractAlertBucket of
           None \<Rightarrow> ([], Inr bs)
         | Some b \<Rightarrow> (alert_scan (bk_items B b), Inr (bs(contractAlertBucket := None)))) s)"

section \<open>Batch certification\<close>

definition BeginBatchCertify ::
    "('b, doc) bolt \<Rightarrow> int \<Rightarrow> string \<Rightarrow> string list \<Rightarrow> 'b planner \<Rightarrow> error option \<times> 'b planner" where
  "BeginBatchCertify B now txID files s =
     (if \<not> p_online s then (Some db_offline, s)
      else (let x = \<lparr>x_TxID = txID, x_Files = files, x_State = ''prepared'', x_StartedAt = now\<rparr>
            in snd (planner_update B (\<lambda>bs. ((), put_in B batchCertifyBucket txID (CertifyDoc x) bs)) s)))"

definition updateBatchCertifyState ::
    "('b, doc) bolt \<Rightarrow> string \<Rightarrow> string \<Rightarrow> 'b planner \<Rightarrow> error option \<times> 'b planner" where
  "updateBatchCertifyState B txID newState s =
     (if \<not> p_online s then (Some db_offline, s)
      else snd (planner_update B
        (\<lambda>bs. ((), case bs batchCertifyBucket of
           None \<Rightarrow> Inr bs
         | Some b \<Rightarrow>
             (case bk_get B b txID of
                None \<Rightarrow> Inr bs
              | Some v \<Rightarrow>
                  (case un_certify v of
                     None \<Rightarrow> Inl JsonError
                   | Some x \<Rightarrow>
                       map_sum id (\<lambda>b'. bs(batchCertifyBucket \<mapsto> b'))
                         (bk_put B b txID (CertifyDoc (x\<lparr>x_State := newState\<rparr>))))))) s))"

definition CommitBatchCertify :: "('b, doc) bolt \<Rightarrow> string \<Rightarrow> 'b planner \<Rightarrow> error option \<times> 'b planner" where
  "CommitBatchCertify B txID s = updateBatchCertifyState B txID ''committed'' s"

definition AbortBatchCertify :: "('b, doc) bolt \<Rightarrow> string \<Rightarrow> 'b planner \<Rightarrow> error option \<times> 'b planner" where
  "AbortBatchCertify B txID s = updateBatchCertifyState B txID ''aborted'' s"

definition RecoverPendingCertify :: "('b, doc) bolt \<Rightarrow> 'b planner \<Rightarrow> BatchCertifyTx list \<times> error option" where
  "RecoverPendingCertify B s =
     (if \<not> p_online s then ([], None)
      else case p_buckets s batchCertifyBucket of
        None \<Rightarrow> ([], None)
      | Some b \<Rightarrow> (filter (\<lambda>x. x_State x = ''prepared'') (decode un_certify (bk_items B b)), None))"

section \<open>What one bucket holds\<close>

definition items_in :: "('b, doc) bolt \<Rightarrow> string \<Rightarrow> 'b planner \<Rightarrow> (string \<times> doc) list" where
  "items_in B name s = (case p_buckets s name of None \<Rightarrow> [] | Some b \<Rightarrow> bk_items B b)"

lemma memex_bucket_distinct [simp]:
  "memexBucketName s \<noteq> memexImportKeysBucket s'" "memexImportKeysBucket s' \<noteq> memexBucketName s"
  by (simp_all add: memexBucketName_def memexImportKeysBucket_def bucket_defs)

lemma memex_bucket_tenant: "memexBucketName s = memexBucketName s' \<longleftrightarrow> p_tenant s = p_tenant s'"
  by (auto simp: memexBucketName_def)

lemma import_bucket_tenant: "memexImportKeysBucket s = memexImportKeysBucket s' \<longleftrightarrow> p_tenant s = p_tenant s'"
  by (auto simp: memexImportKeysBucket_def)

lemma memex_read_items:
  "p_online s \<Longrightarrow> MemexRead B since s =
     (filter (\<lambda>e. since \<le> m_Timestamp e) (decode un_memex (items_in B (memexBucketName s) s)), None)"
  by (simp add: MemexRead_def items_in_def split: option.splits)

lemma pending_items:
  "p_online s \<Longrightarrow> RecoverPendingCertify B s =
     (filter (\<lambda>x. x_State x = ''prepared'') (decode un_certify (items_in B batchCertifyBucket s)), None)"
  by (simp add: RecoverPendingCertify_def items_in_def split: option.splits)

lemma snd_update_ok:
  "snd (planner_update B f s) = (None, s') \<Longrightarrow>
     \<exists>r bs. f (p_buckets s) = (r, Inr bs) \<and> s' = s\<lparr>p_buckets := bs\<rparr>"
  by (cases "planner_update B f s") (auto simp: planner_update_ok)

context doc_bucket
begin

lemma put_in_ok:
  assumes "put_in B name k v bs = Inr bs'"
  shows "items_in B name (s\<lparr>p_buckets := bs'\<rparr>) = alist_put k v (items_in B name (s\<lparr>p_buckets := bs\<rparr>)) \<and>
    (\<forall>j. j \<noteq> name \<longrightarrow> bs' j = bs j) \<and> (\<exists>b. bs' name = Some b)"
proof -
  from assms obtain b where b: "bk_put B (the (create_if_missing B name bs name)) k v = Inr b"
      "bs' = (create_if_missing B name bs)(name \<mapsto> b)"
    by (auto simp: put_in_def Let_def map_sum_def split: sum.splits)
  then have "items_in B name (s\<lparr>p_buckets := bs'\<rparr>) = alist_put k v (items_in B name (s\<lparr>p_buckets := bs\<rparr>))"
    by (auto simp: items_in_def create_if_missing_def items_empty dest!: put_items split: option.splits)
  then show ?thesis using b(2) by (simp add: create_if_missing_def split: option.splits)
qed

lemma memex_commit_ok:
  assumes "MemexCommit B nano suffix now e s = (None, s')"
  shows "p_online s \<and> p_online s' \<and> p_tenant s' = p_tenant s \<and>
    (let e' = e\<lparr>m_ID := ''MEMEX-'' @ dec_int nano @ ''-'' @ suffix, m_Timestamp := now\<rparr>
     in items_in B (memexBucketName s) s' = alist_put (m_ID e') (MemexDoc e') (items_in B (memexBucketName s) s)) \<and>
    (\<forall>j. j \<noteq> memexBucketName s \<longrightarrow> p_buckets s' j = p_buckets s j)"
proof -
  let ?e = "e\<lparr>m_ID := ''MEMEX-'' @ dec_int nano @ ''-'' @ suffix, m_Timestamp := now\<rparr>"
  from assms have on: "p_online s" by (auto simp: MemexCommit_def split: if_splits)
  with assms obtain bs where "put_in B (memexBucketName s) (m_ID ?e) (MemexDoc ?e) (p_buckets s) = Inr bs"
      "s' = s\<lparr>p_buckets := bs\<rparr>"
    by (auto simp: MemexCommit_def Let_def dest!: snd_update_ok)
  with put_in_ok [where s = s, of "memexBucketName s" "m_ID ?e" "MemexDoc ?e" "p_buckets s" bs, simplified] on
  show ?thesis by (simp add: Let_def)
qed

lemma memex_import_ok:
  assumes "MemexImport B nano suffix e key s = (None, s')"
  shows "p_online s \<and> p_online s' \<and> p_tenant s' = p_tenant s \<and>
    (let e' = (if m_ID e = '''' then e\<lparr>m_ID := ''MEMEX-IMPORT-'' @ dec_int nano @ ''-'' @ suffix\<rparr> else e)
     in items_in B (memexBucketName s) s' = alist_put (m_ID e') (MemexDoc e') (items_in B (memexBucketName s) s)) \<and>
    items_in B (memexImportKeysBucket s) s' = alist_put key (MarkDoc ''1'') (items_in B (memexImportKeysBucket s) s)"
proof -
  let ?e = "if m_ID e = '''' then e\<lparr>m_ID := ''MEMEX-IMPORT-'' @ dec_int nano @ ''-'' @ suffix\<rparr> else e"
  from assms have on: "p_online s" by (auto simp: MemexImport_def split: if_splits)
  with assms obtain bs1 bs where p: "put_in B (memexBucketName s) (m_ID ?e) (MemexDoc ?e) (p_buckets s) = Inr bs1"
      "put_in B (memexImportKeysBucket s) key (MarkDoc ''1'') bs1 = Inr bs" "s' = s\<lparr>p_buckets := bs\<rparr>"
    by (auto simp: MemexImport_def Let_def dest!: snd_update_ok split: sum.splits)
  note a = put_in_ok [where s = s, OF p(1)] and b = put_in_ok [where s = s, OF p(2)]
  have "items_in B (memexBucketName s) s' = items_in B (memexBucketName s) (s\<lparr>p_buckets := bs1\<rparr>)"
    using b p(3) by (simp add: items_in_def)
  moreover have "items_in B (memexImportKeysBucket s) (s\<lparr>p_buckets := bs1\<rparr>) = items_in B (memexImportKeysBucket s) s"
    using a by (simp add: items_in_def)
  ultimately show ?thesis using a b p(3) on by (simp add: Let_def)
qed

lemma has_key_items:
  "p_online s \<Longrightarrow> MemexHasKey B key s \<longleftrightarrow> key \<in> fst ` set (items_in B (memexImportKeysBucket s) s)"
  by (simp add: MemexHasKey_def items_in_def get_items map_of_eq_None_iff del: not_None_eq split: option.splits)

lemma items_in_sorted: "keys_sorted (items_in B name s)"
  using items_sorted by (simp add: items_in_def split: option.splits)

end

end
