(* ===== verification/State_MemoryProps.thy ===== *)
theory State_MemoryProps
  imports State_Memory
begin

text \<open>Round trips and isolation of the memex buffer, the alert bucket and the certification log.\<close>

lemma alist_put_twice: "alist_put k v (alist_put k w xs) = alist_put k v xs"
  by (induction k w xs rule: alist_put.induct) auto

lemma alist_put_mem: "(k, v) \<in> set (alist_put k v xs)"
  by (induction k v xs rule: alist_put.induct) auto

section \<open>The certification log\<close>

text \<open>Transactions are stored under their own id.\<close>

definition certify_keys :: "(string \<times> doc) list \<Rightarrow> bool" where
  "certify_keys xs \<longleftrightarrow> (\<forall>p \<in> set xs. case snd p of CertifyDoc x \<Rightarrow> x_TxID x = fst p | _ \<Rightarrow> True)"

abbreviation prepared :: "(string \<times> doc) list \<Rightarrow> BatchCertifyTx list" where
  "prepared xs \<equiv> filter (\<lambda>x. x_State x = ''prepared'') (decode un_certify xs)"

lemma prepared_put_done:
  assumes "certify_keys xs" "keys_sorted xs" "x_State y \<noteq> ''prepared''"
  shows "prepared (alist_put k (CertifyDoc y) xs) = filter (\<lambda>x. x_TxID x \<noteq> k) (prepared xs)"
  using assms
proof (induction xs)
  case Nil
  then show ?case by simp
next
  case (Cons p xs)
  obtain j w where p: "p = (j, w)" by fastforce
  have j: "case w of CertifyDoc x \<Rightarrow> x_TxID x = j | _ \<Rightarrow> True" and ck: "certify_keys xs"
    using Cons.prems(1) p by (auto simp: certify_keys_def split: doc.splits)
  have gt: "k \<notin> fst ` set xs" if "k \<le> j"
    using that Cons.prems(2) p by force
  have other: "filter (\<lambda>x. x_TxID x \<noteq> k) (prepared ys) = prepared ys"
    if "certify_keys ys" "k \<notin> fst ` set ys" for ys
  proof -
    have "x_TxID x \<noteq> k" if "x \<in> set (decode un_certify ys)" for x
    proof -
      from that obtain i where i: "(i, CertifyDoc x) \<in> set ys"
        by (force simp: decode_def List.map_filter_def un_certify_Some)
      then have "x_TxID x = i" using \<open>certify_keys ys\<close> by (force simp: certify_keys_def)
      then show ?thesis using i \<open>k \<notin> fst ` set ys\<close> by force
    qed
    then show ?thesis by (auto intro!: filter_cong)
  qed
  consider "k < j" | "k = j" | "j < k" by (metis linorder_less_linear)
  then show ?case
  proof cases
    case 1
    then have "filter (\<lambda>x. x_TxID x \<noteq> k) (prepared (p # xs)) = prepared (p # xs)"
      using Cons.prems(1) gt p by (intro other) auto
    then show ?thesis using 1 Cons.prems(3) p by simp
  next
    case 2
    then have "filter (\<lambda>x. x_TxID x \<noteq> k) (prepared (p # xs)) = prepared xs"
      using j p other [OF ck] gt by (cases w) auto
    then show ?thesis using 2 Cons.prems(3) p by simp
  next
    case 3
    then show ?thesis using Cons.IH ck Cons.prems(2,3) p j by (cases w) auto
  qed
qed

context doc_bucket
begin

lemma begin_certify_ok:
  assumes "BeginBatchCertify B now tid files s = (None, s')"
  shows "p_online s \<and> p_online s' \<and> items_in B batchCertifyBucket s' =
    alist_put tid (CertifyDoc \<lparr>x_TxID = tid, x_Files = files, x_State = ''prepared'', x_StartedAt = now\<rparr>)
      (items_in B batchCertifyBucket s)"
proof -
  let ?x = "\<lparr>x_TxID = tid, x_Files = files, x_State = ''prepared'', x_StartedAt = now\<rparr>"
  from assms have on: "p_online s" by (auto simp: BeginBatchCertify_def split: if_splits)
  with assms obtain bs where "put_in B batchCertifyBucket tid (CertifyDoc ?x) (p_buckets s) = Inr bs"
      "s' = s\<lparr>p_buckets := bs\<rparr>"
    by (auto simp: BeginBatchCertify_def Let_def dest!: snd_update_ok)
  with put_in_ok [where s = s, of batchCertifyBucket tid "CertifyDoc ?x" "p_buckets s" bs, simplified] on
  show ?thesis by simp
qed

lemma update_certify_ok:
  assumes "updateBatchCertifyState B tid st s = (None, s')"
    "(tid, CertifyDoc x) \<in> set (items_in B batchCertifyBucket s)"
  shows "p_online s' \<and> items_in B batchCertifyBucket s' =
    alist_put tid (CertifyDoc (x\<lparr>x_State := st\<rparr>)) (items_in B batchCertifyBucket s)"
proof -
  from assms(2) obtain b where b: "p_buckets s batchCertifyBucket = Some b"
      "(tid, CertifyDoc x) \<in> set (bk_items B b)"
    by (cases "p_buckets s batchCertifyBucket") (auto simp: items_in_def)
  then have g: "bk_get B b tid = Some (CertifyDoc x)"
    using items_distinct by (simp add: get_items map_of_eq_Some_iff)
  from assms(1) have on: "p_online s" by (auto simp: updateBatchCertifyState_def split: if_splits)
  with assms(1) b g obtain b' where "bk_put B b tid (CertifyDoc (x\<lparr>x_State := st\<rparr>)) = Inr b'"
      "s' = s\<lparr>p_buckets := (p_buckets s)(batchCertifyBucket \<mapsto> b')\<rparr>"
    by (auto simp: updateBatchCertifyState_def map_sum_def dest!: snd_update_ok split: sum.splits)
  then show ?thesis using b on by (simp add: items_in_def put_items)
qed

lemma alert_flush_ok:
  assumes "ContractAlertReadAndFlush B s = (rs, None, s')" "p_online s"
  shows "p_online s' \<and> rs = alert_scan (items_in B contractAlertBucket s) \<and> items_in B contractAlertBucket s' = []"
proof -
  from assms obtain bs where "(case p_buckets s contractAlertBucket of
           None \<Rightarrow> ([], Inr (p_buckets s))
         | Some b \<Rightarrow> (alert_scan (bk_items B b), Inr ((p_buckets s)(contractAlertBucket := None)))) = (rs, Inr bs :: error + _)"
      "s' = s\<lparr>p_buckets := bs\<rparr>"
    by (auto simp: ContractAlertReadAndFlush_def planner_update_ok)
  then show ?thesis using assms(2) by (auto simp: items_in_def split: option.splits)
qed

lemma alert_write_ok:
  assumes "ContractAlertWrite B key (Inr v) s = (None, s')"
  shows "p_online s \<and> p_online s' \<and>
    items_in B contractAlertBucket s' = alist_put key v (items_in B contractAlertBucket s)"
proof -
  from assms have on: "p_online s" by (auto simp: ContractAlertWrite_def split: if_splits)
  with assms obtain bs where "put_in B contractAlertBucket key v (p_buckets s) = Inr bs" "s' = s\<lparr>p_buckets := bs\<rparr>"
    by (auto simp: ContractAlertWrite_def dest!: snd_update_ok)
  with put_in_ok [where s = s, of contractAlertBucket key v "p_buckets s" bs, simplified] on
  show ?thesis by simp
qed

end

context doc_store
begin

lemma memex_drain_ok:
  assumes "MemexDrain B s = (es, None, s')" "p_online s"
  shows "p_online s' \<and> p_tenant s' = p_tenant s \<and> es = decode un_memex (items_in B (memexBucketName s) s) \<and>
    items_in B (memexBucketName s) s' = [] \<and>
    (\<forall>j. j \<noteq> memexBucketName s \<longrightarrow> p_buckets s' j = p_buckets s j)"
proof -
  from assms obtain bs where "(case p_buckets s (memexBucketName s) of
           None \<Rightarrow> ([], Inr (p_buckets s))
         | Some b \<Rightarrow> (decode un_memex (bk_items B b), Inr ((p_buckets s)(memexBucketName s \<mapsto> fst (bk_purge B b))))) = (es, Inr bs :: error + _)"
      "s' = s\<lparr>p_buckets := bs\<rparr>"
    by (auto simp: MemexDrain_def planner_update_ok)
  then show ?thesis using assms(2) by (auto simp: items_in_def purge_items split: option.splits)
qed

end

lemma alert_scan_mem: "(k, AlertDoc cs) \<in> set xs \<Longrightarrow> (takeWhile (\<lambda>c. c \<noteq> CHR '':'') k, cs) \<in> set (alert_scan xs)"
  by (induction xs rule: alert_scan.induct) (auto split: option.splits)

section \<open>Properties\<close>

text \<open>A planner with an empty database, for the runs below.\<close>

definition mem_planner :: "(string \<times> doc) list planner" where
  "mem_planner = \<lparr>p_online = True, p_buckets = Map.empty, p_workspace = '''', p_tenant = ''acme'',
     p_hook = False, p_closed = 0, p_plan = None\<rparr>"

definition demo_memory :: MemexEntry where
  "demo_memory = \<lparr>m_ID = '''', m_Topic = ''t'', m_Scope = ''pkg/rag'', m_Content = ''c'', m_Timestamp = 0, m_Causal = None\<rparr>"

text \<open>
  A committed memory is drained exactly once and tenants are isolated: draining after a
  commit returns everything the tenant's buffer held plus the new entry under its generated
  id, leaves the buffer empty for reads and for a second drain, and no other tenant's reads
  change.
\<close>

theorem memex_commit_drain:
  assumes "doc_store B fits" "MemexCommit B nano suffix now e s = (None, s1)" "MemexDrain B s1 = (es, None, s2)"
  shows "(let e' = e\<lparr>m_ID := ''MEMEX-'' @ dec_int nano @ ''-'' @ suffix, m_Timestamp := now\<rparr>
      in e' \<in> set es \<and> es = decode un_memex (alist_put (m_ID e') (MemexDoc e') (items_in B (memexBucketName s) s))) \<and>
    MemexRead B since s2 = ([], None) \<and> fst (MemexDrain B s2) = [] \<and>
    (t = p_tenant s \<or> MemexRead B since (SetActiveTenant t s2) = MemexRead B since (SetActiveTenant t s))"
proof -
  have bucket: "doc_bucket B"
    using assms(1) by (simp add: doc_bucket_def doc_store_def bolt_purging_def bolt_writable_def)
  let ?e = "e\<lparr>m_ID := ''MEMEX-'' @ dec_int nano @ ''-'' @ suffix, m_Timestamp := now\<rparr>"
  note c = doc_bucket.memex_commit_ok [OF bucket assms(2)]
  then have on: "p_online s" "p_online s1" and t1: "p_tenant s1 = p_tenant s" by simp_all
  note d = doc_store.memex_drain_ok [OF assms(1,3) on(2)]
  have nm: "memexBucketName s1 = memexBucketName s" "memexBucketName s2 = memexBucketName s"
    using c d by (simp_all add: memex_bucket_tenant)
  have es: "es = decode un_memex (alist_put (m_ID ?e) (MemexDoc ?e) (items_in B (memexBucketName s) s))"
    using c d nm by (simp add: Let_def)
  have "(m_ID ?e, MemexDoc ?e) \<in> set (alist_put (m_ID ?e) (MemexDoc ?e) xs)" for xs
    by (rule alist_put_mem)
  then have "?e \<in> set es" unfolding es
    by (force simp: decode_def List.map_filter_def)
  moreover have r: "MemexRead B since s2 = ([], None)"
    using memex_read_items [of s2 B since] d nm by simp
  moreover have "fst (MemexDrain B s2) = []"
    using d nm by (auto simp: MemexDrain_def planner_update_def db_update_def items_in_def
        split: option.splits prod.splits sum.splits)
  moreover have "t = p_tenant s \<or> MemexRead B since (SetActiveTenant t s2) = MemexRead B since (SetActiveTenant t s)"
  proof (cases "t = p_tenant s")
    case False
    have "memexBucketName (SetActiveTenant t s) \<noteq> memexBucketName s"
      "memexBucketName (SetActiveTenant t s2) = memexBucketName (SetActiveTenant t s)"
      using False by (simp_all add: memex_bucket_tenant SetActiveTenant_def)
    then show ?thesis using c d nm on by (simp add: MemexRead_def) (simp add: SetActiveTenant_def)
  qed simp
  ultimately show ?thesis using es by (simp add: Let_def)
qed

theorem memex_commit_drain_witness:
  "MemexRead list_bolt 0 (snd (snd (MemexDrain list_bolt (snd (MemexCommit list_bolt 7 ''ab'' 1 demo_memory mem_planner))))) = ([], None)"
proof -
  let ?s1 = "snd (MemexCommit list_bolt 7 ''ab'' 1 demo_memory mem_planner)"
  let ?r = "MemexDrain list_bolt ?s1"
  have "MemexCommit list_bolt 7 ''ab'' 1 demo_memory mem_planner = (None, ?s1)"
    by (simp add: MemexCommit_def mem_planner_def planner_update_def db_update_def put_in_def Let_def)
      (simp add: list_bolt_def create_if_missing_def list_ok_def demo_memory_def dec_int_def dec.simps)
  moreover have "?r = (fst ?r, None, snd (snd ?r))"
    by (simp add: MemexDrain_def planner_update_def db_update_def MemexCommit_def mem_planner_def put_in_def Let_def
        split: option.splits)
      (simp add: list_bolt_def create_if_missing_def list_ok_def demo_memory_def dec_int_def dec.simps)
  ultimately show ?thesis
    using memex_commit_drain [OF ldoc.doc_store_axioms, of 7 "''ab''" 1 demo_memory mem_planner ?s1 "fst ?r" "snd (snd ?r)" 0]
    by blast
qed

text \<open>
  importing a memory records its deduplication key, and only that key: afterwards a key
  is known to the tenant exactly if it is the imported one or was known before.
\<close>

theorem memex_import_dedup:
  assumes "doc_bucket B" "MemexImport B nano suffix e key s = (None, s')"
  shows "MemexHasKey B key' s' = (key' = key \<or> MemexHasKey B key' s)"
proof -
  note i = doc_bucket.memex_import_ok [OF assms]
  then have n: "memexImportKeysBucket s' = memexImportKeysBucket s" by (simp add: import_bucket_tenant)
  show ?thesis
    using i n by (simp add: doc_bucket.has_key_items [OF assms(1)] alist_put_set Let_def)
qed

theorem memex_import_dedup_witness:
  "MemexHasKey list_bolt ''k1'' (snd (MemexImport list_bolt 7 ''ab'' demo_memory ''k1'' mem_planner)) =
    (''k1'' = ''k1'' \<or> MemexHasKey list_bolt ''k1'' mem_planner)"
proof (rule memex_import_dedup [OF ldoc.doc_bucket_axioms])
  show "MemexImport list_bolt 7 ''ab'' demo_memory ''k1'' mem_planner =
      (None, snd (MemexImport list_bolt 7 ''ab'' demo_memory ''k1'' mem_planner))"
    by (simp add: MemexImport_def mem_planner_def planner_update_def db_update_def put_in_def Let_def split: sum.splits)
      (simp add: list_bolt_def create_if_missing_def list_ok_def demo_memory_def dec_int_def dec.simps
        memexImportKeysBucket_def)
qed

text \<open>
  C10: the two-phase log of batch certification: a transaction that was begun is pending, and
  once it is committed or aborted it is not, while every other pending transaction stays, in
  order.
\<close>

theorem batch_certify_lifecycle:
  assumes "doc_bucket B" "certify_keys (items_in B batchCertifyBucket s)"
    "BeginBatchCertify B now tid files s = (None, s1)"
    "CommitBatchCertify B tid s1 = (None, s2) \<or> AbortBatchCertify B tid s1 = (None, s2)"
  shows "tid \<in> x_TxID ` set (fst (RecoverPendingCertify B s1)) \<and>
    fst (RecoverPendingCertify B s2) = filter (\<lambda>x. x_TxID x \<noteq> tid) (fst (RecoverPendingCertify B s))"
proof -
  let ?x = "\<lparr>x_TxID = tid, x_Files = files, x_State = ''prepared'', x_StartedAt = now\<rparr>"
  let ?xs = "items_in B batchCertifyBucket s"
  note b = doc_bucket.begin_certify_ok [OF assms(1,3)]
  then have m: "(tid, CertifyDoc ?x) \<in> set (items_in B batchCertifyBucket s1)" by (simp add: alist_put_mem)
  then have "?x \<in> set (prepared (items_in B batchCertifyBucket s1))"
    by (force simp: decode_def List.map_filter_def)
  then have one: "tid \<in> x_TxID ` set (fst (RecoverPendingCertify B s1))"
    using b pending_items [of s1 B] by force
  have ne: "''committed'' \<noteq> ''prepared''" "''aborted'' \<noteq> ''prepared''" by simp_all
  have "\<exists>st. st \<noteq> ''prepared'' \<and> updateBatchCertifyState B tid st s1 = (None, s2)"
    using assms(4) unfolding CommitBatchCertify_def AbortBatchCertify_def
    by (elim disjE) (rule exI, rule conjI, rule ne, assumption)+
  then obtain st where st: "st \<noteq> ''prepared''" "updateBatchCertifyState B tid st s1 = (None, s2)"
    by blast
  have on2: "p_online s2" and i2: "items_in B batchCertifyBucket s2 = alist_put tid (CertifyDoc (?x\<lparr>x_State := st\<rparr>)) ?xs"
    using doc_bucket.update_certify_ok [OF assms(1) st(2) m] b by (simp_all add: alist_put_twice)
  have "prepared (items_in B batchCertifyBucket s2) = filter (\<lambda>x. x_TxID x \<noteq> tid) (prepared ?xs)"
    unfolding i2 using st(1) assms(2) doc_bucket.items_in_sorted [OF assms(1)]
    by (intro prepared_put_done) auto
  then show ?thesis using one on2 b by (simp add: pending_items)
qed

theorem batch_certify_lifecycle_witness:
  "fst (RecoverPendingCertify list_bolt (snd (CommitBatchCertify list_bolt ''tx1''
      (snd (BeginBatchCertify list_bolt 5 ''tx1'' [''a.go''] mem_planner))))) =
    filter (\<lambda>x. x_TxID x \<noteq> ''tx1'') (fst (RecoverPendingCertify list_bolt mem_planner))"
proof -
  let ?s1 = "snd (BeginBatchCertify list_bolt 5 ''tx1'' [''a.go''] mem_planner)"
  let ?s2 = "snd (CommitBatchCertify list_bolt ''tx1'' ?s1)"
  have a: "certify_keys (items_in list_bolt batchCertifyBucket mem_planner)"
    by (simp add: items_in_def mem_planner_def certify_keys_def)
  have b: "BeginBatchCertify list_bolt 5 ''tx1'' [''a.go''] mem_planner = (None, ?s1)"
    by (simp add: BeginBatchCertify_def mem_planner_def planner_update_def db_update_def put_in_def Let_def)
      (simp add: list_bolt_def create_if_missing_def list_ok_def)
  have c: "CommitBatchCertify list_bolt ''tx1'' ?s1 = (None, ?s2)"
    by (simp add: CommitBatchCertify_def updateBatchCertifyState_def BeginBatchCertify_def mem_planner_def
        planner_update_def db_update_def put_in_def Let_def)
      (simp add: list_bolt_def create_if_missing_def list_ok_def)
  show ?thesis using batch_certify_lifecycle [OF ldoc.doc_bucket_axioms a b disjI1 [OF c]] by blast
qed

text \<open>
  Contract alerts are delivered once: an alert written under \<open>workspace:suffix\<close> is in the
  next \<^verbatim>\<open>ContractAlertReadAndFlush\<close> with its workspace and changes, and the flush after that
  returns nothing.
\<close>

theorem alerts_delivered_once:
  assumes "doc_bucket B" "CHR '':'' \<notin> set ws"
    "ContractAlertWrite B (ws @ CHR '':'' # rest) (Inr (AlertDoc cs)) s = (None, s1)"
    "ContractAlertReadAndFlush B s1 = (rs, None, s2)"
  shows "(ws, cs) \<in> set rs \<and> fst (ContractAlertReadAndFlush B s2) = []"
proof -
  note w = doc_bucket.alert_write_ok [OF assms(1,3)]
  then have on1: "p_online s1" by blast
  note f = doc_bucket.alert_flush_ok [OF assms(1,4) on1]
  have tw: "takeWhile (\<lambda>c. c \<noteq> CHR '':'') (ws @ CHR '':'' # rest) = ws"
    using assms(2) by (induction ws) auto
  have "(ws @ CHR '':'' # rest, AlertDoc cs) \<in> set (items_in B contractAlertBucket s1)"
    using w by (simp add: alist_put_mem)
  from alert_scan_mem [OF this] have "(ws, cs) \<in> set rs" using f tw by simp
  moreover have "fst (ContractAlertReadAndFlush B s2) = []"
    using f by (auto simp: ContractAlertReadAndFlush_def planner_update_def db_update_def items_in_def
        split: option.splits prod.splits)
  ultimately show ?thesis by blast
qed

theorem alerts_delivered_once_witness:
  "fst (ContractAlertReadAndFlush list_bolt (snd (snd (ContractAlertReadAndFlush list_bolt
     (snd (ContractAlertWrite list_bolt (''ws'' @ CHR '':'' # ''9'') (Inr (AlertDoc [])) mem_planner)))))) = []"
proof -
  let ?s1 = "snd (ContractAlertWrite list_bolt (''ws'' @ CHR '':'' # ''9'') (Inr (AlertDoc [])) mem_planner)"
  let ?r = "ContractAlertReadAndFlush list_bolt ?s1"
  have w: "ContractAlertWrite list_bolt (''ws'' @ CHR '':'' # ''9'') (Inr (AlertDoc [])) mem_planner = (None, ?s1)"
    by (simp add: ContractAlertWrite_def mem_planner_def planner_update_def db_update_def put_in_def Let_def)
      (simp add: list_bolt_def create_if_missing_def list_ok_def)
  have f: "?r = (fst ?r, None, snd (snd ?r))"
    by (simp add: ContractAlertReadAndFlush_def ContractAlertWrite_def mem_planner_def planner_update_def
        db_update_def put_in_def Let_def)
      (simp add: list_bolt_def create_if_missing_def list_ok_def)
  show ?thesis using alerts_delivered_once [OF ldoc.doc_bucket_axioms _ w f] by simp
qed

end
