(* ===== verification/State_TrustProps.thy ===== *)
theory State_TrustProps
  imports State_Trust
begin

text \<open>The trust system: bounds, decay, exact evidence, earned tiers, and the store round trip.\<close>

section \<open>Bounds and decay\<close>

lemma decay_factor: "0 \<le> h \<Longrightarrow> 0 < decayPerHour powr h \<and> decayPerHour powr h \<le> 1"
  by (simp add: decayPerHour_def powr_le1)

lemma hours_between_self [simp]: "hours_between t t = 0"
  by (simp add: hours_between_def)

lemma effective_now [simp]: "EffectiveAlphaBeta s (ts_LastUpdate s) = (ts_Alpha s, ts_Beta s)"
  by (simp add: EffectiveAlphaBeta_def)

lemma damp_bounds: "0 < f \<Longrightarrow> f \<le> 1 \<Longrightarrow> (1::real) \<le> a \<Longrightarrow> 1 \<le> 1 + (a - 1) * f \<and> 1 + (a - 1) * f \<le> a"
  using mult_left_le [of f "a - 1"] by simp

lemma effective_bounds:
  assumes "1 \<le> ts_Alpha s" "1 \<le> ts_Beta s" "EffectiveAlphaBeta s t = (a, b)"
  shows "1 \<le> a \<and> a \<le> ts_Alpha s \<and> 1 \<le> b \<and> b \<le> ts_Beta s"
proof (cases "hours_between (ts_LastUpdate s) t \<le> 0")
  case True
  then show ?thesis using assms by (auto simp: EffectiveAlphaBeta_def Let_def)
next
  case False
  let ?f = "decayPerHour powr hours_between (ts_LastUpdate s) t"
  have f: "0 < ?f" "?f \<le> 1" using False decay_factor by auto
  have "a = 1 + (ts_Alpha s - 1) * ?f" "b = 1 + (ts_Beta s - 1) * ?f"
    using False assms(3) by (auto simp: EffectiveAlphaBeta_def Let_def)
  then show ?thesis using damp_bounds [OF f assms(1)] damp_bounds [OF f assms(2)] by simp
qed

lemma point_bounds:
  assumes "1 \<le> ts_Alpha s" "1 \<le> ts_Beta s"
  shows "0 < PointEstimate s t \<and> PointEstimate s t < 1"
proof -
  obtain a b where ab: "EffectiveAlphaBeta s t = (a, b)" by fastforce
  with effective_bounds [OF assms ab] show ?thesis by (simp add: PointEstimate_def)
qed

lemma lower_bounds:
  assumes "1 \<le> ts_Alpha s" "1 \<le> ts_Beta s"
  shows "0 \<le> LowerBound s t \<and> LowerBound s t \<le> PointEstimate s t"
proof -
  obtain a b where ab: "EffectiveAlphaBeta s t = (a, b)" by fastforce
  note bs = effective_bounds [OF assms ab]
  let ?v = "(a * b) / ((a + b) * (a + b) * (a + b + 1))"
  have "0 \<le> confidence95Z * sqrt ?v" using bs by (simp add: confidence95Z_def)
  moreover have "0 < a / (a + b)" "a / (a + b) < 1" using bs by simp_all
  ultimately have "\<not> 1 < a / (a + b) - confidence95Z * sqrt ?v"
    "a / (a + b) - confidence95Z * sqrt ?v \<le> a / (a + b)" "0 \<le> a / (a + b)" by linarith+
  then show ?thesis using ab bs by (simp add: LowerBound_def PointEstimate_def Let_def)
qed

section \<open>Histories of outcomes\<close>

fun is_failure :: "FailureCategory \<Rightarrow> bool" where
  "is_failure OutcomeSubOptimal = True"
| "is_failure OutcomeQuality = True"
| "is_failure OutcomeOperatorOverride = True"
| "is_failure _ = False"

fun penalty :: "FailureCategory \<Rightarrow> real" where
  "penalty OutcomeSubOptimal = 1 / 2"
| "penalty OutcomeQuality = 1"
| "penalty OutcomeOperatorOverride = 5"
| "penalty _ = 0"

definition trust_run :: "(FailureCategory \<times> time) list \<Rightarrow> TrustScore \<Rightarrow> TrustScore" where
  "trust_run evs s = fold (\<lambda>(c, t). RecordOutcome c t) evs s"

lemma trust_run_simps [simp]:
  "trust_run [] s = s"
  "trust_run ((c, t) # evs) s = trust_run evs (RecordOutcome c t s)"
  "trust_run (evs @ evs') s = trust_run evs' (trust_run evs s)"
  by (simp_all add: trust_run_def)

lemma record_fields:
  "ts_Alpha (RecordOutcome c t s) = ts_Alpha s + (if c = OutcomeSuccess then 1 else 0)"
  "ts_Beta (RecordOutcome c t s) = ts_Beta s + penalty c"
  "ts_TotalExecutions (RecordOutcome c t s) = ts_TotalExecutions s + 1"
  "ts_LastUpdate (RecordOutcome c t s) = t"
  "ts_ConsecutiveFailures (RecordOutcome c t s) =
     (if c = OutcomeSuccess then 0 else if is_failure c then ts_ConsecutiveFailures s + 1 else ts_ConsecutiveFailures s)"
  "ts_Pattern (RecordOutcome c t s) = ts_Pattern s" "ts_Scope (RecordOutcome c t s) = ts_Scope s"
  by (cases c; simp add: RecordOutcome_def Let_def)+

lemma tier_irrelevant [simp]:
  "EffectiveAlphaBeta (s\<lparr>ts_CurrentTier := x\<rparr>) t = EffectiveAlphaBeta s t"
  "LowerBound (s\<lparr>ts_CurrentTier := x\<rparr>) t = LowerBound s t"
  "TierFor (s\<lparr>ts_CurrentTier := x\<rparr>) t = TierFor s t"
proof -
  show e: "EffectiveAlphaBeta (s\<lparr>ts_CurrentTier := x\<rparr>) t = EffectiveAlphaBeta s t"
    by (simp add: EffectiveAlphaBeta_def Let_def)
  show l: "LowerBound (s\<lparr>ts_CurrentTier := x\<rparr>) t = LowerBound s t"
    by (simp only: LowerBound_def e)
  show "TierFor (s\<lparr>ts_CurrentTier := x\<rparr>) t = TierFor s t"
    by (simp add: TierFor_def l)
qed

lemma record_tier:
  "ts_CurrentTier (RecordOutcome c t s) =
     (if ts_ConsecutiveFailures (RecordOutcome c t s) \<ge> consecutiveFailureLimit then TierL0
      else TierFor (RecordOutcome c t s) t)"
  by (cases c; simp add: RecordOutcome_def Let_def)

definition trust_ok :: "TrustScore \<Rightarrow> bool" where
  "trust_ok s \<longleftrightarrow> 1 \<le> ts_Alpha s \<and> 1 \<le> ts_Beta s \<and> 0 \<le> ts_TotalExecutions s \<and> 0 \<le> ts_ConsecutiveFailures s \<and>
     (ts_CurrentTier s = TierL0 \<or>
      minExecsForPromote \<le> ts_TotalExecutions s \<and> ts_ConsecutiveFailures s < consecutiveFailureLimit \<and>
      tierL1Threshold \<le> LowerBound s (ts_LastUpdate s))"

lemma tier_for_earned:
  "TierFor s t \<noteq> TierL0 \<Longrightarrow> minExecsForPromote \<le> ts_TotalExecutions s \<and> tierL1Threshold \<le> LowerBound s t"
  by (auto simp: TierFor_def Let_def trust_consts split: if_splits)

lemma trust_ok_new: "trust_ok (NewTrustScore t p sc)"
  by (simp add: trust_ok_def NewTrustScore_def)

lemma trust_ok_record:
  assumes "trust_ok s"
  shows "trust_ok (RecordOutcome c t s)"
proof -
  let ?s = "RecordOutcome c t s"
  have "0 \<le> penalty c" by (cases c) auto
  then have base: "1 \<le> ts_Alpha ?s" "1 \<le> ts_Beta ?s" "0 \<le> ts_TotalExecutions ?s" "0 \<le> ts_ConsecutiveFailures ?s"
    using assms by (simp_all add: trust_ok_def record_fields)
  show ?thesis
  proof (cases "ts_CurrentTier ?s = TierL0")
    case True
    then show ?thesis using base by (simp add: trust_ok_def)
  next
    case False
    then have "ts_ConsecutiveFailures ?s < consecutiveFailureLimit" "TierFor ?s t \<noteq> TierL0"
      using record_tier [of c t s] by (auto split: if_splits)
    then show ?thesis using base tier_for_earned [of ?s t] by (simp add: trust_ok_def record_fields)
  qed
qed

lemma trust_ok_warm:
  assumes "1 \<le> a" "1 \<le> b"
  shows "trust_ok (warm_score a b t s)"
proof -
  let ?s = "s\<lparr>ts_Alpha := a, ts_Beta := b, ts_LastUpdate := t, ts_ManualWarmup := True,
               ts_TotalExecutions := max (\<lfloor>a + b\<rfloor> - 2) 0, ts_ConsecutiveFailures := 0\<rparr>"
  have w: "warm_score a b t s = ?s\<lparr>ts_CurrentTier := TierFor ?s t\<rparr>" by (simp add: warm_score_def Let_def)
  show ?thesis
    unfolding w using assms tier_for_earned [of ?s t]
    by (cases "TierFor ?s t = TierL0") (simp_all add: trust_ok_def trust_consts)
qed

lemma trust_ok_run: "trust_ok s \<Longrightarrow> trust_ok (trust_run evs s)"
proof (induction evs arbitrary: s)
  case (Cons e evs)
  then show ?case by (cases e) (simp add: trust_ok_record)
qed simp

section \<open>Properties\<close>

text \<open>
  The 95% lower bound the daemon decides on is sound: for every score with the prior
  intact it lies between 0 and the point estimate, which lies strictly between 0 and 1, at
  any time; and decay only ever removes evidence, never the prior.
\<close>

theorem lower_bound_sound:
  assumes "trust_ok s"
  shows "0 \<le> LowerBound s t \<and> LowerBound s t \<le> PointEstimate s t \<and> 0 < PointEstimate s t \<and> PointEstimate s t < 1 \<and>
    (case EffectiveAlphaBeta s t of (a, b) \<Rightarrow> 1 \<le> a \<and> a \<le> ts_Alpha s \<and> 1 \<le> b \<and> b \<le> ts_Beta s)"
proof -
  obtain a b where ab: "EffectiveAlphaBeta s t = (a, b)" by fastforce
  have "1 \<le> ts_Alpha s" "1 \<le> ts_Beta s" using assms by (simp_all add: trust_ok_def)
  then show ?thesis using effective_bounds [OF _ _ ab] lower_bounds point_bounds ab by simp
qed

theorem lower_bound_sound_witness:
  "0 \<le> LowerBound (NewTrustScore 0 ''refactor'' ''.go:pkg/state'') 7200000000000 \<and>
    PointEstimate (NewTrustScore 0 ''refactor'' ''.go:pkg/state'') 7200000000000 < 1"
  using lower_bound_sound [OF trust_ok_new] by blast

text \<open>
  the score counts evidence exactly: after any sequence of outcomes on a fresh score,
  alpha is one plus the successes, beta is one plus the penalties (0.5, 1 or 5), infra
  outcomes add to neither, and every outcome is an execution.
\<close>

theorem trust_evidence_exact:
  "(let s = trust_run evs (NewTrustScore t0 p sc)
    in ts_Alpha s = 1 + real (length (filter (\<lambda>(c, t). c = OutcomeSuccess) evs)) \<and>
       ts_Beta s = 1 + sum_list (List.map (\<lambda>(c, t). penalty c) evs) \<and>
       ts_TotalExecutions s = int (length evs) \<and> TrustScore_Key s = p @ '':'' @ sc)"
proof -
  have "ts_Alpha (trust_run evs s) = ts_Alpha s + real (length (filter (\<lambda>(c, t). c = OutcomeSuccess) evs)) \<and>
    ts_Beta (trust_run evs s) = ts_Beta s + sum_list (List.map (\<lambda>(c, t). penalty c) evs) \<and>
    ts_TotalExecutions (trust_run evs s) = ts_TotalExecutions s + int (length evs) \<and>
    ts_Pattern (trust_run evs s) = ts_Pattern s \<and> ts_Scope (trust_run evs s) = ts_Scope s" for s
  proof (induction evs arbitrary: s)
    case Nil
    then show ?case by simp
  next
    case (Cons e evs)
    then show ?case by (cases e) (simp add: record_fields)
  qed
  from this [of "NewTrustScore t0 p sc"] show ?thesis
    by (simp add: Let_def NewTrustScore_def TrustScore_Key_def)
qed

text \<open>
  Autonomy is earned: after any sequence of outcomes (from a fresh score, or from one an
  operator warmed up with at least the prior), a tier above L0 needs at least 50 executions,
  a lower bound of at least 0.65, and no streak of three failures; three failures in a row
  always demote to L0.
\<close>

theorem tier_is_earned:
  assumes "is_failure c1" "is_failure c2" "is_failure c3"
  shows "trust_ok (trust_run evs (NewTrustScore t0 p sc)) \<and>
    ts_CurrentTier (trust_run (evs @ [(c1, t1), (c2, t2), (c3, t3)]) (NewTrustScore t0 p sc)) = TierL0"
proof
  show ok: "trust_ok (trust_run evs (NewTrustScore t0 p sc))"
    by (rule trust_ok_run [OF trust_ok_new])
  let ?s = "trust_run evs (NewTrustScore t0 p sc)"
  have f: "c \<noteq> OutcomeSuccess" if "is_failure c" for c using that by auto
  have "0 \<le> ts_ConsecutiveFailures ?s" using ok by (simp add: trust_ok_def)
  then have "consecutiveFailureLimit \<le>
      ts_ConsecutiveFailures (RecordOutcome c3 t3 (RecordOutcome c2 t2 (RecordOutcome c1 t1 ?s)))"
    using assms f by (simp add: record_fields consecutiveFailureLimit_def)
  then show "ts_CurrentTier (trust_run (evs @ [(c1, t1), (c2, t2), (c3, t3)]) (NewTrustScore t0 p sc)) = TierL0"
    by (simp add: record_tier)
qed

theorem tier_is_earned_witness:
  "ts_CurrentTier (trust_run (replicate 60 (OutcomeSuccess, 5) @
     [(OutcomeQuality, 6), (OutcomeSubOptimal, 7), (OutcomeOperatorOverride, 8)]) (NewTrustScore 0 ''audit'' ''x'')) = TierL0"
  using tier_is_earned [of OutcomeQuality OutcomeSubOptimal OutcomeOperatorOverride "replicate 60 (OutcomeSuccess, 5)"
      0 "''audit''" "''x''" 6 7 8] by simp

text \<open>
  evidence fades: as time passes without outcomes the effective successes and failures of
  a score never grow.
\<close>

theorem decay_monotone:
  assumes "trust_ok s" "t \<le> u"
  shows "fst (EffectiveAlphaBeta s u) \<le> fst (EffectiveAlphaBeta s t) \<and>
    snd (EffectiveAlphaBeta s u) \<le> snd (EffectiveAlphaBeta s t)"
proof -
  have ab: "1 \<le> ts_Alpha s" "1 \<le> ts_Beta s" using assms by (simp_all add: trust_ok_def)
  let ?h = "\<lambda>x. hours_between (ts_LastUpdate s) x"
  have h: "?h t \<le> ?h u" using assms(2) by (simp add: hours_between_def divide_right_mono)
  show ?thesis
  proof (cases "?h t \<le> 0")
    case True
    obtain a b where "EffectiveAlphaBeta s u = (a, b)" by fastforce
    with effective_bounds [OF ab this] True show ?thesis by (simp add: EffectiveAlphaBeta_def)
  next
    case False
    have "decayPerHour powr ?h u \<le> decayPerHour powr ?h t"
      using h by (simp add: decayPerHour_def powr_mono')
    then show ?thesis using False h ab
      by (simp add: EffectiveAlphaBeta_def Let_def mult_left_mono)
  qed
qed

theorem decay_monotone_witness:
  "fst (EffectiveAlphaBeta (NewTrustScore 0 ''audit'' ''x'') 9) \<le> fst (EffectiveAlphaBeta (NewTrustScore 0 ''audit'' ''x'') 3) \<and>
    snd (EffectiveAlphaBeta (NewTrustScore 0 ''audit'' ''x'') 9) \<le> snd (EffectiveAlphaBeta (NewTrustScore 0 ''audit'' ''x'') 3)"
  by (rule decay_monotone [OF trust_ok_new]) simp

text \<open>
  The decision matrix: without an audit nothing is approved at any tier; L0 always asks;
  L2 approves only a clean pass; L3 rejects a fatal failure and asks on a recoverable one;
  and only L3 ever rejects.
\<close>

theorem decision_matrix:
  "suggestActionWithRand tier SeverityEmpty r = ActionPromptOperator \<and>
   suggestActionWithRand TierL0 sev r = ActionPromptOperator \<and>
   (suggestActionWithRand TierL2 sev r = ActionAutoApprove) = (sev = SeverityPass) \<and>
   (suggestActionWithRand TierL3 sev r = ActionAutoApprove) = (sev = SeverityPass \<or> sev = SeverityPassWithWarnings) \<and>
   (suggestActionWithRand tier sev r = ActionReject) = (tier = TierL3 \<and> sev = SeverityFailFatal)"
  by (cases sev; cases tier) (simp_all add: suggestActionWithRand_def)

text \<open>The one tier that does not look at the severity: L1 approves a fatal failure unless spot-checked.\<close>

lemma l1_approves_fatal:
  "suggestActionWithRand TierL1 SeverityFailFatal r = (if r < l1SpotCheckRate then ActionPromptOperator else ActionAutoApprove)"
  by (simp add: suggestActionWithRand_def)

text \<open>An infrastructure failure restarts the decay clock: the evidence is read at full weight again.\<close>

lemma infra_restores_evidence:
  "EffectiveAlphaBeta (RecordOutcome OutcomeInfra t s) t = (ts_Alpha s, ts_Beta s)"
  using effective_now [of "RecordOutcome OutcomeInfra t s"] by (simp add: record_fields)

section \<open>The store\<close>

context doc_bucket
begin

lemma trust_update_ok:
  assumes "TrustUpdate B now p sc fn s = (None, s')"
  shows "snd (TrustGet B now p sc s) = None \<and> TrustGet B t p sc s' = (fn (fst (TrustGet B now p sc s)), None) \<and>
    (p' @ '':'' @ sc' = p @ '':'' @ sc \<or> TrustGet B t p' sc' s' = TrustGet B t p' sc' s)"
proof -
  let ?b = "the (create_if_missing B daemonTrustBucket (p_buckets s) daemonTrustBucket)"
  let ?k = "p @ '':'' @ sc"
  from assms have on: "p_online s" by (auto simp: TrustUpdate_def errTrustOffline_def split: if_splits)
  have fresh: "p_buckets s daemonTrustBucket = None \<Longrightarrow> bk_get B ?b k = None" for k
    by (simp add: create_if_missing_def get_items items_empty)
  have some: "p_buckets s daemonTrustBucket = Some b \<Longrightarrow> ?b = b" for b
    by (simp add: create_if_missing_def)
  have get: "TrustGet B x q r s = (case bk_get B ?b (q @ '':'' @ r) of
       None \<Rightarrow> (NewTrustScore x q r, None)
     | Some v \<Rightarrow> (case un_trust v of None \<Rightarrow> (zero_score, Some JsonError) | Some t \<Rightarrow> (t, None)))" for x q r
    using on fresh some by (cases "p_buckets s daemonTrustBucket") (simp_all add: TrustGet_def)
  from assms on obtain b' t0 where b': "bk_put B ?b ?k (TrustDoc (fn t0)) = Inr b'"
      "s' = s\<lparr>p_buckets := (create_if_missing B daemonTrustBucket (p_buckets s))(daemonTrustBucket \<mapsto> b')\<rparr>"
      "TrustGet B now p sc s = (t0, None)"
    unfolding TrustUpdate_def get
    by (auto simp: planner_update_def db_update_def Let_def map_sum_def
        split: option.splits sum.splits prod.splits)
  have get': "bk_get B b' k = (if k = ?k then Some (TrustDoc (fn t0)) else bk_get B ?b k)" for k
    by (rule get_after_put [OF b'(1)])
  show ?thesis
    using b' on get get' by (simp add: TrustGet_def)
qed

end

text \<open>
  Recording an outcome is a read-modify-write that loses nothing: after a successful
  \<^verbatim>\<open>TrustRecord\<close>, \<^verbatim>\<open>TrustGet\<close> returns the score as it was, or a fresh prior, with exactly this
  outcome applied, and the score of every other key is unchanged.
\<close>

theorem trust_record_roundtrip:
  assumes "doc_bucket B" "TrustRecord B now now p sc c s = (None, s')"
  shows "TrustGet B now p sc s' = (RecordOutcome c now (fst (TrustGet B now p sc s)), None) \<and>
    (p' @ '':'' @ sc' = p @ '':'' @ sc \<or> TrustGet B now p' sc' s' = TrustGet B now p' sc' s)"
  using doc_bucket.trust_update_ok [OF assms(1) assms(2) [unfolded TrustRecord_def], of now p' sc'] by blast

definition trust_planner :: "(string \<times> doc) list planner" where
  "trust_planner = \<lparr>p_online = True, p_buckets = Map.empty, p_workspace = '''', p_tenant = '''',
     p_hook = False, p_closed = 0, p_plan = None\<rparr>"

theorem trust_record_roundtrip_witness:
  "TrustGet list_bolt 5 ''audit'' ''x'' (snd (TrustRecord list_bolt 5 5 ''audit'' ''x'' OutcomeSuccess trust_planner)) =
    (RecordOutcome OutcomeSuccess 5 (fst (TrustGet list_bolt 5 ''audit'' ''x'' trust_planner)), None)"
proof -
  have "TrustRecord list_bolt 5 5 ''audit'' ''x'' OutcomeSuccess trust_planner =
      (None, snd (TrustRecord list_bolt 5 5 ''audit'' ''x'' OutcomeSuccess trust_planner))"
    by (simp add: TrustRecord_def TrustUpdate_def trust_planner_def planner_update_def db_update_def Let_def)
      (simp add: list_bolt_def create_if_missing_def)
  from trust_record_roundtrip [OF ldoc.doc_bucket_axioms this] show ?thesis by blast
qed

end
