(* ===== verification/State_Daemon.thy ===== *)
theory State_Daemon
  imports State_Planner State_Trust State_Memory "HOL-Library.Signed_Division"
begin

text \<open>
  The daemon's records in \<^verbatim>\<open>pkg/state\<close>: session budgets (\<^verbatim>\<open>daemon_budget.go\<close>), results under
  review (\<^verbatim>\<open>daemon_results.go\<close>), backend resolution (\<^verbatim>\<open>daemon_backend.go\<close>), progress
  (\<^verbatim>\<open>daemon_progress.go\<close>), the migration of old tasks (\<^verbatim>\<open>daemon_migration.go\<close>) and pair-audit
  events (\<^verbatim>\<open>pair_audit_events.go\<close>).
\<close>

section \<open>Budgets\<close>

definition zero_budget :: "string \<Rightarrow> DaemonBudget" where
  "zero_budget sid = \<lparr>db_SessionID = sid, db_TokensUsed = 0, db_TasksCompleted = 0, db_BudgetExceededCount = 0\<rparr>"

definition DaemonBudgetGet :: "('b, doc) bolt \<Rightarrow> string \<Rightarrow> 'b planner \<Rightarrow> error + DaemonBudget" where
  "DaemonBudgetGet B sessionID s =
     (if \<not> p_online s then Inr (zero_budget sessionID)
      else case (case p_buckets s daemonBudgetBucket of
                   None \<Rightarrow> Inr (zero_budget '''')
                 | Some bkt \<Rightarrow>
                     (case bk_get B bkt sessionID of
                        None \<Rightarrow> Inr (zero_budget '''')
                      | Some v \<Rightarrow> (case un_budget v of None \<Rightarrow> Inl JsonError | Some b \<Rightarrow> Inr b))) of
             Inl e \<Rightarrow> Inl e
           | Inr b \<Rightarrow> Inr (if db_SessionID b = '''' then b\<lparr>db_SessionID := sessionID\<rparr> else b))"

definition updateBudget ::
    "('b, doc) bolt \<Rightarrow> string \<Rightarrow> (DaemonBudget \<Rightarrow> DaemonBudget) \<Rightarrow> 'b planner \<Rightarrow> error option \<times> 'b planner" where
  "updateBudget B sessionID fn s =
     (if \<not> p_online s then (None, s)
      else snd (planner_update B
        (\<lambda>bs. let bs1 = create_if_missing B daemonBudgetBucket bs;
                  bkt = the (bs1 daemonBudgetBucket)
              in ((), case (case bk_get B bkt sessionID of
                              None \<Rightarrow> Inr (zero_budget '''')
                            | Some v \<Rightarrow> (case un_budget v of None \<Rightarrow> Inl JsonError | Some b \<Rightarrow> Inr b)) of
                        Inl e \<Rightarrow> Inl e
                      | Inr b \<Rightarrow>
                          map_sum id (\<lambda>b'. bs1(daemonBudgetBucket \<mapsto> b'))
                            (bk_put B bkt sessionID (BudgetDoc (fn (b\<lparr>db_SessionID := sessionID\<rparr>)))))) s))"

definition DaemonBudgetRecordTask ::
    "('b, doc) bolt \<Rightarrow> string \<Rightarrow> int \<Rightarrow> 'b planner \<Rightarrow> error option \<times> 'b planner" where
  "DaemonBudgetRecordTask B sessionID tokens s =
     updateBudget B sessionID
       (\<lambda>b. b\<lparr>db_TokensUsed := db_TokensUsed b + tokens, db_TasksCompleted := db_TasksCompleted b + 1\<rparr>) s"

definition DaemonBudgetMarkExceeded :: "('b, doc) bolt \<Rightarrow> string \<Rightarrow> 'b planner \<Rightarrow> error option \<times> 'b planner" where
  "DaemonBudgetMarkExceeded B sessionID s =
     updateBudget B sessionID (\<lambda>b. b\<lparr>db_BudgetExceededCount := db_BudgetExceededCount b + 1\<rparr>) s"

definition DaemonBudgetReset :: "('b, doc) bolt \<Rightarrow> string \<Rightarrow> 'b planner \<Rightarrow> error option \<times> 'b planner" where
  "DaemonBudgetReset B sessionID s =
     (if \<not> p_online s then (None, s)
      else snd (planner_update B
        (\<lambda>bs. let bs1 = create_if_missing B daemonBudgetBucket bs
              in ((), map_sum id (\<lambda>b'. bs1(daemonBudgetBucket \<mapsto> b'))
                        (bk_delete B (the (bs1 daemonBudgetBucket)) sessionID))) s))"

definition DaemonBudgetTaskExceeds :: "int \<Rightarrow> int \<Rightarrow> bool" where
  "DaemonBudgetTaskExceeds taskTokens perTaskLimit \<longleftrightarrow> perTaskLimit > 0 \<and> taskTokens > perTaskLimit"

definition DaemonBudgetUsagePct :: "('b, doc) bolt \<Rightarrow> string \<Rightarrow> int \<Rightarrow> 'b planner \<Rightarrow> error + real" where
  "DaemonBudgetUsagePct B sessionID sessionLimit s =
     (if sessionLimit \<le> 0 then Inr 0
      else map_sum id (\<lambda>b. real_of_int (db_TokensUsed b) / real_of_int sessionLimit * 100)
             (DaemonBudgetGet B sessionID s))"

definition DaemonBudgetBriefingLine :: "DaemonBudget option \<Rightarrow> int \<Rightarrow> int \<Rightarrow> int \<Rightarrow> string" where
  "DaemonBudgetBriefingLine b pendingTasks totalTasks sessionLimit =
     (case b of
        None \<Rightarrow> ''daemon: 0/0 tasks '' @ [CHR 0xC2, CHR 0xB7] @ '' budget:0%''
      | Some b \<Rightarrow>
          (let pct = (if sessionLimit > 0 then db_TokensUsed b * 100 sdiv sessionLimit else 0)
           in ''daemon: '' @ dec_int pendingTasks @ ''/'' @ dec_int totalTasks @ '' tasks '' @
              [CHR 0xC2, CHR 0xB7] @ '' budget:'' @ dec_int pct @ ''%''))"

section \<open>Results\<close>

definition results_offline :: error where
  "results_offline = Err ''daemon_results: plannerDB offline''"

definition daemonResultSchemaV1 :: int where
  "daemonResultSchemaV1 = 1"

definition PersistDaemonResult :: "('b, doc) bolt \<Rightarrow> DaemonResult \<Rightarrow> 'b planner \<Rightarrow> error option \<times> 'b planner" where
  "PersistDaemonResult B r s =
     (if \<not> p_online s then (Some results_offline, s)
      else if dr_TaskID r = '''' then (Some (Err ''daemon_results: TaskID required''), s)
      else (let r' = (if dr_SchemaVersion r = 0 then r\<lparr>dr_SchemaVersion := daemonResultSchemaV1\<rparr> else r)
            in snd (planner_update B (\<lambda>bs. ((), put_in B daemonResultsBucket (dr_TaskID r') (ResultDoc r') bs)) s)))"

definition GetDaemonResult ::
    "('b, doc) bolt \<Rightarrow> string \<Rightarrow> 'b planner \<Rightarrow> DaemonResult option \<times> error option" where
  "GetDaemonResult B taskID s =
     (if \<not> p_online s then (None, Some results_offline)
      else case p_buckets s daemonResultsBucket of
        None \<Rightarrow> (None, None)
      | Some b \<Rightarrow>
          (case bk_get B b taskID of
             None \<Rightarrow> (None, None)
           | Some v \<Rightarrow> (case un_result v of None \<Rightarrow> (None, Some JsonError) | Some r \<Rightarrow> (Some r, None))))"

definition UpdateDaemonResult ::
    "('b, doc) bolt \<Rightarrow> string \<Rightarrow> (DaemonResult \<Rightarrow> DaemonResult) \<Rightarrow> 'b planner \<Rightarrow> error option \<times> 'b planner" where
  "UpdateDaemonResult B taskID fn s =
     (if \<not> p_online s then (Some results_offline, s)
      else snd (planner_update B
        (\<lambda>bs. let bs1 = create_if_missing B daemonResultsBucket bs;
                  b = the (bs1 daemonResultsBucket)
              in ((), case bk_get B b taskID of
                   None \<Rightarrow> Inl (Err (''daemon_results: no entry for task_id='' @ taskID))
                 | Some v \<Rightarrow>
                     (case un_result v of
                        None \<Rightarrow> Inl JsonError
                      | Some r \<Rightarrow>
                          map_sum id (\<lambda>b'. bs1(daemonResultsBucket \<mapsto> b')) (bk_put B b taskID (ResultDoc (fn r)))))) s))"

section \<open>Backend resolution\<close>

definition resolveByDescription :: "string \<Rightarrow> string \<times> string" where
  "resolveByDescription description =
     (case List.find (\<lambda>p. str_contains (to_lower description) (bp_keyword p)) eligibilityPatterns of
        Some p \<Rightarrow> (bp_backend p, bp_tool p)
      | None \<Rightarrow> (''claude'', ''''))"

definition ResolveSuggestedBackend :: "SRETask \<Rightarrow> string \<Rightarrow> bool \<Rightarrow> bool \<Rightarrow> string \<times> string" where
  "ResolveSuggestedBackend task mode hasKey circuitOpen =
     (let canUseDeepSeek = (hasKey \<and> \<not> circuitOpen)
      in if t_Backend task = ''claude'' then (''claude'', '''')
         else if t_Backend task = ''deepseek'' then
           (if \<not> canUseDeepSeek then (''claude'', '''')
            else (''deepseek'', snd (resolveByDescription (t_Description task))))
         else if mode = ''claude'' then (''claude'', '''')
         else if mode = ''deepseek'' then
           (if \<not> canUseDeepSeek then (''claude'', '''')
            else (''deepseek'', snd (resolveByDescription (t_Description task))))
         else (case resolveByDescription (t_Description task) of
                 (b, tool) \<Rightarrow> if b = ''deepseek'' \<and> \<not> canUseDeepSeek then (''claude'', '''') else (b, tool)))"

section \<open>Progress\<close>

record DaemonActiveTask =
  at_Description :: string
  at_TargetFile :: string
  at_StartedAt :: int
  at_Retries :: int

record DaemonQueueSummary =
  qs_Pending :: int
  qs_InProgress :: int
  qs_Done :: int
  qs_Failed :: int
  qs_BudgetRemaining :: int

record DaemonProgressPayload =
  pp_TasksDone :: int
  pp_TasksTotal :: int
  pp_ActiveTask :: "DaemonActiveTask option"
  pp_Summary :: DaemonQueueSummary

fun active_scan :: "(string \<times> doc) list \<Rightarrow> DaemonActiveTask option \<Rightarrow> DaemonActiveTask option" where
  "active_scan [] active = active"
| "active_scan ((k, v) # xs) active =
     (if active \<noteq> None then active_scan xs active
      else case un_task v of
        None \<Rightarrow> active_scan xs active
      | Some t \<Rightarrow>
          if t_LifecycleState t = TaskLifecycleInProgress
          then active_scan xs (Some \<lparr>at_Description = t_Description t, at_TargetFile = t_TargetFile t,
                 at_StartedAt = t_StartedAt t, at_Retries = t_Retries t\<rparr>)
          else active_scan xs active)"

definition GetDaemonActiveTask :: "('b, doc) bolt \<Rightarrow> 'b planner \<Rightarrow> DaemonActiveTask option" where
  "GetDaemonActiveTask B s =
     (if \<not> p_online s then None
      else case p_buckets s taskBucket of None \<Rightarrow> None | Some b \<Rightarrow> active_scan (bk_items B b) None)"

definition summary_step :: "SRETask \<Rightarrow> DaemonQueueSummary \<Rightarrow> DaemonQueueSummary" where
  "summary_step t s =
     (if t_LifecycleState t = TaskLifecyclePending then s\<lparr>qs_Pending := qs_Pending s + 1\<rparr>
      else if t_LifecycleState t = TaskLifecycleInProgress then s\<lparr>qs_InProgress := qs_InProgress s + 1\<rparr>
      else if t_LifecycleState t = TaskLifecycleCompleted then s\<lparr>qs_Done := qs_Done s + 1\<rparr>
      else if t_LifecycleState t = TaskLifecycleFailedPermanent then s\<lparr>qs_Failed := qs_Failed s + 1\<rparr>
      else if t_LifecycleState t = TaskLifecycleOrphaned then s\<lparr>qs_Failed := qs_Failed s + 1\<rparr>
      else s)"

definition zero_summary :: DaemonQueueSummary where
  "zero_summary = \<lparr>qs_Pending = 0, qs_InProgress = 0, qs_Done = 0, qs_Failed = 0, qs_BudgetRemaining = 0\<rparr>"

definition GetDaemonQueueSummary :: "('b, doc) bolt \<Rightarrow> string \<Rightarrow> int \<Rightarrow> 'b planner \<Rightarrow> DaemonQueueSummary" where
  "GetDaemonQueueSummary B sessionID sessionBudget s =
     (if \<not> p_online s then zero_summary
      else (let q = (case p_buckets s taskBucket of
                       None \<Rightarrow> zero_summary
                     | Some b \<Rightarrow> fold summary_step (decode un_task (bk_items B b)) zero_summary)
            in if sessionID \<noteq> '''' then
                 (case DaemonBudgetGet B sessionID s of
                    Inl _ \<Rightarrow> q
                  | Inr budget \<Rightarrow>
                      if sessionBudget > 0
                      then q\<lparr>qs_BudgetRemaining := max (sessionBudget - db_TokensUsed budget) 0\<rparr> else q)
               else q))"

definition BuildDaemonProgressPayload ::
    "('b, doc) bolt \<Rightarrow> string \<Rightarrow> int \<Rightarrow> 'b planner \<Rightarrow> DaemonProgressPayload" where
  "BuildDaemonProgressPayload B sessionID sessionBudget s =
     (let q = GetDaemonQueueSummary B sessionID sessionBudget s
      in \<lparr>pp_TasksDone = qs_Done q, pp_TasksTotal = qs_Pending q + qs_InProgress q + qs_Done q + qs_Failed q,
          pp_ActiveTask = GetDaemonActiveTask B s, pp_Summary = q\<rparr>)"

section \<open>Pair-audit events\<close>

definition events_offline :: error where
  "events_offline = Err ''pair_audit_events: plannerDB offline''"

definition PairAuditEventTTL :: int where
  "PairAuditEventTTL = 30 * 60 * 1000000000"

fun hex_go :: "nat \<Rightarrow> string" where
  "hex_go n = (if n < 16 then [hex_digit n] else hex_go (n div 16) @ [hex_digit (n mod 16)])"

declare hex_go.simps [simp del]

definition truncatePairAuditClaim :: "string \<Rightarrow> nat \<Rightarrow> string" where
  "truncatePairAuditClaim claim maxLen =
     (if length claim \<le> maxLen then claim
      else rev (dropWhile ascii_space (rev (take maxLen claim))) @ [CHR 0xE2, CHR 0x80, CHR 0xA6])"

text \<open>\<open>ctr\<close> is the package's event counter; the result returns it advanced.\<close>

definition EmitPairAuditEvent ::
    "('b, doc) bolt \<Rightarrow> time \<Rightarrow> u64 \<Rightarrow> string \<Rightarrow> string \<Rightarrow> string \<Rightarrow> int \<Rightarrow> string list \<Rightarrow> 'b planner \<Rightarrow>
      (string \<times> error option) \<times> u64 \<times> 'b planner" where
  "EmitPairAuditEvent B now ctr scope findingID claimText severity files s =
     (if \<not> p_online s then (('''', Some events_offline), ctr, s)
      else if scope = '''' then (('''', Some (Err ''pair_audit_events: scope required'')), ctr, s)
      else if severity < 1 \<or> severity > 10 then
        (('''', Some (Err (''pair_audit_events: severity='' @ dec_int severity @ '' out of [1,10]''))), ctr, s)
      else (let c = ctr + 1;
                h = hex_go (unat c);
                eid = ''evt-'' @ dec_int now @ ''-'' @ replicate (6 - length h) CHR ''0'' @ h;
                event = \<lparr>pe_EventID = eid, pe_Scope = scope, pe_FindingID = findingID,
                   pe_ClaimText = truncatePairAuditClaim claimText 240, pe_Severity = severity, pe_Files = files,
                   pe_EmittedAt = now, pe_Resolved = False, pe_Outcome = None, pe_ResolvedAt = None\<rparr>
            in case snd (planner_update B (\<lambda>bs. ((), put_in B pairAuditEventsBucket eid (EventDoc event) bs)) s) of
                 (Some e, s') \<Rightarrow> (('''', Some e), c, s')
               | (None, s') \<Rightarrow> ((eid, None), c, s')))"

fun event_scan :: "(string \<times> doc) list \<Rightarrow> PairAuditEvent list \<Rightarrow> int \<Rightarrow> PairAuditEvent list \<times> int" where
  "event_scan [] events skipped = (events, skipped)"
| "event_scan ((k, v) # xs) events skipped =
     (case un_event v of
        None \<Rightarrow> event_scan xs events (skipped + 1)
      | Some e \<Rightarrow> event_scan xs (if \<not> pe_Resolved e then events @ [e] else events) skipped)"

definition ListUnresolvedPairEvents :: "('b, doc) bolt \<Rightarrow> 'b planner \<Rightarrow> PairAuditEvent list \<times> int" where
  "ListUnresolvedPairEvents B s =
     (if \<not> p_online s then ([], 0)
      else case p_buckets s pairAuditEventsBucket of None \<Rightarrow> ([], 0) | Some b \<Rightarrow> event_scan (bk_items B b) [] 0)"

definition MarkPairEventResolved ::
    "('b, doc) bolt \<Rightarrow> time \<Rightarrow> string \<Rightarrow> FailureCategory \<Rightarrow> 'b planner \<Rightarrow> error option \<times> 'b planner" where
  "MarkPairEventResolved B now eventID outcome s =
     (if \<not> p_online s then (Some events_offline, s)
      else snd (planner_update B
        (\<lambda>bs. ((), case bs pairAuditEventsBucket of
           None \<Rightarrow> Inl (Err (''pair_audit_events: bucket missing '' @ [CHR 0xE2, CHR 0x80, CHR 0x94] @
                     '' no events yet, id='' @ eventID))
         | Some b \<Rightarrow>
             (case bk_get B b eventID of
                None \<Rightarrow> Inl (Err (''pair_audit_events: no event with id='' @ eventID))
              | Some v \<Rightarrow>
                  (case un_event v of
                     None \<Rightarrow> Inl JsonError
                   | Some e \<Rightarrow>
                       if pe_Resolved e then Inr bs
                       else map_sum id (\<lambda>b'. bs(pairAuditEventsBucket \<mapsto> b'))
                         (bk_put B b eventID (EventDoc (e\<lparr>pe_Resolved := True, pe_Outcome := Some outcome,
                            pe_ResolvedAt := Some now\<rparr>))))))) s))"

definition FilesIntersect :: "PairAuditEvent \<Rightarrow> string list \<Rightarrow> bool" where
  "FilesIntersect e mutated =
     (if pe_Files e = [] \<or> mutated = [] then False else list_ex (\<lambda>f. f \<in> set mutated) (pe_Files e))"

text \<open>The loops over the unresolved events; one clock reading per event.\<close>

fun reap_loop ::
    "('b, doc) bolt \<Rightarrow> time \<Rightarrow> time \<Rightarrow> PairAuditEvent list \<Rightarrow> int \<Rightarrow> 'b planner \<Rightarrow> int \<times> 'b planner" where
  "reap_loop B now cutoff [] reaped s = (reaped, s)"
| "reap_loop B now cutoff (e # es) reaped s =
     (if pe_EmittedAt e > cutoff then reap_loop B now cutoff es reaped s
      else case MarkPairEventResolved B now (pe_EventID e) OutcomeSuccess s of
        (Some _, s') \<Rightarrow> reap_loop B now cutoff es reaped s'
      | (None, s') \<Rightarrow> reap_loop B now cutoff es (reaped + 1) s')"

definition ReapStalePairAuditEvents :: "('b, doc) bolt \<Rightarrow> time \<Rightarrow> 'b planner \<Rightarrow> int \<times> 'b planner" where
  "ReapStalePairAuditEvents B now s =
     (if \<not> p_online s then (0, s)
      else reap_loop B now (now - PairAuditEventTTL) (fst (ListUnresolvedPairEvents B s)) 0 s)"

definition splitTrustKey :: "string \<Rightarrow> string \<times> string" where
  "splitTrustKey key =
     (let idx = length (takeWhile (\<lambda>c. c \<noteq> CHR '':'') key)
      in if idx = length key \<or> idx = 0 \<or> idx = length key - 1 then ('''', '''')
         else (take idx key, drop (idx + 1) key))"

fun hook_loop ::
    "('b, doc) bolt \<Rightarrow> time \<Rightarrow> string list \<Rightarrow> PairAuditEvent list \<Rightarrow> int \<Rightarrow> 'b planner \<Rightarrow> int \<times> 'b planner" where
  "hook_loop B now files [] resolved s = (resolved, s)"
| "hook_loop B now files (e # es) resolved s =
     (if \<not> FilesIntersect e files then hook_loop B now files es resolved s
      else case MarkPairEventResolved B now (pe_EventID e) OutcomeSuccess s of
        (Some _, s1) \<Rightarrow> hook_loop B now files es resolved s1
      | (None, s1) \<Rightarrow>
          (case splitTrustKey (pe_Scope e) of
             (pattern, scope) \<Rightarrow>
               if pattern = '''' \<or> scope = '''' then hook_loop B now files es resolved s1
               else (case TrustRecord B now now pattern scope OutcomeSuccess s1 of
                       (Some _, s2) \<Rightarrow> hook_loop B now files es resolved s2
                     | (None, s2) \<Rightarrow> hook_loop B now files es (resolved + 1) s2)))"

definition HookCertifyEvents :: "('b, doc) bolt \<Rightarrow> time \<Rightarrow> string list \<Rightarrow> 'b planner \<Rightarrow> int \<times> 'b planner" where
  "HookCertifyEvents B now certifiedFiles s =
     (if \<not> p_online s \<or> certifiedFiles = [] then (0, s)
      else hook_loop B now certifiedFiles (fst (ListUnresolvedPairEvents B s)) 0 s)"

end
