(* ===== verification/State_DaemonProps.thy ===== *)
theory State_DaemonProps
  imports State_Daemon State_QueueProps State_TrustProps
begin

text \<open>Budgets, results, backend choice, progress and pair-audit events: what the daemon relies on.\<close>

section \<open>Budgets\<close>

definition daemon_planner :: "(string \<times> doc) list planner" where
  "daemon_planner = \<lparr>p_online = True, p_buckets = Map.empty, p_workspace = '''', p_tenant = '''',
     p_hook = False, p_closed = 0, p_plan = None\<rparr>"

context doc_bucket
begin

lemma update_budget_ok:
  assumes "updateBudget B sid fn s = (None, s')" "p_online s" "sid \<noteq> ''''"
    "\<And>b. db_SessionID (fn b) = db_SessionID b"
  obtains b where "DaemonBudgetGet B sid s' = Inr (fn (b\<lparr>db_SessionID := sid\<rparr>))"
    "DaemonBudgetGet B sid s = Inr (if db_SessionID b = '''' then b\<lparr>db_SessionID := sid\<rparr> else b)"
    "\<And>r. r \<noteq> sid \<Longrightarrow> DaemonBudgetGet B r s' = DaemonBudgetGet B r s"
proof -
  let ?bs1 = "create_if_missing B daemonBudgetBucket (p_buckets s)"
  let ?b = "the (?bs1 daemonBudgetBucket)"
  have get: "DaemonBudgetGet B r s = (case (case bk_get B ?b r of
       None \<Rightarrow> Inr (zero_budget '''')
     | Some v \<Rightarrow> (case un_budget v of None \<Rightarrow> Inl JsonError | Some b \<Rightarrow> Inr b)) of
       Inl e \<Rightarrow> Inl e | Inr b \<Rightarrow> Inr (if db_SessionID b = '''' then b\<lparr>db_SessionID := r\<rparr> else b))" for r
    using assms(2)
    by (cases "p_buckets s daemonBudgetBucket")
      (simp_all add: DaemonBudgetGet_def create_if_missing_def get_items items_empty)
  from assms(1,2) obtain b0 b' where b: "(case bk_get B ?b sid of
       None \<Rightarrow> Inr (zero_budget '''')
     | Some v \<Rightarrow> (case un_budget v of None \<Rightarrow> Inl JsonError | Some b \<Rightarrow> Inr b)) = (Inr b0 :: error + _)"
      "bk_put B ?b sid (BudgetDoc (fn (b0\<lparr>db_SessionID := sid\<rparr>))) = Inr b'"
      "s' = s\<lparr>p_buckets := ?bs1(daemonBudgetBucket \<mapsto> b')\<rparr>"
    by (auto simp: updateBudget_def Let_def map_sum_def dest!: snd_update_ok split: sum.splits)
  note g' = get_after_put [OF b(2)]
  have "DaemonBudgetGet B sid s' = Inr (fn (b0\<lparr>db_SessionID := sid\<rparr>))"
    using assms b(3) g' by (simp add: DaemonBudgetGet_def)
  moreover have "DaemonBudgetGet B r s' = DaemonBudgetGet B r s" if "r \<noteq> sid" for r
    using that assms(2) b(3) g' unfolding get by (simp add: DaemonBudgetGet_def)
  moreover have "DaemonBudgetGet B sid s = Inr (if db_SessionID b0 = '''' then b0\<lparr>db_SessionID := sid\<rparr> else b0)"
    unfolding get b(1) by simp
  ultimately show ?thesis using that by blast
qed

lemma reset_ok:
  assumes "DaemonBudgetReset B sid s = (None, s')" "p_online s"
  shows "DaemonBudgetGet B sid s' = Inr (zero_budget sid)"
proof -
  from assms obtain b b' where "bk_delete B b sid = Inr b'" "p_buckets s' daemonBudgetBucket = Some b'" "p_online s'"
    by (auto simp: DaemonBudgetReset_def Let_def map_sum_def dest!: snd_update_ok split: sum.splits)
  then show ?thesis by (simp add: DaemonBudgetGet_def get_items delete_map zero_budget_def)
qed

end

text \<open>
  session accounting is exact: a recorded task adds its tokens and one task to its
  session, as read back by \<^verbatim>\<open>DaemonBudgetGet\<close>, changes no other session, and a reset brings
  the session to zero.
\<close>

theorem budget_accounting:
  assumes "doc_bucket B" "p_online s" "sid \<noteq> ''''" "DaemonBudgetGet B sid s = Inr b" "db_SessionID b = sid"
    "DaemonBudgetRecordTask B sid tokens s = (None, s1)" "DaemonBudgetReset B sid s1 = (None, s2)"
  shows "DaemonBudgetGet B sid s1 =
      Inr (b\<lparr>db_TokensUsed := db_TokensUsed b + tokens, db_TasksCompleted := db_TasksCompleted b + 1\<rparr>) \<and>
    (r = sid \<or> DaemonBudgetGet B r s1 = DaemonBudgetGet B r s) \<and>
    DaemonBudgetGet B sid s2 = Inr (zero_budget sid)"
proof -
  let ?fn = "\<lambda>b. b\<lparr>db_TokensUsed := db_TokensUsed b + tokens, db_TasksCompleted := db_TasksCompleted b + 1\<rparr>"
  have u: "updateBudget B sid ?fn s = (None, s1)" using assms(6) by (simp add: DaemonBudgetRecordTask_def)
  obtain b0 where g: "DaemonBudgetGet B sid s1 = Inr (?fn (b0\<lparr>db_SessionID := sid\<rparr>))"
    "DaemonBudgetGet B sid s = Inr (if db_SessionID b0 = '''' then b0\<lparr>db_SessionID := sid\<rparr> else b0)"
    "\<And>r. r \<noteq> sid \<Longrightarrow> DaemonBudgetGet B r s1 = DaemonBudgetGet B r s"
    using doc_bucket.update_budget_ok [OF assms(1) u assms(2,3)] by auto
  have "b = b0\<lparr>db_SessionID := sid\<rparr>" using g(2) assms(4,5) by (auto split: if_splits)
  moreover have "p_online s1"
    using u assms(2) by (auto simp: updateBudget_def dest!: snd_update_ok)
  ultimately show ?thesis using g doc_bucket.reset_ok [OF assms(1,7)] by auto
qed

theorem budget_accounting_witness:
  "DaemonBudgetGet list_bolt ''s1'' (snd (DaemonBudgetRecordTask list_bolt ''s1'' 40 daemon_planner)) =
    Inr ((zero_budget ''s1'')\<lparr>db_TokensUsed := 0 + 40, db_TasksCompleted := 0 + 1\<rparr>)"
proof -
  let ?s1 = "snd (DaemonBudgetRecordTask list_bolt ''s1'' 40 daemon_planner)"
  let ?s2 = "snd (DaemonBudgetReset list_bolt ''s1'' ?s1)"
  have g: "DaemonBudgetGet list_bolt ''s1'' daemon_planner = Inr (zero_budget ''s1'')"
    by (simp add: DaemonBudgetGet_def daemon_planner_def zero_budget_def)
  have r: "DaemonBudgetRecordTask list_bolt ''s1'' 40 daemon_planner = (None, ?s1)"
    by (simp add: DaemonBudgetRecordTask_def updateBudget_def daemon_planner_def planner_update_def db_update_def Let_def)
      (simp add: list_bolt_def create_if_missing_def)
  have z: "DaemonBudgetReset list_bolt ''s1'' ?s1 = (None, ?s2)"
    by (simp add: DaemonBudgetReset_def DaemonBudgetRecordTask_def updateBudget_def daemon_planner_def
        planner_update_def db_update_def Let_def)
      (simp add: list_bolt_def create_if_missing_def)
  have "p_online daemon_planner" by (simp add: daemon_planner_def)
  from budget_accounting [OF ldoc.doc_bucket_axioms this _ g _ r z, of "''x''"]
  show ?thesis by (simp add: zero_budget_def)
qed

section \<open>Results under review\<close>

context doc_bucket
begin

lemma persist_ok:
  assumes "PersistDaemonResult B r s = (None, s')"
  shows "p_online s' \<and> dr_TaskID r \<noteq> '''' \<and> GetDaemonResult B (dr_TaskID r) s' =
    (Some (if dr_SchemaVersion r = 0 then r\<lparr>dr_SchemaVersion := daemonResultSchemaV1\<rparr> else r), None)"
proof -
  let ?r = "if dr_SchemaVersion r = 0 then r\<lparr>dr_SchemaVersion := daemonResultSchemaV1\<rparr> else r"
  from assms have on: "p_online s" "dr_TaskID r \<noteq> ''''" by (auto simp: PersistDaemonResult_def split: if_splits)
  with assms obtain bs where "put_in B daemonResultsBucket (dr_TaskID ?r) (ResultDoc ?r) (p_buckets s) = Inr bs"
      "s' = s\<lparr>p_buckets := bs\<rparr>"
    by (auto simp: PersistDaemonResult_def Let_def dest!: snd_update_ok split: if_splits)
  then obtain b b' where "bk_put B b (dr_TaskID r) (ResultDoc ?r) = Inr b'" "p_buckets s' daemonResultsBucket = Some b'"
      "p_online s'" using on by (auto simp: put_in_def Let_def map_sum_def split: sum.splits if_splits)
  then show ?thesis using on get_after_put [of b "dr_TaskID r" "ResultDoc ?r" b'] by (simp add: GetDaemonResult_def)
qed

lemma update_result_ok:
  assumes "UpdateDaemonResult B tid fn s = (None, s')"
  shows "\<exists>r. GetDaemonResult B tid s = (Some r, None) \<and> GetDaemonResult B tid s' = (Some (fn r), None)"
proof -
  let ?bs1 = "create_if_missing B daemonResultsBucket (p_buckets s)"
  let ?b = "the (?bs1 daemonResultsBucket)"
  from assms have on: "p_online s" by (auto simp: UpdateDaemonResult_def results_offline_def split: if_splits)
  with assms obtain r b' where r: "bk_get B ?b tid = Some (ResultDoc r)"
      "bk_put B ?b tid (ResultDoc (fn r)) = Inr b'" "s' = s\<lparr>p_buckets := ?bs1(daemonResultsBucket \<mapsto> b')\<rparr>"
    by (auto simp: UpdateDaemonResult_def Let_def map_sum_def un_result_Some dest!: snd_update_ok
        split: option.splits sum.splits)
  have "GetDaemonResult B tid s = (Some r, None)"
    using on r(1) by (cases "p_buckets s daemonResultsBucket")
      (simp_all add: GetDaemonResult_def create_if_missing_def get_items items_empty)
  then show ?thesis using on r get_after_put [OF r(2)] by (simp add: GetDaemonResult_def)
qed

end

text \<open>
  a result under review is never lost or invented: after a successful persist the result
  is read back as stored (with the schema version filled in), and a successful update found
  an entry and replaced it by the updated one.
\<close>

theorem result_roundtrip:
  assumes "doc_bucket B" "PersistDaemonResult B r s = (None, s1)" "UpdateDaemonResult B (dr_TaskID r) fn s1 = (None, s2)"
  shows "dr_TaskID r \<noteq> '''' \<and>
    (let r' = (if dr_SchemaVersion r = 0 then r\<lparr>dr_SchemaVersion := daemonResultSchemaV1\<rparr> else r)
     in GetDaemonResult B (dr_TaskID r) s1 = (Some r', None) \<and> GetDaemonResult B (dr_TaskID r) s2 = (Some (fn r'), None))"
  using doc_bucket.persist_ok [OF assms(1,2)] doc_bucket.update_result_ok [OF assms(1,3)] by (auto simp: Let_def)

definition demo_result :: DaemonResult where
  "demo_result = \<lparr>dr_SchemaVersion = 0, dr_TaskID = ''TASK-001'', dr_TaskDescription = '''', dr_TargetFile = '''',
     dr_Backend = ''claude'', dr_DeepSeekTool = '''', dr_Pattern = ''audit'', dr_Scope = ''x'', dr_TrustAlphaBefore = 1,
     dr_TrustBetaBefore = 1, dr_TrustTierBefore = ''L0'', dr_AuditSeverity = ''pass'', dr_AuditPassed = True,
     dr_TokensUsed = 3, dr_OutputSummary = '''', dr_SuggestedAction = ''prompt-operator'', dr_Status = ''pending_review'',
     dr_OperatorNote = '''', dr_CreatedAt = 0, dr_CompletedAt = None, dr_TrustApplied = False\<rparr>"

theorem result_roundtrip_witness:
  "GetDaemonResult list_bolt ''TASK-001'' (snd (UpdateDaemonResult list_bolt ''TASK-001'' (dr_Status_update (\<lambda>_. ''approved''))
      (snd (PersistDaemonResult list_bolt demo_result daemon_planner)))) =
    (Some (demo_result\<lparr>dr_SchemaVersion := 1, dr_Status := ''approved''\<rparr>), None)"
proof -
  let ?f = "dr_Status_update (\<lambda>_. ''approved'')"
  let ?s1 = "snd (PersistDaemonResult list_bolt demo_result daemon_planner)"
  let ?s2 = "snd (UpdateDaemonResult list_bolt (dr_TaskID demo_result) ?f ?s1)"
  have p: "PersistDaemonResult list_bolt demo_result daemon_planner = (None, ?s1)"
    by (simp add: PersistDaemonResult_def demo_result_def daemon_planner_def put_in_def planner_update_def db_update_def Let_def)
      (simp add: list_bolt_def create_if_missing_def)
  have u: "UpdateDaemonResult list_bolt (dr_TaskID demo_result) ?f ?s1 = (None, ?s2)"
    by (simp add: PersistDaemonResult_def UpdateDaemonResult_def demo_result_def daemon_planner_def put_in_def
        planner_update_def db_update_def Let_def)
      (simp add: list_bolt_def create_if_missing_def list_ok_def)
  from result_roundtrip [OF ldoc.doc_bucket_axioms p u] show ?thesis
    by (simp add: demo_result_def daemonResultSchemaV1_def Let_def)
qed

section \<open>Backend choice\<close>

text \<open>
  The daemon never routes a task to DeepSeek without a key or with the circuit open, an
  explicit claude request is always honoured, and an explicit deepseek request is honoured
  whenever it can be.
\<close>

theorem backend_safe:
  "(fst (ResolveSuggestedBackend task mode hasKey circuitOpen) \<noteq> ''deepseek'' \<or> (hasKey \<and> \<not> circuitOpen)) \<and>
   (t_Backend task \<noteq> ''claude'' \<or> ResolveSuggestedBackend task mode hasKey circuitOpen = (''claude'', '''')) \<and>
   (t_Backend task \<noteq> ''deepseek'' \<or>
     fst (ResolveSuggestedBackend task mode hasKey circuitOpen) = (if hasKey \<and> \<not> circuitOpen then ''deepseek'' else ''claude''))"
  by (auto simp: ResolveSuggestedBackend_def Let_def split: prod.splits)

theorem backend_safe_witness:
  "fst (ResolveSuggestedBackend ((demo_task ''refactor it'')\<lparr>t_Backend := ''deepseek''\<rparr>) ''auto'' True False) = ''deepseek''"
  using backend_safe [of "(demo_task ''refactor it'')\<lparr>t_Backend := ''deepseek''\<rparr>" "''auto''" True False] by simp

section \<open>Progress\<close>

lemma summary_total:
  "qs_Pending (fold summary_step ts q) + qs_InProgress (fold summary_step ts q) + qs_Done (fold summary_step ts q) +
      qs_Failed (fold summary_step ts q) =
    qs_Pending q + qs_InProgress q + qs_Done q + qs_Failed q +
      int (length (filter (\<lambda>t. t_LifecycleState t \<in> {TaskLifecyclePending, TaskLifecycleInProgress,
        TaskLifecycleCompleted, TaskLifecycleFailedPermanent, TaskLifecycleOrphaned}) ts))"
proof (induction ts arbitrary: q)
  case (Cons t ts)
  show ?case
    using Cons.IH [of "summary_step t q"] by (simp add: summary_step_def)
qed simp

lemma summary_done:
  "qs_Done (fold summary_step ts q) = qs_Done q + int (length (filter (\<lambda>t. t_LifecycleState t = TaskLifecycleCompleted) ts))"
proof (induction ts arbitrary: q)
  case (Cons t ts)
  show ?case using Cons.IH [of "summary_step t q"] by (simp add: summary_step_def)
qed simp

lemma summary_fold:
  "p_online s \<Longrightarrow> qs_Pending (GetDaemonQueueSummary B sid m s) = qs_Pending (fold summary_step (GetAllTasks B s) zero_summary) \<and>
    qs_InProgress (GetDaemonQueueSummary B sid m s) = qs_InProgress (fold summary_step (GetAllTasks B s) zero_summary) \<and>
    qs_Done (GetDaemonQueueSummary B sid m s) = qs_Done (fold summary_step (GetAllTasks B s) zero_summary) \<and>
    qs_Failed (GetDaemonQueueSummary B sid m s) = qs_Failed (fold summary_step (GetAllTasks B s) zero_summary)"
  by (simp add: GetDaemonQueueSummary_def GetAllTasks_def Let_def split: option.splits sum.splits)

text \<open>
  The progress report accounts for every task: on a well-formed queue (the lifecycle
  invariant) the total it reports is the number of tasks in the queue, the done count is the
  number of completed tasks, and the remaining budget is never negative.
\<close>

theorem progress_accounts_all:
  assumes "doc_bucket B" "p_online s" "queue_all B (task_wf M) s"
  shows "(let p = BuildDaemonProgressPayload B sid m s
    in pp_TasksTotal p = int (length (GetAllTasks B s)) \<and>
       pp_TasksDone p = int (length (filter (\<lambda>t. t_LifecycleState t = TaskLifecycleCompleted) (GetAllTasks B s))) \<and>
       0 \<le> qs_BudgetRemaining (pp_Summary p))"
proof -
  have wf: "t_LifecycleState t \<in> {TaskLifecyclePending, TaskLifecycleInProgress,
        TaskLifecycleCompleted, TaskLifecycleFailedPermanent, TaskLifecycleOrphaned}"
    if t: "t \<in> set (GetAllTasks B s)" for t
  proof -
    obtain k where "map_of (task_items B s) k = Some (TaskDoc t)"
      using doc_bucket.all_tasks_mem [OF assms(1,2)] t by blast
    then have "task_wf M k t" using assms(3) by (simp add: queue_all_def)
    then show ?thesis by (auto simp: task_wf_def)
  qed
  have "qs_BudgetRemaining (fold summary_step ts q) = qs_BudgetRemaining q" for ts q
    by (induction ts arbitrary: q) (simp_all add: summary_step_def)
  then have "0 \<le> qs_BudgetRemaining (GetDaemonQueueSummary B sid m s)"
    using assms(2) by (simp add: GetDaemonQueueSummary_def zero_summary_def Let_def split: option.splits sum.splits)
  moreover have "filter (\<lambda>t. t_LifecycleState t \<in> {TaskLifecyclePending, TaskLifecycleInProgress,
        TaskLifecycleCompleted, TaskLifecycleFailedPermanent, TaskLifecycleOrphaned}) (GetAllTasks B s) = GetAllTasks B s"
    using wf by (intro filter_True ballI)
  ultimately show ?thesis
    using summary_fold [OF assms(2), of B sid m] summary_total [of "GetAllTasks B s" zero_summary]
      summary_done [of "GetAllTasks B s" zero_summary]
    by (simp add: BuildDaemonProgressPayload_def Let_def zero_summary_def)
qed

theorem progress_accounts_all_witness:
  "pp_TasksTotal (BuildDaemonProgressPayload list_bolt ''s1'' 100 (queue_of open_task)) =
    int (length (GetAllTasks list_bolt (queue_of open_task)))"
proof -
  have "queue_all list_bolt (task_wf 3) (queue_of open_task)"
    by (simp add: queue_all_def queue_of_def task_items_def)
      (simp add: list_bolt_def list_ok_def task_wf_def open_task_def demo_task_def)
  moreover have "p_online (queue_of open_task)" by (simp add: queue_of_def)
  ultimately show ?thesis
    using progress_accounts_all [OF ldoc.doc_bucket_axioms, of "queue_of open_task" 3 "''s1''" 100] by (simp add: Let_def)
qed

end
