(* ===== verification/State_EventProps.thy ===== *)
theory State_EventProps
  imports State_Daemon
begin

text \<open>Pair-audit events: emission, resolution, and the hook that certifying files triggers.\<close>

lemma event_scan_spec:
  "event_scan xs es n = (es @ filter (\<lambda>e. \<not> pe_Resolved e) (decode un_event xs),
     n + int (length (filter (\<lambda>p. un_event (snd p) = None) xs)))"
  by (induction xs es n rule: event_scan.induct) (auto split: option.splits)

lemma unresolved_items:
  "p_online s \<Longrightarrow> fst (ListUnresolvedPairEvents B s) =
     filter (\<lambda>e. \<not> pe_Resolved e) (decode un_event (items_in B pairAuditEventsBucket s))"
  by (simp add: ListUnresolvedPairEvents_def items_in_def event_scan_spec split: option.splits)

definition resolve_event :: "time \<Rightarrow> FailureCategory \<Rightarrow> PairAuditEvent \<Rightarrow> PairAuditEvent" where
  "resolve_event now outcome e =
     (if pe_Resolved e then e else e\<lparr>pe_Resolved := True, pe_Outcome := Some outcome, pe_ResolvedAt := Some now\<rparr>)"

abbreviation event_at :: "('b, doc) bolt \<Rightarrow> 'b planner \<Rightarrow> string \<Rightarrow> doc option" where
  "event_at B s \<equiv> map_of (items_in B pairAuditEventsBucket s)"

text \<open>Events are stored under their own id, as \<^verbatim>\<open>EmitPairAuditEvent\<close> stores them.\<close>

definition event_keys :: "('b, doc) bolt \<Rightarrow> 'b planner \<Rightarrow> bool" where
  "event_keys B s \<longleftrightarrow> (\<forall>k e. event_at B s k = Some (EventDoc e) \<longrightarrow> pe_EventID e = k)"

lemma resolve_fields [simp]:
  "pe_EventID (resolve_event t c e) = pe_EventID e" "pe_Files (resolve_event t c e) = pe_Files e"
  "pe_Resolved (resolve_event t c e)" "resolve_event t c (resolve_event t c2 e) = resolve_event t c2 e"
  by (simp_all add: resolve_event_def)

fun resolve_doc :: "time \<Rightarrow> FailureCategory \<Rightarrow> doc \<Rightarrow> doc" where
  "resolve_doc now c (EventDoc e) = EventDoc (resolve_event now c e)"
| "resolve_doc now c d = d"

lemma resolve_doc_idem [simp]: "resolve_doc now c (resolve_doc now c d) = resolve_doc now c d"
  by (cases d) simp_all

lemma trust_record_frame:
  assumes "TrustRecord B now0 now p sc c s = (r, s')"
  shows "p_online s' = p_online s" "items_in B pairAuditEventsBucket s' = items_in B pairAuditEventsBucket s"
proof -
  have "p_online s' = p_online s \<and> p_buckets s' pairAuditEventsBucket = p_buckets s pairAuditEventsBucket"
  proof (cases "p_online s")
    case False
    then show ?thesis using assms by (simp add: TrustRecord_def TrustUpdate_def)
  next
    case True
    let ?f = "\<lambda>bs. let bs1 = create_if_missing B daemonTrustBucket bs;
                  b = the (bs1 daemonTrustBucket);
                  key = p @ '':'' @ sc
              in ((), case (case bk_get B b key of
                              Some v \<Rightarrow> (case un_trust v of None \<Rightarrow> Inl JsonError | Some t \<Rightarrow> Inr t)
                            | None \<Rightarrow> Inr (NewTrustScore now0 p sc)) of
                        Inl e \<Rightarrow> Inl e
                      | Inr t \<Rightarrow> map_sum id (\<lambda>b'. bs1(daemonTrustBucket \<mapsto> b'))
                          (bk_put B b key (TrustDoc (RecordOutcome c now t))))"
    have f: "snd (planner_update B ?f s) = (r, s')"
      using assms True by (simp add: TrustRecord_def TrustUpdate_def)
    have frame: "bs pairAuditEventsBucket = p_buckets s pairAuditEventsBucket" if "?f (p_buckets s) = (x, Inr bs)" for x bs
      using that by (auto simp: Let_def map_sum_def create_if_missing_def bucket_defs split: sum.splits option.splits)
    show ?thesis
    proof (cases r)
      case None
      from snd_update_ok [OF f [unfolded None]] frame show ?thesis by auto
    next
      case (Some e)
      from update_error_snd [OF f [unfolded Some]] show ?thesis by simp
    qed
  qed
  then show "p_online s' = p_online s" "items_in B pairAuditEventsBucket s' = items_in B pairAuditEventsBucket s"
    by (simp_all add: items_in_def)
qed

context doc_store
begin

lemma mark_event:
  assumes "p_online s" "event_at B s k = Some (EventDoc e)" "\<And>v. fits v"
  obtains s' where "MarkPairEventResolved B now k c s = (None, s')" "p_online s'"
    "event_at B s' = (event_at B s)(k \<mapsto> EventDoc (resolve_event now c e))"
proof -
  from assms(2) obtain b where b: "p_buckets s pairAuditEventsBucket = Some b" "map_of (bk_items B b) k = Some (EventDoc e)"
    by (cases "p_buckets s pairAuditEventsBucket") (auto simp: items_in_def)
  show ?thesis
  proof (cases "pe_Resolved e")
    case True
    then have "MarkPairEventResolved B now k c s = (None, s)"
      using assms(1) b commit_ok
      by (simp add: MarkPairEventResolved_def planner_update_def db_update_def get_items)
    moreover have "event_at B s = (event_at B s)(k \<mapsto> EventDoc (resolve_event now c e))"
      using assms(2) True by (simp add: resolve_event_def fun_upd_idem)
    ultimately show ?thesis using that assms(1) by metis
  next
    case False
    have "(k, EventDoc e) \<in> set (bk_items B b)" using b(2) by (rule map_of_SomeD)
    then obtain b' where b': "bk_put B b k (EventDoc (resolve_event now c e)) = Inr b'"
      using put_ok [of k "EventDoc (resolve_event now c e)" b] items_keys [of k _ b] assms(3) by blast
    have put: "bk_put B b k (EventDoc (e\<lparr>pe_Resolved := True, pe_Outcome := Some c, pe_ResolvedAt := Some now\<rparr>)) = Inr b'"
      using b' False by (simp add: resolve_event_def)
    let ?s = "s\<lparr>p_buckets := (p_buckets s)(pairAuditEventsBucket \<mapsto> b')\<rparr>"
    have "MarkPairEventResolved B now k c s = (None, ?s)"
      using assms(1) b False put commit_ok
      by (simp add: MarkPairEventResolved_def planner_update_def db_update_def get_items)
    moreover have "event_at B ?s = (event_at B s)(k \<mapsto> EventDoc (resolve_event now c e))"
      using put_map [OF b'] b by (simp add: items_in_def)
    ultimately show ?thesis using that [of ?s] assms(1) by simp
  qed
qed

lemma hook_loop_effect:
  assumes "p_online s" "\<And>v. fits v" "\<And>e. e \<in> set es \<Longrightarrow> \<exists>e'. event_at B s (pe_EventID e) = Some (EventDoc e')"
  shows "p_online (snd (hook_loop B now files es n s)) \<and>
    event_at B (snd (hook_loop B now files es n s)) k =
      (if \<exists>e \<in> set es. pe_EventID e = k \<and> FilesIntersect e files
       then map_option (resolve_doc now OutcomeSuccess) (event_at B s k) else event_at B s k)"
  using assms(1,3)
proof (induction es arbitrary: n s)
  case Nil
  then show ?case by simp
next
  case (Cons e es)
  show ?case
  proof (cases "FilesIntersect e files")
    case False
    then show ?thesis using Cons.IH [of s n] Cons.prems by auto
  next
    case True
    obtain e' where e': "event_at B s (pe_EventID e) = Some (EventDoc e')" using Cons.prems(2) [of e] by auto
    obtain s1 where s1: "MarkPairEventResolved B now (pe_EventID e) OutcomeSuccess s = (None, s1)" "p_online s1"
      "event_at B s1 = (event_at B s)(pe_EventID e \<mapsto> EventDoc (resolve_event now OutcomeSuccess e'))"
      using mark_event [OF Cons.prems(1) e' assms(2)] by blast
    obtain p sc where ps: "splitTrustKey (pe_Scope e) = (p, sc)" by fastforce
    obtain r s2 where s2: "TrustRecord B now now p sc OutcomeSuccess s1 = (r, s2)" by fastforce
    note fr = trust_record_frame [OF s2]
    obtain m s3 where s3: "hook_loop B now files (e # es) n s = hook_loop B now files es m s3"
        "p_online s3" "event_at B s3 = event_at B s1"
    proof (cases "p = '''' \<or> sc = ''''")
      case True
      then show ?thesis using that [of n s1] \<open>FilesIntersect e files\<close> s1 ps by simp
    next
      case False
      then show ?thesis
        using that [of "if r = None then n + 1 else n" s2] \<open>FilesIntersect e files\<close> s1 ps s2 fr by (cases r) simp_all
    qed
    have "\<exists>e'. event_at B s3 (pe_EventID d) = Some (EventDoc e')" if "d \<in> set es" for d
      using s3(3) s1(3) Cons.prems(2) [of d] that by auto
    note IH = Cons.IH [OF s3(2) this, of m]
    have up: "event_at B s3 k = (if pe_EventID e = k then map_option (resolve_doc now OutcomeSuccess) (event_at B s k) else event_at B s k)"
      using s3(3) s1(3) e' by auto
    have idem: "map_option (resolve_doc now OutcomeSuccess) (map_option (resolve_doc now OutcomeSuccess) x) =
        map_option (resolve_doc now OutcomeSuccess) x" for x
      by (cases x) simp_all
    show ?thesis using IH up idem True unfolding s3(1) by auto
  qed
qed

end

section \<open>Properties\<close>

text \<open>
  Certifying files settles their findings, once: on a store that takes its writes, after
  \<^verbatim>\<open>HookCertifyEvents\<close> no unresolved event mentions a certified file, an event that mentions
  none is untouched, and running the hook again resolves nothing and changes nothing, so no
  trust is credited twice.
\<close>

theorem certify_hook_settles:
  assumes "doc_store B (\<lambda>_. True)" "p_online s" "event_keys B s" "HookCertifyEvents B now files s = (n, s')"
  shows "list_all (\<lambda>e. \<not> FilesIntersect e files) (fst (ListUnresolvedPairEvents B s')) \<and>
    HookCertifyEvents B later files s' = (0, s') \<and>
    (k \<in> pe_EventID ` {e \<in> set (fst (ListUnresolvedPairEvents B s)). FilesIntersect e files} \<or>
     event_at B s' k = event_at B s k)"
proof (cases "files = []")
  case True
  then show ?thesis using assms(2,4) by (auto simp: HookCertifyEvents_def FilesIntersect_def list_all_iff)
next
  case False
  have bucket: "doc_bucket B"
    using assms(1) by (simp add: doc_bucket_def doc_store_def bolt_purging_def bolt_writable_def)
  let ?es = "fst (ListUnresolvedPairEvents B s)"
  have h: "(n, s') = hook_loop B now files ?es 0 s" using assms(2,4) False by (simp add: HookCertifyEvents_def)
  have dist: "distinct (List.map fst (items_in B pairAuditEventsBucket u))" for u
    using doc_bucket.items_in_sorted [OF bucket] by (simp add: keys_sorted_distinct)
  have mem: "e \<in> set (fst (ListUnresolvedPairEvents B u)) \<longleftrightarrow>
      (\<not> pe_Resolved e \<and> (\<exists>k. event_at B u k = Some (EventDoc e)))" if "p_online u" for e u
    using unresolved_items [OF that, of B] dist [of u]
    by (force simp: decode_def List.map_filter_def un_event_Some map_of_eq_Some_iff image_iff)
  have pre: "\<exists>e'. event_at B s (pe_EventID e) = Some (EventDoc e')" if "e \<in> set ?es" for e
    using that mem [OF assms(2)] assms(3) by (auto simp: event_keys_def)
  have eff: "p_online s' \<and> event_at B s' k =
      (if \<exists>e \<in> set ?es. pe_EventID e = k \<and> FilesIntersect e files
       then map_option (resolve_doc now OutcomeSuccess) (event_at B s k) else event_at B s k)" for k
    using doc_store.hook_loop_effect [OF assms(1,2) TrueI pre, of ?es now files 0 k] h by (metis snd_conv)
  have on: "p_online s'" using eff by blast
  have none: "\<not> FilesIntersect e files" if e: "e \<in> set (fst (ListUnresolvedPairEvents B s'))" for e
  proof
    assume fi: "FilesIntersect e files"
    from e mem [OF on] obtain k where k: "event_at B s' k = Some (EventDoc e)" "\<not> pe_Resolved e" by blast
    show False
    proof (cases "\<exists>e \<in> set ?es. pe_EventID e = k \<and> FilesIntersect e files")
      case True
      then have "map_option (resolve_doc now OutcomeSuccess) (event_at B s k) = Some (EventDoc e)"
        using eff [of k] k by simp
      then obtain d where "event_at B s k = Some d" "resolve_doc now OutcomeSuccess d = EventDoc e" by auto
      then show False using k(2) by (cases d) auto
    next
      case no: False
      have "event_at B s' k = event_at B s k" using eff [of k] by (simp only: if_not_P [OF no])
      then have "event_at B s k = Some (EventDoc e)" using k(1) by simp
      then have "e \<in> set ?es" "pe_EventID e = k" using mem [OF assms(2)] k(2) assms(3) by (auto simp: event_keys_def)
      then show False using no fi by blast
    qed
  qed
  have skip: "hook_loop B later files ds m u = (m, u)" if "\<And>e. e \<in> set ds \<Longrightarrow> \<not> FilesIntersect e files" for ds m u
    using that by (induction ds) auto
  have "HookCertifyEvents B later files s' = (0, s')"
    using on False none skip by (simp add: HookCertifyEvents_def)
  moreover have "k \<in> pe_EventID ` {e \<in> set ?es. FilesIntersect e files} \<or> event_at B s' k = event_at B s k"
    using eff [of k] by auto
  ultimately show ?thesis using none by (simp add: list_all_iff)
qed

definition event_planner :: "(string \<times> doc) list planner" where
  "event_planner = \<lparr>p_online = True,
     p_buckets = [pairAuditEventsBucket \<mapsto> [(''evt-1'', EventDoc \<lparr>pe_EventID = ''evt-1'', pe_Scope = ''audit:.go:x'',
       pe_FindingID = ''F1'', pe_ClaimText = ''c'', pe_Severity = 5, pe_Files = [''a.go''], pe_EmittedAt = 0,
       pe_Resolved = False, pe_Outcome = None, pe_ResolvedAt = None\<rparr>)]],
     p_workspace = '''', p_tenant = '''', p_hook = False, p_closed = 0, p_plan = None\<rparr>"

theorem certify_hook_settles_witness:
  "list_all (\<lambda>e. \<not> FilesIntersect e [''a.go''])
     (fst (ListUnresolvedPairEvents list_bolt (snd (HookCertifyEvents list_bolt 7 [''a.go''] event_planner))))"
proof -
  let ?r = "HookCertifyEvents list_bolt 7 [''a.go''] event_planner"
  have k: "event_keys list_bolt event_planner"
    by (simp add: event_keys_def event_planner_def items_in_def) (simp add: list_bolt_def list_ok_def)
  have "p_online event_planner" by (simp add: event_planner_def)
  from certify_hook_settles [OF ldoc.doc_store_axioms this k, of 7 "[''a.go'']" "fst ?r" "snd ?r"] show ?thesis by simp
qed

end
