(* ===== verification/State_Audit.thy ===== *)
theory State_Audit
  imports State_Trust
begin

text \<open>
  \<^verbatim>\<open>pkg/state/daemon_audit.go\<close>: the audit pipeline that decides the severity of a mutation,
  and the comparison of metrics before and after it.  The executor is an argument: what each
  stage returns for these files.  Go maps are lists of pairs with distinct keys; the order in
  which a map is ranged over does not matter to any result here.
\<close>

section \<open>Severity\<close>

datatype FailureKind = FailureBuild | FailureASTAudit | FailureTests | FailureCertify | FailureMetrics | FailureOther string

record sev_flags =
  sf_build :: bool
  sf_certify :: bool
  sf_tests :: bool
  sf_ast :: bool
  sf_metricsOnly :: bool

fun sev_step :: "FailureKind \<Rightarrow> sev_flags \<Rightarrow> sev_flags" where
  "sev_step FailureBuild f = f\<lparr>sf_build := True, sf_metricsOnly := False\<rparr>"
| "sev_step FailureCertify f = f\<lparr>sf_certify := True, sf_metricsOnly := False\<rparr>"
| "sev_step FailureTests f = f\<lparr>sf_tests := True, sf_metricsOnly := False\<rparr>"
| "sev_step FailureASTAudit f = f\<lparr>sf_ast := True, sf_metricsOnly := False\<rparr>"
| "sev_step FailureMetrics f = f"
| "sev_step (FailureOther _) f = f\<lparr>sf_metricsOnly := False\<rparr>"

definition computeSeverity :: "FailureKind list \<Rightarrow> AuditSeverity" where
  "computeSeverity failures =
     (if length failures = 0 then SeverityPass
      else (let f = fold sev_step failures
                  \<lparr>sf_build = False, sf_certify = False, sf_tests = False, sf_ast = False, sf_metricsOnly = True\<rparr>
            in if sf_build f \<or> sf_certify f then SeverityFailFatal
               else if sf_tests f \<or> sf_ast f then SeverityFailRecoverable
               else if sf_metricsOnly f then SeverityPassWithWarnings
               else SeverityFailRecoverable))"

section \<open>The pipeline\<close>

datatype float64 = Finite real | NaN | PosInf | NegInf

record StageOutcome =
  so_Passed :: bool
  so_DurationMS :: int
  so_Detail :: string
  so_Extra :: "(string \<times> float64) list"

datatype stage = StageBuild | StageAST | StageTests | StageCertify | StageMetrics

text \<open>What the executor answers at a stage: an outcome and possibly an error with its text.\<close>

type_synonym executor = "stage \<Rightarrow> StageOutcome \<times> string option"

record AuditVerdict =
  av_Passed :: bool
  av_Severity :: AuditSeverity
  av_Failures :: "FailureKind list"
  av_Details :: "FailureKind \<Rightarrow> string option"
  av_Metrics :: "string \<Rightarrow> float64 option"
  av_Files :: "string list"
  av_DurationMS :: int
  av_StartedAt :: time
  av_CompletedAt :: time

definition newVerdict ::
    "time \<Rightarrow> string list \<Rightarrow> FailureKind list \<Rightarrow> (FailureKind \<Rightarrow> string option) \<Rightarrow> (string \<Rightarrow> float64 option) \<Rightarrow> time \<Rightarrow> AuditVerdict" where
  "newVerdict now files failures details metrics started =
     (let severity = computeSeverity failures
      in \<lparr>av_Passed = (severity = SeverityPass), av_Severity = severity, av_Failures = failures,
          av_Details = details, av_Metrics = metrics, av_Files = files,
          av_DurationMS = (now - started) div 1000000, av_StartedAt = started, av_CompletedAt = now\<rparr>)"

definition recordFailureDetail ::
    "FailureKind \<Rightarrow> string \<Rightarrow> string option \<Rightarrow> (FailureKind \<Rightarrow> string option) \<Rightarrow> (FailureKind \<Rightarrow> string option)" where
  "recordFailureDetail kind detail err dst =
     (if detail \<noteq> '''' then dst(kind \<mapsto> detail)
      else case err of
        Some e \<Rightarrow> dst(kind \<mapsto> ''exec error: '' @ e)
      | None \<Rightarrow> dst(kind \<mapsto> ''(no detail provided by executor)''))"

definition reservedExtraSuffix :: string where
  "reservedExtraSuffix = ''duration_ms''"

fun merge_extra :: "string \<Rightarrow> (string \<times> float64) list \<Rightarrow> (string \<Rightarrow> float64 option) \<Rightarrow> (string \<Rightarrow> float64 option)" where
  "merge_extra stg [] dst = dst"
| "merge_extra stg ((k, v) # xs) dst =
     (if k = reservedExtraSuffix then merge_extra stg xs dst
      else (case v of
              Finite _ \<Rightarrow> merge_extra stg xs (dst(stg @ ''_'' @ k \<mapsto> v))
            | _ \<Rightarrow> merge_extra stg xs dst))"

definition mergeStageMetrics ::
    "string \<Rightarrow> StageOutcome \<Rightarrow> (string \<Rightarrow> float64 option) \<Rightarrow> (string \<Rightarrow> float64 option)" where
  "mergeStageMetrics stg outcome dst =
     merge_extra stg (so_Extra outcome)
       (dst(stg @ ''_'' @ reservedExtraSuffix \<mapsto> Finite (real_of_int (so_DurationMS outcome))))"

text \<open>One stage: its failure, if it failed, with its detail, and its metrics.\<close>

definition run_stage ::
    "executor \<Rightarrow> stage \<Rightarrow> FailureKind \<Rightarrow> string \<Rightarrow>
      FailureKind list \<times> (FailureKind \<Rightarrow> string option) \<times> (string \<Rightarrow> float64 option) \<Rightarrow>
      FailureKind list \<times> (FailureKind \<Rightarrow> string option) \<times> (string \<Rightarrow> float64 option)" where
  "run_stage exec st kind name acc =
     (let (failures, details, metrics) = acc;
          (outcome, err) = exec st
      in if \<not> so_Passed outcome \<or> err \<noteq> None
         then (failures @ [kind], recordFailureDetail kind (so_Detail outcome) err details,
               mergeStageMetrics name outcome metrics)
         else (failures, details, mergeStageMetrics name outcome metrics))"

definition RunAuditPipeline ::
    "time \<Rightarrow> time \<Rightarrow> string \<Rightarrow> string list \<Rightarrow> executor option \<Rightarrow> AuditVerdict" where
  "RunAuditPipeline started now workspace files exec =
     (case exec of
        None \<Rightarrow> newVerdict now files [FailureBuild] Map.empty Map.empty started
      | Some ex \<Rightarrow>
          if workspace = '''' \<or> length files = 0
          then newVerdict now files [FailureBuild] Map.empty Map.empty started
          else (case run_stage ex StageBuild FailureBuild ''build'' ([], Map.empty, Map.empty) of
            (failures, details, metrics) \<Rightarrow>
              if failures \<noteq> [] then newVerdict now files failures details metrics started
              else (case run_stage ex StageMetrics FailureMetrics ''metrics''
                      (run_stage ex StageCertify FailureCertify ''certify''
                        (run_stage ex StageTests FailureTests ''tests''
                          (run_stage ex StageAST FailureASTAudit ''ast'' (failures, details, metrics)))) of
                    (failures, details, metrics) \<Rightarrow> newVerdict now files failures details metrics started)))"

section \<open>Metrics\<close>

record MetricsSnapshot =
  ms_CCByFunc :: "(string \<times> int) list"
  ms_LOCByFile :: "(string \<times> int) list"
  ms_TestsByPkg :: "(string \<times> int) list"
  ms_CapturedAt :: time

record MetricsDeltaReport =
  mr_Passed :: bool
  mr_CCAvgBefore :: real
  mr_CCAvgAfter :: real
  mr_CCAvgDelta :: real
  mr_CCRegressedFns :: "string list"
  mr_LOCBefore :: int
  mr_LOCAfter :: int
  mr_LOCDelta :: int
  mr_LOCBloatedFiles :: "string list"
  mr_TestsBefore :: int
  mr_TestsAfter :: int
  mr_TestsDelta :: int
  mr_TestsDroppedPkgs :: "string list"
  mr_Reasons :: "string list"

definition locBloatMinLines :: int where "locBloatMinLines = 50"
definition locBloatGrowthPct :: real where "locBloatGrowthPct = 1 / 2"

definition avgCC :: "(string \<times> int) list \<Rightarrow> real" where
  "avgCC m = (if length m = 0 then 0 else real_of_int (sum_list (List.map snd m)) / real (length m))"

definition diffCC :: "MetricsSnapshot \<Rightarrow> MetricsSnapshot \<Rightarrow> MetricsDeltaReport \<Rightarrow> MetricsDeltaReport" where
  "diffCC before after rpt =
     (let r1 = rpt\<lparr>mr_CCAvgBefore := avgCC (ms_CCByFunc before), mr_CCAvgAfter := avgCC (ms_CCByFunc after)\<rparr>;
          r2 = r1\<lparr>mr_CCAvgDelta := mr_CCAvgAfter r1 - mr_CCAvgBefore r1\<rparr>
      in r2\<lparr>mr_CCRegressedFns := sort (mr_CCRegressedFns r2 @
             List.map fst (filter (\<lambda>(fn, ccBefore). case map_of (ms_CCByFunc after) fn of
                                     None \<Rightarrow> False | Some ccAfter \<Rightarrow> ccAfter > ccBefore) (ms_CCByFunc before)))\<rparr>)"

definition diffLOC :: "MetricsSnapshot \<Rightarrow> MetricsSnapshot \<Rightarrow> MetricsDeltaReport \<Rightarrow> MetricsDeltaReport" where
  "diffLOC before after rpt =
     (let r1 = rpt\<lparr>mr_LOCBefore := mr_LOCBefore rpt + sum_list (List.map snd (ms_LOCByFile before)),
                   mr_LOCAfter := mr_LOCAfter rpt + sum_list (List.map snd (ms_LOCByFile after))\<rparr>;
          r2 = r1\<lparr>mr_LOCDelta := mr_LOCAfter r1 - mr_LOCBefore r1\<rparr>
      in r2\<lparr>mr_LOCBloatedFiles := sort (mr_LOCBloatedFiles r2 @
             List.map fst (filter (\<lambda>(f, locBefore). case map_of (ms_LOCByFile after) f of
                                     None \<Rightarrow> False
                                   | Some locAfter \<Rightarrow> \<not> (locBefore < locBloatMinLines) \<and>
                                       real_of_int (locAfter - locBefore) / real_of_int locBefore > locBloatGrowthPct)
                             (ms_LOCByFile before)))\<rparr>)"

definition diffTests :: "MetricsSnapshot \<Rightarrow> MetricsSnapshot \<Rightarrow> MetricsDeltaReport \<Rightarrow> MetricsDeltaReport" where
  "diffTests before after rpt =
     (let r1 = rpt\<lparr>mr_TestsBefore := mr_TestsBefore rpt + sum_list (List.map snd (ms_TestsByPkg before)),
                   mr_TestsAfter := mr_TestsAfter rpt + sum_list (List.map snd (ms_TestsByPkg after))\<rparr>;
          r2 = r1\<lparr>mr_TestsDelta := mr_TestsAfter r1 - mr_TestsBefore r1\<rparr>
      in r2\<lparr>mr_TestsDroppedPkgs := sort (mr_TestsDroppedPkgs r2 @
             List.map fst (filter (\<lambda>(pkg, testsBefore).
                (case map_of (ms_TestsByPkg after) pkg of None \<Rightarrow> 0 | Some n \<Rightarrow> n) < testsBefore)
                             (ms_TestsByPkg before)))\<rparr>)"

definition collectReasons :: "MetricsDeltaReport \<Rightarrow> MetricsDeltaReport" where
  "collectReasons rpt =
     (let r1 = (if mr_CCRegressedFns rpt \<noteq> []
                then rpt\<lparr>mr_Passed := False, mr_Reasons := mr_Reasons rpt @
                  [''cc regressed in '' @ dec (length (mr_CCRegressedFns rpt)) @ '' function(s)'']\<rparr>
                else rpt);
          r2 = (if mr_LOCBloatedFiles r1 \<noteq> []
                then r1\<lparr>mr_Passed := False, mr_Reasons := mr_Reasons r1 @
                  [''loc bloated in '' @ dec (length (mr_LOCBloatedFiles r1)) @ '' file(s)'']\<rparr>
                else r1)
      in if mr_TestsDroppedPkgs r2 \<noteq> []
         then r2\<lparr>mr_Passed := False, mr_Reasons := mr_Reasons r2 @
             [if mr_TestsDelta r2 < 0 then ''test count dropped by '' @ dec_int (- mr_TestsDelta r2)
              else ''tests dropped in '' @ dec (length (mr_TestsDroppedPkgs r2)) @ '' package(s)'']\<rparr>
         else r2)"

definition empty_report :: MetricsDeltaReport where
  "empty_report = \<lparr>mr_Passed = True, mr_CCAvgBefore = 0, mr_CCAvgAfter = 0, mr_CCAvgDelta = 0, mr_CCRegressedFns = [],
     mr_LOCBefore = 0, mr_LOCAfter = 0, mr_LOCDelta = 0, mr_LOCBloatedFiles = [], mr_TestsBefore = 0,
     mr_TestsAfter = 0, mr_TestsDelta = 0, mr_TestsDroppedPkgs = [], mr_Reasons = []\<rparr>"

definition MetricsDelta :: "MetricsSnapshot \<Rightarrow> MetricsSnapshot \<Rightarrow> MetricsDeltaReport" where
  "MetricsDelta before after =
     collectReasons (diffTests before after (diffLOC before after (diffCC before after empty_report)))"

section \<open>Lemmas\<close>

lemma sev_fold:
  "fold sev_step fs f =
     \<lparr>sf_build = (sf_build f \<or> FailureBuild \<in> set fs), sf_certify = (sf_certify f \<or> FailureCertify \<in> set fs),
      sf_tests = (sf_tests f \<or> FailureTests \<in> set fs), sf_ast = (sf_ast f \<or> FailureASTAudit \<in> set fs),
      sf_metricsOnly = (sf_metricsOnly f \<and> set fs \<subseteq> {FailureMetrics})\<rparr>"
proof (induction fs arbitrary: f)
  case Nil
  then show ?case by (cases f) simp
next
  case (Cons k fs)
  then show ?case by (cases k) auto
qed

lemma severity_cases:
  "computeSeverity fs =
     (if fs = [] then SeverityPass
      else if FailureBuild \<in> set fs \<or> FailureCertify \<in> set fs then SeverityFailFatal
      else if set fs \<subseteq> {FailureMetrics} then SeverityPassWithWarnings
      else SeverityFailRecoverable)"
  by (auto simp: computeSeverity_def sev_fold Let_def)

lemma run_stage_failures:
  "fst (run_stage ex st kind name acc) =
     fst acc @ (if so_Passed (fst (ex st)) \<and> snd (ex st) = None then [] else [kind])"
  by (auto simp: run_stage_def Let_def split: prod.splits)

abbreviation stage_ok :: "executor \<Rightarrow> stage \<Rightarrow> bool" where
  "stage_ok ex st \<equiv> so_Passed (fst (ex st)) \<and> snd (ex st) = None"

lemma pipeline_failures:
  assumes "ws \<noteq> ''''" "files \<noteq> []"
  shows "av_Failures (RunAuditPipeline started now ws files (Some ex)) =
    (if \<not> stage_ok ex StageBuild then [FailureBuild]
     else (if stage_ok ex StageAST then [] else [FailureASTAudit]) @
          (if stage_ok ex StageTests then [] else [FailureTests]) @
          (if stage_ok ex StageCertify then [] else [FailureCertify]) @
          (if stage_ok ex StageMetrics then [] else [FailureMetrics]))"
proof -
  have f: "av_Failures (newVerdict a b fs d m e) = fs" for a b fs d m e
    by (simp add: newVerdict_def Let_def)
  obtain fs d m where b: "run_stage ex StageBuild FailureBuild ''build'' ([], Map.empty, Map.empty) = (fs, d, m)"
    by (metis prod_cases3)
  have fs: "fs = (if stage_ok ex StageBuild then [] else [FailureBuild])"
    using run_stage_failures [of ex StageBuild FailureBuild "''build''" "([], Map.empty, Map.empty)"] b by simp
  let ?r = "run_stage ex StageMetrics FailureMetrics ''metrics''
                      (run_stage ex StageCertify FailureCertify ''certify''
                        (run_stage ex StageTests FailureTests ''tests''
                          (run_stage ex StageAST FailureASTAudit ''ast'' (fs, d, m))))"
  have "av_Failures (RunAuditPipeline started now ws files (Some ex)) = (if fs \<noteq> [] then fs else fst ?r)"
    using assms b f by (simp add: RunAuditPipeline_def split: prod.splits)
  then show ?thesis unfolding run_stage_failures fs by simp
qed

lemma verdict_severity:
  "av_Severity (RunAuditPipeline started now ws files exec) = computeSeverity (av_Failures (RunAuditPipeline started now ws files exec)) \<and>
   av_Passed (RunAuditPipeline started now ws files exec) = (av_Severity (RunAuditPipeline started now ws files exec) = SeverityPass)"
  by (simp add: RunAuditPipeline_def newVerdict_def Let_def split: option.splits prod.splits)

section \<open>Properties\<close>

text \<open>
  The verdict of an audit is decided by which stages failed: it passes exactly when all
  five stages do, it is fatal exactly when the build or the certification failed, and it
  passes with warnings exactly when only the metrics did; without an executor, a workspace
  or files it is fatal.
\<close>

theorem audit_verdict:
  "(let v = RunAuditPipeline started now ws files exec
    in case exec of
         None \<Rightarrow> av_Severity v = SeverityFailFatal
       | Some ex \<Rightarrow>
           if ws = '''' \<or> files = [] then av_Severity v = SeverityFailFatal
           else av_Passed v = (\<forall>st. stage_ok ex st) \<and>
             (av_Severity v = SeverityFailFatal) = (\<not> (stage_ok ex StageBuild \<and> stage_ok ex StageCertify)) \<and>
             (av_Severity v = SeverityPassWithWarnings) =
               ((\<forall>st. stage_ok ex st = (st \<noteq> StageMetrics))))"
proof (cases "exec = None \<or> ws = '''' \<or> files = []")
  case True
  then show ?thesis
    by (auto simp: RunAuditPipeline_def newVerdict_def Let_def severity_cases split: option.splits)
next
  case False
  then obtain ex where ex: "exec = Some ex" "ws \<noteq> ''''" "files \<noteq> []" by auto
  have all: "(\<forall>st. P st) = (P StageBuild \<and> P StageAST \<and> P StageTests \<and> P StageCertify \<and> P StageMetrics)" for P
    by (metis stage.exhaust)
  show ?thesis
    using verdict_severity [of started now ws files exec] pipeline_failures [OF ex(2,3), of started now ex]
    unfolding ex(1) by (simp add: Let_def ex all severity_cases)
qed

text \<open>
  The metrics gate is exact: it passes exactly when no function's complexity grew, no file
  of at least 50 lines grew by more than half, and no package lost tests, and it gives a
  reason exactly when it fails.
\<close>

theorem metrics_gate:
  "(let r = MetricsDelta before after
    in mr_Passed r =
       (list_all (\<lambda>(fn, cc). case map_of (ms_CCByFunc after) fn of None \<Rightarrow> True | Some cc' \<Rightarrow> cc' \<le> cc) (ms_CCByFunc before) \<and>
        list_all (\<lambda>(f, n). case map_of (ms_LOCByFile after) f of None \<Rightarrow> True
            | Some n' \<Rightarrow> n < 50 \<or> 2 * (n' - n) \<le> n) (ms_LOCByFile before) \<and>
        list_all (\<lambda>(p, n). n \<le> (case map_of (ms_TestsByPkg after) p of None \<Rightarrow> 0 | Some n' \<Rightarrow> n')) (ms_TestsByPkg before)) \<and>
       (mr_Reasons r = []) = mr_Passed r)"
proof -
  let ?r = "diffTests before after (diffLOC before after (diffCC before after empty_report))"
  have fs: "mr_CCRegressedFns ?r = sort (List.map fst (filter (\<lambda>(fn, ccBefore). case map_of (ms_CCByFunc after) fn of
          None \<Rightarrow> False | Some ccAfter \<Rightarrow> ccAfter > ccBefore) (ms_CCByFunc before)))"
    "mr_LOCBloatedFiles ?r = sort (List.map fst (filter (\<lambda>(f, locBefore). case map_of (ms_LOCByFile after) f of
          None \<Rightarrow> False | Some locAfter \<Rightarrow> \<not> (locBefore < locBloatMinLines) \<and>
            real_of_int (locAfter - locBefore) / real_of_int locBefore > locBloatGrowthPct) (ms_LOCByFile before)))"
    "mr_TestsDroppedPkgs ?r = sort (List.map fst (filter (\<lambda>(pkg, testsBefore).
          (case map_of (ms_TestsByPkg after) pkg of None \<Rightarrow> 0 | Some n \<Rightarrow> n) < testsBefore) (ms_TestsByPkg before)))"
    "mr_Passed ?r" "mr_Reasons ?r = []"
    by (simp_all add: diffCC_def diffLOC_def diffTests_def empty_report_def Let_def)
  have "mr_Passed (collectReasons r) = (mr_CCRegressedFns r = [] \<and> mr_LOCBloatedFiles r = [] \<and> mr_TestsDroppedPkgs r = []) \<and>
      (mr_Reasons (collectReasons r) = []) = mr_Passed (collectReasons r)"
    if "mr_Passed r" "mr_Reasons r = []" for r
    using that by (simp add: collectReasons_def Let_def)
  note c = this [OF fs(4,5)]
  have nil: "(sort (List.map fst (filter P xs)) = []) = list_all (\<lambda>x. \<not> P x) xs" for P and xs :: "(string \<times> int) list"
  proof -
    have "(sort (List.map fst (filter P xs)) = []) = (filter P xs = [])" by (metis map_is_Nil_conv set_empty set_sort)
    then show ?thesis by (simp add: filter_empty_conv list_all_iff)
  qed
  have grow: "(real_of_int (b - a) / real_of_int a > locBloatGrowthPct) = (2 * (b - a) > a)" if "50 \<le> a" for a b :: int
  proof -
    have "(real_of_int (b - a) / real_of_int a > 1 / 2) = (real_of_int (2 * (b - a)) > real_of_int a)"
      using that by (simp add: field_simps)
    then show ?thesis by (simp only: locBloatGrowthPct_def of_int_less_iff)
  qed
  have loc: "list_all (\<lambda>x. \<not> (case x of (f, locBefore) \<Rightarrow> case map_of (ms_LOCByFile after) f of
          None \<Rightarrow> False | Some locAfter \<Rightarrow> \<not> (locBefore < locBloatMinLines) \<and>
            real_of_int (locAfter - locBefore) / real_of_int locBefore > locBloatGrowthPct)) (ms_LOCByFile before) =
      list_all (\<lambda>(f, n). case map_of (ms_LOCByFile after) f of None \<Rightarrow> True
            | Some n' \<Rightarrow> n < 50 \<or> 2 * (n' - n) \<le> n) (ms_LOCByFile before)"
    using grow by (intro list.pred_cong refl)
      (auto simp: locBloatMinLines_def not_less split: option.splits)
  have cc: "list_all (\<lambda>x. \<not> (case x of (fn, ccBefore) \<Rightarrow> case map_of (ms_CCByFunc after) fn of
          None \<Rightarrow> False | Some ccAfter \<Rightarrow> ccAfter > ccBefore)) (ms_CCByFunc before) =
      list_all (\<lambda>(fn, cc). case map_of (ms_CCByFunc after) fn of None \<Rightarrow> True | Some cc' \<Rightarrow> cc' \<le> cc) (ms_CCByFunc before)"
    by (intro list.pred_cong refl) (auto split: option.splits)
  have ts: "list_all (\<lambda>x. \<not> (case x of (pkg, testsBefore) \<Rightarrow>
          (case map_of (ms_TestsByPkg after) pkg of None \<Rightarrow> 0 | Some n \<Rightarrow> n) < testsBefore)) (ms_TestsByPkg before) =
      list_all (\<lambda>(p, n). n \<le> (case map_of (ms_TestsByPkg after) p of None \<Rightarrow> 0 | Some n' \<Rightarrow> n')) (ms_TestsByPkg before)"
    by (intro list.pred_cong refl) (auto simp: not_less)
  show ?thesis using c unfolding MetricsDelta_def Let_def fs(1-3) nil loc cc ts by blast
qed

end
