(* ===== verification/State_Mind.thy ===== *)
theory State_Mind
  imports State_Planner State_Memory
begin

text \<open>
  The cognitive stages of \<^verbatim>\<open>pkg/state/bloom.go\<close> and the causal memory of
  \<^verbatim>\<open>pkg/state/causal.go\<close>: the ring of recent errors and the reconstruction of intent chains.
\<close>

section \<open>Stages\<close>

record mind =
  md_stage :: u32
  md_researched :: bool
  md_analyzed :: bool

definition StageDefine :: u32 where "StageDefine = 1"
definition StageResearch :: u32 where "StageResearch = 2"
definition StageAnalyze :: u32 where "StageAnalyze = 3"
definition StageHypothesize :: u32 where "StageHypothesize = 4"

lemmas stage_defs = StageDefine_def StageResearch_def StageAnalyze_def StageHypothesize_def

definition mind_init :: mind where
  "mind_init = \<lparr>md_stage = StageDefine, md_researched = False, md_analyzed = False\<rparr>"

definition MarkResearched :: "mind \<Rightarrow> mind" where
  "MarkResearched m = m\<lparr>md_researched := True\<rparr>"

definition MarkAnalyzed :: "mind \<Rightarrow> mind" where
  "MarkAnalyzed m = m\<lparr>md_analyzed := True\<rparr>"

definition CanMutate :: "mind \<Rightarrow> bool" where
  "CanMutate m \<longleftrightarrow> md_stage m \<ge> StageHypothesize"

definition ForceStage :: "u32 \<Rightarrow> mind \<Rightarrow> mind" where
  "ForceStage stage m = m\<lparr>md_stage := stage\<rparr>"

definition GetCurrent :: "mind \<Rightarrow> u32" where
  "GetCurrent m = md_stage m"

definition veto_research :: string where
  "veto_research = ''[SRE-VETO] Fase 2 (Research) denegada. El Agente no ha usado neo_generate_tasks ni neo_get_next_task. '' @
     ''Se proh'' @ [CHR 0xC3, CHR 0xAD] @ ''be investigar sin un BoltDB Pipeline activo (Pending Queue == 0)''"

definition veto_analyze :: string where
  "veto_analyze = ''[SRE-VETO] Fase 3 (Analyze) denegada. El Agente no ha invocado neo_search_context para investigar en Fase 2''"

definition veto_hypothesize :: string where
  "veto_hypothesize = ''[SRE-VETO] Fase 4 (Hypothesize) denegada. El Agente no ha invocado neo_evaluate_plan para validar la arquitectura en Fase 3''"

definition skip_msg :: "u32 \<Rightarrow> u32 \<Rightarrow> string" where
  "skip_msg current stage = ''no se pueden saltar fases cognitivas hacia adelante (intento: '' @ dec (unat current) @
     '' -> '' @ dec (unat stage) @ '')''"

text \<open>The flags are reset before the checks, so a veto leaves them reset.\<close>

definition AdvanceTo :: "('b, doc) bolt \<Rightarrow> u32 \<Rightarrow> 'b planner \<Rightarrow> mind \<Rightarrow> error option \<times> mind" where
  "AdvanceTo B stage s m =
     (let current = md_stage m
      in if stage > current + 1 then (Some (Err (skip_msg current stage)), m)
         else (let m1 = (if stage \<le> StageResearch then m\<lparr>md_researched := False, md_analyzed := False\<rparr>
                         else if stage \<le> StageAnalyze then m\<lparr>md_analyzed := False\<rparr>
                         else m)
               in if stage = StageResearch \<and> p_online s \<and> fst (GetPlannerState B s) = 0
                  then (Some (Err veto_research), m1)
                  else if stage = StageAnalyze \<and> \<not> md_researched m1 then (Some (Err veto_analyze), m1)
                  else if stage = StageHypothesize \<and> \<not> md_analyzed m1 then (Some (Err veto_hypothesize), m1)
                  else (None, m1\<lparr>md_stage := stage\<rparr>)))"

section \<open>Recent errors\<close>

record errorRing =
  er_buf :: "string list"
  er_head :: nat
  er_count :: nat

definition errorRing_init :: errorRing where
  "errorRing_init = \<lparr>er_buf = replicate 8 '''', er_head = 0, er_count = 0\<rparr>"

definition RecordError :: "string \<Rightarrow> errorRing \<Rightarrow> errorRing" where
  "RecordError msg r =
     r\<lparr>er_buf := (er_buf r)[er_head r mod 8 := msg], er_head := er_head r + 1,
       er_count := (if er_count r < 8 then er_count r + 1 else er_count r)\<rparr>"

text \<open>\<^verbatim>\<open>recentErrors\<close>; \<^verbatim>\<open>make\<close> panics for a negative length.\<close>

definition recentErrors :: "int \<Rightarrow> errorRing \<Rightarrow> string list outcome" where
  "recentErrors n r =
     (let n1 = (if n > 5 then 5 else n);
          n2 = (if n1 > int (er_count r) then int (er_count r) else n1)
      in if n2 = 0 then Ret []
         else if n2 < 0 then Panic
         else (let start = nat ((int (er_head r) - n2 + 8) mod 8)
               in Ret (List.map (\<lambda>i. er_buf r ! ((start + i) mod 8)) [0..<nat n2])))"

section \<open>Intent chains\<close>

record CausalChainEntry =
  ch_EntryID :: string
  ch_Topic :: string
  ch_Content :: string
  ch_Timestamp :: int
  ch_Causal :: "CausalContext option"
  ch_Depth :: nat

definition getMemexByID :: "('b, doc) bolt \<Rightarrow> string \<Rightarrow> 'b planner \<Rightarrow> error + MemexEntry" where
  "getMemexByID B mid s =
     (if \<not> p_online s then Inl (Err ''planner DB not initialized'')
      else case (case p_buckets s memexBucket of
                   None \<Rightarrow> None
                 | Some b \<Rightarrow> List.find (\<lambda>e. m_ID e = mid) (decode un_memex (bk_items B b))) of
             None \<Rightarrow> Inl (Err (''memex entry '' @ mid @ '' not found''))
           | Some e \<Rightarrow> Inr e)"

definition chain_entry :: "nat \<Rightarrow> MemexEntry \<Rightarrow> CausalChainEntry" where
  "chain_entry depth e =
     \<lparr>ch_EntryID = m_ID e, ch_Topic = m_Topic e, ch_Content = m_Content e, ch_Timestamp = m_Timestamp e,
      ch_Causal = m_Causal e, ch_Depth = depth\<rparr>"

text \<open>The loop: \<open>fuel\<close> is the number of rounds left, ten at the start.\<close>

fun chain_loop ::
    "('b, doc) bolt \<Rightarrow> 'b planner \<Rightarrow> nat \<Rightarrow> nat \<Rightarrow> string \<Rightarrow> string list \<Rightarrow> CausalChainEntry list" where
  "chain_loop B s 0 depth cur visited = []"
| "chain_loop B s (Suc fuel) depth cur visited =
     (if cur = '''' \<or> cur \<in> set visited then []
      else case getMemexByID B cur s of
        Inl _ \<Rightarrow> []
      | Inr e \<Rightarrow>
          chain_entry depth e #
          (case m_Causal e of
             None \<Rightarrow> []
           | Some c \<Rightarrow>
               if cc_ParentID c = '''' then []
               else chain_loop B s fuel (depth + 1) (cc_ParentID c) (cur # visited)))"

definition ReconstructIntentChain ::
    "('b, doc) bolt \<Rightarrow> string \<Rightarrow> 'b planner \<Rightarrow> error + CausalChainEntry list" where
  "ReconstructIntentChain B targetID s =
     (if \<not> p_online s then Inl (Err ''planner DB not initialized'')
      else Inr (chain_loop B s 10 0 targetID []))"

definition safeGetTrigger :: "CausalContext option \<Rightarrow> string" where
  "safeGetTrigger c =
     (case c of None \<Rightarrow> ''unknown'' | Some x \<Rightarrow> if cc_TriggerEvent x = '''' then ''unknown'' else cc_TriggerEvent x)"

section \<open>Stage histories\<close>

datatype mind_op = OpAdvance u32 | OpResearched | OpAnalyzed

fun mind_step :: "('b, doc) bolt \<Rightarrow> 'b planner \<Rightarrow> mind_op \<Rightarrow> mind \<Rightarrow> mind" where
  "mind_step B s (OpAdvance st) m = snd (AdvanceTo B st s m)"
| "mind_step B s OpResearched m = MarkResearched m"
| "mind_step B s OpAnalyzed m = MarkAnalyzed m"

text \<open>A history pairs each operation with the planner state it runs in.\<close>

definition mind_run :: "('b, doc) bolt \<Rightarrow> ('b planner \<times> mind_op) list \<Rightarrow> mind \<Rightarrow> mind" where
  "mind_run B h m = fold (\<lambda>(s, op). mind_step B s op) h m"

lemma mind_run_snoc: "mind_run B (h @ [(s, op)]) m = mind_step B s op (mind_run B h m)"
  by (simp add: mind_run_def)

definition mind_ok :: "mind_op set \<Rightarrow> mind \<Rightarrow> bool" where
  "mind_ok seen m \<longleftrightarrow>
     (md_researched m \<longrightarrow> OpResearched \<in> seen) \<and> (md_analyzed m \<longrightarrow> OpAnalyzed \<in> seen) \<and>
     (StageAnalyze \<le> md_stage m \<longrightarrow> OpResearched \<in> seen) \<and>
     (StageHypothesize \<le> md_stage m \<longrightarrow> OpAnalyzed \<in> seen)"

lemma stage_succ:
  fixes st cur :: u32
  assumes "\<not> cur + 1 < st" "3 \<le> st" "st \<noteq> 3"
  shows "3 \<le> cur" "4 \<le> st" "st \<noteq> 4 \<Longrightarrow> 4 \<le> cur"
  using assms by unat_arith+

lemma mind_ok_advance:
  assumes "mind_ok seen m"
  shows "mind_ok seen (snd (AdvanceTo B st s m))"
proof (cases "md_stage m + 1 < st")
  case True
  then show ?thesis using assms by (simp add: AdvanceTo_def Let_def)
next
  case False
  note ss = stage_succ [OF False]
  have "st \<le> 2 \<or> st = 3 \<or> st = 4 \<or> 3 \<le> st \<and> st \<noteq> 3 \<and> st \<noteq> 4"
    by (cases "3 \<le> st") (auto simp: word_le_nat_alt unat_arith_simps)
  moreover have "\<not> (3 \<le> st) \<and> \<not> 4 \<le> st" if "st \<le> 2" using that by unat_arith
  ultimately show ?thesis
    using assms False ss by (auto simp: AdvanceTo_def mind_ok_def stage_defs Let_def)
qed

lemma mind_ok_mono: "mind_ok seen m \<Longrightarrow> seen \<subseteq> seen' \<Longrightarrow> mind_ok seen' m"
  by (auto simp: mind_ok_def)

lemma mind_ok_step: "mind_ok seen m \<Longrightarrow> mind_ok (insert op seen) (mind_step B s op m)"
proof (cases op)
  case (OpAdvance st)
  assume "mind_ok seen m"
  then show ?thesis using OpAdvance mind_ok_advance [of seen m B st s] by (auto intro: mind_ok_mono)
qed (auto simp: mind_ok_def MarkResearched_def MarkAnalyzed_def)

lemma mind_ok_run: "mind_ok (snd ` set h) (mind_run B h mind_init)"
proof (induction h rule: rev_induct)
  case Nil
  have "\<not> 3 \<le> (1 :: u32)" "\<not> 4 \<le> (1 :: u32)" by unat_arith+
  then show ?case by (simp add: mind_run_def mind_ok_def mind_init_def stage_defs)
next
  case (snoc x h)
  then show ?case using mind_ok_step by (cases x) (simp add: mind_run_snoc)
qed

section \<open>Error ring\<close>

text \<open>After recording \<open>hs\<close>, the slot of each of the last eight events holds it.\<close>

lemma error_ring_inv:
  "(let r = fold RecordError hs errorRing_init
    in er_head r = length hs \<and> er_count r = min 8 (length hs) \<and> length (er_buf r) = 8 \<and>
       (\<forall>j < length hs. length hs \<le> j + 8 \<longrightarrow> er_buf r ! (j mod 8) = hs ! j))"
proof (induction hs rule: rev_induct)
  case Nil
  then show ?case by (simp add: errorRing_init_def)
next
  case (snoc x hs)
  let ?r = "fold RecordError hs errorRing_init"
  have IH: "er_head ?r = length hs" "er_count ?r = min 8 (length hs)" "length (er_buf ?r) = 8"
    "\<And>j. j < length hs \<Longrightarrow> length hs \<le> j + 8 \<Longrightarrow> er_buf ?r ! (j mod 8) = hs ! j"
    using snoc.IH by (simp_all add: Let_def)
  have slot: "((er_buf ?r)[length hs mod 8 := x]) ! (j mod 8) = (hs @ [x]) ! j"
    if "j < Suc (length hs)" "Suc (length hs) \<le> j + 8" for j
  proof (cases "j = length hs")
    case True
    then show ?thesis using IH(3) by (simp add: nth_append)
  next
    case False
    then have j: "j < length hs" "length hs - j < 8" using that by auto
    have "length hs mod 8 \<noteq> j mod 8"
    proof
      assume "length hs mod 8 = j mod 8"
      then have "(length hs - j) mod 8 = 0" using j(1) by (metis mod_eq_dvd_iff_nat less_imp_le_nat mod_0_imp_dvd dvd_imp_mod_0)
      then show False using j by simp
    qed
    then show ?thesis using IH(4) [of j] IH(3) that j by (simp add: nth_append)
  qed
  have step: "fold RecordError (hs @ [x]) errorRing_init = RecordError x ?r" by simp
  have "er_head (RecordError x ?r) = Suc (length hs)" "er_count (RecordError x ?r) = min 8 (Suc (length hs))"
    "length (er_buf (RecordError x ?r)) = 8" "er_buf (RecordError x ?r) = (er_buf ?r)[length hs mod 8 := x]"
    using IH(1,2,3) by (simp_all only: RecordError_def errorRing.simps) auto
  then show ?case using slot by (simp only: step Let_def length_append_singleton) blast
qed

section \<open>Properties\<close>

text \<open>
  C11: the agent cannot reach a stage that allows mutations by skipping: in any history of
  stage changes and markers from the start (without \<^verbatim>\<open>ForceStage\<close>), whatever the planner held
  at each point, \<^verbatim>\<open>CanMutate\<close> implies that both the research and the analysis marker were set.
\<close>

theorem no_mutation_without_analysis:
  assumes "CanMutate (mind_run B h mind_init)"
  shows "OpResearched \<in> snd ` set h \<and> OpAnalyzed \<in> snd ` set h"
proof -
  have "StageHypothesize \<le> md_stage (mind_run B h mind_init)" using assms by (simp add: CanMutate_def)
  moreover from this have "StageAnalyze \<le> md_stage (mind_run B h mind_init)"
    unfolding stage_defs by unat_arith
  ultimately show ?thesis using mind_ok_run [of h B] by (simp add: mind_ok_def)
qed

definition offline_planner :: "(string \<times> doc) list planner" where
  "offline_planner = \<lparr>p_online = False, p_buckets = Map.empty, p_workspace = [], p_tenant = [],
     p_hook = False, p_closed = 0, p_plan = None\<rparr>"

definition careful_session :: "((string \<times> doc) list planner \<times> mind_op) list" where
  "careful_session = List.map (\<lambda>op. (offline_planner, op))
     [OpAdvance StageResearch, OpResearched, OpAdvance StageAnalyze, OpAnalyzed, OpAdvance StageHypothesize]"

theorem no_mutation_without_analysis_witness:
  "CanMutate (mind_run list_bolt careful_session mind_init) \<and>
   OpResearched \<in> snd ` set careful_session \<and> OpAnalyzed \<in> snd ` set careful_session"
proof -
  have "CanMutate (mind_run list_bolt careful_session mind_init)"
    by (simp add: careful_session_def mind_run_def AdvanceTo_def mind_init_def stage_defs MarkResearched_def
      MarkAnalyzed_def CanMutate_def offline_planner_def Let_def)
  from this no_mutation_without_analysis [OF this] show ?thesis by blast
qed

text \<open>
  the errors attached to a memory are the most recent ones: after any number of recorded
  errors \<^verbatim>\<open>recentErrors\<close> returns the last five (or all, when fewer), oldest first.
\<close>

theorem recent_errors_exact:
  "recentErrors 5 (fold RecordError hs errorRing_init) = Ret (drop (length hs - 5) hs)"
proof -
  let ?r = "fold RecordError hs errorRing_init"
  have r: "er_head ?r = length hs" "er_count ?r = min 8 (length hs)" "length (er_buf ?r) = 8"
    "\<And>j. j < length hs \<Longrightarrow> length hs \<le> j + 8 \<Longrightarrow> er_buf ?r ! (j mod 8) = hs ! j"
    using error_ring_inv [of hs] by (simp_all add: Let_def)
  define n where "n = min 5 (length hs)"
  have n2: "(if (5::int) > int (er_count ?r) then int (er_count ?r) else 5) = int n"
    using r(2) by (auto simp: n_def min_def)
  show ?thesis
  proof (cases "n = 0")
    case True
    then have "hs = []" by (simp add: n_def min_def split: if_splits)
    then show ?thesis by (simp add: recentErrors_def Let_def errorRing_init_def)
  next
    case False
    have le: "n \<le> length hs" "n \<le> 5" by (simp_all add: n_def)
    have st: "nat ((int (length hs) - int n + 8) mod 8) = (length hs - n) mod 8"
    proof -
      have "(int (length hs) - int n + 8) mod 8 = int (length hs - n) mod 8" using le by (simp add: of_nat_diff)
      also have "\<dots> = int ((length hs - n) mod 8)" by (simp add: zmod_int)
      finally show ?thesis by simp
    qed
    have slot: "er_buf ?r ! (((length hs - n) mod 8 + i) mod 8) = hs ! (length hs - n + i)" if "i < n" for i
    proof -
      have "((length hs - n) mod 8 + i) mod 8 = (length hs - n + i) mod 8" by (simp add: mod_simps)
      then show ?thesis using r(4) [of "length hs - n + i"] that le by simp
    qed
    have "recentErrors 5 ?r = Ret (List.map (\<lambda>i. hs ! (length hs - n + i)) [0..<n])"
      using n2 False slot st r(1) by (simp add: recentErrors_def Let_def)
    also have "List.map (\<lambda>i. hs ! (length hs - n + i)) [0..<n] = drop (length hs - n) hs"
      using le by (intro nth_equalityI) auto
    also have "length hs - n = length hs - 5" by (simp add: n_def min_def)
    finally show ?thesis .
  qed
qed

lemma chain_loop_entry:
  "chain_loop B s fuel depth cur visited = c # cs \<Longrightarrow> ch_EntryID c = cur \<and> cur \<noteq> '''' \<and> cur \<notin> set visited"
  by (cases fuel)
    (auto simp: getMemexByID_def chain_entry_def find_Some_iff split: if_splits option.splits sum.splits)

fun chain_linked :: "CausalChainEntry list \<Rightarrow> bool" where
  "chain_linked (c # d # cs) =
     ((case ch_Causal c of None \<Rightarrow> False | Some x \<Rightarrow> cc_ParentID x = ch_EntryID d) \<and>
      ch_Depth d = ch_Depth c + 1 \<and> chain_linked (d # cs))"
| "chain_linked _ = True"

lemma chain_loop_ok:
  "length (chain_loop B s fuel depth cur visited) \<le> fuel \<and> chain_linked (chain_loop B s fuel depth cur visited) \<and>
   distinct (List.map ch_EntryID (chain_loop B s fuel depth cur visited)) \<and>
   set (List.map ch_EntryID (chain_loop B s fuel depth cur visited)) \<inter> set visited = {}"
proof (induction fuel arbitrary: depth cur visited)
  case 0
  then show ?case by simp
next
  case (Suc fuel)
  show ?case
  proof (cases "cur = '''' \<or> cur \<in> set visited")
    case True
    then show ?thesis by auto
  next
    case False
    show ?thesis
    proof (cases "getMemexByID B cur s")
      case (Inl x)
      then show ?thesis using False by simp
    next
      case (Inr e)
      then have id: "m_ID e = cur"
        by (auto simp: getMemexByID_def find_Some_iff split: if_splits option.splits)
      show ?thesis
      proof (cases "m_Causal e = None \<or> cc_ParentID (the (m_Causal e)) = ''''")
        case True
        then have "chain_loop B s (Suc fuel) depth cur visited = [chain_entry depth e]"
          using False Inr by (auto split: option.splits)
        then show ?thesis using False id by (simp add: chain_entry_def)
      next
        case par: False
        then obtain x where x: "m_Causal e = Some x" "cc_ParentID x \<noteq> ''''" by auto
        let ?rest = "chain_loop B s fuel (depth + 1) (cc_ParentID x) (cur # visited)"
        have eq: "chain_loop B s (Suc fuel) depth cur visited = chain_entry depth e # ?rest"
          using False Inr x by simp
        note IH = Suc.IH [of "depth + 1" "cc_ParentID x" "cur # visited"]
        have "chain_linked (chain_entry depth e # ?rest)"
        proof (cases ?rest)
          case (Cons d ds)
          have "ch_Depth d = depth + 1"
            using Cons by (cases fuel) (auto simp: chain_entry_def split: if_splits sum.splits)
          moreover have "ch_EntryID d = cc_ParentID x" using chain_loop_entry [OF Cons] by simp
          ultimately show ?thesis using IH Cons x by (simp add: chain_entry_def)
        qed simp
        then show ?thesis unfolding eq using IH id False by (auto simp: chain_entry_def)
      qed
    qed
  qed
qed

text \<open>
  C12: intent chains are well formed even over cyclic or corrupt memories: a reconstructed
  chain has at most ten entries, never repeats one, starts at the requested entry, and each
  entry names the next as its parent, one level deeper.
\<close>

theorem intent_chain_wf:
  "case ReconstructIntentChain B targetID s of
     Inl e \<Rightarrow> p_online s = False
   | Inr chain \<Rightarrow> length chain \<le> 10 \<and> distinct (List.map ch_EntryID chain) \<and> chain_linked chain \<and>
       (chain = [] \<or> ch_EntryID (hd chain) = targetID)"
  using chain_loop_ok [of B s 10 0 targetID "[]"] chain_loop_entry [of B s 10 0 targetID "[]"]
  by (cases "chain_loop B s 10 0 targetID []") (simp_all add: ReconstructIntentChain_def)

section \<open>Two observations\<close>

text \<open>A vetoed return to the research stage leaves the stage but has already cleared both markers.\<close>

lemma veto_clears_markers:
  assumes "p_online s" "fst (GetPlannerState B s) = 0" "\<not> md_stage m + 1 < StageResearch"
  shows "AdvanceTo B StageResearch s m = (Some (Err veto_research), m\<lparr>md_researched := False, md_analyzed := False\<rparr>)"
  using assms by (simp add: AdvanceTo_def Let_def)

text \<open>
  Chains are looked up in the default bucket only: under a tenant, a memory that was committed
  to the tenant's bucket is not found.
\<close>

lemma tenant_chain_empty:
  assumes "p_online s" "p_buckets s memexBucket = None"
  shows "ReconstructIntentChain B targetID s = Inr []"
proof -
  have "chain_loop B s (Suc fuel) 0 targetID [] = []" for fuel
    using assms by (simp add: getMemexByID_def)
  from this [of 9] show ?thesis using assms(1) by (simp add: ReconstructIntentChain_def eval_nat_numeral)
qed

end
