(* ===== verification/Swarm_Slots.thy ===== *)
theory Swarm_Slots
  imports Neo_Prelude
begin

text \<open>
  The fixed tables under the replicated counters and sets of \<^verbatim>\<open>pkg/swarm/crdt.go\<close>. A slot whose
  key is zero is free; used slots form a prefix. \<^verbatim>\<open>Add\<close> and \<^verbatim>\<open>Merge\<close> scan from the start and
  either update the slot of their key or claim the first free one. The locale \<open>slots\<close> takes
  the key of a slot and proves the scan once for every table.
\<close>

section \<open>Scanning\<close>

text \<open>
  The scan of \<^verbatim>\<open>Add\<close>: update the slot with the key by \<open>hit\<close>, or the first free slot by
  \<open>claim\<close>; \<^const>\<open>None\<close> when there is neither. Run by one goroutine, the compare-and-swap that
  claims a slot succeeds.
\<close>

fun place :: "('s \<Rightarrow> u64) \<Rightarrow> u64 \<Rightarrow> ('s \<Rightarrow> 's) \<Rightarrow> ('s \<Rightarrow> 's) \<Rightarrow> 's list \<Rightarrow> 's list option" where
  "place key k hit claim [] = None"
| "place key k hit claim (s # ss) =
     (if key s = k then Some (hit s # ss)
      else if key s = 0 then Some (claim s # ss)
      else case place key k hit claim ss of None \<Rightarrow> None | Some ss' \<Rightarrow> Some (s # ss'))"

text \<open>The lookup scan: the slot with the key, up to the first free slot.\<close>

fun seek :: "('s \<Rightarrow> u64) \<Rightarrow> u64 \<Rightarrow> 's list \<Rightarrow> 's option" where
  "seek key k [] = None"
| "seek key k (s # ss) =
     (if key s = k then Some s else if key s = 0 then None else seek key k ss)"

text \<open>The used prefix of a table, its keys, and the shape every table keeps.\<close>

definition used :: "('s \<Rightarrow> u64) \<Rightarrow> 's list \<Rightarrow> 's list" where
  "used key ss = takeWhile (\<lambda>s. key s \<noteq> 0) ss"

definition keys :: "('s \<Rightarrow> u64) \<Rightarrow> 's list \<Rightarrow> u64 set" where
  "keys key ss = set (List.map key (used key ss))"

definition table :: "('s \<Rightarrow> u64) \<Rightarrow> 's \<Rightarrow> 's list \<Rightarrow> bool" where
  "table key blank ss \<longleftrightarrow>
     distinct (List.map key (used key ss)) \<and> list_all (\<lambda>s. s = blank) (dropWhile (\<lambda>s. key s \<noteq> 0) ss)"

lemma used_simps [simp]:
  "used key [] = []"
  "used key (s # ss) = (if key s = 0 then [] else s # used key ss)"
  by (simp_all add: used_def)

lemma keys_simps [simp]:
  "keys key [] = {}"
  "keys key (s # ss) = (if key s = 0 then {} else insert (key s) (keys key ss))"
  by (simp_all add: keys_def)

lemma finite_keys [simp]: "finite (keys key ss)"
  by (simp add: keys_def)

lemma zero_not_key [simp]: "0 \<notin> keys key ss"
  by (induction ss) auto

lemma card_keys: "table key blank ss \<Longrightarrow> card (keys key ss) = length (used key ss)"
  by (metis keys_def table_def distinct_card length_map)

section \<open>The table contract\<close>

locale slots =
  fixes key :: "'s \<Rightarrow> u64" and blank :: 's
  assumes key_blank: "key blank = 0"
begin

lemma table_Cons:
  "table key blank (s # ss) =
     (if key s = 0 then s = blank \<and> list_all (\<lambda>s. s = blank) ss
      else key s \<notin> keys key ss \<and> table key blank ss)"
  by (simp add: table_def keys_def)

lemma table_blank: "list_all (\<lambda>s. s = blank) ss \<Longrightarrow> table key blank ss \<and> keys key ss = {}"
  by (cases ss) (auto simp: table_def key_blank)

lemma table_new: "table key blank (replicate n blank) \<and> keys key (replicate n blank) = {}"
  by (rule table_blank) (simp add: list_all_iff)

lemma seek_None: "k \<noteq> 0 \<Longrightarrow> (seek key k ss = None) = (k \<notin> keys key ss)"
  by (induction ss) auto

lemma seek_key: "seek key k ss = Some s \<Longrightarrow> key s = k"
  by (induction ss) (auto split: if_splits)

lemma seek_used: "seek key k ss = Some s \<Longrightarrow> k \<noteq> 0 \<Longrightarrow> s \<in> set (used key ss)"
  by (induction ss) (auto split: if_splits)

lemma seek_blank: "list_all (\<lambda>s. s = blank) ss \<Longrightarrow> k \<noteq> 0 \<Longrightarrow> seek key k ss = None"
  by (cases ss) (auto simp: key_blank)

text \<open>A scan that updates a slot keeps its key; one that claims a slot gives it the key.\<close>

definition fits :: "u64 \<Rightarrow> ('s \<Rightarrow> 's) \<Rightarrow> ('s \<Rightarrow> 's) \<Rightarrow> bool" where
  "fits k hit claim \<longleftrightarrow> k \<noteq> 0 \<and> (\<forall>s. key s = k \<longrightarrow> key (hit s) = k) \<and> key (claim blank) = k"

lemma place_ok:
  assumes "table key blank ss" "fits k hit claim" "k \<in> keys key ss \<or> card (keys key ss) < length ss"
  shows "\<exists>ss'. place key k hit claim ss = Some ss' \<and> table key blank ss' \<and> length ss' = length ss \<and>
    keys key ss' = insert k (keys key ss) \<and>
    (\<forall>k'. k' \<noteq> 0 \<longrightarrow> seek key k' ss' =
       (if k' = k then Some (case seek key k ss of Some s \<Rightarrow> hit s | None \<Rightarrow> claim blank) else seek key k' ss))"
  using assms
proof (induction ss)
  case Nil
  then show ?case by simp
next
  case (Cons s ss)
  note k = Cons.prems(2) [unfolded fits_def]
  show ?case
  proof (cases "key s = k \<or> key s = 0")
    case True
    show ?thesis
    proof (cases "key s = k")
      case True
      then have "place key k hit claim (s # ss) = Some (hit s # ss)" "key (hit s) = k" "k \<noteq> 0" using k by auto
      then show ?thesis using Cons.prems(1) True by (intro exI [of _ "hit s # ss"]) (auto simp: table_Cons)
    next
      case no: False
      then have free: "key s = 0" "s = blank" "list_all (\<lambda>s. s = blank) ss"
        using True Cons.prems(1) by (auto simp: table_Cons)
      then have "place key k hit claim (s # ss) = Some (claim blank # ss)" "table key blank ss" "keys key ss = {}"
        using no table_blank by auto
      then show ?thesis using k free no
        by (intro exI [of _ "claim blank # ss"]) (auto simp: table_Cons seek_blank)
    qed
  next
    case False
    then have wf: "key s \<notin> keys key ss" "table key blank ss" using Cons.prems(1) by (auto simp: table_Cons)
    then have "k \<in> keys key ss \<or> card (keys key ss) < length ss"
      using Cons.prems(3) False by auto
    from Cons.IH [OF wf(2) Cons.prems(2) this] obtain ss' where ss':
      "place key k hit claim ss = Some ss'" "table key blank ss'" "length ss' = length ss"
      "keys key ss' = insert k (keys key ss)"
      "\<And>k'. k' \<noteq> 0 \<Longrightarrow> seek key k' ss' =
         (if k' = k then Some (case seek key k ss of Some s \<Rightarrow> hit s | None \<Rightarrow> claim blank) else seek key k' ss)"
      by blast
    have "table key blank (s # ss')" using ss' wf False by (simp add: table_Cons)
    moreover have "keys key (s # ss') = insert k (keys key (s # ss))" using ss'(4) False by auto
    moreover have "place key k hit claim (s # ss) = Some (s # ss')" using ss'(1) False by simp
    moreover have "seek key k' (s # ss') = (if k' = k then Some (case seek key k (s # ss) of Some s \<Rightarrow> hit s
        | None \<Rightarrow> claim blank) else seek key k' (s # ss))" if "k' \<noteq> 0" for k'
      using ss'(5) [OF that] False by auto
    ultimately show ?thesis using ss'(3) by (intro exI [of _ "s # ss'"]) simp
  qed
qed

lemma place_full:
  assumes "k \<notin> keys key ss" "k \<noteq> 0" "length (used key ss) = length ss"
  shows "place key k hit claim ss = None"
  using assms
proof (induction ss)
  case (Cons s ss)
  have "key s \<noteq> 0" "length (used key ss) = length ss" using Cons.prems(3) by (auto split: if_splits)
  then show ?case using Cons by auto
qed simp

text \<open>Placing a list of used slots one after the other, as \<^verbatim>\<open>Merge\<close> does.\<close>

definition absorb :: "('s \<Rightarrow> 's \<Rightarrow> 's) \<Rightarrow> ('s \<Rightarrow> 's \<Rightarrow> 's) \<Rightarrow> 's list \<Rightarrow> 's list \<Rightarrow> 's list" where
  "absorb hit claim rs ss =
     fold (\<lambda>r ss. case place key (key r) (hit r) (claim r) ss of None \<Rightarrow> ss | Some ss' \<Rightarrow> ss') rs ss"

lemma absorb_ok:
  assumes "table key blank ss" "list_all (\<lambda>r. fits (key r) (hit r) (claim r)) rs"
    "distinct (List.map key rs)" "card (keys key ss \<union> key ` set rs) \<le> length ss"
  shows "table key blank (absorb hit claim rs ss) \<and> length (absorb hit claim rs ss) = length ss \<and>
    keys key (absorb hit claim rs ss) = keys key ss \<union> key ` set rs \<and>
    (\<forall>k. k \<noteq> 0 \<longrightarrow> seek key k (absorb hit claim rs ss) =
       (case List.find (\<lambda>r. key r = k) rs of
          None \<Rightarrow> seek key k ss
        | Some r \<Rightarrow> Some (case seek key k ss of Some s \<Rightarrow> hit r s | None \<Rightarrow> claim r blank)))"
  using assms
proof (induction rs arbitrary: ss)
  case Nil
  then show ?case by (simp add: absorb_def)
next
  case (Cons r rs)
  have f: "fits (key r) (hit r) (claim r)" using Cons.prems(2) by simp
  have "key r \<in> keys key ss \<or> card (keys key ss) < length ss"
  proof (rule disjCI)
    assume a: "\<not> card (keys key ss) < length ss"
    have "card (insert (key r) (keys key ss)) \<le> length ss"
      by (rule order_trans [OF card_mono Cons.prems(4)]) auto
    then show "key r \<in> keys key ss" using a by (cases "key r \<in> keys key ss") auto
  qed
  from place_ok [OF Cons.prems(1) f this] obtain ss' where ss':
    "place key (key r) (hit r) (claim r) ss = Some ss'" "table key blank ss'" "length ss' = length ss"
    "keys key ss' = insert (key r) (keys key ss)"
    "\<And>k. k \<noteq> 0 \<Longrightarrow> seek key k ss' =
       (if k = key r then Some (case seek key (key r) ss of Some s \<Rightarrow> hit r s | None \<Rightarrow> claim r blank) else seek key k ss)"
    by blast
  have step: "absorb hit claim (r # rs) ss = absorb hit claim rs ss'"
    using ss'(1) by (simp add: absorb_def)
  have un: "keys key ss' \<union> key ` set rs = keys key ss \<union> key ` set (r # rs)" using ss'(4) by auto
  have "key r' \<noteq> key r" if "r' \<in> set rs" for r'
    using Cons.prems(3) image_eqI [of "key r'" key r', OF refl that] by auto
  then have new: "List.find (\<lambda>r'. key r' = key r) rs = None"
    by (simp add: find_None_iff)
  have "list_all (\<lambda>r. fits (key r) (hit r) (claim r)) rs" "distinct (List.map key rs)"
    "card (keys key ss' \<union> key ` set rs) \<le> length ss'"
    using Cons.prems(2,3,4) un ss'(3) by simp_all
  from Cons.IH [OF ss'(2) this] show ?case
    unfolding step using ss'(3,5) un new by (auto split: option.splits)
qed

lemma find_seek: "k \<noteq> 0 \<Longrightarrow> List.find (\<lambda>r. key r = k) (used key ds) = seek key k ds"
  by (induction ds) auto

lemma used_keys: "key ` set (used key ds) = keys key ds"
  by (simp add: keys_def)

end

end
