(* ===== verification/Swarm_Crdt.thy ===== *)
theory Swarm_Crdt
  imports Swarm_Slots
begin

unbundle bit_operations_syntax

text \<open>
  The replicated data types of \<^verbatim>\<open>pkg/swarm\<close>: the counter and the last-writer-wins set of
  \<^verbatim>\<open>crdt.go\<close>, the file locks of \<^verbatim>\<open>lwwset.go\<close> and the router of \<^verbatim>\<open>gravity.go\<close>. Atomics are plain
  values: each operation runs alone, so every compare-and-swap succeeds. Clocks are arguments.
\<close>

section \<open>Counter\<close>

record NodeCount =
  nc_NodeID :: u64
  nc_P :: u64
  nc_N :: u64

type_synonym PNCounter = "NodeCount list"

definition zero_count :: NodeCount where
  "zero_count = \<lparr>nc_NodeID = 0, nc_P = 0, nc_N = 0\<rparr>"

text \<open>The zero value of the type, the state every replica starts in.\<close>

definition PNCounter_zero :: PNCounter where
  "PNCounter_zero = replicate 256 zero_count"

definition PNCounter_Add :: "u64 \<Rightarrow> u64 \<Rightarrow> u64 \<Rightarrow> PNCounter \<Rightarrow> PNCounter" where
  "PNCounter_Add nodeID p n c =
     (case place nc_NodeID nodeID
             (\<lambda>s. s\<lparr>nc_P := nc_P s + p, nc_N := nc_N s + n\<rparr>)
             (\<lambda>s. s\<lparr>nc_NodeID := nodeID, nc_P := nc_P s + p, nc_N := nc_N s + n\<rparr>) c of
        Some c' \<Rightarrow> c'
      | None \<Rightarrow> c)"

text \<open>The sum is an \<^verbatim>\<open>int64\<close>: it wraps, and is read as signed.\<close>

fun value_loop :: "u64 \<Rightarrow> PNCounter \<Rightarrow> u64" where
  "value_loop acc [] = acc"
| "value_loop acc (s # ss) =
     (if nc_NodeID s = 0 then acc else value_loop (acc + (nc_P s - nc_N s)) ss)"

definition PNCounter_Value :: "PNCounter \<Rightarrow> int" where
  "PNCounter_Value c = sint (value_loop 0 c)"

definition pn_hit :: "NodeCount \<Rightarrow> NodeCount \<Rightarrow> NodeCount" where
  "pn_hit r s = s\<lparr>nc_P := (if nc_P r \<le> nc_P s then nc_P s else nc_P r),
                  nc_N := (if nc_N r \<le> nc_N s then nc_N s else nc_N r)\<rparr>"

definition pn_claim :: "NodeCount \<Rightarrow> NodeCount \<Rightarrow> NodeCount" where
  "pn_claim r s = s\<lparr>nc_NodeID := nc_NodeID r, nc_P := nc_P r, nc_N := nc_N r\<rparr>"

fun pn_merge_loop :: "PNCounter \<Rightarrow> PNCounter \<Rightarrow> PNCounter" where
  "pn_merge_loop [] c = c"
| "pn_merge_loop (r # rs) c =
     (if nc_NodeID r = 0 then c
      else pn_merge_loop rs
        (case place nc_NodeID (nc_NodeID r) (pn_hit r) (pn_claim r) c of None \<Rightarrow> c | Some c' \<Rightarrow> c'))"

definition PNCounter_Merge :: "PNCounter \<Rightarrow> PNCounter \<Rightarrow> PNCounter" where
  "PNCounter_Merge remote c = pn_merge_loop remote c"

section \<open>Last-writer-wins set\<close>

record LWWElement =
  le_ItemHash :: u64
  le_Ts :: int
  le_IsAdded :: bool

record LWWSet =
  lw_Elems :: "LWWElement list"
  lw_Cursor :: u32

definition zero_elem :: LWWElement where
  "zero_elem = \<lparr>le_ItemHash = 0, le_Ts = 0, le_IsAdded = False\<rparr>"

definition LWWSet_zero :: LWWSet where
  "LWWSet_zero = \<lparr>lw_Elems = replicate 1024 zero_elem, lw_Cursor = 0\<rparr>"

definition lww_hit :: "int \<Rightarrow> bool \<Rightarrow> LWWElement \<Rightarrow> LWWElement" where
  "lww_hit ts isAdded e = (if ts \<le> le_Ts e then e else e\<lparr>le_Ts := ts, le_IsAdded := isAdded\<rparr>)"

definition lww_claim :: "u64 \<Rightarrow> int \<Rightarrow> bool \<Rightarrow> LWWElement \<Rightarrow> LWWElement" where
  "lww_claim hash ts isAdded e = e\<lparr>le_ItemHash := hash, le_Ts := ts, le_IsAdded := isAdded\<rparr>"

text \<open>The eviction tournament over a full table: four candidates, the oldest loses.\<close>

definition tournament :: "u32 \<Rightarrow> LWWElement list \<Rightarrow> nat" where
  "tournament c es =
     fst (fold (\<lambda>k (oldestIdx, oldestTs).
            (let testIdx = unat ((c + k * 257) mod 1024);
                 currTs = le_Ts (es ! testIdx)
             in if currTs < oldestTs then (testIdx, currTs) else (oldestIdx, oldestTs)))
          [1, 2, 3] (unat (c mod 1024), le_Ts (es ! unat (c mod 1024))))"

definition LWWSet_Add :: "u64 \<Rightarrow> int \<Rightarrow> bool \<Rightarrow> LWWSet \<Rightarrow> LWWSet" where
  "LWWSet_Add hash ts isAdded s =
     (case place le_ItemHash hash (lww_hit ts isAdded) (lww_claim hash ts isAdded) (lw_Elems s) of
        Some es \<Rightarrow> s\<lparr>lw_Elems := es\<rparr>
      | None \<Rightarrow>
          (let c = lw_Cursor s + 1;
               i = tournament c (lw_Elems s)
           in s\<lparr>lw_Elems := (lw_Elems s)[i := lww_claim hash ts isAdded (lw_Elems s ! i)], lw_Cursor := c\<rparr>))"

definition LWWSet_Contains :: "u64 \<Rightarrow> LWWSet \<Rightarrow> bool" where
  "LWWSet_Contains hash s = (case seek le_ItemHash hash (lw_Elems s) of Some e \<Rightarrow> le_IsAdded e | None \<Rightarrow> False)"

fun lww_merge_loop :: "LWWElement list \<Rightarrow> LWWSet \<Rightarrow> LWWSet" where
  "lww_merge_loop [] s = s"
| "lww_merge_loop (r # rs) s =
     (if le_ItemHash r = 0 then s
      else lww_merge_loop rs (LWWSet_Add (le_ItemHash r) (le_Ts r) (le_IsAdded r) s))"

definition LWWSet_Merge :: "LWWSet \<Rightarrow> LWWSet \<Rightarrow> LWWSet" where
  "LWWSet_Merge remote s = lww_merge_loop (lw_Elems remote) s"

section \<open>File locks\<close>

text \<open>The 64-bit FNV-1a hash of \<^verbatim>\<open>hash/fnv\<close> over the bytes of the path.\<close>

definition HashFile :: "string \<Rightarrow> u64" where
  "HashFile path = fold (\<lambda>b h. (h XOR of_char b) * 1099511628211) path 14695981039346656037"

definition LockFile :: "string \<Rightarrow> int \<Rightarrow> LWWSet \<Rightarrow> LWWSet" where
  "LockFile path now s = LWWSet_Add (HashFile path) now True s"

definition UnlockFile :: "string \<Rightarrow> int \<Rightarrow> LWWSet \<Rightarrow> LWWSet" where
  "UnlockFile path now s = LWWSet_Add (HashFile path) now False s"

definition IsFileLocked :: "string \<Rightarrow> LWWSet \<Rightarrow> bool" where
  "IsFileLocked path s = LWWSet_Contains (HashFile path) s"

section \<open>Router\<close>

record NodeMass =
  nm_FreeRAMBytes :: u64
  nm_IdleCPU :: u32

text \<open>
  The map of the router, in the order its \<^verbatim>\<open>Range\<close> visits it; node ids are \<^verbatim>\<open>int32\<close>. A new
  node may appear anywhere in that order, here at the end.
\<close>

type_synonym GravityRouter = "(int \<times> NodeMass) list"

definition UpdateMass :: "int \<Rightarrow> u64 \<Rightarrow> u32 \<Rightarrow> GravityRouter \<Rightarrow> GravityRouter" where
  "UpdateMass nodeID ram cpu nodes =
     (let nm = \<lparr>nm_FreeRAMBytes = ram, nm_IdleCPU = cpu\<rparr>
      in if nodeID \<in> fst ` set nodes
         then List.map (\<lambda>(i, m). if i = nodeID then (i, nm) else (i, m)) nodes
         else nodes @ [(nodeID, nm)])"

definition mass_force :: "NodeMass \<Rightarrow> u64" where
  "mass_force m = drop_bit 20 (nm_FreeRAMBytes m) + ucast (nm_IdleCPU m) * 10"

definition Attract :: "GravityRouter \<Rightarrow> int" where
  "Attract nodes =
     fst (fold (\<lambda>(i, m) (bestTarget, maxForce).
            if mass_force m \<ge> maxForce then (i, mass_force m) else (bestTarget, maxForce)) nodes (- 1, 0))"

text \<open>The router sends work to a node of greatest force, and to nobody only when it knows none.\<close>

definition attract_step :: "int \<times> NodeMass \<Rightarrow> int \<times> u64 \<Rightarrow> int \<times> u64" where
  "attract_step = (\<lambda>(i, m) (bestTarget, maxForce).
     if mass_force m \<ge> maxForce then (i, mass_force m) else (bestTarget, maxForce))"

lemma attract_fold:
  assumes "fold attract_step nodes a = b"
  shows "snd a \<le> snd b \<and> (\<forall>x \<in> set nodes. mass_force (snd x) \<le> snd b) \<and>
     (b = a \<or> (\<exists>m. (fst b, m) \<in> set nodes \<and> mass_force m = snd b))"
  using assms
proof (induction nodes arbitrary: a)
  case Nil
  then show ?case by simp
next
  case (Cons x nodes)
  obtain i m where x: "x = (i, m)" by fastforce
  have IH: "snd (attract_step x a) \<le> snd b" "\<forall>x \<in> set nodes. mass_force (snd x) \<le> snd b"
    "b = attract_step x a \<or> (\<exists>m. (fst b, m) \<in> set nodes \<and> mass_force m = snd b)"
    using Cons.IH [of "attract_step x a"] Cons.prems by auto
  have "snd a \<le> snd (attract_step x a)" "mass_force m \<le> snd (attract_step x a)"
    "attract_step x a = a \<or> attract_step x a = (i, mass_force m)"
    by (auto simp: attract_step_def x split: prod.splits)
  then have "snd a \<le> snd b" "mass_force m \<le> snd b" using IH(1) by (auto intro: order_trans)
  moreover have "b = a \<or> (\<exists>m'. (fst b, m') \<in> set (x # nodes) \<and> mass_force m' = snd b)"
    using IH(3) \<open>attract_step x a = a \<or> attract_step x a = (i, mass_force m)\<close> x by force
  ultimately show ?case using IH(2) x by simp
qed

lemma attract_best:
  assumes "nodes \<noteq> []"
  shows "\<exists>m. (Attract nodes, m) \<in> set nodes \<and> (\<forall>x \<in> set nodes. mass_force (snd x) \<le> mass_force m)"
proof -
  obtain i m rest where n: "nodes = (i, m) # rest" using assms by (metis list.exhaust prod.exhaust)
  define b where "b = fold attract_step rest (i, mass_force m)"
  have "Attract nodes = fst b" by (simp add: Attract_def b_def n attract_step_def)
  have ub: "mass_force m \<le> snd b" "\<forall>x \<in> set rest. mass_force (snd x) \<le> snd b"
    and "b = (i, mass_force m) \<or> (\<exists>m. (fst b, m) \<in> set rest \<and> mass_force m = snd b)"
    using attract_fold [of rest "(i, mass_force m)" b] by (simp_all add: b_def)
  from this(3) have "\<exists>m'. (fst b, m') \<in> set nodes \<and> mass_force m' = snd b" using n by force
  then obtain m' where m': "(fst b, m') \<in> set nodes" "mass_force m' = snd b" by blast
  have "mass_force (snd x) \<le> mass_force m'" if "x \<in> set nodes" for x
    using that n m'(2) ub by auto
  then show ?thesis using m'(1) \<open>Attract nodes = fst b\<close> by metis
qed

section \<open>The tables\<close>

interpretation pn: slots nc_NodeID zero_count
  by unfold_locales (simp add: zero_count_def)

interpretation lw: slots le_ItemHash zero_elem
  by unfold_locales (simp add: zero_elem_def)

end
