(* ===== verification/Swarm_CrdtProps.thy ===== *)
theory Swarm_CrdtProps
  imports Swarm_Crdt
begin

text \<open>
  Convergence of the replicated types. A counter refines a pair of functions from nodes to
  totals, merged by maximum; a set refines a function from hashes to the latest write. Both
  are then run in a gossip system, an inductive relation over the replicas of a cluster whose
  ghost components record what really happened.
\<close>

section \<open>Counter: refinement of the operations\<close>

definition pn_ok :: "PNCounter \<Rightarrow> bool" where
  "pn_ok c \<longleftrightarrow> table nc_NodeID zero_count c \<and> length c = 256"

abbreviation pn_keys :: "PNCounter \<Rightarrow> u64 set" where
  "pn_keys \<equiv> keys nc_NodeID"

definition pn_at :: "PNCounter \<Rightarrow> u64 \<Rightarrow> u64 \<times> u64" where
  "pn_at c i = (case seek nc_NodeID i c of None \<Rightarrow> (0, 0) | Some s \<Rightarrow> (nc_P s, nc_N s))"

lemma pn_zero: "pn_ok PNCounter_zero" "pn_keys PNCounter_zero = {}"
  using pn.table_new [of 256] by (simp_all only: pn_ok_def PNCounter_zero_def length_replicate)

lemma pn_at_absent: "i \<noteq> 0 \<Longrightarrow> i \<notin> pn_keys c \<Longrightarrow> pn_at c i = (0, 0)"
  by (simp add: pn_at_def pn.seek_None [symmetric])

lemma pn_add:
  assumes "pn_ok c" "i \<noteq> 0" "card (insert i (pn_keys c)) \<le> 256"
  shows "pn_ok (PNCounter_Add i p n c) \<and> pn_keys (PNCounter_Add i p n c) = insert i (pn_keys c) \<and>
    (\<forall>j. j \<noteq> 0 \<longrightarrow> pn_at (PNCounter_Add i p n c) j =
       (if j = i then (fst (pn_at c i) + p, snd (pn_at c i) + n) else pn_at c j))"
proof -
  have "pn.fits i (\<lambda>s. s\<lparr>nc_P := nc_P s + p, nc_N := nc_N s + n\<rparr>)
      (\<lambda>s. s\<lparr>nc_NodeID := i, nc_P := nc_P s + p, nc_N := nc_N s + n\<rparr>)"
    using assms(2) by (simp add: pn.fits_def)
  moreover have "i \<in> pn_keys c \<or> card (pn_keys c) < length c"
    using assms(1,3) by (auto simp: pn_ok_def card_insert_if split: if_splits)
  ultimately obtain c' where c': "PNCounter_Add i p n c = c'" "table nc_NodeID zero_count c'" "length c' = length c"
    "pn_keys c' = insert i (pn_keys c)"
    "\<And>k'. k' \<noteq> 0 \<Longrightarrow> seek nc_NodeID k' c' = (if k' = i then Some (case seek nc_NodeID i c of
        Some s \<Rightarrow> s\<lparr>nc_P := nc_P s + p, nc_N := nc_N s + n\<rparr>
      | None \<Rightarrow> zero_count\<lparr>nc_NodeID := i, nc_P := nc_P zero_count + p, nc_N := nc_N zero_count + n\<rparr>) else seek nc_NodeID k' c)"
    using pn.place_ok [of c i] assms(1) by (fastforce simp: pn_ok_def PNCounter_Add_def)
  show ?thesis using c' assms(1)
    by (auto simp: pn_ok_def pn_at_def zero_count_def split: option.splits)
qed

lemma pn_merge_loop_absorb: "pn_merge_loop d c = pn.absorb pn_hit pn_claim (used nc_NodeID d) c"
  by (induction d arbitrary: c) (auto simp: pn.absorb_def)

lemma pn_merge:
  assumes "pn_ok c" "pn_ok d" "card (pn_keys c \<union> pn_keys d) \<le> 256"
  shows "pn_ok (PNCounter_Merge d c) \<and> pn_keys (PNCounter_Merge d c) = pn_keys c \<union> pn_keys d \<and>
    (\<forall>i. i \<noteq> 0 \<longrightarrow> pn_at (PNCounter_Merge d c) i =
       (max (fst (pn_at c i)) (fst (pn_at d i)), max (snd (pn_at c i)) (snd (pn_at d i))))"
proof -
  have f: "list_all (\<lambda>r. pn.fits (nc_NodeID r) (pn_hit r) (pn_claim r)) (used nc_NodeID d)"
    by (auto simp: list_all_iff used_def pn.fits_def pn_hit_def pn_claim_def dest: set_takeWhileD)
  have "card (pn_keys c \<union> nc_NodeID ` set (used nc_NodeID d)) \<le> length c"
    using assms(1,3) by (simp add: pn.used_keys pn_ok_def)
  note a = pn.absorb_ok [OF _ f _ this, folded pn_merge_loop_absorb PNCounter_Merge_def]
  have t: "table nc_NodeID zero_count c" "distinct (List.map nc_NodeID (used nc_NodeID d))"
    using assms by (simp_all add: pn_ok_def table_def)
  have at: "pn_at (PNCounter_Merge d c) i =
      (max (fst (pn_at c i)) (fst (pn_at d i)), max (snd (pn_at c i)) (snd (pn_at d i)))" if "i \<noteq> 0" for i
    using a [OF t] that
    by (auto simp: pn.find_seek pn_at_def pn_hit_def pn_claim_def zero_count_def max_def split: option.splits)
  show ?thesis using a [OF t] at assms(1) by (simp add: pn_ok_def pn.used_keys)
qed

lemma value_loop_acc: "value_loop a c = a + value_loop 0 c"
proof (induction c arbitrary: a)
  case (Cons s c)
  show ?case
  proof (cases "nc_NodeID s = 0")
    case False
    then show ?thesis using Cons [of "a + (nc_P s - nc_N s)"] Cons [of "nc_P s - nc_N s"] by simp
  qed simp
qed simp

lemma value_sum:
  assumes "table nc_NodeID zero_count c"
  shows "value_loop 0 c = (\<Sum>i\<in>pn_keys c. fst (pn_at c i) - snd (pn_at c i))"
  using assms
proof (induction c)
  case Nil
  then show ?case by simp
next
  case (Cons s c)
  show ?case
  proof (cases "nc_NodeID s = 0")
    case False
    then have wf: "nc_NodeID s \<notin> pn_keys c" "table nc_NodeID zero_count c"
      using Cons.prems by (simp_all add: pn.table_Cons)
    have "pn_at (s # c) i = pn_at c i" if "i \<in> pn_keys c" for i
      using that wf(1) False by (auto simp: pn_at_def)
    then have "(\<Sum>i\<in>pn_keys c. fst (pn_at (s # c) i) - snd (pn_at (s # c) i)) = value_loop 0 c"
      using Cons.IH [OF wf(2)] by simp
    moreover have "pn_at (s # c) (nc_NodeID s) = (nc_P s, nc_N s)" by (simp add: pn_at_def)
    ultimately show ?thesis using False wf(1) value_loop_acc [of "nc_P s - nc_N s" c] by simp
  qed simp
qed

lemma value_sum_over:
  assumes "pn_ok c" "pn_keys c \<subseteq> A" "finite A" "0 \<notin> A"
  shows "value_loop 0 c = (\<Sum>i\<in>A. fst (pn_at c i) - snd (pn_at c i))"
proof -
  have at_absent: "pn_at c i = (0, 0)" if "i \<in> A" "i \<notin> pn_keys c" for i
    using pn_at_absent that assms(4) by metis
  have "(\<Sum>i\<in>pn_keys c. fst (pn_at c i) - snd (pn_at c i)) = (\<Sum>i\<in>A. fst (pn_at c i) - snd (pn_at c i))"
    using assms(2-4) at_absent by (intro sum.mono_neutral_left) auto
  then show ?thesis using value_sum assms(1) by (simp add: pn_ok_def)
qed

section \<open>Counter: gossip\<close>

text \<open>
  A cluster: the replica of every node, and what was really added at each node so far.
  Every node adds under its own id only; merges go between any two replicas in any order.
\<close>

record cluster =
  cl_rep :: "u64 \<Rightarrow> PNCounter"
  cl_P :: "u64 \<Rightarrow> nat"
  cl_N :: "u64 \<Rightarrow> nat"

inductive gossip :: "u64 set \<Rightarrow> cluster \<Rightarrow> bool" for nodes where
  start: "gossip nodes \<lparr>cl_rep = \<lambda>_. PNCounter_zero, cl_P = \<lambda>_. 0, cl_N = \<lambda>_. 0\<rparr>"
| add: "gossip nodes s \<Longrightarrow> n \<in> nodes \<Longrightarrow> cl_P s n + unat p < 2 ^ 64 \<Longrightarrow> cl_N s n + unat k < 2 ^ 64 \<Longrightarrow>
    gossip nodes (s\<lparr>cl_rep := (cl_rep s)(n := PNCounter_Add n p k (cl_rep s n)),
                    cl_P := (cl_P s)(n := cl_P s n + unat p), cl_N := (cl_N s)(n := cl_N s n + unat k)\<rparr>)"
| merge: "gossip nodes s \<Longrightarrow> m \<in> nodes \<Longrightarrow> n \<in> nodes \<Longrightarrow>
    gossip nodes (s\<lparr>cl_rep := (cl_rep s)(m := PNCounter_Merge (cl_rep s n) (cl_rep s m))\<rparr>)"

text \<open>No replica is ahead of a node's own count, and each node's own count is exact.\<close>

definition below :: "u64 set \<Rightarrow> cluster \<Rightarrow> PNCounter \<Rightarrow> bool" where
  "below nodes s c \<longleftrightarrow> pn_ok c \<and> pn_keys c \<subseteq> nodes \<and>
     (\<forall>i\<in>nodes. unat (fst (pn_at c i)) \<le> cl_P s i \<and> unat (snd (pn_at c i)) \<le> cl_N s i)"

definition exact_at :: "cluster \<Rightarrow> PNCounter \<Rightarrow> u64 \<Rightarrow> bool" where
  "exact_at s c i \<longleftrightarrow> unat (fst (pn_at c i)) = cl_P s i \<and> unat (snd (pn_at c i)) = cl_N s i"

definition gossip_inv :: "u64 set \<Rightarrow> cluster \<Rightarrow> bool" where
  "gossip_inv nodes s \<longleftrightarrow> (\<forall>m\<in>nodes. below nodes s (cl_rep s m) \<and> exact_at s (cl_rep s m) m)"

lemma subset_card_256:
  fixes A :: "u64 set"
  assumes "A \<subseteq> nodes" "finite nodes" "card nodes \<le> 256"
  shows "card A \<le> 256"
  using card_mono [OF assms(2,1)] assms(3) by simp

lemma unat_max: "unat (max a b) = max (unat a) (unat (b :: u64))"
  by (auto simp: max_def word_le_nat_alt)

lemma below_merge:
  assumes "finite nodes" "card nodes \<le> 256" "0 \<notin> nodes" "below nodes s c" "below nodes s d"
  shows "below nodes s (PNCounter_Merge d c) \<and>
    (\<forall>i\<in>nodes. exact_at s c i \<or> exact_at s d i \<longrightarrow> exact_at s (PNCounter_Merge d c) i)"
proof -
  have "card (pn_keys c \<union> pn_keys d) \<le> 256"
    using assms(4,5) by (intro subset_card_256 [OF _ assms(1,2)]) (auto simp: below_def)
  then have m: "pn_ok (PNCounter_Merge d c)" "pn_keys (PNCounter_Merge d c) = pn_keys c \<union> pn_keys d"
    "\<And>i. i \<noteq> 0 \<Longrightarrow> pn_at (PNCounter_Merge d c) i =
       (max (fst (pn_at c i)) (fst (pn_at d i)), max (snd (pn_at c i)) (snd (pn_at d i)))"
    using pn_merge [of c d] assms(4,5) by (simp_all add: below_def)
  have nz: "i \<noteq> 0" if "i \<in> nodes" for i using that assms(3) by blast
  have b: "unat (fst (pn_at c i)) \<le> cl_P s i" "unat (snd (pn_at c i)) \<le> cl_N s i"
    "unat (fst (pn_at d i)) \<le> cl_P s i" "unat (snd (pn_at d i)) \<le> cl_N s i" if "i \<in> nodes" for i
    using assms(4,5) that by (simp_all add: below_def)
  have eq: "max x y = t" if "x \<le> t" "y \<le> t" "x = t \<or> y = t" for x y t :: nat using that by auto
  have "below nodes s (PNCounter_Merge d c)"
    using m nz b assms(4,5) by (simp add: below_def unat_max)
  moreover have "exact_at s (PNCounter_Merge d c) i" if "i \<in> nodes" "exact_at s c i \<or> exact_at s d i" for i
    using that(2) m(3) [OF nz [OF that(1)]] b [OF that(1)] eq by (auto simp: exact_at_def unat_max)
  ultimately show ?thesis by blast
qed

lemma gossip_invariant:
  assumes "gossip nodes s" "finite nodes" "card nodes \<le> 256" "0 \<notin> nodes"
  shows "gossip_inv nodes s"
  using assms(1)
proof induction
  case start
  have "pn_at PNCounter_zero i = (0, 0)" if "i \<in> nodes" for i
    using pn_at_absent pn_zero(2) that assms(4) by (metis empty_iff)
  then show ?case using pn_zero by (simp add: gossip_inv_def below_def exact_at_def)
next
  case (add s n p k)
  let ?c = "cl_rep s n"
  have n: "n \<noteq> 0" using add(2) assms(4) by blast
  have c: "below nodes s ?c" "exact_at s ?c n" using add(2,5) by (simp_all add: gossip_inv_def)
  then have "card (insert n (pn_keys ?c)) \<le> 256"
    using add(2) by (intro subset_card_256 [OF _ assms(2,3)]) (auto simp: below_def)
  then have a: "pn_ok (PNCounter_Add n p k ?c)" "pn_keys (PNCounter_Add n p k ?c) = insert n (pn_keys ?c)"
    "\<And>j. j \<noteq> 0 \<Longrightarrow> pn_at (PNCounter_Add n p k ?c) j =
       (if j = n then (fst (pn_at ?c n) + p, snd (pn_at ?c n) + k) else pn_at ?c j)"
    using pn_add [of ?c n] n c(1) by (simp_all add: below_def)
  have u: "unat (fst (pn_at ?c n) + p) = cl_P s n + unat p" "unat (snd (pn_at ?c n) + k) = cl_N s n + unat k"
    using c(2) add(3,4) by (simp_all add: exact_at_def unat_word_ariths)
  have nz: "i \<noteq> 0" if "i \<in> nodes" for i using that assms(4) by blast
  show ?case unfolding gossip_inv_def
  proof
    fix m assume m: "m \<in> nodes"
    have old: "below nodes s (cl_rep s m)" "exact_at s (cl_rep s m) m" using m add(5) by (simp_all add: gossip_inv_def)
    show "below nodes (s\<lparr>cl_rep := (cl_rep s)(n := PNCounter_Add n p k ?c), cl_P := (cl_P s)(n := cl_P s n + unat p),
        cl_N := (cl_N s)(n := cl_N s n + unat k)\<rparr>) (cl_rep (s\<lparr>cl_rep := (cl_rep s)(n := PNCounter_Add n p k ?c),
        cl_P := (cl_P s)(n := cl_P s n + unat p), cl_N := (cl_N s)(n := cl_N s n + unat k)\<rparr>) m) \<and>
      exact_at (s\<lparr>cl_rep := (cl_rep s)(n := PNCounter_Add n p k ?c), cl_P := (cl_P s)(n := cl_P s n + unat p),
        cl_N := (cl_N s)(n := cl_N s n + unat k)\<rparr>) (cl_rep (s\<lparr>cl_rep := (cl_rep s)(n := PNCounter_Add n p k ?c),
        cl_P := (cl_P s)(n := cl_P s n + unat p), cl_N := (cl_N s)(n := cl_N s n + unat k)\<rparr>) m) m"
      using old a u nz m add(2) c(1) by (auto simp: below_def exact_at_def trans_le_add1)
  qed
next
  case (merge s m n)
  have "below nodes s (cl_rep s m)" "below nodes s (cl_rep s n)" "exact_at s (cl_rep s m) m"
    using merge by (simp_all add: gossip_inv_def)
  from below_merge [OF assms(2-4) this(1,2)] this(3) merge show ?case
    by (auto simp: gossip_inv_def below_def exact_at_def)
qed

lemma merge_all:
  assumes "finite nodes" "card nodes \<le> 256" "0 \<notin> nodes" "below nodes s c"
    "\<And>n. n \<in> set ns \<Longrightarrow> below nodes s (cl_rep s n) \<and> exact_at s (cl_rep s n) n" "set ns \<subseteq> nodes"
  shows "below nodes s (fold (\<lambda>n. PNCounter_Merge (cl_rep s n)) ns c) \<and>
    (\<forall>i\<in>nodes. exact_at s c i \<or> i \<in> set ns \<longrightarrow> exact_at s (fold (\<lambda>n. PNCounter_Merge (cl_rep s n)) ns c) i)"
  using assms(4-6)
proof (induction ns arbitrary: c)
  case Nil
  then show ?case by simp
next
  case (Cons n ns)
  have m: "below nodes s (PNCounter_Merge (cl_rep s n) c)"
    "\<forall>i\<in>nodes. exact_at s c i \<or> exact_at s (cl_rep s n) i \<longrightarrow> exact_at s (PNCounter_Merge (cl_rep s n) c) i"
    using below_merge [OF assms(1-3) Cons.prems(1), of "cl_rep s n"] Cons.prems(2) by simp_all
  show ?case using Cons.IH [OF m(1)] Cons.prems(2,3) m(2) by simp
qed

lemma exact_value:
  assumes "finite nodes" "0 \<notin> nodes" "below nodes s c" "\<forall>i\<in>nodes. exact_at s c i"
  shows "value_loop 0 c = of_int (\<Sum>n\<in>nodes. int (cl_P s n) - int (cl_N s n))"
proof -
  have w: "of_nat (unat x) = x" for x :: u64 by simp
  have "value_loop 0 c = (\<Sum>i\<in>nodes. fst (pn_at c i) - snd (pn_at c i))"
    using assms by (intro value_sum_over) (auto simp: below_def)
  also have "\<dots> = (\<Sum>i\<in>nodes. of_nat (cl_P s i) - of_nat (cl_N s i))"
    using assms(4) w by (intro sum.cong refl) (metis exact_at_def)
  also have "\<dots> = of_int (\<Sum>n\<in>nodes. int (cl_P s n) - int (cl_N s n))" by simp
  finally show ?thesis .
qed

lemma sint_in_range: "x \<in> {- (2 ^ 63) ..< 2 ^ 63} \<Longrightarrow> sint (of_int x :: u64) = x"
  by (simp add: int_word_sint mod_pos_pos_trivial)

text \<open>
  C13: the replicated counter loses nothing: in a cluster of up to 256 nodes where every node
  adds under its own id and replicas are merged in any order, any number of times, a replica
  that then merges the replica of every node, in any order and with repetitions, has as its
  value the sum of everything ever added, as long as no counter and not the sum overflows.
\<close>

theorem counter_counts_all:
  assumes "gossip nodes s" "finite nodes" "card nodes \<le> 256" "0 \<notin> nodes" "m \<in> nodes" "set ns = nodes"
    and "(\<Sum>n\<in>nodes. int (cl_P s n) - int (cl_N s n)) \<in> {- (2 ^ 63) ..< 2 ^ 63}"
  shows "PNCounter_Value (fold (\<lambda>n. PNCounter_Merge (cl_rep s n)) ns (cl_rep s m)) =
    (\<Sum>n\<in>nodes. int (cl_P s n) - int (cl_N s n))"
proof -
  have "gossip_inv nodes s" by (rule gossip_invariant [OF assms(1-4)])
  then have "below nodes s (fold (\<lambda>n. PNCounter_Merge (cl_rep s n)) ns (cl_rep s m)) \<and>
    (\<forall>i\<in>nodes. exact_at s (fold (\<lambda>n. PNCounter_Merge (cl_rep s n)) ns (cl_rep s m)) i)"
    using merge_all [OF assms(2-4), of s "cl_rep s m" ns] assms(5,6) by (simp add: gossip_inv_def)
  then have "value_loop 0 (fold (\<lambda>n. PNCounter_Merge (cl_rep s n)) ns (cl_rep s m)) =
    of_int (\<Sum>n\<in>nodes. int (cl_P s n) - int (cl_N s n))"
    by (intro exact_value [OF assms(2,4)]) auto
  then show ?thesis using sint_in_range [OF assms(7)] by (simp only: PNCounter_Value_def)
qed

lemma demo_gossip:
  "\<exists>s. gossip {1, 2} s \<and> cl_P s 1 = 10 \<and> cl_N s 1 = 3 \<and> cl_P s 2 = 5 \<and> cl_N s 2 = 3"
proof -
  note g1 = gossip.add [OF gossip.start, of 1 "{1, 2}" 10 3, simplified]
  note g2 = gossip.add [OF g1, of 2 5 3, simplified]
  note g3 = gossip.merge [OF g2, of 1 2, simplified]
  show ?thesis by (rule exI, rule conjI [OF g3]) simp
qed

theorem counter_counts_all_witness:
  "\<exists>s. gossip {1, 2} s \<and>
     PNCounter_Value (fold (\<lambda>n. PNCounter_Merge (cl_rep s n)) [2, 1, 2] (cl_rep s 1)) = 9"
proof -
  obtain s where s: "gossip {1, 2} s" "cl_P s 1 = 10" "cl_N s 1 = 3" "cl_P s 2 = 5" "cl_N s 2 = 3"
    using demo_gossip by blast
  have "PNCounter_Value (fold (\<lambda>n. PNCounter_Merge (cl_rep s n)) [2, 1, 2] (cl_rep s 1)) =
      (\<Sum>n\<in>{1, 2}. int (cl_P s n) - int (cl_N s n))"
    using s(2-5) by (intro counter_counts_all [OF s(1)]) auto
  then show ?thesis using s by auto
qed

text \<open>
  Adding under the id zero matches the first free slot by its id: what is added is not part of
  the value until another node claims the slot, and then counts as that node's.
\<close>

lemma add_zero_node:
  assumes "i \<noteq> 0"
  shows "PNCounter_Value (PNCounter_Add 0 10 0 (zero_count # ss)) = 0"
    and "PNCounter_Add i 1 0 (PNCounter_Add 0 10 0 (zero_count # ss)) =
      \<lparr>nc_NodeID = i, nc_P = 11, nc_N = 0\<rparr> # ss"
  using assms by (simp_all add: PNCounter_Add_def PNCounter_Value_def zero_count_def)

end
