(* ===== verification/Swarm_Raft.thy ===== *)
theory Swarm_Raft
  imports Neo_Prelude
begin

text \<open>
  The voting node of \<^verbatim>\<open>pkg/swarm/raft.go\<close>, whose operations take no lock: each is a sequence of
  single accesses to atomic variables, and calls on one node interleave between them. Elections
  over a cluster of such nodes are a step relation with election safety; the last section shows
  the interleaving that elects two candidates.
\<close>

section \<open>A node\<close>

datatype RaftState = Follower | Candidate | Leader

record RaftNode =
  rn_state :: RaftState
  rn_currentTerm :: u64
  rn_votedFor :: int

definition NewRaftNode :: RaftNode where
  "NewRaftNode = \<lparr>rn_state = Follower, rn_currentTerm = 0, rn_votedFor = - 1\<rparr>"

definition State :: "RaftNode \<Rightarrow> RaftState" where
  "State r = rn_state r"

text \<open>The next access of a call in progress; one access gives the place after it or the result.\<close>

datatype vote_pc = LoadTerm | StoreTerm | ResetVote | StepDown | SwapVote

datatype promote_pc = SwapState | AddTerm

fun vote_next :: "u64 \<Rightarrow> int \<Rightarrow> vote_pc \<Rightarrow> RaftNode \<Rightarrow> (vote_pc + bool) \<times> RaftNode" where
  "vote_next candidateTerm candidateID LoadTerm r =
     (let curr = rn_currentTerm r
      in (if candidateTerm < curr then Inr False else if candidateTerm > curr then Inl StoreTerm else Inl SwapVote, r))"
| "vote_next candidateTerm candidateID StoreTerm r = (Inl ResetVote, r\<lparr>rn_currentTerm := candidateTerm\<rparr>)"
| "vote_next candidateTerm candidateID ResetVote r = (Inl StepDown, r\<lparr>rn_votedFor := - 1\<rparr>)"
| "vote_next candidateTerm candidateID StepDown r = (Inl SwapVote, r\<lparr>rn_state := Follower\<rparr>)"
| "vote_next candidateTerm candidateID SwapVote r =
     (if rn_votedFor r = - 1 then (Inr True, r\<lparr>rn_votedFor := candidateID\<rparr>) else (Inr False, r))"

fun promote_next :: "promote_pc \<Rightarrow> RaftNode \<Rightarrow> (promote_pc + bool) \<times> RaftNode" where
  "promote_next SwapState r = (if rn_state r = Follower then (Inl AddTerm, r\<lparr>rn_state := Candidate\<rparr>) else (Inr False, r))"
| "promote_next AddTerm r = (Inr True, r\<lparr>rn_currentTerm := rn_currentTerm r + 1\<rparr>)"

text \<open>A call that no other call interrupts: at most five accesses.\<close>

fun run_alone :: "('pc \<Rightarrow> RaftNode \<Rightarrow> ('pc + bool) \<times> RaftNode) \<Rightarrow> nat \<Rightarrow> 'pc \<Rightarrow> RaftNode \<Rightarrow> (bool \<times> RaftNode) option" where
  "run_alone f 0 pc r = None"
| "run_alone f (Suc k) pc r = (case f pc r of (Inr b, r') \<Rightarrow> Some (b, r') | (Inl pc', r') \<Rightarrow> run_alone f k pc' r')"

definition RequestVote :: "u64 \<Rightarrow> int \<Rightarrow> RaftNode \<Rightarrow> (bool \<times> RaftNode) option" where
  "RequestVote candidateTerm candidateID r = run_alone (vote_next candidateTerm candidateID) 5 LoadTerm r"

definition Promote :: "RaftNode \<Rightarrow> (bool \<times> RaftNode) option" where
  "Promote r = run_alone promote_next 2 SwapState r"

lemma request_vote_alone:
  "RequestVote t cand r = Some
     (if t < rn_currentTerm r then (False, r)
      else if t > rn_currentTerm r then (True, \<lparr>rn_state = Follower, rn_currentTerm = t, rn_votedFor = cand\<rparr>)
      else if rn_votedFor r = - 1 then (True, r\<lparr>rn_votedFor := cand\<rparr>) else (False, r))"
  by (cases r) (auto simp: RequestVote_def eval_nat_numeral Let_def)

lemma promote_alone:
  "Promote r = Some
     (if rn_state r = Follower then (True, r\<lparr>rn_state := Candidate, rn_currentTerm := rn_currentTerm r + 1\<rparr>) else (False, r))"
  by (cases r) (auto simp: Promote_def eval_nat_numeral)

section \<open>Elections\<close>

text \<open>
  A cluster of nodes, for each the calls in progress, the votes granted so far (voter, term and
  candidate) and the nodes that have ever had two vote requests in progress at once. Candidates
  have ids other than the \<open>-1\<close> that stands for no vote, and no node is promoted past the last term.
\<close>

record election =
  el_node :: "nat \<Rightarrow> RaftNode"
  el_asks :: "nat \<Rightarrow> (u64 \<times> int \<times> vote_pc) list"
  el_promos :: "nat \<Rightarrow> promote_pc list"
  el_votes :: "(nat \<times> u64 \<times> int) set"
  el_overlaps :: "nat set"

text \<open>A call after one of its accesses: still in progress at its new place, or gone.\<close>

definition moved :: "'c list \<Rightarrow> nat \<Rightarrow> 'c option \<Rightarrow> 'c list" where
  "moved cs i c = (case c of Some c' \<Rightarrow> cs[i := c'] | None \<Rightarrow> take i cs @ drop (Suc i) cs)"

inductive election_step :: "nat set \<Rightarrow> election \<Rightarrow> election \<Rightarrow> bool" for E where
  ask: "n \<in> E \<Longrightarrow> cand \<noteq> - 1 \<Longrightarrow>
    election_step E c (c\<lparr>el_asks := (el_asks c)(n := el_asks c n @ [(t, cand, LoadTerm)]),
      el_overlaps := (if el_asks c n = [] then el_overlaps c else insert n (el_overlaps c))\<rparr>)"
| vote: "n \<in> E \<Longrightarrow> i < length (el_asks c n) \<Longrightarrow> el_asks c n ! i = (t, cand, pc) \<Longrightarrow>
    vote_next t cand pc (el_node c n) = (res, r) \<Longrightarrow>
    election_step E c (c\<lparr>el_node := (el_node c)(n := r),
      el_asks := (el_asks c)(n := moved (el_asks c n) i (case res of Inl pc' \<Rightarrow> Some (t, cand, pc') | Inr _ \<Rightarrow> None)),
      el_votes := (if res = Inr True then insert (n, t, cand) (el_votes c) else el_votes c)\<rparr>)"
| promote: "n \<in> E \<Longrightarrow> election_step E c (c\<lparr>el_promos := (el_promos c)(n := el_promos c n @ [SwapState])\<rparr>)"
| raise: "n \<in> E \<Longrightarrow> i < length (el_promos c n) \<Longrightarrow> el_promos c n ! i = pc \<Longrightarrow> rn_currentTerm (el_node c n) \<noteq> - 1 \<Longrightarrow>
    promote_next pc (el_node c n) = (res, r) \<Longrightarrow>
    election_step E c (c\<lparr>el_node := (el_node c)(n := r),
      el_promos := (el_promos c)(n := moved (el_promos c n) i (case res of Inl pc' \<Rightarrow> Some pc' | Inr _ \<Rightarrow> None))\<rparr>)"

definition new_election :: election where
  "new_election = \<lparr>el_node = \<lambda>_. NewRaftNode, el_asks = \<lambda>_. [], el_promos = \<lambda>_. [], el_votes = {}, el_overlaps = {}\<rparr>"

inductive elections :: "nat set \<Rightarrow> election \<Rightarrow> bool" for E where
  start: "elections E new_election"
| step: "elections E c \<Longrightarrow> election_step E c c' \<Longrightarrow> elections E c'"

section \<open>Safety\<close>

text \<open>
  The terms a node has voted in, against its variables: between requests it has reached each of
  them, and the vote of the current term is still recorded; a request in progress has made sure,
  before it swaps, that no vote was given in its term.
\<close>

definition terms_of :: "election \<Rightarrow> nat \<Rightarrow> u64 set" where
  "terms_of c n = {t. \<exists>x. (n, t, x) \<in> el_votes c}"

definition settled :: "u64 set \<Rightarrow> RaftNode \<Rightarrow> bool" where
  "settled V r \<longleftrightarrow> (\<forall>t\<in>V. t \<le> rn_currentTerm r \<and> (t = rn_currentTerm r \<longrightarrow> rn_votedFor r \<noteq> - 1))"

fun ask_ok :: "u64 set \<Rightarrow> RaftNode \<Rightarrow> u64 \<Rightarrow> vote_pc \<Rightarrow> bool" where
  "ask_ok V r t LoadTerm \<longleftrightarrow> settled V r"
| "ask_ok V r t StoreTerm \<longleftrightarrow> (\<forall>t'\<in>V. t' < t)"
| "ask_ok V r t ResetVote \<longleftrightarrow> (\<forall>t'\<in>V. t' < t) \<and> t \<le> rn_currentTerm r"
| "ask_ok V r t StepDown \<longleftrightarrow> (\<forall>t'\<in>V. t' < t) \<and> t \<le> rn_currentTerm r"
| "ask_ok V r t SwapVote \<longleftrightarrow>
     (\<forall>t'\<in>V. t' \<le> rn_currentTerm r) \<and> t \<le> rn_currentTerm r \<and> (rn_votedFor r = - 1 \<longrightarrow> (\<forall>t'\<in>V. t' < t))"

fun node_ok :: "u64 set \<Rightarrow> RaftNode \<Rightarrow> (u64 \<times> int \<times> vote_pc) list \<Rightarrow> bool" where
  "node_ok V r [] \<longleftrightarrow> settled V r"
| "node_ok V r [(t, cand, pc)] \<longleftrightarrow> cand \<noteq> - 1 \<and> ask_ok V r t pc"
| "node_ok V r (_ # _ # _) \<longleftrightarrow> False"

definition votes_ok :: "nat set \<Rightarrow> election \<Rightarrow> bool" where
  "votes_ok E c \<longleftrightarrow>
     (\<forall>n t x. (n, t, x) \<in> el_votes c \<longrightarrow> n \<in> E) \<and>
     (\<forall>n. n \<notin> el_overlaps c \<longrightarrow> node_ok (terms_of c n) (el_node c n) (el_asks c n) \<and>
        (\<forall>t x y. (n, t, x) \<in> el_votes c \<longrightarrow> (n, t, y) \<in> el_votes c \<longrightarrow> x = y))"

lemma vote_next_ok:
  assumes "ask_ok V r t pc" "cand \<noteq> - 1" "vote_next t cand pc r = (res, r')"
  shows "case res of Inl pc' \<Rightarrow> ask_ok V r' t pc' | Inr g \<Rightarrow> settled (if g then insert t V else V) r' \<and> (g \<longrightarrow> t \<notin> V)"
proof (cases pc)
  case LoadTerm
  then show ?thesis
    using assms unfolding settled_def
    by (auto simp: settled_def Let_def not_less split: if_splits) (metis le_less_trans order.not_eq_order_implies_strict)+
next
  case StepDown
  moreover have "(\<forall>t'\<in>V. t' < t) \<Longrightarrow> t \<le> rn_currentTerm r \<Longrightarrow> \<forall>t'\<in>V. t' \<le> rn_currentTerm r"
    by (meson less_imp_le less_le_trans)
  ultimately show ?thesis using assms by auto
next
  case SwapVote
  then show ?thesis using assms by (auto simp: settled_def split: if_splits)
qed (use assms in auto)

lemma next_term: "t \<noteq> - 1 \<Longrightarrow> t < t + (1 :: u64)"
  by unat_arith (simp add: word_eq_iff_unsigned unsigned_minus_1_eq_mask mask_eq_exp_minus_1)

lemma promote_next_ok:
  assumes "promote_next pc r = (res, r')" "rn_currentTerm r \<noteq> - 1"
  shows "rn_currentTerm r \<le> rn_currentTerm r' \<and> rn_votedFor r' = rn_votedFor r"
  using assms next_term [of "rn_currentTerm r"] by (cases pc) (auto split: if_splits)

lemma node_ok_mono:
  assumes "node_ok V r asks" "rn_currentTerm r \<le> rn_currentTerm r'" "rn_votedFor r' = rn_votedFor r"
  shows "node_ok V r' asks"
proof -
  have s: "settled V r \<Longrightarrow> settled V r'" using assms(2,3) by (fastforce simp: settled_def)
  have "ask_ok V r t pc \<Longrightarrow> ask_ok V r' t pc" for t pc
    using s assms(2,3) by (cases pc) (auto intro: order_trans)
  then show ?thesis using s assms(1) by (cases "(V, r, asks)" rule: node_ok.cases) auto
qed

lemma votes_okD:
  assumes "votes_ok E c"
  shows "(n, t, x) \<in> el_votes c \<Longrightarrow> n \<in> E"
    "n \<notin> el_overlaps c \<Longrightarrow> node_ok (terms_of c n) (el_node c n) (el_asks c n)"
    "n \<notin> el_overlaps c \<Longrightarrow> (n, t, x) \<in> el_votes c \<Longrightarrow> (n, t, y) \<in> el_votes c \<Longrightarrow> x = y"
  using assms unfolding votes_ok_def by blast+

lemma votes_ok_step:
  assumes "votes_ok E c" "election_step E c c'"
  shows "votes_ok E c'"
  using assms(2)
proof (cases rule: election_step.cases)
  case (ask n cand t)
  have "node_ok (terms_of c n) (el_node c n) [(t, cand, LoadTerm)]" if "el_asks c n = []" "n \<notin> el_overlaps c"
    using votes_okD(2) [OF assms(1) that(2)] that(1) ask(3) by simp
  then show ?thesis
    using assms(1) ask(1) unfolding votes_ok_def by (auto simp: terms_of_def)
next
  case (vote n i t cand pc res r)
  have votes: "el_votes c' = (if res = Inr True then insert (n, t, cand) (el_votes c) else el_votes c)"
    and other: "m \<noteq> n \<Longrightarrow> el_node c' m = el_node c m \<and> el_asks c' m = el_asks c m \<and> terms_of c' m = terms_of c m" for m
    using vote(1) by (auto simp: terms_of_def)
  have here: "node_ok (terms_of c' n) (el_node c' n) (el_asks c' n) \<and> (res = Inr True \<longrightarrow> t \<notin> terms_of c n)"
    if no: "n \<notin> el_overlaps c"
  proof -
    have one: "el_asks c n = [(t, cand, pc)]" "i = 0" "cand \<noteq> - 1" "ask_ok (terms_of c n) (el_node c n) t pc"
      using votes_okD(2) [OF assms(1) no] vote(3,4)
      by (cases "(terms_of c n, el_node c n, el_asks c n)" rule: node_ok.cases; simp)+
    have terms: "terms_of c' n = (if res = Inr True then insert t (terms_of c n) else terms_of c n)"
      using votes by (auto simp: terms_of_def)
    show ?thesis
      using vote_next_ok [OF one(4,3) vote(5)] one(1-3) vote(1) terms
      by (cases res) (auto simp: moved_def)
  qed
  have "n \<in> E" by (rule vote(2))
  have "\<forall>m. m \<notin> el_overlaps c' \<longrightarrow> node_ok (terms_of c' m) (el_node c' m) (el_asks c' m) \<and>
      (\<forall>t x y. (m, t, x) \<in> el_votes c' \<longrightarrow> (m, t, y) \<in> el_votes c' \<longrightarrow> x = y)"
  proof (intro allI impI conjI)
    fix m s x y assume m: "m \<notin> el_overlaps c'"
    then have m': "m \<notin> el_overlaps c" using vote(1) by simp
    show "node_ok (terms_of c' m) (el_node c' m) (el_asks c' m)"
      using here other [of m] votes_okD(2) [OF assms(1) m'] m' by (cases "m = n") auto
    assume "(m, s, x) \<in> el_votes c'" "(m, s, y) \<in> el_votes c'"
    then show "x = y"
      using votes here votes_okD(3) [OF assms(1) m'] m' by (auto simp: terms_of_def split: if_splits)
  qed
  then show ?thesis using votes votes_okD(1) [OF assms(1)] \<open>n \<in> E\<close> unfolding votes_ok_def by (auto split: if_splits)
next
  case (promote n)
  then show ?thesis using assms(1) unfolding votes_ok_def by (auto simp: terms_of_def)
next
  case (raise n i pc res r)
  have "node_ok (terms_of c' m) (el_node c' m) (el_asks c' m)" if "m \<notin> el_overlaps c" for m
    using votes_okD(2) [OF assms(1) that] node_ok_mono promote_next_ok [OF raise(6,5)] raise(1)
    by (cases "m = n") (auto simp: terms_of_def)
  then show ?thesis using assms(1) raise(1) unfolding votes_ok_def by simp
qed

lemma votes_ok_elections: "elections E c \<Longrightarrow> votes_ok E c"
proof (induction rule: elections.induct)
  case start
  then show ?case by (simp add: votes_ok_def new_election_def terms_of_def settled_def)
next
  case (step c c')
  then show ?case by (blast intro: votes_ok_step)
qed

text \<open>The voters of a candidate in a term.\<close>

definition voters :: "election \<Rightarrow> u64 \<Rightarrow> int \<Rightarrow> nat set" where
  "voters c t x = {n. (n, t, x) \<in> el_votes c}"

text \<open>
  C15: election safety, access by access: in a cluster of any size, however the calls on all nodes
  interleave, two candidates cannot both collect the votes of a majority in the same term,
  provided the voters of one of them have never had two vote requests in progress at once.
  Promotions may overlap with anything. (Candidates have ids other than \<open>-1\<close>, and no node is
  promoted past the last term.)
\<close>

theorem election_safety:
  assumes "elections E c" "finite E" "2 * card (voters c t x) > card E" "2 * card (voters c t y) > card E"
    and "voters c t x \<inter> el_overlaps c = {}"
  shows "x = y"
proof -
  have ok: "votes_ok E c" by (rule votes_ok_elections [OF assms(1)])
  then have sub: "voters c t x \<subseteq> E" "voters c t y \<subseteq> E" by (auto simp: voters_def dest: votes_okD(1))
  have "voters c t x \<inter> voters c t y \<noteq> {}"
  proof
    assume "voters c t x \<inter> voters c t y = {}"
    then have "card (voters c t x \<union> voters c t y) = card (voters c t x) + card (voters c t y)"
      using sub assms(2) by (intro card_Un_disjoint) (auto intro: finite_subset)
    then show False using card_mono [of E "voters c t x \<union> voters c t y"] sub assms by auto
  qed
  then obtain n where "(n, t, x) \<in> el_votes c" "(n, t, y) \<in> el_votes c" "n \<notin> el_overlaps c"
    using assms(5) by (auto simp: voters_def)
  then show ?thesis using votes_okD(3) [OF ok] by blast
qed

section \<open>Runs\<close>

text \<open>The part of a state that requests at node \<open>n\<close> touch, and a series of accesses by requests in progress there.\<close>

definition at_node :: "election \<Rightarrow> nat \<Rightarrow> RaftNode \<times> (u64 \<times> int \<times> vote_pc) list \<times> (nat \<times> u64 \<times> int) set \<Rightarrow> election" where
  "at_node c n = (\<lambda>(r, asks, votes). c\<lparr>el_node := (el_node c)(n := r), el_asks := (el_asks c)(n := asks), el_votes := votes\<rparr>)"

fun follow :: "nat \<Rightarrow> nat list \<Rightarrow> RaftNode \<times> (u64 \<times> int \<times> vote_pc) list \<times> (nat \<times> u64 \<times> int) set \<Rightarrow>
    (RaftNode \<times> (u64 \<times> int \<times> vote_pc) list \<times> (nat \<times> u64 \<times> int) set) option" where
  "follow n [] s = Some s"
| "follow n (i # is) (r, asks, votes) =
     (if i < length asks
      then (case asks ! i of (t, cand, pc) \<Rightarrow> case vote_next t cand pc r of (res, r') \<Rightarrow>
        follow n is (r', moved asks i (case res of Inl pc' \<Rightarrow> Some (t, cand, pc') | Inr _ \<Rightarrow> None),
          if res = Inr True then insert (n, t, cand) votes else votes))
      else None)"

lemma elections_follow:
  "follow n is s = Some s' \<Longrightarrow> elections E (at_node c n s) \<Longrightarrow> n \<in> E \<Longrightarrow> elections E (at_node c n s')"
proof (induction "is" arbitrary: s)
  case (Cons i "is" s)
  obtain r asks votes where s: "s = (r, asks, votes)" by (metis prod_cases3)
  obtain t cand pc where a: "asks ! i = (t, cand, pc)" by (metis prod_cases3)
  obtain res r' where v: "vote_next t cand pc r = (res, r')" by fastforce
  have i: "i < length asks" using Cons.prems(1) by (auto simp: s split: if_splits)
  let ?s = "(r', moved asks i (case res of Inl pc' \<Rightarrow> Some (t, cand, pc') | Inr _ \<Rightarrow> None),
    if res = Inr True then insert (n, t, cand) votes else votes)"
  note st = elections.step [OF Cons.prems(2) [unfolded s]
      election_step.vote [of n E i "at_node c n (r, asks, votes)" t cand pc res r', OF Cons.prems(3)]]
  have "elections E (at_node c n ?s)" using st i a v by (simp add: at_node_def cong: if_cong)
  moreover have "follow n is ?s = Some s'" using Cons.prems(1) i a v by (simp add: s)
  ultimately show ?case using Cons.IH Cons.prems(3) by blast
qed simp

lemma elections_ask:
  "elections E (at_node c n (r, asks, votes)) \<Longrightarrow> n \<in> E \<Longrightarrow> cand \<noteq> - 1 \<Longrightarrow>
    elections E (at_node (c\<lparr>el_overlaps := if asks = [] then el_overlaps c else insert n (el_overlaps c)\<rparr>) n
      (r, asks @ [(t, cand, LoadTerm)], votes))"
proof -
  let ?c = "at_node c n (r, asks, votes)"
  assume a: "elections E ?c" "n \<in> E" "cand \<noteq> - 1"
  have "?c\<lparr>el_asks := (el_asks ?c)(n := el_asks ?c n @ [(t, cand, LoadTerm)]),
      el_overlaps := (if el_asks ?c n = [] then el_overlaps ?c else insert n (el_overlaps ?c))\<rparr> =
    at_node (c\<lparr>el_overlaps := if asks = [] then el_overlaps c else insert n (el_overlaps c)\<rparr>) n
      (r, asks @ [(t, cand, LoadTerm)], votes)"
    by (cases c) (simp add: at_node_def)
  then show ?thesis using elections.step [OF a(1) election_step.ask [OF a(2,3), of ?c t]] by (simp only:)
qed

lemma at_node_self: "at_node c n (el_node c n, el_asks c n, el_votes c) = c"
  by (simp add: at_node_def)

text \<open>A request of a new term that no other interrupts is granted.\<close>

lemma asked_alone:
  assumes "elections E c" "n \<in> E" "cand \<noteq> - 1" "el_asks c n = []" "el_node c n = NewRaftNode" "0 < t"
  shows "elections E (at_node c n (\<lparr>rn_state = Follower, rn_currentTerm = t, rn_votedFor = cand\<rparr>, [], insert (n, t, cand) (el_votes c)))"
proof -
  have "elections E (at_node c n (NewRaftNode, [], el_votes c))" using assms(1) at_node_self [of c n] assms(4,5) by simp
  from elections_ask [OF this assms(2,3), of t]
  have "elections E (at_node c n (NewRaftNode, [(t, cand, LoadTerm)], el_votes c))" by simp
  moreover have "follow n [0, 0, 0, 0, 0] (NewRaftNode, [(t, cand, LoadTerm)], el_votes c) =
      Some (\<lparr>rn_state = Follower, rn_currentTerm = t, rn_votedFor = cand\<rparr>, [], insert (n, t, cand) (el_votes c))"
    using assms(6) by (simp add: NewRaftNode_def moved_def Let_def)
  ultimately show ?thesis using assms(2) elections_follow by blast
qed

theorem election_safety_witness:
  "\<exists>c x. elections {1, 2, 3} c \<and> 3 < 2 * card (voters c 1 x) \<and> el_overlaps c = {} \<and> x = 7"
proof -
  define c1 where "c1 = at_node new_election 1 (\<lparr>rn_state = Follower, rn_currentTerm = 1, rn_votedFor = 7\<rparr>, [], {(1, 1, 7)})"
  define c where "c = at_node c1 2 (\<lparr>rn_state = Follower, rn_currentTerm = 1, rn_votedFor = 7\<rparr>, [], {(2, 1, 7), (1, 1, 7)})"
  have e1: "elections {1, 2, 3} c1"
    using asked_alone [OF elections.start, of 1 "{1, 2, 3}" 7 1] by (simp add: c1_def new_election_def)
  have e: "elections {1, 2, 3} c"
    using asked_alone [OF e1, of 2 7 1] by (simp add: c1_def c_def at_node_def new_election_def)
  have c: "el_votes c = {(2, 1, 7), (1, 1, 7)}" "el_overlaps c = {}"
    by (simp_all add: c_def c1_def at_node_def new_election_def)
  have "voters c 1 7 = {1, 2}" by (auto simp: voters_def c(1))
  then have maj: "3 < 2 * card (voters c 1 7)" by simp
  then have "(7 :: int) = 7" by (intro election_safety [OF e, of 1]) (simp_all add: c(2))
  then show ?thesis using e c(2) maj by blast
qed

section \<open>Two requests at once\<close>

text \<open>
  Two requests of one new term that have both read the old term: the second resets the vote the
  first was given and is granted too, so a single node votes for both candidates.
\<close>

lemma overlapping_requests_vote_twice:
  "\<exists>c. elections {1} c \<and> voters c 1 7 = {1} \<and> voters c 1 8 = {1}"
proof -
  let ?both = "[(1, 7, LoadTerm), (1, 8, LoadTerm)]"
  have "elections {1} (at_node new_election 1 (NewRaftNode, [], {}))"
    using elections.start [of "{1}"] at_node_self [of new_election 1] by (simp add: new_election_def)
  from elections_ask [OF elections_ask [OF this, of 7 1], of 8 1]
  obtain c where c: "elections {1} (at_node c 1 (NewRaftNode, ?both, {}))" by auto
  have "follow 1 [0, 1, 0, 0, 0, 0, 0, 0, 0, 0] (NewRaftNode, ?both, {}) =
      Some (\<lparr>rn_state = Follower, rn_currentTerm = 1, rn_votedFor = 8\<rparr>, [], {(1, 1, 8), (1, 1, 7)})"
    by (simp add: NewRaftNode_def moved_def Let_def)
  from elections_follow [OF this c] show ?thesis
    by (intro exI conjI) (assumption | simp | auto simp: voters_def at_node_def)+
qed

end
