(* ===== verification/Brain_Lines.thy ===== *)
theory Brain_Lines
  imports Neo_Prelude "HOL-Library.Sublist"
begin

text \<open>
  The line differ of \<^verbatim>\<open>pkg/brain/diff/markdown.go\<close>: the table of longest common subsequence
  lengths filled in place, the walk back through it, and the proof that the edit script it
  emits turns one file into the other and keeps as many lines as any script could.
\<close>

section \<open>Operations\<close>

datatype LineEditKind = LineEqual | LineInserted | LineDeleted

record LineEdit =
  le_Kind :: LineEditKind
  le_Index :: nat
  le_Line :: string

type_synonym lcs_table = "nat list list"

definition cell :: "lcs_table \<Rightarrow> nat \<Rightarrow> nat \<Rightarrow> nat" where
  "cell dp i j = dp ! i ! j"

definition set_dp :: "nat \<Rightarrow> nat \<Rightarrow> nat \<Rightarrow> lcs_table \<Rightarrow> lcs_table" where
  "set_dp i j v dp = dp[i := (dp ! i)[j := v]]"

text \<open>One pass of the inner loop.\<close>

definition fill_cell :: "string list \<Rightarrow> string list \<Rightarrow> nat \<Rightarrow> nat \<Rightarrow> lcs_table \<Rightarrow> lcs_table" where
  "fill_cell ancestor side i j dp =
     (if ancestor ! (i - 1) = side ! (j - 1) then set_dp i j (cell dp (i - 1) (j - 1) + 1) dp
      else if cell dp (i - 1) j \<ge> cell dp i (j - 1) then set_dp i j (cell dp (i - 1) j) dp
      else set_dp i j (cell dp i (j - 1)) dp)"

definition buildLCSTable :: "string list \<Rightarrow> string list \<Rightarrow> lcs_table" where
  "buildLCSTable ancestor side =
     (let m = length ancestor; n = length side
      in fold (\<lambda>i. fold (\<lambda>j. fill_cell ancestor side i j) [1..<n + 1]) [1..<m + 1]
           (replicate (m + 1) (replicate (n + 1) 0)))"

fun drain_deleted :: "string list \<Rightarrow> nat \<Rightarrow> LineEdit list" where
  "drain_deleted ancestor 0 = []"
| "drain_deleted ancestor (Suc i) =
     \<lparr>le_Kind = LineDeleted, le_Index = i, le_Line = ancestor ! i\<rparr> # drain_deleted ancestor i"

fun drain_inserted :: "string list \<Rightarrow> nat \<Rightarrow> LineEdit list" where
  "drain_inserted side 0 = []"
| "drain_inserted side (Suc j) =
     \<lparr>le_Kind = LineInserted, le_Index = j, le_Line = side ! j\<rparr> # drain_inserted side j"

function backtrack :: "lcs_table \<Rightarrow> string list \<Rightarrow> string list \<Rightarrow> nat \<Rightarrow> nat \<Rightarrow> LineEdit list" where
  "backtrack dp ancestor side i j =
     (if i > 0 \<and> j > 0 then
        (if ancestor ! (i - 1) = side ! (j - 1)
         then \<lparr>le_Kind = LineEqual, le_Index = j - 1, le_Line = side ! (j - 1)\<rparr> #
              backtrack dp ancestor side (i - 1) (j - 1)
         else if cell dp (i - 1) j \<ge> cell dp i (j - 1)
         then \<lparr>le_Kind = LineDeleted, le_Index = i - 1, le_Line = ancestor ! (i - 1)\<rparr> #
              backtrack dp ancestor side (i - 1) j
         else \<lparr>le_Kind = LineInserted, le_Index = j - 1, le_Line = side ! (j - 1)\<rparr> #
              backtrack dp ancestor side i (j - 1))
      else drain_deleted ancestor i @ drain_inserted side j)"
  by pat_completeness auto
termination
  by (relation "measure (\<lambda>(dp, a, b, i, j). i + j)") auto

declare backtrack.simps [simp del]

definition backtrackEdits :: "lcs_table \<Rightarrow> string list \<Rightarrow> string list \<Rightarrow> LineEdit list" where
  "backtrackEdits dp ancestor side = backtrack dp ancestor side (length ancestor) (length side)"

definition reverseEdits :: "LineEdit list \<Rightarrow> LineEdit list" where
  "reverseEdits rv = List.map (\<lambda>k. rv ! (length rv - 1 - k)) [0..<length rv]"

definition diffLinesEdgeCase :: "string list \<Rightarrow> string list \<Rightarrow> LineEdit list" where
  "diffLinesEdgeCase ancestor side =
     (if ancestor = [] \<and> side = [] then []
      else if ancestor = []
      then List.map (\<lambda>i. \<lparr>le_Kind = LineInserted, le_Index = i, le_Line = side ! i\<rparr>) [0..<length side]
      else List.map (\<lambda>i. \<lparr>le_Kind = LineDeleted, le_Index = i, le_Line = ancestor ! i\<rparr>) [0..<length ancestor])"

definition DiffLines :: "string list \<Rightarrow> string list \<Rightarrow> LineEdit list" where
  "DiffLines ancestor side =
     (if length ancestor = 0 \<or> length side = 0 then diffLinesEdgeCase ancestor side
      else reverseEdits (backtrackEdits (buildLCSTable ancestor side) ancestor side))"

definition HasChanges :: "LineEdit list \<Rightarrow> bool" where
  "HasChanges edits = list_ex (\<lambda>e. le_Kind e \<noteq> LineEqual) edits"

definition CountChanges :: "LineEdit list \<Rightarrow> int \<times> int" where
  "CountChanges edits =
     fold (\<lambda>e (ins, del). case le_Kind e of
        LineInserted \<Rightarrow> (ins + 1, del) | LineDeleted \<Rightarrow> (ins, del + 1) | LineEqual \<Rightarrow> (ins, del)) edits (0, 0)"

section \<open>Lengths of longest common subsequences\<close>

text \<open>The recurrence of the table, and that it is the longest common subsequence.\<close>

fun lcs :: "string list \<Rightarrow> string list \<Rightarrow> nat \<Rightarrow> nat \<Rightarrow> nat" where
  "lcs a b 0 j = 0"
| "lcs a b i 0 = 0"
| "lcs a b (Suc i) (Suc j) =
     (if a ! i = b ! j then lcs a b i j + 1 else max (lcs a b i (Suc j)) (lcs a b (Suc i) j))"

lemma lcs_zero [simp]: "lcs a b i 0 = 0"
  by (cases i) simp_all

lemma subseq_snoc:
  assumes "subseq s (xs @ [x])"
  shows "subseq s xs \<or> (\<exists>s'. s = s' @ [x] \<and> subseq s' xs)"
proof -
  obtain s1 s2 where s: "s = s1 @ s2" "subseq s1 xs" "subseq s2 [x]"
    using assms by (auto simp: subseq_append_iff)
  from s(3) have "s2 = [] \<or> s2 = [x]" by (cases s2) (auto split: if_splits)
  then show ?thesis using s by auto
qed

lemma subseq_butlast: "subseq (s @ [z]) xs \<Longrightarrow> subseq s xs"
  by (rule subseq_order.order_trans [of s "s @ [z]"]) auto

lemma common_last:
  assumes "subseq s (xs @ [x])" "subseq s (ys @ [x])"
  shows "\<exists>s'. subseq s' xs \<and> subseq s' ys \<and> length s \<le> length s' + 1"
proof (cases s rule: rev_cases)
  case Nil
  then show ?thesis by (intro exI [of _ "[]"]) simp
next
  case (snoc s' z)
  have "subseq s' us" if "subseq s (us @ [x])" for us
    using subseq_snoc [OF that] snoc subseq_butlast by auto
  then show ?thesis using assms snoc by auto
qed

lemma common_other:
  assumes "subseq s (xs @ [x])" "subseq s (ys @ [y])" "x \<noteq> y"
  shows "subseq s xs \<or> subseq s ys"
  using subseq_snoc [OF assms(1)] subseq_snoc [OF assms(2)] assms(3) by auto

text \<open>No common subsequence is longer.\<close>

lemma lcs_upper:
  "i \<le> length a \<Longrightarrow> j \<le> length b \<Longrightarrow> subseq s (take i a) \<Longrightarrow> subseq s (take j b) \<Longrightarrow> length s \<le> lcs a b i j"
proof (induction a b i j arbitrary: s rule: lcs.induct)
  case (3 a b i j)
  have t: "take (Suc i) a = take i a @ [a ! i]" "take (Suc j) b = take j b @ [b ! j]"
    and le: "i \<le> length a" "j \<le> length b"
    using 3(4,5) by (simp_all add: take_Suc_conv_app_nth)
  note sub = 3(6,7) [unfolded t]
  show ?case
  proof (cases "a ! i = b ! j")
    case True
    then obtain s' where s': "subseq s' (take i a)" "subseq s' (take j b)" "length s \<le> length s' + 1"
      using common_last [of s "take i a" "a ! i" "take j b"] sub by auto
    then show ?thesis using 3(1) [OF True le s'(1,2)] True by simp
  next
    case False
    then consider "subseq s (take i a)" | "subseq s (take j b)" using common_other [OF sub] by blast
    then show ?thesis
      using 3(2) [OF False le(1) 3(5)] 3(3) [OF False 3(4) le(2)] 3(6,7) False by cases (simp_all add: le_max_iff_disj)
  qed
qed simp_all

section \<open>The table\<close>

text \<open>The table has the shape of its allocation, and every cell before \<open>(i, j)\<close> is final.\<close>

definition shape :: "nat \<Rightarrow> nat \<Rightarrow> lcs_table \<Rightarrow> bool" where
  "shape m n dp \<longleftrightarrow> length dp = m + 1 \<and> (\<forall>i \<le> m. length (dp ! i) = n + 1)"

definition final_upto :: "string list \<Rightarrow> string list \<Rightarrow> nat \<Rightarrow> nat \<Rightarrow> lcs_table \<Rightarrow> bool" where
  "final_upto a b i j dp \<longleftrightarrow> shape (length a) (length b) dp \<and>
     (\<forall>i' \<le> length a. \<forall>j' \<le> length b. i' < i \<or> i' = i \<and> j' < j \<or> j' = 0 \<longrightarrow> cell dp i' j' = lcs a b i' j')"

lemma cell_set:
  assumes "shape m n dp" "i \<le> m" "j \<le> n" "i' \<le> m" "j' \<le> n"
  shows "cell (set_dp i j v dp) i' j' = (if i' = i \<and> j' = j then v else cell dp i' j')"
  using assms by (auto simp: cell_def set_dp_def shape_def nth_list_update)

lemma shape_set: "shape m n dp \<Longrightarrow> shape m n (set_dp i j v dp)"
  by (cases "i < length dp") (auto simp: set_dp_def shape_def nth_list_update)

lemma final_fill:
  assumes "final_upto a b (Suc i) (Suc j) dp" "Suc i \<le> length a" "Suc j \<le> length b"
  shows "final_upto a b (Suc i) (Suc (Suc j)) (fill_cell a b (Suc i) (Suc j) dp)"
proof -
  have sh: "shape (length a) (length b) dp" using assms(1) by (simp add: final_upto_def)
  have c: "cell dp i j = lcs a b i j" "cell dp i (Suc j) = lcs a b i (Suc j)" "cell dp (Suc i) j = lcs a b (Suc i) j"
    using assms by (auto simp: final_upto_def)
  have "fill_cell a b (Suc i) (Suc j) dp = set_dp (Suc i) (Suc j) (lcs a b (Suc i) (Suc j)) dp"
    using c by (simp add: fill_cell_def max_def)
  then show ?thesis
    using assms shape_set [OF sh] cell_set [OF sh assms(2,3)] by (auto simp: final_upto_def less_Suc_eq)
qed

lemma final_row:
  assumes "final_upto a b (Suc i) 1 dp" "Suc i \<le> length a" "k \<le> length b"
  shows "final_upto a b (Suc i) (Suc k) (fold (\<lambda>j. fill_cell a b (Suc i) j) [1..<k + 1] dp)"
  using assms(3)
proof (induction k)
  case 0
  then show ?case using assms(1) by simp
next
  case (Suc k)
  then show ?case using final_fill [OF _ assms(2), where j = k] by simp
qed

lemma final_next: "final_upto a b i (Suc (length b)) dp \<Longrightarrow> final_upto a b (Suc i) 1 dp"
  unfolding final_upto_def by (metis One_nat_def le_imp_less_Suc less_Suc_eq less_Suc0)

lemma final_table:
  assumes "k \<le> length a"
  shows "final_upto a b (Suc k) 1 (fold (\<lambda>i. fold (\<lambda>j. fill_cell a b i j) [1..<length b + 1]) [1..<k + 1]
    (replicate (length a + 1) (replicate (length b + 1) 0)))"
  using assms
proof (induction k)
  case 0
  have "cell (replicate (length a + 1) (replicate (length b + 1) 0)) i j = 0"
    if "i \<le> length a" "j \<le> length b" for i j
    using that by (simp only: cell_def nth_replicate less_Suc_eq_le Suc_eq_plus1 [symmetric])
  then show ?case by (auto simp: final_upto_def shape_def nth_Cons' simp del: replicate.simps)
next
  case (Suc k)
  then show ?case using final_next [OF final_row [OF _ Suc.prems order_refl]] by simp
qed

lemma table_lcs:
  assumes "i \<le> length a" "j \<le> length b"
  shows "cell (buildLCSTable a b) i j = lcs a b i j"
  using final_table [of "length a" a b] assms by (simp add: buildLCSTable_def Let_def final_upto_def)

section \<open>The edit script\<close>

text \<open>What a script says the two files are, the lines it keeps, and where its indices point.\<close>

definition old_lines :: "LineEdit list \<Rightarrow> string list" where
  "old_lines es = List.map le_Line (filter (\<lambda>e. le_Kind e \<noteq> LineInserted) es)"

definition new_lines :: "LineEdit list \<Rightarrow> string list" where
  "new_lines es = List.map le_Line (filter (\<lambda>e. le_Kind e \<noteq> LineDeleted) es)"

definition kept_lines :: "LineEdit list \<Rightarrow> string list" where
  "kept_lines es = List.map le_Line (filter (\<lambda>e. le_Kind e = LineEqual) es)"

definition points_to :: "string list \<Rightarrow> string list \<Rightarrow> LineEdit \<Rightarrow> bool" where
  "points_to a b e = (case le_Kind e of
     LineDeleted \<Rightarrow> le_Index e < length a \<and> a ! le_Index e = le_Line e
   | _ \<Rightarrow> le_Index e < length b \<and> b ! le_Index e = le_Line e)"

lemmas script_defs = old_lines_def new_lines_def kept_lines_def

lemma drain_deleted_ok:
  "i \<le> length a \<Longrightarrow> old_lines (rev (drain_deleted a i)) = take i a \<and> new_lines (rev (drain_deleted a i)) = [] \<and>
     kept_lines (rev (drain_deleted a i)) = [] \<and> list_all (points_to a b) (drain_deleted a i)"
  by (induction i) (auto simp: script_defs points_to_def take_Suc_conv_app_nth)

lemma drain_inserted_ok:
  "j \<le> length b \<Longrightarrow> new_lines (rev (drain_inserted b j)) = take j b \<and> old_lines (rev (drain_inserted b j)) = [] \<and>
     kept_lines (rev (drain_inserted b j)) = [] \<and> list_all (points_to a b) (drain_inserted b j)"
  by (induction j) (auto simp: script_defs points_to_def take_Suc_conv_app_nth)

lemma backtrack_ok:
  "i \<le> length a \<Longrightarrow> j \<le> length b \<Longrightarrow> (\<And>i j. i \<le> length a \<Longrightarrow> j \<le> length b \<Longrightarrow> cell dp i j = lcs a b i j) \<Longrightarrow>
    old_lines (rev (backtrack dp a b i j)) = take i a \<and> new_lines (rev (backtrack dp a b i j)) = take j b \<and>
    length (kept_lines (rev (backtrack dp a b i j))) = lcs a b i j \<and> list_all (points_to a b) (backtrack dp a b i j)"
proof (induction dp a b i j rule: backtrack.induct)
  case (1 dp a b i j)
  note cells = "1.prems"(3)
  have nil: "script (rev (drain_deleted a i @ drain_inserted b j)) =
      script (rev (drain_inserted b j)) @ script (rev (drain_deleted a i))"
    if "script \<in> {old_lines, new_lines, kept_lines}" for script
    using that by (auto simp: script_defs)
  show ?case
  proof (cases "i > 0 \<and> j > 0")
    case False
    then have "backtrack dp a b i j = drain_deleted a i @ drain_inserted b j"
      by (subst backtrack.simps) (rule if_not_P)
    moreover have "i = 0 \<or> j = 0" using False by auto
    moreover from this have "lcs a b i j = 0" by auto
    ultimately show ?thesis
      using nil [of old_lines] nil [of new_lines] nil [of kept_lines]
        drain_deleted_ok [OF "1.prems"(1), of b] drain_inserted_ok [OF "1.prems"(2), of a]
      by (simp del: rev_append)
  next
    case True
    then obtain i' j' where ij: "i = Suc i'" "j = Suc j'" by (auto simp: gr0_conv_Suc)
    then have t: "take i a = take i' a @ [a ! i']" "take j b = take j' b @ [b ! j']"
      and lt: "i' < length a" "j' < length b"
      using "1.prems" by (simp_all add: take_Suc_conv_app_nth)
    consider "a ! i' = b ! j'" | "a ! i' \<noteq> b ! j'" "cell dp i' j \<ge> cell dp i j'"
      | "a ! i' \<noteq> b ! j'" "\<not> cell dp i' j \<ge> cell dp i j'" by blast
    then show ?thesis
    proof cases
      case 1
      then have eq: "backtrack dp a b i j =
          \<lparr>le_Kind = LineEqual, le_Index = j', le_Line = b ! j'\<rparr> # backtrack dp a b i' j'"
        using ij by (subst backtrack.simps) simp
      show ?thesis using "1.IH"(1) [OF True] 1 ij lt cells
        unfolding eq t by (simp add: script_defs points_to_def)
    next
      case 2
      then have eq: "backtrack dp a b i j =
          \<lparr>le_Kind = LineDeleted, le_Index = i', le_Line = a ! i'\<rparr> # backtrack dp a b i' j"
        using ij by (subst backtrack.simps) simp
      have "lcs a b i j = lcs a b i' j" using 2 ij lt cells by (simp add: max_def)
      then show ?thesis using "1.IH"(2) [OF True] 2 ij lt cells "1.prems"(2)
        unfolding eq t(1) by (simp add: script_defs points_to_def)
    next
      case 3
      then have eq: "backtrack dp a b i j =
          \<lparr>le_Kind = LineInserted, le_Index = j', le_Line = b ! j'\<rparr> # backtrack dp a b i j'"
        using ij by (subst backtrack.simps) simp
      have "lcs a b i j = lcs a b i j'" using 3 ij lt cells by (simp add: max_def)
      then show ?thesis using "1.IH"(3) [OF True] 3 ij lt cells "1.prems"(1)
        unfolding eq t(2) by (simp add: script_defs points_to_def)
    qed
  qed
qed

lemma reverse_is_rev: "reverseEdits es = rev es"
  by (intro nth_equalityI) (simp_all add: reverseEdits_def rev_nth)

lemma edge_case_ok:
  assumes "a = [] \<or> b = []"
  shows "old_lines (diffLinesEdgeCase a b) = a \<and> new_lines (diffLinesEdgeCase a b) = b \<and>
    kept_lines (diffLinesEdgeCase a b) = [] \<and> list_all (points_to a b) (diffLinesEdgeCase a b)"
  using assms by (auto simp: diffLinesEdgeCase_def script_defs comp_def map_nth list_all_iff points_to_def)

lemma diff_lines_ok:
  "old_lines (DiffLines a b) = a \<and> new_lines (DiffLines a b) = b \<and>
   length (kept_lines (DiffLines a b)) = lcs a b (length a) (length b) \<and> list_all (points_to a b) (DiffLines a b)"
proof (cases "a = [] \<or> b = []")
  case True
  then show ?thesis using edge_case_ok [OF True] by (auto simp: DiffLines_def)
next
  case False
  then show ?thesis
    using backtrack_ok [of "length a" a "length b" b "buildLCSTable a b"] table_lcs [of _ a _ b]
    by (simp add: DiffLines_def backtrackEdits_def reverse_is_rev list_all_rev)
qed

lemma kept_subseq: "subseq (kept_lines es) (old_lines es) \<and> subseq (kept_lines es) (new_lines es)"
proof -
  have "filter (\<lambda>e. le_Kind e = LineEqual) es =
      filter (\<lambda>e. le_Kind e = LineEqual) (filter (\<lambda>e. le_Kind e \<noteq> k) es)" if "k \<noteq> LineEqual" for k
    using that by (auto intro: filter_cong)
  then show ?thesis unfolding script_defs
    by (metis LineEditKind.distinct(1,3) subseq_filter_left subseq_map)
qed

lemma count_changes:
  "CountChanges es = (int (length (filter (\<lambda>e. le_Kind e = LineInserted) es)),
                      int (length (filter (\<lambda>e. le_Kind e = LineDeleted) es)))"
proof -
  have "fold (\<lambda>e (ins, del). case le_Kind e of
        LineInserted \<Rightarrow> (ins + 1, del) | LineDeleted \<Rightarrow> (ins, del + 1) | LineEqual \<Rightarrow> (ins, del)) es (x, y) =
      (x + int (length (filter (\<lambda>e. le_Kind e = LineInserted) es)),
       y + int (length (filter (\<lambda>e. le_Kind e = LineDeleted) es)))" for x y :: int
    by (induction es arbitrary: x y) (auto split: LineEditKind.splits)
  then show ?thesis by (simp add: CountChanges_def)
qed

lemma script_lengths:
  "length (old_lines es) = length (kept_lines es) + length (filter (\<lambda>e. le_Kind e = LineDeleted) es)"
  "length (new_lines es) = length (kept_lines es) + length (filter (\<lambda>e. le_Kind e = LineInserted) es)"
  by (induction es) (auto simp: script_defs split: LineEditKind.splits, (metis LineEditKind.exhaust)+)

section \<open>Properties\<close>

text \<open>
  C16: the line diff is a shortest edit script: the lines it keeps and deletes are the ancestor,
  the lines it keeps and inserts are the other side, its indices point at those lines, and
  no script could keep more: the kept lines are a longest common subsequence of both files, so
  the counts of insertions and deletions are the least possible.
\<close>

theorem line_diff_minimal:
  "(let es = DiffLines a b
    in old_lines es = a \<and> new_lines es = b \<and> list_all (points_to a b) es \<and>
       subseq (kept_lines es) a \<and> subseq (kept_lines es) b \<and>
       length (kept_lines es) = Max (length ` {s. subseq s a \<and> subseq s b}) \<and>
       CountChanges es = (int (length b) - int (length (kept_lines es)), int (length a) - int (length (kept_lines es))))"
proof -
  let ?es = "DiffLines a b"
  have d: "old_lines ?es = a" "new_lines ?es = b" "list_all (points_to a b) ?es"
    "length (kept_lines ?es) = lcs a b (length a) (length b)"
    using diff_lines_ok [of a b] by simp_all
  have k: "subseq (kept_lines ?es) a" "subseq (kept_lines ?es) b" using kept_subseq [of ?es] d(1,2) by simp_all
  have "finite {s. subseq s a \<and> subseq s b}"
    by (rule finite_subset [of _ "set (subseqs a)"]) auto
  moreover have "length s \<le> length (kept_lines ?es)" if "subseq s a" "subseq s b" for s
    using lcs_upper [of "length a" a "length b" b s] that d(4) by simp
  ultimately have "Max (length ` {s. subseq s a \<and> subseq s b}) = length (kept_lines ?es)"
    using k by (intro Max_eqI) auto
  then show ?thesis using d k script_lengths [of ?es] by (simp add: Let_def count_changes)
qed

end
