(* ===== verification/Brain_Hlc.thy ===== *)
theory Brain_Hlc
  imports Neo_Prelude
begin

text \<open>
  Snapshot clocks of \<^verbatim>\<open>pkg/brain\<close>: the hybrid logical clock of \<^verbatim>\<open>manifest.go\<close> called by one
  goroutine and by several, the clock of a merge of \<^verbatim>\<open>merge/orchestrate.go\<close>, and the search
  for a common ancestor of \<^verbatim>\<open>diff/ancestor.go\<close>.
\<close>

section \<open>Clock values\<close>

record HLC =
  h_WallMS :: int
  h_LogicalCounter :: int

definition HLC_IsZero :: "HLC \<Rightarrow> bool" where
  "HLC_IsZero h \<longleftrightarrow> h_WallMS h = 0 \<and> h_LogicalCounter h = 0"

definition HLC_String :: "HLC \<Rightarrow> string" where
  "HLC_String h = dec_int (h_WallMS h) @ ''.'' @ dec_int (h_LogicalCounter h)"

definition CompareHLC :: "HLC \<Rightarrow> HLC \<Rightarrow> int" where
  "CompareHLC a b =
     (if h_WallMS a < h_WallMS b then - 1
      else if h_WallMS a > h_WallMS b then 1
      else if h_LogicalCounter a < h_LogicalCounter b then - 1
      else if h_LogicalCounter a > h_LogicalCounter b then 1
      else 0)"

lemma compare_lex:
  "CompareHLC a b = - 1 \<longleftrightarrow> h_WallMS a < h_WallMS b \<or> h_WallMS a = h_WallMS b \<and> h_LogicalCounter a < h_LogicalCounter b"
  "CompareHLC a b = 0 \<longleftrightarrow> a = b"
  "CompareHLC b a = - CompareHLC a b"
  "CompareHLC a b > 0 \<longleftrightarrow> CompareHLC b a = - 1"
  by (auto simp: CompareHLC_def)

section \<open>Issuing\<close>

text \<open>Addition of 64-bit integers.\<close>

definition wrap64 :: "int \<Rightarrow> int" where
  "wrap64 x = (x + 2 ^ 63) mod 2 ^ 64 - 2 ^ 63"

lemma wrap64_id: "- (2 ^ 63) \<le> x \<Longrightarrow> x < 2 ^ 63 \<Longrightarrow> wrap64 x = x"
  by (simp add: wrap64_def)

record hlcSource =
  hs_lastWallMS :: int
  hs_counter :: int

definition hlcSource_zero :: hlcSource where
  "hlcSource_zero = \<lparr>hs_lastWallMS = 0, hs_counter = 0\<rparr>"

text \<open>A call that no other interrupts.\<close>

definition NextHLC :: "int \<Rightarrow> hlcSource \<Rightarrow> HLC \<times> hlcSource" where
  "NextHLC now s =
     (let last = hs_lastWallMS s
      in if now > last
         then (\<lparr>h_WallMS = now, h_LogicalCounter = 0\<rparr>, s\<lparr>hs_lastWallMS := now, hs_counter := 0\<rparr>)
         else (let c = wrap64 (hs_counter s + 1)
               in (\<lparr>h_WallMS = hs_lastWallMS s, h_LogicalCounter = c\<rparr>, s\<lparr>hs_counter := c\<rparr>)))"

text \<open>
  The same code as the accesses to its atomic variables. A caller reads the clock, loads the last
  wall time, and either swaps it and then resets the counter, or bumps the counter and then
  reads the wall time again. \<open>sy_overlap\<close> records that a call has begun while another was in progress.
\<close>

datatype hlc_pc =
    Idle
  | Ready int        \<comment> \<open>the clock was read\<close>
  | Swap int int     \<comment> \<open>about to swap the loaded wall time for the new one\<close>
  | Reset int        \<comment> \<open>swapped, the counter still has its old value\<close>
  | Bump             \<comment> \<open>about to increment the counter\<close>
  | Bumped int       \<comment> \<open>incremented, about to read the wall time again\<close>

record hlc_system =
  sy_source :: hlcSource
  sy_pc :: "nat \<Rightarrow> hlc_pc"
  sy_issued :: "HLC list"
  sy_overlap :: bool

inductive hlc_step :: "hlc_system \<Rightarrow> hlc_system \<Rightarrow> bool" where
  read_clock: "sy_pc s t = Idle \<Longrightarrow>
    hlc_step s (s\<lparr>sy_pc := (sy_pc s)(t := Ready now), sy_overlap := sy_overlap s \<or> (\<exists>u. sy_pc s u \<noteq> Idle)\<rparr>)"
| load_last: "sy_pc s t = Ready now \<Longrightarrow> l = hs_lastWallMS (sy_source s) \<Longrightarrow>
    hlc_step s (s\<lparr>sy_pc := (sy_pc s)(t := if now > l then Swap l now else Bump)\<rparr>)"
| swap_ok: "sy_pc s t = Swap l now \<Longrightarrow> hs_lastWallMS (sy_source s) = l \<Longrightarrow>
    hlc_step s (s\<lparr>sy_source := (sy_source s)\<lparr>hs_lastWallMS := now\<rparr>, sy_pc := (sy_pc s)(t := Reset now)\<rparr>)"
| swap_lost: "sy_pc s t = Swap l now \<Longrightarrow> hs_lastWallMS (sy_source s) \<noteq> l \<Longrightarrow>
    hlc_step s (s\<lparr>sy_pc := (sy_pc s)(t := Ready now)\<rparr>)"
| reset: "sy_pc s t = Reset now \<Longrightarrow>
    hlc_step s (s\<lparr>sy_source := (sy_source s)\<lparr>hs_counter := 0\<rparr>, sy_pc := (sy_pc s)(t := Idle),
                 sy_issued := sy_issued s @ [\<lparr>h_WallMS = now, h_LogicalCounter = 0\<rparr>]\<rparr>)"
| bump: "sy_pc s t = Bump \<Longrightarrow> c = wrap64 (hs_counter (sy_source s) + 1) \<Longrightarrow>
    hlc_step s (s\<lparr>sy_source := (sy_source s)\<lparr>hs_counter := c\<rparr>, sy_pc := (sy_pc s)(t := Bumped c)\<rparr>)"
| reread: "sy_pc s t = Bumped c \<Longrightarrow>
    hlc_step s (s\<lparr>sy_pc := (sy_pc s)(t := Idle),
                 sy_issued := sy_issued s @ [\<lparr>h_WallMS = hs_lastWallMS (sy_source s), h_LogicalCounter = c\<rparr>]\<rparr>)"

inductive hlc_reachable :: "hlc_system \<Rightarrow> bool" where
  start: "hlc_reachable \<lparr>sy_source = hlcSource_zero, sy_pc = \<lambda>_. Idle, sy_issued = [], sy_overlap = False\<rparr>"
| step: "hlc_reachable s \<Longrightarrow> hlc_step s s' \<Longrightarrow> hlc_reachable s'"

section \<open>One caller at a time\<close>

text \<open>
  What has been issued, against the source: nothing after the wall time and counter it holds, and
  the counter has not passed the number of calls.
\<close>

definition issued_ok :: "int \<Rightarrow> int \<Rightarrow> HLC list \<Rightarrow> bool" where
  "issued_ok l c hs \<longleftrightarrow>
     (\<forall>h\<in>set hs. h_WallMS h < l \<or> h_WallMS h = l \<and> h_LogicalCounter h \<le> c) \<and> 0 \<le> c \<and> c \<le> int (length hs)"

fun caller_ok :: "hlcSource \<Rightarrow> HLC list \<Rightarrow> hlc_pc \<Rightarrow> bool" where
  "caller_ok s hs (Swap l now) \<longleftrightarrow> issued_ok (hs_lastWallMS s) (hs_counter s) hs \<and> l = hs_lastWallMS s \<and> l < now"
| "caller_ok s hs (Reset now) \<longleftrightarrow> hs_lastWallMS s = now \<and> (\<forall>h\<in>set hs. h_WallMS h < now)"
| "caller_ok s hs (Bumped c) \<longleftrightarrow> (length hs + 1 < 2 ^ 63 \<longrightarrow>
     hs_counter s = c \<and> 0 < c \<and> c \<le> int (length hs) + 1 \<and> issued_ok (hs_lastWallMS s) (c - 1) hs)"
| "caller_ok s hs _ \<longleftrightarrow> issued_ok (hs_lastWallMS s) (hs_counter s) hs"

definition alone_ok :: "hlc_system \<Rightarrow> bool" where
  "alone_ok s \<longleftrightarrow> sorted_wrt (\<lambda>a b. CompareHLC a b = - 1) (sy_issued s) \<and>
     (\<exists>t. (\<forall>u. u \<noteq> t \<longrightarrow> sy_pc s u = Idle) \<and> caller_ok (sy_source s) (sy_issued s) (sy_pc s t))"

lemma alone_okI:
  "sorted_wrt (\<lambda>a b. CompareHLC a b = - 1) (sy_issued s) \<Longrightarrow> \<forall>u. u \<noteq> t \<longrightarrow> sy_pc s u = Idle \<Longrightarrow>
    caller_ok (sy_source s) (sy_issued s) (sy_pc s t) \<Longrightarrow> alone_ok s"
  unfolding alone_ok_def by blast

lemma sorted_issue:
  "sorted_wrt (\<lambda>a b. CompareHLC a b = - 1) hs \<Longrightarrow>
    \<forall>h\<in>set hs. h_WallMS h < h_WallMS x \<or> h_WallMS h = h_WallMS x \<and> h_LogicalCounter h < h_LogicalCounter x \<Longrightarrow>
    sorted_wrt (\<lambda>a b. CompareHLC a b = - 1) (hs @ [x])"
  by (auto simp: sorted_wrt_append compare_lex(1))

lemma alone_step:
  assumes "alone_ok s" "hlc_step s s'" "\<not> sy_overlap s'" "length (sy_issued s') < 2 ^ 63"
  shows "alone_ok s'"
proof -
  obtain t where t: "\<forall>u. u \<noteq> t \<longrightarrow> sy_pc s u = Idle" "caller_ok (sy_source s) (sy_issued s) (sy_pc s t)"
    and srt: "sorted_wrt (\<lambda>a b. CompareHLC a b = - 1) (sy_issued s)"
    using assms(1) unfolding alone_ok_def by blast
  have here: "sy_pc s u \<noteq> Idle \<Longrightarrow> u = t" for u using t(1) by blast
  from assms(2) show ?thesis
  proof cases
    case (read_clock u now)
    then have "sy_pc s v = Idle" for v using assms(3) by auto
    then show ?thesis using t(2) srt by (intro alone_okI [where t = u]) (simp_all add: read_clock(1))
  next
    case (load_last u now l)
    then show ?thesis using here [of u] t srt by (intro alone_okI [where t = t]) auto
  next
    case (swap_ok u l now)
    then have "caller_ok (sy_source s) (sy_issued s) (Swap l now)" using here [of u] t(2) by simp
    then have "\<forall>h\<in>set (sy_issued s). h_WallMS h < now" by (auto simp: issued_ok_def)
    then show ?thesis using here [of u] t srt swap_ok by (intro alone_okI [where t = t]) auto
  next
    case (swap_lost u l now)
    then show ?thesis using here [of u] t by auto
  next
    case (reset u now)
    then have c: "hs_lastWallMS (sy_source s) = now" "\<forall>h\<in>set (sy_issued s). h_WallMS h < now" using here [of u] t(2) by auto
    then have "sorted_wrt (\<lambda>a b. CompareHLC a b = - 1) (sy_issued s')"
      using srt unfolding reset(1) by (simp add: sorted_issue)
    then show ?thesis using here [of u] t c reset by (intro alone_okI [where t = t]) (auto simp: issued_ok_def)
  next
    case (bump u c)
    then have ok: "issued_ok (hs_lastWallMS (sy_source s)) (hs_counter (sy_source s)) (sy_issued s)" using here [of u] t(2) by auto
    have "c = hs_counter (sy_source s) + 1" if "length (sy_issued s) + 1 < 2 ^ 63"
      unfolding bump(3) by (rule wrap64_id) (use ok that in \<open>auto simp: issued_ok_def\<close>)
    then have "caller_ok (sy_source s') (sy_issued s') (Bumped c)" using ok bump(1) by (auto simp: issued_ok_def)
    then show ?thesis using here [of u] t srt bump by (intro alone_okI [where t = t]) (auto simp del: caller_ok.simps)
  next
    case (reread u c)
    then have "caller_ok (sy_source s) (sy_issued s) (Bumped c)" using here [of u] t(2) by simp
    then have c: "hs_counter (sy_source s) = c" "0 < c" "c \<le> int (length (sy_issued s)) + 1"
      "issued_ok (hs_lastWallMS (sy_source s)) (c - 1) (sy_issued s)"
      using assms(4) unfolding reread(1) by auto
    then have "sorted_wrt (\<lambda>a b. CompareHLC a b = - 1) (sy_issued s')"
      using srt unfolding reread(1) by (auto simp: issued_ok_def intro!: sorted_issue)
    moreover have "issued_ok (hs_lastWallMS (sy_source s)) c (sy_issued s')"
      using c unfolding reread(1) by (auto simp: issued_ok_def)
    ultimately show ?thesis using here [of u] t c(1) reread by (intro alone_okI [where t = t]) auto
  qed
qed

lemma alone_reachable:
  "hlc_reachable s \<Longrightarrow> \<not> sy_overlap s \<Longrightarrow> length (sy_issued s) < 2 ^ 63 \<Longrightarrow> alone_ok s"
proof (induction rule: hlc_reachable.induct)
  case start
  then show ?case by (intro alone_okI [where t = 0]) (simp_all add: hlcSource_zero_def issued_ok_def)
next
  case (step s s')
  have "sy_overlap s \<longrightarrow> sy_overlap s'" "length (sy_issued s) \<le> length (sy_issued s')"
    using step.hyps(2) by (auto elim!: hlc_step.cases)
  then show ?case using step alone_step by auto
qed

lemma run_alone:
  assumes "hlc_reachable s" "sy_pc s t = Idle"
  shows "\<exists>s'. hlc_reachable s' \<and> sy_pc s' = sy_pc s \<and>
    sy_issued s' = sy_issued s @ [fst (NextHLC now (sy_source s))] \<and> sy_source s' = snd (NextHLC now (sy_source s)) \<and>
    (sy_overlap s' \<longleftrightarrow> sy_overlap s \<or> (\<exists>u. sy_pc s u \<noteq> Idle))"
proof -
  let ?o = "sy_overlap s \<or> (\<exists>u. sy_pc s u \<noteq> Idle)"
  let ?s0 = "s\<lparr>sy_overlap := ?o\<rparr>"
  let ?s1 = "?s0\<lparr>sy_pc := (sy_pc s)(t := Ready now)\<rparr>"
  have r1: "hlc_reachable ?s1"
    using hlc_reachable.step [OF assms(1) hlc_step.read_clock [OF assms(2), of now]] by (cases s) simp
  note r2 = hlc_reachable.step [OF r1 hlc_step.load_last [of ?s1 t now, OF _ refl]]
  show ?thesis
  proof (cases "now > hs_lastWallMS (sy_source s)")
    case True
    let ?s2 = "?s0\<lparr>sy_pc := (sy_pc s)(t := Swap (hs_lastWallMS (sy_source s)) now)\<rparr>"
    have s2: "hlc_reachable ?s2" using r2 True by simp
    let ?s3 = "?s2\<lparr>sy_source := (sy_source ?s2)\<lparr>hs_lastWallMS := now\<rparr>, sy_pc := (sy_pc ?s2)(t := Reset now)\<rparr>"
    have s3: "hlc_reachable ?s3" by (rule hlc_reachable.step [OF s2 hlc_step.swap_ok]) simp_all
    note s4 = hlc_reachable.step [OF s3 hlc_step.reset [of ?s3 t now]]
    show ?thesis using s4 True assms(2) by (intro exI, intro conjI, simp) (auto simp: NextHLC_def Let_def)
  next
    case False
    let ?s2 = "?s0\<lparr>sy_pc := (sy_pc s)(t := Bump)\<rparr>"
    have s2: "hlc_reachable ?s2" using r2 False by simp
    let ?c = "wrap64 (hs_counter (sy_source s) + 1)"
    let ?s3 = "?s2\<lparr>sy_source := (sy_source ?s2)\<lparr>hs_counter := ?c\<rparr>, sy_pc := (sy_pc ?s2)(t := Bumped ?c)\<rparr>"
    have s3: "hlc_reachable ?s3" by (rule hlc_reachable.step [OF s2 hlc_step.bump]) simp_all
    note s4 = hlc_reachable.step [OF s3 hlc_step.reread [of ?s3 t ?c]]
    show ?thesis using s4 False assms(2) by (intro exI, intro conjI, simp) (auto simp: NextHLC_def Let_def)
  qed
qed

section \<open>Common ancestors\<close>

lemma hlc_string_inj: "HLC_String a = HLC_String b \<Longrightarrow> a = b"
proof -
  assume e: "HLC_String a = HLC_String b"
  have split: "takeWhile (\<lambda>c. c \<noteq> CHR ''.'') (HLC_String h) = dec_int (h_WallMS h)"
    "dropWhile (\<lambda>c. c \<noteq> CHR ''.'') (HLC_String h) = CHR ''.'' # dec_int (h_LogicalCounter h)" for h
    using dec_int_no_dot [of "h_WallMS h"] by (auto simp: HLC_String_def takeWhile_append dropWhile_append)
  have "dec_int (h_WallMS a) = dec_int (h_WallMS b)" "dec_int (h_LogicalCounter a) = dec_int (h_LogicalCounter b)"
    using split [of a] split [of b] e by simp_all
  then show "a = b" by (simp add: dec_int_inj)
qed

text \<open>A lineage provider fails or returns its clock values; \<^const>\<open>None\<close> is a nil provider.\<close>

type_synonym lineage = "string + HLC list"

fun best_loop :: "(string \<Rightarrow> bool) \<Rightarrow> HLC list \<Rightarrow> HLC option \<Rightarrow> HLC option" where
  "best_loop remote [] best = best"
| "best_loop remote (h # hs) best =
     (if \<not> remote (HLC_String h) then best_loop remote hs best
      else case best of
        None \<Rightarrow> best_loop remote hs (Some h)
      | Some b \<Rightarrow> best_loop remote hs (if CompareHLC h b > 0 then Some h else Some b))"

definition FindCommonAncestor :: "lineage option \<Rightarrow> lineage option \<Rightarrow> string + HLC option" where
  "FindCommonAncestor local remote =
     (case (local, remote) of
        (Some l, Some r) \<Rightarrow>
          (case l of
             Inl e \<Rightarrow> Inl e
           | Inr localHLCs \<Rightarrow>
               (case r of
                  Inl e \<Rightarrow> Inl e
                | Inr remoteHLCs \<Rightarrow>
                    Inr (best_loop (\<lambda>k. k \<in> set (List.map HLC_String remoteHLCs)) localHLCs None)))
      | _ \<Rightarrow> Inr None)"

definition LineageFromManifest :: "(HLC \<times> HLC list) option \<Rightarrow> HLC list" where
  "LineageFromManifest m = (case m of None \<Rightarrow> [] | Some (h, mergedFrom) \<Rightarrow> h # mergedFrom)"

definition hlc_le :: "HLC \<Rightarrow> HLC \<Rightarrow> bool" where
  "hlc_le a b \<longleftrightarrow> CompareHLC a b \<le> 0"

lemma hlc_le_trans: "hlc_le a b \<Longrightarrow> hlc_le b c \<Longrightarrow> hlc_le a c"
  by (auto simp: hlc_le_def CompareHLC_def split: if_splits)

lemma best_loop_spec:
  assumes "\<forall>b. best = Some b \<longrightarrow> b \<in> A"
  shows "case best_loop remote hs best of
      None \<Rightarrow> best = None \<and> (\<forall>h\<in>set hs. \<not> remote (HLC_String h))
    | Some b \<Rightarrow> (b \<in> A \<or> b \<in> set hs \<and> remote (HLC_String b)) \<and> (\<forall>b'. best = Some b' \<longrightarrow> hlc_le b' b) \<and>
        (\<forall>h\<in>set hs. remote (HLC_String h) \<longrightarrow> hlc_le h b)"
  using assms
proof (induction hs arbitrary: best A)
  case Nil
  then show ?case by (auto simp: hlc_le_def CompareHLC_def split: option.splits)
next
  case (Cons h hs)
  have refl: "hlc_le x x" for x by (simp add: hlc_le_def CompareHLC_def)
  show ?case
  proof (cases "remote (HLC_String h)")
    case False
    then show ?thesis using Cons.IH [OF Cons.prems] by (auto split: option.splits)
  next
    case True
    define best' where "best' = (case best of None \<Rightarrow> h | Some b \<Rightarrow> if CompareHLC h b > 0 then h else b)"
    have step: "best_loop remote (h # hs) best = best_loop remote hs (Some best')"
      using True by (auto simp: best'_def split: option.splits)
    have b: "best' \<in> insert h A" "hlc_le h best'" "\<forall>b'. best = Some b' \<longrightarrow> hlc_le b' best'"
      using Cons.prems refl by (auto simp: best'_def hlc_le_def CompareHLC_def split: option.splits)
    show ?thesis
      using Cons.IH [of "Some best'" "insert h A"] b True unfolding step
      by (auto split: option.splits intro: hlc_le_trans)
  qed
qed

section \<open>Merged clocks\<close>

definition mergedHLC :: "HLC \<Rightarrow> HLC \<Rightarrow> HLC" where
  "mergedHLC local remote =
     (if h_WallMS local = 0 \<and> h_LogicalCounter local = 0 \<and> h_WallMS remote = 0 \<and> h_LogicalCounter remote = 0
      then \<lparr>h_WallMS = 0, h_LogicalCounter = 0\<rparr>
      else if h_WallMS local > h_WallMS remote
      then \<lparr>h_WallMS = h_WallMS local, h_LogicalCounter = wrap64 (h_LogicalCounter local + 1)\<rparr>
      else if h_WallMS remote > h_WallMS local
      then \<lparr>h_WallMS = h_WallMS remote, h_LogicalCounter = wrap64 (h_LogicalCounter remote + 1)\<rparr>
      else \<lparr>h_WallMS = h_WallMS local,
            h_LogicalCounter = wrap64 (max (h_LogicalCounter local) (h_LogicalCounter remote) + 1)\<rparr>)"

section \<open>Properties\<close>

text \<open>
  C17: snapshot clocks order snapshots: whatever the wall clock reads, stuck or stepping back,
  the values one process issues are strictly increasing as long as no call has begun while
  another was in progress and fewer than \<open>2^63\<close> were issued; and the clock of a merge is strictly
  after both of its sides unless neither carries one, as long as their counters are below the
  largest 64-bit integer.
\<close>

theorem hlc_strictly_increasing:
  assumes "hlc_reachable s" "\<not> sy_overlap s" "length (sy_issued s) < 2 ^ 63"
    and "{h_LogicalCounter local, h_LogicalCounter remote} \<subseteq> {- (2 ^ 63)..<2 ^ 63 - 1}"
  shows "sorted_wrt (\<lambda>a b. CompareHLC a b = - 1) (sy_issued s) \<and>
   (HLC_IsZero local \<and> HLC_IsZero remote \<and> HLC_IsZero (mergedHLC local remote) \<or>
    CompareHLC local (mergedHLC local remote) = - 1 \<and> CompareHLC remote (mergedHLC local remote) = - 1)"
proof
  show "sorted_wrt (\<lambda>a b. CompareHLC a b = - 1) (sy_issued s)"
    using alone_reachable [OF assms(1-3)] by (simp add: alone_ok_def)
  have w: "wrap64 (h_LogicalCounter local + 1) = h_LogicalCounter local + 1"
    "wrap64 (h_LogicalCounter remote + 1) = h_LogicalCounter remote + 1"
    "wrap64 (max (h_LogicalCounter local) (h_LogicalCounter remote) + 1) =
      max (h_LogicalCounter local) (h_LogicalCounter remote) + 1"
    using assms(4) by (auto intro!: wrap64_id simp: max_def)
  show "HLC_IsZero local \<and> HLC_IsZero remote \<and> HLC_IsZero (mergedHLC local remote) \<or>
    CompareHLC local (mergedHLC local remote) = - 1 \<and> CompareHLC remote (mergedHLC local remote) = - 1"
    by (auto simp: HLC_IsZero_def mergedHLC_def w compare_lex(1))
qed

text \<open>A clock that reads 5, 5 and then 3.\<close>

theorem hlc_strictly_increasing_witness:
  "\<exists>s. hlc_reachable s \<and> \<not> sy_overlap s \<and>
     sy_issued s = [\<lparr>h_WallMS = 5, h_LogicalCounter = 0\<rparr>, \<lparr>h_WallMS = 5, h_LogicalCounter = 1\<rparr>, \<lparr>h_WallMS = 5, h_LogicalCounter = 2\<rparr>] \<and>
     sorted_wrt (\<lambda>a b. CompareHLC a b = - 1) (sy_issued s) \<and>
     CompareHLC \<lparr>h_WallMS = 5, h_LogicalCounter = 2\<rparr>
       (mergedHLC \<lparr>h_WallMS = 5, h_LogicalCounter = 2\<rparr> \<lparr>h_WallMS = 5, h_LogicalCounter = 7\<rparr>) = - 1"
proof -
  let ?l = "\<lparr>h_WallMS = 5, h_LogicalCounter = 2\<rparr>" and ?r = "\<lparr>h_WallMS = 5, h_LogicalCounter = 7\<rparr>"
  obtain s1 where s1: "hlc_reachable s1" "\<not> sy_overlap s1" "sy_pc s1 = (\<lambda>_. Idle)"
      "sy_issued s1 = [\<lparr>h_WallMS = 5, h_LogicalCounter = 0\<rparr>]" "sy_source s1 = \<lparr>hs_lastWallMS = 5, hs_counter = 0\<rparr>"
    using run_alone [OF hlc_reachable.start, of 0 5] by (auto simp: NextHLC_def hlcSource_zero_def)
  obtain s2 where s2: "hlc_reachable s2" "\<not> sy_overlap s2" "sy_pc s2 = (\<lambda>_. Idle)" "sy_source s2 = \<lparr>hs_lastWallMS = 5, hs_counter = 1\<rparr>"
      "sy_issued s2 = [\<lparr>h_WallMS = 5, h_LogicalCounter = 0\<rparr>, \<lparr>h_WallMS = 5, h_LogicalCounter = 1\<rparr>]"
    using run_alone [OF s1(1), of 1 5] s1 by (auto simp: NextHLC_def wrap64_def)
  obtain s3 where s3: "hlc_reachable s3" "\<not> sy_overlap s3"
      "sy_issued s3 = [\<lparr>h_WallMS = 5, h_LogicalCounter = 0\<rparr>, \<lparr>h_WallMS = 5, h_LogicalCounter = 1\<rparr>, \<lparr>h_WallMS = 5, h_LogicalCounter = 2\<rparr>]"
    using run_alone [OF s2(1), of 0 3] s2 by (auto simp: NextHLC_def wrap64_def)
  have "sorted_wrt (\<lambda>a b. CompareHLC a b = - 1) (sy_issued s3) \<and>
   (HLC_IsZero ?l \<and> HLC_IsZero ?r \<and> HLC_IsZero (mergedHLC ?l ?r) \<or>
    CompareHLC ?l (mergedHLC ?l ?r) = - 1 \<and> CompareHLC ?r (mergedHLC ?l ?r) = - 1)"
    by (rule hlc_strictly_increasing) (use s3 in simp_all)
  then show ?thesis using s3 by (auto simp: HLC_IsZero_def)
qed

text \<open>A manifest that carries the largest counter makes the merge wrap to a clock before both sides.\<close>

lemma merged_wraps:
  "CompareHLC (mergedHLC \<lparr>h_WallMS = 5, h_LogicalCounter = 0\<rparr> \<lparr>h_WallMS = 5, h_LogicalCounter = 2 ^ 63 - 1\<rparr>)
     \<lparr>h_WallMS = 5, h_LogicalCounter = 0\<rparr> = - 1"
  by (simp add: mergedHLC_def CompareHLC_def wrap64_def)

text \<open>
  The clock is not safe to call concurrently, although it is documented to be: with two
  goroutines and a clock that reads the same for all calls, the same value is issued twice,
  because the winner of the swap resets the counter after another caller has bumped it.
\<close>

lemma hlc_race_duplicates:
  "\<exists>s. hlc_reachable s \<and> sy_issued s =
     [\<lparr>h_WallMS = 5, h_LogicalCounter = 1\<rparr>, \<lparr>h_WallMS = 5, h_LogicalCounter = 0\<rparr>, \<lparr>h_WallMS = 5, h_LogicalCounter = 1\<rparr>]"
proof -
  let ?sys = "\<lambda>l c pc out. \<lparr>sy_source = \<lparr>hs_lastWallMS = l, hs_counter = c\<rparr>, sy_pc = pc, sy_issued = out, sy_overlap = False\<rparr>"
  let ?idle = "\<lambda>_ :: nat. Idle"
  have "hlc_reachable (?sys 0 0 ?idle [])" using hlc_reachable.start by (simp add: hlcSource_zero_def)
  from hlc_reachable.step [OF this hlc_step.read_clock [of _ 1 5]]
  have "hlc_reachable (?sys 0 0 (?idle(1 := Ready 5)) [])" by simp
  from hlc_reachable.step [OF this hlc_step.load_last [of _ 1 5, OF _ refl]]
  have "hlc_reachable (?sys 0 0 (?idle(1 := Swap 0 5)) [])" by simp
  from hlc_reachable.step [OF this hlc_step.swap_ok [of _ 1 0 5]]
  have "hlc_reachable (?sys 5 0 (?idle(1 := Reset 5)) [])" by simp
  then obtain s where s: "hlc_reachable s" "sy_pc s = ?idle(1 := Reset 5)"
      "sy_issued s = [\<lparr>h_WallMS = 5, h_LogicalCounter = 1\<rparr>]" "sy_source s = \<lparr>hs_lastWallMS = 5, hs_counter = 1\<rparr>"
    using run_alone [of "?sys 5 0 (?idle(1 := Reset 5)) []" 2 5] by (auto simp: NextHLC_def Let_def wrap64_def)
  from hlc_reachable.step [OF s(1) hlc_step.reset [of s 1 5]]
  have r: "hlc_reachable (s\<lparr>sy_source := (sy_source s)\<lparr>hs_counter := 0\<rparr>, sy_pc := (sy_pc s)(1 := Idle),
      sy_issued := sy_issued s @ [\<lparr>h_WallMS = 5, h_LogicalCounter = 0\<rparr>]\<rparr>)" using s(2) by simp
  from run_alone [OF r, of 2 5] show ?thesis by (auto simp: s NextHLC_def Let_def wrap64_def)
qed

text \<open>
  A common ancestor is found exactly when the histories share a snapshot, and it is the
  latest one they share; a provider's error is passed on.
\<close>

theorem common_ancestor_latest:
  "(case FindCommonAncestor (Some l) (Some r) of
      Inl e \<Rightarrow> l = Inl e \<or> r = Inl e
    | Inr None \<Rightarrow> \<exists>ls rs. l = Inr ls \<and> r = Inr rs \<and> set ls \<inter> set rs = {}
    | Inr (Some h) \<Rightarrow> \<exists>ls rs. l = Inr ls \<and> r = Inr rs \<and> h \<in> set ls \<inter> set rs \<and>
        set ls \<inter> set rs \<subseteq> {h'. hlc_le h' h})"
proof (cases l; cases r)
  fix ls rs assume lr: "l = Inr ls" "r = Inr rs"
  have m: "HLC_String h \<in> set (List.map HLC_String rs) \<longleftrightarrow> h \<in> set rs" for h
    using hlc_string_inj by auto
  show ?thesis
    using best_loop_spec [where best = None and A = "{}" and remote = "\<lambda>k. k \<in> set (List.map HLC_String rs)" and hs = ls] m lr
    by (auto simp: FindCommonAncestor_def split: option.splits)
qed (auto simp: FindCommonAncestor_def)

end
