(* ===== verification/Brain_Merge.thy ===== *)
theory Brain_Merge
  imports Brain_Hlc
begin

text \<open>
  Three-way merge of brain snapshots: the bucket differ of \<^verbatim>\<open>pkg/brain/diff/boltdb.go\<close>, the
  conflict detector and resolver of \<^verbatim>\<open>pkg/brain/merge/detect.go\<close>, and the strategies and the
  commit of \<^verbatim>\<open>merge/orchestrate.go\<close>. A Go map is the association list of its entries in the
  order one \<^verbatim>\<open>range\<close> visits them, with distinct keys; a byte slice is a string, a nil slice the
  empty one, as \<^verbatim>\<open>bytes.Equal\<close> and \<^verbatim>\<open>len\<close> treat it.
\<close>

section \<open>Bucket diffs\<close>

datatype BucketChangeKind = ChangeAdded | ChangeModified | ChangeDeleted | ChangeUnchanged

record BucketChange =
  bc_Key :: string
  bc_Kind :: BucketChangeKind
  bc_AncestorValue :: string
  bc_SideValue :: string

record BucketDiff =
  bd_Added :: "BucketChange list"
  bd_Modified :: "BucketChange list"
  bd_Deleted :: "BucketChange list"
  bd_Unchanged :: nat

type_synonym bucket = "(string \<times> string) list"

definition diff_ancestor_key :: "bucket \<Rightarrow> string \<times> string \<Rightarrow> BucketDiff \<Rightarrow> BucketDiff" where
  "diff_ancestor_key side kv d =
     (let (k, av) = kv
      in case map_of side k of
           None \<Rightarrow> d\<lparr>bd_Deleted := bd_Deleted d @
             [\<lparr>bc_Key = k, bc_Kind = ChangeDeleted, bc_AncestorValue = av, bc_SideValue = ''''\<rparr>]\<rparr>
         | Some sv \<Rightarrow>
             if av = sv then d\<lparr>bd_Unchanged := bd_Unchanged d + 1\<rparr>
             else d\<lparr>bd_Modified := bd_Modified d @
               [\<lparr>bc_Key = k, bc_Kind = ChangeModified, bc_AncestorValue = av, bc_SideValue = sv\<rparr>]\<rparr>)"

definition diff_side_key :: "bucket \<Rightarrow> string \<times> string \<Rightarrow> BucketDiff \<Rightarrow> BucketDiff" where
  "diff_side_key ancestor kv d =
     (let (k, sv) = kv
      in if map_of ancestor k \<noteq> None then d
         else d\<lparr>bd_Added := bd_Added d @
           [\<lparr>bc_Key = k, bc_Kind = ChangeAdded, bc_AncestorValue = '''', bc_SideValue = sv\<rparr>]\<rparr>)"

definition DiffBuckets :: "bucket \<Rightarrow> bucket \<Rightarrow> BucketDiff" where
  "DiffBuckets ancestor side =
     fold (diff_side_key ancestor) side
       (fold (diff_ancestor_key side) ancestor
         \<lparr>bd_Added = [], bd_Modified = [], bd_Deleted = [], bd_Unchanged = 0\<rparr>)"

definition BucketDiff_IsEmpty :: "BucketDiff \<Rightarrow> bool" where
  "BucketDiff_IsEmpty d \<longleftrightarrow> length (bd_Added d) = 0 \<and> length (bd_Modified d) = 0 \<and> length (bd_Deleted d) = 0"

definition BucketDiff_Total :: "BucketDiff \<Rightarrow> nat" where
  "BucketDiff_Total d = length (bd_Added d) + length (bd_Modified d) + length (bd_Deleted d)"

section \<open>Conflicts\<close>

record Conflict =
  cf_Bucket :: string
  cf_Key :: string
  cf_AncestorValue :: string
  cf_LocalValue :: string
  cf_RemoteValue :: string
  cf_Reason :: string

definition kind_name :: "BucketChangeKind \<Rightarrow> string" where
  "kind_name k = (case k of ChangeAdded \<Rightarrow> ''added'' | ChangeModified \<Rightarrow> ''modified''
     | ChangeDeleted \<Rightarrow> ''deleted'' | ChangeUnchanged \<Rightarrow> ''unchanged'')"

text \<open>Assigning a key of a map: in place when it is there, at the end otherwise.\<close>

fun map_put :: "string \<Rightarrow> 'a \<Rightarrow> (string \<times> 'a) list \<Rightarrow> (string \<times> 'a) list" where
  "map_put k v [] = [(k, v)]"
| "map_put k v ((k', v') # xs) = (if k' = k then (k, v) # xs else (k', v') # map_put k v xs)"

definition indexChanges :: "BucketDiff \<Rightarrow> (string \<times> BucketChange) list" where
  "indexChanges d =
     fold (\<lambda>c. map_put (bc_Key c) c) (bd_Deleted d)
       (fold (\<lambda>c. map_put (bc_Key c) c) (bd_Modified d)
         (fold (\<lambda>c. map_put (bc_Key c) c) (bd_Added d) []))"

text \<open>\<^const>\<open>None\<close> for the pairs that are no conflict.\<close>

definition classifyPair :: "string \<Rightarrow> string \<Rightarrow> BucketChange \<Rightarrow> BucketChange \<Rightarrow> Conflict option" where
  "classifyPair bucket key lc rc =
     (if bc_Kind lc = ChangeModified \<and> bc_Kind rc = ChangeModified then
        (if bc_SideValue lc = bc_SideValue rc then None
         else Some \<lparr>cf_Bucket = bucket, cf_Key = key, cf_AncestorValue = bc_AncestorValue lc,
                cf_LocalValue = bc_SideValue lc, cf_RemoteValue = bc_SideValue rc,
                cf_Reason = ''modified on both sides with different values''\<rparr>)
      else if bc_Kind lc = ChangeDeleted \<and> bc_Kind rc = ChangeModified then
        Some \<lparr>cf_Bucket = bucket, cf_Key = key, cf_AncestorValue = bc_AncestorValue lc,
          cf_LocalValue = '''', cf_RemoteValue = bc_SideValue rc, cf_Reason = ''local deleted, remote modified''\<rparr>
      else if bc_Kind lc = ChangeModified \<and> bc_Kind rc = ChangeDeleted then
        Some \<lparr>cf_Bucket = bucket, cf_Key = key, cf_AncestorValue = bc_AncestorValue lc,
          cf_LocalValue = bc_SideValue lc, cf_RemoteValue = '''', cf_Reason = ''local modified, remote deleted''\<rparr>
      else if bc_Kind lc = ChangeAdded \<and> bc_Kind rc = ChangeAdded then
        (if bc_SideValue lc = bc_SideValue rc then None
         else Some \<lparr>cf_Bucket = bucket, cf_Key = key, cf_AncestorValue = '''',
                cf_LocalValue = bc_SideValue lc, cf_RemoteValue = bc_SideValue rc,
                cf_Reason = ''concurrent insert with different values''\<rparr>)
      else if bc_Kind lc = ChangeDeleted \<and> bc_Kind rc = ChangeDeleted then None
      else Some \<lparr>cf_Bucket = bucket, cf_Key = key, cf_AncestorValue = bc_AncestorValue lc,
             cf_LocalValue = bc_SideValue lc, cf_RemoteValue = bc_SideValue rc,
             cf_Reason = ''inconsistent change kinds: local='' @ kind_name (bc_Kind lc) @ '' remote='' @ kind_name (bc_Kind rc)\<rparr>)"

definition DetectConflicts :: "string \<Rightarrow> BucketDiff \<Rightarrow> BucketDiff \<Rightarrow> Conflict list" where
  "DetectConflicts bucket localDiff remoteDiff =
     (let remoteChanges = indexChanges remoteDiff
      in List.map_filter (\<lambda>(key, lc).
           case map_of remoteChanges key of None \<Rightarrow> None | Some rc \<Rightarrow> classifyPair bucket key lc rc)
         (indexChanges localDiff))"

section \<open>Automatic resolution\<close>

datatype BucketKind = BucketGeneric | BucketAppendOnly | BucketMonotonicCounter | BucketTombstones

record AutoResolution =
  ar_Conflict :: Conflict
  ar_ResolvedValue :: string
  ar_Strategy :: string

text \<open>\<^verbatim>\<open>strconv.ParseInt\<close> in base 10 for 64 bits: an optional sign, then digits only.\<close>

definition parse_int64 :: "string \<Rightarrow> int option" where
  "parse_int64 s =
     (let neg = (s \<noteq> '''' \<and> hd s = CHR ''-'');
          body = (if s \<noteq> '''' \<and> (hd s = CHR ''-'' \<or> hd s = CHR ''+'') then tl s else s)
      in if body = '''' \<or> \<not> list_all is_digit body then None
         else (let n = (if neg then - int (digits_val body) else int (digits_val body))
               in if n < - (2 ^ 63) \<or> n \<ge> 2 ^ 63 then None else Some n))"

definition parseInt :: "string \<Rightarrow> int option" where
  "parseInt b = (if length b = 0 then None else parse_int64 b)"

text \<open>\<^verbatim>\<open>bytes.Compare\<close> is the lexicographic order of byte strings.\<close>

definition AutoResolve :: "Conflict \<Rightarrow> BucketKind \<Rightarrow> AutoResolution option" where
  "AutoResolve c kind =
     (case kind of
        BucketAppendOnly \<Rightarrow>
          Some \<lparr>ar_Conflict = c,
            ar_ResolvedValue = (if cf_LocalValue c < cf_RemoteValue c then cf_RemoteValue c else cf_LocalValue c),
            ar_Strategy = ''append_union''\<rparr>
      | BucketMonotonicCounter \<Rightarrow>
          (case (parseInt (cf_LocalValue c), parseInt (cf_RemoteValue c)) of
             (Some l, Some r) \<Rightarrow>
               Some \<lparr>ar_Conflict = c, ar_ResolvedValue = dec_int (max l r), ar_Strategy = ''monotonic_max''\<rparr>
           | _ \<Rightarrow> None)
      | BucketTombstones \<Rightarrow>
          if length (cf_LocalValue c) = 0 \<or> length (cf_RemoteValue c) = 0
          then Some \<lparr>ar_Conflict = c, ar_ResolvedValue = '''', ar_Strategy = ''tombstone_wins''\<rparr>
          else None
      | BucketGeneric \<Rightarrow> None)"

definition AutoResolveBatch :: "Conflict list \<Rightarrow> BucketKind \<Rightarrow> AutoResolution list \<times> Conflict list" where
  "AutoResolveBatch conflicts kind =
     fold (\<lambda>c (resolved, remaining).
        case AutoResolve c kind of
          Some r \<Rightarrow> (resolved @ [r], remaining)
        | None \<Rightarrow> (resolved, remaining @ [c])) conflicts ([], [])"

section \<open>Strategies\<close>

record MergeStats =
  ms_AutoResolved :: int
  ms_InteractivePicked :: int
  ms_StrategyForced :: int
  ms_Aborted :: int

record MergedKey =
  mk_Bucket :: string
  mk_Key :: string
  mk_Value :: string

record OrchestrateInput =
  oi_Bucket :: string
  oi_Kind :: BucketKind
  oi_Conflicts :: "Conflict list"
  oi_LocalHLC :: HLC
  oi_RemoteHLC :: HLC

record OrchestrateResult =
  or_Bucket :: string
  or_Merged :: "MergedKey list"
  or_Stats :: MergeStats
  or_MergedHLC :: HLC
  or_Aborted :: bool

datatype Strategy = StrategyAutoOnly | StrategyTakeLocal | StrategyTakeRemote | StrategyInteractive | StrategyOther string

text \<open>The operator's choice for a conflict, an argument: an error or the value.\<close>

type_synonym InteractiveResolver = "Conflict \<Rightarrow> string + string"

text \<open>\<^verbatim>\<open>%q\<close> of a string with nothing to escape.\<close>

definition go_quote :: "string \<Rightarrow> string" where
  "go_quote s = [CHR 0x22] @ s @ [CHR 0x22]"

definition mk :: "Conflict \<Rightarrow> string \<Rightarrow> MergedKey" where
  "mk c v = \<lparr>mk_Bucket = cf_Bucket c, mk_Key = cf_Key c, mk_Value = v\<rparr>"

definition force_step :: "(Conflict \<Rightarrow> string) \<Rightarrow> Conflict \<Rightarrow> OrchestrateResult \<Rightarrow> OrchestrateResult" where
  "force_step pick c out =
     out\<lparr>or_Merged := or_Merged out @ [mk c (pick c)],
         or_Stats := (or_Stats out)\<lparr>ms_StrategyForced := ms_StrategyForced (or_Stats out) + 1\<rparr>\<rparr>"

fun ask_loop :: "InteractiveResolver \<Rightarrow> Conflict list \<Rightarrow> OrchestrateResult \<Rightarrow> OrchestrateResult \<times> string option" where
  "ask_loop resolver [] out = (out, None)"
| "ask_loop resolver (c # cs) out =
     (case resolver c of
        Inl e \<Rightarrow>
          (out\<lparr>or_Aborted := True, or_Stats := (or_Stats out)\<lparr>ms_Aborted := ms_Aborted (or_Stats out) + 1\<rparr>\<rparr>,
           Some (''interactive resolver for '' @ cf_Bucket c @ ''/'' @ cf_Key c @ '': '' @ e))
      | Inr val \<Rightarrow>
          ask_loop resolver cs
            (out\<lparr>or_Merged := or_Merged out @ [mk c val],
                 or_Stats := (or_Stats out)\<lparr>ms_InteractivePicked := ms_InteractivePicked (or_Stats out) + 1\<rparr>\<rparr>))"

definition Orchestrate ::
    "OrchestrateInput \<Rightarrow> Strategy \<Rightarrow> InteractiveResolver option \<Rightarrow> OrchestrateResult \<times> string option" where
  "Orchestrate input strategy resolver =
     (let (autoResolved, remaining) = AutoResolveBatch (oi_Conflicts input) (oi_Kind input);
          out = \<lparr>or_Bucket = oi_Bucket input,
            or_Merged = List.map (\<lambda>ar. \<lparr>mk_Bucket = oi_Bucket input, mk_Key = cf_Key (ar_Conflict ar),
              mk_Value = ar_ResolvedValue ar\<rparr>) autoResolved,
            or_Stats = \<lparr>ms_AutoResolved = int (length autoResolved), ms_InteractivePicked = 0,
              ms_StrategyForced = 0, ms_Aborted = 0\<rparr>,
            or_MergedHLC = mergedHLC (oi_LocalHLC input) (oi_RemoteHLC input), or_Aborted = False\<rparr>
      in if length remaining = 0 then (out, None)
         else case strategy of
             StrategyAutoOnly \<Rightarrow>
               (out, Some (''orchestrate: '' @ dec (length remaining) @ '' non-trivial conflict(s) in bucket '' @ go_quote (oi_Bucket input) @
                 '' (use --strategy=interactive|local|remote to resolve)''))
           | StrategyTakeLocal \<Rightarrow> (fold (force_step cf_LocalValue) remaining out, None)
           | StrategyTakeRemote \<Rightarrow> (fold (force_step cf_RemoteValue) remaining out, None)
           | StrategyInteractive \<Rightarrow>
               (case resolver of
                  None \<Rightarrow> (out, Some ''orchestrate: interactive strategy requires a non-nil resolver'')
                | Some rs \<Rightarrow> ask_loop rs remaining out)
           | StrategyOther s \<Rightarrow> (out, Some (''orchestrate: unknown strategy '' @ go_quote s)))"

definition AddStats :: "MergeStats \<Rightarrow> MergeStats \<Rightarrow> MergeStats" where
  "AddStats a b =
     \<lparr>ms_AutoResolved = ms_AutoResolved a + ms_AutoResolved b,
      ms_InteractivePicked = ms_InteractivePicked a + ms_InteractivePicked b,
      ms_StrategyForced = ms_StrategyForced a + ms_StrategyForced b,
      ms_Aborted = ms_Aborted a + ms_Aborted b\<rparr>"

definition FormatStats :: "MergeStats \<Rightarrow> string" where
  "FormatStats s = ''merged '' @ dec_int (ms_AutoResolved s) @ '' auto, '' @ dec_int (ms_InteractivePicked s) @
     '' interactive, '' @ dec_int (ms_StrategyForced s) @ '' strategy-forced, '' @ dec_int (ms_Aborted s) @ '' aborted''"

text \<open>The commit function of the caller, over a state of its own.\<close>

fun commit_keys ::
    "(string \<Rightarrow> string \<Rightarrow> string \<Rightarrow> 's \<Rightarrow> string option \<times> 's) \<Rightarrow> MergedKey list \<Rightarrow> 's \<Rightarrow> string option \<times> 's" where
  "commit_keys commit [] s = (None, s)"
| "commit_keys commit (k # ks) s =
     (case commit (mk_Bucket k) (mk_Key k) (mk_Value k) s of
        (Some e, s') \<Rightarrow> (Some (''commit '' @ mk_Bucket k @ ''/'' @ mk_Key k @ '': '' @ e), s')
      | (None, s') \<Rightarrow> commit_keys commit ks s')"

fun CommitMerge ::
    "OrchestrateResult list \<Rightarrow> (string \<Rightarrow> string \<Rightarrow> string \<Rightarrow> 's \<Rightarrow> string option \<times> 's) \<Rightarrow> 's \<Rightarrow> string option \<times> 's" where
  "CommitMerge [] commit s = (None, s)"
| "CommitMerge (r # rs) commit s =
     (if or_Aborted r then (Some (''commit aborted: bucket '' @ go_quote (or_Bucket r) @ '' had aborted resolution''), s)
      else case commit_keys commit (or_Merged r) s of
        (Some e, s') \<Rightarrow> (Some e, s')
      | (None, s') \<Rightarrow> CommitMerge rs commit s')"

end
