(* ===== verification/Brain_MergeProps.thy ===== *)
theory Brain_MergeProps
  imports Brain_Merge
begin

text \<open>
  What the merge of snapshots guarantees: the differ describes the change of every key, the
  detector finds exactly the keys both sides changed to different outcomes, the automatic
  rules do not depend on which side is local, and a strategy leaves no conflict undecided.
\<close>

section \<open>Maps built by assignment\<close>

lemma map_put_of: "map_of (map_put k v xs) = (map_of xs)(k \<mapsto> v)"
  by (induction k v xs rule: map_put.induct) auto

lemma map_put_keys: "distinct (List.map fst xs) \<Longrightarrow> distinct (List.map fst (map_put k v xs)) \<and> set (List.map fst (map_put k v xs)) = insert k (set (List.map fst xs))"
  by (induction k v xs rule: map_put.induct) auto

definition put_all :: "BucketChange list \<Rightarrow> (string \<times> BucketChange) list \<Rightarrow> (string \<times> BucketChange) list" where
  "put_all cs m = fold (\<lambda>c. map_put (bc_Key c) c) cs m"

lemma put_all_distinct: "distinct (List.map fst m) \<Longrightarrow> distinct (List.map fst (put_all cs m))"
  by (induction cs arbitrary: m) (auto simp: put_all_def map_put_keys)

lemma put_all_of:
  "distinct (List.map bc_Key cs) \<Longrightarrow>
   map_of (put_all cs m) k = (case List.find (\<lambda>c. bc_Key c = k) cs of Some c \<Rightarrow> Some c | None \<Rightarrow> map_of m k)"
proof (induction cs arbitrary: m)
  case Nil
  then show ?case by (simp add: put_all_def)
next
  case (Cons c cs)
  have "bc_Key c' \<noteq> bc_Key c" if "c' \<in> set cs" for c'
    using Cons.prems image_eqI [of "bc_Key c'" bc_Key c', OF refl that] by auto
  then have "List.find (\<lambda>c'. bc_Key c' = bc_Key c) cs = None" by (simp add: find_None_iff)
  then show ?case using Cons.IH [of "map_put (bc_Key c) c m"] Cons.prems
    by (auto simp: put_all_def map_put_of split: option.splits)
qed

lemma index_put_all: "indexChanges d = put_all (bd_Deleted d) (put_all (bd_Modified d) (put_all (bd_Added d) []))"
  by (simp add: indexChanges_def put_all_def)

section \<open>The differ\<close>

definition deleted_of :: "string \<Rightarrow> string \<Rightarrow> BucketChange" where
  "deleted_of k v = \<lparr>bc_Key = k, bc_Kind = ChangeDeleted, bc_AncestorValue = v, bc_SideValue = ''''\<rparr>"

definition modified_of :: "string \<Rightarrow> string \<Rightarrow> string \<Rightarrow> BucketChange" where
  "modified_of k v w = \<lparr>bc_Key = k, bc_Kind = ChangeModified, bc_AncestorValue = v, bc_SideValue = w\<rparr>"

definition added_of :: "string \<Rightarrow> string \<Rightarrow> BucketChange" where
  "added_of k w = \<lparr>bc_Key = k, bc_Kind = ChangeAdded, bc_AncestorValue = '''', bc_SideValue = w\<rparr>"

lemmas change_defs = deleted_of_def modified_of_def added_of_def

lemma change_key [simp]: "bc_Key (deleted_of k v) = k" "bc_Key (modified_of k v w) = k" "bc_Key (added_of k w) = k"
  by (simp_all add: change_defs)

text \<open>The change of a key between two maps.\<close>

definition change_of :: "(string \<Rightarrow> string option) \<Rightarrow> (string \<Rightarrow> string option) \<Rightarrow> string \<Rightarrow> BucketChange option" where
  "change_of a s k = (case (a k, s k) of
     (None, None) \<Rightarrow> None
   | (None, Some w) \<Rightarrow> Some (added_of k w)
   | (Some v, None) \<Rightarrow> Some (deleted_of k v)
   | (Some v, Some w) \<Rightarrow> if v = w then None else Some (modified_of k v w))"

definition deleted_list :: "bucket \<Rightarrow> bucket \<Rightarrow> BucketChange list" where
  "deleted_list a s = List.map (\<lambda>(k, v). deleted_of k v) (filter (\<lambda>(k, v). map_of s k = None) a)"

definition modified_list :: "bucket \<Rightarrow> bucket \<Rightarrow> BucketChange list" where
  "modified_list a s = List.map (\<lambda>(k, v). modified_of k v (the (map_of s k)))
     (filter (\<lambda>(k, v). map_of s k \<noteq> None \<and> map_of s k \<noteq> Some v) a)"

definition added_list :: "bucket \<Rightarrow> bucket \<Rightarrow> BucketChange list" where
  "added_list a s = List.map (\<lambda>(k, w). added_of k w) (filter (\<lambda>(k, w). map_of a k = None) s)"

lemma pass_ancestor:
  "fold (diff_ancestor_key s) a d =
     d\<lparr>bd_Deleted := bd_Deleted d @ deleted_list a s, bd_Modified := bd_Modified d @ modified_list a s,
       bd_Unchanged := bd_Unchanged d + length (filter (\<lambda>(k, v). map_of s k = Some v) a)\<rparr>"
  by (induction a arbitrary: d)
    (auto simp: diff_ancestor_key_def deleted_list_def modified_list_def change_defs Let_def split: option.splits prod.splits)

lemma pass_side: "fold (diff_side_key a) s d = d\<lparr>bd_Added := bd_Added d @ added_list a s\<rparr>"
  by (induction s arbitrary: d) (auto simp: diff_side_key_def added_list_def change_defs Let_def split: prod.splits)

lemma diff_fields:
  "DiffBuckets a s = \<lparr>bd_Added = added_list a s, bd_Modified = modified_list a s, bd_Deleted = deleted_list a s,
     bd_Unchanged = length (filter (\<lambda>(k, v). map_of s k = Some v) a)\<rparr>"
  by (simp add: DiffBuckets_def pass_ancestor pass_side)

lemma find_keyed:
  assumes "distinct (List.map fst xs)" "\<And>k v. bc_Key (g (k, v)) = k"
  shows "List.find (\<lambda>c. bc_Key c = k) (List.map g (filter (\<lambda>(k, v). P k v) xs)) =
    (case map_of xs k of None \<Rightarrow> None | Some v \<Rightarrow> if P k v then Some (g (k, v)) else None)"
  using assms(1)
proof (induction xs)
  case Nil
  then show ?case by simp
next
  case (Cons x xs)
  obtain k' v' where x: "x = (k', v')" by fastforce
  show ?case
  proof (cases "k' = k")
    case True
    then have "map_of xs k = None" using Cons.prems x by (simp add: map_of_eq_None_iff)
    then show ?thesis using Cons x True assms(2) by simp
  next
    case False
    then show ?thesis using Cons x assms(2) by simp
  qed
qed

lemma distinct_keyed:
  assumes "distinct (List.map fst xs)" "\<And>x. bc_Key (g x) = fst x"
  shows "distinct (List.map bc_Key (List.map g (filter P xs)))"
  using assms distinct_map_filter [of fst xs P] by (simp add: comp_def)

lemma index_diff:
  assumes "distinct (List.map fst a)" "distinct (List.map fst s)"
  shows "map_of (indexChanges (DiffBuckets a s)) k = change_of (map_of a) (map_of s) k"
    and "distinct (List.map fst (indexChanges (DiffBuckets a s)))"
proof -
  have d: "distinct (List.map bc_Key (deleted_list a s))" "distinct (List.map bc_Key (modified_list a s))"
    "distinct (List.map bc_Key (added_list a s))"
    unfolding deleted_list_def modified_list_def added_list_def
    by (rule distinct_keyed; use assms in \<open>auto simp: change_defs\<close>)+
  have f: "List.find (\<lambda>c. bc_Key c = k) (deleted_list a s) =
      (case map_of a k of None \<Rightarrow> None | Some v \<Rightarrow> if map_of s k = None then Some (deleted_of k v) else None)"
    "List.find (\<lambda>c. bc_Key c = k) (modified_list a s) =
      (case map_of a k of None \<Rightarrow> None | Some v \<Rightarrow> if map_of s k \<noteq> None \<and> map_of s k \<noteq> Some v
        then Some (modified_of k v (the (map_of s k))) else None)"
    "List.find (\<lambda>c. bc_Key c = k) (added_list a s) =
      (case map_of s k of None \<Rightarrow> None | Some w \<Rightarrow> if map_of a k = None then Some (added_of k w) else None)"
    using find_keyed [OF assms(1), of "\<lambda>(k, v). deleted_of k v" k "\<lambda>k v. map_of s k = None"]
      find_keyed [OF assms(1), of "\<lambda>(k, v). modified_of k v (the (map_of s k))" k
        "\<lambda>k v. map_of s k \<noteq> None \<and> map_of s k \<noteq> Some v"]
      find_keyed [OF assms(2), of "\<lambda>(k, w). added_of k w" k "\<lambda>k w. map_of a k = None"]
    by (simp_all only: deleted_list_def modified_list_def added_list_def change_key prod.case)
  show "map_of (indexChanges (DiffBuckets a s)) k = change_of (map_of a) (map_of s) k"
    unfolding index_put_all diff_fields BucketDiff.simps
      put_all_of [OF d(1)] put_all_of [OF d(2)] put_all_of [OF d(3)] f
    by (auto simp: change_of_def split: option.splits)
  show "distinct (List.map fst (indexChanges (DiffBuckets a s)))"
    unfolding index_put_all by (intro put_all_distinct) simp
qed

section \<open>Conflicts\<close>

definition opt_val :: "string option \<Rightarrow> string" where
  "opt_val x = (case x of None \<Rightarrow> '''' | Some v \<Rightarrow> v)"

lemma change_simps [simp]:
  "bc_Kind (added_of k w) = ChangeAdded" "bc_Kind (deleted_of k v) = ChangeDeleted" "bc_Kind (modified_of k v w) = ChangeModified"
  "bc_SideValue (added_of k w) = w" "bc_SideValue (deleted_of k v) = ''''" "bc_SideValue (modified_of k v w) = w"
  "bc_AncestorValue (deleted_of k v) = v" "bc_AncestorValue (modified_of k v w) = v"
  by (simp_all add: change_defs)

lemma change_of_Some:
  "change_of a s k = Some c \<longleftrightarrow>
     (\<exists>w. a k = None \<and> s k = Some w \<and> c = added_of k w) \<or>
     (\<exists>v. a k = Some v \<and> s k = None \<and> c = deleted_of k v) \<or>
     (\<exists>v w. a k = Some v \<and> s k = Some w \<and> v \<noteq> w \<and> c = modified_of k v w)"
  by (cases "a k"; cases "s k") (auto simp: change_of_def)

text \<open>For well-formed diffs a pair of changes is a conflict exactly when the outcomes differ.\<close>

lemma classify_changes:
  assumes "change_of b l k = Some lc" "change_of b r k = Some rc"
  shows "case classifyPair bucket k lc rc of
      None \<Rightarrow> l k = r k
    | Some c \<Rightarrow> l k \<noteq> r k \<and> cf_Bucket c = bucket \<and> cf_Key c = k \<and> cf_AncestorValue c = opt_val (b k) \<and>
        cf_LocalValue c = opt_val (l k) \<and> cf_RemoteValue c = opt_val (r k)"
  using assms unfolding change_of_Some
  by (elim disjE exE conjE; simp add: classifyPair_def opt_val_def)

lemma set_map_filter: "set (List.map_filter f xs) = {y. \<exists>x\<in>set xs. f x = Some y}"
  by (induction xs) (auto split: option.splits)

lemma detect_mem:
  assumes "distinct (List.map fst b)" "distinct (List.map fst l)" "distinct (List.map fst r)"
  shows "c \<in> set (DetectConflicts bucket (DiffBuckets b l) (DiffBuckets b r)) \<longleftrightarrow>
    (\<exists>k lc rc. change_of (map_of b) (map_of l) k = Some lc \<and> change_of (map_of b) (map_of r) k = Some rc \<and>
      classifyPair bucket k lc rc = Some c)"
proof -
  have m: "(k, lc) \<in> set (indexChanges (DiffBuckets b l)) \<longleftrightarrow> change_of (map_of b) (map_of l) k = Some lc" for k lc
    using map_of_eq_Some_iff [OF index_diff(2) [OF assms(1,2)], of k lc] index_diff(1) [OF assms(1,2), of k] by simp
  have "c \<in> set (DetectConflicts bucket (DiffBuckets b l) (DiffBuckets b r)) \<longleftrightarrow>
      (\<exists>x \<in> set (indexChanges (DiffBuckets b l)).
        (case change_of (map_of b) (map_of r) (fst x) of None \<Rightarrow> None | Some rc \<Rightarrow> classifyPair bucket (fst x) (snd x) rc) = Some c)"
    unfolding DetectConflicts_def Let_def set_map_filter index_diff(1) [OF assms(1,3)] by (auto simp: case_prod_beta)
  also have "\<dots> \<longleftrightarrow> (\<exists>k lc. (k, lc) \<in> set (indexChanges (DiffBuckets b l)) \<and>
        (case change_of (map_of b) (map_of r) k of None \<Rightarrow> None | Some rc \<Rightarrow> classifyPair bucket k lc rc) = Some c)"
    by (simp only: Bex_def split_paired_Ex fst_conv snd_conv)
  finally show ?thesis unfolding m by (auto split: option.splits)
qed

lemma detect_distinct:
  assumes "distinct (List.map fst b)" "distinct (List.map fst l)" "distinct (List.map fst r)"
  shows "distinct (List.map cf_Key (DetectConflicts bucket (DiffBuckets b l) (DiffBuckets b r)))"
proof -
  let ?xs = "indexChanges (DiffBuckets b l)"
  let ?f = "\<lambda>(key, lc). case map_of (indexChanges (DiffBuckets b r)) key of None \<Rightarrow> None | Some rc \<Rightarrow> classifyPair bucket key lc rc"
  have key: "cf_Key c = fst x" if "?f x = Some c" for x c
    using that by (auto simp: classifyPair_def split: option.splits prod.splits if_splits)
  have "distinct (List.map cf_Key (List.map_filter ?f xs)) \<and> cf_Key ` set (List.map_filter ?f xs) \<subseteq> fst ` set xs"
    if "distinct (List.map fst xs)" for xs
    using that
  proof (induction xs)
    case (Cons x xs)
    then show ?case using key [of x] by (cases "?f x") (auto simp: map_filter_simps)
  qed (simp add: map_filter_simps)
  from this [OF index_diff(2) [OF assms(1,2)]] show ?thesis by (simp add: DetectConflicts_def Let_def)
qed

section \<open>Parsing a counter back\<close>

lemma parse_dec_int:
  assumes "n \<in> {- (2 ^ 63) ..< 2 ^ 63}"
  shows "parseInt (dec_int n) = Some n"
proof (cases "n < 0")
  case True
  then show ?thesis using assms dec_digits [of "nat (- n)"]
    by (simp add: parseInt_def parse_int64_def dec_int_def Let_def)
next
  case False
  obtain c s where c: "dec (nat n) = c # s" by (meson dec_ne list.exhaust)
  have "c \<noteq> CHR ''-''" "c \<noteq> CHR ''+''"
    using dec_digits [of "nat n"] c is_digit_sign by auto
  moreover have "list_all is_digit (c # s)" "digits_val (c # s) = nat n"
    using dec_digits [of "nat n"] digits_val_dec [of "nat n"] c by simp_all
  ultimately show ?thesis using False assms
    by (simp add: parseInt_def parse_int64_def dec_int_def Let_def c)
qed

lemma parse_range: "parseInt s = Some n \<Longrightarrow> n \<in> {- (2 ^ 63) ..< 2 ^ 63}"
  by (auto simp: parseInt_def parse_int64_def Let_def split: if_splits)

section \<open>Strategies\<close>

lemma batch_split:
  "AutoResolveBatch cs kind =
     (List.map_filter (\<lambda>c. AutoResolve c kind) cs, filter (\<lambda>c. AutoResolve c kind = None) cs)"
proof -
  have "fold (\<lambda>c (resolved, remaining). case AutoResolve c kind of
          Some r \<Rightarrow> (resolved @ [r], remaining) | None \<Rightarrow> (resolved, remaining @ [c])) cs (a, b) =
      (a @ List.map_filter (\<lambda>c. AutoResolve c kind) cs, b @ filter (\<lambda>c. AutoResolve c kind = None) cs)" for a b
    by (induction cs arbitrary: a b) (auto simp: map_filter_simps split: option.splits)
  then show ?thesis by (simp add: AutoResolveBatch_def)
qed

lemma auto_conflict: "AutoResolve c kind = Some r \<Longrightarrow> ar_Conflict r = c"
  by (auto simp: AutoResolve_def split: BucketKind.splits option.splits if_splits)

lemma auto_keys:
  "List.map (\<lambda>r. cf_Key (ar_Conflict r)) (List.map_filter (\<lambda>c. AutoResolve c kind) cs) =
   List.map cf_Key (filter (\<lambda>c. AutoResolve c kind \<noteq> None) cs)"
  by (induction cs) (auto simp: map_filter_simps auto_conflict split: option.splits)

lemma force_fold:
  "fold (force_step pick) cs out =
     out\<lparr>or_Merged := or_Merged out @ List.map (\<lambda>c. mk c (pick c)) cs,
         or_Stats := (or_Stats out)\<lparr>ms_StrategyForced := ms_StrategyForced (or_Stats out) + int (length cs)\<rparr>\<rparr>"
  by (induction cs arbitrary: out) (auto simp: force_step_def)

lemma ask_ok:
  "ask_loop rs cs out = (out', None) \<Longrightarrow>
   or_Merged out' = or_Merged out @ List.map (\<lambda>c. mk c (projr (rs c))) cs \<and>
   or_Stats out' = (or_Stats out)\<lparr>ms_InteractivePicked := ms_InteractivePicked (or_Stats out) + int (length cs)\<rparr> \<and>
   or_Aborted out' = or_Aborted out"
  by (induction cs arbitrary: out) (auto split: sum.splits)

lemma mk_key [simp]: "mk_Key (mk c v) = cf_Key c"
  by (simp add: mk_def)

section \<open>Properties\<close>

text \<open>Applying a diff to the ancestor, key by key.\<close>

definition patch :: "(string \<Rightarrow> string option) \<Rightarrow> BucketDiff \<Rightarrow> string \<Rightarrow> string option" where
  "patch a d k = (case map_of (indexChanges d) k of
     None \<Rightarrow> a k
   | Some c \<Rightarrow> if bc_Kind c = ChangeDeleted then None else Some (bc_SideValue c))"

lemma diff_patch:
  assumes "distinct (List.map fst a)" "distinct (List.map fst s)"
  shows "patch (map_of a) (DiffBuckets a s) k = map_of s k"
  by (cases "map_of a k"; cases "map_of s k") (simp_all add: patch_def index_diff(1) [OF assms] change_of_def)

lemma diff_empty:
  assumes "distinct (List.map fst a)" "distinct (List.map fst s)"
  shows "BucketDiff_IsEmpty (DiffBuckets a s) = (map_of a = map_of s)"
proof
  assume "BucketDiff_IsEmpty (DiffBuckets a s)"
  then have "indexChanges (DiffBuckets a s) = []" by (simp add: BucketDiff_IsEmpty_def indexChanges_def)
  then show "map_of a = map_of s" using diff_patch [OF assms] by (auto simp: patch_def fun_eq_iff)
next
  assume eq: "map_of a = map_of s"
  have "map_of s k = Some v" if "(k, v) \<in> set a" for k v
    using map_of_is_SomeI [OF assms(1) that] eq by simp
  moreover have "map_of a k = Some v" if "(k, v) \<in> set s" for k v
    using map_of_is_SomeI [OF assms(2) that] eq by simp
  ultimately have "deleted_list a s = []" "modified_list a s = []" "added_list a s = []"
    by (force simp: deleted_list_def modified_list_def added_list_def filter_empty_conv)+
  then show "BucketDiff_IsEmpty (DiffBuckets a s)" by (simp add: BucketDiff_IsEmpty_def diff_fields)
qed

lemma card_keys_alist: "distinct (List.map fst xs) \<Longrightarrow> card (dom (map_of xs)) = length xs"
  using distinct_card [of "List.map fst xs"] by (simp add: dom_map_of_conv_image_fst)

lemma three_way_length:
  "length (filter (\<lambda>(k, v). f k = None) xs) + length (filter (\<lambda>(k, v). f k \<noteq> None \<and> f k \<noteq> Some v) xs) +
   length (filter (\<lambda>(k, v). f k = Some v) xs) = length xs"
  by (induction xs) auto

lemma diff_total:
  assumes "distinct (List.map fst a)" "distinct (List.map fst s)"
  shows "BucketDiff_Total (DiffBuckets a s) + bd_Unchanged (DiffBuckets a s) = card (dom (map_of a) \<union> dom (map_of s))"
proof -
  let ?new = "filter (\<lambda>(k, w). map_of a k = None) s"
  have "distinct (List.map fst ?new)" by (rule distinct_map_filter [OF assms(2)])
  then have "length ?new = card (fst ` set ?new)" using distinct_card [of "List.map fst ?new"] by simp
  also have "fst ` set ?new = dom (map_of s) - dom (map_of a)"
    by (force simp: dom_map_of_conv_image_fst map_of_eq_None_iff)
  finally have new: "length ?new = card (dom (map_of s) - dom (map_of a))" .
  have "card (dom (map_of a) \<union> (dom (map_of s) - dom (map_of a))) =
      card (dom (map_of a)) + card (dom (map_of s) - dom (map_of a))"
    by (rule card_Un_disjoint) (auto simp: finite_dom_map_of)
  then show ?thesis
    using three_way_length [of "map_of s" a] new card_keys_alist [OF assms(1)]
    by (simp add: BucketDiff_Total_def diff_fields deleted_list_def modified_list_def added_list_def)
qed

text \<open>
  C18: a bucket diff is exact: applied to the ancestor it gives the side, it is empty exactly
  when the two buckets hold the same, and the keys it lists together with the unchanged ones
  are those of both buckets, each counted once.
\<close>

theorem bucket_diff_exact:
  assumes "distinct (List.map fst a)" "distinct (List.map fst s)"
  shows "patch (map_of a) (DiffBuckets a s) = map_of s \<and>
    BucketDiff_IsEmpty (DiffBuckets a s) = (map_of a = map_of s) \<and>
    BucketDiff_Total (DiffBuckets a s) + bd_Unchanged (DiffBuckets a s) = card (dom (map_of a) \<union> dom (map_of s))"
  using diff_patch [OF assms] diff_empty [OF assms] diff_total [OF assms] by blast

theorem bucket_diff_exact_witness:
  "patch (map_of [(''a'', ''1''), (''b'', ''2'')]) (DiffBuckets [(''a'', ''1''), (''b'', ''2'')] [(''b'', ''3'')]) =
   map_of [(''b'', ''3'')]"
  using bucket_diff_exact [of "[(''a'', ''1''), (''b'', ''2'')]" "[(''b'', ''3'')]"] by simp

text \<open>
  C19: three-way merging asks about exactly the right keys: the conflicts of two diffs against a
  common ancestor are, once each, the keys that both sides changed to different outcomes (a
  deletion is an outcome), and carry the values of the ancestor and of both sides.
\<close>

theorem conflicts_exact:
  assumes "distinct (List.map fst b)" "distinct (List.map fst l)" "distinct (List.map fst r)"
  shows "(let cs = DetectConflicts bucket (DiffBuckets b l) (DiffBuckets b r)
    in distinct (List.map cf_Key cs) \<and>
       cf_Key ` set cs = {k. map_of l k \<noteq> map_of b k \<and> map_of r k \<noteq> map_of b k \<and> map_of l k \<noteq> map_of r k} \<and>
       list_all (\<lambda>c. cf_AncestorValue c = opt_val (map_of b (cf_Key c)) \<and> cf_LocalValue c = opt_val (map_of l (cf_Key c)) \<and>
         cf_RemoteValue c = opt_val (map_of r (cf_Key c))) cs)"
proof -
  let ?cs = "DetectConflicts bucket (DiffBuckets b l) (DiffBuckets b r)"
  note mem = detect_mem [OF assms, of _ bucket]
  have some: "(\<exists>c. change_of x y k = Some c) \<longleftrightarrow> x k \<noteq> y k" for x y k
    by (cases "x k"; cases "y k") (auto simp: change_of_def)
  have c: "map_of l (cf_Key c) \<noteq> map_of b (cf_Key c) \<and> map_of r (cf_Key c) \<noteq> map_of b (cf_Key c) \<and>
      map_of l (cf_Key c) \<noteq> map_of r (cf_Key c) \<and>
      cf_AncestorValue c = opt_val (map_of b (cf_Key c)) \<and> cf_LocalValue c = opt_val (map_of l (cf_Key c)) \<and>
      cf_RemoteValue c = opt_val (map_of r (cf_Key c))" if "c \<in> set ?cs" for c
  proof -
    note in_cs = iffD1 [OF mem that]
    then obtain k lc rc where k: "change_of (map_of b) (map_of l) k = Some lc" "change_of (map_of b) (map_of r) k = Some rc"
      "classifyPair bucket k lc rc = Some c" by blast
    from classify_changes [OF k(1,2), of bucket] k(3) some [of "map_of b" "map_of l" k] some [of "map_of b" "map_of r" k] k(1,2)
    show ?thesis by auto
  qed
  have conv: "k \<in> cf_Key ` set ?cs"
    if diff: "map_of l k \<noteq> map_of b k" "map_of r k \<noteq> map_of b k" "map_of l k \<noteq> map_of r k" for k
  proof -
    obtain lc rc where k: "change_of (map_of b) (map_of l) k = Some lc" "change_of (map_of b) (map_of r) k = Some rc"
      using some diff by metis
    from classify_changes [OF k, of bucket] diff(3) obtain c where "classifyPair bucket k lc rc = Some c" "cf_Key c = k"
      by (auto split: option.splits)
    then show ?thesis using mem k by (metis image_eqI)
  qed
  show ?thesis using detect_distinct [OF assms, of bucket] c conv by (auto simp: Let_def list_all_iff)
qed

theorem conflicts_exact_witness:
  "cf_Key ` set (DetectConflicts ''q'' (DiffBuckets [(''a'', ''1''), (''b'', ''2'')] [(''a'', ''9'')])
      (DiffBuckets [(''a'', ''1''), (''b'', ''2'')] [(''a'', ''8''), (''b'', ''2'')])) =
   {k. map_of [(''a'', ''9'')] k \<noteq> map_of [(''a'', ''1''), (''b'', ''2'')] k \<and>
       map_of [(''a'', ''8''), (''b'', ''2'')] k \<noteq> map_of [(''a'', ''1''), (''b'', ''2'')] k \<and>
       map_of [(''a'', ''9'')] k \<noteq> map_of [(''a'', ''8''), (''b'', ''2'')] k}"
  using conflicts_exact [of "[(''a'', ''1''), (''b'', ''2'')]" "[(''a'', ''9'')]" "[(''a'', ''8''), (''b'', ''2'')]" "''q''"]
  by (simp add: Let_def)

text \<open>The same conflict seen from the other machine.\<close>

definition swap_sides :: "Conflict \<Rightarrow> Conflict" where
  "swap_sides c = c\<lparr>cf_LocalValue := cf_RemoteValue c, cf_RemoteValue := cf_LocalValue c\<rparr>"

text \<open>
  C5: automatic resolution converges: two machines that resolve the same conflict, each seeing
  itself as the local side, resolve it or not alike and to the same bytes; a counter resolves
  to the decimal of the larger value, which parses back to it.
\<close>

theorem auto_resolve_converges:
  "map_option ar_ResolvedValue (AutoResolve c kind) = map_option ar_ResolvedValue (AutoResolve (swap_sides c) kind) \<and>
   map_option (\<lambda>r. parseInt (ar_ResolvedValue r)) (AutoResolve c BucketMonotonicCounter) =
     (case (parseInt (cf_LocalValue c), parseInt (cf_RemoteValue c)) of
        (Some l, Some r) \<Rightarrow> Some (Some (max l r)) | _ \<Rightarrow> None)"
proof -
  have "parseInt (dec_int (max l r)) = Some (max l r)"
    if "parseInt (cf_LocalValue c) = Some l" "parseInt (cf_RemoteValue c) = Some r" for l r
    using parse_range [OF that(1)] parse_range [OF that(2)] by (intro parse_dec_int) (simp add: max_def)
  then have "map_option (\<lambda>r. parseInt (ar_ResolvedValue r)) (AutoResolve c BucketMonotonicCounter) =
     (case (parseInt (cf_LocalValue c), parseInt (cf_RemoteValue c)) of
        (Some l, Some r) \<Rightarrow> Some (Some (max l r)) | _ \<Rightarrow> None)"
    by (auto simp: AutoResolve_def split: option.splits)
  moreover have "map_option ar_ResolvedValue (AutoResolve c kind) = map_option ar_ResolvedValue (AutoResolve (swap_sides c) kind)"
    by (cases kind) (auto simp: AutoResolve_def swap_sides_def max.commute split: option.splits)
  ultimately show ?thesis by blast
qed

lemma mset_split:
  "mset (List.map f xs) = mset (List.map f (filter P xs)) + mset (List.map f (filter (\<lambda>x. \<not> P x) xs))"
  by (induction xs) auto

text \<open>
  A merge that reports no error has decided every conflict exactly once: the merged keys
  are the keys of the conflicts, the counts of the report add up to their number, and the
  merge is not aborted.
\<close>

theorem orchestrate_decides_all:
  assumes "Orchestrate input strategy resolver = (out, None)"
  shows "mset (List.map mk_Key (or_Merged out)) = mset (List.map cf_Key (oi_Conflicts input)) \<and>
    ms_AutoResolved (or_Stats out) + ms_InteractivePicked (or_Stats out) + ms_StrategyForced (or_Stats out) =
      int (length (oi_Conflicts input)) \<and>
    ms_Aborted (or_Stats out) = 0 \<and> \<not> or_Aborted out"
proof -
  let ?cs = "oi_Conflicts input"
  let ?auto = "List.map_filter (\<lambda>c. AutoResolve c (oi_Kind input)) ?cs"
  let ?rest = "filter (\<lambda>c. AutoResolve c (oi_Kind input) = None) ?cs"
  let ?m0 = "List.map (\<lambda>ar. \<lparr>mk_Bucket = oi_Bucket input, mk_Key = cf_Key (ar_Conflict ar), mk_Value = ar_ResolvedValue ar\<rparr>) ?auto"
  have k0: "List.map mk_Key ?m0 = List.map cf_Key (filter (\<lambda>c. AutoResolve c (oi_Kind input) \<noteq> None) ?cs)"
    using auto_keys [of "oi_Kind input" ?cs] by (simp add: comp_def)
  have "length ?auto = length (filter (\<lambda>c. AutoResolve c (oi_Kind input) \<noteq> None) ?cs)"
    using arg_cong [OF auto_keys [of "oi_Kind input" ?cs], of length] by simp
  moreover have "length (filter (\<lambda>c. AutoResolve c (oi_Kind input) \<noteq> None) ?cs) + length ?rest = length ?cs"
    using sum_length_filter_compl [of "\<lambda>c. AutoResolve c (oi_Kind input) \<noteq> None" ?cs] by simp
  ultimately have len: "int (length ?auto) + int (length ?rest) = int (length ?cs)" by simp
  have split: "mset (List.map cf_Key ?cs) =
      mset (List.map cf_Key (filter (\<lambda>c. AutoResolve c (oi_Kind input) \<noteq> None) ?cs)) + mset (List.map cf_Key ?rest)"
    using mset_split [of cf_Key ?cs "\<lambda>c. AutoResolve c (oi_Kind input) \<noteq> None"] by simp
  have out: "\<exists>vals. or_Merged out = ?m0 @ List.map (\<lambda>c. mk c (vals c)) ?rest \<and>
    ms_AutoResolved (or_Stats out) = int (length ?auto) \<and>
    ms_InteractivePicked (or_Stats out) + ms_StrategyForced (or_Stats out) = int (length ?rest) \<and>
    ms_Aborted (or_Stats out) = 0 \<and> \<not> or_Aborted out"
  proof (cases "?rest = []")
    case True
    then show ?thesis using assms by (auto simp: Orchestrate_def batch_split Let_def)
  next
    case False
    then show ?thesis using assms
      by (auto simp: Orchestrate_def batch_split Let_def force_fold split: Strategy.splits option.splits dest!: ask_ok)
  qed
  then obtain vals where m: "or_Merged out = ?m0 @ List.map (\<lambda>c. mk c (vals c)) ?rest" by blast
  have "List.map mk_Key (or_Merged out) =
      List.map cf_Key (filter (\<lambda>c. AutoResolve c (oi_Kind input) \<noteq> None) ?cs) @ List.map cf_Key ?rest"
    unfolding m map_append k0 by (simp add: comp_def)
  then have "mset (List.map mk_Key (or_Merged out)) = mset (List.map cf_Key ?cs)"
    using split by (simp only: mset_append)
  then show ?thesis using out len by auto
qed

theorem orchestrate_decides_all_witness:
  "mset (List.map mk_Key (or_Merged (fst (Orchestrate
      \<lparr>oi_Bucket = ''b'', oi_Kind = BucketMonotonicCounter,
       oi_Conflicts = [\<lparr>cf_Bucket = ''b'', cf_Key = ''n'', cf_AncestorValue = ''1'', cf_LocalValue = ''3'', cf_RemoteValue = ''7'', cf_Reason = ''r''\<rparr>,
         \<lparr>cf_Bucket = ''b'', cf_Key = ''m'', cf_AncestorValue = ''1'', cf_LocalValue = ''x'', cf_RemoteValue = ''7'', cf_Reason = ''r''\<rparr>],
       oi_LocalHLC = \<lparr>h_WallMS = 1, h_LogicalCounter = 0\<rparr>, oi_RemoteHLC = \<lparr>h_WallMS = 2, h_LogicalCounter = 0\<rparr>\<rparr>
      StrategyTakeRemote None)))) = {#''n'', ''m''#}"
proof -
  let ?in = "\<lparr>oi_Bucket = ''b'', oi_Kind = BucketMonotonicCounter,
       oi_Conflicts = [\<lparr>cf_Bucket = ''b'', cf_Key = ''n'', cf_AncestorValue = ''1'', cf_LocalValue = ''3'', cf_RemoteValue = ''7'', cf_Reason = ''r''\<rparr>,
         \<lparr>cf_Bucket = ''b'', cf_Key = ''m'', cf_AncestorValue = ''1'', cf_LocalValue = ''x'', cf_RemoteValue = ''7'', cf_Reason = ''r''\<rparr>],
       oi_LocalHLC = \<lparr>h_WallMS = 1, h_LogicalCounter = 0\<rparr>, oi_RemoteHLC = \<lparr>h_WallMS = 2, h_LogicalCounter = 0\<rparr>\<rparr>"
  have "snd (Orchestrate ?in StrategyTakeRemote None) = None"
    by (simp add: Orchestrate_def batch_split Let_def)
  then have "Orchestrate ?in StrategyTakeRemote None = (fst (Orchestrate ?in StrategyTakeRemote None), None)"
    by (metis prod.collapse)
  from orchestrate_decides_all [OF this] show ?thesis by simp
qed

text \<open>
  A deletion chosen by a strategy is committed as an empty value: the merged key carries no
  other trace of it, and the commit stores whatever value it is given.
\<close>

lemma deletion_commits_empty:
  assumes "AutoResolve c kind = None" "cf_LocalValue c = ''''"
    "Orchestrate \<lparr>oi_Bucket = b, oi_Kind = kind, oi_Conflicts = [c], oi_LocalHLC = h, oi_RemoteHLC = h'\<rparr> StrategyTakeLocal rs = (out, None)"
  shows "CommitMerge [out] (\<lambda>bk k v m. (None, m((bk, k) \<mapsto> v))) m = (None, m((cf_Bucket c, cf_Key c) \<mapsto> ''''))"
  using assms by (auto simp: Orchestrate_def batch_split Let_def force_step_def mk_def)

end
