(* ===== verification/Auth_Audit.thy ===== *)
theory Auth_Audit
  imports Neo_Prelude
begin

text \<open>
  The hash-chained audit log of \<^verbatim>\<open>pkg/auth/audit.go\<close>. A line of the file, JSON and SHA-256 are
  arguments, collected in a codec: how an entry is written (or why it cannot be), what a line
  parses to, which lines are empty or longer than the scanner's buffer, and the hash of an entry
  whose hash field is cleared. The state of the log includes its file; each write takes the outcome of its system
  calls.
\<close>

section \<open>Entries and codec\<close>

record 'd Event =
  ev_Kind :: string
  ev_Actor :: string
  ev_Provider :: string
  ev_Tool :: string
  ev_TenantID :: string
  ev_Details :: 'd

record 'd AuditEntry =
  ae_Seq :: u64
  ae_TS :: string
  ae_Actor :: string
  ae_Kind :: string
  ae_Provider :: string
  ae_Tool :: string
  ae_TenantID :: string
  ae_Details :: 'd
  ae_PrevHash :: string
  ae_Hash :: string

record ('d, 'l) codec =
  cd_marshal :: "'d AuditEntry \<Rightarrow> string + 'l"
  cd_unmarshal :: "'l \<Rightarrow> 'd AuditEntry option"
  cd_empty :: "'l \<Rightarrow> bool"
  cd_long :: "'l \<Rightarrow> bool"
  cd_hash :: "'d AuditEntry \<Rightarrow> string"

definition genesisPrevHash :: string where
  "genesisPrevHash = ''GENESIS''"

definition computeAuditHash :: "('d, 'l) codec \<Rightarrow> 'd AuditEntry \<Rightarrow> string" where
  "computeAuditHash C e = cd_hash C (e\<lparr>ae_Hash := ''''\<rparr>)"

section \<open>The log\<close>

record 'l AuditLog =
  al_file :: "'l list"
  al_open :: bool
  al_lastHash :: string
  al_lastSeq :: u64

text \<open>The scan of \<^verbatim>\<open>loadHead\<close>: an error, or the head of the chain.\<close>

fun head_loop :: "('d, 'l) codec \<Rightarrow> 'l list \<Rightarrow> u64 \<times> string \<Rightarrow> string + u64 \<times> string" where
  "head_loop C [] hd0 = Inr hd0"
| "head_loop C (l # ls) (lastSeq, lastHash) =
     (if cd_long C l then Inl ''token too long''
      else if cd_empty C l then head_loop C ls (lastSeq, lastHash)
      else case cd_unmarshal C l of
        None \<Rightarrow> Inl (''parse entry near seq='' @ dec (unat lastSeq))
      | Some e \<Rightarrow> head_loop C ls (ae_Seq e, ae_Hash e))"

text \<open>Opening over the lines already in the file; directory and file errors come first.\<close>

definition OpenAuditLog :: "('d, 'l) codec \<Rightarrow> string option \<Rightarrow> 'l list \<Rightarrow> string + 'l AuditLog" where
  "OpenAuditLog C io_err lines =
     (case io_err of
        Some e \<Rightarrow> Inl e
      | None \<Rightarrow>
          (case head_loop C lines (0, genesisPrevHash) of
             Inl e \<Rightarrow> Inl (''load head: '' @ e)
           | Inr (lastSeq, lastHash) \<Rightarrow>
               Inr \<lparr>al_file = lines, al_open = True, al_lastHash = lastHash, al_lastSeq = lastSeq\<rparr>))"

text \<open>The outcomes of the calls of one append: the write fails, or only the sync after it.\<close>

datatype io_outcome = IoOk | WriteFails string | SyncFails string

definition new_entry :: "('d, 'l) codec \<Rightarrow> string \<Rightarrow> 'd Event \<Rightarrow> 'l AuditLog \<Rightarrow> 'd AuditEntry" where
  "new_entry C now ev a =
     (let entry = \<lparr>ae_Seq = al_lastSeq a + 1, ae_TS = now, ae_Actor = ev_Actor ev, ae_Kind = ev_Kind ev,
            ae_Provider = ev_Provider ev, ae_Tool = ev_Tool ev, ae_TenantID = ev_TenantID ev,
            ae_Details = ev_Details ev, ae_PrevHash = al_lastHash a, ae_Hash = ''''\<rparr>
      in entry\<lparr>ae_Hash := computeAuditHash C entry\<rparr>)"

definition Append ::
    "('d, 'l) codec \<Rightarrow> string \<Rightarrow> io_outcome \<Rightarrow> 'd Event \<Rightarrow> 'l AuditLog \<Rightarrow> (string + 'd AuditEntry) \<times> 'l AuditLog" where
  "Append C now io ev a =
     (if \<not> al_open a then (Inl ''audit log closed'', a)
      else (let entry = new_entry C now ev a
            in case cd_marshal C entry of
                 Inl e \<Rightarrow> (Inl (''marshal entry: '' @ e), a)
               | Inr raw \<Rightarrow>
                   (let written = a\<lparr>al_file := al_file a @ [raw]\<rparr>
                    in case io of
                         WriteFails e \<Rightarrow> (Inl (''write entry: '' @ e), a)
                       | SyncFails e \<Rightarrow> (Inl (''fsync: '' @ e), written)
                       | IoOk \<Rightarrow> (Inr entry, written\<lparr>al_lastSeq := ae_Seq entry, al_lastHash := ae_Hash entry\<rparr>))))"

fun verify_loop :: "('d, 'l) codec \<Rightarrow> 'l list \<Rightarrow> u64 \<Rightarrow> string \<Rightarrow> string option" where
  "verify_loop C [] expectedSeq expectedPrev = None"
| "verify_loop C (l # ls) expectedSeq expectedPrev =
     (if cd_long C l then Some ''scan: token too long''
      else if cd_empty C l then verify_loop C ls expectedSeq expectedPrev
      else case cd_unmarshal C l of
        None \<Rightarrow> Some (''parse seq='' @ dec (unat expectedSeq))
      | Some e \<Rightarrow>
          if ae_Seq e \<noteq> expectedSeq
          then Some (''sequence gap: expected '' @ dec (unat expectedSeq) @ '', got '' @ dec (unat (ae_Seq e)))
          else if ae_PrevHash e \<noteq> expectedPrev
          then Some (''prev_hash mismatch at seq='' @ dec (unat (ae_Seq e)) @ '': expected '' @ expectedPrev @
                 '', got '' @ ae_PrevHash e)
          else if computeAuditHash C e \<noteq> ae_Hash e then Some (''hash tampered at seq='' @ dec (unat (ae_Seq e)))
          else verify_loop C ls (expectedSeq + 1) (ae_Hash e))"

definition Verify :: "('d, 'l) codec \<Rightarrow> string option \<Rightarrow> 'l AuditLog \<Rightarrow> string option" where
  "Verify C open_err a =
     (case open_err of
        Some e \<Rightarrow> Some (''open for verify: '' @ e)
      | None \<Rightarrow> verify_loop C (al_file a) 1 genesisPrevHash)"

definition Close :: "string option \<Rightarrow> 'l AuditLog \<Rightarrow> string option \<times> 'l AuditLog" where
  "Close io_err a = (if \<not> al_open a then (None, a) else (io_err, a\<lparr>al_open := False\<rparr>))"

section \<open>Chains\<close>

text \<open>The entries of the lines a scan reads, and the chain of hashes \<^verbatim>\<open>Verify\<close> walks.\<close>

definition entries_of :: "('d, 'l) codec \<Rightarrow> 'l list \<Rightarrow> 'd AuditEntry list" where
  "entries_of C ls = List.map_filter (\<lambda>l. if cd_empty C l then None else cd_unmarshal C l) ls"

fun chain :: "('d, 'l) codec \<Rightarrow> u64 \<Rightarrow> string \<Rightarrow> 'd AuditEntry list \<Rightarrow> bool" where
  "chain C sq prev [] = True"
| "chain C sq prev (e # es) =
     (ae_Seq e = sq \<and> ae_PrevHash e = prev \<and> ae_Hash e = computeAuditHash C e \<and> chain C (sq + 1) (ae_Hash e) es)"

definition last_hash :: "'d AuditEntry list \<Rightarrow> string \<Rightarrow> string" where
  "last_hash es prev = (if es = [] then prev else ae_Hash (last es))"

definition readable :: "('d, 'l) codec \<Rightarrow> 'l list \<Rightarrow> bool" where
  "readable C ls = list_all (\<lambda>l. \<not> cd_long C l \<and> (cd_empty C l \<or> cd_unmarshal C l \<noteq> None)) ls"

lemma verify_chain:
  "verify_loop C ls sq prev = None \<longleftrightarrow> readable C ls \<and> chain C sq prev (entries_of C ls)"
  by (induction C ls sq prev rule: verify_loop.induct)
    (auto simp: readable_def entries_of_def map_filter_simps split: option.splits)

lemma head_of_chain:
  assumes "readable C ls"
  shows "head_loop C ls (n, h) = Inr (if entries_of C ls = [] then n else ae_Seq (last (entries_of C ls)), last_hash (entries_of C ls) h)"
  using assms
  by (induction C ls "(n, h)" arbitrary: n h rule: head_loop.induct)
    (auto simp: readable_def entries_of_def last_hash_def map_filter_simps split: option.splits)

lemma chain_snoc:
  "chain C sq prev (es @ [e]) \<longleftrightarrow> chain C sq prev es \<and> ae_Seq e = sq + of_nat (length es) \<and>
     ae_PrevHash e = last_hash es prev \<and> ae_Hash e = computeAuditHash C e"
  by (induction es arbitrary: sq prev) (auto simp: last_hash_def add.assoc)

lemma last_hash_Cons: "last_hash (e # es) prev = last_hash es (ae_Hash e)"
  by (simp add: last_hash_def)

text \<open>
  An entry the codec keeps: it can be written, its line fits the scanner's buffer, and reads
  back as it was (the details hold only what JSON keeps).
\<close>

definition keeps :: "('d, 'l) codec \<Rightarrow> 'd AuditEntry \<Rightarrow> bool" where
  "keeps C e =
     (case cd_marshal C e of
        Inl _ \<Rightarrow> False
      | Inr l \<Rightarrow> \<not> cd_long C l \<and> \<not> cd_empty C l \<and> (case cd_unmarshal C l of None \<Rightarrow> False | Some e' \<Rightarrow> e' = e))"

lemma keepsE:
  assumes "keeps C e"
  obtains l where "cd_marshal C e = Inr l" "\<not> cd_long C l" "\<not> cd_empty C l" "cd_unmarshal C l = Some e"
  using assms by (auto simp: keeps_def split: sum.splits option.splits)

text \<open>A log whose file verifies and whose head is that of the file.\<close>

definition log_ok :: "('d, 'l) codec \<Rightarrow> 'l AuditLog \<Rightarrow> bool" where
  "log_ok C a \<longleftrightarrow> al_open a \<and> verify_loop C (al_file a) 1 genesisPrevHash = None \<and>
     al_lastSeq a = of_nat (length (entries_of C (al_file a))) \<and>
     al_lastHash a = last_hash (entries_of C (al_file a)) genesisPrevHash"

lemma chain_last_seq: "chain C sq prev es \<Longrightarrow> es \<noteq> [] \<Longrightarrow> ae_Seq (last es) = sq + of_nat (length es) - 1"
proof (induction es arbitrary: sq prev)
  case (Cons e es)
  then show ?case using Cons.IH [of "sq + 1" "ae_Hash e"] by (cases "es = []") auto
qed simp

lemma open_log_ok:
  assumes "verify_loop C ls 1 genesisPrevHash = None"
  shows "\<exists>a. OpenAuditLog C None ls = Inr a \<and> al_file a = ls \<and> log_ok C a"
proof -
  have r: "readable C ls" "chain C 1 genesisPrevHash (entries_of C ls)" using assms by (simp_all add: verify_chain)
  have "(if entries_of C ls = [] then 0 else ae_Seq (last (entries_of C ls))) = of_nat (length (entries_of C ls))"
    using chain_last_seq [OF r(2)] by auto
  then show ?thesis
    using assms head_of_chain [OF r(1), of 0 genesisPrevHash] by (simp add: OpenAuditLog_def log_ok_def)
qed

lemma append_log_ok:
  assumes "keeps C (new_entry C now ev a)" "log_ok C a"
  shows "\<exists>e l a'. Append C now IoOk ev a = (Inr e, a') \<and> log_ok C a' \<and>
    entries_of C (al_file a') = entries_of C (al_file a) @ [e] \<and> al_file a' = al_file a @ [l] \<and>
    ae_Kind e = ev_Kind ev \<and> ae_Actor e = ev_Actor ev \<and> ae_Details e = ev_Details ev \<and> ae_TS e = now"
proof -
  define e where "e = new_entry C now ev a"
  have f: "ae_Seq e = al_lastSeq a + 1" "ae_PrevHash e = al_lastHash a" "ae_Hash e = computeAuditHash C e"
    "ae_Kind e = ev_Kind ev" "ae_Actor e = ev_Actor ev" "ae_Details e = ev_Details ev" "ae_TS e = now"
    by (simp_all add: e_def new_entry_def Let_def computeAuditHash_def)
  obtain l where c: "cd_marshal C e = Inr l" "\<not> cd_long C l" "\<not> cd_empty C l" "cd_unmarshal C l = Some e"
    using keepsE [OF assms(1)] unfolding e_def by blast
  define a' where "a' = a\<lparr>al_file := al_file a @ [l], al_lastSeq := ae_Seq e, al_lastHash := ae_Hash e\<rparr>"
  have ap: "Append C now IoOk ev a = (Inr e, a')"
    using assms(2) c(1) by (simp add: Append_def log_ok_def e_def a'_def Let_def)
  have es: "entries_of C (al_file a') = entries_of C (al_file a) @ [e]"
    using c by (simp add: entries_of_def a'_def List.map_filter_def)
  have old: "readable C (al_file a)" "chain C 1 genesisPrevHash (entries_of C (al_file a))" "al_open a"
    "al_lastSeq a = of_nat (length (entries_of C (al_file a)))" "al_lastHash a = last_hash (entries_of C (al_file a)) genesisPrevHash"
    using assms(2) by (simp_all add: log_ok_def verify_chain)
  have "readable C (al_file a')" using old(1) c by (simp add: readable_def a'_def)
  moreover have "chain C 1 genesisPrevHash (entries_of C (al_file a'))"
    unfolding es using old(2,4,5) f(1-3) by (simp add: chain_snoc)
  ultimately have "log_ok C a'"
    unfolding log_ok_def verify_chain es using old(3,4) f(1) by (simp add: a'_def last_hash_def)
  then show ?thesis using ap es f by (simp add: a'_def)
qed

text \<open>A hash is unambiguous on some entries: equal hashes mean equal contents.\<close>

definition no_collision :: "('d, 'l) codec \<Rightarrow> 'd AuditEntry set \<Rightarrow> bool" where
  "no_collision C E \<longleftrightarrow>
     (\<forall>x\<in>E. computeAuditHash C x \<noteq> genesisPrevHash) \<and>
     (\<forall>x\<in>E. \<forall>y\<in>E. computeAuditHash C x = computeAuditHash C y \<longrightarrow> x\<lparr>ae_Hash := ''''\<rparr> = y\<lparr>ae_Hash := ''''\<rparr>)"

lemma no_collision_mono: "no_collision C E \<Longrightarrow> F \<subseteq> E \<Longrightarrow> no_collision C F"
  unfolding no_collision_def by blast

lemma no_collisionD:
  "no_collision C E \<Longrightarrow> x \<in> E \<Longrightarrow> y \<in> E \<Longrightarrow> computeAuditHash C x = computeAuditHash C y \<Longrightarrow>
   x\<lparr>ae_Hash := ''''\<rparr> = y\<lparr>ae_Hash := ''''\<rparr>"
  unfolding no_collision_def by blast

lemma same_content:
  "x\<lparr>ae_Hash := ''''\<rparr> = y\<lparr>ae_Hash := ''''\<rparr> \<Longrightarrow> ae_Hash x = ae_Hash y \<Longrightarrow> x = (y :: 'd AuditEntry)"
  by (cases x; cases y) simp

text \<open>Two chains with the same last hash agree on every entry.\<close>

lemma chain_unique:
  assumes "no_collision C (set es \<union> set fs)" "chain C sq genesisPrevHash es" "chain C sq genesisPrevHash fs"
    "last_hash es genesisPrevHash = last_hash fs genesisPrevHash"
  shows "es = fs"
  using assms
proof (induction es arbitrary: fs rule: rev_induct)
  case Nil
  show ?case
  proof (cases fs rule: rev_cases)
    case (snoc gs g)
    then have "ae_Hash g = computeAuditHash C g" "computeAuditHash C g \<noteq> genesisPrevHash"
      using Nil by (auto simp: chain_snoc no_collision_def)
    then show ?thesis using Nil snoc by (simp add: last_hash_def)
  qed simp
next
  case (snoc e es)
  have e: "ae_Hash e = computeAuditHash C e" "ae_PrevHash e = last_hash es genesisPrevHash" "chain C sq genesisPrevHash es"
    "computeAuditHash C e \<noteq> genesisPrevHash"
    using snoc.prems by (auto simp: chain_snoc no_collision_def)
  show ?case
  proof (cases fs rule: rev_cases)
    case Nil
    then show ?thesis using snoc.prems(4) e by (simp add: last_hash_def)
  next
    case fs: (snoc gs g)
    have g: "ae_Hash g = computeAuditHash C g" "ae_PrevHash g = last_hash gs genesisPrevHash" "chain C sq genesisPrevHash gs"
      using snoc.prems(3) by (auto simp: fs chain_snoc)
    have h: "ae_Hash e = ae_Hash g" using snoc.prems(4) by (simp add: fs last_hash_def)
    then have "e\<lparr>ae_Hash := ''''\<rparr> = g\<lparr>ae_Hash := ''''\<rparr>"
      using e(1) g(1) by (intro no_collisionD [OF snoc.prems(1)]) (simp_all add: fs)
    then have eg: "e = g" by (rule same_content [OF _ h])
    have "no_collision C (set es \<union> set gs)"
      by (rule no_collision_mono [OF snoc.prems(1)]) (auto simp: fs)
    moreover have "last_hash es genesisPrevHash = last_hash gs genesisPrevHash" using e(2) g(2) eg by simp
    ultimately have "es = gs" using e(3) g(3) by (intro snoc.IH)
    then show ?thesis using eg by (simp add: fs)
  qed
qed

end
