(* ===== verification/Auth_AuditProps.thy ===== *)
theory Auth_AuditProps
  imports Auth_Audit
begin

text \<open>
  What the audit log guarantees: appends extend a verified chain and survive reopening, a
  verified file is determined by its last hash, and what \<^verbatim>\<open>Verify\<close> alone does not see.
\<close>

section \<open>A run of appends\<close>

text \<open>A series of appends, each at its time, with the outcome of its write and its event; and what they return.\<close>

fun append_all :: "('d, 'l) codec \<Rightarrow> (string \<times> io_outcome \<times> 'd Event) list \<Rightarrow> 'l AuditLog \<Rightarrow>
    (string + 'd AuditEntry) list \<times> 'l AuditLog" where
  "append_all C [] a = ([], a)"
| "append_all C ((now, io, ev) # evs) a =
     (let (r, a') = Append C now io ev a; (rs, b) = append_all C evs a' in (r # rs, b))"

text \<open>No sync fails after its write, and a line that is written fits the reader and reads back as it was.\<close>

fun syncs_and_fits :: "('d, 'l) codec \<Rightarrow> (string \<times> io_outcome \<times> 'd Event) list \<Rightarrow> 'l AuditLog \<Rightarrow> bool" where
  "syncs_and_fits C [] a = True"
| "syncs_and_fits C ((now, io, ev) # evs) a =
     ((case io of IoOk \<Rightarrow> isl (cd_marshal C (new_entry C now ev a)) \<or> keeps C (new_entry C now ev a)
       | WriteFails e \<Rightarrow> True | SyncFails e \<Rightarrow> False) \<and>
      syncs_and_fits C evs (snd (Append C now io ev a)))"

text \<open>An append returns the entry of its event, or an error when it could not be encoded or written.\<close>

fun answered :: "string \<times> io_outcome \<times> 'd Event \<Rightarrow> string + 'd AuditEntry \<Rightarrow> bool" where
  "answered (now, io, ev) (Inr e) \<longleftrightarrow> io = IoOk \<and> ae_TS e = now \<and> ae_Kind e = ev_Kind ev \<and> ae_Actor e = ev_Actor ev \<and>
     ae_Provider e = ev_Provider ev \<and> ae_Tool e = ev_Tool ev \<and> ae_TenantID e = ev_TenantID ev \<and> ae_Details e = ev_Details ev"
| "answered (now, io, ev) (Inl m) \<longleftrightarrow> (\<exists>e. io = WriteFails e \<and> m = ''write entry: '' @ e) \<or> has_prefix m ''marshal entry: ''"

abbreviation returned :: "(string + 'd AuditEntry) list \<Rightarrow> 'd AuditEntry list" where
  "returned rs \<equiv> List.map projr (filter (\<lambda>r. \<not> isl r) rs)"

text \<open>One append of the series: it fails and leaves the log, or adds its entry.\<close>

lemma append_cases:
  assumes "syncs_and_fits C [(now, io, ev)] a" "log_ok C a" "Append C now io ev a = (r, a')"
  shows "log_ok C a' \<and> entries_of C (al_file a') = entries_of C (al_file a) @ returned [r] \<and>
    (\<exists>ls. al_file a' = al_file a @ ls) \<and> answered (now, io, ev) r"
proof -
  have op: "al_open a" using assms(2) by (simp add: log_ok_def)
  consider m where "cd_marshal C (new_entry C now ev a) = Inl m" | l e where "cd_marshal C (new_entry C now ev a) = Inr l" "io = WriteFails e"
    | "io = IoOk" "keeps C (new_entry C now ev a)"
    using assms(1) by (cases "cd_marshal C (new_entry C now ev a)"; cases io) auto
  then show ?thesis
  proof cases
    case 1
    then have "r = Inl (''marshal entry: '' @ m)" "a' = a" using assms(3) op by (auto simp: Append_def Let_def)
    then show ?thesis using assms(2) by simp
  next
    case 2
    then have "r = Inl (''write entry: '' @ e)" "a' = a" using assms(3) op by (auto simp: Append_def Let_def)
    then show ?thesis using assms(2) 2 by simp
  next
    case 3
    obtain e l where a': "r = Inr e" "log_ok C a'" "entries_of C (al_file a') = entries_of C (al_file a) @ [e]"
      "al_file a' = al_file a @ [l]"
      using append_log_ok [OF 3(2) assms(2)] assms(3) 3(1) by auto
    have "e = new_entry C now ev a" using assms(3) a'(1) by (auto simp: Append_def Let_def split: if_splits sum.splits io_outcome.splits)
    then have "answered (now, io, ev) r" using a'(1) 3(1) by (simp add: new_entry_def Let_def)
    then show ?thesis using a' by simp
  qed
qed

lemma append_all_ok:
  assumes "syncs_and_fits C evs a" "log_ok C a" "append_all C evs a = (rs, a')"
  shows "log_ok C a' \<and> entries_of C (al_file a') = entries_of C (al_file a) @ returned rs \<and>
    (\<exists>ls. al_file a' = al_file a @ ls) \<and> list_all2 answered evs rs"
  using assms
proof (induction evs arbitrary: a rs)
  case Nil
  then show ?case by simp
next
  case (Cons x evs)
  obtain now io ev where x: "x = (now, io, ev)" by (cases x)
  obtain r b where r: "Append C now io ev a = (r, b)" by fastforce
  obtain rs' where rs: "append_all C evs b = (rs', a')" "rs = r # rs'"
    using Cons.prems(3) by (auto simp: x r split: prod.splits)
  have one: "syncs_and_fits C [(now, io, ev)] a" "syncs_and_fits C evs b" using Cons.prems(1) by (simp_all add: x r)
  note first = append_cases [OF one(1) Cons.prems(2) r]
  show ?case using first Cons.IH [OF one(2) _ rs(1)] by (auto simp: rs(2) x)
qed

lemma reopen_same:
  assumes "log_ok C a"
  shows "OpenAuditLog C None (al_file a) = Inr a"
proof -
  obtain b where b: "OpenAuditLog C None (al_file a) = Inr b" "al_file b = al_file a" "log_ok C b"
    using open_log_ok assms by (metis log_ok_def)
  then have "b = a" using assms by (cases a; cases b) (simp add: log_ok_def)
  then show ?thesis using b by simp
qed

lemma head_unreadable:
  "\<not> readable C ls \<Longrightarrow> \<exists>e. head_loop C ls hd0 = Inl e"
  by (induction C ls hd0 rule: head_loop.induct) (auto simp: readable_def split: option.splits)

section \<open>A codec to compute with\<close>

text \<open>Lines are entries or empty; the hash spells out sequence number, kind and previous hash.\<close>

definition plain_codec :: "(unit, unit AuditEntry option) codec" where
  "plain_codec = \<lparr>cd_marshal = (\<lambda>e. Inr (Some e)), cd_unmarshal = (\<lambda>l. l), cd_empty = (\<lambda>l. l = None),
     cd_long = (\<lambda>l. case l of None \<Rightarrow> False | Some e \<Rightarrow> length (ae_Kind e) > 100),
     cd_hash = (\<lambda>e. dec (unat (ae_Seq e)) @ '':'' @ ae_Kind e @ '':'' @ ae_PrevHash e)\<rparr>"

lemma plain_keeps: "length (ae_Kind e) \<le> 100 \<Longrightarrow> keeps plain_codec e"
  by (simp add: keeps_def plain_codec_def)

definition demo_event :: "string \<Rightarrow> unit Event" where
  "demo_event k = \<lparr>ev_Kind = k, ev_Actor = ''cli'', ev_Provider = '''', ev_Tool = '''', ev_TenantID = '''', ev_Details = ()\<rparr>"

definition demo_log :: "unit AuditEntry option AuditLog" where
  "demo_log = \<lparr>al_file = [], al_open = True, al_lastHash = genesisPrevHash, al_lastSeq = 0\<rparr>"

lemma demo_log_ok: "log_ok plain_codec demo_log"
  by (simp add: log_ok_def demo_log_def entries_of_def map_filter_simps last_hash_def)

section \<open>Properties\<close>

text \<open>
  C20: the log is append-only and stays verifiable as long as no sync fails after its write and
  every line that is written fits the reader's buffer and reads back as written: opened over a
  file that verifies and given any series of events, some of which cannot be encoded or written at all,
  its file still verifies and starts with the old file; the entries added are the ones the
  successful appends returned, in order, each with the contents and time of its event; an append
  that failed left nothing; and reopening the file restores exactly the state of the log.
\<close>

theorem audit_appends_verify:
  assumes "OpenAuditLog C None file = Inr a" "Verify C None a = None" "syncs_and_fits C evs a"
    "append_all C evs a = (rs, a')"
  shows "Verify C None a' = None \<and> take (length file) (al_file a') = file \<and>
    entries_of C (al_file a') = entries_of C file @ returned rs \<and> list_all2 answered evs rs \<and>
    OpenAuditLog C None (al_file a') = Inr a'"
proof -
  have f: "al_file a = file" using assms(1) by (auto simp: OpenAuditLog_def split: sum.splits)
  then have a: "log_ok C a" "al_file a = file"
    using open_log_ok [of C "file"] assms(1,2) by (auto simp: Verify_def)
  from append_all_ok [OF assms(3) a(1) assms(4)] reopen_same [of C a']
  show ?thesis unfolding a(2) by (auto simp: Verify_def log_ok_def)
qed

theorem audit_appends_verify_witness:
  "(let (rs, a') = append_all plain_codec [(''t1'', IoOk, demo_event ''tool_call''), (''t2'', WriteFails ''disk full'', demo_event ''x''),
        (''t3'', IoOk, demo_event ''credential_use'')] demo_log
    in List.map isl rs = [False, True, False] \<and> Verify plain_codec None a' = None \<and>
       entries_of plain_codec (al_file a') = returned rs)"
proof -
  let ?evs = "[(''t1'', IoOk, demo_event ''tool_call''), (''t2'', WriteFails ''disk full'', demo_event ''x''),
        (''t3'', IoOk, demo_event ''credential_use'')]"
  obtain rs a' where r: "append_all plain_codec ?evs demo_log = (rs, a')" by fastforce
  have o: "OpenAuditLog plain_codec None [] = Inr demo_log"
    by (simp add: OpenAuditLog_def demo_log_def)
  have s: "syncs_and_fits plain_codec ?evs demo_log"
    by (simp add: plain_keeps new_entry_def Let_def demo_event_def)
  have v: "Verify plain_codec None demo_log = None" using demo_log_ok by (simp add: Verify_def log_ok_def)
  have "List.map isl rs = [False, True, False]"
    using r by (auto simp: Append_def Let_def demo_log_def plain_codec_def)
  then show ?thesis
    using audit_appends_verify [OF o v s r] unfolding r by (simp add: entries_of_def map_filter_simps)
qed

text \<open>
  C21: tampering is evident to anyone who remembers the head: if two files both verify and open
  with the same last hash, and the hash does not collide on their entries, they hold the same
  entries in the same order; nothing can be changed, dropped, inserted or reordered.
\<close>

theorem audit_tamper_evident:
  assumes "OpenAuditLog C None file = Inr a" "Verify C None a = None"
    "OpenAuditLog C None file' = Inr a'" "Verify C None a' = None"
    "al_lastHash a' = al_lastHash a"
    "no_collision C (set (entries_of C file) \<union> set (entries_of C file'))"
  shows "entries_of C file' = entries_of C file \<and> al_lastSeq a' = al_lastSeq a"
proof -
  have o: "al_file a = file" "al_file a' = file'"
    using assms(1,3) by (auto simp: OpenAuditLog_def split: sum.splits)
  have v: "verify_loop C file 1 genesisPrevHash = None" "verify_loop C file' 1 genesisPrevHash = None"
    using assms(2,4) o by (simp_all add: Verify_def)
  have l: "log_ok C a" "log_ok C a'" using open_log_ok [OF v(1)] open_log_ok [OF v(2)] assms(1,3) by auto
  have "entries_of C file = entries_of C file'"
    using assms(5,6) l o v by (intro chain_unique [of C _ _ 1]) (simp_all add: log_ok_def verify_chain)
  then show ?thesis using l o by (simp add: log_ok_def)
qed

definition demo_entry :: "unit AuditEntry" where
  "demo_entry = new_entry plain_codec ''t1'' (demo_event ''tool_call'') demo_log"

lemma demo_entry_chain: "chain plain_codec 1 genesisPrevHash [demo_entry]"
  by (simp add: demo_entry_def new_entry_def demo_log_def computeAuditHash_def Let_def)

lemma demo_no_collision: "no_collision plain_codec {demo_entry}"
  by (simp add: no_collision_def computeAuditHash_def plain_codec_def demo_entry_def new_entry_def demo_log_def Let_def
      genesisPrevHash_def dec.simps [of "Suc 0"] digit_char_def)

theorem audit_tamper_evident_witness:
  "\<exists>a a'. OpenAuditLog plain_codec None [Some demo_entry, None] = Inr a \<and>
     OpenAuditLog plain_codec None [None, Some demo_entry] = Inr a' \<and>
     entries_of plain_codec [None, Some demo_entry] = entries_of plain_codec [Some demo_entry, None] \<and>
     al_lastSeq a' = al_lastSeq a"
proof -
  have es: "entries_of plain_codec [Some demo_entry, None] = [demo_entry]"
    "entries_of plain_codec [None, Some demo_entry] = [demo_entry]"
    by (simp_all add: entries_of_def plain_codec_def map_filter_simps)
  have r: "readable plain_codec [Some demo_entry, None]" "readable plain_codec [None, Some demo_entry]"
    by (simp_all add: readable_def plain_codec_def demo_entry_def new_entry_def demo_event_def Let_def)
  have v: "verify_loop plain_codec [Some demo_entry, None] 1 genesisPrevHash = None"
    "verify_loop plain_codec [None, Some demo_entry] 1 genesisPrevHash = None"
    using demo_entry_chain by (simp_all only: verify_chain es r)
  obtain a a' where a: "OpenAuditLog plain_codec None [Some demo_entry, None] = Inr a" "log_ok plain_codec a"
      "al_file a = [Some demo_entry, None]"
    and a': "OpenAuditLog plain_codec None [None, Some demo_entry] = Inr a'" "log_ok plain_codec a'"
      "al_file a' = [None, Some demo_entry]"
    using open_log_ok [OF v(1)] open_log_ok [OF v(2)] by blast
  have "entries_of plain_codec [None, Some demo_entry] = entries_of plain_codec [Some demo_entry, None] \<and> al_lastSeq a' = al_lastSeq a"
    using a a' v es demo_no_collision
    by (intro audit_tamper_evident [OF a(1) _ a'(1)]) (simp_all add: Verify_def log_ok_def)
  then show ?thesis using a(1) a'(1) by blast
qed

text \<open>
  The log can break itself for good, in two ways. When the sync of an append fails after
  its write, the append is reported as an error but the line is in the file, and the next
  append, which succeeds, repeats its sequence number, so that the file no longer verifies. And
  an append whose line is longer than the reader's buffer succeeds, after which the log neither
  verifies nor opens again.
\<close>

theorem audit_sync_failure_breaks:
  assumes "log_ok C a" "keeps C (new_entry C t1 ev1 a)"
    "Append C t1 (SyncFails err) ev1 a = (r1, a1)" "keeps C (new_entry C t2 ev2 a1)" "Append C t2 IoOk ev2 a1 = (r2, a2)"
    "cd_marshal C (new_entry C t3 ev3 a) = Inr big" "cd_long C big" "Append C t3 IoOk ev3 a = (r3, a3)"
  shows "r1 = Inl (''fsync: '' @ err) \<and> \<not> isl r2 \<and> Verify C None a2 \<noteq> None \<and>
    \<not> isl r3 \<and> Verify C None a3 \<noteq> None \<and> isl (OpenAuditLog C None (al_file a3))"
proof -
  define e1 where "e1 = new_entry C t1 ev1 a"
  define e2 where "e2 = new_entry C t2 ev2 a1"
  have op: "al_open a" using assms(1) by (simp add: log_ok_def)
  obtain l1 where l1: "cd_marshal C e1 = Inr l1" "\<not> cd_empty C l1" "cd_unmarshal C l1 = Some e1"
    using keepsE [OF assms(2)] unfolding e1_def by blast
  obtain l2 where l2: "cd_marshal C e2 = Inr l2" "\<not> cd_empty C l2" "cd_unmarshal C l2 = Some e2"
    using keepsE [OF assms(4)] unfolding e2_def by blast
  have a1: "a1 = a\<lparr>al_file := al_file a @ [l1]\<rparr>" "r1 = Inl (''fsync: '' @ err)"
    using assms(3) op l1(1) by (simp_all add: Append_def Let_def flip: e1_def)
  have a2: "al_file a2 = al_file a @ [l1, l2]" "r2 = Inr e2"
    using assms(5) op l2(1) unfolding Append_def e2_def [symmetric] by (auto simp: Let_def a1(1))
  have es: "entries_of C (al_file a2) = (entries_of C (al_file a) @ [e1]) @ [e2]"
    using l1 l2 by (simp add: entries_of_def a2 List.map_filter_def)
  have sq: "ae_Seq e2 = al_lastSeq a + 1" by (simp add: e2_def new_entry_def Let_def a1(1))
  have "\<not> chain C 1 genesisPrevHash (entries_of C (al_file a2))"
    unfolding es chain_snoc [of C 1 genesisPrevHash "entries_of C (al_file a) @ [e1]" e2]
    using sq assms(1) by (simp add: log_ok_def)
  then have two: "Verify C None a2 \<noteq> None" by (simp add: Verify_def verify_chain del: not_None_eq)
  have a3: "al_file a3 = al_file a @ [big]" "\<not> isl r3"
    using assms(6,8) op by (auto simp: Append_def Let_def)
  have "\<not> readable C (al_file a3)" using assms(7) by (simp add: readable_def a3)
  then have "Verify C None a3 \<noteq> None" "isl (OpenAuditLog C None (al_file a3))"
    using head_unreadable [of C "al_file a3" "(0, genesisPrevHash)"]
    by (auto simp add: Verify_def verify_chain OpenAuditLog_def simp del: not_None_eq)
  then show ?thesis using a1(2) a2(2) a3(2) two by simp
qed

theorem audit_sync_failure_breaks_witness:
  "(let big = demo_event (replicate 101 CHR ''x'');
       a1 = snd (Append plain_codec ''t1'' (SyncFails ''disk full'') (demo_event ''a'') demo_log);
       a2 = snd (Append plain_codec ''t2'' IoOk (demo_event ''b'') a1);
       a3 = snd (Append plain_codec ''t3'' IoOk big demo_log)
    in Verify plain_codec None a2 \<noteq> None \<and> Verify plain_codec None a3 \<noteq> None \<and>
       isl (OpenAuditLog plain_codec None (al_file a3)))"
proof -
  let ?big = "demo_event (replicate 101 CHR ''x'')"
  have k: "keeps plain_codec (new_entry plain_codec t (demo_event [c]) a)" for t c a
    by (rule plain_keeps) (simp add: new_entry_def Let_def demo_event_def)
  have "cd_marshal plain_codec (new_entry plain_codec ''t3'' ?big demo_log) = Inr (Some (new_entry plain_codec ''t3'' ?big demo_log))"
    by (simp add: plain_codec_def)
  moreover have "cd_long plain_codec (Some (new_entry plain_codec ''t3'' ?big demo_log))"
    unfolding plain_codec_def new_entry_def Let_def demo_event_def
    by (simp only: codec.select_convs option.case AuditEntry.simps Event.simps length_replicate)
  ultimately show ?thesis
    unfolding Let_def
    using audit_sync_failure_breaks [OF demo_log_ok k prod.collapse [symmetric] k prod.collapse [symmetric] _ _ prod.collapse [symmetric],
      where ?t3.0 = "''t3''" and ?ev3.0 = ?big and ?t2.0 = "''t2''" and ?t1.0 = "''t1''" and err = "''disk full''"]
    by blast
qed

section \<open>What verification alone does not see\<close>

text \<open>Every prefix of a file that verifies, verifies: a cut tail is seen only against the head.\<close>

lemma verify_prefix:
  assumes "verify_loop C (ls @ rest) 1 genesisPrevHash = None"
  shows "verify_loop C ls 1 genesisPrevHash = None"
proof -
  have "chain C sq prev (es @ fs) \<Longrightarrow> chain C sq prev es" for sq prev es fs
    by (induction es arbitrary: sq prev) auto
  moreover have "entries_of C (ls @ rest) = entries_of C ls @ entries_of C rest"
    by (simp add: entries_of_def List.map_filter_def)
  ultimately show ?thesis using assms by (auto simp: verify_chain readable_def)
qed

end
