(* ===== verification/Sre_Breaker.thy ===== *)
theory Sre_Breaker
  imports Neo_Prelude
begin

text \<open>
  The circuit breaker of \<^verbatim>\<open>pkg/sre/breaker.go\<close>. A call is its two critical sections, before and
  after the external action; \<open>Execute\<close> runs one call alone, the step relation at the end several
  calls at once. Times are nanoseconds; the action and the deadline of its context are
  arguments.
\<close>

section \<open>State\<close>

datatype BreakerState = StateClosed | StateOpen | StateHalfOpen

record CircuitBreaker =
  cb_state :: BreakerState
  cb_failures :: int
  cb_maxFailures :: int
  cb_resetTimeout :: int
  cb_lastStateChange :: time

definition BreakerResetTimeout :: int where
  "BreakerResetTimeout = 30 * 1000000000"

text \<open>The zero time of Go lies far before every clock reading; it is only compared when open.\<close>

definition NewCircuitBreaker :: "int \<Rightarrow> int \<Rightarrow> CircuitBreaker" where
  "NewCircuitBreaker maxFailures resetTimeout =
     \<lparr>cb_state = StateClosed, cb_failures = 0, cb_maxFailures = maxFailures, cb_resetTimeout = resetTimeout,
      cb_lastStateChange = 0\<rparr>"

datatype 'e breaker_error = ErrCircuitOpen | ErrLLMTimeout | ActionError 'e

definition currentState :: "time \<Rightarrow> CircuitBreaker \<Rightarrow> BreakerState" where
  "currentState now cb =
     (if cb_state cb = StateOpen \<and> now - cb_lastStateChange cb \<ge> cb_resetTimeout cb then StateHalfOpen
      else cb_state cb)"

text \<open>The part before the action: \<^const>\<open>None\<close> when the call is refused.\<close>

definition begin_call :: "time \<Rightarrow> CircuitBreaker \<Rightarrow> CircuitBreaker option" where
  "begin_call now cb =
     (let st = currentState now cb
      in if st = StateOpen then None
         else if st = StateHalfOpen
         then Some (if cb_state cb = StateOpen \<or> cb_state cb = StateHalfOpen then cb\<lparr>cb_state := StateHalfOpen\<rparr> else cb)
         else Some cb)"

text \<open>The part after the action, which returned \<open>result\<close>, its context past its deadline or not.\<close>

definition finish_call ::
    "time \<Rightarrow> bool \<Rightarrow> 'e + 'a \<Rightarrow> CircuitBreaker \<Rightarrow> ('e breaker_error + 'a) \<times> CircuitBreaker" where
  "finish_call now deadline result cb =
     (let err = (if deadline then Some ErrLLMTimeout
                 else case result of Inl e \<Rightarrow> Some (ActionError e) | Inr _ \<Rightarrow> None)
      in case err of
           Some e \<Rightarrow>
             (let cb1 = cb\<lparr>cb_failures := cb_failures cb + 1\<rparr>
              in (Inl e,
                  if cb_state cb1 = StateHalfOpen \<or> cb_failures cb1 \<ge> cb_maxFailures cb1
                  then cb1\<lparr>cb_state := StateOpen, cb_lastStateChange := now\<rparr>
                  else cb1))
         | None \<Rightarrow> (Inr (projr result), cb\<lparr>cb_failures := 0, cb_state := StateClosed\<rparr>))"

text \<open>One call alone: the state after it and, when the action ran, that it did.\<close>

definition Execute ::
    "time \<Rightarrow> time \<Rightarrow> bool \<Rightarrow> 'e + 'a \<Rightarrow> CircuitBreaker \<Rightarrow> ('e breaker_error + 'a) \<times> bool \<times> CircuitBreaker" where
  "Execute start stop deadline result cb =
     (case begin_call start cb of
        None \<Rightarrow> (Inl ErrCircuitOpen, False, cb)
      | Some cb1 \<Rightarrow>
          (let (r, cb2) = finish_call stop deadline result cb1 in (r, True, cb2)))"

section \<open>Calls one after the other\<close>

text \<open>A call of a history: when it starts and ends, and whether it fails.\<close>

type_synonym call = "time \<times> time \<times> bool"

definition run_call :: "call \<Rightarrow> CircuitBreaker \<Rightarrow> CircuitBreaker" where
  "run_call = (\<lambda>(start, stop, fails) cb. snd (snd (Execute start stop False (if fails then Inl () else Inr ()) cb)))"

lemma run_closed:
  "cb_state cb = StateClosed \<Longrightarrow> run_call (start, stop, fails) cb =
     (if \<not> fails then cb\<lparr>cb_failures := 0\<rparr>
      else if cb_failures cb + 1 \<ge> cb_maxFailures cb
      then cb\<lparr>cb_failures := cb_failures cb + 1, cb_state := StateOpen, cb_lastStateChange := stop\<rparr>
      else cb\<lparr>cb_failures := cb_failures cb + 1\<rparr>)"
  by (simp add: run_call_def Execute_def begin_call_def currentState_def finish_call_def Let_def)

lemma fails_below:
  assumes "cb_state cb = StateClosed" "cb_failures cb + int (length cs) < cb_maxFailures cb" "list_all (\<lambda>(a, b, f). f) cs"
  shows "fold run_call cs cb = cb\<lparr>cb_failures := cb_failures cb + int (length cs)\<rparr>"
  using assms
proof (induction cs arbitrary: cb)
  case (Cons c cs)
  obtain a b where c: "c = (a, b, True)" using Cons.prems(3) by (cases c) auto
  show ?case using Cons.prems Cons.IH [of "cb\<lparr>cb_failures := cb_failures cb + 1\<rparr>"] run_closed [of cb a b True]
    by (simp add: c)
qed simp

lemma run_open: "cb_state cb = StateOpen \<Longrightarrow> start - cb_lastStateChange cb < cb_resetTimeout cb \<Longrightarrow> run_call (start, stop, fails) cb = cb"
  by (simp add: run_call_def Execute_def begin_call_def currentState_def)

lemma runs_open:
  "cb_state cb = StateOpen \<Longrightarrow> list_all (\<lambda>(a, b, f). a - cb_lastStateChange cb < cb_resetTimeout cb) cs \<Longrightarrow> fold run_call cs cb = cb"
  by (induction cs) (auto simp: run_open)

lemma run_frame: "cb_maxFailures (run_call c cb) = cb_maxFailures cb \<and> cb_resetTimeout (run_call c cb) = cb_resetTimeout cb"
  by (cases c) (auto simp: run_call_def Execute_def begin_call_def finish_call_def Let_def split: prod.splits option.splits if_splits)

lemma runs_frame: "cb_maxFailures (fold run_call cs cb) = cb_maxFailures cb \<and> cb_resetTimeout (fold run_call cs cb) = cb_resetTimeout cb"
  by (induction cs arbitrary: cb) (auto simp: run_frame)

text \<open>A call that runs and succeeds leaves the breaker closed with a clean count, in whatever state it found it.\<close>

lemma run_success:
  "begin_call start cb \<noteq> None \<Longrightarrow> cb_state (run_call (start, stop, False) cb) = StateClosed \<and> cb_failures (run_call (start, stop, False) cb) = 0"
  by (auto simp: run_call_def Execute_def finish_call_def Let_def split: option.splits)

section \<open>Properties\<close>

text \<open>Calls that leave a breaker as good as new: none, or any series whose last call ran and succeeded.\<close>

definition recovered :: "call list \<Rightarrow> CircuitBreaker \<Rightarrow> bool" where
  "recovered cs cb \<longleftrightarrow> cs = [] \<or>
     (case last cs of (start, stop, fails) \<Rightarrow> \<not> fails \<and> begin_call start (fold run_call (butlast cs) cb) \<noteq> None)"

lemma recovered_closed:
  assumes "recovered cs (NewCircuitBreaker m timeout)"
  shows "cb_state (fold run_call cs (NewCircuitBreaker m timeout)) = StateClosed \<and>
    cb_failures (fold run_call cs (NewCircuitBreaker m timeout)) = 0"
proof (cases cs rule: rev_cases)
  case (snoc cs' c)
  then show ?thesis using assms run_success by (cases c) (auto simp: recovered_def)
qed (simp add: NewCircuitBreaker_def)

text \<open>
  C22: for calls made one after the other, the breaker cuts and recovers as configured. After any
  series of calls that ended with a success, or none, the configured number of consecutive
  failures, and no fewer, opens it; until the reset timeout has passed after the last one every
  call fails at once, without running its action and without changing the breaker; the first
  call after that runs, and closes the breaker with a clean count when it succeeds or opens it
  for another full timeout when it fails or passes its deadline.
\<close>

theorem breaker_cuts_and_recovers:
  assumes "0 < m" "length cs + 1 = m" "list_all (\<lambda>(a, b, f). f) cs"
    and "recovered earlier (NewCircuitBreaker (int m) timeout)"
    and "list_all (\<lambda>(a, b, f). a - stop < timeout) refused"
  shows "(let cb0 = fold run_call earlier (NewCircuitBreaker (int m) timeout); closed = fold run_call cs cb0;
      opened = run_call (start, stop, True) closed
    in cb_state closed = StateClosed \<and> cb_state opened = StateOpen \<and> fold run_call refused opened = opened \<and>
       (if now - stop < timeout
        then Execute now now' deadline result opened = (Inl ErrCircuitOpen, False, opened)
        else (case Execute now now' deadline result opened of (r, did, cb) \<Rightarrow>
          did \<and> (if deadline \<or> isl result
                 then cb_state cb = StateOpen \<and> cb_lastStateChange cb = now'
                 else r = Inr (projr result) \<and> cb_state cb = StateClosed \<and> cb_failures cb = 0))))"
proof -
  let ?new = "NewCircuitBreaker (int m) timeout"
  let ?cb0 = "fold run_call earlier ?new"
  have c0: "cb_state ?cb0 = StateClosed" "cb_failures ?cb0 = 0" "cb_maxFailures ?cb0 = int m" "cb_resetTimeout ?cb0 = timeout"
    using recovered_closed [OF assms(4)] runs_frame [of earlier ?new] by (simp_all add: NewCircuitBreaker_def)
  have closed: "fold run_call cs ?cb0 = ?cb0\<lparr>cb_failures := int (length cs)\<rparr>"
    using fails_below [of ?cb0 cs] assms(2,3) c0 by simp
  have opened: "run_call (start, stop, True) (?cb0\<lparr>cb_failures := int (length cs)\<rparr>) =
      ?cb0\<lparr>cb_failures := int m, cb_state := StateOpen, cb_lastStateChange := stop\<rparr>"
    using assms(2) c0 by (subst run_closed) auto
  have refused: "fold run_call refused (?cb0\<lparr>cb_failures := int m, cb_state := StateOpen, cb_lastStateChange := stop\<rparr>) =
      ?cb0\<lparr>cb_failures := int m, cb_state := StateOpen, cb_lastStateChange := stop\<rparr>"
    by (rule runs_open) (use assms(5) c0 in simp_all)
  show ?thesis
    unfolding Let_def closed opened refused
    using c0 by (cases result) (auto simp: Execute_def begin_call_def currentState_def finish_call_def Let_def)
qed

text \<open>A failure, a success, three failures that open it, a refused call.\<close>

theorem breaker_cuts_and_recovers_witness:
  "(let cb = run_call (5, 6, True) (fold run_call [(1, 2, True), (3, 4, True)]
        (fold run_call [(- 4, - 3, True), (- 2, - 1, False)] (NewCircuitBreaker 3 30)))
    in cb_state cb = StateOpen \<and> run_call (7, 8, False) cb = cb \<and>
       Execute 35 36 False (Inr () :: unit + unit) cb = (Inl ErrCircuitOpen, False, cb))"
proof -
  have r: "recovered [(- 4, - 3, True), (- 2, - 1, False)] (NewCircuitBreaker (int 3) 30)" by code_simp
  have "list_all (\<lambda>(a, b, f). f) [(1 :: time, 2 :: time, True), (3, 4, True)]"
    "list_all (\<lambda>(a, b, f). a - 6 < (30 :: int)) [(7, 8 :: time, False)]" by simp_all
  from breaker_cuts_and_recovers [OF _ _ this(1) r this(2), of 5 35 36 False "Inr () :: unit + unit"]
  show ?thesis by (simp add: Let_def)
qed

section \<open>Calls in flight\<close>

text \<open>
  A call that began while the breaker was closed and succeeds after it has opened closes it at
  once, however recent the failure that opened it.
\<close>

lemma late_success_closes:
  assumes "cb_state cb = StateOpen"
  shows "cb_state (snd (finish_call now False (Inr v) cb)) = StateClosed \<and>
    begin_call now (snd (finish_call now False (Inr v) cb)) \<noteq> None"
  by (simp add: finish_call_def begin_call_def currentState_def Let_def)

text \<open>While a probe is in flight, every other call is admitted as well.\<close>

lemma half_open_admits_all:
  "cb_state cb = StateHalfOpen \<Longrightarrow> begin_call now cb = Some cb"
  by (simp add: begin_call_def currentState_def)

end
