(* ===== verification/Rate_Limit.thy ===== *)
theory Rate_Limit
  imports Neo_Prelude Complex_Main
begin

text \<open>
  The two rate limiters: the token bucket of \<^verbatim>\<open>pkg/ratelimit/token_bucket.go\<close>, whose token count
  is a float64 here a real, and the per-minute bucket of \<^verbatim>\<open>pkg/notify/bucket.go\<close>. The clock is
  an argument of every operation, in nanoseconds.
\<close>

section \<open>Token bucket\<close>

record TokenBucket =
  tb_capacity :: int
  tb_refillRate :: real
  tb_current :: real
  tb_lastRefill :: time
  tb_waitsTotal :: int
  tb_waitNsTotal :: int

definition minute :: int where
  "minute = 60 * 1000000000"

definition TokenBucket_New :: "int \<Rightarrow> int \<Rightarrow> time \<Rightarrow> TokenBucket" where
  "TokenBucket_New capacity tokensPerMinute now =
     \<lparr>tb_capacity = capacity, tb_refillRate = real_of_int tokensPerMinute / real_of_int minute,
      tb_current = real_of_int capacity, tb_lastRefill = now, tb_waitsTotal = 0, tb_waitNsTotal = 0\<rparr>"

definition refill :: "time \<Rightarrow> TokenBucket \<Rightarrow> TokenBucket" where
  "refill now b =
     (let elapsed = now - tb_lastRefill b;
          current = tb_current b + tb_refillRate b * real_of_int elapsed
      in b\<lparr>tb_lastRefill := now,
           tb_current := (if current > real_of_int (tb_capacity b) then real_of_int (tb_capacity b) else current)\<rparr>)"

definition Allow :: "int \<Rightarrow> time \<Rightarrow> TokenBucket \<Rightarrow> bool \<times> TokenBucket" where
  "Allow n now b0 =
     (let b = refill now b0
      in if real_of_int n > tb_current b then (False, b)
         else (True, b\<lparr>tb_current := tb_current b - real_of_int n\<rparr>))"

definition Available :: "time \<Rightarrow> TokenBucket \<Rightarrow> int \<times> TokenBucket" where
  "Available now b0 = (let b = refill now b0 in (\<lfloor>tb_current b\<rfloor>, b))"

definition TokenBucket_Stats :: "TokenBucket \<Rightarrow> int \<times> int" where
  "TokenBucket_Stats b = (tb_waitsTotal b, tb_waitNsTotal b div 1000000)"

text \<open>What a waiting call sees: ticks of its ticker and at some point the end of its context.\<close>

datatype wait_event = Tick time | Done time string

fun wait_loop :: "int \<Rightarrow> time \<Rightarrow> wait_event list \<Rightarrow> TokenBucket \<Rightarrow> string option option \<times> TokenBucket" where
  "wait_loop n start [] b = (None, b)"
| "wait_loop n start (Done now err # evs) b =
     (Some (Some err), b\<lparr>tb_waitNsTotal := tb_waitNsTotal b + (now - start)\<rparr>)"
| "wait_loop n start (Tick now # evs) b =
     (let (ok, b1) = Allow n now b
      in if ok then (Some None, b1\<lparr>tb_waitNsTotal := tb_waitNsTotal b1 + (now - start)\<rparr>)
         else wait_loop n start evs b1)"

text \<open>
  \<open>Some None\<close>: granted; \<open>Some (Some e)\<close>: an error; \<^const>\<open>None\<close>: still waiting when the events end.
\<close>

definition WaitFor :: "int \<Rightarrow> time \<Rightarrow> wait_event list \<Rightarrow> TokenBucket \<Rightarrow> string option option \<times> TokenBucket" where
  "WaitFor n now evs b =
     (if n > tb_capacity b
      then (Some (Some (''ratelimit: request '' @ dec_int n @ '' tokens exceeds bucket capacity '' @ dec_int (tb_capacity b))), b)
      else (let (ok, b1) = Allow n now b
            in if ok then (Some None, b1)
               else wait_loop n now evs (b1\<lparr>tb_waitsTotal := tb_waitsTotal b1 + 1\<rparr>)))"

section \<open>The rate it enforces\<close>

text \<open>A series of requests, each at its time; the tokens granted in total.\<close>

fun granted :: "(int \<times> time) list \<Rightarrow> TokenBucket \<Rightarrow> int" where
  "granted [] b = 0"
| "granted ((n, now) # rs) b = (let (ok, b1) = Allow n now b in (if ok then n else 0) + granted rs b1)"

fun after_all :: "(int \<times> time) list \<Rightarrow> TokenBucket \<Rightarrow> TokenBucket" where
  "after_all [] b = b"
| "after_all ((n, now) # rs) b = after_all rs (snd (Allow n now b))"

definition requests_ok :: "time \<Rightarrow> (int \<times> time) list \<Rightarrow> bool" where
  "requests_ok t0 rs \<longleftrightarrow> list_all (\<lambda>(n, t). 0 \<le> n) rs \<and> sorted (t0 # List.map snd rs)"

definition bucket_ok :: "TokenBucket \<Rightarrow> bool" where
  "bucket_ok b \<longleftrightarrow> 0 \<le> tb_current b \<and> tb_current b \<le> real_of_int (tb_capacity b) \<and> 0 \<le> tb_refillRate b"

lemma refill_fields [simp]:
  "tb_lastRefill (refill now b) = now" "tb_capacity (refill now b) = tb_capacity b" "tb_refillRate (refill now b) = tb_refillRate b"
  by (simp_all add: refill_def Let_def)

lemma refill_le: "tb_current (refill now b) \<le> tb_current b + tb_refillRate b * real_of_int (now - tb_lastRefill b)"
  by (simp add: refill_def Let_def)

lemma refill_ok: "bucket_ok b \<Longrightarrow> tb_lastRefill b \<le> now \<Longrightarrow> bucket_ok (refill now b)"
  by (simp add: bucket_ok_def refill_def Let_def)

lemma allow_fields:
  "tb_lastRefill (snd (Allow n now b)) = now" "tb_capacity (snd (Allow n now b)) = tb_capacity b"
  "tb_refillRate (snd (Allow n now b)) = tb_refillRate b"
  by (simp_all add: Allow_def Let_def)

lemma allow_ok:
  assumes "bucket_ok b" "tb_lastRefill b \<le> now" "0 \<le> n"
  shows "bucket_ok (snd (Allow n now b)) \<and>
    (if fst (Allow n now b) then real_of_int n else 0) + tb_current (snd (Allow n now b)) \<le>
      tb_current b + tb_refillRate b * real_of_int (now - tb_lastRefill b)"
  using refill_ok [OF assms(1,2)] refill_le [of now b] assms(3) by (auto simp: Allow_def Let_def bucket_ok_def)

lemma granted_bound:
  assumes "bucket_ok b" "requests_ok (tb_lastRefill b) rs"
  shows "real_of_int (granted rs b) + tb_current (after_all rs b) \<le>
      tb_current b + tb_refillRate b * real_of_int (last (tb_lastRefill b # List.map snd rs) - tb_lastRefill b) \<and>
    bucket_ok (after_all rs b)"
  using assms
proof (induction rs arbitrary: b)
  case Nil
  then show ?case by simp
next
  case (Cons r rs)
  obtain n t where r: "r = (n, t)" by fastforce
  have n: "0 \<le> n" and t: "tb_lastRefill b \<le> t" and rs: "requests_ok t rs"
    using Cons.prems(2) by (auto simp: requests_ok_def r)
  let ?b1 = "snd (Allow n t b)"
  note a = allow_ok [OF Cons.prems(1) t n]
  have IH: "real_of_int (granted rs ?b1) + tb_current (after_all rs ?b1) \<le>
      tb_current ?b1 + tb_refillRate b * real_of_int (last (t # List.map snd rs) - t)" "bucket_ok (after_all rs ?b1)"
    using Cons.IH [of ?b1] a rs by (simp_all add: allow_fields)
  let ?l = "last (t # List.map snd rs)"
  have g: "real_of_int (granted (r # rs) b) = (if fst (Allow n t b) then real_of_int n else 0) + real_of_int (granted rs ?b1)"
    by (simp add: r Let_def split: prod.splits)
  have "tb_refillRate b * real_of_int (t - tb_lastRefill b) + tb_refillRate b * real_of_int (?l - t) =
      tb_refillRate b * real_of_int (?l - tb_lastRefill b)"
    by (simp add: algebra_simps)
  then show ?case using IH a g by (simp add: r)
qed

lemma after_all_fields:
  "tb_capacity (after_all rs b) = tb_capacity b"
  "tb_refillRate (after_all rs b) = tb_refillRate b"
  "tb_lastRefill (after_all rs b) = last (tb_lastRefill b # List.map snd rs)"
  by (induction rs b rule: after_all.induct) (auto simp: allow_fields)

text \<open>
  C23: the token bucket enforces its rate: however requests arrive, over any stretch of time
  the tokens granted are at most the capacity plus the refill of the elapsed time, and the
  count of tokens stays between zero and the capacity.
\<close>

theorem token_bucket_rate:
  assumes "0 \<le> capacity" "0 \<le> tokensPerMinute" "requests_ok t0 (before @ window)"
  shows "(let b = after_all before (TokenBucket_New capacity tokensPerMinute t0)
    in real_of_int (granted window b) \<le>
         real_of_int capacity + real_of_int tokensPerMinute / 60000000000 *
           real_of_int (last (tb_lastRefill b # List.map snd window) - tb_lastRefill b) \<and>
       0 \<le> tb_current (after_all window b) \<and> tb_current (after_all window b) \<le> real_of_int capacity)"
proof -
  let ?new = "TokenBucket_New capacity tokensPerMinute t0"
  let ?b = "after_all before ?new"
  have ok0: "bucket_ok ?new" using assms by (simp add: bucket_ok_def TokenBucket_New_def minute_def)
  have b0: "tb_lastRefill ?new = t0" "tb_capacity ?new = capacity"
    "tb_refillRate ?new = real_of_int tokensPerMinute / 60000000000"
    by (simp_all add: TokenBucket_New_def minute_def)
  have "requests_ok (tb_lastRefill ?new) before"
    using assms(3) unfolding b0 by (auto simp: requests_ok_def sorted_append)
  then have ok: "bucket_ok ?b" using granted_bound [OF ok0] by blast
  have window: "requests_ok (tb_lastRefill ?b) window"
    using assms(3) unfolding after_all_fields b0
    by (cases before rule: rev_cases) (auto simp: requests_ok_def sorted_append)
  note g = granted_bound [OF ok window]
  have fin: "bucket_ok (after_all window ?b)" using g by blast
  show ?thesis
    using g ok fin unfolding Let_def bucket_ok_def after_all_fields b0 by linarith
qed

theorem token_bucket_rate_witness:
  "real_of_int (granted [(5, 10), (7, 20), (3, 70000000000)] (TokenBucket_New 10 6 0)) \<le> 17"
  using token_bucket_rate [of 10 6 0 "[]" "[(5, 10), (7, 20), (3, 70000000000)]"]
  by (simp add: Let_def requests_ok_def TokenBucket_New_def)

text \<open>A negative request is granted and lifts the count above the capacity.\<close>

lemma negative_request_overfills:
  "tb_current (snd (Allow (- 5) 0 (TokenBucket_New 10 6 0))) = 15"
  by (simp add: Allow_def refill_def TokenBucket_New_def Let_def)

section \<open>Notification bucket\<close>

record notify_bucket =
  nb_tokens :: int
  nb_capacity :: int
  nb_lastFill :: time

definition newTokenBucket :: "int \<Rightarrow> time \<Rightarrow> notify_bucket" where
  "newTokenBucket burstPerMinute now =
     (let burst = (if burstPerMinute < 1 then 1 else burstPerMinute)
      in \<lparr>nb_tokens = burst, nb_capacity = burst, nb_lastFill = now\<rparr>)"

definition take_token :: "time \<Rightarrow> notify_bucket \<Rightarrow> bool \<times> notify_bucket" where
  "take_token now b0 =
     (let b = (if now - nb_lastFill b0 \<ge> minute then b0\<lparr>nb_tokens := nb_capacity b0, nb_lastFill := now\<rparr> else b0)
      in if nb_tokens b \<le> 0 then (False, b) else (True, b\<lparr>nb_tokens := nb_tokens b - 1\<rparr>))"

fun taken :: "time list \<Rightarrow> notify_bucket \<Rightarrow> int" where
  "taken [] b = 0"
| "taken (t # ts) b = (let (ok, b1) = take_token t b in (if ok then 1 else 0) + taken ts b1)"

definition notify_ok :: "notify_bucket \<Rightarrow> bool" where
  "notify_ok b \<longleftrightarrow> 0 \<le> nb_tokens b \<and> nb_tokens b \<le> nb_capacity b"

lemma take_ok: "notify_ok b \<Longrightarrow> notify_ok (snd (take_token t b)) \<and> nb_capacity (snd (take_token t b)) = nb_capacity b"
  by (auto simp: notify_ok_def take_token_def Let_def)

text \<open>No call refills: the tokens left bound what is taken.\<close>

lemma taken_no_refill:
  "notify_ok b \<Longrightarrow> list_all (\<lambda>t. t - nb_lastFill b < minute) ts \<Longrightarrow> taken ts b \<le> nb_tokens b"
proof (induction ts arbitrary: b)
  case Nil
  then show ?case by (simp add: notify_ok_def)
next
  case (Cons t ts)
  then have "take_token t b = (if nb_tokens b \<le> 0 then (False, b) else (True, b\<lparr>nb_tokens := nb_tokens b - 1\<rparr>))"
    by (simp add: take_token_def)
  then show ?case
    using Cons.prems Cons.IH [of b] Cons.IH [of "b\<lparr>nb_tokens := nb_tokens b - 1\<rparr>"] by (auto simp: notify_ok_def)
qed

lemma taken_minute:
  assumes "notify_ok b" "sorted ts" "list_all (\<lambda>t. t - hd ts < minute) ts"
  shows "taken ts b \<le> nb_tokens b + nb_capacity b"
  using assms
proof (induction ts arbitrary: b)
  case Nil
  then show ?case by (simp add: notify_ok_def)
next
  case (Cons t ts)
  have later: "list_all (\<lambda>u. u - t < minute) ts" using Cons.prems(3) by simp
  let ?b1 = "snd (take_token t b)"
  have ok1: "notify_ok ?b1" "nb_capacity ?b1 = nb_capacity b" using take_ok [OF Cons.prems(1)] by simp_all
  have sum: "taken (t # ts) b = (if fst (take_token t b) then 1 else 0) + taken ts ?b1"
    by (simp add: Let_def split: prod.splits)
  show ?case
  proof (cases "t - nb_lastFill b \<ge> minute")
    case True
    then have one: "(if fst (take_token t b) then 1 else 0) + nb_tokens ?b1 = nb_capacity b" "nb_lastFill ?b1 = t"
      using Cons.prems(1) by (auto simp: take_token_def Let_def notify_ok_def)
    have "taken ts ?b1 \<le> nb_tokens ?b1"
      using later by (intro taken_no_refill ok1) (simp add: one(2))
    then show ?thesis using sum one(1) Cons.prems(1) by (simp add: notify_ok_def)
  next
    case False
    then have one: "(if fst (take_token t b) then 1 else 0) + nb_tokens ?b1 = nb_tokens b"
      using Cons.prems(1) by (auto simp: take_token_def Let_def notify_ok_def)
    have "list_all (\<lambda>u. u - hd ts < minute) ts"
    proof (cases ts)
      case (Cons u us)
      then have "t \<le> hd ts" using \<open>sorted (t # ts)\<close> by simp
      then show ?thesis using later by (force simp: list_all_iff)
    qed simp
    then have "taken ts ?b1 \<le> nb_tokens ?b1 + nb_capacity b"
      using Cons.IH [OF ok1(1)] Cons.prems(2) ok1(2) by simp
    then show ?thesis using sum one by simp
  qed
qed

end
