(* ===== verification/Nexus_Ports.thy ===== *)
theory Nexus_Ports
  imports Neo_Prelude "HOL-Library.AList" "HOL-Library.Signed_Division"
begin

text \<open>
  The port allocator of \<^verbatim>\<open>pkg/nexus/port_allocator.go\<close>. The map of allocations is an association
  list in the order of one iteration; the first four bytes of the SHA-256 of a path, which ports
  the system has free during a call, and how saving the file ends are arguments.
\<close>

section \<open>State\<close>

record PortAllocation =
  al_WorkspaceID :: string
  al_WorkspacePath :: string
  al_Port :: int

text \<open>The file holds a decodable list of allocations or nothing that loads.\<close>

record PortAllocator =
  po_basePort :: int
  po_portRange :: int
  po_allocations :: "(string \<times> PortAllocation) list"
  po_file :: "PortAllocation list option"

definition defaultBasePort :: int where "defaultBasePort = 9100"
definition defaultPortRange :: int where "defaultPortRange = 200"

definition port_load :: "PortAllocator \<Rightarrow> PortAllocator" where
  "port_load pa =
     (case po_file pa of
        None \<Rightarrow> pa
      | Some allocs \<Rightarrow>
          pa\<lparr>po_allocations := fold (\<lambda>a m. AList.update (al_WorkspacePath a) a m) allocs (po_allocations pa)\<rparr>)"

definition NewPortAllocator :: "int \<Rightarrow> int \<Rightarrow> PortAllocation list option \<Rightarrow> PortAllocator" where
  "NewPortAllocator basePort portRange disk =
     port_load \<lparr>po_basePort = (if basePort = 0 then defaultBasePort else basePort),
       po_portRange = (if portRange = 0 then defaultPortRange else portRange), po_allocations = [], po_file = disk\<rparr>"

text \<open>A save replaces the file, leaves it as it was, or leaves it torn.\<close>

datatype save_outcome = Saved | SaveSkipped | SaveTorn

definition port_save :: "save_outcome \<Rightarrow> PortAllocator \<Rightarrow> PortAllocator" where
  "port_save io pa =
     (case io of
        Saved \<Rightarrow> pa\<lparr>po_file := Some (List.map snd (po_allocations pa))\<rparr>
      | SaveSkipped \<Rightarrow> pa
      | SaveTorn \<Rightarrow> pa\<lparr>po_file := None\<rparr>)"

section \<open>Operations\<close>

definition hashPort :: "(string \<Rightarrow> u32) \<Rightarrow> PortAllocator \<Rightarrow> string \<Rightarrow> int" where
  "hashPort sha pa path = po_basePort pa + uint (sha path) smod po_portRange pa"

function port_probe :: "(int \<Rightarrow> bool) \<Rightarrow> int \<Rightarrow> int \<Rightarrow> int \<Rightarrow> int \<Rightarrow> int option" where
  "port_probe taken base rng port attempts =
     (if taken port
      then (let next_port = (if port + 1 \<ge> base + rng then base else port + 1)
            in if attempts + 1 \<ge> rng then None else port_probe taken base rng next_port (attempts + 1))
      else Some port)"
  by pat_completeness auto
termination by (relation "measure (\<lambda>(taken, base, rng, port, attempts). nat (rng - attempts))") auto

definition Allocate ::
    "(string \<Rightarrow> u32) \<Rightarrow> (int \<Rightarrow> bool) \<Rightarrow> save_outcome \<Rightarrow> string \<Rightarrow> string \<Rightarrow> PortAllocator \<Rightarrow> (string + int) \<times> PortAllocator" where
  "Allocate sha isPortFree io workspaceID workspacePath pa =
     (case map_of (po_allocations pa) workspacePath of
        Some alloc \<Rightarrow> (Inr (al_Port alloc), pa)
      | None \<Rightarrow>
          (let usedPorts = List.map (al_Port \<circ> snd) (po_allocations pa)
           in case port_probe (\<lambda>p. p \<in> set usedPorts \<or> \<not> isPortFree p) (po_basePort pa) (po_portRange pa)
                     (hashPort sha pa workspacePath) 0 of
                None \<Rightarrow> (Inl (''no free ports in range '' @ dec_int (po_basePort pa) @ ''-'' @
                             dec_int (po_basePort pa + po_portRange pa)), pa)
              | Some port \<Rightarrow>
                  (Inr port,
                   port_save io (pa\<lparr>po_allocations := AList.update workspacePath
                     \<lparr>al_WorkspaceID = workspaceID, al_WorkspacePath = workspacePath, al_Port = port\<rparr> (po_allocations pa)\<rparr>))))"

definition Release :: "save_outcome \<Rightarrow> string \<Rightarrow> PortAllocator \<Rightarrow> PortAllocator" where
  "Release io workspacePath pa =
     port_save io (pa\<lparr>po_allocations := AList.delete workspacePath (po_allocations pa)\<rparr>)"

definition GetPort :: "string \<Rightarrow> PortAllocator \<Rightarrow> int" where
  "GetPort workspacePath pa =
     (case map_of (po_allocations pa) workspacePath of Some alloc \<Rightarrow> al_Port alloc | None \<Rightarrow> 0)"

definition All_allocations :: "PortAllocator \<Rightarrow> PortAllocation list" where
  "All_allocations pa = List.map snd (po_allocations pa)"

definition AllocateMockPort :: "(int \<Rightarrow> bool) \<Rightarrow> int \<Rightarrow> int \<Rightarrow> int" where
  "AllocateMockPort isPortFree base size_arg =
     (let sz = (if size_arg \<le> 0 then 100 else size_arg);
          b = (if base \<le> 0 then 34800 else base)
      in case find isPortFree (List.map (\<lambda>i. b + int i) [0..<nat sz]) of Some p \<Rightarrow> p | None \<Rightarrow> 0)"

section \<open>The probe\<close>

text \<open>The port \<open>i\<close> steps after \<open>port\<close>, wrapping at the end of the range.\<close>

definition port_at :: "int \<Rightarrow> int \<Rightarrow> int \<Rightarrow> nat \<Rightarrow> int" where
  "port_at base rng port i = base + (port - base + int i) mod rng"

lemma port_at_0: "base \<le> port \<Longrightarrow> port < base + rng \<Longrightarrow> port_at base rng port 0 = port"
  by (simp add: port_at_def mod_pos_pos_trivial)

lemma port_at_next:
  assumes "base \<le> port" "port < base + rng"
  shows "port_at base rng (if port + 1 \<ge> base + rng then base else port + 1) i = port_at base rng port (Suc i)"
proof (cases "port + 1 \<ge> base + rng")
  case True
  then have "port - base + int (Suc i) = int i + rng" using assms by simp
  then have "(port - base + int (Suc i)) mod rng = int i mod rng" by (simp only: mod_add_self2)
  then show ?thesis using True by (simp only: port_at_def if_True) simp
next
  case False
  then show ?thesis by (simp add: port_at_def algebra_simps)
qed

declare port_probe.simps [simp del]

text \<open>The probe finds the first port, in that order, that is not taken; it fails when all are.\<close>

lemma port_probe_spec:
  assumes "base \<le> port" "port < base + rng" "0 \<le> attempts" "attempts < rng"
  shows "port_probe taken base rng port attempts =
    find (\<lambda>p. \<not> taken p) (List.map (port_at base rng port) [0..<nat (rng - attempts)])"
  using assms
proof (induction taken base rng port attempts rule: port_probe.induct)
  case (1 taken base rng port attempts)
  let ?next = "if port + 1 \<ge> base + rng then base else port + 1"
  have n: "nat (rng - attempts) = Suc (nat (rng - (attempts + 1)))" using 1 by simp
  have nx: "port_at base rng ?next i = port_at base rng port (Suc i)" for i
    using 1 by (intro port_at_next)
  have upt: "List.map (port_at base rng port) [0..<Suc m] = port # List.map (port_at base rng ?next) [0..<m]" for m
  proof -
    have "[0..<Suc m] = 0 # List.map Suc [0..<m]" by (simp add: map_Suc_upt upt_conv_Cons del: upt_Suc)
    then show ?thesis unfolding nx using 1 by (simp add: port_at_0 comp_def del: upt_Suc)
  qed
  show ?case
  proof (cases "taken port \<and> attempts + 1 < rng")
    case True
    then have "port_probe taken base rng port attempts = port_probe taken base rng ?next (attempts + 1)"
      by (subst port_probe.simps) (simp add: Let_def)
    moreover have "port_probe taken base rng ?next (attempts + 1) =
        find (\<lambda>p. \<not> taken p) (List.map (port_at base rng ?next) [0..<nat (rng - (attempts + 1))])"
      using True 1 by (intro 1(1)) auto
    ultimately show ?thesis unfolding n upt using True by simp
  next
    case False
    then have "nat (rng - (attempts + 1)) = 0 \<or> \<not> taken port" using 1 by auto
    then show ?thesis unfolding n upt using False by (subst port_probe.simps) (auto simp: Let_def)
  qed
qed

lemma port_at_range: "0 < rng \<Longrightarrow> base \<le> port_at base rng port i \<and> port_at base rng port i < base + rng"
  by (simp add: port_at_def)

text \<open>The order visits every port of the range.\<close>

lemma port_at_covers:
  assumes "0 < rng" "base \<le> p" "p < base + rng"
  shows "p \<in> port_at base rng port ` {0..<nat rng}"
proof (rule image_eqI)
  let ?i = "nat ((p - port) mod rng)"
  have "(port - base + (p - port) mod rng) mod rng = (port - base + (p - port)) mod rng" by (rule mod_add_right_eq)
  also have "port - base + (p - port) = p - base" by simp
  finally have "(port - base + (p - port) mod rng) mod rng = (p - base) mod rng" .
  then show "p = port_at base rng port ?i" using assms by (simp add: port_at_def mod_pos_pos_trivial)
  show "?i \<in> {0..<nat rng}" using assms by (simp add: nat_less_iff)
qed

section \<open>Invariant\<close>

definition allocs_ok :: "int \<Rightarrow> int \<Rightarrow> PortAllocation list \<Rightarrow> bool" where
  "allocs_ok base rng as \<longleftrightarrow>
     distinct (List.map al_WorkspacePath as) \<and> distinct (List.map al_Port as) \<and>
     list_all (\<lambda>a. base \<le> al_Port a \<and> al_Port a < base + rng) as"

definition ports_ok :: "PortAllocator \<Rightarrow> bool" where
  "ports_ok pa \<longleftrightarrow>
     po_basePort pa \<noteq> 0 \<and> 0 < po_portRange pa \<and>
     List.map fst (po_allocations pa) = List.map al_WorkspacePath (All_allocations pa) \<and>
     allocs_ok (po_basePort pa) (po_portRange pa) (All_allocations pa) \<and>
     (case po_file pa of None \<Rightarrow> True | Some as \<Rightarrow> allocs_ok (po_basePort pa) (po_portRange pa) as)"

lemma update_new: "map_of xs k = None \<Longrightarrow> AList.update k v xs = xs @ [(k, v)]"
  by (induction xs) (auto split: if_splits)

lemma map_of_keyed:
  "List.map fst xs = List.map al_WorkspacePath (List.map snd xs) \<Longrightarrow> map_of xs k = Some a \<Longrightarrow>
   a \<in> set (List.map snd xs) \<and> al_WorkspacePath a = k"
  by (induction xs) (auto split: if_splits)

lemma map_of_fresh:
  "List.map fst xs = List.map al_WorkspacePath (List.map snd xs) \<Longrightarrow>
   map_of xs k = None \<longleftrightarrow> k \<notin> al_WorkspacePath ` set (List.map snd xs)"
  by (metis list.set_map map_of_eq_None_iff)

lemma load_distinct:
  assumes "distinct (List.map al_WorkspacePath as)" "set (List.map al_WorkspacePath as) \<inter> fst ` set xs = {}"
  shows "fold (\<lambda>a m. AList.update (al_WorkspacePath a) a m) as xs = xs @ List.map (\<lambda>a. (al_WorkspacePath a, a)) as"
  using assms
proof (induction as arbitrary: xs)
  case (Cons a as)
  then have "map_of xs (al_WorkspacePath a) = None" by (simp add: map_of_eq_None_iff)
  then show ?case using Cons by (auto simp: update_new)
qed simp

lemma save_ok: "ports_ok pa \<Longrightarrow> ports_ok (port_save io pa)"
  by (cases io) (auto simp: ports_ok_def port_save_def All_allocations_def)

lemma save_allocations [simp]:
  "po_allocations (port_save io pa) = po_allocations pa" "po_basePort (port_save io pa) = po_basePort pa"
  "po_portRange (port_save io pa) = po_portRange pa"
  by (simp_all add: port_save_def split: save_outcome.splits)

lemma new_ok:
  assumes "0 \<le> rng" "case disk of None \<Rightarrow> True
    | Some as \<Rightarrow> allocs_ok (if base = 0 then defaultBasePort else base) (if rng = 0 then defaultPortRange else rng) as"
  shows "ports_ok (NewPortAllocator base rng disk)"
  using assms
  by (auto simp: ports_ok_def NewPortAllocator_def port_load_def All_allocations_def load_distinct allocs_ok_def comp_def
      defaultBasePort_def defaultPortRange_def split: option.splits)

lemma delete_sub: "set (AList.delete k xs) \<subseteq> set xs"
  by (auto simp: AList.delete_eq)

lemma release_ok:
  assumes "ports_ok pa"
  shows "ports_ok (Release io path pa)"
proof -
  have d: "List.map f (AList.delete path (po_allocations pa)) =
      List.map f (filter (\<lambda>x. path \<noteq> fst x) (po_allocations pa))" for f :: "string \<times> PortAllocation \<Rightarrow> 'a"
    by (simp add: AList.delete_eq case_prod_unfold)
  have keyed: "al_WorkspacePath (snd x) = fst x" if "x \<in> set (po_allocations pa)" for x
    using assms that by (auto simp: ports_ok_def All_allocations_def)
  have "ports_ok (pa\<lparr>po_allocations := AList.delete path (po_allocations pa)\<rparr>)"
    using assms keyed
    by (cases "po_file pa") (auto simp: ports_ok_def All_allocations_def allocs_ok_def d comp_def distinct_map_filter list_all_iff AList.delete_eq
        case_prod_unfold)
  then show ?thesis unfolding Release_def by (rule save_ok)
qed

text \<open>What one call to \<^const>\<open>Allocate\<close> does, on any allocator in the invariant.\<close>

lemma allocate_cases:
  assumes "ports_ok pa"
  obtains (known) a where "map_of (po_allocations pa) path = Some a" "Allocate sha isfree io i path pa = (Inr (al_Port a), pa)"
  | (full) e where "map_of (po_allocations pa) path = None" "Allocate sha isfree io i path pa = (Inl e, pa)"
      "\<forall>p. po_basePort pa \<le> p \<and> p < po_basePort pa + po_portRange pa \<longrightarrow> p \<in> al_Port ` set (All_allocations pa) \<or> \<not> isfree p"
  | (fresh) p where "map_of (po_allocations pa) path = None" "po_basePort pa \<le> p" "p < po_basePort pa + po_portRange pa"
      "p \<notin> al_Port ` set (All_allocations pa)" "isfree p"
      "Allocate sha isfree io i path pa = (Inr p, port_save io (pa\<lparr>po_allocations := po_allocations pa @
         [(path, \<lparr>al_WorkspaceID = i, al_WorkspacePath = path, al_Port = p\<rparr>)]\<rparr>))"
proof (cases "map_of (po_allocations pa) path")
  case (Some a)
  then show ?thesis by (intro known) (simp_all add: Allocate_def)
next
  case None
  let ?base = "po_basePort pa" and ?rng = "po_portRange pa" and ?h = "hashPort sha pa path"
  have r: "0 < ?rng" using assms by (simp add: ports_ok_def)
  have h: "?base \<le> ?h" "?h < ?base + ?rng" using r by (simp_all add: hashPort_def signed_modulo_int_def)
  let ?taken = "\<lambda>p. p \<in> al_Port ` set (All_allocations pa) \<or> \<not> isfree p"
  have t: "(\<lambda>p. p \<in> set (List.map (al_Port \<circ> snd) (po_allocations pa)) \<or> \<not> isfree p) = ?taken"
    by (auto simp: All_allocations_def)
  have spec: "port_probe ?taken ?base ?rng ?h 0 = find (\<lambda>p. \<not> ?taken p) (List.map (port_at ?base ?rng ?h) [0..<nat ?rng])"
    using port_probe_spec [OF h, of 0 ?taken] r by simp
  show ?thesis
  proof (cases "port_probe ?taken ?base ?rng ?h 0")
    case fail: None
    show ?thesis
    proof (rule full [OF None])
      show "Allocate sha isfree io i path pa = (Inl (''no free ports in range '' @ dec_int ?base @ ''-'' @ dec_int (?base + ?rng)), pa)"
        unfolding Allocate_def Let_def t using None fail by simp
      show "\<forall>p. ?base \<le> p \<and> p < ?base + ?rng \<longrightarrow> ?taken p"
        using fail port_at_covers [OF r] unfolding spec find_None_iff by (metis list.set_map set_upt)
    qed
  next
    case (Some p)
    then have "p \<in> set (List.map (port_at ?base ?rng ?h) [0..<nat ?rng])" "\<not> ?taken p"
      unfolding spec find_Some_iff by (metis nth_mem)+
    then have p: "?base \<le> p" "p < ?base + ?rng" "p \<notin> al_Port ` set (All_allocations pa)" "isfree p"
      using port_at_range [OF r] by auto
    show ?thesis
    proof (rule fresh [OF None p])
      show "Allocate sha isfree io i path pa = (Inr p, port_save io (pa\<lparr>po_allocations := po_allocations pa @
         [(path, \<lparr>al_WorkspaceID = i, al_WorkspacePath = path, al_Port = p\<rparr>)]\<rparr>))"
        unfolding Allocate_def Let_def t using None Some by (simp add: update_new)
    qed
  qed
qed

lemma allocate_ok:
  assumes ok: "ports_ok pa"
  shows "ports_ok (snd (Allocate sha isfree io i path pa))"
proof (cases rule: allocate_cases [OF ok, of path sha isfree io i, case_names known full fresh])
  case (fresh p)
  have "path \<notin> al_WorkspacePath ` set (All_allocations pa)"
    using map_of_fresh [of "po_allocations pa" path] fresh(1) ok by (simp add: ports_ok_def All_allocations_def)
  then have "ports_ok (pa\<lparr>po_allocations := po_allocations pa @
         [(path, \<lparr>al_WorkspaceID = i, al_WorkspacePath = path, al_Port = p\<rparr>)]\<rparr>)"
    using ok fresh(2-4) by (cases "po_file pa") (auto simp: ports_ok_def All_allocations_def allocs_ok_def)
  then show ?thesis using fresh by (simp add: save_ok)
qed (simp_all add: ok)

section \<open>Histories\<close>

text \<open>A history of a server: allocations, releases and restarts from the file, each save ending as it may.\<close>

datatype port_op = OpAllocate string string "int \<Rightarrow> bool" save_outcome | OpRelease string save_outcome | OpRestart

fun port_step :: "(string \<Rightarrow> u32) \<Rightarrow> port_op \<Rightarrow> PortAllocator \<Rightarrow> PortAllocator" where
  "port_step sha (OpAllocate i path isfree io) pa = snd (Allocate sha isfree io i path pa)"
| "port_step sha (OpRelease path io) pa = Release io path pa"
| "port_step sha OpRestart pa = NewPortAllocator (po_basePort pa) (po_portRange pa) (po_file pa)"

lemma port_step_ok: "ports_ok pa \<Longrightarrow> ports_ok (port_step sha op pa)"
proof (cases op)
  case OpRestart
  assume "ports_ok pa"
  then show ?thesis unfolding OpRestart port_step.simps by (intro new_ok) (auto simp: ports_ok_def split: option.splits)
qed (simp_all add: allocate_ok release_ok)

lemma port_run_ok: "ports_ok pa \<Longrightarrow> ports_ok (fold (port_step sha) ops pa)"
  by (induction ops arbitrary: pa) (simp_all add: port_step_ok)

text \<open>
  C24: no two workspaces ever share a port: after any history of allocations, releases and
  restarts, with saves that succeed, fail or tear the file, all allocated ports are distinct and
  in the configured range; a further allocation returns the workspace's port if it has one, and
  otherwise fails exactly when every port of the range is allocated or taken on the machine, or
  else gives a port that is neither, which stays its port.
\<close>

theorem ports_exclusive:
  assumes "0 \<le> rng" "pa = fold (port_step sha) ops (NewPortAllocator base rng None)"
    "Allocate sha isfree io i path pa = (r, pa')" "used = al_Port ` set (All_allocations pa)"
  shows "distinct (List.map al_Port (All_allocations pa')) \<and>
    list_all (\<lambda>a. po_basePort pa \<le> al_Port a \<and> al_Port a < po_basePort pa + po_portRange pa) (All_allocations pa') \<and>
    (if path \<in> fst ` set (po_allocations pa) then r = Inr (GetPort path pa) \<and> pa' = pa
     else if \<exists>p. po_basePort pa \<le> p \<and> p < po_basePort pa + po_portRange pa \<and> p \<notin> used \<and> isfree p
     then \<not> isl r \<and> isfree (projr r) \<and> projr r \<notin> used \<and> GetPort path pa' = projr r
     else isl r \<and> pa' = pa)"
proof -
  have ok: "ports_ok pa" unfolding assms(2) by (intro port_run_ok new_ok) (simp_all add: assms(1))
  then have "ports_ok pa'" using allocate_ok [of pa sha isfree io i path] assms(3) by simp
  moreover have "po_basePort pa' = po_basePort pa \<and> po_portRange pa' = po_portRange pa"
    by (rule allocate_cases [OF ok, of path sha isfree io i]) (use assms(3) in auto)
  moreover have "if path \<in> fst ` set (po_allocations pa) then r = Inr (GetPort path pa) \<and> pa' = pa
     else if \<exists>p. po_basePort pa \<le> p \<and> p < po_basePort pa + po_portRange pa \<and> p \<notin> used \<and> isfree p
     then \<not> isl r \<and> isfree (projr r) \<and> projr r \<notin> used \<and> GetPort path pa' = projr r
     else isl r \<and> pa' = pa"
  proof (cases rule: allocate_cases [OF ok, of path sha isfree io i, case_names known full fresh])
    case (known a)
    then show ?thesis using assms(3) by (force simp: GetPort_def dest: map_of_SomeD)
  next
    case (full e)
    then show ?thesis using assms(3,4) by (auto simp: map_of_eq_None_iff)
  next
    case (fresh p)
    then have "GetPort path pa' = p" using assms(3) by (simp add: GetPort_def map_add_def)
    then show ?thesis using assms(3,4) fresh by (auto simp: map_of_eq_None_iff)
  qed
  ultimately show ?thesis by (auto simp: ports_ok_def allocs_ok_def)
qed

theorem ports_exclusive_witness:
  "\<exists>r pa'. Allocate (\<lambda>_. 0) (\<lambda>p. p \<noteq> 9001) Saved ''b'' ''/b''
      (fold (port_step (\<lambda>_. 0)) [OpAllocate ''a'' ''/a'' (\<lambda>_. True) Saved, OpRestart] (NewPortAllocator 9000 3 None)) = (r, pa') \<and>
    distinct (List.map al_Port (All_allocations pa'))"
proof -
  obtain r pa' where "Allocate (\<lambda>_. 0) (\<lambda>p. p \<noteq> 9001) Saved ''b'' ''/b''
      (fold (port_step (\<lambda>_. 0)) [OpAllocate ''a'' ''/a'' (\<lambda>_. True) Saved, OpRestart] (NewPortAllocator 9000 3 None)) = (r, pa')"
    by fastforce
  then show ?thesis using ports_exclusive [OF _ refl _ refl] by (meson zero_le_numeral)
qed

text \<open>Nothing checks the ports of the file: a file with two workspaces on one port loads as it is.\<close>

lemma load_keeps_duplicates:
  "(let pa = NewPortAllocator 9000 3 (Some [\<lparr>al_WorkspaceID = ''a'', al_WorkspacePath = ''/a'', al_Port = 9000\<rparr>,
       \<lparr>al_WorkspaceID = ''b'', al_WorkspacePath = ''/b'', al_Port = 9000\<rparr>])
    in GetPort ''/a'' pa = 9000 \<and> GetPort ''/b'' pa = 9000)"
  by (simp add: NewPortAllocator_def port_load_def GetPort_def Let_def)

end
