(* ===== verification/Nexus_Debt.thy ===== *)
theory Nexus_Debt
  imports Neo_Prelude "HOL-Library.Product_Lexorder"
begin

text \<open>
  The debt registry of \<^verbatim>\<open>pkg/nexus/debt.go\<close>. The file is what \<open>reload\<close> finds in it: nothing, no
  embedded block, a block that does not parse, or the events; JSON gives back the events it was
  given. Clock readings, formatted dates, the hash of a key, the random part of an identifier and
  the outcomes of system calls are arguments. A zero time is 0.
\<close>

section \<open>Events\<close>

record NexusDebtEvent =
  de_ID :: string
  de_Priority :: string
  de_Title :: string
  de_AffectedWorkspaces :: "string list"
  de_Source :: string
  de_DetectedAt :: time
  de_LastSeenAt :: time
  de_OccurrenceCount :: int
  de_Recommended :: string
  de_Resolution :: string
  de_ResolvedAt :: time
  de_DedupKey :: string

record DebtFilter =
  df_Priority :: string
  df_SinceUnix :: int
  df_AffectedWS :: string
  df_IncludeResolved :: bool

record DebtConfig =
  dc_Enabled :: bool
  dc_File :: string
  dc_MaxResolvedDays :: int
  dc_DedupWindowMinutes :: int
  dc_BoltDBMirror :: bool

datatype debt_disk = Absent | Unreadable string | NoBlock | BadJson string | Block "NexusDebtEvent list"

datatype debt_error = ErrDebtNotFound | ErrDebtAlreadyResolved | ErrDebtLockBusy | DebtErr string

record DebtRegistry =
  nr_cfg :: DebtConfig
  nr_events :: "NexusDebtEvent list"
  nr_disk :: debt_disk

section \<open>File\<close>

definition debt_reload :: "DebtRegistry \<Rightarrow> debt_error option \<times> DebtRegistry" where
  "debt_reload r =
     (case nr_disk r of
        Absent \<Rightarrow> (None, r\<lparr>nr_events := []\<rparr>)
      | Unreadable e \<Rightarrow> (Some (DebtErr (''debt: read: '' @ e)), r)
      | NoBlock \<Rightarrow> (None, r\<lparr>nr_events := []\<rparr>)
      | BadJson e \<Rightarrow> (Some (DebtErr (''debt: parse embedded json: '' @ e)), r)
      | Block evs \<Rightarrow> (None, r\<lparr>nr_events := evs\<rparr>))"

text \<open>The home directory is an argument, \<^const>\<open>None\<close> when it is not known; \<open>join\<close> joins paths.\<close>

definition expandDebtPath :: "(string \<Rightarrow> string \<Rightarrow> string) \<Rightarrow> string option \<Rightarrow> string \<Rightarrow> string" where
  "expandDebtPath join home p =
     (if p = '''' then ''''
      else if has_prefix p ''~/'' then (case home of Some h \<Rightarrow> join h (drop 2 p) | None \<Rightarrow> p)
      else p)"

definition OpenDebtRegistry ::
    "(string \<Rightarrow> string \<Rightarrow> string) \<Rightarrow> string option \<Rightarrow> string option \<Rightarrow> DebtConfig \<Rightarrow> debt_disk \<Rightarrow> debt_error + DebtRegistry" where
  "OpenDebtRegistry join home mkdir cfg disk =
     (let path = expandDebtPath join home (dc_File cfg)
      in if path = '''' then Inl (DebtErr ''debt: empty file path'')
         else case mkdir of
           Some e \<Rightarrow> Inl (DebtErr (''debt: mkdir: '' @ e))
         | None \<Rightarrow>
             (case debt_reload \<lparr>nr_cfg = cfg, nr_events = [], nr_disk = disk\<rparr> of
                (Some e, _) \<Rightarrow> Inl e
              | (None, r) \<Rightarrow> Inr r))"

definition day :: int where "day = 24 * 3600 * 1000000000"
definition debt_minute :: int where "debt_minute = 60 * 1000000000"

definition archived :: "DebtConfig \<Rightarrow> time \<Rightarrow> NexusDebtEvent \<Rightarrow> bool" where
  "archived cfg now e = (de_ResolvedAt e \<noteq> 0 \<and> de_ResolvedAt e < now - dc_MaxResolvedDays cfg * day)"

text \<open>
  \<open>archiveOldResolved\<close> compacts the slice in place: the events kept, and the array that held
  them, whose tail still has the old elements.
\<close>

definition archiveOldResolved :: "time \<Rightarrow> DebtRegistry \<Rightarrow> NexusDebtEvent list \<times> DebtRegistry" where
  "archiveOldResolved now r =
     (if dc_MaxResolvedDays (nr_cfg r) \<le> 0 then (nr_events r, r)
      else (let kept = filter (\<lambda>e. \<not> archived (nr_cfg r) now e) (nr_events r)
            in (kept @ drop (length kept) (nr_events r), r\<lparr>nr_events := kept\<rparr>)))"

text \<open>\<open>persist\<close>: the error if any, the array behind the events, and the registry.\<close>

definition debt_persist :: "time \<Rightarrow> debt_error option \<Rightarrow> DebtRegistry \<Rightarrow> debt_error option \<times> NexusDebtEvent list \<times> DebtRegistry" where
  "debt_persist now io r0 =
     (let (arr, r) = archiveOldResolved now r0
      in case io of
           Some e \<Rightarrow> (Some e, arr, r)
         | None \<Rightarrow> (None, arr, r\<lparr>nr_disk := Block (nr_events r)\<rparr>))"

section \<open>Operations\<close>

definition computeDedupKey :: "(string \<Rightarrow> string) \<Rightarrow> string \<Rightarrow> string list \<Rightarrow> string" where
  "computeDedupKey sha title affected =
     take 16 (sha (title @ [CHR 0x00] @ concat (List.map (\<lambda>w. w @ [CHR 0x00]) (sort affected))))"

definition newDebtID :: "(time \<Rightarrow> string) \<Rightarrow> nat \<Rightarrow> time \<Rightarrow> string" where
  "newDebtID date rnd t = date t @ ''-'' @ hex_pad 4 rnd"

definition dedup_match :: "DebtConfig \<Rightarrow> string \<Rightarrow> time \<Rightarrow> NexusDebtEvent \<Rightarrow> bool" where
  "dedup_match cfg key now e =
     (de_ResolvedAt e = 0 \<and> de_DedupKey e = key \<and> now - de_LastSeenAt e \<le> dc_DedupWindowMinutes cfg * debt_minute)"

fun find_index :: "('a \<Rightarrow> bool) \<Rightarrow> 'a list \<Rightarrow> nat option" where
  "find_index P [] = None"
| "find_index P (x # xs) = (if P x then Some 0 else map_option Suc (find_index P xs))"

definition findDedupMatch :: "string \<Rightarrow> time \<Rightarrow> DebtRegistry \<Rightarrow> nat option" where
  "findDedupMatch key now r =
     (if dc_DedupWindowMinutes (nr_cfg r) \<le> 0 \<or> key = '''' then None
      else find_index (dedup_match (nr_cfg r) key now) (nr_events r))"

text \<open>What the calls of an operation meet: the lock, two clock readings, the random number, the write.\<close>

record debt_env =
  en_lock :: "debt_error option"
  en_now :: time
  en_later :: time
  en_rnd :: nat
  en_io :: "debt_error option"

definition prepare :: "(string \<Rightarrow> string) \<Rightarrow> time \<Rightarrow> NexusDebtEvent \<Rightarrow> NexusDebtEvent" where
  "prepare sha now ev0 =
     ev0\<lparr>de_DetectedAt := (if de_DetectedAt ev0 = 0 then now else de_DetectedAt ev0),
         de_LastSeenAt := now,
         de_Priority := (if de_Priority ev0 = '''' then ''P2'' else de_Priority ev0),
         de_DedupKey := computeDedupKey sha (de_Title ev0) (de_AffectedWorkspaces ev0)\<rparr>"

definition bump :: "time \<Rightarrow> NexusDebtEvent \<Rightarrow> NexusDebtEvent \<Rightarrow> NexusDebtEvent" where
  "bump now ev e =
     e\<lparr>de_OccurrenceCount := de_OccurrenceCount e + 1,
       de_LastSeenAt := now,
       de_Recommended := (if de_Recommended ev \<noteq> '''' \<and> de_Recommended e = '''' then de_Recommended ev else de_Recommended e)\<rparr>"

definition AppendDebt ::
    "(string \<Rightarrow> string) \<Rightarrow> (time \<Rightarrow> string) \<Rightarrow> debt_env \<Rightarrow> NexusDebtEvent \<Rightarrow> DebtRegistry \<Rightarrow>
     (debt_error + NexusDebtEvent) \<times> DebtRegistry" where
  "AppendDebt sha date en ev0 r0 =
     (case en_lock en of
        Some e \<Rightarrow> (Inl e, r0)
      | None \<Rightarrow>
          (case debt_reload r0 of
             (Some e, r1) \<Rightarrow> (Inl e, r1)
           | (None, r1) \<Rightarrow>
               (let now = en_now en; ev = prepare sha now ev0
                in case findDedupMatch (de_DedupKey ev) now r1 of
                     Some i \<Rightarrow>
                       (let r2 = r1\<lparr>nr_events := (nr_events r1)[i := bump now ev (nr_events r1 ! i)]\<rparr>;
                            (err, arr, r3) = debt_persist (en_later en) (en_io en) r2
                        in (case err of Some e \<Rightarrow> Inl e | None \<Rightarrow> Inr (arr ! i), r3))
                   | None \<Rightarrow>
                       (let ev2 = ev\<lparr>de_ID := (if de_ID ev = '''' then newDebtID date (en_rnd en) now else de_ID ev),
                              de_OccurrenceCount := (if de_OccurrenceCount ev = 0 then 1 else de_OccurrenceCount ev)\<rparr>;
                            r2 = r1\<lparr>nr_events := nr_events r1 @ [ev2]\<rparr>;
                            (err, arr, r3) = debt_persist (en_later en) (en_io en) r2
                        in (case err of Some e \<Rightarrow> Inl e | None \<Rightarrow> Inr ev2, r3)))))"

definition ResolveDebt :: "debt_env \<Rightarrow> string \<Rightarrow> string \<Rightarrow> DebtRegistry \<Rightarrow> debt_error option \<times> DebtRegistry" where
  "ResolveDebt en id_arg resolution r0 =
     (case en_lock en of
        Some e \<Rightarrow> (Some e, r0)
      | None \<Rightarrow>
          (case debt_reload r0 of
             (Some e, r1) \<Rightarrow> (Some e, r1)
           | (None, r1) \<Rightarrow>
               (case find_index (\<lambda>e. de_ID e = id_arg) (nr_events r1) of
                  None \<Rightarrow> (Some ErrDebtNotFound, r1)
                | Some i \<Rightarrow>
                    (let e = nr_events r1 ! i
                     in if de_ResolvedAt e \<noteq> 0 then (Some ErrDebtAlreadyResolved, r1)
                        else (let r2 = r1\<lparr>nr_events := (nr_events r1)[i := e\<lparr>de_ResolvedAt := en_now en, de_Resolution := resolution\<rparr>]\<rparr>;
                                  (err, arr, r3) = debt_persist (en_later en) (en_io en) r2
                              in (err, r3))))))"

definition debt_selected :: "DebtFilter \<Rightarrow> NexusDebtEvent \<Rightarrow> bool" where
  "debt_selected f e =
     (\<not> (\<not> df_IncludeResolved f \<and> de_ResolvedAt e \<noteq> 0) \<and>
      \<not> (df_Priority f \<noteq> '''' \<and> de_Priority e \<noteq> df_Priority f) \<and>
      \<not> (df_SinceUnix f > 0 \<and> de_LastSeenAt e div 1000000000 < df_SinceUnix f) \<and>
      \<not> (df_AffectedWS f \<noteq> '''' \<and> df_AffectedWS f \<notin> set (de_AffectedWorkspaces e)))"

text \<open>The stable sort by priority, then newest first.\<close>

definition ListOpen :: "DebtFilter \<Rightarrow> DebtRegistry \<Rightarrow> NexusDebtEvent list" where
  "ListOpen f r = sort_key (\<lambda>e. (de_Priority e, - de_DetectedAt e)) (filter (debt_selected f) (nr_events r))"

definition Affecting :: "string \<Rightarrow> DebtRegistry \<Rightarrow> NexusDebtEvent list" where
  "Affecting wsID r = ListOpen \<lparr>df_Priority = '''', df_SinceUnix = 0, df_AffectedWS = wsID, df_IncludeResolved = False\<rparr> r"

section \<open>The tables of the file\<close>

definition nl :: string where "nl = [CHR 0x0A]"

definition debtFileHeader :: string where
  "debtFileHeader = ''# Nexus-Level Debt '' @ [CHR 0xE2, CHR 0x80, CHR 0x94] @ '' Auto-Generated'' @ nl @ nl @
     ''> Events detected by Nexus dispatcher. Read-only from workspace tools.'' @ nl @
     ''> Resolve via `neo_debt(scope: \"nexus\", action: \"resolve\", id: \"...\")`.'' @ nl @ nl"

definition renderBucket :: "(time \<Rightarrow> string) \<Rightarrow> string \<Rightarrow> NexusDebtEvent list \<Rightarrow> string" where
  "renderBucket fmt title evs =
     ''## '' @ title @ nl @ nl @
     (if evs = [] then ''_none_'' @ nl @ nl
      else ''| ID | Title | Affected | Detected | Count |'' @ nl @ ''|----|-------|----------|----------|-------|'' @ nl @
        concat (List.map (\<lambda>e. ''| '' @ de_ID e @ '' | '' @ de_Title e @ '' | '' @ str_join '','' (de_AffectedWorkspaces e) @ '' | '' @
          fmt (de_DetectedAt e) @ '' | '' @ dec_int (de_OccurrenceCount e) @ '' |'' @ nl) evs) @ nl)"

definition renderResolved :: "(time \<Rightarrow> string) \<Rightarrow> NexusDebtEvent list \<Rightarrow> string" where
  "renderResolved fmt evs =
     ''## Resolved (last 30 days)'' @ nl @ nl @
     (if evs = [] then ''_none_'' @ nl
      else ''| ID | Title | Resolution | Resolved |'' @ nl @ ''|----|-------|-----------|----------|'' @ nl @
        concat (List.map (\<lambda>e. ''| '' @ de_ID e @ '' | '' @ de_Title e @ '' | '' @ de_Resolution e @ '' | '' @ fmt (de_ResolvedAt e) @ '' |'' @ nl) evs))"

definition bucket_of :: "NexusDebtEvent \<Rightarrow> string" where
  "bucket_of e = (if de_Priority e \<in> {''P0'', ''P1'', ''P2'', ''P3''} then de_Priority e else ''P2'')"

definition debt_bucket :: "string \<Rightarrow> NexusDebtEvent list \<Rightarrow> NexusDebtEvent list" where
  "debt_bucket p events = filter (\<lambda>e. de_ResolvedAt e = 0 \<and> bucket_of e = p) events"

definition dash :: string where "dash = [CHR 0xE2, CHR 0x80, CHR 0x94]"

definition renderTables :: "(time \<Rightarrow> string) \<Rightarrow> NexusDebtEvent list \<Rightarrow> string" where
  "renderTables fmt events =
     renderBucket fmt (''Open P0 '' @ dash @ '' Blocker (prevents workspace boot)'') (debt_bucket ''P0'' events) @
     renderBucket fmt (''Open P1 '' @ dash @ '' High (workspace degraded)'') (debt_bucket ''P1'' events) @
     renderBucket fmt (''Open P2 '' @ dash @ '' Medium'') (debt_bucket ''P2'' events) @
     renderBucket fmt (''Open P3 '' @ dash @ '' Low'') (debt_bucket ''P3'' events) @
     renderResolved fmt (filter (\<lambda>e. de_ResolvedAt e \<noteq> 0) events)"

text \<open>The tables lose nothing: each event is in exactly one of them.\<close>

lemma buckets_partition:
  "mset (debt_bucket ''P0'' es @ debt_bucket ''P1'' es @ debt_bucket ''P2'' es @ debt_bucket ''P3'' es @
     filter (\<lambda>e. de_ResolvedAt e \<noteq> 0) es) = mset es"
  by (induction es) (auto simp: debt_bucket_def bucket_of_def)

section \<open>Lemmas\<close>

lemma find_index_Some: "find_index P xs = Some i \<Longrightarrow> i < length xs \<and> P (xs ! i) \<and> (\<forall>j<i. \<not> P (xs ! j))"
proof (induction xs arbitrary: i)
  case (Cons x xs)
  show ?case
  proof (cases "P x")
    case False
    then obtain k where "find_index P xs = Some k" "i = Suc k" using Cons.prems by auto
    then show ?thesis using Cons.IH [of k] False by (auto simp: less_Suc_eq_0_disj)
  qed (use Cons.prems in auto)
qed simp

lemma find_index_None: "find_index P xs = None \<longleftrightarrow> (\<forall>x\<in>set xs. \<not> P x)"
  by (induction xs) auto

text \<open>The key does not depend on the order of the workspaces.\<close>

lemma dedup_key_perm: "mset ws = mset vs \<Longrightarrow> computeDedupKey sha title ws = computeDedupKey sha title vs"
  unfolding computeDedupKey_def by (metis sorted_list_of_multiset_mset)

lemma nothing_archived: "de_ResolvedAt e = 0 \<Longrightarrow> \<not> archived cfg now e"
  by (simp add: archived_def)

lemma persist_cfg: "debt_persist now io r = (err, arr, r') \<Longrightarrow> nr_cfg r' = nr_cfg r \<and> (io \<noteq> None \<longrightarrow> nr_disk r' = nr_disk r \<and> err = io)"
  by (auto simp: debt_persist_def archiveOldResolved_def Let_def split: option.splits if_splits)

text \<open>Whatever happens, an operation that fails leaves the file as it was.\<close>

lemma reload_disk: "debt_reload r = (err, r1) \<Longrightarrow> nr_disk r1 = nr_disk r \<and> nr_cfg r1 = nr_cfg r"
  by (auto simp: debt_reload_def split: debt_disk.splits)

lemma append_error_disk:
  assumes "AppendDebt sha date en ev r = (Inl e, r')"
  shows "nr_disk r' = nr_disk r \<and> nr_cfg r' = nr_cfg r"
proof (cases "en_lock en")
  case None
  obtain err r1 where r1: "debt_reload r = (err, r1)" by fastforce
  show ?thesis
  proof (cases err)
    case None
    note d = reload_disk [OF r1]
    show ?thesis
      using assms \<open>en_lock en = None\<close> r1 None d
      by (auto simp: AppendDebt_def Let_def debt_persist_def archiveOldResolved_def split: option.splits if_splits prod.splits)
  qed (use assms None r1 reload_disk [OF r1] in \<open>auto simp: AppendDebt_def\<close>)
qed (use assms in \<open>auto simp: AppendDebt_def\<close>)

section \<open>Series of reports\<close>

definition succeeds :: "debt_env \<Rightarrow> bool" where
  "succeeds en = (en_lock en = None \<and> en_io en = None)"

fun report_all :: "(string \<Rightarrow> string) \<Rightarrow> (time \<Rightarrow> string) \<Rightarrow> (debt_env \<times> NexusDebtEvent) list \<Rightarrow> DebtRegistry \<Rightarrow> DebtRegistry" where
  "report_all sha date [] r = r"
| "report_all sha date ((en, ev) # reqs) r = report_all sha date reqs (snd (AppendDebt sha date en ev r))"

text \<open>Each successful report follows the one before within the window.\<close>

fun gaps_within :: "int \<Rightarrow> time list \<Rightarrow> bool" where
  "gaps_within w (s # t # ts) = (t - s \<le> w \<and> gaps_within w (t # ts))"
| "gaps_within w ts = True"

definition same_issue :: "string \<Rightarrow> string list \<Rightarrow> NexusDebtEvent \<Rightarrow> bool" where
  "same_issue title ws ev = (de_Title ev = title \<and> mset (de_AffectedWorkspaces ev) = mset ws \<and> de_ResolvedAt ev = 0 \<and> de_OccurrenceCount ev = 0)"

definition success_times :: "(debt_env \<times> NexusDebtEvent) list \<Rightarrow> time list" where
  "success_times reqs = List.map (en_now \<circ> fst) (filter (succeeds \<circ> fst) reqs)"

lemma failing_report:
  assumes "\<not> succeeds en"
  shows "nr_disk (snd (AppendDebt sha date en ev r)) = nr_disk r \<and> nr_cfg (snd (AppendDebt sha date en ev r)) = nr_cfg r"
proof (cases "AppendDebt sha date en ev r")
  case (Pair res r')
  have "isl res"
    using assms Pair
    by (auto simp: AppendDebt_def succeeds_def debt_persist_def archiveOldResolved_def Let_def
        split: option.splits prod.splits if_splits)
  then show ?thesis using append_error_disk [of sha date en ev r _ r'] Pair by (cases res) auto
qed

lemma prepare_fields:
  "de_DedupKey (prepare sha now ev) = computeDedupKey sha (de_Title ev) (de_AffectedWorkspaces ev)"
  "de_Title (prepare sha now ev) = de_Title ev" "de_AffectedWorkspaces (prepare sha now ev) = de_AffectedWorkspaces ev"
  "de_LastSeenAt (prepare sha now ev) = now" "de_ResolvedAt (prepare sha now ev) = de_ResolvedAt ev"
  "de_OccurrenceCount (prepare sha now ev) = de_OccurrenceCount ev" "de_ID (prepare sha now ev) = de_ID ev"
  "de_DetectedAt (prepare sha now ev) = (if de_DetectedAt ev = 0 then now else de_DetectedAt ev)"
  by (simp_all add: prepare_def Let_def)

lemma bump_fields:
  "de_DedupKey (bump now ev e) = de_DedupKey e" "de_Title (bump now ev e) = de_Title e"
  "de_AffectedWorkspaces (bump now ev e) = de_AffectedWorkspaces e" "de_LastSeenAt (bump now ev e) = now"
  "de_ResolvedAt (bump now ev e) = de_ResolvedAt e" "de_OccurrenceCount (bump now ev e) = de_OccurrenceCount e + 1"
  "de_ID (bump now ev e) = de_ID e" "de_DetectedAt (bump now ev e) = de_DetectedAt e"
  by (simp_all add: bump_def Let_def)

lemma first_report:
  assumes "succeeds en" "nr_disk r = Absent \<or> nr_disk r = NoBlock" "same_issue title ws ev"
  shows "\<exists>e r'. AppendDebt sha date en ev r = (Inr e, r') \<and> nr_disk r' = Block [e] \<and> nr_cfg r' = nr_cfg r \<and>
    de_DedupKey e = computeDedupKey sha title ws \<and> de_Title e = title \<and> de_ResolvedAt e = 0 \<and> de_OccurrenceCount e = 1 \<and>
    de_LastSeenAt e = en_now en \<and> de_DetectedAt e = (if de_DetectedAt ev = 0 then en_now en else de_DetectedAt ev)"
proof -
  have rl: "debt_reload r = (None, r\<lparr>nr_events := []\<rparr>)" using assms(2) by (auto simp: debt_reload_def)
  have k: "computeDedupKey sha (de_Title ev) (de_AffectedWorkspaces ev) = computeDedupKey sha title ws"
    using assms(3) by (auto simp: same_issue_def intro: dedup_key_perm)
  have nf: "findDedupMatch key now (r\<lparr>nr_events := []\<rparr>) = None" for key now by (simp add: findDedupMatch_def)
  define e0 where "e0 = prepare sha (en_now en) ev"
  define e2 where "e2 = e0\<lparr>de_ID := (if de_ID e0 = '''' then newDebtID date (en_rnd en) (en_now en) else de_ID e0), de_OccurrenceCount := 1\<rparr>"
  have z: "de_OccurrenceCount e0 = 0" "de_ResolvedAt e2 = 0" "de_ResolvedAt e0 = 0"
    using assms(3) by (simp_all add: e0_def e2_def prepare_fields same_issue_def)
  have "AppendDebt sha date en ev r = (Inr e2, r\<lparr>nr_events := [e2], nr_disk := Block [e2]\<rparr>)"
    using assms(1) z
    by (cases "de_ID e0 = ''''")
      (simp_all add: AppendDebt_def rl nf Let_def succeeds_def debt_persist_def archiveOldResolved_def archived_def e2_def flip: e0_def)
  moreover have "de_DedupKey e2 = computeDedupKey sha title ws" "de_Title e2 = title" "de_OccurrenceCount e2 = 1"
    "de_LastSeenAt e2 = en_now en" "de_DetectedAt e2 = (if de_DetectedAt ev = 0 then en_now en else de_DetectedAt ev)"
    using assms(3) k by (simp_all add: e2_def e0_def prepare_fields same_issue_def)
  ultimately show ?thesis using z by simp
qed

lemma repeat_report:
  assumes "succeeds en" "nr_disk r = Block [e]" "same_issue title ws ev" "0 < dc_DedupWindowMinutes (nr_cfg r)"
    "de_DedupKey e = computeDedupKey sha title ws" "de_DedupKey e \<noteq> ''''" "de_ResolvedAt e = 0"
    "en_now en - de_LastSeenAt e \<le> dc_DedupWindowMinutes (nr_cfg r) * debt_minute"
  shows "\<exists>e' r'. AppendDebt sha date en ev r = (Inr e', r') \<and> e' = bump (en_now en) (prepare sha (en_now en) ev) e \<and>
    nr_disk r' = Block [e'] \<and> nr_cfg r' = nr_cfg r"
proof -
  have rl: "debt_reload r = (None, r\<lparr>nr_events := [e]\<rparr>)" using assms(2) by (simp add: debt_reload_def)
  have k: "de_DedupKey (prepare sha (en_now en) ev) = de_DedupKey e"
    using assms(3,5) by (auto simp: same_issue_def prepare_fields intro: dedup_key_perm)
  have f: "findDedupMatch (de_DedupKey e) (en_now en) (r\<lparr>nr_events := [e]\<rparr>) = Some 0"
    using assms(4,6-8) by (simp add: findDedupMatch_def dedup_match_def)
  define e' where "e' = bump (en_now en) (prepare sha (en_now en) ev) e"
  have z: "archived cfg t e' = False" for cfg t using assms(7) by (simp add: e'_def nothing_archived bump_fields)
  have "AppendDebt sha date en ev r = (Inr e', r\<lparr>nr_events := [e'], nr_disk := Block [e']\<rparr>)"
    using assms(1) z
    by (simp add: AppendDebt_def rl k f Let_def succeeds_def debt_persist_def archiveOldResolved_def flip: e'_def)
  then show ?thesis by (simp flip: e'_def)
qed

lemma repeat_all:
  assumes "nr_disk r = Block [e]" "0 < dc_DedupWindowMinutes (nr_cfg r)" "de_DedupKey e = computeDedupKey sha title ws"
    "de_DedupKey e \<noteq> ''''" "de_ResolvedAt e = 0" "list_all (\<lambda>(en, ev). same_issue title ws ev) reqs"
    "gaps_within (dc_DedupWindowMinutes (nr_cfg r) * debt_minute) (de_LastSeenAt e # success_times reqs)"
  shows "\<exists>e'. nr_disk (report_all sha date reqs r) = Block [e'] \<and> de_ID e' = de_ID e \<and> de_Title e' = de_Title e \<and>
    de_ResolvedAt e' = 0 \<and> de_DetectedAt e' = de_DetectedAt e \<and>
    de_OccurrenceCount e' = de_OccurrenceCount e + int (length (success_times reqs)) \<and>
    de_LastSeenAt e' = last (de_LastSeenAt e # success_times reqs)"
  using assms
proof (induction reqs arbitrary: r e)
  case Nil
  then show ?case by (simp add: success_times_def)
next
  case (Cons req reqs)
  obtain en ev where req: "req = (en, ev)" by fastforce
  have rest: "list_all (\<lambda>(en, ev). same_issue title ws ev) reqs" "same_issue title ws ev" using Cons.prems(6) by (simp_all add: req)
  let ?w = "dc_DedupWindowMinutes (nr_cfg r) * debt_minute"
  show ?case
  proof (cases "succeeds en")
    case True
    have times: "success_times (req # reqs) = en_now en # success_times reqs" using True by (simp add: success_times_def req)
    have g: "en_now en - de_LastSeenAt e \<le> ?w" "gaps_within ?w (en_now en # success_times reqs)"
      using Cons.prems(7) by (simp_all add: times)
    obtain e1 r1 where r1: "AppendDebt sha date en ev r = (Inr e1, r1)" "e1 = bump (en_now en) (prepare sha (en_now en) ev) e"
      "nr_disk r1 = Block [e1]" "nr_cfg r1 = nr_cfg r"
      using repeat_report [OF True Cons.prems(1) rest(2) Cons.prems(2-5) g(1)] by blast
    obtain e' where "nr_disk (report_all sha date reqs r1) = Block [e']" "de_ID e' = de_ID e1" "de_Title e' = de_Title e1"
      "de_ResolvedAt e' = 0" "de_DetectedAt e' = de_DetectedAt e1"
      "de_OccurrenceCount e' = de_OccurrenceCount e1 + int (length (success_times reqs))"
      "de_LastSeenAt e' = last (de_LastSeenAt e1 # success_times reqs)"
      using Cons.IH [OF r1(3)] Cons.prems rest g(2) r1(2,4) by (auto simp: bump_fields)
    then show ?thesis using r1(1,2) unfolding times by (intro exI [of _ e']) (simp add: req bump_fields)
  next
    case False
    have times: "success_times (req # reqs) = success_times reqs" using False by (simp add: success_times_def req)
    note f = failing_report [OF False, of sha date ev r]
    show ?thesis
      using Cons.IH [of "snd (AppendDebt sha date en ev r)" e] Cons.prems rest f unfolding times by (simp add: req)
  qed
qed

section \<open>Properties\<close>

text \<open>
  Repeated reports of one issue are one open event: starting from a file without events, any
  series of reports of the same title for the same workspaces, in any order of the workspaces,
  some of them failing on the lock or the write, leaves in the file, when at least one succeeds
  and each success follows the last within the window, exactly one open event, with the time of
  the first success as its detection, the time of the last as its last sighting, and the number
  of successes as its count.
\<close>

theorem debt_series_collapses:
  assumes "nr_disk r = Absent \<or> nr_disk r = NoBlock" "0 < dc_DedupWindowMinutes (nr_cfg r)"
    "list_all (\<lambda>(en, ev). same_issue title ws ev \<and> de_DetectedAt ev = 0) reqs" "computeDedupKey sha title ws \<noteq> ''''"
    "success_times reqs \<noteq> []" "gaps_within (dc_DedupWindowMinutes (nr_cfg r) * debt_minute) (success_times reqs)"
  shows "\<exists>e. nr_disk (report_all sha date reqs r) = Block [e] \<and> de_Title e = title \<and> de_ResolvedAt e = 0 \<and>
    de_DetectedAt e = hd (success_times reqs) \<and> de_LastSeenAt e = last (success_times reqs) \<and>
    de_OccurrenceCount e = int (length (success_times reqs))"
  using assms
proof (induction reqs arbitrary: r)
  case Nil
  then show ?case by (simp add: success_times_def)
next
  case (Cons req reqs)
  obtain en ev where req: "req = (en, ev)" by fastforce
  have rest: "list_all (\<lambda>(en, ev). same_issue title ws ev \<and> de_DetectedAt ev = 0) reqs" "same_issue title ws ev" "de_DetectedAt ev = 0"
    using Cons.prems(3) by (simp_all add: req)
  show ?case
  proof (cases "succeeds en")
    case True
    have times: "success_times (req # reqs) = en_now en # success_times reqs" using True by (simp add: success_times_def req)
    obtain e1 r1 where r1: "AppendDebt sha date en ev r = (Inr e1, r1)" "nr_disk r1 = Block [e1]" "nr_cfg r1 = nr_cfg r"
      "de_DedupKey e1 = computeDedupKey sha title ws" "de_Title e1 = title" "de_ResolvedAt e1 = 0" "de_OccurrenceCount e1 = 1"
      "de_LastSeenAt e1 = en_now en" "de_DetectedAt e1 = en_now en"
      using first_report [OF True Cons.prems(1) rest(2), of sha date] rest(3) by auto
    have "list_all (\<lambda>(en, ev). same_issue title ws ev) reqs" using rest(1) by (auto simp: list_all_iff)
    then obtain e' where "nr_disk (report_all sha date reqs r1) = Block [e']" "de_Title e' = de_Title e1"
      "de_ResolvedAt e' = 0" "de_DetectedAt e' = de_DetectedAt e1"
      "de_OccurrenceCount e' = de_OccurrenceCount e1 + int (length (success_times reqs))"
      "de_LastSeenAt e' = last (de_LastSeenAt e1 # success_times reqs)"
      using repeat_all [OF r1(2), of sha title ws reqs date] Cons.prems(2,4,6) r1 unfolding times by auto
    then show ?thesis using r1 unfolding times by (intro exI [of _ e']) (simp add: req)
  next
    case False
    have times: "success_times (req # reqs) = success_times reqs" using False by (simp add: success_times_def req)
    note f = failing_report [OF False, of sha date ev r]
    show ?thesis
      using Cons.IH [of "snd (AppendDebt sha date en ev r)"] Cons.prems rest f unfolding times by (simp add: req)
  qed
qed

definition demo_issue :: "string list \<Rightarrow> NexusDebtEvent" where
  "demo_issue ws = \<lparr>de_ID = '''', de_Priority = ''P1'', de_Title = ''ollama down'', de_AffectedWorkspaces = ws, de_Source = ''watchdog'',
     de_DetectedAt = 0, de_LastSeenAt = 0, de_OccurrenceCount = 0, de_Recommended = '''', de_Resolution = '''', de_ResolvedAt = 0,
     de_DedupKey = ''''\<rparr>"

definition demo_registry :: "int \<Rightarrow> debt_disk \<Rightarrow> DebtRegistry" where
  "demo_registry days disk = \<lparr>nr_cfg = \<lparr>dc_Enabled = True, dc_File = ''debt.md'', dc_MaxResolvedDays = days, dc_DedupWindowMinutes = 15,
     dc_BoltDBMirror = False\<rparr>, nr_events = [], nr_disk = disk\<rparr>"

definition env_at :: "time \<Rightarrow> debt_env" where
  "env_at now = \<lparr>en_lock = None, en_now = now, en_later = now, en_rnd = 7, en_io = None\<rparr>"

definition demo_reports :: "(debt_env \<times> NexusDebtEvent) list" where
  "demo_reports = [(env_at 100, demo_issue [''a'', ''b'']),
     ((env_at 150)\<lparr>en_lock := Some ErrDebtLockBusy\<rparr>, demo_issue [''a'', ''b'']), (env_at 200, demo_issue [''b'', ''a''])]"

theorem debt_series_collapses_witness:
  "\<exists>e. nr_disk (report_all id (\<lambda>_. ''2026-01-01'') demo_reports (demo_registry 0 Absent)) = Block [e] \<and>
     de_OccurrenceCount e = 2 \<and> de_LastSeenAt e = 200"
proof -
  have t: "success_times demo_reports = [100, 200]" by (simp add: success_times_def succeeds_def env_at_def demo_reports_def)
  have l: "list_all (\<lambda>(en, ev). same_issue ''ollama down'' [''a'', ''b''] ev \<and> de_DetectedAt ev = 0) demo_reports"
    by (simp add: demo_reports_def same_issue_def demo_issue_def)
  have "\<exists>e. nr_disk (report_all id (\<lambda>_. ''2026-01-01'') demo_reports (demo_registry 0 Absent)) = Block [e] \<and> de_Title e = ''ollama down'' \<and>
    de_ResolvedAt e = 0 \<and> de_DetectedAt e = hd (success_times demo_reports) \<and> de_LastSeenAt e = last (success_times demo_reports) \<and>
    de_OccurrenceCount e = int (length (success_times demo_reports))"
    by (rule debt_series_collapses [OF _ _ l])
      (simp_all add: t demo_registry_def computeDedupKey_def debt_minute_def)
  then show ?thesis unfolding t by auto
qed

text \<open>
  Resolving: the first event with the identifier, if it is open, is closed and nothing else
  changes; and resolving it again is an error that changes nothing.
\<close>

lemma resolve_exact:
  assumes "succeeds en" "nr_disk r = Block (pre @ e # post)" "de_ID e = i" "\<forall>x\<in>set pre. de_ID x \<noteq> i" "de_ResolvedAt e = 0"
    "dc_MaxResolvedDays (nr_cfg r) \<le> 0" "en_now en \<noteq> 0"
  shows "(let (err, r1) = ResolveDebt en i note_text r; e1 = e\<lparr>de_ResolvedAt := en_now en, de_Resolution := note_text\<rparr>
    in err = None \<and> nr_disk r1 = Block (pre @ e1 # post) \<and>
       fst (ResolveDebt en i other r1) = Some ErrDebtAlreadyResolved \<and> nr_disk (snd (ResolveDebt en i other r1)) = nr_disk r1)"
proof -
  have f: "find_index (\<lambda>x. de_ID x = i) (pre @ x # post) = Some (length pre)" if "de_ID x = i" for x
    using assms(4) that by (induction pre) auto
  show ?thesis
    using assms f by (simp add: ResolveDebt_def debt_reload_def succeeds_def Let_def debt_persist_def archiveOldResolved_def nth_append)
qed

text \<open>
  A repeat report can return another event: when its write archives an event stored before the
  repeated one, the slot the result is read from has moved on.
\<close>

lemma repeat_returns_other:
  defines "old \<equiv> (demo_issue [''z''])\<lparr>de_ID := ''old'', de_ResolvedAt := 1\<rparr>"
    and "mine \<equiv> (prepare id 100 (demo_issue [''a'']))\<lparr>de_ID := ''mine'', de_OccurrenceCount := 1, de_LastSeenAt := 40 * day\<rparr>"
    and "other \<equiv> (prepare id 100 (demo_issue [''b'']))\<lparr>de_ID := ''other'', de_OccurrenceCount := 1\<rparr>"
  shows "fst (AppendDebt id (\<lambda>_. ''2026-01-01'') (env_at (40 * day)) (demo_issue [''a'']) (demo_registry 30 (Block [old, mine, other]))) = Inr other"
  by (simp add: AppendDebt_def env_at_def demo_registry_def debt_reload_def old_def mine_def other_def demo_issue_def Let_def
      prepare_def computeDedupKey_def findDedupMatch_def dedup_match_def debt_minute_def debt_persist_def archiveOldResolved_def
      archived_def day_def bump_def)

text \<open>
  A list of open events: exactly those the filter selects, by priority and newest first within
  one.
\<close>

lemma list_open_exact:
  "mset (ListOpen f r) = mset (filter (debt_selected f) (nr_events r)) \<and>
   sorted_wrt (\<lambda>a b. de_Priority a < de_Priority b \<or> de_Priority a = de_Priority b \<and> de_DetectedAt b \<le> de_DetectedAt a) (ListOpen f r)"
proof
  show "mset (ListOpen f r) = mset (filter (debt_selected f) (nr_events r))" by (simp add: ListOpen_def)
  have "sorted_wrt (\<lambda>a b. (de_Priority a, - de_DetectedAt a) \<le> (de_Priority b, - de_DetectedAt b)) (ListOpen f r)"
    unfolding ListOpen_def using sorted_sort_key [of "\<lambda>e. (de_Priority e, - de_DetectedAt e)"] by (simp only: sorted_map)
  then show "sorted_wrt (\<lambda>a b. de_Priority a < de_Priority b \<or> de_Priority a = de_Priority b \<and> de_DetectedAt b \<le> de_DetectedAt a) (ListOpen f r)"
    by (rule sorted_wrt_mono_rel [rotated]) (auto simp: less_eq_prod_simp)
qed

end
