(* ===== verification/Pubsub_Bus.thy ===== *)
theory Pubsub_Bus
  imports Neo_Prelude "HOL-Library.Multiset"
begin

text \<open>
  The event bus of \<^verbatim>\<open>pkg/pubsub/bus.go\<close>. Channels are numbered; a channel is its buffer and
  whether it is closed. \<open>Publish\<close> runs a publication alone. Publications hold only the read
  lock, so they interleave: the step relation lets each make its sends one by one, and admits a
  subscription or its end when none is running.
\<close>

section \<open>State\<close>

record 'p BusEvent =
  be_Type :: string
  be_At :: time
  be_Payload :: 'p

record 'p chan =
  ch_buf :: "'p BusEvent list"
  ch_closed :: bool

record 'p Bus =
  bus_subs :: "nat list"
  bus_chan :: "nat \<Rightarrow> 'p chan"
  bus_next :: nat

definition chan_cap :: nat where "chan_cap = 64"

definition NewBus :: "'p Bus" where
  "NewBus = \<lparr>bus_subs = [], bus_chan = (\<lambda>_. \<lparr>ch_buf = [], ch_closed = False\<rparr>), bus_next = 0\<rparr>"

section \<open>Operations\<close>

definition Subscribe :: "'p Bus \<Rightarrow> nat \<times> 'p Bus" where
  "Subscribe b =
     (let ch = bus_next b
      in (ch, b\<lparr>bus_chan := (bus_chan b)(ch := \<lparr>ch_buf = [], ch_closed = False\<rparr>), bus_next := ch + 1,
             bus_subs := bus_subs b @ [ch]\<rparr>))"

text \<open>The closure that \<open>Subscribe\<close> returns; closing a closed channel, which would panic, is \<^const>\<open>None\<close>.\<close>

definition unsubscribe :: "nat \<Rightarrow> 'p Bus \<Rightarrow> 'p Bus option" where
  "unsubscribe ch b =
     (if ch \<in> set (bus_subs b)
      then (if ch_closed (bus_chan b ch) then None
            else Some (b\<lparr>bus_subs := remove1 ch (bus_subs b),
                   bus_chan := (bus_chan b)(ch := (bus_chan b ch)\<lparr>ch_closed := True\<rparr>)\<rparr>))
      else Some b)"

text \<open>One arm of the fan-out: a send that never blocks. A send to a closed channel panics.\<close>

definition try_send :: "'p BusEvent \<Rightarrow> nat \<Rightarrow> 'p Bus \<Rightarrow> 'p Bus option" where
  "try_send e ch b =
     (if ch_closed (bus_chan b ch) then None
      else if length (ch_buf (bus_chan b ch)) < chan_cap
      then Some (b\<lparr>bus_chan := (bus_chan b)(ch := (bus_chan b ch)\<lparr>ch_buf := ch_buf (bus_chan b ch) @ [e]\<rparr>)\<rparr>)
      else Some b)"

definition stamp :: "time \<Rightarrow> 'p BusEvent \<Rightarrow> 'p BusEvent" where
  "stamp now e = (if be_At e = 0 then e\<lparr>be_At := now\<rparr> else e)"

fun send_all :: "'p BusEvent \<Rightarrow> nat list \<Rightarrow> 'p Bus \<Rightarrow> 'p Bus option" where
  "send_all e [] b = Some b"
| "send_all e (ch # chs) b = (case try_send e ch b of None \<Rightarrow> None | Some b1 \<Rightarrow> send_all e chs b1)"

definition Publish :: "time \<Rightarrow> 'p BusEvent \<Rightarrow> 'p Bus \<Rightarrow> 'p Bus option" where
  "Publish now e b = send_all (stamp now e) (bus_subs b) b"

text \<open>A receive by the subscriber: an event, the end of a closed channel, or nothing yet.\<close>

datatype 'p received = Got "'p BusEvent" | Closed | Blocks

definition receive :: "nat \<Rightarrow> 'p Bus \<Rightarrow> 'p received \<times> 'p Bus" where
  "receive ch b =
     (case ch_buf (bus_chan b ch) of
        e # es \<Rightarrow> (Got e, b\<lparr>bus_chan := (bus_chan b)(ch := (bus_chan b ch)\<lparr>ch_buf := es\<rparr>)\<rparr>)
      | [] \<Rightarrow> (if ch_closed (bus_chan b ch) then Closed else Blocks, b))"

section \<open>Publishers and subscribers at work\<close>

text \<open>
  A running bus: the bus or, after a panic, nothing; the publications under way, each with the
  channels it has yet to serve; and what happened so far at each channel: the events published
  since its subscription, the events offered to it with the length of its buffer at that
  moment, and the events received.
\<close>

record 'p bus_run =
  run_bus :: "'p Bus option"
  run_pending :: "('p BusEvent \<times> nat list) list"
  run_since :: "nat \<Rightarrow> 'p BusEvent list"
  run_offered :: "nat \<Rightarrow> ('p BusEvent \<times> nat) list"
  run_got :: "nat \<Rightarrow> 'p BusEvent list"

definition bus_init :: "'p bus_run" where
  "bus_init = \<lparr>run_bus = Some NewBus, run_pending = [], run_since = (\<lambda>_. []), run_offered = (\<lambda>_. []), run_got = (\<lambda>_. [])\<rparr>"

inductive bus_step :: "'p bus_run \<Rightarrow> 'p bus_run \<Rightarrow> bool" where
  subscribe: "run_bus s = Some b \<Longrightarrow> run_pending s = [] \<Longrightarrow> Subscribe b = (ch, b') \<Longrightarrow>
    bus_step s (s\<lparr>run_bus := Some b', run_since := (run_since s)(ch := []), run_offered := (run_offered s)(ch := []),
      run_got := (run_got s)(ch := [])\<rparr>)"
| unsubscribe: "run_bus s = Some b \<Longrightarrow> run_pending s = [] \<Longrightarrow> bus_step s (s\<lparr>run_bus := unsubscribe ch b\<rparr>)"
| begin_publish: "run_bus s = Some b \<Longrightarrow> e = stamp now ev \<Longrightarrow>
    bus_step s (s\<lparr>run_pending := run_pending s @ [(e, bus_subs b)],
      run_since := (\<lambda>ch. if ch \<in> set (bus_subs b) then run_since s ch @ [e] else run_since s ch)\<rparr>)"
| send: "run_bus s = Some b \<Longrightarrow> run_pending s = ps @ (e, ch # chs) # qs \<Longrightarrow>
    bus_step s (s\<lparr>run_bus := try_send e ch b, run_pending := ps @ (e, chs) # qs,
      run_offered := (run_offered s)(ch := run_offered s ch @ [(e, length (ch_buf (bus_chan b ch)))])\<rparr>)"
| end_publish: "run_bus s = Some b \<Longrightarrow> run_pending s = ps @ (e, []) # qs \<Longrightarrow> bus_step s (s\<lparr>run_pending := ps @ qs\<rparr>)"
| receive: "run_bus s = Some b \<Longrightarrow> receive ch b = (Got e, b') \<Longrightarrow>
    bus_step s (s\<lparr>run_bus := Some b', run_got := (run_got s)(ch := run_got s ch @ [e])\<rparr>)"

inductive bus_reach :: "'p bus_run \<Rightarrow> bool" where
  init: "bus_reach bus_init"
| step: "bus_reach s \<Longrightarrow> bus_step s t \<Longrightarrow> bus_reach t"

section \<open>Invariant\<close>

definition owed :: "nat \<Rightarrow> ('p BusEvent \<times> nat list) list \<Rightarrow> 'p BusEvent multiset" where
  "owed ch ps = mset (List.map fst (filter (\<lambda>p. ch \<in> set (snd p)) ps))"

definition accepted :: "('p BusEvent \<times> nat) list \<Rightarrow> 'p BusEvent list" where
  "accepted os = List.map fst (filter (\<lambda>p. snd p < chan_cap) os)"

definition bus_inv :: "'p bus_run \<Rightarrow> bool" where
  "bus_inv s \<longleftrightarrow>
     (\<exists>b. run_bus s = Some b \<and> distinct (bus_subs b) \<and>
       (\<forall>ch\<in>set (bus_subs b). ch < bus_next b \<and> \<not> ch_closed (bus_chan b ch)) \<and>
       (\<forall>(e, chs)\<in>set (run_pending s). distinct chs \<and> set chs \<subseteq> set (bus_subs b)) \<and>
       (\<forall>ch. length (ch_buf (bus_chan b ch)) \<le> chan_cap) \<and>
       (\<forall>ch. run_got s ch @ ch_buf (bus_chan b ch) = accepted (run_offered s ch)) \<and>
       (\<forall>ch\<in>set (bus_subs b). mset (run_since s ch) = mset (List.map fst (run_offered s ch)) + owed ch (run_pending s)))"

lemma accepted_simps [simp]:
  "accepted [] = []" "accepted (os @ [(e, n)]) = accepted os @ (if n < chan_cap then [e] else [])"
  by (simp_all add: accepted_def)

lemma owed_simps [simp]:
  "owed ch [] = {#}" "owed ch (ps @ qs) = owed ch ps + owed ch qs"
  "owed ch ((e, chs) # ps) = (if ch \<in> set chs then {#e#} else {#}) + owed ch ps"
  by (simp_all add: owed_def)

lemma bus_inv_init: "bus_inv bus_init"
  by (simp add: bus_inv_def bus_init_def NewBus_def)

text \<open>The part of the invariant about one bus, for given histories.\<close>

definition bus_good :: "'p Bus \<Rightarrow> ('p BusEvent \<times> nat list) list \<Rightarrow> (nat \<Rightarrow> 'p BusEvent list) \<Rightarrow>
    (nat \<Rightarrow> ('p BusEvent \<times> nat) list) \<Rightarrow> (nat \<Rightarrow> 'p BusEvent list) \<Rightarrow> bool" where
  "bus_good b pending since offered got \<longleftrightarrow> distinct (bus_subs b) \<and>
     (\<forall>ch\<in>set (bus_subs b). ch < bus_next b \<and> \<not> ch_closed (bus_chan b ch)) \<and>
     (\<forall>(e, chs)\<in>set pending. distinct chs \<and> set chs \<subseteq> set (bus_subs b)) \<and>
     (\<forall>ch. length (ch_buf (bus_chan b ch)) \<le> chan_cap) \<and>
     (\<forall>ch. got ch @ ch_buf (bus_chan b ch) = accepted (offered ch)) \<and>
     (\<forall>ch\<in>set (bus_subs b). mset (since ch) = mset (List.map fst (offered ch)) + owed ch pending)"

lemma bus_inv_good:
  "bus_inv s \<longleftrightarrow> (\<exists>b. run_bus s = Some b \<and> bus_good b (run_pending s) (run_since s) (run_offered s) (run_got s))"
  by (simp add: bus_inv_def bus_good_def)

lemma good_subscribe:
  assumes "bus_good b [] since offered got" "Subscribe b = (ch, b')"
  shows "bus_good b' [] (since(ch := [])) (offered(ch := [])) (got(ch := []))"
proof -
  have b': "ch = bus_next b" "b' = b\<lparr>bus_chan := (bus_chan b)(ch := \<lparr>ch_buf = [], ch_closed = False\<rparr>), bus_next := ch + 1,
             bus_subs := bus_subs b @ [ch]\<rparr>"
    using assms(2) by (auto simp: Subscribe_def Let_def)
  then have "ch \<notin> set (bus_subs b)" using assms(1) by (auto simp: bus_good_def)
  then show ?thesis using assms(1) unfolding b'(2) by (auto simp: bus_good_def b'(1) less_Suc_eq)
qed

lemma good_unsubscribe:
  assumes "bus_good b [] since offered got"
  shows "\<exists>b'. unsubscribe ch b = Some b' \<and> bus_good b' [] since offered got"
proof (cases "ch \<in> set (bus_subs b)")
  case True
  have "distinct (bus_subs b)" using assms by (simp add: bus_good_def)
  then show ?thesis using True assms by (auto simp: unsubscribe_def bus_good_def set_remove1_eq)
next
  case False
  then show ?thesis using assms by (simp add: unsubscribe_def)
qed

lemma good_begin:
  assumes "bus_good b ps since offered got"
  shows "bus_good b (ps @ [(e, bus_subs b)]) (\<lambda>ch. if ch \<in> set (bus_subs b) then since ch @ [e] else since ch) offered got"
  using assms by (auto simp: bus_good_def)

lemma good_send:
  assumes "bus_good b (ps @ (e, ch # chs) # qs) since offered got"
  shows "\<exists>b'. try_send e ch b = Some b' \<and>
    bus_good b' (ps @ (e, chs) # qs) since (offered(ch := offered ch @ [(e, length (ch_buf (bus_chan b ch)))])) got"
proof -
  have ch: "ch \<in> set (bus_subs b)" "\<not> ch_closed (bus_chan b ch)" "ch \<notin> set chs" "length (ch_buf (bus_chan b ch)) \<le> chan_cap"
    "got ch @ ch_buf (bus_chan b ch) = accepted (offered ch)"
    using assms by (auto simp: bus_good_def)
  show ?thesis
  proof (cases "length (ch_buf (bus_chan b ch)) < chan_cap")
    case True
    then show ?thesis using assms ch by (auto simp: try_send_def bus_good_def simp flip: append_assoc)
  next
    case False
    then show ?thesis using assms ch by (auto simp: try_send_def bus_good_def)
  qed
qed

lemma good_end: "bus_good b (ps @ (e, []) # qs) since offered got \<Longrightarrow> bus_good b (ps @ qs) since offered got"
  by (auto simp: bus_good_def)

lemma good_receive:
  assumes "bus_good b ps since offered got" "receive ch b = (Got e, b')"
  shows "bus_good b' ps since offered (got(ch := got ch @ [e]))"
proof -
  obtain es where es: "ch_buf (bus_chan b ch) = e # es" "b' = b\<lparr>bus_chan := (bus_chan b)(ch := (bus_chan b ch)\<lparr>ch_buf := es\<rparr>)\<rparr>"
    using assms(2) by (auto simp: receive_def split: list.splits if_splits)
  have a: "\<forall>c. length (ch_buf (bus_chan b c)) \<le> chan_cap" "\<forall>c. got c @ ch_buf (bus_chan b c) = accepted (offered c)"
    using assms(1) by (simp_all add: bus_good_def)
  have "length es \<le> chan_cap" "(got ch @ [e]) @ es = accepted (offered ch)"
    using es(1) spec [OF a(1), of ch] spec [OF a(2), of ch] by simp_all
  then show ?thesis using assms(1) unfolding es(2) by (auto simp: bus_good_def)
qed

lemma bus_inv_step: "bus_step s t \<Longrightarrow> bus_inv s \<Longrightarrow> bus_inv t"
proof (induction rule: bus_step.induct)
  case (subscribe s b ch b')
  then show ?case using good_subscribe by (fastforce simp: bus_inv_good)
next
  case (unsubscribe s b ch)
  then show ?case using good_unsubscribe by (fastforce simp: bus_inv_good)
next
  case (begin_publish s b e now ev)
  then show ?case using good_begin by (fastforce simp: bus_inv_good)
next
  case (send s b ps e ch chs qs)
  then show ?case using good_send by (fastforce simp: bus_inv_good)
next
  case (end_publish s b ps e qs)
  then show ?case using good_end by (fastforce simp: bus_inv_good)
next
  case (receive s b ch e b')
  then show ?case using good_receive by (fastforce simp: bus_inv_good)
qed

lemma bus_reach_inv: "bus_reach s \<Longrightarrow> bus_inv s"
  by (induction rule: bus_reach.induct) (auto simp: bus_inv_init intro: bus_inv_step)

section \<open>Properties\<close>

text \<open>
  C25: the bus delivers: however subscriptions, publications and receives interleave, nothing
  ever panics; what a subscriber has received and what waits in its buffer are, in order and
  without repetition, the events offered to it except those offered while 64 events waited;
  and each event published since it subscribed has been offered to it exactly once or is about
  to be by a publication still under way.
\<close>

theorem bus_delivers:
  assumes "bus_reach s"
  shows "\<exists>b. run_bus s = Some b \<and> length (ch_buf (bus_chan b ch)) \<le> 64 \<and>
    run_got s ch @ ch_buf (bus_chan b ch) = List.map fst (filter (\<lambda>(e, waiting). waiting < 64) (run_offered s ch)) \<and>
    (if ch \<in> set (bus_subs b)
     then mset (run_since s ch) = mset (List.map fst (run_offered s ch)) + owed ch (run_pending s) else True)"
  using bus_reach_inv [OF assms] unfolding bus_inv_def
  by (force simp: accepted_def chan_cap_def case_prod_unfold)

definition hello :: "unit BusEvent" where
  "hello = \<lparr>be_Type = ''heartbeat'', be_At = 5, be_Payload = ()\<rparr>"

lemma demo_run: "\<exists>s. bus_reach s \<and> run_offered s 0 = [(hello, 0)] \<and> 0 \<in> set (bus_subs (the (run_bus s)))"
proof -
  let ?s1 = "(bus_init :: unit bus_run)\<lparr>run_bus := Some (snd (Subscribe NewBus)), run_since := (run_since bus_init)(0 := []),
      run_offered := (run_offered bus_init)(0 := []), run_got := (run_got bus_init)(0 := [])\<rparr>"
  have 1: "bus_reach ?s1"
    by (rule bus_reach.step [OF bus_reach.init], rule bus_step.subscribe [where b = NewBus])
      (simp_all add: bus_init_def Subscribe_def NewBus_def Let_def)
  let ?b1 = "snd (Subscribe NewBus) :: unit Bus"
  let ?s2 = "?s1\<lparr>run_pending := run_pending ?s1 @ [(hello, bus_subs ?b1)],
      run_since := (\<lambda>ch. if ch \<in> set (bus_subs ?b1) then run_since ?s1 ch @ [hello] else run_since ?s1 ch)\<rparr>"
  have 2: "bus_reach ?s2"
    by (rule bus_reach.step [OF 1], rule bus_step.begin_publish [where ev = hello and now = 9])
      (simp_all add: stamp_def hello_def)
  let ?s3 = "?s2\<lparr>run_bus := try_send hello 0 ?b1, run_pending := [(hello, [])],
      run_offered := (run_offered ?s2)(0 := run_offered ?s2 0 @ [(hello, length (ch_buf (bus_chan ?b1 0)))])\<rparr>"
  have 3: "bus_reach ?s3"
    using bus_reach.step [OF 2 bus_step.send [where b = ?b1 and ps = "[]" and e = hello and ch = 0 and chs = "[]" and qs = "[]"]]
    by (simp add: bus_init_def Subscribe_def NewBus_def Let_def)
  show ?thesis
    by (rule exI [of _ ?s3], intro conjI, rule 3)
      (simp_all add: bus_init_def Subscribe_def NewBus_def Let_def try_send_def chan_cap_def)
qed

theorem bus_delivers_witness:
  "\<exists>s b. bus_reach s \<and> run_bus s = Some b \<and> run_offered s 0 = [(hello, 0)] \<and> run_got s 0 @ ch_buf (bus_chan b 0) = [hello]"
proof -
  obtain s where s: "bus_reach s" "run_offered s 0 = [(hello, 0)]" using demo_run by blast
  show ?thesis using bus_delivers [OF s(1), of 0] s by auto
qed

text \<open>A publication alone succeeds on any bus without closed subscribers and serves each of them once.\<close>

lemma send_all_spec:
  assumes "distinct chs" "\<forall>ch\<in>set chs. \<not> ch_closed (bus_chan b ch)"
  shows "\<exists>b'. send_all e chs b = Some b' \<and> bus_subs b' = bus_subs b \<and>
    (\<forall>ch. ch_buf (bus_chan b' ch) = ch_buf (bus_chan b ch) @
       (if ch \<in> set chs \<and> length (ch_buf (bus_chan b ch)) < chan_cap then [e] else []))"
  using assms
proof (induction chs arbitrary: b)
  case (Cons ch chs)
  define b1 where "b1 = (if length (ch_buf (bus_chan b ch)) < chan_cap
    then b\<lparr>bus_chan := (bus_chan b)(ch := (bus_chan b ch)\<lparr>ch_buf := ch_buf (bus_chan b ch) @ [e]\<rparr>)\<rparr> else b)"
  have t: "try_send e ch b = Some b1" using Cons.prems by (simp add: try_send_def b1_def)
  have "\<forall>c\<in>set chs. \<not> ch_closed (bus_chan b1 c)" using Cons.prems by (auto simp: b1_def)
  then obtain b' where "send_all e chs b1 = Some b'" "bus_subs b' = bus_subs b1"
    "\<forall>c. ch_buf (bus_chan b' c) = ch_buf (bus_chan b1 c) @
       (if c \<in> set chs \<and> length (ch_buf (bus_chan b1 c)) < chan_cap then [e] else [])"
    using Cons.IH [of b1] Cons.prems by auto
  then show ?case using Cons.prems t by (auto simp: b1_def)
qed simp

lemma publish_alone:
  assumes "distinct (bus_subs b)" "\<forall>ch\<in>set (bus_subs b). \<not> ch_closed (bus_chan b ch)"
  shows "\<exists>b'. Publish now e b = Some b' \<and>
    (\<forall>ch. ch_buf (bus_chan b' ch) = ch_buf (bus_chan b ch) @
       (if ch \<in> set (bus_subs b) \<and> length (ch_buf (bus_chan b ch)) < chan_cap then [stamp now e] else []))"
  using send_all_spec [OF assms] unfolding Publish_def by blast

end
