(* ===== verification/Wms_Idempotency.thy ===== *)
theory Wms_Idempotency
  imports Neo_Prelude
begin

text \<open>
  The idempotency middleware of \<^verbatim>\<open>pkg/wms/idempotency.go\<close>: many requests at once, each at a point
  of the handler's code, over one table of running leaders and one bucket of records. An action
  names a request and what the world does at its next step; a step of the system is an action.
\<close>

section \<open>State\<close>

record Record =
  rc_Status :: int
  rc_Timestamp :: int

text \<open>A stored value decodes to a record or not at all.\<close>

datatype stored = Stored Record | Garbled

datatype reply = Passed int | MissingKey | DbError | ConflictWith Record

text \<open>
  Where a request stands: waiting for the channel of a leader, about to read the record (as
  leader or not), in the wrapped handler, about to write the record, in the two steps of a
  leader's release, or answered.
\<close>

datatype phase = Waiting nat | Checking bool | Running bool | Recording bool int | ClosingCh reply | Deleting reply | Answered reply

record idem =
  id_db :: "string \<Rightarrow> stored option"
  id_inFlight :: "string \<Rightarrow> nat option"
  id_closed :: "nat set"
  id_req :: "nat \<Rightarrow> (string \<times> phase) option"

definition keyTTL :: int where "keyTTL = 24 * 3600"

section \<open>Operations\<close>

text \<open>\<open>Acquire\<close>: the running leader of the key, or the request itself becomes it.\<close>

definition Acquire :: "nat \<Rightarrow> string \<Rightarrow> idem \<Rightarrow> phase \<times> idem" where
  "Acquire r key s =
     (case id_inFlight s key of
        Some leader \<Rightarrow> (Waiting leader, s)
      | None \<Rightarrow> (Checking True, s\<lparr>id_inFlight := (id_inFlight s)(key \<mapsto> r)\<rparr>))"

definition readIdempotencyRecord :: "string \<Rightarrow> idem \<Rightarrow> Record option" where
  "readIdempotencyRecord key s = (case id_db s key of Some (Stored rec) \<Rightarrow> Some rec | _ \<Rightarrow> None)"

definition writeIdempotencyRecord :: "string \<Rightarrow> int \<Rightarrow> int \<Rightarrow> bool \<Rightarrow> idem \<Rightarrow> idem" where
  "writeIdempotencyRecord key status now update_ok s =
     (if status < 200 \<or> status \<ge> 300 then s
      else if update_ok then s\<lparr>id_db := (id_db s)(key \<mapsto> Stored \<lparr>rc_Status = status, rc_Timestamp = now\<rparr>)\<rparr>
      else s)"

definition sweepOldKeys :: "int \<Rightarrow> idem \<Rightarrow> idem" where
  "sweepOldKeys now s =
     (let cutoff = now - keyTTL
      in s\<lparr>id_db := (\<lambda>k. case id_db s k of
           None \<Rightarrow> None
         | Some Garbled \<Rightarrow> None
         | Some (Stored rec) \<Rightarrow> if rc_Timestamp rec < cutoff then None else Some (Stored rec))\<rparr>)"

definition set_phase :: "nat \<Rightarrow> string \<Rightarrow> phase \<Rightarrow> idem \<Rightarrow> idem" where
  "set_phase r key ph s = s\<lparr>id_req := (id_req s)(r \<mapsto> (key, ph))\<rparr>"

text \<open>A leader's answer runs the deferred release; another request is done.\<close>

definition leave :: "bool \<Rightarrow> reply \<Rightarrow> phase" where
  "leave leader rep = (if leader then ClosingCh rep else Answered rep)"

datatype action =
    Arrive string string   \<comment> \<open>a new request: its method and key\<close>
  | Wake
  | Check bool             \<comment> \<open>whether the read of the bucket fails\<close>
  | Return int             \<comment> \<open>the status the wrapped handler set\<close>
  | Persist int bool       \<comment> \<open>the time, and whether the update succeeds\<close>
  | CloseDone
  | DeleteKey

text \<open>One step of request \<open>r\<close>; \<^const>\<open>None\<close> when it cannot take that step.\<close>

definition idem_step :: "nat \<Rightarrow> action \<Rightarrow> idem \<Rightarrow> idem option" where
  "idem_step r a s =
     (case a of
        Arrive meth key \<Rightarrow>
          (if id_req s r \<noteq> None then None
           else if meth = ''GET'' \<or> meth = ''OPTIONS'' then Some s
           else if key = '''' then Some (set_phase r key (Answered MissingKey) s)
           else (let (ph, s1) = Acquire r key s in Some (set_phase r key ph s1)))
      | Wake \<Rightarrow>
          (case id_req s r of
             Some (key, Waiting c) \<Rightarrow> if c \<in> id_closed s then Some (set_phase r key (Checking False) s) else None
           | _ \<Rightarrow> None)
      | Check err \<Rightarrow>
          (case id_req s r of
             Some (key, Checking leader) \<Rightarrow>
               (if err then Some (set_phase r key (leave leader DbError) s)
                else case readIdempotencyRecord key s of
                  Some rec \<Rightarrow> Some (set_phase r key (leave leader (ConflictWith rec)) s)
                | None \<Rightarrow> Some (set_phase r key (Running leader) s))
           | _ \<Rightarrow> None)
      | Return status \<Rightarrow>
          (case id_req s r of
             Some (key, Running leader) \<Rightarrow> Some (set_phase r key (Recording leader status) s)
           | _ \<Rightarrow> None)
      | Persist now ok \<Rightarrow>
          (case id_req s r of
             Some (key, Recording leader status) \<Rightarrow>
               Some (set_phase r key (leave leader (Passed status)) (writeIdempotencyRecord key status now ok s))
           | _ \<Rightarrow> None)
      | CloseDone \<Rightarrow>
          (case id_req s r of
             Some (key, ClosingCh rep) \<Rightarrow> Some (set_phase r key (Deleting rep) (s\<lparr>id_closed := insert r (id_closed s)\<rparr>))
           | _ \<Rightarrow> None)
      | DeleteKey \<Rightarrow>
          (case id_req s r of
             Some (key, Deleting rep) \<Rightarrow>
               Some (set_phase r key (Answered rep) (s\<lparr>id_inFlight := (id_inFlight s)(key := None)\<rparr>))
           | _ \<Rightarrow> None))"

section \<open>Histories\<close>

text \<open>A history: steps of requests and sweeps of the bucket.\<close>

datatype event = Step nat action | Sweep int

fun idem_event :: "event \<Rightarrow> idem \<Rightarrow> idem option" where
  "idem_event (Step r a) s = idem_step r a s"
| "idem_event (Sweep now) s = Some (sweepOldKeys now s)"

fun idem_run :: "event list \<Rightarrow> idem \<Rightarrow> idem option" where
  "idem_run [] s = Some s"
| "idem_run (ev # evs) s = (case idem_event ev s of None \<Rightarrow> None | Some t \<Rightarrow> idem_run evs t)"

text \<open>How often the wrapped handler starts for a key, and whether one of its runs leaves no record.\<close>

fun handler_starts :: "string \<Rightarrow> event list \<Rightarrow> idem \<Rightarrow> nat" where
  "handler_starts k [] s = 0"
| "handler_starts k (ev # evs) s =
     (case idem_event ev s of
        None \<Rightarrow> 0
      | Some t \<Rightarrow>
          (case ev of
             Step r a \<Rightarrow>
               (case id_req t r of
                  Some (key, Running leader) \<Rightarrow> if key = k then 1 else 0
                | _ \<Rightarrow> 0)
           | Sweep _ \<Rightarrow> 0) + handler_starts k evs t)"

text \<open>An event that leaves a run of the handler unrecorded, or drops a record that was there.\<close>

definition spoils :: "string \<Rightarrow> event \<Rightarrow> idem \<Rightarrow> bool" where
  "spoils k ev s =
     (case ev of
        Step r (Persist now ok) \<Rightarrow>
          (case id_req s r of
             Some (key, Recording leader status) \<Rightarrow> key = k \<and> (status < 200 \<or> status \<ge> 300 \<or> \<not> ok)
           | _ \<Rightarrow> False)
      | Step r (Check err) \<Rightarrow>
          (case id_req s r of Some (key, Checking leader) \<Rightarrow> key = k \<and> err | _ \<Rightarrow> False)
      | Sweep now \<Rightarrow> readIdempotencyRecord k s \<noteq> None \<and> readIdempotencyRecord k (sweepOldKeys now s) = None
      | _ \<Rightarrow> False)"

fun spoiled :: "string \<Rightarrow> event list \<Rightarrow> idem \<Rightarrow> bool" where
  "spoiled k [] s = False"
| "spoiled k (ev # evs) s = (spoils k ev s \<or> (case idem_event ev s of None \<Rightarrow> False | Some t \<Rightarrow> spoiled k evs t))"

definition idem_init :: "(string \<Rightarrow> stored option) \<Rightarrow> idem" where
  "idem_init db = \<lparr>id_db = db, id_inFlight = Map.empty, id_closed = {}, id_req = Map.empty\<rparr>"

section \<open>Invariant\<close>

text \<open>
  While no event has spoiled the key, either nothing ran yet and only a leader may be past its
  waiting, or one leader is running, or a record stands and nobody runs.
\<close>

definition fresh_phase :: "nat option \<Rightarrow> nat \<Rightarrow> phase \<Rightarrow> bool" where
  "fresh_phase lead r ph =
     (case ph of Waiting c \<Rightarrow> lead = Some c | Checking leader \<Rightarrow> leader \<and> lead = Some r | _ \<Rightarrow> False)"

definition run_phase :: "nat option \<Rightarrow> nat \<Rightarrow> phase \<Rightarrow> bool" where
  "run_phase lead r ph =
     (case ph of Waiting c \<Rightarrow> lead = Some c | Running leader \<Rightarrow> leader \<and> lead = Some r
       | Recording leader st \<Rightarrow> leader \<and> lead = Some r | _ \<Rightarrow> False)"

definition calm_phase :: "phase \<Rightarrow> bool" where
  "calm_phase ph = (case ph of Running _ \<Rightarrow> False | Recording _ _ \<Rightarrow> False | _ \<Rightarrow> True)"

definition open_leader :: "string \<Rightarrow> idem \<Rightarrow> bool" where
  "open_leader k s \<longleftrightarrow> id_closed s \<subseteq> dom (id_req s) \<and>
     (\<forall>r. id_inFlight s k = Some r \<longrightarrow> r \<notin> id_closed s \<and> (\<exists>ph. id_req s r = Some (k, ph)))"

definition fresh_inv :: "string \<Rightarrow> idem \<Rightarrow> bool" where
  "fresh_inv k s \<longleftrightarrow> readIdempotencyRecord k s = None \<and> open_leader k s \<and>
     (\<forall>r ph. id_req s r = Some (k, ph) \<longrightarrow> fresh_phase (id_inFlight s k) r ph)"

definition run_inv :: "string \<Rightarrow> idem \<Rightarrow> bool" where
  "run_inv k s \<longleftrightarrow> readIdempotencyRecord k s = None \<and> open_leader k s \<and>
     (\<forall>r ph. id_req s r = Some (k, ph) \<longrightarrow> run_phase (id_inFlight s k) r ph) \<and> id_inFlight s k \<noteq> None"

definition calm_inv :: "string \<Rightarrow> idem \<Rightarrow> bool" where
  "calm_inv k s \<longleftrightarrow> readIdempotencyRecord k s \<noteq> None \<and> (\<forall>r ph. id_req s r = Some (k, ph) \<longrightarrow> calm_phase ph)"

text \<open>What the key sees of a step: a step of a request under another key is none of its business.\<close>

definition starts :: "string \<Rightarrow> event \<Rightarrow> idem \<Rightarrow> nat" where
  "starts k ev t =
     (case ev of
        Step r a \<Rightarrow> (case id_req t r of Some (key, Running leader) \<Rightarrow> if key = k then 1 else 0 | _ \<Rightarrow> 0)
      | Sweep _ \<Rightarrow> 0)"

lemma handler_starts_Cons:
  "handler_starts k (ev # evs) s = (case idem_event ev s of None \<Rightarrow> 0 | Some t \<Rightarrow> starts k ev t + handler_starts k evs t)"
  by (simp add: starts_def split: option.splits)

lemmas step_defs = idem_step_def set_phase_def leave_def Acquire_def writeIdempotencyRecord_def readIdempotencyRecord_def Let_def

text \<open>Every step moves one request, from one phase to the next, and touches only its own key.\<close>

lemma step_shape:
  assumes "idem_step r a s = Some t"
  shows "t = s \<or> id_req t r \<noteq> None \<and> (\<forall>r'. r' \<noteq> r \<longrightarrow> id_req t r' = id_req s r') \<and>
    (\<forall>k. k \<noteq> fst (the (id_req t r)) \<longrightarrow> id_db t k = id_db s k \<and> id_inFlight t k = id_inFlight s k) \<and>
    id_closed t \<subseteq> insert r (id_closed s) \<and> (\<forall>k ph. id_req s r = Some (k, ph) \<longrightarrow> k = fst (the (id_req t r)))"
  using assms
  by (cases a) (auto simp: step_defs split: option.splits phase.splits if_splits prod.splits)

lemma read_cong: "id_db t k = id_db s k \<Longrightarrow> readIdempotencyRecord k t = readIdempotencyRecord k s"
  by (simp add: readIdempotencyRecord_def)

lemma other_key:
  assumes "idem_step r a s = Some t" "t \<noteq> s" "fst (the (id_req t r)) \<noteq> k"
  shows "readIdempotencyRecord k t = readIdempotencyRecord k s" "id_inFlight t k = id_inFlight s k"
    "open_leader k s \<Longrightarrow> open_leader k t" "id_req t r' = Some (k, ph) \<Longrightarrow> id_req s r' = Some (k, ph)"
    "starts k (Step r a) t = 0"
proof -
  obtain key p where k: "id_req t r = Some (key, p)" "k \<noteq> key"
    using step_shape [OF assms(1)] assms(2,3) by auto
  then have t: "id_req t = (id_req s)(r \<mapsto> (key, p))" "\<forall>k. k \<noteq> key \<longrightarrow> id_db t k = id_db s k \<and> id_inFlight t k = id_inFlight s k"
    "id_closed t \<subseteq> insert r (id_closed s)" "\<forall>k ph. id_req s r = Some (k, ph) \<longrightarrow> k = key"
    using step_shape [OF assms(1)] assms(2) by (auto intro!: ext)
  show "readIdempotencyRecord k t = readIdempotencyRecord k s" using t(2) k by (intro read_cong) auto
  show i: "id_inFlight t k = id_inFlight s k" using t(2) k by auto
  show "id_req t r' = Some (k, ph) \<Longrightarrow> id_req s r' = Some (k, ph)" using t(1) k by (auto split: if_splits)
  show "starts k (Step r a) t = 0" using t(1) k by (auto simp: starts_def split: phase.splits)
  assume o: "open_leader k s"
  have "l \<notin> id_closed t \<and> (\<exists>ph. id_req t l = Some (k, ph))" if "id_inFlight s k = Some l" for l
  proof -
    note il = that
    obtain ph where l: "l \<notin> id_closed s" "id_req s l = Some (k, ph)" using o il unfolding open_leader_def by blast
    then have "l \<noteq> r" using t(4) k by auto
    then show ?thesis using l t(1,3) by auto
  qed
  moreover have "id_closed t \<subseteq> dom (id_req t)" using o t(1,3) by (auto simp: open_leader_def)
  ultimately show "open_leader k t" by (simp add: open_leader_def i)
qed

text \<open>A step of a request under the key, by the action it takes.\<close>

lemma own_step:
  assumes "idem_step r a s = Some t" "t \<noteq> s" "fst (the (id_req t r)) = k" "k \<noteq> []"
  obtains (lead) "id_req s r = None" "id_inFlight s k = None"
      "t = s\<lparr>id_inFlight := (id_inFlight s)(k \<mapsto> r), id_req := (id_req s)(r \<mapsto> (k, Checking True))\<rparr>"
  | (wait) c where "id_req s r = None" "id_inFlight s k = Some c" "t = set_phase r k (Waiting c) s"
  | (wake) c where "id_req s r = Some (k, Waiting c)" "c \<in> id_closed s" "t = set_phase r k (Checking False) s"
  | (fail) l where "id_req s r = Some (k, Checking l)" "a = Check True" "t = set_phase r k (leave l DbError) s"
  | (found) l rec where "id_req s r = Some (k, Checking l)" "readIdempotencyRecord k s = Some rec"
      "t = set_phase r k (leave l (ConflictWith rec)) s"
  | (start) l where "id_req s r = Some (k, Checking l)" "readIdempotencyRecord k s = None" "t = set_phase r k (Running l) s"
  | (back_from) l st where "id_req s r = Some (k, Running l)" "t = set_phase r k (Recording l st) s"
  | (persist) l st now ok where "id_req s r = Some (k, Recording l st)" "a = Persist now ok"
      "t = set_phase r k (leave l (Passed st)) (writeIdempotencyRecord k st now ok s)"
  | (closing) rep where "id_req s r = Some (k, ClosingCh rep)" "t = set_phase r k (Deleting rep) (s\<lparr>id_closed := insert r (id_closed s)\<rparr>)"
  | (deleting) rep where "id_req s r = Some (k, Deleting rep)"
      "t = set_phase r k (Answered rep) (s\<lparr>id_inFlight := (id_inFlight s)(k := None)\<rparr>)"
proof (cases a)
  case (Arrive meth key)
  then have n: "id_req s r = None" using assms(1) by (cases "id_req s r") (simp_all add: idem_step_def)
  then show ?thesis using Arrive assms lead wait
    by (auto simp: idem_step_def set_phase_def Acquire_def Let_def split: if_splits option.splits)
next
  case Wake
  then show ?thesis using assms wake by (auto simp: idem_step_def set_phase_def split: if_splits option.splits phase.splits)
next
  case (Check err)
  then show ?thesis using assms fail found start
    by (auto simp: idem_step_def set_phase_def split: if_splits option.splits phase.splits)
next
  case (Return st)
  then show ?thesis using assms back_from by (auto simp: idem_step_def set_phase_def split: option.splits phase.splits)
next
  case (Persist now ok)
  then show ?thesis using assms persist by (auto simp: idem_step_def set_phase_def split: option.splits phase.splits)
next
  case CloseDone
  then show ?thesis using assms closing by (auto simp: idem_step_def set_phase_def split: option.splits phase.splits)
next
  case DeleteKey
  then show ?thesis using assms deleting by (auto simp: idem_step_def set_phase_def split: option.splits phase.splits)
qed

lemma phase_of_set: "id_req (set_phase r k ph s) r = Some (k, ph)"
  by (simp add: set_phase_def)

text \<open>Only a request that is passed through leaves the system as it was.\<close>

lemma same_step:
  assumes "idem_step r a s = Some s"
  shows "starts k (Step r a) s = 0"
proof -
  have "id_req s r = None \<or> (\<exists>meth. a = Arrive meth [])"
    using assms
    by (cases a; cases "id_req s r") (auto simp: idem_step_def Let_def leave_def split: option.splits phase.splits if_splits prod.splits
      dest!: arg_cong [where f = "\<lambda>x. id_req x r"] simp: phase_of_set)
  then show ?thesis
    using assms by (auto simp: starts_def idem_step_def split: option.splits phase.splits if_splits)
qed

text \<open>A request under the key moves, with leaders and record as they were.\<close>

lemma fresh_move:
  assumes "fresh_inv k s" "fresh_phase (id_inFlight s k) r ph"
  shows "fresh_inv k (set_phase r k ph s)"
  using assms by (auto simp: fresh_inv_def set_phase_def readIdempotencyRecord_def open_leader_def)

lemma run_move:
  assumes "run_inv k s" "run_phase (id_inFlight s k) r ph"
  shows "run_inv k (set_phase r k ph s)"
  using assms by (auto simp: run_inv_def set_phase_def readIdempotencyRecord_def open_leader_def)

lemma calm_move:
  assumes "calm_inv k s" "calm_phase ph" "id_req t = id_req s" "id_db t = id_db s"
  shows "calm_inv k (set_phase r k ph t)"
  using assms by (auto simp: calm_inv_def set_phase_def readIdempotencyRecord_def)

lemma starts_set: "starts k (Step r a) (set_phase r k ph t) = (case ph of Running _ \<Rightarrow> 1 | _ \<Rightarrow> 0)"
  by (cases ph) (simp_all add: starts_def set_phase_def)

lemma fresh_step:
  assumes "k \<noteq> []" "fresh_inv k s" "idem_step r a s = Some t" "\<not> spoils k (Step r a) s"
  shows "fresh_inv k t \<and> starts k (Step r a) t = 0 \<or> run_inv k t \<and> starts k (Step r a) t = 1"
proof -
  have f: "readIdempotencyRecord k s = None" "open_leader k s" "\<And>r ph. id_req s r = Some (k, ph) \<Longrightarrow> fresh_phase (id_inFlight s k) r ph"
    using assms(2) by (simp_all add: fresh_inv_def)
  consider (same) "t = s" | (other) "t \<noteq> s" "fst (the (id_req t r)) \<noteq> k" | (own) "t \<noteq> s" "fst (the (id_req t r)) = k" by blast
  then show ?thesis
  proof cases
    case same
    then show ?thesis using same_step [of r a s k] assms(2,3) by simp
  next
    case other
    note w = other_key [OF assms(3) other]
    have "fresh_phase (id_inFlight t k) r' ph" if "id_req t r' = Some (k, ph)" for r' ph
      using f(3) [OF w(4) [OF that]] w(2) by (auto simp: fresh_phase_def split: phase.splits)
    then show ?thesis using f(1,2) w(1,3,5) by (simp add: fresh_inv_def)
  next
    case own
    show ?thesis
    proof (cases rule: own_step [OF assms(3) own assms(1), case_names lead wait wake fail found start back_from persist closing deleting])
      case lead
      have none: "id_req s r' \<noteq> Some (k, ph)" for r' ph
        using f(3) [of r' ph] lead(2) by (auto simp: fresh_phase_def split: phase.splits)
      show ?thesis using lead f none
        by (auto simp: fresh_inv_def starts_def fresh_phase_def open_leader_def readIdempotencyRecord_def)
    next
      case (wait c)
      then show ?thesis using fresh_move [OF assms(2), of r "Waiting c"] by (simp add: fresh_phase_def starts_set)
    next
      case (wake c)
      then show ?thesis using f(2) f(3) [OF wake(1)] by (auto simp: fresh_phase_def open_leader_def)
    next
      case (fail l)
      then show ?thesis using assms(4) by (simp add: spoils_def)
    next
      case (start l)
      have l: "l" "id_inFlight s k = Some r" using f(3) [OF start(1)] by (simp_all add: fresh_phase_def)
      have "run_phase (id_inFlight t k) r' ph" if q: "id_req t r' = Some (k, ph)" for r' ph
      proof (cases "r' = r")
        case False
        then have "fresh_phase (id_inFlight s k) r' ph" using f(3) q start(3) by (simp add: set_phase_def)
        then show ?thesis using l False start(3) by (auto simp: fresh_phase_def run_phase_def set_phase_def split: phase.splits)
      qed (use l q start(3) in \<open>auto simp: run_phase_def set_phase_def split: phase.splits\<close>)
      moreover have "open_leader k t" using f(2) start(3) by (auto simp: open_leader_def set_phase_def)
      ultimately have "run_inv k t" using f(1) l start(3) by (simp add: run_inv_def set_phase_def readIdempotencyRecord_def)
      then show ?thesis using start(3) by (simp add: starts_def set_phase_def)
    qed (use f(1) in \<open>auto dest!: f(3) simp: fresh_phase_def\<close>)
  qed
qed

lemma run_step:
  assumes "k \<noteq> []" "run_inv k s" "idem_step r a s = Some t" "\<not> spoils k (Step r a) s"
  shows "(run_inv k t \<or> calm_inv k t) \<and> starts k (Step r a) t = 0"
proof -
  have f: "readIdempotencyRecord k s = None" "open_leader k s" "\<And>r ph. id_req s r = Some (k, ph) \<Longrightarrow> run_phase (id_inFlight s k) r ph"
    "id_inFlight s k \<noteq> None"
    using assms(2) by (simp_all add: run_inv_def)
  consider (same) "t = s" | (other) "t \<noteq> s" "fst (the (id_req t r)) \<noteq> k" | (own) "t \<noteq> s" "fst (the (id_req t r)) = k" by blast
  then show ?thesis
  proof cases
    case same
    then show ?thesis using same_step [of r a s k] assms(2,3) by simp
  next
    case other
    note w = other_key [OF assms(3) other]
    have "run_phase (id_inFlight t k) r' ph" if "id_req t r' = Some (k, ph)" for r' ph
      using f(3) [OF w(4) [OF that]] w(2) by (auto simp: run_phase_def split: phase.splits)
    then show ?thesis using f(1,2,4) w(1,2,3,5) by (simp add: run_inv_def)
  next
    case own
    show ?thesis
    proof (cases rule: own_step [OF assms(3) own assms(1), case_names lead wait wake fail found start back_from persist closing deleting])
      case lead
      then show ?thesis using f(4) by simp
    next
      case (wait c)
      then show ?thesis using run_move [OF assms(2), of r "Waiting c"] by (simp add: run_phase_def starts_set)
    next
      case (wake c)
      then show ?thesis using f(2) f(3) [OF wake(1)] by (auto simp: run_phase_def open_leader_def)
    next
      case (back_from l st)
      then show ?thesis using run_move [OF assms(2), of r "Recording l st"] f(3) [OF back_from(1)]
        by (simp add: run_phase_def starts_set)
    next
      case (persist l st now ok)
      have l: "l" "id_inFlight s k = Some r" using f(3) [OF persist(1)] by (simp_all add: run_phase_def)
      have good: "200 \<le> st" "st < 300" "ok" using assms(4) persist(1,2) by (auto simp: spoils_def)
      have t: "id_req t = (id_req s)(r \<mapsto> (k, ClosingCh (Passed st)))" "readIdempotencyRecord k t \<noteq> None"
        using persist(3) good l(1) by (simp_all add: set_phase_def writeIdempotencyRecord_def readIdempotencyRecord_def leave_def)
      have "calm_phase ph" if q: "id_req t r' = Some (k, ph)" for r' ph
      proof (cases "r' = r")
        case False
        then have "run_phase (id_inFlight s k) r' ph" using f(3) q t(1) by simp
        then show ?thesis using l False by (auto simp: run_phase_def calm_phase_def split: phase.splits)
      qed (use q t(1) in \<open>auto simp: calm_phase_def split: phase.splits\<close>)
      then show ?thesis using t by (simp add: calm_inv_def starts_def)
    qed (use f(1) in \<open>auto dest!: f(3) simp: run_phase_def\<close>)
  qed
qed

lemma calm_step:
  assumes "k \<noteq> []" "calm_inv k s" "idem_step r a s = Some t"
  shows "calm_inv k t \<and> starts k (Step r a) t = 0"
proof -
  have f: "readIdempotencyRecord k s \<noteq> None" "\<And>r ph. id_req s r = Some (k, ph) \<Longrightarrow> calm_phase ph"
    using assms(2) by (simp_all add: calm_inv_def)
  consider (same) "t = s" | (other) "t \<noteq> s" "fst (the (id_req t r)) \<noteq> k" | (own) "t \<noteq> s" "fst (the (id_req t r)) = k" by blast
  then show ?thesis
  proof cases
    case same
    then show ?thesis using same_step [of r a s k] assms(2,3) by simp
  next
    case other
    note w = other_key [OF assms(3) other]
    show ?thesis using f(1) w(1,5) f(2) [OF w(4)] by (auto simp: calm_inv_def)
  next
    case own
    show ?thesis
    proof (cases rule: own_step [OF assms(3) own assms(1), case_names lead wait wake fail found start back_from persist closing deleting])
      case lead
      then show ?thesis using f by (auto simp: calm_inv_def starts_def calm_phase_def readIdempotencyRecord_def)
    next
      case (start l)
      then show ?thesis using f(1) by simp
    next
      case (back_from l st)
      then show ?thesis using f(2) [OF back_from(1)] by (simp add: calm_phase_def)
    next
      case (persist l st now ok)
      then show ?thesis using f(2) [OF persist(1)] by (simp add: calm_phase_def)
    next
      case (fail l)
      then show ?thesis using calm_move [OF assms(2)] by (simp add: calm_phase_def leave_def starts_set)
    next
      case (found l rec)
      then show ?thesis using calm_move [OF assms(2)] by (simp add: calm_phase_def leave_def starts_set)
    qed (use calm_move [OF assms(2)] in \<open>simp_all add: calm_phase_def starts_set\<close>)
  qed
qed

lemma sweep_inv:
  assumes "\<not> spoils k (Sweep now) s"
  shows "fresh_inv k s \<Longrightarrow> fresh_inv k (sweepOldKeys now s)" "run_inv k s \<Longrightarrow> run_inv k (sweepOldKeys now s)"
    "calm_inv k s \<Longrightarrow> calm_inv k (sweepOldKeys now s)"
proof -
  have fields: "id_req (sweepOldKeys now s) = id_req s" "id_inFlight (sweepOldKeys now s) = id_inFlight s"
    "id_closed (sweepOldKeys now s) = id_closed s"
    by (simp_all add: sweepOldKeys_def Let_def)
  have none: "readIdempotencyRecord k s = None \<Longrightarrow> readIdempotencyRecord k (sweepOldKeys now s) = None"
    by (auto simp: sweepOldKeys_def readIdempotencyRecord_def Let_def split: option.splits stored.splits)
  have ph: "open_leader k (sweepOldKeys now s) = open_leader k s" by (simp add: open_leader_def fields)
  show "fresh_inv k s \<Longrightarrow> fresh_inv k (sweepOldKeys now s)" "run_inv k s \<Longrightarrow> run_inv k (sweepOldKeys now s)"
    using none by (simp_all add: fresh_inv_def run_inv_def ph fields)
  show "calm_inv k s \<Longrightarrow> calm_inv k (sweepOldKeys now s)"
    using assms fields by (auto simp: calm_inv_def spoils_def)
qed

text \<open>Handler starts that are still possible: one, none.\<close>

lemma calm_run:
  assumes "k \<noteq> []" "calm_inv k s" "\<not> spoiled k evs s" "idem_run evs s = Some t"
  shows "handler_starts k evs s = 0"
  using assms(2-4)
proof (induction evs arbitrary: s)
  case (Cons ev evs)
  obtain u where u: "idem_event ev s = Some u" "idem_run evs u = Some t" using Cons.prems(3) by (auto split: option.splits)
  have "calm_inv k u \<and> starts k ev u = 0"
  proof (cases ev)
    case (Step r a)
    then show ?thesis using calm_step [OF assms(1) Cons.prems(1), of r a u] u(1) by simp
  next
    case (Sweep now)
    then show ?thesis using sweep_inv(3) [of k now s] Cons.prems u(1) by (auto simp: starts_def)
  qed
  then show ?case using Cons.IH [of u] Cons.prems(2) u by (simp add: handler_starts_Cons del: handler_starts.simps)
qed simp

lemma run_run:
  assumes "k \<noteq> []" "run_inv k s" "\<not> spoiled k evs s" "idem_run evs s = Some t"
  shows "handler_starts k evs s = 0"
  using assms(2-4)
proof (induction evs arbitrary: s)
  case (Cons ev evs)
  obtain u where u: "idem_event ev s = Some u" "idem_run evs u = Some t" using Cons.prems(3) by (auto split: option.splits)
  have "(run_inv k u \<or> calm_inv k u) \<and> starts k ev u = 0"
  proof (cases ev)
    case (Step r a)
    then show ?thesis using run_step [OF assms(1) Cons.prems(1), of r a u] Cons.prems(2) u(1) by simp
  next
    case (Sweep now)
    then show ?thesis using sweep_inv(2) [of k now s] Cons.prems u(1) by (auto simp: starts_def)
  qed
  then show ?case using Cons.IH [of u] calm_run [OF assms(1), of u evs t] Cons.prems(2) u
    by (auto simp add: handler_starts_Cons simp del: handler_starts.simps)
qed simp

lemma fresh_run:
  assumes "k \<noteq> []" "fresh_inv k s" "\<not> spoiled k evs s" "idem_run evs s = Some t"
  shows "handler_starts k evs s \<le> 1"
  using assms(2-4)
proof (induction evs arbitrary: s)
  case (Cons ev evs)
  obtain u where u: "idem_event ev s = Some u" "idem_run evs u = Some t" using Cons.prems(3) by (auto split: option.splits)
  have "fresh_inv k u \<and> starts k ev u = 0 \<or> run_inv k u \<and> starts k ev u = 1"
  proof (cases ev)
    case (Step r a)
    then show ?thesis using fresh_step [OF assms(1) Cons.prems(1), of r a u] Cons.prems(2) u(1) by simp
  next
    case (Sweep now)
    then show ?thesis using sweep_inv(1) [of k now s] Cons.prems u(1) by (auto simp: starts_def)
  qed
  then show ?case using Cons.IH [of u] run_run [OF assms(1), of u evs t] Cons.prems(2) u
    by (auto simp add: handler_starts_Cons simp del: handler_starts.simps)
qed simp

section \<open>Properties\<close>

text \<open>
  C26: the middleware runs a request once: in every interleaving of requests and sweeps, from
  any stored records, the wrapped handler starts at most once under a key, and not at all if
  the key has a record, as long as no run under the key ends without its record being stored,
  no read of the record fails, and no sweep removes it.
\<close>

theorem idempotent_once:
  assumes "idem_run evs (idem_init db) = Some s" "key \<noteq> ''''" "\<not> spoiled key evs (idem_init db)"
  shows "handler_starts key evs (idem_init db) \<le>
    (case readIdempotencyRecord key (idem_init db) of None \<Rightarrow> 1 | Some _ \<Rightarrow> 0)"
proof (cases "readIdempotencyRecord key (idem_init db)")
  case None
  then have "fresh_inv key (idem_init db)" by (simp add: fresh_inv_def open_leader_def idem_init_def)
  then show ?thesis using fresh_run [OF assms(2) _ assms(3,1)] None by simp
next
  case (Some rec)
  then have "calm_inv key (idem_init db)" by (simp add: calm_inv_def idem_init_def)
  then show ?thesis using calm_run [OF assms(2) _ assms(3,1)] Some by simp
qed

text \<open>Two requests under one key, the second arriving while the first runs.\<close>

definition two_requests :: "event list" where
  "two_requests = [Step 1 (Arrive ''POST'' ''k''), Step 1 (Check False), Step 2 (Arrive ''POST'' ''k''), Step 1 (Return 201),
     Step 1 (Persist 1000 True), Step 1 CloseDone, Step 2 Wake, Step 2 (Check False), Step 1 DeleteKey]"

lemmas idem_eval = idem_step_def set_phase_def leave_def Acquire_def writeIdempotencyRecord_def readIdempotencyRecord_def
  Let_def idem_init_def sweepOldKeys_def spoils_def keyTTL_def

lemma two_requests_run:
  "\<exists>s. idem_run two_requests (idem_init Map.empty) = Some s \<and>
     id_req s 2 = Some (''k'', Answered (ConflictWith \<lparr>rc_Status = 201, rc_Timestamp = 1000\<rparr>))"
  "\<not> spoiled ''k'' two_requests (idem_init Map.empty)"
  by (simp_all add: two_requests_def idem_eval)

theorem idempotent_once_witness:
  "handler_starts ''k'' two_requests (idem_init Map.empty) \<le> 1"
proof -
  obtain s where "idem_run two_requests (idem_init Map.empty) = Some s" using two_requests_run(1) by blast
  from idempotent_once [OF this _ two_requests_run(2)] show ?thesis
    by (simp add: readIdempotencyRecord_def idem_init_def)
qed

text \<open>
  A failed leader releases the herd: when the first of three requests under a key fails,
  both that waited for it run the wrapped handler at the same time, and both can succeed.
\<close>

definition herd :: "event list" where
  "herd = [Step 1 (Arrive ''POST'' ''k''), Step 1 (Check False), Step 2 (Arrive ''POST'' ''k''), Step 3 (Arrive ''POST'' ''k''),
     Step 1 (Return 500), Step 1 (Persist 1000 True), Step 1 CloseDone, Step 1 DeleteKey, Step 2 Wake, Step 3 Wake,
     Step 2 (Check False), Step 3 (Check False), Step 2 (Return 200), Step 3 (Return 200),
     Step 2 (Persist 1001 True), Step 3 (Persist 1001 True)]"

lemma failed_leader_releases_herd:
  "handler_starts ''k'' herd (idem_init Map.empty) = 3 \<and>
   (\<exists>s. idem_run herd (idem_init Map.empty) = Some s \<and>
     id_req s 2 = Some (''k'', Answered (Passed 200)) \<and> id_req s 3 = Some (''k'', Answered (Passed 200)))"
  by (simp add: herd_def idem_eval)

end
