(* ===== verification/Graph_Dag.thy ===== *)
theory Graph_Dag
  imports Neo_Prelude
begin

text \<open>
  The dependency graph of \<^verbatim>\<open>pkg/graph/dag.go\<close> and its strongly connected components by Tarjan's
  algorithm. The map of edges is a list in the order of one iteration over it. The fields of the
  search that are set once form \<open>tarjan_graph\<close>, the arrays and the stack \<open>tarjanState\<close>; the top of
  the stack is the head of its list. Recursion has a fuel; \<^const>\<open>None\<close> is running out of it, or
  the panic of popping an empty stack.
\<close>

section \<open>The graph\<close>

record DAG =
  dg_Edges :: "(string \<times> string list) list"

definition NewDAG :: DAG where
  "NewDAG = \<lparr>dg_Edges = []\<rparr>"

fun append_at :: "string \<Rightarrow> string \<Rightarrow> (string \<times> string list) list \<Rightarrow> (string \<times> string list) list" where
  "append_at from_node to_node [] = [(from_node, [to_node])]"
| "append_at from_node to_node ((k, ts) # es) =
     (if k = from_node then (k, ts @ [to_node]) # es else (k, ts) # append_at from_node to_node es)"

definition AddEdge :: "string \<Rightarrow> string \<Rightarrow> DAG \<Rightarrow> DAG" where
  "AddEdge from_node to_node d = d\<lparr>dg_Edges := append_at from_node to_node (dg_Edges d)\<rparr>"

section \<open>The search\<close>

record tarjan_graph =
  tg_edges :: "(string \<times> string list) list"
  tg_nodeList :: "string list"
  tg_nodeIndex :: "(string \<times> nat) list"

record tarjanState =
  ts_index :: "int list"
  ts_lowlink :: "int list"
  ts_onStack :: "bool list"
  ts_stack :: "nat list"
  ts_time :: int
  ts_sccs :: "string list list"

definition add_node :: "string \<Rightarrow> (string \<times> nat) list \<times> string list \<Rightarrow> (string \<times> nat) list \<times> string list" where
  "add_node x = (\<lambda>(nodeIndex, nodeList).
     if map_of nodeIndex x = None then ((x, length nodeList) # nodeIndex, nodeList @ [x]) else (nodeIndex, nodeList))"

definition newTarjanState :: "(string \<times> string list) list \<Rightarrow> tarjan_graph \<times> tarjanState" where
  "newTarjanState edges =
     (let (nodeIndex, nodeList) = fold (\<lambda>(from_node, toList) p. fold add_node toList (add_node from_node p)) edges ([], []);
          n = length nodeList
      in (\<lparr>tg_edges = edges, tg_nodeList = nodeList, tg_nodeIndex = nodeIndex\<rparr>,
          \<lparr>ts_index = replicate n (- 1), ts_lowlink = replicate n 0, ts_onStack = replicate n False,
           ts_stack = [], ts_time = 0, ts_sccs = []\<rparr>))"

text \<open>A missing key of a Go map reads as nil, or zero.\<close>

definition out_edges :: "tarjan_graph \<Rightarrow> string \<Rightarrow> string list" where
  "out_edges G x = (case map_of (tg_edges G) x of Some ts \<Rightarrow> ts | None \<Rightarrow> [])"

definition node_index :: "tarjan_graph \<Rightarrow> string \<Rightarrow> nat" where
  "node_index G x = (case map_of (tg_nodeIndex G) x of Some i \<Rightarrow> i | None \<Rightarrow> 0)"

fun pop_until :: "nat \<Rightarrow> nat list \<Rightarrow> (nat list \<times> nat list) option" where
  "pop_until v [] = None"
| "pop_until v (w # st) =
     (if w = v then Some ([w], st)
      else case pop_until v st of None \<Rightarrow> None | Some (popped, rest) \<Rightarrow> Some (w # popped, rest))"

definition processComponent :: "tarjan_graph \<Rightarrow> nat \<Rightarrow> tarjanState \<Rightarrow> tarjanState option" where
  "processComponent G v s =
     (if ts_lowlink s ! v = ts_index s ! v
      then (case pop_until v (ts_stack s) of
              None \<Rightarrow> None
            | Some (popped, rest) \<Rightarrow>
                Some (s\<lparr>ts_stack := rest, ts_onStack := fold (\<lambda>w on. on[w := False]) popped (ts_onStack s),
                       ts_sccs := ts_sccs s @ [List.map (\<lambda>w. tg_nodeList G ! w) popped]\<rparr>))
      else Some s)"

definition push_node :: "nat \<Rightarrow> tarjanState \<Rightarrow> tarjanState" where
  "push_node v s =
     s\<lparr>ts_index := (ts_index s)[v := ts_time s], ts_lowlink := (ts_lowlink s)[v := ts_time s], ts_time := ts_time s + 1,
       ts_stack := v # ts_stack s, ts_onStack := (ts_onStack s)[v := True]\<rparr>"

definition lower :: "nat \<Rightarrow> int \<Rightarrow> tarjanState \<Rightarrow> tarjanState" where
  "lower v l s = (if l < ts_lowlink s ! v then s\<lparr>ts_lowlink := (ts_lowlink s)[v := l]\<rparr> else s)"

fun strongConnect :: "tarjan_graph \<Rightarrow> nat \<Rightarrow> nat \<Rightarrow> tarjanState \<Rightarrow> tarjanState option"
  and visit :: "tarjan_graph \<Rightarrow> nat \<Rightarrow> nat \<Rightarrow> string list \<Rightarrow> tarjanState \<Rightarrow> tarjanState option" where
  "strongConnect G 0 v s = None"
| "strongConnect G (Suc fuel) v s =
     (case visit G fuel v (out_edges G (tg_nodeList G ! v)) (push_node v s) of
        None \<Rightarrow> None
      | Some s1 \<Rightarrow> processComponent G v s1)"
| "visit G fuel v [] s = Some s"
| "visit G fuel v (wStr # ws) s =
     (let w = node_index G wStr
      in if ts_index s ! w = - 1
         then (case strongConnect G fuel w s of
                 None \<Rightarrow> None
               | Some s1 \<Rightarrow> visit G fuel v ws (lower v (ts_lowlink s1 ! w) s1))
         else if ts_onStack s ! w then visit G fuel v ws (lower v (ts_index s ! w) s)
         else visit G fuel v ws s)"

fun scan_nodes :: "tarjan_graph \<Rightarrow> nat \<Rightarrow> nat list \<Rightarrow> tarjanState \<Rightarrow> tarjanState option" where
  "scan_nodes G fuel [] s = Some s"
| "scan_nodes G fuel (i # is) s =
     (if ts_index s ! i = - 1
      then (case strongConnect G fuel i s of None \<Rightarrow> None | Some s1 \<Rightarrow> scan_nodes G fuel is s1)
      else scan_nodes G fuel is s)"

definition TarjanSCC :: "DAG \<Rightarrow> string list list option" where
  "TarjanSCC d =
     (let (G, s) = newTarjanState (dg_Edges d); n = length (tg_nodeList G)
      in if n = 0 then Some []
         else case scan_nodes G n [0..<n] s of None \<Rightarrow> None | Some s1 \<Rightarrow> Some (ts_sccs s1))"

section \<open>The numbering of the nodes\<close>

text \<open>The index of a node is its place in the node list.\<close>

definition numbered :: "(string \<times> nat) list \<times> string list \<Rightarrow> bool" where
  "numbered = (\<lambda>(ix, nl). distinct nl \<and> (\<forall>x i. map_of ix x = Some i \<longleftrightarrow> i < length nl \<and> nl ! i = x))"

lemma numbered_None:
  assumes "numbered (ix, nl)"
  shows "map_of ix x = None \<longleftrightarrow> x \<notin> set nl"
proof -
  have "map_of ix x \<noteq> None \<longleftrightarrow> x \<in> set nl"
    using assms unfolding numbered_def in_set_conv_nth by auto
  then show ?thesis by blast
qed

lemma add_node_numbered:
  assumes "numbered p"
  shows "numbered (add_node x p) \<and> set (snd (add_node x p)) = insert x (set (snd p))"
proof -
  obtain ix nl where p: "p = (ix, nl)" by fastforce
  show ?thesis
  proof (cases "map_of ix x")
    case None
    then have "x \<notin> set nl" using assms numbered_None [of ix nl x] by (simp add: p)
    then show ?thesis using assms None unfolding numbered_def
      by (auto simp: p add_node_def nth_append less_Suc_eq)
  next
    case (Some i)
    then have "x \<in> set nl" using assms numbered_None [of ix nl x] by (simp add: p)
    then show ?thesis using assms Some by (auto simp: p add_node_def)
  qed
qed

lemma add_nodes_numbered:
  "numbered p \<Longrightarrow> numbered (fold add_node xs p) \<and> set (snd (fold add_node xs p)) = set xs \<union> set (snd p)"
  by (induction xs arbitrary: p) (simp_all add: add_node_numbered)

lemma nodes_numbered:
  "numbered p \<Longrightarrow> numbered (fold (\<lambda>(from_node, toList) p. fold add_node toList (add_node from_node p)) edges p) \<and>
    set (snd (fold (\<lambda>(from_node, toList) p. fold add_node toList (add_node from_node p)) edges p)) =
      fst ` set edges \<union> (\<Union>(x, ts)\<in>set edges. set ts) \<union> set (snd p)"
proof (induction edges arbitrary: p)
  case (Cons e es)
  obtain x ts where e: "e = (x, ts)" by fastforce
  have a: "numbered (add_node x p)" "set (snd (add_node x p)) = insert x (set (snd p))"
    using add_node_numbered [OF Cons.prems] by auto
  have b: "numbered (fold add_node ts (add_node x p))" "set (snd (fold add_node ts (add_node x p))) = set ts \<union> insert x (set (snd p))"
    using add_nodes_numbered [OF a(1)] a(2) by auto
  show ?case using Cons.IH [OF b(1)] b(2) by (auto simp: e)
qed simp

definition graph_ok :: "tarjan_graph \<Rightarrow> bool" where
  "graph_ok G \<longleftrightarrow> numbered (tg_nodeIndex G, tg_nodeList G) \<and>
     (\<forall>x ts. map_of (tg_edges G) x = Some ts \<longrightarrow> x \<in> set (tg_nodeList G) \<and> set ts \<subseteq> set (tg_nodeList G))"

lemma new_graph_ok:
  assumes "newTarjanState edges = (G, s)"
  shows "graph_ok G" "tg_edges G = edges" "set (tg_nodeList G) = fst ` set edges \<union> (\<Union>(x, ts)\<in>set edges. set ts)"
    "s = \<lparr>ts_index = replicate (length (tg_nodeList G)) (- 1), ts_lowlink = replicate (length (tg_nodeList G)) 0,
       ts_onStack = replicate (length (tg_nodeList G)) False, ts_stack = [], ts_time = 0, ts_sccs = []\<rparr>"
proof -
  obtain ix nl where p: "fold (\<lambda>(from_node, toList) p. fold add_node toList (add_node from_node p)) edges ([], []) = (ix, nl)" by fastforce
  have G: "G = \<lparr>tg_edges = edges, tg_nodeList = nl, tg_nodeIndex = ix\<rparr>"
    using assms by (simp add: newTarjanState_def p Let_def)
  show "s = \<lparr>ts_index = replicate (length (tg_nodeList G)) (- 1), ts_lowlink = replicate (length (tg_nodeList G)) 0,
       ts_onStack = replicate (length (tg_nodeList G)) False, ts_stack = [], ts_time = 0, ts_sccs = []\<rparr>"
    using assms by (auto simp: newTarjanState_def p Let_def)
  have "numbered ([], [])" by (simp add: numbered_def)
  from nodes_numbered [OF this, of edges] have n: "numbered (ix, nl)" "set nl = fst ` set edges \<union> (\<Union>(x, ts)\<in>set edges. set ts)"
    by (simp_all add: p)
  then show "set (tg_nodeList G) = fst ` set edges \<union> (\<Union>(x, ts)\<in>set edges. set ts)" "tg_edges G = edges" by (simp_all add: G)
  show "graph_ok G"
    using n by (force simp: graph_ok_def G dest: map_of_SomeD)
qed

section \<open>Edges between indices\<close>

definition succs :: "tarjan_graph \<Rightarrow> nat \<Rightarrow> nat list" where
  "succs G v = List.map (node_index G) (out_edges G (tg_nodeList G ! v))"

lemma graph_okD:
  assumes "graph_ok G"
  shows "distinct (tg_nodeList G)"
    "map_of (tg_nodeIndex G) x = Some i \<longleftrightarrow> i < length (tg_nodeList G) \<and> tg_nodeList G ! i = x"
    "map_of (tg_edges G) x = Some ts \<Longrightarrow> y \<in> set ts \<Longrightarrow> y \<in> set (tg_nodeList G)"
  using assms unfolding graph_ok_def numbered_def by blast+

lemma index_of_nth:
  assumes "graph_ok G" "i < length (tg_nodeList G)"
  shows "node_index G (tg_nodeList G ! i) = i"
proof -
  have "map_of (tg_nodeIndex G) (tg_nodeList G ! i) = Some i" using graph_okD(2) [OF assms(1)] assms(2) by blast
  then show ?thesis by (simp add: node_index_def)
qed

lemma node_index_nth:
  assumes "graph_ok G" "x \<in> set (tg_nodeList G)"
  shows "node_index G x < length (tg_nodeList G)" "tg_nodeList G ! node_index G x = x"
proof -
  obtain i where "i < length (tg_nodeList G)" "tg_nodeList G ! i = x" using assms(2) by (auto simp: in_set_conv_nth)
  then show "node_index G x < length (tg_nodeList G)" "tg_nodeList G ! node_index G x = x"
    using index_of_nth [OF assms(1), of i] by auto
qed

lemma succs_bound:
  assumes "graph_ok G" "w \<in> set (succs G v)"
  shows "w < length (tg_nodeList G)"
proof -
  obtain x ts where "w = node_index G x" "map_of (tg_edges G) (tg_nodeList G ! v) = Some ts" "x \<in> set ts"
    using assms(2) by (cases "map_of (tg_edges G) (tg_nodeList G ! v)") (auto simp: succs_def out_edges_def)
  then show ?thesis using node_index_nth(1) [OF assms(1)] graph_okD(3) [OF assms(1)] by blast
qed

end
