(* ===== verification/Graph_Tarjan.thy ===== *)
theory Graph_Tarjan
  imports Graph_Dag "HOL-Library.Multiset"
begin

text \<open>
  Correctness of the search of \<^verbatim>\<open>pkg/graph/dag.go\<close>: the invariant of the arrays, the stack and the
  components found, how each step keeps it, and the property of \<open>TarjanSCC\<close>. The nodes on the
  recursion stack are a ghost argument of the invariant.
\<close>

section \<open>Reachability and components\<close>

definition arcs :: "tarjan_graph \<Rightarrow> (nat \<times> nat) set" where
  "arcs G = {(v, w). v < length (tg_nodeList G) \<and> w \<in> set (succs G v)}"

definition closed_in :: "('a \<times> 'a) set \<Rightarrow> 'a set \<Rightarrow> bool" where
  "closed_in E S \<longleftrightarrow> (\<forall>v w. v \<in> S \<longrightarrow> (v, w) \<in> E \<longrightarrow> w \<in> S)"

definition component :: "('a \<times> 'a) set \<Rightarrow> 'a set \<Rightarrow> bool" where
  "component E C \<longleftrightarrow> C \<noteq> {} \<and> (\<forall>x y. x \<in> C \<longrightarrow> (y \<in> C \<longleftrightarrow> (x, y) \<in> E\<^sup>* \<and> (y, x) \<in> E\<^sup>*))"

lemma closed_reach: "(x, y) \<in> E\<^sup>* \<Longrightarrow> closed_in E S \<Longrightarrow> x \<in> S \<Longrightarrow> y \<in> S"
  by (induction rule: rtrancl_induct) (auto simp: closed_in_def)

lemma arcs_bound: "graph_ok G \<Longrightarrow> (v, w) \<in> arcs G \<Longrightarrow> v < length (tg_nodeList G) \<and> w < length (tg_nodeList G)"
  by (auto simp: arcs_def succs_bound)

section \<open>Invariant\<close>

abbreviation idx :: "tarjanState \<Rightarrow> nat \<Rightarrow> int" where "idx s v \<equiv> ts_index s ! v"
abbreviation low :: "tarjanState \<Rightarrow> nat \<Rightarrow> int" where "low s v \<equiv> ts_lowlink s ! v"

definition arrays_ok :: "nat \<Rightarrow> tarjanState \<Rightarrow> bool" where
  "arrays_ok n s \<longleftrightarrow>
     length (ts_index s) = n \<and> length (ts_lowlink s) = n \<and> length (ts_onStack s) = n \<and> 0 \<le> ts_time s \<and>
     (\<forall>v<n. - 1 \<le> idx s v \<and> idx s v < ts_time s) \<and> (\<forall>v<n. ts_onStack s ! v \<longleftrightarrow> v \<in> set (ts_stack s)) \<and>
     sorted_wrt (\<lambda>a b. idx s b < idx s a) (ts_stack s) \<and> (\<forall>v\<in>set (ts_stack s). v < n \<and> idx s v \<noteq> - 1)"

definition finished :: "nat \<Rightarrow> tarjanState \<Rightarrow> nat set" where
  "finished n s = {v. v < n \<and> idx s v \<noteq> - 1 \<and> v \<notin> set (ts_stack s)}"

definition unvisited :: "nat \<Rightarrow> tarjanState \<Rightarrow> nat set" where
  "unvisited n s = {v. v < n \<and> idx s v = - 1}"

definition comps_ok :: "tarjan_graph \<Rightarrow> nat set \<Rightarrow> string list list \<Rightarrow> bool" where
  "comps_ok G D sccs \<longleftrightarrow>
     (\<exists>cs. sccs = List.map (List.map (\<lambda>w. tg_nodeList G ! w)) cs \<and> distinct (concat cs) \<and> set (concat cs) = D \<and>
        (\<forall>c\<in>set cs. component (arcs G) (set c)) \<and> (\<forall>k. closed_in (arcs G) (set (concat (take k cs)))))"

definition dfs_ok :: "tarjan_graph \<Rightarrow> nat set \<Rightarrow> tarjanState \<Rightarrow> bool" where
  "dfs_ok G g s \<longleftrightarrow>
     arrays_ok (length (tg_nodeList G)) s \<and> comps_ok G (finished (length (tg_nodeList G)) s) (ts_sccs s) \<and>
     g \<subseteq> set (ts_stack s) \<and>
     (\<forall>v\<in>set (ts_stack s) - g. \<forall>w. (v, w) \<in> arcs G \<longrightarrow> idx s w \<noteq> - 1) \<and>
     (\<forall>x\<in>set (ts_stack s). \<exists>y\<in>g. idx s y \<le> idx s x \<and> (x, y) \<in> (arcs G)\<^sup>*) \<and>
     (\<forall>y\<in>g. \<forall>x\<in>set (ts_stack s). idx s y \<le> idx s x \<longrightarrow> (y, x) \<in> (arcs G)\<^sup>*)"

text \<open>What a call leaves alone: visited nodes keep their index, and their low link unless excepted.\<close>

definition frame :: "nat \<Rightarrow> nat set \<Rightarrow> tarjanState \<Rightarrow> tarjanState \<Rightarrow> bool" where
  "frame n X s t \<longleftrightarrow> (\<forall>u<n. idx s u \<noteq> - 1 \<longrightarrow> idx t u = idx s u \<and> (u \<notin> X \<longrightarrow> low t u = low s u))"

lemma frame_trans: "frame n X s t \<Longrightarrow> frame n X t u \<Longrightarrow> frame n X s u"
  by (simp add: frame_def)

lemma frame_mono: "frame n X s t \<Longrightarrow> X \<subseteq> Y \<Longrightarrow> frame n Y s t"
  by (auto simp: frame_def)

lemma frame_unvisited: "frame n X s t \<Longrightarrow> unvisited n t \<subseteq> unvisited n s"
  by (force simp: frame_def unvisited_def)

text \<open>
  During the loop of node \<open>v\<close> over its successors, of which \<open>pd\<close> are done: the stack is \<open>v\<close> on
  the stack before the call, with new nodes above; its low link is the index of a node on the
  stack that \<open>v\<close> reaches, and bounds the indices of all old nodes that new nodes and done
  successors point to.
\<close>

definition loop_inv :: "tarjan_graph \<Rightarrow> nat set \<Rightarrow> nat \<Rightarrow> nat list \<Rightarrow> nat set \<Rightarrow> tarjanState \<Rightarrow> bool" where
  "loop_inv G g v old pd s \<longleftrightarrow>
     dfs_ok G (insert v g) s \<and> g \<subseteq> set old \<and> low s v \<le> idx s v \<and>
     (\<exists>y\<in>set (ts_stack s). idx s y = low s v \<and> (v, y) \<in> (arcs G)\<^sup>*) \<and>
     (\<exists>new. ts_stack s = new @ v # old \<and> (\<forall>x\<in>set new. \<forall>z\<in>set old. (x, z) \<in> arcs G \<longrightarrow> low s v \<le> idx s z)) \<and>
     (\<forall>w\<in>pd. w < length (tg_nodeList G) \<and> idx s w \<noteq> - 1 \<and> (w \<in> set old \<longrightarrow> low s v \<le> idx s w))"

definition call_post :: "tarjan_graph \<Rightarrow> nat set \<Rightarrow> nat \<Rightarrow> tarjanState \<Rightarrow> tarjanState \<Rightarrow> bool" where
  "call_post G g v s t \<longleftrightarrow>
     dfs_ok G g t \<and> frame (length (tg_nodeList G)) {} s t \<and> idx t v = ts_time s \<and> low t v \<le> idx t v \<and>
     (v \<in> set (ts_stack t) \<longrightarrow> (\<exists>y\<in>set (ts_stack t). idx t y = low t v \<and> (v, y) \<in> (arcs G)\<^sup>*)) \<and>
     (v \<notin> set (ts_stack t) \<longrightarrow> low t v = idx t v) \<and>
     (\<exists>new. ts_stack t = new @ ts_stack s \<and> (\<forall>x\<in>set new. \<forall>z\<in>set (ts_stack s). (x, z) \<in> arcs G \<longrightarrow> low t v \<le> idx t z))"

section \<open>Steps\<close>

lemma sorted_wrt_distinct: "sorted_wrt (\<lambda>a b. (f b :: int) < f a) xs \<Longrightarrow> distinct xs"
  by (induction xs) auto

lemma nth_upd: "i < length xs \<Longrightarrow> xs[i := x] ! j = (if i = j then x else xs ! j)"
  by simp

lemma push_ok:
  assumes "graph_ok G" "dfs_ok G g s" "v < length (tg_nodeList G)" "idx s v = - 1" "\<forall>y\<in>g. (y, v) \<in> (arcs G)\<^sup>*"
  defines "t \<equiv> push_node v s"
  shows "loop_inv G g v (ts_stack s) {} t" "frame (length (tg_nodeList G)) {} s t" "idx t v = ts_time s"
    "unvisited (length (tg_nodeList G)) t = unvisited (length (tg_nodeList G)) s - {v}"
proof -
  let ?n = "length (tg_nodeList G)"
  have a: "arrays_ok ?n s" using assms(2) by (simp add: dfs_ok_def)
  have vs: "v \<notin> set (ts_stack s)" using a assms(4) by (auto simp: arrays_ok_def)
  have len: "length (ts_index s) = ?n" "length (ts_lowlink s) = ?n" "length (ts_onStack s) = ?n" using a by (simp_all add: arrays_ok_def)
  have i: "idx t u = (if u = v then ts_time s else idx s u)" "low t u = (if u = v then ts_time s else low s u)" for u
    using assms(3) len by (simp_all add: t_def push_node_def nth_list_update)
  have st: "ts_stack t = v # ts_stack s" "ts_time t = ts_time s + 1" "ts_sccs t = ts_sccs s" by (simp_all add: t_def push_node_def)
  have old: "idx s x < ts_time s" "x < ?n" "idx s x \<noteq> - 1" if "x \<in> set (ts_stack s)" for x
    using a that by (auto simp: arrays_ok_def)
  have t0: "0 \<le> ts_time s" using a by (simp add: arrays_ok_def)
  have "sorted_wrt (\<lambda>a b. idx t b < idx t a) (ts_stack t)"
  proof -
    have "sorted_wrt (\<lambda>a b. idx s b < idx s a) (ts_stack s)" using a by (simp add: arrays_ok_def)
    then have "sorted_wrt (\<lambda>a b. idx t b < idx t a) (ts_stack s)"
      by (rule sorted_wrt_mono_rel [rotated]) (use vs i in auto)
    then show ?thesis unfolding st using old vs by (auto simp: i)
  qed
  then have at: "arrays_ok ?n t"
    using a assms(3) t0 unfolding arrays_ok_def st i
    by (auto simp: t_def push_node_def nth_list_update)
  have "finished ?n t = finished ?n s" using assms(3,4) t0 by (auto simp: finished_def st i)
  then have "comps_ok G (finished ?n t) (ts_sccs t)" using assms(2) st by (simp add: dfs_ok_def)
  moreover have "\<forall>u\<in>set (ts_stack t) - insert v g. \<forall>w. (u, w) \<in> arcs G \<longrightarrow> idx t w \<noteq> - 1"
    using assms(2) t0 unfolding dfs_ok_def st i by auto
  moreover have "\<forall>x\<in>set (ts_stack t). \<exists>y\<in>insert v g. idx t y \<le> idx t x \<and> (x, y) \<in> (arcs G)\<^sup>*"
  proof
    fix x assume "x \<in> set (ts_stack t)"
    then consider "x = v" | "x \<in> set (ts_stack s)" "x \<noteq> v" using st vs by auto
    then show "\<exists>y\<in>insert v g. idx t y \<le> idx t x \<and> (x, y) \<in> (arcs G)\<^sup>*"
    proof cases
      case 2
      then obtain y where "y \<in> g" "idx s y \<le> idx s x" "(x, y) \<in> (arcs G)\<^sup>*" using assms(2) unfolding dfs_ok_def by blast
      moreover have "y \<noteq> v" using \<open>y \<in> g\<close> vs assms(2) by (auto simp: dfs_ok_def)
      ultimately show ?thesis using 2 by (auto simp: i)
    qed auto
  qed
  moreover have "\<forall>y\<in>insert v g. \<forall>x\<in>set (ts_stack t). idx t y \<le> idx t x \<longrightarrow> (y, x) \<in> (arcs G)\<^sup>*"
  proof (intro ballI impI)
    fix y x assume yx: "y \<in> insert v g" "x \<in> set (ts_stack t)" "idx t y \<le> idx t x"
    have gs: "g \<subseteq> set (ts_stack s)" using assms(2) by (simp add: dfs_ok_def)
    show "(y, x) \<in> (arcs G)\<^sup>*"
    proof (cases "x = v")
      case True
      then show ?thesis using yx assms(5) by auto
    next
      case False
      then have x: "x \<in> set (ts_stack s)" using yx(2) st by auto
      then have "y \<noteq> v" using yx(3) False old(1) [OF x] by (auto simp: i)
      then show ?thesis using yx x False assms(2) gs vs unfolding dfs_ok_def by (auto simp: i split: if_splits)
    qed
  qed
  ultimately have wt: "dfs_ok G (insert v g) t" using at assms(2) by (auto simp: dfs_ok_def st)
  show "loop_inv G g v (ts_stack s) {} t"
    using wt assms(2) by (auto simp: loop_inv_def dfs_ok_def st i)
  show "frame ?n {} s t" using assms(4) by (auto simp: frame_def i)
  show "idx t v = ts_time s" by (simp add: i)
  show "unvisited ?n t = unvisited ?n s - {v}" using t0 by (auto simp: unvisited_def i)
qed

text \<open>Lowering a low link touches nothing else.\<close>

lemma lower_fields [simp]:
  "ts_index (lower v l s) = ts_index s" "ts_stack (lower v l s) = ts_stack s" "ts_onStack (lower v l s) = ts_onStack s"
  "ts_time (lower v l s) = ts_time s" "ts_sccs (lower v l s) = ts_sccs s" "length (ts_lowlink (lower v l s)) = length (ts_lowlink s)"
  by (simp_all add: lower_def)

lemma low_lower: "v < length (ts_lowlink s) \<Longrightarrow> low (lower v l s) u = (if u = v then min l (low s v) else low s u)"
  by (auto simp: lower_def nth_list_update)

lemma dfs_ok_lower [simp]: "dfs_ok G g (lower v l s) \<longleftrightarrow> dfs_ok G g s"
  by (simp add: dfs_ok_def arrays_ok_def finished_def)

lemma loop_bounds:
  assumes "loop_inv G g v old pd s"
  shows "v < length (tg_nodeList G)" "idx s v \<noteq> - 1" "v < length (ts_lowlink s)" "v \<in> set (ts_stack s)" "set old \<subseteq> set (ts_stack s)"
    "\<forall>z\<in>set old. idx s z < idx s v" "idx s v < ts_time s"
  using assms by (auto simp: loop_inv_def dfs_ok_def arrays_ok_def sorted_wrt_append)

lemma loop_stack_step:
  assumes "loop_inv G g v old pd s" "(v, w) \<in> arcs G" "w \<in> set (ts_stack s)"
  shows "loop_inv G g v old (insert w pd) (lower v (idx s w) s)"
proof -
  note b = loop_bounds [OF assms(1)]
  have w: "idx s w \<noteq> - 1" "w < length (tg_nodeList G)" using assms(1,3) by (auto simp: loop_inv_def dfs_ok_def arrays_ok_def)
  have "(v, w) \<in> (arcs G)\<^sup>*" using assms(2) by auto
  then show ?thesis
    using assms(1,3) b(3) w unfolding loop_inv_def dfs_ok_lower lower_fields low_lower [OF b(3)]
    by (force simp: min_def)
qed

lemma loop_done_step:
  assumes "loop_inv G g v old pd s" "w \<notin> set (ts_stack s)" "idx s w \<noteq> - 1" "w < length (tg_nodeList G)"
  shows "loop_inv G g v old (insert w pd) s"
  using assms loop_bounds(5) [OF assms(1)] by (auto simp: loop_inv_def)

lemma loop_call_step:
  assumes "loop_inv G g v old pd s" "call_post G (insert v g) w s t" "(v, w) \<in> arcs G" "idx s w = - 1" "w < length (tg_nodeList G)"
  shows "loop_inv G g v old (insert w pd) (lower v (low t w) t)" "frame (length (tg_nodeList G)) {v} s (lower v (low t w) t)"
proof -
  let ?n = "length (tg_nodeList G)"
  note b = loop_bounds [OF assms(1)]
  have fr: "frame ?n {} s t" and wt: "dfs_ok G (insert v g) t" using assms(2) by (simp_all add: call_post_def)
  have st: "u < ?n \<and> idx s u \<noteq> - 1" if "u \<in> set (ts_stack s)" for u
    using assms(1) that by (auto simp: loop_inv_def dfs_ok_def arrays_ok_def)
  have keep: "idx t u = idx s u" "low t u = low s u" if "u \<in> set (ts_stack s)" for u
    using fr st [OF that] by (auto simp: frame_def)
  have lv: "low t v = low s v" "idx t v = idx s v" using keep [OF b(4)] by auto
  have len: "v < length (ts_lowlink t)" using wt b(1) by (simp add: dfs_ok_def arrays_ok_def)
  let ?l = "min (low t w) (low s v)"
  have lw: "low (lower v (low t w) t) v = ?l" using len lv by (simp add: low_lower)
  obtain new where new: "ts_stack s = new @ v # old" "\<forall>x\<in>set new. \<forall>z\<in>set old. (x, z) \<in> arcs G \<longrightarrow> low s v \<le> idx s z"
    using assms(1) by (auto simp: loop_inv_def)
  obtain new1 where new1: "ts_stack t = new1 @ ts_stack s" "\<forall>x\<in>set new1. \<forall>z\<in>set (ts_stack s). (x, z) \<in> arcs G \<longrightarrow> low t w \<le> idx t z"
    using assms(2) by (auto simp: call_post_def)
  have y: "\<exists>y\<in>set (ts_stack t). idx t y = ?l \<and> (v, y) \<in> (arcs G)\<^sup>*"
  proof (cases "low t w < low s v")
    case True
    have "w \<in> set (ts_stack t)"
    proof (rule ccontr)
      assume "w \<notin> set (ts_stack t)"
      then have "low t w = ts_time s" using assms(2) by (simp add: call_post_def)
      moreover have "low s v \<le> idx s v" using assms(1) by (simp add: loop_inv_def)
      ultimately show False using True b(7) by simp
    qed
    then obtain y where "y \<in> set (ts_stack t)" "idx t y = low t w" "(w, y) \<in> (arcs G)\<^sup>*" using assms(2) by (auto simp: call_post_def)
    moreover have "(v, y) \<in> (arcs G)\<^sup>*" using assms(3) \<open>(w, y) \<in> (arcs G)\<^sup>*\<close> by (rule converse_rtrancl_into_rtrancl)
    ultimately show ?thesis using True by (auto simp: min_def)
  next
    case False
    obtain y where "y \<in> set (ts_stack s)" "idx s y = low s v" "(v, y) \<in> (arcs G)\<^sup>*" using assms(1) by (auto simp: loop_inv_def)
    then show ?thesis using False keep(1) [of y] new1(1) by (intro bexI [of _ y]) (auto simp: min_def)
  qed
  have nw: "\<exists>new. ts_stack t = new @ v # old \<and> (\<forall>x\<in>set new. \<forall>z\<in>set old. (x, z) \<in> arcs G \<longrightarrow> ?l \<le> idx t z)"
  proof (intro exI [of _ "new1 @ new"] conjI ballI impI)
    fix x z assume xz: "x \<in> set (new1 @ new)" "z \<in> set old" "(x, z) \<in> arcs G"
    have z: "z \<in> set (ts_stack s)" using xz(2) new(1) by simp
    have "low t w \<le> idx t z \<or> low s v \<le> idx t z"
    proof (cases "x \<in> set new1")
      case True
      then show ?thesis using new1(2) z xz(3) by blast
    next
      case False
      then have "low s v \<le> idx s z" using new(2) xz by auto
      then show ?thesis using keep(1) [OF z] by simp
    qed
    then show "?l \<le> idx t z" by auto
  qed (simp add: new new1)
  have pd: "\<forall>u\<in>insert w pd. u < ?n \<and> idx t u \<noteq> - 1 \<and> (u \<in> set old \<longrightarrow> ?l \<le> idx t u)"
  proof
    fix u assume u: "u \<in> insert w pd"
    show "u < ?n \<and> idx t u \<noteq> - 1 \<and> (u \<in> set old \<longrightarrow> ?l \<le> idx t u)"
    proof (cases "u = w")
      case True
      have "w \<notin> set old" using assms(4) st b(5) by auto
      moreover have "0 \<le> ts_time s" using assms(1) by (simp add: loop_inv_def dfs_ok_def arrays_ok_def)
      ultimately show ?thesis using True assms(2,5) by (auto simp: call_post_def)
    next
      case False
      then have i: "u < ?n" "idx s u \<noteq> - 1" "u \<in> set old \<longrightarrow> low s v \<le> idx s u" using u assms(1) by (auto simp: loop_inv_def)
      have "idx t u = idx s u" using fr i(1,2) by (simp add: frame_def)
      then show ?thesis using i by auto
    qed
  qed
  show "loop_inv G g v old (insert w pd) (lower v (low t w) t)"
    using wt y nw pd assms(1) unfolding loop_inv_def dfs_ok_lower lower_fields lw lv(2) by auto
  show "frame ?n {v} s (lower v (low t w) t)" using fr len by (auto simp: frame_def low_lower)
qed

lemma pop_until_spec: "v \<notin> set new \<Longrightarrow> pop_until v (new @ v # old) = Some (new @ [v], old)"
  by (induction new) auto

lemma clear_length [simp]: "length (fold (\<lambda>w on. on[w := False]) ws on) = length on"
  by (induction ws arbitrary: on) simp_all

lemma clear_nth: "u < length on \<Longrightarrow> fold (\<lambda>w on. on[w := False]) ws on ! u \<longleftrightarrow> on ! u \<and> u \<notin> set ws"
proof (induction ws arbitrary: on)
  case (Cons w ws)
  then show ?case by (cases "w = u") auto
qed simp

text \<open>
  The end of a node's loop. When its low link is its index, the new nodes and it are a component;
  otherwise it stays on the stack, below nothing it cannot reach a node on the recursion stack.
\<close>

lemma component_found:
  assumes "graph_ok G" "loop_inv G g v old pd s" "\<forall>w. (v, w) \<in> arcs G \<longrightarrow> w \<in> pd" "v \<notin> g" "low s v = idx s v"
    "ts_stack s = new @ v # old"
  defines "C \<equiv> set (new @ [v])"
  shows "component (arcs G) C" "closed_in (arcs G) (finished (length (tg_nodeList G)) s \<union> C)"
proof -
  let ?n = "length (tg_nodeList G)" and ?E = "arcs G"
  have w: "dfs_ok G (insert v g) s" and go: "g \<subseteq> set old" using assms(2) by (simp_all add: loop_inv_def)
  note b = loop_bounds [OF assms(2)]
  have sorted: "\<forall>x\<in>set new. idx s v < idx s x" "\<forall>z\<in>set old. idx s z < idx s v" "distinct (ts_stack s)"
    using w sorted_wrt_distinct [of "idx s" "ts_stack s"] unfolding dfs_ok_def arrays_ok_def assms(6)
    by (auto simp: sorted_wrt_append)
  have D: "closed_in ?E (finished ?n s)"
  proof -
    obtain cs where "set (concat cs) = finished ?n s" "\<forall>k. closed_in ?E (set (concat (take k cs)))"
      using w by (auto simp: dfs_ok_def comps_ok_def)
    then show ?thesis by (metis take_all order_refl)
  qed
  have to_v: "(v, x) \<in> ?E\<^sup>*" if "x \<in> C" for x
    using w that sorted(1) assms(6) unfolding dfs_ok_def C_def by fastforce
  have from_v: "(x, v) \<in> ?E\<^sup>*" if "x \<in> C" for x
  proof -
    have "x \<in> set (ts_stack s)" using that assms(6) by (auto simp: C_def)
    then obtain y where y: "y \<in> insert v g" "(x, y) \<in> ?E\<^sup>*" using w unfolding dfs_ok_def by blast
    have "(y, v) \<in> ?E\<^sup>*" if "y \<in> g"
    proof -
      have "idx s y \<le> idx s v" using that go sorted(2) by (meson less_imp_le subsetD)
      then show ?thesis using w that b(4) unfolding dfs_ok_def by blast
    qed
    then show ?thesis using y by (auto intro: rtrancl_trans)
  qed
  show cl: "closed_in ?E (finished ?n s \<union> C)"
    unfolding closed_in_def
  proof (intro allI impI)
    fix x z assume x: "x \<in> finished ?n s \<union> C" and e: "(x, z) \<in> ?E"
    show "z \<in> finished ?n s \<union> C"
    proof (cases "x \<in> finished ?n s")
      case True
      then show ?thesis using D e by (auto simp: closed_in_def)
    next
      case False
      then have xC: "x \<in> C" using x by simp
      have "idx s z \<noteq> - 1"
      proof (cases "x = v")
        case True
        then show ?thesis using assms(2,3) e by (auto simp: loop_inv_def)
      next
        case False
        then have "x \<in> set (ts_stack s) - insert v g" using xC go sorted(3) assms(6) by (auto simp: C_def)
        then show ?thesis using w e unfolding dfs_ok_def by blast
      qed
      moreover have "z < ?n" using arcs_bound [OF assms(1) e] by simp
      moreover have "z \<notin> set old"
      proof
        assume z: "z \<in> set old"
        have "low s v \<le> idx s z"
        proof (cases "x = v")
          case True
          then show ?thesis using assms(2,3) e z by (auto simp: loop_inv_def)
        next
          case False
          then have "x \<in> set new" using xC by (simp add: C_def)
          moreover obtain new' where "ts_stack s = new' @ v # old"
            "\<forall>x\<in>set new'. \<forall>z\<in>set old. (x, z) \<in> arcs G \<longrightarrow> low s v \<le> idx s z"
            using assms(2) by (auto simp: loop_inv_def)
          ultimately show ?thesis using e z assms(6) by auto
        qed
        then show False using sorted(2) z assms(5) by fastforce
      qed
      ultimately show ?thesis using assms(6) by (auto simp: finished_def C_def)
    qed
  qed
  show "component ?E C"
    unfolding component_def
  proof (intro conjI allI impI)
    show "C \<noteq> {}" by (simp add: C_def)
    fix x y assume x: "x \<in> C"
    show "y \<in> C \<longleftrightarrow> (x, y) \<in> ?E\<^sup>* \<and> (y, x) \<in> ?E\<^sup>*"
    proof
      assume "y \<in> C"
      then show "(x, y) \<in> ?E\<^sup>* \<and> (y, x) \<in> ?E\<^sup>*" using x to_v from_v by (meson rtrancl_trans)
    next
      assume r: "(x, y) \<in> ?E\<^sup>* \<and> (y, x) \<in> ?E\<^sup>*"
      have "y \<in> finished ?n s \<union> C" using closed_reach [OF conjunct1 [OF r] cl] x by simp
      moreover have "x \<notin> finished ?n s" using x assms(6) by (auto simp: C_def finished_def)
      ultimately show "y \<in> C" using closed_reach [OF conjunct2 [OF r] D] by auto
    qed
  qed
qed

lemma finish_ok:
  assumes "graph_ok G" "loop_inv G g v old pd s" "\<forall>w. (v, w) \<in> arcs G \<longrightarrow> w \<in> pd" "v \<notin> g"
  obtains t where "processComponent G v s = Some t" "dfs_ok G g t" "ts_index t = ts_index s" "ts_lowlink t = ts_lowlink s"
    "v \<in> set (ts_stack t) \<longrightarrow> (\<exists>y\<in>set (ts_stack t). idx t y = low t v \<and> (v, y) \<in> (arcs G)\<^sup>*)"
    "v \<notin> set (ts_stack t) \<longrightarrow> low t v = idx t v"
    "\<exists>new. ts_stack t = new @ old \<and> (\<forall>x\<in>set new. \<forall>z\<in>set old. (x, z) \<in> arcs G \<longrightarrow> low t v \<le> idx t z)"
proof -
  let ?n = "length (tg_nodeList G)" and ?E = "arcs G"
  have w: "dfs_ok G (insert v g) s" and go: "g \<subseteq> set old" using assms(2) by (simp_all add: loop_inv_def)
  note b = loop_bounds [OF assms(2)]
  obtain new where new: "ts_stack s = new @ v # old" "\<forall>x\<in>set new. \<forall>z\<in>set old. (x, z) \<in> ?E \<longrightarrow> low s v \<le> idx s z"
    using assms(2) by (auto simp: loop_inv_def)
  have sorted: "\<forall>x\<in>set new. idx s v < idx s x" "\<forall>z\<in>set old. idx s z < idx s v" "distinct (ts_stack s)"
    using w sorted_wrt_distinct [of "idx s" "ts_stack s"] unfolding dfs_ok_def arrays_ok_def new(1)
    by (auto simp: sorted_wrt_append)
  show ?thesis
  proof (cases "low s v = idx s v")
    case True
    let ?C = "set (new @ [v])"
    define t where "t = s\<lparr>ts_stack := old, ts_onStack := fold (\<lambda>w on. on[w := False]) (new @ [v]) (ts_onStack s),
        ts_sccs := ts_sccs s @ [List.map (\<lambda>w. tg_nodeList G ! w) (new @ [v])]\<rparr>"
    have p: "processComponent G v s = Some t"
      using True pop_until_spec [of v new old] sorted(3) by (simp add: processComponent_def new(1) t_def)
    note comp = component_found [OF assms(1,2,3,4) True new(1)]
    have f: "ts_index t = ts_index s" "ts_stack t = old" "ts_lowlink t = ts_lowlink s" "ts_time t = ts_time s" by (simp_all add: t_def)
    have fin: "finished ?n t = finished ?n s \<union> ?C"
      using w sorted(3) unfolding finished_def f new(1) dfs_ok_def arrays_ok_def by auto
    have arr: "arrays_ok ?n t"
    proof -
      have a: "arrays_ok ?n s" using w by (simp add: dfs_ok_def)
      have "ts_onStack t ! u \<longleftrightarrow> u \<in> set old" if u: "u < ?n" for u
        using a u sorted(3) clear_nth [of u "ts_onStack s" "new @ [v]"] by (auto simp: arrays_ok_def t_def new(1))
      then show ?thesis using a unfolding arrays_ok_def f by (auto simp: t_def new(1) sorted_wrt_append)
    qed
    have co: "comps_ok G (finished ?n t) (ts_sccs t)"
    proof -
      obtain cs where cs: "ts_sccs s = List.map (List.map (\<lambda>w. tg_nodeList G ! w)) cs" "distinct (concat cs)"
        "set (concat cs) = finished ?n s" "\<forall>c\<in>set cs. component ?E (set c)" "\<forall>k. closed_in ?E (set (concat (take k cs)))"
        using w by (auto simp: dfs_ok_def comps_ok_def)
      have "closed_in ?E (set (concat (take k (cs @ [new @ [v]]))))" for k
      proof (cases "k \<le> length cs")
        case True
        then show ?thesis using cs(5) by simp
      next
        case False
        then have "set (concat (take k (cs @ [new @ [v]]))) = finished ?n s \<union> ?C" using cs(3) by (simp add: take_Cons')
        then show ?thesis using comp(2) by simp
      qed
      moreover have "distinct (concat (cs @ [new @ [v]]))"
        using cs(2,3) sorted(3) by (auto simp: new(1) finished_def)
      moreover have "set (concat (cs @ [new @ [v]])) = finished ?n t" using cs(3) fin by auto
      ultimately show ?thesis
        unfolding comps_ok_def using cs(1,4) comp(1) by (intro exI [of _ "cs @ [new @ [v]]"]) (auto simp: t_def)
    qed
    have "dfs_ok G g t"
      unfolding dfs_ok_def
    proof (intro conjI)
      show "arrays_ok ?n t" by (rule arr)
      show "comps_ok G (finished ?n t) (ts_sccs t)" by (rule co)
      show "g \<subseteq> set (ts_stack t)" using go by (simp add: f)
      show "\<forall>u\<in>set (ts_stack t) - g. \<forall>w. (u, w) \<in> ?E \<longrightarrow> idx t w \<noteq> - 1"
        using w sorted(3) unfolding dfs_ok_def f new(1) by auto
      show "\<forall>x\<in>set (ts_stack t). \<exists>y\<in>g. idx t y \<le> idx t x \<and> (x, y) \<in> ?E\<^sup>*"
      proof
        fix x assume "x \<in> set (ts_stack t)"
        then have x: "x \<in> set old" by (simp add: f)
        then obtain y where "y \<in> insert v g" "idx s y \<le> idx s x" "(x, y) \<in> ?E\<^sup>*" using w b(5) unfolding dfs_ok_def by blast
        moreover have "idx s x < idx s v" using sorted(2) x by auto
        ultimately show "\<exists>y\<in>g. idx t y \<le> idx t x \<and> (x, y) \<in> ?E\<^sup>*" by (auto simp: f)
      qed
      show "\<forall>y\<in>g. \<forall>x\<in>set (ts_stack t). idx t y \<le> idx t x \<longrightarrow> (y, x) \<in> ?E\<^sup>*"
        using w b(5) unfolding dfs_ok_def f by blast
    qed
    moreover have "v \<notin> set (ts_stack t)" using sorted(3) by (simp add: f new(1))
    moreover have "\<exists>new. ts_stack t = new @ old \<and> (\<forall>x\<in>set new. \<forall>z\<in>set old. (x, z) \<in> arcs G \<longrightarrow> low t v \<le> idx t z)"
      by (rule exI [of _ "[]"]) (simp add: f)
    moreover have "low t v = idx t v" using f True by simp
    ultimately show ?thesis by (intro that [OF p _ f(1,3)]) simp_all
  next
    case False
    then have lt: "low s v < idx s v" using assms(2) by (auto simp: loop_inv_def)
    obtain y where y: "y \<in> set (ts_stack s)" "idx s y = low s v" "(v, y) \<in> ?E\<^sup>*" using assms(2) by (auto simp: loop_inv_def)
    have p: "processComponent G v s = Some s" using False by (simp add: processComponent_def)
    obtain y' where y': "y' \<in> g" "idx s y' \<le> idx s y" "(y, y') \<in> ?E\<^sup>*"
    proof -
      obtain u where u: "u \<in> insert v g" "idx s u \<le> idx s y" "(y, u) \<in> ?E\<^sup>*" using w y(1) unfolding dfs_ok_def by blast
      have "u \<noteq> v" using u(2) y(2) lt by auto
      then show ?thesis using u(1) by (intro that [OF _ u(2,3)]) simp
    qed
    have "dfs_ok G g s"
      unfolding dfs_ok_def
    proof (intro conjI)
      show "arrays_ok ?n s" "comps_ok G (finished ?n s) (ts_sccs s)" "g \<subseteq> set (ts_stack s)" using w by (simp_all add: dfs_ok_def)
      have others: "\<forall>u\<in>set (ts_stack s) - insert v g. \<forall>w. (u, w) \<in> ?E \<longrightarrow> idx s w \<noteq> - 1" using w by (simp add: dfs_ok_def)
      have own: "\<forall>u\<in>pd. idx s u \<noteq> - 1" using assms(2) by (simp add: loop_inv_def)
      show "\<forall>u\<in>set (ts_stack s) - g. \<forall>w. (u, w) \<in> ?E \<longrightarrow> idx s w \<noteq> - 1"
      proof (intro ballI allI impI)
        fix u z assume u: "u \<in> set (ts_stack s) - g" "(u, z) \<in> ?E"
        show "idx s z \<noteq> - 1"
        proof (cases "u = v")
          case True
          then show ?thesis using u(2) assms(3) own by auto
        next
          case False
          then show ?thesis using u others by auto
        qed
      qed
      show "\<forall>x\<in>set (ts_stack s). \<exists>y\<in>g. idx s y \<le> idx s x \<and> (x, y) \<in> ?E\<^sup>*"
      proof
        fix x assume "x \<in> set (ts_stack s)"
        then obtain u where u: "u \<in> insert v g" "idx s u \<le> idx s x" "(x, u) \<in> ?E\<^sup>*" using w unfolding dfs_ok_def by blast
        show "\<exists>y\<in>g. idx s y \<le> idx s x \<and> (x, y) \<in> ?E\<^sup>*"
        proof (cases "u \<in> g")
          case False
          then have "(x, y') \<in> ?E\<^sup>*" "idx s y' \<le> idx s x" using u y y' lt by (auto intro: rtrancl_trans)
          then show ?thesis using y'(1) by blast
        qed (use u in blast)
      qed
      show "\<forall>y\<in>g. \<forall>x\<in>set (ts_stack s). idx s y \<le> idx s x \<longrightarrow> (y, x) \<in> ?E\<^sup>*"
        using w unfolding dfs_ok_def by blast
    qed
    moreover have "\<forall>x\<in>set (new @ [v]). \<forall>z\<in>set old. (x, z) \<in> ?E \<longrightarrow> low s v \<le> idx s z"
      using new(2) assms(2,3) by (auto simp: loop_inv_def)
    moreover have "ts_stack s = (new @ [v]) @ old" by (simp add: new(1))
    ultimately have st: "\<exists>new. ts_stack s = new @ old \<and> (\<forall>x\<in>set new. \<forall>z\<in>set old. (x, z) \<in> ?E \<longrightarrow> low s v \<le> idx s z)"
      and ok: "dfs_ok G g s" by blast+
    show ?thesis using y b(4) by (intro that [OF p ok refl refl _ _ st]) auto
  qed
qed

section \<open>Calls\<close>

text \<open>With fuel for the unvisited nodes, calls return and do their part.\<close>

definition call_ok :: "tarjan_graph \<Rightarrow> nat \<Rightarrow> bool" where
  "call_ok G fuel \<longleftrightarrow>
     (\<forall>g v s. dfs_ok G g s \<longrightarrow> v < length (tg_nodeList G) \<longrightarrow> idx s v = - 1 \<longrightarrow> (\<forall>y\<in>g. (y, v) \<in> (arcs G)\<^sup>*) \<longrightarrow>
        card (unvisited (length (tg_nodeList G)) s) \<le> fuel \<longrightarrow>
        (\<exists>t. strongConnect G fuel v s = Some t \<and> call_post G g v s t))"

lemma finite_unvisited [simp]: "finite (unvisited n s)"
  by (simp add: unvisited_def)

lemma visit_ok:
  assumes "graph_ok G" "call_ok G fuel" "loop_inv G g v old pd s" "\<forall>x\<in>set ws. (v, node_index G x) \<in> arcs G" "v \<notin> g"
    "card (unvisited (length (tg_nodeList G)) s) \<le> fuel"
  shows "\<exists>t. visit G fuel v ws s = Some t \<and> loop_inv G g v old (pd \<union> node_index G ` set ws) t \<and>
    frame (length (tg_nodeList G)) {v} s t"
  using assms(3,4,6)
proof (induction ws arbitrary: pd s)
  case Nil
  then show ?case by (simp add: frame_def)
next
  case (Cons x ws)
  let ?n = "length (tg_nodeList G)"
  let ?w = "node_index G x"
  have e: "(v, ?w) \<in> arcs G" and wn: "?w < ?n" using Cons.prems(2) arcs_bound [OF assms(1)] by auto
  have wfs: "dfs_ok G (insert v g) s" using Cons.prems(1) by (simp add: loop_inv_def)
  have go: "g \<subseteq> set old" using Cons.prems(1) by (simp add: loop_inv_def)
  note b = loop_bounds [OF Cons.prems(1)]
  obtain s1 where s1: "visit G fuel v (x # ws) s = visit G fuel v ws s1" "loop_inv G g v old (insert ?w pd) s1" "frame ?n {v} s s1"
  proof (cases "idx s ?w = - 1")
    case True
    have "(y, ?w) \<in> (arcs G)\<^sup>*" if y: "y \<in> insert v g" for y
    proof -
      have "idx s y \<le> idx s v" using y go b(6) by (metis insertE less_imp_le order_refl subsetD)
      then have "(y, v) \<in> (arcs G)\<^sup>*" using wfs y b(4) unfolding dfs_ok_def by blast
      then show ?thesis using e by (rule rtrancl_into_rtrancl)
    qed
    then obtain t where t: "strongConnect G fuel ?w s = Some t" "call_post G (insert v g) ?w s t"
      using assms(2) wfs wn True Cons.prems(3) unfolding call_ok_def by blast
    note st = loop_call_step [OF Cons.prems(1) t(2) e True wn]
    show ?thesis using True t(1) st by (intro that [of "lower v (low t ?w) t"]) (simp_all add: Let_def)
  next
    case False
    have on: "ts_onStack s ! ?w \<longleftrightarrow> ?w \<in> set (ts_stack s)" using wfs wn by (simp add: dfs_ok_def arrays_ok_def)
    show ?thesis
    proof (cases "?w \<in> set (ts_stack s)")
      case True
      have "frame ?n {v} s (lower v (idx s ?w) s)" using b(3) by (auto simp: frame_def low_lower)
      then show ?thesis
        using False True on loop_stack_step [OF Cons.prems(1) e True] by (intro that [of "lower v (idx s ?w) s"]) (simp_all add: Let_def)
    next
      case notin: False
      then show ?thesis
        using False on loop_done_step [OF Cons.prems(1) notin False wn] by (intro that [of s]) (simp_all add: Let_def frame_def)
    qed
  qed
  have "card (unvisited ?n s1) \<le> fuel"
    using card_mono [OF finite_unvisited frame_unvisited [OF s1(3)]] Cons.prems(3) by linarith
  then obtain t where "visit G fuel v ws s1 = Some t" "loop_inv G g v old (insert ?w pd \<union> node_index G ` set ws) t" "frame ?n {v} s1 t"
    using Cons.IH [OF s1(2)] Cons.prems(2) by auto
  then show ?case using s1(1) frame_trans [OF s1(3)] by (intro exI [of _ t]) simp
qed

lemma arcs_iff: "(v, w) \<in> arcs G \<longleftrightarrow> v < length (tg_nodeList G) \<and> w \<in> node_index G ` set (out_edges G (tg_nodeList G ! v))"
  by (auto simp: arcs_def succs_def)

lemma strong_ok: "graph_ok G \<Longrightarrow> call_ok G fuel"
proof (induction fuel)
  case 0
  show ?case
    unfolding call_ok_def
  proof (intro allI impI)
    fix g v s
    assume "v < length (tg_nodeList G)" "idx s v = - 1" "card (unvisited (length (tg_nodeList G)) s) \<le> 0"
    then show "\<exists>t. strongConnect G 0 v s = Some t \<and> call_post G g v s t" by (auto simp: unvisited_def)
  qed
next
  case (Suc fuel)
  let ?n = "length (tg_nodeList G)"
  show ?case
    unfolding call_ok_def
  proof (intro allI impI)
    fix g v s
    assume a: "dfs_ok G g s" "v < ?n" "idx s v = - 1" "\<forall>y\<in>g. (y, v) \<in> (arcs G)\<^sup>*" "card (unvisited ?n s) \<le> Suc fuel"
    let ?p = "push_node v s" and ?old = "ts_stack s"
    note p = push_ok [OF Suc.prems a(1-4)]
    have vg: "v \<notin> g" using a(1,3) by (auto simp: dfs_ok_def arrays_ok_def)
    have "v \<in> unvisited ?n s" using a(2,3) by (simp add: unvisited_def)
    then have "card (unvisited ?n ?p) \<le> fuel" using a(5) p(4) by (simp add: card_Diff_singleton)
    moreover have "\<forall>x\<in>set (out_edges G (tg_nodeList G ! v)). (v, node_index G x) \<in> arcs G" using a(2) by (auto simp: arcs_iff)
    ultimately obtain u where u: "visit G fuel v (out_edges G (tg_nodeList G ! v)) ?p = Some u"
      "loop_inv G g v ?old (node_index G ` set (out_edges G (tg_nodeList G ! v))) u" "frame ?n {v} ?p u"
      using visit_ok [OF Suc.prems Suc.IH [OF Suc.prems] p(1)] vg by auto
    have all: "\<forall>w. (v, w) \<in> arcs G \<longrightarrow> w \<in> node_index G ` set (out_edges G (tg_nodeList G ! v))" by (simp add: arcs_iff)
    obtain t where t: "processComponent G v u = Some t" "dfs_ok G g t" "ts_index t = ts_index u" "ts_lowlink t = ts_lowlink u"
      "v \<in> set (ts_stack t) \<longrightarrow> (\<exists>y\<in>set (ts_stack t). idx t y = low t v \<and> (v, y) \<in> (arcs G)\<^sup>*)"
      "v \<notin> set (ts_stack t) \<longrightarrow> low t v = idx t v"
      "\<exists>new. ts_stack t = new @ ?old \<and> (\<forall>x\<in>set new. \<forall>z\<in>set ?old. (x, z) \<in> arcs G \<longrightarrow> low t v \<le> idx t z)"
      using finish_ok [OF Suc.prems u(2) all vg] by blast
    have "idx ?p v \<noteq> - 1" using loop_bounds(2) [OF p(1)] .
    then have "idx u v = ts_time s" using u(3) a(2) p(3) by (simp add: frame_def)
    moreover have "frame ?n {} s t" using p(2) u(3) a(3) t(3,4) by (auto simp: frame_def)
    moreover have "low t v \<le> idx t v" using u(2) t(3,4) by (simp add: loop_inv_def)
    ultimately have "call_post G g v s t" using t unfolding call_post_def by simp
    then show "\<exists>t. strongConnect G (Suc fuel) v s = Some t \<and> call_post G g v s t"
      using u(1) t(1) by (intro exI [of _ t]) simp
  qed
qed

lemma scan_ok:
  assumes "graph_ok G" "dfs_ok G {} s" "\<forall>i\<in>set is. i < length (tg_nodeList G)"
  shows "\<exists>t. scan_nodes G (length (tg_nodeList G)) is s = Some t \<and> dfs_ok G {} t \<and> (\<forall>i\<in>set is. idx t i \<noteq> - 1) \<and>
    frame (length (tg_nodeList G)) {} s t"
  using assms(2,3)
proof (induction "is" arbitrary: s)
  case Nil
  then show ?case by (simp add: frame_def)
next
  case (Cons i "is")
  let ?n = "length (tg_nodeList G)"
  have i: "i < ?n" using Cons.prems(2) by simp
  have c: "card (unvisited ?n s) \<le> ?n"
    using card_mono [of "{..<?n}" "unvisited ?n s"] by (auto simp: unvisited_def)
  obtain s1 where s1: "scan_nodes G ?n (i # is) s = scan_nodes G ?n is s1" "dfs_ok G {} s1" "idx s1 i \<noteq> - 1" "frame ?n {} s s1"
  proof (cases "idx s i = - 1")
    case True
    obtain t where t: "strongConnect G ?n i s = Some t" "call_post G {} i s t"
      using strong_ok [OF assms(1), of ?n] Cons.prems(1) i True c unfolding call_ok_def by blast
    have "0 \<le> ts_time s" using Cons.prems(1) by (simp add: dfs_ok_def arrays_ok_def)
    then show ?thesis using True t by (intro that [of t]) (auto simp: call_post_def)
  next
    case False
    then show ?thesis using Cons.prems(1) by (intro that [of s]) (simp_all add: frame_def)
  qed
  obtain t where t: "scan_nodes G ?n is s1 = Some t" "dfs_ok G {} t" "\<forall>i\<in>set is. idx t i \<noteq> - 1" "frame ?n {} s1 t"
    using Cons.IH [OF s1(2)] Cons.prems(2) by auto
  have "idx t i \<noteq> - 1" using t(4) s1(3) i by (simp add: frame_def)
  then show ?case using s1(1) t frame_trans [OF s1(4) t(4)] by (intro exI [of _ t]) simp
qed

section \<open>Edges between names\<close>

definition edge_rel :: "(string \<times> string list) list \<Rightarrow> (string \<times> string) set" where
  "edge_rel edges = {(x, y). \<exists>ts. (x, ts) \<in> set edges \<and> y \<in> set ts}"

lemma append_at_keys: "distinct (List.map fst es) \<Longrightarrow> distinct (List.map fst (append_at x y es)) \<and>
    fst ` set (append_at x y es) = insert x (fst ` set es)"
  by (induction x y es rule: append_at.induct) auto

lemma append_at_rel: "distinct (List.map fst es) \<Longrightarrow> edge_rel (append_at x y es) = insert (x, y) (edge_rel es)"
  by (induction x y es rule: append_at.induct) (auto simp: edge_rel_def)

lemma added_edges:
  "distinct (List.map fst (dg_Edges d)) \<Longrightarrow>
   (let d' = fold (\<lambda>(x, y). AddEdge x y) es d
    in distinct (List.map fst (dg_Edges d')) \<and> edge_rel (dg_Edges d') = set es \<union> edge_rel (dg_Edges d) \<and>
       fst ` set (dg_Edges d') = fst ` set es \<union> fst ` set (dg_Edges d))"
proof (induction es arbitrary: d)
  case (Cons e es)
  obtain x y where e: "e = (x, y)" by fastforce
  have "distinct (List.map fst (dg_Edges (AddEdge x y d)))" using Cons.prems append_at_keys by (simp add: AddEdge_def)
  from Cons.IH [OF this] show ?case
    using Cons.prems append_at_keys [of "dg_Edges d" x y] append_at_rel [of "dg_Edges d" x y] by (auto simp: e Let_def AddEdge_def)
qed simp

lemma arcs_rel:
  assumes "graph_ok G" "distinct (List.map fst (tg_edges G))" "v < length (tg_nodeList G)" "w < length (tg_nodeList G)"
  shows "(v, w) \<in> arcs G \<longleftrightarrow> (tg_nodeList G ! v, tg_nodeList G ! w) \<in> edge_rel (tg_edges G)"
proof -
  let ?x = "tg_nodeList G ! v"
  have m: "map_of (tg_edges G) ?x = Some ts \<longleftrightarrow> (?x, ts) \<in> set (tg_edges G)" for ts using assms(2) by simp
  have "w \<in> node_index G ` set (out_edges G ?x) \<longleftrightarrow> tg_nodeList G ! w \<in> set (out_edges G ?x)"
  proof
    assume "w \<in> node_index G ` set (out_edges G ?x)"
    then obtain y where y: "w = node_index G y" "y \<in> set (out_edges G ?x)" by blast
    then have "y \<in> set (tg_nodeList G)"
      using graph_okD(3) [OF assms(1), of ?x] by (cases "map_of (tg_edges G) ?x") (auto simp: out_edges_def)
    then show "tg_nodeList G ! w \<in> set (out_edges G ?x)" using y node_index_nth(2) [OF assms(1)] by simp
  next
    assume "tg_nodeList G ! w \<in> set (out_edges G ?x)"
    then show "w \<in> node_index G ` set (out_edges G ?x)" using index_of_nth [OF assms(1,4)] by (metis image_eqI)
  qed
  moreover have "tg_nodeList G ! w \<in> set (out_edges G ?x) \<longleftrightarrow> (?x, tg_nodeList G ! w) \<in> edge_rel (tg_edges G)"
  proof -
    have "tg_nodeList G ! w \<in> set (out_edges G ?x) \<longleftrightarrow> (\<exists>ts. map_of (tg_edges G) ?x = Some ts \<and> tg_nodeList G ! w \<in> set ts)"
      by (cases "map_of (tg_edges G) ?x") (simp_all add: out_edges_def)
    then show ?thesis unfolding m by (simp add: edge_rel_def)
  qed
  ultimately show ?thesis using assms(3) by (simp add: arcs_iff)
qed

lemma reach_names:
  assumes "graph_ok G" "distinct (List.map fst (tg_edges G))" "v < length (tg_nodeList G)"
  shows "(v, w) \<in> (arcs G)\<^sup>* \<Longrightarrow> w < length (tg_nodeList G) \<and> (tg_nodeList G ! v, tg_nodeList G ! w) \<in> (edge_rel (tg_edges G))\<^sup>*"
    "(tg_nodeList G ! v, y) \<in> (edge_rel (tg_edges G))\<^sup>* \<Longrightarrow> \<exists>w<length (tg_nodeList G). y = tg_nodeList G ! w \<and> (v, w) \<in> (arcs G)\<^sup>*"
proof -
  show "w < length (tg_nodeList G) \<and> (tg_nodeList G ! v, tg_nodeList G ! w) \<in> (edge_rel (tg_edges G))\<^sup>*" if "(v, w) \<in> (arcs G)\<^sup>*"
    using that
  proof (induction rule: rtrancl_induct)
    case (step a b)
    have "a < length (tg_nodeList G)" "b < length (tg_nodeList G)" using arcs_bound [OF assms(1) step(2)] by auto
    then show ?case using step arcs_rel [OF assms(1,2), of a b] by (auto intro: rtrancl_into_rtrancl)
  qed (use assms(3) in simp)
  show "\<exists>w<length (tg_nodeList G). y = tg_nodeList G ! w \<and> (v, w) \<in> (arcs G)\<^sup>*" if "(tg_nodeList G ! v, y) \<in> (edge_rel (tg_edges G))\<^sup>*"
    using that
  proof (induction rule: rtrancl_induct)
    case base
    then show ?case using assms(3) by auto
  next
    case (step y z)
    then obtain w where w: "w < length (tg_nodeList G)" "y = tg_nodeList G ! w" "(v, w) \<in> (arcs G)\<^sup>*" by blast
    obtain ts where "(y, ts) \<in> set (tg_edges G)" "z \<in> set ts" using step(2) by (auto simp: edge_rel_def)
    then have "z \<in> set (tg_nodeList G)" using graph_okD(3) [OF assms(1)] assms(2) by (metis map_of_eq_Some_iff)
    then obtain u where u: "u < length (tg_nodeList G)" "z = tg_nodeList G ! u" by (auto simp: in_set_conv_nth)
    then have "(w, u) \<in> arcs G" using arcs_rel [OF assms(1,2) w(1) u(1)] step(2) w(2) by simp
    then show ?case using u w(3) by (auto intro: rtrancl_into_rtrancl)
  qed
qed

lemma component_names:
  assumes "graph_ok G" "distinct (List.map fst (tg_edges G))" "component (arcs G) C" "C \<subseteq> {..<length (tg_nodeList G)}"
  shows "component (edge_rel (tg_edges G)) ((\<lambda>w. tg_nodeList G ! w) ` C)"
  unfolding component_def
proof (intro conjI allI impI)
  show "(\<lambda>w. tg_nodeList G ! w) ` C \<noteq> {}" using assms(3) by (simp add: component_def)
  fix x y assume "x \<in> (\<lambda>w. tg_nodeList G ! w) ` C"
  then obtain v where v: "v \<in> C" "v < length (tg_nodeList G)" "x = tg_nodeList G ! v" using assms(4) by auto
  note to_names = reach_names(1) [OF assms(1,2)] and from_names = reach_names(2) [OF assms(1,2)]
  show "y \<in> (\<lambda>w. tg_nodeList G ! w) ` C \<longleftrightarrow> (x, y) \<in> (edge_rel (tg_edges G))\<^sup>* \<and> (y, x) \<in> (edge_rel (tg_edges G))\<^sup>*"
  proof
    assume "y \<in> (\<lambda>w. tg_nodeList G ! w) ` C"
    then obtain w where w: "w \<in> C" "y = tg_nodeList G ! w" "w < length (tg_nodeList G)" using assms(4) by auto
    then have "(v, w) \<in> (arcs G)\<^sup>*" "(w, v) \<in> (arcs G)\<^sup>*" using assms(3) v(1) by (auto simp: component_def)
    then show "(x, y) \<in> (edge_rel (tg_edges G))\<^sup>* \<and> (y, x) \<in> (edge_rel (tg_edges G))\<^sup>*"
      using to_names [OF v(2)] to_names [OF w(3)] v(3) w(2) by simp
  next
    assume r: "(x, y) \<in> (edge_rel (tg_edges G))\<^sup>* \<and> (y, x) \<in> (edge_rel (tg_edges G))\<^sup>*"
    then obtain w where w: "w < length (tg_nodeList G)" "y = tg_nodeList G ! w" "(v, w) \<in> (arcs G)\<^sup>*"
      using from_names [OF v(2)] v(3) by blast
    obtain u where u: "u < length (tg_nodeList G)" "x = tg_nodeList G ! u" "(w, u) \<in> (arcs G)\<^sup>*"
      using from_names [OF w(1)] r w(2) by blast
    then have "u = v" using v graph_okD(1) [OF assms(1)] by (simp add: nth_eq_iff_index_eq)
    then have "w \<in> C" using assms(3) v(1) w(3) u(3) by (auto simp: component_def)
    then show "y \<in> (\<lambda>w. tg_nodeList G ! w) ` C" using w(2) by blast
  qed
qed

section \<open>Property\<close>

lemma edge_rel_mset: "mset xs = mset ys \<Longrightarrow> edge_rel xs = edge_rel ys"
  unfolding edge_rel_def by (metis mset_eq_setD)

text \<open>The search from its first state.\<close>

lemma tarjan_indices:
  assumes "newTarjanState edges = (G, s)"
  shows "\<exists>t. scan_nodes G (length (tg_nodeList G)) [0..<length (tg_nodeList G)] s = Some t \<and>
    comps_ok G {..<length (tg_nodeList G)} (ts_sccs t)"
proof -
  let ?n = "length (tg_nodeList G)"
  note G = new_graph_ok [OF assms]
  have s: "ts_stack s = []" "ts_sccs s = []" by (simp_all add: G(4))
  have i: "idx s v = - 1" if "v < ?n" for v using that by (simp add: G(4))
  have "finished ?n s = {}" using i by (auto simp: finished_def)
  then have "comps_ok G (finished ?n s) (ts_sccs s)" by (auto simp: comps_ok_def s closed_in_def)
  moreover have "arrays_ok ?n s" using i by (simp add: arrays_ok_def G(4))
  ultimately have "dfs_ok G {} s" by (simp add: dfs_ok_def s)
  then obtain t where t: "scan_nodes G ?n [0..<?n] s = Some t" "dfs_ok G {} t" "\<forall>i\<in>set [0..<?n]. idx t i \<noteq> - 1"
    using scan_ok [OF G(1), of s "[0..<?n]"] by auto
  have "ts_stack t = []" using t(2) unfolding dfs_ok_def by (cases "ts_stack t") auto
  then have "finished ?n t = {..<?n}" using t(3) by (auto simp: finished_def)
  then show ?thesis using t by (intro exI [of _ t]) (simp add: dfs_ok_def)
qed

text \<open>
  C27: \<open>TarjanSCC\<close> computes the strongly connected components: for a graph built from any series
  of edges, in whatever order the map of edges is visited, it returns; the components it returns
  contain every node that occurs in an edge exactly once, each is a strongly connected
  component of the edges added, and no edge leads from a component to a later one, so that
  dependencies come first.
\<close>

theorem tarjan_exact:
  assumes "mset (dg_Edges d) = mset (dg_Edges (fold (\<lambda>(x, y). AddEdge x y) es NewDAG))"
  shows "\<exists>cs. TarjanSCC d = Some cs \<and> distinct (concat cs) \<and> set (concat cs) = fst ` set es \<union> snd ` set es \<and>
    (\<forall>c\<in>set cs. component (set es) (set c)) \<and>
    (\<forall>i j x y. i < length cs \<longrightarrow> j < length cs \<longrightarrow> x \<in> set (cs ! i) \<longrightarrow> y \<in> set (cs ! j) \<longrightarrow> (x, y) \<in> set es \<longrightarrow> j \<le> i)"
proof -
  let ?d0 = "fold (\<lambda>(x, y). AddEdge x y) es NewDAG"
  have a: "distinct (List.map fst (dg_Edges ?d0))" "edge_rel (dg_Edges ?d0) = set es" "fst ` set (dg_Edges ?d0) = fst ` set es"
    using added_edges [of NewDAG es] by (simp_all add: Let_def NewDAG_def edge_rel_def)
  have dist: "distinct (List.map fst (dg_Edges d))" using a(1) assms by (metis mset_eq_imp_distinct_iff mset_map)
  have rel: "edge_rel (dg_Edges d) = set es" using edge_rel_mset [OF assms] a(2) by simp
  have keys: "fst ` set (dg_Edges d) = fst ` set es" using a(3) mset_eq_setD [OF assms] by simp
  obtain G s where Gs: "newTarjanState (dg_Edges d) = (G, s)" by fastforce
  let ?n = "length (tg_nodeList G)" and ?nl = "tg_nodeList G"
  note G = new_graph_ok [OF Gs]
  have nodes: "set ?nl = fst ` set es \<union> snd ` set es"
    unfolding G(3) keys rel [symmetric] edge_rel_def by force
  obtain t cs where t: "scan_nodes G ?n [0..<?n] s = Some t" "ts_sccs t = List.map (List.map (\<lambda>w. ?nl ! w)) cs"
    "distinct (concat cs)" "set (concat cs) = {..<?n}" "\<forall>c\<in>set cs. component (arcs G) (set c)"
    "\<forall>k. closed_in (arcs G) (set (concat (take k cs)))"
    using tarjan_indices [OF Gs] by (auto simp: comps_ok_def)
  let ?cs = "List.map (List.map (\<lambda>w. ?nl ! w)) cs"
  have run: "TarjanSCC d = Some ?cs"
  proof (cases "?n = 0")
    case True
    then have "concat cs = []" using t(4) by (metis lessThan_0 set_empty)
    then have "cs = []" using t(5) by (cases cs) (auto simp: component_def)
    then show ?thesis using True by (simp add: TarjanSCC_def Gs Let_def)
  next
    case False
    then show ?thesis by (simp add: TarjanSCC_def Gs Let_def t(1,2))
  qed
  have cc: "concat ?cs = List.map (\<lambda>w. ?nl ! w) (concat cs)" by (simp add: map_concat)
  have inj: "inj_on (\<lambda>w. ?nl ! w) {..<?n}" using graph_okD(1) [OF G(1)] by (auto simp: inj_on_def nth_eq_iff_index_eq)
  have d1: "distinct (concat ?cs)" unfolding cc distinct_map using t(3,4) inj by simp
  have d2: "set (concat ?cs) = fst ` set es \<union> snd ` set es"
    unfolding cc nodes [symmetric] set_map t(4) by (auto simp: in_set_conv_nth)
  have bound: "set c \<subseteq> {..<?n}" if "c \<in> set cs" for c using that t(4) by auto
  have d3: "\<forall>c\<in>set ?cs. component (set es) (set c)"
    using component_names [OF G(1) _ _ bound] t(5) dist rel by (auto simp: G(2))
  have d4: "j \<le> i" if ij: "i < length cs" "j < length cs" "x \<in> set (?cs ! i)" "y \<in> set (?cs ! j)" "(x, y) \<in> set es" for i j x y
  proof -
    obtain v w where v: "v \<in> set (cs ! i)" "x = ?nl ! v" and w: "w \<in> set (cs ! j)" "y = ?nl ! w" using ij(1-4) by auto
    have vw: "v < ?n" "w < ?n" using v w bound ij(1,2) nth_mem by blast+
    then have "(v, w) \<in> arcs G" using arcs_rel [OF G(1)] dist rel v w ij(5) by (simp add: G(2))
    moreover have "v \<in> set (concat (take (Suc i) cs))" using v ij(1) by (auto simp: take_Suc_conv_app_nth)
    ultimately have "w \<in> set (concat (take (Suc i) cs))" using t(6) by (auto simp: closed_in_def)
    moreover have "distinct (concat (take (Suc i) cs) @ concat (drop (Suc i) cs))"
      using t(3) by (metis append_take_drop_id concat_append)
    ultimately have "w \<notin> set (concat (drop (Suc i) cs))" by auto
    moreover have "w \<in> set (concat (drop (Suc i) cs))" if "i < j"
    proof -
      have "cs ! j \<in> set (drop (Suc i) cs)"
        using that ij(2) by (auto simp: in_set_conv_nth intro!: exI [of _ "j - Suc i"])
      then show ?thesis using w(1) by auto
    qed
    ultimately show ?thesis by (metis leI)
  qed
  show ?thesis using run d1 d2 d3 d4 by (intro exI [of _ ?cs]) (simp only: length_map, blast)
qed

theorem tarjan_exact_witness:
  "\<exists>cs. TarjanSCC (fold (\<lambda>(x, y). AddEdge x y) [(''a'', ''b''), (''b'', ''a''), (''a'', ''c'')] NewDAG) = Some cs \<and>
     set (concat cs) = {''a'', ''b'', ''c''}"
proof -
  have "fst ` set [(''a'', ''b''), (''b'', ''a''), (''a'', ''c'')] \<union> snd ` set [(''a'', ''b''), (''b'', ''a''), (''a'', ''c'')] =
      {''a'', ''b'', ''c''}" by auto
  then show ?thesis using tarjan_exact [OF refl, of "[(''a'', ''b''), (''b'', ''a''), (''a'', ''c'')]"] by metis
qed

end
