(* ===== verification/Neo_Text.thy ===== *)
theory Neo_Text
  imports Neo_Prelude
begin

text \<open>
  The functions of Go's \<^verbatim>\<open>strings\<close> and \<^verbatim>\<open>path/filepath\<close> that the text-handling components use, on
  byte strings: trimming (ASCII white space), prefixes and suffixes, the first index of a
  substring, and absolute, clean and relative paths as on Unix. The working directory is an
  argument.
\<close>

section \<open>White space\<close>

definition newline :: char where "newline = CHR 0x0A"

definition is_space :: "char \<Rightarrow> bool" where
  "is_space c = (c \<in> {CHR 0x09, CHR 0x0A, CHR 0x0B, CHR 0x0C, CHR 0x0D, CHR '' ''})"

definition trim_space :: "string \<Rightarrow> string" where
  "trim_space s = rev (dropWhile is_space (rev (dropWhile is_space s)))"

lemma trim_pad: "trim_space ('' '' @ s @ '' '') = trim_space s"
proof -
  have l: "dropWhile is_space ('' '' @ x) = dropWhile is_space x" for x by (simp add: is_space_def)
  show ?thesis
  proof (cases "\<forall>c\<in>set s. is_space c")
    case True
    then have e: "dropWhile is_space (s @ '' '') = []" "dropWhile is_space s = []" by (auto simp: is_space_def)
    show ?thesis unfolding trim_space_def l e by simp
  next
    case False
    then have e: "dropWhile is_space (s @ '' '') = dropWhile is_space s @ '' ''" by (auto simp: dropWhile_append)
    show ?thesis unfolding trim_space_def l e by (simp add: is_space_def)
  qed
qed

lemma dropWhile_fix: "(s \<noteq> [] \<Longrightarrow> \<not> P (hd s)) \<Longrightarrow> dropWhile P s = s"
  by (cases s) auto

lemma trim_empty: "trim_space s = '''' \<longleftrightarrow> (\<forall>c\<in>set s. is_space c)"
proof
  assume "trim_space s = ''''"
  then have a: "\<forall>c\<in>set (dropWhile is_space s). is_space c" by (simp add: trim_space_def)
  have "dropWhile is_space s = []"
  proof (rule ccontr)
    assume n: "dropWhile is_space s \<noteq> []"
    from a hd_in_set [OF n] hd_dropWhile [of is_space s] n show False by auto
  qed
  then show "\<forall>c\<in>set s. is_space c" by simp
next
  assume "\<forall>c\<in>set s. is_space c"
  then have "dropWhile is_space s = []" by simp
  then show "trim_space s = ''''" unfolding trim_space_def by (simp only: rev.simps dropWhile.simps)
qed

lemma trim_ends:
  assumes "trim_space s \<noteq> ''''"
  shows "\<not> is_space (hd (trim_space s)) \<and> \<not> is_space (last (trim_space s))"
proof -
  let ?u = "dropWhile is_space s"
  have u: "?u \<noteq> []"
  proof
    assume "?u = []"
    with assms show False unfolding trim_space_def by (simp only: rev.simps dropWhile.simps)
  qed
  then have h: "\<not> is_space (hd ?u)" using hd_dropWhile [of is_space s] by blast
  let ?v = "dropWhile is_space (rev ?u)"
  have v: "?v \<noteq> []" using assms unfolding trim_space_def by fastforce
  then have l: "\<not> is_space (hd ?v)" using hd_dropWhile [of is_space "rev ?u"] by blast
  have "rev ?u = takeWhile is_space (rev ?u) @ ?v" by simp
  then have "?u = rev ?v @ rev (takeWhile is_space (rev ?u))" by (metis rev_append rev_rev_ident)
  then have "hd ?u = hd (rev ?v)" using v by (metis hd_append2 rev_is_Nil_conv)
  then show ?thesis using h l v by (simp add: trim_space_def last_rev)
qed

lemma trim_idem [simp]: "trim_space (trim_space s) = trim_space s"
proof (cases "trim_space s = ''''")
  case True
  then show ?thesis by (simp only: True) (simp add: trim_space_def)
next
  case False
  from trim_ends [OF this] show ?thesis
    by (simp add: trim_space_def [of "trim_space s"] dropWhile_fix hd_rev)
qed

section \<open>Prefixes, suffixes, indices\<close>

definition trim_prefix :: "string \<Rightarrow> string \<Rightarrow> string" where
  "trim_prefix s p = (if has_prefix s p then drop (length p) s else s)"

definition has_suffix :: "string \<Rightarrow> string \<Rightarrow> bool" where
  "has_suffix s p = has_prefix (rev s) (rev p)"

definition trim_suffix :: "string \<Rightarrow> string \<Rightarrow> string" where
  "trim_suffix s p = (if has_suffix s p then take (length s - length p) s else s)"

text \<open>\<^verbatim>\<open>strings.Index\<close>; the code compares the result with 0, so a miss is \<^const>\<open>None\<close>.\<close>

fun str_index :: "string \<Rightarrow> string \<Rightarrow> nat option" where
  "str_index [] p = (if p = [] then Some 0 else None)"
| "str_index (c # cs) p = (if has_prefix (c # cs) p then Some 0 else map_option Suc (str_index cs p))"

lemma has_suffix_iff: "has_suffix s p \<longleftrightarrow> (\<exists>r. s = r @ p)"
  unfolding has_suffix_def has_prefix_iff by (metis rev_append rev_rev_ident)

lemma has_prefix_append [simp]: "has_prefix (p @ s) p"
  by (auto simp: has_prefix_iff)

lemma trim_prefix_append [simp]: "trim_prefix (p @ s) p = s"
  by (simp add: trim_prefix_def)

lemma str_index_first:
  assumes "p \<noteq> []" "hd p \<notin> set u"
  shows "str_index (u @ p @ v) p = Some (length u)"
  using assms
proof (induction u)
  case Nil
  then show ?case by (cases p) (auto simp: has_prefix_iff)
next
  case (Cons c u)
  then have "\<not> has_prefix (c # u @ p @ v) p" by (cases p) auto
  then show ?case using Cons by simp
qed

lemma str_index_None: "str_index s [c] = None \<longleftrightarrow> c \<notin> set s"
  by (induction s) auto

section \<open>Paths\<close>

text \<open>The segments of an absolute clean path.\<close>

definition clean_step :: "string list \<Rightarrow> string \<Rightarrow> string list" where
  "clean_step acc s = (if s = '''' \<or> s = ''.'' then acc else if s = ''..'' then butlast acc else acc @ [s])"

definition clean_segs :: "string \<Rightarrow> string list" where
  "clean_segs path = foldl clean_step [] (split_char CHR ''/'' path)"

definition is_abs :: "string \<Rightarrow> bool" where
  "is_abs path = has_prefix path ''/''"

text \<open>\<^verbatim>\<open>filepath.Clean(filepath.Abs(p))\<close>; \<^const>\<open>None\<close> when the working directory is needed and unknown.\<close>

definition abs_segs :: "string option \<Rightarrow> string \<Rightarrow> string list option" where
  "abs_segs cwd path =
     (if is_abs path then Some (clean_segs path)
      else map_option (\<lambda>wd. clean_segs (wd @ ''/'' @ path)) cwd)"

definition abs_path :: "string option \<Rightarrow> string \<Rightarrow> string option" where
  "abs_path cwd path = map_option (\<lambda>segs. ''/'' @ str_join ''/'' segs) (abs_segs cwd path)"

text \<open>\<^verbatim>\<open>filepath.Rel\<close> of two absolute clean paths, by segments.\<close>

fun rel_segs :: "string list \<Rightarrow> string list \<Rightarrow> string list" where
  "rel_segs (b # bs) (t # ts) = (if b = t then rel_segs bs ts else replicate (length (b # bs)) ''..'' @ t # ts)"
| "rel_segs bs ts = replicate (length bs) ''..'' @ ts"

definition rel_path :: "string list \<Rightarrow> string list \<Rightarrow> string" where
  "rel_path bs ts = (if rel_segs bs ts = [] then ''.'' else str_join ''/'' (rel_segs bs ts))"

definition proper :: "string \<Rightarrow> bool" where
  "proper s \<longleftrightarrow> s \<noteq> '''' \<and> s \<noteq> ''.'' \<and> s \<noteq> ''..'' \<and> CHR ''/'' \<notin> set s"

lemma clean_segs_ok: "list_all proper (clean_segs path)"
proof -
  have bl: "list_all proper (butlast acc)" if "list_all proper acc" for acc
    using that by (auto simp: list_all_iff dest: in_set_butlastD)
  have step: "list_all proper (clean_step acc x)" if "list_all proper acc" "CHR ''/'' \<notin> set x" for acc x
    using that bl [OF that(1)] by (simp add: clean_step_def proper_def)
  have "list_all proper (foldl clean_step acc xs)" if "list_all proper acc" "\<forall>s\<in>set xs. CHR ''/'' \<notin> set s" for acc xs
    using that by (induction xs arbitrary: acc) (simp_all add: step)
  moreover have "\<forall>s\<in>set (split_char CHR ''/'' path). CHR ''/'' \<notin> set s" using split_char_no_sep by blast
  ultimately show ?thesis by (simp add: clean_segs_def)
qed

lemma str_join_Cons: "xs \<noteq> [] \<Longrightarrow> str_join sep (x # xs) = x @ sep @ str_join sep xs"
  by (cases xs) auto

text \<open>The test \<^verbatim>\<open>rel != ".." && !HasPrefix(rel, "../")\<close> that the code repeats: below the base directory.\<close>

definition climbs :: "string \<Rightarrow> bool" where
  "climbs rel \<longleftrightarrow> rel = ''..'' \<or> has_prefix rel ''../''"

lemma climbs_join:
  assumes "list_all proper ts"
  shows "ts \<noteq> [] \<Longrightarrow> \<not> climbs (str_join ''/'' ts)" "climbs (str_join ''/'' (''..'' # ts))"
proof -
  show "climbs (str_join ''/'' (''..'' # ts))" by (cases ts) (auto simp: climbs_def)
  assume "ts \<noteq> []"
  then obtain t us where t: "ts = t # us" by (cases ts) auto
  have no: "t \<noteq> ''..''" "CHR ''/'' \<notin> set t" using assms by (simp_all add: t proper_def)
  have "t @ r \<noteq> ''../'' @ q" if "us = [] \<and> r = [] \<or> (\<exists>z. r = CHR ''/'' # z)" for r q
    using that no by (cases t; cases "tl t"; cases "tl (tl t)") auto
  moreover have "t @ CHR ''/'' # z \<noteq> ''..''" for z
  proof
    assume "t @ CHR ''/'' # z = ''..''"
    then have "CHR ''/'' \<in> set ''..''" by (metis in_set_conv_decomp)
    then show False by simp
  qed
  ultimately show "\<not> climbs (str_join ''/'' ts)"
    using no by (cases us) (auto simp: t climbs_def has_prefix_iff)
qed

lemma rel_path_same [simp]: "rel_path (b # bs) (b # ts) = rel_path bs ts"
  by (simp add: rel_path_def)

lemma rel_path_up: "bs \<noteq> [] \<Longrightarrow> ts = [] \<or> hd bs \<noteq> hd ts \<Longrightarrow> climbs (rel_path bs ts)"
proof -
  have up: "climbs (str_join ''/'' (''..'' # xs))" for xs by (cases xs) (auto simp: climbs_def)
  assume "bs \<noteq> []" "ts = [] \<or> hd bs \<noteq> hd ts"
  then have "\<exists>xs. rel_segs bs ts = ''..'' # xs" by (cases bs; cases ts) auto
  then show ?thesis using up by (auto simp: rel_path_def)
qed

lemma rel_path_below:
  assumes "list_all proper ts"
  shows "climbs (rel_path bs ts) \<longleftrightarrow> (\<nexists>us. ts = bs @ us)"
  using assms
proof (induction bs arbitrary: ts)
  case Nil
  then show ?case using climbs_join(1) [of ts] by (cases ts) (auto simp: rel_path_def climbs_def)
next
  case (Cons b bs)
  show ?case
  proof (cases "ts = [] \<or> b \<noteq> hd ts")
    case True
    then have "climbs (rel_path (b # bs) ts)" by (intro rel_path_up) auto
    then show ?thesis using True by auto
  next
    case False
    then obtain us where "ts = b # us" by (cases ts) auto
    then show ?thesis using Cons by simp
  qed
qed

end
