(* ===== verification/Fed_SharedDebt.thy ===== *)
theory Fed_SharedDebt
  imports Neo_Text
begin

text \<open>
  The ledger of missing contracts of \<^verbatim>\<open>pkg/federation/shared_debt.go\<close>: a row is inserted into the
  table of its section of a markdown file, and the table is read back. Texts are byte strings;
  trimming removes ASCII white space. The state of the file and the outcome of a write are
  arguments.
\<close>

section \<open>Texts\<close>

definition missingContractsSection :: string where
  "missingContractsSection = ''## Contratos de frontera bajo revisi'' @ [CHR 0xC3, CHR 0xB3] @ ''n''"

definition tableHeaderLine :: string where
  "tableHeaderLine = ''| Endpoint | Requested by | Workspace | Date | Status |''"

definition tableSeparatorLine :: string where
  "tableSeparatorLine = ''|----------|-------------|-----------|------|--------|''"

definition footerPrefix :: string where
  "footerPrefix = ''_'' @ [CHR 0xC3, CHR 0x9A] @ ''ltima actualizaci'' @ [CHR 0xC3, CHR 0xB3] @ ''n:''"

definition pending :: string where
  "pending = [CHR 0xE2, CHR 0x8F, CHR 0xB3] @ '' pending''"

record MissingContract =
  mc_Endpoint :: string
  mc_Caller :: string
  mc_Workspace :: string
  mc_Date :: string
  mc_Status :: string

section \<open>Writing\<close>

definition sanitizeTableCell :: "string \<Rightarrow> string" where
  "sanitizeTableCell s =
     (let s1 = filter (\<lambda>c. c \<noteq> CHR 0x0D) s;
          s2 = List.map (\<lambda>c. if c = newline then CHR '' '' else c) s1
      in concat (List.map (\<lambda>c. if c = CHR ''|'' then [CHR 0x5C, CHR ''|''] else [c]) s2))"













definition contract_row :: "string \<Rightarrow> string \<Rightarrow> string \<Rightarrow> string \<Rightarrow> string" where
  "contract_row endpoint caller workspace now =
     ''| '' @ sanitizeTableCell endpoint @ '' | '' @ sanitizeTableCell caller @ '' | '' @ sanitizeTableCell workspace @
     '' | '' @ now @ '' | '' @ pending @ '' |''"


section \<open>Reading\<close>

definition parse_line :: "string \<Rightarrow> MissingContract option" where
  "parse_line line =
     (if \<not> has_prefix line ''| '' then None
      else if has_prefix line ''| Endpoint'' \<or> has_prefix line ''|---'' then None
      else (let parts = split_char CHR ''|'' line
            in if length parts < 7 then None
               else Some \<lparr>mc_Endpoint = trim_space (parts ! 1), mc_Caller = trim_space (parts ! 2),
                      mc_Workspace = trim_space (parts ! 3), mc_Date = trim_space (parts ! 4), mc_Status = trim_space (parts ! 5)\<rparr>))"


section \<open>Finding the directory\<close>

text \<open>The parent of a directory and which candidates are directories are arguments.\<close>

fun find_dir :: "(string \<Rightarrow> string) \<Rightarrow> (string \<Rightarrow> bool) \<Rightarrow> (string \<Rightarrow> string) \<Rightarrow> nat \<Rightarrow> string \<Rightarrow> string option" where
  "find_dir candidate is_dir parent 0 dir = None"
| "find_dir candidate is_dir parent (Suc n) dir =
     (if is_dir (candidate dir) then Some (candidate dir)
      else if parent dir = dir then None
      else find_dir candidate is_dir parent n (parent dir))"

definition FindNeoProjectDir :: "(string \<Rightarrow> string) \<Rightarrow> (string \<Rightarrow> bool) \<Rightarrow> (string \<Rightarrow> string) \<Rightarrow> string \<Rightarrow> string \<times> bool" where
  "FindNeoProjectDir candidate is_dir parent startDir =
     (case find_dir candidate is_dir parent 5 startDir of Some d \<Rightarrow> (d, True) | None \<Rightarrow> ('''', False))"

section \<open>Lemmas\<close>




lemma not_row [simp]:
  "parse_line [] = None" "parse_line ''---'' = None" "parse_line missingContractsSection = None"
  "parse_line tableHeaderLine = None" "parse_line tableSeparatorLine = None" "parse_line (footerPrefix @ x) = None"
  by (simp_all add: parse_line_def missingContractsSection_def tableHeaderLine_def tableSeparatorLine_def footerPrefix_def)






lemma fixed_lines [simp]:
  "newline \<notin> set missingContractsSection" "newline \<notin> set tableHeaderLine" "newline \<notin> set tableSeparatorLine" "newline \<noteq> CHR ''-''"
  by (simp_all add: missingContractsSection_def tableHeaderLine_def tableSeparatorLine_def newline_def)


section \<open>The row itself\<close>








section \<open>Property\<close>



text \<open>
  A cell with a pipe is written escaped, but the reader splits at every pipe: the columns shift.
\<close>

lemma escaped_pipe_shifts:
  "parse_line (contract_row ''a|b'' ''web'' ''shop'' ''2026-01-02'') =
     Some \<lparr>mc_Endpoint = ''a'' @ [CHR 0x5C], mc_Caller = ''b'', mc_Workspace = ''web'', mc_Date = ''shop'', mc_Status = ''2026-01-02''\<rparr>"
  by (simp add: parse_line_def contract_row_def sanitizeTableCell_def newline_def trim_space_def is_space_def pending_def Let_def)

end
