(* ===== verification/Sre_Ssrf.thy ===== *)
theory Sre_Ssrf
  imports Neo_Prelude
begin

unbundle bit_operations_syntax

text \<open>
  The clients of \<^verbatim>\<open>pkg/sre/ssrf.go\<close>, which decide whether an outgoing connection is allowed.
  An address is a list of bytes as in Go's \<^verbatim>\<open>net.IP\<close>; its predicates are those of the standard
  library. How an address is split and what the resolver answers are arguments. A dial by name
  resolves the name again, so the addresses it can reach are those of a second answer.
\<close>

section \<open>Addresses\<close>

type_synonym ip = "8 word list"

definition v4_in_v6 :: ip where
  "v4_in_v6 = [0, 0, 0, 0, 0, 0, 0, 0, 0, 0, 0xFF, 0xFF]"

definition IPv4zero :: ip where
  "IPv4zero = v4_in_v6 @ [0, 0, 0, 0]"

definition IPv6unspecified :: ip where
  "IPv6unspecified = [0, 0, 0, 0, 0, 0, 0, 0, 0, 0, 0, 0, 0, 0, 0, 0]"

definition IPv6loopback :: ip where
  "IPv6loopback = [0, 0, 0, 0, 0, 0, 0, 0, 0, 0, 0, 0, 0, 0, 0, 1]"

definition To4 :: "ip \<Rightarrow> ip option" where
  "To4 p = (if length p = 4 then Some p
            else if length p = 16 \<and> take 12 p = v4_in_v6 then Some (drop 12 p) else None)"

definition ip_equal :: "ip \<Rightarrow> ip \<Rightarrow> bool" where
  "ip_equal p x =
     (if length p = length x then p = x
      else if length p = 4 \<and> length x = 16 then take 12 x = v4_in_v6 \<and> p = drop 12 x
      else if length p = 16 \<and> length x = 4 then take 12 p = v4_in_v6 \<and> drop 12 p = x
      else False)"

definition IsLoopback :: "ip \<Rightarrow> bool" where
  "IsLoopback p = (case To4 p of Some q \<Rightarrow> q ! 0 = 127 | None \<Rightarrow> ip_equal p IPv6loopback)"

definition IsPrivate :: "ip \<Rightarrow> bool" where
  "IsPrivate p = (case To4 p of
      Some q \<Rightarrow> q ! 0 = 10 \<or> (q ! 0 = 172 \<and> q ! 1 AND 0xF0 = 16) \<or> (q ! 0 = 192 \<and> q ! 1 = 168)
    | None \<Rightarrow> length p = 16 \<and> p ! 0 AND 0xFE = 0xFC)"

definition IsMulticast :: "ip \<Rightarrow> bool" where
  "IsMulticast p = (case To4 p of Some q \<Rightarrow> q ! 0 AND 0xF0 = 0xE0 | None \<Rightarrow> length p = 16 \<and> p ! 0 = 0xFF)"

definition IsUnspecified :: "ip \<Rightarrow> bool" where
  "IsUnspecified p = (ip_equal p IPv4zero \<or> ip_equal p IPv6unspecified)"

definition IsLinkLocalUnicast :: "ip \<Rightarrow> bool" where
  "IsLinkLocalUnicast p = (case To4 p of Some q \<Rightarrow> q ! 0 = 169 \<and> q ! 1 = 254
    | None \<Rightarrow> length p = 16 \<and> p ! 0 = 0xFE \<and> p ! 1 AND 0xC0 = 0x80)"

definition IsLinkLocalMulticast :: "ip \<Rightarrow> bool" where
  "IsLinkLocalMulticast p = (case To4 p of Some q \<Rightarrow> q ! 0 = 224 \<and> q ! 1 = 0 \<and> q ! 2 = 0
    | None \<Rightarrow> length p = 16 \<and> p ! 0 = 0xFF \<and> p ! 1 AND 0x0F = 0x02)"

text \<open>\<^verbatim>\<open>IPNet.Contains\<close> for a network of four bytes.\<close>

definition net_contains :: "ip \<times> ip \<Rightarrow> ip \<Rightarrow> bool" where
  "net_contains n p = (let q = (case To4 p of Some q \<Rightarrow> q | None \<Rightarrow> p)
     in length q = length (fst n) \<and> (\<forall>i<length q. fst n ! i AND snd n ! i = q ! i AND snd n ! i))"

definition cgnatBlock :: "ip \<times> ip" where
  "cgnatBlock = ([100, 64, 0, 0], [0xFF, 0xC0, 0, 0])"

definition canonicalIP :: "ip \<Rightarrow> ip" where
  "canonicalIP p = (case To4 p of Some four \<Rightarrow> four | None \<Rightarrow> p)"

section \<open>The clients\<close>

text \<open>The ports are set once; before that the map is nil and has no port.\<close>

definition InitTrustedPorts :: "int list \<Rightarrow> (string \<Rightarrow> bool) option \<Rightarrow> (string \<Rightarrow> bool) option" where
  "InitTrustedPorts ports once =
     (case once of Some m \<Rightarrow> Some m | None \<Rightarrow> Some (\<lambda>s. s \<in> set (List.map dec_int ports)))"

definition trusted :: "(string \<Rightarrow> bool) option \<Rightarrow> string \<Rightarrow> bool" where
  "trusted once port = (case once of None \<Rightarrow> False | Some m \<Rightarrow> m port)"

text \<open>Seconds and nanoseconds.\<close>

definition second :: int where "second = 1000000000"

datatype dial_error = SplitError string | LookupFailed string | NotLoopback ip | NotAddressable ip | Reserved ip | CarrierGrade ip

text \<open>What is dialled: the name as given, or an address of the answer.\<close>

datatype target = ByName string | ByAddress ip string

record dialing =
  dl_target :: target
  dl_timeout :: int

record resolver =
  rs_split :: "string \<Rightarrow> string + string \<times> string"
  rs_lookup :: "string \<Rightarrow> string + ip list"

record client =
  cl_timeout :: int
  cl_dial :: "resolver \<Rightarrow> string \<Rightarrow> dial_error + dialing"

text \<open>Splitting and resolving; an empty answer is a failure.\<close>

definition resolve :: "resolver \<Rightarrow> string \<Rightarrow> (string \<Rightarrow> ip list \<Rightarrow> dial_error + dialing) \<Rightarrow> dial_error + dialing" where
  "resolve r addr k =
     (case rs_split r addr of
        Inl e \<Rightarrow> Inl (SplitError e)
      | Inr (host, port) \<Rightarrow>
          (case rs_lookup r host of
             Inl e \<Rightarrow> Inl (LookupFailed host)
           | Inr ips \<Rightarrow> if ips = [] then Inl (LookupFailed host) else k port ips))"

definition loopback_dial :: "int \<Rightarrow> resolver \<Rightarrow> string \<Rightarrow> dial_error + dialing" where
  "loopback_dial limit r addr = resolve r addr (\<lambda>port ips.
     case find (\<lambda>raw. \<not> IsLoopback (canonicalIP raw)) ips of
       Some raw \<Rightarrow> Inl (NotLoopback raw)
     | None \<Rightarrow> Inr \<lparr>dl_target = ByName addr, dl_timeout = limit\<rparr>)"

definition SafeInternalHTTPClient :: "int \<Rightarrow> client" where
  "SafeInternalHTTPClient timeoutSec =
     \<lparr>cl_timeout = (if timeoutSec \<le> 0 then 15 else timeoutSec) * second, cl_dial = loopback_dial (5 * second)\<rparr>"

definition SafeInternalHTTPClientD :: "int \<Rightarrow> client" where
  "SafeInternalHTTPClientD timeout =
     (let t = if timeout \<le> 0 then 15 * second else timeout in \<lparr>cl_timeout = t, cl_dial = loopback_dial t\<rparr>)"

definition operator_blocked :: "ip \<Rightarrow> bool" where
  "operator_blocked raw = (let ip = canonicalIP raw
     in IsMulticast ip \<or> IsUnspecified ip \<or> IsLinkLocalUnicast ip \<or> IsLinkLocalMulticast ip)"

definition SafeOperatorHTTPClient :: "int \<Rightarrow> client" where
  "SafeOperatorHTTPClient timeoutSec =
     \<lparr>cl_timeout = (if timeoutSec \<le> 0 then 30 else timeoutSec) * second,
      cl_dial = (\<lambda>r addr. resolve r addr (\<lambda>port ips.
        case find operator_blocked ips of
          Some raw \<Rightarrow> Inl (NotAddressable raw)
        | None \<Rightarrow> Inr \<lparr>dl_target = ByAddress (hd ips) port, dl_timeout = 5 * second\<rparr>))\<rparr>"

text \<open>The audit of one address: the error it gives, if any.\<close>

definition safe_audit :: "ip \<Rightarrow> dial_error option" where
  "safe_audit raw = (let ip = canonicalIP raw
     in if IsLoopback ip \<or> IsPrivate ip \<or> IsMulticast ip \<or> IsUnspecified ip \<or> IsLinkLocalUnicast ip \<or> IsLinkLocalMulticast ip
        then Some (Reserved raw)
        else if net_contains cgnatBlock ip then Some (CarrierGrade raw) else None)"

fun first_error :: "ip list \<Rightarrow> dial_error option" where
  "first_error [] = None"
| "first_error (raw # ips) = (case safe_audit raw of Some e \<Rightarrow> Some e | None \<Rightarrow> first_error ips)"

definition SafeHTTPClient :: "(string \<Rightarrow> bool) option \<Rightarrow> client" where
  "SafeHTTPClient once =
     \<lparr>cl_timeout = 15 * second,
      cl_dial = (\<lambda>r addr. resolve r addr (\<lambda>port ips.
        if list_ex (\<lambda>raw. IsLoopback (canonicalIP raw)) ips \<and> trusted once port
        then Inr \<lparr>dl_target = ByName addr, dl_timeout = 5 * second\<rparr>
        else (case first_error ips of
                Some e \<Rightarrow> Inl e
              | None \<Rightarrow> Inr \<lparr>dl_target = ByAddress (hd ips) port, dl_timeout = 5 * second\<rparr>)))\<rparr>"

text \<open>The addresses a dial can reach, given what the resolver answers when it is made.\<close>

definition reachable :: "resolver \<Rightarrow> dialing \<Rightarrow> ip set" where
  "reachable later d =
     (case dl_target d of
        ByAddress ip port \<Rightarrow> {ip}
      | ByName addr \<Rightarrow> (case rs_split later addr of Inl e \<Rightarrow> {} | Inr (host, port) \<Rightarrow>
                         (case rs_lookup later host of Inl e \<Rightarrow> {} | Inr ips \<Rightarrow> set ips)))"

section \<open>The specification: tables of prefixes\<close>

text \<open>The bits of an address, the most significant first, and membership in a prefix.\<close>

definition byte_bits :: "8 word \<Rightarrow> bool list" where
  "byte_bits b = List.map (bit b) [7, 6, 5, 4, 3, 2, 1, 0]"

definition ip_bits :: "ip \<Rightarrow> bool list" where
  "ip_bits p = concat (List.map byte_bits p)"

definition in_prefix :: "ip \<Rightarrow> ip \<times> nat \<Rightarrow> bool" where
  "in_prefix p c = (length p = length (fst c) \<and> take (snd c) (ip_bits p) = take (snd c) (ip_bits (fst c)))"

definition in_table :: "(ip \<times> nat) list \<Rightarrow> ip \<Rightarrow> bool" where
  "in_table t p = list_ex (in_prefix p) t"

text \<open>A prefix of version 4 also stands for the same addresses mapped into version 6.\<close>

definition with_mapped :: "(ip \<times> nat) list \<Rightarrow> (ip \<times> nat) list" where
  "with_mapped t = t @ List.map (\<lambda>(b, n). (v4_in_v6 @ b, 96 + n)) t"

definition loopback_table :: "(ip \<times> nat) list" where
  "loopback_table = with_mapped [([127, 0, 0, 0], 8)] @ [(IPv6loopback, 128)]"

definition unroutable_table :: "(ip \<times> nat) list" where
  "unroutable_table =
     with_mapped [([224, 0, 0, 0], 4), ([0, 0, 0, 0], 32), ([169, 254, 0, 0], 16)] @
     [(IPv6unspecified[0 := 0xFF], 8), (IPv6unspecified, 128), (IPv6unspecified[0 := 0xFE, 1 := 0x80], 10)]"

definition private_table :: "(ip \<times> nat) list" where
  "private_table =
     with_mapped [([10, 0, 0, 0], 8), ([172, 16, 0, 0], 12), ([192, 168, 0, 0], 16), ([100, 64, 0, 0], 10)] @
     [(IPv6unspecified[0 := 0xFC], 7)]"

section \<open>Addresses byte by byte\<close>

lemma byte_eq_bits:
  "(a :: 8 word) = b \<longleftrightarrow> (bit a 7 = bit b 7 \<and> bit a 6 = bit b 6 \<and> bit a 5 = bit b 5 \<and> bit a 4 = bit b 4 \<and>
     bit a 3 = bit b 3 \<and> bit a 2 = bit b 2 \<and> bit a 1 = bit b 1 \<and> bit a 0 = bit b 0)"
proof -
  have eight: "n \<in> {0, 1, 2, 3, 4, 5, 6, 7}" if "n < 8" for n :: nat using that by auto
  have "a = b" if "\<forall>n\<in>{0, 1, 2, 3, 4, 5, 6, 7}. bit a n = bit b n"
  proof (rule bit_word_eqI)
    fix n assume "n < LENGTH(8)"
    then show "bit a n = bit b n" using eight [of n] bspec [OF that] by simp
  qed
  then show ?thesis by auto
qed

lemma masked_byte:
  "a AND 0xF0 = (16 :: 8 word) \<longleftrightarrow> \<not> bit a 7 \<and> \<not> bit a 6 \<and> \<not> bit a 5 \<and> bit a 4"
  "a AND 0xF0 = (0xE0 :: 8 word) \<longleftrightarrow> bit a 7 \<and> bit a 6 \<and> bit a 5 \<and> \<not> bit a 4"
  "a AND 0xFE = (0xFC :: 8 word) \<longleftrightarrow> bit a 7 \<and> bit a 6 \<and> bit a 5 \<and> bit a 4 \<and> bit a 3 \<and> bit a 2 \<and> \<not> bit a 1"
  "a AND 0xC0 = (0x80 :: 8 word) \<longleftrightarrow> bit a 7 \<and> \<not> bit a 6"
  "a AND 0xC0 = (64 :: 8 word) \<longleftrightarrow> \<not> bit a 7 \<and> bit a 6"
  "a AND 0xFF = (a :: 8 word)"
  unfolding byte_eq_bits [of "a AND _"] bit_and_iff by simp_all

lemma all_less_4: "(\<forall>i<Suc (Suc (Suc (Suc 0))). P i) \<longleftrightarrow> P 0 \<and> P 1 \<and> P 2 \<and> P (3 :: nat)"
  by (auto simp: numeral_eq_Suc All_less_Suc)

lemma four_bytes:
  assumes "length p = 4"
  obtains a b c d where "p = [a, b, c, d]"
  using assms by (auto simp: numeral_eq_Suc length_Suc_conv)

lemma sixteen_bytes:
  assumes "length p = 16"
  obtains a0 a1 a2 a3 a4 a5 a6 a7 a8 a9 a10 a11 a b c d
  where "p = [a0, a1, a2, a3, a4, a5, a6, a7, a8, a9, a10, a11, a, b, c, d]"
  using assms by (auto simp: numeral_eq_Suc length_Suc_conv)

text \<open>Every predicate of Go's library answers for a mapped address as for the address itself.\<close>

lemma To4_canonical [simp]: "To4 (canonicalIP p) = To4 p"
  by (auto simp: canonicalIP_def To4_def)

lemma To4_idem: "To4 p = Some q \<Longrightarrow> To4 q = Some q"
  by (auto simp: To4_def split: if_splits)

lemma ip_equal_canonical:
  assumes "length x = 16"
  shows "ip_equal (canonicalIP p) x = ip_equal p x"
proof (cases "length p = 16 \<and> take 12 p = v4_in_v6")
  case True
  then have c: "canonicalIP p = drop 12 p" by (simp add: canonicalIP_def To4_def)
  have "p = v4_in_v6 @ drop 12 p" using True by (metis append_take_drop_id)
  moreover have "x = take 12 x @ drop 12 x" by simp
  ultimately have "p = x \<longleftrightarrow> take 12 x = v4_in_v6 \<and> drop 12 p = drop 12 x" using True by metis
  then show ?thesis using True assms by (simp add: c ip_equal_def)
next
  case False
  then show ?thesis by (auto simp: canonicalIP_def To4_def)
qed

lemma canonical_length: "length p = 4 \<or> length p = 16 \<Longrightarrow> length (canonicalIP p) = 16 \<longleftrightarrow> To4 p = None"
  by (auto simp: canonicalIP_def To4_def)

lemma canonical_noop:
  "IsLoopback (canonicalIP p) = IsLoopback p"
  "IsPrivate (canonicalIP p) = IsPrivate p"
  "IsMulticast (canonicalIP p) = IsMulticast p"
  "IsUnspecified (canonicalIP p) = IsUnspecified p"
  "IsLinkLocalUnicast (canonicalIP p) = IsLinkLocalUnicast p"
  "IsLinkLocalMulticast (canonicalIP p) = IsLinkLocalMulticast p"
  "net_contains n (canonicalIP p) = net_contains n p"
proof -
  show "IsUnspecified (canonicalIP p) = IsUnspecified p"
    by (simp add: IsUnspecified_def ip_equal_canonical IPv4zero_def IPv6unspecified_def v4_in_v6_def)
  show "IsLoopback (canonicalIP p) = IsLoopback p"
    by (simp add: IsLoopback_def ip_equal_canonical IPv6loopback_def split: option.split)
  show "net_contains n (canonicalIP p) = net_contains n p"
    by (cases "To4 p") (simp_all add: net_contains_def canonicalIP_def To4_idem)
  have c: "canonicalIP p = p" if "To4 p = None" using that by (simp add: canonicalIP_def)
  show "IsPrivate (canonicalIP p) = IsPrivate p" "IsMulticast (canonicalIP p) = IsMulticast p"
    "IsLinkLocalUnicast (canonicalIP p) = IsLinkLocalUnicast p" "IsLinkLocalMulticast (canonicalIP p) = IsLinkLocalMulticast p"
    unfolding IsPrivate_def IsMulticast_def IsLinkLocalUnicast_def IsLinkLocalMulticast_def
    by (cases "To4 p"; simp add: c)+
qed

section \<open>The predicates are the tables\<close>

lemma byte_bits_inj [simp]: "byte_bits a = byte_bits b \<longleftrightarrow> a = b"
  by (simp add: byte_bits_def byte_eq_bits [of a b])

lemma byte_bits_length [simp]: "length (byte_bits a) = 8"
  by (simp add: byte_bits_def)

lemma ip_bits_simps [simp]: "ip_bits [] = []" "ip_bits (b # p) = byte_bits b @ ip_bits p"
  by (simp_all add: ip_bits_def)

lemma ip_bits_append [simp]: "ip_bits (p @ q) = ip_bits p @ ip_bits q"
  by (simp add: ip_bits_def)

lemma ip_bits_length [simp]: "length (ip_bits p) = 8 * length p"
  by (induction p) simp_all

lemma v4_in_v6_length [simp]: "length v4_in_v6 = 12"
  by (simp add: v4_in_v6_def)

lemma take_byte_bits:
  "take 4 (byte_bits a) = [bit a 7, bit a 6, bit a 5, bit a 4]"
  "take 2 (byte_bits a) = [bit a 7, bit a 6]"
  "take 7 (byte_bits a) = [bit a 7, bit a 6, bit a 5, bit a 4, bit a 3, bit a 2, bit a 1]"
  by (simp_all add: byte_bits_def)

lemma in_table_simps [simp]:
  "in_table [] p = False" "in_table (c # t) p = (in_prefix p c \<or> in_table t p)" "in_table (t @ u) p = (in_table t p \<or> in_table u p)"
  by (auto simp: in_table_def)

lemma mapped_table:
  assumes "length p = 4"
  shows "in_table (List.map (\<lambda>(b, n). (v4_in_v6 @ b, 96 + n)) t) p = False"
  using assms by (induction t) (auto simp: in_prefix_def)

lemma mapped_append: "in_prefix (v4_in_v6 @ p) (v4_in_v6 @ b, 96 + n) = in_prefix p (b, n)"
  by (simp add: in_prefix_def)

text \<open>A table of version 4 prefixes is read off the four bytes, however the address is written.\<close>

lemma mapped_other:
  assumes "length p = 16" "To4 p = None" "\<forall>c\<in>set t. length (fst c) = 4"
  shows "in_table (with_mapped t) p = False"
proof -
  have "\<not> in_prefix p (v4_in_v6 @ b, 96 + n)" for b n
  proof
    assume "in_prefix p (v4_in_v6 @ b, 96 + n)"
    then have b: "take (96 + n) (ip_bits p) = take (96 + n) (ip_bits (v4_in_v6 @ b))" by (simp add: in_prefix_def)
    have "take 96 (take (96 + n) (ip_bits p)) = take 96 (take (96 + n) (ip_bits (v4_in_v6 @ b)))" by (simp only: b)
    then have bits: "take 96 (ip_bits p) = ip_bits v4_in_v6" by simp
    obtain a0 a1 a2 a3 a4 a5 a6 a7 a8 a9 a10 a11 x y z w
      where "p = [a0, a1, a2, a3, a4, a5, a6, a7, a8, a9, a10, a11, x, y, z, w]" using assms(1) by (rule sixteen_bytes)
    then have "take 12 p = v4_in_v6" using bits by (simp add: v4_in_v6_def numeral_eq_Suc)
    then show False using assms(1,2) by (simp add: To4_def)
  qed
  moreover have "\<not> in_prefix p c" if "length (fst c) = 4" for c using assms(1) that by (auto simp: in_prefix_def)
  ultimately show ?thesis using assms(3) by (induction t) (auto simp: with_mapped_def)
qed

lemma mapped_four:
  assumes "To4 p = Some q" "\<forall>c\<in>set t. length (fst c) = 4"
  shows "in_table (with_mapped t) p = in_table t q"
proof (cases "length p = 4")
  case True
  then show ?thesis using assms mapped_table [OF True] by (simp add: with_mapped_def To4_def)
next
  case False
  then have p: "p = v4_in_v6 @ q" "length q = 4" using assms(1)
    by (auto simp: To4_def split: if_splits) (metis append_take_drop_id)
  have "in_table (List.map (\<lambda>(b, n). (v4_in_v6 @ b, 96 + n)) t) p = in_table t q" using assms(2) p(2)
    by (induction t) (auto simp: p(1) mapped_append)
  moreover have "in_table t p = False" using assms(2) p by (induction t) (auto simp: in_prefix_def)
  ultimately show ?thesis by (simp add: with_mapped_def)
qed

text \<open>Addresses of four bytes or of sixteen.\<close>

abbreviation wf_ip :: "ip \<Rightarrow> bool" where
  "wf_ip p \<equiv> length p = 4 \<or> length p = 16"

lemma To4_iff: "To4 p = Some q \<longleftrightarrow> length q = 4 \<and> (p = q \<or> p = v4_in_v6 @ q)"
proof
  assume "To4 p = Some q"
  then show "length q = 4 \<and> (p = q \<or> p = v4_in_v6 @ q)"
    by (auto simp: To4_def split: if_splits) (metis append_take_drop_id)
qed (auto simp: To4_def)

lemma ip_cases:
  assumes "wf_ip p"
  obtains (four) q where "To4 p = Some q" "length q = 4" | (six) "To4 p = None" "length p = 16"
proof (cases "To4 p")
  case None
  then have "length p \<noteq> 4" by (auto simp: To4_def)
  then show thesis using six None assms by simp
next
  case (Some q)
  then show thesis using four To4_iff by blast
qed

lemma v6_constants [simp]:
  "v4_in_v6 @ q \<noteq> IPv6unspecified" "v4_in_v6 @ q \<noteq> IPv6loopback"
  "IPv6unspecified \<noteq> v4_in_v6 @ q" "IPv6loopback \<noteq> v4_in_v6 @ q" "take 12 IPv6unspecified \<noteq> v4_in_v6"
  "take 12 IPv6loopback \<noteq> v4_in_v6" "length IPv6unspecified = 16" "length IPv6loopback = 16"
  by (simp_all add: v4_in_v6_def IPv6unspecified_def IPv6loopback_def)

lemma unspecified_four:
  assumes "To4 p = Some q"
  shows "IsUnspecified p \<longleftrightarrow> q = [0, 0, 0, 0]"
  using assms by (auto simp: To4_iff IsUnspecified_def IPv4zero_def ip_equal_def dest: arg_cong [of _ _ length])

lemma unspecified_six:
  assumes "To4 p = None" "length p = 16"
  shows "IsUnspecified p \<longleftrightarrow> p = IPv6unspecified"
  using assms by (auto simp: IsUnspecified_def IPv4zero_def ip_equal_def To4_def)

lemma six_in_prefix:
  assumes "To4 p = Some q" "length b = 16" "8 \<le> n" "take 1 b \<noteq> [0]"
  shows "\<not> in_prefix p (b, n)"
proof
  assume i: "in_prefix p (b, n)"
  then have p: "p = v4_in_v6 @ q" using assms(1,2) by (auto simp: in_prefix_def To4_iff)
  obtain c b' where b: "b = c # b'" using assms(2) by (cases b) auto
  have "take 8 (take n (ip_bits p)) = take 8 (take n (ip_bits b))" using i by (simp add: in_prefix_def)
  then have "take 8 (ip_bits p) = take 8 (ip_bits b)" using assms(3) by (simp add: min_def)
  then have "byte_bits 0 = byte_bits c" by (simp add: p b v4_in_v6_def)
  then show False using assms(4) by (simp add: b)
qed

lemma six_exact:
  assumes "length p = 16" "length b = 16"
  shows "in_prefix p (b, 128) \<longleftrightarrow> p = b"
proof -
  have "ip_bits p = ip_bits b \<longleftrightarrow> p = b" if "length p = length b" for p b :: ip
    using that by (induction p b rule: list_induct2) auto
  then show ?thesis using assms by (simp add: in_prefix_def)
qed

lemma four_not_six:
  assumes "To4 p = Some q" "length b = 16" "b = IPv6unspecified \<or> b = IPv6loopback"
  shows "\<not> in_prefix p (b, 128)"
  using assms six_exact [of p b] by (auto simp: To4_iff in_prefix_def)

lemma loopback_is_table:
  assumes "wf_ip p"
  shows "IsLoopback p \<longleftrightarrow> in_table loopback_table p"
  using assms
proof (cases p rule: ip_cases)
  case (four q)
  then obtain a b c d where q: "q = [a, b, c, d]" by (metis four_bytes)
  have "in_table loopback_table p \<longleftrightarrow> in_table [([127, 0, 0, 0], 8)] q"
    using mapped_four [OF four(1), of "[([127, 0, 0, 0], 8)]"] four_not_six [OF four(1)] by (simp add: loopback_table_def)
  then show ?thesis using four(1) by (simp add: IsLoopback_def q in_prefix_def)
next
  case six
  have "in_table loopback_table p \<longleftrightarrow> p = IPv6loopback"
    using mapped_other [OF six(2,1), of "[([127, 0, 0, 0], 8)]"] six_exact [OF six(2)] by (simp add: loopback_table_def)
  then show ?thesis using six by (simp add: IsLoopback_def ip_equal_def)
qed

lemma unroutable_is_table:
  assumes "wf_ip p"
  shows "IsMulticast p \<or> IsUnspecified p \<or> IsLinkLocalUnicast p \<longleftrightarrow> in_table unroutable_table p"
  using assms
proof (cases p rule: ip_cases)
  case (four q)
  then obtain a b c d where q: "q = [a, b, c, d]" by (metis four_bytes)
  have "in_table unroutable_table p \<longleftrightarrow> in_table [([224, 0, 0, 0], 4), ([0, 0, 0, 0], 32), ([169, 254, 0, 0], 16)] q"
    using mapped_four [OF four(1), of "[([224, 0, 0, 0], 4), ([0, 0, 0, 0], 32), ([169, 254, 0, 0], 16)]"]
      four_not_six [OF four(1)] six_in_prefix [OF four(1), of "IPv6unspecified[0 := 0xFF]" 8]
      six_in_prefix [OF four(1), of "IPv6unspecified[0 := 0xFE, 1 := 0x80]" 10]
    by (simp add: unroutable_table_def IPv6unspecified_def)
  then show ?thesis using four(1) unspecified_four [OF four(1)]
    by (simp add: IsMulticast_def IsLinkLocalUnicast_def q in_prefix_def take_byte_bits masked_byte)
next
  case six
  obtain a0 a1 a2 a3 a4 a5 a6 a7 a8 a9 a10 a11 x y z w
    where p: "p = [a0, a1, a2, a3, a4, a5, a6, a7, a8, a9, a10, a11, x, y, z, w]" using six(2) by (rule sixteen_bytes)
  have "in_table unroutable_table p \<longleftrightarrow>
      in_table [(IPv6unspecified[0 := 0xFF], 8), (IPv6unspecified, 128), (IPv6unspecified[0 := 0xFE, 1 := 0x80], 10)] p"
    using mapped_other [OF six(2,1), of "[([224, 0, 0, 0], 4), ([0, 0, 0, 0], 32), ([169, 254, 0, 0], 16)]"]
    by (simp add: unroutable_table_def)
  also have "\<dots> \<longleftrightarrow> a0 = 0xFF \<or> p = IPv6unspecified \<or> (a0 = 0xFE \<and> bit a1 7 \<and> \<not> bit a1 6)"
    using six_exact [OF six(2), of IPv6unspecified]
    by (simp add: in_prefix_def [of _ "(_, 8)"] in_prefix_def [of _ "(_, 10)"] take_byte_bits) (simp add: p IPv6unspecified_def take_byte_bits)
  finally show ?thesis using six unspecified_six [OF six] by (auto simp: IsMulticast_def IsLinkLocalUnicast_def p masked_byte)
qed

lemma private_is_table:
  assumes "wf_ip p"
  shows "IsPrivate p \<or> net_contains cgnatBlock p \<longleftrightarrow> in_table private_table p"
  using assms
proof (cases p rule: ip_cases)
  case (four q)
  then obtain a b c d where q: "q = [a, b, c, d]" by (metis four_bytes)
  let ?t = "[([10, 0, 0, 0], 8), ([172, 16, 0, 0], 12), ([192, 168, 0, 0], 16), ([100, 64, 0, 0], 10)] :: (ip \<times> nat) list"
  have "\<not> in_prefix p (IPv6unspecified[0 := 0xFC], 7)"
  proof
    assume i: "in_prefix p (IPv6unspecified[0 := 0xFC], 7)"
    then have "p = v4_in_v6 @ q" using four(1) by (auto simp: in_prefix_def To4_iff)
    then show False using i by (simp add: in_prefix_def v4_in_v6_def IPv6unspecified_def take_byte_bits)
  qed
  then have "in_table private_table p \<longleftrightarrow> in_table ?t q"
    using mapped_four [OF four(1), of ?t] by (simp add: private_table_def)
  moreover have "net_contains cgnatBlock p \<longleftrightarrow> a = 100 \<and> \<not> bit b 7 \<and> bit b 6"
    using four(1) by (auto simp: net_contains_def cgnatBlock_def q all_less_4 masked_byte)
  ultimately show ?thesis using four(1)
    by (simp add: IsPrivate_def q in_prefix_def take_byte_bits masked_byte)
next
  case six
  obtain a0 a1 a2 a3 a4 a5 a6 a7 a8 a9 a10 a11 x y z w
    where p: "p = [a0, a1, a2, a3, a4, a5, a6, a7, a8, a9, a10, a11, x, y, z, w]" using six(2) by (rule sixteen_bytes)
  have "in_table private_table p \<longleftrightarrow> in_prefix p (IPv6unspecified[0 := 0xFC], 7)"
    using mapped_other [OF six(2,1), of "[([10, 0, 0, 0], 8), ([172, 16, 0, 0], 12), ([192, 168, 0, 0], 16), ([100, 64, 0, 0], 10)]"]
    by (simp add: private_table_def)
  then show ?thesis using six by (simp add: IsPrivate_def net_contains_def cgnatBlock_def in_prefix_def p IPv6unspecified_def take_byte_bits masked_byte)
qed

section \<open>What the clients let through\<close>

text \<open>Link-local multicast is multicast, so the last test of the code never decides.\<close>

lemma link_local_multicast: "IsLinkLocalMulticast p \<Longrightarrow> IsMulticast p"
  by (auto simp: IsLinkLocalMulticast_def IsMulticast_def masked_byte split: option.splits)

lemma operator_blocked_table: "wf_ip p \<Longrightarrow> operator_blocked p \<longleftrightarrow> in_table unroutable_table p"
  using unroutable_is_table [of p] link_local_multicast [of p] by (auto simp: operator_blocked_def Let_def canonical_noop)

definition reserved_table :: "(ip \<times> nat) list" where
  "reserved_table = loopback_table @ unroutable_table @ private_table"

lemma safe_audit_table: "wf_ip p \<Longrightarrow> safe_audit p = None \<longleftrightarrow> \<not> in_table reserved_table p"
  using unroutable_is_table [of p] loopback_is_table [of p] private_is_table [of p] link_local_multicast [of p]
  by (auto simp: safe_audit_def Let_def canonical_noop reserved_table_def)

lemma first_error_None: "first_error ips = None \<longleftrightarrow> (\<forall>p\<in>set ips. safe_audit p = None)"
  by (induction ips) (auto split: option.splits)

lemma resolve_ok:
  "resolve r addr k = Inr d \<longleftrightarrow>
     (\<exists>host port ips. rs_split r addr = Inr (host, port) \<and> rs_lookup r host = Inr ips \<and> ips \<noteq> [] \<and> k port ips = Inr d)"
  by (auto simp: resolve_def split: sum.splits)

text \<open>The resolver answers addresses of four or sixteen bytes.\<close>

definition answers_ok :: "resolver \<Rightarrow> bool" where
  "answers_ok r \<longleftrightarrow> (\<forall>host ips. rs_lookup r host = Inr ips \<longrightarrow> (\<forall>p\<in>set ips. wf_ip p))"

text \<open>
  C29: Through the client for outside URLs, a port that is not trusted only ever leads to an
  address outside the reserved ranges: the dial succeeds exactly when every address the resolver
  answers is outside the table of loopback, private, shared, link-local, multicast and unspecified
  prefixes, in four bytes or mapped into sixteen, and then it goes to the first of them, whatever
  the resolver would answer later.
\<close>

theorem ssrf_guard_exact:
  assumes "answers_ok r" "rs_split r addr = Inr (host, port)" "\<not> trusted once port"
  shows "(\<exists>d. cl_dial (SafeHTTPClient once) r addr = Inr d \<and> reachable later d = {p}) \<longleftrightarrow>
    (\<exists>ips. rs_lookup r host = Inr (p # ips) \<and> (\<forall>q\<in>set (p # ips). \<not> in_table reserved_table q))"
proof -
  have wf: "\<forall>q\<in>set ips. wf_ip q" if "rs_lookup r host = Inr ips" for ips
    using assms(1) that unfolding answers_ok_def by blast
  have audit: "first_error ips = None \<longleftrightarrow> (\<forall>q\<in>set ips. \<not> in_table reserved_table q)" if "rs_lookup r host = Inr ips" for ips
    using wf [OF that] safe_audit_table by (auto simp: first_error_None)
  show ?thesis
  proof (cases "rs_lookup r host")
    case (Inr ips)
    show ?thesis
      using audit [OF Inr] Inr assms(2,3)
      by (cases ips) (auto simp: SafeHTTPClient_def resolve_def reachable_def split: option.splits)
  qed (use assms(2) in \<open>auto simp: SafeHTTPClient_def resolve_def\<close>)
qed

definition demo_resolver :: "ip list \<Rightarrow> resolver" where
  "demo_resolver ips = \<lparr>rs_split = (\<lambda>a. Inr (a, ''443'')), rs_lookup = (\<lambda>h. Inr ips)\<rparr>"

theorem ssrf_guard_exact_witness:
  "(\<exists>d. cl_dial (SafeHTTPClient (InitTrustedPorts [80] None)) (demo_resolver [[93, 184, 216, 34]]) ''example.com'' = Inr d \<and>
      reachable (demo_resolver [[127, 0, 0, 1]]) d = {[93, 184, 216, 34]}) \<and>
   \<not> (\<exists>d. cl_dial (SafeHTTPClient (InitTrustedPorts [80] None)) (demo_resolver [[93, 184, 216, 34], v4_in_v6 @ [10, 0, 0, 1]]) ''example.com'' = Inr d \<and>
      reachable (demo_resolver [[127, 0, 0, 1]]) d = {[93, 184, 216, 34]})"
proof -
  let ?p = "[93, 184, 216, 34] :: ip"
  have ok: "answers_ok (demo_resolver [?p])" "answers_ok (demo_resolver [?p, v4_in_v6 @ [10, 0, 0, 1]])"
    by (simp_all add: answers_ok_def demo_resolver_def)
  have port: "\<not> trusted (InitTrustedPorts [80] None) ''443''"
  proof -
    have "dec 80 = ''80''" by code_simp
    then show ?thesis by (simp add: trusted_def InitTrustedPorts_def dec_int_def)
  qed
  have split: "rs_split (demo_resolver ips) ''example.com'' = Inr (''example.com'', ''443'')" for ips
    by (simp add: demo_resolver_def)
  have bits: "\<not> safe_audit ?p \<noteq> None" "safe_audit (v4_in_v6 @ [10, 0, 0, 1]) \<noteq> None"
    by (simp_all add: safe_audit_def Let_def canonicalIP_def To4_def IsLoopback_def IsPrivate_def IsMulticast_def IsUnspecified_def
        IPv4zero_def IPv6unspecified_def v4_in_v6_def ip_equal_def IsLinkLocalUnicast_def IsLinkLocalMulticast_def net_contains_def
        cgnatBlock_def all_less_4)
  have "\<not> in_table reserved_table ?p" "in_table reserved_table (v4_in_v6 @ [10, 0, 0, 1])"
    using bits safe_audit_table [of ?p] safe_audit_table [of "v4_in_v6 @ [10, 0, 0, 1]"] by simp_all
  then show ?thesis
    using ssrf_guard_exact [OF ok(1) split port, of "demo_resolver [[127, 0, 0, 1]]" ?p]
      ssrf_guard_exact [OF ok(2) split port, of "demo_resolver [[127, 0, 0, 1]]" ?p]
    by (simp add: demo_resolver_def)
qed

text \<open>The same for the client of operator configured URLs, with the smaller table.\<close>

lemma operator_exact:
  assumes "answers_ok r" "rs_split r addr = Inr (host, port)" "rs_lookup r host = Inr (p # ips)"
  shows "cl_dial (SafeOperatorHTTPClient t) r addr = Inr \<lparr>dl_target = ByAddress p port, dl_timeout = 5 * second\<rparr> \<longleftrightarrow>
    (\<forall>q\<in>set (p # ips). \<not> in_table unroutable_table q)"
proof -
  have "\<forall>q\<in>set (p # ips). operator_blocked q \<longleftrightarrow> in_table unroutable_table q"
    using assms(1,3) operator_blocked_table unfolding answers_ok_def by blast
  then have "find operator_blocked (p # ips) = None \<longleftrightarrow> (\<forall>q\<in>set (p # ips). \<not> in_table unroutable_table q)"
    by (auto simp: find_None_iff)
  then show ?thesis using assms(2,3)
    by (auto simp: SafeOperatorHTTPClient_def resolve_def simp del: find.simps split: option.splits)
qed

text \<open>The internal clients connect only if every answer is loopback.\<close>

lemma internal_exact:
  assumes "answers_ok r"
  shows "(\<exists>d. cl_dial (SafeInternalHTTPClient t) r addr = Inr d) \<longleftrightarrow>
    (\<exists>host port ips. rs_split r addr = Inr (host, port) \<and> rs_lookup r host = Inr ips \<and> ips \<noteq> [] \<and>
       (\<forall>q\<in>set ips. in_table loopback_table q))"
proof -
  have wf: "\<forall>q\<in>set ips. wf_ip q" if "rs_lookup r host = Inr ips" for host ips
    using assms that unfolding answers_ok_def by blast
  have f: "find (\<lambda>raw. \<not> IsLoopback (canonicalIP raw)) ips = None \<longleftrightarrow> (\<forall>q\<in>set ips. in_table loopback_table q)"
    if "rs_lookup r host = Inr ips" for host ips
    using wf [OF that] loopback_is_table by (auto simp: find_None_iff canonical_noop)
  have k: "(\<exists>d. (case find (\<lambda>raw. \<not> IsLoopback (canonicalIP raw)) ips of Some raw \<Rightarrow> Inl (NotLoopback raw) | None \<Rightarrow> Inr x) = Inr d)
      \<longleftrightarrow> (\<forall>q\<in>set ips. in_table loopback_table q)" if "rs_lookup r host = Inr ips" for host ips and x :: dialing
    using f [OF that] by (auto split: option.splits)
  show ?thesis unfolding SafeInternalHTTPClient_def client.simps loopback_dial_def resolve_ok
    using k by blast
qed

text \<open>
  But they, and the trusted ports, dial by name: what is reached is whatever the resolver answers
  then, and for a trusted port the other answers are not audited at all.
\<close>

lemma rebinding:
  "cl_dial (SafeInternalHTTPClient t) (demo_resolver [[127, 0, 0, 1]]) ''h'' = Inr d \<Longrightarrow>
   reachable (demo_resolver [[169, 254, 169, 254]]) d = {[169, 254, 169, 254]}"
  by (auto simp: SafeInternalHTTPClient_def loopback_dial_def resolve_def demo_resolver_def reachable_def
      canonicalIP_def To4_def IsLoopback_def)

lemma trusted_skips_audit:
  "\<exists>d. cl_dial (SafeHTTPClient (InitTrustedPorts [443] None)) (demo_resolver [[10, 0, 0, 1], [127, 0, 0, 1]]) ''h'' = Inr d \<and>
     [10, 0, 0, 1] \<in> reachable (demo_resolver [[10, 0, 0, 1], [127, 0, 0, 1]]) d"
proof -
  have "dec 443 = ''443''" by code_simp
  then show ?thesis
    by (simp add: SafeHTTPClient_def resolve_def demo_resolver_def reachable_def trusted_def InitTrustedPorts_def dec_int_def
        canonicalIP_def To4_def IsLoopback_def)
qed

text \<open>Only the first list of ports counts, and a port is trusted exactly if it is on it.\<close>

lemma first_ports_count:
  "trusted (InitTrustedPorts qs (InitTrustedPorts ps None)) (dec_int n) \<longleftrightarrow> n \<in> set ps"
  by (auto simp: trusted_def InitTrustedPorts_def dest: dec_int_inj)

text \<open>Addresses that embed an IPv4 address by other means than the mapping are not recognised.\<close>

lemma nat64_passes: "safe_audit [0, 0x64, 0xFF, 0x9B, 0, 0, 0, 0, 0, 0, 0, 0, 127, 0, 0, 1] = None"
  by (simp add: safe_audit_def canonicalIP_def To4_def IsLoopback_def IsPrivate_def IsMulticast_def IsUnspecified_def
      IPv4zero_def IPv6unspecified_def IPv6loopback_def v4_in_v6_def ip_equal_def IsLinkLocalUnicast_def IsLinkLocalMulticast_def
      net_contains_def cgnatBlock_def)

end
