(* ===== verification/Rag_Wal.thy ===== *)
theory Rag_Wal
  imports Bolt_Iface
begin

text \<open>
  The graph part of the write-ahead log, \<^verbatim>\<open>pkg/rag/wal.go\<close>: nodes, edges and vectors of the
  vector index in three buckets under the node number, the dimension all vectors share in a
  fourth. Keys and values are bytes. A float is its 32 bits. Indexing out of range and calling a
  missing bucket panic, which aborts the transaction; the panic is an error value here. A context
  is cancelled before a call or not during it.
\<close>

section \<open>Bytes\<close>

text \<open>\<^verbatim>\<open>binary.LittleEndian\<close>: a number in \<open>w\<close> bytes, the lowest first.\<close>

fun le_bytes :: "nat \<Rightarrow> nat \<Rightarrow> string" where
  "le_bytes 0 n = ''''"
| "le_bytes (Suc w) n = char_of (n mod 256) # le_bytes w (n div 256)"

fun le_val :: "string \<Rightarrow> nat" where
  "le_val [] = 0"
| "le_val (c # s) = of_char c + 256 * le_val s"

text \<open>The complete groups of four bytes, as the loops with \<^verbatim>\<open>i+4 <= len(v)\<close> read them.\<close>

fun words_of :: "string \<Rightarrow> u32 list" where
  "words_of (a # b # c # d # s) = of_nat (le_val [a, b, c, d]) # words_of s"
| "words_of _ = []"

definition bytes_of :: "u32 list \<Rightarrow> string" where
  "bytes_of ws = concat (List.map (\<lambda>w. le_bytes 4 (unat w)) ws)"

section \<open>Buckets\<close>

definition bucketNodes :: string where "bucketNodes = ''hnsw_nodes''"
definition bucketEdges :: string where "bucketEdges = ''hnsw_edges''"
definition bucketVectors :: string where "bucketVectors = ''hnsw_vectors''"
definition bucketDocs :: string where "bucketDocs = ''hnsw_docs''"
definition bucketDeps :: string where "bucketDeps = ''hnsw_deps''"
definition bucketScars :: string where "bucketScars = ''hnsw_scars''"
definition bucketWeights :: string where "bucketWeights = ''hnsw_weights''"
definition bucketDirectives :: string where "bucketDirectives = ''hnsw_directives''"
definition bucketHnswMeta :: string where "bucketHnswMeta = ''hnsw_meta''"

lemmas bucket_names = bucketNodes_def bucketEdges_def bucketVectors_def bucketDocs_def bucketDeps_def bucketScars_def
  bucketWeights_def bucketDirectives_def bucketHnswMeta_def

definition keyCanonicalVecDim :: string where "keyCanonicalVecDim = ''canonical_vec_dim''"

definition ErrVectorDimMismatch :: error where
  "ErrVectorDimMismatch = Err ''rag/wal: vector dimension mismatch''"

definition nil_panic :: error where
  "nil_panic = Err ''runtime error: invalid memory address or nil pointer dereference''"

definition index_panic :: error where
  "index_panic = Err ''runtime error: index out of range''"

text \<open>Sequencing of calls that may fail.\<close>

definition andthen :: "'e + 'a \<Rightarrow> ('a \<Rightarrow> 'e + 'b) \<Rightarrow> 'e + 'b" where
  "andthen r k = (case r of Inl e \<Rightarrow> Inl e | Inr x \<Rightarrow> k x)"

definition wrapping :: "string \<Rightarrow> error + 'a \<Rightarrow> error + 'a" where
  "wrapping msg r = (case r of Inl e \<Rightarrow> Inl (Wrap msg e) | Inr x \<Rightarrow> Inr x)"

lemma andthen_ok [simp]: "andthen r k = Inr y \<longleftrightarrow> (\<exists>x. r = Inr x \<and> k x = Inr y)"
  by (auto simp: andthen_def split: sum.splits)

lemma andthen_Inr [simp]: "andthen (Inr x) k = k x"
  by (simp add: andthen_def)

lemma wrapping_ok [simp]: "wrapping msg r = Inr y \<longleftrightarrow> r = Inr y"
  by (auto simp: wrapping_def split: sum.splits)

lemma wrapping_Inr [simp]: "wrapping msg (Inr x) = Inr x"
  by (simp add: wrapping_def)

text \<open>\<^verbatim>\<open>tx.Bucket(name).Put(k, v)\<close>.\<close>

definition tx_put :: "('b, 'v) bolt \<Rightarrow> string \<Rightarrow> string \<Rightarrow> 'v \<Rightarrow> 'b buckets \<Rightarrow> error + 'b buckets" where
  "tx_put B name k v bs =
     (case bs name of
        None \<Rightarrow> Inl nil_panic
      | Some b \<Rightarrow> (case bk_put B b k v of Inl e \<Rightarrow> Inl e | Inr b' \<Rightarrow> Inr (bs(name \<mapsto> b'))))"

text \<open>\<^verbatim>\<open>db.Update\<close> and \<^verbatim>\<open>db.Batch\<close> of a closure that only works on the buckets.\<close>

definition wal_update :: "('b, 'v) bolt \<Rightarrow> ('b buckets \<Rightarrow> error + 'b buckets) \<Rightarrow> 'b buckets \<Rightarrow> error option \<times> 'b buckets" where
  "wal_update B f bs = snd (db_update B (\<lambda>bs. ((), f bs)) bs)"

lemma wal_update_ok: "wal_update B f bs = (None, bs') \<longleftrightarrow> f bs = Inr bs' \<and> bk_commit B bs' = None"
  by (auto simp: wal_update_def db_update_def split: sum.splits option.splits)

lemma wal_update_error: "wal_update B f bs = (Some e, bs') \<Longrightarrow> bs' = bs"
  by (auto simp: wal_update_def db_update_def split: sum.splits option.splits)

section \<open>Nodes and the graph\<close>

record Node =
  nd_DocID :: u64
  nd_EdgesOffset :: u32
  nd_EdgesLength :: "16 word"
  nd_Layer :: "8 word"

record Graph =
  gr_Nodes :: "Node list"
  gr_Edges :: "u32 list"
  gr_Vectors :: "u32 list"
  gr_VecDim :: nat
  gr_Gen :: u64

definition node_bytes :: "Node \<Rightarrow> string" where
  "node_bytes n = le_bytes 8 (unat (nd_DocID n)) @ le_bytes 4 (unat (nd_EdgesOffset n)) @ le_bytes 2 (unat (nd_EdgesLength n)) @
     le_bytes 1 (unat (nd_Layer n)) @ [CHR 0x00]"

definition node_of_bytes :: "string \<Rightarrow> Node" where
  "node_of_bytes v = \<lparr>nd_DocID = of_nat (le_val (take 8 v)), nd_EdgesOffset = of_nat (le_val (take 4 (drop 8 v))),
     nd_EdgesLength = of_nat (le_val (take 2 (drop 12 v))), nd_Layer = of_nat (le_val (take 1 (drop 14 v)))\<rparr>"

definition node_key :: "u32 \<Rightarrow> string" where
  "node_key i = le_bytes 4 (unat i)"

definition readCanonicalDim :: "('b, string) bolt \<Rightarrow> 'b buckets \<Rightarrow> nat" where
  "readCanonicalDim B bs =
     (case bs bucketHnswMeta of
        None \<Rightarrow> 0
      | Some b \<Rightarrow> (case bk_get B b keyCanonicalVecDim of
            None \<Rightarrow> 0
          | Some v \<Rightarrow> if length v \<noteq> 4 then 0 else le_val v))"

definition ensureCanonicalDim :: "('b, string) bolt \<Rightarrow> nat \<Rightarrow> 'b buckets \<Rightarrow> error + 'b buckets" where
  "ensureCanonicalDim B vecLen bs =
     (if vecLen = 0 then Inl (Err ''rag/wal: vector length must be > 0, got 0'')
      else (let bs1 = create_if_missing B bucketHnswMeta bs; b = the (bs1 bucketHnswMeta) in
        case (case bk_get B b keyCanonicalVecDim of Some v \<Rightarrow> if length v = 4 then Some v else None | None \<Rightarrow> None) of
          Some existing \<Rightarrow>
            if le_val existing \<noteq> vecLen
            then Inl (Wrap (''stored canonical='' @ dec (le_val existing) @ '', incoming='' @ dec vecLen) ErrVectorDimMismatch)
            else Inr bs1
        | None \<Rightarrow> wrapping ''rag/wal: persist canonical dim: '' (tx_put B bucketHnswMeta keyCanonicalVecDim (le_bytes 4 vecLen) bs1)))"

definition Insert_wal :: "('b, string) bolt \<Rightarrow> u32 \<Rightarrow> Node \<Rightarrow> u32 list \<Rightarrow> u32 list \<Rightarrow> 'b buckets \<Rightarrow> error option \<times> 'b buckets" where
  "Insert_wal B nodeID node edges vec bs = wal_update B (\<lambda>bs.
     andthen (wrapping (''[wal] node '' @ dec (unat nodeID) @ '': '') (ensureCanonicalDim B (length vec) bs)) (\<lambda>bs1.
     andthen (wrapping (''[wal] failed to write node '' @ dec (unat nodeID) @ '': '')
                (tx_put B bucketNodes (node_key nodeID) (node_bytes node) bs1)) (\<lambda>bs2.
     andthen (wrapping (''[wal] failed to write edges for node '' @ dec (unat nodeID) @ '': '')
                (tx_put B bucketEdges (node_key nodeID) (bytes_of edges) bs2)) (\<lambda>bs3.
     wrapping (''[wal] failed to write vector for node '' @ dec (unat nodeID) @ '': '')
                (tx_put B bucketVectors (node_key nodeID) (bytes_of vec) bs3))))) bs"

fun insert_loop ::
    "('b, string) bolt \<Rightarrow> u32 list \<Rightarrow> Node list \<Rightarrow> u32 list list \<Rightarrow> u32 list list \<Rightarrow> 'b buckets \<Rightarrow> error + 'b buckets" where
  "insert_loop B [] ns es vs bs = Inr bs"
| "insert_loop B (i # ids) (n # ns) (e # es) (v # vs) bs =
     andthen (tx_put B bucketNodes (node_key i) (node_bytes n) bs) (\<lambda>bs2.
     andthen (tx_put B bucketEdges (node_key i) (bytes_of e) bs2) (\<lambda>bs3.
     andthen (tx_put B bucketVectors (node_key i) (bytes_of v) bs3) (insert_loop B ids ns es vs)))"
| "insert_loop B _ _ _ _ bs = Inl index_panic"

text \<open>The position of the first vector of another length than the first.\<close>

fun odd_vector :: "nat \<Rightarrow> nat \<Rightarrow> u32 list list \<Rightarrow> (nat \<times> nat) option" where
  "odd_vector d i [] = None"
| "odd_vector d i (v # vs) = (if length v \<noteq> d then Some (i, length v) else odd_vector d (i + 1) vs)"

definition InsertBatch_wal ::
    "('b, string) bolt \<Rightarrow> u32 list \<Rightarrow> Node list \<Rightarrow> u32 list list \<Rightarrow> u32 list list \<Rightarrow> 'b buckets \<Rightarrow> error option \<times> 'b buckets" where
  "InsertBatch_wal B nodeIDs nodes edgesList vectors bs =
     (if nodeIDs = [] then (None, bs)
      else if vectors = [] then (Some index_panic, bs)
      else (let expectedDim = length (hd vectors) in
        case odd_vector expectedDim 0 vectors of
          Some (i, n) \<Rightarrow> (Some (Wrap (''[wal] InsertBatch: vector '' @ dec i @ '' has dim '' @ dec n @ '', batch dim '' @ dec expectedDim)
                              ErrVectorDimMismatch), bs)
        | None \<Rightarrow> wal_update B (\<lambda>bs.
            andthen (wrapping ''[wal] InsertBatch: '' (ensureCanonicalDim B expectedDim bs)) (\<lambda>bs1.
              if length edgesList < length nodeIDs \<or> length vectors < length nodeIDs then Inl index_panic
              else insert_loop B nodeIDs nodes edgesList vectors bs1)) bs))"

definition AppendNode :: "('b, string) bolt \<Rightarrow> u32 \<Rightarrow> Node \<Rightarrow> 'b buckets \<Rightarrow> error option \<times> 'b buckets" where
  "AppendNode B nodeID node bs = wal_update B (tx_put B bucketNodes (node_key nodeID) (node_bytes node)) bs"

section \<open>Loading\<close>

text \<open>The cancelled context stops each loop at its first entry.\<close>

fun load_nodes :: "error option \<Rightarrow> (string \<times> string) list \<Rightarrow> error + Node list" where
  "load_nodes ctx [] = Inr []"
| "load_nodes ctx ((k, v) # kvs) =
     (case ctx of
        Some e \<Rightarrow> Inl e
      | None \<Rightarrow> if length v \<noteq> 16 then Inl (Err (''[wal] node corruption: expected 16 bytes, got '' @ dec (length v)))
                else andthen (load_nodes ctx kvs) (\<lambda>ns. Inr (node_of_bytes v # ns)))"

fun load_edges :: "error option \<Rightarrow> (string \<times> string) list \<Rightarrow> error + u32 list" where
  "load_edges ctx [] = Inr []"
| "load_edges ctx ((k, v) # kvs) =
     (case ctx of Some e \<Rightarrow> Inl e | None \<Rightarrow> andthen (load_edges ctx kvs) (\<lambda>ws. Inr (words_of v @ ws)))"

fun load_vectors :: "error option \<Rightarrow> nat \<Rightarrow> nat \<Rightarrow> u32 list \<Rightarrow> (string \<times> string) list \<Rightarrow> error + u32 list" where
  "load_vectors ctx vecDim room acc [] = Inr (acc @ replicate (room - length acc) 0)"
| "load_vectors ctx vecDim room acc ((k, v) # kvs) =
     (case ctx of
        Some e \<Rightarrow> Inl e
      | None \<Rightarrow>
          if vecDim > 0 \<and> length v \<noteq> vecDim * 4 then Inl (Err ''[wal] LoadGraph: vector of another dimension (run repair)'')
          else if length acc + length (words_of v) > room then Inl (Err ''[wal] LoadGraph: vector overflow'')
          else load_vectors ctx vecDim room (acc @ words_of v) kvs)"

definition load_dim :: "('b, string) bolt \<Rightarrow> 'b \<Rightarrow> 'b buckets \<Rightarrow> nat" where
  "load_dim B vb bs =
     (let vecDim = readCanonicalDim B bs
      in if vecDim = 0
         then (case bk_items B vb of (_, firstVal) # _ \<Rightarrow> if length firstVal \<ge> 4 then length firstVal div 4 else 0 | [] \<Rightarrow> 0)
         else vecDim)"

definition LoadGraph :: "('b, string) bolt \<Rightarrow> error option \<Rightarrow> 'b buckets \<Rightarrow> error + Graph" where
  "LoadGraph B ctx bs =
     (case bs bucketNodes of None \<Rightarrow> Inl nil_panic | Some nb \<Rightarrow>
      andthen (load_nodes ctx (bk_items B nb)) (\<lambda>nodes.
      case bs bucketEdges of None \<Rightarrow> Inl nil_panic | Some eb \<Rightarrow>
      andthen (load_edges ctx (bk_items B eb)) (\<lambda>edges.
      case bs bucketVectors of None \<Rightarrow> Inl nil_panic | Some vb \<Rightarrow>
      (let vecDim = load_dim B vb bs; nodeCount = length (bk_items B nb)
       in andthen (load_vectors ctx vecDim (nodeCount * vecDim) [] (bk_items B vb)) (\<lambda>vectors.
          Inr \<lparr>gr_Nodes = nodes, gr_Edges = edges, gr_Vectors = vectors, gr_VecDim = vecDim, gr_Gen = 0\<rparr>)))))"

end
