(* ===== verification/Rag_Hnsw.thy ===== *)
theory Rag_Hnsw
  imports Rag_Wal "HOL-Library.Product_Lexorder"
begin

text \<open>
  The vector index of \<^verbatim>\<open>pkg/rag/hsnw.go\<close>: a graph whose nodes are searched greedily, and its
  inserts, which extend the graph in memory and then the write-ahead log. The distance of two
  vectors, or why it cannot be computed, is an argument with values in a linear order (a float
  that is not NaN); so is the order in which the map of visited nodes is listed. Thread pinning
  and the query batcher, which runs the same search elsewhere, are left out.
\<close>

section \<open>Access\<close>

definition NewGraph :: "nat \<Rightarrow> Graph" where
  "NewGraph vecDim = \<lparr>gr_Nodes = [], gr_Edges = [], gr_Vectors = [], gr_VecDim = vecDim, gr_Gen = 0\<rparr>"

definition GetVector :: "Graph \<Rightarrow> u32 \<Rightarrow> u32 list option" where
  "GetVector g i = (let start = unat i * gr_VecDim g; fin = start + gr_VecDim g
     in if fin > length (gr_Vectors g) then None else Some (take (gr_VecDim g) (drop start (gr_Vectors g))))"

definition Neighbors :: "Graph \<Rightarrow> u32 \<Rightarrow> u32 list" where
  "Neighbors g i =
     (if unat i \<ge> length (gr_Nodes g) then []
      else (let node = gr_Nodes g ! unat i; start = nd_EdgesOffset node; fin = start + ucast (nd_EdgesLength node)
        in if fin > of_nat (length (gr_Edges g)) then []
           else List.map (\<lambda>j. gr_Edges g ! j) [unat start..<unat fin]))"

definition AddNode :: "Node \<Rightarrow> Graph \<Rightarrow> Graph" where
  "AddNode node g = g\<lparr>gr_Nodes := gr_Nodes g @ [node]\<rparr>"

definition AddEdge :: "u32 \<Rightarrow> Graph \<Rightarrow> Graph" where
  "AddEdge edge g = g\<lparr>gr_Edges := gr_Edges g @ [edge]\<rparr>"

section \<open>Search\<close>

type_synonym 'd distance = "u32 list \<Rightarrow> u32 list \<Rightarrow> error + 'd"

text \<open>The nearest node so far and its distance, and the nodes visited with theirs.\<close>

record 'd walk =
  wk_curr :: u32
  wk_best :: 'd
  wk_visited :: "(u32 \<times> 'd) list"

text \<open>One pass over the neighbours of a node; the flag says whether one was nearer.\<close>

fun visit_all ::
    "('d :: linorder) distance \<Rightarrow> u32 list \<Rightarrow> Graph \<Rightarrow> u32 list \<Rightarrow> 'd walk \<times> bool \<Rightarrow> error + 'd walk \<times> bool" where
  "visit_all dist q g [] st = Inr st"
| "visit_all dist q g (n # ns) (w, improved) =
     (if n \<in> fst ` set (wk_visited w) then visit_all dist q g ns (w, improved)
      else (case GetVector g n of
          None \<Rightarrow> visit_all dist q g ns (w, improved)
        | Some v \<Rightarrow> (case dist q v of
              Inl e \<Rightarrow> Inl (Wrap (''[rag] distance computation failed for node '' @ dec (unat n) @ '': '') e)
            | Inr d \<Rightarrow> (let w1 = w\<lparr>wk_visited := wk_visited w @ [(n, d)]\<rparr>
                 in if d < wk_best w then visit_all dist q g ns (w1\<lparr>wk_best := d, wk_curr := n\<rparr>, True)
                    else visit_all dist q g ns (w1, improved)))))"

text \<open>The passes go on while one improves: each then visits a node of the edge list for the first time.\<close>

definition unvisited :: "Graph \<Rightarrow> 'd walk \<Rightarrow> nat" where
  "unvisited g w = length (filter (\<lambda>e. e \<notin> fst ` set (wk_visited w)) (gr_Edges g))"

lemma visit_all_grows:
  "visit_all dist q g ns (w, im) = Inr (w', im') \<Longrightarrow>
     fst ` set (wk_visited w) \<subseteq> fst ` set (wk_visited w') \<and>
     (im' \<longrightarrow> im \<or> (\<exists>n\<in>set ns. n \<notin> fst ` set (wk_visited w) \<and> n \<in> fst ` set (wk_visited w')))"
proof (induction dist q g ns "(w, im)" arbitrary: w im rule: visit_all.induct)
  case (2 dist q g n ns w im)
  show ?case
  proof (cases "n \<in> fst ` set (wk_visited w)")
    case True
    then show ?thesis using 2 by auto
  next
    case False
    show ?thesis
    proof (cases "GetVector g n")
      case None
      then show ?thesis using 2 False by auto
    next
      case (Some v)
      obtain d where d: "dist q v = Inr d" using "2.prems" False Some by (auto split: sum.splits)
      let ?w1 = "w\<lparr>wk_visited := wk_visited w @ [(n, d)]\<rparr>"
      show ?thesis
      proof (cases "d < wk_best w")
        case True
        then have "fst ` set (wk_visited (?w1\<lparr>wk_best := d, wk_curr := n\<rparr>)) \<subseteq> fst ` set (wk_visited w')"
          using "2.hyps"(3) [OF False Some d refl] "2.prems" False Some d by simp
        then show ?thesis using False by auto
      next
        case c: False
        then have "fst ` set (wk_visited ?w1) \<subseteq> fst ` set (wk_visited w') \<and>
            (im' \<longrightarrow> im \<or> (\<exists>n\<in>set ns. n \<notin> fst ` set (wk_visited ?w1) \<and> n \<in> fst ` set (wk_visited w')))"
          using "2.hyps"(4) [OF False Some d refl] "2.prems" False Some d by simp
        then show ?thesis using False by auto
      qed
    qed
  qed
qed auto

lemma unat_bound: "\<not> of_nat n < (x :: u32) \<Longrightarrow> unat x \<le> n"
  by (simp add: word_le_nat_alt not_less unat_of_nat)

lemma neighbors_edges: "set (Neighbors g i) \<subseteq> set (gr_Edges g)"
  by (auto simp: Neighbors_def Let_def dest!: unat_bound intro!: nth_mem)

lemma filter_shrinks:
  assumes "A \<subseteq> C" "n \<in> set es" "n \<notin> A" "n \<in> C"
  shows "length (filter (\<lambda>e. e \<notin> C) es) < length (filter (\<lambda>e. e \<notin> A) es)"
proof -
  have "length (filter (\<lambda>e. e \<notin> C) es) \<le> length (filter (\<lambda>e. e \<notin> A) es) \<and>
      (n \<in> set es \<longrightarrow> length (filter (\<lambda>e. e \<notin> C) es) < length (filter (\<lambda>e. e \<notin> A) es))"
    using assms(1,3,4) by (induction es) auto
  then show ?thesis using assms(2) by simp
qed

function hill :: "('d :: linorder) distance \<Rightarrow> u32 list \<Rightarrow> Graph \<Rightarrow> 'd walk \<Rightarrow> error + 'd walk" where
  "hill dist q g w =
     (case visit_all dist q g (Neighbors g (wk_curr w)) (w, False) of
        Inl e \<Rightarrow> Inl e
      | Inr (w', improved) \<Rightarrow> if improved then hill dist q g w' else Inr w')"
  by pat_completeness auto
termination
proof (relation "measure (\<lambda>(dist, q, g, w). unvisited g w)")
  fix dist :: "('d :: linorder) distance" and q g and w w' :: "'d walk" and r im
  assume r: "visit_all dist q g (Neighbors g (wk_curr w)) (w, False) = Inr r" "(w', im) = r" im
  have "visit_all dist q g (Neighbors g (wk_curr w)) (w, False) = Inr (w', im)" by (simp only: r(1,2))
  from visit_all_grows [OF this] have sub: "fst ` set (wk_visited w) \<subseteq> fst ` set (wk_visited w')"
    and ex: "\<exists>n\<in>set (Neighbors g (wk_curr w)). n \<notin> fst ` set (wk_visited w) \<and> n \<in> fst ` set (wk_visited w')"
    using r(3) by simp_all
  from ex obtain n where "n \<in> set (Neighbors g (wk_curr w))"
    and n': "n \<notin> fst ` set (wk_visited w)" "n \<in> fst ` set (wk_visited w')" by (elim bexE conjE)
  then have n: "n \<in> set (gr_Edges g)" by (meson neighbors_edges subsetD)
  from filter_shrinks [OF sub n n'] show "((dist, q, g, w'), (dist, q, g, w)) \<in> measure (\<lambda>(dist, q, g, w). unvisited g w)"
    by (simp add: unvisited_def)
qed simp

declare hill.simps [simp del]

definition searchCore ::
    "('d :: linorder) distance \<Rightarrow> ((u32 \<times> 'd) list \<Rightarrow> (u32 \<times> 'd) list) \<Rightarrow> error option \<Rightarrow> u32 list \<Rightarrow> int \<Rightarrow> Graph \<Rightarrow> error + u32 list" where
  "searchCore dist listing ctx queryVector topK g =
     (case dist queryVector (case GetVector g 0 of Some v \<Rightarrow> v | None \<Rightarrow> []) of
        Inl e \<Rightarrow> Inl (Wrap ''[rag] distance computation failed at entry: '' e)
      | Inr d0 \<Rightarrow> (case ctx of
          Some e \<Rightarrow> Inl (Wrap ''[rag] search aborted mid-traversal: '' e)
        | None \<Rightarrow> andthen (hill dist queryVector g \<lparr>wk_curr = 0, wk_best = d0, wk_visited = [(0, d0)]\<rparr>)
            (\<lambda>w. Inr (take (nat topK) (List.map fst (sort_key snd (listing (wk_visited w))))))))"

definition Search_hnsw ::
    "('d :: linorder) distance \<Rightarrow> ((u32 \<times> 'd) list \<Rightarrow> (u32 \<times> 'd) list) \<Rightarrow> error option \<Rightarrow> u32 list \<Rightarrow> int \<Rightarrow> Graph \<Rightarrow> error + u32 list" where
  "Search_hnsw dist listing ctx queryVector topK g =
     (case ctx of
        Some e \<Rightarrow> Inl (Wrap ''[rag] search aborted: '' e)
      | None \<Rightarrow> if gr_Nodes g = [] then Inr [] else searchCore dist listing ctx queryVector topK g)"

section \<open>Inserting\<close>

text \<open>The graph with one more node: its edges go to the neighbours found, its vector to the end.\<close>

definition neighbours_for ::
    "('d :: linorder) distance \<Rightarrow> ((u32 \<times> 'd) list \<Rightarrow> (u32 \<times> 'd) list) \<Rightarrow> error option \<Rightarrow> u32 list \<Rightarrow> int \<Rightarrow> Graph \<Rightarrow> error + u32 list" where
  "neighbours_for dist listing ctx vec k g =
     (if gr_Nodes g \<noteq> [] \<and> gr_VecDim g > 0 then Search_hnsw dist listing ctx vec k g else Inr [])"

definition new_node :: "u64 \<Rightarrow> u32 list \<Rightarrow> Graph \<Rightarrow> Node" where
  "new_node docID neighborIDs g =
     \<lparr>nd_DocID = docID, nd_EdgesOffset = of_nat (length (gr_Edges g)), nd_EdgesLength = of_nat (length neighborIDs), nd_Layer = 0\<rparr>"

definition extend :: "u64 \<Rightarrow> u32 list \<Rightarrow> u32 list \<Rightarrow> Graph \<Rightarrow> Graph" where
  "extend docID vec neighborIDs g =
     g\<lparr>gr_Edges := gr_Edges g @ neighborIDs, gr_Vectors := gr_Vectors g @ vec,
       gr_Nodes := gr_Nodes g @ [new_node docID neighborIDs g],
       gr_VecDim := (if gr_VecDim g = 0 \<and> vec \<noteq> [] then length vec else gr_VecDim g)\<rparr>"

definition Insert ::
    "('b, string) bolt \<Rightarrow> ('d :: linorder) distance \<Rightarrow> ((u32 \<times> 'd) list \<Rightarrow> (u32 \<times> 'd) list) \<Rightarrow> error option \<Rightarrow>
      u64 \<Rightarrow> u32 list \<Rightarrow> int \<Rightarrow> Graph \<times> 'b buckets \<Rightarrow> error option \<times> Graph \<times> 'b buckets" where
  "Insert B dist listing ctx docID vec k st = (let (g, bs) = st in
     case neighbours_for dist listing ctx vec k g of
       Inl e \<Rightarrow> (Some (Wrap ''[rag] Insert: neighbor search failed: '' e), g, bs)
     | Inr ns \<Rightarrow>
         (case Insert_wal B (of_nat (length (gr_Nodes g))) (new_node docID ns g) ns vec bs of
            (Some e, bs') \<Rightarrow> (Some (Wrap ''[rag] Insert: WAL persistence failed: '' e), extend docID vec ns g, bs')
          | (None, bs') \<Rightarrow> (None, extend docID vec ns g, bs')))"

text \<open>
  A batch first extends the graph in memory, one vector after the other, collecting what the log
  is to store; it stops at the first search that fails, keeping what it has added.
\<close>

fun batch_loop ::
    "('d :: linorder) distance \<Rightarrow> ((u32 \<times> 'd) list \<Rightarrow> (u32 \<times> 'd) list) \<Rightarrow> error option \<Rightarrow> int \<Rightarrow> u64 list \<Rightarrow> u32 list list \<Rightarrow>
      Graph \<Rightarrow> (u32 \<times> Node \<times> u32 list) list \<Rightarrow> error option \<times> Graph \<times> (u32 \<times> Node \<times> u32 list) list" where
  "batch_loop dist listing ctx k [] vecs g acc = (None, g, acc)"
| "batch_loop dist listing ctx k (docID # ds) [] g acc = (Some index_panic, g, acc)"
| "batch_loop dist listing ctx k (docID # ds) (vec # vecs) g acc =
     (case neighbours_for dist listing ctx vec k g of
        Inl e \<Rightarrow> (Some (Wrap ''[rag] InsertBatch: search failed: '' e), g, acc)
      | Inr ns \<Rightarrow> batch_loop dist listing ctx k ds vecs (extend docID vec ns g)
                    (acc @ [(of_nat (length (gr_Nodes g)), new_node docID ns g, ns)]))"

definition InsertBatch ::
    "('b, string) bolt \<Rightarrow> ('d :: linorder) distance \<Rightarrow> ((u32 \<times> 'd) list \<Rightarrow> (u32 \<times> 'd) list) \<Rightarrow> error option \<Rightarrow>
      u64 list \<Rightarrow> u32 list list \<Rightarrow> int \<Rightarrow> Graph \<times> 'b buckets \<Rightarrow> error option \<times> Graph \<times> 'b buckets" where
  "InsertBatch B dist listing ctx docIDs vecs k st = (let (g, bs) = st in
     if docIDs = [] then (None, g, bs)
     else (case batch_loop dist listing ctx k docIDs vecs g [] of
         (Some e, g1, acc) \<Rightarrow> (Some e, g1, bs)
       | (None, g1, acc) \<Rightarrow>
           (case InsertBatch_wal B (List.map fst acc) (List.map (\<lambda>p. fst (snd p)) acc) (List.map (\<lambda>p. snd (snd p)) acc) vecs bs of
              (Some e, bs') \<Rightarrow> (Some (Wrap ''[rag] InsertBatch: WAL persistence failed: '' e), g1, bs')
            | (None, bs') \<Rightarrow> (None, g1\<lparr>gr_Gen := gr_Gen g1 + 1\<rparr>, bs'))))"

section \<open>What a search finds\<close>

definition dist_to :: "('d :: linorder) distance \<Rightarrow> u32 list \<Rightarrow> Graph \<Rightarrow> u32 \<Rightarrow> error + 'd" where
  "dist_to dist q g n = dist q (case GetVector g n of Some v \<Rightarrow> v | None \<Rightarrow> [])"

text \<open>The walk stands on the nearest visited node, and knows the distance of each.\<close>

definition walk_ok :: "('d :: linorder) distance \<Rightarrow> u32 list \<Rightarrow> Graph \<Rightarrow> 'd walk \<Rightarrow> bool" where
  "walk_ok dist q g w \<longleftrightarrow> (wk_curr w, wk_best w) \<in> set (wk_visited w) \<and> (\<forall>p\<in>set (wk_visited w). wk_best w \<le> snd p) \<and>
     distinct (List.map fst (wk_visited w)) \<and> (\<forall>p\<in>set (wk_visited w). dist_to dist q g (fst p) = Inr (snd p)) \<and>
     0 \<in> fst ` set (wk_visited w)"

text \<open>The neighbours of a node that have a vector are visited.\<close>

definition seen_all :: "Graph \<Rightarrow> u32 list \<Rightarrow> 'd walk \<Rightarrow> bool" where
  "seen_all g ns w \<longleftrightarrow> (\<forall>n\<in>set ns. GetVector g n \<noteq> None \<longrightarrow> n \<in> fst ` set (wk_visited w))"

lemma visit_all_ok:
  assumes "visit_all dist q g ns (w, im) = Inr (w', im')" "walk_ok dist q g w"
  shows "walk_ok dist q g w' \<and> seen_all g ns w' \<and> (\<not> im' \<longrightarrow> wk_curr w' = wk_curr w \<and> \<not> im)"
  using assms
proof (induction dist q g ns "(w, im)" arbitrary: w im rule: visit_all.induct)
  case (1 dist q g w im)
  then show ?case by (simp add: seen_all_def)
next
  case (2 dist q g n ns w im)
  have step: "walk_ok dist q g w' \<and> seen_all g (n # ns) w' \<and> (\<not> im' \<longrightarrow> wk_curr w' = wk_curr w \<and> \<not> im)"
    if "walk_ok dist q g w' \<and> seen_all g ns w' \<and> (\<not> im' \<longrightarrow> wk_curr w' = wk_curr w1 \<and> \<not> im1)"
      "im1 \<or> (wk_curr w1 = wk_curr w \<and> (im1 = im))" "GetVector g n = None \<or> n \<in> fst ` set (wk_visited w')" for w1 :: "'a walk" and im1
    using that by (auto simp: seen_all_def)
  show ?case
  proof (cases "n \<in> fst ` set (wk_visited w)")
    case True
    then have v: "visit_all dist q g ns (w, im) = Inr (w', im')" using "2.prems"(1) by simp
    have "n \<in> fst ` set (wk_visited w')" using visit_all_grows [OF v] True by blast
    then show ?thesis using step [of w im] "2.hyps"(1) [OF True v "2.prems"(2)] by simp
  next
    case False
    show ?thesis
    proof (cases "GetVector g n")
      case None
      then have v: "visit_all dist q g ns (w, im) = Inr (w', im')" using "2.prems"(1) False by simp
      then show ?thesis using step [of w im] "2.hyps"(2) [OF False None v "2.prems"(2)] None by simp
    next
      case (Some v)
      obtain d where d: "dist q v = Inr d" using "2.prems"(1) False Some by (auto split: sum.splits)
      let ?w1 = "w\<lparr>wk_visited := wk_visited w @ [(n, d)]\<rparr>"
      have dn: "dist_to dist q g n = Inr d" using Some d by (simp add: dist_to_def)
      show ?thesis
      proof (cases "d < wk_best w")
        case True
        let ?w2 = "?w1\<lparr>wk_best := d, wk_curr := n\<rparr>"
        have v: "visit_all dist q g ns (?w2, True) = Inr (w', im')" using "2.prems"(1) False Some d True by simp
        have "walk_ok dist q g ?w2" using "2.prems"(2) False True dn by (fastforce simp: walk_ok_def)
        then have "walk_ok dist q g w' \<and> seen_all g ns w' \<and> (\<not> im' \<longrightarrow> wk_curr w' = wk_curr ?w2 \<and> \<not> True)"
          using "2.hyps"(3) [OF False Some d refl True v] by simp
        moreover have "n \<in> fst ` set (wk_visited w')" using visit_all_grows [OF v] by auto
        ultimately show ?thesis using step [of ?w2 True] by simp
      next
        case c: False
        have v: "visit_all dist q g ns (?w1, im) = Inr (w', im')" using "2.prems"(1) False Some d c by simp
        have "walk_ok dist q g ?w1" using "2.prems"(2) False c dn by (auto simp: walk_ok_def)
        then have "walk_ok dist q g w' \<and> seen_all g ns w' \<and> (\<not> im' \<longrightarrow> wk_curr w' = wk_curr ?w1 \<and> \<not> im)"
          using "2.hyps"(4) [OF False Some d refl c v] by simp
        moreover have "n \<in> fst ` set (wk_visited w')" using visit_all_grows [OF v] by auto
        ultimately show ?thesis using step [of ?w1 im] by simp
      qed
    qed
  qed
qed

lemma hill_ok:
  assumes "hill dist q g w = Inr w'" "walk_ok dist q g w"
  shows "walk_ok dist q g w' \<and> seen_all g (Neighbors g (wk_curr w')) w'"
  using assms
proof (induction dist q g w rule: hill.induct)
  case (1 dist q g w)
  obtain w1 im where v: "visit_all dist q g (Neighbors g (wk_curr w)) (w, False) = Inr (w1, im)"
    using "1.prems"(1) by (subst (asm) hill.simps) (auto split: sum.splits)
  note ok = visit_all_ok [OF v "1.prems"(2)]
  have h: "hill dist q g w = (if im then hill dist q g w1 else Inr w1)" by (subst hill.simps) (simp add: v)
  show ?case
  proof (cases im)
    case True
    then show ?thesis using "1.IH" [OF v refl True] "1.prems"(1) ok h by simp
  next
    case False
    then show ?thesis using "1.prems"(1) ok h by simp
  qed
qed

text \<open>
  C33: A search that succeeds on a graph with nodes returns at most \<open>k\<close> different nodes in the
  order of their distance, and the first of them is as near as some node that none of its
  neighbours improves on, and no farther than the entry point: the greedy walk ends, in a local
  minimum, whatever the graph.
\<close>

theorem search_local_minimum:
  fixes dist :: "('d :: linorder) distance"
  assumes "Search_hnsw dist listing ctx q k g = Inr ids" "gr_Nodes g \<noteq> []" "\<And>xs. mset (listing xs) = mset xs"
  shows "distinct ids \<and> length ids \<le> nat k \<and>
    (\<exists>ds. sorted ds \<and> List.map (dist_to dist q g) ids = List.map Inr ds) \<and>
    (0 < k \<longrightarrow> (\<exists>curr d. ids \<noteq> [] \<and> dist_to dist q g (hd ids) = Inr d \<and> dist_to dist q g curr = Inr d \<and>
       (\<forall>n\<in>insert 0 (set (Neighbors g curr)). n = 0 \<or> GetVector g n \<noteq> None \<longrightarrow> (\<exists>e. dist_to dist q g n = Inr e \<and> d \<le> e))))"
proof -
  have ctx: "ctx = None" using assms(1) by (auto simp: Search_hnsw_def split: option.splits)
  obtain d0 w where d0: "dist_to dist q g 0 = Inr d0"
    and w: "hill dist q g \<lparr>wk_curr = 0, wk_best = d0, wk_visited = [(0, d0)]\<rparr> = Inr w"
    and ids: "ids = take (nat k) (List.map fst (sort_key snd (listing (wk_visited w))))"
    using assms(1,2) by (auto simp: Search_hnsw_def searchCore_def ctx dist_to_def split: sum.splits)
  have "walk_ok dist q g \<lparr>wk_curr = 0, wk_best = d0, wk_visited = [(0, d0)]\<rparr>"
    using d0 by (simp add: walk_ok_def)
  from hill_ok [OF w this] have ok: "walk_ok dist q g w" and seen: "seen_all g (Neighbors g (wk_curr w)) w" by simp_all
  define r where "r = sort_key snd (listing (wk_visited w))"
  have m: "mset r = mset (wk_visited w)" by (simp add: r_def assms(3))
  then have set_r: "set r = set (wk_visited w)" by (rule mset_eq_setD)
  have dist_r: "dist_to dist q g (fst p) = Inr (snd p)" "wk_best w \<le> snd p" if "p \<in> set r" for p
    using ok that by (simp_all add: set_r walk_ok_def)
  have "distinct (List.map fst r)" using ok m unfolding walk_ok_def
    by (metis mset_eq_imp_distinct_iff mset_map)
  then have "distinct ids" by (simp add: ids r_def distinct_take)
  moreover have "List.map (dist_to dist q g) ids = List.map Inr (take (nat k) (List.map snd r))"
  proof -
    have "List.map (dist_to dist q g) (List.map fst r) = List.map Inr (List.map snd r)" using dist_r(1) by simp
    then show ?thesis by (metis ids r_def take_map)
  qed
  moreover have "sorted (take (nat k) (List.map snd r))" by (simp add: r_def sorted_wrt_take)
  moreover have "\<exists>curr d. ids \<noteq> [] \<and> dist_to dist q g (hd ids) = Inr d \<and> dist_to dist q g curr = Inr d \<and>
       (\<forall>n\<in>insert 0 (set (Neighbors g curr)). n = 0 \<or> GetVector g n \<noteq> None \<longrightarrow> (\<exists>e. dist_to dist q g n = Inr e \<and> d \<le> e))" if "0 < k"
  proof -
    have curr: "(wk_curr w, wk_best w) \<in> set r" using ok by (simp add: set_r walk_ok_def)
    then obtain p r' where r': "r = p # r'" by (cases r) auto
    have "sorted (List.map snd r)" by (simp add: r_def)
    then have "snd p \<le> wk_best w" using curr r' by auto
    then have p: "snd p = wk_best w" using dist_r(2) [of p] r' by simp
    have hd_ids: "ids \<noteq> []" "hd ids = fst p" using that r' by (cases "nat k"; simp add: ids r_def [symmetric])+
    have "\<exists>e. dist_to dist q g n = Inr e \<and> wk_best w \<le> e" if "n \<in> fst ` set (wk_visited w)" for n
      using that dist_r by (force simp: set_r)
    moreover have "0 \<in> fst ` set (wk_visited w)" using ok by (simp add: walk_ok_def)
    ultimately show ?thesis
      using hd_ids p dist_r(1) [of p] dist_r(1) [OF curr] r' seen
      by (intro exI [of _ "wk_curr w"] exI [of _ "wk_best w"]) (auto simp: seen_all_def)
  qed
  ultimately show ?thesis by (auto simp: ids)
qed

definition demo_dist :: "nat distance" where
  "demo_dist q v = (case v of [] \<Rightarrow> Inl (Err ''empty'') | x # _ \<Rightarrow> Inr (unat x))"

definition demo_graph :: Graph where
  "demo_graph = \<lparr>gr_Nodes = [\<lparr>nd_DocID = 7, nd_EdgesOffset = 0, nd_EdgesLength = 1, nd_Layer = 0\<rparr>,
       \<lparr>nd_DocID = 8, nd_EdgesOffset = 1, nd_EdgesLength = 2, nd_Layer = 0\<rparr>, \<lparr>nd_DocID = 9, nd_EdgesOffset = 3, nd_EdgesLength = 0, nd_Layer = 0\<rparr>],
     gr_Edges = [1, 0, 2], gr_Vectors = [10, 5, 1], gr_VecDim = 1, gr_Gen = 0\<rparr>"

theorem search_local_minimum_witness:
  "distinct [2, 1 :: u32] \<and> length [2, 1 :: u32] \<le> nat 2 \<and>
    (\<exists>ds. sorted ds \<and> List.map (dist_to demo_dist [0] demo_graph) [2, 1] = List.map Inr ds)"
proof -
  have s: "Search_hnsw demo_dist rev None [0] 2 demo_graph = Inr [2, 1]" by code_simp
  have n: "gr_Nodes demo_graph \<noteq> []" by (simp add: demo_graph_def)
  have m: "\<And>xs. mset (rev xs) = mset (xs :: (u32 \<times> nat) list)" by simp
  from search_local_minimum [OF s n m] show ?thesis by (elim conjE) (intro conjI)
qed

end
