(* ===== verification/Rag_Reload.thy ===== *)
theory Rag_Reload
  imports Rag_Hnsw
begin

text \<open>
  What the write-ahead log of \<open>Rag_Wal\<close> holds after the inserts of \<open>Rag_Hnsw\<close>, and what loading
  it gives back.
\<close>

section \<open>Bytes\<close>

lemma le_bytes_length [simp]: "length (le_bytes w n) = w"
  by (induction w n rule: le_bytes.induct) auto

lemma le_val_bytes: "le_val (le_bytes w n) = n mod 256 ^ w"
proof (induction w n rule: le_bytes.induct)
  case (2 w n)
  have "n mod 256 ^ Suc w = n mod 256 + 256 * (n div 256 mod 256 ^ w)"
    by (simp add: mod_mult2_eq)
  then show ?case using 2 by simp
qed simp

lemma le_val_word:
  "of_nat (le_val (le_bytes 4 (unat a))) = (a :: u32)" "of_nat (le_val (le_bytes 8 (unat b))) = (b :: u64)"
  "of_nat (le_val (le_bytes 2 (unat c))) = (c :: 16 word)" "of_nat (le_val (le_bytes 1 (unat d))) = (d :: 8 word)"
proof -
  have "unat a < 4294967296" "unat b < 18446744073709551616" "unat c < 65536" "unat d < 256"
    using unsigned_less [of a] unsigned_less [of b] unsigned_less [of c] unsigned_less [of d] by simp_all
  then show "of_nat (le_val (le_bytes 4 (unat a))) = a" "of_nat (le_val (le_bytes 8 (unat b))) = b"
    "of_nat (le_val (le_bytes 2 (unat c))) = c" "of_nat (le_val (le_bytes 1 (unat d))) = d"
    unfolding le_val_bytes by simp_all
qed

lemma le_bytes_inj: "a < 256 ^ w \<Longrightarrow> b < 256 ^ w \<Longrightarrow> le_bytes w a = le_bytes w b \<longleftrightarrow> a = b"
  by (metis le_val_bytes mod_less)

lemma bytes_of_simps [simp]: "bytes_of [] = ''''" "bytes_of (w # ws) = le_bytes 4 (unat w) @ bytes_of ws"
  by (simp_all add: bytes_of_def)

lemma bytes_of_length [simp]: "length (bytes_of ws) = 4 * length ws"
  by (induction ws) simp_all

lemma words_of_append: "length s = 4 \<Longrightarrow> words_of (s @ r) = of_nat (le_val s) # words_of r"
proof -
  assume "length s = 4"
  then have "\<exists>a b c d. s = [a, b, c, d]" by (auto simp: numeral_eq_Suc length_Suc_conv)
  then show ?thesis by auto
qed

lemma words_of_bytes [simp]: "words_of (bytes_of ws) = ws"
  by (induction ws) (simp_all add: words_of_append le_val_word)

lemma node_bytes_length [simp]: "length (node_bytes n) = 16"
  by (simp add: node_bytes_def)

lemma node_of_node_bytes [simp]: "node_of_bytes (node_bytes n) = n"
  by (simp add: node_of_bytes_def node_bytes_def le_val_word del: le_bytes.simps One_nat_def)

lemma node_key_inj: "node_key i = node_key j \<longleftrightarrow> i = j"
  unfolding node_key_def by (metis le_val_word(1))

section \<open>The rows of the log\<close>

definition keyed :: "nat \<Rightarrow> 'v list \<Rightarrow> (string \<times> 'v) list" where
  "keyed n vals = List.map (\<lambda>(i, v). (node_key (of_nat i), v)) (zip [n..<n + length vals] vals)"

lemma keyed_simps [simp]: "keyed n [] = []" "keyed n (v # vals) = (node_key (of_nat n), v) # keyed (Suc n) vals"
  by (simp_all add: keyed_def upt_rec)

lemma keyed_append: "keyed n (vals @ ws) = keyed n vals @ keyed (n + length vals) ws"
  by (induction vals arbitrary: n) simp_all

lemma keyed_keys: "List.map fst (keyed n vals) = List.map (\<lambda>i. node_key (of_nat i)) [n..<n + length vals]"
  by (induction vals arbitrary: n) (simp_all add: upt_rec)

lemma keyed_values: "List.map snd (keyed n vals) = vals"
  by (induction vals arbitrary: n) simp_all

lemma key_of_nat_inj: "i < 2 ^ 32 \<Longrightarrow> j < 2 ^ 32 \<Longrightarrow> node_key (of_nat i) = node_key (of_nat j) \<longleftrightarrow> i = j"
  by (simp add: node_key_inj word_of_nat_eq_iff take_bit_nat_eq_self)

lemma keyed_distinct:
  assumes "n + length vals \<le> 2 ^ 32"
  shows "distinct (List.map fst (keyed n vals))"
  unfolding keyed_keys distinct_map using assms by (auto simp: inj_on_def key_of_nat_inj)

definition rows_ok :: "('b, 'v) bolt \<Rightarrow> 'b buckets \<Rightarrow> string \<Rightarrow> 'v list \<Rightarrow> bool" where
  "rows_ok B bs name vals \<longleftrightarrow> (\<exists>b. bs name = Some b \<and> map_of (bk_items B b) = map_of (keyed 0 vals))"

lemma map_of_snoc: "k \<notin> fst ` set xs \<Longrightarrow> map_of (xs @ [(k, v)]) = (map_of xs)(k \<mapsto> v)"
  by (induction xs) (auto simp: fun_upd_twist)

lemma tx_put_ok:
  "tx_put B name k v bs = Inr bs' \<longleftrightarrow> (\<exists>b b'. bs name = Some b \<and> bk_put B b k v = Inr b' \<and> bs' = bs(name \<mapsto> b'))"
  by (auto simp: tx_put_def split: option.splits sum.splits)

context bolt_bucket
begin

lemma put_row:
  assumes "rows_ok B bs name vals" "tx_put B name (node_key (of_nat (length vals))) v bs = Inr bs'" "length vals < 2 ^ 32"
  shows "rows_ok B bs' name (vals @ [v]) \<and> (\<forall>other. other \<noteq> name \<longrightarrow> bs' other = bs other)"
proof -
  obtain b b' where b: "bs name = Some b" "bk_put B b (node_key (of_nat (length vals))) v = Inr b'" "bs' = bs(name \<mapsto> b')"
    using assms(2) by (auto simp: tx_put_ok)
  have d: "distinct (List.map fst (keyed 0 (vals @ [v])))" using assms(3) by (intro keyed_distinct) simp
  have "map_of (bk_items B b) = map_of (keyed 0 vals)" using assms(1) b(1) by (simp add: rows_ok_def)
  then have "map_of (bk_items B b') = (map_of (keyed 0 vals))(node_key (of_nat (length vals)) \<mapsto> v)"
    using put_map [OF b(2)] by simp
  also have "\<dots> = map_of (keyed 0 (vals @ [v]))" using d by (subst keyed_append) (simp add: map_of_snoc keyed_append del: map_of_append)
  finally show ?thesis by (simp add: rows_ok_def b(3))
qed

lemma rows_items:
  assumes "rows_ok B bs name vals" "bs name = Some b" "keys_sorted (keyed 0 vals)"
  shows "bk_items B b = keyed 0 vals"
  using assms by (intro keys_sorted_unique items_sorted) (auto simp: rows_ok_def)

end

lemma rows_other: "rows_ok B bs name vals \<Longrightarrow> bs' name = bs name \<Longrightarrow> rows_ok B bs' name vals"
  by (simp add: rows_ok_def)

text \<open>Up to 256 nodes, the byte order of the keys is the order of the numbers.\<close>

lemma small_key: "i < 256 \<Longrightarrow> node_key (of_nat i) = [char_of i, CHR 0x00, CHR 0x00, CHR 0x00]"
proof -
  assume i: "i < 256"
  have four: "(4 :: nat) = Suc (Suc (Suc (Suc 0)))" by simp
  have "unat (of_nat i :: u32) = i" using i by (simp add: unat_of_nat)
  then show ?thesis using i by (simp add: node_key_def four char_of_def)
qed

lemma char_of_less: "i < j \<Longrightarrow> j < (256 :: nat) \<Longrightarrow> (char_of i :: char) < char_of j"
  by (simp add: less_char_def)

lemma keyed_sorted:
  assumes "length vals \<le> 256"
  shows "keys_sorted (keyed 0 vals)"
  unfolding keyed_keys using assms
  by (auto simp: sorted_wrt_map small_key char_of_less intro!: sorted_wrt_mono_rel [OF _ sorted_wrt_upt])

section \<open>The log follows the graph\<close>

text \<open>
  \<open>es\<close> and \<open>vs\<close> are the edge lists and vectors of the nodes, which the graph stores end to end.
\<close>

definition log_rows :: "('b, string) bolt \<Rightarrow> 'b buckets \<Rightarrow> Node list \<Rightarrow> u32 list list \<Rightarrow> u32 list list \<Rightarrow> bool" where
  "log_rows B bs ns es vs \<longleftrightarrow> rows_ok B bs bucketNodes (List.map node_bytes ns) \<and> rows_ok B bs bucketEdges (List.map bytes_of es) \<and>
     rows_ok B bs bucketVectors (List.map bytes_of vs) \<and> length es = length ns \<and> length vs = length ns"

definition dim_row :: "('b, string) bolt \<Rightarrow> 'b buckets \<Rightarrow> string option" where
  "dim_row B bs = (case bs bucketHnswMeta of Some b \<Rightarrow> bk_get B b keyCanonicalVecDim | None \<Rightarrow> None)"

definition dim_ok :: "('b, string) bolt \<Rightarrow> 'b buckets \<Rightarrow> Graph \<Rightarrow> u32 list list \<Rightarrow> bool" where
  "dim_ok B bs g vs \<longleftrightarrow> bs bucketHnswMeta \<noteq> None \<and> (\<forall>v\<in>set vs. length v = gr_VecDim g) \<and>
     (if gr_VecDim g = 0 then vs = [] \<and> dim_row B bs = None
      else gr_VecDim g < 2 ^ 32 \<and> dim_row B bs = Some (le_bytes 4 (gr_VecDim g)))"

definition in_log :: "('b, string) bolt \<Rightarrow> Graph \<Rightarrow> 'b buckets \<Rightarrow> u32 list list \<Rightarrow> u32 list list \<Rightarrow> bool" where
  "in_log B g bs es vs \<longleftrightarrow> log_rows B bs (gr_Nodes g) es vs \<and> gr_Edges g = concat es \<and> gr_Vectors g = concat vs \<and> dim_ok B bs g vs \<and>
     (es \<noteq> [] \<longrightarrow> hd es = [])"

lemma dim_ok_gen: "dim_ok B bs (g\<lparr>gr_Gen := x\<rparr>) vs = dim_ok B bs g vs"
  by (simp add: dim_ok_def)

lemma bucket_distinct [simp]:
  "bucketNodes \<noteq> bucketEdges" "bucketNodes \<noteq> bucketVectors" "bucketEdges \<noteq> bucketVectors" "bucketEdges \<noteq> bucketNodes"
  "bucketVectors \<noteq> bucketNodes" "bucketVectors \<noteq> bucketEdges" "bucketNodes \<noteq> bucketHnswMeta" "bucketEdges \<noteq> bucketHnswMeta"
  "bucketVectors \<noteq> bucketHnswMeta" "bucketHnswMeta \<noteq> bucketNodes" "bucketHnswMeta \<noteq> bucketEdges" "bucketHnswMeta \<noteq> bucketVectors"
  by (simp_all add: bucket_names)

lemma dim_row_meta: "bs' bucketHnswMeta = bs bucketHnswMeta \<Longrightarrow> dim_row B bs' = dim_row B bs"
  by (simp add: dim_row_def)

text \<open>The contract of \<open>Bolt_Iface\<close> for buckets of byte strings.\<close>

locale wal_bolt = bolt_bucket B for B :: "('b, string) bolt"

lemma wal_bolt_iff: "wal_bolt B \<longleftrightarrow> bolt_bucket B"
  by (simp add: wal_bolt_def)

interpretation lwal: wal_bolt "list_bolt :: ((string \<times> string) list, string) bolt"
  by unfold_locales

context wal_bolt
begin

text \<open>Writing one node.\<close>

lemma log_rows_put:
  assumes "log_rows B bs ns es vs" "length ns < 2 ^ 32"
    and "tx_put B bucketNodes (node_key (of_nat (length ns))) (node_bytes n) bs = Inr bs2"
    and "tx_put B bucketEdges (node_key (of_nat (length ns))) (bytes_of e) bs2 = Inr bs3"
    and "tx_put B bucketVectors (node_key (of_nat (length ns))) (bytes_of v) bs3 = Inr bs4"
  shows "log_rows B bs4 (ns @ [n]) (es @ [e]) (vs @ [v]) \<and> bs4 bucketHnswMeta = bs bucketHnswMeta"
proof -
  note r = assms(1) [unfolded log_rows_def]
  have 2: "rows_ok B bs2 bucketNodes (List.map node_bytes (ns @ [n]))" "\<forall>other. other \<noteq> bucketNodes \<longrightarrow> bs2 other = bs other"
    using put_row [of bs bucketNodes "List.map node_bytes ns" "node_bytes n" bs2] r assms(2,3) by simp_all
  then have "rows_ok B bs2 bucketEdges (List.map bytes_of es)" using r by (simp add: rows_ok_def)
  then have 3: "rows_ok B bs3 bucketEdges (List.map bytes_of (es @ [e]))" "\<forall>other. other \<noteq> bucketEdges \<longrightarrow> bs3 other = bs2 other"
    using put_row [of bs2 bucketEdges "List.map bytes_of es" "bytes_of e" bs3] r assms(2,4) by simp_all
  then have "rows_ok B bs3 bucketVectors (List.map bytes_of vs)" using r 2(2) by (simp add: rows_ok_def)
  then have 4: "rows_ok B bs4 bucketVectors (List.map bytes_of (vs @ [v]))" "\<forall>other. other \<noteq> bucketVectors \<longrightarrow> bs4 other = bs3 other"
    using put_row [of bs3 bucketVectors "List.map bytes_of vs" "bytes_of v" bs4] r assms(2,5) by simp_all
  show ?thesis using 2 3 4 r by (simp add: log_rows_def rows_ok_def)
qed

lemma insert_loop_rows:
  assumes "insert_loop B ids nodes edges vectors bs = Inr bs'" "log_rows B bs ns es vs"
    and "ids = List.map of_nat [length ns..<length ns + length ids]" "length ns + length ids \<le> 2 ^ 32"
    and "length nodes = length ids" "length edges = length ids" "length ids \<le> length vectors"
  shows "log_rows B bs' (ns @ nodes) (es @ edges) (vs @ take (length ids) vectors) \<and> bs' bucketHnswMeta = bs bucketHnswMeta"
  using assms
proof (induction ids arbitrary: nodes edges vectors bs ns es vs)
  case (Cons i ids)
  obtain n nodes' e edges' v vectors' where s: "nodes = n # nodes'" "edges = e # edges'" "vectors = v # vectors'"
    using Cons.prems(5-7) by (cases nodes; cases edges; cases vectors) auto
  have i: "i = of_nat (length ns)" and ids: "ids = List.map of_nat [length (ns @ [n])..<length (ns @ [n]) + length ids]"
    using Cons.prems(3) by (simp_all add: upt_rec)
  obtain bs2 bs3 bs4 where b: "tx_put B bucketNodes (node_key i) (node_bytes n) bs = Inr bs2"
    "tx_put B bucketEdges (node_key i) (bytes_of e) bs2 = Inr bs3" "tx_put B bucketVectors (node_key i) (bytes_of v) bs3 = Inr bs4"
    "insert_loop B ids nodes' edges' vectors' bs4 = Inr bs'"
    using Cons.prems(1) by (auto simp: s)
  have l: "log_rows B bs4 (ns @ [n]) (es @ [e]) (vs @ [v]) \<and> bs4 bucketHnswMeta = bs bucketHnswMeta"
    using Cons.prems(2,4) b(1-3) by (intro log_rows_put [of bs ns es vs n bs2 e bs3 v bs4]) (simp_all add: i)
  then show ?case using Cons.IH [OF b(4), of "ns @ [n]" "es @ [e]" "vs @ [v]"] ids Cons.prems(4-7) by (simp add: s)
qed simp_all

end

text \<open>The shared dimension: set by the first vector, then compared with.\<close>

lemma ensure_dim:
  assumes "ensureCanonicalDim B n bs = Inr bs'" "dim_ok B bs g vs" "n < 2 ^ 32" "bolt_bucket B"
  shows "0 < n \<and> (if gr_VecDim g = 0 then dim_row B bs' = Some (le_bytes 4 n) else n = gr_VecDim g \<and> bs' = bs) \<and>
    (\<forall>other. other \<noteq> bucketHnswMeta \<longrightarrow> bs' other = bs other) \<and> bs' bucketHnswMeta \<noteq> None"
proof -
  obtain b where b: "bs bucketHnswMeta = Some b" using assms(2) by (auto simp: dim_ok_def)
  then have c: "create_if_missing B bucketHnswMeta bs = bs" by (simp add: create_if_missing_def)
  have n: "0 < n" using assms(1) by (auto simp: ensureCanonicalDim_def split: if_splits)
  have row: "bk_get B b keyCanonicalVecDim = dim_row B bs" by (simp add: dim_row_def b)
  show ?thesis
  proof (cases "gr_VecDim g = 0")
    case True
    then have "dim_row B bs = None" using assms(2) by (simp add: dim_ok_def)
    then obtain b' where "bk_put B b keyCanonicalVecDim (le_bytes 4 n) = Inr b'" "bs' = bs(bucketHnswMeta \<mapsto> b')"
      using assms(1) n by (auto simp: ensureCanonicalDim_def c b row tx_put_ok)
    then show ?thesis using n True bolt_bucket.get_after_put [OF assms(4)] by (simp add: dim_row_def)
  next
    case False
    then have "dim_row B bs = Some (le_bytes 4 (gr_VecDim g))" "gr_VecDim g < 2 ^ 32" using assms(2) by (simp_all add: dim_ok_def)
    then show ?thesis using assms(1) n False b
      by (auto simp: ensureCanonicalDim_def c row le_val_bytes split: if_splits)
  qed
qed

lemma batch_loop_spec:
  assumes "batch_loop dist listing ctx k ds vecs g acc = (None, g1, acc1)"
  obtains new where "acc1 = acc @ new" "length new = length ds" "length ds \<le> length vecs"
    "List.map fst new = List.map of_nat [length (gr_Nodes g)..<length (gr_Nodes g) + length ds]"
    "gr_Nodes g1 = gr_Nodes g @ List.map (\<lambda>p. fst (snd p)) new" "gr_Edges g1 = gr_Edges g @ concat (List.map (\<lambda>p. snd (snd p)) new)"
    "gr_Vectors g1 = gr_Vectors g @ concat (take (length ds) vecs)"
    "\<And>d. \<forall>v\<in>set vecs. length v = d \<Longrightarrow> 0 < d \<Longrightarrow> gr_VecDim g1 = (if gr_VecDim g = 0 \<and> ds \<noteq> [] then d else gr_VecDim g)"
    "gr_Nodes g = [] \<Longrightarrow> ds \<noteq> [] \<Longrightarrow> snd (snd (hd new)) = []"
proof -
  have "\<exists>new. acc1 = acc @ new \<and> length new = length ds \<and> length ds \<le> length vecs \<and>
    List.map fst new = List.map of_nat [length (gr_Nodes g)..<length (gr_Nodes g) + length ds] \<and>
    gr_Nodes g1 = gr_Nodes g @ List.map (\<lambda>p. fst (snd p)) new \<and> gr_Edges g1 = gr_Edges g @ concat (List.map (\<lambda>p. snd (snd p)) new) \<and>
    gr_Vectors g1 = gr_Vectors g @ concat (take (length ds) vecs) \<and>
    (\<forall>d. (\<forall>v\<in>set vecs. length v = d) \<longrightarrow> 0 < d \<longrightarrow> gr_VecDim g1 = (if gr_VecDim g = 0 \<and> ds \<noteq> [] then d else gr_VecDim g)) \<and>
    (gr_Nodes g = [] \<longrightarrow> ds \<noteq> [] \<longrightarrow> snd (snd (hd new)) = [])"
    using assms
  proof (induction dist listing ctx k ds vecs g acc rule: batch_loop.induct)
    case (3 dist listing ctx k docID ds vec vecs g acc)
    obtain ns where ns: "neighbours_for dist listing ctx vec k g = Inr ns" using "3.prems" by (auto split: sum.splits)
    let ?g = "extend docID vec ns g" and ?x = "(of_nat (length (gr_Nodes g)), new_node docID ns g, ns)"
    have "batch_loop dist listing ctx k ds vecs ?g (acc @ [?x]) = (None, g1, acc1)" using "3.prems" by (simp add: ns)
    from "3.IH" [OF ns this] obtain new where new: "acc1 = (acc @ [?x]) @ new" "length new = length ds" "length ds \<le> length vecs"
      "List.map fst new = List.map of_nat [length (gr_Nodes ?g)..<length (gr_Nodes ?g) + length ds]"
      "gr_Nodes g1 = gr_Nodes ?g @ List.map (\<lambda>p. fst (snd p)) new" "gr_Edges g1 = gr_Edges ?g @ concat (List.map (\<lambda>p. snd (snd p)) new)"
      "gr_Vectors g1 = gr_Vectors ?g @ concat (take (length ds) vecs)"
      "\<forall>d. (\<forall>v\<in>set vecs. length v = d) \<longrightarrow> 0 < d \<longrightarrow> gr_VecDim g1 = (if gr_VecDim ?g = 0 \<and> ds \<noteq> [] then d else gr_VecDim ?g)"
      by blast
    have u: "[n..<Suc (n + m)] = n # [Suc n..<Suc (n + m)]" for n m :: nat by (simp add: upt_conv_Cons del: upt_Suc)
    show ?case
      by (rule exI [of _ "?x # new"]) (use new ns in \<open>auto simp: u extend_def neighbours_for_def simp del: upt_Suc\<close>)
  qed simp_all
  then show thesis using that by blast
qed

section \<open>Reachable states\<close>

text \<open>
  A graph and its log from the opening of a fresh log on, as long as every insert succeeds. Each
  insert may see another context, another order of the visited map and another \<open>k\<close>.
\<close>

inductive grown :: "('b, string) bolt \<Rightarrow> ('d :: linorder) distance \<Rightarrow> Graph \<times> 'b buckets \<Rightarrow> bool" for B dist where
  fresh: "(\<And>name. name \<in> {bucketNodes, bucketEdges, bucketVectors, bucketHnswMeta} \<Longrightarrow> bs name = Some (bk_empty B)) \<Longrightarrow>
    grown B dist (NewGraph 0, bs)"
| insert: "grown B dist st \<Longrightarrow> length vec < 2 ^ 32 \<Longrightarrow> length (gr_Nodes (fst st)) < 2 ^ 32 \<Longrightarrow>
    Insert B dist listing ctx docID vec k st = (None, st') \<Longrightarrow> grown B dist st'"
| batch: "grown B dist st \<Longrightarrow> (\<And>v. v \<in> set vecs \<Longrightarrow> length v < 2 ^ 32) \<Longrightarrow> length (gr_Nodes (fst st)) + length docIDs \<le> 2 ^ 32 \<Longrightarrow>
    InsertBatch B dist listing ctx docIDs vecs k st = (None, st') \<Longrightarrow> grown B dist st'"

lemma odd_vector_None: "odd_vector d i vs = None \<longleftrightarrow> (\<forall>v\<in>set vs. length v = d)"
  by (induction vs arbitrary: i) auto

context wal_bolt
begin

lemma insert_in_log:
  assumes "in_log B g bs es vs" "Insert B dist listing ctx docID vec k (g, bs) = (None, g', bs')"
    and "length vec < 2 ^ 32" "length (gr_Nodes g) < 2 ^ 32"
  shows "\<exists>es' vs'. in_log B g' bs' es' vs'"
proof -
  obtain ns where ns: "neighbours_for dist listing ctx vec k g = Inr ns" using assms(2) by (auto simp: Insert_def split: sum.splits)
  have g': "g' = extend docID vec ns g"
    and w: "Insert_wal B (of_nat (length (gr_Nodes g))) (new_node docID ns g) ns vec bs = (None, bs')"
    using assms(2) by (auto simp: Insert_def ns split: prod.splits option.splits)
  obtain bs1 bs2 bs3 where s: "ensureCanonicalDim B (length vec) bs = Inr bs1"
    "tx_put B bucketNodes (node_key (of_nat (length (gr_Nodes g)))) (node_bytes (new_node docID ns g)) bs1 = Inr bs2"
    "tx_put B bucketEdges (node_key (of_nat (length (gr_Nodes g)))) (bytes_of ns) bs2 = Inr bs3"
    "tx_put B bucketVectors (node_key (of_nat (length (gr_Nodes g)))) (bytes_of vec) bs3 = Inr bs'"
    using w by (auto simp: Insert_wal_def wal_update_ok)
  note d = ensure_dim [OF s(1) _ assms(3) bolt_bucket_axioms, of g vs]
  have dim: "dim_ok B bs g vs" and rows: "log_rows B bs (gr_Nodes g) es vs" using assms(1) by (simp_all add: in_log_def)
  then have "log_rows B bs1 (gr_Nodes g) es vs" using d by (simp add: log_rows_def rows_ok_def)
  from log_rows_put [OF this assms(4) s(2-4)]
  have "log_rows B bs' (gr_Nodes g @ [new_node docID ns g]) (es @ [ns]) (vs @ [vec])" "bs' bucketHnswMeta = bs1 bucketHnswMeta" by simp_all
  moreover have "dim_ok B bs' (extend docID vec ns g) (vs @ [vec])"
    using d [OF dim] dim assms(3) calculation(2) dim_row_meta [of bs' bs1 B]
    by (auto simp: dim_ok_def extend_def split: if_splits)
  ultimately show ?thesis using assms(1)
    using ns by (intro exI [of _ "es @ [ns]"] exI [of _ "vs @ [vec]"])
      (auto simp: in_log_def g' extend_def log_rows_def neighbours_for_def hd_append)
qed

end

context wal_bolt
begin

lemma batch_in_log:
  assumes "in_log B g bs es vs" "InsertBatch B dist listing ctx docIDs vecs k (g, bs) = (None, g', bs')"
    and "\<forall>v\<in>set vecs. length v < 2 ^ 32" "length (gr_Nodes g) + length docIDs \<le> 2 ^ 32"
  shows "\<exists>es' vs'. in_log B g' bs' es' vs'"
proof (cases "docIDs = []")
  case True
  then show ?thesis using assms(1,2) by (auto simp: InsertBatch_def)
next
  case False
  obtain g1 acc where l: "batch_loop dist listing ctx k docIDs vecs g [] = (None, g1, acc)"
    and g': "g' = g1\<lparr>gr_Gen := gr_Gen g1 + 1\<rparr>"
    and w: "InsertBatch_wal B (List.map fst acc) (List.map (\<lambda>p. fst (snd p)) acc) (List.map (\<lambda>p. snd (snd p)) acc) vecs bs = (None, bs')"
    using assms(2) False by (auto simp: InsertBatch_def split: prod.splits option.splits)
  from batch_loop_spec [OF l] obtain new where new: "acc = new" "length new = length docIDs" "length docIDs \<le> length vecs"
    "List.map fst new = List.map of_nat [length (gr_Nodes g)..<length (gr_Nodes g) + length docIDs]"
    "gr_Nodes g1 = gr_Nodes g @ List.map (\<lambda>p. fst (snd p)) new" "gr_Edges g1 = gr_Edges g @ concat (List.map (\<lambda>p. snd (snd p)) new)"
    "gr_Vectors g1 = gr_Vectors g @ concat (take (length docIDs) vecs)"
    "\<And>d. \<forall>v\<in>set vecs. length v = d \<Longrightarrow> 0 < d \<Longrightarrow> gr_VecDim g1 = (if gr_VecDim g = 0 \<and> docIDs \<noteq> [] then d else gr_VecDim g)"
    "gr_Nodes g = [] \<Longrightarrow> snd (snd (hd new)) = []"
    using False by auto
  have ne: "List.map fst new \<noteq> []" "vecs \<noteq> []" using new(2,3) False by auto
  let ?d = "length (hd vecs)"
  have odd: "odd_vector ?d 0 vecs = None"
    using w ne by (cases "odd_vector ?d 0 vecs") (auto simp: InsertBatch_wal_def new(1) Let_def)
  then have same: "\<forall>v\<in>set vecs. length v = ?d" using odd_vector_None by blast
  obtain bs1 where s: "ensureCanonicalDim B ?d bs = Inr bs1"
    "insert_loop B (List.map fst new) (List.map (\<lambda>p. fst (snd p)) new) (List.map (\<lambda>p. snd (snd p)) new) vecs bs1 = Inr bs'"
    using w ne unfolding InsertBatch_wal_def new(1) Let_def odd
    by (simp add: wal_update_ok split: if_splits) blast
  have dl: "?d < 2 ^ 32" using assms(3) ne(2) by simp
  have dim: "dim_ok B bs g vs" and rows: "log_rows B bs (gr_Nodes g) es vs" using assms(1) by (simp_all add: in_log_def)
  note d = ensure_dim [OF s(1) dim dl bolt_bucket_axioms]
  have "log_rows B bs1 (gr_Nodes g) es vs" using rows d by (simp add: log_rows_def rows_ok_def)
  from insert_loop_rows [OF s(2) this] new(2-4) assms(4)
  have r: "log_rows B bs' (gr_Nodes g1) (es @ List.map (\<lambda>p. snd (snd p)) new) (vs @ take (length docIDs) vecs)"
    and m: "bs' bucketHnswMeta = bs1 bucketHnswMeta"
    by (simp_all add: new(5))
  have "dim_ok B bs' g1 (vs @ take (length docIDs) vecs)"
    using d dim dl new(8) [OF same] same False m dim_row_meta [of bs' bs1 B]
    by (auto simp: dim_ok_def split: if_splits dest!: in_set_takeD)
  then have "in_log B g1 bs' (es @ List.map (\<lambda>p. snd (snd p)) new) (vs @ take (length docIDs) vecs)"
    using r new(6,7,9) assms(1) ne(1) by (auto simp: in_log_def hd_append hd_map log_rows_def)
  then have "in_log B g' bs' (es @ List.map (\<lambda>p. snd (snd p)) new) (vs @ take (length docIDs) vecs)"
    by (simp add: g' in_log_def dim_ok_gen)
  then show ?thesis by blast
qed

lemma grown_in_log:
  assumes "grown B dist st"
  shows "\<exists>es vs. in_log B (fst st) (snd st) es vs"
  using assms
proof induction
  case (fresh bs)
  have "in_log B (NewGraph 0) bs [] []"
    using fresh items_empty by (simp add: in_log_def log_rows_def rows_ok_def dim_ok_def dim_row_def NewGraph_def get_items)
  then show ?case by auto
next
  case (insert st vec listing ctx docID k st')
  then show ?case using insert_in_log [of "fst st" "snd st"] by (metis prod.collapse)
next
  case (batch st vecs docIDs listing ctx k st')
  then show ?case using batch_in_log [of "fst st" "snd st"] by (metis prod.collapse)
qed

end

section \<open>Loading the log\<close>

lemma load_nodes_rows:
  "List.map snd kvs = List.map node_bytes ns \<Longrightarrow> load_nodes None kvs = Inr ns"
  by (induction kvs arbitrary: ns) (auto simp: Cons_eq_map_conv)

lemma load_edges_rows:
  "List.map snd kvs = List.map bytes_of es \<Longrightarrow> load_edges None kvs = Inr (concat es)"
  by (induction kvs arbitrary: es) (auto simp: Cons_eq_map_conv)

lemma load_vectors_rows:
  "List.map snd kvs = List.map bytes_of vs \<Longrightarrow> \<forall>v\<in>set vs. length v = d \<Longrightarrow> room = length acc + d * length vs \<Longrightarrow>
   load_vectors None d room acc kvs = Inr (acc @ concat vs)"
proof (induction kvs arbitrary: vs acc)
  case (Cons p kvs)
  obtain v vs' where vs: "vs = v # vs'" "snd p = bytes_of v" "List.map snd kvs = List.map bytes_of vs'"
    using Cons.prems(1) by (auto simp: Cons_eq_map_conv)
  have "load_vectors None d room (acc @ v) kvs = Inr ((acc @ v) @ concat vs')"
    using Cons.prems vs by (intro Cons.IH [of vs']) (simp_all add: algebra_simps)
  then show ?case using Cons.prems(2,3) vs by (cases p) simp
qed simp

context wal_bolt
begin

text \<open>Whatever the order of the rows, as long as it is the same in the three buckets.\<close>

lemma load_permuted:
  assumes "in_log B g bs es vs" "dim_ok B bs g vs"
    and "bs bucketNodes = Some nb" "bs bucketEdges = Some eb" "bs bucketVectors = Some vb"
    and "List.map snd (bk_items B nb) = List.map node_bytes ns'" "List.map snd (bk_items B eb) = List.map bytes_of es'"
    and "List.map snd (bk_items B vb) = List.map bytes_of vs'" "length ns' = length vs'" "set vs' \<subseteq> set vs"
  shows "LoadGraph B None bs = Inr \<lparr>gr_Nodes = ns', gr_Edges = concat es', gr_Vectors = concat vs', gr_VecDim = gr_VecDim g, gr_Gen = 0\<rparr>"
proof -
  obtain mb where mb: "bs bucketHnswMeta = Some mb" using assms(2) by (auto simp: dim_ok_def)
  have "load_dim B vb bs = gr_VecDim g"
  proof (cases "gr_VecDim g = 0")
    case True
    then have "vs = []" "readCanonicalDim B bs = 0" using assms(2) mb by (auto simp: dim_ok_def readCanonicalDim_def dim_row_def)
    then have "bk_items B vb = []" using assms(8,10) by simp
    then show ?thesis using True \<open>readCanonicalDim B bs = 0\<close> by (simp add: load_dim_def)
  next
    case False
    then have "readCanonicalDim B bs = gr_VecDim g"
      using assms(2) mb by (auto simp: dim_ok_def readCanonicalDim_def dim_row_def le_val_bytes)
    then show ?thesis using False by (simp add: load_dim_def)
  qed
  moreover have "length (bk_items B nb) = length vs'" using assms(6,9) by (metis length_map)
  moreover have "\<forall>v\<in>set vs'. length v = gr_VecDim g" using assms(2,10) by (auto simp: dim_ok_def)
  ultimately show ?thesis
    using assms(3-5) load_nodes_rows [OF assms(6)] load_edges_rows [OF assms(7)]
      load_vectors_rows [OF assms(8), of "gr_VecDim g" "length vs' * gr_VecDim g" "[]"]
    by (simp add: LoadGraph_def)
qed

end

text \<open>
  C3: A graph of at most 256 nodes that was built by inserts that all succeeded is exactly what
  loading its write-ahead log gives back: nodes, edges, vectors and dimension, so that offsets and
  node numbers mean the same after a restart. Only the generation counter starts again.
\<close>

theorem reload_exact:
  assumes "bolt_bucket B" "grown B dist (g, bs)" "length (gr_Nodes g) \<le> 256"
  shows "LoadGraph B None bs = Inr (g\<lparr>gr_Gen := 0\<rparr>)"
proof -
  have wal: "wal_bolt B" using assms(1) by (simp add: wal_bolt_iff)
  obtain es vs where l: "in_log B g bs es vs" using wal_bolt.grown_in_log [OF wal assms(2)] by auto
  then have len: "length es = length (gr_Nodes g)" "length vs = length (gr_Nodes g)" by (simp_all add: in_log_def log_rows_def)
  from l obtain nb eb vb where b: "bs bucketNodes = Some nb" "bs bucketEdges = Some eb" "bs bucketVectors = Some vb"
    by (auto simp: in_log_def log_rows_def rows_ok_def)
  have rows: "bk_items B nb = keyed 0 (List.map node_bytes (gr_Nodes g))" "bk_items B eb = keyed 0 (List.map bytes_of es)"
    "bk_items B vb = keyed 0 (List.map bytes_of vs)"
    using l b len assms(3)
    by (auto simp: in_log_def log_rows_def intro!: bolt_bucket.rows_items [OF assms(1)] keyed_sorted)
  have "LoadGraph B None bs = Inr \<lparr>gr_Nodes = gr_Nodes g, gr_Edges = concat es, gr_Vectors = concat vs, gr_VecDim = gr_VecDim g, gr_Gen = 0\<rparr>"
    using l len by (intro wal_bolt.load_permuted [OF wal l _ b]) (simp_all add: rows keyed_values in_log_def)
  then show ?thesis using l by (cases g) (simp add: in_log_def)
qed

text \<open>The log after one insert.\<close>

definition demo_wal :: "(string \<times> string) list buckets" where
  "demo_wal name = (if name \<in> {bucketNodes, bucketEdges, bucketVectors, bucketHnswMeta} then Some [] else None)"

definition demo_one :: "Graph \<times> (string \<times> string) list buckets" where
  "demo_one = snd (Insert list_bolt demo_dist rev None 7 [10] 3 (NewGraph 0, demo_wal))"

lemma node_key_ne [simp]: "node_key i \<noteq> ''''" "length (node_key i) = 4"
  by (auto simp: node_key_def dest: arg_cong [of _ _ length])

lemma demo_insert_ok:
  "fst (Insert list_bolt demo_dist rev None 7 [10] 3 (NewGraph 0, demo_wal)) = None" "length (gr_Nodes (fst demo_one)) = 1"
  by (simp_all add: demo_one_def Insert_def neighbours_for_def NewGraph_def Insert_wal_def wal_update_def db_update_def
      ensureCanonicalDim_def create_if_missing_def demo_wal_def list_bolt_def tx_put_def keyCanonicalVecDim_def extend_def Let_def)

theorem reload_exact_witness:
  "grown list_bolt demo_dist demo_one \<and> length (gr_Nodes (fst demo_one)) = 1 \<and>
   LoadGraph list_bolt None (snd demo_one) = Inr ((fst demo_one)\<lparr>gr_Gen := 0\<rparr>)"
proof -
  have f: "grown list_bolt demo_dist (NewGraph 0, demo_wal)"
    by (rule grown.fresh) (auto simp: demo_wal_def list_bolt_def)
  have "Insert list_bolt demo_dist rev None 7 [10] 3 (NewGraph 0, demo_wal) = (None, demo_one)"
    unfolding demo_one_def by (subst demo_insert_ok(1) [symmetric]) (rule prod.collapse [symmetric])
  from grown.insert [OF f _ _ this] have g1: "grown list_bolt demo_dist demo_one" by (simp add: NewGraph_def)
  have "bolt_bucket (list_bolt :: ((string \<times> string) list, string) bolt)" by (rule lbolt.bolt_bucket_axioms)
  from reload_exact [OF this, of demo_dist "fst demo_one" "snd demo_one"] show ?thesis using g1 demo_insert_ok(2) by simp
qed

section \<open>Where loading and the graph part\<close>

text \<open>
  The keys are little-endian, and the store iterates in byte order: the key of node 256 comes
  right after that of node 0. From 257 nodes on every later node moves by one place, while the
  edges still name the old places.
\<close>

lemma key_256: "node_key 256 = [CHR 0x00, CHR 0x01, CHR 0x00, CHR 0x00]"
  by code_simp

lemma sorted_257:
  assumes "length mid = 255"
  shows "keys_sorted ((node_key (of_nat 0), a) # (node_key (of_nat 256), z) # keyed 1 mid)"
proof -
  have k: "node_key (of_nat i) = [char_of i, CHR 0x00, CHR 0x00, CHR 0x00]" if "i < 256" for i using small_key [OF that] .
  have "keys_sorted (keyed 1 mid)" unfolding keyed_keys using assms
    by (auto simp: sorted_wrt_map k char_of_less intro!: sorted_wrt_mono_rel [OF _ sorted_wrt_upt])
  moreover have "node_key 0 < node_key 256" using k [of 0] by (simp add: key_256 less_char_def char_of_def)
  moreover have "node_key 256 < x" if mem: "x \<in> set (List.map fst (keyed 1 mid))" for x
  proof -
    obtain i where i: "x = node_key (of_nat i)" "1 \<le> i" "i < 256"
      using mem assms unfolding keyed_keys by auto
    have "(CHR 0x00 :: char) < char_of i" using char_of_less [of 0 i] i by (simp add: char_of_def [of 0])
    then show ?thesis using i k [of i] by (simp add: key_256)
  qed
  ultimately have "\<forall>x\<in>set (List.map fst (keyed 1 mid)). node_key 0 < x" "\<forall>x\<in>set (List.map fst (keyed 1 mid)). node_key 256 < x"
    "node_key 0 < node_key 256" "keys_sorted (keyed 1 mid)"
    using less_trans by blast+
  then show ?thesis by (simp only: list.map fst_conv sorted_wrt.simps list.set of_nat_numeral of_nat_0 ball_simps) simp
qed

context wal_bolt
begin

lemma rows_257:
  assumes "rows_ok B bs name (a # mid @ [z])" "bs name = Some b" "length mid = 255"
  shows "List.map snd (bk_items B b) = a # z # mid"
proof -
  let ?r = "(node_key (of_nat 0), a) # (node_key (of_nat 256), z) # keyed 1 mid"
  have s: "keys_sorted ?r" by (rule sorted_257 [OF assms(3)])
  have "distinct (List.map fst (keyed 0 (a # mid @ [z])))" using assms(3) by (intro keyed_distinct) simp
  moreover have "set (keyed 0 (a # mid @ [z])) = set ?r" using assms(3) by (auto simp: keyed_append)
  ultimately have "map_of (keyed 0 (a # mid @ [z])) = map_of ?r"
    using map_of_inject_set keys_sorted_distinct [OF s] by blast
  then have "bk_items B b = ?r"
    using assms(1,2) s by (intro keys_sorted_unique [OF items_sorted]) (auto simp: rows_ok_def)
  then show ?thesis by (simp add: keyed_values)
qed

lemma reload_moves_257:
  assumes "grown B dist (g, bs)" "gr_Nodes g = a # mid @ [z]" "length mid = 255"
  shows "\<exists>es vs. LoadGraph B None bs = Inr (g\<lparr>gr_Nodes := a # z # mid, gr_Edges := es, gr_Vectors := vs, gr_Gen := 0\<rparr>)"
proof -
  obtain es vs where l: "in_log B g bs es vs" using grown_in_log [OF assms(1)] by auto
  have shape: "\<exists>x m y. xs = x # m @ [y] \<and> length m = 255" if "length xs = 257" for xs :: "u32 list list"
  proof -
    have "xs = hd xs # take 255 (tl xs) @ [last xs]" using that
      by (cases xs; cases "tl xs" rule: rev_cases) auto
    moreover have "length (take 255 (tl xs)) = 255" using that by simp
    ultimately show ?thesis by blast
  qed
  have len: "length es = 257" "length vs = 257" using l assms(2,3) by (simp_all add: in_log_def log_rows_def)
  obtain e em ez v vm vz where ev: "es = e # em @ [ez]" "length em = 255" "vs = v # vm @ [vz]" "length vm = 255"
    using shape [OF len(1)] shape [OF len(2)] by blast
  have rows: "rows_ok B bs bucketNodes (List.map node_bytes (a # mid @ [z]))" "rows_ok B bs bucketEdges (List.map bytes_of es)"
    "rows_ok B bs bucketVectors (List.map bytes_of vs)" and dim: "dim_ok B bs g vs"
    using l assms(2) by (simp_all add: in_log_def log_rows_def)
  then obtain nb eb vb where b: "bs bucketNodes = Some nb" "bs bucketEdges = Some eb" "bs bucketVectors = Some vb"
    by (auto simp: rows_ok_def)
  have "LoadGraph B None bs = Inr \<lparr>gr_Nodes = a # z # mid, gr_Edges = concat (e # ez # em), gr_Vectors = concat (v # vz # vm),
      gr_VecDim = gr_VecDim g, gr_Gen = 0\<rparr>"
    using rows_257 [of bs bucketNodes _ _ _ nb] rows_257 [of bs bucketEdges _ _ _ eb] rows_257 [of bs bucketVectors _ _ _ vb]
      rows b ev assms(3)
    by (intro load_permuted [OF l dim b]) auto
  then show ?thesis by (cases g) auto
qed

text \<open>A failing insert has already extended the graph in memory: the log does not follow.\<close>

lemma failed_insert_parts:
  assumes "Insert B dist listing ctx docID vec k (g, bs) = (Some e, g', bs')" "g' \<noteq> g"
  shows "length (gr_Nodes g') = length (gr_Nodes g) + 1 \<and> bs' = bs"
  using assms
  by (auto simp: Insert_def Insert_wal_def extend_def dest: wal_update_error split: sum.splits prod.splits option.splits)

end

end
