(* ===== verification/Rag_Sanitize.thy ===== *)
theory Rag_Sanitize
  imports Rag_Reload
begin

text \<open>
  The sanitizer of the write-ahead log, \<^verbatim>\<open>pkg/rag/wal_sanitizer.go\<close>: it purges the rows whose value is
  not of the kind of its bucket, and for the three buckets of the graph every row of a node with
  one such row. Whether bytes are JSON is an argument. A map of keys is the list of its keys in
  the order they were found.
\<close>

section \<open>Validators\<close>

definition nodeBinaryValidator :: "string \<Rightarrow> bool" where
  "nodeBinaryValidator v = (length v = 16)"

definition uint32ArrayValidator :: "string \<Rightarrow> bool" where
  "uint32ArrayValidator v = (length v mod 4 = 0)"

definition bucketValidators :: "(string \<Rightarrow> bool) \<Rightarrow> string \<Rightarrow> (string \<Rightarrow> bool) option" where
  "bucketValidators jsonValidator name =
     (if name = ''hnsw_nodes'' then Some nodeBinaryValidator
      else if name \<in> {''hnsw_edges'', ''hnsw_vectors'', ''hnsw_weights''} then Some uint32ArrayValidator
      else if name \<in> {''hnsw_docs'', ''hnsw_deps'', ''hnsw_scars'', ''hnsw_directives''} then Some jsonValidator
      else None)"

definition nonHNSWBuckets :: "string list" where
  "nonHNSWBuckets = [bucketDocs, bucketDeps, bucketScars, bucketWeights, bucketDirectives, bucketHnswMeta]"

definition metadataOnlyBuckets :: "string list" where
  "metadataOnlyBuckets = [bucketDocs, bucketDeps, bucketScars, bucketDirectives, bucketHnswMeta]"

definition corrupt :: "(string \<Rightarrow> bool) \<Rightarrow> string \<Rightarrow> bool" where
  "corrupt isValid v \<longleftrightarrow> v = '''' \<or> \<not> isValid v"

definition corrupt_keys :: "('b, string) bolt \<Rightarrow> (string \<Rightarrow> bool) \<Rightarrow> 'b option \<Rightarrow> string list" where
  "corrupt_keys B isValid b = (case b of None \<Rightarrow> [] | Some b \<Rightarrow> List.map fst (filter (\<lambda>(k, v). corrupt isValid v) (bk_items B b)))"

section \<open>Purging\<close>

fun delete_each :: "('b, 'v) bolt \<Rightarrow> string list \<Rightarrow> 'b \<Rightarrow> error + 'b" where
  "delete_each B [] b = Inr b"
| "delete_each B (k # ks) b =
     (case bk_delete B b k of Inl e \<Rightarrow> Inl (Wrap (''delete key '' @ k) e) | Inr b' \<Rightarrow> delete_each B ks b')"

definition sanitizeBucket :: "('b, string) bolt \<Rightarrow> (string \<Rightarrow> bool) \<Rightarrow> string \<Rightarrow> 'b buckets \<Rightarrow> (nat \<times> error option) \<times> 'b buckets" where
  "sanitizeBucket B isValid name bs =
     (let keys = corrupt_keys B isValid (bs name)
      in if keys = [] then ((0, None), bs)
         else (case wal_update B (\<lambda>bs. case bs name of None \<Rightarrow> Inr bs
                  | Some b \<Rightarrow> andthen (delete_each B keys b) (\<lambda>b'. Inr (bs(name \<mapsto> b')))) bs of
             (Some e, bs') \<Rightarrow> ((0, Some (Wrap (''purge of bucket '' @ name) e)), bs')
           | (None, bs') \<Rightarrow> ((length keys, None), bs')))"

text \<open>A bucket without validator, or whose purge fails, is logged and passed over.\<close>

fun sanitizeBuckets :: "(string \<Rightarrow> bool) \<Rightarrow> ('b, string) bolt \<Rightarrow> string list \<Rightarrow> 'b buckets \<Rightarrow> nat \<times> 'b buckets" where
  "sanitizeBuckets json B [] bs = (0, bs)"
| "sanitizeBuckets json B (name # names) bs =
     (case bucketValidators json name of
        None \<Rightarrow> sanitizeBuckets json B names bs
      | Some validator \<Rightarrow>
          (case sanitizeBucket B validator name bs of
             ((purged, err), bs1) \<Rightarrow>
               (case sanitizeBuckets json B names bs1 of (n, bs2) \<Rightarrow> ((if err = None then purged else 0) + n, bs2))))"

fun delete_from :: "('b, 'v) bolt \<Rightarrow> string list \<Rightarrow> string \<Rightarrow> 'b buckets \<Rightarrow> error + 'b buckets" where
  "delete_from B [] key bs = Inr bs"
| "delete_from B (name # names) key bs =
     (case bs name of
        None \<Rightarrow> delete_from B names key bs
      | Some b \<Rightarrow> (case bk_delete B b key of
            Inl e \<Rightarrow> Inl (Wrap (''cascade delete key from '' @ name) e)
          | Inr b' \<Rightarrow> delete_from B names key (bs(name \<mapsto> b'))))"

fun cascade :: "('b, 'v) bolt \<Rightarrow> string list \<Rightarrow> 'b buckets \<Rightarrow> error + 'b buckets" where
  "cascade B [] bs = Inr bs"
| "cascade B (key # ks) bs = andthen (delete_from B [bucketNodes, bucketEdges, bucketVectors] key bs) (cascade B ks)"

definition corruptIDs :: "('b, string) bolt \<Rightarrow> 'b buckets \<Rightarrow> string list" where
  "corruptIDs B bs = remdups
     (corrupt_keys B uint32ArrayValidator (bs bucketEdges) @ corrupt_keys B uint32ArrayValidator (bs bucketVectors) @
      corrupt_keys B nodeBinaryValidator (bs bucketNodes))"

definition sanitizeHNSWWithCascade :: "('b, string) bolt \<Rightarrow> 'b buckets \<Rightarrow> (nat \<times> error option) \<times> 'b buckets" where
  "sanitizeHNSWWithCascade B bs =
     (let ids = corruptIDs B bs
      in if ids = [] then ((0, None), bs)
         else (case wal_update B (cascade B ids) bs of
             (Some e, bs') \<Rightarrow> ((0, Some (Wrap ''sanitizeHNSWWithCascade write: '' e)), bs')
           | (None, bs') \<Rightarrow> ((length ids, None), bs')))"

definition SanitizeWAL :: "(string \<Rightarrow> bool) \<Rightarrow> ('b, string) bolt \<Rightarrow> 'b buckets \<Rightarrow> (nat \<times> error option) \<times> 'b buckets" where
  "SanitizeWAL json B bs =
     (case sanitizeHNSWWithCascade B bs of
        ((hnswPurged, Some e), bs1) \<Rightarrow> ((hnswPurged, Some e), bs1)
      | ((hnswPurged, None), bs1) \<Rightarrow>
          (case sanitizeBuckets json B nonHNSWBuckets bs1 of (metaPurged, bs2) \<Rightarrow> ((hnswPurged + metaPurged, None), bs2)))"

definition SanitizeWALMetadataOnly :: "(string \<Rightarrow> bool) \<Rightarrow> ('b, string) bolt \<Rightarrow> 'b buckets \<Rightarrow> nat \<times> 'b buckets" where
  "SanitizeWALMetadataOnly json B bs = sanitizeBuckets json B metadataOnlyBuckets bs"

section \<open>What is left\<close>

text \<open>The rows of a bucket, none when it is missing.\<close>

definition rows_of :: "('b, 'v) bolt \<Rightarrow> 'b buckets \<Rightarrow> string \<Rightarrow> (string \<times> 'v) list" where
  "rows_of B bs name = (case bs name of None \<Rightarrow> [] | Some b \<Rightarrow> bk_items B b)"

lemma rows_of_simps: "bs name = Some b \<Longrightarrow> rows_of B bs name = bk_items B b" "bs name = None \<Longrightarrow> rows_of B bs name = []"
  by (simp_all add: rows_of_def)

lemma corrupt_keys_rows: "set (corrupt_keys B isValid (bs name)) = fst ` {p \<in> set (rows_of B bs name). corrupt isValid (snd p)}"
  by (cases "bs name") (auto simp: corrupt_keys_def rows_of_def)

context bolt_total
begin

lemma delete_each_items:
  "\<exists>b'. delete_each B ks b = Inr b' \<and> bk_items B b' = filter (\<lambda>p. fst p \<notin> set ks) (bk_items B b)"
proof (induction ks arbitrary: b)
  case (Cons k ks)
  obtain b1 where b1: "bk_delete B b k = Inr b1" using delete_ok by blast
  obtain b' where b': "delete_each B ks b1 = Inr b'" "bk_items B b' = filter (\<lambda>p. fst p \<notin> set ks) (bk_items B b1)"
    using Cons.IH by blast
  have "filter (\<lambda>p. fst p \<notin> set ks) (filter (\<lambda>p. fst p \<noteq> k) (bk_items B b)) = filter (\<lambda>p. fst p \<notin> set (k # ks)) (bk_items B b)"
    by (simp add: conj_commute)
  then show ?case using b1 b' delete_items [OF b1] by auto
qed simp

lemma delete_from_rows:
  assumes "distinct names"
  shows "\<exists>bs'. delete_from B names key bs = Inr bs' \<and>
    (\<forall>name. rows_of B bs' name = (if name \<in> set names then filter (\<lambda>p. fst p \<noteq> key) (rows_of B bs name) else rows_of B bs name) \<and>
       (bs' name = None \<longleftrightarrow> bs name = None))"
  using assms
proof (induction names arbitrary: bs)
  case (Cons n names)
  show ?case
  proof (cases "bs n")
    case None
    then show ?thesis using Cons.IH [of bs] Cons.prems by (auto simp: rows_of_def)
  next
    case (Some b)
    obtain b1 where b1: "bk_delete B b key = Inr b1" using delete_ok by blast
    have "distinct names" using Cons.prems by simp
    from Cons.IH [OF this, of "bs(n \<mapsto> b1)"] obtain bs' where bs': "delete_from B names key (bs(n \<mapsto> b1)) = Inr bs'"
      "\<forall>name. rows_of B bs' name = (if name \<in> set names then filter (\<lambda>p. fst p \<noteq> key) (rows_of B (bs(n \<mapsto> b1)) name)
          else rows_of B (bs(n \<mapsto> b1)) name) \<and> (bs' name = None \<longleftrightarrow> (bs(n \<mapsto> b1)) name = None)"
      by blast
    have "rows_of B (bs(n \<mapsto> b1)) name = (if name = n then filter (\<lambda>p. fst p \<noteq> key) (rows_of B bs n) else rows_of B bs name)" for name
      using delete_items [OF b1] Some by (simp add: rows_of_def)
    then show ?thesis using bs' Some b1 Cons.prems by auto
  qed
qed auto

lemma cascade_rows:
  "\<exists>bs'. cascade B ks bs = Inr bs' \<and>
    (\<forall>name. rows_of B bs' name = (if name \<in> {bucketNodes, bucketEdges, bucketVectors}
         then filter (\<lambda>p. fst p \<notin> set ks) (rows_of B bs name) else rows_of B bs name) \<and> (bs' name = None \<longleftrightarrow> bs name = None))"
proof (induction ks arbitrary: bs)
  case (Cons k ks)
  have "distinct [bucketNodes, bucketEdges, bucketVectors]" by simp
  from delete_from_rows [OF this, of k bs] obtain bs1 where 1: "delete_from B [bucketNodes, bucketEdges, bucketVectors] k bs = Inr bs1"
    "\<forall>name. rows_of B bs1 name = (if name \<in> {bucketNodes, bucketEdges, bucketVectors}
         then filter (\<lambda>p. fst p \<noteq> k) (rows_of B bs name) else rows_of B bs name) \<and> (bs1 name = None \<longleftrightarrow> bs name = None)" by auto
  obtain bs' where 2: "cascade B ks bs1 = Inr bs'"
    "\<forall>name. rows_of B bs' name = (if name \<in> {bucketNodes, bucketEdges, bucketVectors}
         then filter (\<lambda>p. fst p \<notin> set ks) (rows_of B bs1 name) else rows_of B bs1 name) \<and> (bs' name = None \<longleftrightarrow> bs1 name = None)"
    using Cons.IH by blast
  have f: "filter (\<lambda>p. fst p \<notin> set ks) (filter (\<lambda>p. fst p \<noteq> k) xs) = filter (\<lambda>p. fst p \<notin> set (k # ks)) xs" for xs :: "(string \<times> 'b) list"
    by (simp add: conj_commute)
  show ?case using 1 2 by (intro exI [of _ bs']) (auto simp: conj_commute)
qed simp

end

lemma key_filter:
  assumes "distinct (List.map fst xs)"
  shows "filter (\<lambda>p. fst p \<notin> fst ` {p \<in> set xs. P p}) xs = filter (\<lambda>p. \<not> P p) xs"
proof (rule filter_cong [OF refl])
  fix p assume "p \<in> set xs"
  then show "(fst p \<notin> fst ` {p \<in> set xs. P p}) \<longleftrightarrow> \<not> P p"
    using assms by (auto simp: distinct_map dest: inj_onD)
qed

text \<open>A log on a store that takes every deletion.\<close>

locale wal_total = bolt_total B fits for B :: "('b, string) bolt" and fits

lemma wal_total_iff: "wal_total B fits \<longleftrightarrow> bolt_total B fits"
  by (simp add: wal_total_def)

sublocale wal_total \<subseteq> wal_bolt B
  by unfold_locales

interpretation ltwal: wal_total "list_bolt :: ((string \<times> string) list, string) bolt" "\<lambda>_. True"
  by unfold_locales

context wal_total
begin

lemma rows_distinct: "distinct (List.map fst (rows_of B bs name))"
  by (cases "bs name") (simp_all add: rows_of_def items_distinct)

lemma sanitizeBucket_rows:
  assumes "sanitizeBucket B isValid name bs = ((n, err), bs')"
  shows "err = None \<and> rows_of B bs' name = filter (\<lambda>p. \<not> corrupt isValid (snd p)) (rows_of B bs name) \<and>
    (\<forall>other. other \<noteq> name \<longrightarrow> bs' other = bs other)"
proof (cases "corrupt_keys B isValid (bs name) = []")
  case True
  then have "\<forall>p\<in>set (rows_of B bs name). \<not> corrupt isValid (snd p)"
    using corrupt_keys_rows [of B isValid bs name] by auto
  then show ?thesis using assms True by (auto simp: sanitizeBucket_def)
next
  case False
  then obtain b where b: "bs name = Some b" by (cases "bs name") (auto simp: corrupt_keys_def)
  let ?ks = "corrupt_keys B isValid (bs name)"
  obtain b' where b': "delete_each B ?ks b = Inr b'" "bk_items B b' = filter (\<lambda>p. fst p \<notin> set ?ks) (bk_items B b)"
    using delete_each_items by blast
  have "wal_update B (\<lambda>bs. case bs name of None \<Rightarrow> Inr bs | Some b \<Rightarrow> andthen (delete_each B ?ks b) (\<lambda>b'. Inr (bs(name \<mapsto> b')))) bs =
      (None, bs(name \<mapsto> b'))"
    by (simp add: wal_update_ok b b' [unfolded b] commit_ok)
  then have bs': "err = None" "bs' = bs(name \<mapsto> b')" using assms False by (auto simp: sanitizeBucket_def Let_def)
  have "bk_items B b' = filter (\<lambda>p. \<not> corrupt isValid (snd p)) (bk_items B b)"
    unfolding b'(2) corrupt_keys_rows rows_of_simps(1) [of bs name b, OF b] by (rule key_filter [OF items_distinct])
  then show ?thesis by (simp add: bs' rows_of_def b)
qed

lemma sanitizeBuckets_rows:
  assumes "sanitizeBuckets json B names bs = (n, bs')" "distinct names"
  shows "rows_of B bs' name = (case bucketValidators json name of
      Some valid \<Rightarrow> if name \<in> set names then filter (\<lambda>p. \<not> corrupt valid (snd p)) (rows_of B bs name) else rows_of B bs name
    | None \<Rightarrow> rows_of B bs name)"
  using assms
proof (induction names arbitrary: bs n)
  case (Cons a names)
  show ?case
  proof (cases "bucketValidators json a")
    case None
    then have "sanitizeBuckets json B names bs = (n, bs')" using Cons.prems(1) by simp
    then show ?thesis using Cons.IH [of bs n] Cons.prems(2) None by (auto split: option.splits)
  next
    case (Some valid)
    obtain m err bs1 where 1: "sanitizeBucket B valid a bs = ((m, err), bs1)" by (metis prod.collapse)
    then obtain k where 2: "sanitizeBuckets json B names bs1 = (k, bs')" using Cons.prems(1) Some by (auto split: prod.splits)
    note r = sanitizeBucket_rows [OF 1]
    have "rows_of B bs1 name = (if name = a then filter (\<lambda>p. \<not> corrupt valid (snd p)) (rows_of B bs a) else rows_of B bs name)"
      using r by (auto simp: rows_of_def)
    then show ?thesis using Cons.IH [OF 2] Cons.prems(2) Some by (auto split: option.splits)
  qed
qed (auto split: option.splits)

text \<open>The first pass takes every row of a node that has a corrupt one.\<close>

lemma cascade_pass:
  assumes "sanitizeHNSWWithCascade B bs = ((n, err), bs')"
  shows "err = None \<and> n = length (corruptIDs B bs) \<and> rows_of B bs' name = (if name \<in> {bucketNodes, bucketEdges, bucketVectors}
      then filter (\<lambda>p. fst p \<notin> set (corruptIDs B bs)) (rows_of B bs name) else rows_of B bs name)"
proof (cases "corruptIDs B bs = []")
  case True
  then show ?thesis using assms by (auto simp: sanitizeHNSWWithCascade_def)
next
  case False
  obtain bs1 where 1: "cascade B (corruptIDs B bs) bs = Inr bs1"
    "rows_of B bs1 name = (if name \<in> {bucketNodes, bucketEdges, bucketVectors}
         then filter (\<lambda>p. fst p \<notin> set (corruptIDs B bs)) (rows_of B bs name) else rows_of B bs name)"
    using cascade_rows by blast
  have "wal_update B (cascade B (corruptIDs B bs)) bs = (None, bs1)" by (simp add: wal_update_ok 1(1) commit_ok)
  then show ?thesis using assms False 1(2) by (auto simp: sanitizeHNSWWithCascade_def Let_def)
qed

end

text \<open>The names of the three buckets are those of the table, and the second pass leaves them alone.\<close>

definition graph_buckets :: "string list" where
  "graph_buckets = [bucketNodes, bucketEdges, bucketVectors]"

lemma validator_cases:
  "bucketValidators json name = Some valid \<Longrightarrow>
     (name = bucketNodes \<and> valid = nodeBinaryValidator) \<or> (name \<in> {bucketEdges, bucketVectors} \<and> valid = uint32ArrayValidator) \<or>
     (name \<in> set nonHNSWBuckets \<and> name \<notin> set graph_buckets)"
  by (auto simp: bucketValidators_def nonHNSWBuckets_def graph_buckets_def bucket_names split: if_splits)

lemma graph_validators [simp]:
  "bucketValidators json bucketNodes = Some nodeBinaryValidator" "bucketValidators json bucketEdges = Some uint32ArrayValidator"
  "bucketValidators json bucketVectors = Some uint32ArrayValidator"
  by (simp_all add: bucketValidators_def bucket_names)

lemma nonHNSW_distinct [simp]: "distinct nonHNSWBuckets"
  by (simp add: nonHNSWBuckets_def bucket_names)

lemma nonHNSW_graph: "name \<in> set nonHNSWBuckets \<Longrightarrow> name \<notin> set graph_buckets"
  by (auto simp: nonHNSWBuckets_def graph_buckets_def bucket_names)

text \<open>
  C34: After the sanitizer has run, every row of a bucket that has a validator is of its kind: a
  node has sixteen bytes, edges, vectors and weights are whole words, the metadata is JSON, and
  nothing is empty. It removes no more than it must: of the graph exactly the rows of the nodes
  that had a corrupt row in one of its three buckets, of the metadata exactly the corrupt rows,
  and nothing of a bucket without validator.
\<close>

theorem sanitize_well_typed:
  assumes "bolt_total B fits" "SanitizeWAL json B bs = ((n, err), bs')"
  shows "err = None \<and>
    (\<forall>name valid p. bucketValidators json name = Some valid \<and> p \<in> set (rows_of B bs' name) \<longrightarrow> snd p \<noteq> '''' \<and> valid (snd p)) \<and>
    (\<forall>name. rows_of B bs' name =
       (if name \<in> set graph_buckets then filter (\<lambda>p. fst p \<notin> set (corruptIDs B bs)) (rows_of B bs name)
        else case bucketValidators json name of
          Some valid \<Rightarrow> filter (\<lambda>p. snd p \<noteq> '''' \<and> valid (snd p)) (rows_of B bs name)
        | None \<Rightarrow> rows_of B bs name))"
proof -
  have wal: "wal_total B fits" using assms(1) by (simp add: wal_total_iff)
  obtain h e bs1 where 1: "sanitizeHNSWWithCascade B bs = ((h, e), bs1)" by (metis prod.collapse)
  note c = wal_total.cascade_pass [OF wal 1]
  then have e: "e = None" by blast
  obtain m where 2: "sanitizeBuckets json B nonHNSWBuckets bs1 = (m, bs')" and err: "err = None"
    using assms(2) by (auto simp: SanitizeWAL_def 1 e split: prod.splits)
  have exact: "rows_of B bs' name =
       (if name \<in> set graph_buckets then filter (\<lambda>p. fst p \<notin> set (corruptIDs B bs)) (rows_of B bs name)
        else case bucketValidators json name of
          Some valid \<Rightarrow> filter (\<lambda>p. snd p \<noteq> '''' \<and> valid (snd p)) (rows_of B bs name)
        | None \<Rightarrow> rows_of B bs name)" for name
    using wal_total.sanitizeBuckets_rows [OF wal 2 nonHNSW_distinct, of name] c [of name] validator_cases [of json name]
      nonHNSW_graph [of name]
    by (auto simp: graph_buckets_def corrupt_def split: option.splits if_splits)
  have "snd p \<noteq> '''' \<and> valid (snd p)" if v: "bucketValidators json name = Some valid" and p: "p \<in> set (rows_of B bs' name)" for name valid p
  proof (cases "name \<in> set graph_buckets")
    case False
    then show ?thesis using p v by (simp add: exact)
  next
    case True
    then have p': "p \<in> set (rows_of B bs name)" "fst p \<notin> set (corruptIDs B bs)" using p by (simp_all add: exact)
    have "fst p \<in> set (corruptIDs B bs)" if "corrupt valid (snd p)"
      using True v p'(1) that by (auto simp: graph_buckets_def corruptIDs_def corrupt_keys_rows)
    then show ?thesis using p'(2) by (auto simp: corrupt_def)
  qed
  then show ?thesis using err exact by blast
qed

definition demo_log :: "(string \<times> string) list buckets" where
  "demo_log name = (if name = bucketNodes then Some [(''a'', ''0123456789abcdef''), (''b'', ''short'')]
     else if name = bucketVectors then Some [(''a'', ''1234''), (''b'', ''1234'')] else None)"

theorem sanitize_well_typed_witness:
  "corruptIDs list_bolt demo_log = [''b''] \<and>
   rows_of list_bolt (snd (SanitizeWAL (\<lambda>v. True) list_bolt demo_log)) bucketVectors = [(''a'', ''1234'')]"
proof -
  have ids: "corruptIDs list_bolt demo_log = [''b'']"
    by (simp add: corruptIDs_def corrupt_keys_def demo_log_def list_bolt_def list_ok_def corrupt_def uint32ArrayValidator_def
        nodeBinaryValidator_def bucket_names less_char_def)
  have r: "rows_of list_bolt demo_log bucketVectors = [(''a'', ''1234''), (''b'', ''1234'')]"
    by (simp add: rows_of_def demo_log_def list_bolt_def list_ok_def bucket_names less_char_def)
  have t: "bolt_total (list_bolt :: ((string \<times> string) list, string) bolt) (\<lambda>_. True)" by (rule ltotal.bolt_total_axioms)
  show ?thesis
    using sanitize_well_typed [OF t, of "\<lambda>v. True" demo_log "fst (fst (SanitizeWAL (\<lambda>v. True) list_bolt demo_log))"
        "snd (fst (SanitizeWAL (\<lambda>v. True) list_bolt demo_log))" "snd (SanitizeWAL (\<lambda>v. True) list_bolt demo_log)"]
    by (simp add: graph_buckets_def ids r)
qed

section \<open>A healthy log\<close>

text \<open>
  The first node of a graph has no neighbours, so its row of edges is empty, and the sanitizer
  takes an empty value for a corrupt one: it removes the first node of every graph that grew by
  successful inserts, and with it the entry point of every search.
\<close>

lemma first_row:
  assumes "rows_ok B bs name (v # vals)" "bs name = Some b" "bolt_bucket B"
  shows "(node_key 0, v) \<in> set (bk_items B b)"
proof -
  have "map_of (bk_items B b) (node_key 0) = Some v" using assms(1,2) by (simp add: rows_ok_def)
  then show ?thesis by (rule map_of_SomeD)
qed

context wal_total
begin

lemma first_node_purged:
  assumes "grown B dist (g, bs)" "gr_Nodes g \<noteq> []" "SanitizeWAL json B bs = ((n, err), bs')"
  shows "node_key 0 \<in> fst ` set (rows_of B bs bucketNodes) \<and> node_key 0 \<notin> fst ` set (rows_of B bs' bucketNodes)"
proof -
  obtain es vs where l: "in_log B g bs es vs" using grown_in_log [OF assms(1)] by auto
  then have "length es = length (gr_Nodes g)" by (simp add: in_log_def log_rows_def)
  then obtain es' where es: "es = [] # es'" using l assms(2) by (cases es) (auto simp: in_log_def)
  obtain n0 ns where ns: "gr_Nodes g = n0 # ns" using assms(2) by (cases "gr_Nodes g") auto
  obtain nb eb where b: "bs bucketNodes = Some nb" "bs bucketEdges = Some eb"
    using l by (auto simp: in_log_def log_rows_def rows_ok_def)
  have e: "(node_key 0, '''') \<in> set (bk_items B eb)"
    using l first_row [of B bs bucketEdges "''''" "List.map bytes_of es'" eb] b(2) bolt_bucket_axioms by (simp add: in_log_def log_rows_def es)
  have nd: "(node_key 0, node_bytes n0) \<in> set (bk_items B nb)"
    using l first_row [of B bs bucketNodes "node_bytes n0" "List.map node_bytes ns" nb] b(1) bolt_bucket_axioms by (simp add: in_log_def log_rows_def ns)
  have "node_key 0 \<in> set (corrupt_keys B uint32ArrayValidator (bs bucketEdges))"
    using e unfolding corrupt_keys_rows [of B uint32ArrayValidator bs bucketEdges] rows_of_simps(1) [of bs bucketEdges eb, OF b(2)]
    by (force simp: corrupt_def)
  then have "node_key 0 \<in> set (corruptIDs B bs)" by (simp add: corruptIDs_def)
  moreover obtain h er bs1 where 1: "sanitizeHNSWWithCascade B bs = ((h, er), bs1)" by (metis prod.collapse)
  moreover have "rows_of B bs' bucketNodes = rows_of B bs1 bucketNodes"
  proof -
    have "er = None" using cascade_pass [OF 1] by blast
    then obtain m where "sanitizeBuckets json B nonHNSWBuckets bs1 = (m, bs')"
      using assms(3) by (auto simp: SanitizeWAL_def 1 split: prod.splits)
    moreover have "bucketNodes \<notin> set nonHNSWBuckets" using nonHNSW_graph [of bucketNodes] by (auto simp: graph_buckets_def)
    ultimately show ?thesis using sanitizeBuckets_rows [of json nonHNSWBuckets bs1 m bs' bucketNodes] by simp
  qed
  ultimately have "node_key 0 \<notin> fst ` set (rows_of B bs' bucketNodes)"
    using cascade_pass [OF 1, of bucketNodes] by auto
  then show ?thesis using nd by (force simp: rows_of_def b)
qed

end

text \<open>The metadata bucket of the shared dimension is on both lists but has no validator.\<close>

lemma meta_not_validated: "bucketValidators json bucketHnswMeta = None"
  by (simp add: bucketValidators_def bucket_names)

end
