(* ===== verification/Json_Iface.thy ===== *)
theory Json_Iface
  imports Bolt_Iface Neo_Text
begin

text \<open>
  \<^verbatim>\<open>encoding/json\<close> for one type of values, as the components that keep JSON in a bucket use it: what
  a value is written as, or why it cannot be, and what a text is read as. Reading always gives a
  value, the part of the text read before an error, because the code that ignores the error goes
  on with it. The locale \<open>json_codec\<close> states that the values that survive JSON unchanged are
  written and read back; the bytes themselves are not fixed.
\<close>

section \<open>The interface\<close>

record 'a codec_of =
  jc_enc :: "'a \<Rightarrow> error + string"
  jc_dec :: "string \<Rightarrow> 'a \<times> error option"

locale json_codec =
  fixes C :: "'a codec_of" and keeps :: "'a \<Rightarrow> bool"
  assumes enc_ok: "keeps x \<Longrightarrow> \<exists>s. jc_enc C x = Inr s \<and> s \<noteq> ''''"
    and dec_enc: "keeps x \<Longrightarrow> jc_enc C x = Inr s \<Longrightarrow> jc_dec C s = (x, None)"
begin

lemma encoded: "keeps x \<Longrightarrow> \<exists>s. jc_enc C x = Inr s \<and> s \<noteq> '''' \<and> jc_dec C s = (x, None)"
  using enc_ok dec_enc by blast

lemma enc_inj: "keeps x \<Longrightarrow> keeps y \<Longrightarrow> jc_enc C x = jc_enc C y \<Longrightarrow> x = y"
  using enc_ok [of x] dec_enc [of x] dec_enc [of y] by force

end

section \<open>An instance\<close>

text \<open>
  Lists of strings, each byte after a mark and each string closed by a semicolon; a text that is
  not of this form is an error and reads as the empty list.
\<close>

definition mark_string :: "string \<Rightarrow> string" where
  "mark_string s = concat (List.map (\<lambda>c. [CHR ''x'', c]) s) @ '';''"

fun read_marked :: "string \<Rightarrow> string list option" where
  "read_marked [] = Some []"
| "read_marked [c] = (if c = CHR '';'' then Some [[]] else None)"
| "read_marked (c # d # cs) =
     (if c = CHR '';'' then map_option (\<lambda>ws. [] # ws) (read_marked (d # cs))
      else if c = CHR ''x'' then (case read_marked cs of Some (w # ws) \<Rightarrow> Some ((d # w) # ws) | _ \<Rightarrow> None)
      else None)"

definition strings_codec :: "string list codec_of" where
  "strings_codec =
     \<lparr>jc_enc = (\<lambda>ws. Inr (CHR ''['' # concat (List.map mark_string ws))),
      jc_dec = (\<lambda>s. case s of
          [] \<Rightarrow> ([], Some JsonError)
        | c # cs \<Rightarrow> (case read_marked cs of
              Some ws \<Rightarrow> if c = CHR ''['' then (ws, None) else ([], Some JsonError)
            | None \<Rightarrow> ([], Some JsonError)))\<rparr>"

lemma read_mark: "read_marked (mark_string w @ r) = map_option (\<lambda>ws. w # ws) (read_marked r)"
proof (induction w)
  case Nil
  then show ?case by (cases r) (simp_all add: mark_string_def)
next
  case (Cons c w)
  have "mark_string (c # w) = CHR ''x'' # c # mark_string w" by (simp add: mark_string_def)
  then show ?case using Cons by (cases "read_marked r") simp_all
qed

lemma read_marks: "read_marked (concat (List.map mark_string ws)) = Some ws"
  by (induction ws) (simp_all add: read_mark)

interpretation lstrings: json_codec strings_codec "\<lambda>_. True"
  by unfold_locales (auto simp: strings_codec_def read_marks)

end
