(* ===== verification/Rag_Docs.thy ===== *)
theory Rag_Docs
  imports Rag_Wal Json_Iface
begin

text \<open>
  The document, dependency, scar and weight buckets of \<^verbatim>\<open>pkg/rag/wal.go\<close>, and the opening of the
  log. JSON is a codec per type. A map visited in arbitrary order is a list in the order of one
  visit. \<^verbatim>\<open>Vacuum\<close> deletes under a moving cursor, which bbolt leaves open: the rows the cursor
  visits are an argument.
\<close>

section \<open>Opening\<close>

definition arrow :: string where "arrow = [CHR 0xE2, CHR 0x86, CHR 0x92]"
definition em_dash :: string where "em_dash = [CHR 0xE2, CHR 0x80, CHR 0x94]"
definition o_acute :: string where "o_acute = [CHR 0xC3, CHR 0xB3]"

definition global_rules :: string where "global_rules = ''global_rules''"

definition defaultRules :: "string list" where
  "defaultRules =
     [''[SCOPE: GLOBAL] CICLO-OUROBOROS: Flujo obligatorio: BRIEFING '' @ arrow @ '' BLAST_RADIUS '' @ arrow @
        '' Edit/Write '' @ arrow @ '' neo_sre_certify_mutation. No editar sin investigar; no commit sin certificar.'',
      ''[SCOPE: GO & KERNEL] ZERO-ALLOCATION: Prohibido make()/new() en Hot-Paths (RAG, MCTS). Usar sync.Pool y memoria plana. Slices reciclados con [:0].'',
      ''[SCOPE: GO & KERNEL] AISLAMIENTO-MCP: NUNCA usar fmt.Print u os.Stdout en c'' @ o_acute @ ''digo MCP '' @ em_dash @
        '' destruye la conexi'' @ o_acute @ ''n JSON-RPC. Usar exclusivamente log.Printf.'',
      ''[SCOPE: GLOBAL] ZERO-HARDCODING: Todo enlace a BD, puertos y endpoints viene de neo.yaml o variables de entorno. Resoluci'' @ o_acute @
        ''n por b'' @ [CHR 0xC3, CHR 0xBA] @ ''squeda recursiva.'']"

definition wal_buckets :: "string list" where
  "wal_buckets = [bucketNodes, bucketEdges, bucketVectors, bucketDocs, bucketDeps, bucketScars, bucketWeights,
     bucketDirectives, bucketHnswMeta]"

text \<open>The buckets are those of the file when it could be opened.\<close>

definition OpenWAL ::
    "string list codec_of \<Rightarrow> ('b, string) bolt \<Rightarrow> string \<Rightarrow> error + 'b buckets \<Rightarrow> error + 'b buckets" where
  "OpenWAL C B dbPath db =
     (case db of
        Inl e \<Rightarrow> Inl (Wrap (''failed to acquire lock from bbolt in: '' @ dbPath @ '': '') e)
      | Inr bs \<Rightarrow>
          (case wal_update B (\<lambda>bs.
              (let bs1 = fold (create_if_missing B) wal_buckets bs
               in case bs1 bucketDirectives of
                    None \<Rightarrow> Inr bs1
                  | Some b \<Rightarrow> if bk_get B b global_rules = None
                      then andthen (jc_enc C defaultRules) (\<lambda>data. tx_put B bucketDirectives global_rules data bs1)
                      else Inr bs1)) bs of
             (Some e, _) \<Rightarrow> Inl (Wrap (''failed to initialize buckets in: '' @ dbPath @ '': '') e)
           | (None, bs') \<Rightarrow> Inr bs'))"

section \<open>Documents\<close>

record DocMeta =
  dm_Path :: string
  dm_Content :: string
  dm_InboundDegree :: int
  dm_DeletedAt :: int
  dm_WorkspaceID :: string

definition doc_key :: "u64 \<Rightarrow> string" where
  "doc_key docID = le_bytes 8 (unat docID)"

definition SaveDocMeta ::
    "DocMeta codec_of \<Rightarrow> ('b, string) bolt \<Rightarrow> u64 \<Rightarrow> string \<Rightarrow> string \<Rightarrow> int \<Rightarrow> 'b buckets \<Rightarrow> error option \<times> 'b buckets" where
  "SaveDocMeta C B docID path content inboundDegree =
     wal_update B (\<lambda>bs.
       andthen (jc_enc C \<lparr>dm_Path = path, dm_Content = content, dm_InboundDegree = inboundDegree, dm_DeletedAt = 0,
           dm_WorkspaceID = ''''\<rparr>)
         (\<lambda>data. tx_put B bucketDocs (doc_key docID) data bs))"

definition GetDocMeta ::
    "DocMeta codec_of \<Rightarrow> ('b, string) bolt \<Rightarrow> u64 \<Rightarrow> 'b buckets \<Rightarrow> (string \<times> string \<times> int) \<times> error option" where
  "GetDocMeta C B docID bs =
     (case bs bucketDocs of
        None \<Rightarrow> (('''', '''', 0), Some nil_panic)
      | Some b \<Rightarrow> (case bk_get B b (doc_key docID) of
            None \<Rightarrow> (('''', '''', 0), Some (Err (''docID '' @ dec (unat docID) @ '' not found'')))
          | Some data \<Rightarrow> (case jc_dec C data of
                (_, Some e) \<Rightarrow> (('''', '''', 0), Some e)
              | (meta, None) \<Rightarrow> ((dm_Path meta, dm_Content meta, dm_InboundDegree meta), None))))"

definition belongs :: "string \<Rightarrow> DocMeta \<Rightarrow> bool" where
  "belongs workspaceID meta \<longleftrightarrow> workspaceID = '''' \<or> dm_WorkspaceID meta = '''' \<or> dm_WorkspaceID meta = workspaceID"

definition GetDocsByWorkspace :: "DocMeta codec_of \<Rightarrow> ('b, string) bolt \<Rightarrow> string \<Rightarrow> 'b buckets \<Rightarrow> DocMeta list" where
  "GetDocsByWorkspace C B workspaceID bs =
     (case bs bucketDocs of
        None \<Rightarrow> []
      | Some b \<Rightarrow> filter (belongs workspaceID)
          (List.map_filter (\<lambda>(k, v). case jc_dec C v of (meta, None) \<Rightarrow> Some meta | (_, Some _) \<Rightarrow> None) (bk_items B b)))"

fun set_degrees ::
    "DocMeta codec_of \<Rightarrow> ('b, string) bolt \<Rightarrow> (u64 \<times> int) list \<Rightarrow> 'b buckets \<Rightarrow> error + 'b buckets" where
  "set_degrees C B [] bs = Inr bs"
| "set_degrees C B ((docID, degree) # ups) bs =
     (case bs bucketDocs of
        None \<Rightarrow> Inl (Err ''bucketDocs no existe'')
      | Some b \<Rightarrow> (case bk_get B b (doc_key docID) of
            None \<Rightarrow> set_degrees C B ups bs
          | Some val \<Rightarrow> (case jc_dec C val of
                (_, Some e) \<Rightarrow> Inl (Wrap (''corrupci'' @ o_acute @ ''n JSON en doc '' @ dec (unat docID) @ '': '') e)
              | (meta, None) \<Rightarrow> andthen
                  (wrapping (''error serializando doc '' @ dec (unat docID) @ '': '')
                    (andthen (jc_enc C (meta\<lparr>dm_InboundDegree := degree\<rparr>)) (\<lambda>data. tx_put B bucketDocs (doc_key docID) data bs)))
                  (set_degrees C B ups))))"

definition PrecomputeAndStoreTopology ::
    "DocMeta codec_of \<Rightarrow> ('b, string) bolt \<Rightarrow> (u64 \<times> int) list \<Rightarrow> 'b buckets \<Rightarrow> error option \<times> 'b buckets" where
  "PrecomputeAndStoreTopology C B degreeUpdates bs =
     (if degreeUpdates = [] then (None, bs)
      else wal_update B (\<lambda>bs. if bs bucketDocs = None then Inl (Err ''bucketDocs no existe'')
             else set_degrees C B degreeUpdates bs) bs)"

definition ghost :: "(string \<Rightarrow> bool) \<Rightarrow> string list \<Rightarrow> string \<Rightarrow> bool" where
  "ghost gone ignoreDirs filePath \<longleftrightarrow>
     gone filePath \<or> list_ex (\<lambda>dir. dir \<noteq> '''' \<and> str_contains filePath (''/'' @ dir @ ''/'')) ignoreDirs"

fun vacuum_loop ::
    "DocMeta codec_of \<Rightarrow> ('b, string) bolt \<Rightarrow> (string \<Rightarrow> bool) \<Rightarrow> string list \<Rightarrow> (string \<times> string) list \<times> error option \<Rightarrow>
      nat \<Rightarrow> 'b \<Rightarrow> nat \<times> (error + 'b)" where
  "vacuum_loop C B gone ignoreDirs ([], stop) n b = (n, case stop of None \<Rightarrow> Inr b | Some e \<Rightarrow> Inl e)"
| "vacuum_loop C B gone ignoreDirs ((k, v) # rows, stop) n b =
     (case jc_dec C v of
        (_, Some _) \<Rightarrow> vacuum_loop C B gone ignoreDirs (rows, stop) n b
      | (meta, None) \<Rightarrow>
          if ghost gone ignoreDirs (dm_Path meta)
          then (case bk_delete B b k of
              Inl _ \<Rightarrow> vacuum_loop C B gone ignoreDirs (rows, stop) n b
            | Inr b' \<Rightarrow> vacuum_loop C B gone ignoreDirs (rows, stop) (Suc n) b')
          else vacuum_loop C B gone ignoreDirs (rows, stop) n b)"

text \<open>\<open>visit\<close> gives the rows the cursor comes to before the context ends, and its error if it does.\<close>

definition Vacuum ::
    "DocMeta codec_of \<Rightarrow> ('b, string) bolt \<Rightarrow> ((string \<times> string) list \<Rightarrow> (string \<times> string) list \<times> error option) \<Rightarrow>
      (string \<Rightarrow> bool) \<Rightarrow> string list \<Rightarrow> 'b buckets \<Rightarrow> nat \<times> error option \<times> 'b buckets" where
  "Vacuum C B visit gone ignoreDirs =
     db_update B (\<lambda>bs. case bs bucketDocs of
        None \<Rightarrow> (0, Inl (Err ''bucket_docs not found''))
      | Some b \<Rightarrow> (case vacuum_loop C B gone ignoreDirs (visit (bk_items B b)) 0 b of
            (n, Inl e) \<Rightarrow> (n, Inl e)
          | (n, Inr b') \<Rightarrow> (n, Inr (bs(bucketDocs \<mapsto> b')))))"

section \<open>Lists of strings under a key\<close>

text \<open>What is stored under a key, read as far as it can be.\<close>

definition stored_strings :: "string list codec_of \<Rightarrow> ('b, string) bolt \<Rightarrow> 'b \<Rightarrow> string \<Rightarrow> string list \<times> error option" where
  "stored_strings C B b key = (case bk_get B b key of None \<Rightarrow> ([], None) | Some data \<Rightarrow> jc_dec C data)"

definition put_json :: "'a codec_of \<Rightarrow> ('b, string) bolt \<Rightarrow> string \<Rightarrow> string \<Rightarrow> 'a \<Rightarrow> 'b buckets \<Rightarrow> error + 'b buckets" where
  "put_json C B name key x bs = andthen (jc_enc C x) (\<lambda>data. tx_put B name key data bs)"

definition get_strings ::
    "string list codec_of \<Rightarrow> ('b, string) bolt \<Rightarrow> string \<Rightarrow> string \<Rightarrow> string \<Rightarrow> 'b buckets \<Rightarrow> string list \<times> error option" where
  "get_strings C B name missing key bs =
     (case bs name of None \<Rightarrow> ([], Some (Err missing)) | Some b \<Rightarrow> stored_strings C B b key)"

fun add_new :: "string list \<Rightarrow> string list \<Rightarrow> string list" where
  "add_new existing [] = existing"
| "add_new existing (d # ds) = add_new (if d \<in> set existing then existing else existing @ [d]) ds"

definition SaveDependencies ::
    "string list codec_of \<Rightarrow> ('b, string) bolt \<Rightarrow> string \<Rightarrow> string list \<Rightarrow> 'b buckets \<Rightarrow> error option \<times> 'b buckets" where
  "SaveDependencies C B targetPath dependentPaths =
     wal_update B (\<lambda>bs. case bs bucketDeps of
        None \<Rightarrow> Inl (Err ''bucket_deps not found'')
      | Some b \<Rightarrow> (let existing = fst (stored_strings C B b targetPath); new = add_new existing dependentPaths
           in if new \<noteq> existing then put_json C B bucketDeps targetPath new bs else Inr bs))"

definition GetDependents ::
    "string list codec_of \<Rightarrow> ('b, string) bolt \<Rightarrow> string \<Rightarrow> 'b buckets \<Rightarrow> string list \<times> error option" where
  "GetDependents C B = get_strings C B bucketDeps ''bucket_deps not found''"

definition SaveScar ::
    "string list codec_of \<Rightarrow> ('b, string) bolt \<Rightarrow> string \<Rightarrow> string \<Rightarrow> 'b buckets \<Rightarrow> error option \<times> 'b buckets" where
  "SaveScar C B filePath scar =
     wal_update B (\<lambda>bs. case bs bucketScars of
        None \<Rightarrow> Inl (Err ''bucket_scars not found'')
      | Some b \<Rightarrow> put_json C B bucketScars filePath (fst (stored_strings C B b filePath) @ [scar]) bs)"

definition GetScars ::
    "string list codec_of \<Rightarrow> ('b, string) bolt \<Rightarrow> string \<Rightarrow> 'b buckets \<Rightarrow> string list \<times> error option" where
  "GetScars C B = get_strings C B bucketScars ''bucket_scars not found''"

section \<open>Weights\<close>

definition SaveWeights ::
    "('b, string) bolt \<Rightarrow> u32 list \<Rightarrow> u32 list \<Rightarrow> 'b buckets \<Rightarrow> error option \<times> 'b buckets" where
  "SaveWeights B w1 w2 =
     wal_update B (\<lambda>bs. case bs bucketWeights of
        None \<Rightarrow> Inl (Err ''bucket_weights not found'')
      | Some b \<Rightarrow> andthen (tx_put B bucketWeights ''W1'' (bytes_of w1) bs)
          (tx_put B bucketWeights ''W2'' (bytes_of w2)))"

text \<open>A text that does not divide into words of four bytes ends in a panic.\<close>

definition LoadWeights :: "('b, string) bolt \<Rightarrow> 'b buckets \<Rightarrow> (u32 list \<times> u32 list) \<times> error option" where
  "LoadWeights B bs =
     (case bs bucketWeights of
        None \<Rightarrow> (([], []), Some (Err ''bucket_weights not found''))
      | Some b \<Rightarrow> (case bk_get B b ''W1'' of
            None \<Rightarrow> (([], []), Some (Err ''W1 not found''))
          | Some s1 \<Rightarrow> if length s1 mod 4 \<noteq> 0 then (([], []), Some index_panic)
              else (case bk_get B b ''W2'' of
                  None \<Rightarrow> ((words_of s1, []), Some (Err ''W2 not found''))
                | Some s2 \<Rightarrow> if length s2 mod 4 \<noteq> 0 then (([], []), Some index_panic)
                    else ((words_of s1, words_of s2), None))))"

end
