(* ===== verification/Rag_DocsProps.thy ===== *)
theory Rag_DocsProps
  imports Rag_Docs Rag_Reload
begin

text \<open>
  The document and weight buckets: what is saved is read back, and the vacuum deletes exactly the
  documents whose file is gone or ignored.
\<close>

lemma doc_key_inj: "doc_key i = doc_key j \<longleftrightarrow> i = j"
  unfolding doc_key_def using unsigned_less [of i] unsigned_less [of j] by (subst le_bytes_inj) (simp_all add: word_unat_eq_iff)

lemma save_get_doc:
  assumes "bolt_bucket B" "json_codec C keeps" "SaveDocMeta C B docID path content deg bs = (None, bs')"
    "keeps \<lparr>dm_Path = path, dm_Content = content, dm_InboundDegree = deg, dm_DeletedAt = 0, dm_WorkspaceID = ''''\<rparr>"
  shows "GetDocMeta C B i bs' = (if i = docID then ((path, content, deg), None) else GetDocMeta C B i bs)"
proof -
  let ?m = "\<lparr>dm_Path = path, dm_Content = content, dm_InboundDegree = deg, dm_DeletedAt = 0, dm_WorkspaceID = ''''\<rparr>"
  obtain data where e: "jc_enc C ?m = Inr data" "tx_put B bucketDocs (doc_key docID) data bs = Inr bs'"
    using assms(3) by (auto simp: SaveDocMeta_def wal_update_ok)
  obtain b b' where d: "jc_enc C ?m = Inr data" "bs bucketDocs = Some b" "bk_put B b (doc_key docID) data = Inr b'"
    "bs' = bs(bucketDocs \<mapsto> b')"
    using e by (auto simp: tx_put_def split: option.splits sum.splits)
  have dec: "jc_dec C data = (?m, None)" by (rule json_codec.dec_enc [OF assms(2,4) d(1)])
  show ?thesis
    using bolt_bucket.get_after_put [OF assms(1) d(3), of "doc_key i"] by (simp add: GetDocMeta_def d(2,4) dec doc_key_inj)
qed

lemma save_load_weights:
  assumes "bolt_bucket B" "SaveWeights B w1 w2 bs = (None, bs')"
  shows "LoadWeights B bs' = ((w1, w2), None)"
proof -
  obtain bs1 where t: "tx_put B bucketWeights ''W1'' (bytes_of w1) bs = Inr bs1" "tx_put B bucketWeights ''W2'' (bytes_of w2) bs1 = Inr bs'"
    using assms(2) by (auto simp: SaveWeights_def wal_update_ok split: option.splits)
  obtain b b1 where "bs bucketWeights = Some b" "bk_put B b ''W1'' (bytes_of w1) = Inr b1" "bs1 = bs(bucketWeights \<mapsto> b1)"
    using t(1) by (auto simp: tx_put_def split: option.splits sum.splits)
  moreover obtain b2 where "bk_put B b1 ''W2'' (bytes_of w2) = Inr b2" "bs' = bs(bucketWeights \<mapsto> b2)"
    using t(2) calculation(3) by (auto simp: tx_put_def split: option.splits sum.splits)
  ultimately show ?thesis
    using bolt_bucket.get_after_put [OF assms(1)] by (simp add: LoadWeights_def)
qed

section \<open>The vacuum\<close>

definition doc_ghost :: "DocMeta codec_of \<Rightarrow> (string \<Rightarrow> bool) \<Rightarrow> string list \<Rightarrow> string \<Rightarrow> bool" where
  "doc_ghost C gone ignoreDirs v \<longleftrightarrow> (case jc_dec C v of (meta, None) \<Rightarrow> ghost gone ignoreDirs (dm_Path meta) | (_, Some _) \<Rightarrow> False)"

lemma vacuum_loop_rows:
  assumes "bolt_total B fits" "distinct (List.map fst rows)" "set rows \<subseteq> set (bk_items B b)"
    "vacuum_loop C B gone ignoreDirs (rows, None) n b = (m, Inr b')"
  shows "bk_items B b' = filter (\<lambda>p. p \<notin> {q \<in> set rows. doc_ghost C gone ignoreDirs (snd q)}) (bk_items B b) \<and>
    m = n + length (filter (\<lambda>q. doc_ghost C gone ignoreDirs (snd q)) rows)"
  using assms(2-)
proof (induction rows arbitrary: n b)
  case Nil
  then show ?case by simp
next
  case (Cons row rows)
  obtain k v where row: "row = (k, v)" by fastforce
  obtain meta err where dec: "jc_dec C v = (meta, err)" by fastforce
  have bb: "bolt_bucket B" using assms(1) by (simp add: bolt_total_def bolt_writable_def)
  show ?case
  proof (cases "doc_ghost C gone ignoreDirs v")
    case True
    obtain b1 where b1: "bk_delete B b k = Inr b1" using bolt_total.delete_ok [OF assms(1)] by blast
    note items = bolt_bucket.delete_items [OF bb b1]
    have "vacuum_loop C B gone ignoreDirs (rows, None) (Suc n) b1 = (m, Inr b')"
      using Cons.prems(3) True by (simp add: row dec b1 doc_ghost_def split: option.splits)
    moreover have "set rows \<subseteq> set (bk_items B b1)" using Cons.prems(1,2) by (auto simp: items row rev_image_eqI)
    ultimately have ih: "bk_items B b' = filter (\<lambda>p. p \<notin> {q \<in> set rows. doc_ghost C gone ignoreDirs (snd q)}) (bk_items B b1) \<and>
        m = Suc n + length (filter (\<lambda>q. doc_ghost C gone ignoreDirs (snd q)) rows)"
      using Cons.IH [of b1 "Suc n"] Cons.prems(1) by simp
    have "p = (k, v)" if "p \<in> set (bk_items B b)" "fst p = k" for p
      using that Cons.prems(2) bolt_bucket.items_distinct [OF bb, of b] by (auto simp: row distinct_map inj_on_def)
    note uniq = this
    have "(p \<notin> {q \<in> set (row # rows). doc_ghost C gone ignoreDirs (snd q)}) \<longleftrightarrow>
        p \<notin> {q \<in> set rows. doc_ghost C gone ignoreDirs (snd q)} \<and> fst p \<noteq> k" if "p \<in> set (bk_items B b)" for p
    proof (cases "p = (k, v)")
      case False
      then have "fst p \<noteq> k" using uniq [OF that] by blast
      then show ?thesis using False by (simp add: row)
    qed (use True in \<open>simp add: row\<close>)
    then have "filter (\<lambda>p. p \<notin> {q \<in> set (row # rows). doc_ghost C gone ignoreDirs (snd q)}) (bk_items B b) =
        filter (\<lambda>p. p \<notin> {q \<in> set rows. doc_ghost C gone ignoreDirs (snd q)}) (bk_items B b1)"
      unfolding items filter_filter by (intro filter_cong refl) blast
    moreover have "filter (\<lambda>q. doc_ghost C gone ignoreDirs (snd q)) (row # rows) = row # filter (\<lambda>q. doc_ghost C gone ignoreDirs (snd q)) rows"
      using True by (simp add: row)
    ultimately show ?thesis using ih by simp
  next
    case False
    then have "vacuum_loop C B gone ignoreDirs (rows, None) n b = (m, Inr b')"
      using Cons.prems(3) by (simp add: row dec doc_ghost_def split: option.splits)
    from Cons.IH [OF _ _ this] have ih: "bk_items B b' = filter (\<lambda>p. p \<notin> {q \<in> set rows. doc_ghost C gone ignoreDirs (snd q)}) (bk_items B b) \<and>
        m = n + length (filter (\<lambda>q. doc_ghost C gone ignoreDirs (snd q)) rows)"
      using Cons.prems(1,2) by simp
    have "{q \<in> set (row # rows). doc_ghost C gone ignoreDirs (snd q)} = {q \<in> set rows. doc_ghost C gone ignoreDirs (snd q)}"
      using False by (auto simp: row)
    then show ?thesis using ih False by (simp add: row)
  qed
qed

lemma vacuum_exact:
  assumes "bolt_total B fits" "bs bucketDocs = Some b" "Vacuum C B (\<lambda>rows. (rows, None)) gone ignoreDirs bs = (n, None, bs')"
  shows "\<exists>b'. bs' = bs(bucketDocs \<mapsto> b') \<and> bk_items B b' = filter (\<lambda>p. \<not> doc_ghost C gone ignoreDirs (snd p)) (bk_items B b) \<and>
    n = length (filter (\<lambda>p. doc_ghost C gone ignoreDirs (snd p)) (bk_items B b))"
proof -
  obtain b' where b': "vacuum_loop C B gone ignoreDirs (bk_items B b, None) 0 b = (n, Inr b')" "bs' = bs(bucketDocs \<mapsto> b')"
    using assms(2,3) by (auto simp: Vacuum_def db_update_ok split: prod.splits sum.splits)
  have bb: "bolt_bucket B" using assms(1) by (simp add: bolt_total_def bolt_writable_def)
  from vacuum_loop_rows [OF assms(1) bolt_bucket.items_distinct [OF bb] subset_refl b'(1)]
  have "bk_items B b' = filter (\<lambda>p. p \<notin> {q \<in> set (bk_items B b). doc_ghost C gone ignoreDirs (snd q)}) (bk_items B b) \<and>
    n = length (filter (\<lambda>p. doc_ghost C gone ignoreDirs (snd p)) (bk_items B b))" by simp
  moreover have "filter (\<lambda>p. p \<notin> {q \<in> set (bk_items B b). doc_ghost C gone ignoreDirs (snd q)}) (bk_items B b) =
      filter (\<lambda>p. \<not> doc_ghost C gone ignoreDirs (snd p)) (bk_items B b)"
    by (rule filter_cong) auto
  ultimately show ?thesis using b'(2) by auto
qed

end
