(* ===== verification/Rag_Directives.thy ===== *)
theory Rag_Directives
  imports Rag_Docs "HOL-Library.Sublist"
begin

text \<open>
  The directives of \<^verbatim>\<open>pkg/rag/wal.go\<close>: the list of rules under one key, its edits by position,
  its compaction, and its copy in a markdown file. \<^verbatim>\<open>db.Batch\<close> may run a closure more than once;
  where the closure counts into variables of its caller, the buckets of the runs that were rolled
  back are an argument.
\<close>

section \<open>Edits\<close>

definition obsolete :: string where "obsolete = ''~~OBSOLETO~~''"

definition missing_directives :: error where
  "missing_directives = Err ''bucket_directives not found''"

definition SaveDirective :: "string list codec_of \<Rightarrow> ('b, string) bolt \<Rightarrow> string \<Rightarrow> 'b buckets \<Rightarrow> error option \<times> 'b buckets" where
  "SaveDirective C B rule =
     wal_update B (\<lambda>bs. case bs bucketDirectives of
        None \<Rightarrow> Inl missing_directives
      | Some b \<Rightarrow> put_json C B bucketDirectives global_rules (fst (stored_strings C B b global_rules) @ [rule]) bs)"

definition out_of_range :: "int \<Rightarrow> string list \<Rightarrow> error" where
  "out_of_range i rules = Err (''directive_id '' @ dec_int i @ '' out of range (1-'' @ dec (length rules) @ '')'')"

text \<open>An edit of the rule with a number: \<open>f\<close> gives its new text, or \<^const>\<open>None\<close> to leave it.\<close>

definition edit_rule ::
    "string list codec_of \<Rightarrow> ('b, string) bolt \<Rightarrow> int \<Rightarrow> (string \<Rightarrow> string option) \<Rightarrow> 'b buckets \<Rightarrow> error + 'b buckets" where
  "edit_rule C B i f bs =
     (case bs bucketDirectives of
        None \<Rightarrow> Inl missing_directives
      | Some b \<Rightarrow> (case stored_strings C B b global_rules of
            (_, Some e) \<Rightarrow> Inl e
          | (rules, None) \<Rightarrow>
              if i < 1 \<or> int (length rules) < i then Inl (out_of_range i rules)
              else (case f (rules ! nat (i - 1)) of
                  None \<Rightarrow> Inr bs
                | Some r \<Rightarrow> put_json C B bucketDirectives global_rules (rules[nat (i - 1) := r]) bs)))"

definition UpdateDirective ::
    "string list codec_of \<Rightarrow> ('b, string) bolt \<Rightarrow> int \<Rightarrow> string \<Rightarrow> 'b buckets \<Rightarrow> error option \<times> 'b buckets" where
  "UpdateDirective C B i newText = wal_update B (edit_rule C B i (\<lambda>_. Some newText))"

definition deprecated_text :: "int \<Rightarrow> string \<Rightarrow> string option" where
  "deprecated_text deprecatedBy r =
     (if has_prefix r obsolete then None
      else if deprecatedBy > 0 then Some (obsolete @ '' '' @ r @ '' (deprecated_by: '' @ dec_int deprecatedBy @ '')'')
      else Some (obsolete @ '' '' @ r))"

definition DeprecateDirective ::
    "string list codec_of \<Rightarrow> ('b, string) bolt \<Rightarrow> int \<Rightarrow> int \<Rightarrow> 'b buckets \<Rightarrow> error option \<times> 'b buckets" where
  "DeprecateDirective C B i deprecatedBy = wal_update B (edit_rule C B i (deprecated_text deprecatedBy))"

definition GetDirectives :: "string list codec_of \<Rightarrow> ('b, string) bolt \<Rightarrow> 'b buckets \<Rightarrow> string list \<times> error option" where
  "GetDirectives C B = get_strings C B bucketDirectives ''bucket_directives not found'' global_rules"

section \<open>Compaction\<close>

text \<open>\<^verbatim>\<open>end\<close> is the index of the bracket, \<^verbatim>\<open>colon\<close> that of the first colon after it.\<close>

definition extractDirectiveTag :: "string \<Rightarrow> string" where
  "extractDirectiveTag s0 =
     (let s = trim_space s0
      in if s = '''' \<or> hd s \<noteq> CHR ''['' then ''''
         else (case str_index s '']'' of
             None \<Rightarrow> ''''
           | Some i \<Rightarrow>
               (let tag = take (i + 1) s; rest = trim_space (drop (i + 1) s)
                in case str_index rest '':'' of
                     Some colon \<Rightarrow> if 0 < colon \<and> colon < 40 then tag @ '' '' @ take colon rest else tag
                   | None \<Rightarrow> tag)))"

definition live :: "string \<Rightarrow> bool" where
  "live r \<longleftrightarrow> \<not> str_contains r obsolete \<and> trim_space r \<noteq> ''''"

text \<open>The second pass: \<^verbatim>\<open>tagIndex\<close> has the last position of each tag so far.\<close>

fun by_tag :: "nat \<Rightarrow> string list \<Rightarrow> (string \<Rightarrow> nat option) \<times> string list \<times> nat \<Rightarrow> string list \<times> nat" where
  "by_tag i [] (tagIndex, active, removed) = (active, removed)"
| "by_tag i (r # rs) (tagIndex, active, removed) =
     (let tag = extractDirectiveTag r
      in if tag = '''' then by_tag (Suc i) rs (tagIndex, active, removed)
         else (case tagIndex tag of
             Some prev \<Rightarrow> by_tag (Suc i) rs (tagIndex(tag \<mapsto> i), active[prev := ''''], Suc removed)
           | None \<Rightarrow> by_tag (Suc i) rs (tagIndex(tag \<mapsto> i), active, removed)))"

fun exact_dups :: "string list \<Rightarrow> string set \<Rightarrow> string list \<times> nat" where
  "exact_dups [] seen = ([], 0)"
| "exact_dups (r # rs) seen =
     (if r = '''' then exact_dups rs seen
      else if trim_space r \<in> seen then (case exact_dups rs seen of (out, n) \<Rightarrow> (out, Suc n))
      else (case exact_dups rs (insert (trim_space r) seen) of (out, n) \<Rightarrow> (r # out, n)))"

definition compact :: "string list \<Rightarrow> string list \<times> nat" where
  "compact rules =
     (let active = filter live rules;
          (tagged, n) = by_tag 0 active (\<lambda>_. None, active, length rules - length active);
          (compacted, m) = exact_dups tagged {}
      in (compacted, n + m))"

definition compact_tx ::
    "string list codec_of \<Rightarrow> ('b, string) bolt \<Rightarrow> int \<times> int \<Rightarrow> 'b buckets \<Rightarrow> (int \<times> int) \<times> (error + 'b buckets)" where
  "compact_tx C B counts bs =
     (case bs bucketDirectives of
        None \<Rightarrow> (counts, Inl missing_directives)
      | Some b \<Rightarrow> (case stored_strings C B b global_rules of
            (_, Some e) \<Rightarrow> (counts, Inl e)
          | (rules, None) \<Rightarrow> (case compact rules of
                (compacted, n) \<Rightarrow> ((fst counts + int n, int (length compacted)),
                   put_json C B bucketDirectives global_rules compacted bs))))"

definition CompactDirectives ::
    "string list codec_of \<Rightarrow> ('b, string) bolt \<Rightarrow> 'b buckets list \<Rightarrow> 'b buckets \<Rightarrow> (int \<times> int) \<times> error option \<times> 'b buckets" where
  "CompactDirectives C B earlier bs =
     db_update B (compact_tx C B (fold (\<lambda>bs0 counts. fst (compact_tx C B counts bs0)) earlier (0, 0))) bs"

section \<open>The file\<close>

definition synced_header :: string where
  "synced_header = ''# NeoAnvil Synced Directives (auto-generated)'' @ [newline, newline] @
     ''Do not edit manually. Generated by neo_learn_directive via dual-layer sync.'' @ [newline, newline]"

definition synced_line :: "nat \<Rightarrow> string \<Rightarrow> string" where
  "synced_line i rule =
     (if has_prefix rule obsolete then dec (i + 1) @ ''. ~~'' @ trim_prefix rule (obsolete @ '' '') @ ''~~'' @ [newline]
      else dec (i + 1) @ ''. '' @ rule @ [newline])"

definition synced_text :: "string list \<Rightarrow> string" where
  "synced_text rules = synced_header @ concat (List.map (\<lambda>(i, r). synced_line i r) (enumerate 0 rules))"

text \<open>
  \<open>put\<close> is the outcome of writing the file. The second result is the text handed to that write,
  whose error is the first; \<^const>\<open>None\<close> means that nothing is written.
\<close>

definition SyncDirectivesToDisk ::
    "string list codec_of \<Rightarrow> ('b, string) bolt \<Rightarrow> (string \<Rightarrow> error option) \<Rightarrow> 'b buckets \<Rightarrow> error option \<times> string option" where
  "SyncDirectivesToDisk C B put bs =
     (case GetDirectives C B bs of
        (rules, Some e) \<Rightarrow> (Some e, None)
      | (rules, None) \<Rightarrow> if rules = [] then (None, None) else (put (synced_text rules), Some (synced_text rules)))"

definition normalizeDirective :: "string \<Rightarrow> string" where
  "normalizeDirective s =
     trim_space (trim_suffix (trim_prefix (trim_prefix s (obsolete @ '' '')) ''~~'') ''~~'')"

text \<open>The rule a line of the file offers for import.\<close>

definition offered :: "string \<Rightarrow> string option" where
  "offered line =
     (if length line > 3 \<and> is_digit (hd line)
      then (case str_index line ''. '' of
          Some idx \<Rightarrow> if 0 < idx \<and> idx < 5
            then (let rule = drop (idx + 2) line in if has_prefix rule ''~~'' then None else Some rule)
            else None
        | None \<Rightarrow> None)
      else None)"

fun import_lines ::
    "string list codec_of \<Rightarrow> ('b, string) bolt \<Rightarrow> string list \<Rightarrow> string set \<Rightarrow> 'b buckets \<Rightarrow> 'b buckets" where
  "import_lines C B [] known bs = bs"
| "import_lines C B (line # ls) known bs =
     (case offered line of
        None \<Rightarrow> import_lines C B ls known bs
      | Some rule \<Rightarrow>
          (let normalized = normalizeDirective rule
           in if normalized \<notin> known \<and> normalized \<noteq> ''''
              then import_lines C B ls (insert normalized known) (snd (SaveDirective C B rule bs))
              else import_lines C B ls known bs))"

definition LoadDirectivesFromDisk ::
    "string list codec_of \<Rightarrow> ('b, string) bolt \<Rightarrow> string option \<Rightarrow> 'b buckets \<Rightarrow> 'b buckets" where
  "LoadDirectivesFromDisk C B data bs =
     (case data of
        None \<Rightarrow> bs
      | Some text \<Rightarrow> import_lines C B (split_char newline text)
          (set (List.map normalizeDirective (fst (GetDirectives C B bs)))) bs)"

end
