(* ===== verification/Rag_Sessions.thy ===== *)
theory Rag_Sessions
  imports Rag_Docs
begin

text \<open>
  The session buckets of \<^verbatim>\<open>pkg/rag/wal.go\<close>: the files certified by a session, by peers, the agent
  identity and the remediation records. The working directory and the clock are arguments. Paths
  are those of \<open>Neo_Text\<close>. \<^verbatim>\<open>PurgeOldSessions\<close> deletes while it iterates, which bbolt leaves open:
  the keys it comes to are an argument.
\<close>

section \<open>Certified files of a session\<close>

definition bucketSessionState :: string where "bucketSessionState = ''session_state''"

definition GetSessionMutations ::
    "string list codec_of \<Rightarrow> ('b, string) bolt \<Rightarrow> string \<Rightarrow> 'b buckets \<Rightarrow> string list \<times> error option" where
  "GetSessionMutations C B sessionID bs =
     (case bs bucketSessionState of None \<Rightarrow> ([], None) | Some b \<Rightarrow> stored_strings C B b sessionID)"

definition sessionPathAnchoredInWorkspace :: "string option \<Rightarrow> string \<Rightarrow> string \<Rightarrow> bool" where
  "sessionPathAnchoredInWorkspace cwd workspace path =
     (case (abs_segs cwd workspace, abs_segs cwd path) of
        (Some ws, Some ps) \<Rightarrow> \<not> climbs (rel_path ws ps)
      | _ \<Rightarrow> False)"

text \<open>The workspace before the first bar of a session or key, when there is one.\<close>

definition owner :: "string \<Rightarrow> string option" where
  "owner sessionID =
     (case str_index sessionID ''|'' of
        None \<Rightarrow> None
      | Some idx \<Rightarrow> if 0 < idx then Some (take idx sessionID) else None)"

definition ts_key :: "string \<Rightarrow> string" where
  "ts_key sessionID = sessionID @ '':ts''"

definition AppendSessionCertified ::
    "string list codec_of \<Rightarrow> int codec_of \<Rightarrow> ('b, string) bolt \<Rightarrow> string option \<Rightarrow> int \<Rightarrow> string \<Rightarrow> string \<Rightarrow>
      'b buckets \<Rightarrow> error option \<times> 'b buckets" where
  "AppendSessionCertified C T B cwd now sessionID path bs =
     (if (case owner sessionID of None \<Rightarrow> False | Some workspace \<Rightarrow> \<not> sessionPathAnchoredInWorkspace cwd workspace path)
      then (None, bs)
      else wal_update B (\<lambda>bs0.
        (let bs1 = create_if_missing B bucketSessionState bs0
         in case bs1 bucketSessionState of
              None \<Rightarrow> Inl nil_panic
            | Some b \<Rightarrow>
                (let existing = fst (stored_strings C B b sessionID)
                 in if path \<in> set existing then Inr bs1
                    else andthen (put_json C B bucketSessionState sessionID (existing @ [path]) bs1)
                      (put_json T B bucketSessionState (ts_key sessionID) now)))) bs)"

text \<open>
  The rows to rewrite, with what is written, and the number of paths left out. \<open>abs_ws\<close> is the
  workspace as segments; a session whose workspace cannot be made absolute is another's.
\<close>

fun foreign_rows ::
    "string list codec_of \<Rightarrow> string option \<Rightarrow> string list \<Rightarrow> (string \<times> string) list \<Rightarrow> (string \<times> string) list \<times> nat" where
  "foreign_rows C cwd abs_ws [] = ([], 0)"
| "foreign_rows C cwd abs_ws ((key, v) # rows) =
     (case foreign_rows C cwd abs_ws rows of (todo, n) \<Rightarrow>
        if has_suffix key '':ts'' then (todo, n)
        else if (case owner key of None \<Rightarrow> False | Some ws \<Rightarrow> abs_segs cwd ws \<noteq> Some abs_ws) then (todo, n)
        else (case jc_dec C v of
            (_, Some _) \<Rightarrow> (todo, n)
          | (paths, None) \<Rightarrow>
              (let kept = filter (\<lambda>p. case abs_segs cwd p of Some ps \<Rightarrow> \<not> climbs (rel_path abs_ws ps) | None \<Rightarrow> False) paths;
                   k = length paths - length kept
               in if k = 0 then (todo, n)
                  else (case jc_enc C kept of Inl _ \<Rightarrow> (todo, n + k) | Inr data \<Rightarrow> ((key, data) # todo, n + k)))))"

definition foreign_tx ::
    "string list codec_of \<Rightarrow> ('b, string) bolt \<Rightarrow> string option \<Rightarrow> string list \<Rightarrow> nat \<Rightarrow> 'b buckets \<Rightarrow> nat \<times> (error + 'b buckets)" where
  "foreign_tx C B cwd abs_ws removed bs =
     (case bs bucketSessionState of
        None \<Rightarrow> (removed, Inr bs)
      | Some b \<Rightarrow> (case foreign_rows C cwd abs_ws (bk_items B b) of
            (todo, n) \<Rightarrow> (removed + n,
              (case put_each B (\<lambda>k e. e) todo b of
                 Inl e \<Rightarrow> Inl e
               | Inr b' \<Rightarrow> Inr (bs(bucketSessionState \<mapsto> b'))))))"

definition PurgeForeignSessionPaths ::
    "string list codec_of \<Rightarrow> ('b, string) bolt \<Rightarrow> string option \<Rightarrow> string \<Rightarrow> 'b buckets list \<Rightarrow> 'b buckets \<Rightarrow>
      nat \<times> error option \<times> 'b buckets" where
  "PurgeForeignSessionPaths C B cwd workspace earlier bs =
     (if workspace = '''' then (0, None, bs)
      else (case abs_segs cwd workspace of
          None \<Rightarrow> (0, Some (Err ''getwd''), bs)
        | Some abs_ws \<Rightarrow>
            db_update B (foreign_tx C B cwd abs_ws (fold (\<lambda>bs0 n. fst (foreign_tx C B cwd abs_ws n bs0)) earlier 0)) bs))"

fun purge_old ::
    "int codec_of \<Rightarrow> ('b, string) bolt \<Rightarrow> int \<Rightarrow> string list \<Rightarrow> 'b \<Rightarrow> 'b" where
  "purge_old T B cutoff [] b = b"
| "purge_old T B cutoff (key # keys) b =
     (if has_suffix key '':ts'' then purge_old T B cutoff keys b
      else (case bk_get B b (ts_key key) of
          None \<Rightarrow> purge_old T B cutoff keys b
        | Some s \<Rightarrow> (case jc_dec T s of
              (ts, None) \<Rightarrow>
                if ts < cutoff
                then (let b1 = (case bk_delete B b key of Inl _ \<Rightarrow> b | Inr b' \<Rightarrow> b');
                          b2 = (case bk_delete B b1 (ts_key key) of Inl _ \<Rightarrow> b1 | Inr b' \<Rightarrow> b')
                      in purge_old T B cutoff keys b2)
                else purge_old T B cutoff keys b
            | (_, Some _) \<Rightarrow> purge_old T B cutoff keys b)))"

text \<open>\<^verbatim>\<open>time.Now().Add(-maxAge).Unix()\<close> of times in nanoseconds.\<close>

definition cutoff_of :: "int \<Rightarrow> int \<Rightarrow> int" where
  "cutoff_of now_ns maxAge = (now_ns - maxAge) div 1000000000"

definition PurgeOldSessions ::
    "int codec_of \<Rightarrow> ('b, string) bolt \<Rightarrow> (string list \<Rightarrow> string list) \<Rightarrow> int \<Rightarrow> int \<Rightarrow> 'b buckets \<Rightarrow> error option \<times> 'b buckets" where
  "PurgeOldSessions T B visit now_ns maxAge =
     wal_update B (\<lambda>bs. case bs bucketSessionState of
        None \<Rightarrow> Inr bs
      | Some b \<Rightarrow> Inr (bs(bucketSessionState \<mapsto>
          purge_old T B (cutoff_of now_ns maxAge) (visit (List.map fst (bk_items B b))) b)))"

definition agentIDKey :: string where "agentIDKey = ''__session_agent_id__''"

definition SetSessionAgentID :: "('b, string) bolt \<Rightarrow> string \<Rightarrow> 'b buckets \<Rightarrow> error option \<times> 'b buckets" where
  "SetSessionAgentID B i =
     wal_update B (\<lambda>bs. tx_put B bucketSessionState agentIDKey i (create_if_missing B bucketSessionState bs))"

definition GetSessionAgentID :: "('b, string) bolt \<Rightarrow> 'b buckets \<Rightarrow> string" where
  "GetSessionAgentID B bs =
     (case bs bucketSessionState of
        None \<Rightarrow> ''''
      | Some b \<Rightarrow> (case bk_get B b agentIDKey of None \<Rightarrow> '''' | Some v \<Rightarrow> v))"

section \<open>Files certified by peers\<close>

definition bucketPeerSession :: string where "bucketPeerSession = ''peer_session_state''"

record peerSessionEntry =
  pe_File :: string
  pe_CertifiedAt :: int

text \<open>The first entry of the file gets the new time and stays where it is.\<close>

fun retime :: "string \<Rightarrow> int \<Rightarrow> peerSessionEntry list \<Rightarrow> peerSessionEntry list option" where
  "retime fl t [] = None"
| "retime fl t (e # es) =
     (if pe_File e = fl then Some (e\<lparr>pe_CertifiedAt := t\<rparr> # es) else map_option (\<lambda>es'. e # es') (retime fl t es))"

definition peer_entries :: "string \<Rightarrow> int \<Rightarrow> int \<Rightarrow> peerSessionEntry list \<Rightarrow> peerSessionEntry list" where
  "peer_entries fl certifiedAt cap entries =
     (case retime fl certifiedAt entries of
        Some es \<Rightarrow> es
      | None \<Rightarrow>
          (let es = entries @ [\<lparr>pe_File = fl, pe_CertifiedAt = certifiedAt\<rparr>]
           in if int (length es) > cap then drop (length es - nat cap) es else es))"

definition StorePeerSessionMutation ::
    "peerSessionEntry list codec_of \<Rightarrow> ('b, string) bolt \<Rightarrow> string \<Rightarrow> string \<Rightarrow> int \<Rightarrow> int \<Rightarrow> 'b buckets \<Rightarrow> error option \<times> 'b buckets" where
  "StorePeerSessionMutation P B peerWSID fl certifiedAt cap0 =
     (let cap = (if cap0 \<le> 0 then 50 else cap0)
      in wal_update B (\<lambda>bs0.
        (let bs1 = create_if_missing B bucketPeerSession bs0
         in case bs1 bucketPeerSession of
              None \<Rightarrow> Inl nil_panic
            | Some b \<Rightarrow>
                (let entries = (case bk_get B b peerWSID of None \<Rightarrow> [] | Some v \<Rightarrow> fst (jc_dec P v))
                 in put_json P B bucketPeerSession peerWSID (peer_entries fl certifiedAt cap entries) bs1))))"

definition GetAllPeerSessionMutations ::
    "peerSessionEntry list codec_of \<Rightarrow> ('b, string) bolt \<Rightarrow> 'b buckets \<Rightarrow> (string \<times> string list) list" where
  "GetAllPeerSessionMutations P B bs =
     (case bs bucketPeerSession of
        None \<Rightarrow> []
      | Some b \<Rightarrow> List.map_filter (\<lambda>(k, v). case jc_dec P v of
            (entries, None) \<Rightarrow> Some (k, List.map pe_File entries)
          | (_, Some _) \<Rightarrow> None) (bk_items B b))"

section \<open>Remediations\<close>

definition bucketRemediations :: string where "bucketRemediations = ''remediations''"

record RemediationRecord =
  rr_SessionID :: string
  rr_File :: string
  rr_Rule :: string
  rr_AutoApplied :: bool
  rr_At :: int

definition remediation_key :: "RemediationRecord \<Rightarrow> string" where
  "remediation_key rec = rr_SessionID rec @ '':'' @ rr_File rec @ '':'' @ dec_int (rr_At rec)"

definition AppendRemediation ::
    "RemediationRecord codec_of \<Rightarrow> ('b, string) bolt \<Rightarrow> RemediationRecord \<Rightarrow> 'b buckets \<Rightarrow> error option \<times> 'b buckets" where
  "AppendRemediation R B rec =
     wal_update B (\<lambda>bs. put_json R B bucketRemediations (remediation_key rec) rec (create_if_missing B bucketRemediations bs))"

definition GetSessionRemediations ::
    "RemediationRecord codec_of \<Rightarrow> ('b, string) bolt \<Rightarrow> string \<Rightarrow> 'b buckets \<Rightarrow> RemediationRecord list" where
  "GetSessionRemediations R B sessionID bs =
     (case bs bucketRemediations of
        None \<Rightarrow> []
      | Some b \<Rightarrow> List.map_filter (\<lambda>(k, v).
          if has_prefix k (sessionID @ '':'')
          then (case jc_dec R v of (rec, None) \<Rightarrow> Some rec | (_, Some _) \<Rightarrow> None)
          else None) (bk_items B b))"

end
