(* ===== verification/Rag_SessionProps.thy ===== *)
theory Rag_SessionProps
  imports Rag_Sessions
begin

text \<open>
  What the session bucket holds after any history of its operations: for every session a list of
  different files, each certified in that session and each below the workspace of the session.
\<close>

section \<open>Rows that satisfy a predicate\<close>

definition rows_inv :: "('b, 'v) bolt \<Rightarrow> (string \<Rightarrow> 'v \<Rightarrow> bool) \<Rightarrow> 'b buckets \<Rightarrow> bool" where
  "rows_inv B Q bs \<longleftrightarrow> (\<forall>b k v. bs bucketSessionState = Some b \<and> bk_get B b k = Some v \<longrightarrow> Q k v)"

lemma wal_update_changed: "wal_update B f bs = (e, bs') \<Longrightarrow> bs' \<noteq> bs \<Longrightarrow> e = None \<and> f bs = Inr bs'"
  using wal_update_error [of B f bs _ bs'] by (cases e) (auto simp: wal_update_ok)

lemma db_update_changed: "db_update B f bs = (r, e, bs') \<Longrightarrow> bs' \<noteq> bs \<Longrightarrow> e = None \<and> f bs = (r, Inr bs')"
  using db_update_error [of B f bs r _ bs'] by (cases e) (auto simp: db_update_ok)

context bolt_bucket
begin

lemma rows_inv_missing: "rows_inv B Q bs \<Longrightarrow> rows_inv B Q (create_if_missing B bucketSessionState bs)"
  by (auto simp: rows_inv_def create_if_missing_def get_items items_empty split: option.splits)

lemma rows_inv_put:
  assumes "rows_inv B Q bs" "tx_put B bucketSessionState k v bs = Inr bs'" "Q k v"
  shows "rows_inv B Q bs'"
  using assms by (auto simp: rows_inv_def tx_put_def get_after_put split: option.splits sum.splits if_splits)

lemma rows_inv_put_each:
  assumes "\<forall>k v. bk_get B b k = Some v \<longrightarrow> Q k v" "put_each B w kvs b = Inr b'" "\<forall>(k, v)\<in>set kvs. Q k v" "bk_get B b' k = Some v"
  shows "Q k v"
proof -
  have "(map_of (bk_items B b) ++ map_of (rev kvs)) k = Some v"
    using put_each_map [OF assms(2)] assms(4) by (simp add: get_items)
  then consider "map_of (rev kvs) k = Some v" | "bk_get B b k = Some v" by (auto simp: map_add_Some_iff get_items)
  then show ?thesis
  proof cases
    case 1
    then have "(k, v) \<in> set kvs" using map_of_SomeD [OF 1] by simp
    then show ?thesis using assms(3) by auto
  qed (use assms(1) in blast)
qed

lemma delete_shrinks: "bk_delete B b k = Inr b' \<Longrightarrow> bk_get B b' j = Some v \<Longrightarrow> bk_get B b j = Some v"
  by (auto simp: get_items delete_map split: if_splits)

end

section \<open>The rows of the sessions\<close>

definition below :: "string option \<Rightarrow> string \<Rightarrow> string \<Rightarrow> bool" where
  "below cwd ws p \<longleftrightarrow> (\<exists>w us. abs_segs cwd ws = Some w \<and> abs_segs cwd p = Some (w @ us))"

lemma abs_segs_ok: "abs_segs cwd p = Some segs \<Longrightarrow> list_all proper segs"
  by (auto simp: abs_segs_def clean_segs_ok split: if_splits)

lemma anchored_below: "sessionPathAnchoredInWorkspace cwd ws p \<longleftrightarrow> below cwd ws p"
  using rel_path_below [OF abs_segs_ok]
  by (fastforce simp: sessionPathAnchoredInWorkspace_def below_def split: option.splits)

definition plain_session :: "string \<Rightarrow> bool" where
  "plain_session sid \<longleftrightarrow> \<not> has_suffix sid '':ts'' \<and> sid \<noteq> agentIDKey"

definition session_row :: "string list codec_of \<Rightarrow> string option \<Rightarrow> (string \<times> string) set \<Rightarrow> string \<Rightarrow> string \<Rightarrow> bool" where
  "session_row C cwd log k v \<longleftrightarrow>
     (plain_session k \<longrightarrow> (\<exists>paths. jc_dec C v = (paths, None) \<and> distinct paths \<and> set paths \<subseteq> {p. (k, p) \<in> log} \<and>
        (\<forall>ws. owner k = Some ws \<longrightarrow> (\<forall>p\<in>set paths. below cwd ws p))))"

lemma session_row_mono: "session_row C cwd log k v \<Longrightarrow> log \<subseteq> log' \<Longrightarrow> session_row C cwd log' k v"
  unfolding session_row_def by blast

lemma rows_inv_mono: "rows_inv B (session_row C cwd log) bs \<Longrightarrow> log \<subseteq> log' \<Longrightarrow> rows_inv B (session_row C cwd log') bs"
  unfolding rows_inv_def using session_row_mono by blast

lemma ts_not_plain: "\<not> plain_session (ts_key sid)"
  by (simp add: plain_session_def ts_key_def has_suffix_iff)

text \<open>Every operation, with the files certified so far.\<close>

inductive session_history ::
    "string list codec_of \<Rightarrow> int codec_of \<Rightarrow> ('b, string) bolt \<Rightarrow> string option \<Rightarrow> 'b buckets \<times> (string \<times> string) set \<Rightarrow> bool"
  for C T B cwd where
  start: "bs bucketSessionState = None \<Longrightarrow> session_history C T B cwd (bs, {})"
| certify: "session_history C T B cwd (bs, log) \<Longrightarrow> plain_session sid \<Longrightarrow>
    AppendSessionCertified C T B cwd now sid path bs = (e, bs') \<Longrightarrow> session_history C T B cwd (bs', insert (sid, path) log)"
| purge_foreign: "session_history C T B cwd (bs, log) \<Longrightarrow>
    PurgeForeignSessionPaths C B cwd workspace earlier bs = (n, e, bs') \<Longrightarrow> session_history C T B cwd (bs', log)"
| purge_old: "session_history C T B cwd (bs, log) \<Longrightarrow> PurgeOldSessions T B visit now maxAge bs = (e, bs') \<Longrightarrow>
    session_history C T B cwd (bs', log)"
| agent: "session_history C T B cwd (bs, log) \<Longrightarrow> SetSessionAgentID B i bs = (e, bs') \<Longrightarrow> session_history C T B cwd (bs', log)"

lemma foreign_rows_origin:
  assumes "(k, d) \<in> set (fst (foreign_rows C cwd abs_ws rows))"
  shows "\<exists>v paths. (k, v) \<in> set rows \<and> jc_dec C v = (paths, None) \<and>
    (\<exists>P. jc_enc C (filter P paths) = Inr d)"
  using assms
proof (induction rows)
  case (Cons row rows)
  obtain key v where row: "row = (key, v)" by fastforce
  obtain todo n where rest: "foreign_rows C cwd abs_ws rows = (todo, n)" by fastforce
  obtain paths err where dec: "jc_dec C v = (paths, err)" by fastforce
  let ?P = "\<lambda>p. case abs_segs cwd p of Some ps \<Rightarrow> \<not> climbs (rel_path abs_ws ps) | None \<Rightarrow> False"
  have "(k, d) \<in> set todo \<or> (k = key \<and> err = None \<and> jc_enc C (filter ?P paths) = Inr d)"
    using Cons.prems unfolding row
    by (auto simp: rest dec Let_def split: if_splits option.splits sum.splits)
  then show ?case
  proof
    assume "(k, d) \<in> set todo"
    then show ?thesis using Cons.IH by (auto simp: rest)
  next
    assume "k = key \<and> err = None \<and> jc_enc C (filter ?P paths) = Inr d"
    then show ?thesis using row dec by auto
  qed
qed simp

locale session_store = bolt_bucket B for B :: "('b, string) bolt" +
  fixes C :: "string list codec_of" and keeps Z
  assumes codec: "json_codec C keeps" and kept: "set xs \<subseteq> Z \<Longrightarrow> keeps xs"
begin

lemma purge_old_shrinks: "bk_get B (purge_old T B cutoff keys b) k = Some v \<Longrightarrow> bk_get B b k = Some v"
proof (induction keys arbitrary: b)
  case (Cons key keys)
  have one: "bk_get B (case bk_delete B c j of Inl e \<Rightarrow> c | Inr b' \<Rightarrow> b') k = Some v \<Longrightarrow> bk_get B c k = Some v" for c j
    by (auto dest: delete_shrinks split: sum.splits)
  show ?case
    using Cons.prems by (auto simp: Let_def split: if_splits option.splits prod.splits dest!: Cons.IH one)
qed simp

lemma rows_inv_old:
  assumes "rows_inv B Q bs" "PurgeOldSessions T B visit now maxAge bs = (e, bs')"
  shows "rows_inv B Q bs'"
proof (cases "bs' = bs")
  case False
  with wal_update_changed [OF assms(2) [unfolded PurgeOldSessions_def]] obtain b keys where
    b: "bs bucketSessionState = Some b" "bs' = bs(bucketSessionState \<mapsto> purge_old T B (cutoff_of now maxAge) keys b)"
    by (auto split: option.splits)
  then show ?thesis using assms(1) purge_old_shrinks [of T "cutoff_of now maxAge" keys b] by (auto simp: rows_inv_def)
qed (use assms(1) in simp)

lemma decoded: "set xs \<subseteq> Z \<Longrightarrow> jc_enc C xs = Inr s \<Longrightarrow> jc_dec C s = (xs, None)"
  using json_codec.dec_enc [OF codec] kept by blast

lemma certify_inv:
  assumes "rows_inv B (session_row C cwd log) bs" "plain_session sid" "snd ` log \<subseteq> Z" "path \<in> Z"
    "AppendSessionCertified C T B cwd now sid path bs = (e, bs')"
  shows "rows_inv B (session_row C cwd (insert (sid, path) log)) bs'"
proof -
  let ?Q = "session_row C cwd (insert (sid, path) log)"
  have q: "rows_inv B ?Q bs" by (rule rows_inv_mono [OF assms(1)]) blast
  show ?thesis
  proof (cases "bs' = bs")
    case False
    have own: "below cwd ws path" if "owner sid = Some ws" for ws
      using assms(5) False that by (auto simp: AppendSessionCertified_def anchored_below split: if_splits)
    let ?bs1 = "create_if_missing B bucketSessionState bs"
    have q1: "rows_inv B ?Q ?bs1" by (rule rows_inv_missing [OF q])
    have "wal_update B (\<lambda>bs0. let bs1 = create_if_missing B bucketSessionState bs0
         in case bs1 bucketSessionState of None \<Rightarrow> Inl nil_panic
            | Some b \<Rightarrow> (let existing = fst (stored_strings C B b sid)
                 in if path \<in> set existing then Inr bs1
                    else andthen (put_json C B bucketSessionState sid (existing @ [path]) bs1)
                      (put_json T B bucketSessionState (ts_key sid) now))) bs = (e, bs')"
      using assms(5) False by (simp add: AppendSessionCertified_def split: if_splits)
    from wal_update_changed [OF this False] obtain b where b: "?bs1 bucketSessionState = Some b"
      and body: "(if path \<in> set (fst (stored_strings C B b sid)) then Inr ?bs1
         else andthen (put_json C B bucketSessionState sid (fst (stored_strings C B b sid) @ [path]) ?bs1)
           (put_json T B bucketSessionState (ts_key sid) now)) = Inr bs'"
      by (auto simp: Let_def split: option.splits)
    show ?thesis
    proof (cases "path \<in> set (fst (stored_strings C B b sid))")
      case True
      then show ?thesis using body q1 by simp
    next
      case new: False
      then obtain bs2 where p: "put_json C B bucketSessionState sid (fst (stored_strings C B b sid) @ [path]) ?bs1 = Inr bs2"
        "put_json T B bucketSessionState (ts_key sid) now bs2 = Inr bs'" using body by auto
      let ?old = "fst (stored_strings C B b sid)"
      have old: "distinct ?old \<and> set ?old \<subseteq> {p. (sid, p) \<in> insert (sid, path) log} \<and> (\<forall>ws. owner sid = Some ws \<longrightarrow> (\<forall>p\<in>set ?old. below cwd ws p))"
      proof (cases "bk_get B b sid")
        case None
        then show ?thesis by (simp add: stored_strings_def)
      next
        case (Some v)
        then have "?Q sid v" using q1 b by (auto simp: rows_inv_def)
        then show ?thesis using assms(2) Some by (auto simp: session_row_def stored_strings_def)
      qed
      have "set (?old @ [path]) \<subseteq> Z" using old assms(3,4) by force
      then have row: "?Q sid data" if "jc_enc C (?old @ [path]) = Inr data" for data
        using decoded [OF _ that] old new own by (auto simp: session_row_def)
      obtain data where d: "jc_enc C (?old @ [path]) = Inr data" "tx_put B bucketSessionState sid data ?bs1 = Inr bs2"
        using p(1) by (auto simp: put_json_def)
      have "rows_inv B ?Q bs2" by (rule rows_inv_put [OF q1 d(2) row [OF d(1)]])
      moreover obtain ts where "tx_put B bucketSessionState (ts_key sid) ts bs2 = Inr bs'" using p(2) by (auto simp: put_json_def)
      ultimately show ?thesis using ts_not_plain by (auto intro: rows_inv_put simp: session_row_def)
    qed
  qed (use q in simp)
qed

lemma foreign_inv:
  assumes "rows_inv B (session_row C cwd log) bs" "snd ` log \<subseteq> Z" "PurgeForeignSessionPaths C B cwd workspace earlier bs = (n, e, bs')"
  shows "rows_inv B (session_row C cwd log) bs'"
proof (cases "bs' = bs")
  case False
  obtain abs_ws m where "db_update B (foreign_tx C B cwd abs_ws m) bs = (n, e, bs')"
    using assms(3) False by (auto simp: PurgeForeignSessionPaths_def split: if_splits option.splits)
  from db_update_changed [OF this False] have "foreign_tx C B cwd abs_ws m bs = (n, Inr bs')" ..
  then obtain b todo b' where b: "bs bucketSessionState = Some b" "fst (foreign_rows C cwd abs_ws (bk_items B b)) = todo"
      "put_each B (\<lambda>k e. e) todo b = Inr b'" "bs' = bs(bucketSessionState \<mapsto> b')"
    using False by (auto simp: foreign_tx_def split: option.splits prod.splits sum.splits)
  have old: "\<forall>k v. bk_get B b k = Some v \<longrightarrow> session_row C cwd log k v" using assms(1) b(1) by (auto simp: rows_inv_def)
  have new: "\<forall>(k, d)\<in>set todo. session_row C cwd log k d"
  proof (intro ballI, clarify)
    fix k d
    assume "(k, d) \<in> set todo"
    then have "(k, d) \<in> set (fst (foreign_rows C cwd abs_ws (bk_items B b)))" by (simp only: b(2))
    from foreign_rows_origin [OF this] obtain v paths P where o: "(k, v) \<in> set (bk_items B b)" "jc_dec C v = (paths, None)"
      "jc_enc C (filter P paths) = Inr d" by (elim exE conjE)
    have "bk_get B b k = Some v" unfolding get_items by (rule map_of_is_SomeI [OF items_distinct o(1)])
    then have row: "session_row C cwd log k v" using old by blast
    show "session_row C cwd log k d"
    proof (cases "plain_session k")
      case True
      then have p: "distinct paths" "set paths \<subseteq> {p. (k, p) \<in> log}" "\<forall>ws. owner k = Some ws \<longrightarrow> (\<forall>p\<in>set paths. below cwd ws p)"
        using row o(2) by (simp_all add: session_row_def)
      have "snd ` {(a, q). (a, q) \<in> log} \<subseteq> Z" using assms(2) by simp
      then have "set (filter P paths) \<subseteq> Z" using p(2) assms(2) by force
      from decoded [OF this o(3)] have d: "jc_dec C d = (filter P paths, None)" .
      show ?thesis unfolding session_row_def
        by (intro impI exI [of _ "filter P paths"] conjI d) (use p in auto)
    qed (simp add: session_row_def)
  qed
  show ?thesis using rows_inv_put_each [OF old b(3) new] b(4) by (auto simp: rows_inv_def)
qed (use assms(1) in simp)

lemma history_inv:
  assumes "session_history C T B cwd st" "snd ` snd st \<subseteq> Z"
  shows "rows_inv B (session_row C cwd (snd st)) (fst st)"
  using assms
proof (induction rule: session_history.induct)
  case (start bs)
  then show ?case by (simp add: rows_inv_def)
next
  case (certify bs log sid now path e bs')
  then show ?case using certify_inv [of cwd log bs sid path T now e bs'] by auto
next
  case (purge_foreign bs log workspace earlier n e bs')
  then show ?case using foreign_inv by auto
next
  case (purge_old bs log visit now maxAge e bs')
  then show ?case using rows_inv_old by auto
next
  case (agent bs log i e bs')
  let ?Q = "session_row C cwd log"
  have q: "rows_inv B ?Q (create_if_missing B bucketSessionState bs)" using agent by (auto intro: rows_inv_missing)
  show ?case
  proof (cases e)
    case None
    then have "tx_put B bucketSessionState agentIDKey i (create_if_missing B bucketSessionState bs) = Inr bs'"
      using agent.hyps(2) by (simp add: SetSessionAgentID_def wal_update_ok)
    from rows_inv_put [OF q this] have "rows_inv B ?Q bs'" by (simp add: session_row_def plain_session_def)
    then show ?thesis by simp
  next
    case (Some x)
    then have "bs' = bs" using agent.hyps(2) by (auto simp: SetSessionAgentID_def intro: wal_update_error)
    then show ?thesis using agent by simp
  qed
qed

end

interpretation lsession: session_store "list_bolt :: ((string \<times> string) list, string) bolt" strings_codec "\<lambda>_. True" UNIV
  by unfold_locales (simp_all add: lstrings.json_codec_axioms)


text \<open>
  C32: After any history of certifications, clean-ups of foreign paths, expiry of old sessions and
  changes of the agent identity, failures and interrupted expiries included, what a session is
  recorded to have certified is a list of different files, each certified in that session and,
  when the session names its workspace, each at or below that workspace.
\<close>

theorem session_paths_owned:
  assumes "bolt_bucket B" "json_codec C keeps" "\<forall>xs. set xs \<subseteq> Z \<longrightarrow> keeps xs" "snd ` log \<subseteq> Z"
    "session_history C T B cwd (bs, log)" "plain_session sid"
  shows "\<exists>paths. GetSessionMutations C B sid bs = (paths, None) \<and> distinct paths \<and> set paths \<subseteq> {p. (sid, p) \<in> log} \<and>
    (\<forall>ws p. owner sid = Some ws \<and> p \<in> set paths \<longrightarrow>
       (\<exists>w us. abs_segs cwd ws = Some w \<and> abs_segs cwd p = Some (w @ us)))"
proof -
  have "session_store B C keeps Z"
    using assms(1-3) by (simp add: session_store_def session_store_axioms_def)
  from session_store.history_inv [OF this assms(5)] assms(4)
  have inv: "rows_inv B (session_row C cwd log) bs" by simp
  show ?thesis
  proof (cases "bs bucketSessionState")
    case None
    then show ?thesis by (simp add: GetSessionMutations_def)
  next
    case (Some b)
    show ?thesis
    proof (cases "bk_get B b sid")
      case None
      then show ?thesis using Some by (simp add: GetSessionMutations_def stored_strings_def)
    next
      case v: (Some v)
      then have "session_row C cwd log sid v" using inv Some by (auto simp: rows_inv_def)
      then obtain paths where "jc_dec C v = (paths, None)" "distinct paths" "set paths \<subseteq> {p. (sid, p) \<in> log}"
        "\<forall>ws. owner sid = Some ws \<longrightarrow> (\<forall>p\<in>set paths. below cwd ws p)"
        using assms(6) unfolding session_row_def by blast
      then show ?thesis using Some v by (auto simp: GetSessionMutations_def stored_strings_def below_def)
    qed
  qed
qed

definition demo_ints :: "int codec_of" where
  "demo_ints = \<lparr>jc_enc = (\<lambda>i. Inr (dec_int i)), jc_dec = (\<lambda>s. (0, None))\<rparr>"

definition demo_session :: string where "demo_session = ''/w|7''"

definition after_certify :: "string \<Rightarrow> (string \<times> string) list buckets \<Rightarrow> (string \<times> string) list buckets" where
  "after_certify path bs = snd (AppendSessionCertified strings_codec demo_ints list_bolt None 3 demo_session path bs)"

theorem session_paths_owned_witness:
  "\<exists>paths. GetSessionMutations strings_codec list_bolt demo_session (after_certify ''/v/b'' (after_certify ''/w/a'' (\<lambda>_. None))) = (paths, None) \<and>
     distinct paths \<and> paths = [''/w/a'']"
proof -
  let ?bs = "after_certify ''/v/b'' (after_certify ''/w/a'' (\<lambda>_. None))"
  have plain: "plain_session demo_session" unfolding plain_session_def demo_session_def agentIDKey_def by code_simp
  have step: "session_history strings_codec demo_ints list_bolt None (after_certify p bs, insert (demo_session, p) log)"
    if "session_history strings_codec demo_ints list_bolt None (bs, log)" for p bs log
    unfolding after_certify_def by (rule session_history.certify [OF that plain prod.collapse [symmetric]])
  have "session_history strings_codec demo_ints list_bolt None (?bs, insert (demo_session, ''/v/b'') (insert (demo_session, ''/w/a'') {}))"
    by (intro step session_history.start) simp
  from session_paths_owned [OF lbolt.bolt_bucket_axioms lstrings.json_codec_axioms _ _ this plain, of UNIV]
  obtain paths where p: "GetSessionMutations strings_codec list_bolt demo_session ?bs = (paths, None)" "distinct paths" by auto
  have key: "demo_session \<noteq> ''''" "length demo_session = 4" "ts_key demo_session \<noteq> ''''" "length (ts_key demo_session) = 7"
    "ts_key demo_session \<noteq> demo_session" "demo_session \<noteq> ts_key demo_session"
    "demo_session < ts_key demo_session" "\<not> ts_key demo_session < demo_session"
    by (simp_all add: demo_session_def ts_key_def)
  have anch: "sessionPathAnchoredInWorkspace None ''/w'' ''/w/a''" "\<not> sessionPathAnchoredInWorkspace None ''/w'' ''/v/b''"
    and own: "owner demo_session = Some ''/w''"
    unfolding demo_session_def by code_simp+
  have "GetSessionMutations strings_codec list_bolt demo_session ?bs = ([''/w/a''], None)"
    by (simp add: after_certify_def AppendSessionCertified_def own anch wal_update_def db_update_def create_if_missing_def Let_def
        GetSessionMutations_def stored_strings_def put_json_def tx_put_def list_bolt_def key strings_codec_def demo_ints_def
        list_ok_def mark_string_def)
  then show ?thesis using p by simp
qed


section \<open>Peers and remediations\<close>

lemma retime_None: "retime fl t es = None \<longleftrightarrow> fl \<notin> pe_File ` set es"
  by (induction es) (auto simp: image_iff)

lemma retime_Some: "retime fl t es = Some es' \<Longrightarrow> List.map pe_File es' = List.map pe_File es"
  by (induction es arbitrary: es') (auto split: if_splits)

lemma peer_entries_ok:
  assumes "distinct (List.map pe_File es)" "int (length es) \<le> cap" "0 < cap"
  shows "distinct (List.map pe_File (peer_entries fl t cap es))" "int (length (peer_entries fl t cap es)) \<le> cap"
    "fl \<in> pe_File ` set (peer_entries fl t cap es)"
proof -
  show "distinct (List.map pe_File (peer_entries fl t cap es))"
    using assms(1) retime_None [of fl t es] retime_Some [of fl t es]
    by (auto simp: peer_entries_def Let_def distinct_drop drop_map [symmetric] dest!: in_set_dropD split: option.splits)
  show "int (length (peer_entries fl t cap es)) \<le> cap"
  proof (cases "retime fl t es")
    case (Some es')
    have "length es' = length es" using arg_cong [OF retime_Some [OF Some], of length] by simp
    then show ?thesis using assms(2) by (simp add: peer_entries_def Some)
  qed (use assms(2,3) in \<open>simp add: peer_entries_def Let_def\<close>)
  show "fl \<in> pe_File ` set (peer_entries fl t cap es)"
  proof (cases "retime fl t es")
    case None
    have "nat cap \<noteq> 0" using assms(3) by simp
    then show ?thesis using None assms(2) by (simp add: peer_entries_def Let_def)
  next
    case (Some es')
    then have "fl \<in> pe_File ` set es" using retime_None [of fl t es] by auto
    then have "fl \<in> set (List.map pe_File es')" unfolding retime_Some [OF Some] by simp
    then show ?thesis by (simp add: peer_entries_def Some)
  qed
qed

text \<open>
  The entry dropped first is the one longest in the list, not the one certified longest ago: a
  file certified again keeps its place and goes before one that was not.
\<close>

lemma recertified_goes_first:
  "peer_entries ''c'' 4 2 (peer_entries ''a'' 3 2 (peer_entries ''b'' 2 2 (peer_entries ''a'' 1 2 []))) =
   [\<lparr>pe_File = ''b'', pe_CertifiedAt = 2\<rparr>, \<lparr>pe_File = ''c'', pe_CertifiedAt = 4\<rparr>]"
  by (simp add: peer_entries_def)

text \<open>The key of a remediation does not name its rule: two rules in one file in one second share a row.\<close>

lemma remediation_key_without_rule: "remediation_key (rec\<lparr>rr_Rule := r, rr_AutoApplied := a\<rparr>) = remediation_key rec"
  by (simp add: remediation_key_def)

end
