(* ===== verification/Rag_Merkle.thy ===== *)
theory Rag_Merkle
  imports Rag_Wal
begin

text \<open>
  The hash trees over the buckets of the log, \<^verbatim>\<open>pkg/rag/merkle.go\<close>: a complete binary tree in a
  flat list, numbered as a heap, its digest, the walk that compares it with the hashes of a peer,
  and the export and import of key ranges. SHA-256 is an argument.
\<close>

section \<open>Hexadecimal\<close>

text \<open>\<^verbatim>\<open>hex.EncodeToString\<close> and \<^verbatim>\<open>hex.DecodeString\<close>; the code ignores the error of the latter and goes on with what was decoded before it.\<close>

definition hex_encode :: "string \<Rightarrow> string" where
  "hex_encode s = concat (List.map (\<lambda>c. hex_pad 2 (of_char c)) s)"

definition hex_val :: "char \<Rightarrow> nat option" where
  "hex_val c = (let n = of_char c in
     if 48 \<le> n \<and> n \<le> 57 then Some (n - 48)
     else if 97 \<le> n \<and> n \<le> 102 then Some (n - 87)
     else if 65 \<le> n \<and> n \<le> 70 then Some (n - 55) else None)"

fun hex_decode :: "string \<Rightarrow> string \<times> bool" where
  "hex_decode [] = ('''', True)"
| "hex_decode [a] = ('''', False)"
| "hex_decode (a # b # s) =
     (case (hex_val a, hex_val b) of
        (Some x, Some y) \<Rightarrow> (case hex_decode s of (r, ok) \<Rightarrow> (char_of (16 * x + y) # r, ok))
      | _ \<Rightarrow> ('''', False))"

section \<open>Trees\<close>

record MerkleNode =
  mn_Hash :: string
  mn_KeyStart :: string
  mn_KeyEnd :: string
  mn_IsLeaf :: bool

record MerkleTree =
  mt_Nodes :: "MerkleNode list"
  mt_LeafCount :: nat
  mt_BucketName :: string

record MerkleDigest =
  md_BucketName :: string
  md_RootHash :: string
  md_LeafCount :: nat
  md_Depth :: nat

record MerkleDiff =
  df_BucketName :: string
  df_NodeIndex :: nat
  df_KeyStart :: string
  df_KeyEnd :: string
  df_LocalHash :: string
  df_RemoteHash :: string

function doubled :: "nat \<Rightarrow> nat \<Rightarrow> nat" where
  "doubled p n = (if 0 < p \<and> p < n then doubled (2 * p) n else p)"
  by pat_completeness auto
termination by (relation "measure (\<lambda>(p, n). n - p)") auto

declare doubled.simps [simp del]

definition nextPow2 :: "nat \<Rightarrow> nat" where
  "nextPow2 n = doubled 1 n"

fun treeDepth :: "nat \<Rightarrow> nat" where
  "treeDepth n = (if n > 1 then Suc (treeDepth (n div 2)) else 0)"

declare treeDepth.simps [simp del]

definition zero_hash :: string where
  "zero_hash = replicate 32 (CHR 0x00)"

definition leaf :: "(string \<Rightarrow> string) \<Rightarrow> string \<times> string \<Rightarrow> MerkleNode" where
  "leaf sha kv = \<lparr>mn_Hash = sha (fst kv @ snd kv), mn_KeyStart = fst kv, mn_KeyEnd = fst kv, mn_IsLeaf = True\<rparr>"

definition padding :: MerkleNode where
  "padding = \<lparr>mn_Hash = zero_hash, mn_KeyStart = '''', mn_KeyEnd = '''', mn_IsLeaf = True\<rparr>"

definition parent :: "(string \<Rightarrow> string) \<Rightarrow> MerkleNode \<Rightarrow> MerkleNode \<Rightarrow> MerkleNode" where
  "parent sha left right =
     \<lparr>mn_Hash = sha (mn_Hash left @ mn_Hash right), mn_KeyStart = mn_KeyStart left,
      mn_KeyEnd = (if mn_KeyEnd right = '''' then mn_KeyEnd left else mn_KeyEnd right), mn_IsLeaf = False\<rparr>"

text \<open>The nodes below index \<open>i\<close>, from the last to the first.\<close>

fun build_up :: "(string \<Rightarrow> string) \<Rightarrow> nat \<Rightarrow> MerkleNode list \<Rightarrow> MerkleNode list" where
  "build_up sha 0 t = t"
| "build_up sha (Suc i) t = build_up sha i (t[i := parent sha (t ! (2 * i + 1)) (t ! (2 * i + 2))])"

definition padded :: "(string \<Rightarrow> string) \<Rightarrow> (string \<times> string) list \<Rightarrow> MerkleNode list" where
  "padded sha rows = List.map (leaf sha) rows @ replicate (nextPow2 (length rows) - length rows) padding"

definition merkle_nodes :: "(string \<Rightarrow> string) \<Rightarrow> (string \<times> string) list \<Rightarrow> MerkleNode list" where
  "merkle_nodes sha rows =
     (if rows = [] then []
      else (let n = nextPow2 (length rows)
            in build_up sha (n - 1) (replicate (n - 1) (padding\<lparr>mn_Hash := zero_hash, mn_IsLeaf := False\<rparr>) @ padded sha rows)))"

definition BuildMerkleTree ::
    "(string \<Rightarrow> string) \<Rightarrow> ('b, string) bolt \<Rightarrow> string \<Rightarrow> 'b buckets \<Rightarrow> error + MerkleTree" where
  "BuildMerkleTree sha B name bs =
     (case bs name of
        None \<Rightarrow> Inl (Err (''bucket not found: '' @ name))
      | Some b \<Rightarrow> (let rows = bk_items B b in
          Inr \<lparr>mt_Nodes = merkle_nodes sha rows, mt_LeafCount = (if rows = [] then 0 else nextPow2 (length rows)),
               mt_BucketName = name\<rparr>))"

definition Digest :: "MerkleTree \<Rightarrow> MerkleDigest" where
  "Digest mt =
     \<lparr>md_BucketName = mt_BucketName mt,
      md_RootHash = (if mt_Nodes mt = [] then '''' else hex_encode (mn_Hash (hd (mt_Nodes mt)))),
      md_LeafCount = mt_LeafCount mt,
      md_Depth = (if mt_Nodes mt = [] then 0 else treeDepth (length (mt_Nodes mt)))\<rparr>"

definition diff_of :: "MerkleTree \<Rightarrow> nat \<Rightarrow> string list \<Rightarrow> MerkleDiff" where
  "diff_of mt idx remoteHashes =
     (let n = mt_Nodes mt ! idx in
      \<lparr>df_BucketName = mt_BucketName mt, df_NodeIndex = idx, df_KeyStart = hex_encode (mn_KeyStart n),
       df_KeyEnd = hex_encode (mn_KeyEnd n), df_LocalHash = hex_encode (mn_Hash n), df_RemoteHash = remoteHashes ! idx\<rparr>)"

function diffWalk :: "MerkleTree \<Rightarrow> string list \<Rightarrow> nat \<Rightarrow> MerkleDiff list" where
  "diffWalk mt remoteHashes idx =
     (if idx \<ge> length (mt_Nodes mt) \<or> idx \<ge> length remoteHashes then []
      else if hex_encode (mn_Hash (mt_Nodes mt ! idx)) = remoteHashes ! idx then []
      else if mn_IsLeaf (mt_Nodes mt ! idx) \<or> 2 * idx + 2 \<ge> length (mt_Nodes mt) then [diff_of mt idx remoteHashes]
      else diffWalk mt remoteHashes (2 * idx + 1) @ diffWalk mt remoteHashes (2 * idx + 2))"
  by pat_completeness auto
termination by (relation "measure (\<lambda>(mt, hs, idx). length (mt_Nodes mt) - idx)") auto

declare diffWalk.simps [simp del]

definition DiffAgainst :: "MerkleTree \<Rightarrow> string list \<Rightarrow> MerkleDiff list" where
  "DiffAgainst mt remoteHashes = (if mt_Nodes mt = [] \<or> remoteHashes = [] then [] else diffWalk mt remoteHashes 0)"

definition ExportHashes :: "MerkleTree \<Rightarrow> string list" where
  "ExportHashes mt = List.map (\<lambda>n. hex_encode (mn_Hash n)) (mt_Nodes mt)"

section \<open>The trees of the log\<close>

definition critical_buckets :: "string list" where
  "critical_buckets = [bucketDocs, bucketNodes, bucketEdges, bucketVectors, bucketDirectives]"

definition BuildAllBucketTrees ::
    "(string \<Rightarrow> string) \<Rightarrow> ('b, string) bolt \<Rightarrow> 'b buckets \<Rightarrow> (string \<times> MerkleTree) list" where
  "BuildAllBucketTrees sha B bs =
     List.map_filter (\<lambda>name. case BuildMerkleTree sha B name bs of Inl _ \<Rightarrow> None | Inr t \<Rightarrow> Some (name, t)) critical_buckets"

text \<open>The digests come in the order in which the map of trees is visited.\<close>

definition MerkleDigests ::
    "(string \<Rightarrow> string) \<Rightarrow> ('b, string) bolt \<Rightarrow> ((string \<times> MerkleTree) list \<Rightarrow> (string \<times> MerkleTree) list) \<Rightarrow> 'b buckets \<Rightarrow>
      MerkleDigest list" where
  "MerkleDigests sha B listing bs = List.map (\<lambda>(name, t). Digest t) (listing (BuildAllBucketTrees sha B bs))"

definition MerkleTreeForBucket ::
    "(string \<Rightarrow> string) \<Rightarrow> ('b, string) bolt \<Rightarrow> string \<Rightarrow> 'b buckets \<Rightarrow> error + MerkleTree" where
  "MerkleTreeForBucket sha B name bs = BuildMerkleTree sha B name bs"

definition ExportBucketData ::
    "('b, string) bolt \<Rightarrow> string \<Rightarrow> string \<Rightarrow> string \<Rightarrow> 'b buckets \<Rightarrow> error + (string \<times> string) list" where
  "ExportBucketData B name keyStart keyEnd bs =
     (case bs name of
        None \<Rightarrow> Inl (Err (''bucket not found: '' @ name))
      | Some b \<Rightarrow> Inr (List.map (\<lambda>(k, v). (hex_encode k, v))
          (takeWhile (\<lambda>p. keyEnd = '''' \<or> \<not> keyEnd < fst p) (dropWhile (\<lambda>p. fst p < keyStart) (bk_items B b)))))"

fun import_rows :: "('b, string) bolt \<Rightarrow> (string \<times> string) list \<Rightarrow> 'b \<Rightarrow> error + 'b" where
  "import_rows B [] b = Inr b"
| "import_rows B ((hexKey, val) # rows) b =
     (case hex_decode hexKey of
        (key, False) \<Rightarrow> import_rows B rows b
      | (key, True) \<Rightarrow> (case bk_put B b key val of Inl e \<Rightarrow> Inl e | Inr b' \<Rightarrow> import_rows B rows b'))"

definition ImportBucketData ::
    "('b, string) bolt \<Rightarrow> string \<Rightarrow> (string \<times> string) list \<Rightarrow> 'b buckets \<Rightarrow> error option \<times> 'b buckets" where
  "ImportBucketData B name data bs =
     (if data = [] then (None, bs)
      else wal_update B (\<lambda>bs. case bs name of
          None \<Rightarrow> Inl (Err (''bucket not found: '' @ name))
        | Some b \<Rightarrow> (case import_rows B data b of Inl e \<Rightarrow> Inl e | Inr b' \<Rightarrow> Inr (bs(name \<mapsto> b')))) bs)"

end
