(* ===== verification/Mctx_Gossip.thy ===== *)
theory Mctx_Gossip
  imports Rag_Merkle Complex_Main
begin

text \<open>
  The gossip protocol of \<^verbatim>\<open>pkg/mctx/gossip.go\<close> between two nodes: the handlers of a request, the
  dispatch on its type, the cycle that brings a log up to date with a peer, and the federated
  search. The connections are an argument: which requests get through. What a request carries
  arrives as it was sent.
\<close>

section \<open>Messages\<close>

record BucketDiffSummary =
  bd_Bucket :: string
  bd_LocalHash :: string
  bd_RemoteHash :: string
  bd_InSync :: bool

record DeltaSyncResponse =
  dr_Matches :: nat
  dr_Diffs :: "BucketDiffSummary list"
  dr_HashExport :: "string \<Rightarrow> string list option"

record ExportDataResponse =
  ed_Bucket :: string
  ed_Data :: "(string \<times> string) list"
  ed_Count :: nat

record 's FederatedSnippet =
  fs_Content :: string
  fs_Path :: string
  fs_Score :: 's
  fs_SourceNode :: string

record 's FederatedQueryResponse =
  fr_Snippets :: "'s FederatedSnippet list"
  fr_NodeID :: string

text \<open>The searches a node offers; \<^const>\<open>None\<close> is a nil function.\<close>

record 's GossipHandler =
  gh_NodeID :: string
  gh_SearchFn :: "(string \<Rightarrow> string list) option"
  gh_SearchWithScoresFn :: "(string \<Rightarrow> int \<Rightarrow> 's FederatedSnippet list) option"

section \<open>The storm guard\<close>

text \<open>\<open>byte\<close> is the random byte.\<close>

definition ShouldTransmitGossip :: "8 word \<Rightarrow> int \<Rightarrow> bool" where
  "ShouldTransmitGossip byte totalSwarmNodes =
     (if totalSwarmNodes \<le> 1 then True
      else int (unat byte) mod totalSwarmNodes < \<lfloor>max 1 (ln (real_of_int totalSwarmNodes))\<rfloor>)"

section \<open>Handlers\<close>

text \<open>The map of local digests by name: the last one under a name counts.\<close>

definition digest_map :: "MerkleDigest list \<Rightarrow> string \<Rightarrow> MerkleDigest option" where
  "digest_map ds = map_of (rev (List.map (\<lambda>d. (md_BucketName d, d)) ds))"

definition summarise ::
    "(string \<Rightarrow> string) \<Rightarrow> ('b, string) bolt \<Rightarrow> 'b buckets \<Rightarrow> (string \<Rightarrow> MerkleDigest option) \<Rightarrow> MerkleDigest \<Rightarrow>
      DeltaSyncResponse \<Rightarrow> DeltaSyncResponse" where
  "summarise sha B bs localMap remote resp =
     (case localMap (md_BucketName remote) of
        None \<Rightarrow> resp\<lparr>dr_Diffs := dr_Diffs resp @
          [\<lparr>bd_Bucket = md_BucketName remote, bd_LocalHash = '''', bd_RemoteHash = md_RootHash remote, bd_InSync = False\<rparr>]\<rparr>
      | Some d \<Rightarrow>
          (let same = md_RootHash d = md_RootHash remote;
               summary = \<lparr>bd_Bucket = md_BucketName remote, bd_LocalHash = md_RootHash d, bd_RemoteHash = md_RootHash remote,
                          bd_InSync = same\<rparr>
           in resp\<lparr>dr_Matches := dr_Matches resp + (if same then 1 else 0),
                dr_Diffs := dr_Diffs resp @ [summary],
                dr_HashExport := (if same then dr_HashExport resp
                  else case MerkleTreeForBucket sha B (md_BucketName remote) bs of
                    Inl _ \<Rightarrow> dr_HashExport resp
                  | Inr tree \<Rightarrow> (dr_HashExport resp)(md_BucketName remote \<mapsto> ExportHashes tree))\<rparr>))"

definition HandleDeltaSync ::
    "(string \<Rightarrow> string) \<Rightarrow> ('b, string) bolt \<Rightarrow> ((string \<times> MerkleTree) list \<Rightarrow> (string \<times> MerkleTree) list) \<Rightarrow> 'b buckets \<Rightarrow>
      MerkleDigest list \<Rightarrow> DeltaSyncResponse" where
  "HandleDeltaSync sha B listing bs digests =
     fold (summarise sha B bs (digest_map (MerkleDigests sha B listing bs))) digests
       \<lparr>dr_Matches = 0, dr_Diffs = [], dr_HashExport = (\<lambda>_. None)\<rparr>"

definition HandleExportData ::
    "('b, string) bolt \<Rightarrow> 'b buckets \<Rightarrow> string \<Rightarrow> string \<Rightarrow> string \<Rightarrow> ExportDataResponse" where
  "HandleExportData B bs name keyStart keyEnd =
     (case ExportBucketData B name (fst (hex_decode keyStart)) (fst (hex_decode keyEnd)) bs of
        Inl _ \<Rightarrow> \<lparr>ed_Bucket = name, ed_Data = [], ed_Count = 0\<rparr>
      | Inr data \<Rightarrow> \<lparr>ed_Bucket = name, ed_Data = data, ed_Count = length data\<rparr>)"

definition HandleFederatedQuery ::
    "'s :: zero GossipHandler \<Rightarrow> string \<Rightarrow> int \<Rightarrow> string \<Rightarrow> 's FederatedQueryResponse" where
  "HandleFederatedQuery gh query topK originNode =
     \<lparr>fr_Snippets =
        (if originNode = gh_NodeID gh then []
         else case gh_SearchWithScoresFn gh of
           Some f \<Rightarrow> List.map (\<lambda>s. s\<lparr>fs_SourceNode := gh_NodeID gh\<rparr>) (f query topK)
         | None \<Rightarrow> (case gh_SearchFn gh of
               None \<Rightarrow> []
             | Some f \<Rightarrow> List.map (\<lambda>s. \<lparr>fs_Content = s, fs_Path = '''', fs_Score = 0, fs_SourceNode = gh_NodeID gh\<rparr>) (f query))),
      fr_NodeID = gh_NodeID gh\<rparr>"

definition Search_gossip :: "'s GossipHandler \<Rightarrow> string \<Rightarrow> string list" where
  "Search_gossip gh query = (case gh_SearchFn gh of None \<Rightarrow> [] | Some f \<Rightarrow> f query)"

section \<open>Synchronising\<close>

text \<open>What the client has of the network: the answer to a comparison and to an export, or an error.\<close>

record peer =
  pr_delta :: "MerkleDigest list \<Rightarrow> error + DeltaSyncResponse"
  pr_export :: "string \<Rightarrow> string \<Rightarrow> string \<Rightarrow> error + ExportDataResponse"

fun import_diffs ::
    "('b, string) bolt \<Rightarrow> peer \<Rightarrow> MerkleDiff list \<Rightarrow> nat \<Rightarrow> 'b buckets \<Rightarrow> nat \<times> 'b buckets" where
  "import_diffs B p [] imported bs = (imported, bs)"
| "import_diffs B p (d # ds) imported bs =
     (case pr_export p (df_BucketName d) (df_KeyStart d) (df_KeyEnd d) of
        Inl _ \<Rightarrow> import_diffs B p ds imported bs
      | Inr resp \<Rightarrow> (case ImportBucketData B (df_BucketName d) (ed_Data resp) bs of
            (Some _, bs') \<Rightarrow> import_diffs B p ds imported bs'
          | (None, bs') \<Rightarrow> import_diffs B p ds (imported + ed_Count resp) bs'))"

fun sync_buckets ::
    "(string \<Rightarrow> string) \<Rightarrow> ('b, string) bolt \<Rightarrow> peer \<Rightarrow> (string \<Rightarrow> string list option) \<Rightarrow> BucketDiffSummary list \<Rightarrow>
      nat \<Rightarrow> 'b buckets \<Rightarrow> nat \<times> 'b buckets" where
  "sync_buckets sha B p hashes [] imported bs = (imported, bs)"
| "sync_buckets sha B p hashes (diff # ds) imported bs =
     (if bd_InSync diff then sync_buckets sha B p hashes ds imported bs
      else case hashes (bd_Bucket diff) of
          None \<Rightarrow> sync_buckets sha B p hashes ds imported bs
        | Some remoteHashes \<Rightarrow> (case MerkleTreeForBucket sha B (bd_Bucket diff) bs of
              Inl _ \<Rightarrow> sync_buckets sha B p hashes ds imported bs
            | Inr localTree \<Rightarrow> (case import_diffs B p (DiffAgainst localTree remoteHashes) imported bs of
                (imported', bs') \<Rightarrow> sync_buckets sha B p hashes ds imported' bs')))"

definition SyncWithPeer ::
    "(string \<Rightarrow> string) \<Rightarrow> ('b, string) bolt \<Rightarrow> ((string \<times> MerkleTree) list \<Rightarrow> (string \<times> MerkleTree) list) \<Rightarrow> peer \<Rightarrow>
      'b buckets \<Rightarrow> (nat \<times> error option) \<times> 'b buckets" where
  "SyncWithPeer sha B listing p bs =
     (case pr_delta p (MerkleDigests sha B listing bs) of
        Inl e \<Rightarrow> ((0, Some (Wrap ''delta sync request failed: '' e)), bs)
      | Inr resp \<Rightarrow> (case sync_buckets sha B p (dr_HashExport resp) (dr_Diffs resp) 0 bs of
            (imported, bs') \<Rightarrow> ((imported, None), bs')))"

text \<open>A peer that answers every request from its buckets.\<close>

definition serving :: "(string \<Rightarrow> string) \<Rightarrow> ('c, string) bolt \<Rightarrow> ((string \<times> MerkleTree) list \<Rightarrow> (string \<times> MerkleTree) list) \<Rightarrow> 'c buckets \<Rightarrow> peer" where
  "serving sha B listing bs =
     \<lparr>pr_delta = (\<lambda>ds. Inr (HandleDeltaSync sha B listing bs ds)),
      pr_export = (\<lambda>name keyStart keyEnd. Inr (HandleExportData B bs name keyStart keyEnd))\<rparr>"

section \<open>Federated search\<close>

fun dedup_content :: "'s FederatedSnippet list \<Rightarrow> string set \<Rightarrow> 's FederatedSnippet list" where
  "dedup_content [] seen = []"
| "dedup_content (s # ss) seen =
     (if fs_Content s \<in> seen then dedup_content ss seen else s # dedup_content ss (insert (fs_Content s) seen))"

text \<open>\<open>answers\<close> are those of the peers that could be reached, in the order they came.\<close>

definition FederatedSearch :: "8 word \<Rightarrow> string list \<Rightarrow> 's FederatedQueryResponse list \<Rightarrow> 's FederatedSnippet list" where
  "FederatedSearch byte peers answers =
     (if peers = [] \<or> \<not> ShouldTransmitGossip byte (int (length peers)) then []
      else dedup_content (concat (List.map fr_Snippets answers)) {})"

definition QueryPeers :: "8 word \<Rightarrow> string list \<Rightarrow> string list list \<Rightarrow> string list" where
  "QueryPeers byte peers answers =
     (if peers = [] \<or> \<not> ShouldTransmitGossip byte (int (length peers)) then [] else concat answers)"

end
