(* ===== verification/Rag_MerkleProps.thy ===== *)
theory Rag_MerkleProps
  imports Rag_Merkle
begin

text \<open>
  The hash tree: every node below the leaves holds the hash of its children, so equal hashes mean
  equal leaves below unless SHA-256 collides, and the walk finds exactly the leaves that differ.
\<close>

section \<open>Sizes\<close>

lemma doubled_pow: "0 < p \<Longrightarrow> \<exists>k. doubled p n = p * 2 ^ k \<and> n \<le> doubled p n"
proof (induction p n rule: doubled.induct)
  case (1 p n)
  show ?case
  proof (cases "p < n")
    case True
    then obtain k where "doubled (2 * p) n = 2 * p * 2 ^ k" "n \<le> doubled (2 * p) n" using 1 by auto
    then show ?thesis using True 1(2) by (intro exI [of _ "Suc k"]) (simp add: doubled.simps [of p n])
  next
    case False
    then show ?thesis by (intro exI [of _ 0]) (simp add: doubled.simps [of p n])
  qed
qed

lemma nextPow2_ok: "n \<le> nextPow2 n" "0 < nextPow2 n"
  using doubled_pow [of 1 n] by (auto simp: nextPow2_def)

lemma padded_length [simp]: "length (padded sha rows) = nextPow2 (length rows)"
  using nextPow2_ok(1) [of "length rows"] by (simp add: padded_def)

section \<open>The tree that is built\<close>

definition heap_ok :: "(string \<Rightarrow> string) \<Rightarrow> nat \<Rightarrow> MerkleNode list \<Rightarrow> bool" where
  "heap_ok sha n t \<longleftrightarrow> 0 < n \<and> length t = 2 * n - 1 \<and>
     (\<forall>i < n - 1. t ! i = parent sha (t ! (2 * i + 1)) (t ! (2 * i + 2))) \<and>
     (\<forall>i. n - 1 \<le> i \<and> i < 2 * n - 1 \<longrightarrow> mn_IsLeaf (t ! i))"

lemma build_up_spec:
  assumes "m \<le> n - 1" "length t = 2 * n - 1"
    "\<forall>i. m \<le> i \<and> i < n - 1 \<longrightarrow> t ! i = parent sha (t ! (2 * i + 1)) (t ! (2 * i + 2))"
  shows "length (build_up sha m t) = 2 * n - 1 \<and> (\<forall>i. m \<le> i \<longrightarrow> build_up sha m t ! i = t ! i) \<and>
    (\<forall>i < n - 1. build_up sha m t ! i = parent sha (build_up sha m t ! (2 * i + 1)) (build_up sha m t ! (2 * i + 2)))"
  using assms
proof (induction m arbitrary: t)
  case 0
  then show ?case by simp
next
  case (Suc m)
  let ?t = "t[m := parent sha (t ! (2 * m + 1)) (t ! (2 * m + 2))]"
  have "\<forall>i. m \<le> i \<and> i < n - 1 \<longrightarrow> ?t ! i = parent sha (?t ! (2 * i + 1)) (?t ! (2 * i + 2))"
  proof (intro allI impI)
    fix i
    assume i: "m \<le> i \<and> i < n - 1"
    show "?t ! i = parent sha (?t ! (2 * i + 1)) (?t ! (2 * i + 2))"
      using i Suc.prems by (cases "i = m") (simp_all add: nth_list_update)
  qed
  from Suc.IH [OF _ _ this] have ih: "length (build_up sha m ?t) = 2 * n - 1 \<and> (\<forall>i. m \<le> i \<longrightarrow> build_up sha m ?t ! i = ?t ! i) \<and>
    (\<forall>i < n - 1. build_up sha m ?t ! i = parent sha (build_up sha m ?t ! (2 * i + 1)) (build_up sha m ?t ! (2 * i + 2)))"
    using Suc.prems(1,2) by simp
  moreover have "?t ! i = t ! i" if "Suc m \<le> i" for i using that by simp
  ultimately show ?case by simp
qed

text \<open>The tree of some rows: its leaves are the rows and the padding, in order.\<close>

lemma merkle_nodes_ok:
  assumes "rows \<noteq> []"
  defines "n \<equiv> nextPow2 (length rows)"
  shows "heap_ok sha n (merkle_nodes sha rows)"
    "j < n \<Longrightarrow> merkle_nodes sha rows ! (n - 1 + j) = padded sha rows ! j"
proof -
  let ?t0 = "replicate (n - 1) (padding\<lparr>mn_Hash := zero_hash, mn_IsLeaf := False\<rparr>) @ padded sha rows"
  have n: "0 < n" "length (padded sha rows) = n" by (simp_all add: n_def nextPow2_ok)
  have l0: "length ?t0 = 2 * n - 1" using n by simp
  have t: "merkle_nodes sha rows = build_up sha (n - 1) ?t0" using assms by (simp add: merkle_nodes_def Let_def)
  have "\<forall>i. n - 1 \<le> i \<and> i < n - 1 \<longrightarrow> ?t0 ! i = parent sha (?t0 ! (2 * i + 1)) (?t0 ! (2 * i + 2))" by linarith
  from build_up_spec [OF order_refl l0 this]
  have b: "length (merkle_nodes sha rows) = 2 * n - 1" "\<forall>i. n - 1 \<le> i \<longrightarrow> merkle_nodes sha rows ! i = ?t0 ! i"
    "\<forall>i < n - 1. merkle_nodes sha rows ! i = parent sha (merkle_nodes sha rows ! (2 * i + 1)) (merkle_nodes sha rows ! (2 * i + 2))"
    unfolding t by blast+
  show leaf: "merkle_nodes sha rows ! (n - 1 + j) = padded sha rows ! j" if "j < n" for j
  proof -
    have "merkle_nodes sha rows ! (n - 1 + j) = ?t0 ! (n - 1 + j)" using b(2) by simp
    then show ?thesis by (simp add: nth_append)
  qed
  have isleaf: "mn_IsLeaf (padded sha rows ! j)" if "j < n" for j
    using that by (simp add: padded_def nth_append n_def leaf_def padding_def)
  have "mn_IsLeaf (merkle_nodes sha rows ! i)" if "n - 1 \<le> i" "i < 2 * n - 1" for i
    using leaf [of "i - (n - 1)"] isleaf [of "i - (n - 1)"] that by simp
  then show "heap_ok sha n (merkle_nodes sha rows)" using b n by (simp add: heap_ok_def)
qed

section \<open>What is below a node\<close>

fun below_idx :: "nat \<Rightarrow> nat \<Rightarrow> bool" where
  "below_idx i j = (if j \<le> i then i = j else below_idx i ((j - 1) div 2))"

declare below_idx.simps [simp del]

lemma below_self [simp]: "below_idx i i"
  by (simp add: below_idx.simps)

lemma below_le: "below_idx i j \<Longrightarrow> i \<le> j"
  by (metis below_idx.simps linorder_le_cases)

lemma below_root: "below_idx 0 j"
proof (induction j rule: less_induct)
  case (less j)
  then show ?case by (cases "j = 0") (simp_all add: below_idx.simps [of 0 j])
qed

lemma below_children: "below_idx i j \<longleftrightarrow> i = j \<or> below_idx (2 * i + 1) j \<or> below_idx (2 * i + 2) j"
proof (induction j rule: less_induct)
  case (less j)
  show ?case
  proof (cases "j \<le> i")
    case True
    then have "\<not> below_idx (2 * i + 1) j" "\<not> below_idx (2 * i + 2) j" by (auto dest: below_le)
    then show ?thesis using True by (simp add: below_idx.simps [of i j])
  next
    case False
    let ?p = "(j - 1) div 2"
    have p: "?p < j" "j = 2 * ?p + 1 \<or> j = 2 * ?p + 2" using False by auto
    have child: "below_idx c j \<longleftrightarrow> c = j \<or> below_idx c ?p" for c
    proof (cases "j \<le> c")
      case True
      then have "\<not> below_idx c ?p" using below_le [of c ?p] p(1) by auto
      then show ?thesis using True by (simp add: below_idx.simps [of c j])
    qed (simp add: below_idx.simps [of c j])
    have "below_idx i j = below_idx i ?p" using False by (simp add: below_idx.simps [of i j])
    also have "\<dots> \<longleftrightarrow> i = ?p \<or> below_idx (2 * i + 1) ?p \<or> below_idx (2 * i + 2) ?p" by (rule less [OF p(1)])
    also have "\<dots> \<longleftrightarrow> i = j \<or> below_idx (2 * i + 1) j \<or> below_idx (2 * i + 2) j"
    proof -
      have "i = ?p \<longleftrightarrow> 2 * i + 1 = j \<or> 2 * i + 2 = j" using p(2) False by presburger
      moreover have "i \<noteq> j" using False by simp
      ultimately show ?thesis unfolding child [of "2 * i + 1"] child [of "2 * i + 2"] by blast
    qed
    finally show ?thesis .
  qed
qed

lemma below_disjoint: "a < b \<Longrightarrow> b \<le> 2 * a \<Longrightarrow> \<not> (below_idx a j \<and> below_idx b j)"
proof (induction j rule: less_induct)
  case (less j)
  show ?case
  proof
    assume h: "below_idx a j \<and> below_idx b j"
    then have "b \<le> j" using below_le by blast
    show False
    proof (cases "j = b")
      case True
      have "(b - 1) div 2 < a" using less.prems by auto
      then have "\<not> below_idx a ((b - 1) div 2)" using below_le by fastforce
      then show False using h True less.prems(1) by (simp add: below_idx.simps [of a b])
    next
      case False
      then have "b < j" using \<open>b \<le> j\<close> by simp
      then have "below_idx a ((j - 1) div 2) \<and> below_idx b ((j - 1) div 2)"
        using h less.prems(1) by (simp add: below_idx.simps [of a j] below_idx.simps [of b j])
      moreover have "(j - 1) div 2 < j" using \<open>b < j\<close> by auto
      ultimately show False using less.IH less.prems by blast
    qed
  qed
qed

section \<open>Hashes and leaves\<close>

abbreviation hash_at :: "MerkleNode list \<Rightarrow> nat \<Rightarrow> string" where
  "hash_at t i \<equiv> mn_Hash (t ! i)"

definition hashed_pairs :: "MerkleNode list \<Rightarrow> string set" where
  "hashed_pairs t = {hash_at t (2 * i + 1) @ hash_at t (2 * i + 2) | i. 2 * i + 2 < length t}"

lemma equal_below:
  assumes "heap_ok sha n t" "heap_ok sha n t'" "inj_on sha (hashed_pairs t \<union> hashed_pairs t')"
    "\<forall>i < 2 * n - 1. length (hash_at t i) = 32 \<and> length (hash_at t' i) = 32"
    "hash_at t i = hash_at t' i" "below_idx i j" "j < 2 * n - 1"
  shows "hash_at t j = hash_at t' j"
  using assms(6,7)
proof (induction j rule: less_induct)
  case (less j)
  show ?case
  proof (cases "j = i")
    case False
    let ?p = "(j - 1) div 2"
    have j: "i < j" using below_le [OF less.prems(1)] False by simp
    then have p: "?p < j" "below_idx i ?p" "j = 2 * ?p + 1 \<or> j = 2 * ?p + 2"
      using less.prems(1) by (auto simp: below_idx.simps [of i j])
    have lt: "?p < n - 1" using p(3) less.prems(2) by linarith
    have eq: "hash_at t ?p = hash_at t' ?p" using less.IH [OF p(1,2)] p(1) less.prems(2) by simp
    let ?c = "hash_at t (2 * ?p + 1) @ hash_at t (2 * ?p + 2)" and ?c' = "hash_at t' (2 * ?p + 1) @ hash_at t' (2 * ?p + 2)"
    have "sha ?c = sha ?c'"
      using eq lt assms(1,2) by (simp add: heap_ok_def parent_def)
    moreover have "2 * ?p + 2 < length t" "2 * ?p + 2 < length t'" using lt assms(1,2) by (auto simp: heap_ok_def)
    then have "?c \<in> hashed_pairs t" "?c' \<in> hashed_pairs t'" unfolding hashed_pairs_def by blast+
    ultimately have c: "?c = ?c'" using assms(3) by (meson UnI1 UnI2 inj_onD)
    have "length (hash_at t (2 * ?p + 1)) = length (hash_at t' (2 * ?p + 1))" using assms(4) lt by simp
    then have "hash_at t (2 * ?p + 1) = hash_at t' (2 * ?p + 1) \<and> hash_at t (2 * ?p + 2) = hash_at t' (2 * ?p + 2)"
      using c by simp
    then show ?thesis using p(3) by metis
  qed (use assms(5) in simp)
qed


section \<open>The walk\<close>

lemma hex_pad_two: "a < 256 \<Longrightarrow> hex_pad 2 a = [hex_digit (a div 16), hex_digit (a mod 16)]"
  by (simp add: numeral_2_eq_2)

lemma hex_val_digit: "d < 16 \<Longrightarrow> hex_val (hex_digit d) = Some d"
  by (cases "d < 10") (auto simp: hex_val_def)

lemma hex_decode_encode: "hex_decode (hex_encode s) = (s, True)"
proof (induction s)
  case Nil
  then show ?case by (simp add: hex_encode_def)
next
  case (Cons c s)
  have c: "(of_char c :: nat) < 256" by simp
  have e: "hex_encode (c # s) = hex_digit (of_char c div 16) # hex_digit (of_char c mod 16) # hex_encode s"
    using hex_pad_two [OF c] by (simp add: hex_encode_def)
  have d: "of_char c div 16 < (16 :: nat)" "of_char c mod 16 < (16 :: nat)"
    using less_mult_imp_div_less [of "of_char c" 16 16] c by simp_all
  have "char_of (16 * (of_char c div 16) + of_char c mod 16 :: nat) = c" by simp
  then show ?case unfolding e by (simp add: Cons hex_val_digit [OF d(1)] hex_val_digit [OF d(2)] del: hex_digit.simps)
qed

lemma hex_inj: "hex_encode a = hex_encode b \<longleftrightarrow> a = b"
  by (metis hex_decode_encode fst_conv)

definition hashes_of :: "MerkleNode list \<Rightarrow> string list" where
  "hashes_of t = List.map (\<lambda>n. hex_encode (mn_Hash n)) t"

definition differ :: "MerkleNode list \<Rightarrow> MerkleNode list \<Rightarrow> nat \<Rightarrow> nat set" where
  "differ t t' n = {j. n - 1 \<le> j \<and> j < 2 * n - 1 \<and> hash_at t j \<noteq> hash_at t' j}"

definition comparable :: "(string \<Rightarrow> string) \<Rightarrow> nat \<Rightarrow> MerkleNode list \<Rightarrow> MerkleNode list \<Rightarrow> bool" where
  "comparable sha n t t' \<longleftrightarrow> heap_ok sha n t \<and> heap_ok sha n t' \<and> inj_on sha (hashed_pairs t \<union> hashed_pairs t') \<and>
     (\<forall>i < 2 * n - 1. length (hash_at t i) = 32 \<and> length (hash_at t' i) = 32)"

lemma diffWalk_exact:
  assumes "comparable sha n t t'" "mt_Nodes mt = t" "idx < 2 * n - 1"
  shows "distinct (List.map df_NodeIndex (diffWalk mt (hashes_of t') idx)) \<and>
    df_NodeIndex ` set (diffWalk mt (hashes_of t') idx) = {j \<in> differ t t' n. below_idx idx j} \<and>
    (\<forall>d\<in>set (diffWalk mt (hashes_of t') idx). d = diff_of mt (df_NodeIndex d) (hashes_of t'))"
  using assms(3)
proof (induction "2 * n - 1 - idx" arbitrary: idx rule: less_induct)
  case less
  have h: "heap_ok sha n t" "heap_ok sha n t'" using assms(1) by (simp_all add: comparable_def)
  then have l: "length t = 2 * n - 1" "length t' = 2 * n - 1" "0 < n" by (simp_all add: heap_ok_def)
  have len: "\<not> (idx \<ge> length (mt_Nodes mt) \<or> idx \<ge> length (hashes_of t'))" using less.prems l assms(2) by (simp add: hashes_of_def)
  have same: "hex_encode (mn_Hash (mt_Nodes mt ! idx)) = hashes_of t' ! idx \<longleftrightarrow> hash_at t idx = hash_at t' idx"
    using less.prems l assms(2) by (simp add: hashes_of_def hex_inj)
  show ?case
  proof (cases "hash_at t idx = hash_at t' idx")
    case True
    then have w: "diffWalk mt (hashes_of t') idx = []" using len same by (simp add: diffWalk.simps [of mt _ idx])
    have "\<not> (j \<in> differ t t' n \<and> below_idx idx j)" for j
      using equal_below [of sha n t t' idx j] assms(1) True by (auto simp: comparable_def differ_def)
    then show ?thesis unfolding w by auto
  next
    case ne: False
    show ?thesis
    proof (cases "idx < n - 1")
      case False
      then have "mn_IsLeaf (t ! idx)" using h(1) less.prems by (simp add: heap_ok_def)
      then have w: "diffWalk mt (hashes_of t') idx = [diff_of mt idx (hashes_of t')]"
        using len same ne assms(2) by (simp add: diffWalk.simps [of mt _ idx])
      have "{j \<in> differ t t' n. below_idx idx j} = {idx}"
      proof -
        have "j = idx" if "j < 2 * n - 1" "below_idx idx j" for j
          using that False less.prems by (cases "j \<le> idx") (auto simp: below_idx.simps [of idx j] dest!: below_le)
        then show ?thesis using False less.prems ne by (auto simp: differ_def)
      qed
      then show ?thesis unfolding w by (simp add: diff_of_def Let_def)
    next
      case True
      then have nl: "\<not> mn_IsLeaf (t ! idx)" using h(1) by (simp add: heap_ok_def parent_def)
      have in_range: "2 * idx + 1 < 2 * n - 1" "2 * idx + 2 < 2 * n - 1" using True by auto
      have w: "diffWalk mt (hashes_of t') idx =
          diffWalk mt (hashes_of t') (2 * idx + 1) @ diffWalk mt (hashes_of t') (2 * idx + 2)"
        using len same ne nl assms(2) l(1) in_range by (subst diffWalk.simps) simp
      note left = less.hyps [OF _ in_range(1)] and right = less.hyps [OF _ in_range(2)]
      have dis: "{j \<in> differ t t' n. below_idx (2 * idx + 1) j} \<inter> {j \<in> differ t t' n. below_idx (2 * idx + 2) j} = {}"
        using below_disjoint [of "2 * idx + 1" "2 * idx + 2"] by auto
      have "{j \<in> differ t t' n. below_idx idx j} = {j \<in> differ t t' n. below_idx (2 * idx + 1) j} \<union> {j \<in> differ t t' n. below_idx (2 * idx + 2) j}"
        using True by (auto simp: below_children [of idx] differ_def)
      then show ?thesis unfolding w using left right dis less.prems by (auto simp: image_Un)
    qed
  qed
qed

end
