(* ===== verification/Mctx_GossipProps.thy ===== *)
theory Mctx_GossipProps
  imports Mctx_Gossip Rag_MerkleProps Rag_Sanitize
begin

text \<open>
  What a synchronisation achieves: the diff of two trees names exactly the leaves that differ, and
  a cycle with a peer that has the same keys copies exactly its values. Where the keys differ it
  does not bring them over; the concrete runs at the end show how.
\<close>

section \<open>The leaves of two trees\<close>

abbreviation row_text :: "string \<times> string \<Rightarrow> string" where
  "row_text kv \<equiv> fst kv @ snd kv"

definition row_texts :: "(string \<times> string) list \<Rightarrow> nat \<Rightarrow> string option" where
  "row_texts rows j = (if j < length rows then Some (row_text (rows ! j)) else None)"

definition rows_distinguished :: "(string \<Rightarrow> string) \<Rightarrow> (string \<times> string) list \<Rightarrow> (string \<times> string) list \<Rightarrow> bool" where
  "rows_distinguished sha L R \<longleftrightarrow>
     inj_on sha (row_text ` (set L \<union> set R) \<union> hashed_pairs (merkle_nodes sha L) \<union> hashed_pairs (merkle_nodes sha R)) \<and>
     zero_hash \<notin> sha ` row_text ` (set L \<union> set R)"

lemma leaf_hash:
  assumes "rows \<noteq> []" "j < nextPow2 (length rows)"
  shows "hash_at (merkle_nodes sha rows) (nextPow2 (length rows) - 1 + j) = (case row_texts rows j of Some s \<Rightarrow> sha s | None \<Rightarrow> zero_hash)"
  using merkle_nodes_ok(2) [OF assms(1), of j sha] assms(2) by (simp add: padded_def nth_append leaf_def padding_def row_texts_def)

lemma leaf_key:
  assumes "j < length rows"
  shows "mn_KeyStart (merkle_nodes sha rows ! (nextPow2 (length rows) - 1 + j)) = fst (rows ! j) \<and>
    mn_KeyEnd (merkle_nodes sha rows ! (nextPow2 (length rows) - 1 + j)) = fst (rows ! j)"
proof -
  have "rows \<noteq> []" "j < nextPow2 (length rows)" using assms nextPow2_ok(1) [of "length rows"] by auto
  from merkle_nodes_ok(2) [OF this, of sha] show ?thesis using assms by (simp add: padded_def nth_append leaf_def)
qed

lemma hash_length:
  assumes "\<And>x. length (sha x) = 32" "rows \<noteq> []" "i < 2 * nextPow2 (length rows) - 1"
  shows "length (hash_at (merkle_nodes sha rows) i) = 32"
proof (cases "i < nextPow2 (length rows) - 1")
  case True
  then show ?thesis using merkle_nodes_ok(1) [OF assms(2), of sha] assms(1) by (simp add: heap_ok_def parent_def)
next
  case False
  have "hash_at (merkle_nodes sha rows) (nextPow2 (length rows) - 1 + (i - (nextPow2 (length rows) - 1))) =
      (case row_texts rows (i - (nextPow2 (length rows) - 1)) of Some s \<Rightarrow> sha s | None \<Rightarrow> zero_hash)"
    by (rule leaf_hash [OF assms(2)]) (use False assms(3) in linarith)
  then show ?thesis using False assms(1) by (simp add: zero_hash_def split: option.splits)
qed

lemma comparable_rows:
  assumes "\<And>x. length (sha x) = 32" "L \<noteq> []" "R \<noteq> []" "nextPow2 (length L) = nextPow2 (length R)" "rows_distinguished sha L R"
  shows "comparable sha (nextPow2 (length L)) (merkle_nodes sha L) (merkle_nodes sha R)"
proof -
  have "heap_ok sha (nextPow2 (length L)) (merkle_nodes sha L)" by (rule merkle_nodes_ok(1) [OF assms(2)])
  moreover have "heap_ok sha (nextPow2 (length L)) (merkle_nodes sha R)" unfolding assms(4) by (rule merkle_nodes_ok(1) [OF assms(3)])
  moreover have "inj_on sha (hashed_pairs (merkle_nodes sha L) \<union> hashed_pairs (merkle_nodes sha R))"
    by (rule inj_on_subset) (use assms(5) in \<open>auto simp: rows_distinguished_def\<close>)
  moreover have "length (hash_at (merkle_nodes sha L) i) = 32 \<and> length (hash_at (merkle_nodes sha R) i) = 32"
    if "i < 2 * nextPow2 (length L) - 1" for i
    using that hash_length [where rows = L, OF assms(1,2)] hash_length [where rows = R, OF assms(1,3)] assms(4) by simp
  ultimately show ?thesis by (simp add: comparable_def)
qed

lemma differ_texts:
  assumes "L \<noteq> []" "R \<noteq> []" "nextPow2 (length L) = nextPow2 (length R)" "rows_distinguished sha L R"
  shows "differ (merkle_nodes sha L) (merkle_nodes sha R) (nextPow2 (length L)) =
    {nextPow2 (length L) - 1 + j | j. row_texts L j \<noteq> row_texts R j}"
proof -
  let ?n = "nextPow2 (length L)"
  have out: "row_texts L j = row_texts R j" if "\<not> j < ?n" for j
    using that nextPow2_ok(1) [of "length L"] nextPow2_ok(1) [of "length R"] assms(3) by (simp add: row_texts_def)
  have same: "hash_at (merkle_nodes sha L) (?n - 1 + j) = hash_at (merkle_nodes sha R) (?n - 1 + j) \<longleftrightarrow> row_texts L j = row_texts R j"
    if "j < ?n" for j
  proof -
    have l: "hash_at (merkle_nodes sha L) (?n - 1 + j) = (case row_texts L j of Some s \<Rightarrow> sha s | None \<Rightarrow> zero_hash)"
      by (rule leaf_hash [OF assms(1) that])
    have r: "hash_at (merkle_nodes sha R) (?n - 1 + j) = (case row_texts R j of Some s \<Rightarrow> sha s | None \<Rightarrow> zero_hash)"
      unfolding assms(3) by (rule leaf_hash [OF assms(2)]) (use that assms(3) in simp)
    have inL: "s \<in> row_text ` (set L \<union> set R)" if "row_texts L j = Some s" for s using that by (auto simp: row_texts_def split: if_splits)
    have inR: "s \<in> row_text ` (set L \<union> set R)" if "row_texts R j = Some s" for s using that by (auto simp: row_texts_def split: if_splits)
    have inj: "a = b" if "sha a = sha b" "a \<in> row_text ` (set L \<union> set R)" "b \<in> row_text ` (set L \<union> set R)" for a b
      using assms(4) that unfolding rows_distinguished_def by (meson UnI1 inj_onD)
    have zero: "sha a \<noteq> zero_hash" if "a \<in> row_text ` (set L \<union> set R)" for a
      using assms(4) that unfolding rows_distinguished_def by (metis image_eqI)
    show ?thesis unfolding l r
      using inL inR inj zero by (cases "row_texts L j"; cases "row_texts R j") (auto dest: sym)
  qed
  have "j \<in> differ (merkle_nodes sha L) (merkle_nodes sha R) ?n \<longleftrightarrow> (\<exists>i. j = ?n - 1 + i \<and> row_texts L i \<noteq> row_texts R i)" for j
  proof
    assume j: "j \<in> differ (merkle_nodes sha L) (merkle_nodes sha R) ?n"
    then have "j = ?n - 1 + (j - (?n - 1))" "j - (?n - 1) < ?n" by (auto simp: differ_def)
    then show "\<exists>i. j = ?n - 1 + i \<and> row_texts L i \<noteq> row_texts R i"
      using j same [of "j - (?n - 1)"] by (metis (mono_tags, lifting) differ_def mem_Collect_eq)
  next
    assume "\<exists>i. j = ?n - 1 + i \<and> row_texts L i \<noteq> row_texts R i"
    then obtain i where i: "j = ?n - 1 + i" "row_texts L i \<noteq> row_texts R i" by blast
    then have "i < ?n" using out by blast
    moreover have "?n - 1 + i < 2 * ?n - 1" "?n - 1 \<le> ?n - 1 + i" using \<open>i < ?n\<close> by auto
    ultimately show "j \<in> differ (merkle_nodes sha L) (merkle_nodes sha R) ?n" unfolding differ_def i(1) using i(2) same [of i] by blast
  qed
  then show ?thesis by blast
qed

lemma diff_against:
  assumes "\<And>x. length (sha x) = 32" "L \<noteq> []" "R \<noteq> []" "nextPow2 (length L) = nextPow2 (length R)" "rows_distinguished sha L R"
    "mt_Nodes mt = merkle_nodes sha L" "ds = DiffAgainst mt (hashes_of (merkle_nodes sha R))"
  shows "distinct (List.map df_NodeIndex ds)"
    "df_NodeIndex ` set ds = {nextPow2 (length L) - 1 + j | j. row_texts L j \<noteq> row_texts R j}"
    "\<forall>d\<in>set ds. d = diff_of mt (df_NodeIndex d) (hashes_of (merkle_nodes sha R))"
proof -
  have ne: "merkle_nodes sha L \<noteq> []" "merkle_nodes sha R \<noteq> []"
    using merkle_nodes_ok(1) [OF assms(2), of sha] merkle_nodes_ok(1) [OF assms(3), of sha] by (auto simp: heap_ok_def)
  have ds: "ds = diffWalk mt (hashes_of (merkle_nodes sha R)) 0"
    using ne by (simp add: assms(6,7) DiffAgainst_def hashes_of_def)
  have "0 < 2 * nextPow2 (length L) - 1" using nextPow2_ok(2) [of "length L"] by simp
  note w = diffWalk_exact [OF comparable_rows [OF assms(1-5)] assms(6) this]
  show "distinct (List.map df_NodeIndex ds)" "\<forall>d\<in>set ds. d = diff_of mt (df_NodeIndex d) (hashes_of (merkle_nodes sha R))"
    using w unfolding ds by blast+
  have "df_NodeIndex ` set ds = differ (merkle_nodes sha L) (merkle_nodes sha R) (nextPow2 (length L))"
    using w below_root unfolding ds by auto
  then show "df_NodeIndex ` set ds = {nextPow2 (length L) - 1 + j | j. row_texts L j \<noteq> row_texts R j}"
    unfolding differ_texts [OF assms(2-5)] .
qed


text \<open>
  C36: Comparing the tree of one bucket with the hashes of another of the same size class names
  exactly the positions at which the two buckets differ, each once, a row and padding counting as
  different and two rows when key followed by value differs, unless SHA-256 collides on them.
\<close>

theorem merkle_diff_exact:
  assumes "\<forall>x. length (sha x) = 32" "rows_distinguished sha L R" "L \<noteq> []" "R \<noteq> []" "nextPow2 (length L) = nextPow2 (length R)"
    "bk_items B b = L" "bk_items B c = R" "BuildMerkleTree sha B name [name \<mapsto> b] = Inr mt"
    "BuildMerkleTree sha B name [name \<mapsto> c] = Inr remote"
  shows "distinct (List.map df_NodeIndex (DiffAgainst mt (ExportHashes remote))) \<and>
    df_NodeIndex ` set (DiffAgainst mt (ExportHashes remote)) =
      {nextPow2 (length L) - 1 + j | j. row_texts L j \<noteq> row_texts R j}"
proof -
  have "mt_Nodes mt = merkle_nodes sha L" "mt_Nodes remote = merkle_nodes sha R"
    using assms(6-9) by (auto simp: BuildMerkleTree_def Let_def)
  moreover have "ExportHashes remote = hashes_of (merkle_nodes sha R)"
    using calculation(2) by (simp add: ExportHashes_def hashes_of_def)
  ultimately show ?thesis using diff_against [of sha L R mt] assms(1-5) by simp
qed

section \<open>One bucket\<close>

lemma same_keys_texts:
  assumes "List.map fst L = List.map fst R"
  shows "row_texts L j \<noteq> row_texts R j \<longleftrightarrow> j < length L \<and> snd (L ! j) \<noteq> snd (R ! j)"
proof -
  have l: "length L = length R" using assms by (metis length_map)
  have "fst (L ! j) = fst (R ! j)" if "j < length L" using assms that l by (metis nth_map)
  then show ?thesis using l by (auto simp: row_texts_def)
qed

lemma export_single:
  assumes "keys_sorted rows" "(k, v) \<in> set rows" "k \<noteq> ''''"
  shows "takeWhile (\<lambda>p. k = '''' \<or> \<not> k < fst p) (dropWhile (\<lambda>p. fst p < k) rows) = [(k, v)]"
proof -
  obtain us vs where rows: "rows = us @ (k, v) # vs" using assms(2) by (meson split_list)
  have "\<forall>p\<in>set us. fst p < k" "\<forall>p\<in>set vs. k < fst p" using assms(1) by (auto simp: rows sorted_wrt_append)
  then have "dropWhile (\<lambda>p. fst p < k) rows = (k, v) # vs" by (simp add: rows dropWhile_append2)
  moreover have "takeWhile (\<lambda>p. k = '''' \<or> \<not> k < fst p) vs = []" using \<open>\<forall>p\<in>set vs. k < fst p\<close> assms(3) by (cases vs) auto
  ultimately show ?thesis by simp
qed

text \<open>Fetching the rows of some keys the peer has.\<close>

lemma import_keys:
  assumes "bolt_writable B fits" "rs name = Some c" "\<forall>p\<in>set (bk_items B c). fits (snd p)"
    "\<forall>d\<in>set ds. df_BucketName d = name \<and> (\<exists>k\<in>fst ` set (bk_items B c). df_KeyStart d = hex_encode k \<and> df_KeyEnd d = hex_encode k)"
    "bs name = Some b"
  shows "\<exists>b'. import_diffs B (serving sha B listing rs) ds m bs = (m + length ds, bs(name \<mapsto> b')) \<and>
    map_of (bk_items B b') = (\<lambda>k. if hex_encode k \<in> df_KeyStart ` set ds then map_of (bk_items B c) k else map_of (bk_items B b) k)"
  using assms(4,5)
proof (induction ds arbitrary: m bs b)
  case Nil
  then show ?case by (intro exI [of _ b]) (auto simp: fun_eq_iff)
next
  case (Cons d ds)
  have bb: "bolt_bucket B" using assms(1) by (simp add: bolt_writable_def)
  obtain k v where kv: "(k, v) \<in> set (bk_items B c)" and d: "df_BucketName d = name" "df_KeyStart d = hex_encode k" "df_KeyEnd d = hex_encode k"
    using Cons.prems(1) by auto
  have k: "k \<noteq> ''''" "length k \<le> 32768" using bolt_writable.items_keys [OF assms(1) kv] by auto
  have v: "map_of (bk_items B c) k = Some v" by (rule map_of_is_SomeI [OF bolt_bucket.items_distinct [OF bb] kv])
  have ex: "pr_export (serving sha B listing rs) name (hex_encode k) (hex_encode k) =
      Inr \<lparr>ed_Bucket = name, ed_Data = [(hex_encode k, v)], ed_Count = 1\<rparr>"
    using export_single [OF bolt_bucket.items_sorted [OF bb] kv k(1)]
    by (simp add: serving_def HandleExportData_def ExportBucketData_def hex_decode_encode assms(2))
  obtain b1 where b1: "bk_put B b k v = Inr b1"
    using bolt_writable.put_ok [OF assms(1) k, of v b] bspec [OF assms(3) kv] by auto
  have imp: "ImportBucketData B name [(hex_encode k, v)] bs = (None, bs(name \<mapsto> b1))"
    using Cons.prems(2) bolt_writable.commit_ok [OF assms(1)]
    by (simp add: ImportBucketData_def wal_update_ok hex_decode_encode b1)
  have step: "import_diffs B (serving sha B listing rs) (d # ds) m bs =
      import_diffs B (serving sha B listing rs) ds (Suc m) (bs(name \<mapsto> b1))"
    by (simp add: d ex imp)
  obtain b' where b': "import_diffs B (serving sha B listing rs) ds (Suc m) (bs(name \<mapsto> b1)) = (Suc m + length ds, bs(name \<mapsto> b1, name \<mapsto> b'))"
    "map_of (bk_items B b') = (\<lambda>j. if hex_encode j \<in> df_KeyStart ` set ds then map_of (bk_items B c) j else map_of (bk_items B b1) j)"
  proof -
    have pr: "\<forall>d\<in>set ds. df_BucketName d = name \<and> (\<exists>k\<in>fst ` set (bk_items B c). df_KeyStart d = hex_encode k \<and> df_KeyEnd d = hex_encode k)"
      using Cons.prems(1) by simp
    have "(bs(name \<mapsto> b1)) name = Some b1" by simp
    from Cons.IH [where bs = "bs(name \<mapsto> b1)" and b = b1 and m = "Suc m", OF pr this] show ?thesis using that by blast
  qed
  have "map_of (bk_items B b') = (\<lambda>j. if hex_encode j \<in> df_KeyStart ` set (d # ds) then map_of (bk_items B c) j else map_of (bk_items B b) j)"
    unfolding b'(2) bolt_bucket.put_map [OF bb b1] using v by (auto simp: fun_eq_iff d(2) hex_inj)
  then show ?case using b'(1) unfolding step by (intro exI [of _ b']) (auto simp: fun_eq_iff)
qed

definition changed :: "(string \<times> string) list \<Rightarrow> (string \<times> string) list \<Rightarrow> nat" where
  "changed L R = card {j. j < length L \<and> snd (L ! j) \<noteq> snd (R ! j)}"

lemma changed_same: "changed R R = 0"
  by (simp add: changed_def)

lemma sync_one:
  assumes "bolt_writable B fits" "\<forall>x. length (sha x) = 32" "bs name = Some b" "rs name = Some c"
    "List.map fst (bk_items B b) = List.map fst (bk_items B c)" "\<forall>p\<in>set (bk_items B c). fits (snd p)"
    "rows_distinguished sha (bk_items B b) (bk_items B c)" "BuildMerkleTree sha B name bs = Inr mt"
  shows "\<exists>b'. import_diffs B (serving sha B listing rs) (DiffAgainst mt (hashes_of (merkle_nodes sha (bk_items B c)))) m bs =
      (m + changed (bk_items B b) (bk_items B c), bs(name \<mapsto> b')) \<and> bk_items B b' = bk_items B c"
proof (cases "bk_items B b = []")
  case True
  then have "bk_items B c = []" "DiffAgainst mt (hashes_of (merkle_nodes sha (bk_items B c))) = []"
    using assms(3,5,8) by (auto simp: BuildMerkleTree_def Let_def merkle_nodes_def DiffAgainst_def)
  then show ?thesis using True assms(3) by (intro exI [of _ b]) (simp add: changed_def fun_upd_idem)
next
  case False
  have bb: "bolt_bucket B" using assms(1) by (simp add: bolt_writable_def)
  let ?L = "bk_items B b" and ?R = "bk_items B c"
  let ?ds = "DiffAgainst mt (hashes_of (merkle_nodes sha ?R))" and ?n = "nextPow2 (length ?L)"
  have len: "length ?L = length ?R" using assms(5) by (metis length_map)
  then have ne: "?R \<noteq> []" using False by auto
  have mt: "mt_Nodes mt = merkle_nodes sha ?L" "mt_BucketName mt = name" using assms(3,8) by (auto simp: BuildMerkleTree_def Let_def)
  have "nextPow2 (length ?L) = nextPow2 (length ?R)" by (simp only: len)
  note d = diff_against [OF assms(2) [rule_format] False ne this assms(7) mt(1) refl]
  let ?J = "{j. j < length ?L \<and> snd (?L ! j) \<noteq> snd (?R ! j)}"
  have idx: "df_NodeIndex ` set ?ds = (\<lambda>j. ?n - 1 + j) ` ?J" unfolding d(2) same_keys_texts [OF assms(5)] by auto
  have keyof: "df_BucketName e = name \<and> df_KeyStart e = hex_encode (fst (?L ! j)) \<and> df_KeyEnd e = hex_encode (fst (?L ! j))"
    if "e \<in> set ?ds" "df_NodeIndex e = ?n - 1 + j" "j < length ?L" for e j
  proof -
    have "e = diff_of mt (?n - 1 + j) (hashes_of (merkle_nodes sha ?R))" using d(3) that(1,2) by metis
    then show ?thesis using leaf_key [OF that(3), of sha] by (simp add: diff_of_def Let_def mt)
  qed
  have some: "\<exists>j\<in>?J. df_NodeIndex e = ?n - 1 + j" if "e \<in> set ?ds" for e
    using idx that by (metis (no_types, lifting) image_iff)
  have fstLR: "fst (?L ! j) \<in> fst ` set ?R" if "j < length ?L" for j
    using that len assms(5) by (metis image_eqI nth_map nth_mem)
  have "\<forall>e\<in>set ?ds. df_BucketName e = name \<and> (\<exists>k\<in>fst ` set ?R. df_KeyStart e = hex_encode k \<and> df_KeyEnd e = hex_encode k)"
  proof
    fix e
    assume e: "e \<in> set ?ds"
    from some [OF e] obtain j where j: "j \<in> ?J" "df_NodeIndex e = ?n - 1 + j" by (elim bexE)
    then have "j < length ?L" by simp
    from keyof [OF e j(2) this] fstLR [OF this]
    show "df_BucketName e = name \<and> (\<exists>k\<in>fst ` set ?R. df_KeyStart e = hex_encode k \<and> df_KeyEnd e = hex_encode k)"
      by (elim conjE) (intro conjI bexI [of _ "fst (?L ! j)"])
  qed
  from import_keys [where rs = rs and name = name and c = c and bs = bs and b = b and listing = listing and sha = sha and m = m,
      OF assms(1,4,6) this assms(3)] obtain b' where
    b': "import_diffs B (serving sha B listing rs) ?ds m bs = (m + length ?ds, bs(name \<mapsto> b'))"
      "map_of (bk_items B b') = (\<lambda>k. if hex_encode k \<in> df_KeyStart ` set ?ds then map_of ?R k else map_of ?L k)" by blast
  have "length ?ds = card (df_NodeIndex ` set ?ds)" using distinct_card [OF d(1)] by simp
  also have "\<dots> = changed ?L ?R" unfolding idx changed_def by (rule card_image) (simp add: inj_on_def)
  finally have count: "length ?ds = changed ?L ?R" .
  have "map_of (bk_items B b') = map_of ?R"
  proof
    fix k
    show "map_of (bk_items B b') k = map_of ?R k"
    proof (cases "k \<in> fst ` set ?L")
      case False
      then have "map_of ?L k = None" "map_of ?R k = None" using assms(5) by (metis map_of_eq_None_iff list.set_map)+
      then show ?thesis by (simp add: b'(2))
    next
      case True
      then obtain j where j: "j < length ?L" "k = fst (?L ! j)" by (metis imageE in_set_conv_nth)
      show ?thesis
      proof (cases "j \<in> ?J")
        case True
        then obtain e where "e \<in> set ?ds" "df_NodeIndex e = ?n - 1 + j" using idx by (metis (no_types, lifting) image_iff)
        then have "hex_encode k \<in> df_KeyStart ` set ?ds" using keyof [of e j] j by force
        then show ?thesis by (simp add: b'(2))
      next
        case False
        then have "snd (?L ! j) = snd (?R ! j)" using j(1) by simp
        moreover have "fst (?R ! j) = k" using j len assms(5) by (metis nth_map)
        ultimately have "?R ! j = ?L ! j" using j(2) by (simp add: prod_eq_iff)
        then have "?L ! j \<in> set ?R" using j(1) len by (metis nth_mem)
        then have "map_of ?R k = Some (snd (?L ! j))" using bolt_bucket.items_distinct [OF bb, of c] j(2) by (metis map_of_is_SomeI prod.collapse)
        moreover have "map_of ?L k = Some (snd (?L ! j))"
          using bolt_bucket.items_distinct [OF bb, of b] j by (metis map_of_is_SomeI nth_mem prod.collapse)
        ultimately show ?thesis by (simp add: b'(2))
      qed
    qed
  qed
  then have "bk_items B b' = ?R" by (rule keys_sorted_unique [OF bolt_bucket.items_sorted [OF bb] bolt_bucket.items_sorted [OF bb]])
  then show ?thesis using b'(1) count by metis
qed


section \<open>The whole cycle\<close>

text \<open>The answer to a comparison, summarised.\<close>

definition summary_of :: "(string \<Rightarrow> MerkleDigest option) \<Rightarrow> MerkleDigest \<Rightarrow> BucketDiffSummary" where
  "summary_of localMap remote =
     (case localMap (md_BucketName remote) of
        None \<Rightarrow> \<lparr>bd_Bucket = md_BucketName remote, bd_LocalHash = '''', bd_RemoteHash = md_RootHash remote, bd_InSync = False\<rparr>
      | Some d \<Rightarrow> \<lparr>bd_Bucket = md_BucketName remote, bd_LocalHash = md_RootHash d, bd_RemoteHash = md_RootHash remote,
          bd_InSync = (md_RootHash d = md_RootHash remote)\<rparr>)"

lemma summarise_fold:
  assumes "\<forall>d\<in>set ds. localMap (md_BucketName d) \<noteq> None \<and> MerkleTreeForBucket sha B (md_BucketName d) bs = Inr (tree (md_BucketName d))"
  shows "dr_Diffs (fold (summarise sha B bs localMap) ds resp) = dr_Diffs resp @ List.map (summary_of localMap) ds \<and>
    (\<forall>d\<in>set ds. \<not> bd_InSync (summary_of localMap d) \<longrightarrow>
       dr_HashExport (fold (summarise sha B bs localMap) ds resp) (md_BucketName d) = Some (ExportHashes (tree (md_BucketName d)))) \<and>
    (\<forall>name. dr_HashExport resp name = Some (ExportHashes (tree name)) \<longrightarrow>
       dr_HashExport (fold (summarise sha B bs localMap) ds resp) name = Some (ExportHashes (tree name)))"
  using assms
proof (induction ds arbitrary: resp)
  case (Cons d ds)
  obtain e where e: "localMap (md_BucketName d) = Some e" using Cons.prems by auto
  let ?resp = "summarise sha B bs localMap d resp"
  have diffs: "dr_Diffs ?resp = dr_Diffs resp @ [summary_of localMap d]"
    by (simp add: summarise_def summary_of_def e Let_def)
  have exp: "dr_HashExport ?resp = (if md_RootHash e = md_RootHash d then dr_HashExport resp
      else (dr_HashExport resp)(md_BucketName d \<mapsto> ExportHashes (tree (md_BucketName d))))"
    using Cons.prems by (simp add: summarise_def e Let_def)
  have sync: "bd_InSync (summary_of localMap d) = (md_RootHash e = md_RootHash d)" by (simp add: summary_of_def e)
  have ih: "dr_Diffs (fold (summarise sha B bs localMap) ds ?resp) = dr_Diffs ?resp @ List.map (summary_of localMap) ds \<and>
    (\<forall>d\<in>set ds. \<not> bd_InSync (summary_of localMap d) \<longrightarrow>
       dr_HashExport (fold (summarise sha B bs localMap) ds ?resp) (md_BucketName d) = Some (ExportHashes (tree (md_BucketName d)))) \<and>
    (\<forall>name. dr_HashExport ?resp name = Some (ExportHashes (tree name)) \<longrightarrow>
       dr_HashExport (fold (summarise sha B bs localMap) ds ?resp) name = Some (ExportHashes (tree name)))"
    by (rule Cons.IH) (use Cons.prems in simp)
  have here: "dr_HashExport ?resp (md_BucketName d) = Some (ExportHashes (tree (md_BucketName d)))" if "\<not> bd_InSync (summary_of localMap d)"
    using that by (simp add: exp sync)
  have keep: "dr_HashExport ?resp name = Some (ExportHashes (tree name))" if "dr_HashExport resp name = Some (ExportHashes (tree name))" for name
    using that by (simp add: exp)
  show ?case using ih here keep diffs by simp
qed simp

text \<open>Two sides that can be compared: the same keys in every critical bucket, and nothing collides.\<close>

definition aligned :: "(string \<Rightarrow> string) \<Rightarrow> ('b, string) bolt \<Rightarrow> (string \<Rightarrow> bool) \<Rightarrow> 'b buckets \<Rightarrow> 'b buckets \<Rightarrow> bool" where
  "aligned sha B fits bs rs \<longleftrightarrow> (\<forall>name\<in>set critical_buckets.
     (case (bs name, rs name) of
        (None, None) \<Rightarrow> True
      | (Some b, Some c) \<Rightarrow> List.map fst (bk_items B b) = List.map fst (bk_items B c) \<and>
          rows_distinguished sha (bk_items B b) (bk_items B c) \<and> (\<forall>p\<in>set (bk_items B c). fits (snd p))
      | _ \<Rightarrow> False))"

lemma equal_root:
  assumes "\<forall>x. length (sha x) = 32" "List.map fst L = List.map fst R" "rows_distinguished sha L R"
    "L \<noteq> []" "hash_at (merkle_nodes sha L) 0 = hash_at (merkle_nodes sha R) 0"
  shows "L = R"
proof -
  have len: "length L = length R" using assms(2) by (metis length_map)
  then have ne: "R \<noteq> []" using assms(4) by auto
  have n: "nextPow2 (length L) = nextPow2 (length R)" by (simp only: len)
  have cmp: "comparable sha (nextPow2 (length L)) (merkle_nodes sha L) (merkle_nodes sha R)"
    by (rule comparable_rows [OF assms(1) [rule_format] assms(4) ne n assms(3)])
  have "differ (merkle_nodes sha L) (merkle_nodes sha R) (nextPow2 (length L)) = {}"
    using equal_below [of sha "nextPow2 (length L)" "merkle_nodes sha L" "merkle_nodes sha R" 0] cmp assms(5) below_root
    by (auto simp: comparable_def differ_def)
  then have "row_texts L j = row_texts R j" for j unfolding differ_texts [OF assms(4) ne n assms(3)] by blast
  then have "snd (L ! j) = snd (R ! j)" if "j < length L" for j using same_keys_texts [OF assms(2), of j] that by blast
  then have "List.map snd L = List.map snd R" using len by (simp add: list_eq_iff_nth_eq)
  then show ?thesis using assms(2) by (metis zip_map_fst_snd)
qed

lemma sync_all:
  assumes "bolt_writable B fits" "\<forall>x. length (sha x) = 32"
    "\<forall>s\<in>set ss. \<exists>b c. bs (bd_Bucket s) = Some b \<and> rs (bd_Bucket s) = Some c \<and>
       List.map fst (bk_items B b) = List.map fst (bk_items B c) \<and> rows_distinguished sha (bk_items B b) (bk_items B c) \<and>
       (\<forall>p\<in>set (bk_items B c). fits (snd p)) \<and>
       (if bd_InSync s then bk_items B b = bk_items B c else hashes (bd_Bucket s) = Some (hashes_of (merkle_nodes sha (bk_items B c))))"
    "distinct (List.map bd_Bucket ss)"
  shows "\<exists>bs'. sync_buckets sha B (serving sha B listing rs) hashes ss m bs =
      (m + (\<Sum>s\<leftarrow>ss. changed (rows_of B bs (bd_Bucket s)) (rows_of B rs (bd_Bucket s))), bs') \<and>
    (\<forall>name. name \<notin> bd_Bucket ` set ss \<longrightarrow> bs' name = bs name) \<and>
    (\<forall>s\<in>set ss. rows_of B bs' (bd_Bucket s) = rows_of B rs (bd_Bucket s))"
  using assms(3,4)
proof (induction ss arbitrary: m bs)
  case (Cons s ss)
  let ?name = "bd_Bucket s"
  obtain b c where s: "bs ?name = Some b" "rs ?name = Some c" "List.map fst (bk_items B b) = List.map fst (bk_items B c)"
    "rows_distinguished sha (bk_items B b) (bk_items B c)" "\<forall>p\<in>set (bk_items B c). fits (snd p)"
    "if bd_InSync s then bk_items B b = bk_items B c else hashes ?name = Some (hashes_of (merkle_nodes sha (bk_items B c)))"
    using Cons.prems(1) by auto
  obtain b' where step: "sync_buckets sha B (serving sha B listing rs) hashes (s # ss) m bs =
      sync_buckets sha B (serving sha B listing rs) hashes ss (m + changed (bk_items B b) (bk_items B c)) (bs(?name \<mapsto> b'))"
    and b': "bk_items B b' = bk_items B c"
  proof (cases "bd_InSync s")
    case True
    then have "sync_buckets sha B (serving sha B listing rs) hashes (s # ss) m bs =
        sync_buckets sha B (serving sha B listing rs) hashes ss (m + changed (bk_items B b) (bk_items B c)) (bs(?name \<mapsto> b))"
      using s(1,6) by (simp add: changed_same map_upd_triv)
    then show ?thesis using that s(6) True by simp
  next
    case False
    obtain mt where mt: "BuildMerkleTree sha B ?name bs = Inr mt" by (simp add: BuildMerkleTree_def s(1) Let_def)
    from sync_one [where bs = bs and name = ?name and b = b and rs = rs and c = c and listing = listing and m = m,
        OF assms(1,2) s(1-3,5,4) mt] obtain b' where
      "import_diffs B (serving sha B listing rs) (DiffAgainst mt (hashes_of (merkle_nodes sha (bk_items B c)))) m bs =
        (m + changed (bk_items B b) (bk_items B c), bs(?name \<mapsto> b'))" "bk_items B b' = bk_items B c" by blast
    then show ?thesis using that [of b'] False s(6) mt by (simp add: MerkleTreeForBucket_def)
  qed
  let ?bs = "bs(?name \<mapsto> b')"
  have other: "?bs (bd_Bucket x) = bs (bd_Bucket x)" if "x \<in> set ss" for x using that Cons.prems(2) by (auto simp: image_iff)
  have prem: "\<forall>x\<in>set ss. \<exists>b c. ?bs (bd_Bucket x) = Some b \<and> rs (bd_Bucket x) = Some c \<and>
       List.map fst (bk_items B b) = List.map fst (bk_items B c) \<and> rows_distinguished sha (bk_items B b) (bk_items B c) \<and>
       (\<forall>p\<in>set (bk_items B c). fits (snd p)) \<and>
       (if bd_InSync x then bk_items B b = bk_items B c else hashes (bd_Bucket x) = Some (hashes_of (merkle_nodes sha (bk_items B c))))"
    using Cons.prems(1) other by (metis list.set_intros(2))
  have "distinct (List.map bd_Bucket ss)" using Cons.prems(2) by simp
  from Cons.IH [OF prem this, of "m + changed (bk_items B b) (bk_items B c)"] obtain bs' where
    ih: "sync_buckets sha B (serving sha B listing rs) hashes ss (m + changed (bk_items B b) (bk_items B c)) ?bs =
      (m + changed (bk_items B b) (bk_items B c) + (\<Sum>x\<leftarrow>ss. changed (rows_of B ?bs (bd_Bucket x)) (rows_of B rs (bd_Bucket x))), bs')"
    "\<forall>name. name \<notin> bd_Bucket ` set ss \<longrightarrow> bs' name = ?bs name"
    "\<forall>x\<in>set ss. rows_of B bs' (bd_Bucket x) = rows_of B rs (bd_Bucket x)" by blast
  have sums: "(\<Sum>x\<leftarrow>ss. changed (rows_of B ?bs (bd_Bucket x)) (rows_of B rs (bd_Bucket x))) =
      (\<Sum>x\<leftarrow>ss. changed (rows_of B bs (bd_Bucket x)) (rows_of B rs (bd_Bucket x)))"
    by (intro arg_cong [of _ _ sum_list] map_cong refl) (simp only: rows_of_def other)
  have here: "rows_of B bs ?name = bk_items B b" "rows_of B rs ?name = bk_items B c" by (simp_all add: rows_of_def s(1,2))
  have "?name \<notin> bd_Bucket ` set ss" using Cons.prems(2) by simp
  then have "rows_of B bs' ?name = rows_of B rs ?name" using ih(2) b' by (simp add: rows_of_def s(2))
  moreover have "sync_buckets sha B (serving sha B listing rs) hashes (s # ss) m bs =
      (m + (\<Sum>x\<leftarrow>s # ss. changed (rows_of B bs (bd_Bucket x)) (rows_of B rs (bd_Bucket x))), bs')"
    unfolding step ih(1) sums by (simp add: here)
  moreover have "bs' name = bs name" if "name \<notin> bd_Bucket ` set (s # ss)" for name using ih(2) that by simp
  ultimately show ?case using ih(3) by (intro exI [of _ bs']) simp
qed simp


definition built :: "(string \<Rightarrow> string) \<Rightarrow> ('b, string) bolt \<Rightarrow> 'b buckets \<Rightarrow> string \<Rightarrow> MerkleTree" where
  "built sha B bs name = \<lparr>mt_Nodes = merkle_nodes sha (rows_of B bs name),
     mt_LeafCount = (if rows_of B bs name = [] then 0 else nextPow2 (length (rows_of B bs name))), mt_BucketName = name\<rparr>"

lemma build_built: "bs name \<noteq> None \<Longrightarrow> BuildMerkleTree sha B name bs = Inr (built sha B bs name)"
  by (auto simp: BuildMerkleTree_def built_def rows_of_def Let_def)

lemma all_trees: "BuildAllBucketTrees sha B bs = List.map (\<lambda>name. (name, built sha B bs name)) (filter (\<lambda>name. bs name \<noteq> None) critical_buckets)"
proof -
  have "List.map_filter (\<lambda>name. case BuildMerkleTree sha B name bs of Inl e \<Rightarrow> None | Inr t \<Rightarrow> Some (name, t)) xs =
      List.map (\<lambda>name. (name, built sha B bs name)) (filter (\<lambda>name. bs name \<noteq> None) xs)" for xs
  proof (induction xs)
    case (Cons x xs)
    then show ?case
    proof (cases "bs x")
      case None
      then show ?thesis using Cons by (simp add: List.map_filter_simps BuildMerkleTree_def)
    next
      case (Some b)
      then show ?thesis using Cons build_built [of bs x sha B] by (simp add: List.map_filter_simps)
    qed
  qed (simp add: List.map_filter_simps)
  then show ?thesis by (simp add: BuildAllBucketTrees_def)
qed

lemma digest_name [simp]: "md_BucketName (Digest (built sha B bs name)) = name"
  by (simp add: Digest_def built_def)

lemma critical_distinct: "distinct critical_buckets"
  by (simp add: critical_buckets_def bucketDocs_def bucketNodes_def bucketEdges_def bucketVectors_def bucketDirectives_def)

lemma digests_names:
  assumes "\<And>xs. mset (listing xs) = mset xs"
  shows "distinct (List.map md_BucketName (MerkleDigests sha B listing bs))"
    "set (MerkleDigests sha B listing bs) = (\<lambda>name. Digest (built sha B bs name)) ` {name \<in> set critical_buckets. bs name \<noteq> None}"
    "mset (List.map md_BucketName (MerkleDigests sha B listing bs)) = mset (filter (\<lambda>name. bs name \<noteq> None) critical_buckets)"
proof -
  let ?xs = "BuildAllBucketTrees sha B bs"
  have e: "List.map md_BucketName (MerkleDigests sha B listing bs) = List.map (\<lambda>p. md_BucketName (Digest (snd p))) (listing ?xs)"
    by (simp add: MerkleDigests_def comp_def case_prod_unfold)
  have "mset (List.map md_BucketName (MerkleDigests sha B listing bs)) = mset (List.map (\<lambda>p. md_BucketName (Digest (snd p))) ?xs)"
    unfolding e mset_map assms ..
  also have "List.map (\<lambda>p. md_BucketName (Digest (snd p))) ?xs = filter (\<lambda>name. bs name \<noteq> None) critical_buckets"
    unfolding all_trees by (simp add: comp_def)
  finally show m: "mset (List.map md_BucketName (MerkleDigests sha B listing bs)) = mset (filter (\<lambda>name. bs name \<noteq> None) critical_buckets)" .
  show "distinct (List.map md_BucketName (MerkleDigests sha B listing bs))"
    using mset_eq_imp_distinct_iff [OF m] critical_distinct by simp
  have "set (listing ?xs) = set ?xs" using assms by (metis set_mset_mset)
  then show "set (MerkleDigests sha B listing bs) = (\<lambda>name. Digest (built sha B bs name)) ` {name \<in> set critical_buckets. bs name \<noteq> None}"
    unfolding MerkleDigests_def set_map all_trees by force
qed

lemma digest_lookup:
  assumes "\<And>xs. mset (listing xs) = mset xs" "name \<in> set critical_buckets" "rs name \<noteq> None"
  shows "digest_map (MerkleDigests sha B listing rs) name = Some (Digest (built sha B rs name))"
proof -
  let ?ds = "MerkleDigests sha B listing rs"
  have "Digest (built sha B rs name) \<in> set ?ds"
    unfolding digests_names(2) [OF assms(1), of sha B rs] using assms(2,3) by (intro imageI) simp
  then have "(name, Digest (built sha B rs name)) \<in> set (List.map (\<lambda>d. (md_BucketName d, d)) ?ds)"
    by (force simp: image_iff)
  moreover have "distinct (List.map fst (List.map (\<lambda>d. (md_BucketName d, d)) ?ds))"
    using digests_names(1) [OF assms(1)] by (simp add: comp_def)
  ultimately show ?thesis by (simp add: digest_map_def map_of_rev_distinct)
qed

text \<open>
  C35: A synchronisation with a peer that has the same keys in every bucket of the graph ends, when
  every request is answered and SHA-256 does not collide on the rows and nodes hashed, with the
  peer's values in all of them, touches no other bucket, and reports exactly the number of rows
  that differed.
\<close>

theorem delta_sync_converges:
  assumes "bolt_writable B fits" "\<forall>x. length (sha x) = 32" "aligned sha B fits bs rs"
    "\<forall>xs. mset (listing xs) = mset xs" "\<forall>xs. mset (listing' xs) = mset xs"
    "SyncWithPeer sha B listing (serving sha B listing' rs) bs = ((n, err), bs')"
  shows "err = None \<and> (\<forall>name\<in>set critical_buckets. rows_of B bs' name = rows_of B rs name) \<and>
    (\<forall>name. name \<notin> set critical_buckets \<longrightarrow> bs' name = bs name) \<and>
    n = (\<Sum>name\<leftarrow>critical_buckets. changed (rows_of B bs name) (rows_of B rs name))"
proof -
  let ?ds = "MerkleDigests sha B listing bs" and ?map = "digest_map (MerkleDigests sha B listing' rs)"
  let ?resp = "HandleDeltaSync sha B listing' rs ?ds"
  note names = digests_names [OF assms(4) [rule_format], of sha B bs]
  have both: "name \<in> set critical_buckets \<Longrightarrow> bs name \<noteq> None \<longleftrightarrow> rs name \<noteq> None" for name
    using assms(3) by (auto simp: aligned_def split: option.splits)
  have known: "\<forall>d\<in>set ?ds. ?map (md_BucketName d) \<noteq> None \<and> MerkleTreeForBucket sha B (md_BucketName d) rs = Inr (built sha B rs (md_BucketName d))"
  proof
    fix d
    assume "d \<in> set ?ds"
    then obtain name where name: "name \<in> set critical_buckets" "bs name \<noteq> None" "d = Digest (built sha B bs name)"
      using names(2) by auto
    then have "rs name \<noteq> None" using both by blast
    then show "?map (md_BucketName d) \<noteq> None \<and> MerkleTreeForBucket sha B (md_BucketName d) rs = Inr (built sha B rs (md_BucketName d))"
      using digest_lookup [OF assms(5) [rule_format] name(1), of rs sha B] by (simp add: name(3) MerkleTreeForBucket_def build_built)
  qed
  note f = summarise_fold [OF known, of "\<lparr>dr_Matches = 0, dr_Diffs = [], dr_HashExport = (\<lambda>_. None)\<rparr>", folded HandleDeltaSync_def]
  let ?ss = "List.map (summary_of ?map) ?ds"
  have ss: "dr_Diffs ?resp = ?ss" using f by (simp add: HandleDeltaSync_def)
  have bucket: "bd_Bucket (summary_of ?map d) = md_BucketName d" for d by (simp add: summary_of_def split: option.splits)
  have prem: "\<exists>b c. bs (bd_Bucket s) = Some b \<and> rs (bd_Bucket s) = Some c \<and>
       List.map fst (bk_items B b) = List.map fst (bk_items B c) \<and> rows_distinguished sha (bk_items B b) (bk_items B c) \<and>
       (\<forall>p\<in>set (bk_items B c). fits (snd p)) \<and>
       (if bd_InSync s then bk_items B b = bk_items B c else dr_HashExport ?resp (bd_Bucket s) = Some (hashes_of (merkle_nodes sha (bk_items B c))))"
    if s: "s \<in> set ?ss" for s
  proof -
    obtain d where d: "d \<in> set ?ds" "s = summary_of ?map d" using s by auto
    obtain name where name: "name \<in> set critical_buckets" "bs name \<noteq> None" "d = Digest (built sha B bs name)"
      using d(1) names(2) by auto
    then have dn: "md_BucketName d = name" by simp
    obtain b c where bc: "bs name = Some b" "rs name = Some c" using name(2) both [OF name(1)] by (metis option.exhaust)
    then have al: "List.map fst (bk_items B b) = List.map fst (bk_items B c)" "rows_distinguished sha (bk_items B b) (bk_items B c)"
      "\<forall>p\<in>set (bk_items B c). fits (snd p)"
      using bspec [OF assms(3) [unfolded aligned_def] name(1)] by (simp_all add: bc)
    have look: "?map name = Some (Digest (built sha B rs name))" by (rule digest_lookup [OF assms(5) [rule_format] name(1)]) (simp add: bc)
    have rows: "rows_of B bs name = bk_items B b" "rows_of B rs name = bk_items B c" by (simp_all add: rows_of_def bc)
    have len: "length (bk_items B b) = length (bk_items B c)" using al(1) by (metis length_map)
    have eq: "bk_items B b = bk_items B c" if "bd_InSync s"
    proof (cases "bk_items B b = []")
      case True
      then show ?thesis using len by simp
    next
      case False
      then have ne: "bk_items B c \<noteq> []" using len by auto
      have nn: "merkle_nodes sha (bk_items B b) \<noteq> []" "merkle_nodes sha (bk_items B c) \<noteq> []"
        using merkle_nodes_ok(1) [OF False, of sha] merkle_nodes_ok(1) [OF ne, of sha] by (auto simp: heap_ok_def)
      have "md_RootHash (Digest (built sha B rs name)) = md_RootHash (Digest (built sha B bs name))"
        using that d(2) dn look name(3) by (simp add: summary_of_def)
      then have "hash_at (merkle_nodes sha (bk_items B b)) 0 = hash_at (merkle_nodes sha (bk_items B c)) 0"
        using nn by (simp add: Digest_def built_def rows hex_inj hd_conv_nth)
      then show ?thesis by (rule equal_root [OF assms(2) al(1,2) False])
    qed
    have ex: "dr_HashExport ?resp name = Some (hashes_of (merkle_nodes sha (bk_items B c)))" if "\<not> bd_InSync s"
    proof -
      have "dr_HashExport ?resp name = Some (ExportHashes (built sha B rs name))"
        using f d that dn unfolding HandleDeltaSync_def by metis
      then show ?thesis by (simp add: ExportHashes_def hashes_of_def built_def rows)
    qed
    show ?thesis using bc al eq ex by (simp add: d(2) bucket dn)
  qed
  have dist: "distinct (List.map bd_Bucket ?ss)" using names(1) by (simp add: comp_def bucket)
  from sync_all [OF assms(1,2) _ dist, of bs rs "dr_HashExport ?resp" listing' 0] prem obtain bs1 where
    run: "sync_buckets sha B (serving sha B listing' rs) (dr_HashExport ?resp) ?ss 0 bs =
      ((\<Sum>s\<leftarrow>?ss. changed (rows_of B bs (bd_Bucket s)) (rows_of B rs (bd_Bucket s))), bs1)"
    "\<forall>name. name \<notin> bd_Bucket ` set ?ss \<longrightarrow> bs1 name = bs name"
    "\<forall>s\<in>set ?ss. rows_of B bs1 (bd_Bucket s) = rows_of B rs (bd_Bucket s)" by auto
  have res: "err = None" "bs' = bs1" "n = (\<Sum>s\<leftarrow>?ss. changed (rows_of B bs (bd_Bucket s)) (rows_of B rs (bd_Bucket s)))"
    using assms(6) run(1) ss by (simp_all add: SyncWithPeer_def serving_def [of sha B listing' rs])
  have covered: "bd_Bucket ` set ?ss = {name \<in> set critical_buckets. bs name \<noteq> None}"
    using mset_eq_setD [OF names(3)] by (auto simp: bucket image_image)
  have rows: "rows_of B bs' name = rows_of B rs name" if "name \<in> set critical_buckets" for name
  proof (cases "bs name")
    case None
    then have "rs name = None" "bs1 name = bs name" using both [OF that] run(2) covered by auto
    then show ?thesis using None res(2) by (simp add: rows_of_def)
  next
    case (Some b)
    then have "name \<in> bd_Bucket ` set ?ss" using that covered by simp
    then show ?thesis using run(3) res(2) by blast
  qed
  have "n = (\<Sum>name\<leftarrow>List.map md_BucketName ?ds. changed (rows_of B bs name) (rows_of B rs name))"
    unfolding res(3) by (simp add: bucket comp_def)
  also have "\<dots> = (\<Sum>name\<leftarrow>filter (\<lambda>name. bs name \<noteq> None) critical_buckets. changed (rows_of B bs name) (rows_of B rs name))"
    using names(3) by (metis (no_types, lifting) mset_map sum_mset_sum_list)
  also have "\<dots> = (\<Sum>name\<leftarrow>critical_buckets. changed (rows_of B bs name) (rows_of B rs name))"
    by (rule sum_list_map_filter) (auto simp: rows_of_def changed_def)
  finally have "n = (\<Sum>name\<leftarrow>critical_buckets. changed (rows_of B bs name) (rows_of B rs name))" .
  moreover have "bs' name = bs name" if "name \<notin> set critical_buckets" for name using run(2) covered res(2) that by auto
  ultimately show ?thesis using res(1) rows by blast
qed


section \<open>Concrete runs\<close>

text \<open>A stand-in for SHA-256 that is injective on short texts: the text without zeros, padded to 32 bytes.\<close>

definition demo_sha :: "string \<Rightarrow> string" where
  "demo_sha s = take 32 (filter (\<lambda>c. c \<noteq> CHR 0x00) s @ zero_hash)"

definition side :: "(string \<times> string) list \<Rightarrow> (string \<times> string) list buckets" where
  "side rows = [bucketDirectives \<mapsto> rows]"

definition demo_left :: "(string \<times> string) list" where "demo_left = [(''a'', ''1''), (''b'', ''2'')]"
definition demo_right :: "(string \<times> string) list" where "demo_right = [(''a'', ''1''), (''b'', ''3'')]"

lemma demo_sha_length: "length (demo_sha s) = 32"
  by (simp add: demo_sha_def zero_hash_def)

lemma demo_rows_distinguished: "rows_distinguished demo_sha demo_left demo_right"
proof -
  have pairs: "hashed_pairs t = {hash_at t 1 @ hash_at t 2}" if "length t = 3" for t
  proof -
    have "2 * i + 2 < length t \<longleftrightarrow> i = 0" for i using that by auto
    then show ?thesis by (simp add: hashed_pairs_def numeral_2_eq_2)
  qed
  have l: "merkle_nodes demo_sha demo_left = (let a = leaf demo_sha (''a'', ''1''); b = leaf demo_sha (''b'', ''2'') in [parent demo_sha a b, a, b])"
    by (simp add: merkle_nodes_def demo_left_def nextPow2_def doubled.simps padded_def Let_def numeral_2_eq_2)
  have r: "merkle_nodes demo_sha demo_right = (let a = leaf demo_sha (''a'', ''1''); b = leaf demo_sha (''b'', ''3'') in [parent demo_sha a b, a, b])"
    by (simp add: merkle_nodes_def demo_right_def nextPow2_def doubled.simps padded_def Let_def numeral_2_eq_2)
  have lp: "hashed_pairs (merkle_nodes demo_sha demo_left) = {demo_sha ''a1'' @ demo_sha ''b2''}"
    by (subst pairs) (simp_all add: l Let_def leaf_def)
  have rp: "hashed_pairs (merkle_nodes demo_sha demo_right) = {demo_sha ''a1'' @ demo_sha ''b3''}"
    by (subst pairs) (simp_all add: r Let_def leaf_def)
  have "row_text ` (set demo_left \<union> set demo_right) = {''a1'', ''b2'', ''b3''}" by (auto simp: demo_left_def demo_right_def)
  then show ?thesis unfolding rows_distinguished_def lp rp
    by (simp add: demo_sha_def zero_hash_def numeral_eq_Suc)
qed

theorem merkle_diff_exact_witness:
  "df_NodeIndex ` set (DiffAgainst (built demo_sha list_bolt (side demo_left) bucketDirectives)
     (ExportHashes (built demo_sha list_bolt (side demo_right) bucketDirectives))) = {2}"
proof -
  have ok: "list_ok demo_left" "list_ok demo_right" by (simp_all add: list_ok_def demo_left_def demo_right_def)
  then have items: "bk_items list_bolt demo_left = demo_left" "bk_items list_bolt demo_right = demo_right" by (simp_all add: list_bolt_def)
  have n: "nextPow2 (length demo_left) = 2" "nextPow2 (length demo_right) = 2" "demo_left \<noteq> []" "demo_right \<noteq> []"
    by (simp_all add: demo_left_def demo_right_def nextPow2_def doubled.simps)
  have b: "BuildMerkleTree demo_sha list_bolt bucketDirectives [bucketDirectives \<mapsto> rows] = Inr (built demo_sha list_bolt (side rows) bucketDirectives)" for rows
    using build_built [of "side rows" bucketDirectives demo_sha list_bolt] by (simp add: side_def)
  have len: "\<forall>x. length (demo_sha x) = 32" by (simp add: demo_sha_length)
  have "List.map fst demo_left = List.map fst demo_right" by (simp add: demo_left_def demo_right_def)
  note texts = same_keys_texts [OF this]
  have "j < length demo_left \<and> snd (demo_left ! j) \<noteq> snd (demo_right ! j) \<longleftrightarrow> j = 1" for j
    by (auto simp: demo_left_def demo_right_def less_Suc_eq)
  then have "{2 - 1 + j |j. row_texts demo_left j \<noteq> row_texts demo_right j} = {2}" unfolding texts by simp
  moreover have "nextPow2 (length demo_left) = nextPow2 (length demo_right)" by (simp only: n)
  ultimately show ?thesis
    using merkle_diff_exact [OF len demo_rows_distinguished n(3,4) _ items b b] unfolding n(1) by metis
qed

theorem delta_sync_converges_witness:
  "\<exists>n bs'. SyncWithPeer demo_sha list_bolt (\<lambda>xs. xs) (serving demo_sha list_bolt rev (side demo_right)) (side demo_left) = ((n, None), bs') \<and>
     rows_of list_bolt bs' bucketDirectives = demo_right \<and> n = 1"
proof -
  have ok: "list_ok demo_left" "list_ok demo_right" by (simp_all add: list_ok_def demo_left_def demo_right_def)
  then have items: "bk_items list_bolt demo_left = demo_left" "bk_items list_bolt demo_right = demo_right" by (simp_all add: list_bolt_def)
  have other: "side rows name = None" if "name \<noteq> bucketDirectives" for rows name using that by (simp add: side_def)
  have "aligned demo_sha list_bolt (\<lambda>_. True) (side demo_left) (side demo_right)"
    unfolding aligned_def
  proof
    fix name
    show "case (side demo_left name, side demo_right name) of (None, None) \<Rightarrow> True
        | (Some b, Some c) \<Rightarrow> List.map fst (bk_items list_bolt b) = List.map fst (bk_items list_bolt c) \<and>
            rows_distinguished demo_sha (bk_items list_bolt b) (bk_items list_bolt c) \<and> (\<forall>p\<in>set (bk_items list_bolt c). True) | _ \<Rightarrow> False"
      using items demo_rows_distinguished by (cases "name = bucketDirectives") (simp_all add: side_def demo_left_def demo_right_def)
  qed
  note al = this
  obtain n err bs' where run: "SyncWithPeer demo_sha list_bolt (\<lambda>xs. xs) (serving demo_sha list_bolt rev (side demo_right)) (side demo_left) = ((n, err), bs')"
    by (metis prod.collapse)
  have "bucketDirectives \<in> set critical_buckets" by (simp add: critical_buckets_def)
  with delta_sync_converges [OF lbolt.bolt_writable_axioms _ al _ _ run] demo_sha_length
  have r: "err = None" "rows_of list_bolt bs' bucketDirectives = rows_of list_bolt (side demo_right) bucketDirectives"
    "n = (\<Sum>name\<leftarrow>critical_buckets. changed (rows_of list_bolt (side demo_left) name) (rows_of list_bolt (side demo_right) name))" by simp_all
  have rows: "rows_of list_bolt (side rows) name = (if name = bucketDirectives then bk_items list_bolt rows else [])" for rows name
    by (simp add: rows_of_def side_def)
  have c: "changed demo_left demo_right = 1"
  proof -
    have "{j. j < length demo_left \<and> snd (demo_left ! j) \<noteq> snd (demo_right ! j)} = {1}"
      by (auto simp: demo_left_def demo_right_def less_Suc_eq)
    then show ?thesis by (simp add: changed_def)
  qed
  have "changed [] ([] :: (string \<times> string) list) = 0" by (simp add: changed_def)
  then have "n = 1" unfolding r(3) rows items using critical_distinct c by (simp add: critical_buckets_def)
  then show ?thesis using run r(1,2) rows items by simp
qed

text \<open>A bucket that is empty here never receives anything: its tree has no node to compare.\<close>

lemma empty_never_syncs:
  "bs name = Some b \<Longrightarrow> bk_items B b = [] \<Longrightarrow> BuildMerkleTree sha B name bs = Inr mt \<Longrightarrow> DiffAgainst mt hashes = []"
  by (auto simp: BuildMerkleTree_def merkle_nodes_def DiffAgainst_def Let_def)

text \<open>
  A bucket whose size is a power of two has no padding: the rows named as different are its own,
  and only their keys are fetched, so a key that only the peer has is not brought over.
\<close>

lemma full_tree_fetches_own_keys:
  assumes "bs name = Some b" "bk_items B b = rows" "nextPow2 (length rows) = length rows" "BuildMerkleTree sha B name bs = Inr mt"
    "d \<in> set (DiffAgainst mt hashes)" "mn_IsLeaf (mt_Nodes mt ! df_NodeIndex d)" "df_NodeIndex d < length (mt_Nodes mt)"
    "df_KeyStart d = hex_encode (mn_KeyStart (mt_Nodes mt ! df_NodeIndex d))"
  shows "\<exists>k\<in>fst ` set rows. df_KeyStart d = hex_encode k"
proof -
  have mt: "mt_Nodes mt = merkle_nodes sha rows" using assms(1,2,4) by (auto simp: BuildMerkleTree_def Let_def)
  then have ne: "rows \<noteq> []" using assms(7) by (auto simp: merkle_nodes_def)
  let ?n = "length rows"
  have ok: "heap_ok sha ?n (merkle_nodes sha rows)" using merkle_nodes_ok(1) [OF ne, of sha] assms(3) by simp
  have "\<not> df_NodeIndex d < ?n - 1"
  proof
    assume "df_NodeIndex d < ?n - 1"
    then obtain a b where "merkle_nodes sha rows ! df_NodeIndex d = parent sha a b" using ok unfolding heap_ok_def by blast
    then show False using assms(6) by (simp add: mt parent_def)
  qed
  moreover have "df_NodeIndex d < 2 * ?n - 1" using conjunct1 [OF conjunct2 [OF ok [unfolded heap_ok_def]]] assms(7) mt by simp
  ultimately have "df_NodeIndex d = ?n - 1 + (df_NodeIndex d - (?n - 1))" "df_NodeIndex d - (?n - 1) < ?n" by linarith+
  note j = this
  have "mn_KeyStart (merkle_nodes sha rows ! df_NodeIndex d) = fst (rows ! (df_NodeIndex d - (?n - 1)))"
    using leaf_key [OF j(2), of sha] j(1) assms(3) by simp
  then show ?thesis unfolding assms(8) mt using j(2) by (intro bexI [of _ "fst (rows ! (df_NodeIndex d - (?n - 1)))"]) simp_all
qed

text \<open>Key and value are hashed without a boundary: these two rows have the same leaf.\<close>

lemma ambiguous_leaf: "mn_Hash (leaf sha (''ab'', ''c'')) = mn_Hash (leaf sha (''a'', ''bc''))"
  by (simp add: leaf_def)

text \<open>The leaf count of a digest counts the padding.\<close>

lemma leaf_count_is_padded: "mt_LeafCount (built demo_sha list_bolt (side [(''a'', ''''), (''b'', ''''), (''c'', '''')]) bucketDirectives) = 4"
  by (simp add: built_def rows_of_def side_def list_bolt_def list_ok_def nextPow2_def doubled.simps)

section \<open>Federated search\<close>

lemma dedup_content_ok:
  "distinct (List.map fs_Content (dedup_content ss seen)) \<and> fs_Content ` set (dedup_content ss seen) = fs_Content ` set ss - seen \<and>
   set (dedup_content ss seen) \<subseteq> set ss"
  by (induction ss seen rule: dedup_content.induct) auto

lemma no_query_loop: "fr_Snippets (HandleFederatedQuery gh query topK (gh_NodeID gh)) = []"
  by (simp add: HandleFederatedQuery_def)

text \<open>The results are not sorted by score: two answers keep the order in which they came.\<close>

lemma answers_unsorted:
  "FederatedSearch 0 [''p''] [\<lparr>fr_Snippets = [\<lparr>fs_Content = ''x'', fs_Path = '''', fs_Score = (1 :: nat), fs_SourceNode = ''n''\<rparr>], fr_NodeID = ''n''\<rparr>,
     \<lparr>fr_Snippets = [\<lparr>fs_Content = ''y'', fs_Path = '''', fs_Score = 2, fs_SourceNode = ''m''\<rparr>], fr_NodeID = ''m''\<rparr>] =
   [\<lparr>fs_Content = ''x'', fs_Path = '''', fs_Score = 1, fs_SourceNode = ''n''\<rparr>, \<lparr>fs_Content = ''y'', fs_Path = '''', fs_Score = 2, fs_SourceNode = ''m''\<rparr>]"
  by (simp add: FederatedSearch_def ShouldTransmitGossip_def)

end
