(* ===== verification/Neo_Disk.thy ===== *)
theory Neo_Disk
  imports Neo_Text Bolt_Iface
begin

text \<open>
  Small text files as the components keep them: a disk is a map from paths to contents, and what
  the operating system answers to a directory to make or a file to write is an argument. A write
  that fails may leave anything in the file. Paths are joined, split and cleaned as
  \<^verbatim>\<open>path/filepath\<close> does on Unix; \<^verbatim>\<open>strings.Cut\<close> and the other splitting functions are here too.
\<close>

section \<open>Cutting and splitting\<close>

definition str_cut :: "string \<Rightarrow> string \<Rightarrow> (string \<times> string) option" where
  "str_cut s sep = map_option (\<lambda>i. (take i s, drop (i + length sep) s)) (str_index s sep)"

definition cut_prefix :: "string \<Rightarrow> string \<Rightarrow> string option" where
  "cut_prefix s p = (if has_prefix s p then Some (drop (length p) s) else None)"

definition trim_right_of :: "char set \<Rightarrow> string \<Rightarrow> string" where
  "trim_right_of cs s = rev (dropWhile (\<lambda>c. c \<in> cs) (rev s))"

definition trim_of :: "char set \<Rightarrow> string \<Rightarrow> string" where
  "trim_of cs s = trim_right_of cs (dropWhile (\<lambda>c. c \<in> cs) s)"

lemma cut_prefix_append [simp]: "cut_prefix (p @ s) p = Some s"
  by (simp add: cut_prefix_def)

lemma cut_prefix_Some: "cut_prefix s p = Some r \<longleftrightarrow> s = p @ r"
  by (auto simp: cut_prefix_def has_prefix_iff split: if_splits)

text \<open>A separator whose first byte is not in the text before it is found right after that text.\<close>

lemma str_cut_first:
  "sep \<noteq> [] \<Longrightarrow> hd sep \<notin> set u \<Longrightarrow> str_cut (u @ sep @ v) sep = Some (u, v)"
  by (simp add: str_cut_def str_index_first)

lemma str_index_Some:
  "str_index s p = Some i \<Longrightarrow> i + length p \<le> length s \<and> take (length p) (drop i s) = p"
proof (induction s arbitrary: i)
  case (Cons c cs)
  show ?case
  proof (cases "has_prefix (c # cs) p")
    case True
    then obtain r where r: "c # cs = p @ r" by (auto simp: has_prefix_iff)
    have "i = 0" using Cons.prems True by simp
    moreover have "length (c # cs) = length p + length r" "take (length p) (c # cs) = p" using r by simp_all
    ultimately show ?thesis by simp
  next
    case False
    then obtain j where "str_index cs p = Some j" "i = Suc j" using Cons.prems by auto
    then show ?thesis using Cons.IH [of j] by simp
  qed
qed (simp split: if_splits)

lemma str_cut_Some: "str_cut s sep = Some (u, v) \<Longrightarrow> s = u @ sep @ v"
proof -
  assume "str_cut s sep = Some (u, v)"
  then obtain i where i: "str_index s sep = Some i" "u = take i s" "v = drop (i + length sep) s"
    by (auto simp: str_cut_def)
  have "drop i s = take (length sep) (drop i s) @ drop (length sep) (drop i s)" by (rule append_take_drop_id [symmetric])
  then have "drop i s = sep @ v" using str_index_Some [OF i(1)] i(3) by (simp add: add.commute)
  then show ?thesis using i(2) append_take_drop_id [of i s] by simp
qed

section \<open>Paths\<close>

text \<open>\<^verbatim>\<open>filepath.Clean\<close>: a relative path keeps the steps up it begins with.\<close>

definition clean_rel_step :: "string list \<Rightarrow> string \<Rightarrow> string list" where
  "clean_rel_step acc s =
     (if s = '''' \<or> s = ''.'' then acc
      else if s = ''..'' then (if acc = [] \<or> last acc = ''..'' then acc @ [s] else butlast acc)
      else acc @ [s])"

definition clean_path :: "string \<Rightarrow> string" where
  "clean_path path =
     (if is_abs path then ''/'' @ str_join ''/'' (clean_segs path)
      else (let segs = foldl clean_rel_step [] (split_char CHR ''/'' path)
            in if segs = [] then ''.'' else str_join ''/'' segs))"

text \<open>\<^verbatim>\<open>filepath.Join\<close> leaves out empty elements, \<^verbatim>\<open>filepath.Base\<close> and \<^verbatim>\<open>filepath.Dir\<close>.\<close>

definition path_join :: "string list \<Rightarrow> string" where
  "path_join elems =
     (let es = filter (\<lambda>e. e \<noteq> '''') elems
      in if es = [] then '''' else clean_path (str_join ''/'' es))"

definition base_of :: "string \<Rightarrow> string" where
  "base_of path =
     (if path = '''' then ''.''
      else (let p = trim_right_of {CHR ''/''} path
            in if p = '''' then ''/'' else last (split_char CHR ''/'' p)))"

definition dir_of :: "string \<Rightarrow> string" where
  "dir_of path = clean_path (rev (dropWhile (\<lambda>c. c \<noteq> CHR ''/'') (rev path)))"

section \<open>The disk\<close>

type_synonym disk = "string \<Rightarrow> string option"

record os =
  os_mkdir :: "string \<Rightarrow> error option"
  os_write :: "string \<Rightarrow> string \<Rightarrow> (error \<times> string option) option"
  os_read :: "string \<Rightarrow> error option"
  os_remove :: "string \<Rightarrow> bool"
  os_rename :: "string \<Rightarrow> string \<Rightarrow> error option"

text \<open>\<^verbatim>\<open>os.ReadFile\<close>: a missing file, a failure, or the contents.\<close>

definition NotExist :: error where "NotExist = Err ''file does not exist''"

definition read_file :: "os \<Rightarrow> string \<Rightarrow> disk \<Rightarrow> error + string" where
  "read_file S path dk =
     (case dk path of
        None \<Rightarrow> Inl NotExist
      | Some s \<Rightarrow> (case os_read S path of Some e \<Rightarrow> Inl e | None \<Rightarrow> Inr s))"

definition write_file :: "os \<Rightarrow> string \<Rightarrow> string \<Rightarrow> disk \<Rightarrow> error option \<times> disk" where
  "write_file S path s dk =
     (case os_write S path s of
        None \<Rightarrow> (None, dk(path \<mapsto> s))
      | Some (e, left) \<Rightarrow> (Some e, dk(path := left)))"

definition remove_file :: "os \<Rightarrow> string \<Rightarrow> disk \<Rightarrow> disk" where
  "remove_file S path dk = (if os_remove S path then dk(path := None) else dk)"

text \<open>
  Replacing a file: the new contents go to a file beside it, which is then renamed. Whatever
  fails, the file itself holds the old contents or the new ones.
\<close>

definition replace_file :: "os \<Rightarrow> string \<Rightarrow> (error \<Rightarrow> error) \<Rightarrow> string \<Rightarrow> disk \<Rightarrow> error option \<times> disk" where
  "replace_file S path wrap s dk =
     (let tmp = path @ ''.tmp''
      in case write_file S tmp s dk of
           (Some e, dk1) \<Rightarrow> (Some (wrap e), dk1)
         | (None, dk1) \<Rightarrow> (case os_rename S tmp path of
               Some e \<Rightarrow> (Some e, dk1)
             | None \<Rightarrow> (None, dk1(path := dk1 tmp, tmp := None))))"

lemma replace_file_ok: "replace_file S path wrap s dk = (None, dk') \<Longrightarrow> dk' path = Some s"
  by (auto simp: replace_file_def write_file_def Let_def split: prod.splits option.splits)

lemma replace_file_error: "replace_file S path wrap s dk = (Some e, dk') \<Longrightarrow> dk' path = dk path"
  by (auto simp: replace_file_def write_file_def Let_def split: prod.splits option.splits)

text \<open>The system that refuses nothing.\<close>

definition good_os :: os where
  "good_os = \<lparr>os_mkdir = (\<lambda>_. None), os_write = (\<lambda>_ _. None), os_read = (\<lambda>_. None), os_remove = (\<lambda>_. True), os_rename = (\<lambda>_ _. None)\<rparr>"

lemma good_os_simps [simp]:
  "os_mkdir good_os d = None" "os_write good_os d s = None" "os_read good_os d = None" "os_remove good_os d"
  "os_rename good_os d d' = None"
  by (simp_all add: good_os_def)

lemma write_elsewhere: "path \<noteq> q \<Longrightarrow> snd (write_file S path s dk) q = dk q"
  by (simp add: write_file_def split: option.splits prod.splits)

end
