(* ===== verification/Know_Files.thy ===== *)
theory Know_Files
  imports Neo_Disk
begin

text \<open>
  The markdown copies of knowledge entries, \<^verbatim>\<open>pkg/knowledge/filesync.go\<close>: an entry is exported to
  \<^verbatim>\<open><dir>/<namespace>/<key>.md\<close> with a frontmatter, and read back from such a file. \<^verbatim>\<open>time.Format\<close>
  and \<^verbatim>\<open>time.Parse\<close> of RFC 3339 are arguments; keys are valid UTF-8, whose bytes above 127
  \<^verbatim>\<open>safeFilename\<close> keeps.
\<close>

section \<open>Entries\<close>

record KnowledgeEntry =
  ke_Key :: string
  ke_Namespace :: string
  ke_Content :: string
  ke_Tags :: "string list"
  ke_Hot :: bool
  ke_CreatedAt :: int
  ke_UpdatedAt :: int
  ke_From :: string
  ke_ReadAt :: int
  ke_Priority :: string
  ke_ThreadID :: string
  ke_EpicTitle :: string
  ke_EpicStatus :: string
  ke_EpicOwner :: string
  ke_EpicAffected :: "string list"
  ke_EpicBlocks :: "string list"
  ke_EpicCreatedBy :: string
  ke_SessionAgentID :: string

definition blank_entry :: KnowledgeEntry where
  "blank_entry = \<lparr>ke_Key = '''', ke_Namespace = '''', ke_Content = '''', ke_Tags = [], ke_Hot = False, ke_CreatedAt = 0,
     ke_UpdatedAt = 0, ke_From = '''', ke_ReadAt = 0, ke_Priority = '''', ke_ThreadID = '''', ke_EpicTitle = '''',
     ke_EpicStatus = '''', ke_EpicOwner = '''', ke_EpicAffected = [], ke_EpicBlocks = [], ke_EpicCreatedBy = '''',
     ke_SessionAgentID = ''''\<rparr>"

section \<open>Export\<close>

definition nl_text :: string where "nl_text = [newline]"

definition frontmatterDelim :: string where "frontmatterDelim = ''---''"

definition unsafe_chars :: "char set" where
  "unsafe_chars = {CHR ''/'', CHR 0x5C, CHR '':'', CHR ''*'', CHR ''?'', CHR 0x22, CHR ''<'', CHR ''>'', CHR ''|''}"

definition safeFilename :: "string \<Rightarrow> string" where
  "safeFilename key = List.map (\<lambda>c. if c \<in> unsafe_chars then CHR ''_'' else c) key"

definition bool_text :: "bool \<Rightarrow> string" where
  "bool_text b = (if b then ''true'' else ''false'')"

definition frontmatter :: "(int \<Rightarrow> string) \<Rightarrow> KnowledgeEntry \<Rightarrow> string list" where
  "frontmatter stamp e =
     [''key: '' @ ke_Key e, ''namespace: '' @ ke_Namespace e, ''hot: '' @ bool_text (ke_Hot e)] @
     (if ke_Tags e \<noteq> [] then [''tags: ['' @ str_join '', '' (ke_Tags e) @ '']''] else []) @
     [''updated_at: '' @ stamp (ke_UpdatedAt e)]"

definition exported :: "(int \<Rightarrow> string) \<Rightarrow> KnowledgeEntry \<Rightarrow> string" where
  "exported stamp e =
     frontmatterDelim @ nl_text @ concat (List.map (\<lambda>l. l @ nl_text) (frontmatter stamp e)) @
     frontmatterDelim @ nl_text @ ke_Content e"

definition entry_file :: "string \<Rightarrow> string \<Rightarrow> string \<Rightarrow> string" where
  "entry_file dir ns key = path_join [path_join [dir, ns], safeFilename key @ ''.md'']"

definition ExportEntry ::
    "os \<Rightarrow> (int \<Rightarrow> string) \<Rightarrow> string \<Rightarrow> KnowledgeEntry \<Rightarrow> disk \<Rightarrow> error option \<times> disk" where
  "ExportEntry S stamp dir e dk =
     (case os_mkdir S (path_join [dir, ke_Namespace e]) of
        Some err \<Rightarrow> (Some (Wrap ''knowledge: export mkdir: '' err), dk)
      | None \<Rightarrow>
          (let fname = entry_file dir (ke_Namespace e) (ke_Key e); newContent = exported stamp e
           in if read_file S fname dk = Inr newContent then (None, dk)
              else write_file S fname newContent dk))"

section \<open>Import\<close>

definition parseFrontmatterLine :: "(string \<Rightarrow> int option) \<Rightarrow> string \<Rightarrow> string \<Rightarrow> KnowledgeEntry \<Rightarrow> KnowledgeEntry" where
  "parseFrontmatterLine unstamp k v e =
     (if k = ''key'' then e\<lparr>ke_Key := v\<rparr>
      else if k = ''namespace'' then e\<lparr>ke_Namespace := v\<rparr>
      else if k = ''hot'' then e\<lparr>ke_Hot := (v = ''true'')\<rparr>
      else if k = ''tags'' then
        e\<lparr>ke_Tags := ke_Tags e @ filter (\<lambda>t. t \<noteq> '''')
             (List.map trim_space (split_char CHR '','' (trim_of {CHR ''['', CHR '']''} v)))\<rparr>
      else if k = ''updated_at'' then (case unstamp v of Some t \<Rightarrow> e\<lparr>ke_UpdatedAt := t\<rparr> | None \<Rightarrow> e)
      else e)"

definition fold_line :: "(string \<Rightarrow> int option) \<Rightarrow> KnowledgeEntry \<Rightarrow> string \<Rightarrow> KnowledgeEntry" where
  "fold_line unstamp e ln0 =
     (let ln = trim_space ln0
      in if ln = '''' then e
         else (case str_cut ln '': '' of None \<Rightarrow> e | Some (k, v) \<Rightarrow> parseFrontmatterLine unstamp k v e))"

text \<open>\<^verbatim>\<open>strings.SplitN(content, "---\n", 3)\<close>: the second and the third part.\<close>

definition delim_line :: string where "delim_line = frontmatterDelim @ nl_text"

definition split_matter :: "string \<Rightarrow> (string \<times> string) option" where
  "split_matter content =
     (case str_cut content delim_line of None \<Rightarrow> None | Some (_, rest) \<Rightarrow> str_cut rest delim_line)"

definition imported :: "(string \<Rightarrow> int option) \<Rightarrow> string \<Rightarrow> string \<Rightarrow> error + KnowledgeEntry" where
  "imported unstamp path content =
     (case split_matter content of
        None \<Rightarrow> Inl (Err (''knowledge: import: missing frontmatter in '' @ path))
      | Some (fm, body) \<Rightarrow>
          (let e = foldl (fold_line unstamp) (blank_entry\<lparr>ke_Content := trim_right_of {newline} body\<rparr>) (split_char newline fm);
               e1 = (if ke_Key e = '''' then e\<lparr>ke_Key := trim_suffix (base_of path) ''.md''\<rparr> else e);
               e2 = (if ke_Namespace e1 = '''' then e1\<lparr>ke_Namespace := base_of (dir_of path)\<rparr> else e1)
           in Inr e2))"

definition ImportEntry :: "os \<Rightarrow> (string \<Rightarrow> int option) \<Rightarrow> string \<Rightarrow> disk \<Rightarrow> error + KnowledgeEntry" where
  "ImportEntry S unstamp path dk =
     (case read_file S path dk of Inl e \<Rightarrow> Inl e | Inr content \<Rightarrow> imported unstamp path content)"

end
