(* ===== verification/Know_Store.thy ===== *)
theory Know_Store
  imports Know_Files Rag_Docs
begin

text \<open>
  The knowledge store of \<^verbatim>\<open>pkg/knowledge/store.go\<close>: one bucket per namespace, a row per entry as
  JSON, a record of every value overwritten by another session within ten seconds, an inbox with
  a quota per sender, and epics with a schema. Every write is copied to the disk when a directory
  is set. Clock readings are arguments, in seconds.
\<close>

section \<open>Names and errors\<close>

definition NSContracts :: string where "NSContracts = ''contracts''"
definition NSInbox :: string where "NSInbox = ''inbox''"
definition NSEpics :: string where "NSEpics = ''epics''"
definition NSConflicts :: string where "NSConflicts = ''conflicts''"

definition ReservedNamespaces :: "string list" where
  "ReservedNamespaces =
     [NSContracts, ''types'', ''enums'', ''rules'', ''flows'', ''patterns'', ''decisions'', ''incidents'', ''debt'', ''shared'',
      NSInbox, NSEpics]"

text \<open>Text between quotes, as \<^verbatim>\<open>%q\<close> prints plain text.\<close>

definition quoted :: "char \<Rightarrow> string \<Rightarrow> string" where "quoted c s = [c] @ s @ [c]"

definition ErrNotFound :: error where "ErrNotFound = Err ''knowledge: entry not found''"
definition ErrLockBusy :: error where "ErrLockBusy = Err ''knowledge: lock busy''"
definition ErrInboxInvalidKey :: error where "ErrInboxInvalidKey = Err (''inbox: key must match '' @ quoted (CHR 0x27) ''to-<workspace-id>-<topic>'')"
definition ErrInboxMissingFrom :: error where "ErrInboxMissingFrom = Err ''inbox: From field is required (sender workspace ID)''"
definition ErrInboxQuotaExceeded :: error where
  "ErrInboxQuotaExceeded = Err (''inbox: quota exceeded '' @ em_dash @ '' too many messages from this sender in the last hour'')"
definition ErrInboxInvalidPriority :: error where "ErrInboxInvalidPriority = Err ''inbox: priority must be one of low|normal|urgent''"
definition ErrEpicInvalidID :: error where "ErrEpicInvalidID = Err (''epics: key must follow '' @ quoted (CHR 0x27) ''<PILAR>-<id>'' @ '' format (e.g. '' @ quoted (CHR 0x27) ''LX-331.A'' @ '')'')"
definition ErrEpicInvalidStatus :: error where "ErrEpicInvalidStatus = Err ''epics: status must be one of open|in_progress|done|blocked''"
definition ErrEpicInvalidPriority :: error where "ErrEpicInvalidPriority = Err ''epics: priority must be one of P0|P1|P2|P3''"

definition bucketKey :: "string \<Rightarrow> string" where "bucketKey ns = ''knowledge:'' @ ns"

section \<open>Validation\<close>

definition two_parts :: "string \<Rightarrow> bool" where
  "two_parts s = (case str_index s ''-'' of None \<Rightarrow> False | Some sep \<Rightarrow> 0 < sep \<and> sep \<noteq> length s - 1)"

definition ValidateInboxKey :: "string \<Rightarrow> error option" where
  "ValidateInboxKey key =
     (if \<not> has_prefix key ''to-'' then Some ErrInboxInvalidKey
      else (let rest = drop 3 key
            in if rest = '''' then Some ErrInboxInvalidKey
               else if two_parts rest then None else Some ErrInboxInvalidKey))"

definition ValidateInboxPriority :: "string \<Rightarrow> error option" where
  "ValidateInboxPriority p = (if p \<in> {'''', ''low'', ''normal'', ''urgent''} then None else Some ErrInboxInvalidPriority)"

definition ValidateEpicID :: "string \<Rightarrow> error option" where
  "ValidateEpicID key = (if two_parts key then None else Some ErrEpicInvalidID)"

definition ValidateEpicStatus :: "string \<Rightarrow> error option" where
  "ValidateEpicStatus s = (if s \<in> {'''', ''open'', ''in_progress'', ''done'', ''blocked''} then None else Some ErrEpicInvalidStatus)"

definition ValidateEpicPriority :: "string \<Rightarrow> error option" where
  "ValidateEpicPriority p = (if p \<in> {'''', ''P0'', ''P1'', ''P2'', ''P3''} then None else Some ErrEpicInvalidPriority)"

section \<open>The store\<close>

text \<open>What the store is built on: BoltDB, JSON, the disk and the time format.\<close>

record 'b kbase =
  kb_bolt :: "('b, string) bolt"
  kb_json :: "KnowledgeEntry codec_of"
  kb_os :: os
  kb_stamp :: "int \<Rightarrow> string"
  kb_unstamp :: "string \<Rightarrow> int option"

record 'b KnowledgeStore =
  ks_db :: "'b buckets"
  ks_syncDir :: string
  ks_disk :: disk

definition SetSyncDir :: "string \<Rightarrow> 'b KnowledgeStore \<Rightarrow> 'b KnowledgeStore" where
  "SetSyncDir dir st = st\<lparr>ks_syncDir := dir\<rparr>"

text \<open>
  Opening takes the lock in at most five attempts; the delays before the next attempt are in
  milliseconds, without the random addition of up to a fifth. The result is an error, with
  whether the lock is held, or the buckets.
\<close>

definition baseDelays :: "int list" where "baseDelays = [50, 100, 200, 400, 800]"

fun lock_attempts :: "(nat \<Rightarrow> error option) \<Rightarrow> nat \<Rightarrow> nat \<Rightarrow> int list \<times> error option" where
  "lock_attempts flock i 0 = ([], Some ErrLockBusy)"
| "lock_attempts flock i (Suc n) =
     (case flock i of
        None \<Rightarrow> ([], None)
      | Some e \<Rightarrow>
          if n = 0 then ([], Some e)
          else (case lock_attempts flock (Suc i) n of (ds, r) \<Rightarrow> (baseDelays ! i # ds, r)))"

definition Open :: "os \<Rightarrow> error option \<Rightarrow> (nat \<Rightarrow> error option) \<Rightarrow> error + 'b buckets \<Rightarrow> string \<Rightarrow> (error + 'b buckets) \<times> bool" where
  "Open S lock_file flock db path =
     (case os_mkdir S (dir_of path) of
        Some e \<Rightarrow> (Inl (Wrap ''knowledge: mkdir: '' e), False)
      | None \<Rightarrow> (case lock_file of
            Some e \<Rightarrow> (Inl (Wrap ''knowledge: open lock: '' e), False)
          | None \<Rightarrow> (case snd (lock_attempts flock 0 5) of
                Some e \<Rightarrow> (Inl (Wrap ''knowledge: lock busy: '' e), False)
              | None \<Rightarrow> (case db of
                    Inl e \<Rightarrow> (Inl (Wrap ''knowledge: open db: '' e), False)
                  | Inr bs \<Rightarrow> (Inr bs, True)))))"

section \<open>Writing an entry\<close>

definition put_gate :: "string \<Rightarrow> string \<Rightarrow> KnowledgeEntry \<Rightarrow> error option" where
  "put_gate ns key e =
     (if ns = NSInbox \<and> ValidateInboxKey key \<noteq> None then ValidateInboxKey key
      else if ns = NSEpics then
        (if ValidateEpicID key \<noteq> None then ValidateEpicID key
         else if ke_EpicStatus e \<noteq> '''' \<and> ValidateEpicStatus (ke_EpicStatus e) \<noteq> None then ValidateEpicStatus (ke_EpicStatus e)
         else if ke_Priority e \<noteq> '''' then ValidateEpicPriority (ke_Priority e)
         else None)
      else None)"

definition overwrites :: "string \<Rightarrow> int \<Rightarrow> KnowledgeEntry \<Rightarrow> KnowledgeEntry \<Rightarrow> bool" where
  "overwrites ns now old e \<longleftrightarrow>
     ns \<noteq> NSConflicts \<and> ns \<noteq> NSInbox \<and> ke_UpdatedAt old > 0 \<and> now - ke_UpdatedAt old < 10 \<and>
     ke_SessionAgentID old \<noteq> '''' \<and> ke_SessionAgentID e \<noteq> '''' \<and> ke_SessionAgentID old \<noteq> ke_SessionAgentID e"

definition decoded :: "KnowledgeEntry codec_of \<Rightarrow> string \<Rightarrow> KnowledgeEntry option" where
  "decoded C s = (case jc_dec C s of (e, None) \<Rightarrow> Some e | (_, Some _) \<Rightarrow> None)"

text \<open>The first transaction: the entry as it is stored, and the one it overwrites when sessions clash.\<close>

definition put_row ::
    "'b kbase \<Rightarrow> int \<Rightarrow> string \<Rightarrow> string \<Rightarrow> KnowledgeEntry \<Rightarrow> 'b buckets \<Rightarrow>
      (KnowledgeEntry \<times> KnowledgeEntry option) \<times> (error + 'b buckets)" where
  "put_row K now ns key e bs0 =
     (let bs = create_if_missing (kb_bolt K) (bucketKey ns) bs0
      in case bs (bucketKey ns) of
           None \<Rightarrow> ((e, None), Inl nil_panic)
         | Some bkt \<Rightarrow>
             (let old = (case bk_get (kb_bolt K) bkt key of None \<Rightarrow> None | Some s \<Rightarrow> decoded (kb_json K) s);
                  e1 = (case old of None \<Rightarrow> e | Some d \<Rightarrow> if ke_CreatedAt d \<noteq> 0 then e\<lparr>ke_CreatedAt := ke_CreatedAt d\<rparr> else e);
                  lost = (case old of None \<Rightarrow> None | Some d \<Rightarrow> if overwrites ns now d e1 then Some d else None);
                  e2 = (if ke_CreatedAt e1 = 0 then e1\<lparr>ke_CreatedAt := now\<rparr> else e1)
              in ((e2, lost), andthen (jc_enc (kb_json K) e2) (\<lambda>data. tx_put (kb_bolt K) (bucketKey ns) key data bs))))"

definition conflict_key :: "string \<Rightarrow> string \<Rightarrow> int \<Rightarrow> string" where
  "conflict_key ns key now = ns @ '':'' @ key @ '':'' @ dec_int now"

definition conflict_record :: "string \<Rightarrow> string \<Rightarrow> int \<Rightarrow> string \<Rightarrow> KnowledgeEntry \<Rightarrow> KnowledgeEntry" where
  "conflict_record ns key now winner old =
     old\<lparr>ke_Key := conflict_key ns key now, ke_Namespace := NSConflicts,
        ke_Tags := ke_Tags old @ [''conflict_of:'' @ ns @ ''/'' @ key, ''winner:'' @ winner]\<rparr>"

definition log_conflict ::
    "'b kbase \<Rightarrow> int \<Rightarrow> string \<Rightarrow> string \<Rightarrow> string \<Rightarrow> KnowledgeEntry \<Rightarrow> 'b buckets \<Rightarrow> error option \<times> 'b buckets" where
  "log_conflict K now ns key winner old = wal_update (kb_bolt K) (\<lambda>bs0.
     put_json (kb_json K) (kb_bolt K) (bucketKey NSConflicts) (conflict_key ns key now)
       (conflict_record ns key now winner old) (create_if_missing (kb_bolt K) (bucketKey NSConflicts) bs0))"

definition Put_know ::
    "'b kbase \<Rightarrow> int \<Rightarrow> string \<Rightarrow> string \<Rightarrow> KnowledgeEntry \<Rightarrow> 'b KnowledgeStore \<Rightarrow> error option \<times> 'b KnowledgeStore" where
  "Put_know K now ns key e0 st =
     (case put_gate ns key e0 of
        Some err \<Rightarrow> (Some err, st)
      | None \<Rightarrow>
          (case db_update (kb_bolt K)
              (put_row K now ns key (e0\<lparr>ke_Namespace := ns, ke_Key := key, ke_UpdatedAt := now\<rparr>)) (ks_db st) of
             (_, Some err, db) \<Rightarrow> (Some err, st\<lparr>ks_db := db\<rparr>)
           | ((e, lost), None, db) \<Rightarrow>
               (let db1 = (case lost of
                      None \<Rightarrow> db
                    | Some old \<Rightarrow> snd (log_conflict K now ns key (ke_SessionAgentID e) old db));
                    dk = (if ks_syncDir st \<noteq> '''' then snd (ExportEntry (kb_os K) (kb_stamp K) (ks_syncDir st) e (ks_disk st))
                          else ks_disk st)
                in (None, st\<lparr>ks_db := db1, ks_disk := dk\<rparr>))))"

section \<open>Reading and deleting\<close>

definition Get_know :: "'b kbase \<Rightarrow> string \<Rightarrow> string \<Rightarrow> 'b KnowledgeStore \<Rightarrow> error + KnowledgeEntry" where
  "Get_know K ns key st =
     (case ks_db st (bucketKey ns) of
        None \<Rightarrow> Inl ErrNotFound
      | Some bkt \<Rightarrow> (case bk_get (kb_bolt K) bkt key of
            None \<Rightarrow> Inl ErrNotFound
          | Some data \<Rightarrow> (case jc_dec (kb_json K) data of (e, None) \<Rightarrow> Inr e | (_, Some err) \<Rightarrow> Inl err)))"

definition Delete_know :: "'b kbase \<Rightarrow> string \<Rightarrow> string \<Rightarrow> 'b KnowledgeStore \<Rightarrow> error option \<times> 'b KnowledgeStore" where
  "Delete_know K ns key st =
     (case wal_update (kb_bolt K) (\<lambda>bs. case bs (bucketKey ns) of
          None \<Rightarrow> Inr bs
        | Some bkt \<Rightarrow> (case bk_delete (kb_bolt K) bkt key of
              Inl e \<Rightarrow> Inl e
            | Inr b \<Rightarrow> Inr (bs(bucketKey ns \<mapsto> b)))) (ks_db st) of
        (Some e, db) \<Rightarrow> (Some e, st\<lparr>ks_db := db\<rparr>)
      | (None, db) \<Rightarrow> (None, st\<lparr>ks_db := db,
          ks_disk := (if ks_syncDir st \<noteq> ''''
            then remove_file (kb_os K) (path_join [ks_syncDir st, ns, safeFilename key @ ''.md'']) (ks_disk st)
            else ks_disk st)\<rparr>))"

text \<open>The rows of a namespace that decode, in the order of their keys.\<close>

definition ns_rows :: "'b kbase \<Rightarrow> string \<Rightarrow> 'b buckets \<Rightarrow> (string \<times> KnowledgeEntry) list" where
  "ns_rows K ns bs =
     (case bs (bucketKey ns) of
        None \<Rightarrow> []
      | Some bkt \<Rightarrow> List.map_filter (\<lambda>(k, v). map_option (Pair k) (decoded (kb_json K) v)) (bk_items (kb_bolt K) bkt))"

definition List_know :: "'b kbase \<Rightarrow> string \<Rightarrow> string \<Rightarrow> 'b KnowledgeStore \<Rightarrow> KnowledgeEntry list" where
  "List_know K ns tag st = filter (\<lambda>e. tag = '''' \<or> tag \<in> set (ke_Tags e)) (List.map snd (ns_rows K ns (ks_db st)))"

text \<open>The names of all buckets, in byte order, are an argument.\<close>

definition ListNamespaces :: "string list \<Rightarrow> string list" where
  "ListNamespaces names = List.map_filter (\<lambda>n. cut_prefix n ''knowledge:'') names"

definition search_bucket :: "int \<Rightarrow> string \<Rightarrow> KnowledgeEntry list \<Rightarrow> KnowledgeEntry list \<Rightarrow> KnowledgeEntry list" where
  "search_bucket k q = foldl (\<lambda>found e.
     if k > 0 \<and> int (length found) \<ge> k then found
     else if str_contains (to_lower (ke_Key e)) q \<or> str_contains (to_lower (ke_Content e)) q then found @ [e]
     else found)"

definition Search_know :: "'b kbase \<Rightarrow> string list \<Rightarrow> string \<Rightarrow> string \<Rightarrow> int \<Rightarrow> 'b KnowledgeStore \<Rightarrow> KnowledgeEntry list" where
  "Search_know K names ns query k st =
     (let q = to_lower query
      in if ns \<noteq> '''' \<and> ns \<noteq> ''*'' then search_bucket k q [] (List.map snd (ns_rows K ns (ks_db st)))
         else foldl (\<lambda>found n. if k > 0 \<and> int (length found) \<ge> k then found
             else search_bucket k q found (List.map snd (ns_rows K n (ks_db st)))) [] (ListNamespaces names))"

section \<open>Inbox\<close>

definition countInboxFromSince :: "'b kbase \<Rightarrow> string \<Rightarrow> string \<Rightarrow> int \<Rightarrow> 'b buckets \<Rightarrow> nat" where
  "countInboxFromSince K sender exemptKey sinceUnix bs =
     length (filter (\<lambda>(k, e). k \<noteq> exemptKey \<and> ke_From e = sender \<and> ke_UpdatedAt e \<ge> sinceUnix) (ns_rows K NSInbox bs))"

definition InboxQuotaPerSenderPerHour :: int where "InboxQuotaPerSenderPerHour = 30"

definition inbox_entry :: "string \<Rightarrow> string \<Rightarrow> string \<Rightarrow> KnowledgeEntry" where
  "inbox_entry from content priority =
     blank_entry\<lparr>ke_Content := content, ke_Tags := [''inbox'', ''from:'' @ from], ke_From := from, ke_Priority := priority\<rparr>"

text \<open>\<open>now0\<close> is read for the quota, \<open>now\<close> by \<^const>\<open>Put_know\<close>.\<close>

definition PutInbox ::
    "'b kbase \<Rightarrow> int \<Rightarrow> int \<Rightarrow> string \<Rightarrow> string \<Rightarrow> string \<Rightarrow> string \<Rightarrow> int \<Rightarrow> 'b KnowledgeStore \<Rightarrow> error option \<times> 'b KnowledgeStore" where
  "PutInbox K now0 now from key content priority0 quotaPerHour0 st =
     (if from = '''' then (Some ErrInboxMissingFrom, st)
      else if ValidateInboxKey key \<noteq> None then (ValidateInboxKey key, st)
      else if ValidateInboxPriority priority0 \<noteq> None then (ValidateInboxPriority priority0, st)
      else (let priority = (if priority0 = '''' then ''normal'' else priority0);
                quotaPerHour = (if quotaPerHour0 \<le> 0 then InboxQuotaPerSenderPerHour else quotaPerHour0);
                n = countInboxFromSince K from key (now0 - 3600) (ks_db st)
            in if int n \<ge> quotaPerHour
               then (Some (Wrap (''sender='' @ from @ '' count='' @ dec n @ '' cap='' @ dec_int quotaPerHour) ErrInboxQuotaExceeded), st)
               else Put_know K now NSInbox key (inbox_entry from content priority) st))"

definition MarkInboxRead :: "'b kbase \<Rightarrow> int \<Rightarrow> int \<Rightarrow> string \<Rightarrow> 'b KnowledgeStore \<Rightarrow> error option \<times> 'b KnowledgeStore" where
  "MarkInboxRead K now0 now key st =
     (case ValidateInboxKey key of
        Some e \<Rightarrow> (Some e, st)
      | None \<Rightarrow> (case Get_know K NSInbox key st of
            Inl e \<Rightarrow> (Some e, st)
          | Inr existing \<Rightarrow> Put_know K now NSInbox key (existing\<lparr>ke_ReadAt := now0\<rparr>) st))"

text \<open>\<^verbatim>\<open>sort.Slice\<close> leaves the order of entries of one second open; here they stay in the order of their keys.\<close>

definition ListInboxFor :: "'b kbase \<Rightarrow> string \<Rightarrow> bool \<Rightarrow> 'b KnowledgeStore \<Rightarrow> error + KnowledgeEntry list" where
  "ListInboxFor K targetWSID unreadOnly st =
     (if targetWSID = '''' then Inl (Err ''inbox list: targetWSID is required'')
      else Inr (sort_key (\<lambda>e. - ke_UpdatedAt e) (List.map snd
        (filter (\<lambda>(k, e). has_prefix k (''to-'' @ targetWSID @ ''-'') \<and> \<not> (unreadOnly \<and> ke_ReadAt e \<noteq> 0))
          (ns_rows K NSInbox (ks_db st))))))"

section \<open>Epics\<close>

definition epic_entry ::
    "string \<Rightarrow> string \<Rightarrow> string \<Rightarrow> string \<Rightarrow> string \<Rightarrow> string list \<Rightarrow> string list \<Rightarrow> KnowledgeEntry" where
  "epic_entry title content status priority ownerWSID affected blocks =
     blank_entry\<lparr>ke_Content := content,
       ke_Tags := [''epic'', ''status:'' @ status] @ (if priority \<noteq> '''' then [''priority:'' @ priority] else []),
       ke_Priority := priority, ke_EpicTitle := title, ke_EpicStatus := status, ke_EpicOwner := ownerWSID,
       ke_EpicAffected := affected, ke_EpicBlocks := blocks, ke_EpicCreatedBy := ownerWSID\<rparr>"

definition PutEpic ::
    "'b kbase \<Rightarrow> int \<Rightarrow> string \<Rightarrow> string \<Rightarrow> string \<Rightarrow> string \<Rightarrow> string \<Rightarrow> string \<Rightarrow> string list \<Rightarrow> string list \<Rightarrow>
      'b KnowledgeStore \<Rightarrow> error option \<times> 'b KnowledgeStore" where
  "PutEpic K now key title content status0 priority ownerWSID affected blocks st =
     (if ValidateEpicID key \<noteq> None then (ValidateEpicID key, st)
      else if ValidateEpicStatus status0 \<noteq> None then (ValidateEpicStatus status0, st)
      else if ValidateEpicPriority priority \<noteq> None then (ValidateEpicPriority priority, st)
      else Put_know K now NSEpics key
        (epic_entry title content (if status0 = '''' then ''open'' else status0) priority ownerWSID affected blocks) st)"

definition ListEpicsByStatus :: "'b kbase \<Rightarrow> string \<Rightarrow> 'b KnowledgeStore \<Rightarrow> KnowledgeEntry list" where
  "ListEpicsByStatus K status st =
     (let es = List_know K NSEpics '''' st
      in if status = '''' then es else sort_key ke_Key (filter (\<lambda>e. ke_EpicStatus e = status) es))"

section \<open>Conflicts\<close>

definition CountConflicts :: "'b kbase \<Rightarrow> 'b KnowledgeStore \<Rightarrow> nat" where
  "CountConflicts K st =
     (case ks_db st (bucketKey NSConflicts) of None \<Rightarrow> 0 | Some bkt \<Rightarrow> length (bk_items (kb_bolt K) bkt))"

text \<open>The namespace and key named by the last tag of the form \<^verbatim>\<open>conflict_of:<ns>/<key>\<close>.\<close>

definition origin :: "string list \<Rightarrow> string \<times> string" where
  "origin tags = foldl (\<lambda>o0 tag. case cut_prefix tag ''conflict_of:'' of
       None \<Rightarrow> o0
     | Some after \<Rightarrow> (case str_cut after ''/'' of None \<Rightarrow> o0 | Some p \<Rightarrow> p)) ('''', '''') tags"

definition resolve_tx :: "'b kbase \<Rightarrow> int \<Rightarrow> string \<Rightarrow> string \<Rightarrow> 'b buckets \<Rightarrow> error + 'b buckets" where
  "resolve_tx K now conflictKey winner bs =
     (case bs (bucketKey NSConflicts) of
        None \<Rightarrow> Inl (Err ''no conflicts namespace'')
      | Some bkt \<Rightarrow> (case bk_get (kb_bolt K) bkt conflictKey of
            None \<Rightarrow> Inl (Err (''conflict key '' @ quoted (CHR 0x22) conflictKey @ '' not found''))
          | Some raw \<Rightarrow>
              andthen
                (if winner = ''B'' then
                   (case jc_dec (kb_json K) raw of
                      (_, Some e) \<Rightarrow> Inl e
                    | (loser, None) \<Rightarrow> (case origin (ke_Tags loser) of (origNS, origKey) \<Rightarrow>
                        if origNS = '''' \<or> origKey = '''' then Inl (Err ''conflict entry missing conflict_of tag'')
                        else put_json (kb_json K) (kb_bolt K) (bucketKey origNS) origKey
                          (loser\<lparr>ke_Namespace := origNS, ke_Key := origKey, ke_UpdatedAt := now\<rparr>)
                          (create_if_missing (kb_bolt K) (bucketKey origNS) bs)))
                 else Inr bs)
                (\<lambda>bs1. case bs1 (bucketKey NSConflicts) of
                    None \<Rightarrow> Inl nil_panic
                  | Some b1 \<Rightarrow> (case bk_delete (kb_bolt K) b1 conflictKey of
                        Inl e \<Rightarrow> Inl e
                      | Inr b2 \<Rightarrow> Inr (bs1(bucketKey NSConflicts \<mapsto> b2))))))"

definition ResolveConflict ::
    "'b kbase \<Rightarrow> int \<Rightarrow> string \<Rightarrow> string \<Rightarrow> 'b KnowledgeStore \<Rightarrow> error option \<times> 'b KnowledgeStore" where
  "ResolveConflict K now conflictKey winner st =
     (if winner \<noteq> ''A'' \<and> winner \<noteq> ''B''
      then (Some (Err (''resolve_conflict: winner must be '' @ quoted (CHR 0x27) ''A'' @ '' or '' @ quoted (CHR 0x27) ''B'' @ '', got '' @ quoted (CHR 0x22) winner)), st)
      else (case wal_update (kb_bolt K) (resolve_tx K now conflictKey winner) (ks_db st) of
              (e, db) \<Rightarrow> (e, st\<lparr>ks_db := db\<rparr>)))"

end
