(* ===== verification/Know_Cache.thy ===== *)
theory Know_Cache
  imports Know_Store
begin

text \<open>
  What sits over the knowledge store: the cache of hot entries (\<^verbatim>\<open>pkg/knowledge/hotcache.go\<close>), the
  watcher that copies edited markdown files back (\<^verbatim>\<open>filesync.go\<close>), the owner of the org store
  (\<^verbatim>\<open>org_store.go\<close>) and the knowledge actions of the memory tool (\<^verbatim>\<open>cmd/neo-mcp/tool_memory.go\<close>).
  A tool call that is passed on to another process is an answer of its own.
\<close>

section \<open>Hot entries\<close>

type_synonym HotCache = "string \<Rightarrow> KnowledgeEntry option"

definition NewHotCache :: HotCache where "NewHotCache = Map.empty"

definition hot_key :: "string \<Rightarrow> string \<Rightarrow> string" where "hot_key ns key = ns @ '':'' @ key"

definition hot_load_ns :: "string \<Rightarrow> KnowledgeEntry list \<Rightarrow> HotCache \<Rightarrow> HotCache" where
  "hot_load_ns ns es hc = foldl (\<lambda>h e. if ke_Hot e then h(hot_key ns (ke_Key e) \<mapsto> e) else h) hc es"

definition hot_load :: "'b kbase \<Rightarrow> string list \<Rightarrow> 'b KnowledgeStore \<Rightarrow> HotCache \<Rightarrow> HotCache" where
  "hot_load K names st hc = foldl (\<lambda>h ns. hot_load_ns ns (List_know K ns '''' st) h) hc (ListNamespaces names)"

definition hot_set :: "KnowledgeEntry \<Rightarrow> HotCache \<Rightarrow> HotCache" where
  "hot_set e hc =
     (let k = hot_key (ke_Namespace e) (ke_Key e)
      in if ke_Hot e then hc(k \<mapsto> e) else hc(k := None))"

definition hot_get :: "string \<Rightarrow> string \<Rightarrow> HotCache \<Rightarrow> KnowledgeEntry option" where
  "hot_get ns key hc = hc (hot_key ns key)"

definition hot_delete :: "string \<Rightarrow> string \<Rightarrow> HotCache \<Rightarrow> HotCache" where
  "hot_delete ns key hc = hc(hot_key ns key := None)"

section \<open>The watcher\<close>

definition isStaleWrite :: "'b kbase \<Rightarrow> KnowledgeEntry \<Rightarrow> 'b KnowledgeStore \<Rightarrow> bool" where
  "isStaleWrite K e st =
     (if ke_UpdatedAt e \<le> 0 then False
      else (case Get_know K (ke_Namespace e) (ke_Key e) st of
          Inl _ \<Rightarrow> False
        | Inr existing \<Rightarrow> \<not> ke_UpdatedAt existing \<le> ke_UpdatedAt e))"

definition applyFSWrite :: "'b kbase \<Rightarrow> int \<Rightarrow> string \<Rightarrow> 'b KnowledgeStore \<times> HotCache \<Rightarrow> 'b KnowledgeStore \<times> HotCache" where
  "applyFSWrite K now path = (\<lambda>(st, hc).
     (case ImportEntry (kb_os K) (kb_unstamp K) path (ks_disk st) of
        Inl _ \<Rightarrow> (st, hc)
      | Inr e \<Rightarrow>
          if isStaleWrite K e st then (st, hc)
          else (case Put_know K now (ke_Namespace e) (ke_Key e) e st of
              (Some _, st1) \<Rightarrow> (st1, hc)
            | (None, st1) \<Rightarrow> (st1, hot_set e hc))))"

definition applyFSRemove :: "'b kbase \<Rightarrow> string \<Rightarrow> 'b KnowledgeStore \<times> HotCache \<Rightarrow> 'b KnowledgeStore \<times> HotCache" where
  "applyFSRemove K path = (\<lambda>(st, hc).
     (let base = trim_suffix (base_of path) ''.md''; ns = base_of (dir_of path)
      in (snd (Delete_know K ns base st), hot_delete ns base hc)))"

record fs_event =
  ev_Name :: string
  ev_Create :: bool
  ev_Write :: bool
  ev_Remove :: bool
  ev_Rename :: bool

text \<open>The watched directories, to which a new one is added, come last in the state.\<close>

definition handleFSEvent ::
    "'b kbase \<Rightarrow> (string \<Rightarrow> bool) \<Rightarrow> int \<Rightarrow> fs_event \<Rightarrow> ('b KnowledgeStore \<times> HotCache) \<times> string list \<Rightarrow>
      ('b KnowledgeStore \<times> HotCache) \<times> string list" where
  "handleFSEvent K is_dir now ev = (\<lambda>(s, watched).
     (if ev_Create ev \<and> is_dir (ev_Name ev) then (s, watched @ [ev_Name ev])
      else if \<not> has_suffix (ev_Name ev) ''.md'' then (s, watched)
      else if ev_Write ev \<or> ev_Create ev then (applyFSWrite K now (ev_Name ev) s, watched)
      else if ev_Remove ev \<or> ev_Rename ev then (applyFSRemove K (ev_Name ev) s, watched)
      else (s, watched)))"

text \<open>The markdown files below the directory, in the order of the walk, each with the clock when it is put.\<close>

fun BootstrapFromFiles :: "'b kbase \<Rightarrow> (string \<times> int) list \<Rightarrow> 'b KnowledgeStore \<times> HotCache \<Rightarrow> 'b KnowledgeStore \<times> HotCache" where
  "BootstrapFromFiles K [] s = s"
| "BootstrapFromFiles K ((path, now) # paths) (st, hc) =
     (if \<not> has_suffix path ''.md'' then BootstrapFromFiles K paths (st, hc)
      else (case ImportEntry (kb_os K) (kb_unstamp K) path (ks_disk st) of
          Inl _ \<Rightarrow> BootstrapFromFiles K paths (st, hc)
        | Inr e \<Rightarrow> (case Put_know K now (ke_Namespace e) (ke_Key e) e st of
              (Some _, st1) \<Rightarrow> BootstrapFromFiles K paths (st1, hc)
            | (None, st1) \<Rightarrow> BootstrapFromFiles K paths (st1, if ke_Hot e then hot_set e hc else hc))))"

section \<open>The org store\<close>

record OrgStoreConfig =
  oc_OrgDir :: string
  oc_ProjectRoot :: string
  oc_CoordinatorProject :: string
  oc_DBPathOverride :: string
  oc_IsStandaloneWorkspace :: bool

definition isCoordinatorProject :: "string \<Rightarrow> string \<Rightarrow> bool" where
  "isCoordinatorProject projectRoot coordinator \<longleftrightarrow>
     coordinator = '''' \<or> projectRoot = coordinator \<or> base_of projectRoot = coordinator \<or>
     base_of projectRoot = base_of coordinator"

definition ErrOrgStoreReadOnly :: error where
  "ErrOrgStoreReadOnly = Err ''knowledge: org store is read-only from non-coordinator projects''"

definition OpenOrgStore :: "(string \<Rightarrow> error + 'b buckets) \<Rightarrow> OrgStoreConfig \<Rightarrow> error + 'b buckets option" where
  "OpenOrgStore open_at cfg =
     (if oc_IsStandaloneWorkspace cfg \<or> oc_OrgDir cfg = '''' then Inr None
      else if \<not> isCoordinatorProject (oc_ProjectRoot cfg) (oc_CoordinatorProject cfg) then Inl ErrOrgStoreReadOnly
      else (let path = (if oc_DBPathOverride cfg = '''' then path_join [oc_OrgDir cfg, ''db'', ''org.db'']
                        else oc_DBPathOverride cfg)
            in (case open_at path of
                 Inl e \<Rightarrow> Inl (Wrap (''org_store: open '' @ path @ '': '') e)
               | Inr bs \<Rightarrow> Inr (Some bs))))"

section \<open>The memory tool\<close>

record 'b MemoryTool =
  mt_ks :: "'b KnowledgeStore option"
  mt_hc :: "HotCache option"
  mt_bus :: "string list option"
  mt_workspace :: string
  mt_coordinatorWSID :: string
  mt_orgKS :: "'b KnowledgeStore option"
  mt_orgWriters :: "string list"

datatype which = Project | Org

datatype 'r answer = Proxy string | Fail error | Done 'r

definition checkOrgWriteAllowed :: "(string \<Rightarrow> string) \<Rightarrow> 'b MemoryTool \<Rightarrow> error option" where
  "checkOrgWriteAllowed resolveWorkspaceID t =
     (if mt_orgWriters t = [] then None
      else (let callerID = resolveWorkspaceID (mt_workspace t); callerBase = base_of (mt_workspace t)
            in if \<exists>w\<in>set (mt_orgWriters t). w = callerID \<or> w = callerBase \<or> base_of w = callerBase then None
               else Some (Err (''org: workspace '' @ quoted (CHR 0x22) callerBase @ '' not in writers allowlist''))))"

definition resolveStoreTier ::
    "(string \<Rightarrow> string) \<Rightarrow> string \<Rightarrow> 'b MemoryTool \<Rightarrow> error + which \<times> 'b KnowledgeStore" where
  "resolveStoreTier wsid tier t =
     (if tier = '''' \<or> tier = ''project'' \<or> tier = ''workspace'' then
        (case mt_ks t of
           None \<Rightarrow> Inl (Err (''tier='' @ quoted (CHR 0x22) tier @ '' requires project mode (KnowledgeStore not available)''))
         | Some ks \<Rightarrow> Inr (Project, ks))
      else if tier = ''org'' then
        (case mt_orgKS t of
           None \<Rightarrow> Inl (Err ''tier=org requires this project to be the org coordinator'')
         | Some ks \<Rightarrow> (case checkOrgWriteAllowed wsid t of Some e \<Rightarrow> Inl e | None \<Rightarrow> Inr (Org, ks)))
      else Inl (Err (''tier='' @ quoted (CHR 0x22) tier @ '' unsupported here'')))"

fun with_store :: "which \<Rightarrow> 'b KnowledgeStore \<Rightarrow> 'b MemoryTool \<Rightarrow> 'b MemoryTool" where
  "with_store Project ks t = t\<lparr>mt_ks := Some ks\<rparr>"
| "with_store Org ks t = t\<lparr>mt_orgKS := Some ks\<rparr>"

text \<open>The arguments of a call, missing ones empty.\<close>

record store_args =
  sa_tier :: string
  sa_namespace :: string
  sa_key :: string
  sa_content :: string
  sa_hot :: bool
  sa_tags :: "string list"
  sa_from :: string
  sa_thread_id :: string
  sa_priority :: string

definition buildStoreEntry :: "string \<Rightarrow> string \<Rightarrow> string \<Rightarrow> store_args \<Rightarrow> KnowledgeEntry" where
  "buildStoreEntry session ns key a =
     (let e = blank_entry\<lparr>ke_Key := key, ke_Namespace := ns, ke_Content := sa_content a, ke_Tags := sa_tags a, ke_Hot := sa_hot a,
                ke_SessionAgentID := session\<rparr>
      in if ns = NSInbox then e\<lparr>ke_From := sa_from a, ke_ThreadID := sa_thread_id a, ke_Priority := sa_priority a\<rparr> else e)"

definition publishContractKnowledgeUpdated :: "string \<Rightarrow> string \<Rightarrow> 'b MemoryTool \<Rightarrow> 'b MemoryTool" where
  "publishContractKnowledgeUpdated ns key t =
     (case mt_bus t of
        None \<Rightarrow> t
      | Some evs \<Rightarrow> if ns = NSContracts then t\<lparr>mt_bus := Some (evs @ [key])\<rparr> else t)"

definition proxied :: "string \<Rightarrow> 'b MemoryTool \<Rightarrow> string option" where
  "proxied tier t =
     (if tier = ''nexus'' then Some ''nexus''
      else if mt_ks t = None \<and> mt_coordinatorWSID t \<noteq> '''' then Some (mt_coordinatorWSID t)
      else None)"

definition missing_names :: error where "missing_names = Err ''namespace and key are required''"

definition execStore ::
    "'b kbase \<Rightarrow> (string \<Rightarrow> string) \<Rightarrow> string \<Rightarrow> int \<Rightarrow> store_args \<Rightarrow> 'b MemoryTool \<Rightarrow> (bool \<times> string) answer \<times> 'b MemoryTool" where
  "execStore K wsid session now a t =
     (case proxied (sa_tier a) t of
        Some p \<Rightarrow> (Proxy p, t)
      | None \<Rightarrow> (case resolveStoreTier wsid (sa_tier a) t of
            Inl e \<Rightarrow> (Fail (Wrap ''neo_memory store: '' e), t)
          | Inr (w, ks) \<Rightarrow>
              (let ns = sa_namespace a; key = sa_key a
               in if ns = '''' \<or> key = '''' then (Fail (Wrap ''neo_memory store: '' missing_names), t)
                  else (let e = buildStoreEntry session ns key a
                        in (case Put_know K now ns key e ks of
                             (Some err, ks1) \<Rightarrow> (Fail (Wrap ''neo_memory store: '' err), with_store w ks1 t)
                           | (None, ks1) \<Rightarrow>
                               (let t1 = (with_store w ks1 t)\<lparr>mt_hc := map_option (hot_set e) (mt_hc t)\<rparr>
                                in (Done (ke_Hot e, if sa_tier a = '''' then ''project'' else sa_tier a),
                                    publishContractKnowledgeUpdated ns key t1)))))))"

datatype source = HotHit KnowledgeEntry | FromStore KnowledgeEntry | NotThere

definition execFetch ::
    "'b kbase \<Rightarrow> (string \<Rightarrow> string) \<Rightarrow> string \<Rightarrow> string \<Rightarrow> string \<Rightarrow> 'b MemoryTool \<Rightarrow> source answer" where
  "execFetch K wsid tier ns key t =
     (case proxied tier t of
        Some p \<Rightarrow> Proxy p
      | None \<Rightarrow> (case resolveStoreTier wsid tier t of
            Inl e \<Rightarrow> Fail (Wrap ''neo_memory fetch: '' e)
          | Inr (w, ks) \<Rightarrow>
              if ns = '''' \<or> key = '''' then Fail (Wrap ''neo_memory fetch: '' missing_names)
              else (case (case mt_hc t of None \<Rightarrow> None | Some hc \<Rightarrow> hot_get ns key hc) of
                  Some e \<Rightarrow> Done (HotHit e)
                | None \<Rightarrow> (case Get_know K ns key ks of Inl _ \<Rightarrow> Done NotThere | Inr e \<Rightarrow> Done (FromStore e)))))"

definition execDrop ::
    "'b kbase \<Rightarrow> (string \<Rightarrow> string) \<Rightarrow> string \<Rightarrow> string \<Rightarrow> string \<Rightarrow> 'b MemoryTool \<Rightarrow> string answer \<times> 'b MemoryTool" where
  "execDrop K wsid tier ns key t =
     (case proxied tier t of
        Some p \<Rightarrow> (Proxy p, t)
      | None \<Rightarrow> (case resolveStoreTier wsid tier t of
            Inl e \<Rightarrow> (Fail (Wrap ''neo_memory drop: '' e), t)
          | Inr (w, ks) \<Rightarrow>
              if ns = '''' \<or> key = '''' then (Fail (Wrap ''neo_memory drop: '' missing_names), t)
              else (case Delete_know K ns key ks of
                  (Some e, ks1) \<Rightarrow> (Fail (Wrap ''neo_memory drop: '' e), with_store w ks1 t)
                | (None, ks1) \<Rightarrow> (Done key, (with_store w ks1 t)\<lparr>mt_hc := map_option (hot_delete ns key) (mt_hc t)\<rparr>))))"

definition execResolveConflict ::
    "'b kbase \<Rightarrow> (string \<Rightarrow> string) \<Rightarrow> int \<Rightarrow> string \<Rightarrow> string \<Rightarrow> 'b MemoryTool \<Rightarrow> string answer \<times> 'b MemoryTool" where
  "execResolveConflict K wsid now conflictKey winner t =
     (if conflictKey = '''' \<or> winner \<noteq> ''A'' \<and> winner \<noteq> ''B''
      then (Fail (Err ''neo_memory resolve_conflict: conflict_key and winner (A|B) are required''), t)
      else (case resolveStoreTier wsid '''' t of
          Inl _ \<Rightarrow> (Fail (Err ''neo_memory resolve_conflict: store not available''), t)
        | Inr (w, ks) \<Rightarrow> (case ResolveConflict K now conflictKey winner ks of
              (Some e, ks1) \<Rightarrow> (Fail (Wrap ''neo_memory resolve_conflict: '' e), with_store w ks1 t)
            | (None, ks1) \<Rightarrow> (Done (if winner = ''A'' then ''kept current value'' else ''restored overwritten value''),
                with_store w ks1 t))))"

text \<open>The message to the owner of the epic goes over HTTP and changes nothing here.\<close>

definition execCompleteTask ::
    "'b kbase \<Rightarrow> int \<Rightarrow> string \<Rightarrow> string \<Rightarrow> 'b MemoryTool \<Rightarrow> string answer \<times> 'b MemoryTool" where
  "execCompleteTask K now epicKey result t =
     (if epicKey = '''' then (Fail (Err ''neo_memory complete_task: epic_key is required''), t)
      else (case mt_ks t of
          None \<Rightarrow> (Fail (Err ''neo_memory complete_task: requires project mode (KnowledgeStore not available)''), t)
        | Some ks \<Rightarrow> (case Get_know K NSEpics epicKey ks of
              Inl e \<Rightarrow> (Fail (Wrap (''neo_memory complete_task: get epic '' @ quoted (CHR 0x22) epicKey @ '': '') e), t)
            | Inr ep \<Rightarrow>
                (let ep1 = ep\<lparr>ke_EpicStatus := ''done''\<rparr>;
                     ep2 = (if result \<noteq> '''' then ep1\<lparr>ke_Content := ke_Content ep1 @ nl_text @ nl_text @ ''**Result:** '' @ result\<rparr> else ep1)
                 in (case Put_know K now NSEpics epicKey ep2 ks of
                      (Some e, ks1) \<Rightarrow> (Fail (Wrap ''neo_memory complete_task: update epic: '' e), with_store Project ks1 t)
                    | (None, ks1) \<Rightarrow> (Done (ke_EpicOwner ep), with_store Project ks1 t))))))"

end
