(* ===== verification/Json_Records.thy ===== *)
theory Json_Records
  imports Json_Iface
begin

text \<open>
  JSON codecs for records: a record is written as the list of its fields as texts. Integers are
  decimal, truth values a word, lists of strings marked strings; each of these can be read back,
  so every list of fields gives an instance of \<^term>\<open>json_codec\<close>. The sets of texts JSON keeps
  are those closed under concatenation that hold all ASCII texts, such as valid UTF-8.
\<close>

section \<open>Fields\<close>

definition int_of_text :: "string \<Rightarrow> int" where
  "int_of_text s = (if has_prefix s ''-'' then - int (digits_val (tl s)) else int (digits_val s))"

lemma int_of_text_dec [simp]: "int_of_text (dec_int i) = i"
proof -
  have no: "\<not> has_prefix (dec n) ''-''" for n
    using dec_no_char [of "CHR ''-''" n] by (auto simp: has_prefix_iff)
  show ?thesis using no by (simp add: int_of_text_def dec_int_def)
qed

definition strings_text :: "string list \<Rightarrow> string" where
  "strings_text ws = concat (List.map mark_string ws)"

definition strings_of_text :: "string \<Rightarrow> string list" where
  "strings_of_text s = (case read_marked s of None \<Rightarrow> [] | Some ws \<Rightarrow> ws)"

lemma strings_of_text_marked [simp]: "strings_of_text (strings_text ws) = ws"
  by (simp add: strings_of_text_def strings_text_def read_marks)

section \<open>Records\<close>

definition via_strings :: "('a \<Rightarrow> string list) \<Rightarrow> (string list \<Rightarrow> 'a) \<Rightarrow> 'a codec_of" where
  "via_strings put_fields get_fields =
     \<lparr>jc_enc = (\<lambda>x. jc_enc strings_codec (put_fields x)),
      jc_dec = (\<lambda>s. case jc_dec strings_codec s of (ws, r) \<Rightarrow> (get_fields ws, r))\<rparr>"

lemma via_strings_codec:
  assumes "\<And>x. get_fields (put_fields x) = x"
  shows "json_codec (via_strings put_fields get_fields) keeps"
proof
  fix x
  have e: "jc_enc strings_codec ws = Inr s \<Longrightarrow> s \<noteq> '''' \<and> jc_dec strings_codec s = (ws, None)" for ws s
    using lstrings.encoded [of ws] by auto
  show "\<exists>s. jc_enc (via_strings put_fields get_fields) x = Inr s \<and> s \<noteq> ''''"
    using lstrings.enc_ok [of "put_fields x"] by (simp add: via_strings_def)
  show "jc_dec (via_strings put_fields get_fields) s = (x, None)" if "jc_enc (via_strings put_fields get_fields) x = Inr s" for s
    using that e [of "put_fields x" s] assms by (simp add: via_strings_def)
qed

section \<open>Texts JSON keeps\<close>

definition is_ascii :: "string \<Rightarrow> bool" where
  "is_ascii s \<longleftrightarrow> (\<forall>c\<in>set s. of_char c < (128 :: nat))"

definition text_set :: "string set \<Rightarrow> bool" where
  "text_set Z \<longleftrightarrow> (\<forall>s. is_ascii s \<longrightarrow> s \<in> Z) \<and> (\<forall>s t. s \<in> Z \<longrightarrow> t \<in> Z \<longrightarrow> s @ t \<in> Z)"

lemma text_ascii: "text_set Z \<Longrightarrow> is_ascii s \<Longrightarrow> s \<in> Z" by (simp add: text_set_def)

lemma text_append: "text_set Z \<Longrightarrow> s \<in> Z \<Longrightarrow> t \<in> Z \<Longrightarrow> s @ t \<in> Z" by (simp add: text_set_def)

lemma text_UNIV: "text_set UNIV" by (simp add: text_set_def)

lemma digit_ascii: "is_digit c \<Longrightarrow> of_char c < (128 :: nat)"
  by (simp add: is_digit_def Let_def)

lemma dec_int_ascii: "is_ascii (dec_int i)"
proof -
  have "of_char c < (128 :: nat)" if "c \<in> set (dec n)" for c n
    using dec_digits [of n] that digit_ascii by (auto simp: list_all_iff)
  then show ?thesis by (auto simp: is_ascii_def dec_int_def)
qed

end
