(* ===== verification/Know_Rows.thy ===== *)
theory Know_Rows
  imports Know_Cache Json_Records
begin

text \<open>
  What the operations of the knowledge store do to its rows. The locale \<open>knowledge\<close> is a store
  over any bucket and any JSON codec that keeps the entries with texts in a set \<open>Z\<close>, such as valid
  UTF-8; it is interpreted on the ordered list and a codec that writes an entry field by field.
\<close>

section \<open>Rows\<close>

definition entry_in :: "string set \<Rightarrow> KnowledgeEntry \<Rightarrow> bool" where
  "entry_in Z e \<longleftrightarrow> {ke_Key e, ke_Namespace e, ke_Content e, ke_From e, ke_Priority e, ke_ThreadID e, ke_EpicTitle e,
      ke_EpicStatus e, ke_EpicOwner e, ke_EpicCreatedBy e, ke_SessionAgentID e} \<subseteq> Z \<and>
    set (ke_Tags e) \<union> set (ke_EpicAffected e) \<union> set (ke_EpicBlocks e) \<subseteq> Z"

definition row :: "'b kbase \<Rightarrow> 'b buckets \<Rightarrow> string \<Rightarrow> string \<Rightarrow> KnowledgeEntry option" where
  "row K bs ns key =
     (case bs (bucketKey ns) of
        None \<Rightarrow> None
      | Some bkt \<Rightarrow> (case bk_get (kb_bolt K) bkt key of None \<Rightarrow> None | Some s \<Rightarrow> decoded (kb_json K) s))"

definition with_row :: "string \<Rightarrow> string \<Rightarrow> KnowledgeEntry option \<Rightarrow> (string \<Rightarrow> string \<Rightarrow> KnowledgeEntry option) \<Rightarrow>
    string \<Rightarrow> string \<Rightarrow> KnowledgeEntry option" where
  "with_row ns key x R = (\<lambda>n k. if n = ns \<and> k = key then x else R n k)"

lemma with_row_id: "R ns key = x \<Longrightarrow> with_row ns key x R = R"
  by (auto simp: with_row_def fun_eq_iff)

lemma with_row_same [simp]: "with_row ns key x R ns key = x" by (simp add: with_row_def)

lemma with_row_other: "(n, k) \<noteq> (ns, key) \<Longrightarrow> with_row ns key x R n k = R n k" by (auto simp: with_row_def)

definition creation :: "int \<Rightarrow> KnowledgeEntry option \<Rightarrow> KnowledgeEntry \<Rightarrow> int" where
  "creation now old e =
     (case old of
        Some d \<Rightarrow> if ke_CreatedAt d \<noteq> 0 then ke_CreatedAt d else if ke_CreatedAt e = 0 then now else ke_CreatedAt e
      | None \<Rightarrow> if ke_CreatedAt e = 0 then now else ke_CreatedAt e)"

text \<open>The entry \<^const>\<open>Put_know\<close> stores.\<close>

definition stored_entry :: "int \<Rightarrow> string \<Rightarrow> string \<Rightarrow> KnowledgeEntry option \<Rightarrow> KnowledgeEntry \<Rightarrow> KnowledgeEntry" where
  "stored_entry now ns key old e =
     e\<lparr>ke_Namespace := ns, ke_Key := key, ke_UpdatedAt := now, ke_CreatedAt := creation now old e\<rparr>"

definition clash :: "string \<Rightarrow> int \<Rightarrow> KnowledgeEntry option \<Rightarrow> KnowledgeEntry \<Rightarrow> KnowledgeEntry option" where
  "clash ns now old e = (case old of None \<Rightarrow> None | Some d \<Rightarrow> if overwrites ns now d e then Some d else None)"

lemma bucketKey_inj [simp]: "bucketKey a = bucketKey b \<longleftrightarrow> a = b"
  by (simp add: bucketKey_def)

lemma get_row: "Get_know K ns key st = Inr e \<longleftrightarrow> row K (ks_db st) ns key = Some e"
  by (auto simp: Get_know_def row_def decoded_def split: option.splits prod.splits)

definition restored :: "int \<Rightarrow> KnowledgeEntry \<Rightarrow> KnowledgeEntry" where
  "restored now loser = (case origin (ke_Tags loser) of (ns, key) \<Rightarrow>
     loser\<lparr>ke_Namespace := ns, ke_Key := key, ke_UpdatedAt := now\<rparr>)"

locale knowledge =
  fixes K :: "'b kbase" and Z :: "string set"
  assumes bucket: "bolt_bucket (kb_bolt K)"
    and codec: "json_codec (kb_json K) (entry_in Z)"
    and texts: "text_set Z"
begin

lemma decoded_enc: "entry_in Z e \<Longrightarrow> jc_enc (kb_json K) e = Inr s \<Longrightarrow> decoded (kb_json K) s = Some e"
  using json_codec.dec_enc [OF codec] by (simp add: decoded_def)

lemma row_create [simp]: "row K (create_if_missing (kb_bolt K) name bs) = row K bs"
  using bolt_bucket.get_items [OF bucket] bolt_bucket.items_empty [OF bucket]
  by (auto simp: fun_eq_iff row_def create_if_missing_def split: option.splits)

lemma row_tx_put:
  assumes "tx_put (kb_bolt K) (bucketKey ns) key s bs = Inr bs'"
  shows "row K bs' = with_row ns key (decoded (kb_json K) s) (row K bs)"
proof -
  obtain b b' where b: "bs (bucketKey ns) = Some b" "bk_put (kb_bolt K) b key s = Inr b'" "bs' = bs(bucketKey ns \<mapsto> b')"
    using assms by (auto simp: tx_put_def split: option.splits sum.splits)
  show ?thesis
    using b bolt_bucket.get_after_put [OF bucket b(2)] by (auto simp: fun_eq_iff row_def with_row_def)
qed

lemma row_put_json:
  assumes "put_json (kb_json K) (kb_bolt K) (bucketKey ns) key e bs = Inr bs'" "entry_in Z e"
  shows "row K bs' = with_row ns key (Some e) (row K bs)"
  using assms row_tx_put [of ns key _ bs bs'] decoded_enc by (auto simp: put_json_def)

lemma row_delete:
  assumes "bs (bucketKey ns) = Some bkt" "bk_delete (kb_bolt K) bkt key = Inr b"
  shows "row K (bs(bucketKey ns \<mapsto> b)) = with_row ns key None (row K bs)"
  using assms bolt_bucket.get_items [OF bucket] bolt_bucket.delete_map [OF bucket]
  by (auto simp: fun_eq_iff row_def with_row_def)

section \<open>Operations\<close>

lemma conflict_in:
  assumes "entry_in Z old" "winner \<in> Z" "ns \<in> Z" "key \<in> Z"
  shows "entry_in Z (conflict_record ns key now winner old)"
proof -
  have a: "is_ascii '':''" "is_ascii ''/''" "is_ascii ''conflict_of:''" "is_ascii ''winner:''" "is_ascii NSConflicts"
    unfolding is_ascii_def NSConflicts_def by code_simp+
  note t = text_append [OF texts] text_ascii [OF texts a(1)] text_ascii [OF texts a(2)] text_ascii [OF texts a(3)]
    text_ascii [OF texts a(4)] text_ascii [OF texts a(5)] text_ascii [OF texts dec_int_ascii]
  have "conflict_key ns key now \<in> Z" unfolding conflict_key_def using assms(3,4) by (intro t)
  moreover have "''conflict_of:'' @ ns @ ''/'' @ key \<in> Z" using assms by (intro t)
  moreover have "''winner:'' @ winner \<in> Z" using assms by (intro t)
  ultimately show ?thesis using assms(1) t by (simp add: entry_in_def conflict_record_def)
qed

lemma put_row_result:
  assumes "put_row K now ns key (e\<lparr>ke_Namespace := ns, ke_Key := key, ke_UpdatedAt := now\<rparr>) bs = ((e', lost), Inr bs')"
    "entry_in Z (stored_entry now ns key (row K bs ns key) e)"
  shows "e' = stored_entry now ns key (row K bs ns key) e" "lost = clash ns now (row K bs ns key) e"
    "row K bs' = with_row ns key (Some e') (row K bs)"
proof -
  let ?bs = "create_if_missing (kb_bolt K) (bucketKey ns) bs"
  obtain bkt where bkt: "?bs (bucketKey ns) = Some bkt"
    using assms(1) by (auto simp: put_row_def Let_def split: option.splits)
  have old: "(case bk_get (kb_bolt K) bkt key of None \<Rightarrow> None | Some s \<Rightarrow> decoded (kb_json K) s) = row K bs ns key"
  proof -
    have "row K ?bs ns key = (case bk_get (kb_bolt K) bkt key of None \<Rightarrow> None | Some s \<Rightarrow> decoded (kb_json K) s)"
      unfolding row_def bkt by simp
    then show ?thesis by simp
  qed
  show e: "e' = stored_entry now ns key (row K bs ns key) e"
    using assms(1) unfolding put_row_def bkt
    by (auto simp: Let_def bkt old stored_entry_def creation_def split: option.splits if_splits)
  show "lost = clash ns now (row K bs ns key) e"
    using assms(1) unfolding put_row_def bkt
    by (auto simp: Let_def bkt old clash_def overwrites_def split: option.splits if_splits)
  have "\<exists>data. jc_enc (kb_json K) e' = Inr data \<and> tx_put (kb_bolt K) (bucketKey ns) key data ?bs = Inr bs'"
    using assms(1) unfolding put_row_def bkt by (auto simp: Let_def bkt split: option.splits if_splits)
  then show "row K bs' = with_row ns key (Some e') (row K bs)"
    using row_tx_put [of ns key _ ?bs bs'] decoded_enc assms(2) e by auto
qed

text \<open>
  A write that is reported done stores the entry, and when it overwrote another session's, either
  keeps the loser as a conflict or loses it; one that fails changes nothing.
\<close>

lemma put_steps:
  assumes "Put_know K now ns key e st = (r, st')" "entry_in Z (stored_entry now ns key (row K (ks_db st) ns key) e)"
  shows "r \<noteq> None \<Longrightarrow> ks_db st' = ks_db st"
    "r = None \<Longrightarrow> put_gate ns key e = None \<and> (\<exists>db.
       row K db = with_row ns key (Some (stored_entry now ns key (row K (ks_db st) ns key) e)) (row K (ks_db st)) \<and>
       ks_db st' = (case clash ns now (row K (ks_db st) ns key) e of
         None \<Rightarrow> db | Some old \<Rightarrow> snd (log_conflict K now ns key (ke_SessionAgentID e) old db)))" (is "_ \<Longrightarrow> ?steps")
proof -
  let ?e = "e\<lparr>ke_Namespace := ns, ke_Key := key, ke_UpdatedAt := now\<rparr>"
  obtain e' lost err db where u: "db_update (kb_bolt K) (put_row K now ns key ?e) (ks_db st) = ((e', lost), err, db)"
    by (metis prod.collapse)
  show "ks_db st' = ks_db st" if "r \<noteq> None"
    using assms(1) that u db_update_error [of "kb_bolt K" "put_row K now ns key ?e" "ks_db st" "(e', lost)"]
    by (auto simp: Put_know_def Let_def split: option.splits prod.splits)
  assume r: "r = None"
  have gate: "put_gate ns key e = None" using assms(1) r by (auto simp: Put_know_def split: option.splits)
  have err: "err = None" using assms(1) r gate u by (auto simp: Put_know_def Let_def split: option.splits prod.splits)
  then have "put_row K now ns key ?e (ks_db st) = ((e', lost), Inr db)" using u by (simp add: db_update_ok)
  note res = put_row_result [OF this assms(2)]
  have agent: "ke_SessionAgentID e' = ke_SessionAgentID e" by (simp add: res(1) stored_entry_def)
  have "ks_db st' = (case lost of None \<Rightarrow> db | Some old \<Rightarrow> snd (log_conflict K now ns key (ke_SessionAgentID e) old db))"
    using assms(1) gate u err by (auto simp: Put_know_def Let_def agent split: option.splits)
  then show ?steps using gate res by auto
qed

lemma put_effect:
  assumes "Put_know K now ns key e st = (r, st')" "entry_in Z (stored_entry now ns key (row K (ks_db st) ns key) e)"
    "ns \<in> Z" "key \<in> Z" "\<And>d. row K (ks_db st) ns key = Some d \<Longrightarrow> entry_in Z d"
  shows "r \<noteq> None \<Longrightarrow> ks_db st' = ks_db st"
    "r = None \<Longrightarrow> put_gate ns key e = None \<and>
       (let R = with_row ns key (Some (stored_entry now ns key (row K (ks_db st) ns key) e)) (row K (ks_db st))
        in row K (ks_db st') = R \<or>
           (\<exists>old. clash ns now (row K (ks_db st) ns key) e = Some old \<and>
              row K (ks_db st') = with_row NSConflicts (conflict_key ns key now)
                (Some (conflict_record ns key now (ke_SessionAgentID e) old)) R))" (is "_ \<Longrightarrow> ?effect")
    "r = None \<Longrightarrow> clash ns now (row K (ks_db st) ns key) e = Some old \<Longrightarrow>
       (\<And>db. \<exists>db2. log_conflict K now ns key (ke_SessionAgentID e) old db = (None, db2)) \<Longrightarrow>
       row K (ks_db st') = with_row NSConflicts (conflict_key ns key now)
         (Some (conflict_record ns key now (ke_SessionAgentID e) old))
         (with_row ns key (Some (stored_entry now ns key (row K (ks_db st) ns key) e)) (row K (ks_db st)))"
proof -
  show "ks_db st' = ks_db st" if "r \<noteq> None" using put_steps(1) [OF assms(1,2) that] .
  let ?R = "with_row ns key (Some (stored_entry now ns key (row K (ks_db st) ns key) e)) (row K (ks_db st))"
  have logged: "row K db2 = with_row NSConflicts (conflict_key ns key now)
      (Some (conflict_record ns key now (ke_SessionAgentID e) d)) (row K db)"
    if "clash ns now (row K (ks_db st) ns key) e = Some d" "log_conflict K now ns key (ke_SessionAgentID e) d db = (None, db2)" for d db db2
  proof -
    have "row K (ks_db st) ns key = Some d" using that(1) by (auto simp: clash_def split: option.splits if_splits)
    then have "entry_in Z d" "ke_SessionAgentID e \<in> Z" using assms(2,5) by (auto simp: entry_in_def stored_entry_def)
    then have c: "entry_in Z (conflict_record ns key now (ke_SessionAgentID e) d)" using assms(3,4) by (rule conflict_in)
    have "put_json (kb_json K) (kb_bolt K) (bucketKey NSConflicts) (conflict_key ns key now)
        (conflict_record ns key now (ke_SessionAgentID e) d) (create_if_missing (kb_bolt K) (bucketKey NSConflicts) db) = Inr db2"
      using that(2) by (simp add: log_conflict_def wal_update_ok)
    from row_put_json [OF this c] show ?thesis by simp
  qed
  assume r: "r = None"
  obtain db where db: "row K db = ?R" "ks_db st' = (case clash ns now (row K (ks_db st) ns key) e of
      None \<Rightarrow> db | Some d \<Rightarrow> snd (log_conflict K now ns key (ke_SessionAgentID e) d db))" "put_gate ns key e = None"
    using put_steps(2) [OF assms(1,2) r] by blast
  show ?effect
  proof (cases "clash ns now (row K (ks_db st) ns key) e")
    case (Some d)
    obtain er db2 where lc: "log_conflict K now ns key (ke_SessionAgentID e) d db = (er, db2)" by fastforce
    have same: "db2 = db" if "er = Some x" for x using lc that wal_update_error unfolding log_conflict_def by blast
    show ?thesis using db logged [OF Some, of db db2] lc same Some by (cases er) (auto simp: Let_def)
  qed (use db in \<open>simp add: Let_def\<close>)
  show "row K (ks_db st') = with_row NSConflicts (conflict_key ns key now)
      (Some (conflict_record ns key now (ke_SessionAgentID e) old)) ?R"
    if c: "clash ns now (row K (ks_db st) ns key) e = Some old"
      and l: "\<And>db. \<exists>db2. log_conflict K now ns key (ke_SessionAgentID e) old db = (None, db2)"
  proof -
    obtain db2 where "log_conflict K now ns key (ke_SessionAgentID e) old db = (None, db2)" using l by blast
    then show ?thesis using db logged [OF c] c by simp
  qed
qed

lemma delete_effect:
  assumes "Delete_know K ns key st = (r, st')"
  shows "row K (ks_db st') = (if r = None then with_row ns key None (row K (ks_db st)) else row K (ks_db st))"
proof -
  let ?f = "\<lambda>bs. case bs (bucketKey ns) of
      None \<Rightarrow> Inr bs
    | Some bkt \<Rightarrow> (case bk_delete (kb_bolt K) bkt key of Inl e \<Rightarrow> Inl e | Inr b \<Rightarrow> Inr (bs(bucketKey ns \<mapsto> b)))"
  obtain er db where u: "wal_update (kb_bolt K) ?f (ks_db st) = (er, db)" by fastforce
  have r: "r = er" "ks_db st' = db" using assms u by (auto simp: Delete_know_def split: option.splits)
  show ?thesis
  proof (cases er)
    case (Some e)
    then show ?thesis using r u wal_update_error by fastforce
  next
    case None
    then have f: "?f (ks_db st) = Inr db" using u by (simp add: wal_update_ok)
    show ?thesis
    proof (cases "ks_db st (bucketKey ns)")
      case None
      then have "row K (ks_db st) ns key = None" by (simp add: row_def)
      then have "with_row ns key None (row K (ks_db st)) = row K (ks_db st)" by (rule with_row_id)
      moreover have "db = ks_db st" using f None by simp
      ultimately show ?thesis using r \<open>er = None\<close> by simp
    next
      case (Some bkt)
      then obtain b where "bk_delete (kb_bolt K) bkt key = Inr b" "db = (ks_db st)(bucketKey ns \<mapsto> b)"
        using f by (auto split: sum.splits)
      then show ?thesis using r Some \<open>er = None\<close> row_delete [of "ks_db st" ns bkt key b] by simp
    qed
  qed
qed

lemma resolve_effect:
  assumes "ResolveConflict K now ck w st = (r, st')"
    "\<And>d. row K (ks_db st) NSConflicts ck = Some d \<Longrightarrow> entry_in Z (restored now d)"
  shows "r \<noteq> None \<Longrightarrow> ks_db st' = ks_db st"
    "r = None \<Longrightarrow> w = ''A'' \<Longrightarrow> row K (ks_db st') = with_row NSConflicts ck None (row K (ks_db st))"
    "r = None \<Longrightarrow> w \<noteq> ''A'' \<Longrightarrow> w = ''B'' \<and> (\<exists>loser ns key. row K (ks_db st) NSConflicts ck = Some loser \<and>
       origin (ke_Tags loser) = (ns, key) \<and> ns \<noteq> '''' \<and> key \<noteq> '''' \<and>
       row K (ks_db st') = with_row NSConflicts ck None (with_row ns key (Some (restored now loser)) (row K (ks_db st))))"
proof -
  obtain er db where u: "wal_update (kb_bolt K) (resolve_tx K now ck w) (ks_db st) = (er, db)" by fastforce
  have bad: "w \<noteq> ''A'' \<Longrightarrow> w \<noteq> ''B'' \<Longrightarrow> r \<noteq> None \<and> st' = st" using assms(1) by (auto simp: ResolveConflict_def)
  have good: "w = ''A'' \<or> w = ''B'' \<Longrightarrow> r = er \<and> ks_db st' = db" using assms(1) u by (auto simp: ResolveConflict_def)
  show "ks_db st' = ks_db st" if "r \<noteq> None"
    using that bad good u wal_update_error [of "kb_bolt K" "resolve_tx K now ck w" "ks_db st" _ db] by (cases er) auto
  have tx: "resolve_tx K now ck w (ks_db st) = Inr (ks_db st')" if "r = None"
  proof -
    have w: "w = ''A'' \<or> w = ''B''" using bad that by blast
    then have "wal_update (kb_bolt K) (resolve_tx K now ck w) (ks_db st) = (None, ks_db st')" using good u that by auto
    then show ?thesis by (simp add: wal_update_ok)
  qed
  have removed: "row K bs' = with_row NSConflicts ck None (row K bs1)"
    if "(case bs1 (bucketKey NSConflicts) of None \<Rightarrow> Inl nil_panic
         | Some b1 \<Rightarrow> (case bk_delete (kb_bolt K) b1 ck of Inl e \<Rightarrow> Inl e
            | Inr b2 \<Rightarrow> Inr (bs1(bucketKey NSConflicts \<mapsto> b2)))) = Inr bs'" for bs1 bs'
    using that row_delete [of bs1 NSConflicts _ ck] by (auto split: option.splits sum.splits)
  show "row K (ks_db st') = with_row NSConflicts ck None (row K (ks_db st))" if r: "r = None" and A: "w = ''A''"
    using tx [OF r] A by (intro removed) (auto simp: resolve_tx_def split: option.splits)
  assume r: "r = None" and nA: "w \<noteq> ''A''"
  then have B: "w = ''B''" using bad by auto
  obtain bkt raw where b: "ks_db st (bucketKey NSConflicts) = Some bkt" "bk_get (kb_bolt K) bkt ck = Some raw"
    using tx [OF r] by (auto simp: resolve_tx_def split: option.splits)
  obtain loser er2 where d: "jc_dec (kb_json K) raw = (loser, er2)" by fastforce
  obtain ns key where o: "origin (ke_Tags loser) = (ns, key)" by fastforce
  have tx2: "andthen (case er2 of Some e \<Rightarrow> Inl e
      | None \<Rightarrow> if ns = '''' \<or> key = '''' then Inl (Err ''conflict entry missing conflict_of tag'')
          else put_json (kb_json K) (kb_bolt K) (bucketKey ns) key
            (loser\<lparr>ke_Namespace := ns, ke_Key := key, ke_UpdatedAt := now\<rparr>)
            (create_if_missing (kb_bolt K) (bucketKey ns) (ks_db st)))
      (\<lambda>bs1. case bs1 (bucketKey NSConflicts) of None \<Rightarrow> Inl nil_panic
         | Some b1 \<Rightarrow> (case bk_delete (kb_bolt K) b1 ck of Inl e \<Rightarrow> Inl e
            | Inr b2 \<Rightarrow> Inr (bs1(bucketKey NSConflicts \<mapsto> b2)))) = Inr (ks_db st')"
    using tx [OF r] unfolding resolve_tx_def by (simp add: b d o B)
  then have er2: "er2 = None" by (cases er2) (auto simp: andthen_def)
  have row: "row K (ks_db st) NSConflicts ck = Some loser" by (simp add: row_def b decoded_def d er2)
  have ne: "ns \<noteq> ''''" "key \<noteq> ''''" using tx2 er2 by (auto simp: andthen_def split: if_splits)
  have e: "restored now loser = loser\<lparr>ke_Namespace := ns, ke_Key := key, ke_UpdatedAt := now\<rparr>" by (simp add: restored_def o)
  obtain bs1 where bs1: "put_json (kb_json K) (kb_bolt K) (bucketKey ns) key (restored now loser)
      (create_if_missing (kb_bolt K) (bucketKey ns) (ks_db st)) = Inr bs1"
    "(case bs1 (bucketKey NSConflicts) of None \<Rightarrow> Inl nil_panic
         | Some b1 \<Rightarrow> (case bk_delete (kb_bolt K) b1 ck of Inl e \<Rightarrow> Inl e
            | Inr b2 \<Rightarrow> Inr (bs1(bucketKey NSConflicts \<mapsto> b2)))) = Inr (ks_db st')"
    using tx2 er2 ne by (auto simp: e)
  have "row K (ks_db st') = with_row NSConflicts ck None (with_row ns key (Some (restored now loser)) (row K (ks_db st)))"
    using removed [OF bs1(2)] row_put_json [OF bs1(1) assms(2) [OF row]] by simp
  then show "w = ''B'' \<and> (\<exists>loser ns key. row K (ks_db st) NSConflicts ck = Some loser \<and>
       origin (ke_Tags loser) = (ns, key) \<and> ns \<noteq> '''' \<and> key \<noteq> '''' \<and>
       row K (ks_db st') = with_row NSConflicts ck None (with_row ns key (Some (restored now loser)) (row K (ks_db st))))"
    using B row o ne by blast
qed

end

section \<open>An instance\<close>

lemmas ns_names = NSInbox_def NSEpics_def NSConflicts_def bucketKey_def

definition entry_texts :: "KnowledgeEntry \<Rightarrow> string list" where
  "entry_texts e = [ke_Key e, ke_Namespace e, ke_Content e, strings_text (ke_Tags e), bool_text (ke_Hot e),
     dec_int (ke_CreatedAt e), dec_int (ke_UpdatedAt e), ke_From e, dec_int (ke_ReadAt e), ke_Priority e, ke_ThreadID e,
     ke_EpicTitle e, ke_EpicStatus e, ke_EpicOwner e, strings_text (ke_EpicAffected e), strings_text (ke_EpicBlocks e),
     ke_EpicCreatedBy e, ke_SessionAgentID e]"

definition entry_of_texts :: "string list \<Rightarrow> KnowledgeEntry" where
  "entry_of_texts ws =
     (case ws of
        [w0, w1, w2, w3, w4, w5, w6, w7, w8, w9, w10, w11, w12, w13, w14, w15, w16, w17] \<Rightarrow>
          \<lparr>ke_Key = w0, ke_Namespace = w1, ke_Content = w2, ke_Tags = strings_of_text w3, ke_Hot = (w4 = ''true''),
           ke_CreatedAt = int_of_text w5, ke_UpdatedAt = int_of_text w6, ke_From = w7, ke_ReadAt = int_of_text w8,
           ke_Priority = w9, ke_ThreadID = w10, ke_EpicTitle = w11, ke_EpicStatus = w12, ke_EpicOwner = w13,
           ke_EpicAffected = strings_of_text w14, ke_EpicBlocks = strings_of_text w15, ke_EpicCreatedBy = w16,
           ke_SessionAgentID = w17\<rparr>
      | _ \<Rightarrow> blank_entry)"

definition entry_codec :: "KnowledgeEntry codec_of" where
  "entry_codec = via_strings entry_texts entry_of_texts"

lemma entry_texts_read: "entry_of_texts (entry_texts e) = e"
  by (cases e) (simp add: entry_texts_def entry_of_texts_def bool_text_def)

text \<open>Times are written as decimals here.\<close>

definition list_base :: "(string \<times> string) list kbase" where
  "list_base = \<lparr>kb_bolt = list_bolt, kb_json = entry_codec, kb_os = good_os, kb_stamp = dec_int, kb_unstamp = (\<lambda>s. Some (int_of_text s))\<rparr>"

lemma list_base_simps [simp]:
  "kb_bolt list_base = list_bolt" "kb_json list_base = entry_codec" "kb_os list_base = good_os"
  "kb_stamp list_base = dec_int" "kb_unstamp list_base = (\<lambda>s. Some (int_of_text s))"
  by (simp_all add: list_base_def)

lemma entry_codec_json: "json_codec entry_codec keeps"
  unfolding entry_codec_def by (rule via_strings_codec) (rule entry_texts_read)

text \<open>The text of an entry, to compute with stores without its bytes.\<close>

definition entry_text :: "KnowledgeEntry \<Rightarrow> string" where
  "entry_text e = projr (jc_enc entry_codec e)"

lemma entry_enc [simp]: "jc_enc entry_codec e = Inr (entry_text e)"
  using json_codec.enc_ok [OF entry_codec_json, of "\<lambda>_. True" e] by (auto simp: entry_text_def)

lemma entry_dec [simp]: "jc_dec entry_codec (entry_text e) = (e, None)"
  using json_codec.dec_enc [OF entry_codec_json, of "\<lambda>_. True" e] by simp

lemmas know_defs = Put_know_def put_gate_def put_row_def db_update_def create_if_missing_def decoded_def overwrites_def Let_def
  tx_put_def ExportEntry_def Get_know_def List_know_def ns_rows_def List.map_filter_simps list_bolt_def list_ok_def
  ValidateInboxKey_def two_parts_def ns_names

definition no_store :: "(string \<times> string) list KnowledgeStore" where
  "no_store = \<lparr>ks_db = (\<lambda>_. None), ks_syncDir = '''', ks_disk = (\<lambda>_. None)\<rparr>"

interpretation lknow: knowledge list_base UNIV
  by (rule knowledge.intro) (simp_all add: lbolt.bolt_bucket_axioms entry_codec_json text_UNIV)

end
