(* ===== verification/Know_Props.thy ===== *)
theory Know_Props
  imports Know_Rows
begin

text \<open>
  What every entry of the knowledge store satisfies after any history of its operations, and that
  a value lost to another session can be brought back.
\<close>

section \<open>The schema\<close>

definition schema_ok :: "string \<Rightarrow> string \<Rightarrow> KnowledgeEntry \<Rightarrow> bool" where
  "schema_ok ns key e \<longleftrightarrow>
     (ns = NSInbox \<longrightarrow> ValidateInboxKey key = None) \<and>
     (ns = NSEpics \<longrightarrow> ValidateEpicID key = None \<and> ValidateEpicStatus (ke_EpicStatus e) = None \<and>
        ValidateEpicPriority (ke_Priority e) = None)"

definition row_ok :: "string set \<Rightarrow> int \<Rightarrow> string \<Rightarrow> string \<Rightarrow> KnowledgeEntry \<Rightarrow> bool" where
  "row_ok Z now ns key e \<longleftrightarrow> entry_in Z e \<and> ke_Namespace e = ns \<and> ke_Key e = key \<and>
     0 < ke_CreatedAt e \<and> ke_CreatedAt e \<le> ke_UpdatedAt e \<and> ke_UpdatedAt e \<le> now \<and> schema_ok ns key e"

text \<open>A conflict record names the row it was taken from, and would be a good row there.\<close>

definition home_ok :: "string set \<Rightarrow> int \<Rightarrow> KnowledgeEntry \<Rightarrow> bool" where
  "home_ok Z now e \<longleftrightarrow> (case origin (ke_Tags e) of (ns, key) \<Rightarrow>
     ns \<noteq> NSConflicts \<and> ns \<noteq> NSInbox \<and> row_ok Z now ns key (e\<lparr>ke_Namespace := ns, ke_Key := key\<rparr>))"

definition know_inv :: "'b kbase \<Rightarrow> string set \<Rightarrow> int \<Rightarrow> 'b buckets \<Rightarrow> bool" where
  "know_inv K Z now bs \<longleftrightarrow>
     (\<forall>ns key e. row K bs ns key = Some e \<longrightarrow> row_ok Z now ns key e \<and> (ns = NSConflicts \<longrightarrow> home_ok Z now e))"

lemma ns_distinct [simp]: "NSConflicts \<noteq> NSInbox" "NSConflicts \<noteq> NSEpics" "NSInbox \<noteq> NSConflicts" "NSEpics \<noteq> NSConflicts"
    "NSInbox \<noteq> NSEpics" "NSEpics \<noteq> NSInbox"
  by (simp_all add: NSConflicts_def NSInbox_def NSEpics_def)

lemma put_gate_schema: "put_gate ns key e = None \<Longrightarrow> schema_ok ns key e"
  by (auto simp: put_gate_def schema_ok_def ValidateEpicStatus_def ValidateEpicPriority_def split: if_splits)

lemma row_ok_later: "row_ok Z now ns key e \<Longrightarrow> now \<le> now' \<Longrightarrow> row_ok Z now' ns key e"
  by (auto simp: row_ok_def)

lemma know_inv_later: "know_inv K Z now bs \<Longrightarrow> now \<le> now' \<Longrightarrow> know_inv K Z now' bs"
  unfolding know_inv_def home_ok_def using row_ok_later by (fastforce split: prod.splits)

lemma origin_of_conflict:
  assumes "CHR ''/'' \<notin> set ns"
  shows "origin (tags @ [''conflict_of:'' @ ns @ ''/'' @ key, ''winner:'' @ w]) = (ns, key)"
proof -
  have c: "cut_prefix (''conflict_of:'' @ s) ''conflict_of:'' = Some s" for s by (rule cut_prefix_append)
  have w: "cut_prefix (''winner:'' @ w) ''conflict_of:'' = None" by (simp add: cut_prefix_def)
  have "str_cut (ns @ ''/'' @ key) ''/'' = Some (ns, key)" using assms by (intro str_cut_first) auto
  then show ?thesis unfolding origin_def by (simp only: foldl_append foldl.simps c w option.case)
qed

lemma conflict_record_home:
  assumes "row_ok Z now ns key old" "CHR ''/'' \<notin> set ns" "ns \<noteq> NSConflicts \<and> ns \<noteq> NSInbox"
    "entry_in Z (conflict_record ns key now' w old)" "ns \<in> Z" "key \<in> Z"
  shows "home_ok Z now (conflict_record ns key now' w old)"
  using assms origin_of_conflict [OF assms(2), of "ke_Tags old" key w]
  by (auto simp: home_ok_def conflict_record_def row_ok_def schema_ok_def entry_in_def)

context knowledge
begin

lemma inv_with_row:
  assumes "know_inv K Z now bs" "row K bs' = with_row ns key x (row K bs)"
    "\<And>e. x = Some e \<Longrightarrow> row_ok Z now ns key e \<and> (ns = NSConflicts \<longrightarrow> home_ok Z now e)"
  shows "know_inv K Z now bs'"
  using assms by (auto simp: know_inv_def with_row_def)

lemma stored_ok:
  assumes "know_inv K Z now bs" "0 < now" "entry_in Z e" "ns \<in> Z" "key \<in> Z" "0 \<le> ke_CreatedAt e" "ke_CreatedAt e \<le> now"
    "put_gate ns key e = None"
  shows "row_ok Z now ns key (stored_entry now ns key (row K bs ns key) e)"
proof -
  have "0 < creation now (row K bs ns key) e \<and> creation now (row K bs ns key) e \<le> now"
  proof (cases "row K bs ns key")
    case None
    then show ?thesis using assms(2,6,7) by (simp add: creation_def)
  next
    case (Some d)
    then have "0 < ke_CreatedAt d" "ke_CreatedAt d \<le> now" using assms(1) by (force simp: know_inv_def row_ok_def)+
    then show ?thesis using Some by (simp add: creation_def)
  qed
  then show ?thesis using assms put_gate_schema [OF assms(8)]
    by (auto simp: row_ok_def stored_entry_def entry_in_def schema_ok_def)
qed

lemma put_inv:
  assumes inv: "know_inv K Z now (ks_db st)" and args: "0 < now" "entry_in Z e" "ns \<in> Z" "key \<in> Z"
      "0 \<le> ke_CreatedAt e" "ke_CreatedAt e \<le> now" "ns \<noteq> NSConflicts" "CHR ''/'' \<notin> set ns"
    and put: "Put_know K now ns key e st = (r, st')"
  shows "know_inv K Z now (ks_db st')"
proof -
  let ?old = "row K (ks_db st) ns key" and ?new = "stored_entry now ns key (row K (ks_db st) ns key) e"
  have new: "entry_in Z ?new" using args by (auto simp: stored_entry_def entry_in_def)
  have olds: "\<And>d. ?old = Some d \<Longrightarrow> row_ok Z now ns key d" using inv by (auto simp: know_inv_def)
  then have oldz: "\<And>d. ?old = Some d \<Longrightarrow> entry_in Z d" by (simp add: row_ok_def)
  note eff = put_effect [OF put new args(3,4) oldz]
  show ?thesis
  proof (cases "r = None")
    case False
    then show ?thesis using eff(1) inv by simp
  next
    case True
    let ?R = "with_row ns key (Some ?new) (row K (ks_db st))"
    have gate: "put_gate ns key e = None" using eff(2) True by simp
    have good: "row_ok Z now n k x \<and> (n = NSConflicts \<longrightarrow> home_ok Z now x)" if "?R n k = Some x" for n k x
      using that inv stored_ok [OF inv args(1-6) gate] args(7) by (auto simp: with_row_def know_inv_def split: if_splits)
    from eff(2) True consider "row K (ks_db st') = ?R"
      | old where "clash ns now ?old e = Some old"
          "row K (ks_db st') = with_row NSConflicts (conflict_key ns key now)
             (Some (conflict_record ns key now (ke_SessionAgentID e) old)) ?R"
      by (auto simp: Let_def)
    then show ?thesis
    proof cases
      case 1
      then show ?thesis using good by (auto simp: know_inv_def)
    next
      case (2 old)
      let ?c = "conflict_record ns key now (ke_SessionAgentID e) old"
      have o: "row_ok Z now ns key old" using 2(1) olds by (auto simp: clash_def split: option.splits if_splits)
      have cz: "entry_in Z ?c" using o args(2-4) by (intro conflict_in) (auto simp: row_ok_def entry_in_def)
      then have "row_ok Z now NSConflicts (conflict_key ns key now) ?c"
        using o by (auto simp: row_ok_def conflict_record_def schema_ok_def)
      moreover have "home_ok Z now ?c" 
      proof (rule conflict_record_home [OF o args(8) _ cz args(3,4)])
        show "ns \<noteq> NSConflicts \<and> ns \<noteq> NSInbox"
          using 2(1) by (auto simp: clash_def overwrites_def split: option.splits if_splits)
      qed
      ultimately show ?thesis using good 2(2) by (auto simp: know_inv_def with_row_def split: if_splits)
    qed
  qed
qed

lemma delete_inv:
  assumes "know_inv K Z now (ks_db st)" "Delete_know K ns key st = (r, st')"
  shows "know_inv K Z now (ks_db st')"
  using delete_effect [OF assms(2)] assms(1) inv_with_row [OF assms(1), of "ks_db st'" ns key None]
  by (auto simp: know_inv_def split: if_splits)

lemma resolve_inv:
  assumes inv: "know_inv K Z now (ks_db st)" and r: "ResolveConflict K now ck w st = (r, st')"
  shows "know_inv K Z now (ks_db st')"
proof -
  have loser: "row_ok Z now ns key (restored now d) \<and> ns \<noteq> NSConflicts"
    if "row K (ks_db st) NSConflicts ck = Some d" "origin (ke_Tags d) = (ns, key)" for d ns key
  proof -
    have "home_ok Z now d" using inv that(1) by (auto simp: know_inv_def)
    then have h: "ns \<noteq> NSConflicts" "row_ok Z now ns key (d\<lparr>ke_Namespace := ns, ke_Key := key\<rparr>)" using that(2) by (simp_all add: home_ok_def)
    have e: "restored now d = (d\<lparr>ke_Namespace := ns, ke_Key := key\<rparr>)\<lparr>ke_UpdatedAt := now\<rparr>" by (simp add: restored_def that(2))
    have "row_ok Z now ns key (restored now d)"
      unfolding e using h(2) by (simp add: row_ok_def schema_ok_def entry_in_def)
    then show ?thesis using h(1) by simp
  qed
  have z: "\<And>d. row K (ks_db st) NSConflicts ck = Some d \<Longrightarrow> entry_in Z (restored now d)"
    using loser by (metis prod.collapse row_ok_def)
  note eff = resolve_effect [OF r z]
  consider "r \<noteq> None" | "r = None" "w = ''A''" | "r = None" "w \<noteq> ''A''" by blast
  then show ?thesis
  proof cases
    case 1
    then show ?thesis using eff(1) inv by simp
  next
    case 2
    then show ?thesis using eff(2) by (intro inv_with_row [OF inv]) auto
  next
    case 3
    obtain d ns key where d: "row K (ks_db st) NSConflicts ck = Some d" "origin (ke_Tags d) = (ns, key)"
      "row K (ks_db st') = with_row NSConflicts ck None (with_row ns key (Some (restored now d)) (row K (ks_db st)))"
      using eff(3) 3 by blast
    have l: "row_ok Z now ns key (restored now d)" "ns \<noteq> NSConflicts" using loser [OF d(1,2)] by simp_all
    have "row_ok Z now n k x \<and> (n = NSConflicts \<longrightarrow> home_ok Z now x)" if "row K (ks_db st') n k = Some x" for n k x
      using that l inv unfolding d(3) with_row_def know_inv_def by (auto split: if_splits)
    then show ?thesis by (simp add: know_inv_def)
  qed
qed

end

section \<open>Histories\<close>

text \<open>
  The operations in any order, the clock never going back; nobody writes conflict records by
  hand, and namespaces have no slash, which would be taken for the end of the namespace in a
  conflict record (lemma \<open>slash_misplaces\<close>).
\<close>

inductive know_history :: "'b kbase \<Rightarrow> string set \<Rightarrow> int \<Rightarrow> 'b KnowledgeStore \<Rightarrow> bool" for K Z where
  start: "(\<And>ns. ks_db st (bucketKey ns) = None) \<Longrightarrow> know_history K Z now st"
| clock: "know_history K Z now st \<Longrightarrow> now \<le> now' \<Longrightarrow> know_history K Z now' st"
| sync_dir: "know_history K Z now st \<Longrightarrow> know_history K Z now (SetSyncDir dir st)"
| put: "know_history K Z now st \<Longrightarrow> 0 < now \<Longrightarrow> entry_in Z e \<Longrightarrow> ns \<in> Z \<Longrightarrow> key \<in> Z \<Longrightarrow> 0 \<le> ke_CreatedAt e \<Longrightarrow>
    ke_CreatedAt e \<le> now \<Longrightarrow> ns \<noteq> NSConflicts \<Longrightarrow> CHR ''/'' \<notin> set ns \<Longrightarrow> Put_know K now ns key e st = (r, st') \<Longrightarrow>
    know_history K Z now st'"
| inbox: "know_history K Z now st \<Longrightarrow> 0 < now \<Longrightarrow> {sender, key, content, priority} \<subseteq> Z \<Longrightarrow>
    PutInbox K now0 now sender key content priority q st = (r, st') \<Longrightarrow> know_history K Z now st'"
| mark: "know_history K Z now st \<Longrightarrow> 0 < now \<Longrightarrow> key \<in> Z \<Longrightarrow> MarkInboxRead K now0 now key st = (r, st') \<Longrightarrow>
    know_history K Z now st'"
| epic: "know_history K Z now st \<Longrightarrow> 0 < now \<Longrightarrow>
    {key, title, content, status, priority, owner} \<union> set affected \<union> set blocks \<subseteq> Z \<Longrightarrow>
    PutEpic K now key title content status priority owner affected blocks st = (r, st') \<Longrightarrow> know_history K Z now st'"
| delete: "know_history K Z now st \<Longrightarrow> Delete_know K ns key st = (r, st') \<Longrightarrow> know_history K Z now st'"
| resolve: "know_history K Z now st \<Longrightarrow> ResolveConflict K now ck w st = (r, st') \<Longrightarrow> know_history K Z now st'"
| written: "know_history K Z now st \<Longrightarrow> 0 < now \<Longrightarrow>
    (\<And>e. ImportEntry (kb_os K) (kb_unstamp K) path (ks_disk st) = Inr e \<Longrightarrow> entry_in Z e \<and> ke_Namespace e \<noteq> NSConflicts \<and>
       CHR ''/'' \<notin> set (ke_Namespace e)) \<Longrightarrow> applyFSWrite K now path (st, hc) = (st', hc') \<Longrightarrow> know_history K Z now st'"
| removed: "know_history K Z now st \<Longrightarrow> applyFSRemove K path (st, hc) = (st', hc') \<Longrightarrow> know_history K Z now st'"

lemma fold_line_created: "ke_CreatedAt (fold_line unstamp e ln) = ke_CreatedAt e"
  by (auto simp: fold_line_def parseFrontmatterLine_def Let_def split: option.splits)

lemma imported_created: "imported unstamp path s = Inr e \<Longrightarrow> ke_CreatedAt e = 0"
proof -
  have "ke_CreatedAt (foldl (fold_line unstamp) e0 lns) = ke_CreatedAt e0" for e0 lns
    by (induction lns arbitrary: e0) (simp_all add: fold_line_created)
  then show "imported unstamp path s = Inr e \<Longrightarrow> ke_CreatedAt e = 0"
    by (auto simp: imported_def Let_def blank_entry_def split: option.splits)
qed

context knowledge
begin

lemma ascii_names: "is_ascii s \<Longrightarrow> s \<in> Z" by (rule text_ascii [OF texts])

lemma ns_in: "NSInbox \<in> Z" "NSEpics \<in> Z" "CHR ''/'' \<notin> set NSInbox" "CHR ''/'' \<notin> set NSEpics"
proof -
  show "NSInbox \<in> Z" "NSEpics \<in> Z" by (rule ascii_names; simp add: is_ascii_def NSInbox_def NSEpics_def)+
qed (simp_all add: NSInbox_def NSEpics_def)

lemma empty_in [simp]: "'''' \<in> Z" by (rule ascii_names) (simp add: is_ascii_def)

lemma inbox_entry_in:
  assumes "sender \<in> Z" "content \<in> Z" "priority \<in> Z"
  shows "entry_in Z (inbox_entry sender content priority)"
proof -
  have "''inbox'' \<in> Z" "''from:'' \<in> Z" by (rule ascii_names; simp add: is_ascii_def)+
  then have "''inbox'' \<in> Z" "''from:'' @ sender \<in> Z" using assms(1) text_append [OF texts] by blast+
  then show ?thesis using assms by (simp add: entry_in_def inbox_entry_def blank_entry_def)
qed

lemma epic_entry_in:
  assumes "{title, content, status, priority, owner} \<union> set affected \<union> set blocks \<subseteq> Z"
  shows "entry_in Z (epic_entry title content status priority owner affected blocks)"
proof -
  have "''epic'' \<in> Z" "''status:'' \<in> Z" "''priority:'' \<in> Z" by (rule ascii_names; simp add: is_ascii_def)+
  then have "''epic'' \<in> Z" "''status:'' @ status \<in> Z" "''priority:'' @ priority \<in> Z"
    using assms text_append [OF texts] by blast+
  then show ?thesis using assms by (auto simp: entry_in_def epic_entry_def blank_entry_def)
qed

lemma fs_write_cases:
  assumes "applyFSWrite K now path (st, hc) = (st', hc')"
  shows "st' = st \<or> (\<exists>e r. ImportEntry (kb_os K) (kb_unstamp K) path (ks_disk st) = Inr e \<and>
    Put_know K now (ke_Namespace e) (ke_Key e) e st = (r, st'))"
  using assms by (auto simp: applyFSWrite_def split: sum.splits if_splits prod.splits option.splits)

lemma know_history_inv: "know_history K Z now st \<Longrightarrow> know_inv K Z now (ks_db st)"
proof (induction rule: know_history.induct)
  case (start st now)
  then show ?case by (simp add: know_inv_def row_def)
next
  case (clock now st now')
  then show ?case using know_inv_later by blast
next
  case (sync_dir now st dir)
  then show ?case by (simp add: SetSyncDir_def)
next
  case (put now st e ns key r st')
  then show ?case using put_inv by blast
next
  case (inbox now st sender key content priority now0 q r st')
  have p: "''normal'' \<in> Z" by (rule ascii_names) (simp add: is_ascii_def)
  show ?case
  proof (cases "st' = st")
    case False
    then have "Put_know K now NSInbox key (inbox_entry sender content (if priority = '''' then ''normal'' else priority)) st = (r, st')"
      using inbox.hyps(4) by (auto simp: PutInbox_def Let_def split: if_splits)
    moreover have "entry_in Z (inbox_entry sender content (if priority = '''' then ''normal'' else priority))"
      using inbox.hyps(3) p by (intro inbox_entry_in) auto
    ultimately show ?thesis using inbox.hyps ns_in
      by (intro put_inv [OF inbox.IH inbox.hyps(2), of _ NSInbox key]) (auto simp: inbox_entry_def blank_entry_def)
  qed (use inbox.IH in simp)
next
  case (mark now st key now0 r st')
  show ?case
  proof (cases "st' = st")
    case False
    then obtain e where e: "Get_know K NSInbox key st = Inr e" "Put_know K now NSInbox key (e\<lparr>ke_ReadAt := now0\<rparr>) st = (r, st')"
      using mark.hyps(4) by (auto simp: MarkInboxRead_def split: option.splits sum.splits)
    then have "row_ok Z now NSInbox key e" using mark.IH by (auto simp: know_inv_def get_row)
    then show ?thesis using mark.hyps ns_in e(2)
      by (intro put_inv [OF mark.IH mark.hyps(2), of _ NSInbox key]) (auto simp: row_ok_def entry_in_def)
  qed (use mark.IH in simp)
next
  case (epic now st key title content status priority owner affected blocks r st')
  have p: "''open'' \<in> Z" by (rule ascii_names) (simp add: is_ascii_def)
  show ?case
  proof (cases "st' = st")
    case False
    let ?e = "epic_entry title content (if status = '''' then ''open'' else status) priority owner affected blocks"
    have "Put_know K now NSEpics key ?e st = (r, st')"
      using epic.hyps(4) False by (auto simp: PutEpic_def split: if_splits)
    moreover have "entry_in Z ?e" using epic.hyps(3) p by (intro epic_entry_in) auto
    ultimately show ?thesis using epic.hyps ns_in
      by (intro put_inv [OF epic.IH epic.hyps(2), of _ NSEpics key]) (auto simp: epic_entry_def blank_entry_def)
  qed (use epic.IH in simp)
next
  case (delete now st ns key r st')
  then show ?case using delete_inv by blast
next
  case (resolve now st ck w r st')
  then show ?case using resolve_inv by blast
next
  case (written now st path hc st' hc')
  from fs_write_cases [OF written.hyps(4)] show ?case
  proof (elim disjE exE conjE)
    fix e r
    assume e: "ImportEntry (kb_os K) (kb_unstamp K) path (ks_disk st) = Inr e" "Put_know K now (ke_Namespace e) (ke_Key e) e st = (r, st')"
    have "ke_CreatedAt e = 0" using e(1) imported_created by (auto simp: ImportEntry_def split: sum.splits)
    moreover have "entry_in Z e" "ke_Namespace e \<noteq> NSConflicts" "CHR ''/'' \<notin> set (ke_Namespace e)" using written.hyps(3) [OF e(1)] by simp_all
    ultimately show ?thesis using written.hyps(2)
      by (intro put_inv [OF written.IH written.hyps(2) _ _ _ _ _ _ _ e(2)]) (auto simp: entry_in_def)
  qed (use written.IH in simp)
next
  case (removed now st path hc st' hc')
  then show ?case using delete_inv [OF removed.IH] by (auto simp: applyFSRemove_def Let_def) (metis prod.collapse)
qed

end


definition epic_of :: "string \<Rightarrow> KnowledgeEntry" where
  "epic_of session = blank_entry\<lparr>ke_Content := session, ke_EpicStatus := ''open'', ke_SessionAgentID := session\<rparr>"

definition demo_put :: "int \<Rightarrow> string \<Rightarrow> (string \<times> string) list KnowledgeStore \<Rightarrow> (string \<times> string) list KnowledgeStore" where
  "demo_put now session st = snd (Put_know list_base now NSEpics ''L-1'' (epic_of session) st)"

lemma demo_put_history:
  assumes "know_history list_base UNIV now st" "now \<le> now'" "0 < now'"
  shows "know_history list_base UNIV now' (demo_put now' session st)"
  unfolding demo_put_def using assms(3)
  by (intro know_history.put [OF know_history.clock [OF assms(1,2)] assms(3) _ UNIV_I UNIV_I _ _ _ _ prod.collapse [symmetric]])
    (simp_all add: entry_in_def epic_of_def blank_entry_def NSEpics_def NSConflicts_def)


lemma demo_conflict_key: "conflict_key NSEpics ''L-1'' 8 = ''epics:L-1:8''"
  unfolding conflict_key_def NSEpics_def by code_simp

lemmas demo_defs = demo_put_def epic_of_def blank_entry_def no_store_def know_defs log_conflict_def wal_update_def put_json_def
  ValidateEpicID_def ValidateEpicStatus_def ValidateEpicPriority_def demo_conflict_key [unfolded NSEpics_def]

lemma demo_first: "Get_know list_base NSEpics ''L-1'' (demo_put 5 ''a'' no_store) = Inr
    ((epic_of ''a'')\<lparr>ke_Key := ''L-1'', ke_Namespace := NSEpics, ke_CreatedAt := 5, ke_UpdatedAt := 5\<rparr>)"
  by (simp add: demo_defs)



section \<open>Conflicts can be undone\<close>

lemma put_json_keeps:
  assumes "put_json C B name k e bs = Inr bs'" "bs n \<noteq> None"
  shows "bs' n \<noteq> None"
proof -
  obtain s where "tx_put B name k s bs = Inr bs'" using assms(1) by (auto simp: put_json_def)
  then show ?thesis using assms(2) by (cases "bs name") (auto simp: tx_put_def split: sum.splits)
qed

locale knowledge_total = knowledge K Z for K :: "'b kbase" and Z +
  fixes fits :: "string \<Rightarrow> bool"
  assumes store: "bolt_total (kb_bolt K) fits" and fitting: "fits s"
begin

lemma put_json_ok:
  assumes "key \<noteq> ''''" "length key \<le> 32768" "entry_in Z e" "bs name \<noteq> None"
  shows "\<exists>bs'. put_json (kb_json K) (kb_bolt K) name key e bs = Inr bs'"
proof -
  obtain b where b: "bs name = Some b" using assms(4) by auto
  obtain s where s: "jc_enc (kb_json K) e = Inr s" using json_codec.enc_ok [OF codec assms(3)] by blast
  obtain b' where "bk_put (kb_bolt K) b key s = Inr b'"
    using bolt_writable.put_ok [OF bolt_total.axioms(1) [OF store] assms(1,2) fitting] by blast
  then show ?thesis using b s by (simp add: put_json_def tx_put_def)
qed

lemma commits: "bk_commit (kb_bolt K) bs = None"
  by (rule bolt_writable.commit_ok [OF bolt_total.axioms(1) [OF store]])

lemma created [simp]: "create_if_missing (kb_bolt K) name bs name \<noteq> None"
  by (simp add: create_if_missing_def split: option.splits)

lemma log_conflict_ok:
  assumes "length (conflict_key ns key now) \<le> 32768" "entry_in Z (conflict_record ns key now w old)"
  shows "\<exists>db2. log_conflict K now ns key w old db = (None, db2)"
  using put_json_ok [OF _ assms, of "create_if_missing (kb_bolt K) (bucketKey NSConflicts) db" "bucketKey NSConflicts"] commits
  by (auto simp: log_conflict_def wal_update_ok conflict_key_def)

lemma row_bucket: "row K bs ns key = Some e \<Longrightarrow> \<exists>b s. bs (bucketKey ns) = Some b \<and> bk_get (kb_bolt K) b key = Some s \<and>
    jc_dec (kb_json K) s = (e, None)"
  by (auto simp: row_def decoded_def split: option.splits prod.splits)

lemma row_key: "row K bs ns key = Some e \<Longrightarrow> key \<noteq> '''' \<and> length key \<le> 32768"
proof -
  assume "row K bs ns key = Some e"
  then obtain b s where "bk_get (kb_bolt K) b key = Some s" using row_bucket by blast
  then have "(key, s) \<in> set (bk_items (kb_bolt K) b)"
    using bolt_bucket.get_items [OF bucket] map_of_SomeD by metis
  then show ?thesis by (rule bolt_writable.items_keys [OF bolt_total.axioms(1) [OF store]])
qed

lemma deletes: "\<exists>b2. bk_delete (kb_bolt K) b1 ck = Inr b2"
  by (rule bolt_total.delete_ok [OF store])

text \<open>Either resolution succeeds.\<close>

lemma resolve_A: "row K (ks_db st) NSConflicts ck = Some c \<Longrightarrow> \<exists>st'. ResolveConflict K now ck ''A'' st = (None, st')"
proof -
  assume "row K (ks_db st) NSConflicts ck = Some c"
  then obtain b s where b: "ks_db st (bucketKey NSConflicts) = Some b" "bk_get (kb_bolt K) b ck = Some s" using row_bucket by blast
  moreover obtain b2 where "bk_delete (kb_bolt K) b ck = Inr b2" using deletes by blast
  ultimately obtain bs' where "resolve_tx K now ck ''A'' (ks_db st) = Inr bs'"
    unfolding resolve_tx_def by auto
  then have "wal_update (kb_bolt K) (resolve_tx K now ck ''A'') (ks_db st) = (None, bs')" using commits by (simp add: wal_update_ok)
  then show ?thesis by (simp add: ResolveConflict_def)
qed

lemma resolve_B:
  assumes "row K (ks_db st) NSConflicts ck = Some c" "origin (ke_Tags c) = (ns, key)" "ns \<noteq> ''''" "key \<noteq> ''''"
    "length key \<le> 32768" "entry_in Z (restored now c)"
  shows "\<exists>st'. ResolveConflict K now ck ''B'' st = (None, st')"
proof -
  obtain b s where b: "ks_db st (bucketKey NSConflicts) = Some b" "bk_get (kb_bolt K) b ck = Some s" "jc_dec (kb_json K) s = (c, None)"
    using row_bucket [OF assms(1)] by blast
  have e: "restored now c = c\<lparr>ke_Namespace := ns, ke_Key := key, ke_UpdatedAt := now\<rparr>" by (simp add: restored_def assms(2))
  let ?bs0 = "create_if_missing (kb_bolt K) (bucketKey ns) (ks_db st)"
  obtain bs1 where p: "put_json (kb_json K) (kb_bolt K) (bucketKey ns) key (restored now c) ?bs0 = Inr bs1"
    using put_json_ok [OF assms(4,5,6), of ?bs0 "bucketKey ns"] by auto
  have "?bs0 (bucketKey NSConflicts) \<noteq> None" using b(1) by (simp add: create_if_missing_def split: option.splits)
  then obtain b1 where b1: "bs1 (bucketKey NSConflicts) = Some b1"
    using put_json_keeps [OF p] by auto
  obtain b2 where d: "bk_delete (kb_bolt K) b1 ck = Inr b2" using deletes by blast
  have "resolve_tx K now ck ''B'' (ks_db st) = Inr (bs1(bucketKey NSConflicts \<mapsto> b2))"
    unfolding resolve_tx_def using p b1 d by (simp add: b assms(2,3,4) e)
  then have "wal_update (kb_bolt K) (resolve_tx K now ck ''B'') (ks_db st) = (None, bs1(bucketKey NSConflicts \<mapsto> b2))" using commits by (simp add: wal_update_ok)
  then show ?thesis by (simp add: ResolveConflict_def)
qed

end

interpretation lknow_total: knowledge_total list_base UNIV "\<lambda>_. True"
  by (intro knowledge_total.intro knowledge_total_axioms.intro lknow.knowledge_axioms) (simp_all add: ltotal.bolt_total_axioms)

text \<open>The entry that was overwritten, as it comes back: the tags of the conflict stay on it.\<close>

definition brought_back :: "int \<Rightarrow> string \<Rightarrow> string \<Rightarrow> string \<Rightarrow> KnowledgeEntry \<Rightarrow> KnowledgeEntry" where
  "brought_back now ns key winner old =
     old\<lparr>ke_Tags := ke_Tags old @ [''conflict_of:'' @ ns @ ''/'' @ key, ''winner:'' @ winner], ke_UpdatedAt := now\<rparr>"

context knowledge_total
begin

lemma conflict_cycle:
  assumes inv: "know_inv K Z now (ks_db st)" and args: "0 < now" "entry_in Z e" "ns \<in> Z" "key \<in> Z"
      "CHR ''/'' \<notin> set ns" "ns \<noteq> ''''" "length (conflict_key ns key now) \<le> 32768"
    and was: "Get_know K ns key st = Inr old" "overwrites ns now old e"
    and put: "Put_know K now ns key e st = (None, st1)"
  defines "new \<equiv> stored_entry now ns key (Some old) e"
  shows "Get_know K ns key st1 = Inr new \<and>
    row K (ks_db st1) NSConflicts (conflict_key ns key now) = Some (conflict_record ns key now (ke_SessionAgentID e) old) \<and>
    (\<exists>stA. ResolveConflict K later (conflict_key ns key now) ''A'' st1 = (None, stA) \<and> Get_know K ns key stA = Inr new \<and>
       row K (ks_db stA) NSConflicts (conflict_key ns key now) = None) \<and>
    (\<exists>stB. ResolveConflict K later (conflict_key ns key now) ''B'' st1 = (None, stB) \<and>
       Get_know K ns key stB = Inr (brought_back later ns key (ke_SessionAgentID e) old) \<and>
       row K (ks_db stB) NSConflicts (conflict_key ns key now) = None)"
proof -
  let ?ck = "conflict_key ns key now" and ?c = "conflict_record ns key now (ke_SessionAgentID e) old"
  have oldr: "row K (ks_db st) ns key = Some old" using was(1) by (simp add: get_row)
  then have ok: "row_ok Z now ns key old" using inv by (auto simp: know_inv_def)
  have newz: "entry_in Z (stored_entry now ns key (row K (ks_db st) ns key) e)" using args by (auto simp: stored_entry_def entry_in_def)
  have oldz: "\<And>d. row K (ks_db st) ns key = Some d \<Longrightarrow> entry_in Z d" using oldr ok by (simp add: row_ok_def)
  have cz: "entry_in Z ?c" using ok args(2-4) by (intro conflict_in) (auto simp: row_ok_def entry_in_def)
  have cl: "clash ns now (row K (ks_db st) ns key) e = Some old" using was(2) by (simp add: clash_def oldr)
  have log: "\<And>db. \<exists>db2. log_conflict K now ns key (ke_SessionAgentID e) old db = (None, db2)"
    by (rule log_conflict_ok [OF args(7) cz])
  have nc: "ns \<noteq> NSConflicts" using was(2) by (simp add: overwrites_def)
  have st1: "row K (ks_db st1) = with_row NSConflicts ?ck (Some ?c) (with_row ns key (Some new) (row K (ks_db st)))"
    using put_effect(3) [OF put newz args(3,4) oldz refl cl] log unfolding new_def oldr by blast
  have new1: "row K (ks_db st1) ns key = Some new" using nc by (simp add: st1 with_row_def)
  have c1: "row K (ks_db st1) NSConflicts ?ck = Some ?c" by (simp add: st1)
  have o: "origin (ke_Tags ?c) = (ns, key)" using origin_of_conflict [OF args(5)] by (simp add: conflict_record_def)
  have kl: "key \<noteq> ''''" "length key \<le> 32768" using row_key [OF oldr] by simp_all
  have rback: "restored later ?c = brought_back later ns key (ke_SessionAgentID e) old"
    using ok by (simp add: restored_def o brought_back_def) (simp add: conflict_record_def row_ok_def)
  have bz: "entry_in Z (restored later ?c)" unfolding restored_def o using cz args(3,4) by (simp add: entry_in_def)
  obtain stA where A: "ResolveConflict K later ?ck ''A'' st1 = (None, stA)" using resolve_A [OF c1] by blast
  obtain stB where B: "ResolveConflict K later ?ck ''B'' st1 = (None, stB)" using resolve_B [OF c1 o args(6) kl bz] by blast
  have z1: "\<And>d. row K (ks_db st1) NSConflicts ?ck = Some d \<Longrightarrow> entry_in Z (restored later d)" using c1 bz by simp
  have rA: "row K (ks_db stA) = with_row NSConflicts ?ck None (row K (ks_db st1))" using resolve_effect(2) [OF A] z1 by blast
  have "\<exists>loser ns key. row K (ks_db st1) NSConflicts ?ck = Some loser \<and> origin (ke_Tags loser) = (ns, key) \<and> ns \<noteq> '''' \<and> key \<noteq> '''' \<and>
       row K (ks_db stB) = with_row NSConflicts ?ck None (with_row ns key (Some (restored later loser)) (row K (ks_db st1)))"
    using resolve_effect(3) [OF B] z1 by auto
  then have rB: "row K (ks_db stB) = with_row NSConflicts ?ck None (with_row ns key (Some (restored later ?c)) (row K (ks_db st1)))"
    using c1 o by auto
  have "Get_know K ns key stA = Inr new" using new1 nc by (simp add: get_row rA with_row_def)
  moreover have "Get_know K ns key stB = Inr (brought_back later ns key (ke_SessionAgentID e) old)"
    using nc rback by (simp add: get_row rB with_row_def)
  moreover have "Get_know K ns key st1 = Inr new" using new1 by (simp add: get_row)
  moreover have "row K (ks_db stA) NSConflicts ?ck = None" "row K (ks_db stB) NSConflicts ?ck = None" by (simp_all add: rA rB)
  ultimately show ?thesis using A B c1 by blast
qed

end

text \<open>
  C4: When a session overwrites an entry another session wrote less than ten seconds before, in a
  namespace without a slash that is neither the inbox nor that of conflicts, and writes do not fail, the
  new entry is stored with the creation time of the old one and the old one is kept as a
  conflict; resolving the conflict for A leaves the new entry, resolving it for B brings the old
  one back, changed only by the two tags of the conflict and the time, and either way the record
  of the conflict is gone.
\<close>

theorem conflict_recoverable:
  assumes "bolt_total (kb_bolt K) (\<lambda>_. True)" "json_codec (kb_json K) (entry_in Z)" "text_set Z"
    and "know_history K Z now st" "0 < now" "entry_in Z e" "ns \<in> Z" "key \<in> Z"
    and "CHR ''/'' \<notin> set ns" "ns \<noteq> ''''" "length (conflict_key ns key now) \<le> 32768"
    and "Get_know K ns key st = Inr old" "ns \<noteq> NSConflicts" "ns \<noteq> NSInbox" "now - ke_UpdatedAt old < 10"
      "ke_SessionAgentID old \<noteq> ''''" "ke_SessionAgentID e \<noteq> ''''" "ke_SessionAgentID old \<noteq> ke_SessionAgentID e"
    and "Put_know K now ns key e st = (None, st1)"
  shows "\<exists>stA stB. Get_know K ns key st1 = Inr (stored_entry now ns key (Some old) e) \<and>
    ke_CreatedAt (stored_entry now ns key (Some old) e) = ke_CreatedAt old \<and>
    row K (ks_db st1) NSConflicts (conflict_key ns key now) = Some (conflict_record ns key now (ke_SessionAgentID e) old) \<and>
    ResolveConflict K later (conflict_key ns key now) ''A'' st1 = (None, stA) \<and>
    Get_know K ns key stA = Inr (stored_entry now ns key (Some old) e) \<and>
    row K (ks_db stA) NSConflicts (conflict_key ns key now) = None \<and>
    ResolveConflict K later (conflict_key ns key now) ''B'' st1 = (None, stB) \<and>
    Get_know K ns key stB = Inr (brought_back later ns key (ke_SessionAgentID e) old) \<and>
    row K (ks_db stB) NSConflicts (conflict_key ns key now) = None"
proof -
  have k: "knowledge K Z"
    by (rule knowledge.intro [OF bolt_writable.axioms(1) [OF bolt_total.axioms(1) [OF assms(1)]] assms(2,3)])
  then have kt: "knowledge_total K Z (\<lambda>_. True)"
    by (rule knowledge_total.intro) (rule knowledge_total_axioms.intro [OF assms(1) TrueI])
  have inv: "know_inv K Z now (ks_db st)" by (rule knowledge.know_history_inv [OF k assms(4)])
  then have ok: "row_ok Z now ns key old" using assms(12) by (auto simp: know_inv_def get_row)
  then have ov: "overwrites ns now old e" using assms(13-18) by (simp add: overwrites_def row_ok_def)
  have "ke_CreatedAt (stored_entry now ns key (Some old) e) = ke_CreatedAt old" using ok by (simp add: stored_entry_def creation_def row_ok_def)
  then show ?thesis
    using knowledge_total.conflict_cycle [OF kt inv assms(5-11) assms(12) ov assms(19), of later] by blast
qed

theorem conflict_recoverable_witness:
  "\<exists>stA stB. ResolveConflict list_base 9 ''epics:L-1:8'' ''A'' (demo_put 8 ''b'' (demo_put 5 ''a'' no_store)) = (None, stA) \<and>
     map_sum id ke_Content (Get_know list_base NSEpics ''L-1'' stA) = Inr ''b'' \<and>
     ResolveConflict list_base 9 ''epics:L-1:8'' ''B'' (demo_put 8 ''b'' (demo_put 5 ''a'' no_store)) = (None, stB) \<and>
     map_sum id ke_Content (Get_know list_base NSEpics ''L-1'' stB) = Inr ''a''"
proof -
  let ?st = "demo_put 5 ''a'' no_store"
  let ?old = "(epic_of ''a'')\<lparr>ke_Key := ''L-1'', ke_Namespace := NSEpics, ke_CreatedAt := 5, ke_UpdatedAt := 5\<rparr>"
  have h: "know_history list_base UNIV 8 ?st"
    by (rule know_history.clock [of _ _ 5]) (intro demo_put_history [of 0] know_history.start, simp_all add: no_store_def)
  have p: "Put_know list_base 8 NSEpics ''L-1'' (epic_of ''b'') ?st = (None, demo_put 8 ''b'' ?st)"
    unfolding demo_put_def [of 8] by (simp add: demo_defs)
  have "\<exists>stA stB. Get_know list_base NSEpics ''L-1'' (demo_put 8 ''b'' ?st) = Inr (stored_entry 8 NSEpics ''L-1'' (Some ?old) (epic_of ''b'')) \<and>
    ke_CreatedAt (stored_entry 8 NSEpics ''L-1'' (Some ?old) (epic_of ''b'')) = ke_CreatedAt ?old \<and>
    row list_base (ks_db (demo_put 8 ''b'' ?st)) NSConflicts (conflict_key NSEpics ''L-1'' 8) =
      Some (conflict_record NSEpics ''L-1'' 8 (ke_SessionAgentID (epic_of ''b'')) ?old) \<and>
    ResolveConflict list_base 9 (conflict_key NSEpics ''L-1'' 8) ''A'' (demo_put 8 ''b'' ?st) = (None, stA) \<and>
    Get_know list_base NSEpics ''L-1'' stA = Inr (stored_entry 8 NSEpics ''L-1'' (Some ?old) (epic_of ''b'')) \<and>
    row list_base (ks_db stA) NSConflicts (conflict_key NSEpics ''L-1'' 8) = None \<and>
    ResolveConflict list_base 9 (conflict_key NSEpics ''L-1'' 8) ''B'' (demo_put 8 ''b'' ?st) = (None, stB) \<and>
    Get_know list_base NSEpics ''L-1'' stB = Inr (brought_back 9 NSEpics ''L-1'' (ke_SessionAgentID (epic_of ''b'')) ?old) \<and>
    row list_base (ks_db stB) NSConflicts (conflict_key NSEpics ''L-1'' 8) = None"
    by (rule conflict_recoverable [OF _ _ text_UNIV h _ _ _ _ _ _ _ demo_first _ _ _ _ _ _ p])
      (simp_all add: ltotal.bolt_total_axioms entry_codec_json demo_conflict_key demo_conflict_key [unfolded NSEpics_def] entry_in_def epic_of_def blank_entry_def NSEpics_def NSConflicts_def
        NSInbox_def)
  then show ?thesis
    by (auto simp: demo_conflict_key stored_entry_def brought_back_def epic_of_def)
qed

text \<open>
  A slash in the namespace is taken for the end of it: the record of the namespace \<^verbatim>\<open>a/b\<close> goes back
  to the namespace \<^verbatim>\<open>a\<close>.
\<close>

lemma slash_misplaces: "origin [''conflict_of:'' @ ''a/b'' @ ''/'' @ ''k'', ''winner:x''] = (''a'', ''b/k'')"
  by code_simp

text \<open>The keys the memory tool uses to delegate a task and to report one done are refused by the inbox.\<close>

lemma delegation_refused: "ValidateInboxKey (''delegate:'' @ s) \<noteq> None" "ValidateInboxKey (''done:'' @ s) \<noteq> None"
  by (simp_all add: ValidateInboxKey_def)

end
