(* ===== verification/Know_Inbox.thy ===== *)
theory Know_Inbox
  imports Know_Props
begin

text \<open>
  The quota of the inbox: how many messages of one sender, sent within an hour, the inbox can
  hold when that sender uses \<^const>\<open>PutInbox\<close>; what refreshes a message, and what goes around
  the quota.
\<close>

section \<open>Rows of a namespace\<close>

lemma mem_map_filter: "y \<in> set (List.map_filter f xs) \<longleftrightarrow> (\<exists>x\<in>set xs. f x = Some y)"
  by (induction xs) (auto simp: List.map_filter_simps split: option.splits)

lemma distinct_map_filter:
  "distinct (List.map g xs) \<Longrightarrow> (\<And>x y. x \<in> set xs \<Longrightarrow> f x = Some y \<Longrightarrow> h y = g x) \<Longrightarrow> distinct (List.map h (List.map_filter f xs))"
proof (induction xs)
  case (Cons x xs)
  have IH: "distinct (List.map h (List.map_filter f xs))" using Cons by auto
  have "h y \<notin> h ` set (List.map_filter f xs)" if "f x = Some y" for y
  proof
    assume "h y \<in> h ` set (List.map_filter f xs)"
    then obtain z w where "z \<in> set xs" "f z = Some w" "h y = h w" by (auto simp: mem_map_filter)
    then have "g x = g z" using Cons.prems(2) [of x y] Cons.prems(2) [of z w] that by simp
    then show False using Cons.prems(1) \<open>z \<in> set xs\<close> by auto
  qed
  then show ?case using IH by (auto simp: List.map_filter_simps split: option.splits)
qed (simp add: List.map_filter_simps)

lemma distinct_map_filter_same: "distinct (List.map g xs) \<Longrightarrow> distinct (List.map g (filter P xs))"
  by (induction xs) auto

text \<open>
  The rows of a sender that were written since a time; and those that were sent since then: as a
  new message, or over an old one and not read since.
\<close>

definition from_since :: "'b kbase \<Rightarrow> 'b buckets \<Rightarrow> string \<Rightarrow> int \<Rightarrow> string set" where
  "from_since K bs sender since = {k. \<exists>e. row K bs NSInbox k = Some e \<and> ke_From e = sender \<and> since \<le> ke_UpdatedAt e}"

definition sent_since :: "int \<Rightarrow> KnowledgeEntry \<Rightarrow> bool" where
  "sent_since since e \<longleftrightarrow> since \<le> ke_CreatedAt e \<or> ke_ReadAt e = 0 \<and> since \<le> ke_UpdatedAt e"

definition recent_from :: "'b kbase \<Rightarrow> 'b buckets \<Rightarrow> string \<Rightarrow> int \<Rightarrow> string set" where
  "recent_from K bs sender since = {k. \<exists>e. row K bs NSInbox k = Some e \<and> ke_From e = sender \<and> sent_since since e}"

context knowledge
begin

lemma ns_rows_set: "(k, e) \<in> set (ns_rows K ns bs) \<longleftrightarrow> row K bs ns k = Some e"
proof (cases "bs (bucketKey ns)")
  case None
  then show ?thesis by (simp add: ns_rows_def row_def)
next
  case (Some b)
  have "(k, v) \<in> set (bk_items (kb_bolt K) b) \<longleftrightarrow> bk_get (kb_bolt K) b k = Some v" for v
    using map_of_distinct_mem [OF bolt_bucket.items_distinct [OF bucket]] bolt_bucket.get_items [OF bucket] by simp
  moreover have "(k, e) \<in> set (ns_rows K ns bs) \<longleftrightarrow> (\<exists>v. (k, v) \<in> set (bk_items (kb_bolt K) b) \<and> decoded (kb_json K) v = Some e)"
    using Some by (auto simp: ns_rows_def mem_map_filter split: prod.splits)
  ultimately show ?thesis using Some by (auto simp: row_def split: option.splits)
qed

lemma ns_rows_distinct: "distinct (List.map fst (ns_rows K ns bs))"
proof (cases "bs (bucketKey ns)")
  case (Some b)
  then show ?thesis
    using distinct_map_filter [OF bolt_bucket.items_distinct [OF bucket], of b "\<lambda>(k, v). map_option (Pair k) (decoded (kb_json K) v)" fst]
    by (auto simp: ns_rows_def)
qed (simp add: ns_rows_def)

lemma finite_rows: "finite {k. row K bs ns k \<noteq> None}"
proof (rule finite_subset)
  show "{k. row K bs ns k \<noteq> None} \<subseteq> fst ` set (ns_rows K ns bs)"
    using ns_rows_set by (auto simp: image_iff) (metis fst_conv)
qed simp

lemma length_filter_rows:
  "length (filter P (ns_rows K ns bs)) = card {k. \<exists>e. row K bs ns k = Some e \<and> P (k, e)}"
proof -
  have d: "distinct (List.map fst (filter P (ns_rows K ns bs)))" using ns_rows_distinct by (rule distinct_map_filter_same)
  have "length (filter P (ns_rows K ns bs)) = card (fst ` set (filter P (ns_rows K ns bs)))"
    using distinct_card [OF d] by simp
  also have "fst ` set (filter P (ns_rows K ns bs)) = {k. \<exists>e. row K bs ns k = Some e \<and> P (k, e)}"
    using ns_rows_set by force
  finally show ?thesis .
qed

lemma finite_from [simp]: "finite (from_since K bs sender since)"
  by (rule finite_subset [OF _ finite_rows [of bs NSInbox]]) (auto simp: from_since_def)

lemma count_card: "countInboxFromSince K sender exempt since bs = card (from_since K bs sender since - {exempt})"
proof -
  have "{k. \<exists>e. row K bs NSInbox k = Some e \<and> k \<noteq> exempt \<and> ke_From e = sender \<and> since \<le> ke_UpdatedAt e} =
      from_since K bs sender since - {exempt}" by (auto simp: from_since_def)
  then show ?thesis unfolding countInboxFromSince_def length_filter_rows by simp
qed

lemma finite_recent [simp]: "finite (recent_from K bs sender since)"
  by (rule finite_subset [OF _ finite_rows [of bs NSInbox]]) (auto simp: recent_from_def)

lemma listed_card:
  "length (filter (\<lambda>e. ke_From e = sender \<and> sent_since since e) (List_know K NSInbox '''' st)) =
     card (recent_from K (ks_db st) sender since)"
proof -
  have "filter (\<lambda>e. ke_From e = sender \<and> sent_since since e) (List_know K NSInbox '''' st) =
      List.map snd (filter (\<lambda>p. ke_From (snd p) = sender \<and> sent_since since (snd p)) (ns_rows K NSInbox (ks_db st)))"
    by (simp add: List_know_def filter_map comp_def)
  then show ?thesis by (simp add: length_filter_rows recent_from_def)
qed

lemma recent_mono:
  assumes "\<And>since. recent_from K bs' s since \<subseteq> recent_from K bs s since" "since \<le> since'"
  shows "card (recent_from K bs' s since') \<le> card (recent_from K bs s since)"
proof (rule card_mono [OF finite_recent])
  show "recent_from K bs' s since' \<subseteq> recent_from K bs s since"
    using assms(1) [of since'] assms(2) by (force simp: recent_from_def sent_since_def)
qed

lemma same_inbox: "(\<And>k. row K bs' NSInbox k = row K bs NSInbox k) \<Longrightarrow> recent_from K bs' s since \<subseteq> recent_from K bs s since"
  by (auto simp: recent_from_def)

lemma recent_written:
  assumes "know_inv K Z now bs"
  shows "recent_from K bs s since \<subseteq> from_since K bs s since"
proof -
  have "ke_CreatedAt e \<le> ke_UpdatedAt e" if "row K bs NSInbox k = Some e" for k e
    using assms that by (auto simp: know_inv_def row_ok_def)
  then show ?thesis by (force simp: recent_from_def from_since_def sent_since_def)
qed

end

section \<open>The quota\<close>

definition quota_of :: "int \<Rightarrow> int" where
  "quota_of q = (if q \<le> 0 then InboxQuotaPerSenderPerHour else q)"

text \<open>
  What can happen while a sender uses \<^const>\<open>PutInbox\<close> with one quota: messages of anyone are
  sent and read, entries are stored and deleted (in the inbox too, if they are not the
  sender's), epics are written, conflicts resolved, and files read back and removed.
\<close>

inductive quota_history :: "'b kbase \<Rightarrow> string set \<Rightarrow> int \<Rightarrow> string \<Rightarrow> int \<Rightarrow> 'b KnowledgeStore \<Rightarrow> bool" for K Z q s where
  qstart: "(\<And>ns. ks_db st (bucketKey ns) = None) \<Longrightarrow> quota_history K Z q s now st"
| qclock: "quota_history K Z q s now st \<Longrightarrow> now \<le> now' \<Longrightarrow> quota_history K Z q s now' st"
| qsend: "quota_history K Z q s now st \<Longrightarrow> 0 < now \<Longrightarrow> now0 \<le> now \<Longrightarrow> {sender, key, content, priority} \<subseteq> Z \<Longrightarrow>
    sender \<noteq> s \<or> q' = q \<Longrightarrow> PutInbox K now0 now sender key content priority q' st = (r, st') \<Longrightarrow>
    quota_history K Z q s now st'"
| qread: "quota_history K Z q s now st \<Longrightarrow> 0 < now \<Longrightarrow> 0 < now0 \<Longrightarrow> key \<in> Z \<Longrightarrow>
    MarkInboxRead K now0 now key st = (r, st') \<Longrightarrow> quota_history K Z q s now st'"
| qput: "quota_history K Z q s now st \<Longrightarrow> 0 < now \<Longrightarrow> entry_in Z e \<Longrightarrow> ns \<in> Z \<Longrightarrow> key \<in> Z \<Longrightarrow> 0 \<le> ke_CreatedAt e \<Longrightarrow>
    ke_CreatedAt e \<le> now \<Longrightarrow> ns \<noteq> NSConflicts \<Longrightarrow> CHR ''/'' \<notin> set ns \<Longrightarrow> ns \<noteq> NSInbox \<or> ke_From e \<noteq> s \<Longrightarrow>
    Put_know K now ns key e st = (r, st') \<Longrightarrow> quota_history K Z q s now st'"
| qepic: "quota_history K Z q s now st \<Longrightarrow> 0 < now \<Longrightarrow>
    {key, title, content, status, priority, owner} \<union> set affected \<union> set blocks \<subseteq> Z \<Longrightarrow>
    PutEpic K now key title content status priority owner affected blocks st = (r, st') \<Longrightarrow> quota_history K Z q s now st'"
| qdelete: "quota_history K Z q s now st \<Longrightarrow> Delete_know K ns key st = (r, st') \<Longrightarrow> quota_history K Z q s now st'"
| qresolve: "quota_history K Z q s now st \<Longrightarrow> ResolveConflict K now ck w st = (r, st') \<Longrightarrow> quota_history K Z q s now st'"
| qwritten: "quota_history K Z q s now st \<Longrightarrow> 0 < now \<Longrightarrow>
    (\<And>e. ImportEntry (kb_os K) (kb_unstamp K) path (ks_disk st) = Inr e \<Longrightarrow> entry_in Z e \<and> ke_Namespace e \<noteq> NSConflicts \<and>
       CHR ''/'' \<notin> set (ke_Namespace e)) \<Longrightarrow> applyFSWrite K now path (st, hc) = (st', hc') \<Longrightarrow> quota_history K Z q s now st'"
| qremoved: "quota_history K Z q s now st \<Longrightarrow> applyFSRemove K path (st, hc) = (st', hc') \<Longrightarrow> quota_history K Z q s now st'"

lemma quota_known: "quota_history K Z q s now st \<Longrightarrow> know_history K Z now st"
proof (induction rule: quota_history.induct)
  case (qstart st now)
  then show ?case by (rule know_history.start)
next
  case (qclock now st now')
  show ?case by (rule know_history.clock [OF qclock.IH qclock.hyps(2)])
next
  case (qsend now st now0 sender key content priority q' r st')
  show ?case by (rule know_history.inbox [OF qsend.IH qsend.hyps(2,4,6)])
next
  case (qread now st now0 key r st')
  show ?case by (rule know_history.mark [OF qread.IH qread.hyps(2,4,5)])
next
  case (qput now st e ns key r st')
  show ?case by (rule know_history.put [OF qput.IH qput.hyps(2-9,11)])
next
  case (qepic now st key title content status priority owner affected blocks r st')
  show ?case by (rule know_history.epic [OF qepic.IH qepic.hyps(2-4)])
next
  case (qdelete now st ns key r st')
  show ?case by (rule know_history.delete [OF qdelete.IH qdelete.hyps(2)])
next
  case (qresolve now st ck w r st')
  show ?case by (rule know_history.resolve [OF qresolve.IH qresolve.hyps(2)])
next
  case (qwritten now st path hc st' hc')
  show ?case by (rule know_history.written [OF qwritten.IH qwritten.hyps(2) qwritten.hyps(3) qwritten.hyps(4)])
next
  case (qremoved now st path hc st' hc')
  show ?case by (rule know_history.removed [OF qremoved.IH qremoved.hyps(2)])
qed

lemma fold_line_sender: "ke_From (fold_line u e l) = ke_From e"
  by (auto simp: fold_line_def parseFrontmatterLine_def Let_def split: option.splits)

text \<open>A file names no sender.\<close>

lemma imported_sender: "imported u path s = Inr e \<Longrightarrow> ke_From e = ''''"
proof -
  have "ke_From (foldl (fold_line u) e0 lns) = ke_From e0" for e0 lns
    by (induction lns arbitrary: e0) (simp_all add: fold_line_sender)
  then show "imported u path s = Inr e \<Longrightarrow> ke_From e = ''''"
    by (auto simp: imported_def Let_def blank_entry_def split: option.splits if_splits)
qed

context knowledge
begin

text \<open>A write adds to the messages of a sender only as a message of theirs, sent no later than the one it replaces.\<close>

lemma put_recent:
  assumes inv: "know_inv K Z now (ks_db st)" and e: "entry_in Z e" "ns \<in> Z" "key \<in> Z"
    and put: "Put_know K now ns key e st = (r, st')"
    and inbox: "ns = NSInbox \<Longrightarrow> ke_From e = s \<Longrightarrow> \<exists>d. row K (ks_db st) ns key = Some d \<and> ke_From d = s \<and>
      (\<forall>since. sent_since since (stored_entry now ns key (row K (ks_db st) ns key) e) \<longrightarrow> sent_since since d)"
  shows "recent_from K (ks_db st') s since \<subseteq> recent_from K (ks_db st) s since"
proof (cases "r = None")
  case True
  let ?n = "stored_entry now ns key (row K (ks_db st) ns key) e"
  have new: "entry_in Z ?n" using e by (auto simp: stored_entry_def entry_in_def)
  have oldz: "\<And>d. row K (ks_db st) ns key = Some d \<Longrightarrow> entry_in Z d" using inv by (auto simp: know_inv_def row_ok_def)
  have R: "row K (ks_db st') NSInbox k = with_row ns key (Some ?n) (row K (ks_db st)) NSInbox k" for k
    using put_effect(2) [OF put new e(2,3) oldz True] by (auto simp: Let_def with_row_def)
  have f: "ke_From ?n = ke_From e" by (simp add: stored_entry_def)
  show ?thesis
  proof
    fix k assume "k \<in> recent_from K (ks_db st') s since"
    then obtain d where d: "with_row ns key (Some ?n) (row K (ks_db st)) NSInbox k = Some d" "ke_From d = s" "sent_since since d"
      by (auto simp: recent_from_def R)
    show "k \<in> recent_from K (ks_db st) s since"
    proof (cases "ns = NSInbox \<and> k = key")
      case True
      then have "d = ?n" using d(1) by (simp add: with_row_def)
      then show ?thesis using inbox d True f by (auto simp: recent_from_def)
    next
      case False
      then have "row K (ks_db st) NSInbox k = Some d" using d(1) by (auto simp: with_row_def)
      then show ?thesis using d(2,3) by (auto simp: recent_from_def)
    qed
  qed
next
  case False
  have new: "entry_in Z (stored_entry now ns key (row K (ks_db st) ns key) e)" using e by (auto simp: stored_entry_def entry_in_def)
  show ?thesis using put_steps(1) [OF put new False] by simp
qed

text \<open>A message that is stored passed the quota, and is the only change to the inbox.\<close>

lemma send_effect:
  assumes inv: "know_inv K Z now (ks_db st)" and args: "0 < now" "{sender, key, content, priority} \<subseteq> Z"
    and send: "PutInbox K now0 now sender key content priority q st = (r, st')"
  shows "ks_db st' = ks_db st \<or> sender \<noteq> '''' \<and> int (countInboxFromSince K sender key (now0 - 3600) (ks_db st)) < quota_of q \<and>
    (\<exists>e. ke_From e = sender \<and> row K (ks_db st') = with_row NSInbox key (Some e) (row K (ks_db st)))"
proof (cases "ks_db st' = ks_db st")
  case False
  let ?e = "inbox_entry sender content (if priority = '''' then ''normal'' else priority)"
  have p: "''normal'' \<in> Z" by (rule ascii_names) (simp add: is_ascii_def)
  have send': "sender \<noteq> ''''" "int (countInboxFromSince K sender key (now0 - 3600) (ks_db st)) < quota_of q"
    "Put_know K now NSInbox key ?e st = (r, st')"
    using send False by (auto simp: PutInbox_def Let_def quota_of_def split: if_splits)
  have e: "entry_in Z ?e" using args(2) p by (intro inbox_entry_in) auto
  have new: "entry_in Z (stored_entry now NSInbox key (row K (ks_db st) NSInbox key) ?e)"
    using e ns_in args(2) by (auto simp: stored_entry_def entry_in_def)
  have cl: "clash NSInbox now (row K (ks_db st) NSInbox key) ?e = None" by (simp add: clash_def overwrites_def split: option.splits)
  obtain db where "row K db = with_row NSInbox key (Some (stored_entry now NSInbox key (row K (ks_db st) NSInbox key) ?e)) (row K (ks_db st))"
    "ks_db st' = db"
    using put_steps [OF send'(3) new] False by (cases r) (auto simp: cl)
  moreover have "ke_From (stored_entry now NSInbox key (row K (ks_db st) NSInbox key) ?e) = sender" by (simp add: stored_entry_def inbox_entry_def)
  ultimately show ?thesis using send' by blast
qed simp

lemma sent_within_quota:
  assumes inv: "know_inv K Z now (ks_db st)" "know_inv K Z now (ks_db st')" and "now0 \<le> now"
    and c: "int (countInboxFromSince K s key (now0 - 3600) (ks_db st)) < quota_of q"
    and R: "row K (ks_db st') = with_row NSInbox key (Some e) (row K (ks_db st))"
  shows "int (card (recent_from K (ks_db st') s (now - 3600))) \<le> quota_of q"
proof -
  have "recent_from K (ks_db st') s (now - 3600) \<subseteq> from_since K (ks_db st') s (now - 3600)" by (rule recent_written [OF inv(2)])
  also have "\<dots> \<subseteq> insert key (from_since K (ks_db st) s (now0 - 3600) - {key})"
    using assms(3) by (force simp: from_since_def R with_row_def split: if_splits)
  finally have "card (recent_from K (ks_db st') s (now - 3600)) \<le> card (insert key (from_since K (ks_db st) s (now0 - 3600) - {key}))"
    by (intro card_mono) simp_all
  also have "\<dots> = Suc (card (from_since K (ks_db st) s (now0 - 3600) - {key}))"
    by (rule card_insert_disjoint) simp_all
  finally show ?thesis using c by (simp add: count_card)
qed

lemma read_recent:
  assumes inv: "know_inv K Z now (ks_db st)" and "0 < now0" "key \<in> Z" "MarkInboxRead K now0 now key st = (r, st')"
  shows "recent_from K (ks_db st') s since \<subseteq> recent_from K (ks_db st) s since"
proof (cases "st' = st")
  case False
  then obtain e where e: "Get_know K NSInbox key st = Inr e" "Put_know K now NSInbox key (e\<lparr>ke_ReadAt := now0\<rparr>) st = (r, st')"
    using assms(4) by (auto simp: MarkInboxRead_def split: option.splits sum.splits)
  have row: "row K (ks_db st) NSInbox key = Some e" using e(1) by (simp add: get_row)
  then have ok: "entry_in Z e" "0 < ke_CreatedAt e" using inv by (auto simp: know_inv_def row_ok_def)
  have "sent_since since (stored_entry now NSInbox key (Some e) (e\<lparr>ke_ReadAt := now0\<rparr>)) \<Longrightarrow> sent_since since e" for since
    using assms(2) ok(2) by (auto simp: sent_since_def stored_entry_def creation_def)
  then show ?thesis using ok(1) ns_in(1) assms(3) row
    by (intro put_recent [OF inv _ _ _ e(2)]) (auto simp: entry_in_def)
qed simp

lemma resolved_inbox:
  assumes inv: "know_inv K Z now (ks_db st)" and res: "ResolveConflict K now ck w st = (r, st')"
  shows "row K (ks_db st') NSInbox k = row K (ks_db st) NSInbox k"
proof -
  have home: "ns \<noteq> NSInbox \<and> entry_in Z (restored now d)"
    if "row K (ks_db st) NSConflicts ck = Some d" "origin (ke_Tags d) = (ns, key)" for d ns key
  proof -
    have "home_ok Z now d" using inv that(1) by (auto simp: know_inv_def)
    then show ?thesis using that(2) by (auto simp: home_ok_def restored_def row_ok_def entry_in_def)
  qed
  then have z: "\<And>d. row K (ks_db st) NSConflicts ck = Some d \<Longrightarrow> entry_in Z (restored now d)" by (metis prod.collapse)
  note eff = resolve_effect [OF res z]
  consider "r \<noteq> None" | "r = None" "w = ''A''" | "r = None" "w \<noteq> ''A''" by blast
  then show ?thesis
  proof cases
    case 1
    then show ?thesis using eff(1) by simp
  next
    case 2
    then show ?thesis using eff(2) by (simp add: with_row_def)
  next
    case 3
    then obtain d ns key where "row K (ks_db st) NSConflicts ck = Some d" "origin (ke_Tags d) = (ns, key)"
      "row K (ks_db st') = with_row NSConflicts ck None (with_row ns key (Some (restored now d)) (row K (ks_db st)))"
      using eff(3) by blast
    then show ?thesis using home by (auto simp: with_row_def)
  qed
qed

lemma deleted_recent:
  assumes "Delete_know K ns key st = (r, st')"
  shows "recent_from K (ks_db st') s since \<subseteq> recent_from K (ks_db st) s since"
  using delete_effect [OF assms] by (auto simp: recent_from_def with_row_def split: if_splits)

lemma quota_inv:
  "quota_history K Z q s now st \<Longrightarrow> s \<noteq> '''' \<Longrightarrow> int (card (recent_from K (ks_db st) s (now - 3600))) \<le> quota_of q"
proof (induction rule: quota_history.induct)
  case (qstart st now)
  then have "recent_from K (ks_db st) s (now - 3600) = {}" by (simp add: recent_from_def row_def)
  then show ?case by (simp add: quota_of_def InboxQuotaPerSenderPerHour_def)
next
  case (qclock now st now')
  have "card (recent_from K (ks_db st) s (now' - 3600)) \<le> card (recent_from K (ks_db st) s (now - 3600))"
    using qclock.hyps(2) by (intro recent_mono) auto
  then show ?case using qclock.IH qclock.prems by linarith
next
  case (qsend now st now0 sender key content priority q' r st')
  have inv: "know_inv K Z now (ks_db st)" by (rule know_history_inv [OF quota_known [OF qsend.hyps(1)]])
  have inv': "know_inv K Z now (ks_db st')"
    by (rule know_history_inv [OF know_history.inbox [OF quota_known [OF qsend.hyps(1)] qsend.hyps(2,4,6)]])
  from send_effect [OF inv qsend.hyps(2,4,6)] show ?case
  proof (elim disjE conjE exE)
    assume "ks_db st' = ks_db st"
    then show ?thesis using qsend.IH qsend.prems by simp
  next
    fix e
    assume c: "int (countInboxFromSince K sender key (now0 - 3600) (ks_db st)) < quota_of q'" and f: "ke_From e = sender"
      and R: "row K (ks_db st') = with_row NSInbox key (Some e) (row K (ks_db st))"
    show ?thesis
    proof (cases "sender = s")
      case True
      then show ?thesis using sent_within_quota [OF inv inv' qsend.hyps(3) _ R, of s q] c qsend.hyps(5) by simp
    next
      case False
      have "card (recent_from K (ks_db st') s (now - 3600)) \<le> card (recent_from K (ks_db st) s (now - 3600))"
        using False f by (intro recent_mono) (auto simp: recent_from_def R with_row_def split: if_splits)
      then show ?thesis using qsend.IH qsend.prems by linarith
    qed
  qed
next
  case (qread now st now0 key r st')
  have "card (recent_from K (ks_db st') s (now - 3600)) \<le> card (recent_from K (ks_db st) s (now - 3600))"
    by (intro recent_mono read_recent [OF know_history_inv [OF quota_known [OF qread.hyps(1)]] qread.hyps(3,4,5)]) simp
  then show ?case using qread.IH qread.prems by linarith
next
  case (qput now st e ns key r st')
  have "card (recent_from K (ks_db st') s (now - 3600)) \<le> card (recent_from K (ks_db st) s (now - 3600))"
    using qput.hyps(10)
    by (intro recent_mono put_recent [OF know_history_inv [OF quota_known [OF qput.hyps(1)]] qput.hyps(3,4,5,11)]) auto
  then show ?case using qput.IH qput.prems by linarith
next
  case (qepic now st key title content status priority owner affected blocks r st')
  have sub: "recent_from K (ks_db st') s since \<subseteq> recent_from K (ks_db st) s since" for since
  proof (cases "st' = st")
    case False
    have p: "''open'' \<in> Z" by (rule ascii_names) (simp add: is_ascii_def)
    let ?e = "epic_entry title content (if status = '''' then ''open'' else status) priority owner affected blocks"
    have "Put_know K now NSEpics key ?e st = (r, st')"
      using qepic.hyps(4) False by (auto simp: PutEpic_def split: if_splits)
    moreover have "entry_in Z ?e" using qepic.hyps(3) p by (intro epic_entry_in) auto
    ultimately show ?thesis using qepic.hyps(3) ns_in
      by (intro put_recent [OF know_history_inv [OF quota_known [OF qepic.hyps(1)]], of _ NSEpics key]) auto
  qed simp
  have "card (recent_from K (ks_db st') s (now - 3600)) \<le> card (recent_from K (ks_db st) s (now - 3600))"
    by (intro recent_mono sub) simp
  then show ?case using qepic.IH qepic.prems by linarith
next
  case (qdelete now st ns key r st')
  have "card (recent_from K (ks_db st') s (now - 3600)) \<le> card (recent_from K (ks_db st) s (now - 3600))"
    by (intro recent_mono deleted_recent [OF qdelete.hyps(2)]) simp
  then show ?case using qdelete.IH qdelete.prems by linarith
next
  case (qresolve now st ck w r st')
  have "card (recent_from K (ks_db st') s (now - 3600)) \<le> card (recent_from K (ks_db st) s (now - 3600))"
    by (intro recent_mono same_inbox resolved_inbox [OF know_history_inv [OF quota_known [OF qresolve.hyps(1)]] qresolve.hyps(2)]) simp
  then show ?case using qresolve.IH qresolve.prems by linarith
next
  case (qwritten now st path hc st' hc')
  have sub: "recent_from K (ks_db st') s since \<subseteq> recent_from K (ks_db st) s since" for since
    using fs_write_cases [OF qwritten.hyps(4)]
  proof (elim disjE exE conjE)
    fix e r
    assume e: "ImportEntry (kb_os K) (kb_unstamp K) path (ks_disk st) = Inr e" "Put_know K now (ke_Namespace e) (ke_Key e) e st = (r, st')"
    have "entry_in Z e" using qwritten.hyps(3) [OF e(1)] by simp
    moreover have "ke_From e \<noteq> s" using e(1) imported_sender qwritten.prems by (auto simp: ImportEntry_def split: sum.splits)
    ultimately show ?thesis
      by (intro put_recent [OF know_history_inv [OF quota_known [OF qwritten.hyps(1)]] _ _ _ e(2)]) (auto simp: entry_in_def)
  qed simp
  have "card (recent_from K (ks_db st') s (now - 3600)) \<le> card (recent_from K (ks_db st) s (now - 3600))"
    by (intro recent_mono sub) simp
  then show ?case using qwritten.IH qwritten.prems by linarith
next
  case (qremoved now st path hc st' hc')
  obtain ns key where "Delete_know K ns key st = (fst (Delete_know K ns key st), st')"
    using qremoved.hyps(2) by (auto simp: applyFSRemove_def Let_def) (metis prod.collapse)
  then have "card (recent_from K (ks_db st') s (now - 3600)) \<le> card (recent_from K (ks_db st) s (now - 3600))"
    by (intro recent_mono deleted_recent) simp_all
  then show ?case using qremoved.IH qremoved.prems by linarith
qed

end

text \<open>
  C37: As long as a sender writes to the inbox through \<^const>\<open>PutInbox\<close> with one quota, whatever
  others store there and whatever happens to the other namespaces, to read marks and to the
  files, the inbox at any later time lists at most the quota of the sender's messages that were
  sent within the hour: first sent then, or written over an older one then and not read since.
  (Times do not go back, and what is stored or read from a file goes to namespaces without a
  slash other than that of conflicts. Calls come one after the other: two sends at once can both be counted before either is
  written. The store operation of the memory tool uses no quota: \<^verbatim>\<open>store_bypasses_quota\<close> of
  \<^verbatim>\<open>Know_Tool\<close>.)
\<close>

theorem inbox_quota:
  assumes "bolt_bucket (kb_bolt K)" "json_codec (kb_json K) (entry_in Z)" "text_set Z"
    and "quota_history K Z q sender now st" "sender \<noteq> ''''" "now \<le> t"
  shows "int (length (filter (\<lambda>e. ke_From e = sender \<and> sent_since (t - 3600) e) (List_know K NSInbox '''' st))) \<le> quota_of q"
proof -
  have k: "knowledge K Z" using assms(1-3) by (rule knowledge.intro)
  have "card (recent_from K (ks_db st) sender (t - 3600)) \<le> card (recent_from K (ks_db st) sender (now - 3600))"
    using assms(6) by (intro knowledge.recent_mono [OF k]) auto
  then show ?thesis
    using knowledge.quota_inv [OF k assms(4,5)] knowledge.listed_card [OF k, of sender "t - 3600" st] by simp
qed

definition after_message :: "int \<Rightarrow> string \<Rightarrow> (string \<times> string) list KnowledgeStore \<Rightarrow> (string \<times> string) list KnowledgeStore" where
  "after_message now key st = snd (PutInbox list_base now now ''a'' key ''hi'' '''' 1 st)"

text \<open>A second message within the hour is refused, one after it is not, and the first is then read.\<close>

definition quota_demo :: "(string \<times> string) list KnowledgeStore" where
  "quota_demo = snd (MarkInboxRead list_base 3606 3606 ''to-b-x'' (after_message 3605 ''to-b-z'' (after_message 7 ''to-b-y''
     (after_message 4 ''to-b-x'' no_store))))"

theorem inbox_quota_witness:
  "List.map (\<lambda>e. (ke_Key e, ke_UpdatedAt e)) (List_know list_base NSInbox '''' quota_demo) = [(''to-b-x'', 3606), (''to-b-z'', 3605)] \<and>
   int (length (filter (\<lambda>e. ke_From e = ''a'' \<and> sent_since (3606 - 3600) e) (List_know list_base NSInbox '''' quota_demo))) \<le> 1"
proof
  let ?st = "after_message 3605 ''to-b-z'' (after_message 7 ''to-b-y'' (after_message 4 ''to-b-x'' no_store))"
  have o: "(''to-b-x'' :: string) < ''to-b-y''" "(''to-b-x'' :: string) < ''to-b-z''" "\<not> (''to-b-y'' :: string) < ''to-b-x''"
    "\<not> (''to-b-z'' :: string) < ''to-b-x''" by simp_all
  show "List.map (\<lambda>e. (ke_Key e, ke_UpdatedAt e)) (List_know list_base NSInbox '''' quota_demo) = [(''to-b-x'', 3606), (''to-b-z'', 3605)]"
    by (simp add: quota_demo_def MarkInboxRead_def after_message_def PutInbox_def ValidateInboxPriority_def countInboxFromSince_def
        inbox_entry_def blank_entry_def no_store_def know_defs o)
  have step: "quota_history list_base UNIV 1 ''a'' now' (after_message now' key st)"
    if "quota_history list_base UNIV 1 ''a'' now st" "now \<le> now'" "0 < now'" for now now' key st
    unfolding after_message_def
    by (rule qsend [OF qclock [OF that(1,2)] that(3) order_refl subset_UNIV disjI2 [OF refl] prod.collapse [symmetric]])
  have h0: "quota_history list_base UNIV 1 ''a'' 0 no_store" by (rule qstart) (simp add: no_store_def)
  have "quota_history list_base UNIV 1 ''a'' 3605 ?st"
    by (rule step [OF step [OF step [OF h0]]]) simp_all
  then have "quota_history list_base UNIV 1 ''a'' 3606 ?st" by (rule qclock) simp
  then have "quota_history list_base UNIV 1 ''a'' 3606 quota_demo" unfolding quota_demo_def
    by (rule qread [OF _ _ _ UNIV_I prod.collapse [symmetric]]) simp_all
  then have "int (length (filter (\<lambda>e. ke_From e = ''a'' \<and> sent_since (3606 - 3600) e) (List_know list_base NSInbox '''' quota_demo))) \<le> quota_of 1"
    by (intro inbox_quota [of list_base UNIV 1 "''a''" 3606 quota_demo 3606])
      (simp_all add: lbolt.bolt_bucket_axioms entry_codec_json text_UNIV)
  then show "int (length (filter (\<lambda>e. ke_From e = ''a'' \<and> sent_since (3606 - 3600) e) (List_know list_base NSInbox '''' quota_demo))) \<le> 1"
    by (simp add: quota_of_def)
qed

text \<open>
  Reading a message writes it again with a new time, so that a message read counts against its
  sender as one sent now.
\<close>

lemma reading_counts_as_sending:
  "let st = snd (MarkInboxRead list_base 5000 5000 ''to-b-x'' (after_message 4 ''to-b-x'' no_store))
   in fst (PutInbox list_base 5001 5001 ''a'' ''to-b-y'' ''hi'' '''' 1 st) \<noteq> None \<and>
      fst (PutInbox list_base 5001 5001 ''a'' ''to-b-y'' ''hi'' '''' 1 (after_message 4 ''to-b-x'' no_store)) = None"
  by (simp add: MarkInboxRead_def after_message_def PutInbox_def ValidateInboxPriority_def countInboxFromSince_def
      inbox_entry_def blank_entry_def no_store_def know_defs)

end
