(* ===== verification/Know_Tool.thy ===== *)
theory Know_Tool
  imports Know_Inbox
begin

text \<open>
  The memory tool over the store and the cache of hot entries: while one store is used and only
  stored to and dropped from, a fetch never disagrees with the store; and the ways around it that
  leave an old entry in the cache. What a markdown file cannot carry is lost when the watcher
  reads it back.
\<close>

section \<open>The cache follows the store\<close>

text \<open>
  A cached entry is the stored one, or the stored one without its two times: the tool caches what
  it built, before \<^const>\<open>Put_know\<close> sets when the entry was created and written.
\<close>

definition agrees :: "KnowledgeEntry \<Rightarrow> KnowledgeEntry \<Rightarrow> bool" where
  "agrees e d \<longleftrightarrow> e = d \<or> e = d\<lparr>ke_CreatedAt := 0, ke_UpdatedAt := 0\<rparr>"

lemma agrees_refl [simp]: "agrees e e" by (simp add: agrees_def)

definition plain_ns :: "string \<Rightarrow> bool" where
  "plain_ns ns \<longleftrightarrow> CHR '':'' \<notin> set ns \<and> CHR ''/'' \<notin> set ns \<and> ns \<noteq> NSConflicts"

definition hot_ok :: "'b kbase \<Rightarrow> 'b buckets \<Rightarrow> HotCache \<Rightarrow> bool" where
  "hot_ok K bs hc \<longleftrightarrow> (\<forall>ns key e. plain_ns ns \<longrightarrow> hot_get ns key hc = Some e \<longrightarrow> (\<exists>d. row K bs ns key = Some d \<and> agrees e d))"

lemma hot_okD: "hot_ok K bs hc \<Longrightarrow> plain_ns ns \<Longrightarrow> hot_get ns key hc = Some e \<Longrightarrow> \<exists>d. row K bs ns key = Some d \<and> agrees e d"
  by (simp add: hot_ok_def)

lemma colon_split: "CHR '':'' \<notin> set a \<Longrightarrow> CHR '':'' \<notin> set b \<Longrightarrow> a @ CHR '':'' # x = b @ CHR '':'' # y \<Longrightarrow> a = b \<and> x = y"
proof (induction a arbitrary: b)
  case Nil
  then show ?case by (cases b) auto
next
  case (Cons c a)
  then show ?case by (cases b) auto
qed

lemma hot_key_inj: "CHR '':'' \<notin> set a \<Longrightarrow> CHR '':'' \<notin> set b \<Longrightarrow> hot_key a x = hot_key b y \<longleftrightarrow> a = b \<and> x = y"
  using colon_split [of a b x y] by (auto simp: hot_key_def)

lemma hot_get_set:
  assumes "CHR '':'' \<notin> set ns" "CHR '':'' \<notin> set (ke_Namespace e)"
  shows "hot_get ns key (hot_set e hc) =
    (if ns = ke_Namespace e \<and> key = ke_Key e then (if ke_Hot e then Some e else None) else hot_get ns key hc)"
  using hot_key_inj [OF assms, of key "ke_Key e"] by (auto simp: hot_get_def hot_set_def Let_def)

lemma hot_get_delete:
  assumes "CHR '':'' \<notin> set ns" "CHR '':'' \<notin> set n"
  shows "hot_get ns key (hot_delete n k hc) = (if ns = n \<and> key = k then None else hot_get ns key hc)"
  using hot_key_inj [OF assms, of key k] by (auto simp: hot_get_def hot_delete_def)

text \<open>The tool of a project, on its own tiers.\<close>

definition own_tier :: "string \<Rightarrow> bool" where
  "own_tier tier \<longleftrightarrow> tier \<in> {'''', ''project'', ''workspace''}"

definition args_in :: "string set \<Rightarrow> store_args \<Rightarrow> bool" where
  "args_in Z a \<longleftrightarrow> {sa_namespace a, sa_key a, sa_content a, sa_from a, sa_thread_id a, sa_priority a} \<union> set (sa_tags a) \<subseteq> Z"

text \<open>The store as it was at boot, loaded into the cache, then stores and drops.\<close>

inductive tool_history :: "'b kbase \<Rightarrow> string set \<Rightarrow> (string \<Rightarrow> string) \<Rightarrow> int \<Rightarrow> 'b MemoryTool \<Rightarrow> bool" for K Z wsid where
  boot: "know_history K Z now st \<Longrightarrow> mt_ks t = Some st \<Longrightarrow>
    (\<forall>n\<in>set (ListNamespaces names). plain_ns n \<or> n = NSConflicts) \<Longrightarrow>
    mt_hc t = Some (hot_load K names st NewHotCache) \<Longrightarrow> tool_history K Z wsid now t"
| tstore: "tool_history K Z wsid now t \<Longrightarrow> now \<le> now' \<Longrightarrow> 0 < now' \<Longrightarrow> args_in Z a \<Longrightarrow> session \<in> Z \<Longrightarrow> own_tier (sa_tier a) \<Longrightarrow>
    plain_ns (sa_namespace a) \<Longrightarrow> execStore K wsid session now' a t = (r, t') \<Longrightarrow> tool_history K Z wsid now' t'"
| tdrop: "tool_history K Z wsid now t \<Longrightarrow> own_tier tier \<Longrightarrow> plain_ns ns \<Longrightarrow>
    execDrop K wsid tier ns key t = (r, t') \<Longrightarrow> tool_history K Z wsid now t'"

lemma buildStoreEntry_fields [simp]:
  "ke_Namespace (buildStoreEntry s ns key a) = ns" "ke_Key (buildStoreEntry s ns key a) = key"
  "ke_CreatedAt (buildStoreEntry s ns key a) = 0" "ke_UpdatedAt (buildStoreEntry s ns key a) = 0"
  by (simp_all add: buildStoreEntry_def Let_def blank_entry_def)

lemma agrees_stored:
  "ke_Namespace e = ns \<Longrightarrow> ke_Key e = key \<Longrightarrow> ke_CreatedAt e = 0 \<Longrightarrow> ke_UpdatedAt e = 0 \<Longrightarrow>
    agrees e (stored_entry now ns key old e)"
  by (cases e) (simp add: agrees_def stored_entry_def)

lemma bus_same [simp]: "mt_ks (publishContractKnowledgeUpdated ns key t) = mt_ks t"
  "mt_hc (publishContractKnowledgeUpdated ns key t) = mt_hc t"
  by (simp_all add: publishContractKnowledgeUpdated_def split: option.splits)

lemma own_tier_resolves: "own_tier tier \<Longrightarrow> mt_ks t = Some st \<Longrightarrow> proxied tier t = None \<and> resolveStoreTier wsid tier t = Inr (Project, st)"
  by (auto simp: own_tier_def proxied_def resolveStoreTier_def)

context knowledge
begin

lemma built_in: "args_in Z a \<Longrightarrow> session \<in> Z \<Longrightarrow> entry_in Z (buildStoreEntry session (sa_namespace a) (sa_key a) a)"
proof -
  assume a: "args_in Z a" "session \<in> Z"
  let ?e = "buildStoreEntry session (sa_namespace a) (sa_key a) a"
  have f: "ke_Content ?e = sa_content a" "ke_Tags ?e = sa_tags a" "ke_SessionAgentID ?e = session"
    "ke_From ?e \<in> {'''', sa_from a}" "ke_Priority ?e \<in> {'''', sa_priority a}" "ke_ThreadID ?e \<in> {'''', sa_thread_id a}"
    "ke_EpicTitle ?e = ''''" "ke_EpicStatus ?e = ''''" "ke_EpicOwner ?e = ''''" "ke_EpicCreatedBy ?e = ''''"
    "ke_EpicAffected ?e = []" "ke_EpicBlocks ?e = []"
    by (simp_all add: buildStoreEntry_def Let_def blank_entry_def)
  show ?thesis using a f empty_in unfolding entry_in_def args_in_def by auto
qed

lemma loaded_ns:
  assumes "\<forall>e\<in>set es. row K bs n (ke_Key e) = Some e" "CHR '':'' \<notin> set n" "hot_ok K bs hc"
  shows "hot_ok K bs (hot_load_ns n es hc)"
  using assms
proof (induction es arbitrary: hc)
  case (Cons e es)
  have e: "row K bs n (ke_Key e) = Some e" using Cons.prems(1) by simp
  have "hot_ok K bs (if ke_Hot e then hc(hot_key n (ke_Key e) \<mapsto> e) else hc)"
  proof (cases "ke_Hot e")
    case True
    have "hot_ok K bs (hc(hot_key n (ke_Key e) \<mapsto> e))"
      unfolding hot_ok_def
    proof (intro allI impI)
      fix ns key x
      assume p: "plain_ns ns" and g: "hot_get ns key (hc(hot_key n (ke_Key e) \<mapsto> e)) = Some x"
      show "\<exists>d. row K bs ns key = Some d \<and> agrees x d"
      proof (cases "hot_key ns key = hot_key n (ke_Key e)")
        case True
        then have "ns = n" "key = ke_Key e" using p Cons.prems(2) hot_key_inj [of ns n] by (auto simp: plain_ns_def)
        then show ?thesis using e g by (simp add: hot_get_def)
      next
        case False
        then have "hot_get ns key hc = Some x" using g by (simp add: hot_get_def)
        then show ?thesis using Cons.prems(3) p by (simp add: hot_ok_def)
      qed
    qed
    then show ?thesis using True by simp
  qed (use Cons.prems(3) in simp)
  then show ?case using Cons by (simp add: hot_load_ns_def)
qed (simp add: hot_load_ns_def)

lemma listed_rows:
  assumes "know_inv K Z now (ks_db st)" "e \<in> set (List_know K ns '''' st)"
  shows "row K (ks_db st) ns (ke_Key e) = Some e"
proof -
  obtain k where "(k, e) \<in> set (ns_rows K ns (ks_db st))" using assms(2) by (auto simp: List_know_def)
  then have "row K (ks_db st) ns k = Some e" by (simp add: ns_rows_set)
  moreover from this have "ke_Key e = k" using assms(1) by (auto simp: know_inv_def row_ok_def)
  ultimately show ?thesis by simp
qed

lemma loaded:
  assumes "know_inv K Z now (ks_db st)" "\<forall>n\<in>set (ListNamespaces names). plain_ns n \<or> n = NSConflicts"
  shows "hot_ok K (ks_db st) (hot_load K names st NewHotCache)"
proof -
  have col: "CHR '':'' \<notin> set n" if "n \<in> set (ListNamespaces names)" for n
  proof -
    have "plain_ns n \<or> n = NSConflicts" using assms(2) that by blast
    moreover have "CHR '':'' \<notin> set NSConflicts" by (simp add: NSConflicts_def)
    ultimately show ?thesis unfolding plain_ns_def by blast
  qed
  have all: "hot_ok K (ks_db st) (foldl (\<lambda>h ns. hot_load_ns ns (List_know K ns '''' st) h) hc ns)"
    if "hot_ok K (ks_db st) hc" "\<forall>n\<in>set ns. CHR '':'' \<notin> set n" for hc ns
    using that
  proof (induction ns arbitrary: hc)
    case (Cons n ns)
    have "hot_ok K (ks_db st) (hot_load_ns n (List_know K n '''' st) hc)"
      using Cons.prems listed_rows [OF assms(1)] by (intro loaded_ns) auto
    then show ?case using Cons by simp
  qed simp
  have "hot_ok K (ks_db st) NewHotCache" by (simp add: hot_ok_def NewHotCache_def hot_get_def)
  from all [OF this] show ?thesis using col unfolding hot_load_def by blast
qed

lemma stored_hot:
  assumes inv: "know_inv K Z now (ks_db st)" and hot: "hot_ok K (ks_db st) hc"
    and e: "entry_in Z e" "ke_Namespace e = ns" "ke_Key e = key" "plain_ns ns" "ke_CreatedAt e = 0" "ke_UpdatedAt e = 0"
    and put: "Put_know K now ns key e st = (None, st')"
  shows "hot_ok K (ks_db st') (hot_set e hc)"
  unfolding hot_ok_def
proof (intro allI impI)
  fix n k x
  assume p: "plain_ns n" and g: "hot_get n k (hot_set e hc) = Some x"
  have z: "ns \<in> Z" "key \<in> Z" using e by (auto simp: entry_in_def)
  have new: "entry_in Z (stored_entry now ns key (row K (ks_db st) ns key) e)" using e by (auto simp: stored_entry_def entry_in_def)
  have oldz: "\<And>d. row K (ks_db st) ns key = Some d \<Longrightarrow> entry_in Z d" using inv by (auto simp: know_inv_def row_ok_def)
  have R: "row K (ks_db st') n k = with_row ns key (Some (stored_entry now ns key (row K (ks_db st) ns key) e)) (row K (ks_db st)) n k"
    using put_effect(2) [OF put new z oldz] p by (auto simp: Let_def with_row_def plain_ns_def)
  have g': "(if n = ns \<and> k = key then (if ke_Hot e then Some e else None) else hot_get n k hc) = Some x"
    using g hot_get_set [of n e k hc] p e by (simp add: plain_ns_def)
  show "\<exists>d. row K (ks_db st') n k = Some d \<and> agrees x d"
  proof (cases "n = ns \<and> k = key")
    case True
    then have "x = e" using g' by (simp split: if_splits)
    then show ?thesis using True R agrees_stored [OF e(2,3,5,6)] by simp
  next
    case False
    then have "row K (ks_db st') n k = row K (ks_db st) n k" unfolding R by (intro with_row_other) auto
    then show ?thesis using hot p g' False by (simp add: hot_ok_def)
  qed
qed

lemma dropped_hot:
  assumes "hot_ok K (ks_db st) hc" "plain_ns ns" "Delete_know K ns key st = (None, st')"
  shows "hot_ok K (ks_db st') (hot_delete ns key hc)"
  unfolding hot_ok_def
proof (intro allI impI)
  fix n k x
  assume p: "plain_ns n" and g: "hot_get n k (hot_delete ns key hc) = Some x"
  then have "\<not> (n = ns \<and> k = key)" "hot_get n k hc = Some x"
    using hot_get_delete [of n ns k key hc] assms(2) by (auto simp: plain_ns_def split: if_splits)
  then show "\<exists>d. row K (ks_db st') n k = Some d \<and> agrees x d"
    using assms(1) p delete_effect [OF assms(3)] by (auto simp: hot_ok_def with_row_def)
qed

lemma tool_inv: "tool_history K Z wsid now t \<Longrightarrow>
   \<exists>st hc. mt_ks t = Some st \<and> mt_hc t = Some hc \<and> know_inv K Z now (ks_db st) \<and> hot_ok K (ks_db st) hc"
proof (induction rule: tool_history.induct)
  case (boot now st t names)
  then show ?case using know_history_inv [OF boot.hyps(1)] loaded by blast
next
  case (tstore now t now' a session r t')
  obtain st hc where t: "mt_ks t = Some st" "mt_hc t = Some hc" and inv0: "know_inv K Z now (ks_db st)" and hot: "hot_ok K (ks_db st) hc"
    using tstore.IH by blast
  have inv: "know_inv K Z now' (ks_db st)" by (rule know_inv_later [OF inv0 tstore.hyps(2)])
  let ?ns = "sa_namespace a" and ?key = "sa_key a"
  let ?e = "buildStoreEntry session ?ns ?key a"
  have own: "proxied (sa_tier a) t = None" "resolveStoreTier wsid (sa_tier a) t = Inr (Project, st)"
    using own_tier_resolves [OF tstore.hyps(6) t(1)] by simp_all
  have e: "entry_in Z ?e" by (rule built_in [OF tstore.hyps(4,5)])
  show ?case
  proof (cases "?ns = '''' \<or> ?key = ''''")
    case True
    then have "t' = t" using tstore.hyps(8) own by (auto simp: execStore_def)
    then show ?thesis using t inv hot by blast
  next
    case False
    obtain er st1 where p: "Put_know K now' ?ns ?key ?e st = (er, st1)" by fastforce
    have z: "?ns \<in> Z" "?key \<in> Z" using tstore.hyps(4) by (auto simp: args_in_def)
    have inv1: "know_inv K Z now' (ks_db st1)"
      using put_inv [OF inv tstore.hyps(3) e z _ _ _ _ p] tstore.hyps(3,7) by (simp add: plain_ns_def)
    show ?thesis
    proof (cases er)
      case (Some err)
      have "entry_in Z (stored_entry now' ?ns ?key (row K (ks_db st) ?ns ?key) ?e)" using e by (auto simp: stored_entry_def entry_in_def)
      then have "ks_db st1 = ks_db st" using put_steps(1) [OF p] Some by simp
      moreover have "t' = t\<lparr>mt_ks := Some st1\<rparr>" using tstore.hyps(8) own False p Some by (simp add: execStore_def Let_def)
      ultimately show ?thesis using t inv hot by simp
    next
      case None
      have "mt_ks t' = Some st1" "mt_hc t' = Some (hot_set ?e hc)"
        using tstore.hyps(8) own False p None t by (auto simp: execStore_def Let_def)
      then show ?thesis using inv1 stored_hot [OF inv hot e _ _ tstore.hyps(7)] p None by simp
    qed
  qed
next
  case (tdrop now t tier ns key r t')
  obtain st hc where t: "mt_ks t = Some st" "mt_hc t = Some hc" and inv: "know_inv K Z now (ks_db st)" and hot: "hot_ok K (ks_db st) hc"
    using tdrop.IH by blast
  have own: "proxied tier t = None" "resolveStoreTier wsid tier t = Inr (Project, st)"
    using own_tier_resolves [OF tdrop.hyps(2) t(1)] by simp_all
  obtain er st1 where d: "Delete_know K ns key st = (er, st1)" by fastforce
  have inv1: "know_inv K Z now (ks_db st1)" by (rule delete_inv [OF inv d])
  consider "t' = t" | e where "er = Some e" "t' = t\<lparr>mt_ks := Some st1\<rparr>"
    | "er = None" "t' = t\<lparr>mt_ks := Some st1, mt_hc := Some (hot_delete ns key hc)\<rparr>"
    using tdrop.hyps(4) own d t by (cases er) (auto simp: execDrop_def split: if_splits)
  then show ?case
  proof cases
    case 1
    then show ?thesis using t inv hot by blast
  next
    case 2
    then have "row K (ks_db st1) = row K (ks_db st)" using delete_effect [OF d] by simp
    then have "hot_ok K (ks_db st1) hc" using hot by (simp add: hot_ok_def)
    then show ?thesis using 2 t inv1 by simp
  next
    case 3
    then show ?thesis using inv1 dropped_hot [OF hot tdrop.hyps(3)] d by simp
  qed
qed

end

text \<open>
  C38: For the project's own tiers and plain namespaces (no colon, no slash, not the one of
  conflicts), when the store had no others at boot but that of conflicts: after the cache has been loaded at boot and any stores and drops there since, a
  fetch answers from the cache only with the very entry of the store, or with that entry as it
  was before the store set its two times; answers from the store with the entry there; and says
  an entry is not there only when the store has none. (Other tiers share the cache without their
  name, and resolving a conflict or completing an epic does not touch it: \<^verbatim>\<open>org_entry_leaks\<close>,
  \<^verbatim>\<open>resolution_leaves_cache\<close>, \<^verbatim>\<open>completion_leaves_cache\<close>.)
\<close>

theorem fetch_coherent:
  assumes "bolt_bucket (kb_bolt K)" "json_codec (kb_json K) (entry_in Z)" "text_set Z"
    and "tool_history K Z wsid now t" "mt_ks t = Some st" "own_tier tier" "plain_ns ns" "ns \<noteq> ''''" "key \<noteq> ''''"
  shows "case execFetch K wsid tier ns key t of
      Done (HotHit e) \<Rightarrow> (\<exists>d. Get_know K ns key st = Inr d \<and> agrees e d)
    | Done (FromStore e) \<Rightarrow> Get_know K ns key st = Inr e
    | Done NotThere \<Rightarrow> (\<nexists>e. Get_know K ns key st = Inr e)
    | _ \<Rightarrow> False"
proof -
  have k: "knowledge K Z" using assms(1-3) by (rule knowledge.intro)
  obtain hc where hc: "mt_hc t = Some hc" "hot_ok K (ks_db st) hc"
    using knowledge.tool_inv [OF k assms(4)] assms(5) by auto
  have own: "proxied tier t = None" "resolveStoreTier wsid tier t = Inr (Project, st)"
    using own_tier_resolves [OF assms(6,5)] by simp_all
  show ?thesis
  proof (cases "hot_get ns key hc")
    case None
    then show ?thesis using own hc assms(8,9) by (auto simp: execFetch_def split: sum.splits)
  next
    case (Some e)
    then obtain d where "row K (ks_db st) ns key = Some d" "agrees e d" using hot_okD [OF hc(2) assms(7)] by blast
    then show ?thesis using own hc Some assms(8,9) by (simp add: execFetch_def get_row)
  qed
qed

definition demo_args :: "string \<Rightarrow> bool \<Rightarrow> store_args" where
  "demo_args content hot = \<lparr>sa_tier = '''', sa_namespace = ''rules'', sa_key = ''k'', sa_content = content, sa_hot = hot,
     sa_tags = [], sa_from = '''', sa_thread_id = '''', sa_priority = ''''\<rparr>"

definition demo_tool :: "(string \<times> string) list MemoryTool" where
  "demo_tool = \<lparr>mt_ks = Some no_store, mt_hc = Some NewHotCache, mt_bus = None, mt_workspace = ''/w'', mt_coordinatorWSID = '''',
     mt_orgKS = Some no_store, mt_orgWriters = []\<rparr>"

definition demo_stored :: "int \<Rightarrow> store_args \<Rightarrow> (string \<times> string) list MemoryTool \<Rightarrow> (string \<times> string) list MemoryTool" where
  "demo_stored now a t = snd (execStore list_base (\<lambda>w. w) ''s'' now a t)"

lemmas tool_defs = demo_stored_def demo_tool_def demo_args_def execStore_def execFetch_def proxied_def resolveStoreTier_def
  buildStoreEntry_def publishContractKnowledgeUpdated_def NSContracts_def no_store_def blank_entry_def checkOrgWriteAllowed_def know_defs

theorem fetch_coherent_witness:
  "\<exists>e d st. mt_ks (demo_stored 5 (demo_args ''x'' True) demo_tool) = Some st \<and>
     execFetch list_base (\<lambda>w. w) '''' ''rules'' ''k'' (demo_stored 5 (demo_args ''x'' True) demo_tool) = Done (HotHit e) \<and>
     ke_Content e = ''x'' \<and> Get_know list_base ''rules'' ''k'' st = Inr d \<and> agrees e d \<and> ke_UpdatedAt e = 0 \<and> ke_UpdatedAt d = 5"
proof -
  let ?t = "demo_stored 5 (demo_args ''x'' True) demo_tool"
  let ?e = "buildStoreEntry ''s'' ''rules'' ''k'' (demo_args ''x'' True)"
  have "tool_history list_base UNIV (\<lambda>w. w) 0 demo_tool"
    by (rule boot [of _ _ _ no_store _ "[]"])
      (simp_all add: know_history.start no_store_def demo_tool_def hot_load_def ListNamespaces_def List.map_filter_simps)
  then have h: "tool_history list_base UNIV (\<lambda>w. w) 5 ?t" unfolding demo_stored_def
    by (rule tstore [OF _ _ _ _ UNIV_I _ _ prod.collapse [symmetric]])
      (simp_all add: args_in_def demo_args_def own_tier_def plain_ns_def NSConflicts_def)
  have f: "execFetch list_base (\<lambda>w. w) '''' ''rules'' ''k'' ?t = Done (HotHit ?e)" "ke_Content ?e = ''x''" "ke_UpdatedAt ?e = 0"
    by (simp_all add: tool_defs hot_get_def hot_set_def)
  obtain st where st: "mt_ks ?t = Some st" "map_sum id ke_UpdatedAt (Get_know list_base ''rules'' ''k'' st) = Inr 5"
    by (simp add: tool_defs)
  have "\<exists>d. Get_know list_base ''rules'' ''k'' st = Inr d \<and> agrees ?e d"
    using fetch_coherent [of list_base UNIV "\<lambda>w. w" 5 ?t st "''''" "''rules''" "''k''", OF _ _ text_UNIV h st(1)] f(1)
    by (simp add: lbolt.bolt_bucket_axioms entry_codec_json own_tier_def plain_ns_def NSConflicts_def)
  then show ?thesis using f st by auto
qed

section \<open>Around the cache\<close>

text \<open>
  The cache does not know tiers: what is stored as hot in the org store is fetched from the
  project's, which does not have it.
\<close>

lemma org_entry_leaks:
  "let t = demo_stored 5 ((demo_args ''x'' True)\<lparr>sa_tier := ''org''\<rparr>) demo_tool
   in (\<exists>e. execFetch list_base (\<lambda>w. w) ''project'' ''rules'' ''k'' t = Done (HotHit e)) \<and> mt_ks t = Some no_store"
  by (simp add: tool_defs hot_get_def hot_set_def)

text \<open>
  Completing an epic and resolving a conflict write to the store and leave the cache alone; a
  cached entry then stays as it was.
\<close>

lemma resolution_leaves_cache: "mt_hc (snd (execResolveConflict K wsid now ck w t)) = mt_hc t"
proof -
  have s: "mt_hc (with_store x ks t) = mt_hc t" for x ks by (cases x) simp_all
  show ?thesis by (simp add: execResolveConflict_def s split: sum.splits prod.splits option.splits)
qed

lemma completion_leaves_cache: "mt_hc (snd (execCompleteTask K now key result t)) = mt_hc t"
  by (simp add: execCompleteTask_def Let_def split: sum.splits prod.splits option.splits)

text \<open>Two namespaces share a line of the cache when one holds a colon.\<close>

lemma colon_collides: "hot_key ''a:b'' ''c'' = hot_key ''a'' ''b:c''"
  by (simp add: hot_key_def)

section \<open>What a file cannot carry\<close>

lemma fold_line_fields:
  "ke_From (fold_line u e l) = ke_From e" "ke_ReadAt (fold_line u e l) = ke_ReadAt e" "ke_Priority (fold_line u e l) = ke_Priority e"
  "ke_EpicStatus (fold_line u e l) = ke_EpicStatus e" "ke_EpicOwner (fold_line u e l) = ke_EpicOwner e"
  "ke_SessionAgentID (fold_line u e l) = ke_SessionAgentID e"
  by (auto simp: fold_line_def parseFrontmatterLine_def Let_def split: option.splits)

lemma imported_fields:
  assumes "imported u path s = Inr e"
  shows "ke_From e = '''' \<and> ke_ReadAt e = 0 \<and> ke_Priority e = '''' \<and> ke_EpicStatus e = '''' \<and> ke_EpicOwner e = '''' \<and>
    ke_SessionAgentID e = ''''"
proof -
  have f: "ke_From (foldl (fold_line u) e0 ls) = ke_From e0 \<and> ke_ReadAt (foldl (fold_line u) e0 ls) = ke_ReadAt e0 \<and>
      ke_Priority (foldl (fold_line u) e0 ls) = ke_Priority e0 \<and> ke_EpicStatus (foldl (fold_line u) e0 ls) = ke_EpicStatus e0 \<and>
      ke_EpicOwner (foldl (fold_line u) e0 ls) = ke_EpicOwner e0 \<and>
      ke_SessionAgentID (foldl (fold_line u) e0 ls) = ke_SessionAgentID e0" for e0 ls
    by (induction ls arbitrary: e0) (simp_all add: fold_line_fields)
  show ?thesis
    using assms f [of "blank_entry\<lparr>ke_Content := c\<rparr>" for c] by (auto simp: imported_def Let_def blank_entry_def split: option.splits if_splits)
qed

text \<open>
  The watcher reads back what the store itself has just exported, as its time is not older, and so
  erases the sender, the read mark and the priority of a message, and the state of an epic.
\<close>

context knowledge
begin

lemma watcher_erases:
  assumes "ImportEntry (kb_os K) (kb_unstamp K) path (ks_disk st) = Inr e" "entry_in Z e" "ke_Namespace e \<noteq> NSConflicts"
    "\<not> isStaleWrite K e st" "\<And>d. row K (ks_db st) (ke_Namespace e) (ke_Key e) = Some d \<Longrightarrow> entry_in Z d"
    "Put_know K now (ke_Namespace e) (ke_Key e) e st = (None, st')"
  shows "fst (applyFSWrite K now path (st, hc)) = st' \<and>
    (\<exists>d. Get_know K (ke_Namespace e) (ke_Key e) st' = Inr d \<and> ke_From d = '''' \<and> ke_ReadAt d = 0 \<and> ke_Priority d = '''' \<and>
       ke_EpicStatus d = '''' \<and> ke_EpicOwner d = '''' \<and> ke_SessionAgentID d = '''')"
proof -
  let ?d = "stored_entry now (ke_Namespace e) (ke_Key e) (row K (ks_db st) (ke_Namespace e) (ke_Key e)) e"
  have z: "ke_Namespace e \<in> Z" "ke_Key e \<in> Z" "entry_in Z ?d" using assms(2) by (auto simp: entry_in_def stored_entry_def)
  have "row K (ks_db st') (ke_Namespace e) (ke_Key e) = Some ?d"
    using put_effect(2) [OF assms(6) z(3,1,2) assms(5)] assms(3) by (auto simp: Let_def with_row_def)
  moreover have "ke_From e = '''' \<and> ke_ReadAt e = 0 \<and> ke_Priority e = '''' \<and> ke_EpicStatus e = '''' \<and> ke_EpicOwner e = '''' \<and>
      ke_SessionAgentID e = ''''"
    using assms(1) imported_fields by (auto simp: ImportEntry_def split: sum.splits)
  ultimately have "Get_know K (ke_Namespace e) (ke_Key e) st' = Inr ?d \<and> ke_From ?d = '''' \<and> ke_ReadAt ?d = 0 \<and> ke_Priority ?d = '''' \<and>
       ke_EpicStatus ?d = '''' \<and> ke_EpicOwner ?d = '''' \<and> ke_SessionAgentID ?d = ''''"
    by (simp add: get_row stored_entry_def)
  moreover have "fst (applyFSWrite K now path (st, hc)) = st'" using assms(1,4,6) by (simp add: applyFSWrite_def)
  ultimately show ?thesis by blast
qed

end

section \<open>Around the quota\<close>

text \<open>
  The tool stores into the inbox, under any sender's name, without the quota of \<^const>\<open>PutInbox\<close>:
  where that refuses a second message within the hour, the tool stores it.
\<close>

definition inbox_args :: "string \<Rightarrow> store_args" where
  "inbox_args key = (demo_args ''hi'' False)\<lparr>sa_namespace := NSInbox, sa_key := key, sa_from := ''a''\<rparr>"

lemma store_bypasses_quota:
  "let t = demo_stored 6 (inbox_args ''to-b-y'') (demo_stored 5 (inbox_args ''to-b-x'') demo_tool)
   in map_option (\<lambda>st. length (filter (\<lambda>e. ke_From e = ''a'' \<and> sent_since 0 e) (List_know list_base NSInbox '''' st))) (mt_ks t) = Some 2 \<and>
      fst (PutInbox list_base 6 6 ''a'' ''to-b-y'' ''hi'' '''' 1 (after_message 5 ''to-b-x'' no_store)) \<noteq> None"
  by (simp add: inbox_args_def sent_since_def after_message_def PutInbox_def ValidateInboxPriority_def countInboxFromSince_def
      inbox_entry_def tool_defs)

text \<open>Only the key is made safe for a file name: a namespace can lead out of the directory.\<close>

lemma namespace_escapes: "entry_file ''/p/knowledge'' ''../../etc'' ''x'' = ''/etc/x.md''"
  by code_simp

end
