(* ===== verification/Fed_Ledger.thy ===== *)
theory Fed_Ledger
  imports Neo_Disk Json_Records
begin

text \<open>
  The ledgers of \<^verbatim>\<open>pkg/federation\<close> kept as JSON inside an HTML comment of a markdown file:
  \<^verbatim>\<open>project_tasks.go\<close>, \<^verbatim>\<open>contract_proposals.go\<close>, \<^verbatim>\<open>org_directives.go\<close> and \<^verbatim>\<open>org_debt.go\<close> share
  how they read and replace the file. The clock, the date, the random suffix of an identifier and
  \<^verbatim>\<open>time.Format\<close> are arguments; a zero time is 0.
\<close>

section \<open>The file\<close>

record 'a ledger_format =
  lf_name :: string
  lf_header :: string
  lf_open :: string
  lf_render :: "'a list \<Rightarrow> string"
  lf_json :: "'a list codec_of"

definition line_end :: string where "line_end = [newline]"

definition ledger_close :: string where "ledger_close = line_end @ ''-->''"

text \<open>The first match of \<^verbatim>\<open>(?s)<open>(.*?)\n-->\<close>.\<close>

definition json_block :: "'a ledger_format \<Rightarrow> string \<Rightarrow> string option" where
  "json_block F data =
     (case str_cut data (lf_open F) of
        None \<Rightarrow> None
      | Some (_, rest) \<Rightarrow> map_option fst (str_cut rest ledger_close))"

definition ledger_load :: "'a ledger_format \<Rightarrow> os \<Rightarrow> string \<Rightarrow> disk \<Rightarrow> error + 'a list" where
  "ledger_load F S path dk =
     (case read_file S path dk of
        Inl e \<Rightarrow> if e = NotExist then Inr [] else Inl (Wrap (lf_name F @ '': read: '') e)
      | Inr data \<Rightarrow> (case json_block F data of
            None \<Rightarrow> Inr []
          | Some json \<Rightarrow> (case jc_dec (lf_json F) json of
                (all, None) \<Rightarrow> Inr all
              | (_, Some e) \<Rightarrow> Inl (Wrap (lf_name F @ '': parse: '') e))))"

definition ledger_text :: "'a ledger_format \<Rightarrow> 'a list \<Rightarrow> string \<Rightarrow> string" where
  "ledger_text F all json = lf_header F @ lf_open F @ json @ ledger_close @ line_end @ line_end @ lf_render F all"

definition ledger_write :: "'a ledger_format \<Rightarrow> os \<Rightarrow> string \<Rightarrow> 'a list \<Rightarrow> disk \<Rightarrow> error option \<times> disk" where
  "ledger_write F S path all dk =
     (case os_mkdir S (dir_of path) of
        Some e \<Rightarrow> (Some (Wrap (lf_name F @ '': mkdir: '') e), dk)
      | None \<Rightarrow> (case jc_enc (lf_json F) all of
            Inl e \<Rightarrow> (Some (Wrap (lf_name F @ '': marshal: '') e), dk)
          | Inr json \<Rightarrow> replace_file S path (Wrap (lf_name F @ '': write tmp: '')) (ledger_text F all json) dk))"

text \<open>A change of a ledger: load, edit, write.\<close>

definition ledger_edit ::
    "'a ledger_format \<Rightarrow> os \<Rightarrow> string \<Rightarrow> ('a list \<Rightarrow> error + 'a list \<times> 'r) \<Rightarrow> disk \<Rightarrow> (error + 'r) \<times> disk" where
  "ledger_edit F S path f dk =
     (case ledger_load F S path dk of
        Inl e \<Rightarrow> (Inl e, dk)
      | Inr all \<Rightarrow> (case f all of
            Inl e \<Rightarrow> (Inl e, dk)
          | Inr (all', r) \<Rightarrow> (case ledger_write F S path all' dk of
                (Some e, dk') \<Rightarrow> (Inl e, dk')
              | (None, dk') \<Rightarrow> (Inr r, dk'))))"

section \<open>The contract\<close>

text \<open>
  The encoder writes the closing angle bracket as an escape, so that the end of the comment
  cannot occur in the JSON; the opening mark begins with a bracket the header does not have.
\<close>

locale json_ledger =
  fixes F :: "'a ledger_format" and keeps :: "'a list \<Rightarrow> bool"
  assumes codec: "json_codec (lf_json F) keeps"
    and escaped: "jc_enc (lf_json F) all = Inr s \<Longrightarrow> CHR ''>'' \<notin> set s"
    and mark: "lf_open F \<noteq> ''''" "hd (lf_open F) \<notin> set (lf_header F)"

text \<open>A separator whose last byte is not in the text before it, nor elsewhere in it, is found right after that text.\<close>

lemma str_index_last:
  assumes "sep \<noteq> []" "last sep \<notin> set u" "last sep \<notin> set (butlast sep)"
  shows "str_index (u @ sep @ v) sep = Some (length u)"
  using assms(2)
proof (induction u)
  case Nil
  have "has_prefix (sep @ v) sep" by simp
  then show ?case using assms(1) by (cases sep) auto
next
  case (Cons c u)
  have "\<not> has_prefix (c # u @ sep @ v) sep"
  proof
    assume "has_prefix (c # u @ sep @ v) sep"
    then obtain r where r: "(c # u) @ sep @ v = sep @ r" by (auto simp: has_prefix_iff)
    let ?n = "length sep - 1"
    have n: "?n < length sep" using assms(1) by (cases sep) auto
    have "((c # u) @ sep @ v) ! ?n = last sep" unfolding r using n assms(1) by (simp add: nth_append last_conv_nth)
    moreover have "((c # u) @ sep @ v) ! ?n \<in> set (c # u) \<union> set (butlast sep)"
    proof (cases "?n < length (c # u)")
      case True
      then have "((c # u) @ sep @ v) ! ?n = (c # u) ! ?n" by (rule nth_append_left)
      then show ?thesis using nth_mem [OF True] by (metis Un_iff)
    next
      case False
      let ?m = "?n - length (c # u)"
      have m: "?m < length (butlast sep)" using False n by simp
      have "((c # u) @ sep @ v) ! ?n = (sep @ v) ! ?m" using False by (simp only: nth_append if_False)
      also have "\<dots> = sep ! ?m" by (rule nth_append_left) (rule le_less_trans [OF diff_le_self n])
      also have "\<dots> = butlast sep ! ?m" using m by (simp add: nth_butlast)
      finally show ?thesis using nth_mem [OF m] by simp
    qed
    ultimately show False using Cons.prems assms(3) by auto
  qed
  then show ?case using Cons by simp
qed

lemma str_cut_last:
  "sep \<noteq> [] \<Longrightarrow> last sep \<notin> set u \<Longrightarrow> last sep \<notin> set (butlast sep) \<Longrightarrow> str_cut (u @ sep @ v) sep = Some (u, v)"
  by (simp add: str_cut_def str_index_last)

context json_ledger
begin

lemma block_of_text:
  assumes "jc_enc (lf_json F) all = Inr json"
  shows "json_block F (ledger_text F all json) = Some json"
proof -
  let ?rest = "json @ ledger_close @ line_end @ line_end @ lf_render F all"
  have "str_cut (lf_header F @ lf_open F @ ?rest) (lf_open F) = Some (lf_header F, ?rest)"
    by (rule str_cut_first) (use mark in simp_all)
  moreover have "str_cut ?rest ledger_close = Some (json, line_end @ line_end @ lf_render F all)"
    using escaped [OF assms] by (intro str_cut_last) (auto simp: ledger_close_def line_end_def newline_def)
  ultimately show ?thesis by (simp add: json_block_def ledger_text_def)
qed

text \<open>A write that is reported done is what the next load reads; one that fails leaves the ledger as it was.\<close>

lemma write_load:
  assumes "ledger_write F S path all dk = (None, dk')" "keeps all" "os_read S path = None"
  shows "ledger_load F S path dk' = Inr all"
proof -
  obtain json where j: "jc_enc (lf_json F) all = Inr json"
    "replace_file S path (Wrap (lf_name F @ '': write tmp: '')) (ledger_text F all json) dk = (None, dk')"
    using assms(1) by (auto simp: ledger_write_def split: option.splits sum.splits)
  have "read_file S path dk' = Inr (ledger_text F all json)" using replace_file_ok [OF j(2)] assms(3) by (simp add: read_file_def)
  then show ?thesis
    using block_of_text [OF j(1)] json_codec.dec_enc [OF codec assms(2) j(1)] by (simp add: ledger_load_def)
qed

lemma write_fails:
  assumes "ledger_write F S path all dk = (Some e, dk')"
  shows "ledger_load F S path dk' = ledger_load F S path dk"
proof -
  have "dk' path = dk path"
    using assms replace_file_error by (fastforce simp: ledger_write_def split: option.splits sum.splits)
  then show ?thesis by (simp add: ledger_load_def read_file_def)
qed

lemma edit_cases:
  assumes "ledger_edit F S path f dk = (r, dk')" "os_read S path = None" "\<forall>all all' x. f all = Inr (all', x) \<longrightarrow> keeps all'"
  shows "(\<exists>e. r = Inl e \<and> ledger_load F S path dk' = ledger_load F S path dk) \<or>
    (\<exists>all all' x. ledger_load F S path dk = Inr all \<and> f all = Inr (all', x) \<and> r = Inr x \<and> ledger_load F S path dk' = Inr all')"
proof -
  consider e where "ledger_load F S path dk = Inl e" | all e where "ledger_load F S path dk = Inr all" "f all = Inl e"
    | all all' x where "ledger_load F S path dk = Inr all" "f all = Inr (all', x)"
    by (metis sum.exhaust prod.exhaust)
  then show ?thesis
  proof cases
    case 3
    obtain er dk2 where w: "ledger_write F S path all' dk = (er, dk2)" by fastforce
    show ?thesis
    proof (cases er)
      case None
      then have "ledger_load F S path dk2 = Inr all'" using w write_load assms(2,3) 3 by blast
      then show ?thesis using assms(1) 3 w None by (simp add: ledger_edit_def)
    next
      case (Some e)
      then have "ledger_load F S path dk2 = ledger_load F S path dk" using w write_fails by blast
      then show ?thesis using assms(1) 3 w Some by (auto simp: ledger_edit_def)
    qed
  qed (use assms(1) in \<open>auto simp: ledger_edit_def\<close>)
qed

end

section \<open>An encoder that escapes\<close>

definition escape_char :: "char \<Rightarrow> string" where
  "escape_char c = (if c = CHR ''>'' then ''~g'' else if c = CHR ''~'' then ''~~'' else [c])"

fun unescape :: "string \<Rightarrow> string" where
  "unescape [] = []"
| "unescape [c] = [c]"
| "unescape (c # d # cs) =
     (if c = CHR ''~'' then (if d = CHR ''g'' then CHR ''>'' else d) # unescape cs else c # unescape (d # cs))"

definition escape :: "string \<Rightarrow> string" where
  "escape s = concat (List.map escape_char s)"

lemma unescape_escape: "unescape (escape s) = s"
proof (induction s)
  case (Cons c s)
  have ne: "c \<noteq> CHR ''~'' \<Longrightarrow> unescape (c # t) = c # unescape t" for t by (cases t) simp_all
  have e: "escape (d # s) = escape_char d @ escape s" for d by (simp add: escape_def)
  consider "c = CHR ''>''" | "c = CHR ''~''" | "c \<noteq> CHR ''>''" "c \<noteq> CHR ''~''" by blast
  then show ?case using Cons ne by cases (simp_all add: e escape_char_def)
qed (simp add: escape_def)

lemma escape_bracket: "CHR ''>'' \<notin> set (escape s)"
  by (auto simp: escape_def escape_char_def split: if_splits)

definition escaping :: "'a codec_of \<Rightarrow> 'a codec_of" where
  "escaping C = \<lparr>jc_enc = (\<lambda>x. map_sum id escape (jc_enc C x)), jc_dec = (\<lambda>s. jc_dec C (unescape s))\<rparr>"

lemma escaping_codec: "json_codec C keeps \<Longrightarrow> json_codec (escaping C) keeps"
proof
  assume c: "json_codec C keeps"
  fix x assume k: "keeps x"
  obtain s where s: "jc_enc C x = Inr s" "s \<noteq> ''''" "jc_dec C s = (x, None)" using json_codec.encoded [OF c k] by blast
  have "escape s \<noteq> ''''" using s(2) unescape_escape [of s] by auto
  then show "\<exists>s. jc_enc (escaping C) x = Inr s \<and> s \<noteq> ''''" using s(1) by (simp add: escaping_def)
  show "jc_dec (escaping C) t = (x, None)" if "jc_enc (escaping C) x = Inr t" for t
    using that s by (auto simp: escaping_def unescape_escape)
qed

lemma escaping_bracket: "jc_enc (escaping C) x = Inr s \<Longrightarrow> CHR ''>'' \<notin> set s"
  using escape_bracket by (cases "jc_enc C x") (auto simp: escaping_def)

text \<open>A list of records, each written as the list of its fields.\<close>

definition list_via :: "('a \<Rightarrow> string list) \<Rightarrow> (string list \<Rightarrow> 'a) \<Rightarrow> 'a list codec_of" where
  "list_via put_fields get_fields =
     escaping (via_strings (List.map (\<lambda>x. strings_text (put_fields x))) (List.map (\<lambda>s. get_fields (strings_of_text s))))"

lemma list_via_codec:
  assumes "\<And>x. get_fields (put_fields x) = x"
  shows "json_codec (list_via put_fields get_fields) keeps"
  unfolding list_via_def by (intro escaping_codec via_strings_codec) (simp add: comp_def assms)

lemma list_via_bracket: "jc_enc (list_via p g) x = Inr s \<Longrightarrow> CHR ''>'' \<notin> set s"
  unfolding list_via_def by (rule escaping_bracket)

end
