(* ===== verification/Fed_Tasks.thy ===== *)
theory Fed_Tasks
  imports Fed_Ledger
begin

text \<open>
  The shared task queue of \<^verbatim>\<open>pkg/federation/project_tasks.go\<close>: tasks are appended to a ledger,
  claimed by workspaces and completed. Each operation runs under the lock of its process, so it
  is one step; the last section shows what two processes can do to each other.
\<close>

section \<open>Tasks\<close>

record ProjectTask =
  pt_ID :: string
  pt_Description :: string
  pt_TargetFile :: string
  pt_Role :: string
  pt_TargetWorkspace :: string
  pt_AffinityTags :: "string list"
  pt_Status :: string
  pt_ClaimedBy :: string
  pt_ClaimedAt :: int
  pt_CreatedAt :: int
  pt_CompletedAt :: int
  pt_Result :: string

definition ErrProjectTaskNotFound :: error where "ErrProjectTaskNotFound = Err ''project_tasks: task not found''"

definition projectTasksFile :: string where "projectTasksFile = ''PROJECT_TASKS.md''"

text \<open>What an operation reads from outside: the clock, today's date and a random number below 65535.\<close>

record fed_env =
  fe_now :: int
  fe_date :: string
  fe_rand :: nat

section \<open>The markdown\<close>

definition ellipsis :: string where "ellipsis = [CHR 0xE2, CHR 0x80, CHR 0xA6]"

definition truncate_text :: "string \<Rightarrow> nat \<Rightarrow> string" where
  "truncate_text s n = (if length s \<le> n then s else take (n - 1) s @ ellipsis)"

definition text_lines :: "string list \<Rightarrow> string" where
  "text_lines ls = concat (List.map (\<lambda>l. l @ line_end) ls)"

definition table_row :: "string list \<Rightarrow> string" where
  "table_row cells = ''| '' @ str_join '' | '' cells @ '' |''"

definition code_cell :: "string \<Rightarrow> string" where
  "code_cell s = [CHR 0x60] @ s @ [CHR 0x60]"

definition dquote :: "string \<Rightarrow> string" where
  "dquote s = [CHR 0x22] @ s @ [CHR 0x22]"

text \<open>A section of the markdown: a title with a count, then a table, or a note that there is nothing.\<close>

definition table_section :: "string \<Rightarrow> nat \<Rightarrow> string list \<Rightarrow> string list \<Rightarrow> string list \<Rightarrow> string list" where
  "table_section title n heads rows tail =
     [''## '' @ title @ '' ('' @ dec n @ '')'', ''''] @
     (if rows = [] then ''_none_'' # tail else heads @ rows @ tail)"

definition renderProjectTasksTables :: "(int \<Rightarrow> string) \<Rightarrow> ProjectTask list \<Rightarrow> string" where
  "renderProjectTasksTables stamp all =
     (let pending = filter (\<lambda>t. pt_Status t = ''pending'') all;
          inProgress = filter (\<lambda>t. pt_Status t = ''in_progress'') all;
          completed = filter (\<lambda>t. pt_Status t = ''completed'') all
      in text_lines
        (table_section ''Pending'' (length pending)
           [''| ID | Target | Role | Description | Created |'', ''|----|--------|------|-------------|---------|'']
           (List.map (\<lambda>t. table_row [code_cell (pt_ID t), pt_TargetWorkspace t, pt_Role t,
              truncate_text (pt_Description t) 60, stamp (pt_CreatedAt t)]) pending) [''''] @
         table_section ''In Progress'' (length inProgress)
           [''| ID | Claimed By | Claimed At | Description |'', ''|----|-----------|-----------|-------------|'']
           (List.map (\<lambda>t. table_row [code_cell (pt_ID t), pt_ClaimedBy t, stamp (pt_ClaimedAt t),
              truncate_text (pt_Description t) 60]) inProgress) [''''] @
         table_section ''Completed'' (length completed)
           [''| ID | Claimed By | Completed | Result |'', ''|----|-----------|-----------|--------|'']
           (List.map (\<lambda>t. table_row [code_cell (pt_ID t), pt_ClaimedBy t, stamp (pt_CompletedAt t),
              truncate_text (pt_Result t) 60]) completed) []))"

definition tasks_format :: "(int \<Rightarrow> string) \<Rightarrow> ProjectTask list codec_of \<Rightarrow> ProjectTask ledger_format" where
  "tasks_format stamp C =
     \<lparr>lf_name = ''project_tasks'',
      lf_header = text_lines [''# Project Task Queue'', '''',
        ''> Cross-workspace tasks delegated via '' @ code_cell (''neo_daemon(PushTasks, scope:'' @ dquote ''project'' @ '')'') @ ''.'',
        ''> Each member daemon claims tasks with matching TargetWorkspace (or '' @ dquote ''*'' @ '').'', ''''],
      lf_open = ''<!-- neo-project-tasks-v1'' @ line_end,
      lf_render = renderProjectTasksTables stamp,
      lf_json = C\<rparr>"

section \<open>Operations\<close>

definition newProjectTaskID :: "fed_env \<Rightarrow> string" where
  "newProjectTaskID env = ''pt-'' @ fe_date env @ ''-'' @ hex_pad 4 (fe_rand env)"

definition filled_task :: "fed_env \<Rightarrow> ProjectTask \<Rightarrow> ProjectTask" where
  "filled_task env t =
     t\<lparr>pt_ID := (if pt_ID t = '''' then newProjectTaskID env else pt_ID t),
       pt_Status := (if pt_Status t = '''' then ''pending'' else pt_Status t),
       pt_TargetWorkspace := (if pt_TargetWorkspace t = '''' then ''*'' else pt_TargetWorkspace t),
       pt_CreatedAt := (if pt_CreatedAt t = 0 then fe_now env else pt_CreatedAt t)\<rparr>"

definition AppendProjectTask ::
    "ProjectTask ledger_format \<Rightarrow> os \<Rightarrow> fed_env \<Rightarrow> string \<Rightarrow> ProjectTask \<Rightarrow> disk \<Rightarrow> (error + ProjectTask) \<times> disk" where
  "AppendProjectTask F S env projDir t dk =
     (if projDir = '''' then (Inl (Err ''project_tasks: empty projDir''), dk)
      else if pt_Description t = '''' then (Inl (Err ''project_tasks: description required''), dk)
      else ledger_edit F S (path_join [projDir, projectTasksFile])
        (\<lambda>existing. Inr (existing @ [filled_task env t], filled_task env t)) dk)"

fun claim_first :: "int \<Rightarrow> string \<Rightarrow> ProjectTask list \<Rightarrow> (ProjectTask list \<times> ProjectTask) option" where
  "claim_first now workspaceID [] = None"
| "claim_first now workspaceID (t # ts) =
     (if pt_Status t \<noteq> ''pending'' \<or> (pt_TargetWorkspace t \<noteq> ''*'' \<and> pt_TargetWorkspace t \<noteq> workspaceID)
      then map_option (\<lambda>(ts', x). (t # ts', x)) (claim_first now workspaceID ts)
      else (let t' = t\<lparr>pt_Status := ''in_progress'', pt_ClaimedBy := workspaceID, pt_ClaimedAt := now\<rparr>
            in Some (t' # ts, t')))"

definition ClaimProjectTask ::
    "ProjectTask ledger_format \<Rightarrow> os \<Rightarrow> fed_env \<Rightarrow> string \<Rightarrow> string \<Rightarrow> disk \<Rightarrow> (error + ProjectTask) \<times> disk" where
  "ClaimProjectTask F S env projDir workspaceID dk =
     (if projDir = '''' \<or> workspaceID = '''' then (Inl (Err ''project_tasks: empty projDir or workspaceID''), dk)
      else ledger_edit F S (path_join [projDir, projectTasksFile])
        (\<lambda>all. case claim_first (fe_now env) workspaceID all of None \<Rightarrow> Inl ErrProjectTaskNotFound | Some r \<Rightarrow> Inr r) dk)"

fun complete_first :: "int \<Rightarrow> string \<Rightarrow> string \<Rightarrow> ProjectTask list \<Rightarrow> ProjectTask list option" where
  "complete_first now i result [] = None"
| "complete_first now i result (t # ts) =
     (if pt_ID t \<noteq> i then map_option (\<lambda>ts'. t # ts') (complete_first now i result ts)
      else Some (t\<lparr>pt_Status := ''completed'', pt_Result := result, pt_CompletedAt := now\<rparr> # ts))"

definition CompleteProjectTask ::
    "ProjectTask ledger_format \<Rightarrow> os \<Rightarrow> fed_env \<Rightarrow> string \<Rightarrow> string \<Rightarrow> string \<Rightarrow> disk \<Rightarrow> (error + unit) \<times> disk" where
  "CompleteProjectTask F S env projDir i result dk =
     (if projDir = '''' \<or> i = '''' then (Inl (Err ''project_tasks: empty projDir or id''), dk)
      else ledger_edit F S (path_join [projDir, projectTasksFile])
        (\<lambda>all. case complete_first (fe_now env) i result all of None \<Rightarrow> Inl ErrProjectTaskNotFound | Some all' \<Rightarrow> Inr (all', ())) dk)"

definition ListProjectTasks :: "ProjectTask ledger_format \<Rightarrow> os \<Rightarrow> string \<Rightarrow> disk \<Rightarrow> error + ProjectTask list" where
  "ListProjectTasks F S projDir dk =
     (if projDir = '''' then Inr [] else ledger_load F S (path_join [projDir, projectTasksFile]) dk)"

section \<open>Claims\<close>

definition task_in :: "string set \<Rightarrow> ProjectTask \<Rightarrow> bool" where
  "task_in Z t \<longleftrightarrow> {pt_ID t, pt_Description t, pt_TargetFile t, pt_Role t, pt_TargetWorkspace t, pt_Status t, pt_ClaimedBy t,
     pt_Result t} \<union> set (pt_AffinityTags t) \<subseteq> Z"

definition tasks_in :: "string set \<Rightarrow> ProjectTask list \<Rightarrow> bool" where
  "tasks_in Z ts \<longleftrightarrow> (\<forall>t\<in>set ts. task_in Z t)"

abbreviation tasks_path :: "string \<Rightarrow> string" where
  "tasks_path projDir \<equiv> path_join [projDir, projectTasksFile]"

text \<open>
  Operations one after the other, with the claims granted so far. A new task has a fresh
  identifier and is pending, as every caller of the package makes it.
\<close>

inductive task_history ::
    "ProjectTask ledger_format \<Rightarrow> os \<Rightarrow> string set \<Rightarrow> string \<Rightarrow> disk \<Rightarrow> (string \<times> ProjectTask) list \<Rightarrow> bool" for F S Z projDir where
  tstart: "ledger_load F S (tasks_path projDir) dk = Inr [] \<Longrightarrow> task_history F S Z projDir dk []"
| tappend: "task_history F S Z projDir dk claims \<Longrightarrow> AppendProjectTask F S env projDir t dk = (r, dk') \<Longrightarrow>
    task_in Z (filled_task env t) \<Longrightarrow> pt_Status (filled_task env t) = ''pending'' \<Longrightarrow>
    (\<forall>all. ListProjectTasks F S projDir dk = Inr all \<longrightarrow> pt_ID (filled_task env t) \<notin> pt_ID ` set all) \<Longrightarrow>
    task_history F S Z projDir dk' claims"
| tclaim: "task_history F S Z projDir dk claims \<Longrightarrow> ClaimProjectTask F S env projDir ws dk = (Inr t, dk') \<Longrightarrow> ws \<in> Z \<Longrightarrow>
    task_history F S Z projDir dk' (claims @ [(ws, t)])"
| trefused: "task_history F S Z projDir dk claims \<Longrightarrow> ClaimProjectTask F S env projDir ws dk = (Inl e, dk') \<Longrightarrow> ws \<in> Z \<Longrightarrow>
    task_history F S Z projDir dk' claims"
| tcomplete: "task_history F S Z projDir dk claims \<Longrightarrow> CompleteProjectTask F S env projDir i result dk = (r, dk') \<Longrightarrow> result \<in> Z \<Longrightarrow>
    task_history F S Z projDir dk' claims"

text \<open>What every claim leaves behind.\<close>

definition claim_kept :: "ProjectTask list \<Rightarrow> string \<times> ProjectTask \<Rightarrow> bool" where
  "claim_kept all c \<longleftrightarrow> (case c of (ws, t) \<Rightarrow> pt_TargetWorkspace t \<in> {''*'', ws} \<and> pt_ClaimedBy t = ws \<and>
     (\<exists>u\<in>set all. pt_ID u = pt_ID t \<and> pt_ClaimedBy u = ws \<and> pt_Status u \<in> {''in_progress'', ''completed''}))"

definition claims_ok :: "ProjectTask list \<Rightarrow> (string \<times> ProjectTask) list \<Rightarrow> bool" where
  "claims_ok all claims \<longleftrightarrow> distinct (List.map pt_ID all) \<and> distinct (List.map (pt_ID \<circ> snd) claims) \<and>
     (\<forall>c\<in>set claims. claim_kept all c)"

lemma claim_first_Some:
  assumes "claim_first now ws ts = Some (ts', t')"
  shows "\<exists>a t b. ts = a @ t # b \<and> ts' = a @ t' # b \<and> pt_Status t = ''pending'' \<and> pt_TargetWorkspace t \<in> {''*'', ws} \<and>
    t' = t\<lparr>pt_Status := ''in_progress'', pt_ClaimedBy := ws, pt_ClaimedAt := now\<rparr> \<and>
    (\<forall>u\<in>set a. \<not> (pt_Status u = ''pending'' \<and> pt_TargetWorkspace u \<in> {''*'', ws}))"
  using assms
proof (induction ts arbitrary: ts')
  case (Cons u ts)
  show ?case
  proof (cases "pt_Status u \<noteq> ''pending'' \<or> (pt_TargetWorkspace u \<noteq> ''*'' \<and> pt_TargetWorkspace u \<noteq> ws)")
    case True
    then obtain ts2 where c: "claim_first now ws ts = Some (ts2, t')" "ts' = u # ts2" using Cons.prems by auto
    from Cons.IH [OF c(1)] obtain a t b where "ts = a @ t # b" "ts2 = a @ t' # b" "pt_Status t = ''pending''"
      "pt_TargetWorkspace t \<in> {''*'', ws}" "t' = t\<lparr>pt_Status := ''in_progress'', pt_ClaimedBy := ws, pt_ClaimedAt := now\<rparr>"
      "\<forall>u\<in>set a. \<not> (pt_Status u = ''pending'' \<and> pt_TargetWorkspace u \<in> {''*'', ws})" by blast
    then show ?thesis using c(2) True by (intro exI [of _ "u # a"] exI [of _ t] exI [of _ b]) auto
  next
    case False
    then show ?thesis using Cons.prems by (intro exI [of _ "[]"] exI [of _ u] exI [of _ ts]) (auto simp: Let_def)
  qed
qed simp

lemma complete_first_Some:
  "complete_first now i result ts = Some ts' \<Longrightarrow>
     \<exists>a t b. ts = a @ t # b \<and> ts' = a @ t\<lparr>pt_Status := ''completed'', pt_Result := result, pt_CompletedAt := now\<rparr> # b \<and> pt_ID t = i"
proof (induction ts arbitrary: ts')
  case (Cons u ts)
  show ?case
  proof (cases "pt_ID u = i")
    case False
    then obtain ts2 where c: "complete_first now i result ts = Some ts2" "ts' = u # ts2" using Cons.prems by auto
    from Cons.IH [OF c(1)] obtain a t b where "ts = a @ t # b"
      "ts2 = a @ t\<lparr>pt_Status := ''completed'', pt_Result := result, pt_CompletedAt := now\<rparr> # b" "pt_ID t = i" by blast
    then show ?thesis using c(2) by (intro exI [of _ "u # a"] exI [of _ t] exI [of _ b]) auto
  next
    case True
    then show ?thesis using Cons.prems by (intro exI [of _ "[]"] exI [of _ u] exI [of _ ts]) auto
  qed
qed simp

lemma claims_ok_append:
  "claims_ok all claims \<Longrightarrow> pt_ID t \<notin> pt_ID ` set all \<Longrightarrow> claims_ok (all @ [t]) claims"
  by (fastforce simp: claims_ok_def claim_kept_def split: prod.splits)

lemma claim_kept_update:
  assumes "claim_kept (a @ t # b) c" "pt_ID t' = pt_ID t" "pt_ClaimedBy t' = pt_ClaimedBy t"
    "pt_Status t \<in> {''in_progress'', ''completed''} \<longrightarrow> pt_Status t' \<in> {''in_progress'', ''completed''}"
  shows "claim_kept (a @ t' # b) c"
  using assms by (auto simp: claim_kept_def split: prod.splits)

lemma claims_ok_complete:
  assumes "claims_ok all claims" "complete_first now i result all = Some all'"
  shows "claims_ok all' claims"
proof -
  obtain a t b where s: "all = a @ t # b" "all' = a @ t\<lparr>pt_Status := ''completed'', pt_Result := result, pt_CompletedAt := now\<rparr> # b"
    using complete_first_Some [OF assms(2)] by blast
  have "claim_kept all' c" if "claim_kept all c" for c
    using that unfolding s by (rule claim_kept_update) simp_all
  then show ?thesis using assms(1) unfolding claims_ok_def s by auto
qed

lemma claims_ok_claim:
  assumes "claims_ok all claims" "claim_first now ws all = Some (all', t')"
  shows "claims_ok all' (claims @ [(ws, t')])"
proof -
  obtain a t b where s: "all = a @ t # b" "all' = a @ t' # b" "pt_Status t = ''pending''" "pt_TargetWorkspace t \<in> {''*'', ws}"
    "t' = t\<lparr>pt_Status := ''in_progress'', pt_ClaimedBy := ws, pt_ClaimedAt := now\<rparr>"
    using claim_first_Some [OF assms(2)] by blast
  have d: "distinct (List.map pt_ID all)" using assms(1) by (simp add: claims_ok_def)
  have fresh: "pt_ID (snd c) \<noteq> pt_ID t" if "c \<in> set claims" for c
  proof
    assume e: "pt_ID (snd c) = pt_ID t"
    have "claim_kept all c" using assms(1) that by (simp add: claims_ok_def)
    then obtain u where "u \<in> set all" "pt_ID u = pt_ID t" "pt_Status u \<in> {''in_progress'', ''completed''}"
      using e by (auto simp: claim_kept_def split: prod.splits)
    then have "u = t" using d s(1) by (metis distinct_map inj_on_eq_iff in_set_conv_decomp)
    then show False using \<open>pt_Status u \<in> _\<close> s(3) by simp
  qed
  have kept: "claim_kept all' c" if c: "c \<in> set claims" for c
  proof -
    have k: "claim_kept all c" using assms(1) c by (simp add: claims_ok_def)
    then show ?thesis using fresh [OF c] unfolding s(1,2) by (auto simp: claim_kept_def split: prod.splits)
  qed
  have "claim_kept all' (ws, t')" using s(4) by (simp add: claim_kept_def s(2,5))
  moreover have "distinct (List.map pt_ID all')" using d by (simp add: s(1,2,5))
  moreover have "pt_ID t' \<notin> set (List.map (pt_ID \<circ> snd) claims)"
  proof
    assume "pt_ID t' \<in> set (List.map (pt_ID \<circ> snd) claims)"
    then obtain c where "c \<in> set claims" "pt_ID (snd c) = pt_ID t" by (auto simp: s(5))
    then show False using fresh by blast
  qed
  ultimately show ?thesis using assms(1) kept by (simp add: claims_ok_def)
qed

lemma claim_in:
  assumes "tasks_in Z all" "claim_first now ws all = Some (all', t')" "ws \<in> Z" "text_set Z"
  shows "tasks_in Z all'"
proof -
  have "''in_progress'' \<in> Z" using assms(4) by (rule text_ascii) (simp add: is_ascii_def)
  moreover obtain a t b where "all = a @ t # b" "all' = a @ t' # b" "t' = t\<lparr>pt_Status := ''in_progress'', pt_ClaimedBy := ws, pt_ClaimedAt := now\<rparr>"
    using claim_first_Some [OF assms(2)] by blast
  ultimately show ?thesis using assms(1,3) by (auto simp: tasks_in_def task_in_def)
qed

lemma complete_in:
  assumes "tasks_in Z all" "complete_first now i result all = Some all'" "result \<in> Z" "text_set Z"
  shows "tasks_in Z all'"
proof -
  have "''completed'' \<in> Z" using assms(4) by (rule text_ascii) (simp add: is_ascii_def)
  moreover obtain a t b where "all = a @ t # b" "all' = a @ t\<lparr>pt_Status := ''completed'', pt_Result := result, pt_CompletedAt := now\<rparr> # b"
    using complete_first_Some [OF assms(2)] by blast
  ultimately show ?thesis using assms(1,3) by (auto simp: tasks_in_def task_in_def)
qed

locale task_ledger = json_ledger F "tasks_in Z" for F :: "ProjectTask ledger_format" and Z +
  assumes texts: "text_set Z"
begin

definition inv :: "os \<Rightarrow> string \<Rightarrow> disk \<Rightarrow> (string \<times> ProjectTask) list \<Rightarrow> bool" where
  "inv S projDir dk claims \<longleftrightarrow> (\<exists>all. ledger_load F S (tasks_path projDir) dk = Inr all \<and> tasks_in Z all \<and> claims_ok all claims)"

lemma edit_inv:
  assumes inv: "inv S projDir dk claims" and edit: "ledger_edit F S (tasks_path projDir) f dk = (r, dk')"
    and rd: "os_read S (tasks_path projDir) = None"
    and step: "\<And>all all' x. ledger_load F S (tasks_path projDir) dk = Inr all \<Longrightarrow> tasks_in Z all \<Longrightarrow> f all = Inr (all', x) \<Longrightarrow> tasks_in Z all'"
    and ok: "\<And>all all' x. ledger_load F S (tasks_path projDir) dk = Inr all \<Longrightarrow> claims_ok all claims \<Longrightarrow> f all = Inr (all', x) \<Longrightarrow>
      r = Inr x \<Longrightarrow> claims_ok all' claims'"
    and err: "\<And>e. r = Inl e \<Longrightarrow> claims' = claims"
  shows "inv S projDir dk' claims'"
proof -
  obtain all where all: "ledger_load F S (tasks_path projDir) dk = Inr all" "tasks_in Z all" "claims_ok all claims"
    using inv by (auto simp: inv_def)
  obtain g where g: "g = (\<lambda>xs. if xs = all then f xs else Inl NotExist)" by simp
  have same: "ledger_edit F S (tasks_path projDir) g dk = (r, dk')" using edit all(1) by (simp add: ledger_edit_def g)
  have keep: "\<forall>xs all' x. g xs = Inr (all', x) \<longrightarrow> tasks_in Z all'" using step [OF all(1,2)] by (auto simp: g)
  from edit_cases [OF same rd keep] show ?thesis
  proof (elim disjE exE conjE)
    fix e assume "r = Inl e" "ledger_load F S (tasks_path projDir) dk' = ledger_load F S (tasks_path projDir) dk"
    then show ?thesis using err all by (auto simp: inv_def)
  next
    fix xs all' x
    assume c: "ledger_load F S (tasks_path projDir) dk = Inr xs" "g xs = Inr (all', x)" "r = Inr x"
      "ledger_load F S (tasks_path projDir) dk' = Inr all'"
    then have "xs = all" "f all = Inr (all', x)" using all(1) by (auto simp: g)
    then show ?thesis using c ok [OF all(1,3)] step [OF all(1,2)] by (auto simp: inv_def)
  qed
qed

lemma history_ok: "task_history F S Z projDir dk claims \<Longrightarrow> os_read S (tasks_path projDir) = None \<Longrightarrow> inv S projDir dk claims"
proof (induction rule: task_history.induct)
  case (tstart dk)
  then show ?case by (simp add: inv_def tasks_in_def claims_ok_def)
next
  case (tappend dk claims env t r dk')
  show ?case
  proof (cases "projDir = '''' \<or> pt_Description t = ''''")
    case True
    then have "dk' = dk" using tappend.hyps(2) by (auto simp: AppendProjectTask_def split: if_splits)
    then show ?thesis using tappend.IH tappend.prems by simp
  next
    case False
    then have "ledger_edit F S (tasks_path projDir) (\<lambda>existing. Inr (existing @ [filled_task env t], filled_task env t)) dk = (r, dk')"
      using tappend.hyps(2) by (simp add: AppendProjectTask_def)
    then show ?thesis
    proof (rule edit_inv [OF tappend.IH [OF tappend.prems] _ tappend.prems])
      fix all all' :: "ProjectTask list" and x
      assume l: "ledger_load F S (tasks_path projDir) dk = Inr all" and e: "Inr (all @ [filled_task env t], filled_task env t) = (Inr (all', x) :: error + _)"
      show "tasks_in Z all'" if "tasks_in Z all" using e that tappend.hyps(3) by (auto simp: tasks_in_def)
      show "claims_ok all' claims" if "claims_ok all claims"
        using e that tappend.hyps(5) l False claims_ok_append [OF that, of "filled_task env t"] by (auto simp: ListProjectTasks_def)
    qed simp
  qed
next
  case (tclaim dk claims env ws t dk')
  then have "projDir \<noteq> ''''" by (auto simp: ClaimProjectTask_def)
  then have e: "ledger_edit F S (tasks_path projDir)
      (\<lambda>all. case claim_first (fe_now env) ws all of None \<Rightarrow> Inl ErrProjectTaskNotFound | Some r \<Rightarrow> Inr r) dk = (Inr t, dk')"
    using tclaim.hyps(2) by (auto simp: ClaimProjectTask_def split: if_splits)
  show ?case
    by (rule edit_inv [OF tclaim.IH [OF tclaim.prems] e tclaim.prems])
      (auto intro: claim_in [OF _ _ tclaim.hyps(3) texts] claims_ok_claim split: option.splits)
next
  case (trefused dk claims env ws e dk')
  show ?case
  proof (cases "projDir = '''' \<or> ws = ''''")
    case True
    then have "dk' = dk" using trefused.hyps(2) by (auto simp: ClaimProjectTask_def)
    then show ?thesis using trefused.IH trefused.prems by simp
  next
    case False
    then have ed: "ledger_edit F S (tasks_path projDir)
        (\<lambda>all. case claim_first (fe_now env) ws all of None \<Rightarrow> Inl ErrProjectTaskNotFound | Some r \<Rightarrow> Inr r) dk = (Inl e, dk')"
      using trefused.hyps(2) by (simp add: ClaimProjectTask_def)
    show ?thesis
      by (rule edit_inv [OF trefused.IH [OF trefused.prems] ed trefused.prems])
        (auto intro: claim_in [OF _ _ trefused.hyps(3) texts] split: option.splits)
  qed
next
  case (tcomplete dk claims env i result r dk')
  show ?case
  proof (cases "projDir = '''' \<or> i = ''''")
    case True
    then have "dk' = dk" using tcomplete.hyps(2) by (auto simp: CompleteProjectTask_def)
    then show ?thesis using tcomplete.IH tcomplete.prems by simp
  next
    case False
    then have ed: "ledger_edit F S (tasks_path projDir)
        (\<lambda>all. case complete_first (fe_now env) i result all of None \<Rightarrow> Inl ErrProjectTaskNotFound | Some all' \<Rightarrow> Inr (all', ())) dk = (r, dk')"
      using tcomplete.hyps(2) by (simp add: CompleteProjectTask_def)
    show ?thesis
      by (rule edit_inv [OF tcomplete.IH [OF tcomplete.prems] ed tcomplete.prems])
        (auto intro: complete_in [OF _ _ tcomplete.hyps(3) texts] claims_ok_complete split: option.splits)
  qed
qed

end

lemma tasks_format_simps [simp]:
  "lf_json (tasks_format stamp C) = C" "lf_name (tasks_format stamp C) = ''project_tasks''"
  by (simp_all add: tasks_format_def)

lemma tasks_format_mark: "lf_open (tasks_format stamp C) \<noteq> ''''" "hd (lf_open (tasks_format stamp C)) \<notin> set (lf_header (tasks_format stamp C))"
  by (simp_all add: tasks_format_def text_lines_def code_cell_def dquote_def line_end_def newline_def)

text \<open>
  C2: In any sequence of appends, claims and completions of tasks, whatever writes fail, no task
  is handed out twice; each is handed out to a workspace it was meant for, and is still in the
  ledger as claimed by that workspace, in progress or completed.
\<close>

theorem tasks_claimed_once:
  assumes "json_codec C (tasks_in Z)" "\<And>ts s. jc_enc C ts = Inr s \<Longrightarrow> CHR ''>'' \<notin> set s" "text_set Z"
    and "os_read S (tasks_path projDir) = None" "projDir \<noteq> ''''"
    and "task_history (tasks_format stamp C) S Z projDir dk claims"
  shows "distinct (List.map (\<lambda>(ws, t). pt_ID t) claims) \<and>
    (\<exists>all. ListProjectTasks (tasks_format stamp C) S projDir dk = Inr all \<and>
       (\<forall>(ws, t)\<in>set claims. pt_TargetWorkspace t \<in> {''*'', ws} \<and>
          (\<exists>u\<in>set all. pt_ID u = pt_ID t \<and> pt_ClaimedBy u = ws \<and> pt_Status u \<in> {''in_progress'', ''completed''})))"
proof -
  have "json_ledger (tasks_format stamp C) (tasks_in Z)"
    by (rule json_ledger.intro) (use assms(1,2) tasks_format_mark in simp_all)
  then have l: "task_ledger (tasks_format stamp C) Z"
    by (rule task_ledger.intro) (rule task_ledger_axioms.intro [OF assms(3)])
  obtain all where all: "ledger_load (tasks_format stamp C) S (tasks_path projDir) dk = Inr all" "claims_ok all claims"
    using task_ledger.history_ok [OF l assms(6,4)] by (auto simp: task_ledger.inv_def [OF l])
  have e: "List.map (\<lambda>(ws, t). pt_ID t) claims = List.map (pt_ID \<circ> snd) claims" by (induction claims) auto
  show ?thesis
    using all assms(5) unfolding claims_ok_def e by (fastforce simp: ListProjectTasks_def claim_kept_def)
qed

section \<open>An instance\<close>

definition task_texts :: "ProjectTask \<Rightarrow> string list" where
  "task_texts t = [pt_ID t, pt_Description t, pt_TargetFile t, pt_Role t, pt_TargetWorkspace t, strings_text (pt_AffinityTags t),
     pt_Status t, pt_ClaimedBy t, dec_int (pt_ClaimedAt t), dec_int (pt_CreatedAt t), dec_int (pt_CompletedAt t), pt_Result t]"

definition task_of_texts :: "string list \<Rightarrow> ProjectTask" where
  "task_of_texts ws =
     (case ws of
        [w0, w1, w2, w3, w4, w5, w6, w7, w8, w9, w10, w11] \<Rightarrow>
          \<lparr>pt_ID = w0, pt_Description = w1, pt_TargetFile = w2, pt_Role = w3, pt_TargetWorkspace = w4,
           pt_AffinityTags = strings_of_text w5, pt_Status = w6, pt_ClaimedBy = w7, pt_ClaimedAt = int_of_text w8,
           pt_CreatedAt = int_of_text w9, pt_CompletedAt = int_of_text w10, pt_Result = w11\<rparr>
      | _ \<Rightarrow> \<lparr>pt_ID = '''', pt_Description = '''', pt_TargetFile = '''', pt_Role = '''', pt_TargetWorkspace = '''',
           pt_AffinityTags = [], pt_Status = '''', pt_ClaimedBy = '''', pt_ClaimedAt = 0, pt_CreatedAt = 0, pt_CompletedAt = 0,
           pt_Result = ''''\<rparr>)"

definition tasks_codec :: "ProjectTask list codec_of" where
  "tasks_codec = list_via task_texts task_of_texts"

lemma task_texts_read: "task_of_texts (task_texts t) = t"
  by (cases t) (simp add: task_texts_def task_of_texts_def)

lemma tasks_codec_json: "json_codec tasks_codec keeps"
  unfolding tasks_codec_def by (rule list_via_codec) (rule task_texts_read)

lemma tasks_codec_bracket: "jc_enc tasks_codec x = Inr s \<Longrightarrow> CHR ''>'' \<notin> set s"
  unfolding tasks_codec_def by (rule list_via_bracket)

interpretation ltasks: task_ledger "tasks_format dec_int tasks_codec" UNIV
  by (intro task_ledger.intro json_ledger.intro task_ledger_axioms.intro text_UNIV)
    (use tasks_codec_json tasks_format_mark tasks_codec_bracket in simp_all)

abbreviation demo_tasks :: "ProjectTask ledger_format" where "demo_tasks \<equiv> tasks_format dec_int tasks_codec"

definition demo_ptask :: "string \<Rightarrow> string \<Rightarrow> ProjectTask" where
  "demo_ptask i ws = \<lparr>pt_ID = i, pt_Description = ''d'', pt_TargetFile = '''', pt_Role = '''', pt_TargetWorkspace = ws,
     pt_AffinityTags = [], pt_Status = ''pending'', pt_ClaimedBy = '''', pt_ClaimedAt = 0, pt_CreatedAt = 1, pt_CompletedAt = 0,
     pt_Result = ''''\<rparr>"

definition demo_env :: fed_env where "demo_env = \<lparr>fe_now = 7, fe_date = ''d'', fe_rand = 1\<rparr>"

lemma demo_task_filled: "i \<noteq> '''' \<Longrightarrow> ws \<noteq> '''' \<Longrightarrow> filled_task demo_env (demo_ptask i ws) = demo_ptask i ws"
  by (simp add: filled_task_def demo_ptask_def)

lemma demo_task_desc: "pt_Description (demo_ptask i ws) \<noteq> ''''" "pt_Status (demo_ptask i ws) = ''pending''" "pt_ID (demo_ptask i ws) = i"
  by (simp_all add: demo_ptask_def)

text \<open>On a disk that refuses nothing an edit of a list is a step of the json_ledger.\<close>

lemma good_edit:
  assumes "ledger_load demo_tasks good_os p dk = Inr all" "f all = Inr (all', x)"
  shows "\<exists>dk'. ledger_edit demo_tasks good_os p f dk = (Inr x, dk') \<and> ledger_load demo_tasks good_os p dk' = Inr all'"
proof -
  obtain s where s: "jc_enc tasks_codec all' = Inr s" using json_codec.enc_ok [OF tasks_codec_json, of "\<lambda>_. True" all'] by auto
  obtain dk' where w: "ledger_write demo_tasks good_os p all' dk = (None, dk')"
    using s by (auto simp: ledger_write_def replace_file_def write_file_def Let_def)
  then have "ledger_load demo_tasks good_os p dk' = Inr all'" by (rule ltasks.write_load) (simp_all add: tasks_in_def task_in_def)
  then show ?thesis using assms w by (simp add: ledger_edit_def)
qed

text \<open>Two tasks, one for everybody and one for \<open>b\<close>: \<open>a\<close> gets the first, \<open>b\<close> the second, \<open>a\<close> nothing more.\<close>

theorem tasks_claimed_once_witness:
  "\<exists>dk x y. task_history demo_tasks good_os UNIV ''/p'' dk [(''a'', x), (''b'', y)] \<and> pt_ID x = ''1'' \<and> pt_ID y = ''2'' \<and>
     pt_ID x \<noteq> pt_ID y \<and> fst (ClaimProjectTask demo_tasks good_os demo_env ''/p'' ''a'' dk) = Inl ErrProjectTaskNotFound"
proof -
  let ?h = "task_history demo_tasks good_os UNIV ''/p''" and ?load = "ledger_load demo_tasks good_os (tasks_path ''/p'')"
  let ?t1 = "demo_ptask ''1'' ''*''" and ?t2 = "demo_ptask ''2'' ''b''"
  define c1 where "c1 = ?t1\<lparr>pt_Status := ''in_progress'', pt_ClaimedBy := ''a'', pt_ClaimedAt := 7\<rparr>"
  define c2 where "c2 = ?t2\<lparr>pt_Status := ''in_progress'', pt_ClaimedBy := ''b'', pt_ClaimedAt := 7\<rparr>"
  note filled = demo_task_filled [of "''1''" "''*''", simplified] demo_task_filled [of "''2''" "''b''", simplified]
  have l0: "?load (\<lambda>_. None) = Inr []" by (simp add: ledger_load_def read_file_def)
  obtain dk1 where d1: "AppendProjectTask demo_tasks good_os demo_env ''/p'' ?t1 (\<lambda>_. None) = (Inr ?t1, dk1)" "?load dk1 = Inr [?t1]"
    using good_edit [OF l0, of "\<lambda>existing. Inr (existing @ [?t1], ?t1)"]
    by (auto simp: AppendProjectTask_def filled demo_task_desc)
  have h1: "?h dk1 []"
    by (rule tappend [OF tstart [OF l0] d1(1)]) (simp_all add: filled task_in_def demo_task_desc ListProjectTasks_def l0)
  obtain dk2 where d2: "AppendProjectTask demo_tasks good_os demo_env ''/p'' ?t2 dk1 = (Inr ?t2, dk2)" "?load dk2 = Inr [?t1, ?t2]"
    using good_edit [OF d1(2), of "\<lambda>existing. Inr (existing @ [?t2], ?t2)"]
    by (auto simp: AppendProjectTask_def filled demo_task_desc)
  have h2: "?h dk2 []"
    by (rule tappend [OF h1 d2(1)]) (simp_all add: filled task_in_def ListProjectTasks_def d1(2) demo_task_desc)
  obtain dk3 where d3: "ClaimProjectTask demo_tasks good_os demo_env ''/p'' ''a'' dk2 = (Inr c1, dk3)" "?load dk3 = Inr [c1, ?t2]"
    using good_edit [OF d2(2), of "\<lambda>all. case claim_first 7 ''a'' all of None \<Rightarrow> Inl ErrProjectTaskNotFound | Some r \<Rightarrow> Inr r" "[c1, ?t2]" c1]
    by (auto simp: ClaimProjectTask_def demo_env_def c1_def demo_ptask_def Let_def)
  obtain dk4 where d4: "ClaimProjectTask demo_tasks good_os demo_env ''/p'' ''b'' dk3 = (Inr c2, dk4)" "?load dk4 = Inr [c1, c2]"
    using good_edit [OF d3(2), of "\<lambda>all. case claim_first 7 ''b'' all of None \<Rightarrow> Inl ErrProjectTaskNotFound | Some r \<Rightarrow> Inr r" "[c1, c2]" c2]
    by (auto simp: ClaimProjectTask_def demo_env_def c1_def c2_def demo_ptask_def Let_def)
  have h4: "?h dk4 [(''a'', c1), (''b'', c2)]"
    using tclaim [OF tclaim [OF h2 d3(1)] d4(1)] by simp
  have "distinct (List.map (\<lambda>(ws, t). pt_ID t) [(''a'', c1), (''b'', c2)])"
    using tasks_claimed_once [of tasks_codec UNIV good_os "''/p''" dec_int dk4, OF tasks_codec_json _ text_UNIV _ _ h4]
    by (simp add: tasks_codec_bracket)
  then have "pt_ID c1 \<noteq> pt_ID c2" by simp
  moreover have "fst (ClaimProjectTask demo_tasks good_os demo_env ''/p'' ''a'' dk4) = Inl ErrProjectTaskNotFound"
    by (simp add: ClaimProjectTask_def ledger_edit_def d4(2) demo_env_def c1_def c2_def demo_ptask_def)
  moreover have "pt_ID c1 = ''1''" "pt_ID c2 = ''2''" by (simp_all add: c1_def c2_def demo_ptask_def)
  ultimately show ?thesis using h4 by blast
qed

section \<open>Outside the lock\<close>

text \<open>
  The lock is one of the process. Two processes that have both loaded the ledger before either
  writes are both handed the same task.
\<close>

lemma two_processes_claim:
  "map_option (pt_ID \<circ> snd) (claim_first 7 ''a'' [demo_ptask ''1'' ''*'']) = Some ''1'' \<and>
   map_option (pt_ID \<circ> snd) (claim_first 8 ''b'' [demo_ptask ''1'' ''*'']) = Some ''1''"
  by (simp add: demo_ptask_def Let_def)

text \<open>A task can be completed without having been claimed, and again after it was completed.\<close>

lemma completes_unclaimed:
  "map_option (List.map pt_Status) (complete_first 7 ''1'' ''r'' [demo_ptask ''1'' ''*'']) = Some [''completed''] \<and>
   Option.bind (complete_first 7 ''1'' ''r'' [demo_ptask ''1'' ''*'']) (\<lambda>ts. map_option (List.map pt_Result) (complete_first 8 ''1'' ''q'' ts)) = Some [''q'']"
  by (simp add: demo_ptask_def)

end
