(* ===== verification/Fed_Org.thy ===== *)
theory Fed_Org
  imports Fed_Tasks
begin

text \<open>
  The other ledgers of \<^verbatim>\<open>pkg/federation\<close>: contract proposals waiting for an approval
  (\<^verbatim>\<open>contract_proposals.go\<close>), the directives of an organisation (\<^verbatim>\<open>org_directives.go\<close>) and its debt
  (\<^verbatim>\<open>org_debt.go\<close>). Then: directives are numbered by position and never go away, and a proposal
  or a debt is resolved at most once.
\<close>

section \<open>Contract proposals\<close>

record ContractProposal =
  cp_ID :: string
  cp_FromWorkspace :: string
  cp_Endpoint :: string
  cp_ChangeType :: string
  cp_AffectedCallers :: "string list"
  cp_ProposedAt :: int
  cp_Status :: string
  cp_ResolvedAt :: int
  cp_ResolvedBy :: string
  cp_Resolution :: string

definition contractProposalsFile :: string where "contractProposalsFile = ''CONTRACT_PROPOSALS.md''"
definition ErrProposalNotFound :: error where "ErrProposalNotFound = Err ''contract_proposals: id not found''"
definition ErrProposalAlreadyResolved :: error where "ErrProposalAlreadyResolved = Err ''contract_proposals: already resolved''"

definition dated_id :: "fed_env \<Rightarrow> string" where
  "dated_id env = fe_date env @ ''-'' @ hex_pad 4 (fe_rand env)"

definition renderProposalsTables :: "(int \<Rightarrow> string) \<Rightarrow> ContractProposal list \<Rightarrow> string" where
  "renderProposalsTables stamp all =
     (let pending = filter (\<lambda>p. cp_Status p = ''pending'') all; resolved = filter (\<lambda>p. cp_Status p \<noteq> ''pending'') all
      in text_lines
        (table_section ''Pending'' (length pending)
           [''| ID | From | Endpoint | Change | Callers | Proposed |'', ''|----|------|----------|--------|---------|----------|'']
           (List.map (\<lambda>p. table_row [code_cell (cp_ID p), cp_FromWorkspace p, code_cell (cp_Endpoint p), cp_ChangeType p,
              dec (length (cp_AffectedCallers p)), stamp (cp_ProposedAt p)]) pending) [''''] @
         table_section ''Resolved'' (length resolved)
           [''| ID | Endpoint | Status | Resolved | By | Note |'', ''|----|----------|--------|----------|----|------|'']
           (List.map (\<lambda>p. table_row [code_cell (cp_ID p), code_cell (cp_Endpoint p), cp_Status p, stamp (cp_ResolvedAt p),
              cp_ResolvedBy p, cp_Resolution p]) resolved) []))"

definition proposals_format :: "(int \<Rightarrow> string) \<Rightarrow> ContractProposal list codec_of \<Rightarrow> ContractProposal ledger_format" where
  "proposals_format stamp C =
     \<lparr>lf_name = ''contract_proposals'',
      lf_header = text_lines [''# Contract Proposals Pending Approval'', '''',
        ''> Breaking HTTP contract changes detected in a federation member workspace'',
        ''> that affect callers in sibling workspaces. Review and resolve via'',
        ''> '' @ code_cell (''neo_radar(intent:'' @ dquote ''CONTRACT_APPROVE'' @ '', proposal_id, decision:approve|reject)'') @ '' (WIP).'', ''''],
      lf_open = ''<!-- neo-contract-proposals-v1'' @ line_end,
      lf_render = renderProposalsTables stamp,
      lf_json = C\<rparr>"

definition filled_proposal :: "fed_env \<Rightarrow> ContractProposal \<Rightarrow> ContractProposal" where
  "filled_proposal env p =
     p\<lparr>cp_ID := (if cp_ID p = '''' then dated_id env else cp_ID p),
       cp_ProposedAt := (if cp_ProposedAt p = 0 then fe_now env else cp_ProposedAt p),
       cp_Status := (if cp_Status p = '''' then ''pending'' else cp_Status p)\<rparr>"

definition AppendContractProposal ::
    "ContractProposal ledger_format \<Rightarrow> os \<Rightarrow> fed_env \<Rightarrow> string \<Rightarrow> ContractProposal \<Rightarrow> disk \<Rightarrow> (error + ContractProposal) \<times> disk" where
  "AppendContractProposal F S env projDir p dk =
     (if projDir = '''' then (Inl (Err ''contract_proposals: empty projDir''), dk)
      else ledger_edit F S (path_join [projDir, contractProposalsFile])
        (\<lambda>existing. Inr (existing @ [filled_proposal env p], filled_proposal env p)) dk)"

definition ListProposals :: "ContractProposal ledger_format \<Rightarrow> os \<Rightarrow> string \<Rightarrow> disk \<Rightarrow> error + ContractProposal list" where
  "ListProposals F S projDir dk =
     (if projDir = '''' then Inr [] else ledger_load F S (path_join [projDir, contractProposalsFile]) dk)"

definition ListPendingProposals :: "ContractProposal ledger_format \<Rightarrow> os \<Rightarrow> string \<Rightarrow> disk \<Rightarrow> error + ContractProposal list" where
  "ListPendingProposals F S projDir dk =
     map_sum id (filter (\<lambda>p. cp_Status p = ''pending'')) (ListProposals F S projDir dk)"

fun resolve_first ::
    "int \<Rightarrow> string \<Rightarrow> string \<Rightarrow> string \<Rightarrow> string \<Rightarrow> ContractProposal list \<Rightarrow> error + ContractProposal list" where
  "resolve_first now i status resolvedBy note [] = Inl ErrProposalNotFound"
| "resolve_first now i status resolvedBy note (p # ps) =
     (if cp_ID p \<noteq> i then map_sum id (\<lambda>ps'. p # ps') (resolve_first now i status resolvedBy note ps)
      else if cp_Status p \<noteq> ''pending'' then Inl ErrProposalAlreadyResolved
      else Inr (p\<lparr>cp_Status := status, cp_ResolvedAt := now, cp_ResolvedBy := resolvedBy, cp_Resolution := note\<rparr> # ps))"

definition ResolveProposal ::
    "ContractProposal ledger_format \<Rightarrow> os \<Rightarrow> fed_env \<Rightarrow> string \<Rightarrow> string \<Rightarrow> string \<Rightarrow> string \<Rightarrow> string \<Rightarrow> disk \<Rightarrow> (error + unit) \<times> disk" where
  "ResolveProposal F S env projDir i status resolvedBy note dk =
     (if projDir = '''' then (Inl (Err ''contract_proposals: empty projDir''), dk)
      else if status \<notin> {''approved'', ''rejected'', ''auto_approved'', ''timeout_rejected''}
      then (Inl (Err (''contract_proposals: invalid status '' @ dquote status)), dk)
      else ledger_edit F S (path_join [projDir, contractProposalsFile])
        (\<lambda>all. map_sum id (\<lambda>all'. (all', ())) (resolve_first (fe_now env) i status resolvedBy note all)) dk)"

section \<open>Directives of the organisation\<close>

record OrgDirective =
  od_ID :: int
  od_Text :: string
  od_CreatedAt :: int
  od_Deprecated :: bool
  od_Supersedes :: "int list"

definition orgDirectivesFile :: string where "orgDirectivesFile = ''DIRECTIVES.md''"
definition ErrOrgDirectiveNotFound :: error where "ErrOrgDirectiveNotFound = Err ''org_directives: id not found''"
definition ErrOrgDirectiveAlreadyDeprecated :: error where
  "ErrOrgDirectiveAlreadyDeprecated = Err ''org_directives: already deprecated''"

definition renderOrgDirectivesList :: "OrgDirective list \<Rightarrow> string" where
  "renderOrgDirectivesList all =
     text_lines [''## Active ('' @ dec (length (filter (\<lambda>d. \<not> od_Deprecated d) all)) @ '' / '' @ dec (length all) @ '' total)'', ''''] @
     (if all = [] then text_lines [''_none_'']
      else text_lines (List.map (\<lambda>d.
        dec_int (od_ID d) @ ''. '' @ (if od_Deprecated d then ''~~OBSOLETO~~ '' else '''') @ od_Text d @
        (if od_Supersedes d \<noteq> [] then '' _(supersedes: ['' @ str_join '' '' (List.map dec_int (od_Supersedes d)) @ ''])_'' else ''''))
        all))"

definition directives_format :: "OrgDirective list codec_of \<Rightarrow> OrgDirective ledger_format" where
  "directives_format C =
     \<lparr>lf_name = ''org_directives'',
      lf_header = text_lines [''# Org-Level Architectural Directives'', '''',
        ''> Reglas que aplican a TODOS los projects del org. Gestionadas via'',
        ''> '' @ code_cell (''neo_memory(action:'' @ dquote ''learn'' @ '', scope:'' @ dquote ''org'' @ '', directive:'' @ dquote ''...'' @ '')'') @ ''.'',
        ''> '' @ code_cell ''.claude/rules/'' @ '' de cada workspace importa estas via el auto-sync de 355.B.'', ''''],
      lf_open = ''<!-- neo-org-directives-v1'' @ line_end,
      lf_render = renderOrgDirectivesList,
      lf_json = C\<rparr>"

definition deprecate_at :: "nat \<Rightarrow> OrgDirective list \<Rightarrow> OrgDirective list" where
  "deprecate_at i ds = ds[i := (ds ! i)\<lparr>od_Deprecated := True\<rparr>]"

text \<open>The new directive is in the list when the superseded ones are marked.\<close>

definition with_directive :: "int \<Rightarrow> string \<Rightarrow> int list \<Rightarrow> OrgDirective list \<Rightarrow> OrgDirective list \<times> OrgDirective" where
  "with_directive now txt supersedes all0 =
     (let newDir = \<lparr>od_ID = int (length all0) + 1, od_Text = txt, od_CreatedAt = now, od_Deprecated = False, od_Supersedes = supersedes\<rparr>;
          all = all0 @ [newDir]
      in (foldl (\<lambda>ds sid. if 1 \<le> sid \<and> sid \<le> int (length all) then deprecate_at (nat (sid - 1)) ds else ds) all supersedes, newDir))"

definition AppendOrgDirective ::
    "OrgDirective ledger_format \<Rightarrow> os \<Rightarrow> fed_env \<Rightarrow> string \<Rightarrow> string \<Rightarrow> int list \<Rightarrow> disk \<Rightarrow> (error + OrgDirective) \<times> disk" where
  "AppendOrgDirective F S env orgDir txt supersedes dk =
     (if orgDir = '''' then (Inl (Err ''org_directives: empty orgDir''), dk)
      else if txt = '''' then (Inl (Err ''org_directives: text required''), dk)
      else ledger_edit F S (path_join [orgDir, orgDirectivesFile])
        (\<lambda>all. Inr (with_directive (fe_now env) txt supersedes all)) dk)"

definition ListOrgDirectives :: "OrgDirective ledger_format \<Rightarrow> os \<Rightarrow> string \<Rightarrow> disk \<Rightarrow> error + OrgDirective list" where
  "ListOrgDirectives F S orgDir dk =
     (if orgDir = '''' then Inr [] else ledger_load F S (path_join [orgDir, orgDirectivesFile]) dk)"

definition DeprecateOrgDirective ::
    "OrgDirective ledger_format \<Rightarrow> os \<Rightarrow> string \<Rightarrow> int \<Rightarrow> disk \<Rightarrow> (error + unit) \<times> disk" where
  "DeprecateOrgDirective F S orgDir i dk =
     (if orgDir = '''' \<or> i < 1 then (Inl (Err ''org_directives: invalid args''), dk)
      else ledger_edit F S (path_join [orgDir, orgDirectivesFile])
        (\<lambda>all. if i > int (length all) then Inl ErrOrgDirectiveNotFound
               else if od_Deprecated (all ! nat (i - 1)) then Inl ErrOrgDirectiveAlreadyDeprecated
               else Inr (deprecate_at (nat (i - 1)) all, ())) dk)"

definition UpdateOrgDirective ::
    "OrgDirective ledger_format \<Rightarrow> os \<Rightarrow> string \<Rightarrow> int \<Rightarrow> string \<Rightarrow> disk \<Rightarrow> (error + unit) \<times> disk" where
  "UpdateOrgDirective F S orgDir i newText dk =
     (if orgDir = '''' \<or> i < 1 \<or> newText = '''' then (Inl (Err ''org_directives: invalid args''), dk)
      else ledger_edit F S (path_join [orgDir, orgDirectivesFile])
        (\<lambda>all. if i > int (length all) then Inl ErrOrgDirectiveNotFound
               else Inr (all[nat (i - 1) := (all ! nat (i - 1))\<lparr>od_Text := newText\<rparr>], ())) dk)"

section \<open>Debt of the organisation\<close>

record OrgDebtEntry =
  oe_ID :: string
  oe_Priority :: string
  oe_Title :: string
  oe_Description :: string
  oe_AffectedProjects :: "string list"
  oe_Source :: string
  oe_DetectedAt :: int
  oe_ResolvedAt :: int
  oe_ResolvedBy :: string
  oe_Resolution :: string

definition orgDebtFile :: string where "orgDebtFile = ''DEBT.md''"
definition ErrOrgDebtNotFound :: error where "ErrOrgDebtNotFound = Err ''org_debt: entry not found''"
definition ErrOrgDebtAlreadyResolved :: error where "ErrOrgDebtAlreadyResolved = Err ''org_debt: already resolved''"

definition renderOrgDebtBucket :: "(int \<Rightarrow> string) \<Rightarrow> string \<Rightarrow> OrgDebtEntry list \<Rightarrow> string list" where
  "renderOrgDebtBucket stamp title entries =
     [''## '' @ title, ''''] @
     (if entries = [] then [''_none_'', '''']
      else [''| ID | Title | Affected Projects | Detected |'', ''|----|-------|-------------------|----------|''] @
        List.map (\<lambda>e. table_row [code_cell (oe_ID e), oe_Title e, str_join '','' (oe_AffectedProjects e), stamp (oe_DetectedAt e)]) entries @
        [''''])"

definition debt_bucket_of :: "OrgDebtEntry \<Rightarrow> string" where
  "debt_bucket_of e = (if oe_Priority e \<in> {''P0'', ''P1'', ''P2'', ''P3''} then oe_Priority e else ''P2'')"

definition long_dash :: string where "long_dash = [CHR 0xE2, CHR 0x80, CHR 0x94]"

definition renderOrgDebtTables :: "(int \<Rightarrow> string) \<Rightarrow> OrgDebtEntry list \<Rightarrow> string" where
  "renderOrgDebtTables stamp all =
     (let resolved = filter (\<lambda>e. oe_ResolvedAt e \<noteq> 0) all;
          bucket = (\<lambda>p. filter (\<lambda>e. oe_ResolvedAt e = 0 \<and> debt_bucket_of e = p) all)
      in text_lines
        (renderOrgDebtBucket stamp (''P0 '' @ long_dash @ '' Blocker (prevents cross-project coordination)'') (bucket ''P0'') @
         renderOrgDebtBucket stamp (''P1 '' @ long_dash @ '' High (affects '' @ [CHR 0xE2, CHR 0x89, CHR 0xA5] @ ''2 projects)'') (bucket ''P1'') @
         renderOrgDebtBucket stamp (''P2 '' @ long_dash @ '' Medium'') (bucket ''P2'') @
         renderOrgDebtBucket stamp (''P3 '' @ long_dash @ '' Observational'') (bucket ''P3'') @
         table_section ''Resolved'' (length resolved)
           [''| ID | Title | Resolved | By | Note |'', ''|----|-------|----------|----|------|'']
           (List.map (\<lambda>e. table_row [code_cell (oe_ID e), oe_Title e, stamp (oe_ResolvedAt e), oe_ResolvedBy e, oe_Resolution e]) resolved) []))"

definition org_debt_format :: "(int \<Rightarrow> string) \<Rightarrow> OrgDebtEntry list codec_of \<Rightarrow> OrgDebtEntry ledger_format" where
  "org_debt_format stamp C =
     \<lparr>lf_name = ''org_debt'',
      lf_header = text_lines [''# Org-Level Technical Debt'', '''',
        ''> Cross-project debt affecting multiple member projects.'',
        ''> Managed by '' @ code_cell (''neo_debt(scope:'' @ dquote ''org'' @ '')'') @ ''. Resolve with'',
        ''> '' @ code_cell (''neo_debt(action:'' @ dquote ''resolve'' @ '', scope:'' @ dquote ''org'' @ '', id, resolution)'') @ ''.'', ''''],
      lf_open = ''<!-- neo-org-debt-v1'' @ line_end,
      lf_render = renderOrgDebtTables stamp,
      lf_json = C\<rparr>"

definition filled_debt :: "fed_env \<Rightarrow> OrgDebtEntry \<Rightarrow> OrgDebtEntry" where
  "filled_debt env e =
     e\<lparr>oe_ID := (if oe_ID e = '''' then dated_id env else oe_ID e),
       oe_Priority := (if oe_Priority e = '''' then ''P2'' else oe_Priority e),
       oe_DetectedAt := (if oe_DetectedAt e = 0 then fe_now env else oe_DetectedAt e)\<rparr>"

definition AppendOrgDebt ::
    "OrgDebtEntry ledger_format \<Rightarrow> os \<Rightarrow> fed_env \<Rightarrow> string \<Rightarrow> OrgDebtEntry \<Rightarrow> disk \<Rightarrow> (error + OrgDebtEntry) \<times> disk" where
  "AppendOrgDebt F S env orgDir e dk =
     (if orgDir = '''' then (Inl (Err ''org_debt: empty orgDir''), dk)
      else if oe_Title e = '''' then (Inl (Err ''org_debt: title required''), dk)
      else ledger_edit F S (path_join [orgDir, orgDebtFile])
        (\<lambda>existing. Inr (existing @ [filled_debt env e], filled_debt env e)) dk)"

definition ListOrgDebt :: "OrgDebtEntry ledger_format \<Rightarrow> os \<Rightarrow> string \<Rightarrow> disk \<Rightarrow> error + OrgDebtEntry list" where
  "ListOrgDebt F S orgDir dk = (if orgDir = '''' then Inr [] else ledger_load F S (path_join [orgDir, orgDebtFile]) dk)"

fun settle_first :: "int \<Rightarrow> string \<Rightarrow> string \<Rightarrow> string \<Rightarrow> OrgDebtEntry list \<Rightarrow> error + OrgDebtEntry list" where
  "settle_first now i resolvedBy note [] = Inl ErrOrgDebtNotFound"
| "settle_first now i resolvedBy note (e # es) =
     (if oe_ID e \<noteq> i then map_sum id (\<lambda>es'. e # es') (settle_first now i resolvedBy note es)
      else if oe_ResolvedAt e \<noteq> 0 then Inl ErrOrgDebtAlreadyResolved
      else Inr (e\<lparr>oe_ResolvedAt := now, oe_ResolvedBy := resolvedBy, oe_Resolution := note\<rparr> # es))"

definition ResolveOrgDebt ::
    "OrgDebtEntry ledger_format \<Rightarrow> os \<Rightarrow> fed_env \<Rightarrow> string \<Rightarrow> string \<Rightarrow> string \<Rightarrow> string \<Rightarrow> disk \<Rightarrow> (error + unit) \<times> disk" where
  "ResolveOrgDebt F S env orgDir i resolvedBy note dk =
     (if orgDir = '''' \<or> i = '''' then (Inl (Err ''org_debt: empty orgDir or id''), dk)
      else ledger_edit F S (path_join [orgDir, orgDebtFile])
        (\<lambda>all. map_sum id (\<lambda>all'. (all', ())) (settle_first (fe_now env) i resolvedBy note all)) dk)"

section \<open>Directives are numbered by position\<close>

definition directive_in :: "string set \<Rightarrow> OrgDirective list \<Rightarrow> bool" where
  "directive_in Z ds \<longleftrightarrow> (\<forall>d\<in>set ds. od_Text d \<in> Z)"

text \<open>The directives of a later time: no number is lost or reused, what is deprecated stays so.\<close>

definition extends :: "OrgDirective list \<Rightarrow> OrgDirective list \<Rightarrow> bool" where
  "extends ds ds' \<longleftrightarrow> length ds \<le> length ds' \<and>
     (\<forall>i<length ds. od_ID (ds' ! i) = od_ID (ds ! i) \<and> od_CreatedAt (ds' ! i) = od_CreatedAt (ds ! i) \<and>
        od_Supersedes (ds' ! i) = od_Supersedes (ds ! i) \<and> (od_Deprecated (ds ! i) \<longrightarrow> od_Deprecated (ds' ! i)))"

definition well_numbered :: "OrgDirective list \<Rightarrow> bool" where
  "well_numbered ds \<longleftrightarrow> (\<forall>i<length ds. od_ID (ds ! i) = int i + 1 \<and> od_Text (ds ! i) \<noteq> '''' \<and>
     (\<forall>s\<in>set (od_Supersedes (ds ! i)). 1 \<le> s \<and> s \<le> int i + 1 \<longrightarrow> od_Deprecated (ds ! nat (s - 1))))"

text \<open>One operation on the directives, whatever its outcome.\<close>

inductive directive_step ::
    "OrgDirective ledger_format \<Rightarrow> os \<Rightarrow> string set \<Rightarrow> string \<Rightarrow> disk \<Rightarrow> disk \<Rightarrow> bool" for F S Z orgDir where
  dappend: "txt \<in> Z \<Longrightarrow> AppendOrgDirective F S env orgDir txt supersedes dk = (r, dk') \<Longrightarrow> directive_step F S Z orgDir dk dk'"
| ddeprecate: "DeprecateOrgDirective F S orgDir i dk = (r, dk') \<Longrightarrow> directive_step F S Z orgDir dk dk'"
| dupdate: "newText \<in> Z \<Longrightarrow> UpdateOrgDirective F S orgDir i newText dk = (r, dk') \<Longrightarrow> directive_step F S Z orgDir dk dk'"

lemma extends_refl [simp]: "extends ds ds" by (simp add: extends_def)

lemma extends_trans: "extends a b \<Longrightarrow> extends b c \<Longrightarrow> extends a c"
  by (auto simp: extends_def)

lemma length_deprecate [simp]: "length (deprecate_at i ds) = length ds" by (simp add: deprecate_at_def)

lemma deprecate_nth: "j < length ds \<Longrightarrow> deprecate_at i ds ! j = (if j = i then (ds ! j)\<lparr>od_Deprecated := True\<rparr> else ds ! j)"
  by (auto simp: deprecate_at_def nth_list_update)

lemma extends_deprecate: "extends ds (deprecate_at i ds)"
  by (simp add: extends_def deprecate_nth)

lemma numbered_deprecate: "well_numbered ds \<Longrightarrow> well_numbered (deprecate_at i ds)"
  by (auto simp: well_numbered_def deprecate_nth)

definition supersede :: "nat \<Rightarrow> int list \<Rightarrow> OrgDirective list \<Rightarrow> OrgDirective list" where
  "supersede n ss ds = foldl (\<lambda>ds sid. if 1 \<le> sid \<and> sid \<le> int n then deprecate_at (nat (sid - 1)) ds else ds) ds ss"

lemma supersede_nth:
  "length ds = n \<Longrightarrow> length (supersede n ss ds) = n \<and>
    (\<forall>j<n. supersede n ss ds ! j = (if int j + 1 \<in> set ss then (ds ! j)\<lparr>od_Deprecated := True\<rparr> else ds ! j))"
proof (induction ss arbitrary: ds)
  case (Cons s ss)
  show ?case
  proof (cases "1 \<le> s \<and> s \<le> int n")
    case True
    have "supersede n (s # ss) ds = supersede n ss (deprecate_at (nat (s - 1)) ds)" using True by (simp add: supersede_def)
    moreover have "j = nat (s - 1) \<longleftrightarrow> int j + 1 = s" for j using True by auto
    ultimately show ?thesis using Cons.IH [of "deprecate_at (nat (s - 1)) ds"] Cons.prems by (auto simp: deprecate_nth)
  next
    case False
    then have "supersede n (s # ss) ds = supersede n ss ds" by (auto simp: supersede_def)
    moreover have "int j + 1 \<noteq> s" if "j < n" for j using False that by auto
    ultimately show ?thesis using Cons.IH [OF Cons.prems] by simp
  qed
qed (simp add: supersede_def)

lemma with_directive_ok:
  assumes "well_numbered ds" "txt \<noteq> ''''" "with_directive now txt ss ds = (ds', d)"
  shows "well_numbered ds' \<and> extends ds ds' \<and> od_ID d = int (length ds) + 1"
proof -
  let ?d = "\<lparr>od_ID = int (length ds) + 1, od_Text = txt, od_CreatedAt = now, od_Deprecated = False, od_Supersedes = ss\<rparr>"
  let ?n = "Suc (length ds)"
  have e: "ds' = supersede ?n ss (ds @ [?d])" "d = ?d" using assms(3) by (auto simp: with_directive_def Let_def supersede_def)
  have nth: "length ds' = ?n" "\<And>j. j < ?n \<Longrightarrow>
      ds' ! j = (if int j + 1 \<in> set ss then ((ds @ [?d]) ! j)\<lparr>od_Deprecated := True\<rparr> else (ds @ [?d]) ! j)"
    using supersede_nth [of "ds @ [?d]" ?n ss] by (simp_all add: e(1))
  have old: "od_Deprecated (ds ! j) \<longrightarrow> od_Deprecated (ds' ! j)" if "j < length ds" for j
    using nth(2) [of j] that by (simp add: nth_append)
  have "well_numbered ds'"
    unfolding well_numbered_def
  proof (intro allI impI conjI ballI)
    fix i assume i: "i < length ds'"
    show "od_ID (ds' ! i) = int i + 1" "od_Text (ds' ! i) \<noteq> ''''"
      using nth i assms(1,2) by (auto simp: well_numbered_def nth_append less_Suc_eq)
    fix s assume s: "s \<in> set (od_Supersedes (ds' ! i))" "1 \<le> s \<and> s \<le> int i + 1"
    then have j: "nat (s - 1) < ?n" "int (nat (s - 1)) + 1 = s" using i nth(1) by auto
    show "od_Deprecated (ds' ! nat (s - 1))"
    proof (cases "i < length ds")
      case True
      then have "od_Supersedes (ds' ! i) = od_Supersedes (ds ! i)" using nth(2) [of i] by (simp add: nth_append)
      then have "od_Deprecated (ds ! nat (s - 1))" using assms(1) True s by (auto simp: well_numbered_def)
      moreover have "nat (s - 1) < length ds" using s(2) True by linarith
      ultimately show ?thesis using old by blast
    next
      case False
      then have "od_Supersedes (ds' ! i) = ss" using nth i by (auto simp: nth_append less_Suc_eq)
      then show ?thesis using nth(2) [OF j(1)] s(1) j(2) by simp
    qed
  qed
  moreover have "extends ds ds'" using nth old by (auto simp: extends_def nth_append)
  ultimately show ?thesis by (simp add: e(2))
qed

lemma with_directive_in:
  assumes "directive_in Z ds" "txt \<in> Z" "with_directive now txt ss ds = (ds', d)"
  shows "directive_in Z ds'"
proof -
  let ?d = "\<lparr>od_ID = int (length ds) + 1, od_Text = txt, od_CreatedAt = now, od_Deprecated = False, od_Supersedes = ss\<rparr>"
  have e: "ds' = supersede (Suc (length ds)) ss (ds @ [?d])" using assms(3) by (auto simp: with_directive_def Let_def supersede_def)
  show ?thesis
    unfolding directive_in_def all_set_conv_all_nth
  proof (intro allI impI)
    fix i assume "i < length ds'"
    then have "od_Text (ds' ! i) = od_Text ((ds @ [?d]) ! i)" "(ds @ [?d]) ! i \<in> set (ds @ [?d])"
      using supersede_nth [of "ds @ [?d]" "Suc (length ds)" ss] unfolding e by (simp_all del: set_append)
    then show "od_Text (ds' ! i) \<in> Z" using assms(1,2) by (auto simp: directive_in_def)
  qed
qed

lemma deprecate_in: "directive_in Z ds \<Longrightarrow> directive_in Z (deprecate_at i ds)"
  by (auto simp: directive_in_def all_set_conv_all_nth deprecate_nth)

lemma reworded_ok:
  assumes "well_numbered ds" "directive_in Z ds" "t \<noteq> ''''" "t \<in> Z"
  shows "well_numbered (ds[k := (ds ! k)\<lparr>od_Text := t\<rparr>]) \<and> directive_in Z (ds[k := (ds ! k)\<lparr>od_Text := t\<rparr>]) \<and>
    extends ds (ds[k := (ds ! k)\<lparr>od_Text := t\<rparr>])"
proof (cases "k < length ds")
  case True
  have n: "j < length ds \<Longrightarrow> ds[k := (ds ! k)\<lparr>od_Text := t\<rparr>] ! j = (if j = k then (ds ! j)\<lparr>od_Text := t\<rparr> else ds ! j)" for j
    by (auto simp: nth_list_update)
  have d: "j < length ds \<Longrightarrow> od_Deprecated (ds[k := (ds ! k)\<lparr>od_Text := t\<rparr>] ! j) = od_Deprecated (ds ! j)" for j
    by (simp add: n)
  have "well_numbered (ds[k := (ds ! k)\<lparr>od_Text := t\<rparr>])"
    unfolding well_numbered_def
  proof (intro allI impI conjI ballI)
    fix i s assume i: "i < length (ds[k := (ds ! k)\<lparr>od_Text := t\<rparr>])"
    show "od_ID (ds[k := (ds ! k)\<lparr>od_Text := t\<rparr>] ! i) = int i + 1" "od_Text (ds[k := (ds ! k)\<lparr>od_Text := t\<rparr>] ! i) \<noteq> ''''"
      using i assms(1,3) by (simp_all add: n well_numbered_def)
    assume "s \<in> set (od_Supersedes (ds[k := (ds ! k)\<lparr>od_Text := t\<rparr>] ! i))" "1 \<le> s \<and> s \<le> int i + 1"
    then have "s \<in> set (od_Supersedes (ds ! i))" "nat (s - 1) < length ds" "1 \<le> s \<and> s \<le> int i + 1"
      using i by (auto simp: n split: if_splits)
    then show "od_Deprecated (ds[k := (ds ! k)\<lparr>od_Text := t\<rparr>] ! nat (s - 1))"
      using d assms(1) i by (simp add: well_numbered_def)
  qed
  then show ?thesis
    using assms(2,4) by (auto simp: directive_in_def all_set_conv_all_nth n extends_def)
qed (use assms in \<open>simp add: list_update_beyond\<close>)

text \<open>One operation keeps the ledger readable and well_numbered, and only extends it.\<close>

locale directive_ledger = json_ledger F "directive_in Z" for F :: "OrgDirective ledger_format" and Z
begin

lemma directive_edit:
  assumes "ledger_edit F S path f dk = (r, dk')" "os_read S path = None" "ledger_load F S path dk = Inr ds"
    and "\<And>ds' x. f ds = Inr (ds', x) \<Longrightarrow> well_numbered ds' \<and> directive_in Z ds' \<and> extends ds ds'"
    and "well_numbered ds" "directive_in Z ds"
  shows "\<exists>ds'. ledger_load F S path dk' = Inr ds' \<and> well_numbered ds' \<and> directive_in Z ds' \<and> extends ds ds'"
proof -
  obtain g where g: "g = (\<lambda>xs. if xs = ds then f xs else Inl NotExist)" by simp
  have same: "ledger_edit F S path g dk = (r, dk')" using assms(1,3) by (simp add: ledger_edit_def g)
  have keep: "\<forall>xs ds' x. g xs = Inr (ds', x) \<longrightarrow> directive_in Z ds'" using assms(4) by (auto simp: g)
  from edit_cases [OF same assms(2) keep] show ?thesis
    using assms(3-6) by (auto simp: g)
qed

lemma directive_step_ok:
  assumes "directive_step F S Z orgDir dk dk'" "os_read S (path_join [orgDir, orgDirectivesFile]) = None"
    and "ledger_load F S (path_join [orgDir, orgDirectivesFile]) dk = Inr ds" "well_numbered ds" "directive_in Z ds"
  shows "\<exists>ds'. ledger_load F S (path_join [orgDir, orgDirectivesFile]) dk' = Inr ds' \<and> well_numbered ds' \<and> directive_in Z ds' \<and> extends ds ds'"
  using assms(1)
proof cases
  case (dappend t env ss r)
  show ?thesis
  proof (cases "orgDir = '''' \<or> t = ''''")
    case True
    then show ?thesis using dappend assms(3-5) by (auto simp: AppendOrgDirective_def split: if_splits)
  next
    case False
    then have e: "ledger_edit F S (path_join [orgDir, orgDirectivesFile]) (\<lambda>all. Inr (with_directive (fe_now env) t ss all)) dk = (r, dk')"
      using dappend(2) by (simp add: AppendOrgDirective_def)
    show ?thesis
      by (rule directive_edit [OF e assms(2,3) _ assms(4,5)])
        (use with_directive_ok [OF assms(4)] with_directive_in [OF assms(5) dappend(1)] False in auto)
  qed
next
  case (ddeprecate i r)
  show ?thesis
  proof (cases "orgDir = '''' \<or> i < 1")
    case True
    then show ?thesis using ddeprecate assms(3-5) by (auto simp: DeprecateOrgDirective_def)
  next
    case False
    then have e: "ledger_edit F S (path_join [orgDir, orgDirectivesFile])
        (\<lambda>all. if i > int (length all) then Inl ErrOrgDirectiveNotFound
               else if od_Deprecated (all ! nat (i - 1)) then Inl ErrOrgDirectiveAlreadyDeprecated
               else Inr (deprecate_at (nat (i - 1)) all, ())) dk = (r, dk')"
      using ddeprecate by (simp add: DeprecateOrgDirective_def)
    show ?thesis
      by (rule directive_edit [OF e assms(2,3) _ assms(4,5)])
        (use numbered_deprecate [OF assms(4)] deprecate_in [OF assms(5)] extends_deprecate in \<open>auto split: if_splits\<close>)
  qed
next
  case (dupdate t i r)
  show ?thesis
  proof (cases "orgDir = '''' \<or> i < 1 \<or> t = ''''")
    case True
    then show ?thesis using dupdate assms(3-5) by (auto simp: UpdateOrgDirective_def)
  next
    case False
    then have e: "ledger_edit F S (path_join [orgDir, orgDirectivesFile])
        (\<lambda>all. if i > int (length all) then Inl ErrOrgDirectiveNotFound
               else Inr (all[nat (i - 1) := (all ! nat (i - 1))\<lparr>od_Text := t\<rparr>], ())) dk = (r, dk')"
      using dupdate by (simp add: UpdateOrgDirective_def)
    show ?thesis
      by (rule directive_edit [OF e assms(2,3) _ assms(4,5)])
        (use reworded_ok [OF assms(4,5) _ dupdate(1)] False in \<open>auto split: if_splits\<close>)
  qed
qed

lemma directive_steps_ok:
  assumes "(directive_step F S Z orgDir)\<^sup>*\<^sup>* dk dk'" "os_read S (path_join [orgDir, orgDirectivesFile]) = None"
    and "ledger_load F S (path_join [orgDir, orgDirectivesFile]) dk = Inr ds" "well_numbered ds" "directive_in Z ds"
  shows "\<exists>ds'. ledger_load F S (path_join [orgDir, orgDirectivesFile]) dk' = Inr ds' \<and> well_numbered ds' \<and> directive_in Z ds' \<and> extends ds ds'"
  using assms(1)
proof induction
  case base
  then show ?case using assms by auto
next
  case (step dk1 dk2)
  then obtain ds1 where d1: "ledger_load F S (path_join [orgDir, orgDirectivesFile]) dk1 = Inr ds1" "well_numbered ds1" "directive_in Z ds1" "extends ds ds1"
    by blast
  from directive_step_ok [OF step.hyps(2) assms(2) d1(1-3)] d1(4) show ?case using extends_trans by blast
qed

end

lemma directives_format_simps [simp]: "lf_json (directives_format C) = C" "lf_name (directives_format C) = ''org_directives''"
  by (simp_all add: directives_format_def)

lemma directives_format_mark: "lf_open (directives_format C) \<noteq> ''''" "hd (lf_open (directives_format C)) \<notin> set (lf_header (directives_format C))"
  by (simp_all add: directives_format_def text_lines_def code_cell_def dquote_def line_end_def newline_def)

text \<open>
  C39: Whatever directives are appended, reworded and deprecated, and whatever writes fail: the
  directive at position \<open>i\<close> has number \<open>i\<close> and a text, what a directive supersedes is deprecated;
  and later the ledger still holds it under its number, deprecated if it was.
\<close>

theorem org_directives_numbered:
  assumes "json_codec C (directive_in Z)" "\<And>ds s. jc_enc C ds = Inr s \<Longrightarrow> CHR ''>'' \<notin> set s"
    and "os_read S (path_join [orgDir, orgDirectivesFile]) = None" "orgDir \<noteq> ''''"
    and "ListOrgDirectives (directives_format C) S orgDir dk0 = Inr []"
    and "(directive_step (directives_format C) S Z orgDir)\<^sup>*\<^sup>* dk0 dk1" "(directive_step (directives_format C) S Z orgDir)\<^sup>*\<^sup>* dk1 dk2"
  shows "\<exists>ds1 ds2. ListOrgDirectives (directives_format C) S orgDir dk1 = Inr ds1 \<and> well_numbered ds1 \<and>
    ListOrgDirectives (directives_format C) S orgDir dk2 = Inr ds2 \<and> extends ds1 ds2"
proof -
  have l: "directive_ledger (directives_format C) Z"
    by (intro directive_ledger.intro json_ledger.intro) (use assms(1,2) directives_format_mark in simp_all)
  note steps = directive_ledger.directive_steps_ok [OF l _ assms(3)]
  have e: "well_numbered []" "directive_in Z []" by (simp_all add: well_numbered_def directive_in_def)
  obtain ds1 where d1: "ledger_load (directives_format C) S (path_join [orgDir, orgDirectivesFile]) dk1 = Inr ds1"
      "well_numbered ds1" "directive_in Z ds1"
    using steps [OF assms(6) _ e] assms(4,5) by (auto simp: ListOrgDirectives_def)
  show ?thesis using steps [OF assms(7) d1] d1 assms(4) by (auto simp: ListOrgDirectives_def)
qed

section \<open>An instance of the directives\<close>

definition directive_texts :: "OrgDirective \<Rightarrow> string list" where
  "directive_texts d = [dec_int (od_ID d), od_Text d, dec_int (od_CreatedAt d), (if od_Deprecated d then ''1'' else ''''),
     strings_text (List.map dec_int (od_Supersedes d))]"

definition directive_of_texts :: "string list \<Rightarrow> OrgDirective" where
  "directive_of_texts ws =
     (case ws of
        [w0, w1, w2, w3, w4] \<Rightarrow>
          \<lparr>od_ID = int_of_text w0, od_Text = w1, od_CreatedAt = int_of_text w2, od_Deprecated = (w3 \<noteq> ''''),
           od_Supersedes = List.map int_of_text (strings_of_text w4)\<rparr>
      | _ \<Rightarrow> \<lparr>od_ID = 0, od_Text = '''', od_CreatedAt = 0, od_Deprecated = False, od_Supersedes = []\<rparr>)"

definition directives_codec :: "OrgDirective list codec_of" where
  "directives_codec = list_via directive_texts directive_of_texts"

lemma directive_texts_read: "directive_of_texts (directive_texts d) = d"
  by (cases d) (simp add: directive_texts_def directive_of_texts_def comp_def)

lemma directives_codec_json: "json_codec directives_codec keeps"
  unfolding directives_codec_def by (rule list_via_codec) (rule directive_texts_read)

lemma directives_codec_bracket: "jc_enc directives_codec x = Inr s \<Longrightarrow> CHR ''>'' \<notin> set s"
  unfolding directives_codec_def by (rule list_via_bracket)

interpretation ldirectives: directive_ledger "directives_format directives_codec" UNIV
  by (intro directive_ledger.intro json_ledger.intro)
    (use directives_codec_json directives_format_mark directives_codec_bracket in simp_all)

abbreviation demo_directives :: "OrgDirective ledger_format" where "demo_directives \<equiv> directives_format directives_codec"

lemma good_directive_edit:
  assumes "ledger_load demo_directives good_os p dk = Inr all" "f all = Inr (all', x)"
  shows "\<exists>dk'. ledger_edit demo_directives good_os p f dk = (Inr x, dk') \<and> ledger_load demo_directives good_os p dk' = Inr all'"
proof -
  obtain s where s: "jc_enc directives_codec all' = Inr s"
    using json_codec.enc_ok [OF directives_codec_json, of "\<lambda>_. True" all'] by auto
  obtain dk' where w: "ledger_write demo_directives good_os p all' dk = (None, dk')"
    using s by (auto simp: ledger_write_def replace_file_def write_file_def Let_def)
  then have "ledger_load demo_directives good_os p dk' = Inr all'" by (rule ldirectives.write_load) (simp_all add: directive_in_def)
  then show ?thesis using assms w by (simp add: ledger_edit_def)
qed

text \<open>Two directives, the second superseding the first.\<close>

theorem org_directives_numbered_witness:
  "\<exists>dk1 dk2 a b. (directive_step demo_directives good_os UNIV ''/o'')\<^sup>*\<^sup>* dk1 dk2 \<and>
     ListOrgDirectives demo_directives good_os ''/o'' dk1 = Inr [a] \<and> \<not> od_Deprecated a \<and>
     ListOrgDirectives demo_directives good_os ''/o'' dk2 = Inr [a\<lparr>od_Deprecated := True\<rparr>, b] \<and>
     well_numbered [a] \<and> extends [a] [a\<lparr>od_Deprecated := True\<rparr>, b]"
proof -
  let ?load = "ledger_load demo_directives good_os (path_join [''/o'', orgDirectivesFile])"
  let ?step = "directive_step demo_directives good_os UNIV ''/o''"
  let ?a = "\<lparr>od_ID = 1, od_Text = ''a'', od_CreatedAt = 7, od_Deprecated = False, od_Supersedes = []\<rparr>"
  let ?b = "\<lparr>od_ID = 2, od_Text = ''b'', od_CreatedAt = 7, od_Deprecated = False, od_Supersedes = [1]\<rparr>"
  have l0: "?load (\<lambda>_. None) = Inr []" by (simp add: ledger_load_def read_file_def)
  obtain dk1 where d1: "AppendOrgDirective demo_directives good_os demo_env ''/o'' ''a'' [] (\<lambda>_. None) = (Inr ?a, dk1)" "?load dk1 = Inr [?a]"
    using good_directive_edit [OF l0, of "\<lambda>all. Inr (with_directive 7 ''a'' [] all)" "[?a]" ?a]
    by (auto simp: AppendOrgDirective_def with_directive_def Let_def demo_env_def)
  obtain dk2 where d2: "AppendOrgDirective demo_directives good_os demo_env ''/o'' ''b'' [1] dk1 = (Inr ?b, dk2)"
      "?load dk2 = Inr [?a\<lparr>od_Deprecated := True\<rparr>, ?b]"
    using good_directive_edit [OF d1(2), of "\<lambda>all. Inr (with_directive 7 ''b'' [1] all)" "[?a\<lparr>od_Deprecated := True\<rparr>, ?b]" ?b]
    by (auto simp: AppendOrgDirective_def with_directive_def Let_def deprecate_at_def demo_env_def)
  have s1: "?step\<^sup>*\<^sup>* (\<lambda>_. None) dk1" by (rule r_into_rtranclp, rule dappend [OF _ d1(1)]) simp
  have s2: "?step\<^sup>*\<^sup>* dk1 dk2" by (rule r_into_rtranclp, rule dappend [OF _ d2(1)]) simp
  have lists: "ListOrgDirectives demo_directives good_os ''/o'' (\<lambda>_. None) = Inr []"
    "ListOrgDirectives demo_directives good_os ''/o'' dk1 = Inr [?a]"
    "ListOrgDirectives demo_directives good_os ''/o'' dk2 = Inr [?a\<lparr>od_Deprecated := True\<rparr>, ?b]"
    by (simp_all add: ListOrgDirectives_def l0 d1(2) d2(2))
  have "\<exists>ds1 ds2. ListOrgDirectives demo_directives good_os ''/o'' dk1 = Inr ds1 \<and> well_numbered ds1 \<and>
      ListOrgDirectives demo_directives good_os ''/o'' dk2 = Inr ds2 \<and> extends ds1 ds2"
    by (rule org_directives_numbered [OF directives_codec_json directives_codec_bracket _ _ lists(1) s1 s2])
      simp_all
  then have "well_numbered [?a]" "extends [?a] [?a\<lparr>od_Deprecated := True\<rparr>, ?b]" by (simp_all add: lists)
  then show ?thesis using s2 lists by (intro exI [of _ dk1] exI [of _ dk2] exI [of _ ?a] exI [of _ ?b]) auto
qed

section \<open>What the operations do not prevent\<close>

text \<open>
  A directive that names its own number among those it supersedes is stored deprecated, while the
  copy handed back says it is active.
\<close>

lemma supersedes_itself:
  "with_directive 7 ''a'' [1] [] = ([\<lparr>od_ID = 1, od_Text = ''a'', od_CreatedAt = 7, od_Deprecated = True, od_Supersedes = [1]\<rparr>],
     \<lparr>od_ID = 1, od_Text = ''a'', od_CreatedAt = 7, od_Deprecated = False, od_Supersedes = [1]\<rparr>)"
  by (simp add: with_directive_def deprecate_at_def)

text \<open>A proposal is resolved once, and so is a debt unless it was resolved at the zero time; an unknown identifier is refused.\<close>

lemma map_sum_Inr: "map_sum id f r = Inr y \<Longrightarrow> \<exists>x. r = Inr x \<and> y = f x"
  by (cases r) auto

lemma resolved_once:
  "resolve_first now i status who note ps = Inr ps' \<Longrightarrow> status \<noteq> ''pending'' \<Longrightarrow>
    resolve_first now' i status' who' note' ps' = Inl ErrProposalAlreadyResolved"
  by (induction ps arbitrary: ps') (auto split: if_splits dest!: map_sum_Inr)

lemma settled_once:
  "settle_first now i who note es = Inr es' \<Longrightarrow> now \<noteq> 0 \<Longrightarrow> settle_first now' i who' note' es' = Inl ErrOrgDebtAlreadyResolved"
  by (induction es arbitrary: es') (auto split: if_splits dest!: map_sum_Inr)

lemma resolve_unknown: "resolve_first now i status who note ps = Inl ErrProposalNotFound \<longleftrightarrow> i \<notin> cp_ID ` set ps"
proof (induction ps)
  case (Cons p ps)
  then show ?case by (cases "resolve_first now i status who note ps") (auto simp: ErrProposalNotFound_def ErrProposalAlreadyResolved_def)
qed simp

text \<open>Only the first entry with an identifier can be resolved: a second one, from an equal random suffix on one day, stays pending.\<close>

lemma twin_proposal_stuck:
  assumes "resolve_first now i status who note (p # ps) = Inr ps'" "cp_ID p = i"
  shows "tl ps' = ps"
  using assms by (auto split: if_splits)

end
