(* ===== verification/Fed_Sync.thy ===== *)
theory Fed_Sync
  imports Neo_Disk
begin

text \<open>
  The mirror of an organisation's directive files in a workspace,
  \<^verbatim>\<open>pkg/federation/org_directives_sync.go\<close>. What \<^verbatim>\<open>filepath.WalkDir\<close> visits, with the error of a
  visit, which paths are directories and the names found in the rules directory are arguments.
\<close>

section \<open>Copying\<close>

record SyncResult =
  sr_Copied :: nat
  sr_Skipped :: nat
  sr_OrphansDetected :: "string list"

record visit =
  vi_path :: string
  vi_dir :: bool
  vi_err :: "error option"

definition orgDirectivesSubdir :: string where "orgDirectivesSubdir = ''knowledge/directives''"
definition orgRulePrefix :: string where "orgRulePrefix = ''org-''"

definition ErrOrgDirectivesDirMissing :: error where
  "ErrOrgDirectivesDirMissing = Err ''org: knowledge/directives/ not present''"

definition bytesEqual :: "string \<Rightarrow> string \<Rightarrow> bool" where
  "bytesEqual a b \<longleftrightarrow> length a = length b \<and> list_all (\<lambda>i. a ! i = b ! i) [0..<length a]"

definition copyIfDifferent :: "os \<Rightarrow> string \<Rightarrow> string \<Rightarrow> SyncResult \<times> disk \<Rightarrow> error option \<times> SyncResult \<times> disk" where
  "copyIfDifferent S src dst = (\<lambda>(r, dk).
     (case read_file S src dk of
        Inl e \<Rightarrow> (Some (Wrap (''read src '' @ src @ '': '') e), r, dk)
      | Inr srcData \<Rightarrow>
          if (case read_file S dst dk of Inl _ \<Rightarrow> False | Inr existing \<Rightarrow> bytesEqual existing srcData)
          then (None, r\<lparr>sr_Skipped := sr_Skipped r + 1\<rparr>, dk)
          else (case write_file S dst srcData dk of
              (Some e, dk') \<Rightarrow> (Some (Wrap (''write dst '' @ dst @ '': '') e), r, dk')
            | (None, dk') \<Rightarrow> (None, r\<lparr>sr_Copied := sr_Copied r + 1\<rparr>, dk'))))"

definition rule_file :: "string \<Rightarrow> string \<Rightarrow> string" where
  "rule_file dstDir src = path_join [dstDir, orgRulePrefix @ base_of src]"

definition mirrored :: "visit \<Rightarrow> bool" where
  "mirrored v \<longleftrightarrow> \<not> (vi_dir v \<or> \<not> has_suffix (base_of (vi_path v)) ''.md'')"

fun sync_walk :: "os \<Rightarrow> string \<Rightarrow> visit list \<Rightarrow> SyncResult \<times> disk \<Rightarrow> error option \<times> SyncResult \<times> disk" where
  "sync_walk S dstDir [] s = (None, s)"
| "sync_walk S dstDir (v # vs) s =
     (case vi_err v of
        Some e \<Rightarrow> (Some e, s)
      | None \<Rightarrow>
          if \<not> mirrored v then sync_walk S dstDir vs s
          else (case copyIfDifferent S (vi_path v) (rule_file dstDir (vi_path v)) s of
              (Some e, s') \<Rightarrow> (Some e, s')
            | (None, s') \<Rightarrow> sync_walk S dstDir vs s'))"

definition detectOrphanRules :: "(string \<Rightarrow> bool) \<Rightarrow> (error + string list) \<Rightarrow> string \<Rightarrow> disk \<Rightarrow> string list" where
  "detectOrphanRules is_dir names srcDir dk =
     (case names of
        Inl _ \<Rightarrow> []
      | Inr ns \<Rightarrow> filter (\<lambda>name. has_prefix name orgRulePrefix \<and> has_suffix name ''.md'' \<and>
          (let p = path_join [srcDir, trim_prefix name orgRulePrefix] in dk p = None \<and> \<not> is_dir p)) ns)"

definition SyncOrgDirectivesToWorkspace ::
    "os \<Rightarrow> (string \<Rightarrow> bool) \<Rightarrow> visit list \<Rightarrow> (disk \<Rightarrow> error + string list) \<Rightarrow> string \<Rightarrow> string \<Rightarrow> disk \<Rightarrow> (error + SyncResult) \<times> disk" where
  "SyncOrgDirectivesToWorkspace S is_dir visits names orgDir workspaceDir dk =
     (if orgDir = '''' \<or> workspaceDir = '''' then (Inl (Err ''org_directives_sync: empty orgDir or workspaceDir''), dk)
      else let srcDir = path_join [orgDir, orgDirectivesSubdir]; dstDir = path_join [workspaceDir, ''.claude'', ''rules'']
      in if \<not> is_dir srcDir then (Inl ErrOrgDirectivesDirMissing, dk)
      else case os_mkdir S dstDir of
        Some e \<Rightarrow> (Inl (Wrap ''org_directives_sync: mkdir dst: '' e), dk)
      | None \<Rightarrow> (case sync_walk S dstDir visits (\<lparr>sr_Copied = 0, sr_Skipped = 0, sr_OrphansDetected = []\<rparr>, dk) of
            (Some e, _, dk') \<Rightarrow> (Inl e, dk')
          | (None, r, dk') \<Rightarrow> (Inr (r\<lparr>sr_OrphansDetected := detectOrphanRules is_dir (names dk') srcDir dk'\<rparr>), dk')))"

section \<open>The rules mirror the directives\<close>

lemma bytesEqual_iff: "bytesEqual a b \<longleftrightarrow> a = b"
  by (auto simp: bytesEqual_def list_all_iff intro: nth_equalityI)

abbreviation rule_files :: "string \<Rightarrow> visit list \<Rightarrow> string list" where
  "rule_files dstDir vs \<equiv> List.map (\<lambda>v. rule_file dstDir (vi_path v)) (filter mirrored vs)"

abbreviation sources :: "visit list \<Rightarrow> string set" where
  "sources vs \<equiv> vi_path ` set (filter mirrored vs)"

lemma copy_ok:
  assumes "copyIfDifferent S src dst (r, dk) = (None, r', dk')"
  shows "dk src \<noteq> None \<and> dk' = dk(dst := dk src)"
  using assms by (auto simp: copyIfDifferent_def bytesEqual_iff read_file_def write_file_def fun_upd_idem
      split: option.splits sum.splits if_splits)

lemma copy_same:
  assumes "dk src = Some s" "dk dst = Some s" "os_read S src = None" "os_read S dst = None"
  shows "copyIfDifferent S src dst (r, dk) = (None, r\<lparr>sr_Skipped := sr_Skipped r + 1\<rparr>, dk)"
  using assms by (simp add: copyIfDifferent_def bytesEqual_iff read_file_def)

text \<open>A walk that ends without an error leaves in each rules file the text of its source.\<close>

lemma walk_ok:
  assumes "sync_walk S dstDir vs (r, dk) = (None, r', dk')" "distinct (rule_files dstDir vs)"
    "set (rule_files dstDir vs) \<inter> sources vs = {}"
  shows "(\<forall>v\<in>set vs. vi_err v = None) \<and>
    (\<forall>v\<in>set (filter mirrored vs). dk' (rule_file dstDir (vi_path v)) = dk (vi_path v) \<and> dk (vi_path v) \<noteq> None) \<and>
    (\<forall>p. p \<notin> set (rule_files dstDir vs) \<longrightarrow> dk' p = dk p)"
  using assms
proof (induction vs arbitrary: r dk)
  case (Cons v vs)
  have e: "vi_err v = None" using Cons.prems(1) by (auto split: option.splits)
  show ?case
  proof (cases "mirrored v")
    case False
    then show ?thesis using Cons e by simp
  next
    case True
    obtain r1 dk1 where c: "copyIfDifferent S (vi_path v) (rule_file dstDir (vi_path v)) (r, dk) = (None, r1, dk1)"
      "sync_walk S dstDir vs (r1, dk1) = (None, r', dk')"
      using Cons.prems(1) e True by (auto split: option.splits prod.splits)
    note c1 = copy_ok [OF c(1)]
    have s: "distinct (rule_files dstDir vs)" "set (rule_files dstDir vs) \<inter> sources vs = {}"
      "rule_file dstDir (vi_path v) \<notin> set (rule_files dstDir vs)" "rule_file dstDir (vi_path v) \<notin> sources vs"
      using Cons.prems(2,3) True by auto
    have same: "dk1 (vi_path u) = dk (vi_path u)" if "u \<in> set (filter mirrored vs)" for u
    proof -
      have "vi_path u \<noteq> rule_file dstDir (vi_path v)" using s(4) imageI [OF that, of vi_path] by metis
      then show ?thesis using c1 by simp
    qed
    from Cons.IH [OF c(2) s(1,2)] show ?thesis using c1 s(3) same e True by auto
  qed
qed simp

lemma walk_again:
  assumes "\<forall>v\<in>set vs. vi_err v = None"
    "\<forall>v\<in>set (filter mirrored vs). dk (vi_path v) \<noteq> None \<and> dk (rule_file dstDir (vi_path v)) = dk (vi_path v) \<and>
      os_read S (vi_path v) = None \<and> os_read S (rule_file dstDir (vi_path v)) = None"
  shows "sync_walk S dstDir vs (r, dk) = (None, r\<lparr>sr_Skipped := sr_Skipped r + length (filter mirrored vs)\<rparr>, dk)"
  using assms
proof (induction vs arbitrary: r)
  case (Cons v vs)
  show ?case
  proof (cases "mirrored v")
    case False
    then show ?thesis using Cons by simp
  next
    case True
    then obtain s where "dk (vi_path v) = Some s" using Cons.prems(2) by auto
    then have "copyIfDifferent S (vi_path v) (rule_file dstDir (vi_path v)) (r, dk) = (None, r\<lparr>sr_Skipped := sr_Skipped r + 1\<rparr>, dk)"
      using Cons.prems(2) True by (intro copy_same) auto
    then show ?thesis using Cons True by simp
  qed
qed simp

text \<open>
  C40: When no two directive files of the organisation have the same base name, a synchronisation
  that reports success leaves every rules file equal to its directive and every other file as it
  was, and doing it again copies nothing.
\<close>

theorem org_sync_mirrors:
  assumes "SyncOrgDirectivesToWorkspace S is_dir visits names orgDir workspaceDir dk = (Inr r, dk')"
    and "dstDir = path_join [workspaceDir, ''.claude'', ''rules'']"
    and "distinct (rule_files dstDir visits)" "set (rule_files dstDir visits) \<inter> sources visits = {}"
    and "os_read S = (\<lambda>_. None)"
  shows "(\<forall>v\<in>set (filter mirrored visits). dk' (rule_file dstDir (vi_path v)) = dk (vi_path v) \<and> dk (vi_path v) \<noteq> None) \<and>
    (\<forall>p. p \<notin> set (rule_files dstDir visits) \<longrightarrow> dk' p = dk p) \<and>
    SyncOrgDirectivesToWorkspace S is_dir visits names orgDir workspaceDir dk' =
      (Inr (r\<lparr>sr_Copied := 0, sr_Skipped := length (filter mirrored visits)\<rparr>), dk')"
proof -
  let ?r0 = "\<lparr>sr_Copied = 0, sr_Skipped = 0, sr_OrphansDetected = []\<rparr>"
  obtain r1 where w: "sync_walk S dstDir visits (?r0, dk) = (None, r1, dk')"
    "r = r1\<lparr>sr_OrphansDetected := detectOrphanRules is_dir (names dk') (path_join [orgDir, orgDirectivesSubdir]) dk'\<rparr>"
    "\<not> (orgDir = '''' \<or> workspaceDir = '''')" "is_dir (path_join [orgDir, orgDirectivesSubdir])" "os_mkdir S dstDir = None"
    using assms(1) unfolding SyncOrgDirectivesToWorkspace_def Let_def assms(2) [symmetric]
    by (auto split: if_splits option.splits prod.splits)
  note ok = walk_ok [OF w(1) assms(3,4)]
  have src: "dk' (vi_path v) = dk (vi_path v)" if "v \<in> set (filter mirrored visits)" for v
  proof -
    have "vi_path v \<notin> set (rule_files dstDir visits)" using assms(4) imageI [OF that, of vi_path] by blast
    then show ?thesis using ok by blast
  qed
  have "sync_walk S dstDir visits (?r0, dk') = (None, ?r0\<lparr>sr_Skipped := 0 + length (filter mirrored visits)\<rparr>, dk')"
    using ok src assms(5) by (subst walk_again) auto
  then have "SyncOrgDirectivesToWorkspace S is_dir visits names orgDir workspaceDir dk' =
      (Inr (r\<lparr>sr_Copied := 0, sr_Skipped := length (filter mirrored visits)\<rparr>), dk')"
    using w unfolding SyncOrgDirectivesToWorkspace_def Let_def assms(2) [symmetric] by simp
  then show ?thesis using ok by blast
qed

definition demo_visit :: "string \<Rightarrow> visit" where
  "demo_visit p = \<lparr>vi_path = p, vi_dir = False, vi_err = None\<rparr>"

lemma org_sync_demo:
  "rule_file ''w/.claude/rules'' ''o/a.md'' = ''w/.claude/rules/org-a.md''" "mirrored (demo_visit ''o/a.md'')"
  "path_join [''w'', ''.claude'', ''rules''] = ''w/.claude/rules''"
  by code_simp+

theorem org_sync_mirrors_witness:
  "\<exists>r dk'. SyncOrgDirectivesToWorkspace good_os (\<lambda>_. True) [demo_visit ''o/a.md''] (\<lambda>_. Inr []) ''o'' ''w'' [''o/a.md'' \<mapsto> ''t''] = (Inr r, dk') \<and>
     sr_Copied r = 1 \<and> dk' ''w/.claude/rules/org-a.md'' = Some ''t'' \<and>
     fst (SyncOrgDirectivesToWorkspace good_os (\<lambda>_. True) [demo_visit ''o/a.md''] (\<lambda>_. Inr []) ''o'' ''w'' dk') =
       Inr \<lparr>sr_Copied = 0, sr_Skipped = 1, sr_OrphansDetected = []\<rparr>"
proof -
  let ?dk = "[''o/a.md'' \<mapsto> ''t'']" and ?vs = "[demo_visit ''o/a.md'']"
  have p: "vi_path (demo_visit p) = p" "vi_err (demo_visit p) = None" for p by (simp_all add: demo_visit_def)
  obtain r dk' where s: "SyncOrgDirectivesToWorkspace good_os (\<lambda>_. True) ?vs (\<lambda>_. Inr []) ''o'' ''w'' ?dk = (Inr r, dk')"
    "sr_Copied r = 1" "sr_OrphansDetected r = []"
    by (simp add: SyncOrgDirectivesToWorkspace_def org_sync_demo p copyIfDifferent_def read_file_def write_file_def
        detectOrphanRules_def Let_def)
  have e: "os_read good_os = (\<lambda>_. None)" by (rule ext) simp
  have "dk' ''w/.claude/rules/org-a.md'' = ?dk ''o/a.md'' \<and>
      SyncOrgDirectivesToWorkspace good_os (\<lambda>_. True) ?vs (\<lambda>_. Inr []) ''o'' ''w'' dk' =
        (Inr (r\<lparr>sr_Copied := 0, sr_Skipped := 1\<rparr>), dk')"
    using org_sync_mirrors [OF s(1) org_sync_demo(3) [symmetric] _ _ e] by (simp add: org_sync_demo p)
  then show ?thesis using s by (intro exI [of _ r] exI [of _ dk']) (cases r; simp)
qed

section \<open>Files of the same name\<close>

text \<open>
  The walk enters the directories below, but the rules file is named after the base name alone:
  of two files with one name the later wins, each synchronisation copies both again, and a file
  of a directory below is reported as an orphan as soon as it is copied.
\<close>

lemma same_name_flaps:
  "\<exists>dk'. sync_walk good_os ''w'' [demo_visit ''o/a.md'', demo_visit ''o/b/a.md''] (\<lparr>sr_Copied = 0, sr_Skipped = 0, sr_OrphansDetected = []\<rparr>,
      [''o/a.md'' \<mapsto> ''x'', ''o/b/a.md'' \<mapsto> ''y'']) = (None, \<lparr>sr_Copied = 2, sr_Skipped = 0, sr_OrphansDetected = []\<rparr>, dk') \<and>
    dk' ''w/org-a.md'' = Some ''y'' \<and>
    fst (snd (sync_walk good_os ''w'' [demo_visit ''o/a.md'', demo_visit ''o/b/a.md'']
      (\<lparr>sr_Copied = 0, sr_Skipped = 0, sr_OrphansDetected = []\<rparr>, dk'))) = \<lparr>sr_Copied = 2, sr_Skipped = 0, sr_OrphansDetected = []\<rparr>"
proof -
  have r: "rule_file ''w'' ''o/a.md'' = ''w/org-a.md''" "rule_file ''w'' ''o/b/a.md'' = ''w/org-a.md''"
    "mirrored (demo_visit ''o/a.md'')" "mirrored (demo_visit ''o/b/a.md'')"
    by code_simp+
  have p: "vi_path (demo_visit p) = p" "vi_err (demo_visit p) = None" for p by (simp_all add: demo_visit_def)
  show ?thesis by (simp add: r p copyIfDifferent_def read_file_def write_file_def bytesEqual_iff)
qed

lemma below_is_orphan:
  "detectOrphanRules (\<lambda>_. False) (Inr [''org-c.md'']) ''o'' [''o/b/c.md'' \<mapsto> ''y'', ''w/org-c.md'' \<mapsto> ''y''] = [''org-c.md'']"
  by code_simp

end
