(* ===== verification/Fed_Incidents.thy ===== *)
theory Fed_Incidents
  imports Fed_SharedDebt Fed_Ledger
begin

text \<open>
  The table of incidents that concern several workspaces,
  \<^verbatim>\<open>pkg/federation/shared_incidents.go\<close>: a row is put before the footer unless the identifier is
  already in the text. The date is an argument.
\<close>

definition sharedIncidentsFile :: string where "sharedIncidentsFile = ''SHARED_INCIDENTS.md''"
definition sharedIncidentsSection :: string where "sharedIncidentsSection = ''## Cross-Workspace Incidents''"
definition incTableHeader :: string where "incTableHeader = ''| ID | Severity | Workspace | Services | Summary | Date |''"
definition incTableSep :: string where "incTableSep = ''|----|----------|-----------|----------|---------|------|''"

definition dots :: string where "dots = [CHR 0xE2, CHR 0x80, CHR 0xA6]"

definition incident_row :: "string \<Rightarrow> string \<Rightarrow> string \<Rightarrow> string \<Rightarrow> string \<Rightarrow> string list \<Rightarrow> string" where
  "incident_row now i severity wsOrigin anomaly services =
     (let svcs = str_join '', '' services;
          svcStr = (if svcs = '''' then ''_unknown_'' else svcs);
          short = (if length anomaly > 80 then take 80 anomaly @ dots else anomaly)
      in ''| '' @ i @ '' | '' @ severity @ '' | '' @ wsOrigin @ '' | '' @ svcStr @ '' | '' @ short @ '' | '' @ now @ '' |'')"

text \<open>The last line that begins with the footer.\<close>

definition last_footer :: "string list \<Rightarrow> nat option" where
  "last_footer ls = find (\<lambda>i. has_prefix (trim_space (ls ! i)) footerPrefix) (rev [0..<length ls])"

definition incident_text :: "string \<Rightarrow> string \<Rightarrow> string \<Rightarrow> string" where
  "incident_text now newRow content =
     (let newFooter = footerPrefix @ '' '' @ now @ ''_''
      in if content = '''' then
           str_join [newline] [''# Shared Incidents'', '''',
             ''_Auto-generated by neo_radar INCIDENT_SEARCH scope:project '' @ [CHR 0xE2, CHR 0x80, CHR 0x94] @ '' do not edit manually._'', '''',
             sharedIncidentsSection, '''', incTableHeader, incTableSep, newRow, '''', newFooter, '''']
         else (let ls = split_char newline content
               in str_join [newline] (case last_footer ls of
                    Some f \<Rightarrow> take f ls @ [newRow, ''''] @ drop f (ls[f := newFooter])
                  | None \<Rightarrow> ls @ [newRow, '''', newFooter, ''''])))"

definition AppendSharedIncident ::
    "os \<Rightarrow> string \<Rightarrow> string \<Rightarrow> string \<Rightarrow> string \<Rightarrow> string \<Rightarrow> string \<Rightarrow> string list \<Rightarrow> disk \<Rightarrow> error option \<times> disk" where
  "AppendSharedIncident S now projectDir i severity wsOrigin anomaly services dk =
     (let path = path_join [projectDir, sharedIncidentsFile]
      in case os_mkdir S (dir_of path) of
           Some e \<Rightarrow> (Some e, dk)
         | None \<Rightarrow>
             (case (case read_file S path dk of Inl e \<Rightarrow> if e = NotExist then Inr '''' else Inl e | Inr data \<Rightarrow> Inr data) of
                Inl e \<Rightarrow> (Some e, dk)
              | Inr content \<Rightarrow>
                  if str_contains content (''| '' @ i @ '' |'') then (None, dk)
                  else write_file S path (incident_text now (incident_row now i severity wsOrigin anomaly services) content) dk))"

section \<open>Each incident once\<close>

lemma join_contains: "x \<in> set ls \<Longrightarrow> str_contains (str_join sep ls) x"
proof (induction ls)
  case (Cons y ls)
  show ?case
  proof (cases "ls = []")
    case True
    then show ?thesis using Cons.prems by (auto simp: str_contains_iff intro: exI [of _ "[]"])
  next
    case False
    then have e: "str_join sep (y # ls) = y @ sep @ str_join sep ls" by (rule str_join_Cons)
    show ?thesis
    proof (cases "x = y")
      case True
      then show ?thesis unfolding e str_contains_iff by (intro exI [of _ "[]"] exI) simp
    next
      case x: False
      then obtain u v where "str_join sep ls = u @ x @ v" using Cons by (auto simp: str_contains_iff)
      then show ?thesis unfolding e str_contains_iff by (intro exI [of _ "y @ sep @ u"] exI [of _ v]) simp
    qed
  qed
qed simp

lemma contains_trans: "str_contains t r \<Longrightarrow> str_contains r p \<Longrightarrow> str_contains t p"
  unfolding str_contains_iff by (metis append.assoc)

lemma text_has_row: "str_contains (incident_text now r content) r"
proof (cases "content = ''''")
  case True
  show ?thesis unfolding incident_text_def Let_def if_P [OF True] by (rule join_contains) simp
next
  case False
  show ?thesis unfolding incident_text_def Let_def if_not_P [OF False]
    by (rule join_contains) (simp split: option.split)
qed

lemma row_has_id: "str_contains (incident_row now i severity ws anomaly services) (''| '' @ i @ '' |'')"
proof -
  let ?svcs = "str_join '', '' services"
  let ?tail = "'' '' @ severity @ '' | '' @ ws @ '' | '' @ (if ?svcs = '''' then ''_unknown_'' else ?svcs) @ '' | '' @
    (if length anomaly > 80 then take 80 anomaly @ dots else anomaly) @ '' | '' @ now @ '' |''"
  have "incident_row now i severity ws anomaly services = [] @ (''| '' @ i @ '' |'') @ ?tail"
    by (simp add: incident_row_def Let_def)
  then show ?thesis unfolding str_contains_iff by blast
qed

text \<open>An incident that was reported recorded is in the file, and recording one of that identifier again changes nothing.\<close>

lemma incident_once:
  assumes "AppendSharedIncident S now projectDir i severity ws anomaly services dk = (None, dk')"
    and "os_read S (path_join [projectDir, sharedIncidentsFile]) = None"
  shows "AppendSharedIncident S now' projectDir i severity' ws' anomaly' services' dk' = (None, dk')"
proof -
  let ?path = "path_join [projectDir, sharedIncidentsFile]"
  have "os_mkdir S (dir_of ?path) = None" using assms(1) by (auto simp: AppendSharedIncident_def Let_def split: option.splits)
  moreover have "\<exists>s. dk' ?path = Some s \<and> str_contains s (''| '' @ i @ '' |'')"
    using assms contains_trans [OF text_has_row row_has_id]
    by (auto simp: AppendSharedIncident_def Let_def read_file_def write_file_def split: option.splits if_splits)
  ultimately show ?thesis using assms(2) by (auto simp: AppendSharedIncident_def Let_def read_file_def)
qed

text \<open>The test looks at every cell: an incident named like the workspace of another is not recorded.\<close>

lemma incident_dropped:
  "str_contains (incident_row ''d'' ''INC-1'' ''high'' ''core'' ''a'' []) (''| '' @ ''core'' @ '' |'')"
  by (simp add: incident_row_def)

text \<open>The summary is cut at byte 80, between the bytes of a character too.\<close>

lemma cut_within_character:
  "length anomaly = 79 \<Longrightarrow> incident_row now i sev ws (anomaly @ [CHR 0xC3, CHR 0xB3]) [] =
    ''| '' @ i @ '' | '' @ sev @ '' | '' @ ws @ '' | _unknown_ | '' @ anomaly @ [CHR 0xC3] @ dots @ '' | '' @ now @ '' |''"
  by (simp add: incident_row_def)

end
