(* ===== verification/Spec2Isabelle.thy ===== *)
theory Spec2Isabelle
  imports Rag_Props State_QueueProps State_Plan State_MemoryProps State_TrustProps State_DaemonProps State_EventProps
    State_Audit State_Mind Swarm_CrdtProps Swarm_LwwProps Swarm_Raft
    Brain_Lines Brain_Hlc Brain_MergeProps
    Auth_AuditProps Sre_Breaker Rate_Limit Nexus_Ports Nexus_Debt Pubsub_Bus Wms_Idempotency Graph_Tarjan Fed_SharedDebt
    Sre_Ssrf Rag_Reload Rag_Sanitize Rag_DocsProps Rag_DirectivesProps Rag_SessionProps
    Mctx_GossipProps
    Know_Tool
    Fed_Org
    Fed_Sync Fed_Incidents
begin

text \<open>
  A verification library for neoanvil, an orchestrator that serves tools to coding agents over
  MCP (\<^verbatim>\<open>cmd/neo-mcp\<close>), runs one such server per workspace under a dispatcher
  (\<^verbatim>\<open>cmd/neo-nexus\<close>), and keeps its state in BoltDB buckets, markdown files and in-memory
  structures. The library models the packages that hold the program's own decisions; the
  servers, clients and file walks around them are not modelled.

  \<^bold>\<open>How the parts interact.\<close> A tool call looks up the caches of \<^verbatim>\<open>pkg/rag\<close>, whose index of code is
  kept in a log of buckets, cleaned by a sanitizer and compared with the logs of peers by hash
  trees (\<^verbatim>\<open>pkg/mctx\<close>); the same log holds the directives and the certified sessions. The memory
  tool stores agents' notes, messages and epics in \<^verbatim>\<open>pkg/knowledge\<close>. The planner of \<^verbatim>\<open>pkg/state\<close>
  reads the master plan, queues its tasks, keeps the episodic memory and certifies batches; its
  daemon executes queued tasks, choosing a back end by budget and breaker, auditing each result,
  and deciding by the trust it has earned whether the operator must approve. Swarm nodes vote and
  share counters and file locks as replicated data (\<^verbatim>\<open>pkg/swarm\<close>); snapshots of two machines are
  merged by \<^verbatim>\<open>pkg/brain\<close>. Credential use is logged (\<^verbatim>\<open>pkg/auth\<close>), calls to outside services pass
  the address guard and the breaker of \<^verbatim>\<open>pkg/sre\<close> and the limiters of \<^verbatim>\<open>pkg/ratelimit\<close> and
  \<^verbatim>\<open>pkg/notify\<close>, events reach the operator over \<^verbatim>\<open>pkg/pubsub\<close>, workspaces get their ports and
  their debt from \<^verbatim>\<open>pkg/nexus\<close>, share tasks, contracts, debt, incidents and directives through the
  ledgers of \<^verbatim>\<open>pkg/federation\<close>, and order their dependencies by \<^verbatim>\<open>pkg/graph\<close>.

  \<^bold>\<open>Prelude and interfaces.\<close> \<open>Neo_Prelude\<close> has the machine types, decimal and hexadecimal
  printing with its inverse, the string functions of Go the code uses, sorting, and the
  collections \<open>neo_defs\<close> and \<open>neo_inv\<close>; \<open>Neo_Text\<close> splitting, trimming and joining of texts, and
  \<open>Neo_Disk\<close> paths and a disk of small files. \<open>Lru_Iface\<close> states as locales what the callers of a
  bounded cache and of a ring of records rely on, and proves there that enough other keys must
  be touched before an entry is lost; \<open>Rag_Lru\<close> and \<open>Rag_Ring\<close> interpret them on the caches.
  \<open>Bolt_Iface\<close> is BoltDB as a locale: the operations of a bucket and the laws its documentation
  promises; \<open>Json_Iface\<close> is the JSON codec of one type, with the law that what it keeps reads back,
  and \<open>Json_Records\<close> builds such codecs for records of texts. The components that store are
  functions of any such bucket and codec, their lemmas are proved from the laws, and the sorted
  association list and the field codecs interpret them.

  \<^bold>\<open>Components.\<close> One group of definitions per component, named as in the code where a name is free.
  \<^item> \<open>Rag_Ring\<close>, \<open>Rag_Lru\<close>, \<open>Rag_QueryCache\<close>, \<open>Rag_TextCache\<close>, \<open>Rag_Cache\<close>, \<open>Rag_Props\<close>:
    \<^verbatim>\<open>pkg/rag/cache_window.go\<close>, \<^verbatim>\<open>query_cache.go\<close>, \<^verbatim>\<open>text_cache.go\<close>, \<^verbatim>\<open>cache.go\<close>. The linked list with its map
    is a record of cells; hits, evictions, resizing, generations, miss targets, windows.
  \<^item> \<open>Rag_Wal\<close>, \<open>Rag_Docs\<close>, \<open>Rag_DocsProps\<close>, \<open>Rag_Directives\<close>, \<open>Rag_DirectivesProps\<close>, \<open>Rag_Sessions\<close>,
    \<open>Rag_SessionProps\<close>: the buckets of \<^verbatim>\<open>pkg/rag/wal.go\<close>: graph, documents, directives, sessions.
    \<open>Rag_Hnsw\<close>, \<open>Rag_Reload\<close>: the index of \<^verbatim>\<open>pkg/rag/hsnw.go\<close> over any distance, and its reload from
    the log. \<open>Rag_Sanitize\<close>: \<^verbatim>\<open>wal_sanitizer.go\<close>. \<open>Rag_Merkle\<close>, \<open>Rag_MerkleProps\<close>: \<^verbatim>\<open>merkle.go\<close>.
    \<open>Mctx_Gossip\<close>, \<open>Mctx_GossipProps\<close>: \<^verbatim>\<open>pkg/mctx/gossip.go\<close>, a cycle between two nodes.
  \<^item> \<open>Know_Files\<close>, \<open>Know_Store\<close>, \<open>Know_Cache\<close>, \<open>Know_Rows\<close>, \<open>Know_Props\<close>, \<open>Know_Inbox\<close>, \<open>Know_Tool\<close>:
    \<^verbatim>\<open>pkg/knowledge\<close> (\<^verbatim>\<open>filesync.go\<close>, \<^verbatim>\<open>store.go\<close>, \<^verbatim>\<open>hotcache.go\<close>, \<^verbatim>\<open>org_store.go\<close>) and the
    actions of \<^verbatim>\<open>cmd/neo-mcp/tool_memory.go\<close> that change the store.
  \<^item> \<open>State_Types\<close>, \<open>State_Planner\<close>, \<open>State_Queue\<close>, \<open>State_Lifecycle\<close>, \<open>State_QueueProps\<close>,
    \<open>State_Plan\<close>, \<open>State_Memory\<close>, \<open>State_MemoryProps\<close>: \<^verbatim>\<open>pkg/state/planner.go\<close> and
    \<^verbatim>\<open>daemon_migration.go\<close>, the task queue with every writer of its bucket, the plan parser, memex,
    contract alerts and batch certification. Every transaction is all or nothing.
  \<^item> \<open>State_Trust\<close>, \<open>State_TrustProps\<close>, \<open>State_Daemon\<close>, \<open>State_DaemonProps\<close>, \<open>State_EventProps\<close>,
    \<open>State_Audit\<close>, \<open>State_Mind\<close>: the daemon files of \<^verbatim>\<open>pkg/state\<close>: trust scores, budget, results,
    back ends, progress, pair audit events, the audit pipeline, cognitive stages, causal memory.
  \<^item> \<open>Swarm_Slots\<close>, \<open>Swarm_Crdt\<close>, \<open>Swarm_CrdtProps\<close>, \<open>Swarm_LwwProps\<close>, \<open>Swarm_Raft\<close>: \<^verbatim>\<open>pkg/swarm\<close>.
    The tables of 256 counters and 1024 lock slots are lists; replicas refine functions from
    keys, and gossip is an inductive relation over all of them. Votes and promotions are their
    single atomic accesses, interleaved.
  \<^item> \<open>Brain_Lines\<close>, \<open>Brain_Hlc\<close>, \<open>Brain_Merge\<close>, \<open>Brain_MergeProps\<close>: \<^verbatim>\<open>pkg/brain/diff\<close>, the clock of
    \<^verbatim>\<open>manifest.go\<close> by its atomic accesses, and \<^verbatim>\<open>pkg/brain/merge\<close>.
  \<^item> \<open>Auth_Audit\<close>, \<open>Auth_AuditProps\<close>: \<^verbatim>\<open>pkg/auth/audit.go\<close>. \<open>Sre_Breaker\<close>: \<^verbatim>\<open>pkg/sre/breaker.go\<close>.
    \<open>Sre_Ssrf\<close>: \<^verbatim>\<open>pkg/sre/ssrf.go\<close>. \<open>Rate_Limit\<close>: \<^verbatim>\<open>pkg/ratelimit/token_bucket.go\<close>,
    \<^verbatim>\<open>pkg/notify/bucket.go\<close>.
  \<^item> \<open>Nexus_Ports\<close>, \<open>Nexus_Debt\<close>: \<^verbatim>\<open>pkg/nexus/port_allocator.go\<close>, \<^verbatim>\<open>debt.go\<close>. \<open>Pubsub_Bus\<close>:
    \<^verbatim>\<open>pkg/pubsub/bus.go\<close>. \<open>Wms_Idempotency\<close>: \<^verbatim>\<open>pkg/wms/idempotency.go\<close>. \<open>Graph_Dag\<close>,
    \<open>Graph_Tarjan\<close>: \<^verbatim>\<open>pkg/graph/dag.go\<close>.
  \<^item> \<open>Fed_SharedDebt\<close>, \<open>Fed_Ledger\<close>, \<open>Fed_Tasks\<close>, \<open>Fed_Org\<close>, \<open>Fed_Sync\<close>, \<open>Fed_Incidents\<close>:
    \<^verbatim>\<open>pkg/federation\<close>: the table of shared debt, the ledgers kept as JSON in a markdown file (tasks,
    proposals, directives and debt of the organisation), the mirror of directive files, incidents.

  \<^bold>\<open>What the lemmas show.\<close> For each component: the behaviour of its operations on every branch,
  errors included; an invariant that every operation keeps; and the properties, each after a
  text that states it. Equivalence with a reference: the line diff is a shortest script, the
  components are exactly the strongly connected ones, a reload restores exactly what was
  logged, the diff of two hash trees is exactly the leaves that differ, the address guard lets
  through exactly the public addresses. Refinement: caches, counters and lock sets stand for
  maps. Histories: the tasks of the queue over operations, migrations and restored snapshots,
  batches, elections, the bus and the idempotency middleware under interleaving, ports over
  restarts, the audit log over appends, knowledge over operations and file events, the ledgers
  over failing writes. Round trips: trust records, memories, bucket diffs, ledger rows,
  directives, conflicts. Where the code falls short of what it means, a lemma shows it on a
  concrete run.

  \<^bold>\<open>Loops and bounds.\<close> Loops over data are structural recursion. The chain of intents is followed
  at most ten rounds, as the code does. The probe for a port ends because its attempts are
  bounded by the range. The search for components has the number of nodes as fuel, which is
  enough because each nested call visits a new node; the greedy search of the index ends by a
  measure, as each pass reaches a node for the first time. A vote is at most five accesses, a
  promotion two. Walks up the directory tree stop after five levels. Task identifiers have three
  digits, so the order of the queue is stated for up to 999 tasks. Counters of the caches,
  sequence numbers, terms, hashes and the logical counter of the clock wrap at 64 bits as the
  code's.

  \<^bold>\<open>Concurrency.\<close> Operations under one lock are one step. Where the code uses no lock, or lets it go
  inside an operation, the steps are smaller: single atomic accesses for the votes of
  \<open>Swarm_Raft\<close> and the clock of \<open>Brain_Hlc\<close>, critical sections for the breaker, the bus and the
  idempotency middleware. The replicated tables and the cognitive stages are modelled for
  operations that do not overlap, and the ledgers of \<^verbatim>\<open>pkg/federation\<close> for the calls of one
  process. Properties that hold only for calls that do not overlap say so.

  \<^bold>\<open>Conventions.\<close> Clock readings and their formatting, random numbers, hashes (SHA-256 is an
  argument), the outcomes of system calls and of JSON are arguments; a map visited in arbitrary
  order is a list in the order of one visit. \<^verbatim>\<open>db.Batch\<close> may run its function again; where that
  counts into variables outside, the runs that were rolled back are an argument. Texts that JSON
  keeps form a set \<open>Z\<close> with the ASCII texts, closed under concatenation. A loop that writes
  to the bucket it visits is modelled as putting each key once. Strings are bytes; lower case
  and white space are those of ASCII. Durations and counters that cannot reach 64 bits in
  practice are integers. Float scores are reals. A zero time is 0.

  \<^bold>\<open>Not modelled.\<close> Nil receivers, rounding of floats, lossy JSON (an entry or document that JSON
  changes is excluded by a hypothesis), panics of callbacks. Of the packages: HTTP clients and
  servers with the sessions of \<^verbatim>\<open>pkg/deepseek\<close>, tree-sitter and \<^verbatim>\<open>go/ssa\<close> indexers, vector
  arithmetic with its assembly kernels, embedding and lexical search, archives, cryptography and
  the keyring, websockets, kernel probes, the files of \<^verbatim>\<open>pkg/sre/snapshot.go\<close> (only the lists of
  tasks they hold), incidents and observability over BoltDB, configuration, the terminal
  interface and the tool handlers that format results.
\<close>

end
